(* ===== verification/Prelude.thy ===== *)
theory Prelude
  imports Main "HOL-Library.Word" "HOL-Library.Char_ord" "HOL-Library.List_Lexorder"
    "HOL-Library.Code_Target_Nat"
begin

unbundle bit_operations_syntax

text \<open>
  Shared vocabulary of the development: machine integers at their width, Go strings and byte
  slices, results that carry an error, and the few functions of Go's standard library that
  the modelled code calls (\<open>strings\<close>, \<open>path\<close>, \<open>unicode/utf8\<close>, \<open>sort\<close>).

  A Go string and a \<open>[]byte\<close> are both sequences of bytes, so both are an Isabelle
  \<open>string\<close> (a list of 8-bit characters); the comparison of strings is the lexicographic
  order on bytes, as in Go. \<open>uint64\<close>, \<open>uint32\<close> and \<open>uint\<close> (64-bit platforms) are
  words, so \<open>+\<close> and \<open>-\<close> wrap around.
\<close>

type_synonym u8 = "8 word"
type_synonym u32 = "32 word"
type_synonym u64 = "64 word"
type_synonym bytes = string

named_theorems result_simps \<open>case analysis of results that carry an error\<close>
named_theorems gostr_simps \<open>evaluation rules of the string functions\<close>

section \<open>Results with errors\<close>

text \<open>
  A function that returns \<open>(T, error)\<close> returns \<open>Inl e\<close> for a non-nil error and
  \<open>Inr x\<close> otherwise; \<open>andthen\<close> is the \<open>if err != nil { return err }\<close> idiom.
\<close>

definition andthen :: "'e + 'a \<Rightarrow> ('a \<Rightarrow> 'e + 'b) \<Rightarrow> 'e + 'b" where
  "andthen r f = (case r of Inl e \<Rightarrow> Inl e | Inr x \<Rightarrow> f x)"

lemma andthen_simps [simp]:
  "andthen (Inl e) f = Inl e"
  "andthen (Inr x) f = f x"
  by (simp_all add: andthen_def)

lemma andthen_Inr [result_simps]:
  "andthen r f = Inr y \<longleftrightarrow> (\<exists>x. r = Inr x \<and> f x = Inr y)"
  by (cases r) auto

lemma andthen_Inl [result_simps]:
  "andthen r f = Inl e \<longleftrightarrow> r = Inl e \<or> (\<exists>x. r = Inr x \<and> f x = Inl e)"
  by (cases r) auto

lemma andthen_cong [fundef_cong]:
  "r = r' \<Longrightarrow> (\<And>x. r' = Inr x \<Longrightarrow> f x = g x) \<Longrightarrow> andthen r f = andthen r' g"
  by (cases r') auto

text \<open>\<open>map_err\<close> is the wrapping \<open>fmt.Errorf("...: %w", err)\<close> of a returned error.\<close>

definition map_err :: "('e \<Rightarrow> 'f) \<Rightarrow> 'e + 'a \<Rightarrow> 'f + 'a" where
  "map_err f r = (case r of Inl e \<Rightarrow> Inl (f e) | Inr x \<Rightarrow> Inr x)"

lemma map_err_simps [simp]:
  "map_err f (Inl e) = Inl (f e)"
  "map_err f (Inr x) = Inr x"
  by (simp_all add: map_err_def)

lemma map_err_Inr [result_simps]: "map_err f r = Inr x \<longleftrightarrow> r = Inr x"
  by (cases r) auto

lemma map_err_Inl [result_simps]: "map_err f r = Inl e \<longleftrightarrow> (\<exists>e'. r = Inl e' \<and> e = f e')"
  by (cases r) auto

definition is_ok :: "'e + 'a \<Rightarrow> bool" where
  "is_ok r = (case r of Inl _ \<Rightarrow> False | Inr _ \<Rightarrow> True)"

lemma is_ok_simps [simp]:
  "\<not> is_ok (Inl e)" "is_ok (Inr x)"
  by (simp_all add: is_ok_def)

lemma is_ok_iff: "is_ok r \<longleftrightarrow> (\<exists>x. r = Inr x)"
  by (cases r) auto

text \<open>\<open>guard c e k\<close> is the early return \<open>if c { return e }\<close> before \<open>k\<close>.\<close>

definition guard :: "bool \<Rightarrow> 'e \<Rightarrow> 'e + 'a \<Rightarrow> 'e + 'a" where
  "guard c e k = (if c then Inl e else k)"

lemma guard_simps [simp]:
  "guard True e k = Inl e"
  "guard False e k = k"
  by (simp_all add: guard_def)

lemma guard_Inr [result_simps]: "guard c e k = Inr x \<longleftrightarrow> \<not> c \<and> k = Inr x"
  by (simp add: guard_def)

lemma guard_Inl [result_simps]: "guard c e k = Inl e' \<longleftrightarrow> (c \<and> e = e') \<or> (\<not> c \<and> k = Inl e')"
  by (auto simp: guard_def)

section \<open>Go strings\<close>

definition ch :: "nat \<Rightarrow> char" where
  "ch n = char_of n"

definition code_of :: "char \<Rightarrow> nat" where
  "code_of c = of_char c"

lemma code_of_ch [simp]: "n < 256 \<Longrightarrow> code_of (ch n) = n"
  by (simp add: ch_def code_of_def)

lemma ch_code_of [simp]: "ch (code_of c) = c"
  by (simp add: ch_def code_of_def)

lemma ch_inject: "m < 256 \<Longrightarrow> n < 256 \<Longrightarrow> ch m = ch n \<longleftrightarrow> m = n"
  by (metis code_of_ch)

lemma code_of_less [simp]: "code_of c < 256"
  by (simp add: code_of_def nat_of_char_less_256)

definition HasPrefix :: "string \<Rightarrow> string \<Rightarrow> bool" where
  "HasPrefix s p \<longleftrightarrow> take (length p) s = p"

definition HasSuffix :: "string \<Rightarrow> string \<Rightarrow> bool" where
  "HasSuffix s p \<longleftrightarrow> length p \<le> length s \<and> drop (length s - length p) s = p"

definition TrimPrefix :: "string \<Rightarrow> string \<Rightarrow> string" where
  "TrimPrefix s p = (if HasPrefix s p then drop (length p) s else s)"

definition TrimSuffix :: "string \<Rightarrow> string \<Rightarrow> string" where
  "TrimSuffix s p = (if HasSuffix s p then take (length s - length p) s else s)"

fun IndexByte :: "string \<Rightarrow> char \<Rightarrow> nat option" where
  "IndexByte [] c = None"
| "IndexByte (x # xs) c = (if x = c then Some 0 else map_option Suc (IndexByte xs c))"

text \<open>\<open>strings.Split\<close> with a one-byte separator: never empty, one more part than separators.\<close>

fun SplitByte :: "char \<Rightarrow> string \<Rightarrow> string list" where
  "SplitByte c [] = [[]]"
| "SplitByte c (x # xs) =
     (if x = c then [] # SplitByte c xs
      else (case SplitByte c xs of [] \<Rightarrow> [[x]] | p # ps \<Rightarrow> (x # p) # ps))"

fun JoinByte :: "char \<Rightarrow> string list \<Rightarrow> string" where
  "JoinByte c [] = []"
| "JoinByte c [p] = p"
| "JoinByte c (p # ps) = p @ c # JoinByte c ps"

definition to_lower_byte :: "char \<Rightarrow> char" where
  "to_lower_byte c = (if 65 \<le> code_of c \<and> code_of c \<le> 90 then ch (code_of c + 32) else c)"

definition to_upper_byte :: "char \<Rightarrow> char" where
  "to_upper_byte c = (if 97 \<le> code_of c \<and> code_of c \<le> 122 then ch (code_of c - 32) else c)"

text \<open>
  \<open>space_len s\<close> is the length of the white-space rune (\<open>unicode.IsSpace\<close>, in UTF-8) at
  the head of \<open>s\<close>, 0 if there is none; \<open>is_blank s\<close> is \<open>strings.TrimSpace(s) == ""\<close>.
\<close>

definition space_len :: "string \<Rightarrow> nat" where
  "space_len s =
     (case map code_of (take 3 s) of
        [] \<Rightarrow> 0
      | a # bs \<Rightarrow>
          if a \<in> {9, 10, 11, 12, 13, 32} then 1
          else if a = 194 \<and> take 1 bs \<in> {[133], [160]} then 2
          else if (a = 225 \<and> bs = [154, 128]) \<or>
               (a = 226 \<and> length bs = 2 \<and> bs ! 0 = 128 \<and>
                  ((128 \<le> bs ! 1 \<and> bs ! 1 \<le> 138) \<or> bs ! 1 \<in> {168, 169, 175})) \<or>
               (a = 226 \<and> bs = [129, 159]) \<or> (a = 227 \<and> bs = [128, 128]) then 3
          else 0)"

lemma space_len_pos: "0 < space_len s \<Longrightarrow> s \<noteq> []"
  by (auto simp: space_len_def)

function is_blank :: "string \<Rightarrow> bool" where
  "is_blank s = (if s = [] then True else if space_len s = 0 then False else is_blank (drop (space_len s) s))"
  by pat_completeness auto
termination
  by (relation "measure length") (auto dest: space_len_pos)

declare is_blank.simps [simp del]

lemma is_blank_Nil [simp]: "is_blank []"
  by (simp add: is_blank.simps)

lemma is_blank_visible: "s \<noteq> [] \<Longrightarrow> space_len s = 0 \<Longrightarrow> \<not> is_blank s"
  by (subst is_blank.simps) simp

text \<open>\<open>strings.TrimSpace\<close>: the leading and the trailing white-space runes are cut.\<close>

function trim_left :: "string \<Rightarrow> string" where
  "trim_left s = (if space_len s = 0 then s else trim_left (drop (space_len s) s))"
  by pat_completeness auto
termination by (relation "measure length") (auto intro!: diff_less dest: space_len_pos)

declare trim_left.simps [simp del]

definition trim_right :: "string \<Rightarrow> string" where
  "trim_right s = take (hd (filter (\<lambda>n. is_blank (drop n s)) [0..<Suc (length s)])) s"

definition TrimSpace :: "string \<Rightarrow> string" where
  "TrimSpace s = trim_right (trim_left s)"

lemma HasPrefix_append [simp]: "HasPrefix (p @ s) p"
  by (simp add: HasPrefix_def)

lemma HasPrefix_iff: "HasPrefix s p \<longleftrightarrow> (\<exists>t. s = p @ t)"
  by (metis HasPrefix_append HasPrefix_def append_take_drop_id)

lemma HasPrefix_Nil [simp]: "HasPrefix s []"
  by (simp add: HasPrefix_def)

lemma HasPrefix_single: "HasPrefix s [c] \<longleftrightarrow> s \<noteq> [] \<and> hd s = c"
  by (cases s) (auto simp: HasPrefix_def)

lemma HasSuffix_iff: "HasSuffix s p \<longleftrightarrow> (\<exists>t. s = t @ p)"
proof
  assume "HasSuffix s p"
  then have "s = take (length s - length p) s @ p"
    unfolding HasSuffix_def by (metis append_take_drop_id)
  then show "\<exists>t. s = t @ p" by blast
qed (auto simp: HasSuffix_def)

lemma SplitByte_not_Nil [simp]: "SplitByte c s \<noteq> []"
  by (induction s) (auto split: list.splits)

lemma SplitByte_no_sep: "p \<in> set (SplitByte c s) \<Longrightarrow> c \<notin> set p"
  by (induction s arbitrary: p) (auto split: if_splits list.splits)

lemma JoinByte_Cons: "ps \<noteq> [] \<Longrightarrow> JoinByte c (p # ps) = p @ c # JoinByte c ps"
  by (cases ps) auto

lemma JoinByte_SplitByte [simp]: "JoinByte c (SplitByte c s) = s"
proof (induction s)
  case (Cons x xs)
  obtain p ps where sp: "SplitByte c xs = p # ps" by (cases "SplitByte c xs") auto
  with Cons show ?case by (cases ps) auto
qed simp

lemma SplitByte_append_sep:
  "c \<notin> set p \<Longrightarrow> SplitByte c (p @ c # s) = p # SplitByte c s"
  by (induction p) auto

lemma SplitByte_single: "c \<notin> set p \<Longrightarrow> SplitByte c p = [p]"
  by (induction p) auto

lemma SplitByte_JoinByte:
  "ps \<noteq> [] \<Longrightarrow> (\<forall>p \<in> set ps. c \<notin> set p) \<Longrightarrow> SplitByte c (JoinByte c ps) = ps"
proof (induction ps)
  case (Cons p ps)
  then show ?case
    by (cases "ps = []") (auto simp: SplitByte_single JoinByte_Cons SplitByte_append_sep)
qed simp

lemma IndexByte_None [simp]: "IndexByte s c = None \<longleftrightarrow> c \<notin> set s"
  by (induction s) auto

lemma IndexByte_append:
  "c \<notin> set p \<Longrightarrow> IndexByte (p @ c # s) c = Some (length p)"
  by (induction p) auto

lemma IndexByte_Some_less: "IndexByte s c = Some i \<Longrightarrow> i < length s \<and> s ! i = c"
  by (induction s arbitrary: i) (auto split: if_splits)

section \<open>Saturating addition\<close>

text \<open>
  \<open>saturatingAdd\<close> of \<open>mod/archive/helper.go\<close> and \<open>saturatingAddUint64\<close> of
  \<open>mod/storage/ingest.go\<close> are the same function: the sum and whether it overflowed.
\<close>

definition saturatingAdd :: "u64 \<Rightarrow> u64 \<Rightarrow> u64 \<times> bool" where
  "saturatingAdd leftValue rightValue =
     (if rightValue > NOT 0 - leftValue then (NOT 0, True) else (leftValue + rightValue, False))"

lemma unat_u64_less: "unat (a :: u64) < 18446744073709551616"
proof -
  have "unat a < 2 ^ LENGTH(64)" by (rule unsigned_less)
  then show ?thesis by simp
qed

lemma unat_u64_max [simp]: "unat (- 1 :: u64) = 18446744073709551615"
  by (simp add: unsigned_minus_1_eq_mask mask_eq_exp_minus_1)

lemma unat_NOT_0_minus: "unat (- 1 - (a :: u64)) = 18446744073709551615 - unat a"
  using unat_u64_less [of a] by (subst unat_sub) (simp_all add: word_le_nat_alt)

lemma saturatingAdd_overflow:
  "snd (saturatingAdd a b) \<longleftrightarrow> 2 ^ 64 \<le> unat a + unat b"
  using unat_u64_less [of a] by (auto simp: saturatingAdd_def word_less_nat_alt unat_NOT_0_minus)

lemma saturatingAdd_value:
  "unat (fst (saturatingAdd a b)) = min (unat a + unat b) (2 ^ 64 - 1)"
proof (cases "snd (saturatingAdd a b)")
  case True
  then have "fst (saturatingAdd a b) = - 1" by (auto simp: saturatingAdd_def split: if_splits)
  moreover have "2 ^ 64 \<le> unat a + unat b" using True by (simp add: saturatingAdd_overflow)
  ultimately show ?thesis by simp
next
  case False
  then have "fst (saturatingAdd a b) = a + b" by (auto simp: saturatingAdd_def split: if_splits)
  moreover have "unat a + unat b < 2 ^ 64" using False by (simp add: saturatingAdd_overflow)
  ultimately show ?thesis by (simp add: unat_word_ariths)
qed

end
