(* ===== verification/Util_Path.thy ===== *)
theory Util_Path
  imports Prelude
begin

text \<open>
  Path hygiene of archive entries: the pure part of \<open>mod/internal/util/path.go\<close>
  (\<open>CleanArchiveEntryPath\<close>, \<open>ValidateArchiveEntryPath\<close>, \<open>SymlinkTargetWithinRoot\<close> and
  what they call), with the functions of Go's \<open>path\<close> and \<open>unicode/utf8\<close> packages
  they use. The functions of the file that ask the file system (\<open>CanonicalPath\<close>,
  \<open>IsInsideOrEqual\<close>, \<open>PathsOverlap\<close>, \<open>JoinInside\<close>) are not modelled here.

  The lemmas show that an accepted path is made of harmless segments, that acceptance is
  stable (an accepted path cleans to itself) and that an accepted symlink target never
  climbs above the archive root while it is walked.
\<close>

section \<open>Go's unicode/utf8 and path packages\<close>

definition byte_in :: "nat \<Rightarrow> nat \<Rightarrow> char \<Rightarrow> bool" where
  "byte_in lo hi c \<longleftrightarrow> lo \<le> code_of c \<and> code_of c \<le> hi"

definition utf8_pair3 :: "char \<Rightarrow> char \<Rightarrow> bool" where
  "utf8_pair3 a b \<longleftrightarrow>
     (if code_of a = 224 then byte_in 160 191 b
      else if code_of a = 237 then byte_in 128 159 b
      else byte_in 225 239 a \<and> byte_in 128 191 b)"

definition utf8_pair4 :: "char \<Rightarrow> char \<Rightarrow> bool" where
  "utf8_pair4 a b \<longleftrightarrow>
     (if code_of a = 240 then byte_in 144 191 b
      else if code_of a = 244 then byte_in 128 143 b
      else byte_in 241 243 a \<and> byte_in 128 191 b)"

text \<open>\<open>utf8.ValidString\<close>: no overlong forms, no surrogates, nothing above U+10FFFF.\<close>

fun utf8_valid :: "string \<Rightarrow> bool" where
  "utf8_valid [] = True"
| "utf8_valid (a # s) =
     (if code_of a < 128 then utf8_valid s
      else (case s of [] \<Rightarrow> False
        | b # s2 \<Rightarrow>
            if byte_in 194 223 a then byte_in 128 191 b \<and> utf8_valid s2
            else (case s2 of [] \<Rightarrow> False
              | c # s3 \<Rightarrow>
                  if byte_in 224 239 a then utf8_pair3 a b \<and> byte_in 128 191 c \<and> utf8_valid s3
                  else (case s3 of [] \<Rightarrow> False
                    | d # s4 \<Rightarrow> utf8_pair4 a b \<and> byte_in 128 191 c \<and> byte_in 128 191 d \<and> utf8_valid s4))))"

definition slash :: char where "slash = CHR ''/''"

text \<open>\<open>path.Clean\<close>: the segments are pushed on a stack, \<open>..\<close> pops what it can pop.\<close>

fun clean_step :: "bool \<Rightarrow> string list \<Rightarrow> string \<Rightarrow> string list" where
  "clean_step rooted st p =
     (if p = [] \<or> p = ''.'' then st
      else if p = ''..'' then
        (case st of
           [] \<Rightarrow> (if rooted then [] else [''..''])
         | q # qs \<Rightarrow> (if q = ''..'' then ''..'' # st else qs))
      else p # st)"

definition clean_segments :: "bool \<Rightarrow> string list \<Rightarrow> string list" where
  "clean_segments rooted ps = rev (foldl (clean_step rooted) [] ps)"

definition path_Clean :: "string \<Rightarrow> string" where
  "path_Clean s =
     (if s = [] then ''.''
      else if hd s = slash then slash # JoinByte slash (clean_segments True (SplitByte slash s))
      else (let r = JoinByte slash (clean_segments False (SplitByte slash s))
            in if r = [] then ''.'' else r))"

definition path_Dir :: "string \<Rightarrow> string" where
  "path_Dir s = path_Clean (rev (dropWhile (\<lambda>c. c \<noteq> slash) (rev s)))"

definition path_Join :: "string \<Rightarrow> string \<Rightarrow> string" where
  "path_Join a b =
     (if a = [] \<and> b = [] then []
      else if a = [] then path_Clean b
      else path_Clean (a @ slash # b))"

section \<open>The checks of path.go\<close>

datatype path_error =
    PathTooLong | PathEmpty | PathNotUTF8 | PathBackslash | PathAbsolute | PathVolume
  | PathColon | PathControl | PathEmptyClean | PathTraversal | PathInvalidSegment
  | PathDotOrSpace | PathReserved | SymlinkEscapes

definition hasWindowsVolume :: "string \<Rightarrow> bool" where
  "hasWindowsVolume entryPath =
     (case entryPath of
        a # b # _ \<Rightarrow> b = CHR '':'' \<and> (byte_in 65 90 a \<or> byte_in 97 122 a)
      | _ \<Rightarrow> False)"

definition windowsReservedNameObj :: "string list" where
  "windowsReservedNameObj =
     [''AUX'', ''CON'', ''NUL'', ''PRN'',
      ''COM1'', ''COM2'', ''COM3'', ''COM4'', ''COM5'', ''COM6'', ''COM7'', ''COM8'', ''COM9'',
      ''CONIN$'', ''CONOUT$'',
      ''LPT1'', ''LPT2'', ''LPT3'', ''LPT4'', ''LPT5'', ''LPT6'', ''LPT7'', ''LPT8'', ''LPT9'']"

text \<open>
  The superscript digits U+00B9, U+00B2, U+00B3 (bytes C2 B9, C2 B2, C2 B3) become digits and
  \<open>strings.ToUpper\<close> follows. Outside ASCII only U+0131 (C4 B1) and U+017F (C5 BF) have an
  ASCII upper case; every other rune stays outside ASCII, so it is enough for the lookup in
  a table of ASCII names that its bytes stay outside ASCII.
\<close>

fun fold_base :: "string \<Rightarrow> string" where
  "fold_base [] = []"
| "fold_base [a] = [to_upper_byte a]"
| "fold_base (a # b # s) =
     (if code_of a = 194 \<and> code_of b = 185 then CHR ''1'' # fold_base s
      else if code_of a = 194 \<and> code_of b = 178 then CHR ''2'' # fold_base s
      else if code_of a = 194 \<and> code_of b = 179 then CHR ''3'' # fold_base s
      else if code_of a = 196 \<and> code_of b = 177 then CHR ''I'' # fold_base s
      else if code_of a = 197 \<and> code_of b = 191 then CHR ''S'' # fold_base s
      else to_upper_byte a # fold_base (b # s))"

definition hasWindowsReservedBase :: "string \<Rightarrow> bool" where
  "hasWindowsReservedBase pathPart =
     (let baseText = (case IndexByte pathPart (CHR ''.'') of
                        None \<Rightarrow> pathPart | Some i \<Rightarrow> take i pathPart)
      in fold_base baseText \<in> set windowsReservedNameObj)"

definition is_control :: "char \<Rightarrow> bool" where
  "is_control c \<longleftrightarrow> code_of c < 32 \<or> code_of c = 127"

definition archiveNameHygiene :: "string \<Rightarrow> path_error + unit" where
  "archiveNameHygiene name =
     guard (name = []) PathEmpty
    (guard (\<not> utf8_valid name) PathNotUTF8
    (guard (CHR 0x5C \<in> set name) PathBackslash
    (guard (HasPrefix name [slash]) PathAbsolute
    (guard (hasWindowsVolume name) PathVolume
    (guard (CHR '':'' \<in> set name) PathColon
    (guard (\<exists>c \<in> set name. is_control c) PathControl
    (Inr ())))))))"

definition escapes_root :: "string \<Rightarrow> bool" where
  "escapes_root p \<longleftrightarrow> p = ''..'' \<or> HasPrefix p ''../''"

definition SymlinkTargetWithinRoot :: "string \<Rightarrow> string \<Rightarrow> path_error + unit" where
  "SymlinkTargetWithinRoot symlinkPath target =
     andthen (archiveNameHygiene target) (\<lambda>_.
       let resolved = path_Join (path_Dir symlinkPath) target
       in guard (escapes_root resolved) SymlinkEscapes (Inr ()))"

fun check_segments :: "string list \<Rightarrow> path_error + unit" where
  "check_segments [] = Inr ()"
| "check_segments (pathPart # rest) =
     guard (pathPart = [] \<or> pathPart = ''.'' \<or> pathPart = ''..'') PathInvalidSegment
    (guard (HasSuffix pathPart '' '' \<or> HasSuffix pathPart ''.'') PathDotOrSpace
    (guard (hasWindowsReservedBase pathPart) PathReserved
    (check_segments rest)))"

definition CleanArchiveEntryPath :: "string \<Rightarrow> path_error + string" where
  "CleanArchiveEntryPath entryPath =
     andthen (archiveNameHygiene entryPath) (\<lambda>_.
       let cleanPath = path_Clean entryPath
       in guard (cleanPath = ''.'') PathEmptyClean
         (guard (escapes_root cleanPath) PathTraversal
         (andthen (check_segments (SplitByte slash cleanPath)) (\<lambda>_. Inr cleanPath))))"

definition ValidateArchiveEntryPath :: "string \<Rightarrow> u64 \<Rightarrow> path_error + unit" where
  "ValidateArchiveEntryPath entryPath maxBytes =
     guard (maxBytes > 0 \<and> int (length entryPath) > sint maxBytes) PathTooLong
    (andthen (CleanArchiveEntryPath entryPath) (\<lambda>_. Inr ()))"

section \<open>UTF-8 and separators\<close>

lemma utf8_valid_append_ascii:
  "code_of c < 128 \<Longrightarrow> utf8_valid (p @ c # s) \<longleftrightarrow> utf8_valid p \<and> utf8_valid s"
proof (induction p rule: utf8_valid.induct)
  case (2 a p)
  show ?case
  proof (cases "code_of a < 128")
    case True
    with 2 show ?thesis by simp
  next
    case False
    note IH = 2(2-4)[OF False]
    show ?thesis
    proof (cases p)
      case Nil
      with False \<open>code_of c < 128\<close> show ?thesis
        by (auto simp: byte_in_def utf8_pair3_def utf8_pair4_def split: list.splits)
    next
      case (Cons b p2)
      note p1 = Cons
      show ?thesis
      proof (cases p2)
        case Nil
        with False p1 \<open>code_of c < 128\<close> show ?thesis
          by (auto simp: byte_in_def utf8_pair3_def utf8_pair4_def split: list.splits)
      next
        case (Cons d p3)
        with False p1 IH \<open>code_of c < 128\<close> show ?thesis
          by (cases p3) (auto simp: byte_in_def)
      qed
    qed
  qed
qed simp

lemma code_of_slash [simp]: "code_of slash = 47"
  by (simp add: code_of_def slash_def)

lemma utf8_valid_split:
  "utf8_valid s \<Longrightarrow> p \<in> set (SplitByte slash s) \<Longrightarrow> utf8_valid p"
proof -
  have "utf8_valid (JoinByte slash ps) \<Longrightarrow> ps \<noteq> [] \<Longrightarrow> p \<in> set ps \<Longrightarrow> utf8_valid p" for ps
  proof (induction ps)
    case (Cons q ps)
    then show ?case
      by (cases "ps = []") (auto simp: JoinByte_Cons utf8_valid_append_ascii)
  qed simp
  from this [of "SplitByte slash s"]
  show "utf8_valid s \<Longrightarrow> p \<in> set (SplitByte slash s) \<Longrightarrow> utf8_valid p" by simp
qed

lemma utf8_valid_join:
  "(\<forall>p \<in> set ps. utf8_valid p) \<Longrightarrow> utf8_valid (JoinByte slash ps)"
proof (induction ps)
  case (Cons q ps)
  then show ?case
    by (cases "ps = []") (auto simp: JoinByte_Cons utf8_valid_append_ascii)
qed simp

section \<open>The stack of path.Clean\<close>

lemma clean_step_simps [simp]:
  "clean_step r st [] = st"
  "clean_step r st ''.'' = st"
  "clean_step r [] ''..'' = (if r then [] else [''..''])"
  "clean_step r (q # qs) ''..'' = (if q = ''..'' then ''..'' # q # qs else qs)"
  "p \<noteq> [] \<Longrightarrow> p \<noteq> ''.'' \<Longrightarrow> p \<noteq> ''..'' \<Longrightarrow> clean_step r st p = p # st"
  by simp_all

lemma clean_step_cases:
  obtains (same) "clean_step r st p = st"
  | (pop) q qs where "st = q # qs" "q \<noteq> ''..''" "clean_step r st p = qs"
  | (push) "clean_step r st p = p # st" "p \<noteq> []" "p \<noteq> ''.''"
      "p = ''..'' \<Longrightarrow> st = [] \<or> (\<exists>qs. st = ''..'' # qs)"
proof -
  consider "p = [] \<or> p = ''.''" | "p = ''..''" | "p \<noteq> []" "p \<noteq> ''.''" "p \<noteq> ''..''" by blast
  then show ?thesis
  proof cases
    case 2
    show ?thesis
    proof (cases st)
      case Nil
      with 2 show ?thesis by (cases r) (auto intro: same push)
    next
      case (Cons q qs)
      with 2 show ?thesis by (cases "q = ''..''") (auto intro: pop push)
    qed
  qed (auto intro: same push)
qed

declare clean_step.simps [simp del]

definition plain_segment :: "string \<Rightarrow> bool" where
  "plain_segment p \<longleftrightarrow> p \<noteq> [] \<and> p \<noteq> ''.'' \<and> slash \<notin> set p"

text \<open>Below the named segments of the stack there are only \<open>..\<close> segments.\<close>

definition dotdot_bottom :: "string list \<Rightarrow> bool" where
  "dotdot_bottom st \<longleftrightarrow> (''..'' \<in> set st \<longrightarrow> last st = ''..'')"

lemma clean_step_plain:
  "\<forall>q \<in> set st. plain_segment q \<Longrightarrow> slash \<notin> set p \<Longrightarrow>
   \<forall>q \<in> set (clean_step r st p). plain_segment q"
  by (rule clean_step_cases [of r st p]) (auto simp: plain_segment_def)

lemma foldl_clean_plain:
  "\<forall>q \<in> set st. plain_segment q \<Longrightarrow> \<forall>p \<in> set ps. slash \<notin> set p \<Longrightarrow>
   \<forall>q \<in> set (foldl (clean_step r) st ps). plain_segment q"
proof (induction ps arbitrary: st)
  case (Cons p ps)
  have "\<forall>q \<in> set (clean_step r st p). plain_segment q"
    using Cons.prems by (intro clean_step_plain) auto
  with Cons show ?case by simp
qed simp

lemma foldl_clean_subset:
  "set (foldl (clean_step r) st ps) \<subseteq> set st \<union> set ps"
proof (induction ps arbitrary: st)
  case (Cons p ps)
  have "set (clean_step r st p) \<subseteq> insert p (set st)" by (rule clean_step_cases [of r st p]) auto
  with Cons [of "clean_step r st p"] show ?case by auto
qed simp

lemma clean_step_keeps_dotdot:
  "''..'' \<in> set st \<Longrightarrow> ''..'' \<in> set (clean_step False st p)"
  by (rule clean_step_cases [of False st p]) auto

lemma foldl_clean_keeps_dotdot:
  "''..'' \<in> set st \<Longrightarrow> ''..'' \<in> set (foldl (clean_step False) st ps)"
  by (induction ps arbitrary: st) (auto intro: clean_step_keeps_dotdot)

lemma foldl_clean_bottom:
  "dotdot_bottom st \<Longrightarrow> dotdot_bottom (foldl (clean_step False) st ps)"
proof (induction ps arbitrary: st)
  case (Cons p ps)
  have "dotdot_bottom (clean_step False st p)"
    by (rule clean_step_cases [of False st p])
      (use Cons.prems in \<open>auto simp: dotdot_bottom_def split: if_splits\<close>)
  with Cons.IH show ?case by simp
qed simp

text \<open>
  Walking a relative path from depth \<open>d\<close>: \<open>climbs d ps\<close> when some prefix of the walk
  goes above the starting directory.
\<close>

fun climbs :: "nat \<Rightarrow> string list \<Rightarrow> bool" where
  "climbs d [] = False"
| "climbs d (p # ps) =
     (if p = [] \<or> p = ''.'' then climbs d ps
      else if p = ''..'' then (case d of 0 \<Rightarrow> True | Suc d' \<Rightarrow> climbs d' ps)
      else climbs (Suc d) ps)"

lemma foldl_clean_climbs:
  "''..'' \<notin> set st \<Longrightarrow>
   ''..'' \<in> set (foldl (clean_step False) st ps) \<longleftrightarrow> climbs (length st) ps"
proof (induction ps arbitrary: st)
  case (Cons p ps)
  consider "p = [] \<or> p = ''.''" | "p = ''..''" "st = []" | q qs where "p = ''..''" "st = q # qs"
    | "p \<noteq> []" "p \<noteq> ''.''" "p \<noteq> ''..''"
    by (cases st) auto
  then show ?case
    using Cons by cases (auto simp: foldl_clean_keeps_dotdot)
qed simp

lemma foldl_clean_id:
  "\<forall>p \<in> set ps. plain_segment p \<and> p \<noteq> ''..'' \<Longrightarrow>
   foldl (clean_step r) st ps = rev ps @ st"
  by (induction ps arbitrary: st) (auto simp: plain_segment_def)

lemma JoinByte_eq_Nil: "\<forall>p \<in> set ps. p \<noteq> [] \<Longrightarrow> JoinByte c ps = [] \<longleftrightarrow> ps = []"
  by (cases ps; cases "tl ps") auto

lemma hd_JoinByte: "ps \<noteq> [] \<Longrightarrow> hd ps \<noteq> [] \<Longrightarrow> hd (JoinByte c ps) = hd (hd ps)"
  by (cases ps; cases "tl ps") auto

lemma SplitByte_append:
  "SplitByte c (a @ c # b) = SplitByte c a @ SplitByte c b"
proof (induction a)
  case (Cons x a)
  then show ?case by (cases "SplitByte c a") auto
qed simp

lemma escapes_root_join:
  assumes "\<forall>p \<in> set ps. plain_segment p"
  shows "escapes_root (JoinByte slash ps) \<longleftrightarrow> ps \<noteq> [] \<and> hd ps = ''..''"
proof (cases ps)
  case Nil
  then show ?thesis by (simp add: escapes_root_def HasPrefix_def)
next
  case (Cons p qs)
  show ?thesis
  proof (cases "qs = []")
    case True
    have "\<not> HasPrefix p ''../''"
      using assms Cons by (auto simp: HasPrefix_iff plain_segment_def slash_def)
    with True Cons show ?thesis by (simp add: escapes_root_def)
  next
    case False
    then have j: "JoinByte slash ps = p @ slash # JoinByte slash qs"
      by (simp add: Cons JoinByte_Cons)
    have "HasPrefix (p @ slash # JoinByte slash qs) ''../'' \<longleftrightarrow> p = ''..''"
    proof
      assume "HasPrefix (p @ slash # JoinByte slash qs) ''../''"
      then obtain t where "p @ slash # JoinByte slash qs = ''..'' @ slash # t"
        by (auto simp: HasPrefix_iff slash_def)
      then have "SplitByte slash (p @ slash # JoinByte slash qs) = SplitByte slash (''..'' @ slash # t)"
        by (rule arg_cong)
      moreover have "slash \<notin> set p" using assms Cons by (simp add: plain_segment_def)
      moreover have "slash \<notin> set ''..''" by (simp add: slash_def)
      ultimately show "p = ''..''" using SplitByte_append_sep by (metis list.inject)
    next
      assume "p = ''..''"
      then show "HasPrefix (p @ slash # JoinByte slash qs) ''../''"
        by (simp add: HasPrefix_iff slash_def)
    qed
    moreover have "p @ slash # JoinByte slash qs \<noteq> ''..''"
    proof
      assume "p @ slash # JoinByte slash qs = ''..''"
      then have "slash \<in> set ''..''" by (metis in_set_conv_decomp)
      then show False by (simp add: slash_def)
    qed
    moreover have "escapes_root (JoinByte slash ps) \<longleftrightarrow> p @ slash # JoinByte slash qs = ''..'' \<or>
        HasPrefix (p @ slash # JoinByte slash qs) ''../''"
      unfolding escapes_root_def j ..
    ultimately show ?thesis using Cons by simp
  qed
qed

lemma escapes_root_Clean:
  assumes "s \<noteq> []" "hd s \<noteq> slash"
  shows "escapes_root (path_Clean s) \<longleftrightarrow> climbs 0 (SplitByte slash s)"
proof -
  let ?st = "foldl (clean_step False) [] (SplitByte slash s)"
  have plain: "\<forall>p \<in> set ?st. plain_segment p"
    by (rule foldl_clean_plain) (auto dest: SplitByte_no_sep)
  have bottom: "dotdot_bottom ?st"
    by (rule foldl_clean_bottom) (simp add: dotdot_bottom_def)
  have "escapes_root (JoinByte slash (rev ?st)) \<longleftrightarrow> ?st \<noteq> [] \<and> last ?st = ''..''"
    using plain by (subst escapes_root_join) (auto simp: hd_rev)
  also have "\<dots> \<longleftrightarrow> ''..'' \<in> set ?st"
    using bottom by (metis dotdot_bottom_def empty_iff empty_set last_in_set)
  also have "\<dots> \<longleftrightarrow> climbs 0 (SplitByte slash s)"
    using foldl_clean_climbs [of "[]"] by simp
  finally have e: "escapes_root (JoinByte slash (rev ?st)) \<longleftrightarrow> climbs 0 (SplitByte slash s)" .
  have "\<not> escapes_root ''.''" "\<not> escapes_root []"
    by (simp_all add: escapes_root_def HasPrefix_def)
  with e assms show ?thesis
    by (auto simp: path_Clean_def clean_segments_def Let_def)
qed

lemma path_Clean_relative:
  assumes "s = [] \<or> hd s \<noteq> slash"
  shows "path_Clean s \<noteq> [] \<and> hd (path_Clean s) \<noteq> slash"
proof (cases "s = []")
  case True
  then show ?thesis by (simp add: path_Clean_def slash_def)
next
  case False
  let ?ps = "clean_segments False (SplitByte slash s)"
  have plain: "\<forall>p \<in> set ?ps. plain_segment p"
    unfolding clean_segments_def set_rev
    by (rule foldl_clean_plain) (auto dest: SplitByte_no_sep)
  show ?thesis
  proof (cases "?ps = []")
    case True
    with False assms show ?thesis by (simp add: path_Clean_def Let_def slash_def)
  next
    case ne: False
    from plain ne have h: "plain_segment (hd ?ps)" by simp
    then have "hd (JoinByte slash ?ps) = hd (hd ?ps)" using ne by (simp add: hd_JoinByte plain_segment_def)
    moreover have "hd (hd ?ps) \<noteq> slash" using h by (metis hd_in_set plain_segment_def)
    moreover have "JoinByte slash ?ps \<noteq> []"
      using plain ne by (subst JoinByte_eq_Nil) (auto simp: plain_segment_def)
    ultimately show ?thesis using False assms by (auto simp: path_Clean_def Let_def)
  qed
qed

lemma path_Dir_relative:
  assumes "\<not> HasPrefix s [slash]"
  shows "path_Dir s \<noteq> [] \<and> hd (path_Dir s) \<noteq> slash"
  unfolding path_Dir_def
proof (rule path_Clean_relative)
  let ?d = "rev (dropWhile (\<lambda>c. c \<noteq> slash) (rev s))"
  have "s = ?d @ rev (takeWhile (\<lambda>c. c \<noteq> slash) (rev s))"
    by (metis rev_append rev_rev_ident takeWhile_dropWhile_id)
  then show "?d = [] \<or> hd ?d \<noteq> slash"
    using assms unfolding HasPrefix_single by (metis append_is_Nil_conv hd_append2)
qed

section \<open>Symlink targets\<close>

lemma symlink_target_iff:
  assumes "\<not> HasPrefix symlinkPath [slash]"
  shows "SymlinkTargetWithinRoot symlinkPath target = Inr () \<longleftrightarrow>
     archiveNameHygiene target = Inr () \<and>
     \<not> climbs 0 (SplitByte slash (path_Dir symlinkPath) @ SplitByte slash target)"
proof -
  let ?s = "path_Dir symlinkPath @ slash # target"
  have d: "path_Dir symlinkPath \<noteq> []" "hd (path_Dir symlinkPath) \<noteq> slash"
    using path_Dir_relative [OF assms] by auto
  then have "path_Join (path_Dir symlinkPath) target = path_Clean ?s"
    by (simp add: path_Join_def)
  moreover have "escapes_root (path_Clean ?s) \<longleftrightarrow> climbs 0 (SplitByte slash ?s)"
    using d by (intro escapes_root_Clean) simp_all
  ultimately show ?thesis
    by (auto simp: SymlinkTargetWithinRoot_def result_simps Let_def SplitByte_append)
qed

section \<open>Entry paths\<close>

definition safe_segment :: "string \<Rightarrow> bool" where
  "safe_segment p \<longleftrightarrow> plain_segment p \<and> p \<noteq> ''..'' \<and> \<not> HasSuffix p '' '' \<and> \<not> HasSuffix p ''.'' \<and>
     \<not> hasWindowsReservedBase p"

lemma check_segments_ok:
  "\<forall>p \<in> set ps. slash \<notin> set p \<Longrightarrow>
   check_segments ps = Inr () \<longleftrightarrow> (\<forall>p \<in> set ps. safe_segment p)"
  by (induction ps) (auto simp: result_simps safe_segment_def plain_segment_def)

lemma hygiene_iff:
  "archiveNameHygiene s = Inr () \<longleftrightarrow>
     s \<noteq> [] \<and> utf8_valid s \<and> CHR 0x5C \<notin> set s \<and> hd s \<noteq> slash \<and> CHR '':'' \<notin> set s \<and>
     (\<forall>c \<in> set s. \<not> is_control c)"
proof -
  have "hasWindowsVolume s \<Longrightarrow> CHR '':'' \<in> set s"
    by (auto simp: hasWindowsVolume_def split: list.splits)
  then show ?thesis by (auto simp: archiveNameHygiene_def result_simps HasPrefix_single)
qed

lemma set_JoinByte: "set (JoinByte c ps) \<subseteq> insert c (\<Union>p \<in> set ps. set p)"
  by (induction c ps rule: JoinByte.induct) auto

lemma set_SplitByte: "p \<in> set (SplitByte c s) \<Longrightarrow> set p \<subseteq> set s"
  by (induction s arbitrary: p) (fastforce split: if_splits list.splits)+

lemma clean_segments_facts:
  "\<forall>p \<in> set (clean_segments False (SplitByte slash s)). plain_segment p"
  "set (clean_segments False (SplitByte slash s)) \<subseteq> set (SplitByte slash s)"
  using foldl_clean_plain [of "[]" "SplitByte slash s" False] SplitByte_no_sep [of _ slash s]
    foldl_clean_subset [of False "[]" "SplitByte slash s"]
  by (auto simp: clean_segments_def)

lemma hygiene_join:
  assumes h: "archiveNameHygiene s = Inr ()"
    and ps: "ps \<noteq> []" "\<forall>p \<in> set ps. plain_segment p" "set ps \<subseteq> set (SplitByte slash s)"
  shows "archiveNameHygiene (JoinByte slash ps) = Inr ()"
proof -
  have sub: "set (JoinByte slash ps) \<subseteq> insert slash (set s)"
    using set_JoinByte [of slash ps] ps(3) set_SplitByte [of _ slash s] by fastforce
  have ne: "JoinByte slash ps \<noteq> []"
    using ps by (subst JoinByte_eq_Nil) (auto simp: plain_segment_def)
  have hd: "hd (JoinByte slash ps) \<noteq> slash"
    using ps by (metis hd_JoinByte hd_in_set plain_segment_def)
  have u: "utf8_valid (JoinByte slash ps)"
    using h ps(3) by (intro utf8_valid_join) (auto simp: hygiene_iff intro: utf8_valid_split)
  have "\<not> is_control slash" by (simp add: is_control_def)
  with h sub ne hd u show ?thesis by (auto simp: hygiene_iff slash_def)
qed

lemma clean_entry_path_shape:
  assumes "CleanArchiveEntryPath s = Inr p"
  obtains ps where "ps \<noteq> []" "p = JoinByte slash ps" "\<forall>q \<in> set ps. safe_segment q"
    "SplitByte slash p = ps" "archiveNameHygiene p = Inr ()"
proof -
  let ?ps = "clean_segments False (SplitByte slash s)"
  note facts = clean_segments_facts [of s]
  from assms have h: "archiveNameHygiene s = Inr ()" and p: "p = path_Clean s" "p \<noteq> ''.''"
    and c: "check_segments (SplitByte slash p) = Inr ()"
    by (auto simp: CleanArchiveEntryPath_def result_simps Let_def)
  from h p have j: "p = JoinByte slash ?ps" "JoinByte slash ?ps \<noteq> []"
    by (auto simp: path_Clean_def hygiene_iff Let_def split: if_splits)
  then have ne: "?ps \<noteq> []" by auto
  have sp: "SplitByte slash p = ?ps"
    unfolding j(1) using ne facts by (intro SplitByte_JoinByte) (auto simp: plain_segment_def)
  with c have "\<forall>q \<in> set ?ps. safe_segment q"
    using facts by (subst (asm) check_segments_ok) (auto simp: plain_segment_def)
  moreover have "archiveNameHygiene p = Inr ()"
    unfolding j(1) using h ne facts by (intro hygiene_join)
  ultimately show thesis using ne j(1) sp that by blast
qed

lemma clean_entry_path_canonical:
  assumes ps: "ps \<noteq> []" "\<forall>q \<in> set ps. safe_segment q"
    and h: "archiveNameHygiene (JoinByte slash ps) = Inr ()"
  shows "CleanArchiveEntryPath (JoinByte slash ps) = Inr (JoinByte slash ps)"
proof -
  let ?p = "JoinByte slash ps"
  have plain: "\<forall>q \<in> set ps. plain_segment q \<and> q \<noteq> ''..''"
    using ps by (auto simp: safe_segment_def)
  then have ns: "\<forall>q \<in> set ps. slash \<notin> set q" by (simp add: plain_segment_def)
  have sp: "SplitByte slash ?p = ps" using ps(1) ns by (rule SplitByte_JoinByte)
  have "clean_segments False ps = ps"
    using plain by (simp add: clean_segments_def foldl_clean_id)
  then have c: "path_Clean ?p = ?p" using h by (simp add: path_Clean_def hygiene_iff sp Let_def)
  have "\<not> escapes_root ?p" using plain ps(1) by (subst escapes_root_join) auto
  moreover have "?p \<noteq> ''.''"
  proof
    assume "?p = ''.''"
    then have "ps = SplitByte slash ''.''" using sp by simp
    then have "ps = [''.'']" by (simp add: slash_def)
    then show False using plain by (simp add: plain_segment_def)
  qed
  moreover have "check_segments (SplitByte slash ?p) = Inr ()"
    using ps ns by (simp add: sp check_segments_ok)
  ultimately show ?thesis by (simp add: CleanArchiveEntryPath_def h c Let_def)
qed

lemma clean_entry_path_stable:
  assumes "CleanArchiveEntryPath entryPath = Inr p"
  shows "CleanArchiveEntryPath p = Inr p"
proof -
  obtain ps where ps: "ps \<noteq> []" "p = JoinByte slash ps" "\<forall>q \<in> set ps. safe_segment q"
    "SplitByte slash p = ps" "archiveNameHygiene p = Inr ()"
    using clean_entry_path_shape [OF assms] .
  then show ?thesis using clean_entry_path_canonical [of ps] by simp
qed

section \<open>Properties\<close>

text \<open>
  C25: a path that \<open>CleanArchiveEntryPath\<close> accepts is relative, passes the hygiene checks
  again, consists only of segments that are neither empty nor \<open>.\<close> nor \<open>..\<close>, do
  not end with a dot or a space and are no Windows device names, and it never leaves its root.
\<close>

theorem clean_entry_path_safe:
  assumes "CleanArchiveEntryPath entryPath = Inr p"
  shows "archiveNameHygiene p = Inr () \<and> (\<forall>seg \<in> set (SplitByte slash p). safe_segment seg) \<and>
     \<not> climbs 0 (SplitByte slash p)"
proof -
  obtain ps where ps: "ps \<noteq> []" "p = JoinByte slash ps" "\<forall>q \<in> set ps. safe_segment q"
    "SplitByte slash p = ps" "archiveNameHygiene p = Inr ()"
    using clean_entry_path_shape [OF assms] .
  have "''..'' \<notin> set (foldl (clean_step False) [] ps)"
    using ps(3) by (subst foldl_clean_id) (auto simp: safe_segment_def)
  then show ?thesis using ps foldl_clean_climbs [of "[]" ps] by simp
qed

theorem clean_entry_path_safe_witness:
  "CleanArchiveEntryPath ''a//b/../c.txt'' = Inr ''a/c.txt'' \<and>
   list_all safe_segment (SplitByte slash ''a/c.txt'')"
proof -
  have e: "CleanArchiveEntryPath ''a//b/../c.txt'' = Inr ''a/c.txt''" by code_simp
  show ?thesis using e clean_entry_path_safe [OF e] by (simp add: list_all_iff)
qed

text \<open>
  Acceptance is stable: the cleaned path is accepted and is its own cleaned form. The tree
  codec relies on it when it demands that a stored path equals its cleaned form.
\<close>

lemma clean_entry_path_idempotent:
  assumes "CleanArchiveEntryPath entryPath = Inr p"
  shows "CleanArchiveEntryPath p = Inr p"
  using assms by (rule clean_entry_path_stable)

text \<open>
  C26: for a symlink at a relative path, a target is accepted exactly when it passes the name
  hygiene and the walk from the symlink's directory along the target never goes above the
  archive root, not even in between.
\<close>

theorem symlink_target_never_climbs:
  assumes "\<not> HasPrefix symlinkPath [slash]"
  shows "SymlinkTargetWithinRoot symlinkPath target = Inr () \<longleftrightarrow>
     archiveNameHygiene target = Inr () \<and>
     \<not> climbs 0 (SplitByte slash (path_Dir symlinkPath) @ SplitByte slash target)"
  using assms by (rule symlink_target_iff)

theorem symlink_target_never_climbs_witness:
  "SymlinkTargetWithinRoot ''docs/link'' ''../LICENSE'' = Inr () \<and>
   \<not> climbs 0 (SplitByte slash (path_Dir ''docs/link'') @ SplitByte slash ''../LICENSE'')"
proof -
  have h: "\<not> HasPrefix ''docs/link'' [slash]" by code_simp
  have e: "SymlinkTargetWithinRoot ''docs/link'' ''../LICENSE'' = Inr ()" by code_simp
  show ?thesis using e symlink_target_never_climbs [OF h, of "''../LICENSE''"] by simp
qed

end
