(* ===== verification/Util_Version.thy ===== *)
theory Util_Version
  imports Util_Path
begin

text \<open>
  Version names: \<open>mod/internal/util/historical.go\<close>, \<open>rawversion.go\<close> and
  \<open>semver.go\<close>.

  The functions of \<open>golang.org/x/mod/semver\<close> are not part of the repository; they are the
  fields of a record \<open>semver_api\<close> that the definitions take as an argument. What the
  code relies on is \<open>semver_order\<close>: \<open>semver.Compare\<close> is a total preorder with
  results -1, 0 and 1 (its documentation: "the result will be 0 if v == w, -1 if v < w, or +1
  if v > w").
\<close>

record semver_api =
  sv_valid :: "string \<Rightarrow> bool"
  sv_compare :: "string \<Rightarrow> string \<Rightarrow> int"
  sv_prerelease :: "string \<Rightarrow> string"
  sv_canonical :: "string \<Rightarrow> string"

definition semver_order :: "semver_api \<Rightarrow> bool" where
  "semver_order sv \<longleftrightarrow>
     (\<forall>a b. sv_compare sv a b \<in> {-1, 0, 1}) \<and>
     (\<forall>a b. sv_compare sv b a = - sv_compare sv a b) \<and>
     (\<forall>a b c. sv_compare sv a b \<le> 0 \<longrightarrow> sv_compare sv b c \<le> 0 \<longrightarrow> sv_compare sv a c \<le> 0)"

section \<open>Definitions\<close>

definition is_digit :: "char \<Rightarrow> bool" where
  "is_digit c \<longleftrightarrow> byte_in 48 57 c"

definition IsHistoricalVersion :: "string \<Rightarrow> string \<Rightarrow> bool" where
  "IsHistoricalVersion version pfx =
     (if pfx = [] then False
      else let fullPrefix = ''v0.0.0-'' @ pfx
           in if \<not> HasPrefix version fullPrefix then False
              else let seqText = drop (length fullPrefix) version
                   in if seqText = [] then False else (\<forall>c \<in> set seqText. is_digit c))"

text \<open>A concrete instance for closed evaluations: \<open>v\<close> and digits, compared by length.\<close>

definition toy_semver :: semver_api where
  "toy_semver = \<lparr>sv_valid = (\<lambda>v. 2 \<le> length v \<and> hd v = CHR ''v'' \<and> (\<forall>c \<in> set (tl v). is_digit c)),
     sv_compare = (\<lambda>a b. sgn (int (length a) - int (length b))),
     sv_prerelease = (\<lambda>v. []), sv_canonical = id\<rparr>"

definition cMaxSemverBytes :: nat where "cMaxSemverBytes = 256"
definition cMinRawVersionBytes :: nat where "cMinRawVersionBytes = 2"
definition cMaxRawVersionBytes :: nat where "cMaxRawVersionBytes = 64"

definition canonicalForCompare :: "string \<Rightarrow> string" where
  "canonicalForCompare version =
     (if version = [] \<or> hd version = CHR ''v'' then version else CHR ''v'' # version)"

definition IsStorableSemver :: "semver_api \<Rightarrow> string \<Rightarrow> bool" where
  "IsStorableSemver sv version =
     (if version = [] \<or> length version > cMaxSemverBytes \<or> CHR ''+'' \<in> set version then False
      else sv_valid sv (canonicalForCompare version))"

definition IsStorableSemverPrerelease :: "semver_api \<Rightarrow> string \<Rightarrow> bool" where
  "IsStorableSemverPrerelease sv version \<longleftrightarrow>
     IsStorableSemver sv version \<and> sv_prerelease sv (canonicalForCompare version) \<noteq> []"

definition IsCanonicalSemver :: "semver_api \<Rightarrow> string \<Rightarrow> bool" where
  "IsCanonicalSemver sv version \<longleftrightarrow>
     version \<noteq> [] \<and> sv_valid sv version \<and> sv_canonical sv version = version"

datatype semver_error = InvalidSemver string

definition CompareSemver :: "semver_api \<Rightarrow> string \<Rightarrow> string \<Rightarrow> semver_error + int" where
  "CompareSemver sv leftVersion rightVersion =
     (let leftCompare = canonicalForCompare leftVersion;
          rightCompare = canonicalForCompare rightVersion
      in guard (\<not> sv_valid sv leftCompare) (InvalidSemver leftVersion)
        (guard (\<not> sv_valid sv rightCompare) (InvalidSemver rightVersion)
        (Inr (sv_compare sv leftCompare rightCompare))))"

definition isRawAlnum :: "char \<Rightarrow> bool" where
  "isRawAlnum c \<longleftrightarrow> byte_in 97 122 c \<or> byte_in 65 90 c \<or> byte_in 48 57 c"

definition isRawSymbol :: "char \<Rightarrow> bool" where
  "isRawSymbol c \<longleftrightarrow> isRawAlnum c \<or> c = CHR ''.'' \<or> c = CHR ''_'' \<or> c = CHR ''-''"

definition isGoMajorSegment :: "string \<Rightarrow> bool" where
  "isGoMajorSegment name =
     (if length name < 2 \<or> hd name \<noteq> CHR ''v'' then False else (\<forall>c \<in> set (tl name). is_digit c))"

definition reservedRawSegmentSet :: "string list" where
  "reservedRawSegmentSet = [''list'', ''latest'', ''releases.json'', ''releases.xml'']"

definition forbiddenRawSuffixArr :: "string list" where
  "forbiddenRawSuffixArr = [''.zip'', ''.tar.gz'', ''.json'', ''.xml'', ''.mod'', ''.info'', ''.txt'']"

text \<open>\<open>strings.ToLower\<close> is applied after the charset check, so to ASCII only.\<close>

definition IsStorableRawVersion :: "semver_api \<Rightarrow> string \<Rightarrow> bool" where
  "IsStorableRawVersion sv name =
     (if length name < cMinRawVersionBytes \<or> length name > cMaxRawVersionBytes then False
      else if \<not> isRawAlnum (hd name) \<or> \<not> isRawAlnum (last name) then False
      else if \<exists>c \<in> set name. \<not> isRawSymbol c then False
      else if IsStorableSemver sv name \<or> isGoMajorSegment name then False
      else (let lowerName = map to_lower_byte name
            in if lowerName \<in> set reservedRawSegmentSet then False
               else if \<exists>suffixText \<in> set forbiddenRawSuffixArr. HasSuffix lowerName suffixText then False
               else \<not> hasWindowsReservedBase name))"

definition IsRawVersionName :: "semver_api \<Rightarrow> string \<Rightarrow> bool" where
  "IsRawVersionName sv version \<longleftrightarrow> \<not> IsStorableSemver sv version"

section \<open>Lemmas\<close>

lemma isRawSymbol_facts:
  "isRawSymbol c \<Longrightarrow> code_of c < 128 \<and> c \<noteq> slash \<and> c \<noteq> CHR 0x5C \<and> c \<noteq> CHR '':'' \<and> \<not> is_control c"
  by (auto simp: isRawSymbol_def isRawAlnum_def byte_in_def is_control_def slash_def code_of_def)

lemma utf8_valid_ascii: "(\<forall>c \<in> set s. code_of c < 128) \<Longrightarrow> utf8_valid s"
  by (induction s) auto

lemma raw_version_facts:
  assumes "IsStorableRawVersion sv name"
  shows "2 \<le> length name" "length name \<le> 64" "isRawAlnum (hd name)" "isRawAlnum (last name)"
    "\<forall>c \<in> set name. isRawSymbol c" "\<not> IsStorableSemver sv name" "\<not> hasWindowsReservedBase name"
    "map to_lower_byte name \<notin> set reservedRawSegmentSet"
    "\<forall>suffixText \<in> set forbiddenRawSuffixArr. \<not> HasSuffix (map to_lower_byte name) suffixText"
    "\<not> isGoMajorSegment name"
  using assms
  by (simp_all add: IsStorableRawVersion_def cMinRawVersionBytes_def cMaxRawVersionBytes_def Let_def
      split: if_splits)

lemma raw_version_safe:
  assumes "IsStorableRawVersion sv name"
  shows "safe_segment name \<and> archiveNameHygiene name = Inr ()"
proof -
  note f = raw_version_facts [OF assms]
  from f(1) have ne: "name \<noteq> []" by auto
  have ns: "slash \<notin> set name" using f(5) isRawSymbol_facts by blast
  have "\<not> isRawAlnum (CHR '' '')" "\<not> isRawAlnum (CHR ''.'')"
    by (simp_all add: isRawAlnum_def byte_in_def code_of_def)
  with f(4) ne have last: "\<not> HasSuffix name '' ''" "\<not> HasSuffix name ''.''"
    by (auto simp: HasSuffix_iff)
  moreover have "name \<noteq> ''.''" "name \<noteq> ''..''"
    using last(2) by (auto simp: HasSuffix_def)
  moreover have "archiveNameHygiene name = Inr ()"
    unfolding hygiene_iff
    using ne f(5) isRawSymbol_facts hd_in_set [OF ne] utf8_valid_ascii [of name] by blast
  ultimately show ?thesis using ne ns f(7) by (simp add: safe_segment_def plain_segment_def)
qed

lemma semver_orderD:
  assumes "semver_order sv"
  shows "sv_compare sv b a = - sv_compare sv a b"
    "sv_compare sv a b \<le> 0 \<Longrightarrow> sv_compare sv b c \<le> 0 \<Longrightarrow> sv_compare sv a c \<le> 0"
    "sv_compare sv a b \<in> {-1, 0, 1}"
  using assms unfolding semver_order_def by blast+

section \<open>Properties\<close>

text \<open>
  A storable raw version name is a safe single path segment: it has no separator, cleans to
  itself as an archive path and is never a semver name, a route word or an artifact file name.
\<close>

lemma raw_version_is_safe_segment:
  assumes "IsStorableRawVersion sv name"
  shows "CleanArchiveEntryPath name = Inr name \<and> slash \<notin> set name \<and> \<not> IsStorableSemver sv name \<and>
     map to_lower_byte name \<notin> set reservedRawSegmentSet \<and>
     (\<forall>suffixText \<in> set forbiddenRawSuffixArr. \<not> HasSuffix (map to_lower_byte name) suffixText)"
proof -
  have safe: "safe_segment name" "archiveNameHygiene name = Inr ()"
    using raw_version_safe [OF assms] by auto
  then have "CleanArchiveEntryPath name = Inr name"
    using clean_entry_path_canonical [of "[name]"] by simp
  with safe raw_version_facts [OF assms] show ?thesis
    by (simp add: safe_segment_def plain_segment_def)
qed

lemma raw_version_is_safe_segment_witness:
  "CleanArchiveEntryPath ''release-2024_1'' = Inr ''release-2024_1'' \<and> slash \<notin> set ''release-2024_1''"
proof -
  have "IsStorableRawVersion toy_semver ''release-2024_1''" by code_simp
  from raw_version_is_safe_segment [OF this] show ?thesis by simp
qed

text \<open>
  Under the documented behaviour of \<open>semver.Compare\<close>, \<open>CompareSemver\<close> never
  disagrees with itself: swapping the arguments flips the sign, and it is transitive, mixed bare
  and v-prefixed forms included; an invalid side is always reported, never compared.
\<close>

lemma CompareSemver_preorder:
  assumes "semver_order sv"
  shows "(CompareSemver sv a b = Inr x \<longrightarrow> CompareSemver sv b a = Inr (- x)) \<and>
     (CompareSemver sv a b = Inr x \<and> x \<le> 0 \<and> CompareSemver sv b c = Inr y \<and> y \<le> 0 \<longrightarrow>
        (\<exists>z \<le> 0. CompareSemver sv a c = Inr z)) \<and>
     (is_ok (CompareSemver sv a b) \<longleftrightarrow>
        sv_valid sv (canonicalForCompare a) \<and> sv_valid sv (canonicalForCompare b))"
proof -
  let ?a = "canonicalForCompare a" and ?b = "canonicalForCompare b" and ?c = "canonicalForCompare c"
  have anti: "sv_compare sv ?b ?a = - sv_compare sv ?a ?b"
    using semver_orderD(1) [OF assms] .
  have trans: "sv_compare sv ?a ?b \<le> 0 \<Longrightarrow> sv_compare sv ?b ?c \<le> 0 \<Longrightarrow> sv_compare sv ?a ?c \<le> 0"
    using semver_orderD(2) [OF assms] by blast
  show ?thesis
    using anti trans by (auto simp: CompareSemver_def guard_def Let_def)
qed

lemma toy_semver_order: "semver_order toy_semver"
  unfolding semver_order_def toy_semver_def by (auto simp: sgn_if split: if_splits)

lemma CompareSemver_preorder_witness:
  "CompareSemver toy_semver ''1'' ''v22'' = Inr (- 1) \<and> CompareSemver toy_semver ''v22'' ''1'' = Inr 1"
proof -
  have e: "CompareSemver toy_semver ''1'' ''v22'' = Inr (- 1)"
    by (simp add: CompareSemver_def canonicalForCompare_def toy_semver_def is_digit_def byte_in_def code_of_def)
  from CompareSemver_preorder [OF toy_semver_order, of "''1''" "''v22''" "- 1"] e show ?thesis by simp
qed

end
