(* ===== verification/Core.thy ===== *)
theory Core
  imports Prelude
begin

text \<open>
  The data model of \<open>mod/core\<close>: digests, tree entries, versions and publications, and the
  wire types of \<open>mod/brotherwire/wire.go\<close>.

  \<open>HashObj\<close> is the array type \<open>[24]byte\<close>: a type of exactly 24 bytes, comparable
  and ordered by its bytes. BLAKE3 (\<open>github.com/zeebo/blake3\<close>) is not part of the repository:
  functions that hash take the digest function as the argument \<open>H\<close>. A \<open>time.Time\<close> is
  the number of nanoseconds since January 1 of year 1, so that Go's zero time is 0.
\<close>

section \<open>Digests\<close>

definition HashSize :: nat where "HashSize = 24"

typedef HashObj = "{s :: bytes. length s = 24}"
  morphisms hash_list MkHash
  by (rule exI [of _ "replicate 24 (ch 0)"]) simp

setup_lifting type_definition_HashObj

text \<open>\<open>var h HashObj; copy(h[:], data)\<close>: the first 24 bytes, zero padded.\<close>

lift_definition hash_copy :: "bytes \<Rightarrow> HashObj" is "\<lambda>s. take 24 (s @ replicate 24 (ch 0))"
  by simp

lift_definition BytesCopy :: "HashObj \<Rightarrow> bytes" is "\<lambda>s. s" .

definition zero_hash :: HashObj where "zero_hash = hash_copy []"

instantiation HashObj :: equal
begin

definition equal_HashObj :: "HashObj \<Rightarrow> HashObj \<Rightarrow> bool" where
  "equal_HashObj a b = (BytesCopy a = BytesCopy b)"

instance
  by standard (simp add: equal_HashObj_def BytesCopy.rep_eq hash_list_inject)

end

instantiation HashObj :: linorder
begin

definition less_eq_HashObj :: "HashObj \<Rightarrow> HashObj \<Rightarrow> bool" where
  "less_eq_HashObj a b = (BytesCopy a \<le> BytesCopy b)"

definition less_HashObj :: "HashObj \<Rightarrow> HashObj \<Rightarrow> bool" where
  "less_HashObj a b = (BytesCopy a < BytesCopy b)"

instance
  by standard (auto simp: less_eq_HashObj_def less_HashObj_def BytesCopy.rep_eq hash_list_inject
      less_le)

end

definition IsZero :: "HashObj \<Rightarrow> bool" where
  "IsZero h \<longleftrightarrow> h = zero_hash"

datatype core_error = BadHashLength | ContentHashMismatch

definition HashFromBytes :: "bytes \<Rightarrow> core_error + HashObj" where
  "HashFromBytes dataArr =
     (if length dataArr \<noteq> HashSize then Inl BadHashLength else Inr (hash_copy dataArr))"

definition VerifyHash :: "(bytes \<Rightarrow> HashObj) \<Rightarrow> HashObj \<Rightarrow> bytes \<Rightarrow> core_error + unit" where
  "VerifyHash H expectedObj dataArr =
     (if H dataArr \<noteq> expectedObj then Inl ContentHashMismatch else Inr ())"

definition hex_digit :: "nat \<Rightarrow> char" where
  "hex_digit n = (if n < 10 then ch (48 + n) else ch (87 + n))"

definition HashHex :: "HashObj \<Rightarrow> string" where
  "HashHex h = concat (map (\<lambda>c. [hex_digit (code_of c div 16), hex_digit (code_of c mod 16)]) (BytesCopy h))"

lemma length_BytesCopy [simp]: "length (BytesCopy h) = 24"
  using hash_list [of h] by (simp add: BytesCopy.rep_eq)

lemma BytesCopy_inject [simp]: "BytesCopy a = BytesCopy b \<longleftrightarrow> a = b"
  by (simp add: BytesCopy.rep_eq hash_list_inject)

lemma BytesCopy_hash_copy: "length s = 24 \<Longrightarrow> BytesCopy (hash_copy s) = s"
  by (simp add: BytesCopy.rep_eq hash_copy.rep_eq)

lemma hash_copy_BytesCopy [simp]: "hash_copy (BytesCopy h) = h"
  by (metis BytesCopy_hash_copy BytesCopy_inject length_BytesCopy)

lemma HashFromBytes_BytesCopy [simp]: "HashFromBytes (BytesCopy h) = Inr h"
  by (simp add: HashFromBytes_def HashSize_def)

lemma HashFromBytes_Inr: "HashFromBytes s = Inr h \<longleftrightarrow> s = BytesCopy h"
  by (auto simp: HashFromBytes_def HashSize_def BytesCopy_hash_copy)

lemma HashFromBytes_ok: "length s = 24 \<Longrightarrow> HashFromBytes s = Inr (hash_copy s)"
  by (simp add: HashFromBytes_def HashSize_def)

lemma VerifyHash_iff [simp]: "VerifyHash H h s = Inr () \<longleftrightarrow> H s = h"
  by (simp add: VerifyHash_def)

section \<open>Trees, versions and publications\<close>

type_synonym gotime = int

definition ModeFile :: string where "ModeFile = ''file''"
definition ModeSymlink :: string where "ModeSymlink = ''symlink''"

lemma Mode_distinct [simp]: "ModeFile \<noteq> ModeSymlink" "ModeSymlink \<noteq> ModeFile"
  by (simp_all add: ModeFile_def ModeSymlink_def)

text \<open>A \<open>nil\<close> content of an input entry, which refers to a stored blob, is \<open>None\<close>.\<close>

record InputEntryObj =
  ie_Path :: string
  ie_Mode :: string
  ie_Content :: "bytes option"
  ie_BlobHash :: HashObj
  ie_SizeBytes :: u64

record TreeEntryObj =
  te_Path :: string
  te_Mode :: string
  te_SizeBytes :: u64
  te_BlobHash :: HashObj

record StagedEntryObj =
  se_Path :: string
  se_Mode :: string
  se_BlobHash :: HashObj
  se_SizeBytes :: u64

record StagedBlobObj =
  sb_BlobHash :: HashObj
  sb_SizeBytes :: u64
  sb_FilePath :: string

end
