(* ===== verification/TreeCodec.thy ===== *)
theory TreeCodec
  imports Core Util_Path "HOL-Library.Multiset"
begin

text \<open>
  The binary format of tree objects: \<open>mod/storage/treecodec/codec.go\<close>, with the varint
  functions of Go's \<open>encoding/binary\<close> it uses. An encoded tree is the magic, the number of
  entries and the entries in strict path order; each entry is the length of its path, the path,
  the mode byte, the size and the 24 bytes of the blob digest.

  Offsets, lengths and sizes are natural numbers: every one of them is bounded by the checks of the
  code (256 MiB, 4096 bytes, one million entries) far below the width of \<open>int\<close>, and a
  \<open>uint64\<close> read from the input is below \<open>2 ^ 64\<close> by lemma \<open>Uvarint_bound\<close>.

  The lemmas show that the two directions are inverse to each other, that a tree has exactly one
  encoding, and that whatever \<open>Decode\<close> accepts from an untrusted peer is a set of safe,
  unique, conflict free paths.
\<close>

section \<open>Varints of encoding/binary\<close>

definition MaxVarintLen64 :: nat where "MaxVarintLen64 = 10"

fun PutUvarint :: "nat \<Rightarrow> bytes" where
  "PutUvarint x = (if x < 128 then [ch x] else ch (x mod 128 + 128) # PutUvarint (x div 128))"

declare PutUvarint.simps [simp del]

text \<open>
  The value and the number of bytes read; 0 bytes for a truncated varint, a negative count for one
  that overflows 64 bits. The bits or-ed in at \<open>7 * i\<close> are above those of \<open>x\<close>.
\<close>

fun Uvarint_from :: "nat \<Rightarrow> nat \<Rightarrow> bytes \<Rightarrow> nat \<times> int" where
  "Uvarint_from i x [] = (0, 0)"
| "Uvarint_from i x (b # buf) =
     (if i = MaxVarintLen64 then (0, - (int i + 1))
      else if code_of b < 128 then
        (if i = MaxVarintLen64 - 1 \<and> code_of b > 1 then (0, - (int i + 1))
         else (x + code_of b * 128 ^ i, int i + 1))
      else Uvarint_from (Suc i) (x + (code_of b mod 128) * 128 ^ i) buf)"

definition Uvarint :: "bytes \<Rightarrow> nat \<times> int" where
  "Uvarint buf = Uvarint_from 0 0 buf"

section \<open>Definitions\<close>

definition MaxEntries :: nat where "MaxEntries = 1000000"
definition BinaryMagic :: bytes where "BinaryMagic = ''YRV_TREE'' @ [ch 0]"
definition cMaxObjectBytes :: nat where "cMaxObjectBytes = 256 * 1024 * 1024"
definition cMaxPathBytes :: nat where "cMaxPathBytes = 4096"
definition cBinaryMinEntry :: nat where "cBinaryMinEntry = 1 + 1 + 1 + 1 + HashSize"

datatype tree_error =
    UnsupportedMode string | UnsupportedModeByte nat
  | InvalidUvarint | OverflowingUvarint | NonCanonicalUvarint
  | EntryPathInvalid string path_error | EntryPathNotCanonical string
  | EntryMode string string | EntryEmptyHash string
  | ObjectTooLarge | ObjectEmpty | InvalidMagic | NoEntries | CountExceedsLimit | CountInvalid
  | PathLengthInvalid | ModeMissing | HashTruncated | HashInvalid core_error | TrailingBytes
  | PathsNotCanonical | PathConflict string | DuplicatePath string

definition modeByte :: "string \<Rightarrow> tree_error + char" where
  "modeByte mode =
     (if mode = ModeFile then Inr (ch 1)
      else if mode = ModeSymlink then Inr (ch 2)
      else Inl (UnsupportedMode mode))"

definition modeText :: "char \<Rightarrow> tree_error + string" where
  "modeText modeValue =
     (if modeValue = ch 1 then Inr ModeFile
      else if modeValue = ch 2 then Inr ModeSymlink
      else Inl (UnsupportedModeByte (code_of modeValue)))"

definition uvarintSize :: "nat \<Rightarrow> nat" where
  "uvarintSize v = length (PutUvarint v)"

definition readUvarint :: "bytes \<Rightarrow> nat \<Rightarrow> tree_error + nat \<times> nat" where
  "readUvarint dataArr offsetValue =
     (let (v, readCount) = Uvarint (drop offsetValue dataArr)
      in guard (readCount = 0) InvalidUvarint
        (guard (readCount < 0) OverflowingUvarint
        (let canonicalArr = PutUvarint v; n = nat readCount
         in guard (n \<noteq> length canonicalArr \<or> take n (drop offsetValue dataArr) \<noteq> canonicalArr)
              NonCanonicalUvarint
           (Inr (v, offsetValue + n)))))"

definition validateEntryPath :: "string \<Rightarrow> u64 \<Rightarrow> path_error + string" where
  "validateEntryPath path maxPathBytes =
     andthen (ValidateArchiveEntryPath path maxPathBytes) (\<lambda>_. CleanArchiveEntryPath path)"

definition validatePath :: "string \<Rightarrow> tree_error + unit" where
  "validatePath pathText =
     andthen (map_err (EntryPathInvalid pathText) (validateEntryPath pathText (of_nat cMaxPathBytes)))
       (\<lambda>cleanPath. guard (cleanPath \<noteq> pathText) (EntryPathNotCanonical pathText) (Inr ()))"

definition seenParentPath :: "string set \<Rightarrow> string \<Rightarrow> bool" where
  "seenParentPath seenObj pathText \<longleftrightarrow>
     (\<exists>i \<in> set [0..<length pathText]. pathText ! i = slash \<and> take i pathText \<in> seenObj)"

definition validateEntry :: "TreeEntryObj \<Rightarrow> tree_error + unit" where
  "validateEntry e =
     andthen (validatePath (te_Path e)) (\<lambda>_.
       guard (te_Mode e \<noteq> ModeFile \<and> te_Mode e \<noteq> ModeSymlink) (EntryMode (te_Path e) (te_Mode e))
      (guard (IsZero (te_BlobHash e)) (EntryEmptyHash (te_Path e))
      (Inr ())))"

definition entry_size :: "TreeEntryObj \<Rightarrow> nat" where
  "entry_size e = uvarintSize (length (te_Path e)) + length (te_Path e) + 1
     + uvarintSize (unat (te_SizeBytes e)) + HashSize"

fun capacity_from :: "nat \<Rightarrow> TreeEntryObj list \<Rightarrow> tree_error + nat" where
  "capacity_from sizeValue [] = Inr sizeValue"
| "capacity_from sizeValue (e # es) =
     (let sizeValue' = sizeValue + entry_size e
      in guard (sizeValue' > cMaxObjectBytes) ObjectTooLarge (capacity_from sizeValue' es))"

definition binaryCapacity :: "TreeEntryObj list \<Rightarrow> tree_error + nat" where
  "binaryCapacity es = capacity_from (length BinaryMagic + uvarintSize (length es)) es"

fun validate_parsed_from :: "string set \<Rightarrow> string option \<Rightarrow> TreeEntryObj list \<Rightarrow> tree_error + unit" where
  "validate_parsed_from seenPathObj prev [] = Inr ()"
| "validate_parsed_from seenPathObj prev (e # es) =
     andthen (validateEntry e) (\<lambda>_.
       guard (case prev of None \<Rightarrow> False | Some p \<Rightarrow> p \<ge> te_Path e) PathsNotCanonical
      (guard (seenParentPath seenPathObj (te_Path e)) (PathConflict (te_Path e))
      (validate_parsed_from (insert (te_Path e) seenPathObj) (Some (te_Path e)) es)))"

definition validateParsed :: "TreeEntryObj list \<Rightarrow> tree_error + TreeEntryObj list" where
  "validateParsed resultArr =
     guard (resultArr = []) NoEntries
    (andthen (validate_parsed_from {} None resultArr) (\<lambda>_. Inr resultArr))"

text \<open>One iteration of the loop of \<open>parseBinary\<close>: the entry and the offset behind it.\<close>

definition parse_entry :: "bytes \<Rightarrow> nat \<Rightarrow> tree_error + TreeEntryObj \<times> nat" where
  "parse_entry dataArr offset0 =
     andthen (readUvarint dataArr offset0) (\<lambda>(pathSize, offset1).
       guard (pathSize = 0 \<or> pathSize > cMaxPathBytes \<or> pathSize > length dataArr - offset1)
         PathLengthInvalid
      (let pathText = take pathSize (drop offset1 dataArr); offset2 = offset1 + pathSize
       in guard (offset2 \<ge> length dataArr) ModeMissing
         (andthen (modeText (dataArr ! offset2)) (\<lambda>modeTextValue.
            andthen (readUvarint dataArr (offset2 + 1)) (\<lambda>(sizeValue, offset3).
              guard (length dataArr - offset3 < HashSize) HashTruncated
             (andthen (map_err HashInvalid (HashFromBytes (take HashSize (drop offset3 dataArr)))) (\<lambda>hashObj.
                  Inr (\<lparr>te_Path = pathText, te_Mode = modeTextValue,
                        te_SizeBytes = of_nat sizeValue, te_BlobHash = hashObj\<rparr>,
                       offset3 + HashSize))))))))"

fun parse_entries :: "nat \<Rightarrow> bytes \<Rightarrow> nat \<Rightarrow> tree_error + TreeEntryObj list \<times> nat" where
  "parse_entries 0 dataArr offsetValue = Inr ([], offsetValue)"
| "parse_entries (Suc n) dataArr offsetValue =
     andthen (parse_entry dataArr offsetValue) (\<lambda>(e, offset').
       andthen (parse_entries n dataArr offset') (\<lambda>(es, offset''). Inr (e # es, offset'')))"

definition parseBinary :: "bytes \<Rightarrow> tree_error + TreeEntryObj list" where
  "parseBinary dataArr =
     andthen (readUvarint dataArr (length BinaryMagic)) (\<lambda>(countValue, offsetValue).
       guard (countValue = 0) NoEntries
      (guard (countValue > MaxEntries) CountExceedsLimit
      (guard (countValue > (length dataArr - offsetValue) div cBinaryMinEntry) CountInvalid
      (andthen (parse_entries countValue dataArr offsetValue) (\<lambda>(resultArr, offset').
         guard (offset' \<noteq> length dataArr) TrailingBytes
        (validateParsed resultArr))))))"

definition Decode :: "bytes \<Rightarrow> tree_error + TreeEntryObj list" where
  "Decode dataArr =
     guard (length dataArr = 0) ObjectEmpty
    (guard (length dataArr > cMaxObjectBytes) ObjectTooLarge
    (guard (\<not> HasPrefix dataArr BinaryMagic) InvalidMagic
    (parseBinary dataArr)))"

fun encode_check :: "string set \<Rightarrow> TreeEntryObj list \<Rightarrow> tree_error + unit" where
  "encode_check seenPathObj [] = Inr ()"
| "encode_check seenPathObj (e # es) =
     andthen (validateEntry e) (\<lambda>_.
       guard (te_Path e \<in> seenPathObj) (DuplicatePath (te_Path e))
      (guard (seenParentPath seenPathObj (te_Path e)) (PathConflict (te_Path e))
      (encode_check (insert (te_Path e) seenPathObj) es)))"

definition encode_entry :: "TreeEntryObj \<Rightarrow> tree_error + bytes" where
  "encode_entry e =
     andthen (modeByte (te_Mode e)) (\<lambda>modeValue.
       Inr (PutUvarint (length (te_Path e)) @ te_Path e @ [modeValue]
            @ PutUvarint (unat (te_SizeBytes e)) @ BytesCopy (te_BlobHash e)))"

fun encode_entries :: "TreeEntryObj list \<Rightarrow> tree_error + bytes" where
  "encode_entries [] = Inr []"
| "encode_entries (e # es) =
     andthen (encode_entry e) (\<lambda>d. andthen (encode_entries es) (\<lambda>ds. Inr (d @ ds)))"

text \<open>
  \<open>sort.Slice\<close> by path; the order of entries with equal paths does not matter because such
  a tree is rejected.
\<close>

definition Encode :: "(bytes \<Rightarrow> HashObj) \<Rightarrow> TreeEntryObj list \<Rightarrow> tree_error + bytes \<times> HashObj" where
  "Encode H entriesArr =
     guard (length entriesArr = 0) NoEntries
    (guard (length entriesArr > MaxEntries) CountExceedsLimit
    (let sortedArr = sort_key te_Path entriesArr
     in andthen (encode_check {} sortedArr) (\<lambda>_.
          andthen (binaryCapacity sortedArr) (\<lambda>_.
            andthen (encode_entries sortedArr) (\<lambda>body.
              let dataArr = BinaryMagic @ PutUvarint (length sortedArr) @ body
              in Inr (dataArr, H dataArr))))))"

section \<open>Varints\<close>

lemma PutUvarint_not_Nil [simp]: "PutUvarint x \<noteq> []"
  by (subst PutUvarint.simps) simp

lemma Uvarint_from_Put:
  "i \<le> 9 \<Longrightarrow> n * 128 ^ i < 2 ^ 64 \<Longrightarrow>
   Uvarint_from i x (PutUvarint n @ rest) = (x + n * 128 ^ i, int (i + length (PutUvarint n)))"
proof (induction n arbitrary: i x rule: PutUvarint.induct)
  case (1 n)
  show ?case
  proof (cases "n < 128")
    case True
    have "i = 9 \<Longrightarrow> n \<le> 1" using "1.prems" by simp
    with True "1.prems" show ?thesis
      by (auto simp: PutUvarint.simps [of n] MaxVarintLen64_def)
  next
    case False
    have step: "n div 128 * 128 ^ Suc i \<le> n * 128 ^ i"
    proof -
      have "n div 128 * 128 ^ Suc i = (n div 128 * 128) * 128 ^ i" by simp
      also have "\<dots> \<le> n * 128 ^ i" by (rule mult_right_mono) simp_all
      finally show ?thesis .
    qed
    have i: "Suc i \<le> 9"
    proof (rule ccontr)
      assume "\<not> Suc i \<le> 9"
      then have "i = 9" using "1.prems" by simp
      then have "n * 128 ^ 9 < (2 :: nat) ^ 64" using "1.prems" by simp
      then show False using False by simp
    qed
    have val: "(n mod 128) * 128 ^ i + n div 128 * 128 ^ Suc i = n * 128 ^ i"
    proof -
      have "(n mod 128) * 128 ^ i + n div 128 * 128 ^ Suc i = (n mod 128 + n div 128 * 128) * 128 ^ i"
        by (simp only: power_Suc add_mult_distrib mult.assoc)
      then show ?thesis by simp
    qed
    have c: "code_of (ch (n mod 128 + 128)) = n mod 128 + 128" by (rule code_of_ch) linarith
    have rec: "Uvarint_from (Suc i) (x + (n mod 128) * 128 ^ i) (PutUvarint (n div 128) @ rest)
        = (x + (n mod 128) * 128 ^ i + n div 128 * 128 ^ Suc i, int (Suc i + length (PutUvarint (n div 128))))"
      using False i le_less_trans [OF step "1.prems"(2)] by (intro "1.IH")
    show ?thesis
      using False i val
      by (subst (1 2) PutUvarint.simps) (simp add: c rec MaxVarintLen64_def add.assoc)
  qed
qed

lemma Uvarint_Put:
  "n < 2 ^ 64 \<Longrightarrow> Uvarint (PutUvarint n @ rest) = (n, int (length (PutUvarint n)))"
  using Uvarint_from_Put [of 0 n 0 rest] by (simp add: Uvarint_def)

lemma Uvarint_from_facts:
  "Uvarint_from i x buf = (v, c) \<Longrightarrow> x < 128 ^ i \<Longrightarrow> i \<le> 10 \<Longrightarrow> 0 < c \<Longrightarrow>
   v < 2 ^ 64 \<and> c \<le> int (i + length buf) \<and> c \<le> 10"
proof (induction i x buf rule: Uvarint_from.induct)
  case (2 i x b buf)
  show ?case
  proof (cases "i = 10")
    case True
    with 2 show ?thesis by (simp add: MaxVarintLen64_def split: if_splits)
  next
    case False
    with "2.prems" have i: "i \<le> 9" by simp
    show ?thesis
    proof (cases "code_of b < 128")
      case True
      with "2.prems" False have v: "v = x + code_of b * 128 ^ i" "c = int i + 1"
        and top: "i = 9 \<Longrightarrow> code_of b \<le> 1"
        by (auto simp: MaxVarintLen64_def split: if_splits)
      have "v < 2 ^ 64"
      proof (cases "i = 9")
        case True
        then have "code_of b * 128 ^ i \<le> 1 * 128 ^ 9" using top by (intro mult_mono) simp_all
        then show ?thesis using v(1) "2.prems"(2) True by simp
      next
        case False
        then have "i \<le> 8" using i by simp
        have "code_of b * 128 ^ i \<le> 127 * 128 ^ i" using True by (intro mult_right_mono) simp_all
        then have "v < 128 ^ i + 127 * 128 ^ i" using v(1) "2.prems"(2) by (metis add_less_le_mono)
        then have "v < 128 * 128 ^ i" by simp
        also have "\<dots> \<le> 128 * 128 ^ 8" using \<open>i \<le> 8\<close> by (intro mult_left_mono power_increasing) simp_all
        finally show ?thesis by simp
      qed
      then show ?thesis using v i by simp
    next
      case nb: False
      have "code_of b mod 128 * 128 ^ i \<le> 127 * 128 ^ i" by (intro mult_right_mono) simp_all
      then have "x + code_of b mod 128 * 128 ^ i < 128 ^ i + 127 * 128 ^ i"
        using "2.prems"(2) by (metis add_less_le_mono)
      then have "x + code_of b mod 128 * 128 ^ i < 128 ^ Suc i" by simp
      then show ?thesis
        using "2.IH" [OF _ nb] "2.prems" False nb i by (simp add: MaxVarintLen64_def)
    qed
  qed
qed simp

lemma Uvarint_bound:
  "Uvarint buf = (v, c) \<Longrightarrow> 0 < c \<Longrightarrow> v < 2 ^ 64 \<and> c \<le> int (length buf) \<and> c \<le> 10"
  using Uvarint_from_facts [of 0 0 buf v c] by (simp add: Uvarint_def)

lemma readUvarint_Inr:
  "readUvarint dataArr off = Inr (v, off') \<longleftrightarrow>
     (v < 2 ^ 64 \<and> off' = off + length (PutUvarint v) \<and>
      drop off dataArr = PutUvarint v @ drop off' dataArr)"
proof
  assume r: "readUvarint dataArr off = Inr (v, off')"
  obtain w c where u: "Uvarint (drop off dataArr) = (w, c)" by force
  from r u have f: "0 < c" "w = v" "nat c = length (PutUvarint v)" "off' = off + nat c"
    "take (nat c) (drop off dataArr) = PutUvarint v"
    by (auto simp: readUvarint_def result_simps Let_def)
  moreover have "drop off' dataArr = drop (nat c) (drop off dataArr)" using f by (simp add: add.commute)
  ultimately show "v < 2 ^ 64 \<and> off' = off + length (PutUvarint v) \<and>
      drop off dataArr = PutUvarint v @ drop off' dataArr"
    using Uvarint_bound [OF u] by (metis append_take_drop_id)
next
  assume a: "v < 2 ^ 64 \<and> off' = off + length (PutUvarint v) \<and>
      drop off dataArr = PutUvarint v @ drop off' dataArr"
  then have u: "Uvarint (drop off dataArr) = (v, int (length (PutUvarint v)))"
    using Uvarint_Put [of v] by simp
  moreover have "take (length (PutUvarint v)) (drop off dataArr) = PutUvarint v" using a by simp
  ultimately show "readUvarint dataArr off = Inr (v, off')"
    using a by (simp add: readUvarint_def result_simps Let_def)
qed

section \<open>Entries\<close>

lemma validatePath_iff:
  "validatePath p = Inr () \<longleftrightarrow> length p \<le> cMaxPathBytes \<and> CleanArchiveEntryPath p = Inr p"
  by (cases "CleanArchiveEntryPath p")
    (auto simp: validatePath_def validateEntryPath_def ValidateArchiveEntryPath_def cMaxPathBytes_def
      guard_def)

lemma validateEntry_iff:
  "validateEntry e = Inr () \<longleftrightarrow>
     validatePath (te_Path e) = Inr () \<and> (te_Mode e = ModeFile \<or> te_Mode e = ModeSymlink) \<and>
     \<not> IsZero (te_BlobHash e)"
  by (auto simp: validateEntry_def result_simps)

lemma validateEntry_path:
  assumes "validateEntry e = Inr ()"
  shows "te_Path e \<noteq> []" "length (te_Path e) \<le> cMaxPathBytes"
proof -
  from assms have "CleanArchiveEntryPath (te_Path e) = Inr (te_Path e)"
    and l: "length (te_Path e) \<le> cMaxPathBytes"
    by (auto simp: validateEntry_iff validatePath_iff)
  then have "archiveNameHygiene (te_Path e) = Inr ()"
    by (auto simp: CleanArchiveEntryPath_def result_simps)
  then show "te_Path e \<noteq> []" by (simp add: hygiene_iff)
  show "length (te_Path e) \<le> cMaxPathBytes" by (rule l)
qed

lemma validateEntry_encodes:
  assumes "validateEntry e = Inr ()"
  obtains d where "encode_entry e = Inr d"
  using assms by (auto simp: validateEntry_iff encode_entry_def modeByte_def)

lemma ch_1_2 [simp]: "ch (Suc 0) \<noteq> ch 2" "ch 2 \<noteq> ch (Suc 0)"
  using ch_inject [of "Suc 0" 2] by auto

lemma drop_at: "drop n xs = a @ b \<Longrightarrow> drop (n + length a) xs = b"
  by (metis add.commute append_eq_conv_conj drop_drop)

lemma mode_iff: "modeText c = Inr m \<longleftrightarrow> modeByte m = Inr c"
  by (auto simp: modeText_def modeByte_def split: if_splits)

lemma parse_entry_complete:
  assumes enc: "encode_entry e = Inr d" and data: "drop off dataArr = d @ rest"
    and p: "te_Path e \<noteq> []" "length (te_Path e) \<le> cMaxPathBytes"
  shows "parse_entry dataArr off = Inr (e, off + length d)"
proof -
  let ?p = "te_Path e" and ?n = "length (te_Path e)" and ?s = "unat (te_SizeBytes e)"
  let ?h = "BytesCopy (te_BlobHash e)"
  from enc obtain m where m: "modeByte (te_Mode e) = Inr m"
    and d: "d = PutUvarint ?n @ ?p @ [m] @ PutUvarint ?s @ ?h"
    by (auto simp: encode_entry_def result_simps)
  let ?o1 = "off + length (PutUvarint ?n)"
  let ?o2 = "?o1 + ?n"
  let ?o3 = "?o2 + 1 + length (PutUvarint ?s)"
  have d1: "drop ?o1 dataArr = ?p @ [m] @ PutUvarint ?s @ ?h @ rest"
    by (rule drop_at) (simp add: data d)
  then have d2: "drop ?o2 dataArr = [m] @ PutUvarint ?s @ ?h @ rest"
    by (rule drop_at)
  then have d3: "drop (?o2 + 1) dataArr = PutUvarint ?s @ ?h @ rest"
    using drop_at [of ?o2 dataArr "[m]"] by simp
  then have d4: "drop ?o3 dataArr = ?h @ rest" by (rule drop_at)
  have r1: "readUvarint dataArr off = Inr (?n, ?o1)"
    using data d1 p(2) by (simp add: readUvarint_Inr d cMaxPathBytes_def)
  have r2: "readUvarint dataArr (?o2 + 1) = Inr (?s, ?o3)"
    using d3 d4 unat_u64_less [of "te_SizeBytes e"] by (simp add: readUvarint_Inr)
  have len1: "?n \<le> length dataArr - ?o1" using arg_cong [OF d1, of length] by simp
  have len2: "?o2 < length dataArr" using arg_cong [OF d2, of length] by simp
  have len4: "24 \<le> length dataArr - ?o3" using arg_cong [OF d4, of length] by simp
  have nth: "dataArr ! ?o2 = m" using d2 len2 by (metis Cons_nth_drop_Suc append_Cons list.inject)
  have "te_SizeBytes e = of_nat ?s" by simp
  then show ?thesis
    unfolding parse_entry_def
    using r1 r2 len1 len2 len4 p d1 d4 m
    by (simp add: nth mode_iff [THEN iffD2] HashSize_def Let_def d)
qed

lemma parse_entry_sound:
  assumes "parse_entry dataArr off = Inr (e, off')"
  shows "\<exists>d. encode_entry e = Inr d \<and> off' = off + length d \<and> drop off dataArr = d @ drop off' dataArr"
proof -
  from assms obtain n o1 m s o3 h where
    r1: "readUvarint dataArr off = Inr (n, o1)" and n: "n \<le> length dataArr - o1"
    and o2: "o1 + n < length dataArr"
    and m: "modeText (dataArr ! (o1 + n)) = Inr m"
    and r2: "readUvarint dataArr (o1 + n + 1) = Inr (s, o3)" and o3: "HashSize \<le> length dataArr - o3"
    and h: "HashFromBytes (take HashSize (drop o3 dataArr)) = Inr h"
    and e: "e = \<lparr>te_Path = take n (drop o1 dataArr), te_Mode = m, te_SizeBytes = of_nat s, te_BlobHash = h\<rparr>"
    and off': "off' = o3 + HashSize"
    by (auto simp: parse_entry_def result_simps Let_def)
  from r1 have v1: "o1 = off + length (PutUvarint n)" "drop off dataArr = PutUvarint n @ drop o1 dataArr"
    by (auto simp: readUvarint_Inr)
  from r2 have v2: "s < 2 ^ 64" "o3 = o1 + n + 1 + length (PutUvarint s)"
    "drop (o1 + n + 1) dataArr = PutUvarint s @ drop o3 dataArr"
    by (auto simp: readUvarint_Inr)
  let ?p = "take n (drop o1 dataArr)"
  have len: "length ?p = n" using n by simp
  have "drop o1 dataArr = ?p @ drop (o1 + n) dataArr"
    by (metis append_take_drop_id drop_drop add.commute)
  moreover have "drop (o1 + n) dataArr = dataArr ! (o1 + n) # drop (o1 + n + 1) dataArr"
    using o2 by (metis Cons_nth_drop_Suc Suc_eq_plus1)
  moreover have "drop o3 dataArr = BytesCopy h @ drop off' dataArr"
    using h unfolding off' HashFromBytes_Inr by (metis append_take_drop_id drop_drop add.commute)
  ultimately have d: "drop off dataArr =
      (PutUvarint n @ ?p @ [dataArr ! (o1 + n)] @ PutUvarint s @ BytesCopy h) @ drop off' dataArr"
    using v1(2) v2(3) by simp
  have "unat (of_nat s :: u64) = s" using v2(1) by (intro of_nat_inverse) simp_all
  then have "encode_entry e = Inr (PutUvarint n @ ?p @ [dataArr ! (o1 + n)] @ PutUvarint s @ BytesCopy h)"
    using m len by (simp add: encode_entry_def e mode_iff)
  moreover have "off' = off + length (PutUvarint n @ ?p @ [dataArr ! (o1 + n)] @ PutUvarint s @ BytesCopy h)"
    using v1(1) v2(2) len by (simp add: off' HashSize_def)
  ultimately show ?thesis using d by blast
qed

lemma parse_entries_sound:
  "parse_entries n dataArr off = Inr (es, off') \<Longrightarrow>
   length es = n \<and> (\<exists>d. encode_entries es = Inr d \<and> off' = off + length d \<and>
     drop off dataArr = d @ drop off' dataArr)"
proof (induction n arbitrary: off es)
  case (Suc n)
  from Suc.prems obtain e es' off1 where es: "es = e # es'"
    and p: "parse_entry dataArr off = Inr (e, off1)" "parse_entries n dataArr off1 = Inr (es', off')"
    by (auto simp: result_simps)
  from parse_entry_sound [OF p(1)] obtain d1 where d1: "encode_entry e = Inr d1"
    "off1 = off + length d1" "drop off dataArr = d1 @ drop off1 dataArr" by blast
  from Suc.IH [OF p(2)] obtain d2 where d2: "length es' = n" "encode_entries es' = Inr d2"
    "off' = off1 + length d2" "drop off1 dataArr = d2 @ drop off' dataArr" by blast
  have "encode_entries es = Inr (d1 @ d2)" "off' = off + length (d1 @ d2)"
    "drop off dataArr = (d1 @ d2) @ drop off' dataArr" "length es = Suc n"
    using es d1 d2 by simp_all
  then show ?case by blast
qed simp

lemma parse_entries_complete:
  "encode_entries es = Inr d \<Longrightarrow> drop off dataArr = d @ rest \<Longrightarrow>
   \<forall>e \<in> set es. te_Path e \<noteq> [] \<and> length (te_Path e) \<le> cMaxPathBytes \<Longrightarrow>
   parse_entries (length es) dataArr off = Inr (es, off + length d)"
proof (induction es arbitrary: off d)
  case (Cons e es)
  from Cons.prems obtain d1 d2 where d: "encode_entry e = Inr d1" "encode_entries es = Inr d2" "d = d1 @ d2"
    by (auto simp: result_simps)
  have p1: "parse_entry dataArr off = Inr (e, off + length d1)"
    using d(1) Cons.prems by (intro parse_entry_complete [of _ _ _ _ "d2 @ rest"]) (simp_all add: d(3))
  have "drop (off + length d1) dataArr = d2 @ rest"
    by (rule drop_at) (simp add: Cons.prems d(3))
  from Cons.IH [OF d(2) this] Cons.prems p1 show ?case by (simp add: d(3) add.assoc)
qed simp

section \<open>Well-formed trees\<close>

definition is_parent :: "string \<Rightarrow> string \<Rightarrow> bool" where
  "is_parent p q \<longleftrightarrow> HasPrefix q (p @ [slash])"

definition tree_ok :: "TreeEntryObj list \<Rightarrow> bool" where
  "tree_ok es \<longleftrightarrow> (\<forall>e \<in> set es. validateEntry e = Inr ()) \<and> sorted_wrt (<) (map te_Path es) \<and>
     (\<forall>a \<in> set es. \<forall>b \<in> set es. \<not> is_parent (te_Path a) (te_Path b))"

lemma seenParentPath_iff: "seenParentPath S q \<longleftrightarrow> (\<exists>p \<in> S. is_parent p q)"
proof
  assume "seenParentPath S q"
  then obtain i where i: "i < length q" "q ! i = slash" "take i q \<in> S"
    by (auto simp: seenParentPath_def)
  have "q = take i q @ [slash] @ drop (Suc i) q"
    using id_take_nth_drop [OF i(1)] by (simp only: i(2) append_Cons append_Nil)
  then show "\<exists>p \<in> S. is_parent p q"
    using i(3) unfolding is_parent_def HasPrefix_iff by (metis append_assoc)
next
  assume "\<exists>p \<in> S. is_parent p q"
  then obtain p r where "p \<in> S" "q = p @ slash # r" by (auto simp: is_parent_def HasPrefix_iff)
  then show "seenParentPath S q"
    unfolding seenParentPath_def by (intro bexI [of _ "length p"]) auto
qed

lemma is_parent_less: "is_parent p q \<Longrightarrow> p < q"
  by (auto simp: is_parent_def HasPrefix_iff list_less_def intro: lexord_append_rightI)

lemma no_parent_step:
  assumes "\<forall>q \<in> set es. te_Path e < te_Path q"
  shows "(\<not> seenParentPath S (te_Path e) \<and>
      (\<forall>b \<in> set es. \<not> seenParentPath (insert (te_Path e) S \<union> te_Path ` set es) (te_Path b))) \<longleftrightarrow>
    (\<forall>b \<in> set (e # es). \<not> seenParentPath (S \<union> te_Path ` set (e # es)) (te_Path b))"
proof -
  have "\<not> is_parent (te_Path a) (te_Path e)" if "a \<in> set (e # es)" for a
    using that assms is_parent_less [of "te_Path a" "te_Path e"] by (auto dest: less_asym)
  then show ?thesis by (auto simp: seenParentPath_iff)
qed

lemma validate_parsed_from_iff:
  "validate_parsed_from S prev es = Inr () \<longleftrightarrow>
     (\<forall>e \<in> set es. validateEntry e = Inr ()) \<and> sorted_wrt (<) (map te_Path es) \<and>
     (\<forall>p e. prev = Some p \<longrightarrow> e \<in> set es \<longrightarrow> p < te_Path e) \<and>
     (\<forall>b \<in> set es. \<not> seenParentPath (S \<union> te_Path ` set es) (te_Path b))"
proof (induction es arbitrary: S prev)
  case (Cons e es)
  have "validate_parsed_from S prev (e # es) = Inr () \<longleftrightarrow>
      validateEntry e = Inr () \<and> (\<forall>p. prev = Some p \<longrightarrow> p < te_Path e) \<and>
      \<not> seenParentPath S (te_Path e) \<and>
      validate_parsed_from (insert (te_Path e) S) (Some (te_Path e)) es = Inr ()"
    by (auto simp: result_simps not_le split: option.splits)
  also have "\<dots> \<longleftrightarrow> validateEntry e = Inr () \<and> (\<forall>p. prev = Some p \<longrightarrow> p < te_Path e) \<and>
      (\<forall>e \<in> set es. validateEntry e = Inr ()) \<and> sorted_wrt (<) (map te_Path es) \<and>
      (\<forall>q \<in> set es. te_Path e < te_Path q) \<and>
      (\<forall>b \<in> set (e # es). \<not> seenParentPath (S \<union> te_Path ` set (e # es)) (te_Path b))"
    unfolding Cons.IH using no_parent_step [of es e S] by blast
  also have "\<dots> \<longleftrightarrow> (\<forall>x \<in> set (e # es). validateEntry x = Inr ()) \<and>
      sorted_wrt (<) (map te_Path (e # es)) \<and>
      (\<forall>p x. prev = Some p \<longrightarrow> x \<in> set (e # es) \<longrightarrow> p < te_Path x) \<and>
      (\<forall>b \<in> set (e # es). \<not> seenParentPath (S \<union> te_Path ` set (e # es)) (te_Path b))"
    using less_trans by auto
  finally show ?case .
qed simp

lemma encode_check_iff:
  "sorted (map te_Path es) \<Longrightarrow> encode_check S es = Inr () \<longleftrightarrow>
     (\<forall>e \<in> set es. validateEntry e = Inr ()) \<and> distinct (map te_Path es) \<and>
     te_Path ` set es \<inter> S = {} \<and>
     (\<forall>b \<in> set es. \<not> seenParentPath (S \<union> te_Path ` set es) (te_Path b))"
proof (induction es arbitrary: S)
  case (Cons e es)
  have "encode_check S (e # es) = Inr () \<longleftrightarrow>
      validateEntry e = Inr () \<and> te_Path e \<notin> S \<and> \<not> seenParentPath S (te_Path e) \<and>
      encode_check (insert (te_Path e) S) es = Inr ()"
    by (auto simp: result_simps)
  also have "\<dots> \<longleftrightarrow> validateEntry e = Inr () \<and> te_Path e \<notin> S \<and>
      (\<forall>e \<in> set es. validateEntry e = Inr ()) \<and> distinct (map te_Path es) \<and>
      te_Path ` set es \<inter> insert (te_Path e) S = {} \<and> \<not> seenParentPath S (te_Path e) \<and>
      (\<forall>b \<in> set es. \<not> seenParentPath (insert (te_Path e) S \<union> te_Path ` set es) (te_Path b))"
    using Cons by auto
  also have "\<dots> \<longleftrightarrow> (\<forall>x \<in> set (e # es). validateEntry x = Inr ()) \<and> distinct (map te_Path (e # es)) \<and>
      te_Path ` set (e # es) \<inter> S = {} \<and>
      (\<forall>b \<in> set (e # es). \<not> seenParentPath (S \<union> te_Path ` set (e # es)) (te_Path b))"
  proof (cases "te_Path e \<in> te_Path ` set es")
    case False
    then have "\<forall>q \<in> set es. te_Path e < te_Path q" using Cons.prems by (auto simp: less_le)
    from no_parent_step [OF this, of S] False show ?thesis by auto
  qed auto
  finally show ?case .
qed simp

lemma tree_ok_alt:
  "tree_ok es \<longleftrightarrow> (\<forall>e \<in> set es. validateEntry e = Inr ()) \<and> sorted_wrt (<) (map te_Path es) \<and>
     (\<forall>b \<in> set es. \<not> seenParentPath (te_Path ` set es) (te_Path b))"
  by (auto simp: tree_ok_def seenParentPath_iff)

lemma validateParsed_Inr: "validateParsed es = Inr r \<longleftrightarrow> r = es \<and> es \<noteq> [] \<and> tree_ok es"
  by (auto simp: validateParsed_def result_simps validate_parsed_from_iff tree_ok_alt)

lemma encode_check_ok: "sorted (map te_Path es) \<Longrightarrow> encode_check {} es = Inr () \<longleftrightarrow> tree_ok es"
  by (auto simp: encode_check_iff tree_ok_alt strict_sorted_iff)

section \<open>Encoding and decoding\<close>

lemma length_encode_entry: "encode_entry e = Inr d \<Longrightarrow> length d = entry_size e"
  by (auto simp: encode_entry_def entry_size_def uvarintSize_def HashSize_def result_simps)

lemma length_encode_entries: "encode_entries es = Inr d \<Longrightarrow> length d = sum_list (map entry_size es)"
  by (induction es arbitrary: d) (auto simp: result_simps length_encode_entry)

lemma encode_entries_ok: "\<forall>e \<in> set es. validateEntry e = Inr () \<Longrightarrow> \<exists>d. encode_entries es = Inr d"
  by (induction es) (auto simp: result_simps elim: validateEntry_encodes)

lemma capacity_from_iff:
  "capacity_from n es = Inr m \<longleftrightarrow>
     m = n + sum_list (map entry_size es) \<and> (es \<noteq> [] \<longrightarrow> m \<le> cMaxObjectBytes)"
proof (induction es arbitrary: n)
  case (Cons e es)
  have "capacity_from n (e # es) = Inr m \<longleftrightarrow>
      n + entry_size e \<le> cMaxObjectBytes \<and> capacity_from (n + entry_size e) es = Inr m"
    by (simp add: Let_def guard_Inr not_less)
  also have "\<dots> \<longleftrightarrow> m = n + sum_list (map entry_size (e # es)) \<and> (e # es \<noteq> [] \<longrightarrow> m \<le> cMaxObjectBytes)"
    unfolding Cons.IH by (cases "es = []") auto
  finally show ?case .
qed auto

lemma binaryCapacity_iff:
  assumes "encode_entries es = Inr body" "es \<noteq> []"
  shows "is_ok (binaryCapacity es) \<longleftrightarrow>
     length (BinaryMagic @ PutUvarint (length es) @ body) \<le> cMaxObjectBytes"
  using assms by (auto simp: binaryCapacity_def is_ok_iff capacity_from_iff uvarintSize_def
      length_encode_entries [OF assms(1)])

definition tree_bytes :: "TreeEntryObj list \<Rightarrow> bytes \<Rightarrow> bool" where
  "tree_bytes es d \<longleftrightarrow> es \<noteq> [] \<and> length es \<le> MaxEntries \<and> tree_ok es \<and>
     (\<exists>body. encode_entries es = Inr body \<and> d = BinaryMagic @ PutUvarint (length es) @ body) \<and>
     length d \<le> cMaxObjectBytes"

lemma Encode_iff:
  "Encode H es = Inr (d, h) \<longleftrightarrow> tree_bytes (sort_key te_Path es) d \<and> h = H d"
proof -
  let ?s = "sort_key te_Path es"
  have chk: "encode_check {} ?s = Inr () \<longleftrightarrow> tree_ok ?s" by (rule encode_check_ok) simp
  have ne: "es \<noteq> [] \<longleftrightarrow> ?s \<noteq> []" by (metis length_0_conv length_sort)
  have "Encode H es = Inr (d, h) \<longleftrightarrow> es \<noteq> [] \<and> length es \<le> MaxEntries \<and> tree_ok ?s \<and>
      is_ok (binaryCapacity ?s) \<and>
      (\<exists>body. encode_entries ?s = Inr body \<and> d = BinaryMagic @ PutUvarint (length es) @ body \<and> h = H d)"
    by (auto simp: Encode_def result_simps Let_def chk is_ok_iff)
  also have "\<dots> \<longleftrightarrow> tree_bytes ?s d \<and> h = H d"
    using binaryCapacity_iff [of ?s] by (auto simp: tree_bytes_def ne)
  finally show ?thesis .
qed

lemma entry_size_min: "te_Path e \<noteq> [] \<Longrightarrow> cBinaryMinEntry \<le> entry_size e"
proof -
  have "1 \<le> uvarintSize n" for n unfolding uvarintSize_def by (simp add: Suc_le_eq)
  from this [of "length (te_Path e)"] this [of "unat (te_SizeBytes e)"]
  show "te_Path e \<noteq> [] \<Longrightarrow> ?thesis"
    by (cases "te_Path e") (simp_all add: entry_size_def cBinaryMinEntry_def HashSize_def)
qed

lemma entries_size_min:
  "\<forall>e \<in> set es. te_Path e \<noteq> [] \<Longrightarrow> length es * cBinaryMinEntry \<le> sum_list (map entry_size es)"
proof (induction es)
  case (Cons e es)
  then show ?case using entry_size_min [of e] by simp
qed simp

lemma tree_bytes_decode:
  assumes "tree_bytes es d"
  shows "Decode d = Inr es"
proof -
  from assms obtain body where ne: "es \<noteq> []" and len: "length es \<le> MaxEntries" and ok: "tree_ok es"
    and enc: "encode_entries es = Inr body" and d: "d = BinaryMagic @ PutUvarint (length es) @ body"
    and cap: "length d \<le> cMaxObjectBytes"
    by (auto simp: tree_bytes_def)
  have paths: "\<forall>e \<in> set es. te_Path e \<noteq> [] \<and> length (te_Path e) \<le> cMaxPathBytes"
    using ok by (auto simp: tree_ok_def validateEntry_path)
  let ?o = "length BinaryMagic + length (PutUvarint (length es))"
  have dr: "drop ?o d = body" by (simp add: d)
  have "length es < 2 ^ 64" using len by (simp add: MaxEntries_def)
  then have r: "readUvarint d (length BinaryMagic) = Inr (length es, ?o)"
    by (simp add: readUvarint_Inr d)
  have "length es * cBinaryMinEntry \<le> length body"
    using entries_size_min [of es] paths length_encode_entries [OF enc] by simp
  then have cnt: "length es \<le> length body div cBinaryMinEntry"
    by (subst less_eq_div_iff_mult_less_eq) (simp_all add: cBinaryMinEntry_def)
  have len_d: "length d = ?o + length body" by (simp add: d)
  have p: "parse_entries (length es) d ?o = Inr (es, length d)"
    unfolding len_d using parse_entries_complete [OF enc, of ?o d "[]"] dr paths by simp
  have "d \<noteq> []" "HasPrefix d BinaryMagic" by (simp_all add: d)
  with cap ne len cnt show ?thesis
    by (simp add: Decode_def parseBinary_def r p len_d validateParsed_Inr ok)
qed

lemma Decode_bytes:
  assumes "Decode d = Inr es"
  shows "tree_bytes es d"
proof -
  from assms obtain n off where cap: "length d \<le> cMaxObjectBytes" and pre: "HasPrefix d BinaryMagic"
    and r: "readUvarint d (length BinaryMagic) = Inr (n, off)" and n: "0 < n" "n \<le> MaxEntries"
    and p: "parse_entries n d off = Inr (es, length d)" and v: "validateParsed es = Inr es"
    by (auto simp: Decode_def parseBinary_def result_simps validateParsed_Inr)
  from parse_entries_sound [OF p] obtain body where len: "length es = n"
    and enc: "encode_entries es = Inr body" and body: "drop off d = body" by auto
  from pre have "d = BinaryMagic @ drop (length BinaryMagic) d" by (auto simp: HasPrefix_iff)
  then have "d = BinaryMagic @ PutUvarint n @ body" using r body by (auto simp: readUvarint_Inr)
  with cap n len enc v show ?thesis by (auto simp: tree_bytes_def validateParsed_Inr)
qed

lemma Decode_iff: "Decode d = Inr es \<longleftrightarrow> tree_bytes es d"
  using tree_bytes_decode Decode_bytes by blast

lemma tree_bytes_sorted: "tree_bytes es d \<Longrightarrow> sort_key te_Path es = es"
  by (auto simp: tree_bytes_def tree_ok_def intro!: sort_key_id_if_sorted strict_sorted_imp_sorted)

lemma filter_key_unique:
  "distinct (map f xs) \<Longrightarrow> k \<in> set xs \<Longrightarrow> filter (\<lambda>x. f k = f x) xs = [k]"
proof (induction xs)
  case (Cons x xs)
  show ?case
  proof (cases "k = x")
    case True
    with Cons.prems have "filter (\<lambda>y. f k = f y) xs = []" by (auto simp: filter_empty_conv)
    with True show ?thesis by simp
  next
    case False
    with Cons.prems have "f k \<noteq> f x" "k \<in> set xs" by (auto simp: image_iff)
    with Cons show ?thesis by simp
  qed
qed simp

lemma sort_key_mset_eq:
  assumes d: "distinct (map f (sort_key f xs))" and m: "mset ys = mset xs"
  shows "sort_key f ys = sort_key f xs"
proof (rule properties_for_sort_key)
  show "mset (sort_key f xs) = mset ys" using m by simp
  have "distinct (map f ys)" using d m by (metis mset_map mset_sort mset_eq_imp_distinct_iff)
  then show "filter (\<lambda>x. f k = f x) (sort_key f xs) = filter (\<lambda>x. f k = f x) ys"
    if "k \<in> set (sort_key f xs)" for k
    using that d m by (metis filter_key_unique mset_eq_setD set_sort)
qed simp

lemma tree_ok_distinct: "tree_ok es \<Longrightarrow> distinct (map te_Path es)"
  by (simp add: tree_ok_def strict_sorted_iff)

section \<open>Properties\<close>

definition sample_tree :: "TreeEntryObj list" where
  "sample_tree =
     [\<lparr>te_Path = ''src/main.go'', te_Mode = ModeFile, te_SizeBytes = 300, te_BlobHash = hash_copy ''x''\<rparr>,
      \<lparr>te_Path = ''link'', te_Mode = ModeSymlink, te_SizeBytes = 5, te_BlobHash = hash_copy ''y''\<rparr>]"

lemma hash_copy_not_zero: "s \<noteq> [] \<Longrightarrow> hd s \<noteq> ch 0 \<Longrightarrow> \<not> IsZero (hash_copy s)"
  by (cases s) (auto simp: IsZero_def zero_hash_def hash_copy.rep_eq eval_nat_numeral
      dest: arg_cong [of _ _ hash_list])

lemma sample_tree_valid: "e \<in> set sample_tree \<Longrightarrow> validateEntry e = Inr ()"
proof -
  have h: "\<not> IsZero (hash_copy ''x'')" "\<not> IsZero (hash_copy ''y'')"
    by (intro hash_copy_not_zero; code_simp)+
  have p: "validatePath ''src/main.go'' = Inr ()" "validatePath ''link'' = Inr ()"
    unfolding validatePath_iff by code_simp+
  show "e \<in> set sample_tree \<Longrightarrow> ?thesis"
    unfolding validateEntry_iff by (auto simp: sample_tree_def h p)
qed

lemma sample_tree_sort: "sort_key te_Path sample_tree = rev sample_tree"
  by (simp add: sample_tree_def less_char_def)

lemma sample_tree_bytes: "\<exists>d. tree_bytes (sort_key te_Path sample_tree) d"
proof -
  obtain body where body: "encode_entries (rev sample_tree) = Inr body"
    using encode_entries_ok [of "rev sample_tree"] sample_tree_valid by auto
  have "tree_ok (rev sample_tree)"
    using sample_tree_valid unfolding tree_ok_def
    by (auto simp: sample_tree_def less_char_def is_parent_def HasPrefix_def slash_def)
  moreover have "length (BinaryMagic @ PutUvarint (length (rev sample_tree)) @ body) \<le> cMaxObjectBytes"
    by (simp add: length_encode_entries [OF body] sample_tree_def entry_size_def uvarintSize_def
        PutUvarint.simps BinaryMagic_def cMaxObjectBytes_def HashSize_def)
  ultimately have "tree_bytes (rev sample_tree)
      (BinaryMagic @ PutUvarint (length (rev sample_tree)) @ body)"
    using body by (simp add: tree_bytes_def MaxEntries_def) (simp add: sample_tree_def)
  then show ?thesis using sample_tree_sort by auto
qed

text \<open>
  C29: encoding a tree and decoding the bytes gives back exactly its entries, in path order, and the
  returned tree digest is the digest of those bytes.
\<close>

theorem encode_decode_roundtrip:
  assumes "Encode H entriesArr = Inr (dataArr, treeHash)"
  shows "Decode dataArr = Inr (sort_key te_Path entriesArr) \<and> treeHash = H dataArr"
  using assms by (simp add: Encode_iff Decode_iff)

theorem encode_decode_roundtrip_witness:
  "\<exists>d. Encode hash_copy sample_tree = Inr (d, hash_copy d) \<and> Decode d = Inr (rev sample_tree)"
proof -
  obtain d where "Encode hash_copy sample_tree = Inr (d, hash_copy d)"
    using sample_tree_bytes by (auto simp: Encode_iff)
  from this encode_decode_roundtrip [OF this] show ?thesis by (auto simp: sample_tree_sort)
qed

text \<open>
  C30: the format is canonical: whatever byte string \<open>Decode\<close> accepts, from any peer, is the
  very string that \<open>Encode\<close> produces for the decoded entries. Two different objects never
  decode to the same tree, so a tree has one digest.
\<close>

theorem decode_is_canonical:
  assumes "Decode dataArr = Inr entriesArr"
  shows "Encode H entriesArr = Inr (dataArr, H dataArr)"
  using assms tree_bytes_sorted by (simp add: Encode_iff Decode_iff)

theorem decode_is_canonical_witness:
  "\<exists>d. Decode d = Inr (rev sample_tree) \<and> Encode hash_copy (rev sample_tree) = Inr (d, hash_copy d)"
proof -
  obtain d where "Decode d = Inr (rev sample_tree)"
    using sample_tree_bytes by (auto simp: Decode_iff sample_tree_sort)
  from this decode_is_canonical [OF this, of hash_copy] show ?thesis by blast
qed

text \<open>
  C31: a decoded tree is safe to write out: at least one and at most \<open>MaxEntries\<close> entries, every
  path canonical, clean and of bounded length, no path twice, no path below another entry's path,
  only files and symlinks, and no empty digest.
\<close>

theorem decode_accepts_only_safe_trees:
  assumes "Decode dataArr = Inr entriesArr"
  shows "entriesArr \<noteq> [] \<and> length entriesArr \<le> MaxEntries \<and> distinct (map te_Path entriesArr) \<and>
     (\<forall>e \<in> set entriesArr. CleanArchiveEntryPath (te_Path e) = Inr (te_Path e) \<and>
        length (te_Path e) \<le> cMaxPathBytes \<and> te_Mode e \<in> {ModeFile, ModeSymlink} \<and>
        \<not> IsZero (te_BlobHash e)) \<and>
     (\<forall>a \<in> set entriesArr. \<forall>b \<in> set entriesArr. \<not> HasPrefix (te_Path b) (te_Path a @ ''/''))"
proof -
  from assms have b: "entriesArr \<noteq> []" "length entriesArr \<le> MaxEntries" and ok: "tree_ok entriesArr"
    by (auto simp: Decode_iff tree_bytes_def)
  with tree_ok_distinct [OF ok] show ?thesis
    by (auto simp: tree_ok_def validateEntry_iff validatePath_iff is_parent_def slash_def)
qed

theorem decode_accepts_only_safe_trees_witness:
  "\<exists>d. Decode d = Inr (rev sample_tree) \<and> distinct (map te_Path (rev sample_tree))"
proof -
  obtain d where "Decode d = Inr (rev sample_tree)"
    using sample_tree_bytes by (auto simp: Decode_iff sample_tree_sort)
  with decode_accepts_only_safe_trees [OF this] show ?thesis by blast
qed

text \<open>
  The tree digest does not depend on the order in which the entries are handed over.
\<close>

lemma encode_order_independent:
  assumes "Encode H entriesArr = Inr (dataArr, treeHash)" "mset entriesArr' = mset entriesArr"
  shows "Encode H entriesArr' = Inr (dataArr, treeHash)"
proof -
  have "tree_ok (sort_key te_Path entriesArr)" using assms(1) by (simp add: Encode_iff tree_bytes_def)
  then have "sort_key te_Path entriesArr' = sort_key te_Path entriesArr"
    using assms(2) by (intro sort_key_mset_eq tree_ok_distinct)
  with assms(1) show ?thesis by (simp add: Encode_iff)
qed

end
