(* ===== verification/Triples.thy ===== *)
theory Triples
  imports Prelude
begin

text \<open>
  Stateful operations that can fail. An operation is a function from the state to a result
  with an error and the new state; the state is kept on the error path as well, because
  what a failed operation leaves behind is part of what has to be proved. \<open>sbind\<close> is
  sequencing with early return on an error. \<open>triple P m Q E\<close> is the Hoare triple with two
  postconditions: \<open>Q\<close> for a normal result, \<open>E\<close> for an error.
\<close>

type_synonym ('s, 'e, 'a) op = "'s \<Rightarrow> ('e + 'a) \<times> 's"

definition sret :: "'a \<Rightarrow> ('s, 'e, 'a) op" where
  "sret x s = (Inr x, s)"

definition sfail :: "'e \<Rightarrow> ('s, 'e, 'a) op" where
  "sfail e s = (Inl e, s)"

definition sbind :: "('s, 'e, 'a) op \<Rightarrow> ('a \<Rightarrow> ('s, 'e, 'b) op) \<Rightarrow> ('s, 'e, 'b) op" where
  "sbind m f s = (case m s of (Inl e, s') \<Rightarrow> (Inl e, s') | (Inr x, s') \<Rightarrow> f x s')"

definition sget :: "('s \<Rightarrow> 'a) \<Rightarrow> ('s, 'e, 'a) op" where
  "sget f s = (Inr (f s), s)"

definition smod :: "('s \<Rightarrow> 's) \<Rightarrow> ('s, 'e, unit) op" where
  "smod f s = (Inr (), f s)"

definition slift :: "('e + 'a) \<Rightarrow> ('s, 'e, 'a) op" where
  "slift r s = (r, s)"

definition sguard :: "bool \<Rightarrow> 'e \<Rightarrow> ('s, 'e, unit) op" where
  "sguard c e = (if c then sfail e else sret ())"

text \<open>\<open>defer\<close>-style clean-up: run \<open>f\<close> on the state when \<open>m\<close> fails.\<close>

definition on_error :: "('s \<Rightarrow> 's) \<Rightarrow> ('s, 'e, 'a) op \<Rightarrow> ('s, 'e, 'a) op" where
  "on_error f m s = (case m s of (Inl e, s') \<Rightarrow> (Inl e, f s') | (Inr x, s') \<Rightarrow> (Inr x, s'))"

text \<open>A loop that stops at the first error, and one with an accumulator.\<close>

fun siter :: "('a \<Rightarrow> ('s, 'e, unit) op) \<Rightarrow> 'a list \<Rightarrow> ('s, 'e, unit) op" where
  "siter f [] = sret ()"
| "siter f (x # xs) = sbind (f x) (\<lambda>_. siter f xs)"

fun sfoldl :: "('b \<Rightarrow> 'a \<Rightarrow> ('s, 'e, 'b) op) \<Rightarrow> 'b \<Rightarrow> 'a list \<Rightarrow> ('s, 'e, 'b) op" where
  "sfoldl f acc [] = sret acc"
| "sfoldl f acc (x # xs) = sbind (f acc x) (\<lambda>acc'. sfoldl f acc' xs)"

text \<open>\<open>for start := 0; start < len(xs); start += n\<close>: consecutive slices of at most \<open>n\<close>.\<close>

function slices :: "nat \<Rightarrow> 'a list \<Rightarrow> 'a list list" where
  "slices n xs = (if xs = [] then [] else take (max 1 n) xs # slices n (drop (max 1 n) xs))"
  by pat_completeness auto
termination by (relation "measure (length \<circ> snd)") (auto simp: max_def)

declare slices.simps [simp del]

lemma slices_Nil [simp]: "slices n [] = []"
  by (simp add: slices.simps)

lemma concat_slices [simp]: "concat (slices n xs) = xs"
proof (induction n xs rule: slices.induct)
  case (1 n xs)
  then show ?case by (subst slices.simps) auto
qed

named_theorems op_defs
declare sret_def [op_defs] sfail_def [op_defs] sbind_def [op_defs] sget_def [op_defs]
  smod_def [op_defs] slift_def [op_defs] sguard_def [op_defs] on_error_def [op_defs]

definition triple :: "('s \<Rightarrow> bool) \<Rightarrow> ('s, 'e, 'a) op \<Rightarrow> ('a \<Rightarrow> 's \<Rightarrow> bool) \<Rightarrow> ('e \<Rightarrow> 's \<Rightarrow> bool) \<Rightarrow> bool" where
  "triple P m Q E \<longleftrightarrow>
     (\<forall>s. P s \<longrightarrow> (case m s of (Inl e, s') \<Rightarrow> E e s' | (Inr x, s') \<Rightarrow> Q x s'))"

named_theorems triple_rules

lemma tripleI:
  "(\<And>s e s'. P s \<Longrightarrow> m s = (Inl e, s') \<Longrightarrow> E e s') \<Longrightarrow>
   (\<And>s x s'. P s \<Longrightarrow> m s = (Inr x, s') \<Longrightarrow> Q x s') \<Longrightarrow> triple P m Q E"
  by (auto simp: triple_def split: sum.splits prod.splits)

lemma triple_Inr: "triple P m Q E \<Longrightarrow> m s = (Inr x, s') \<Longrightarrow> P s \<Longrightarrow> Q x s'"
  by (auto simp: triple_def)

lemma triple_Inl: "triple P m Q E \<Longrightarrow> m s = (Inl e, s') \<Longrightarrow> P s \<Longrightarrow> E e s'"
  by (auto simp: triple_def)

lemma triple_weaken:
  "triple P' m Q' E' \<Longrightarrow> (\<And>s. P s \<Longrightarrow> P' s) \<Longrightarrow> (\<And>x s. Q' x s \<Longrightarrow> Q x s) \<Longrightarrow>
   (\<And>e s. E' e s \<Longrightarrow> E e s) \<Longrightarrow> triple P m Q E"
  by (fastforce simp: triple_def split: sum.splits prod.splits)

lemma triple_bind [triple_rules]:
  "(\<And>x. triple (R x) (f x) Q E) \<Longrightarrow> triple P m R E \<Longrightarrow> triple P (sbind m f) Q E"
  by (fastforce simp: triple_def sbind_def split: sum.splits prod.splits)

lemma triple_ret [triple_rules]: "(\<And>s. P s \<Longrightarrow> Q x s) \<Longrightarrow> triple P (sret x) Q E"
  by (simp add: triple_def sret_def)

lemma triple_fail [triple_rules]: "(\<And>s. P s \<Longrightarrow> E e s) \<Longrightarrow> triple P (sfail e) Q E"
  by (simp add: triple_def sfail_def)

lemma triple_get [triple_rules]: "(\<And>s. P s \<Longrightarrow> Q (f s) s) \<Longrightarrow> triple P (sget f) Q E"
  by (simp add: triple_def sget_def)

lemma triple_mod [triple_rules]: "(\<And>s. P s \<Longrightarrow> Q () (f s)) \<Longrightarrow> triple P (smod f) Q E"
  by (simp add: triple_def smod_def)

lemma triple_lift [triple_rules]:
  "(\<And>s x. P s \<Longrightarrow> r = Inr x \<Longrightarrow> Q x s) \<Longrightarrow> (\<And>s e. P s \<Longrightarrow> r = Inl e \<Longrightarrow> E e s) \<Longrightarrow>
   triple P (slift r) Q E"
  by (auto simp: triple_def slift_def split: sum.splits)

lemma triple_guard [triple_rules]:
  "(\<And>s. P s \<Longrightarrow> c \<Longrightarrow> E e s) \<Longrightarrow> (\<And>s. P s \<Longrightarrow> \<not> c \<Longrightarrow> Q () s) \<Longrightarrow> triple P (sguard c e) Q E"
  by (auto simp: triple_def sguard_def sret_def sfail_def)

lemma triple_if [triple_rules]:
  "(c \<Longrightarrow> triple P m Q E) \<Longrightarrow> (\<not> c \<Longrightarrow> triple P m' Q E) \<Longrightarrow> triple P (if c then m else m') Q E"
  by simp

lemma triple_on_error [triple_rules]:
  "triple P m Q (\<lambda>e s. E e (f s)) \<Longrightarrow> triple P (on_error f m) Q E"
  by (fastforce simp: triple_def on_error_def split: sum.splits prod.splits)

lemma triple_siter [triple_rules]:
  assumes "\<And>x. x \<in> set xs \<Longrightarrow> triple I (f x) (\<lambda>_. I) E"
  shows "triple I (siter f xs) (\<lambda>_. I) E"
  using assms by (induction xs) (auto intro!: triple_rules)

lemma triple_sfoldl:
  assumes "\<And>acc x. x \<in> set xs \<Longrightarrow> triple (I acc) (f acc x) I E"
  shows "triple (I acc) (sfoldl f acc xs) I E"
  using assms by (induction xs arbitrary: acc) (auto intro!: triple_rules)

lemma sbind_cong [fundef_cong]:
  "m s = m' s' \<Longrightarrow> (\<And>x s1. m' s' = (Inr x, s1) \<Longrightarrow> f x s1 = f' x s1) \<Longrightarrow> s = s' \<Longrightarrow>
   sbind m f s = sbind m' f' s'"
  by (auto simp: sbind_def split: prod.splits sum.splits)

lemma sbind_Inr:
  "sbind m f s = (Inr y, s') \<longleftrightarrow> (\<exists>x s1. m s = (Inr x, s1) \<and> f x s1 = (Inr y, s'))"
  by (auto simp: sbind_def split: sum.splits prod.splits)

lemma sguard_Inr: "sguard c e s = (Inr x, s') \<longleftrightarrow> \<not> c \<and> s' = s"
  by (auto simp: sguard_def sret_def sfail_def)

lemma sret_Inr: "sret x s = (Inr y, s') \<longleftrightarrow> y = x \<and> s' = s" by (auto simp: sret_def)
lemma sget_Inr: "sget f s = (Inr y, s') \<longleftrightarrow> y = f s \<and> s' = s" by (auto simp: sget_def)
lemma smod_Inr: "smod f s = (Inr y, s') \<longleftrightarrow> s' = f s" by (auto simp: smod_def)
lemma slift_Inr: "slift r s = (Inr y, s') \<longleftrightarrow> r = Inr y \<and> s' = s" by (auto simp: slift_def)
lemma sfail_Inr: "sfail e s = (Inr y, s') \<longleftrightarrow> False" by (auto simp: sfail_def)

lemma sbind_Inl:
  "sbind m f s = (Inl e, s') \<longleftrightarrow> m s = (Inl e, s') \<or> (\<exists>x s1. m s = (Inr x, s1) \<and> f x s1 = (Inl e, s'))"
  by (auto simp: sbind_def split: sum.splits prod.splits)

lemma sguard_Inl: "sguard c e s = (Inl e', s') \<longleftrightarrow> c \<and> e' = e \<and> s' = s"
  by (auto simp: sguard_def sret_def sfail_def)

lemma sret_Inl: "sret x s = (Inl e, s') \<longleftrightarrow> False" by (auto simp: sret_def)
lemma sget_Inl: "sget f s = (Inl e, s') \<longleftrightarrow> False" by (auto simp: sget_def)
lemma smod_Inl: "smod f s = (Inl e, s') \<longleftrightarrow> False" by (auto simp: smod_def)
lemma slift_Inl: "slift r s = (Inl e, s') \<longleftrightarrow> r = Inl e \<and> s' = s" by (auto simp: slift_def)
lemma sfail_Inl: "sfail e s = (Inl e', s') \<longleftrightarrow> e' = e \<and> s' = s" by (auto simp: sfail_def)

lemma on_error_Inr: "on_error f m s = (Inr x, s') \<longleftrightarrow> m s = (Inr x, s')"
  by (auto simp: on_error_def split: sum.splits prod.splits)

lemma on_error_Inl: "on_error f m s = (Inl e, s') \<longleftrightarrow> (\<exists>s1. m s = (Inl e, s1) \<and> s' = f s1)"
  by (auto simp: on_error_def split: sum.splits prod.splits)

lemmas op_Inl = sbind_Inl sguard_Inl sret_Inl sget_Inl smod_Inl slift_Inl sfail_Inl on_error_Inl

lemmas op_Inr = sbind_Inr sguard_Inr sret_Inr sget_Inr smod_Inr slift_Inr sfail_Inr on_error_Inr

end
