(* ===== verification/Archive_Extract.thy ===== *)
theory Archive_Extract
  imports TreeCodec Triples
begin

text \<open>
  Extraction of source archives: \<open>mod/archive/obj.go\<close>, \<open>helper.go\<close>, \<open>extract.go\<close>,
  \<open>tar.go\<close> and \<open>zip.go\<close>.

  The parsers \<open>archive/tar\<close> and \<open>archive/zip\<close> are modelled by what they hand to the
  extractor: the sequence of headers and, for each regular entry, the sequence of results of
  \<open>Read\<close>. The theorems hold for every such sequence, so for every archive. The spool directory
  is a list of named files in the state; \<open>arch_env\<close> holds the digest function, the outcome of
  the n-th file system call (\<open>os_ok\<close>) and the name \<open>os.CreateTemp\<close> chooses
  (\<open>os_temp\<close>). \<open>os.Remove\<close> of a file created by the extractor is taken to succeed. A reader
  is a finite sequence of results, followed by the end of the stream.

  The lemmas show the anti-bomb limits, the safety of the resulting tree, that staged blobs hold what
  their digest says, and that a failed extraction leaves the spool as it was.
\<close>

section \<open>Limits, requests and errors (obj.go)\<close>

datatype archive_check =
    CheckMalformed | CheckUnsupported | CheckDuplicatePath | CheckPathConflict | CheckEmpty
  | CheckSymlinkTarget | CheckGzipTrailing | CheckHeaderCount | CheckFileBytes | CheckPathBytes
  | CheckUnpackedSize | CheckCompressionRatio | CheckTarStream | CheckEntryHardCap | CheckSpool
  | CheckArchiveSize

definition cCopyBufferBytes :: nat where "cCopyBufferBytes = 64 * 1024"
definition cTreeMaxEntries :: nat where "cTreeMaxEntries = 1000000"

record LimitsObj =
  MaxArchiveSize :: u64
  MaxArchiveUnpackedSize :: u64
  MaxArchiveFileBytes :: u64
  MaxArchiveFiles :: u64
  MaxArchivePathBytes :: u64

record RequestObj =
  rq_Key :: string
  rq_Version :: string
  rq_Format :: string
  rq_SourceSizeBytes :: u64
  rq_limitsObj :: LimitsObj

record ResultObj =
  rs_Entries :: "StagedEntryObj list"
  rs_Blobs :: "StagedBlobObj list"
  rs_DroppedSymlinks :: "string list"

definition FormatZip :: string where "FormatZip = ''zip''"
definition FormatTar :: string where "FormatTar = ''tar''"
definition FormatTarGz :: string where "FormatTarGz = ''tar.gz''"

definition validateFormat :: "string \<Rightarrow> bool" where
  "validateFormat f \<longleftrightarrow> f = FormatZip \<or> f = FormatTar \<or> f = FormatTarGz"

datatype limits_error = NoMaxFiles | NoMaxPathBytes | NoMaxFileBytes | NoMaxUnpackedSize

definition validateLimits :: "LimitsObj \<Rightarrow> limits_error + unit" where
  "validateLimits lim =
     guard (MaxArchiveFiles lim = 0) NoMaxFiles
    (guard (MaxArchivePathBytes lim = 0) NoMaxPathBytes
    (guard (MaxArchiveFileBytes lim = 0) NoMaxFileBytes
    (guard (MaxArchiveUnpackedSize lim = 0) NoMaxUnpackedSize
    (Inr ()))))"

definition archive_New :: "LimitsObj \<Rightarrow> limits_error + LimitsObj" where
  "archive_New lim = andthen (validateLimits lim) (\<lambda>_. Inr lim)"

text \<open>
  The errors of \<open>stcode\<close> (generated code) carry the fields they are built from.
\<close>

datatype archive_error =
    ErrArchiveRejected archive_check string string string string
  | ErrArchiveLimitExceeded archive_check string u64 u64 string
  | ErrContext

section \<open>Error paths are printable (safeErrorPath)\<close>

definition cErrorPathMaxBytes :: nat where "cErrorPathMaxBytes = 256"

text \<open>Size of the rune at the head of a string, 0 if \<open>utf8.DecodeRuneInString\<close> finds none.\<close>

definition rune_size :: "string \<Rightarrow> nat" where
  "rune_size s = (case s of [] \<Rightarrow> 0 | a # s1 \<Rightarrow>
     if code_of a < 128 then 1
     else if byte_in 194 223 a then (if s1 \<noteq> [] \<and> byte_in 128 191 (s1 ! 0) then 2 else 0)
     else if byte_in 224 239 a then
       (if 2 \<le> length s1 \<and> utf8_pair3 a (s1 ! 0) \<and> byte_in 128 191 (s1 ! 1) then 3 else 0)
     else (if 3 \<le> length s1 \<and> utf8_pair4 a (s1 ! 0) \<and> byte_in 128 191 (s1 ! 1) \<and>
              byte_in 128 191 (s1 ! 2) then 4 else 0))"

function (sequential) safe_path_loop :: "bytes \<Rightarrow> string \<Rightarrow> bytes \<times> string" where
  "safe_path_loop out [] = (out, [])"
| "safe_path_loop out (a # s) =
     (if length out \<ge> cErrorPathMaxBytes then (out, a # s)
      else (let n = rune_size (a # s);
                (r, n') = (if n = 0 then ([CHR ''?''], 1)
                           else if is_control a then ([CHR ''?''], n)
                           else (take n (a # s), n))
            in if length out + length r > cErrorPathMaxBytes then (out, a # s)
               else safe_path_loop (out @ r) (drop n' (a # s))))"
  by pat_completeness auto
termination by (relation "measure (length \<circ> snd)") (auto split: if_splits)

definition safeErrorPath :: "string \<Rightarrow> string" where
  "safeErrorPath pathText =
     (if pathText = [] then []
      else (let (out, rest) = safe_path_loop [] pathText in if rest \<noteq> [] then out @ ''...'' else out))"

record limitFactsObj =
  lf_headerCount :: nat
  lf_fileBytes :: u64
  lf_pathBytes :: nat
  lf_unpackedBytes :: u64

definition no_facts :: limitFactsObj where
  "no_facts = \<lparr>lf_headerCount = 0, lf_fileBytes = 0, lf_pathBytes = 0, lf_unpackedBytes = 0\<rparr>"

definition newRejectedErr :: "RequestObj \<Rightarrow> archive_check \<Rightarrow> string \<Rightarrow> archive_error" where
  "newRejectedErr req checkName pathText =
     ErrArchiveRejected checkName (rq_Format req) (rq_Key req) (safeErrorPath pathText) (rq_Version req)"

definition newLimitsErr :: "RequestObj \<Rightarrow> archive_check \<Rightarrow> limitFactsObj \<Rightarrow> archive_error" where
  "newLimitsErr req checkName facts =
     (let lim = rq_limitsObj req;
          (v, m) = (case checkName of
              CheckFileBytes \<Rightarrow> (lf_fileBytes facts, MaxArchiveFileBytes lim)
            | CheckPathBytes \<Rightarrow> (of_nat (lf_pathBytes facts), MaxArchivePathBytes lim)
            | CheckHeaderCount \<Rightarrow> (of_nat (lf_headerCount facts), MaxArchiveFiles lim)
            | CheckEntryHardCap \<Rightarrow> (of_nat (lf_headerCount facts), MaxArchiveFiles lim)
            | _ \<Rightarrow> (lf_unpackedBytes facts, MaxArchiveUnpackedSize lim))
      in ErrArchiveLimitExceeded checkName (rq_Key req) m v (rq_Version req))"

fun isArchivePolicyErr :: "archive_error \<Rightarrow> bool" where
  "isArchivePolicyErr (ErrArchiveLimitExceeded _ _ _ _ _) = True"
| "isArchivePolicyErr _ = False"

section \<open>The final tree (helper.go)\<close>

definition hasSeenParent :: "string set \<Rightarrow> string \<Rightarrow> string option" where
  "hasSeenParent seenObj pathText =
     map_option (\<lambda>i. take i pathText)
       (List.find (\<lambda>i. pathText ! i = slash \<and> take i pathText \<in> seenObj) [0..<length pathText])"

definition topSegment :: "string \<Rightarrow> string \<times> bool" where
  "topSegment pathText =
     (case IndexByte pathText slash of None \<Rightarrow> (pathText, False) | Some i \<Rightarrow> (take i pathText, True))"

definition stripCommonTopDir :: "StagedEntryObj list \<Rightarrow> StagedEntryObj list" where
  "stripCommonTopDir entryArr =
     (case entryArr of [] \<Rightarrow> entryArr
      | e0 # es \<Rightarrow>
        (let (topText, ok) = topSegment (se_Path e0)
         in if \<not> ok then entryArr
            else if \<exists>e \<in> set es. \<not> snd (topSegment (se_Path e)) \<or> fst (topSegment (se_Path e)) \<noteq> topText
            then entryArr
            else map (\<lambda>e. e\<lparr>se_Path := TrimPrefix (se_Path e) (topText @ [slash])\<rparr>) entryArr))"

fun final_check :: "RequestObj \<Rightarrow> string set \<Rightarrow> StagedEntryObj list \<Rightarrow> archive_error + unit" where
  "final_check req seenPathObj [] = Inr ()"
| "final_check req seenPathObj (e # es) =
     (case CleanArchiveEntryPath (se_Path e) of
        Inl _ \<Rightarrow> Inl (newRejectedErr req CheckMalformed (se_Path e))
      | Inr cleanPath \<Rightarrow>
         guard (cleanPath \<noteq> se_Path e) (newRejectedErr req CheckMalformed (se_Path e))
        (guard (se_Path e \<in> seenPathObj) (newRejectedErr req CheckDuplicatePath (se_Path e))
        (guard (hasSeenParent seenPathObj (se_Path e) \<noteq> None) (newRejectedErr req CheckPathConflict (se_Path e))
        (final_check req (insert (se_Path e) seenPathObj) es))))"

text \<open>The entries are sorted in place, so the sorted list is the one that is returned.\<close>

definition validateFinalEntries :: "RequestObj \<Rightarrow> StagedEntryObj list \<Rightarrow> archive_error + StagedEntryObj list" where
  "validateFinalEntries req entryArr =
     guard (entryArr = []) (newRejectedErr req CheckEmpty [])
    (let sortedArr = sort_key se_Path entryArr
     in andthen (final_check req {} sortedArr) (\<lambda>_. Inr sortedArr))"

definition validateCleanPath :: "RequestObj \<Rightarrow> string \<Rightarrow> nat \<Rightarrow> archive_error + string" where
  "validateCleanPath req pathText hdrCount =
     guard (int (length pathText) > sint (MaxArchivePathBytes (rq_limitsObj req)))
       (newLimitsErr req CheckPathBytes (no_facts\<lparr>lf_headerCount := hdrCount, lf_pathBytes := length pathText\<rparr>))
    (map_err (\<lambda>_. newRejectedErr req CheckMalformed pathText) (CleanArchiveEntryPath pathText))"

definition validateSymlinkTarget :: "RequestObj \<Rightarrow> bytes \<Rightarrow> archive_error + unit" where
  "validateSymlinkTarget req targetArr =
     guard (int (length targetArr) > sint (MaxArchivePathBytes (rq_limitsObj req)))
       (newLimitsErr req CheckPathBytes (no_facts\<lparr>lf_pathBytes := length targetArr\<rparr>))
    (Inr ())"

section \<open>The extraction state (helper.go)\<close>

record arch_env =
  env_H :: "bytes \<Rightarrow> HashObj"
  os_ok :: "nat \<Rightarrow> bool"
  os_temp :: "string list \<Rightarrow> string"

record stateObj =
  headerCount :: nat
  unpackedBytes :: u64
  entryArr :: "StagedEntryObj list"
  blobByHash :: "(HashObj \<times> StagedBlobObj) list"
  symlinkTargetByHash :: "(HashObj \<times> bytes) list"
  droppedSymlinkArr :: "string list"
  createdPathArr :: "string list"
  spool :: "(string \<times> bytes) list"
  io_count :: nat

type_synonym 'a arch = "(stateObj, archive_error, 'a) op"

definition newState :: "(string \<times> bytes) list \<Rightarrow> stateObj" where
  "newState fs = \<lparr>headerCount = 0, unpackedBytes = 0, entryArr = [], blobByHash = [],
     symlinkTargetByHash = [], droppedSymlinkArr = [], createdPathArr = [], spool = fs, io_count = 0\<rparr>"

definition remove_file :: "string \<Rightarrow> stateObj \<Rightarrow> stateObj" where
  "remove_file p st = st\<lparr>spool := filter (\<lambda>(q, _). q \<noteq> p) (spool st)\<rparr>"

definition append_file :: "string \<Rightarrow> bytes \<Rightarrow> stateObj \<Rightarrow> stateObj" where
  "append_file p d st = st\<lparr>spool := map (\<lambda>(q, c). if q = p then (q, c @ d) else (q, c)) (spool st)\<rparr>"

definition io_call :: "arch_env \<Rightarrow> archive_error \<Rightarrow> unit arch" where
  "io_call E e st =
     (if os_ok E (io_count st) then (Inr (), st\<lparr>io_count := Suc (io_count st)\<rparr>)
      else (Inl e, st\<lparr>io_count := Suc (io_count st)\<rparr>))"

definition countHeader :: "RequestObj \<Rightarrow> unit arch" where
  "countHeader req st =
     (let st' = st\<lparr>headerCount := headerCount st + 1\<rparr>;
          facts = no_facts\<lparr>lf_headerCount := headerCount st'\<rparr>; lim = rq_limitsObj req
      in if headerCount st' > cTreeMaxEntries then (Inl (newLimitsErr req CheckEntryHardCap facts), st')
         else if MaxArchiveFiles lim > 0 \<and> headerCount st' > unat (MaxArchiveFiles lim)
         then (Inl (newLimitsErr req CheckHeaderCount facts), st')
         else (Inr (), st'))"

definition addUnpacked :: "RequestObj \<Rightarrow> u64 \<Rightarrow> unit arch" where
  "addUnpacked req sizeBytes st =
     (let (attemptedBytes, overflowFlag) = saturatingAdd (unpackedBytes st) sizeBytes;
          lim = rq_limitsObj req
      in if MaxArchiveUnpackedSize lim > 0 \<and> (overflowFlag \<or> attemptedBytes > MaxArchiveUnpackedSize lim)
         then (Inl (newLimitsErr req CheckUnpackedSize
                (no_facts\<lparr>lf_headerCount := headerCount st, lf_fileBytes := sizeBytes,
                          lf_unpackedBytes := attemptedBytes\<rparr>)), st)
         else (Inr (), st\<lparr>unpackedBytes := attemptedBytes\<rparr>))"

definition cleanupCreated :: "stateObj \<Rightarrow> stateObj" where
  "cleanupCreated st = foldl (\<lambda>s p. remove_file p s) st (createdPathArr st)"

definition addEntry :: "RequestObj \<Rightarrow> string \<Rightarrow> string \<Rightarrow> HashObj \<Rightarrow> u64 \<Rightarrow> string \<Rightarrow> unit arch" where
  "addEntry req pathText mode hashObj sizeBytes filePath st =
     (let entryObj = \<lparr>se_Path = pathText, se_Mode = mode, se_BlobHash = hashObj, se_SizeBytes = sizeBytes\<rparr>
      in case map_of (blobByHash st) hashObj of
           Some seenObj \<Rightarrow>
             if sb_SizeBytes seenObj \<noteq> sizeBytes then (Inl (newRejectedErr req CheckMalformed pathText), st)
             else (let st' = (if filePath \<noteq> [] then remove_file filePath st else st)
                   in (Inr (), st'\<lparr>entryArr := entryArr st' @ [entryObj]\<rparr>))
         | None \<Rightarrow>
             (Inr (), st\<lparr>blobByHash := blobByHash st @ [(hashObj,
                \<lparr>sb_BlobHash = hashObj, sb_SizeBytes = sizeBytes, sb_FilePath = filePath\<rparr>)],
                entryArr := entryArr st @ [entryObj]\<rparr>))"

text \<open>\<open>validateSameSpoolPath\<close> is one outcome of the file system: the directory is still the same.\<close>

definition createTempBlob :: "arch_env \<Rightarrow> archive_error \<Rightarrow> string arch" where
  "createTempBlob E e =
     sbind (io_call E e) (\<lambda>_.
     sbind (io_call E e) (\<lambda>_.
     sbind (sget (\<lambda>st. os_temp E (map fst (spool st)))) (\<lambda>p.
     sbind (smod (\<lambda>st. st\<lparr>spool := (p, []) # spool st\<rparr>)) (\<lambda>_.
     sbind (on_error (remove_file p) (io_call E e)) (\<lambda>_. sret p)))))"

definition writeTempBytes :: "arch_env \<Rightarrow> archive_error \<Rightarrow> bytes \<Rightarrow> string arch" where
  "writeTempBytes E e dataArr =
     sbind (createTempBlob E e) (\<lambda>p.
       on_error (remove_file p)
        (sbind (io_call E e) (\<lambda>_.
         sbind (smod (append_file p dataArr)) (\<lambda>_.
         sbind (io_call E e) (\<lambda>_. sret p)))))"

definition writeBytesEntry :: "arch_env \<Rightarrow> RequestObj \<Rightarrow> string \<Rightarrow> string \<Rightarrow> bytes \<Rightarrow> unit arch" where
  "writeBytesEntry E req pathText mode dataArr =
     (let lim = rq_limitsObj req; sizeBytes = of_nat (length dataArr) in
      sbind (sget headerCount) (\<lambda>hdrCount.
      sbind (sguard (MaxArchiveFileBytes lim > 0 \<and> sizeBytes > MaxArchiveFileBytes lim)
               (newLimitsErr req CheckFileBytes (no_facts\<lparr>lf_headerCount := hdrCount,
                  lf_fileBytes := sizeBytes, lf_pathBytes := length pathText\<rparr>))) (\<lambda>_.
      sbind (addUnpacked req sizeBytes) (\<lambda>_.
      sbind (writeTempBytes E (newRejectedErr req CheckSpool pathText) dataArr) (\<lambda>filePath.
      sbind (smod (\<lambda>st. st\<lparr>createdPathArr := createdPathArr st @ [filePath]\<rparr>)) (\<lambda>_.
      let hashObj = env_H E dataArr in
      sbind (smod (\<lambda>st. if mode = ModeSymlink
               then st\<lparr>symlinkTargetByHash := (hashObj, dataArr) # symlinkTargetByHash st\<rparr> else st)) (\<lambda>_.
      addEntry req pathText mode hashObj sizeBytes filePath)))))))"

text \<open>
  One result of \<open>Read\<close>: data, data with the end of the stream, data with an error; or the
  context is done before the next read. A stream that runs out of results has ended.
\<close>

datatype read_event = ReadData bytes | ReadEOF bytes | ReadFail bytes | ReadCancelled

definition read_step :: "arch_env \<Rightarrow> RequestObj \<Rightarrow> string \<Rightarrow> string \<Rightarrow> bytes \<Rightarrow> u64 \<Rightarrow> bytes \<Rightarrow> (bytes \<times> u64) arch" where
  "read_step E req pathText filePath hashed sizeBytes chunk st =
     (if chunk = [] then (Inr (hashed, sizeBytes), st)
      else (let lim = rq_limitsObj req;
          (nextSizeBytes, overflowFlag) = saturatingAdd sizeBytes (of_nat (length chunk));
          (attemptedBytes, totalOverflowFlag) = saturatingAdd (unpackedBytes st) nextSizeBytes;
          facts = no_facts\<lparr>lf_headerCount := headerCount st, lf_fileBytes := nextSizeBytes,
                           lf_pathBytes := length pathText\<rparr>
      in if MaxArchiveFileBytes lim > 0 \<and> (overflowFlag \<or> nextSizeBytes > MaxArchiveFileBytes lim)
         then (Inl (newLimitsErr req CheckFileBytes facts), st)
         else if MaxArchiveUnpackedSize lim > 0 \<and>
           (totalOverflowFlag \<or> attemptedBytes > MaxArchiveUnpackedSize lim)
         then (Inl (newLimitsErr req CheckUnpackedSize (facts\<lparr>lf_unpackedBytes := attemptedBytes\<rparr>)), st)
         else sbind (io_call E (newRejectedErr req CheckSpool pathText)) (\<lambda>_.
              sbind (smod (append_file filePath chunk)) (\<lambda>_.
              sret (hashed @ chunk, nextSizeBytes))) st))"

fun read_loop :: "arch_env \<Rightarrow> RequestObj \<Rightarrow> string \<Rightarrow> string \<Rightarrow> bytes \<Rightarrow> u64 \<Rightarrow> read_event list \<Rightarrow> (bytes \<times> u64) arch" where
  "read_loop E req pathText filePath hashed sizeBytes [] = sret (hashed, sizeBytes)"
| "read_loop E req pathText filePath hashed sizeBytes (ev # evs) =
     (case ev of
        ReadCancelled \<Rightarrow> sfail ErrContext
      | ReadData d \<Rightarrow> sbind (read_step E req pathText filePath hashed sizeBytes d)
          (\<lambda>(hashed', size'). read_loop E req pathText filePath hashed' size' evs)
      | ReadEOF d \<Rightarrow> read_step E req pathText filePath hashed sizeBytes d
      | ReadFail d \<Rightarrow> sbind (read_step E req pathText filePath hashed sizeBytes d)
          (\<lambda>_. sfail (newRejectedErr req CheckMalformed pathText)))"

text \<open>From the copy loop to \<open>Close\<close>, with the deferred removal of the file on an error.\<close>

definition spool_reader :: "arch_env \<Rightarrow> RequestObj \<Rightarrow> string \<Rightarrow> string \<Rightarrow> read_event list \<Rightarrow> (bytes \<times> u64) arch" where
  "spool_reader E req pathText filePath readerObj =
     on_error (remove_file filePath)
      (sbind (read_loop E req pathText filePath [] 0 readerObj) (\<lambda>(hashed, sizeBytes).
       sbind (addUnpacked req sizeBytes) (\<lambda>_.
       sbind (io_call E (newRejectedErr req CheckSpool pathText)) (\<lambda>_. sret (hashed, sizeBytes)))))"

definition writeReaderEntry :: "arch_env \<Rightarrow> RequestObj \<Rightarrow> string \<Rightarrow> string \<Rightarrow> read_event list \<Rightarrow> u64 \<Rightarrow> unit arch" where
  "writeReaderEntry E req pathText mode readerObj declaredBytes =
     (let lim = rq_limitsObj req; spoolErr = newRejectedErr req CheckSpool pathText in
      sbind (sget headerCount) (\<lambda>hdrCount.
      sbind (sguard (MaxArchiveFileBytes lim > 0 \<and> declaredBytes > MaxArchiveFileBytes lim)
               (newLimitsErr req CheckFileBytes (no_facts\<lparr>lf_headerCount := hdrCount,
                  lf_fileBytes := declaredBytes, lf_pathBytes := length pathText\<rparr>))) (\<lambda>_.
      sbind (createTempBlob E spoolErr) (\<lambda>filePath.
      sbind (spool_reader E req pathText filePath readerObj) (\<lambda>(hashed, sizeBytes).
      sbind (smod (\<lambda>st. st\<lparr>createdPathArr := createdPathArr st @ [filePath]\<rparr>)) (\<lambda>_.
      addEntry req pathText mode (env_H E hashed) sizeBytes filePath))))))"

definition symlink_escapes :: "stateObj \<Rightarrow> StagedEntryObj \<Rightarrow> bool" where
  "symlink_escapes st e \<longleftrightarrow> se_Mode e = ModeSymlink \<and>
     \<not> is_ok (SymlinkTargetWithinRoot (se_Path e)
         (case map_of (symlinkTargetByHash st) (se_BlobHash e) of None \<Rightarrow> [] | Some t \<Rightarrow> t))"

definition dropOrphanBlobs :: "StagedEntryObj list \<Rightarrow> stateObj \<Rightarrow> stateObj" where
  "dropOrphanBlobs entries st =
     (let used = (\<lambda>h. h \<in> se_BlobHash ` set entries);
          orphans = filter (\<lambda>(h, b). \<not> used h) (blobByHash st);
          st1 = foldl (\<lambda>s (h, b). if sb_FilePath b \<noteq> [] then remove_file (sb_FilePath b) s else s) st orphans
      in st1\<lparr>blobByHash := filter (\<lambda>(h, b). used h) (blobByHash st),
             symlinkTargetByHash := filter (\<lambda>(h, t). h \<notin> fst ` set orphans) (symlinkTargetByHash st)\<rparr>)"

definition filterEscapingSymlinks :: "StagedEntryObj list \<Rightarrow> StagedEntryObj list arch" where
  "filterEscapingSymlinks entries st =
     (let filteredArr = filter (\<lambda>e. \<not> symlink_escapes st e) entries;
          dropped = droppedSymlinkArr st @ map se_Path (filter (symlink_escapes st) entries);
          st1 = st\<lparr>droppedSymlinkArr := dropped\<rparr>
      in if dropped = [] then (Inr entries, st1) else (Inr filteredArr, dropOrphanBlobs filteredArr st1))"

definition result_op :: "arch_env \<Rightarrow> RequestObj \<Rightarrow> ResultObj arch" where
  "result_op E req =
     sbind (io_call E (newRejectedErr req CheckSpool [])) (\<lambda>_.
     sbind (sget (\<lambda>st. stripCommonTopDir (entryArr st))) (\<lambda>stripped.
     sbind (filterEscapingSymlinks stripped) (\<lambda>filtered.
     sbind (slift (validateFinalEntries req filtered)) (\<lambda>final.
     sget (\<lambda>st. \<lparr>rs_Entries = final, rs_Blobs = sort_key sb_BlobHash (map snd (blobByHash st)),
                 rs_DroppedSymlinks = droppedSymlinkArr st\<rparr>)))))"

end
