(* ===== verification/Archive_Inv.thy ===== *)
theory Archive_Inv
  imports Archive_Extract
begin

text \<open>
  The invariant of the extraction state of \<open>Archive_Extract\<close> and the proof that every operation
  of \<open>mod/archive/helper.go\<close> keeps it, on its error paths too.
\<close>

section \<open>Files of the spool\<close>

definition files :: "stateObj \<Rightarrow> (string \<rightharpoonup> bytes)" where
  "files st = map_of (spool st)"

lemma files_remove [simp]: "files (remove_file p st) = (files st)(p := None)"
proof -
  have "map_of (filter (\<lambda>(q, _). q \<noteq> p) xs) = (map_of xs)(p := None)" for xs :: "(string \<times> bytes) list"
    by (induction xs) auto
  then show ?thesis by (simp add: files_def remove_file_def)
qed

lemma files_append [simp]:
  "files (append_file p d st) = (files st)(p := map_option (\<lambda>c. c @ d) (files st p))"
proof -
  have "map_of (map (\<lambda>(q, c). if q = p then (q, c @ d) else (q, c)) xs)
      = (map_of xs)(p := map_option (\<lambda>c. c @ d) (map_of xs p))" for xs :: "(string \<times> bytes) list"
    by (induction xs) auto
  then show ?thesis by (simp add: files_def append_file_def)
qed

lemma remove_append [simp]: "remove_file p (append_file p d st) = remove_file p st"
proof -
  have "filter (\<lambda>(q, _). q \<noteq> p) (map (\<lambda>(q, c). if q = p then (q, c @ d) else (q, c)) xs)
      = filter (\<lambda>(q, _). q \<noteq> p) xs" for xs :: "(string \<times> bytes) list"
    by (induction xs) auto
  then show ?thesis by (simp add: remove_file_def append_file_def)
qed

lemma remove_fields [simp]:
  "headerCount (remove_file p st) = headerCount st" "unpackedBytes (remove_file p st) = unpackedBytes st"
  "entryArr (remove_file p st) = entryArr st" "blobByHash (remove_file p st) = blobByHash st"
  "symlinkTargetByHash (remove_file p st) = symlinkTargetByHash st"
  "droppedSymlinkArr (remove_file p st) = droppedSymlinkArr st"
  "createdPathArr (remove_file p st) = createdPathArr st"
  by (simp_all add: remove_file_def)

lemma append_fields [simp]:
  "headerCount (append_file p d st) = headerCount st" "unpackedBytes (append_file p d st) = unpackedBytes st"
  "entryArr (append_file p d st) = entryArr st" "blobByHash (append_file p d st) = blobByHash st"
  "symlinkTargetByHash (append_file p d st) = symlinkTargetByHash st"
  "droppedSymlinkArr (append_file p d st) = droppedSymlinkArr st"
  "createdPathArr (append_file p d st) = createdPathArr st"
  by (simp_all add: append_file_def)

lemma files_cleanup: "files (cleanupCreated st) = (files st) |` (- set (createdPathArr st))"
proof -
  have "files (foldl (\<lambda>s p. remove_file p s) st ps) = (files st) |` (- set ps)" for ps
    by (induction ps arbitrary: st) (auto simp: restrict_map_def fun_eq_iff)
  then show ?thesis by (simp add: cleanupCreated_def)
qed

section \<open>Invariant of the extraction\<close>

text \<open>\<open>os.CreateTemp\<close> returns a non-empty name that no file of the directory has.\<close>

definition temp_fresh :: "arch_env \<Rightarrow> bool" where
  "temp_fresh E \<longleftrightarrow> (\<forall>names. os_temp E names \<notin> set names \<and> os_temp E names \<noteq> [])"

definition blob_paths :: "stateObj \<Rightarrow> string set" where
  "blob_paths st = (\<lambda>(h, b). sb_FilePath b) ` set (blobByHash st)"

definition blobs_ok :: "(bytes \<Rightarrow> HashObj) \<Rightarrow> (string \<rightharpoonup> bytes) \<Rightarrow> (HashObj \<times> StagedBlobObj) list \<Rightarrow> bool" where
  "blobs_ok H fs bs \<longleftrightarrow> distinct (map fst bs) \<and> distinct (map (\<lambda>(h, b). sb_FilePath b) bs) \<and>
     (\<forall>(h, b) \<in> set bs. sb_BlobHash b = h \<and> sb_FilePath b \<noteq> [] \<and>
        (\<exists>c. fs (sb_FilePath b) = Some c \<and> H c = h \<and> sb_SizeBytes b = of_nat (length c)))"

definition entries_ok :: "(bytes \<Rightarrow> HashObj) \<Rightarrow> stateObj \<Rightarrow> bool" where
  "entries_ok H st \<longleftrightarrow>
     fst ` set (blobByHash st) = se_BlobHash ` set (entryArr st) \<and>
     (\<forall>e \<in> set (entryArr st).
        (\<exists>b. (se_BlobHash e, b) \<in> set (blobByHash st) \<and> sb_SizeBytes b = se_SizeBytes e) \<and>
        (se_Mode e = ModeSymlink \<longrightarrow> se_BlobHash e \<in> fst ` set (symlinkTargetByHash st))) \<and>
     (\<forall>(h, t) \<in> set (symlinkTargetByHash st). H t = h)"

definition size_sum :: "StagedEntryObj list \<Rightarrow> nat" where
  "size_sum es = sum_list (map (\<lambda>e. unat (se_SizeBytes e)) es)"

definition limits_ok :: "LimitsObj \<Rightarrow> nat \<Rightarrow> nat \<Rightarrow> stateObj \<Rightarrow> bool" where
  "limits_ok lim k n st \<longleftrightarrow>
     length (entryArr st) + k \<le> headerCount st \<and> headerCount st \<le> unat (MaxArchiveFiles lim) \<and>
     headerCount st \<le> cTreeMaxEntries \<and>
     size_sum (entryArr st) + n = unat (unpackedBytes st) \<and>
     unpackedBytes st \<le> MaxArchiveUnpackedSize lim \<and>
     (\<forall>e \<in> set (entryArr st). se_SizeBytes e \<le> MaxArchiveFileBytes lim)"

text \<open>What holds even after a failed step: the old files are untouched, the new ones registered.\<close>

definition err_inv :: "(string \<rightharpoonup> bytes) \<Rightarrow> stateObj \<Rightarrow> bool" where
  "err_inv F st \<longleftrightarrow> F \<subseteq>\<^sub>m files st \<and> dom (files st) \<subseteq> dom F \<union> set (createdPathArr st) \<and>
     set (createdPathArr st) \<inter> dom F = {}"

text \<open>
  \<open>full_inv E F lim k n\<close>: \<open>k = 1\<close> while a counted header has no entry yet, \<open>n\<close> bytes are
  counted as unpacked and not yet recorded as an entry.
\<close>

definition full_inv :: "arch_env \<Rightarrow> (string \<rightharpoonup> bytes) \<Rightarrow> LimitsObj \<Rightarrow> nat \<Rightarrow> nat \<Rightarrow> stateObj \<Rightarrow> bool" where
  "full_inv E F lim k n st \<longleftrightarrow> F \<subseteq>\<^sub>m files st \<and> dom (files st) = dom F \<union> blob_paths st \<and>
     blob_paths st \<inter> dom F = {} \<and> blob_paths st \<subseteq> set (createdPathArr st) \<and>
     set (createdPathArr st) \<inter> dom F = {} \<and>
     blobs_ok (env_H E) (files st) (blobByHash st) \<and> entries_ok (env_H E) st \<and> limits_ok lim k n st"

text \<open>A temporary file \<open>p\<close> with content \<open>c\<close> on top of a state that satisfies the invariant.\<close>

definition temp_inv :: "arch_env \<Rightarrow> (string \<rightharpoonup> bytes) \<Rightarrow> LimitsObj \<Rightarrow> nat \<Rightarrow> nat \<Rightarrow> string \<Rightarrow> bytes \<Rightarrow> stateObj \<Rightarrow> bool" where
  "temp_inv E F lim k n p c st \<longleftrightarrow> full_inv E F lim k n (remove_file p st) \<and> p \<noteq> [] \<and>
     p \<notin> dom F \<union> blob_paths st \<and> files st p = Some c"

lemma full_inv_err: "full_inv E F lim k n st \<Longrightarrow> err_inv F st"
  by (auto simp: full_inv_def err_inv_def)

lemma temp_inv_err: "temp_inv E F lim k n p c st \<Longrightarrow> err_inv F (remove_file p st)"
  by (auto simp: temp_inv_def intro: full_inv_err)

lemma temp_inv_registered:
  "temp_inv E F lim k n p c st \<Longrightarrow> p \<in> set (createdPathArr st) \<Longrightarrow> err_inv F st"
proof -
  assume t: "temp_inv E F lim k n p c st" and p: "p \<in> set (createdPathArr st)"
  from t have "err_inv F (remove_file p st)" by (rule temp_inv_err)
  then have e: "F \<subseteq>\<^sub>m (files st)(p := None)" "dom (files st) - {p} \<subseteq> dom F \<union> set (createdPathArr st)"
    "set (createdPathArr st) \<inter> dom F = {}"
    by (simp_all add: err_inv_def)
  have "p \<notin> dom F" using e(3) p by blast
  then have "F \<subseteq>\<^sub>m files st" using e(1) by (auto simp: map_le_def)
  with e p show "err_inv F st" by (auto simp: err_inv_def)
qed

lemma blob_paths_remove [simp]: "blob_paths (remove_file p st) = blob_paths st"
  by (simp add: blob_paths_def)

lemma temp_files:
  assumes "temp_inv E F lim k n p c st"
  shows "F \<subseteq>\<^sub>m files st" "dom (files st) = dom F \<union> insert p (blob_paths st)"
proof -
  from assms have m: "F \<subseteq>\<^sub>m (files st)(p := None)" and d: "dom (files st) - {p} = dom F \<union> blob_paths st"
    and p: "p \<notin> dom F" "files st p = Some c"
    by (simp_all add: temp_inv_def full_inv_def)
  show "F \<subseteq>\<^sub>m files st" using m p(1) by (auto simp: map_le_def)
  have "p \<in> dom (files st)" using p(2) by blast
  with d show "dom (files st) = dom F \<union> insert p (blob_paths st)" by blast
qed

lemma full_inv_cong:
  "files st = files st' \<Longrightarrow> blobByHash st = blobByHash st' \<Longrightarrow> createdPathArr st = createdPathArr st' \<Longrightarrow>
   entryArr st = entryArr st' \<Longrightarrow> symlinkTargetByHash st = symlinkTargetByHash st' \<Longrightarrow>
   headerCount st = headerCount st' \<Longrightarrow> unpackedBytes st = unpackedBytes st' \<Longrightarrow>
   full_inv E F lim k n st = full_inv E F lim k n st'"
  by (simp add: full_inv_def blob_paths_def entries_ok_def limits_ok_def)

lemma full_inv_io [simp]: "full_inv E F lim k n (st\<lparr>io_count := i\<rparr>) = full_inv E F lim k n st"
  by (rule full_inv_cong) (simp_all add: files_def)

lemma temp_inv_io [simp]: "temp_inv E F lim k n p c (st\<lparr>io_count := i\<rparr>) = temp_inv E F lim k n p c st"
proof -
  have "remove_file p (st\<lparr>io_count := i\<rparr>) = (remove_file p st)\<lparr>io_count := i\<rparr>" by (simp add: remove_file_def)
  then show ?thesis by (simp add: temp_inv_def blob_paths_def files_def)
qed

lemma cleanup_err_inv: "err_inv F st \<Longrightarrow> files (cleanupCreated st) = F"
proof
  fix p
  assume e: "err_inv F st"
  show "files (cleanupCreated st) p = F p"
  proof (cases "p \<in> dom F")
    case True
    with e have "files st p = F p" "p \<notin> set (createdPathArr st)"
      by (auto simp: err_inv_def map_le_def)
    then show ?thesis by (simp add: files_cleanup)
  next
    case False
    with e have "p \<in> dom (files st) \<Longrightarrow> p \<in> set (createdPathArr st)" by (auto simp: err_inv_def)
    then have "files st p = None \<or> p \<in> set (createdPathArr st)" by blast
    with False show ?thesis by (auto simp: files_cleanup restrict_map_def domIff)
  qed
qed

section \<open>Operations preserve the invariant\<close>

lemma remove_new:
  "p \<notin> dom (files st) \<Longrightarrow> remove_file p (st\<lparr>spool := (p, c) # spool st\<rparr>) = st"
proof -
  assume "p \<notin> dom (files st)"
  then have "filter (\<lambda>(q, _). q \<noteq> p) (spool st) = spool st"
    by (auto simp: files_def dom_map_of_conv_image_fst filter_id_conv image_iff)
  then show ?thesis by (simp add: remove_file_def)
qed

lemma temp_new:
  assumes "temp_fresh E" "full_inv E F lim k n st" "p = os_temp E (map fst (spool st))"
  shows "temp_inv E F lim k n p [] (st\<lparr>spool := (p, []) # spool st, io_count := i\<rparr>)"
proof -
  have "os_temp E ns \<notin> set ns \<and> os_temp E ns \<noteq> []" for ns
    using assms(1) unfolding temp_fresh_def by blast
  from this [of "map fst (spool st)", folded assms(3)]
  have p: "p \<noteq> []" "p \<notin> dom (files st)"
    by (simp_all add: files_def dom_map_of_conv_image_fst)
  let ?st = "st\<lparr>spool := (p, []) # spool st\<rparr>"
  have "full_inv E F lim k n (remove_file p ?st)" using assms(2) p(2) by (simp add: remove_new)
  moreover have "p \<notin> dom F \<union> blob_paths ?st"
    using assms(2) p(2) by (simp add: full_inv_def blob_paths_def)
  moreover have "files ?st p = Some []" by (simp add: files_def)
  ultimately have "temp_inv E F lim k n p [] ?st" using p(1) by (simp add: temp_inv_def)
  then have "temp_inv E F lim k n p [] (?st\<lparr>io_count := i\<rparr>)" by (simp only: temp_inv_io)
  then show ?thesis by simp
qed

lemma temp_append:
  "temp_inv E F lim k n p c st \<Longrightarrow> temp_inv E F lim k n p (c @ d) (append_file p d st)"
  by (simp add: temp_inv_def blob_paths_def)

text \<open>The operations that touch files, by what they do: an error without effect, or the new file.\<close>

lemma createTempBlob_triple:
  assumes "temp_fresh E"
  shows "triple (full_inv E F lim k n) (createTempBlob E e)
    (\<lambda>p. temp_inv E F lim k n p []) (\<lambda>_. full_inv E F lim k n)"
proof (rule tripleI)
  fix st r st'
  assume f: "full_inv E F lim k n st"
  let ?p = "os_temp E (map fst (spool st))"
  note t = temp_new [OF assms f refl]
  have e: "full_inv E F lim k n (remove_file ?p (st\<lparr>spool := (?p, []) # spool st, io_count := i\<rparr>))" for i
    using t [of i] by (simp only: temp_inv_def)
  note c = createTempBlob_def op_defs io_call_def
  show "createTempBlob E e st = (Inl r, st') \<Longrightarrow> full_inv E F lim k n st'"
    using f e by (simp add: c split: if_splits) auto
  show "createTempBlob E e st = (Inr p, st') \<Longrightarrow> temp_inv E F lim k n p [] st'" for p
    using t by (simp add: c split: if_splits) auto
qed

lemma temp_inv_full: "temp_inv E F lim k n p c st \<Longrightarrow> full_inv E F lim k n (remove_file p st)"
  by (simp add: temp_inv_def)

lemma writeTempBytes_triple:
  assumes "temp_fresh E"
  shows "triple (full_inv E F lim k n) (writeTempBytes E e dataArr)
    (\<lambda>p. temp_inv E F lim k n p dataArr) (\<lambda>_. full_inv E F lim k n)"
  unfolding writeTempBytes_def
proof (rule triple_bind [OF _ createTempBlob_triple [OF assms]], rule triple_on_error, rule tripleI)
  fix p st r st'
  assume t: "temp_inv E F lim k n p [] st"
  have app: "temp_inv E F lim k n p dataArr (append_file p dataArr st)"
    using temp_append [OF t, of dataArr] by simp
  have io: "remove_file p (s\<lparr>io_count := i\<rparr>) = (remove_file p s)\<lparr>io_count := i\<rparr>" for s i
    by (simp add: remove_file_def)
  have io': "append_file p d (s\<lparr>io_count := i\<rparr>) = (append_file p d s)\<lparr>io_count := i\<rparr>" for s d i
    by (simp add: append_file_def)
  let ?m = "sbind (io_call E e) (\<lambda>_. sbind (smod (append_file p dataArr))
      (\<lambda>_. sbind (io_call E e) (\<lambda>_. sret p)))"
  show "?m st = (Inl r, st') \<Longrightarrow> full_inv E F lim k n (remove_file p st')"
    using temp_inv_full [OF t]
    by (simp add: op_defs io_call_def io io' split: if_splits) (auto simp: io io')
  show "?m st = (Inr q, st') \<Longrightarrow> temp_inv E F lim k n q dataArr st'" for q
    using app by (simp add: op_defs io_call_def io' split: if_splits) auto
qed

lemma temp_register:
  assumes "temp_inv E F lim k n p c st"
  shows "temp_inv E F lim k n p c (st\<lparr>createdPathArr := createdPathArr st @ [p]\<rparr>)"
proof -
  have "remove_file p (st\<lparr>createdPathArr := createdPathArr st @ [p]\<rparr>) =
      (remove_file p st)\<lparr>createdPathArr := createdPathArr st @ [p]\<rparr>"
    by (simp add: remove_file_def)
  with assms show ?thesis
    by (simp add: temp_inv_def full_inv_def blob_paths_def entries_ok_def limits_ok_def files_def) blast
qed

lemma temp_symlink:
  assumes "temp_inv E F lim k n p c st" "env_H E t = h"
  shows "temp_inv E F lim k n p c (st\<lparr>symlinkTargetByHash := (h, t) # symlinkTargetByHash st\<rparr>)"
proof -
  have "remove_file p (st\<lparr>symlinkTargetByHash := (h, t) # symlinkTargetByHash st\<rparr>) =
      (remove_file p st)\<lparr>symlinkTargetByHash := (h, t) # symlinkTargetByHash st\<rparr>"
    by (simp add: remove_file_def)
  with assms show ?thesis
    by (simp add: temp_inv_def full_inv_def blob_paths_def entries_ok_def limits_ok_def files_def)
qed

lemma addUnpacked_cases:
  assumes "addUnpacked req sz st = (r, st')" "MaxArchiveUnpackedSize (rq_limitsObj req) \<noteq> 0"
  obtains e where "r = Inl e" "st' = st"
  | v where "r = Inr ()" "st' = st\<lparr>unpackedBytes := v\<rparr>" "unat v = unat (unpackedBytes st) + unat sz"
      "v \<le> MaxArchiveUnpackedSize (rq_limitsObj req)"
proof -
  let ?a = "unpackedBytes st"
  obtain v ov where s: "saturatingAdd ?a sz = (v, ov)" by force
  show thesis
  proof (cases "ov \<or> v > MaxArchiveUnpackedSize (rq_limitsObj req)")
    case True
    with assms s that(1) show thesis by (auto simp: addUnpacked_def Let_def word_gt_0)
  next
    case False
    have "unat v = min (unat ?a + unat sz) (2 ^ 64 - 1)" "\<not> 2 ^ 64 \<le> unat ?a + unat sz"
      using saturatingAdd_value [of ?a sz] saturatingAdd_overflow [of ?a sz] s False by simp_all
    then have "unat v = unat ?a + unat sz" by simp
    with False assms s that(2) show thesis by (auto simp: addUnpacked_def Let_def)
  qed
qed

lemma full_unpacked:
  "full_inv E F lim k n st \<Longrightarrow> unat v = unat (unpackedBytes st) + m \<Longrightarrow>
   v \<le> MaxArchiveUnpackedSize lim \<Longrightarrow> full_inv E F lim k (n + m) (st\<lparr>unpackedBytes := v\<rparr>)"
  by (simp add: full_inv_def blob_paths_def entries_ok_def limits_ok_def files_def)

lemma temp_unpacked:
  assumes "temp_inv E F lim k n p c st" "unat v = unat (unpackedBytes st) + m"
    "v \<le> MaxArchiveUnpackedSize lim"
  shows "temp_inv E F lim k (n + m) p c (st\<lparr>unpackedBytes := v\<rparr>)"
proof -
  have "remove_file p (st\<lparr>unpackedBytes := v\<rparr>) = (remove_file p st)\<lparr>unpackedBytes := v\<rparr>"
    by (simp add: remove_file_def)
  with assms full_unpacked [of E F lim k n "remove_file p st" v m] show ?thesis
    by (simp add: temp_inv_def blob_paths_def files_def)
qed

lemma blobs_ok_cong:
  "(\<And>q. q \<in> (\<lambda>(h, b). sb_FilePath b) ` set bs \<Longrightarrow> fs q = fs' q) \<Longrightarrow> blobs_ok H fs bs = blobs_ok H fs' bs"
  unfolding blobs_ok_def by (intro conj_cong refl ball_cong) (force split: prod.splits)+

lemma limits_ok_snoc:
  assumes "limits_ok lim 1 (unat sz) st" "sz \<le> MaxArchiveFileBytes lim" "se_SizeBytes e = sz"
    "entryArr st' = entryArr st @ [e]" "headerCount st' = headerCount st" "unpackedBytes st' = unpackedBytes st"
  shows "limits_ok lim 0 0 st'"
  using assms by (auto simp: limits_ok_def size_sum_def)

lemma entries_ok_snoc:
  assumes "entries_ok H st" "se_Mode e = ModeSymlink \<Longrightarrow> se_BlobHash e \<in> fst ` set (symlinkTargetByHash st)"
    and "entryArr st' = entryArr st @ [e]" "symlinkTargetByHash st' = symlinkTargetByHash st"
    and "set (blobByHash st') = insert (se_BlobHash e, b) (set (blobByHash st))"
    and "sb_SizeBytes b = se_SizeBytes e"
  shows "entries_ok H st'"
proof -
  have "fst ` set (blobByHash st') = se_BlobHash ` set (entryArr st')"
    using assms(1,3,5) by (simp add: entries_ok_def)
  moreover have "(\<exists>b. (se_BlobHash x, b) \<in> set (blobByHash st') \<and> sb_SizeBytes b = se_SizeBytes x) \<and>
      (se_Mode x = ModeSymlink \<longrightarrow> se_BlobHash x \<in> fst ` set (symlinkTargetByHash st'))"
    if "x \<in> set (entryArr st')" for x
  proof (cases "x = e")
    case False
    with that assms(3) have "x \<in> set (entryArr st)" by simp
    with assms(1,4,5) show ?thesis unfolding entries_ok_def by (metis insertI2)
  qed (use assms(2,4-6) in auto)
  ultimately show ?thesis using assms(1,4) by (simp add: entries_ok_def)
qed

definition pending :: "arch_env \<Rightarrow> (string \<rightharpoonup> bytes) \<Rightarrow> LimitsObj \<Rightarrow> string \<Rightarrow> HashObj \<Rightarrow> u64 \<Rightarrow> string \<Rightarrow> stateObj \<Rightarrow> bool" where
  "pending E F lim mode h sz p st \<longleftrightarrow>
     (\<exists>c. temp_inv E F lim 1 (unat sz) p c st \<and> env_H E c = h \<and> sz = of_nat (length c)) \<and>
     p \<in> set (createdPathArr st) \<and> sz \<le> MaxArchiveFileBytes lim \<and>
     (mode = ModeSymlink \<longrightarrow> h \<in> fst ` set (symlinkTargetByHash st))"

lemma addEntry_triple:
  "triple (pending E F lim mode h sz p) (addEntry req path mode h sz p)
     (\<lambda>_. full_inv E F lim 0 0) (\<lambda>_. err_inv F)"
proof (rule tripleI)
  fix st e st'
  assume pd: "pending E F lim mode h sz p st"
  then obtain c where t: "temp_inv E F lim 1 (unat sz) p c st"
    and c: "env_H E c = h" "sz = of_nat (length c)"
    and p: "p \<in> set (createdPathArr st)" and sz: "sz \<le> MaxArchiveFileBytes lim"
    and sym: "mode = ModeSymlink \<Longrightarrow> h \<in> fst ` set (symlinkTargetByHash st)"
    by (auto simp: pending_def)
  from temp_inv_registered [OF t p]
  show "addEntry req path mode h sz p st = (Inl e, st') \<Longrightarrow> err_inv F st'"
    by (auto simp: addEntry_def Let_def split: option.splits if_splits)
  let ?e = "\<lparr>se_Path = path, se_Mode = mode, se_BlobHash = h, se_SizeBytes = sz\<rparr>"
  let ?b = "\<lparr>sb_BlobHash = h, sb_SizeBytes = sz, sb_FilePath = p\<rparr>"
  from t have f: "full_inv E F lim 1 (unat sz) (remove_file p st)" and pn: "p \<noteq> []"
    and pd': "p \<notin> dom F" "p \<notin> blob_paths st" and fp: "files st p = Some c"
    by (auto simp: temp_inv_def)
  from f have lo: "limits_ok lim 1 (unat sz) st" by (simp add: full_inv_def limits_ok_def)
  from f have eo: "entries_ok (env_H E) st" by (simp add: full_inv_def entries_ok_def)
  show "full_inv E F lim 0 0 st'" if run: "addEntry req path mode h sz p st = (Inr u, st')" for u
  proof (cases "map_of (blobByHash st) h")
    case None
    with run have st': "st' = st\<lparr>blobByHash := blobByHash st @ [(h, ?b)], entryArr := entryArr st @ [?e]\<rparr>"
      by (simp add: addEntry_def)
    have hn: "h \<notin> fst ` set (blobByHash st)" using None by (simp add: map_of_eq_None_iff)
    from f have "blobs_ok (env_H E) ((files st)(p := None)) (blobByHash st)" by (simp add: full_inv_def)
    then have "blobs_ok (env_H E) (files st) (blobByHash st)"
      using pd'(2) by (subst (asm) blobs_ok_cong [of _ _ "files st"]) (auto simp: blob_paths_def)
    then have bo: "blobs_ok (env_H E) (files st) (blobByHash st @ [(h, ?b)])"
      using hn pn pd'(2) fp c by (auto simp: blobs_ok_def blob_paths_def)
    have "entries_ok (env_H E) st'"
      using eo by (rule entries_ok_snoc [where e = ?e and b = ?b]) (simp_all add: st' sym)
    moreover have "limits_ok lim 0 0 st'" using lo sz by (rule limits_ok_snoc) (simp_all add: st')
    moreover have "blob_paths st' = insert p (blob_paths st)" by (simp add: st' blob_paths_def)
    moreover have "files st' = files st" by (simp add: st' files_def)
    moreover have "createdPathArr st' = createdPathArr st" "blobByHash st' = blobByHash st @ [(h, ?b)]"
      by (simp_all add: st')
    moreover have "F \<subseteq>\<^sub>m files st" "dom (files st) = dom F \<union> insert p (blob_paths st)"
      using temp_files [OF t] by simp_all
    moreover have "blob_paths st \<inter> dom F = {}" "blob_paths st \<subseteq> set (createdPathArr st)"
      "set (createdPathArr st) \<inter> dom F = {}"
      using f by (simp_all add: full_inv_def)
    ultimately show ?thesis using bo p pd'(1) by (simp add: full_inv_def)
  next
    case (Some seen)
    with run pn have sz': "sb_SizeBytes seen = sz"
      and st': "st' = (remove_file p st)\<lparr>entryArr := entryArr st @ [?e]\<rparr>"
      by (auto simp: addEntry_def Let_def split: if_splits)
    have "entries_ok (env_H E) st'"
      using eo
      by (rule entries_ok_snoc [where e = ?e and b = seen])
        (simp_all add: st' sym sz' insert_absorb [OF map_of_SomeD [OF Some]])
    moreover have "limits_ok lim 0 0 st'" using lo sz by (rule limits_ok_snoc) (simp_all add: st')
    ultimately show ?thesis using f by (simp add: full_inv_def st' blob_paths_def files_def)
  qed
qed

definition limits_set :: "RequestObj \<Rightarrow> bool" where
  "limits_set req \<longleftrightarrow> MaxArchiveFiles (rq_limitsObj req) \<noteq> 0 \<and> MaxArchivePathBytes (rq_limitsObj req) \<noteq> 0 \<and>
     MaxArchiveFileBytes (rq_limitsObj req) \<noteq> 0 \<and> MaxArchiveUnpackedSize (rq_limitsObj req) \<noteq> 0"

lemma addUnpacked_full:
  assumes "limits_set req" "lim = rq_limitsObj req"
  shows "triple (full_inv E F lim k 0) (addUnpacked req sz) (\<lambda>_. full_inv E F lim k (unat sz)) (\<lambda>_. err_inv F)"
proof (rule tripleI)
  fix st e st'
  assume f: "full_inv E F lim k 0 st"
  have nz: "MaxArchiveUnpackedSize (rq_limitsObj req) \<noteq> 0" using assms by (simp add: limits_set_def)
  show "addUnpacked req sz st = (Inl e, st') \<Longrightarrow> err_inv F st'"
    by (erule addUnpacked_cases [OF _ nz]) (use full_inv_err [OF f] in auto)
  show "addUnpacked req sz st = (Inr x, st') \<Longrightarrow> full_inv E F lim k (unat sz) st'" for x
    by (erule addUnpacked_cases [OF _ nz]) (use full_unpacked [OF f] assms(2) in auto)
qed

lemma addUnpacked_temp:
  assumes "limits_set req" "lim = rq_limitsObj req"
  shows "triple (temp_inv E F lim k 0 p c) (addUnpacked req sz) (\<lambda>_. temp_inv E F lim k (unat sz) p c)
    (\<lambda>_ st. err_inv F (remove_file p st))"
proof (rule tripleI)
  fix st e st'
  assume f: "temp_inv E F lim k 0 p c st"
  have nz: "MaxArchiveUnpackedSize (rq_limitsObj req) \<noteq> 0" using assms by (simp add: limits_set_def)
  show "addUnpacked req sz st = (Inl e, st') \<Longrightarrow> err_inv F (remove_file p st')"
    by (erule addUnpacked_cases [OF _ nz]) (use temp_inv_err [OF f] in auto)
  show "addUnpacked req sz st = (Inr x, st') \<Longrightarrow> temp_inv E F lim k (unat sz) p c st'" for x
    by (erule addUnpacked_cases [OF _ nz]) (use temp_unpacked [OF f] assms(2) in auto)
qed

lemma writeBytesEntry_triple:
  assumes "temp_fresh E" "limits_set req" "lim = rq_limitsObj req"
  shows "triple (full_inv E F lim 1 0) (writeBytesEntry E req path mode dataArr)
    (\<lambda>_. full_inv E F lim 0 0) (\<lambda>_. err_inv F)"
proof (rule tripleI)
  fix st r st'
  let ?sz = "of_nat (length dataArr) :: u64" and ?h = "env_H E dataArr"
  assume f: "full_inv E F lim 1 0 st"
  note add = addUnpacked_full [OF assms(2,3), of E F 1 ?sz]
  note tmp = writeTempBytes_triple [OF assms(1), of F lim 1 "unat ?sz"]
  have nz: "MaxArchiveFileBytes (rq_limitsObj req) > 0" using assms by (simp add: limits_set_def word_gt_0)
  let ?upd = "\<lambda>p s. let s = s\<lparr>createdPathArr := createdPathArr s @ [p]\<rparr> in
      if mode = ModeSymlink then s\<lparr>symlinkTargetByHash := (?h, dataArr) # symlinkTargetByHash s\<rparr> else s"
  let ?tmp = "writeTempBytes E (newRejectedErr req CheckSpool path) dataArr"
  have pd: "pending E F lim mode ?h ?sz p (?upd p s)"
    if "temp_inv E F lim 1 (unat ?sz) p dataArr s" "?sz \<le> MaxArchiveFileBytes lim" for p s
    using temp_register [OF that(1)] temp_symlink [OF temp_register [OF that(1)]] that(2)
    by (auto simp: pending_def Let_def)
  have run: "writeBytesEntry E req path mode dataArr st =
      (if ?sz > MaxArchiveFileBytes lim then (Inl (newLimitsErr req CheckFileBytes
          (no_facts\<lparr>lf_headerCount := headerCount st, lf_fileBytes := ?sz, lf_pathBytes := length path\<rparr>)), st)
       else case addUnpacked req ?sz st of (Inl e, s1) \<Rightarrow> (Inl e, s1) | (Inr u, s1) \<Rightarrow>
         (case ?tmp s1 of (Inl e, s2) \<Rightarrow> (Inl e, s2)
          | (Inr p, s2) \<Rightarrow> addEntry req path mode ?h ?sz p (?upd p s2)))"
    using nz unfolding writeBytesEntry_def Let_def assms(3)
    by (simp add: op_defs split: sum.split prod.split)
  show "writeBytesEntry E req path mode dataArr st = (Inl r, st') \<Longrightarrow> err_inv F st'"
    unfolding run using full_inv_err [OF f] triple_Inl [OF add _ f]
      full_inv_err [OF triple_Inl [OF tmp _ triple_Inr [OF add _ f]]]
      triple_Inl [OF addEntry_triple _ pd [OF triple_Inr [OF tmp _ triple_Inr [OF add _ f]]]]
    by (auto split: if_splits sum.splits prod.splits simp: not_less)
  show "writeBytesEntry E req path mode dataArr st = (Inr x, st') \<Longrightarrow> full_inv E F lim 0 0 st'" for x
    unfolding run
    using triple_Inr [OF addEntry_triple _ pd [OF triple_Inr [OF tmp _ triple_Inr [OF add _ f]]]]
    by (auto split: if_splits sum.splits prod.splits simp: not_less)
qed

lemma saturating_ok:
  "saturatingAdd a b = (v, False) \<Longrightarrow> v = a + b \<and> unat v = unat a + unat b"
  using saturatingAdd_value [of a b] saturatingAdd_overflow [of a b]
  by (auto simp: saturatingAdd_def split: if_splits)

definition reading :: "arch_env \<Rightarrow> (string \<rightharpoonup> bytes) \<Rightarrow> LimitsObj \<Rightarrow> string \<Rightarrow> bytes \<Rightarrow> u64 \<Rightarrow> stateObj \<Rightarrow> bool" where
  "reading E F lim p hashed sz st \<longleftrightarrow> temp_inv E F lim 1 0 p hashed st \<and> sz = of_nat (length hashed) \<and>
     sz \<le> MaxArchiveFileBytes lim"

lemma read_step_triple:
  assumes "limits_set req" "lim = rq_limitsObj req"
  shows "triple (reading E F lim p hashed sz) (read_step E req path p hashed sz chunk)
    (\<lambda>(hashed', sz'). reading E F lim p hashed' sz') (\<lambda>_ st. err_inv F (remove_file p st))"
proof (rule tripleI)
  fix st r st'
  assume rd: "reading E F lim p hashed sz st"
  then have t: "temp_inv E F lim 1 0 p hashed st" and sz: "sz = of_nat (length hashed)"
    by (auto simp: reading_def)
  have nz: "MaxArchiveFileBytes (rq_limitsObj req) > 0" "MaxArchiveUnpackedSize (rq_limitsObj req) > 0"
    using assms by (simp_all add: limits_set_def word_gt_0)
  have io: "remove_file p (s\<lparr>io_count := i\<rparr>) = (remove_file p s)\<lparr>io_count := i\<rparr>"
    "append_file p d (s\<lparr>io_count := i\<rparr>) = (append_file p d s)\<lparr>io_count := i\<rparr>" for s d i
    by (simp_all add: remove_file_def append_file_def)
  have err: "err_inv F (remove_file p (st\<lparr>io_count := i\<rparr>))" for i
    using temp_inv_err [of E F lim 1 0 p hashed "st\<lparr>io_count := i\<rparr>"] t by simp
  obtain v ov where s: "saturatingAdd sz (of_nat (length chunk)) = (v, ov)" by force
  obtain w ow where s2: "saturatingAdd (unpackedBytes st) v = (w, ow)" by force
  show "read_step E req path p hashed sz chunk st = (Inl r, st') \<Longrightarrow> err_inv F (remove_file p st')"
    using temp_inv_err [OF t] err
    by (auto simp: read_step_def Let_def s s2 op_defs io_call_def split: if_splits)
  show "(case x of (hashed', sz') \<Rightarrow> reading E F lim p hashed' sz') st'"
    if run: "read_step E req path p hashed sz chunk st = (Inr x, st')" for x
  proof (cases "chunk = []")
    case False
    with run nz have x: "x = (hashed @ chunk, v)" "\<not> ov" "v \<le> MaxArchiveFileBytes lim"
      "\<exists>i. st' = (append_file p chunk st)\<lparr>io_count := i\<rparr>"
      by (auto simp: read_step_def Let_def s s2 op_defs io_call_def io assms(2) not_less split: if_splits)
    have "v = of_nat (length (hashed @ chunk))" using saturating_ok [of sz] s x(2) sz by auto
    with x temp_append [OF t, of chunk] show ?thesis by (auto simp: reading_def)
  qed (use rd run in \<open>auto simp: read_step_def\<close>)
qed

lemma read_loop_triple:
  assumes "limits_set req" "lim = rq_limitsObj req"
  shows "triple (reading E F lim p hashed sz) (read_loop E req path p hashed sz evs)
    (\<lambda>(hashed', sz'). reading E F lim p hashed' sz') (\<lambda>_ st. err_inv F (remove_file p st))"
proof (induction evs arbitrary: hashed sz)
  case Nil
  show ?case by (simp add: triple_ret)
next
  case (Cons ev evs)
  note step = read_step_triple [OF assms, of E F p hashed sz path]
  have err: "reading E F lim p h z st \<Longrightarrow> err_inv F (remove_file p st)" for h z st
    by (auto simp: reading_def intro: temp_inv_err)
  show ?case
  proof (cases ev)
    case (ReadData d)
    have "triple ((\<lambda>(h, z). reading E F lim p h z) x) ((\<lambda>(h, z). read_loop E req path p h z evs) x)
        (\<lambda>(h, z). reading E F lim p h z) (\<lambda>_ st. err_inv F (remove_file p st))" for x
      using Cons.IH by (cases x) simp
    from triple_bind [OF this step] ReadData show ?thesis by simp
  next
    case (ReadFail d)
    have "triple ((\<lambda>(h, z). reading E F lim p h z) x) (sfail (newRejectedErr req CheckMalformed path))
        Q (\<lambda>_ st. err_inv F (remove_file p st))" for x and Q :: "bytes \<times> u64 \<Rightarrow> _"
      by (rule triple_fail) (use err in \<open>auto split: prod.splits\<close>)
    from triple_bind [OF this step] ReadFail show ?thesis by simp
  qed (use step err in \<open>auto intro: triple_fail\<close>)
qed

lemma writeReaderEntry_triple:
  assumes "temp_fresh E" "limits_set req" "lim = rq_limitsObj req" "mode \<noteq> ModeSymlink"
  shows "triple (full_inv E F lim 1 0) (writeReaderEntry E req path mode evs declared)
    (\<lambda>_. full_inv E F lim 0 0) (\<lambda>_. err_inv F)"
proof (rule tripleI)
  fix st r st'
  assume f: "full_inv E F lim 1 0 st"
  let ?e = "newRejectedErr req CheckSpool path"
  note tmp = createTempBlob_triple [OF assms(1), of F lim 1 0 ?e]
  have body: "triple (temp_inv E F lim 1 0 p []) (spool_reader E req path p evs)
      (\<lambda>(hashed, sz) st. temp_inv E F lim 1 (unat sz) p hashed st \<and> sz = of_nat (length hashed) \<and>
        sz \<le> MaxArchiveFileBytes lim) (\<lambda>_. err_inv F)" for p
    unfolding spool_reader_def
  proof (rule triple_on_error, rule triple_bind [OF _ triple_weaken [OF read_loop_triple [OF assms(2,3)]]])
    show "temp_inv E F lim 1 0 p [] s \<Longrightarrow> reading E F lim p [] 0 s" for s
      by (simp add: reading_def)
    show "triple ((\<lambda>(h, z). reading E F lim p h z) x)
        ((\<lambda>(hashed, sz). sbind (addUnpacked req sz) (\<lambda>_. sbind (io_call E ?e) (\<lambda>_. sret (hashed, sz)))) x)
        (\<lambda>(hashed, sz) st. temp_inv E F lim 1 (unat sz) p hashed st \<and> sz = of_nat (length hashed) \<and>
          sz \<le> MaxArchiveFileBytes lim) (\<lambda>_ s. err_inv F (remove_file p s))" for x
    proof (rule tripleI)
      fix s0 e s1
      obtain h z where x: "x = (h, z)" by force
      assume "(\<lambda>(h, z). reading E F lim p h z) x s0"
      then have rd: "temp_inv E F lim 1 0 p h s0" "z = of_nat (length h)" "z \<le> MaxArchiveFileBytes lim"
        by (auto simp: x reading_def)
      note add = addUnpacked_temp [OF assms(2,3), of E F 1 p h z]
      have err: "err_inv F (remove_file p (s\<lparr>io_count := i\<rparr>))" if "temp_inv E F lim 1 n p h s" for s i n
        using temp_inv_err [of E F lim 1 n p h "s\<lparr>io_count := i\<rparr>"] that by simp
      let ?m = "(\<lambda>(hashed, sz). sbind (addUnpacked req sz) (\<lambda>_. sbind (io_call E ?e) (\<lambda>_. sret (hashed, sz)))) x"
      show "?m s0 = (Inl e, s1) \<Longrightarrow> err_inv F (remove_file p s1)"
        using triple_Inl [OF add _ rd(1)] err [OF triple_Inr [OF add _ rd(1)]]
        by (auto simp: x op_Inl op_Inr io_call_def split: if_splits)
      show "?m s0 = (Inr y, s1) \<Longrightarrow> (case y of (hashed, sz) \<Rightarrow> \<lambda>st.
          temp_inv E F lim 1 (unat sz) p hashed st \<and> sz = of_nat (length hashed) \<and>
          sz \<le> MaxArchiveFileBytes lim) s1" for y
        using triple_Inr [OF add _ rd(1)] rd(2,3)
        by (auto simp: x op_Inr io_call_def split: if_splits)
    qed
  qed simp_all
  have nz: "MaxArchiveFileBytes (rq_limitsObj req) > 0" using assms by (simp add: limits_set_def word_gt_0)
  have pd: "pending E F lim mode (env_H E h) z p (s\<lparr>createdPathArr := createdPathArr s @ [p]\<rparr>)"
    if "spool_reader E req path p evs s1 = (Inr (h, z), s)" "temp_inv E F lim 1 0 p [] s1" for p h z s s1
    using triple_Inr [OF body that] temp_register [of E F lim 1 "unat z" p h s] assms(4)
    by (auto simp: pending_def)
  note parts = triple_Inl [OF tmp _ f] triple_Inr [OF tmp _ f] triple_Inl [OF body]
    triple_Inl [OF addEntry_triple _ pd] triple_Inr [OF addEntry_triple _ pd]
  show "writeReaderEntry E req path mode evs declared st = (Inl r, st') \<Longrightarrow> err_inv F st'"
    using full_inv_err [OF f] full_inv_err [OF parts(1)] parts(3) [OF _ parts(2)] parts(4) [OF _ _ parts(2)]
    by (auto simp: writeReaderEntry_def Let_def op_Inl op_Inr)
  show "writeReaderEntry E req path mode evs declared st = (Inr x, st') \<Longrightarrow> full_inv E F lim 0 0 st'" for x
    using parts(5) [OF _ _ parts(2)] nz
    by (auto simp: writeReaderEntry_def Let_def op_Inr)
qed

lemma countHeader_triple:
  assumes "limits_set req" "lim = rq_limitsObj req"
  shows "triple (full_inv E F lim 0 0) (countHeader req) (\<lambda>_. full_inv E F lim 1 0) (\<lambda>_. err_inv F)"
proof (rule tripleI)
  fix st e st'
  assume f: "full_inv E F lim 0 0 st"
  let ?st = "st\<lparr>headerCount := headerCount st + 1\<rparr>"
  have nz: "MaxArchiveFiles (rq_limitsObj req) > 0" using assms by (simp add: limits_set_def word_gt_0)
  have "err_inv F ?st" using full_inv_err [OF f] by (simp add: err_inv_def files_def)
  then show "countHeader req st = (Inl e, st') \<Longrightarrow> err_inv F st'"
    by (auto simp: countHeader_def Let_def split: if_splits)
  show "full_inv E F lim 1 0 st'" if "countHeader req st = (Inr x, st')" for x
  proof -
    from that nz have st': "st' = ?st"
      and b: "headerCount st + 1 \<le> cTreeMaxEntries" "headerCount st + 1 \<le> unat (MaxArchiveFiles lim)"
      unfolding countHeader_def Let_def assms(2) by (simp_all add: not_less split: if_splits)
    have "limits_ok lim 1 0 ?st" using f b by (simp add: full_inv_def limits_ok_def)
    moreover have "entries_ok (env_H E) ?st" using f by (simp add: full_inv_def entries_ok_def)
    ultimately show ?thesis using f unfolding st' by (simp add: full_inv_def blob_paths_def files_def)
  qed
qed

lemma full_inv_skip: "full_inv E F lim 1 n st \<Longrightarrow> full_inv E F lim 0 n st"
  by (simp add: full_inv_def limits_ok_def)

section \<open>The result\<close>

definition same_content :: "StagedEntryObj list \<Rightarrow> StagedEntryObj list \<Rightarrow> bool" where
  "same_content es es' \<longleftrightarrow>
     map (\<lambda>e. (se_Mode e, se_BlobHash e, se_SizeBytes e)) es = map (\<lambda>e. (se_Mode e, se_BlobHash e, se_SizeBytes e)) es'"

lemma strip_same_content: "same_content (stripCommonTopDir es) es"
  by (cases es) (simp_all add: stripCommonTopDir_def same_content_def Let_def o_def split: prod.split)

definition final_inv :: "arch_env \<Rightarrow> (string \<rightharpoonup> bytes) \<Rightarrow> StagedEntryObj list \<Rightarrow> stateObj \<Rightarrow> bool" where
  "final_inv E F fl st \<longleftrightarrow> err_inv F st \<and> dom (files st) = dom F \<union> blob_paths st \<and>
     blobs_ok (env_H E) (files st) (blobByHash st) \<and>
     fst ` set (blobByHash st) = se_BlobHash ` set fl \<and>
     (\<forall>e \<in> set fl. \<exists>b. (se_BlobHash e, b) \<in> set (blobByHash st) \<and> sb_SizeBytes b = se_SizeBytes e) \<and>
     (\<forall>e \<in> set fl. se_Mode e = ModeSymlink \<longrightarrow>
        (\<exists>t. env_H E t = se_BlobHash e \<and> SymlinkTargetWithinRoot (se_Path e) t = Inr ()))"

lemma remove_all_files:
  assumes "\<forall>(h, b) \<in> set bs. sb_FilePath b \<noteq> []"
  shows "files (foldl (\<lambda>s (h, b). if sb_FilePath b \<noteq> [] then remove_file (sb_FilePath b) s else s) st bs)
      = files st |` (- (\<lambda>(h, b). sb_FilePath b) ` set bs)"
    "createdPathArr (foldl (\<lambda>s (h, b). if sb_FilePath b \<noteq> [] then remove_file (sb_FilePath b) s else s) st bs)
      = createdPathArr st"
  using assms by (induction bs arbitrary: st) (auto simp: restrict_map_def fun_eq_iff split: prod.splits)

lemma files_dropOrphan:
  fixes fl :: "StagedEntryObj list"
  assumes "blobs_ok H fs (blobByHash st)"
  defines "orphans \<equiv> filter (\<lambda>(h, b). h \<notin> se_BlobHash ` set fl) (blobByHash st)"
  shows "files (dropOrphanBlobs fl st) = files st |` (- (\<lambda>(h, b). sb_FilePath b) ` set orphans)"
    "createdPathArr (dropOrphanBlobs fl st) = createdPathArr st"
    "blobByHash (dropOrphanBlobs fl st) = filter (\<lambda>(h, b). h \<in> se_BlobHash ` set fl) (blobByHash st)"
proof -
  have ne: "\<forall>(h, b) \<in> set orphans. sb_FilePath b \<noteq> []"
    using assms by (auto simp: blobs_ok_def)
  note r = remove_all_files [OF ne, of st]
  have files_upd: "files (s\<lparr>blobByHash := x, symlinkTargetByHash := y\<rparr>) = files s" for s x y
    by (simp add: files_def)
  show "files (dropOrphanBlobs fl st) = files st |` (- (\<lambda>(h, b). sb_FilePath b) ` set orphans)"
    using r(1) unfolding dropOrphanBlobs_def Let_def orphans_def [symmetric] files_upd .
  show "createdPathArr (dropOrphanBlobs fl st) = createdPathArr st"
    using r(2) unfolding dropOrphanBlobs_def Let_def orphans_def [symmetric] by simp
qed (simp add: dropOrphanBlobs_def Let_def)

lemma dropOrphan_final:
  assumes e: "err_inv F st" and d: "dom (files st) = dom F \<union> blob_paths st"
    and disj: "blob_paths st \<inter> dom F = {}"
    and b: "blobs_ok (env_H E) (files st) (blobByHash st)"
    and u: "se_BlobHash ` set fl \<subseteq> fst ` set (blobByHash st)"
    and sz: "\<forall>e \<in> set fl. \<exists>b. (se_BlobHash e, b) \<in> set (blobByHash st) \<and> sb_SizeBytes b = se_SizeBytes e"
    and sym: "\<forall>e \<in> set fl. se_Mode e = ModeSymlink \<longrightarrow>
        (\<exists>t. env_H E t = se_BlobHash e \<and> SymlinkTargetWithinRoot (se_Path e) t = Inr ())"
  shows "final_inv E F fl (dropOrphanBlobs fl st)"
proof -
  let ?used = "\<lambda>(h, b). h \<in> se_BlobHash ` set fl"
  let ?st = "dropOrphanBlobs fl st"
  let ?path = "\<lambda>(h :: HashObj, b). sb_FilePath b"
  let ?keep = "filter ?used (blobByHash st)"
  let ?orph = "filter (\<lambda>(h, b). h \<notin> se_BlobHash ` set fl) (blobByHash st)"
  note parts = files_dropOrphan [OF b, of fl]
  have inj: "inj_on ?path (set (blobByHash st))" and db: "distinct (map fst (blobByHash st))"
    "distinct (map ?path (blobByHash st))"
    using b by (auto simp: blobs_ok_def distinct_map)
  have split: "?path ` set ?keep \<inter> ?path ` set ?orph = {}"
  proof -
    have "set ?keep \<inter> set ?orph = {}" by auto
    then show ?thesis
      using inj_on_image_Int [OF inj filter_is_subset filter_is_subset, of ?used "\<lambda>(h, b). h \<notin> se_BlobHash ` set fl"]
      by simp
  qed
  have union: "?path ` set ?keep \<union> ?path ` set ?orph = blob_paths st"
  proof -
    have "set ?keep \<union> set ?orph = set (blobByHash st)" by auto
    then show ?thesis unfolding blob_paths_def by (simp only: flip: image_Un)
  qed
  define K where "K = ?path ` set ?keep"
  define R where "R = ?path ` set ?orph"
  have KR: "K \<inter> R = {}" "K \<union> R = blob_paths st" using split union unfolding K_def R_def by blast+
  have fst': "files ?st = files st |` (- R)" unfolding R_def by (rule parts(1))
  have keep: "files ?st q = files st q" if "q \<in> K \<union> dom F" for q
  proof -
    have "q \<notin> R" using that KR disj by blast
    then show ?thesis by (simp add: fst')
  qed
  have bp: "blob_paths ?st = K" by (simp add: blob_paths_def parts(3) K_def)
  have "dom (files ?st) = (dom F \<union> blob_paths st) \<inter> - R" by (simp add: fst' d)
  also have "\<dots> = dom F \<union> K" using KR disj by blast
  finally have dom': "dom (files ?st) = dom F \<union> K" .
  have "F \<subseteq>\<^sub>m files ?st" using e keep by (simp add: err_inv_def map_le_def)
  moreover have "K \<subseteq> set (createdPathArr st)"
  proof
    fix x
    assume "x \<in> K"
    then have "x \<in> blob_paths st" using KR(2) by blast
    then have "x \<in> dom (files st)" "x \<notin> dom F" using d disj by blast+
    moreover have "dom (files st) \<subseteq> dom F \<union> set (createdPathArr st)" using e by (simp add: err_inv_def)
    ultimately show "x \<in> set (createdPathArr st)" by blast
  qed
  ultimately have "err_inv F ?st"
    using e unfolding err_inv_def parts(2) dom' by blast
  moreover have "dom (files ?st) = dom F \<union> blob_paths ?st" unfolding bp by (rule dom')
  moreover have "blobs_ok (env_H E) (files ?st) (blobByHash ?st)"
  proof -
    have "blobs_ok (env_H E) (files st) ?keep"
      using b by (auto simp: blobs_ok_def distinct_map_filter)
    then show ?thesis
      unfolding parts(3) using keep K_def by (subst blobs_ok_cong [of _ _ "files st"]) blast+
  qed
  moreover have "fst ` set (blobByHash ?st) = se_BlobHash ` set fl"
    using u unfolding parts(3) by force
  moreover have "\<forall>e \<in> set fl. \<exists>b. (se_BlobHash e, b) \<in> set (blobByHash ?st) \<and> sb_SizeBytes b = se_SizeBytes e"
    using sz unfolding parts(3) by force
  ultimately show ?thesis using sym by (simp add: final_inv_def)
qed

lemma same_content_facts:
  assumes "same_content es es'"
  shows "length es = length es'" "se_BlobHash ` set es = se_BlobHash ` set es'"
    "size_sum es = size_sum es'"
    "e \<in> set es \<Longrightarrow> \<exists>e' \<in> set es'. se_Mode e' = se_Mode e \<and> se_BlobHash e' = se_BlobHash e \<and> se_SizeBytes e' = se_SizeBytes e"
proof -
  let ?f = "\<lambda>e. (se_Mode e, se_BlobHash e, se_SizeBytes e)"
  have m: "map ?f es = map ?f es'" using assms by (simp add: same_content_def)
  show "length es = length es'" using m by (rule map_eq_imp_length_eq)
  show "size_sum es = size_sum es'"
    using arg_cong [OF m, of "map (\<lambda>(m, h, s). unat s)"] by (simp add: size_sum_def o_def)
  have s: "?f ` set es = ?f ` set es'" using arg_cong [OF m, of set] by simp
  then have "(\<lambda>(m, h, s). h) ` ?f ` set es = (\<lambda>(m, h, s). h) ` ?f ` set es'" by simp
  then show "se_BlobHash ` set es = se_BlobHash ` set es'" by (simp add: image_image)
  show "\<exists>e' \<in> set es'. se_Mode e' = se_Mode e \<and> se_BlobHash e' = se_BlobHash e \<and> se_SizeBytes e' = se_SizeBytes e"
    if "e \<in> set es"
  proof -
    have "?f e \<in> ?f ` set es'" using that s by blast
    then show ?thesis by (elim imageE) (metis prod.inject)
  qed
qed

lemma symlink_kept:
  assumes "entries_ok H st" "same_content es (entryArr st)" "e \<in> set es" "se_Mode e = ModeSymlink"
    "\<not> symlink_escapes st e"
  shows "\<exists>t. H t = se_BlobHash e \<and> SymlinkTargetWithinRoot (se_Path e) t = Inr ()"
proof -
  from same_content_facts(4) [OF assms(2,3)] assms(1,4)
  have "se_BlobHash e \<in> fst ` set (symlinkTargetByHash st)" unfolding entries_ok_def by metis
  then obtain t where t: "map_of (symlinkTargetByHash st) (se_BlobHash e) = Some t"
    by (metis dom_map_of_conv_image_fst domD)
  have "(se_BlobHash e, t) \<in> set (symlinkTargetByHash st)" using t by (rule map_of_SomeD)
  then have "H t = se_BlobHash e" using assms(1) unfolding entries_ok_def by blast
  moreover have "is_ok (SymlinkTargetWithinRoot (se_Path e) t)"
    using assms(4,5) t by (simp add: symlink_escapes_def)
  ultimately show ?thesis by (auto simp: is_ok_iff)
qed

lemma filter_final:
  assumes f: "full_inv E F lim 0 0 st" and sc: "same_content es (entryArr st)"
    and run: "filterEscapingSymlinks es st = (r, st')"
  shows "r = Inr (filter (\<lambda>e. \<not> symlink_escapes st e) es) \<and>
    final_inv E F (filter (\<lambda>e. \<not> symlink_escapes st e) es) st'"
proof -
  let ?fl = "filter (\<lambda>e. \<not> symlink_escapes st e) es"
  let ?dr = "droppedSymlinkArr st @ map se_Path (filter (symlink_escapes st) es)"
  let ?st = "st\<lparr>droppedSymlinkArr := ?dr\<rparr>"
  from f have eo: "entries_ok (env_H E) st" and bo: "blobs_ok (env_H E) (files st) (blobByHash st)"
    by (simp_all add: full_inv_def)
  have err: "err_inv F ?st" using full_inv_err [OF f] by (simp add: err_inv_def files_def)
  have d: "dom (files ?st) = dom F \<union> blob_paths ?st" "blob_paths ?st \<inter> dom F = {}"
    using f by (simp_all add: full_inv_def files_def blob_paths_def)
  have b: "blobs_ok (env_H E) (files ?st) (blobByHash ?st)" using bo by (simp add: files_def)
  have hs: "se_BlobHash ` set es = fst ` set (blobByHash st)"
    using same_content_facts(2) [OF sc] eo by (simp add: entries_ok_def)
  have sz: "\<exists>b. (se_BlobHash e, b) \<in> set (blobByHash ?st) \<and> sb_SizeBytes b = se_SizeBytes e"
    if mem: "e \<in> set es" for e
  proof -
    obtain e' where e': "e' \<in> set (entryArr st)" "se_BlobHash e' = se_BlobHash e" "se_SizeBytes e' = se_SizeBytes e"
      using same_content_facts(4) [OF sc mem] by blast
    then show ?thesis using eo unfolding entries_ok_def by fastforce
  qed
  have sym: "\<forall>e \<in> set ?fl. se_Mode e = ModeSymlink \<longrightarrow>
        (\<exists>t. env_H E t = se_BlobHash e \<and> SymlinkTargetWithinRoot (se_Path e) t = Inr ())"
    using symlink_kept [OF eo sc] by auto
  show ?thesis
  proof (cases "?dr = []")
    case True
    then have fl: "?fl = es" by (simp add: filter_id_conv filter_empty_conv)
    have "final_inv E F ?fl ?st"
      using err d(1) b hs sz sym unfolding final_inv_def fl by simp
    with run True fl show ?thesis by (simp add: filterEscapingSymlinks_def Let_def)
  next
    case False
    have "final_inv E F ?fl (dropOrphanBlobs ?fl ?st)"
      using err d b hs sz sym by (intro dropOrphan_final) auto
    with run False show ?thesis by (auto simp: filterEscapingSymlinks_def Let_def)
  qed
qed

lemma hasSeenParent_None: "hasSeenParent S p = None \<longleftrightarrow> \<not> seenParentPath S p"
  by (auto simp: hasSeenParent_def seenParentPath_def find_None_iff)

lemma final_check_ok:
  "final_check req S es = Inr () \<Longrightarrow>
   (\<forall>e \<in> set es. CleanArchiveEntryPath (se_Path e) = Inr (se_Path e) \<and> se_Path e \<notin> S \<and>
      (\<forall>p \<in> S. \<not> is_parent p (se_Path e))) \<and>
   sorted_wrt (\<lambda>a b. se_Path a \<noteq> se_Path b \<and> \<not> is_parent (se_Path a) (se_Path b)) es"
proof (induction es arbitrary: S)
  case (Cons e es)
  from Cons.prems have e: "CleanArchiveEntryPath (se_Path e) = Inr (se_Path e)" "se_Path e \<notin> S"
    "\<not> seenParentPath S (se_Path e)" and rest: "final_check req (insert (se_Path e) S) es = Inr ()"
    by (auto simp: result_simps hasSeenParent_None split: sum.splits)
  from Cons.IH [OF rest] e show ?case by (auto simp: seenParentPath_iff)
qed simp

text \<open>What a consumer of the extracted tree relies on.\<close>

definition safe_tree :: "StagedEntryObj list \<Rightarrow> bool" where
  "safe_tree es \<longleftrightarrow> es \<noteq> [] \<and> sorted (map se_Path es) \<and> distinct (map se_Path es) \<and>
     (\<forall>e \<in> set es. CleanArchiveEntryPath (se_Path e) = Inr (se_Path e)) \<and>
     (\<forall>a \<in> set es. \<forall>b \<in> set es. \<not> is_parent (se_Path a) (se_Path b))"

lemma pairwise_no_parent:
  assumes "sorted (map se_Path es)"
    "sorted_wrt (\<lambda>a b. se_Path a \<noteq> se_Path b \<and> \<not> is_parent (se_Path a) (se_Path b)) es"
  shows "distinct (map se_Path es) \<and> (\<forall>a \<in> set es. \<forall>b \<in> set es. \<not> is_parent (se_Path a) (se_Path b))"
  using assms
proof (induction es)
  case (Cons e es)
  have self: "\<not> is_parent p p" for p using is_parent_less [of p p] by auto
  have "\<not> is_parent (se_Path b) (se_Path e)" if "b \<in> set es" for b
  proof
    assume "is_parent (se_Path b) (se_Path e)"
    then have "se_Path b < se_Path e" by (rule is_parent_less)
    then show False using Cons.prems(1) that by (simp add: leD)
  qed
  with Cons self show ?case by auto
qed simp

lemma validateFinalEntries_safe:
  assumes "validateFinalEntries req es = Inr final"
  shows "safe_tree final" "mset final = mset es"
proof -
  let ?s = "sort_key se_Path es"
  from assms have final: "final = ?s" "es \<noteq> []" and c: "final_check req {} ?s = Inr ()"
    by (auto simp: validateFinalEntries_def result_simps Let_def)
  have "?s \<noteq> []" using final(2) by (metis length_0_conv length_sort)
  then show "safe_tree final"
    using final_check_ok [OF c] pairwise_no_parent [of ?s] by (simp add: final(1) safe_tree_def)
  show "mset final = mset es" by (simp add: final(1))
qed

lemma size_sum_mset: "mset es = mset es' \<Longrightarrow> size_sum es = size_sum es'"
  unfolding size_sum_def by (metis mset_map sum_mset_sum_list)

lemma size_sum_filter: "size_sum (filter P es) \<le> size_sum es"
  by (induction es) (auto simp: size_sum_def)

lemma final_inv_mset: "mset es = mset es' \<Longrightarrow> final_inv E F es st \<Longrightarrow> final_inv E F es' st"
  unfolding final_inv_def by (metis mset_eq_setD)

text \<open>What a successful extraction guarantees about its result and the files it leaves.\<close>

definition extracted :: "arch_env \<Rightarrow> (string \<rightharpoonup> bytes) \<Rightarrow> LimitsObj \<Rightarrow> ResultObj \<Rightarrow> stateObj \<Rightarrow> bool" where
  "extracted E F lim r st \<longleftrightarrow> safe_tree (rs_Entries r) \<and> final_inv E F (rs_Entries r) st \<and>
     rs_Blobs r = sort_key sb_BlobHash (map snd (blobByHash st)) \<and>
     length (rs_Entries r) \<le> unat (MaxArchiveFiles lim) \<and> length (rs_Entries r) \<le> cTreeMaxEntries \<and>
     size_sum (rs_Entries r) \<le> unat (MaxArchiveUnpackedSize lim) \<and>
     (\<forall>e \<in> set (rs_Entries r). se_SizeBytes e \<le> MaxArchiveFileBytes lim)"

lemma result_op_triple:
  "triple (full_inv E F lim 0 0) (result_op E req) (extracted E F lim) (\<lambda>_. err_inv F)"
proof (rule tripleI)
  fix st e st'
  assume f: "full_inv E F lim 0 0 st"
  have f': "full_inv E F lim 0 0 (st\<lparr>io_count := i\<rparr>)" for i using f by simp
  have err: "err_inv F (st\<lparr>io_count := i\<rparr>)" for i using full_inv_err [OF f'] .
  have sc: "same_content (stripCommonTopDir (entryArr (st\<lparr>io_count := i\<rparr>))) (entryArr (st\<lparr>io_count := i\<rparr>))" for i
    by (rule strip_same_content)
  note ff = filter_final [OF f' sc]
  have fin: "final_inv E F fl s \<Longrightarrow> err_inv F s" for fl s by (simp add: final_inv_def)
  show "result_op E req st = (Inl e, st') \<Longrightarrow> err_inv F st'"
    using err ff fin
    by (fastforce simp: result_op_def op_Inl op_Inr io_call_def split: if_splits)
  show "extracted E F lim r st'" if run: "result_op E req st = (Inr r, st')" for r
  proof -
    from run obtain i fl final where
      flt: "filterEscapingSymlinks (stripCommonTopDir (entryArr (st\<lparr>io_count := i\<rparr>))) (st\<lparr>io_count := i\<rparr>) = (Inr fl, st')"
      and v: "validateFinalEntries req fl = Inr final"
      and r: "r = \<lparr>rs_Entries = final, rs_Blobs = sort_key sb_BlobHash (map snd (blobByHash st')),
                 rs_DroppedSymlinks = droppedSymlinkArr st'\<rparr>"
      by (auto simp: result_op_def op_Inr io_call_def split: if_splits)
    let ?es = "stripCommonTopDir (entryArr st)"
    have fl: "fl = filter (\<lambda>e. \<not> symlink_escapes (st\<lparr>io_count := i\<rparr>) e) ?es"
      and fi: "final_inv E F fl st'"
      using ff [OF flt] by simp_all
    note safe = validateFinalEntries_safe [OF v]
    note scf = same_content_facts [OF strip_same_content [of "entryArr st"]]
    from f have lo: "limits_ok lim 0 0 st" by (simp add: full_inv_def)
    have "length final \<le> length (entryArr st)"
      using mset_eq_length [OF safe(2)] fl scf(1) by (metis length_filter_le)
    moreover have "size_sum final \<le> size_sum (entryArr st)"
      using size_sum_mset [OF safe(2)] size_sum_filter [of _ ?es] scf(3) fl by simp
    moreover have "se_SizeBytes x \<le> MaxArchiveFileBytes lim" if "x \<in> set final" for x
    proof -
      have "x \<in> set ?es" using that mset_eq_setD [OF safe(2)] fl by simp
      from scf(4) [OF this] lo show ?thesis by (auto simp: limits_ok_def)
    qed
    ultimately show ?thesis
      using lo safe(1) final_inv_mset [OF safe(2) [symmetric] fi]
      by (auto simp: extracted_def r limits_ok_def word_le_nat_alt)
  qed
qed

end
