(* ===== verification/Archive_Formats.thy ===== *)
theory Archive_Formats
  imports Archive_Inv
begin

text \<open>
  The two extraction loops and \<open>Extract\<close>: \<open>mod/archive/tar.go\<close>, \<open>zip.go\<close> and
  \<open>extract.go\<close>, the byte limit of the tar stream and the check of the gzip tail, and the
  properties of a whole extraction.
\<close>

section \<open>The tar stream (tar.go)\<close>

definition cGzipPaddingCap :: nat where "cGzipPaddingCap = 1048576"

definition tarStreamMaxBytes :: "LimitsObj \<Rightarrow> u64" where
  "tarStreamMaxBytes lim =
     (if MaxArchiveUnpackedSize lim = 0 then 0
      else let overheadPerEntry = MaxArchivePathBytes lim + 1024
           in if overheadPerEntry > 0 \<and> MaxArchiveFiles lim > (NOT 0) div overheadPerEntry then NOT 0
              else let overheadBytes = MaxArchiveFiles lim * overheadPerEntry;
                       (resultBytes, overflowFlag) = saturatingAdd (MaxArchiveUnpackedSize lim) overheadBytes
                   in if overflowFlag then NOT 0 else resultBytes)"

record tarStreamReaderObj =
  ts_maxBytes :: u64
  ts_readBytes :: u64

text \<open>
  \<open>Read\<close> into a buffer of \<open>bufLen\<close> bytes: the length that is asked of the reader
  below, or the policy error; \<open>n\<close> is what that reader returns.
\<close>

definition tarStream_ask :: "RequestObj \<Rightarrow> u64 \<Rightarrow> tarStreamReaderObj \<Rightarrow> archive_error + u64" where
  "tarStream_ask req bufLen ts =
     (if ts_maxBytes ts > 0 then
        (if ts_readBytes ts \<ge> ts_maxBytes ts
         then Inl (newLimitsErr req CheckTarStream (no_facts\<lparr>lf_unpackedBytes := ts_readBytes ts + 1\<rparr>))
         else let remainingBytes = ts_maxBytes ts - ts_readBytes ts
              in Inr (if bufLen > remainingBytes then remainingBytes else bufLen))
      else Inr bufLen)"

definition tarStream_Read :: "RequestObj \<Rightarrow> u64 \<Rightarrow> (u64 \<Rightarrow> u64) \<Rightarrow> tarStreamReaderObj \<Rightarrow>
    (archive_error + u64) \<times> tarStreamReaderObj" where
  "tarStream_Read req bufLen below ts =
     (case tarStream_ask req bufLen ts of
        Inl e \<Rightarrow> (Inl e, ts)
      | Inr ask \<Rightarrow> (let n = below ask in
          (Inr n, if n > 0 then ts\<lparr>ts_readBytes := ts_readBytes ts + n\<rparr> else ts)))"

text \<open>
  \<open>checkGzipTail\<close>: the chunks the gzip reader still returns, whether it ends with an error
  other than the end of the stream, and what \<open>Peek(1)\<close> finds behind the member.
\<close>

datatype tail_end = TailEOF | TailError
datatype peek_result = PeekByte | PeekEOF | PeekError
datatype close_error = GzipTrailing | CloseOther

fun drain_tail :: "nat \<Rightarrow> bytes list \<Rightarrow> tail_end \<Rightarrow> close_error + nat" where
  "drain_tail drained [] te = (case te of TailEOF \<Rightarrow> Inr drained | TailError \<Rightarrow> Inl CloseOther)"
| "drain_tail drained (c # cs) te =
     guard (\<exists>b \<in> set c. b \<noteq> ch 0) GzipTrailing
    (guard (drained + length c > cGzipPaddingCap) GzipTrailing
    (drain_tail (drained + length c) cs te))"

definition checkGzipTail :: "bytes list \<Rightarrow> tail_end \<Rightarrow> peek_result \<Rightarrow> close_error + unit" where
  "checkGzipTail chunks te peek =
     andthen (drain_tail 0 chunks te) (\<lambda>_.
       case peek of PeekByte \<Rightarrow> Inl GzipTrailing | PeekError \<Rightarrow> Inl CloseOther | PeekEOF \<Rightarrow> Inr ())"

record tar_header =
  th_Typeflag :: char
  th_Name :: string
  th_Size :: int
  th_Linkname :: string

text \<open>The type flags of \<open>archive/tar\<close>.\<close>

definition TypeReg :: char where "TypeReg = CHR ''0''"
definition TypeSymlink :: char where "TypeSymlink = CHR ''2''"
definition TypeDir :: char where "TypeDir = CHR ''5''"
definition TypeXGlobalHeader :: char where "TypeXGlobalHeader = CHR ''g''"

definition tarEntryMode :: "tar_header \<Rightarrow> (string \<times> bool) option" where
  "tarEntryMode hdr =
     (if th_Typeflag hdr = TypeDir then Some ([], True)
      else if th_Typeflag hdr = TypeReg then Some (ModeFile, False)
      else if th_Typeflag hdr = TypeSymlink then Some (ModeSymlink, False)
      else None)"

text \<open>
  What \<open>Next\<close> returns: a header with the results of reading its data, or an error (a policy
  error of the stream reader is passed on as it is); the end of the list is the end of the archive.
\<close>

datatype tar_event = TarEntry tar_header "read_event list" | TarNextErr "archive_error option" | TarCancelled

definition tar_entry :: "arch_env \<Rightarrow> RequestObj \<Rightarrow> tar_header \<Rightarrow> read_event list \<Rightarrow> unit arch" where
  "tar_entry E req hdr evs =
     sbind (countHeader req) (\<lambda>_.
     if th_Typeflag hdr = TypeXGlobalHeader then sret ()
     else sbind (sget headerCount) (\<lambda>hdrCount.
       sbind (slift (validateCleanPath req (th_Name hdr) hdrCount)) (\<lambda>pathText.
       case tarEntryMode hdr of
         None \<Rightarrow> sfail (newRejectedErr req CheckUnsupported (th_Name hdr))
       | Some (mode, dirFlag) \<Rightarrow>
         if dirFlag then sret ()
         else if th_Size hdr < 0 then sfail (newRejectedErr req CheckMalformed (th_Name hdr))
         else if mode = ModeSymlink then
           sbind (slift (validateSymlinkTarget req (th_Linkname hdr))) (\<lambda>_.
             writeBytesEntry E req pathText mode (th_Linkname hdr))
         else writeReaderEntry E req pathText mode evs (word_of_int (th_Size hdr)))))"

definition close_err :: "RequestObj \<Rightarrow> bool \<Rightarrow> archive_error + close_error \<Rightarrow> archive_error" where
  "close_err req gzipFlag ce =
     (case ce of
        Inl e \<Rightarrow> if isArchivePolicyErr e then e else newRejectedErr req CheckMalformed []
      | Inr k \<Rightarrow> if gzipFlag \<and> k = GzipTrailing then newRejectedErr req CheckGzipTrailing []
                 else newRejectedErr req CheckMalformed [])"

fun tar_loop :: "arch_env \<Rightarrow> RequestObj \<Rightarrow> bool \<Rightarrow> (archive_error + close_error) option \<Rightarrow> tar_event list \<Rightarrow> ResultObj arch" where
  "tar_loop E req gzipFlag closeRes [] =
     (case closeRes of Some ce \<Rightarrow> sfail (close_err req gzipFlag ce) | None \<Rightarrow> result_op E req)"
| "tar_loop E req gzipFlag closeRes (ev # evs) =
     (case ev of
        TarCancelled \<Rightarrow> sfail ErrContext
      | TarNextErr (Some e) \<Rightarrow>
          sfail (if isArchivePolicyErr e then e else newRejectedErr req CheckMalformed [])
      | TarNextErr None \<Rightarrow> sfail (newRejectedErr req CheckMalformed [])
      | TarEntry hdr reads \<Rightarrow> sbind (tar_entry E req hdr reads) (\<lambda>_. tar_loop E req gzipFlag closeRes evs))"

section \<open>Zip archives (zip.go)\<close>

definition cMaxZipCompressionRatio :: u64 where "cMaxZipCompressionRatio = 1000"
definition cMinRatioCheckBytes :: u64 where "cMinRatioCheckBytes = 4096"

definition zipEntryCountErr :: "RequestObj \<Rightarrow> u64 \<Rightarrow> archive_error" where
  "zipEntryCountErr req countValue =
     (if countValue > of_nat cTreeMaxEntries
      then newLimitsErr req CheckEntryHardCap (no_facts\<lparr>lf_headerCount := cTreeMaxEntries + 1\<rparr>)
      else newLimitsErr req CheckHeaderCount (no_facts\<lparr>lf_headerCount := unat countValue\<rparr>))"

text \<open>
  \<open>*zip.File\<close>: the fields the extractor uses, what \<open>FileInfo\<close> says of the mode
  (directory, symlink, plain type), and the results of opening, reading and closing the entry.
\<close>

record zip_file =
  zf_Name :: string
  zf_Encrypted :: bool
  zf_Method :: nat
  zf_IsDir :: bool
  zf_IsSymlink :: bool
  zf_PlainType :: bool
  zf_Compressed :: u64
  zf_Uncompressed :: u64
  zf_OpenFails :: bool
  zf_Reads :: "read_event list"
  zf_CloseFails :: bool
  zf_Cancelled :: bool

definition zip_Store :: nat where "zip_Store = 0"
definition zip_Deflate :: nat where "zip_Deflate = 8"

definition zipMode :: "zip_file \<Rightarrow> (string \<times> bool) option" where
  "zipMode f =
     (if HasSuffix (zf_Name f) [slash] \<or> zf_IsDir f then Some ([], True)
      else if zf_IsSymlink f then Some (ModeSymlink, False)
      else if zf_PlainType f then Some (ModeFile, False)
      else None)"

text \<open>\<open>io.ReadAll(io.LimitReader(r, n))\<close>: at most n bytes, or an error of the reader.\<close>

fun read_limited :: "nat \<Rightarrow> read_event list \<Rightarrow> bytes option" where
  "read_limited n [] = Some []"
| "read_limited n (ev # evs) =
     (if n = 0 then Some []
      else case ev of
        ReadCancelled \<Rightarrow> read_limited n evs
      | ReadData d \<Rightarrow> map_option (\<lambda>rest. take n d @ rest) (read_limited (n - length d) evs)
      | ReadEOF d \<Rightarrow> Some (take n d)
      | ReadFail d \<Rightarrow> None)"

datatype target_error = TargetTooLong | TargetUnreadable

definition readZipSymlinkTarget :: "zip_file \<Rightarrow> u64 \<Rightarrow> target_error + bytes" where
  "readZipSymlinkTarget f maxBytes =
     (if zf_OpenFails f then Inl TargetUnreadable
      else case read_limited (nat (sint (maxBytes + 1))) (zf_Reads f) of
        None \<Rightarrow> Inl TargetUnreadable
      | Some targetArr \<Rightarrow> if of_nat (length targetArr) > maxBytes then Inl TargetTooLong else Inr targetArr)"

definition zip_symlink :: "arch_env \<Rightarrow> RequestObj \<Rightarrow> string \<Rightarrow> string \<Rightarrow> zip_file \<Rightarrow> unit arch" where
  "zip_symlink E req pathText mode f =
     (let maxBytes = MaxArchivePathBytes (rq_limitsObj req) in
      sbind (sget headerCount) (\<lambda>hdrCount.
      case readZipSymlinkTarget f maxBytes of
        Inl TargetTooLong \<Rightarrow> sfail (newLimitsErr req CheckPathBytes (no_facts\<lparr>lf_headerCount := hdrCount,
          lf_pathBytes := unat (maxBytes + 1)\<rparr>))
      | Inl TargetUnreadable \<Rightarrow> sfail (newRejectedErr req CheckMalformed (zf_Name f))
      | Inr targetArr \<Rightarrow> writeBytesEntry E req pathText mode targetArr))"

definition zip_entry :: "arch_env \<Rightarrow> RequestObj \<Rightarrow> zip_file \<Rightarrow> unit arch" where
  "zip_entry E req f =
     sbind (sguard (zf_Cancelled f) ErrContext) (\<lambda>_.
     sbind (countHeader req) (\<lambda>_.
     sbind (sget headerCount) (\<lambda>hdrCount.
     sbind (slift (validateCleanPath req (zf_Name f) hdrCount)) (\<lambda>pathText.
     sbind (sguard (zf_Encrypted f) (newRejectedErr req CheckUnsupported pathText)) (\<lambda>_.
     sbind (sguard (zf_Method f \<noteq> zip_Store \<and> zf_Method f \<noteq> zip_Deflate)
              (newRejectedErr req CheckUnsupported pathText)) (\<lambda>_.
     case zipMode f of
       None \<Rightarrow> sfail (newRejectedErr req CheckUnsupported pathText)
     | Some (mode, dirFlag) \<Rightarrow>
       if dirFlag then sret ()
       else if mode = ModeSymlink then zip_symlink E req pathText mode f
       else sbind (sguard (zf_Compressed f \<ge> cMinRatioCheckBytes \<and>
                zf_Uncompressed f div cMaxZipCompressionRatio > zf_Compressed f)
              (newLimitsErr req CheckCompressionRatio (no_facts\<lparr>lf_headerCount := hdrCount,
                 lf_fileBytes := zf_Uncompressed f, lf_pathBytes := length pathText,
                 lf_unpackedBytes := zf_Uncompressed f\<rparr>))) (\<lambda>_.
            sbind (sguard (zf_OpenFails f) (newRejectedErr req CheckMalformed (zf_Name f))) (\<lambda>_.
            sbind (writeReaderEntry E req pathText mode (zf_Reads f) (zf_Uncompressed f)) (\<lambda>_.
            sguard (zf_CloseFails f) (newRejectedErr req CheckMalformed (zf_Name f)))))))))))"

fun zip_loop :: "arch_env \<Rightarrow> RequestObj \<Rightarrow> zip_file list \<Rightarrow> ResultObj arch" where
  "zip_loop E req [] = result_op E req"
| "zip_loop E req (f # fs) = sbind (zip_entry E req f) (\<lambda>_. zip_loop E req fs)"

definition extractZip :: "arch_env \<Rightarrow> RequestObj \<Rightarrow> zip_file list \<Rightarrow> ResultObj arch" where
  "extractZip E req fs =
     (if MaxArchiveFiles (rq_limitsObj req) > 0 \<and>
         (of_nat (length fs) :: u64) > MaxArchiveFiles (rq_limitsObj req)
      then sfail (zipEntryCountErr req (of_nat (length fs))) else zip_loop E req fs)"

section \<open>Extract (extract.go)\<close>

text \<open>
  The source file: what opening and parsing it gives. \<open>verifyOpenSourceFile\<close> compares the size of
  the open file with the size found before.
\<close>

datatype source_content =
    SourceBroken
  | SourceZip "zip_file list"
  | SourceTar "tar_event list" "(archive_error + close_error) option"

record source_file =
  sf_Size :: u64
  sf_OpenSize :: u64
  sf_Regular :: bool
  sf_Content :: source_content

definition archive_size_err :: "RequestObj \<Rightarrow> u64 \<Rightarrow> archive_error" where
  "archive_size_err req sizeBytes = ErrArchiveLimitExceeded CheckArchiveSize (rq_Key req)
     (MaxArchiveSize (rq_limitsObj req)) sizeBytes (rq_Version req)"

definition verifyOpenSourceFile :: "RequestObj \<Rightarrow> source_file \<Rightarrow> archive_error + unit" where
  "verifyOpenSourceFile req src =
     (let lim = rq_limitsObj req in
      guard (\<not> sf_Regular src) (newRejectedErr req CheckMalformed [])
     (guard (MaxArchiveSize lim > 0 \<and> sf_OpenSize src > MaxArchiveSize lim) (archive_size_err req (sf_OpenSize src))
     (guard (sf_OpenSize src \<noteq> rq_SourceSizeBytes req) (newRejectedErr req CheckMalformed [])
     (Inr ()))))"

definition extract_content :: "arch_env \<Rightarrow> RequestObj \<Rightarrow> source_file \<Rightarrow> ResultObj arch" where
  "extract_content E req src =
     sbind (slift (verifyOpenSourceFile req src)) (\<lambda>_.
       case sf_Content src of
         SourceZip fs \<Rightarrow> if rq_Format req = FormatZip then extractZip E req fs
                         else sfail (newRejectedErr req CheckMalformed [])
       | SourceTar evs closeRes \<Rightarrow>
           if rq_Format req = FormatTar then tar_loop E req False closeRes evs
           else if rq_Format req = FormatTarGz then tar_loop E req True closeRes evs
           else sfail (newRejectedErr req CheckMalformed [])
       | SourceBroken \<Rightarrow> sfail (newRejectedErr req CheckMalformed []))"

definition Extract :: "arch_env \<Rightarrow> LimitsObj \<Rightarrow> RequestObj \<Rightarrow> source_file \<Rightarrow> ResultObj arch" where
  "Extract E lim req0 src =
     (let req = req0\<lparr>rq_limitsObj := lim, rq_SourceSizeBytes := sf_Size src\<rparr> in
      sbind (sguard (\<not> validateFormat (rq_Format req)) (newRejectedErr req CheckUnsupported [])) (\<lambda>_.
      sbind (io_call E (newRejectedErr req CheckSpool [])) (\<lambda>_.
      sbind (sguard (\<not> sf_Regular src) (newRejectedErr req CheckMalformed [])) (\<lambda>_.
      sbind (sguard (MaxArchiveSize lim > 0 \<and> sf_Size src > MaxArchiveSize lim)
               (archive_size_err req (sf_Size src))) (\<lambda>_.
      on_error cleanupCreated (extract_content E req src))))))"

section \<open>Every entry keeps the invariant\<close>

text \<open>\<open>keeps E F req k m j\<close>: \<open>m\<close> leads from phase \<open>k\<close> of the invariant to phase \<open>j\<close>.\<close>

definition keeps :: "arch_env \<Rightarrow> (string \<rightharpoonup> bytes) \<Rightarrow> RequestObj \<Rightarrow> nat \<Rightarrow> 'a arch \<Rightarrow> nat \<Rightarrow> bool" where
  "keeps E F req k m j \<longleftrightarrow> (temp_fresh E \<longrightarrow> limits_set req \<longrightarrow>
     triple (full_inv E F (rq_limitsObj req) k 0) m (\<lambda>_. full_inv E F (rq_limitsObj req) j 0) (\<lambda>_. err_inv F))"

lemma keeps_bind: "keeps E F req k m i \<Longrightarrow> (\<And>x. keeps E F req i (f x) j) \<Longrightarrow> keeps E F req k (sbind m f) j"
  unfolding keeps_def using triple_bind by metis

lemma keeps_get: "keeps E F req k (sget f) k"
  unfolding keeps_def by (intro impI triple_get)

lemma keeps_lift: "keeps E F req k (slift r) k"
  unfolding keeps_def by (intro impI triple_lift) (auto intro: full_inv_err)

lemma keeps_guard: "keeps E F req k (sguard c e) k"
  unfolding keeps_def by (intro impI triple_guard) (auto intro: full_inv_err)

lemma keeps_fail: "keeps E F req k (sfail e) j"
  unfolding keeps_def by (intro impI triple_fail) (auto intro: full_inv_err)

lemma keeps_skip: "keeps E F req 1 (sret ()) 0"
  unfolding keeps_def by (intro impI triple_ret) (rule full_inv_skip)

lemma keeps_bytes: "keeps E F req 1 (writeBytesEntry E req path mode d) 0"
  unfolding keeps_def by (intro impI writeBytesEntry_triple refl)

lemma keeps_reader: "mode \<noteq> ModeSymlink \<Longrightarrow> keeps E F req 1 (writeReaderEntry E req path mode evs n) 0"
  unfolding keeps_def by (intro impI writeReaderEntry_triple refl)

lemma keeps_count: "keeps E F req 0 (countHeader req) 1"
  unfolding keeps_def by (intro impI countHeader_triple refl)

lemma keeps_if:
  "(c \<Longrightarrow> keeps E F req k m j) \<Longrightarrow> (\<not> c \<Longrightarrow> keeps E F req k m' j) \<Longrightarrow> keeps E F req k (if c then m else m') j"
  by simp

lemmas keeps_rules = keeps_if keeps_skip keeps_fail keeps_bytes keeps_reader keeps_guard
  keeps_bind [OF keeps_count] keeps_bind [OF keeps_get] keeps_bind [OF keeps_lift]
  keeps_bind [OF keeps_guard] keeps_bind [OF keeps_reader]

lemmas keeps_rules' = keeps_rules [unfolded One_nat_def]

lemma keeps_tar_entry: "keeps E F req 0 (tar_entry E req hdr evs) 0"
  unfolding tar_entry_def
  by (rule keeps_rules | simp)+ (auto simp: tarEntryMode_def intro!: keeps_rules')

lemma keeps_zip_symlink: "keeps E F req 1 (zip_symlink E req path mode f) 0"
  unfolding zip_symlink_def Let_def
  by (rule keeps_rules)+ (auto split: sum.split target_error.split intro!: keeps_rules')

lemma keeps_zip_entry: "keeps E F req 0 (zip_entry E req f) 0"
  unfolding zip_entry_def
  by (rule keeps_rules | simp)+ (auto simp: zipMode_def intro!: keeps_rules' keeps_zip_symlink [unfolded One_nat_def])

definition extracts :: "arch_env \<Rightarrow> (string \<rightharpoonup> bytes) \<Rightarrow> RequestObj \<Rightarrow> ResultObj arch \<Rightarrow> bool" where
  "extracts E F req m \<longleftrightarrow> (temp_fresh E \<longrightarrow> limits_set req \<longrightarrow>
     triple (full_inv E F (rq_limitsObj req) 0 0) m (extracted E F (rq_limitsObj req)) (\<lambda>_. err_inv F))"

lemma extracts_fail: "extracts E F req (sfail e)"
  unfolding extracts_def by (intro impI triple_fail) (auto intro: full_inv_err)

lemma extracts_result: "extracts E F req (result_op E req)"
  unfolding extracts_def by (intro impI result_op_triple)

lemma extracts_bind: "keeps E F req 0 m 0 \<Longrightarrow> (\<And>x. extracts E F req (f x)) \<Longrightarrow> extracts E F req (sbind m f)"
  unfolding extracts_def keeps_def using triple_bind by metis

lemma extracts_tar: "extracts E F req (tar_loop E req gzipFlag closeRes evs)"
  by (induction evs) (auto split: option.split tar_event.split
      intro: extracts_fail extracts_result extracts_bind keeps_tar_entry)

lemma extracts_zip: "extracts E F req (extractZip E req fs)"
proof -
  have "extracts E F req (zip_loop E req fs)"
    by (induction fs) (auto intro: extracts_result extracts_bind keeps_zip_entry)
  then show ?thesis by (simp add: extractZip_def extracts_fail)
qed

lemma extracts_content: "extracts E F req (extract_content E req src)"
  unfolding extract_content_def
  by (rule extracts_bind [OF keeps_lift])
    (auto split: source_content.split intro: extracts_fail extracts_tar extracts_zip)

lemma full_inv_new:
  "full_inv E (map_of fs) lim 0 0 (newState fs)"
  by (simp add: full_inv_def newState_def files_def blob_paths_def blobs_ok_def entries_ok_def
      limits_ok_def size_sum_def)

lemma validateLimits_set: "archive_New lim = Inr lim' \<Longrightarrow> lim' = lim \<and> limits_set (req\<lparr>rq_limitsObj := lim\<rparr>)"
  by (auto simp: archive_New_def validateLimits_def limits_set_def result_simps)

lemma Extract_triple:
  assumes "archive_New lim0 = Inr lim" "temp_fresh E"
  shows "triple (\<lambda>st. st = newState fs) (Extract E lim req src) (extracted E (map_of fs) lim)
    (\<lambda>_ st. files st = map_of fs)"
proof (rule tripleI)
  fix st e st'
  assume st: "st = newState fs"
  let ?req = "req\<lparr>rq_limitsObj := lim, rq_SourceSizeBytes := sf_Size src\<rparr>"
  have lims: "limits_set ?req" using validateLimits_set [OF assms(1)] by (auto simp: limits_set_def)
  have t: "triple (full_inv E (map_of fs) lim 0 0) (extract_content E ?req src)
      (extracted E (map_of fs) lim) (\<lambda>_. err_inv (map_of fs))"
    using extracts_content [of E "map_of fs" ?req src] assms(2) lims by (simp add: extracts_def)
  have f: "full_inv E (map_of fs) lim 0 0 (st\<lparr>io_count := i\<rparr>)" for i
    using full_inv_new [of E fs lim] by (simp add: st)
  have fs: "files (st\<lparr>io_count := i\<rparr>) = map_of fs" for i by (simp add: st newState_def files_def)
  have fs0: "files st = map_of fs" by (simp add: st newState_def files_def)
  show "Extract E lim req src st = (Inl e, st') \<Longrightarrow> files st' = map_of fs"
    using fs fs0 cleanup_err_inv [OF triple_Inl [OF t _ f]]
    by (auto simp: Extract_def Let_def op_Inl op_Inr io_call_def split: if_splits)
  show "Extract E lim req src st = (Inr r, st') \<Longrightarrow> extracted E (map_of fs) lim r st'" for r
    using triple_Inr [OF t _ f]
    by (auto simp: Extract_def Let_def op_Inr io_call_def split: if_splits)
qed

section \<open>Properties\<close>

text \<open>A concrete archive: a directory, a file below it and a symlink that leaves the archive.\<close>

definition sample_env :: arch_env where
  "sample_env = \<lparr>env_H = hash_copy, os_ok = (\<lambda>_. True),
     os_temp = (\<lambda>names. replicate (Suc (sum_list (map length names))) (CHR ''t''))\<rparr>"

definition sample_limits :: LimitsObj where
  "sample_limits = \<lparr>MaxArchiveSize = 0, MaxArchiveUnpackedSize = 1000, MaxArchiveFileBytes = 100,
     MaxArchiveFiles = 10, MaxArchivePathBytes = 64\<rparr>"

definition sample_request :: RequestObj where
  "sample_request = \<lparr>rq_Key = ''k'', rq_Version = ''v1'', rq_Format = ''tar'', rq_SourceSizeBytes = 0,
     rq_limitsObj = sample_limits\<rparr>"

definition sample_source :: "tar_event list \<Rightarrow> source_file" where
  "sample_source evs = \<lparr>sf_Size = 512, sf_OpenSize = 512, sf_Regular = True, sf_Content = SourceTar evs None\<rparr>"

definition sample_events :: "tar_event list" where
  "sample_events =
     [TarEntry \<lparr>th_Typeflag = CHR ''5'', th_Name = ''pkg/'', th_Size = 0, th_Linkname = []\<rparr> [],
      TarEntry \<lparr>th_Typeflag = CHR ''0'', th_Name = ''pkg/a.txt'', th_Size = 5, th_Linkname = []\<rparr>
        [ReadData ''hel'', ReadEOF ''lo''],
      TarEntry \<lparr>th_Typeflag = CHR ''2'', th_Name = ''pkg/evil'', th_Size = 0,
        th_Linkname = ''../../etc/passwd''\<rparr> []]"

lemma temp_fresh_sample: "temp_fresh sample_env"
proof -
  have "replicate (Suc (sum_list (map length names))) (CHR ''t'') \<notin> set names" for names :: "string list"
  proof
    assume "replicate (Suc (sum_list (map length names))) (CHR ''t'') \<in> set names"
    then have "Suc (sum_list (map length names)) \<le> sum_list (map length names)"
      using member_le_sum_list [of "Suc (sum_list (map length names))" "map length names"] by force
    then show False by simp
  qed
  then show ?thesis by (simp add: temp_fresh_def sample_env_def)
qed

lemma New_sample: "archive_New sample_limits = Inr sample_limits"
  by code_simp

lemma sample_run:
  "\<exists>r st. Extract sample_env sample_limits sample_request (sample_source sample_events) (newState [(''old'', ''x'')])
     = (Inr r, st) \<and> map se_Path (rs_Entries r) = [''a.txt''] \<and> rs_DroppedSymlinks r = [''evil'']"
proof -
  have "(case Extract sample_env sample_limits sample_request (sample_source sample_events) (newState [(''old'', ''x'')]) of
      (Inl _, _) \<Rightarrow> False
    | (Inr r, st) \<Rightarrow> map se_Path (rs_Entries r) = [''a.txt''] \<and> rs_DroppedSymlinks r = [''evil''])"
    by code_simp
  then show ?thesis by (auto split: sum.splits prod.splits)
qed

lemma sample_run_fails:
  "\<exists>e st. Extract sample_env sample_limits sample_request (sample_source (sample_events @ [TarNextErr None]))
     (newState [(''old'', ''x'')]) = (Inl e, st)"
proof -
  have "\<not> is_ok (fst (Extract sample_env sample_limits sample_request
      (sample_source (sample_events @ [TarNextErr None])) (newState [(''old'', ''x'')])))"
    by code_simp
  then show ?thesis by (metis eq_fst_iff is_ok_iff sumE)
qed

text \<open>
  C32: an extraction that fails, for any archive and any failing file system call, leaves in the
  spool directory exactly the files that were there before, with the same content: every
  temporary blob it created is removed and nothing else is touched.
\<close>

theorem extract_failure_leaves_spool_unchanged:
  assumes "archive_New lim0 = Inr lim" "temp_fresh E"
    and "Extract E lim req src (newState fs) = (Inl err, st)"
  shows "files st = map_of fs"
  using triple_Inl [OF Extract_triple [OF assms(1,2)] assms(3)] by simp

theorem extract_failure_leaves_spool_unchanged_witness:
  "\<exists>e st. Extract sample_env sample_limits sample_request (sample_source (sample_events @ [TarNextErr None]))
     (newState [(''old'', ''x'')]) = (Inl e, st) \<and> files st = map_of [(''old'', ''x'')]"
proof -
  obtain e st where r: "Extract sample_env sample_limits sample_request
      (sample_source (sample_events @ [TarNextErr None])) (newState [(''old'', ''x'')]) = (Inl e, st)"
    using sample_run_fails by blast
  from extract_failure_leaves_spool_unchanged [OF New_sample temp_fresh_sample r] r show ?thesis by blast
qed

text \<open>
  C34: an accepted archive unpacks to a safe tree: sorted, unique, clean relative paths, no entry below
  another entry, and every kept symlink has a target that stays inside the archive root.
\<close>

theorem extract_yields_safe_tree:
  assumes "archive_New lim0 = Inr lim" "temp_fresh E"
    and "Extract E lim req src (newState fs) = (Inr r, st)"
  shows "rs_Entries r \<noteq> [] \<and> sorted (map se_Path (rs_Entries r)) \<and> distinct (map se_Path (rs_Entries r)) \<and>
     (\<forall>e \<in> set (rs_Entries r). CleanArchiveEntryPath (se_Path e) = Inr (se_Path e) \<and>
        (se_Mode e = ModeSymlink \<longrightarrow>
          (\<exists>t. env_H E t = se_BlobHash e \<and> SymlinkTargetWithinRoot (se_Path e) t = Inr ()))) \<and>
     (\<forall>a \<in> set (rs_Entries r). \<forall>b \<in> set (rs_Entries r). \<not> HasPrefix (se_Path b) (se_Path a @ ''/''))"
  using triple_Inr [OF Extract_triple [OF assms(1,2)] assms(3)]
  by (simp add: extracted_def safe_tree_def final_inv_def is_parent_def slash_def)

theorem extract_yields_safe_tree_witness:
  "\<exists>r st. Extract sample_env sample_limits sample_request (sample_source sample_events) (newState [(''old'', ''x'')])
     = (Inr r, st) \<and> rs_Entries r \<noteq> [] \<and> distinct (map se_Path (rs_Entries r))"
proof -
  obtain r st where r: "Extract sample_env sample_limits sample_request (sample_source sample_events)
      (newState [(''old'', ''x'')]) = (Inr r, st)"
    using sample_run by blast
  from extract_yields_safe_tree [OF New_sample temp_fresh_sample r] r show ?thesis by blast
qed

text \<open>
  C35: the staged blobs are exactly what the tree refers to: one blob per digest, the digests are those
  of the entries, each blob's file holds content with that digest and size, and the spool directory
  holds the old files and these blob files, nothing else.
\<close>

theorem extract_stages_faithful_blobs:
  assumes "archive_New lim0 = Inr lim" "temp_fresh E"
    and "Extract E lim req src (newState fs) = (Inr r, st)"
  shows "distinct (map sb_BlobHash (rs_Blobs r)) \<and>
     sb_BlobHash ` set (rs_Blobs r) = se_BlobHash ` set (rs_Entries r) \<and>
     (\<forall>b \<in> set (rs_Blobs r). \<exists>c. files st (sb_FilePath b) = Some c \<and> env_H E c = sb_BlobHash b \<and>
        sb_SizeBytes b = of_nat (length c)) \<and>
     dom (files st) = dom (map_of fs) \<union> sb_FilePath ` set (rs_Blobs r)"
proof -
  from triple_Inr [OF Extract_triple [OF assms(1,2)] assms(3)]
  have fi: "final_inv E (map_of fs) (rs_Entries r) st"
    and bl: "rs_Blobs r = sort_key sb_BlobHash (map snd (blobByHash st))"
    by (simp_all add: extracted_def)
  then have bo: "blobs_ok (env_H E) (files st) (blobByHash st)" by (simp add: final_inv_def)
  have key: "map (sb_BlobHash \<circ> snd) (blobByHash st) = map fst (blobByHash st)"
    using bo by (intro map_cong) (auto simp: blobs_ok_def)
  have s: "set (rs_Blobs r) = snd ` set (blobByHash st)" by (simp add: bl)
  have "mset (map sb_BlobHash (rs_Blobs r)) = mset (map (sb_BlobHash \<circ> snd) (blobByHash st))"
    unfolding bl by (simp add: multiset.map_comp)
  then have "distinct (map sb_BlobHash (rs_Blobs r))"
    using bo unfolding key by (metis blobs_ok_def mset_eq_imp_distinct_iff)
  moreover have "sb_BlobHash ` set (rs_Blobs r) = fst ` set (blobByHash st)"
    using arg_cong [OF key, of set] by (simp add: s image_image)
  moreover have "\<exists>c. files st (sb_FilePath b) = Some c \<and> env_H E c = sb_BlobHash b \<and>
      sb_SizeBytes b = of_nat (length c)" if "b \<in> set (rs_Blobs r)" for b
    using that bo unfolding s blobs_ok_def by fastforce
  moreover have "blob_paths st = sb_FilePath ` set (rs_Blobs r)"
    by (simp add: blob_paths_def s image_image case_prod_unfold)
  ultimately show ?thesis using fi by (simp add: final_inv_def)
qed

theorem extract_stages_faithful_blobs_witness:
  "\<exists>r st. Extract sample_env sample_limits sample_request (sample_source sample_events) (newState [(''old'', ''x'')])
     = (Inr r, st) \<and> dom (files st) = {''old''} \<union> sb_FilePath ` set (rs_Blobs r)"
proof -
  obtain r st where r: "Extract sample_env sample_limits sample_request (sample_source sample_events)
      (newState [(''old'', ''x'')]) = (Inr r, st)"
    using sample_run by blast
  from extract_stages_faithful_blobs [OF New_sample temp_fresh_sample r] r show ?thesis by auto
qed

section \<open>The byte limit of the tar stream\<close>

fun stream_reads :: "RequestObj \<Rightarrow> (u64 \<times> (u64 \<Rightarrow> u64)) list \<Rightarrow> tarStreamReaderObj \<Rightarrow> tarStreamReaderObj" where
  "stream_reads req [] ts = ts"
| "stream_reads req ((n, f) # xs) ts = stream_reads req xs (snd (tarStream_Read req n f ts))"

lemma tarStream_Read_bound:
  assumes "ts_maxBytes ts > 0" "ts_readBytes ts \<le> ts_maxBytes ts" "\<And>n. below n \<le> n"
  shows "ts_readBytes (snd (tarStream_Read req bufLen below ts)) \<le> ts_maxBytes ts \<and>
    ts_maxBytes (snd (tarStream_Read req bufLen below ts)) = ts_maxBytes ts"
proof (cases "ts_readBytes ts \<ge> ts_maxBytes ts")
  case False
  let ?rem = "ts_maxBytes ts - ts_readBytes ts"
  define a where "a = (if bufLen > ?rem then ?rem else bufLen)"
  have "a \<le> ?rem" by (auto simp: a_def not_less)
  then have "below a \<le> ?rem" using assms(3) [of a] by (rule order.trans [rotated])
  then have "ts_readBytes ts + below a \<le> ts_readBytes ts + ?rem"
    using assms(2) by (intro word_plus_mono_right) (simp_all add: word_le_nat_alt)
  then have "ts_readBytes ts + below a \<le> ts_maxBytes ts" by simp
  with False assms show ?thesis
    by (simp add: tarStream_Read_def tarStream_ask_def Let_def a_def)
qed (use assms in \<open>simp add: tarStream_Read_def tarStream_ask_def\<close>)

lemma stream_reads_bound:
  "ts_maxBytes ts > 0 \<Longrightarrow> ts_readBytes ts \<le> ts_maxBytes ts \<Longrightarrow> \<forall>(n, f) \<in> set xs. \<forall>k. f k \<le> k \<Longrightarrow>
   ts_readBytes (stream_reads req xs ts) \<le> ts_maxBytes ts"
proof (induction xs arbitrary: ts)
  case (Cons x xs)
  obtain n f where x: "x = (n, f)" by force
  have "\<And>k. f k \<le> k" using Cons.prems(3) x by simp
  from tarStream_Read_bound [OF Cons.prems(1,2) this, of req n]
    Cons.IH [of "snd (tarStream_Read req n f ts)"] Cons.prems x
  show ?case by auto
qed simp

text \<open>
  However the tar reader reads, the stream reader never takes more bytes from the source than
  the limit derived from the archive limits.
\<close>

lemma tar_stream_never_exceeds_limit:
  assumes "tarStreamMaxBytes lim > 0" "\<forall>(n, f) \<in> set reads. \<forall>k. f k \<le> k"
  shows "ts_readBytes (stream_reads req reads \<lparr>ts_maxBytes = tarStreamMaxBytes lim, ts_readBytes = 0\<rparr>)
     \<le> tarStreamMaxBytes lim"
  using stream_reads_bound [of "\<lparr>ts_maxBytes = tarStreamMaxBytes lim, ts_readBytes = 0\<rparr>" reads req] assms
  by simp

end
