(* ===== verification/Archive_Limits.thy ===== *)
theory Archive_Limits
  imports Archive_Formats
begin

text \<open>
  Every limit of \<open>LimitsObj\<close> on everything an accepted archive holds: its own size, the number of its
  headers (directories and global headers counted), the length of their names and of symlink targets,
  declared and real sizes, the ratio of a compressed entry.
\<close>

section \<open>What an archive within the limits looks like\<close>

definition path_fits :: "LimitsObj \<Rightarrow> string \<Rightarrow> bool" where
  "path_fits lim p \<longleftrightarrow> length p \<le> unat (MaxArchivePathBytes lim)"

definition tar_fits :: "LimitsObj \<Rightarrow> tar_header \<Rightarrow> bool" where
  "tar_fits lim hdr \<longleftrightarrow> th_Typeflag hdr = TypeXGlobalHeader \<or>
     path_fits lim (th_Name hdr) \<and>
     (th_Typeflag hdr = TypeSymlink \<longrightarrow> path_fits lim (th_Linkname hdr)) \<and>
     (th_Typeflag hdr = TypeReg \<longrightarrow> 0 \<le> th_Size hdr \<and> (word_of_int (th_Size hdr) :: u64) \<le> MaxArchiveFileBytes lim)"

definition zip_fits :: "LimitsObj \<Rightarrow> zip_file \<Rightarrow> bool" where
  "zip_fits lim f \<longleftrightarrow> path_fits lim (zf_Name f) \<and>
     (zipMode f = Some (ModeSymlink, False) \<longrightarrow>
        (\<exists>t. readZipSymlinkTarget f (MaxArchivePathBytes lim) = Inr t \<and> path_fits lim t)) \<and>
     (zipMode f = Some (ModeFile, False) \<longrightarrow> zf_Uncompressed f \<le> MaxArchiveFileBytes lim \<and>
        (zf_Compressed f < cMinRatioCheckBytes \<or> zf_Uncompressed f div cMaxZipCompressionRatio \<le> zf_Compressed f))"

definition within_limits :: "LimitsObj \<Rightarrow> source_file \<Rightarrow> bool" where
  "within_limits lim src \<longleftrightarrow>
     (MaxArchiveSize lim > 0 \<longrightarrow> sf_Size src \<le> MaxArchiveSize lim) \<and> sf_OpenSize src = sf_Size src \<and>
     (case sf_Content src of
        SourceBroken \<Rightarrow> False
      | SourceZip fs \<Rightarrow> length fs \<le> unat (MaxArchiveFiles lim) \<and> length fs \<le> cTreeMaxEntries \<and> list_all (zip_fits lim) fs
      | SourceTar evs closeRes \<Rightarrow> length evs \<le> unat (MaxArchiveFiles lim) \<and> length evs \<le> cTreeMaxEntries \<and>
          list_all (\<lambda>ev. case ev of TarEntry hdr reads \<Rightarrow> tar_fits lim hdr | _ \<Rightarrow> False) evs)"

text \<open>The limits on an entry that comes out; the content of a symlink is its target.\<close>

definition entry_fits :: "LimitsObj \<Rightarrow> StagedEntryObj \<Rightarrow> bool" where
  "entry_fits lim e \<longleftrightarrow> path_fits lim (se_Path e) \<and>
     (se_Mode e = ModeSymlink \<longrightarrow> se_SizeBytes e \<le> MaxArchivePathBytes lim)"

section \<open>Steps that respect the limits\<close>

definition counted :: "LimitsObj \<Rightarrow> nat \<Rightarrow> stateObj \<Rightarrow> bool" where
  "counted lim n st \<longleftrightarrow> headerCount st = n \<and> n \<le> unat (MaxArchiveFiles lim) \<and> n \<le> cTreeMaxEntries \<and>
     list_all (entry_fits lim) (entryArr st)"

definition step_counts :: "LimitsObj \<Rightarrow> nat \<Rightarrow> 'a arch \<Rightarrow> nat \<Rightarrow> bool" where
  "step_counts lim n m k \<longleftrightarrow> (\<forall>st x st'. m st = (Inr x, st') \<longrightarrow> counted lim n st \<longrightarrow> counted lim k st')"

lemma step_countsD: "step_counts lim n m k \<Longrightarrow> m st = (Inr x, st') \<Longrightarrow> counted lim n st \<Longrightarrow> counted lim k st'"
  unfolding step_counts_def by blast

lemma sc_bind:
  assumes "step_counts lim n m i" "\<And>x. \<exists>st st'. m st = (Inr x, st') \<Longrightarrow> step_counts lim i (f x) k"
  shows "step_counts lim n (sbind m f) k"
  unfolding step_counts_def
proof (intro allI impI)
  fix st x st' assume "sbind m f st = (Inr x, st')" "counted lim n st"
  then obtain y s1 where "m st = (Inr y, s1)" "f y s1 = (Inr x, st')" by (auto simp: op_Inr)
  then show "counted lim k st'" using step_countsD [OF assms(1)] step_countsD [OF assms(2)] \<open>counted lim n st\<close> by blast
qed

lemma sc_then: "step_counts lim n m n \<Longrightarrow> (\<And>x. step_counts lim n (f x) k) \<Longrightarrow> step_counts lim n (sbind m f) k"
  by (rule sc_bind)

lemma sc_basic:
  "step_counts lim n (sret x) n" "step_counts lim n (sget g) n" "step_counts lim n (slift y) n"
  "step_counts lim n (sguard c e) n" "step_counts lim n (sfail e) k" "step_counts lim n (io_call E e) n"
  by (auto simp: step_counts_def op_defs io_call_def counted_def)

lemma sc_mod: "(\<And>st. counted lim n st \<Longrightarrow> counted lim n (g st)) \<Longrightarrow> step_counts lim n (smod g) n"
  by (simp add: step_counts_def smod_def)

lemma sc_on_error: "step_counts lim n m k \<Longrightarrow> step_counts lim n (on_error g m) k"
  by (auto simp: step_counts_def on_error_def split: prod.splits sum.splits)

lemma counted_files [simp]:
  "counted lim n (append_file p d st) = counted lim n st" "counted lim n (st\<lparr>spool := s\<rparr>) = counted lim n st"
  "counted lim n (remove_file p st) = counted lim n st" "counted lim n (st\<lparr>createdPathArr := c\<rparr>) = counted lim n st"
  by (simp_all add: counted_def)

lemma sc_temp: "step_counts lim n (createTempBlob E e) n"
  unfolding createTempBlob_def by (intro sc_then sc_mod sc_on_error sc_basic) (simp add: counted_def)

lemma sc_write_temp: "step_counts lim n (writeTempBytes E e d) n"
  unfolding writeTempBytes_def by (intro sc_then sc_on_error sc_temp sc_mod sc_basic) simp

lemma sc_unpacked: "step_counts lim n (addUnpacked req sz) n"
  by (auto simp: step_counts_def addUnpacked_def Let_def counted_def split: prod.splits if_splits)

lemma sc_addEntry:
  "path_fits lim p \<Longrightarrow> mode = ModeSymlink \<longrightarrow> sz \<le> MaxArchivePathBytes lim \<Longrightarrow>
   step_counts lim n (addEntry req p mode h sz f) n"
  by (auto simp: step_counts_def addEntry_def Let_def counted_def entry_fits_def split: option.splits if_splits)

lemma sc_reads: "step_counts lim n (read_loop E req path file hashed sz evs) n"
proof -
  have s: "step_counts lim n (read_step E req path file hashed sz chunk) n" for hashed sz chunk
    by (auto simp: step_counts_def read_step_def Let_def op_Inr smod_def sret_def io_call_def counted_def
        split: if_splits prod.splits)
  show ?thesis
    by (induction evs arbitrary: hashed sz) (auto split: read_event.split prod.split intro!: sc_then s sc_basic)
qed

text \<open>A target that fits: its length does not wrap around in the size of the entry.\<close>

lemma fits_size: "path_fits lim d \<Longrightarrow> (of_nat (length d) :: u64) \<le> MaxArchivePathBytes lim"
  unfolding path_fits_def word_le_nat_alt
  by (rule order.trans) (simp_all add: unsigned_of_nat take_bit_nat_less_eq_self)

lemma sc_bytes:
  assumes "path_fits lim path" "mode = ModeSymlink \<longrightarrow> path_fits lim d"
  shows "step_counts lim n (writeBytesEntry E req path mode d) n"
proof -
  have "mode = ModeSymlink \<longrightarrow> (of_nat (length d) :: u64) \<le> MaxArchivePathBytes lim"
    using assms(2) fits_size by blast
  then show ?thesis
    unfolding writeBytesEntry_def Let_def
    by (intro sc_then sc_mod sc_basic sc_unpacked sc_write_temp sc_addEntry assms(1)) (simp_all add: counted_def)
qed

lemma sc_spool: "step_counts lim n (spool_reader E req path file evs) n"
  unfolding spool_reader_def case_prod_unfold
  by (intro sc_on_error sc_then sc_reads sc_unpacked sc_basic)

lemma sc_reader:
  "path_fits lim path \<Longrightarrow> mode \<noteq> ModeSymlink \<Longrightarrow> step_counts lim n (writeReaderEntry E req path mode evs declared) n"
  unfolding writeReaderEntry_def Let_def case_prod_unfold
  by (intro sc_then sc_temp sc_spool sc_mod sc_basic sc_addEntry) simp_all

lemma sc_header: "limits_set req \<Longrightarrow> rq_limitsObj req = lim \<Longrightarrow> step_counts lim n (countHeader req) (Suc n)"
  by (auto simp: step_counts_def countHeader_def Let_def counted_def limits_set_def word_gt_0 split: if_splits)

section \<open>Names and targets\<close>

definition joined :: "string list \<Rightarrow> nat" where
  "joined ps = sum_list (map (\<lambda>p. Suc (length p)) ps)"

lemma joined_simps [simp]: "joined [] = 0" "joined (p # ps) = Suc (length p) + joined ps" "joined (rev ps) = joined ps"
  by (simp_all add: joined_def rev_map [symmetric])

lemma length_JoinByte: "ps \<noteq> [] \<Longrightarrow> Suc (length (JoinByte c ps)) = joined ps"
proof (induction ps)
  case (Cons p ps)
  then show ?case by (cases ps) simp_all
qed simp

lemma clean_joined: "joined (foldl (clean_step rooted) st ps) \<le> joined st + joined ps"
proof (induction ps arbitrary: st)
  case (Cons p ps)
  have "joined (clean_step rooted st p) \<le> joined st + Suc (length p)"
    by (auto simp: clean_step.simps split: list.split)
  with Cons [of "clean_step rooted st p"] show ?case by simp
qed simp

lemma length_path_Clean: "s \<noteq> [] \<Longrightarrow> length (path_Clean s) \<le> length s"
proof -
  assume s: "s \<noteq> []"
  have j: "joined (SplitByte slash s) = Suc (length s)"
    using length_JoinByte [of "SplitByte slash s" slash] by simp
  have seg: "length (JoinByte slash (clean_segments rooted (SplitByte slash s))) \<le> length s" for rooted
  proof (cases "clean_segments rooted (SplitByte slash s) = []")
    case False
    from length_JoinByte [OF this, of slash] clean_joined [of rooted "[]" "SplitByte slash s"] j
    show ?thesis by (simp add: clean_segments_def)
  qed simp
  have "length (JoinByte slash (clean_segments True (SplitByte slash s))) < length s" if "hd s = slash"
  proof -
    obtain t where t: "s = slash # t" using s \<open>hd s = slash\<close> by (cases s) simp_all
    have jt: "joined (SplitByte slash t) = Suc (length t)"
      using length_JoinByte [of "SplitByte slash t" slash] by simp
    have c: "clean_segments True (SplitByte slash s) = clean_segments True (SplitByte slash t)"
      by (simp add: t clean_segments_def)
    show ?thesis
    proof (cases "clean_segments True (SplitByte slash t) = []")
      case False
      from length_JoinByte [OF this, of slash] clean_joined [of True "[]" "SplitByte slash t"] jt
      show ?thesis unfolding c by (simp add: clean_segments_def t)
    qed (use s in \<open>simp add: c\<close>)
  qed
  with seg [of False] s show ?thesis by (cases s) (auto simp: path_Clean_def Let_def Suc_le_eq)
qed

lemma le_sint_unat: "int n \<le> sint (w :: u64) \<Longrightarrow> n \<le> unat w"
proof -
  assume n: "int n \<le> sint w"
  have "- (2 ^ 63) \<le> uint w" by (rule order.trans [of _ 0]) simp_all
  then have "sint w \<le> uint w" by (simp add: sint_uint signed_take_bit_int_less_eq_self_iff)
  with n have "int n \<le> uint w" by (rule order.trans)
  then show "n \<le> unat w" by (simp only: uint_nat of_nat_le_iff)
qed

lemma clean_path_fits:
  assumes "validateCleanPath req p h = Inr q" "rq_limitsObj req = lim"
  shows "path_fits lim p" "path_fits lim q"
proof -
  have p: "int (length p) \<le> sint (MaxArchivePathBytes lim)" and c: "CleanArchiveEntryPath p = Inr q"
    using assms by (auto simp: validateCleanPath_def result_simps split: sum.splits)
  then show fp: "path_fits lim p"
    by (simp add: path_fits_def le_sint_unat)
  have "p \<noteq> []" "q = path_Clean p"
    using c by (auto simp: CleanArchiveEntryPath_def Let_def result_simps path_Clean_def)
  then show "path_fits lim q" using length_path_Clean [of p] fp by (simp add: path_fits_def)
qed

lemma target_fits: "validateSymlinkTarget req t = Inr () \<Longrightarrow> path_fits (rq_limitsObj req) t"
  by (auto simp: validateSymlinkTarget_def path_fits_def result_simps not_less intro: le_sint_unat)

lemma read_limited_length: "read_limited n evs = Some d \<Longrightarrow> length d \<le> n"
  by (induction n evs arbitrary: d rule: read_limited.induct) (fastforce split: if_splits read_event.splits)+

lemma zip_target_fits:
  assumes "readZipSymlinkTarget f (MaxArchivePathBytes lim) = Inr t"
  shows "path_fits lim t"
proof -
  from assms have le: "(of_nat (length t) :: u64) \<le> MaxArchivePathBytes lim"
    and r: "read_limited (nat (sint (MaxArchivePathBytes lim + 1))) (zf_Reads f) = Some t"
    by (auto simp: readZipSymlinkTarget_def split: if_splits option.splits)
  have "int (length t) < 2 ^ 64"
    using read_limited_length [OF r] sint_lt [of "MaxArchivePathBytes lim + 1"] by simp
  then have "unat (of_nat (length t) :: u64) = length t" by (simp add: unsigned_of_nat take_bit_nat_eq_self_iff)
  with le show ?thesis by (simp add: path_fits_def word_le_nat_alt)
qed

section \<open>Entries\<close>

lemma sc_tar_entry:
  assumes "limits_set req" "rq_limitsObj req = lim"
  shows "step_counts lim n (tar_entry E req hdr evs) (Suc n)"
  unfolding tar_entry_def
proof (intro sc_bind [OF sc_header [OF assms]])
  fix x
  show "step_counts lim (Suc n) (if th_Typeflag hdr = TypeXGlobalHeader then sret ()
      else sbind (sget headerCount) (\<lambda>hdrCount. sbind (slift (validateCleanPath req (th_Name hdr) hdrCount)) (\<lambda>pathText.
       case tarEntryMode hdr of
         None \<Rightarrow> sfail (newRejectedErr req CheckUnsupported (th_Name hdr))
       | Some (mode, dirFlag) \<Rightarrow>
         if dirFlag then sret ()
         else if th_Size hdr < 0 then sfail (newRejectedErr req CheckMalformed (th_Name hdr))
         else if mode = ModeSymlink then
           sbind (slift (validateSymlinkTarget req (th_Linkname hdr))) (\<lambda>_.
             writeBytesEntry E req pathText mode (th_Linkname hdr))
         else writeReaderEntry E req pathText mode evs (word_of_int (th_Size hdr))))) (Suc n)"
    using clean_path_fits [OF _ assms(2)] target_fits [of req] assms(2)
    by (auto simp: op_Inr split: option.split intro!: sc_bind [OF sc_basic(2)] sc_bind [OF sc_basic(3)]
        sc_bytes sc_reader sc_basic)
qed

lemma sc_zip_symlink:
  "rq_limitsObj req = lim \<Longrightarrow> path_fits lim p \<Longrightarrow> step_counts lim n (zip_symlink E req p mode f) n"
  using zip_target_fits [of f lim]
  by (auto simp: zip_symlink_def Let_def split: sum.split target_error.split
      intro!: sc_then sc_basic sc_bytes)

lemma sc_zip_entry:
  assumes "limits_set req" "rq_limitsObj req = lim"
  shows "step_counts lim n (zip_entry E req f) (Suc n)"
  unfolding zip_entry_def
  apply (intro sc_then [OF sc_basic(4)] sc_bind [OF sc_header [OF assms]])
  using clean_path_fits [OF _ assms(2)] assms(2)
    by (auto simp: op_Inr split: option.split intro!: sc_bind [OF sc_basic(2)] sc_bind [OF sc_basic(3)]
        sc_then [OF sc_basic(4)] sc_then [OF sc_reader] sc_zip_symlink sc_reader sc_basic)

text \<open>An entry that was accepted had a header within the limits.\<close>

lemma tar_entry_fits:
  assumes "tar_entry E req hdr evs st = (Inr x, st')" "limits_set req"
  shows "tar_fits (rq_limitsObj req) hdr"
  using assms clean_path_fits(1) [OF _ refl, of req] target_fits [of req]
  by (auto simp: tar_entry_def tar_fits_def op_Inr tarEntryMode_def writeReaderEntry_def Let_def limits_set_def
      TypeDir_def TypeReg_def TypeSymlink_def word_gt_0 not_less split: if_splits)

lemma reader_fits:
  assumes "writeReaderEntry E req path mode evs declared st = (Inr x, st')" "limits_set req"
  shows "declared \<le> MaxArchiveFileBytes (rq_limitsObj req)"
  using assms by (auto simp: writeReaderEntry_def Let_def op_Inr limits_set_def word_gt_0 not_less)

lemma zip_entry_fits:
  assumes "zip_entry E req f st = (Inr x, st')" "limits_set req"
  shows "zip_fits (rq_limitsObj req) f"
proof (cases "zipMode f = Some (ModeFile, False)")
  case True
  have m: "ModeFile \<noteq> ModeSymlink" by (simp add: ModeFile_def ModeSymlink_def)
  show ?thesis
    using assms(1) clean_path_fits(1) [OF _ refl, of req] reader_fits [OF _ assms(2)]
    by (auto simp: zip_entry_def zip_fits_def op_Inr True m not_le not_less)
next
  case False
  have "\<exists>t. readZipSymlinkTarget f (MaxArchivePathBytes (rq_limitsObj req)) = Inr t \<and> path_fits (rq_limitsObj req) t"
    if "zipMode f = Some (ModeSymlink, False)"
  proof (cases "readZipSymlinkTarget f (MaxArchivePathBytes (rq_limitsObj req))")
    case (Inl e)
    with assms(1) that show ?thesis
      by (cases e) (auto simp: zip_entry_def zip_symlink_def Let_def op_Inr)
  qed (simp add: zip_target_fits)
  then show ?thesis
    using assms(1) clean_path_fits(1) [OF _ refl, of req]
    by (simp add: zip_entry_def zip_fits_def op_Inr False) blast
qed

section \<open>Whole archives\<close>

text \<open>What both loops show of an archive with the headers they were given.\<close>

definition loop_fits :: "RequestObj \<Rightarrow> ('h \<Rightarrow> bool) \<Rightarrow> 'h list \<Rightarrow> ResultObj \<Rightarrow> nat \<Rightarrow> bool" where
  "loop_fits req ok hs r n \<longleftrightarrow> list_all ok hs \<and> n + length hs \<le> unat (MaxArchiveFiles (rq_limitsObj req)) \<and>
     n + length hs \<le> cTreeMaxEntries \<and> list_all (entry_fits (rq_limitsObj req)) (rs_Entries r)"

lemma trimmed_fits: "entry_fits lim e \<Longrightarrow> entry_fits lim (e\<lparr>se_Path := TrimPrefix (se_Path e) p\<rparr>)"
  by (auto simp: entry_fits_def path_fits_def TrimPrefix_def)

lemma stripped_cases:
  "stripCommonTopDir es = es \<or> (\<exists>p. stripCommonTopDir es = map (\<lambda>e. e\<lparr>se_Path := TrimPrefix (se_Path e) p\<rparr>) es)"
proof (cases es)
  case (Cons e es')
  obtain t ok where "topSegment (se_Path e) = (t, ok)" by force
  then show ?thesis unfolding stripCommonTopDir_def Let_def Cons list.case prod.case by (simp only: prod.case) metis
qed (simp add: stripCommonTopDir_def)

lemma stripped_fits: "list_all (entry_fits lim) es \<Longrightarrow> list_all (entry_fits lim) (stripCommonTopDir es)"
  using stripped_cases [of es] trimmed_fits by (auto simp: list_all_iff)

lemma result_counts:
  assumes "result_op E req st = (Inr r, st')" "counted lim n st"
  shows "list_all (entry_fits lim) (rs_Entries r)"
proof -
  from assms(1) obtain i fl final where
    flt: "filterEscapingSymlinks (stripCommonTopDir (entryArr (st\<lparr>io_count := i\<rparr>))) (st\<lparr>io_count := i\<rparr>) = (Inr fl, st')"
    and v: "validateFinalEntries req fl = Inr final" and r: "rs_Entries r = final"
    by (auto simp: result_op_def op_Inr io_call_def split: if_splits)
  have "set fl \<subseteq> set (stripCommonTopDir (entryArr st))"
    using flt by (auto simp: filterEscapingSymlinks_def Let_def split: if_splits)
  moreover have "set final = set fl" using validateFinalEntries_safe(2) [OF v] by (rule mset_eq_setD)
  ultimately show ?thesis
    using stripped_fits [of lim "entryArr st"] assms(2) by (auto simp: counted_def list_all_iff r)
qed

lemma tar_loop_fits:
  assumes "limits_set req"
  shows "tar_loop E req gz c evs st = (Inr r, st') \<Longrightarrow> counted (rq_limitsObj req) n st \<Longrightarrow>
    loop_fits req (\<lambda>ev. case ev of TarEntry hdr reads \<Rightarrow> tar_fits (rq_limitsObj req) hdr | _ \<Rightarrow> False) evs r n"
proof (induction evs arbitrary: st n)
  case Nil
  then show ?case
    using result_counts [of E req st r st'] by (auto simp: loop_fits_def counted_def op_Inr split: option.splits)
next
  case (Cons ev evs)
  from Cons.prems(1) obtain hdr reads x s1 where ev: "ev = TarEntry hdr reads"
    and e: "tar_entry E req hdr reads st = (Inr x, s1)" and l: "tar_loop E req gz c evs s1 = (Inr r, st')"
    by (auto simp: op_Inr split: tar_event.splits option.splits)
  have "counted (rq_limitsObj req) (Suc n) s1"
    by (rule step_countsD [OF sc_tar_entry [OF assms refl] e Cons.prems(2)])
  from Cons.IH [OF l this] tar_entry_fits [OF e assms] show ?case by (simp add: loop_fits_def ev)
qed

lemma zip_loop_fits:
  assumes "limits_set req"
  shows "zip_loop E req fs st = (Inr r, st') \<Longrightarrow> counted (rq_limitsObj req) n st \<Longrightarrow>
    loop_fits req (zip_fits (rq_limitsObj req)) fs r n"
proof (induction fs arbitrary: st n)
  case Nil
  then show ?case using result_counts [of E req st r st'] by (auto simp: loop_fits_def counted_def)
next
  case (Cons f fs)
  from Cons.prems(1) obtain x s1 where e: "zip_entry E req f st = (Inr x, s1)"
    and l: "zip_loop E req fs s1 = (Inr r, st')"
    by (auto simp: op_Inr)
  have "counted (rq_limitsObj req) (Suc n) s1"
    by (rule step_countsD [OF sc_zip_entry [OF assms refl] e Cons.prems(2)])
  from Cons.IH [OF l this] zip_entry_fits [OF e assms] show ?case by (simp add: loop_fits_def)
qed

lemma Extract_fits:
  assumes "archive_New lim0 = Inr lim" "Extract E lim req src (newState fs) = (Inr r, st)"
  shows "within_limits lim src \<and> list_all (entry_fits lim) (rs_Entries r)"
proof -
  let ?req = "req\<lparr>rq_limitsObj := lim, rq_SourceSizeBytes := sf_Size src\<rparr>"
  have lims: "limits_set ?req" using validateLimits_set [OF assms(1)] by (auto simp: limits_set_def)
  from assms(2) obtain i where c: "extract_content E ?req src ((newState fs)\<lparr>io_count := i\<rparr>) = (Inr r, st)"
    and size: "MaxArchiveSize lim > 0 \<longrightarrow> sf_Size src \<le> MaxArchiveSize lim"
    by (auto simp: Extract_def Let_def op_Inr io_call_def not_less split: if_splits)
  have n: "counted lim 0 ((newState fs)\<lparr>io_count := i\<rparr>)" by (simp add: counted_def newState_def)
  have same: "sf_OpenSize src = sf_Size src"
    using c by (auto simp: extract_content_def op_Inr verifyOpenSourceFile_def Let_def result_simps split: if_splits)
  show ?thesis
  proof (cases "sf_Content src")
    case SourceBroken
    with c show ?thesis by (simp add: extract_content_def op_Inr)
  next
    case (SourceZip fs')
    with c have "zip_loop E ?req fs' ((newState fs)\<lparr>io_count := i\<rparr>) = (Inr r, st)"
      by (auto simp: extract_content_def op_Inr extractZip_def split: if_splits)
    from zip_loop_fits [OF lims this, of 0] n size same SourceZip show ?thesis
      by (simp add: loop_fits_def within_limits_def)
  next
    case (SourceTar evs cr)
    with c obtain gz where "tar_loop E ?req gz cr evs ((newState fs)\<lparr>io_count := i\<rparr>) = (Inr r, st)"
      by (auto simp: extract_content_def op_Inr split: if_splits)
    from tar_loop_fits [OF lims this, of 0] n size same SourceTar show ?thesis
      by (simp add: loop_fits_def within_limits_def)
  qed
qed

text \<open>The size found before the archive is opened is checked first.\<close>

lemma Extract_oversize:
  assumes "validateFormat (rq_Format req)" "os_ok E 0" "sf_Regular src"
    "MaxArchiveSize lim > 0" "sf_Size src > MaxArchiveSize lim"
  shows "Extract E lim req src (newState fs) =
    (Inl (ErrArchiveLimitExceeded CheckArchiveSize (rq_Key req) (MaxArchiveSize lim) (sf_Size src) (rq_Version req)),
     (newState fs)\<lparr>io_count := 1\<rparr>)"
  using assms by (simp add: Extract_def Let_def op_defs io_call_def newState_def archive_size_err_def)

section \<open>Property\<close>

text \<open>
  C33: the anti-bomb limits hold for every accepted archive. For what was read: the size of the archive,
  found before and after opening it, is within its limit; every header was counted (directories and global
  headers too) and their number is within the limit and the hard cap; no name and no symlink target is longer
  than the path limit; no declared file size is above the file limit, and no zip entry declares more
  than the allowed ratio. For what comes out: the number of entries, the real size of each file, the length of
  paths and targets, and the sum of all sizes, counted without wrap-around. And a source that is larger than the
  size limit when it is looked up is answered with that limit, without opening it: after the checks of the
  format, the spool and the kind of file, the spool is as it was and one call was made.
\<close>

theorem extract_respects_limits:
  assumes "archive_New lim0 = Inr lim" "temp_fresh E" and "Extract E lim req src (newState fs) = (x, st)"
  shows "(\<forall>r. x = Inr r \<longrightarrow>
       within_limits lim src \<and> list_all (entry_fits lim) (rs_Entries r) \<and>
       length (rs_Entries r) \<le> unat (MaxArchiveFiles lim) \<and> length (rs_Entries r) \<le> cTreeMaxEntries \<and>
       (\<forall>e \<in> set (rs_Entries r). se_SizeBytes e \<le> MaxArchiveFileBytes lim) \<and>
       sum_list (map (\<lambda>e. unat (se_SizeBytes e)) (rs_Entries r)) \<le> unat (MaxArchiveUnpackedSize lim)) \<and>
    (MaxArchiveSize lim > 0 \<and> sf_Size src > MaxArchiveSize lim \<and> validateFormat (rq_Format req) \<and>
       sf_Regular src \<and> os_ok E 0 \<longrightarrow>
       x = Inl (ErrArchiveLimitExceeded CheckArchiveSize (rq_Key req) (MaxArchiveSize lim) (sf_Size src) (rq_Version req)) \<and>
       st = (newState fs)\<lparr>io_count := 1\<rparr>)"
proof (rule conjI, intro allI impI)
  fix r assume "x = Inr r"
  with assms(3) have run: "Extract E lim req src (newState fs) = (Inr r, st)" by simp
  from triple_Inr [OF Extract_triple [OF assms(1,2)] run] Extract_fits [OF assms(1) run]
  show "within_limits lim src \<and> list_all (entry_fits lim) (rs_Entries r) \<and>
       length (rs_Entries r) \<le> unat (MaxArchiveFiles lim) \<and> length (rs_Entries r) \<le> cTreeMaxEntries \<and>
       (\<forall>e \<in> set (rs_Entries r). se_SizeBytes e \<le> MaxArchiveFileBytes lim) \<and>
       sum_list (map (\<lambda>e. unat (se_SizeBytes e)) (rs_Entries r)) \<le> unat (MaxArchiveUnpackedSize lim)"
    by (simp add: extracted_def size_sum_def)
qed (use Extract_oversize [of req E src lim fs] assms(3) in simp)

theorem extract_respects_limits_witness:
  "\<exists>r st. Extract sample_env sample_limits sample_request (sample_source sample_events) (newState [(''old'', ''x'')])
     = (Inr r, st) \<and> length (rs_Entries r) \<le> 10 \<and> within_limits sample_limits (sample_source sample_events)"
proof -
  obtain r st where r: "Extract sample_env sample_limits sample_request (sample_source sample_events)
      (newState [(''old'', ''x'')]) = (Inr r, st)"
    using sample_run by blast
  from extract_respects_limits [OF New_sample temp_fresh_sample r] r show ?thesis
    by (auto simp: sample_limits_def)
qed

end
