(* ===== verification/Archive_Write.thy ===== *)
theory Archive_Write
  imports Archive_Formats
begin

text \<open>
  Writing archives: \<open>mod/archive/write.go\<close>. The zip and tar writers of the standard library are
  modelled by the sequence of items they are asked to write (name, mode and the chunks of data, in
  order); \<open>w_ok\<close> gives the outcome of the n-th call into a writer or of the n-th context check.
  A blob source is a script: the blobs it passes to the use function, one call after the other,
  and what it returns once it has seen the results of those calls.

  The lemmas show the byte limit of the counting writer, the checks of the entry list, and that a
  successful write contains every entry once, in path order, with the blob of its digest.
\<close>

section \<open>The counting writer\<close>

datatype write_error =
    OutputLimit | InvalidByteCount | OutputOverflow | ShortWrite | UnderlyingError
  | EntriesEmpty | CountHardCap | CountLimit | EntryPathBad string | EntryModeBad string | EntryHashEmpty string
  | FileSizeLimit string | UnpackedLimit | DuplicateEntry string | EntryConflict string string
  | TarSizeLimit string | BlobSizeMismatch string | TargetTooLongErr string | TargetEscapes string path_error
  | UsedMoreThanOnce | NotUsed | SourceError | WriterError | WriteContext | BadFormat | TreeHashEmpty

record countingWriterObj =
  cw_writtenBytes :: u64
  cw_maxBytes :: u64

text \<open>
  \<open>Write(dataArr)\<close> on data of length \<open>len\<close>; \<open>below\<close> is the writer below: the count and
  whether it reports an error for the length it is given. The result is the count and the error.
\<close>

definition countingWriter_Write :: "(nat \<Rightarrow> int \<times> bool) \<Rightarrow> nat \<Rightarrow> countingWriterObj \<Rightarrow>
    (int \<times> write_error option) \<times> countingWriterObj" where
  "countingWriter_Write below len cw =
     (if cw_maxBytes cw > 0 \<and> cw_writtenBytes cw \<ge> cw_maxBytes cw then ((0, Some OutputLimit), cw)
      else
        let remainingBytes = cw_maxBytes cw - cw_writtenBytes cw;
            limitHit = (cw_maxBytes cw > 0 \<and> (of_nat len :: u64) > remainingBytes);
            writeLen = (if limitHit then unat remainingBytes else len);
            (n, failed) = below writeLen;
            err0 = (if failed then Some UnderlyingError else None)
        in if n < 0 \<or> n > int writeLen then ((n, Some InvalidByteCount), cw)
           else
             let (nextBytes, overflowFlag) = saturatingAdd (cw_writtenBytes cw) (word_of_int n);
                 cw' = (if n > 0 then cw\<lparr>cw_writtenBytes := nextBytes\<rparr> else cw);
                 err1 = (if n > 0 \<and> overflowFlag \<and> err0 = None then Some OutputOverflow else err0);
                 err2 = (if limitHit \<and> err1 = None then Some OutputLimit else err1);
                 err3 = (if n \<noteq> int len \<and> err2 = None then Some ShortWrite else err2)
             in ((n, err3), cw'))"

section \<open>Checking the entries\<close>

definition validateWriteEntryPath :: "string \<Rightarrow> u64 \<Rightarrow> path_error + unit" where
  "validateWriteEntryPath pathText maxPathBytes =
     guard (maxPathBytes > 0 \<and> int (length pathText) > sint maxPathBytes) PathTooLong
    (andthen (CleanArchiveEntryPath pathText) (\<lambda>cleanPath.
       guard (cleanPath \<noteq> pathText) PathInvalidSegment (Inr ())))"

definition validateWriteSymlinkTarget :: "string \<Rightarrow> bytes \<Rightarrow> u64 \<Rightarrow> write_error + unit" where
  "validateWriteSymlinkTarget pathText targetArr maxPathBytes =
     guard (maxPathBytes > 0 \<and> int (length targetArr) > sint maxPathBytes) (TargetTooLongErr pathText)
    (map_err (TargetEscapes pathText) (SymlinkTargetWithinRoot pathText targetArr))"

fun write_check :: "LimitsObj \<Rightarrow> string set \<Rightarrow> u64 \<Rightarrow> TreeEntryObj list \<Rightarrow> write_error + u64" where
  "write_check lim seenPathObj unpacked [] = Inr unpacked"
| "write_check lim seenPathObj unpacked (e # es) =
     andthen (map_err (\<lambda>_. EntryPathBad (safeErrorPath (te_Path e)))
         (validateWriteEntryPath (te_Path e) (MaxArchivePathBytes lim))) (\<lambda>_.
       guard (te_Mode e \<noteq> ModeFile \<and> te_Mode e \<noteq> ModeSymlink) (EntryModeBad (safeErrorPath (te_Path e)))
      (guard (IsZero (te_BlobHash e)) (EntryHashEmpty (safeErrorPath (te_Path e)))
      (guard (MaxArchiveFileBytes lim > 0 \<and> te_SizeBytes e > MaxArchiveFileBytes lim)
         (FileSizeLimit (safeErrorPath (te_Path e)))
      (let (nextBytes, overflowFlag) = saturatingAdd unpacked (te_SizeBytes e)
       in guard (MaxArchiveUnpackedSize lim > 0 \<and> (overflowFlag \<or> nextBytes > MaxArchiveUnpackedSize lim))
            UnpackedLimit
         (guard (te_Path e \<in> seenPathObj) (DuplicateEntry (safeErrorPath (te_Path e)))
         (case hasSeenParent seenPathObj (te_Path e) of
            Some parentPath \<Rightarrow> Inl (EntryConflict (safeErrorPath parentPath) (safeErrorPath (te_Path e)))
          | None \<Rightarrow> write_check lim (insert (te_Path e) seenPathObj) nextBytes es))))))"

definition validateWriteEntries :: "TreeEntryObj list \<Rightarrow> LimitsObj \<Rightarrow> write_error + TreeEntryObj list \<times> u64" where
  "validateWriteEntries entries lim =
     guard (entries = []) EntriesEmpty
    (guard (length entries > cTreeMaxEntries) CountHardCap
    (guard (MaxArchiveFiles lim > 0 \<and> (of_nat (length entries) :: u64) > MaxArchiveFiles lim) CountLimit
    (let sortedArr = sort_key te_Path entries
     in andthen (write_check lim {} 0 sortedArr) (\<lambda>unpacked. Inr (sortedArr, unpacked)))))"

definition cMaxTarEntrySize :: u64 where "cMaxTarEntrySize = 9223372036854775807"

definition tarEntrySize :: "TreeEntryObj \<Rightarrow> write_error + int" where
  "tarEntrySize e =
     guard (te_SizeBytes e > cMaxTarEntrySize) (TarSizeLimit (safeErrorPath (te_Path e)))
    (Inr (sint (te_SizeBytes e)))"

section \<open>Writing the entries\<close>

datatype write_item =
    ZipItem string string "bytes list"        \<comment> \<open>name, mode, data chunks\<close>
  | TarItem string string int "bytes list"    \<comment> \<open>name, mode, header size, data chunks\<close>
  | TarLink string bytes                      \<comment> \<open>name, link name\<close>

record wstate =
  w_items :: "write_item list"
  w_calls :: nat

type_synonym 'a wop = "(wstate, write_error, 'a) op"

definition w_step :: "(nat \<Rightarrow> bool) \<Rightarrow> write_error \<Rightarrow> unit wop" where
  "w_step w_ok e st =
     ((if w_ok (w_calls st) then Inr () else Inl e), st\<lparr>w_calls := Suc (w_calls st)\<rparr>)"

definition put_item :: "write_item \<Rightarrow> unit wop" where
  "put_item it = smod (\<lambda>st. st\<lparr>w_items := w_items st @ [it]\<rparr>)"

fun add_chunk :: "bytes \<Rightarrow> write_item list \<Rightarrow> write_item list" where
  "add_chunk d [] = []"
| "add_chunk d [ZipItem n m cs] = [ZipItem n m (cs @ [d])]"
| "add_chunk d [TarItem n m k cs] = [TarItem n m k (cs @ [d])]"
| "add_chunk d [TarLink n t] = [TarLink n t]"
| "add_chunk d (x # y # zs) = x # add_chunk d (y # zs)"

text \<open>\<open>writeBlobBytes\<close>: chunks of at most 64 KiB into the entry that is open, i.e. the last one.\<close>

function writeBlobBytes :: "(nat \<Rightarrow> bool) \<Rightarrow> bytes \<Rightarrow> unit wop" where
  "writeBlobBytes w_ok blobArr =
     (if blobArr = [] then sret ()
      else sbind (w_step w_ok WriteContext) (\<lambda>_.
           sbind (w_step w_ok WriterError) (\<lambda>_.
           sbind (smod (\<lambda>st. st\<lparr>w_items := add_chunk (take cCopyBufferBytes blobArr) (w_items st)\<rparr>)) (\<lambda>_.
           writeBlobBytes w_ok (drop cCopyBufferBytes blobArr)))))"
  by pat_completeness auto
termination by (relation "measure (length \<circ> snd)") (auto simp: cCopyBufferBytes_def)

declare writeBlobBytes.simps [simp del]

record blob_script =
  bs_calls :: "bytes list"
  bs_return :: "bool list \<Rightarrow> bool"

text \<open>
  The callback checks run at each call: \<open>called\<close> is the flag, the results are collected for the
  source, which returns an error or not. A call after the return finds \<open>closedFlag\<close> and does
  nothing.
\<close>

definition use_callback :: "(nat \<Rightarrow> bool) \<Rightarrow> TreeEntryObj \<Rightarrow> u64 \<Rightarrow> (bytes \<Rightarrow> unit wop) \<Rightarrow> bool \<Rightarrow> bytes \<Rightarrow> unit wop" where
  "use_callback w_ok e maxPathBytes useFunc called blobArr =
     sbind (sguard called UsedMoreThanOnce) (\<lambda>_.
     sbind (w_step w_ok WriteContext) (\<lambda>_.
     sbind (sguard ((of_nat (length blobArr) :: u64) \<noteq> te_SizeBytes e) (BlobSizeMismatch (safeErrorPath (te_Path e)))) (\<lambda>_.
     sbind (slift (if te_Mode e = ModeSymlink
              then validateWriteSymlinkTarget (te_Path e) blobArr maxPathBytes else Inr ())) (\<lambda>_.
     useFunc blobArr))))"

fun use_calls :: "(bool \<Rightarrow> bytes \<Rightarrow> unit wop) \<Rightarrow> bool \<Rightarrow> bytes list \<Rightarrow> wstate \<Rightarrow> write_error option list \<times> wstate" where
  "use_calls cb called [] st = ([], st)"
| "use_calls cb called (b # bs) st =
     (let (r, st1) = cb called b st;
          (rs, st2) = use_calls cb True bs st1
      in ((case r of Inl e \<Rightarrow> Some e | Inr _ \<Rightarrow> None) # rs, st2))"

definition useEntryBlob :: "(nat \<Rightarrow> bool) \<Rightarrow> (HashObj \<Rightarrow> blob_script) \<Rightarrow> TreeEntryObj \<Rightarrow> u64 \<Rightarrow> (bytes \<Rightarrow> unit wop) \<Rightarrow> unit wop" where
  "useEntryBlob w_ok src e maxPathBytes useFunc st =
     (let script = src (te_BlobHash e);
          (results, st') = use_calls (use_callback w_ok e maxPathBytes useFunc) False (bs_calls script) st
      in if bs_return script (map (\<lambda>r. r = None) results) then
           (if bs_calls script = [] then (Inl NotUsed, st') else (Inr (), st'))
         else (Inl SourceError, st'))"

definition writeZipEntry :: "(nat \<Rightarrow> bool) \<Rightarrow> (HashObj \<Rightarrow> blob_script) \<Rightarrow> u64 \<Rightarrow> TreeEntryObj \<Rightarrow> unit wop" where
  "writeZipEntry w_ok src maxPathBytes e =
     useEntryBlob w_ok src e maxPathBytes (\<lambda>blobArr.
       sbind (w_step w_ok WriterError) (\<lambda>_.
       sbind (put_item (ZipItem (te_Path e) (te_Mode e) [])) (\<lambda>_. writeBlobBytes w_ok blobArr)))"

definition writeTarFileEntry :: "(nat \<Rightarrow> bool) \<Rightarrow> (HashObj \<Rightarrow> blob_script) \<Rightarrow> u64 \<Rightarrow> TreeEntryObj \<Rightarrow> unit wop" where
  "writeTarFileEntry w_ok src maxPathBytes e =
     sbind (slift (tarEntrySize e)) (\<lambda>sizeBytes.
     useEntryBlob w_ok src e maxPathBytes (\<lambda>blobArr.
       sbind (w_step w_ok WriterError) (\<lambda>_.
       sbind (put_item (TarItem (te_Path e) ModeFile sizeBytes [])) (\<lambda>_. writeBlobBytes w_ok blobArr))))"

definition writeTarSymlinkEntry :: "(nat \<Rightarrow> bool) \<Rightarrow> (HashObj \<Rightarrow> blob_script) \<Rightarrow> u64 \<Rightarrow> TreeEntryObj \<Rightarrow> unit wop" where
  "writeTarSymlinkEntry w_ok src maxPathBytes e =
     useEntryBlob w_ok src e maxPathBytes (\<lambda>blobArr.
       sbind (w_step w_ok WriterError) (\<lambda>_. put_item (TarLink (te_Path e) blobArr)))"

definition writeTarEntry :: "(nat \<Rightarrow> bool) \<Rightarrow> (HashObj \<Rightarrow> blob_script) \<Rightarrow> u64 \<Rightarrow> TreeEntryObj \<Rightarrow> unit wop" where
  "writeTarEntry w_ok src maxPathBytes e =
     (if te_Mode e = ModeSymlink then writeTarSymlinkEntry w_ok src maxPathBytes e
      else writeTarFileEntry w_ok src maxPathBytes e)"

fun write_all :: "(nat \<Rightarrow> bool) \<Rightarrow> (TreeEntryObj \<Rightarrow> unit wop) \<Rightarrow> TreeEntryObj list \<Rightarrow> unit wop" where
  "write_all w_ok wr [] = sret ()"
| "write_all w_ok wr (e # es) =
     sbind (w_step w_ok WriteContext) (\<lambda>_. sbind (wr e) (\<lambda>_. write_all w_ok wr es))"

definition writeZipArchive :: "(nat \<Rightarrow> bool) \<Rightarrow> (HashObj \<Rightarrow> blob_script) \<Rightarrow> u64 \<Rightarrow> TreeEntryObj list \<Rightarrow> unit wop" where
  "writeZipArchive w_ok src maxPathBytes es =
     sbind (write_all w_ok (writeZipEntry w_ok src maxPathBytes) es) (\<lambda>_.
     sbind (w_step w_ok WriteContext) (\<lambda>_. w_step w_ok WriterError))"

definition writeTarArchive :: "(nat \<Rightarrow> bool) \<Rightarrow> (HashObj \<Rightarrow> blob_script) \<Rightarrow> u64 \<Rightarrow> bool \<Rightarrow> TreeEntryObj list \<Rightarrow> unit wop" where
  "writeTarArchive w_ok src maxPathBytes gzipFlag es =
     sbind (write_all w_ok (writeTarEntry w_ok src maxPathBytes) es) (\<lambda>_.
     sbind (w_step w_ok WriteContext) (\<lambda>_.
     sbind (w_step w_ok WriterError) (\<lambda>_.
     if gzipFlag then sbind (w_step w_ok WriteContext) (\<lambda>_. w_step w_ok WriterError) else sret ())))"

definition archive_Write :: "(nat \<Rightarrow> bool) \<Rightarrow> LimitsObj \<Rightarrow> string \<Rightarrow> (HashObj \<Rightarrow> blob_script) \<Rightarrow> TreeEntryObj list \<Rightarrow> nat wop" where
  "archive_Write w_ok lim fmt src entries =
     sbind (sguard (\<not> validateFormat fmt) BadFormat) (\<lambda>_.
     sbind (slift (validateWriteEntries entries lim)) (\<lambda>(sortedArr, _).
     sbind (if fmt = FormatZip then writeZipArchive w_ok src (MaxArchivePathBytes lim) sortedArr
            else writeTarArchive w_ok src (MaxArchivePathBytes lim) (fmt = FormatTarGz) sortedArr) (\<lambda>_.
     sret (length sortedArr))))"

section \<open>The byte limit\<close>

lemma unat_word_of_small: "0 \<le> n \<Longrightarrow> n \<le> int m \<Longrightarrow> unat (word_of_int n :: u64) \<le> m"
proof -
  assume n: "0 \<le> n" "n \<le> int m"
  have "unat (word_of_int n :: u64) = nat (n mod 2 ^ 64)" by (simp add: unat_eq_nat_uint uint_word_of_int)
  also have "\<dots> \<le> nat n" using n by (intro nat_mono zmod_le_nonneg_dividend)
  finally show ?thesis using n by linarith
qed

lemma countingWriter_bound:
  assumes "cw_maxBytes cw > 0" "cw_writtenBytes cw \<le> cw_maxBytes cw" "len < 2 ^ 63"
    and "countingWriter_Write below len cw = ((n, err), cw')"
  shows "cw_writtenBytes cw' \<le> cw_maxBytes cw \<and> cw_maxBytes cw' = cw_maxBytes cw"
proof (cases "cw_writtenBytes cw \<ge> cw_maxBytes cw")
  case False
  let ?rem = "cw_maxBytes cw - cw_writtenBytes cw"
  let ?hit = "(of_nat len :: u64) > ?rem"
  let ?wl = "if ?hit then unat ?rem else len"
  obtain k failed where b: "below ?wl = (k, failed)" by force
  obtain v ov where s: "saturatingAdd (cw_writtenBytes cw) (word_of_int k) = (v, ov)" by force
  have rem: "unat ?rem = unat (cw_maxBytes cw) - unat (cw_writtenBytes cw)"
    using assms(2) by (rule unat_sub)
  have small: "unat (of_nat len :: u64) \<le> unat ?rem" if "\<not> ?hit" using that by (simp add: not_less word_le_nat_alt)
  show ?thesis
  proof (cases "0 < k \<and> k \<le> int ?wl")
    case True
    have "unat (word_of_int k :: u64) \<le> unat ?rem"
    proof (cases ?hit)
      case True
      with \<open>0 < k \<and> _\<close> unat_word_of_small [of k "unat ?rem"] show ?thesis by simp
    next
      case nh: False
      have "unat (of_nat len :: u64) = len" using assms(3) by (intro of_nat_inverse) simp_all
      then have "len \<le> unat ?rem" using small [OF nh] by simp
      moreover have "unat (word_of_int k :: u64) \<le> len"
        using unat_word_of_small [of k len] nh \<open>0 < k \<and> _\<close> by simp
      ultimately show ?thesis by linarith
    qed
    then have "unat v \<le> unat (cw_maxBytes cw)"
      using saturatingAdd_value [of "cw_writtenBytes cw" "word_of_int k"] s assms(2) rem
      by (simp add: word_le_nat_alt)
    then have "v \<le> cw_maxBytes cw" by (simp add: word_le_nat_alt)
    with assms False True b s show ?thesis
      by (auto simp: countingWriter_Write_def Let_def split: if_splits)
  qed (use assms False b s in \<open>auto simp: countingWriter_Write_def Let_def split: if_splits\<close>)
qed (use assms in \<open>auto simp: countingWriter_Write_def\<close>)

lemma countingWriter_complete:
  "countingWriter_Write below len cw = ((n, None), cw') \<Longrightarrow> n = int len"
  by (auto simp: countingWriter_Write_def Let_def split: if_splits prod.splits)

fun counted_writes :: "((nat \<Rightarrow> int \<times> bool) \<times> nat) list \<Rightarrow> countingWriterObj \<Rightarrow> countingWriterObj" where
  "counted_writes [] cw = cw"
| "counted_writes ((below, len) # ws) cw = counted_writes ws (snd (countingWriter_Write below len cw))"

lemma counted_writes_bound:
  "cw_maxBytes cw > 0 \<Longrightarrow> cw_writtenBytes cw \<le> cw_maxBytes cw \<Longrightarrow> \<forall>(below, len) \<in> set ws. len < 2 ^ 63 \<Longrightarrow>
   cw_writtenBytes (counted_writes ws cw) \<le> cw_maxBytes cw"
proof (induction ws arbitrary: cw)
  case (Cons w ws)
  obtain below len where w: "w = (below, len)" by force
  obtain n err cw' where c: "countingWriter_Write below len cw = ((n, err), cw')" by (metis surj_pair)
  have "len < 2 ^ 63" using Cons.prems(3) w by simp
  from countingWriter_bound [OF Cons.prems(1,2) this c] Cons.IH [of cw'] Cons.prems w c
  show ?case by auto
qed simp

section \<open>The written archive\<close>

definition propagates :: "(HashObj \<Rightarrow> blob_script) \<Rightarrow> bool" where
  "propagates src \<longleftrightarrow> (\<forall>h rs. bs_return (src h) rs \<longrightarrow> (\<forall>r \<in> set rs. r))"

fun item_name :: "write_item \<Rightarrow> string" where
  "item_name (ZipItem n _ _) = n" | "item_name (TarItem n _ _ _) = n" | "item_name (TarLink n _) = n"

fun item_data :: "write_item \<Rightarrow> bytes" where
  "item_data (ZipItem _ _ cs) = concat cs" | "item_data (TarItem _ _ _ cs) = concat cs"
| "item_data (TarLink _ t) = t"

fun is_open :: "write_item \<Rightarrow> bool" where
  "is_open (TarLink _ _) = False" | "is_open _ = True"

lemma add_chunk_last:
  "is_open it \<Longrightarrow> \<exists>it'. add_chunk d (xs @ [it]) = xs @ [it'] \<and> item_name it' = item_name it \<and>
     item_data it' = item_data it @ d \<and> is_open it'"
proof (induction xs)
  case Nil
  then show ?case by (cases it) auto
next
  case (Cons x xs)
  then obtain it' where it': "add_chunk d (xs @ [it]) = xs @ [it']" "item_name it' = item_name it"
    "item_data it' = item_data it @ d" "is_open it'" by blast
  moreover have "add_chunk d (x # xs @ [it]) = x # add_chunk d (xs @ [it])" by (cases xs) auto
  ultimately show ?case by auto
qed

lemma w_step_Inr: "w_step w_ok e st = (Inr x, st') \<longleftrightarrow> w_ok (w_calls st) \<and> st' = st\<lparr>w_calls := Suc (w_calls st)\<rparr>"
  by (auto simp: w_step_def)

lemma writeBlobBytes_step:
  "blobArr \<noteq> [] \<Longrightarrow> writeBlobBytes w_ok blobArr =
     sbind (w_step w_ok WriteContext) (\<lambda>_.
     sbind (w_step w_ok WriterError) (\<lambda>_.
     sbind (smod (\<lambda>st. st\<lparr>w_items := add_chunk (take cCopyBufferBytes blobArr) (w_items st)\<rparr>)) (\<lambda>_.
     writeBlobBytes w_ok (drop cCopyBufferBytes blobArr))))"
  by (subst writeBlobBytes.simps) simp

lemma writeBlobBytes_items:
  "writeBlobBytes w_ok blob st = (Inr u, st') \<Longrightarrow> w_items st = xs @ [it] \<Longrightarrow> is_open it \<Longrightarrow>
   \<exists>it'. w_items st' = xs @ [it'] \<and> item_name it' = item_name it \<and> item_data it' = item_data it @ blob"
proof (induction w_ok blob arbitrary: st it rule: writeBlobBytes.induct)
  case (1 w_ok blob)
  show ?case
  proof (cases "blob = []")
    case True
    with "1.prems" show ?thesis by (auto simp: writeBlobBytes.simps [of _ "[]"] sret_Inr)
  next
    case False
    obtain it1 where it1: "add_chunk (take cCopyBufferBytes blob) (w_items st) = xs @ [it1]"
      "item_name it1 = item_name it" "item_data it1 = item_data it @ take cCopyBufferBytes blob" "is_open it1"
      using add_chunk_last [OF "1.prems"(3)] "1.prems"(2) by metis
    from "1.prems"(1) False obtain i where
      rest: "writeBlobBytes w_ok (drop cCopyBufferBytes blob) (st\<lparr>w_calls := i, w_items := xs @ [it1]\<rparr>) = (Inr u, st')"
      unfolding writeBlobBytes_step [OF False] by (auto simp: op_Inr w_step_Inr it1(1))
    from "1.IH" [OF False rest] it1 show ?thesis by auto
  qed
qed

lemma use_calls_second:
  "cb True = (\<lambda>b. sfail UsedMoreThanOnce) \<Longrightarrow> use_calls cb True bs st = (rs, st') \<Longrightarrow>
   st' = st \<and> rs = replicate (length bs) (Some UsedMoreThanOnce)"
  by (induction bs arbitrary: rs) (auto simp: sfail_def split: prod.splits)

lemma use_callback_second: "use_callback w_ok e mp f True = (\<lambda>b. sfail UsedMoreThanOnce)"
  by (auto simp: use_callback_def sguard_def sbind_def sfail_def fun_eq_iff)

lemma useEntryBlob_once:
  assumes "propagates src" "useEntryBlob w_ok src e mp f st = (Inr u, st')"
  obtains b where "bs_calls (src (te_BlobHash e)) = [b]" "use_callback w_ok e mp f False b st = (Inr (), st')"
proof -
  let ?cb = "use_callback w_ok e mp f"
  obtain rs st1 where run: "use_calls ?cb False (bs_calls (src (te_BlobHash e))) st = (rs, st1)" by force
  with assms have ok: "\<forall>r \<in> set rs. r = None" and st': "st' = st1" and ne: "bs_calls (src (te_BlobHash e)) \<noteq> []"
    by (auto simp: useEntryBlob_def Let_def propagates_def split: if_splits) fastforce
  from ne obtain b bs where bs: "bs_calls (src (te_BlobHash e)) = b # bs" by (cases "bs_calls (src (te_BlobHash e))") auto
  obtain r s1 where r: "?cb False b st = (r, s1)" by force
  obtain rs2 s2 where rs2: "use_calls ?cb True bs s1 = (rs2, s2)" by force
  from use_calls_second [OF use_callback_second rs2] have s2: "s2 = s1"
    "rs2 = replicate (length bs) (Some UsedMoreThanOnce)" by auto
  from run bs r rs2 have "rs = (case r of Inl e \<Rightarrow> Some e | Inr _ \<Rightarrow> None) # rs2" "st1 = s2" by simp_all
  with ok s2 have "bs = []" "r = Inr ()" by (auto split: sum.splits)
  with that bs r s2 st' \<open>st1 = s2\<close> show thesis by auto
qed

text \<open>The item of an entry: its name and a blob of its digest that has the recorded size.\<close>

definition item_for :: "(HashObj \<Rightarrow> blob_script) \<Rightarrow> TreeEntryObj \<Rightarrow> write_item \<Rightarrow> bool" where
  "item_for src e it \<longleftrightarrow> item_name it = te_Path e \<and> bs_calls (src (te_BlobHash e)) = [item_data it] \<and>
     te_SizeBytes e = of_nat (length (item_data it)) \<and>
     (te_Mode e = ModeSymlink \<longrightarrow> SymlinkTargetWithinRoot (te_Path e) (item_data it) = Inr ())"

lemma use_callback_Inr:
  assumes "use_callback w_ok e mp f False b st = (Inr (), st')"
  obtains i where "f b (st\<lparr>w_calls := i\<rparr>) = (Inr (), st')" "te_SizeBytes e = of_nat (length b)"
    "te_Mode e = ModeSymlink \<Longrightarrow> SymlinkTargetWithinRoot (te_Path e) b = Inr ()"
  using assms by (auto simp: use_callback_def op_Inr w_step_Inr validateWriteSymlinkTarget_def result_simps
      split: if_splits)

lemma put_and_fill:
  assumes "sbind (w_step w_ok WriterError) (\<lambda>_. sbind (put_item it) (\<lambda>_. writeBlobBytes w_ok b)) st = (Inr u, st')"
    "is_open it" "item_data it = []"
  shows "\<exists>it'. w_items st' = w_items st @ [it'] \<and> item_name it' = item_name it \<and> item_data it' = b"
proof -
  from assms(1) obtain i where
    "writeBlobBytes w_ok b (st\<lparr>w_calls := i, w_items := w_items st @ [it]\<rparr>) = (Inr u, st')"
    by (auto simp: op_Inr w_step_Inr put_item_def)
  from writeBlobBytes_items [OF this _ assms(2)] assms(3) show ?thesis by auto
qed

lemma writeZipEntry_item:
  assumes "propagates src" "writeZipEntry w_ok src mp e st = (Inr u, st')"
  shows "\<exists>it. w_items st' = w_items st @ [it] \<and> item_for src e it"
proof -
  from useEntryBlob_once [OF assms(1) assms(2) [unfolded writeZipEntry_def]] obtain b where
    b: "bs_calls (src (te_BlobHash e)) = [b]" and cb: "use_callback w_ok e mp (\<lambda>blobArr.
       sbind (w_step w_ok WriterError) (\<lambda>_. sbind (put_item (ZipItem (te_Path e) (te_Mode e) [])) (\<lambda>_.
         writeBlobBytes w_ok blobArr))) False b st = (Inr (), st')" .
  from use_callback_Inr [OF cb] obtain i where
    f: "sbind (w_step w_ok WriterError) (\<lambda>_. sbind (put_item (ZipItem (te_Path e) (te_Mode e) [])) (\<lambda>_. writeBlobBytes w_ok b))
        (st\<lparr>w_calls := i\<rparr>) = (Inr (), st')"
    and ok: "te_SizeBytes e = of_nat (length b)"
      "te_Mode e = ModeSymlink \<Longrightarrow> SymlinkTargetWithinRoot (te_Path e) b = Inr ()" by metis
  from put_and_fill [OF f] obtain it' where "w_items st' = w_items st @ [it']"
    "item_name it' = te_Path e" "item_data it' = b" by auto
  with b ok show ?thesis by (auto simp: item_for_def)
qed

lemma writeTarEntry_item:
  assumes "propagates src" "writeTarEntry w_ok src mp e st = (Inr u, st')"
  shows "\<exists>it. w_items st' = w_items st @ [it] \<and> item_for src e it"
proof (cases "te_Mode e = ModeSymlink")
  case True
  then have "useEntryBlob w_ok src e mp (\<lambda>blobArr.
      sbind (w_step w_ok WriterError) (\<lambda>_. put_item (TarLink (te_Path e) blobArr))) st = (Inr u, st')"
    using assms(2) by (simp add: writeTarEntry_def writeTarSymlinkEntry_def)
  from useEntryBlob_once [OF assms(1) this] obtain b where
    b: "bs_calls (src (te_BlobHash e)) = [b]" and cb: "use_callback w_ok e mp (\<lambda>blobArr.
      sbind (w_step w_ok WriterError) (\<lambda>_. put_item (TarLink (te_Path e) blobArr))) False b st = (Inr (), st')" .
  from use_callback_Inr [OF cb] obtain i where
    f: "sbind (w_step w_ok WriterError) (\<lambda>_. put_item (TarLink (te_Path e) b)) (st\<lparr>w_calls := i\<rparr>) = (Inr (), st')"
    and ok: "te_SizeBytes e = of_nat (length b)"
      "te_Mode e = ModeSymlink \<Longrightarrow> SymlinkTargetWithinRoot (te_Path e) b = Inr ()" by metis
  from f have "w_items st' = w_items st @ [TarLink (te_Path e) b]"
    by (auto simp: op_Inr w_step_Inr put_item_def)
  with b ok show ?thesis by (auto simp: item_for_def)
next
  case False
  then obtain k where "useEntryBlob w_ok src e mp (\<lambda>blobArr.
       sbind (w_step w_ok WriterError) (\<lambda>_. sbind (put_item (TarItem (te_Path e) ModeFile k [])) (\<lambda>_.
         writeBlobBytes w_ok blobArr))) st = (Inr u, st')"
    using assms(2) by (auto simp: writeTarEntry_def writeTarFileEntry_def op_Inr)
  from useEntryBlob_once [OF assms(1) this] obtain b where
    b: "bs_calls (src (te_BlobHash e)) = [b]" and cb: "use_callback w_ok e mp (\<lambda>blobArr.
       sbind (w_step w_ok WriterError) (\<lambda>_. sbind (put_item (TarItem (te_Path e) ModeFile k [])) (\<lambda>_.
         writeBlobBytes w_ok blobArr))) False b st = (Inr (), st')" .
  from use_callback_Inr [OF cb] obtain i where
    f: "sbind (w_step w_ok WriterError) (\<lambda>_. sbind (put_item (TarItem (te_Path e) ModeFile k [])) (\<lambda>_. writeBlobBytes w_ok b))
        (st\<lparr>w_calls := i\<rparr>) = (Inr (), st')"
    and ok: "te_SizeBytes e = of_nat (length b)"
      "te_Mode e = ModeSymlink \<Longrightarrow> SymlinkTargetWithinRoot (te_Path e) b = Inr ()" by metis
  from put_and_fill [OF f] obtain it' where "w_items st' = w_items st @ [it']"
    "item_name it' = te_Path e" "item_data it' = b" by auto
  with b ok show ?thesis by (auto simp: item_for_def)
qed

lemma write_all_items:
  assumes "\<And>e st u st'. wr e st = (Inr u, st') \<Longrightarrow> \<exists>it. w_items st' = w_items st @ [it] \<and> Q e it"
    and "write_all w_ok wr es st = (Inr u, st')"
  shows "\<exists>its. w_items st' = w_items st @ its \<and> list_all2 Q es its"
  using assms(2)
proof (induction es arbitrary: st)
  case (Cons e es)
  then obtain i s1 u' where wr: "wr e (st\<lparr>w_calls := i\<rparr>) = (Inr u', s1)" and rest: "write_all w_ok wr es s1 = (Inr u, st')"
    by (auto simp: op_Inr w_step_Inr)
  from assms(1) [OF wr] obtain it where it: "w_items s1 = w_items st @ [it]" "Q e it" by auto
  from Cons.IH [OF rest] obtain its where "w_items st' = w_items s1 @ its" "list_all2 Q es its" by blast
  with it show ?case by (intro exI [of _ "it # its"]) simp
qed (simp add: sret_Inr)

lemma write_check_safe:
  "write_check lim S u es = Inr v \<Longrightarrow>
   (\<forall>e \<in> set es. CleanArchiveEntryPath (te_Path e) = Inr (te_Path e) \<and> te_Path e \<notin> S \<and>
      (\<forall>p \<in> S. \<not> is_parent p (te_Path e)) \<and>
      (MaxArchiveFileBytes lim > 0 \<longrightarrow> te_SizeBytes e \<le> MaxArchiveFileBytes lim)) \<and>
   sorted_wrt (\<lambda>a b. te_Path a \<noteq> te_Path b \<and> \<not> is_parent (te_Path a) (te_Path b)) es"
proof (induction es arbitrary: S u)
  case (Cons e es)
  obtain n ov where sat: "saturatingAdd u (te_SizeBytes e) = (n, ov)" by force
  from Cons.prems have e: "CleanArchiveEntryPath (te_Path e) = Inr (te_Path e)" "te_Path e \<notin> S"
    "\<not> seenParentPath S (te_Path e)"
    "MaxArchiveFileBytes lim > 0 \<longrightarrow> te_SizeBytes e \<le> MaxArchiveFileBytes lim"
    and rest: "write_check lim (insert (te_Path e) S) n es = Inr v"
    by (auto simp: result_simps validateWriteEntryPath_def sat Let_def not_less
        simp flip: hasSeenParent_None split: option.splits)
  from Cons.IH [OF rest] e show ?case by (auto simp: seenParentPath_iff)
qed simp

lemma validateWriteEntries_safe:
  assumes "validateWriteEntries entries lim = Inr (es, v)"
  shows "es = sort_key te_Path entries" "distinct (map te_Path es)"
    "\<forall>e \<in> set es. CleanArchiveEntryPath (te_Path e) = Inr (te_Path e)"
proof -
  from assms have c: "write_check lim {} 0 (sort_key te_Path entries) = Inr v" and es: "es = sort_key te_Path entries"
    by (auto simp: validateWriteEntries_def result_simps Let_def)
  show "es = sort_key te_Path entries" by (rule es)
  have "sorted_wrt (\<lambda>a b. te_Path a \<noteq> te_Path b) es"
    using write_check_safe [OF c] by (auto simp: es intro: sorted_wrt_mono_rel [rotated])
  then show "distinct (map te_Path es)" by (induction es) auto
  show "\<forall>e \<in> set es. CleanArchiveEntryPath (te_Path e) = Inr (te_Path e)"
    using write_check_safe [OF c] by (auto simp: es)
qed

lemma archive_Write_items:
  assumes p: "propagates src" and run: "archive_Write w_ok lim fmt src entries st = (Inr n, st')"
  shows "\<exists>its. w_items st' = w_items st @ its \<and> list_all2 (item_for src) (sort_key te_Path entries) its \<and>
     n = length entries \<and> distinct (map te_Path entries)"
proof -
  let ?es = "sort_key te_Path entries" and ?mp = "MaxArchivePathBytes lim"
  from run obtain es v st1 u where val0: "validateWriteEntries entries lim = Inr (es, v)" and n0: "n = length es"
    and w0: "(if fmt = FormatZip then writeZipArchive w_ok src ?mp es
             else writeTarArchive w_ok src ?mp (fmt = FormatTarGz) es) st = (Inr u, st1)" and st': "st' = st1"
    unfolding archive_Write_def op_Inr by (auto simp: op_Inr)
  note es = validateWriteEntries_safe(1) [OF val0]
  note val = val0 [unfolded es] and n = n0 [unfolded es] and w = w0 [unfolded es]
  have "\<exists>its. w_items st1 = w_items st @ its \<and> list_all2 (item_for src) ?es its"
  proof (cases "fmt = FormatZip")
    case True
    with w obtain s u' where "write_all w_ok (writeZipEntry w_ok src ?mp) ?es st = (Inr u', s)"
      "w_items st1 = w_items s"
      by (auto simp: writeZipArchive_def op_Inr w_step_Inr)
    from write_all_items [OF writeZipEntry_item [OF p] this(1)] this(2) show ?thesis by simp
  next
    case False
    with w obtain s u' where "write_all w_ok (writeTarEntry w_ok src ?mp) ?es st = (Inr u', s)"
      "w_items st1 = w_items s"
      by (auto simp: writeTarArchive_def op_Inr w_step_Inr split: if_splits)
    from write_all_items [OF writeTarEntry_item [OF p] this(1)] this(2) show ?thesis by simp
  qed
  moreover have "distinct (map te_Path entries)"
  proof -
    have "mset (map te_Path ?es) = mset (map te_Path entries)" by simp
    then show ?thesis using validateWriteEntries_safe(2) [OF val] by (metis mset_eq_imp_distinct_iff)
  qed
  ultimately show ?thesis using n st' by auto
qed

section \<open>Properties\<close>

text \<open>
  For every sequence of writes and every behaviour of the writer below, the counting writer never
  lets more than the configured number of bytes through.
\<close>

lemma counting_writer_never_exceeds_limit:
  assumes "cw_maxBytes cw > 0" "cw_writtenBytes cw \<le> cw_maxBytes cw" "\<forall>(below, len) \<in> set ws. len < 2 ^ 63"
  shows "cw_writtenBytes (counted_writes ws cw) \<le> cw_maxBytes cw"
  using assms by (rule counted_writes_bound)

text \<open>
  C36: a successful write contains exactly the entries of the tree, in path order and each once: the
  item has the entry's path and the blob the source served for the entry's digest, of the recorded
  size, and the target of a symlink stays inside the archive. The source only has to report an error
  when the use function reported one.
\<close>

theorem write_contains_exactly_the_tree:
  assumes "propagates src" "archive_Write w_ok lim fmt src entries \<lparr>w_items = [], w_calls = 0\<rparr> = (Inr n, st)"
  shows "list_all2 (\<lambda>e it. item_name it = te_Path e \<and> bs_calls (src (te_BlobHash e)) = [item_data it] \<and>
        te_SizeBytes e = of_nat (length (item_data it)) \<and>
        (te_Mode e = ModeSymlink \<longrightarrow> SymlinkTargetWithinRoot (te_Path e) (item_data it) = Inr ()))
      (sort_key te_Path entries) (w_items st) \<and> n = length entries \<and> distinct (map te_Path entries)"
  using archive_Write_items [OF assms] by (auto simp: item_for_def [abs_def])

definition sample_source_blobs :: "HashObj \<Rightarrow> blob_script" where
  "sample_source_blobs h = \<lparr>bs_calls = [BytesCopy h], bs_return = (\<lambda>rs. list_all id rs)\<rparr>"

definition sample_entry :: TreeEntryObj where
  "sample_entry = \<lparr>te_Path = ''a.txt'', te_Mode = ModeFile, te_SizeBytes = 24, te_BlobHash = hash_copy ''x''\<rparr>"

theorem write_contains_exactly_the_tree_witness:
  "\<exists>st. archive_Write (\<lambda>_. True) sample_limits ''tar.gz'' sample_source_blobs [sample_entry]
      \<lparr>w_items = [], w_calls = 0\<rparr> = (Inr 1, st) \<and> map item_name (w_items st) = [''a.txt'']"
proof -
  have p: "propagates sample_source_blobs"
    by (simp add: propagates_def sample_source_blobs_def list_all_iff)
  have "fst (archive_Write (\<lambda>_. True) sample_limits ''tar.gz'' sample_source_blobs [sample_entry]
      \<lparr>w_items = [], w_calls = 0\<rparr>) = Inr 1"
    by code_simp
  then obtain st where r: "archive_Write (\<lambda>_. True) sample_limits ''tar.gz'' sample_source_blobs [sample_entry]
      \<lparr>w_items = [], w_calls = 0\<rparr> = (Inr 1, st)" by (metis prod.collapse)
  from write_contains_exactly_the_tree [OF p r] r show ?thesis
    by (auto simp: sample_entry_def list_all2_Cons1)
qed

end
