(* ===== verification/Util_Map.thy ===== *)
theory Util_Map
  imports Prelude "HOL-Library.AList"
begin

text \<open>
  The two-generation map of \<open>mod/internal/util/genmap.go\<close> and the FNV-1a hash of
  \<open>mod/internal/util/hash.go\<close> that picks shards.

  A Go map whose size or contents matter is an association list with distinct keys; the
  order of the list is not observable. The locale \<open>lossy_map\<close> is the contract callers
  rely on (a map that may forget, but never invents or resurrects a value); it is
  interpreted on the model of the two-generation map.
\<close>

section \<open>FNV-1a\<close>

definition fnv_step :: "u32 \<Rightarrow> char \<Rightarrow> u32" where
  "fnv_step hashValue c = (hashValue XOR of_nat (code_of c)) * 16777619"

definition FNV32a :: "string \<Rightarrow> u32" where
  "FNV32a s = foldl fnv_step 2166136261 s"

section \<open>Two generations\<close>

record 'v GenMapObj =
  curMap :: "(string \<times> 'v) list"
  prevMap :: "(string \<times> 'v) list"
  capVal :: int

definition NewGenMap :: "int \<Rightarrow> 'v GenMapObj" where
  "NewGenMap cap = \<lparr>curMap = [], prevMap = [], capVal = (if cap < 1 then 1 else cap)\<rparr>"

definition GenMap_Get :: "string \<Rightarrow> 'v GenMapObj \<Rightarrow> 'v option \<times> 'v GenMapObj" where
  "GenMap_Get key obj =
     (case map_of (curMap obj) key of
        Some value \<Rightarrow> (Some value, obj)
      | None \<Rightarrow>
          (case map_of (prevMap obj) key of
             Some value \<Rightarrow> (Some value, obj\<lparr>curMap := AList.update key value (curMap obj)\<rparr>)
           | None \<Rightarrow> (None, obj)))"

definition GenMap_Delete :: "string \<Rightarrow> 'v GenMapObj \<Rightarrow> 'v GenMapObj" where
  "GenMap_Delete key obj =
     obj\<lparr>curMap := AList.delete key (curMap obj), prevMap := AList.delete key (prevMap obj)\<rparr>"

definition GenMap_Put :: "string \<Rightarrow> 'v \<Rightarrow> 'v GenMapObj \<Rightarrow> 'v GenMapObj" where
  "GenMap_Put key value obj =
     (let obj' = (if int (length (curMap obj)) \<ge> capVal obj
                  then obj\<lparr>prevMap := curMap obj, curMap := []\<rparr> else obj)
      in obj'\<lparr>curMap := AList.update key value (curMap obj')\<rparr>)"

definition genmap_view :: "'v GenMapObj \<Rightarrow> string \<Rightarrow> 'v option" where
  "genmap_view obj key =
     (case map_of (curMap obj) key of Some v \<Rightarrow> Some v | None \<Rightarrow> map_of (prevMap obj) key)"

definition genmap_ok :: "'v GenMapObj \<Rightarrow> bool" where
  "genmap_ok obj \<longleftrightarrow> distinct (map fst (curMap obj)) \<and> distinct (map fst (prevMap obj)) \<and> 1 \<le> capVal obj"

section \<open>The contract: a map that may forget\<close>

datatype 'v map_op = OpGet string | OpPut string 'v | OpDelete string

text \<open>The reference: the last value put and not deleted since.\<close>

fun ref_step :: "(string \<rightharpoonup> 'v) \<Rightarrow> 'v map_op \<Rightarrow> (string \<rightharpoonup> 'v)" where
  "ref_step a (OpGet k) = a"
| "ref_step a (OpPut k v) = a(k \<mapsto> v)"
| "ref_step a (OpDelete k) = a(k := None)"

fun map_step :: "(string \<Rightarrow> 'm \<Rightarrow> 'v option \<times> 'm) \<Rightarrow> (string \<Rightarrow> 'v \<Rightarrow> 'm \<Rightarrow> 'm) \<Rightarrow> (string \<Rightarrow> 'm \<Rightarrow> 'm) \<Rightarrow>
    'm \<Rightarrow> 'v map_op \<Rightarrow> 'm" where
  "map_step get put del m (OpGet k) = snd (get k m)"
| "map_step get put del m (OpPut k v) = put k v m"
| "map_step get put del m (OpDelete k) = del k m"

locale lossy_map =
  fixes get :: "string \<Rightarrow> 'm \<Rightarrow> 'v option \<times> 'm"
    and put :: "string \<Rightarrow> 'v \<Rightarrow> 'm \<Rightarrow> 'm"
    and del :: "string \<Rightarrow> 'm \<Rightarrow> 'm"
    and view :: "'m \<Rightarrow> string \<Rightarrow> 'v option"
    and ok :: "'m \<Rightarrow> bool"
  assumes get_view: "fst (get k m) = view m k"
    and view_get: "view (snd (get k m)) = view m"
    and view_put_same: "view (put k v m) k = Some v"
    and view_put_other: "j \<noteq> k \<Longrightarrow> view (put k v m) j = Some w \<Longrightarrow> view m j = Some w"
    and view_del: "ok m \<Longrightarrow> view (del k m) = (view m)(k := None)"
    and ok_get: "ok m \<Longrightarrow> ok (snd (get k m))"
    and ok_put: "ok m \<Longrightarrow> ok (put k v m)"
    and ok_del: "ok m \<Longrightarrow> ok (del k m)"
begin

lemma step_sound:
  assumes "ok m" "view m \<subseteq>\<^sub>m a"
  shows "ok (map_step get put del m opn) \<and> view (map_step get put del m opn) \<subseteq>\<^sub>m ref_step a opn"
proof (cases opn)
  case (OpGet k)
  with assms show ?thesis by (simp add: ok_get view_get)
next
  case (OpPut k v)
  have "view (put k v m) \<subseteq>\<^sub>m a(k \<mapsto> v)"
    unfolding map_le_def
  proof
    fix j assume "j \<in> dom (view (put k v m))"
    then obtain w where w: "view (put k v m) j = Some w" by blast
    show "view (put k v m) j = (a(k \<mapsto> v)) j"
    proof (cases "j = k")
      case True
      then show ?thesis by (simp add: view_put_same)
    next
      case False
      with w have "view m j = Some w" using view_put_other by blast
      with assms(2) w False show ?thesis by (auto simp: map_le_def dom_def)
    qed
  qed
  with OpPut assms show ?thesis by (simp add: ok_put)
next
  case (OpDelete k)
  with assms show ?thesis by (auto simp: ok_del view_del map_le_def)
qed

lemma run_sound:
  assumes "ok m" "view m \<subseteq>\<^sub>m a"
  shows "ok (foldl (map_step get put del) m ops) \<and>
         view (foldl (map_step get put del) m ops) \<subseteq>\<^sub>m foldl ref_step a ops"
  using assms
proof (induction ops arbitrary: m a)
  case (Cons opn ops)
  from step_sound [OF Cons.prems, of opn]
  have "ok (map_step get put del m opn)" "view (map_step get put del m opn) \<subseteq>\<^sub>m ref_step a opn"
    by auto
  from Cons.IH [OF this] show ?case by simp
qed simp

lemma get_after_run:
  assumes "ok m" "view m \<subseteq>\<^sub>m a" "fst (get k (foldl (map_step get put del) m ops)) = Some v"
  shows "foldl ref_step a ops k = Some v"
proof -
  have "view (foldl (map_step get put del) m ops) \<subseteq>\<^sub>m foldl ref_step a ops"
    using run_sound [OF assms(1,2)] by simp
  with assms(3) show ?thesis by (auto simp: get_view map_le_def dom_def)
qed

end

section \<open>The two-generation map keeps the contract\<close>

lemma genmap_view_simps:
  "genmap_view (snd (GenMap_Get k obj)) = genmap_view obj"
  "fst (GenMap_Get k obj) = genmap_view obj k"
  by (auto simp: genmap_view_def GenMap_Get_def fun_eq_iff update_conv split: option.splits)

lemma genmap_ok_ops [simp]:
  "genmap_ok (NewGenMap c)"
  "genmap_ok obj \<Longrightarrow> genmap_ok (snd (GenMap_Get k obj))"
  "genmap_ok obj \<Longrightarrow> genmap_ok (GenMap_Put k v obj)"
  "genmap_ok obj \<Longrightarrow> genmap_ok (GenMap_Delete k obj)"
  by (auto simp: genmap_ok_def NewGenMap_def GenMap_Get_def GenMap_Put_def GenMap_Delete_def Let_def
      distinct_update distinct_delete split: option.splits)

interpretation gm: lossy_map GenMap_Get GenMap_Put GenMap_Delete genmap_view genmap_ok
proof unfold_locales
  fix j k v w and m :: "'a GenMapObj"
  show "genmap_view (GenMap_Put k v m) k = Some v"
    by (simp add: genmap_view_def GenMap_Put_def Let_def update_conv)
  show "j \<noteq> k \<Longrightarrow> genmap_view (GenMap_Put k v m) j = Some w \<Longrightarrow> genmap_view m j = Some w"
    by (auto simp: genmap_view_def GenMap_Put_def Let_def update_conv split: option.splits if_splits)
next
  fix k and m :: "'a GenMapObj"
  show "genmap_view (GenMap_Delete k m) = (genmap_view m)(k := None)"
    by (auto simp: genmap_view_def GenMap_Delete_def delete_conv fun_eq_iff split: option.splits)
qed (simp_all add: genmap_view_simps)

section \<open>How long a put is remembered, and how large the map grows\<close>

lemma length_alist_update: "length (AList.update k v xs) \<le> Suc (length xs)"
  by (induction xs) auto

lemma update_append_fresh: "k \<notin> fst ` set xs \<Longrightarrow> AList.update k v xs = xs @ [(k, v)]"
  by (induction xs) auto

lemma put_rotates:
  "capVal m \<le> int (length (curMap m)) \<Longrightarrow>
   GenMap_Put k v m = m\<lparr>prevMap := curMap m, curMap := [(k, v)]\<rparr>"
  by (simp add: GenMap_Put_def)

lemma put_fills:
  "\<not> capVal m \<le> int (length (curMap m)) \<Longrightarrow>
   GenMap_Put k v m = m\<lparr>curMap := AList.update k v (curMap m)\<rparr>"
  by (simp add: GenMap_Put_def)

lemma put_lengths:
  "length (curMap (GenMap_Put k v m)) \<le>
     (if int (length (curMap m)) \<ge> capVal m then 1 else Suc (length (curMap m)))"
  "capVal (GenMap_Put k v m) = capVal m"
  using length_alist_update [of k v] by (auto simp: GenMap_Put_def Let_def)

lemma puts_retain_cur:
  assumes "map_of (curMap m) k = Some v" "k \<notin> fst ` set kvs"
    "length kvs + length (curMap m) \<le> nat (capVal m)"
  shows "genmap_view (foldl (\<lambda>m (j, w). GenMap_Put j w m) m kvs) k = Some v"
  using assms
proof (induction kvs arbitrary: m)
  case Nil
  then show ?case by (simp add: genmap_view_def)
next
  case (Cons jw kvs)
  obtain j w where jw: "jw = (j, w)" by fastforce
  have nr: "\<not> int (length (curMap m)) \<ge> capVal m" using Cons.prems by auto
  then have "map_of (curMap (GenMap_Put j w m)) k = Some v"
    using Cons.prems jw by (auto simp: GenMap_Put_def Let_def update_conv)
  moreover have "length (curMap (GenMap_Put j w m)) \<le> Suc (length (curMap m))"
    "capVal (GenMap_Put j w m) = capVal m"
    using put_lengths [of j w m] nr by auto
  ultimately show ?case using Cons jw by simp
qed

lemma puts_retain_prev:
  assumes "genmap_view m k = Some v" "k \<notin> fst ` set kvs"
    "length kvs + length (curMap m) \<le> nat (capVal m)"
  shows "genmap_view (foldl (\<lambda>m (j, w). GenMap_Put j w m) m kvs) k = Some v"
  using assms
proof (induction kvs arbitrary: m)
  case (Cons jw kvs)
  obtain j w where jw: "jw = (j, w)" by fastforce
  have nr: "\<not> int (length (curMap m)) \<ge> capVal m" using Cons.prems by auto
  then have "genmap_view (GenMap_Put j w m) k = Some v"
    using Cons.prems jw by (auto simp: genmap_view_def GenMap_Put_def Let_def update_conv split: option.splits)
  moreover have "length (curMap (GenMap_Put j w m)) \<le> Suc (length (curMap m))"
    "capVal (GenMap_Put j w m) = capVal m"
    using put_lengths [of j w m] nr by auto
  ultimately show ?case using Cons jw by simp
qed simp

lemma puts_retain:
  assumes ok: "genmap_ok m" and k: "map_of (curMap m) k = Some v" "k \<notin> fst ` set kvs"
    and len: "length kvs \<le> nat (capVal m)"
  shows "genmap_view (foldl (\<lambda>m (j, w). GenMap_Put j w m) m kvs) k = Some v"
  using assms
proof (induction kvs arbitrary: m)
  case Nil
  then show ?case by (simp add: genmap_view_def)
next
  case (Cons jw kvs)
  obtain j w where jw: "jw = (j, w)" by fastforce
  let ?m = "GenMap_Put j w m"
  show ?case
  proof (cases "int (length (curMap m)) \<ge> capVal m")
    case True
    then have "genmap_view ?m k = Some v" "length (curMap ?m) \<le> 1" "capVal ?m = capVal m"
      using Cons.prems jw put_lengths [of j w m]
      by (auto simp: genmap_view_def GenMap_Put_def Let_def update_conv)
    then show ?thesis using Cons.prems jw puts_retain_prev [of ?m k v kvs] by simp
  next
    case False
    then have "map_of (curMap ?m) k = Some v" "capVal ?m = capVal m"
      using Cons.prems jw by (auto simp: GenMap_Put_def Let_def update_conv)
    moreover have "genmap_ok ?m" using Cons.prems(1) by simp
    ultimately show ?thesis using Cons jw by simp
  qed
qed

abbreviation genmap_run :: "'v GenMapObj \<Rightarrow> 'v map_op list \<Rightarrow> 'v GenMapObj" where
  "genmap_run \<equiv> foldl (map_step GenMap_Get GenMap_Put GenMap_Delete)"

lemma gets_promote:
  "set ks \<subseteq> fst ` set (prevMap m) \<Longrightarrow>
   fst ` set (curMap (genmap_run m (map OpGet ks))) = fst ` set (curMap m) \<union> set ks \<and>
   prevMap (genmap_run m (map OpGet ks)) = prevMap m \<and>
   capVal (genmap_run m (map OpGet ks)) = capVal m"
proof (induction ks arbitrary: m)
  case (Cons k ks)
  let ?m = "snd (GenMap_Get k m)"
  obtain w where w: "map_of (prevMap m) k = Some w"
    using Cons.prems by (metis insert_subset list.simps(15) map_of_eq_None_iff option.exhaust)
  then have m: "fst ` set (curMap ?m) = insert k (fst ` set (curMap m))" "prevMap ?m = prevMap m"
    "capVal ?m = capVal m"
    by (auto simp: GenMap_Get_def dom_update split: option.splits dest: map_of_SomeD)
      (metis dom_map_of_conv_image_fst domI)
  with Cons show ?case by auto
qed simp

lemma card_keys: "distinct (map fst xs) \<Longrightarrow> card (fst ` set xs) = length xs"
  by (metis distinct_card length_map set_map)

lemma genmap_run_ok: "genmap_ok m \<Longrightarrow> genmap_ok (genmap_run m ops)"
  using gm.run_sound [of m "genmap_view m" ops] by simp

text \<open>Promotions fill the current generation past its capacity, and rotation keeps it whole.\<close>

lemma genmap_grow_step:
  assumes "genmap_ok m" "curMap m = [(k, v)]" "k \<notin> fst ` set (prevMap m)"
    "nat (capVal m) \<le> Suc (length (prevMap m))"
  shows "\<exists>ops j. let m' = genmap_run m ops in
     genmap_ok m' \<and> curMap m' = [(j, v)] \<and> j \<notin> fst ` set (prevMap m') \<and>
     length (prevMap m') = Suc (length (prevMap m)) \<and> capVal m' = capVal m"
proof -
  let ?ks = "map fst (prevMap m)" and ?m1 = "genmap_run m (map OpGet (map fst (prevMap m)))"
  have ok1: "genmap_ok ?m1" using assms(1) by (rule genmap_run_ok)
  have keys1: "fst ` set (curMap ?m1) = insert k (fst ` set (prevMap m))" "capVal ?m1 = capVal m"
    using gets_promote [of ?ks m] assms(2) by auto
  have "card (fst ` set (curMap ?m1)) = Suc (length (prevMap m))"
    unfolding keys1 using assms(1,3) by (simp add: card_keys genmap_ok_def)
  then have len1: "length (curMap ?m1) = Suc (length (prevMap m))"
    using ok1 card_keys [of "curMap ?m1"] unfolding genmap_ok_def by metis
  obtain j where j: "j \<notin> fst ` set (curMap ?m1)"
    using ex_new_if_finite [of "fst ` set (curMap ?m1)"] infinite_UNIV_listI by blast
  let ?m2 = "genmap_run m (map OpGet ?ks @ [OpPut j v])"
  have full: "int (length (curMap ?m1)) \<ge> capVal ?m1"
    using assms(1,4) len1 keys1(2) by (simp add: genmap_ok_def)
  have "genmap_ok ?m2" using assms(1) by (rule genmap_run_ok)
  moreover have "curMap ?m2 = [(j, v)]" "prevMap ?m2 = curMap ?m1" "capVal ?m2 = capVal m"
    using full keys1(2) by (simp_all add: put_rotates)
  ultimately show ?thesis using j len1 unfolding Let_def by metis
qed

lemma genmap_grow:
  fixes v :: 'v
  assumes "1 \<le> cap"
  shows "\<exists>ops k. let m = genmap_run (NewGenMap cap) ops in
     genmap_ok m \<and> curMap m = [(k, v)] \<and> k \<notin> fst ` set (prevMap m) \<and>
     length (prevMap m) = nat cap + n \<and> capVal m = cap"
proof (induction n)
  case 0
  have fill: "i \<le> nat cap \<Longrightarrow> \<exists>ops :: 'v map_op list. let m = genmap_run (NewGenMap cap) ops in
      prevMap m = [] \<and> length (curMap m) = i \<and> capVal m = cap" for i
  proof (induction i)
    case 0
    then show ?case using assms by (intro exI [of _ "[]"]) (simp add: NewGenMap_def)
  next
    case (Suc i)
    then obtain ops :: "'v map_op list" where "let m = genmap_run (NewGenMap cap) ops in
      prevMap m = [] \<and> length (curMap m) = i \<and> capVal m = cap" by auto
    then have m: "prevMap (genmap_run (NewGenMap cap) ops) = []"
      "length (curMap (genmap_run (NewGenMap cap) ops)) = i" "capVal (genmap_run (NewGenMap cap) ops) = cap"
      by (simp_all add: Let_def)
    let ?m = "genmap_run (NewGenMap cap) ops"
    obtain j where j: "j \<notin> fst ` set (curMap ?m)"
      using ex_new_if_finite [of "fst ` set (curMap ?m)"] infinite_UNIV_listI by blast
    then have "length (AList.update j v (curMap ?m)) = Suc i"
      using m(2) by (simp add: update_append_fresh)
    moreover have "\<not> int i \<ge> cap" using Suc.prems by linarith
    ultimately show ?case using m
      by (intro exI [of _ "ops @ [OpPut j v]"]) (simp add: put_fills Let_def)
  qed
  obtain ops :: "'v map_op list" where ops: "prevMap (genmap_run (NewGenMap cap) ops) = []"
    "length (curMap (genmap_run (NewGenMap cap) ops)) = nat cap" "capVal (genmap_run (NewGenMap cap) ops) = cap"
    using fill [of "nat cap"] by (auto simp: Let_def)
  let ?m = "genmap_run (NewGenMap cap) ops"
  obtain j where j: "j \<notin> fst ` set (curMap ?m)"
    using ex_new_if_finite [of "fst ` set (curMap ?m)"] infinite_UNIV_listI by blast
  let ?m2 = "genmap_run (NewGenMap cap) (ops @ [OpPut j v])"
  have "genmap_ok ?m2" by (rule genmap_run_ok) simp
  moreover have "curMap ?m2 = [(j, v)]" "prevMap ?m2 = curMap ?m" "capVal ?m2 = cap"
    using ops assms by (simp_all add: put_rotates)
  ultimately show ?case using j ops(2) unfolding Let_def by (metis add.right_neutral)
next
  case (Suc n)
  then obtain ops k where h: "let m = genmap_run (NewGenMap cap) ops in
     genmap_ok m \<and> curMap m = [(k, v)] \<and> k \<notin> fst ` set (prevMap m) \<and>
     length (prevMap m) = nat cap + n \<and> capVal m = cap" by blast
  obtain ops' j where "let m' = genmap_run (genmap_run (NewGenMap cap) ops) ops' in
     genmap_ok m' \<and> curMap m' = [(j, v)] \<and> j \<notin> fst ` set (prevMap m') \<and>
     length (prevMap m') = Suc (length (prevMap (genmap_run (NewGenMap cap) ops))) \<and>
     capVal m' = capVal (genmap_run (NewGenMap cap) ops)"
    using genmap_grow_step [of "genmap_run (NewGenMap cap) ops" k v] h by (auto simp: Let_def)
  then show ?case using h by (intro exI [of _ "ops @ ops'"]) (auto simp: Let_def)
qed

section \<open>Properties\<close>

text \<open>
  C27: whatever sequence of gets, puts and deletes ran before, a hit of \<open>Get\<close> returns the
  value put last for that key and not deleted since: the map may forget, it never returns a
  stale or deleted value.
\<close>

theorem genmap_get_sound:
  assumes "fst (GenMap_Get key (genmap_run (NewGenMap cap) ops)) = Some value"
  shows "foldl ref_step Map.empty ops key = Some value"
  using assms by (rule gm.get_after_run [rotated 2]) (simp_all add: genmap_view_def NewGenMap_def map_le_def genmap_ok_def)

theorem genmap_get_sound_witness:
  "foldl ref_step Map.empty [OpPut ''a'' (1 :: nat), OpPut ''b'' 2, OpGet ''a''] ''a'' = Some 1"
proof -
  have "fst (GenMap_Get ''a'' (genmap_run (NewGenMap 1) [OpPut ''a'' (1 :: nat), OpPut ''b'' 2, OpGet ''a''])) = Some 1"
    by code_simp
  then show ?thesis by (rule genmap_get_sound)
qed

text \<open>
  C28: a value that is in the current generation survives the next \<open>cap\<close> puts of other
  keys.
\<close>

theorem genmap_put_retained:
  assumes "genmap_ok m" "key \<notin> fst ` set kvs" "length kvs \<le> nat (capVal m)"
  shows "fst (GenMap_Get key (foldl (\<lambda>m (k, v). GenMap_Put k v m) (GenMap_Put key value m) kvs)) = Some value"
proof -
  have "map_of (curMap (GenMap_Put key value m)) key = Some value"
    by (simp add: GenMap_Put_def Let_def update_conv)
  moreover have "capVal (GenMap_Put key value m) = capVal m" by (rule put_lengths)
  ultimately show ?thesis
    using assms puts_retain [of "GenMap_Put key value m" key "value" kvs] by (simp add: genmap_view_simps)
qed

theorem genmap_put_retained_witness:
  "fst (GenMap_Get ''k'' (foldl (\<lambda>m (k, v). GenMap_Put k v m)
      (GenMap_Put ''k'' (7 :: nat) (NewGenMap 2)) [(''a'', 1), (''b'', 2)])) = Some 7"
  by (rule genmap_put_retained) code_simp+

text \<open>
  The comment of \<open>GenMapObj\<close> gives an effective ceiling of about twice the capacity,
  but promotions by \<open>Get\<close> are not counted: for every capacity and every bound there is a
  sequence of operations after which one generation alone holds more entries than the bound.
\<close>

lemma genmap_ceiling_exceeded:
  "\<exists>ops. bound < length (prevMap (genmap_run (NewGenMap cap) ops :: nat GenMapObj))"
proof -
  obtain c where c: "1 \<le> c" "NewGenMap cap = (NewGenMap c :: nat GenMapObj)"
    by (rule that [of "if cap < 1 then 1 else cap"]) (simp_all add: NewGenMap_def)
  obtain ops :: "nat map_op list" where "length (prevMap (genmap_run (NewGenMap c) ops)) = nat c + bound"
    using genmap_grow [OF c(1), of "0 :: nat" bound] by (auto simp: Let_def)
  moreover have "0 < nat c" using c(1) by simp
  ultimately show ?thesis unfolding c(2) by (metis less_add_same_cancel2)
qed

end
