(* ===== verification/Cache.thy ===== *)
theory Cache
  imports Util_Map
begin

text \<open>
  The in-memory caches: the sharded LRU byte cache of \<open>mod/cache\<close> (\<open>shard.go\<close>,
  \<open>cache.go\<close>, \<open>obj.go\<close>, \<open>ttl.go\<close>), the object cache of \<open>mod/server/objcache.go\<close>
  and the peer limiter store of \<open>mod/server/peerlimit.go\<close>, which both sit on the
  two-generation map.

  Each operation is modelled as one atomic step (it runs under the shard's mutex); the clock is an
  argument in nanoseconds. A shard keeps a Go map and an LRU list of the same items; both are in
  the model, and \<open>shard_ok\<close> says that they agree. Byte counts are integers: they are sums of
  lengths of data held in memory, far from the limits of \<open>int64\<close>. Singleflight and the build
  gate order builds but never touch the stored data, and are left out.
\<close>

section \<open>Items and shards (obj.go, shard.go)\<close>

definition cShardCount :: nat where "cShardCount = 32"
definition cEntryOverheadBytes :: int where "cEntryOverheadBytes = 64"

record EntryObj =
  en_Payload :: bytes
  en_ETag :: string

record cacheItemObj =
  ci_key :: string
  ci_value :: EntryObj
  ci_size :: int
  ci_expiry :: int

definition itemSize :: "string \<Rightarrow> EntryObj \<Rightarrow> int" where
  "itemSize key v = int (length key + length (en_Payload v) + length (en_ETag v)) + cEntryOverheadBytes"

record shardObj =
  itemMap :: "string \<Rightarrow> cacheItemObj option"
  lru :: "cacheItemObj list"
  sh_entries :: int
  sh_bytes :: int

definition new_shard :: shardObj where
  "new_shard = \<lparr>itemMap = (\<lambda>_. None), lru = [], sh_entries = 0, sh_bytes = 0\<rparr>"

text \<open>The list operations of \<open>container/list\<close> on an element: remove it, move or push it to the front.\<close>

definition shard_drop :: "cacheItemObj \<Rightarrow> shardObj \<Rightarrow> shardObj" where
  "shard_drop it s = s\<lparr>lru := remove1 it (lru s), itemMap := (itemMap s)(ci_key it := None),
     sh_entries := sh_entries s - 1, sh_bytes := sh_bytes s - ci_size it\<rparr>"

definition shard_get :: "string \<Rightarrow> int \<Rightarrow> shardObj \<Rightarrow> (EntryObj option \<times> int) \<times> shardObj" where
  "shard_get key nowNano s =
     (case itemMap s key of
        None \<Rightarrow> ((None, 0), s)
      | Some it \<Rightarrow>
          if ci_expiry it \<le> nowNano then ((None, ci_size it), shard_drop it s)
          else ((Some (ci_value it), 0), s\<lparr>lru := it # remove1 it (lru s)\<rparr>))"

definition shard_insert :: "cacheItemObj \<Rightarrow> shardObj \<Rightarrow> int \<times> shardObj" where
  "shard_insert it s =
     (let (delta, s1) = (case itemMap s (ci_key it) of
            Some existing \<Rightarrow> (ci_size it - ci_size existing, s\<lparr>lru := remove1 existing (lru s)\<rparr>)
          | None \<Rightarrow> (ci_size it, s\<lparr>sh_entries := sh_entries s + 1\<rparr>))
      in (delta, s1\<lparr>itemMap := (itemMap s1)(ci_key it \<mapsto> it), lru := it # lru s1,
                    sh_bytes := sh_bytes s1 + delta\<rparr>))"

definition shard_evictTail :: "shardObj \<Rightarrow> int \<times> shardObj" where
  "shard_evictTail s = (if lru s = [] then (0, s) else (let it = last (lru s) in (ci_size it, shard_drop it s)))"

definition shard_clear :: "shardObj \<Rightarrow> int \<times> shardObj" where
  "shard_clear s = (sh_bytes s, new_shard)"

section \<open>The cache (cache.go)\<close>

record cacheObj =
  shardArr :: "shardObj list"
  budget :: int
  curBytes :: int
  evictCursor :: u64
  hits :: u64
  misses :: u64
  evictions :: u64

definition cache_New :: "int \<Rightarrow> cacheObj" where
  "cache_New metadataMaxSize =
     \<lparr>shardArr = replicate cShardCount new_shard,
      budget = (if metadataMaxSize < int cShardCount then int cShardCount else metadataMaxSize),
      curBytes = 0, evictCursor = 0, hits = 0, misses = 0, evictions = 0\<rparr>"

definition shard_index :: "string \<Rightarrow> nat" where
  "shard_index key = unat (FNV32a key AND 31)"

definition cache_lookup :: "string \<Rightarrow> int \<Rightarrow> cacheObj \<Rightarrow> EntryObj option \<times> cacheObj" where
  "cache_lookup key nowNano c =
     (let i = shard_index key; ((v, freed), s) = shard_get key nowNano (shardArr c ! i);
          c1 = c\<lparr>shardArr := (shardArr c)[i := s]\<rparr>
      in (v, if freed > 0 then c1\<lparr>curBytes := curBytes c1 - freed\<rparr> else c1))"

definition cache_Get :: "string \<Rightarrow> int \<Rightarrow> cacheObj \<Rightarrow> EntryObj option \<times> cacheObj" where
  "cache_Get key nowNano c =
     (let (v, c1) = cache_lookup key nowNano c
      in (v, if v \<noteq> None then c1\<lparr>hits := hits c1 + 1\<rparr> else c1\<lparr>misses := misses c1 + 1\<rparr>))"

text \<open>
  The loop of \<open>evictToBudget\<close>: shards in turn, until the budget is met or \<open>cShardCount\<close> shards
  in a row had nothing to evict.
\<close>

definition total_items :: "cacheObj \<Rightarrow> nat" where
  "total_items c = sum_list (map (\<lambda>s. length (lru s)) (shardArr c))"

lemma evict_shrinks:
  assumes "shard_evictTail s = (f, s')" "f \<noteq> 0"
  shows "length (lru s') < length (lru s)"
proof -
  from assms have ne: "lru s \<noteq> []" and s': "s' = shard_drop (last (lru s)) s"
    by (auto simp: shard_evictTail_def Let_def split: if_splits)
  from ne have "last (lru s) \<in> set (lru s)" by simp
  with ne show ?thesis
    unfolding s' shard_drop_def by (simp add: length_remove1)
qed

lemma evict_length: "shard_evictTail s = (f, s') \<Longrightarrow> length (lru s') \<le> length (lru s)"
  by (auto simp: shard_evictTail_def shard_drop_def Let_def length_remove1 split: if_splits)

lemma total_items_update:
  assumes "i < length (shardArr c)"
  shows "total_items (c\<lparr>shardArr := (shardArr c)[i := s]\<rparr>) + length (lru (shardArr c ! i))
    = total_items c + length (lru s)"
proof -
  let ?f = "\<lambda>s. length (lru s)" and ?xs = "shardArr c"
  have "sum_list (map ?f (?xs[i := s])) = sum_list (map ?f ?xs) + ?f s - ?f (?xs ! i)"
    using assms(1) by (simp add: map_update sum_list_update)
  moreover have "?f (?xs ! i) \<le> sum_list (map ?f ?xs)"
    using assms(1) by (intro elem_le_sum_list [of i "map ?f ?xs", simplified]) simp
  ultimately show ?thesis by (simp add: total_items_def)
qed

text \<open>The array of shards always has \<open>cShardCount\<close> elements; the guard says so for the termination.\<close>

function evict_loop :: "nat \<Rightarrow> cacheObj \<Rightarrow> cacheObj" where
  "evict_loop emptyStreak c =
     (if curBytes c \<le> budget c \<or> length (shardArr c) \<noteq> cShardCount then c
      else
        let cursor = evictCursor c + 1;
            idx = unat cursor mod cShardCount;
            (freed, s) = shard_evictTail (shardArr c ! idx);
            c1 = c\<lparr>evictCursor := cursor, shardArr := (shardArr c)[idx := s]\<rparr>
        in if freed = 0 then
             (if emptyStreak + 1 \<ge> cShardCount then c1
              else evict_loop (emptyStreak + 1) (c\<lparr>evictCursor := cursor, shardArr := (shardArr c)[idx := s]\<rparr>))
           else evict_loop 0 (c1\<lparr>curBytes := curBytes c1 - freed, evictions := evictions c1 + 1\<rparr>))"
  by pat_completeness auto

termination
proof (relation "measures [total_items \<circ> snd, (\<lambda>(e, c). cShardCount - e)]")
  fix e :: nat and c :: cacheObj and cursor idx p freed s
  assume guard: "\<not> (curBytes c \<le> budget c \<or> length (shardArr c) \<noteq> cShardCount)"
    and cur: "cursor = evictCursor c + 1" and idx: "idx = unat cursor mod cShardCount"
    and ev: "p = shard_evictTail (shardArr c ! idx)" "(freed, s) = p"
  have i: "idx < length (shardArr c)" using guard by (simp add: idx cShardCount_def)
  let ?c = "c\<lparr>evictCursor := cursor, shardArr := (shardArr c)[idx := s]\<rparr>"
  have t: "total_items ?c = total_items (c\<lparr>shardArr := (shardArr c)[idx := s]\<rparr>)" by (simp add: total_items_def)
  have le: "length (lru s) \<le> length (lru (shardArr c ! idx))" using ev evict_length by metis
  show "((e + 1, ?c), e, c) \<in> measures [total_items \<circ> snd, (\<lambda>(e, c). cShardCount - e)]"
    if "\<not> e + 1 \<ge> cShardCount"
    using total_items_update [OF i, of s] le that t by (auto simp: le_less)
  show "((0, c1\<lparr>curBytes := curBytes c1 - freed, evictions := evictions c1 + 1\<rparr>), e, c)
      \<in> measures [total_items \<circ> snd, (\<lambda>(e, c). cShardCount - e)]"
    if "freed \<noteq> 0" "c1 = ?c" for c1
  proof -
    have "length (lru s) < length (lru (shardArr c ! idx))" using ev that(1) evict_shrinks by metis
    then have "total_items ?c < total_items c" using total_items_update [OF i, of s] t by simp
    then show ?thesis using that(2) by (simp add: total_items_def)
  qed
qed simp

declare evict_loop.simps [simp del]

definition cache_Set :: "string \<Rightarrow> EntryObj \<Rightarrow> int \<Rightarrow> int \<Rightarrow> cacheObj \<Rightarrow> cacheObj" where
  "cache_Set key v ttl nowNano c =
     (if ttl \<le> 0 then c
      else let it = \<lparr>ci_key = key, ci_value = v, ci_size = itemSize key v, ci_expiry = nowNano + ttl\<rparr>;
               i = shard_index key; (delta, s) = shard_insert it (shardArr c ! i)
           in evict_loop 0 (c\<lparr>shardArr := (shardArr c)[i := s], curBytes := curBytes c + delta\<rparr>))"

definition cache_Clear :: "cacheObj \<Rightarrow> cacheObj" where
  "cache_Clear c = c\<lparr>shardArr := map (snd \<circ> shard_clear) (shardArr c),
     curBytes := curBytes c - sum_list (map (fst \<circ> shard_clear) (shardArr c))\<rparr>"

text \<open>\<open>SecondsToNextRescan\<close>: times since year 1, so an unset time is 0 (ttl.go).\<close>

definition SecondsToNextRescan :: "int \<Rightarrow> int \<Rightarrow> int \<Rightarrow> int" where
  "SecondsToNextRescan lastRescan interval now =
     (if lastRescan = 0 \<or> interval \<le> 0 then 0
      else let remaining = lastRescan + interval - now in if remaining < 0 then 0 else remaining)"

section \<open>The object cache and the peer limiter store\<close>

definition cObjCacheCap :: int where "cObjCacheCap = 4096"

record 'v objEntryObj =
  oe_value :: 'v
  oe_expiry :: int

definition newObjCache :: "'v objEntryObj GenMapObj" where
  "newObjCache = NewGenMap cObjCacheCap"

definition obj_lookup :: "string \<Rightarrow> int \<Rightarrow> 'v objEntryObj GenMapObj \<Rightarrow> 'v option \<times> 'v objEntryObj GenMapObj" where
  "obj_lookup key nowNano m =
     (case GenMap_Get key m of
        (None, m1) \<Rightarrow> (None, m1)
      | (Some e, m1) \<Rightarrow> if nowNano \<ge> oe_expiry e then (None, GenMap_Delete key m1) else (Some (oe_value e), m1))"

definition obj_store :: "string \<Rightarrow> 'v \<Rightarrow> int \<Rightarrow> int \<Rightarrow> 'v objEntryObj GenMapObj \<Rightarrow> 'v objEntryObj GenMapObj" where
  "obj_store key v ttl nowNano m =
     (if ttl \<le> 0 then m else GenMap_Put key \<lparr>oe_value = v, oe_expiry = nowNano + ttl\<rparr> m)"

definition cPeerLimiterShards :: nat where "cPeerLimiterShards = 16"

text \<open>
  The limiters of \<open>golang.org/x/time/rate\<close> are a parameter: \<open>fresh\<close> is a new limiter, and the
  store hands out the one it keeps for the client.
\<close>

definition peer_shards :: "nat \<Rightarrow> 'l GenMapObj list" where
  "peer_shards maxTracked =
     (let perShardCap = (let c = int maxTracked div int cPeerLimiterShards in if c < 1 then 1 else c)
      in replicate cPeerLimiterShards (NewGenMap perShardCap))"

definition peer_limiter :: "'l \<Rightarrow> string \<Rightarrow> 'l GenMapObj list \<Rightarrow> 'l \<times> 'l GenMapObj list" where
  "peer_limiter fresh keyText shards =
     (let i = unat (FNV32a keyText AND of_nat (length shards - 1)) in
      case GenMap_Get keyText (shards ! i) of
        (Some l, m) \<Rightarrow> (l, shards[i := m])
      | (None, m) \<Rightarrow> (fresh, shards[i := GenMap_Put keyText fresh m]))"

section \<open>The shard invariant\<close>

definition sizes :: "cacheItemObj list \<Rightarrow> int" where
  "sizes its = sum_list (map ci_size its)"

definition shard_ok :: "shardObj \<Rightarrow> bool" where
  "shard_ok s \<longleftrightarrow> distinct (map ci_key (lru s)) \<and>
     (\<forall>k it. itemMap s k = Some it \<longleftrightarrow> it \<in> set (lru s) \<and> ci_key it = k) \<and>
     sh_entries s = int (length (lru s)) \<and> sh_bytes s = sizes (lru s) \<and>
     (\<forall>it \<in> set (lru s). 0 < ci_size it)"

lemma sizes_remove1: "it \<in> set its \<Longrightarrow> sizes (remove1 it its) = sizes its - ci_size it"
  by (induction its) (auto simp: sizes_def)

lemma distinct_remove1_key: "distinct (map f xs) \<Longrightarrow> distinct (map f (remove1 x xs))"
  by (induction xs) (auto dest: notin_set_remove1 in_set_takeD simp: image_iff)

lemma length_remove1_int: "x \<in> set xs \<Longrightarrow> int (length (remove1 x xs)) = int (length xs) - 1"
proof -
  assume "x \<in> set xs"
  then have "Suc (length (remove1 x xs)) = length xs" by (induction xs) auto
  then show ?thesis by linarith
qed

lemma key_unique: "distinct (map f xs) \<Longrightarrow> x \<in> set xs \<Longrightarrow> y \<in> set xs \<Longrightarrow> f x = f y \<Longrightarrow> x = y"
  by (metis distinct_map inj_onD)

lemma shard_drop_ok:
  assumes ok: "shard_ok s" and it: "it \<in> set (lru s)"
  shows "shard_ok (shard_drop it s)" "sh_bytes (shard_drop it s) = sh_bytes s - ci_size it"
proof -
  from ok have d: "distinct (map ci_key (lru s))" by (simp add: shard_ok_def)
  then have ds: "distinct (lru s)" by (simp add: distinct_map)
  have "set (remove1 it (lru s)) = set (lru s) - {it}" using ds by (rule set_remove1_eq)
  moreover note length_remove1_int [OF it]
  ultimately show "shard_ok (shard_drop it s)"
    using ok it key_unique [OF d _ it] distinct_remove1_key [OF d] sizes_remove1 [OF it]
    unfolding shard_ok_def shard_drop_def by auto
qed (simp add: shard_drop_def)

lemma shard_get_ok:
  assumes ok: "shard_ok s" and run: "shard_get k now s = ((v, freed), s')"
  shows "shard_ok s'" "sh_bytes s' = sh_bytes s - freed" "0 \<le> freed"
    "itemMap s' j = Some it \<Longrightarrow> itemMap s j = Some it"
    "v = Some w \<Longrightarrow> \<exists>it. itemMap s k = Some it \<and> ci_value it = w \<and> now < ci_expiry it"
proof -
  show "shard_ok s'"
  proof (cases "itemMap s k")
    case (Some it)
    then have it: "it \<in> set (lru s)" using ok by (simp add: shard_ok_def)
    have "set (it # remove1 it (lru s)) = set (lru s)"
      using it ok by (auto simp: shard_ok_def distinct_map set_remove1_eq)
    moreover have "distinct (map ci_key (it # remove1 it (lru s)))"
      using ok it distinct_remove1_key [of ci_key "lru s" it]
      by (auto simp: shard_ok_def distinct_map set_remove1_eq inj_on_def image_iff)
    ultimately have "shard_ok (s\<lparr>lru := it # remove1 it (lru s)\<rparr>)"
      using ok it sizes_remove1 [OF it] length_remove1_int [OF it]
      by (auto simp: shard_ok_def sizes_def)
    with run Some shard_drop_ok [OF ok it] show ?thesis by (auto simp: shard_get_def split: if_splits)
  qed (use run ok in \<open>auto simp: shard_get_def\<close>)
  have pos: "itemMap s k = Some it \<Longrightarrow> 0 < ci_size it" for it using ok by (auto simp: shard_ok_def)
  show "sh_bytes s' = sh_bytes s - freed" "0 \<le> freed"
    using run pos by (auto simp: shard_get_def shard_drop_def less_imp_le split: option.splits if_splits)
  show "itemMap s' j = Some it \<Longrightarrow> itemMap s j = Some it"
    using run by (auto simp: shard_get_def shard_drop_def split: option.splits if_splits)
  show "v = Some w \<Longrightarrow> \<exists>it. itemMap s k = Some it \<and> ci_value it = w \<and> now < ci_expiry it"
    using run by (auto simp: shard_get_def split: option.splits if_splits)
qed

lemma shard_ok_push:
  assumes "distinct (map ci_key xs)" "\<forall>x \<in> set xs. ci_key x \<noteq> ci_key it \<and> 0 < ci_size x" "0 < ci_size it"
    and "\<And>k x. k \<noteq> ci_key it \<Longrightarrow> m k = Some x \<longleftrightarrow> x \<in> set xs \<and> ci_key x = k"
    and "itemMap s = m(ci_key it \<mapsto> it)" "lru s = it # xs" "sh_entries s = int (length xs) + 1"
    "sh_bytes s = sizes xs + ci_size it"
  shows "shard_ok s"
proof -
  have "itemMap s k = Some x \<longleftrightarrow> x \<in> set (lru s) \<and> ci_key x = k" for k x
    using assms(2,4,5,6) by (cases "k = ci_key it") auto
  then show ?thesis using assms by (auto simp: shard_ok_def sizes_def)
qed

lemma shard_insert_ok:
  assumes ok: "shard_ok s" and pos: "0 < ci_size it" and run: "shard_insert it s = (delta, s')"
  shows "shard_ok s'" "sh_bytes s' = sh_bytes s + delta" "itemMap s' = (itemMap s)(ci_key it \<mapsto> it)"
proof -
  from ok have d: "distinct (map ci_key (lru s))" and p: "\<forall>x \<in> set (lru s). 0 < ci_size x"
    and m: "\<And>k x. itemMap s k = Some x \<longleftrightarrow> x \<in> set (lru s) \<and> ci_key x = k"
    and c: "sh_entries s = int (length (lru s))" "sh_bytes s = sizes (lru s)"
    by (simp_all add: shard_ok_def)
  show "shard_ok s'"
  proof (cases "itemMap s (ci_key it)")
    case None
    have "\<forall>x \<in> set (lru s). ci_key x \<noteq> ci_key it \<and> 0 < ci_size x"
    proof
      fix x
      assume x: "x \<in> set (lru s)"
      then have "itemMap s (ci_key x) = Some x" using m by blast
      with None p x show "ci_key x \<noteq> ci_key it \<and> 0 < ci_size x" by auto
    qed
    moreover have "s' = s\<lparr>sh_entries := sh_entries s + 1, itemMap := (itemMap s)(ci_key it \<mapsto> it),
        lru := it # lru s, sh_bytes := sh_bytes s + ci_size it\<rparr>"
      using run None by (auto simp: shard_insert_def)
    ultimately show ?thesis using c by (intro shard_ok_push [OF d _ pos m]) simp_all
  next
    case (Some old)
    then have old: "old \<in> set (lru s)" "ci_key old = ci_key it" using m by simp_all
    have st: "set (remove1 old (lru s)) = set (lru s) - {old}"
      using d by (intro set_remove1_eq) (simp add: distinct_map)
    have k: "\<forall>x \<in> set (remove1 old (lru s)). ci_key x \<noteq> ci_key it \<and> 0 < ci_size x"
      using key_unique [OF d _ old(1)] old(2) p by (auto simp: st)
    have m': "itemMap s k = Some x \<longleftrightarrow> x \<in> set (remove1 old (lru s)) \<and> ci_key x = k" if "k \<noteq> ci_key it" for k x
      using m that old(2) by (auto simp: st)
    have "s' = s\<lparr>lru := it # remove1 old (lru s), itemMap := (itemMap s)(ci_key it \<mapsto> it),
        sh_bytes := sh_bytes s + (ci_size it - ci_size old)\<rparr>"
      using run Some by (auto simp: shard_insert_def)
    then show ?thesis
      using c length_remove1_int [OF old(1)] sizes_remove1 [OF old(1)]
      by (intro shard_ok_push [OF distinct_remove1_key [OF d] k pos m']) simp_all
  qed
  show "sh_bytes s' = sh_bytes s + delta" "itemMap s' = (itemMap s)(ci_key it \<mapsto> it)"
    using run by (auto simp: shard_insert_def split: option.splits)
qed

lemma shard_evict_ok:
  assumes ok: "shard_ok s" and run: "shard_evictTail s = (freed, s')"
  shows "shard_ok s'" "sh_bytes s' = sh_bytes s - freed" "0 \<le> freed" "freed = 0 \<longleftrightarrow> lru s = []"
    "itemMap s' j = Some it \<Longrightarrow> itemMap s j = Some it" "freed = 0 \<Longrightarrow> s' = s"
proof -
  have l: "last (lru s) \<in> set (lru s)" "0 < ci_size (last (lru s))" if "lru s \<noteq> []"
    using that ok by (simp_all add: shard_ok_def)
  from run consider "lru s = []" "freed = 0" "s' = s"
    | "lru s \<noteq> []" "freed = ci_size (last (lru s))" "s' = shard_drop (last (lru s)) s"
    by (auto simp: shard_evictTail_def Let_def split: if_splits)
  then show "shard_ok s'" "sh_bytes s' = sh_bytes s - freed" "0 \<le> freed" "freed = 0 \<longleftrightarrow> lru s = []"
    "itemMap s' j = Some it \<Longrightarrow> itemMap s j = Some it" "freed = 0 \<Longrightarrow> s' = s"
    by (cases, use ok l shard_drop_ok [OF ok] in \<open>auto simp: shard_drop_def split: if_splits\<close>)+
qed

lemma new_shard_ok: "shard_ok new_shard" "sh_bytes new_shard = 0"
  by (simp_all add: shard_ok_def new_shard_def sizes_def)

section \<open>The cache invariant\<close>

definition shards_bytes :: "shardObj list \<Rightarrow> int" where
  "shards_bytes ss = sum_list (map sh_bytes ss)"

definition cache_ok :: "cacheObj \<Rightarrow> bool" where
  "cache_ok c \<longleftrightarrow> length (shardArr c) = cShardCount \<and> (\<forall>s \<in> set (shardArr c). shard_ok s) \<and>
     curBytes c = shards_bytes (shardArr c) \<and> int cShardCount \<le> budget c"

text \<open>The latest value and expiry of each key bound what the cache may hold.\<close>

definition cache_holds :: "(string \<rightharpoonup> EntryObj \<times> int) \<Rightarrow> cacheObj \<Rightarrow> bool" where
  "cache_holds ref c \<longleftrightarrow> (\<forall>k it. itemMap (shardArr c ! shard_index k) k = Some it \<longrightarrow>
     ref k = Some (ci_value it, ci_expiry it))"

lemma shard_index_less: "shard_index k < cShardCount"
proof -
  have "FNV32a k AND 31 \<le> 31" by (rule word_and_le1)
  then have "unat (FNV32a k AND 31) \<le> unat (31 :: u32)" by (simp add: word_le_nat_alt)
  then show ?thesis by (simp add: shard_index_def cShardCount_def)
qed

lemma shards_bytes_update:
  "i < length ss \<Longrightarrow> shards_bytes (ss[i := s]) = shards_bytes ss + sh_bytes s - sh_bytes (ss ! i)"
  by (induction ss arbitrary: i) (auto simp: shards_bytes_def split: nat.split)

lemma cache_ok_update:
  assumes "cache_ok c" "i < cShardCount" "shard_ok s" "sh_bytes s = sh_bytes (shardArr c ! i) + d"
    "shardArr c' = (shardArr c)[i := s]" "curBytes c' = curBytes c + d" "budget c' = budget c"
  shows "cache_ok c'"
  using assms shards_bytes_update [of i "shardArr c" s]
  by (auto simp: cache_ok_def dest!: set_update_subset_insert [THEN subsetD])

lemma cache_holds_update:
  assumes "cache_holds ref c" "i < cShardCount" "length (shardArr c) = cShardCount"
    "shardArr c' = (shardArr c)[i := s]"
    "\<And>k it. shard_index k = i \<Longrightarrow> itemMap s k = Some it \<Longrightarrow> ref' k = Some (ci_value it, ci_expiry it)"
    "\<And>k. shard_index k \<noteq> i \<Longrightarrow> ref' k = ref k"
  shows "cache_holds ref' c'"
  using assms unfolding cache_holds_def by (metis nth_list_update_eq nth_list_update_neq)

lemma shard_nth_ok: "cache_ok c \<Longrightarrow> i < cShardCount \<Longrightarrow> shard_ok (shardArr c ! i)"
  by (simp add: cache_ok_def)

lemma cache_lookup_ok:
  assumes ok: "cache_ok c" and h: "cache_holds ref c" and run: "cache_lookup k now c = (v, c')"
  shows "cache_ok c'" "cache_holds ref c'" "budget c' = budget c" "curBytes c' \<le> curBytes c"
    "v = Some w \<Longrightarrow> \<exists>expiry. ref k = Some (w, expiry) \<and> now < expiry"
proof -
  let ?i = "shard_index k"
  obtain v' freed s where g: "shard_get k now (shardArr c ! ?i) = ((v', freed), s)" by (metis surj_pair)
  note sg = shard_get_ok [OF shard_nth_ok [OF ok shard_index_less] g]
  have c': "shardArr c' = (shardArr c)[?i := s]" "curBytes c' = curBytes c - freed" "budget c' = budget c"
    and v: "v = v'"
    using run g sg(3) by (auto simp: cache_lookup_def Let_def)
  have len: "length (shardArr c) = cShardCount" using ok by (simp add: cache_ok_def)
  show "cache_ok c'"
    using ok shard_index_less sg(1) by (rule cache_ok_update [where d = "- freed"]) (simp_all add: sg(2) c')
  show "cache_holds ref c'"
    using h shard_index_less len c'(1)
    by (rule cache_holds_update) (use h sg(4) in \<open>auto simp: cache_holds_def\<close>)
  show "budget c' = budget c" "curBytes c' \<le> curBytes c" using c' sg(3) by simp_all
  show "v = Some w \<Longrightarrow> \<exists>expiry. ref k = Some (w, expiry) \<and> now < expiry"
    using sg(5) h unfolding v cache_holds_def by metis
qed

lemma cursor_next: "unat (c + 1 :: u64) mod cShardCount = (unat c + 1) mod cShardCount"
proof -
  have "unat (c + 1) = (unat c + 1) mod 2 ^ 64" by (simp add: unat_word_ariths)
  then show ?thesis by (simp add: cShardCount_def mod_mod_cancel)
qed

text \<open>\<open>e\<close> shards before the cursor are known to be empty; after 32 of them nothing is left.\<close>

definition streak :: "nat \<Rightarrow> cacheObj \<Rightarrow> bool" where
  "streak e c \<longleftrightarrow> (\<forall>j < e. lru (shardArr c ! ((unat (evictCursor c) + cShardCount - j) mod cShardCount)) = [])"

lemma shift_mod_32: "i < 32 \<Longrightarrow> \<exists>j < 32. (c + 32 - j) mod 32 = (i :: nat)"
proof -
  assume i: "i < 32"
  obtain q u where c: "c = 32 * q + u" and u: "u < 32"
    by (rule that [of "c div 32" "c mod 32"]) simp_all
  show ?thesis
  proof (cases "i \<le> u")
    case True
    then obtain d where "u = i + d" using le_Suc_ex by blast
    then have "c + 32 - (u - i) = i + (q + 1) * 32" using c by simp
    then have "(c + 32 - (u - i)) mod 32 = i" using i by (simp only: mod_mult_self1 mod_less)
    with u show ?thesis by (meson less_imp_diff_less)
  next
    case False
    then obtain d where "i = u + d" by (metis le_Suc_ex nat_le_linear)
    then have "c + 32 - (u + 32 - i) = i + q * 32" using c i by simp
    then have "(c + 32 - (u + 32 - i)) mod 32 = i" using i by (simp only: mod_mult_self1 mod_less)
    moreover have "u + 32 - i < 32" using False u by linarith
    ultimately show ?thesis by blast
  qed
qed

lemma sum_list_zero: "\<forall>x \<in> set xs. x = 0 \<Longrightarrow> sum_list xs = (0 :: int)"
  by (induction xs) auto

lemma streak_full:
  assumes "cache_ok c" "streak cShardCount c"
  shows "curBytes c = 0"
proof -
  have "lru (shardArr c ! i) = []" if "i < cShardCount" for i
  proof -
    obtain j where "j < cShardCount" "(unat (evictCursor c) + cShardCount - j) mod cShardCount = i"
      using shift_mod_32 [of i "unat (evictCursor c)"] \<open>i < cShardCount\<close> unfolding cShardCount_def by blast
    with assms(2) show ?thesis by (auto simp: streak_def)
  qed
  then have "sh_bytes (shardArr c ! i) = 0" if "i < cShardCount" for i
    using that shard_nth_ok [OF assms(1) that] by (simp add: shard_ok_def sizes_def)
  then have "\<forall>x \<in> set (map sh_bytes (shardArr c)). x = 0"
    using assms(1) by (auto simp: cache_ok_def in_set_conv_nth)
  then show ?thesis
    using assms(1) unfolding cache_ok_def shards_bytes_def by (simp add: sum_list_zero)
qed

lemma streak_step:
  assumes st: "streak e c" and e: "e < cShardCount"
    and empty: "lru (shardArr c ! (unat (evictCursor c + 1) mod cShardCount)) = []"
    and c': "evictCursor c' = evictCursor c + 1" "shardArr c' = shardArr c"
  shows "streak (e + 1) c'"
  unfolding streak_def c'
proof (intro allI impI)
  fix j
  assume j: "j < e + 1"
  let ?u = "unat (evictCursor c)" and ?u' = "unat (evictCursor c + 1)"
  show "lru (shardArr c ! ((?u' + cShardCount - j) mod cShardCount)) = []"
  proof (cases j)
    case 0
    with empty show ?thesis by simp
  next
    case (Suc k)
    have "(?u' + cShardCount - j) mod cShardCount = (?u' + (cShardCount - j)) mod cShardCount"
      using j e by simp
    also have "\<dots> = (?u + 1 + (cShardCount - j)) mod cShardCount"
      using cursor_next [of "evictCursor c"] by (metis mod_add_left_eq)
    also have "?u + 1 + (cShardCount - j) = ?u + cShardCount - k" using Suc j e by simp
    finally show ?thesis using st Suc j by (simp add: streak_def)
  qed
qed

lemma evict_loop_ok:
  "cache_ok c \<Longrightarrow> cache_holds ref c \<Longrightarrow> streak e c \<Longrightarrow> e < cShardCount \<Longrightarrow>
   cache_ok (evict_loop e c) \<and> cache_holds ref (evict_loop e c) \<and>
   curBytes (evict_loop e c) \<le> budget (evict_loop e c) \<and> budget (evict_loop e c) = budget c"
proof (induction e c rule: evict_loop.induct)
  case (1 e c)
  have len: "length (shardArr c) = cShardCount" using "1.prems"(1) by (simp add: cache_ok_def)
  show ?case
  proof (cases "curBytes c \<le> budget c")
    case True
    then have "evict_loop e c = c" by (subst evict_loop.simps) simp
    with True "1.prems" show ?thesis by simp
  next
    case over: False
    then have guard: "\<not> (curBytes c \<le> budget c \<or> length (shardArr c) \<noteq> cShardCount)" using len by simp
    let ?cur = "evictCursor c + 1"
    let ?i = "unat ?cur mod cShardCount"
    have i: "?i < cShardCount" by (simp add: cShardCount_def)
    obtain freed s where ev: "shard_evictTail (shardArr c ! ?i) = (freed, s)" by force
    note se = shard_evict_ok [OF shard_nth_ok [OF "1.prems"(1) i] ev]
    let ?c1 = "c\<lparr>evictCursor := ?cur, shardArr := (shardArr c)[?i := s]\<rparr>"
    let ?c2 = "?c1\<lparr>curBytes := curBytes ?c1 - freed, evictions := evictions ?c1 + 1\<rparr>"
    have unfold: "evict_loop e c = (if freed = 0 then (if e + 1 \<ge> cShardCount then ?c1 else evict_loop (e + 1) ?c1)
        else evict_loop 0 ?c2)"
      using guard ev by (subst evict_loop.simps) (simp add: Let_def)
    show ?thesis
    proof (cases "freed = 0")
      case True
      then have same: "shardArr ?c1 = shardArr c" and empty: "lru (shardArr c ! ?i) = []"
        using se(4,6) i len by simp_all
      have ok1: "cache_ok ?c1" using "1.prems"(1) same by (simp add: cache_ok_def)
      have h1: "cache_holds ref ?c1" using "1.prems"(2) same by (simp add: cache_holds_def)
      have st1: "streak (e + 1) ?c1"
        using "1.prems"(3,4) empty by (rule streak_step) (use same in simp_all)
      show ?thesis
      proof (cases "e + 1 \<ge> cShardCount")
        case True
        then have "e + 1 = cShardCount" using "1.prems"(4) by simp
        with st1 have "streak cShardCount ?c1" by (simp only:)
        from streak_full [OF ok1 this] ok1 h1 True \<open>freed = 0\<close> show ?thesis
          by (simp add: unfold cache_ok_def)
      next
        case False
        with "1.IH"(1) [OF guard refl refl ev [symmetric] refl refl] True ok1 h1 st1 show ?thesis
          by (simp add: unfold)
      qed
    next
      case False
      have ok2: "cache_ok ?c2"
        using "1.prems"(1) i se(1) by (rule cache_ok_update [where d = "- freed"]) (simp_all add: se(2))
      have h2: "cache_holds ref ?c2"
        using "1.prems"(2) i len
        by (rule cache_holds_update [where s = s]) (use "1.prems"(2) se(5) in \<open>auto simp: cache_holds_def\<close>)
      have "streak 0 ?c2" "0 < cShardCount" by (simp_all add: streak_def cShardCount_def)
      with "1.IH"(2) [OF guard refl refl ev [symmetric] refl refl False] ok2 h2 False show ?thesis
        by (simp add: unfold)
    qed
  qed
qed

lemma cache_Set_ok:
  assumes ok: "cache_ok c" and h: "cache_holds ref c" and ttl: "0 < ttl"
  shows "cache_ok (cache_Set k v ttl now c)" "cache_holds (ref(k \<mapsto> (v, now + ttl))) (cache_Set k v ttl now c)"
    "curBytes (cache_Set k v ttl now c) \<le> budget (cache_Set k v ttl now c)"
    "budget (cache_Set k v ttl now c) = budget c"
proof -
  let ?it = "\<lparr>ci_key = k, ci_value = v, ci_size = itemSize k v, ci_expiry = now + ttl\<rparr>"
  let ?i = "shard_index k" and ?ref = "ref(k \<mapsto> (v, now + ttl))"
  obtain d s where ins: "shard_insert ?it (shardArr c ! ?i) = (d, s)" by force
  have pos: "0 < ci_size ?it" by (simp add: itemSize_def cEntryOverheadBytes_def)
  note si = shard_insert_ok [OF shard_nth_ok [OF ok shard_index_less] pos ins]
  let ?c = "c\<lparr>shardArr := (shardArr c)[?i := s], curBytes := curBytes c + d\<rparr>"
  have len: "length (shardArr c) = cShardCount" using ok by (simp add: cache_ok_def)
  have "cache_ok ?c"
    using ok shard_index_less si(1) by (rule cache_ok_update [where d = d]) (simp_all add: si(2))
  moreover have "cache_holds ?ref ?c"
    using h shard_index_less len
    by (rule cache_holds_update [where s = s]) (use h si(3) in \<open>auto simp: cache_holds_def split: if_splits\<close>)
  moreover have "streak 0 ?c" "0 < cShardCount" by (simp_all add: streak_def cShardCount_def)
  moreover have "cache_Set k v ttl now c = evict_loop 0 ?c" using ttl ins by (simp add: cache_Set_def Let_def)
  ultimately show "cache_ok (cache_Set k v ttl now c)" "cache_holds ?ref (cache_Set k v ttl now c)"
    "curBytes (cache_Set k v ttl now c) \<le> budget (cache_Set k v ttl now c)"
    "budget (cache_Set k v ttl now c) = budget c"
    using evict_loop_ok [of ?c ?ref 0] by simp_all
qed

section \<open>Sequences of operations\<close>

datatype cache_op = CacheGet string int | CacheSet string EntryObj int int | CacheClear

fun cache_step :: "cacheObj \<Rightarrow> cache_op \<Rightarrow> cacheObj" where
  "cache_step c (CacheGet k now) = snd (cache_Get k now c)"
| "cache_step c (CacheSet k v ttl now) = cache_Set k v ttl now c"
| "cache_step c CacheClear = cache_Clear c"

text \<open>The reference: for each key the value of the last effective \<open>Set\<close> and when it expires.\<close>

fun cache_ref :: "(string \<rightharpoonup> EntryObj \<times> int) \<Rightarrow> cache_op \<Rightarrow> (string \<rightharpoonup> EntryObj \<times> int)" where
  "cache_ref r (CacheGet k now) = r"
| "cache_ref r (CacheSet k v ttl now) = (if ttl \<le> 0 then r else r(k \<mapsto> (v, now + ttl)))"
| "cache_ref r CacheClear = Map.empty"

lemma cache_Get_ok:
  assumes ok: "cache_ok c" and h: "cache_holds ref c" and run: "cache_Get k now c = (v, c')"
  shows "cache_ok c'" "cache_holds ref c'" "budget c' = budget c" "curBytes c' \<le> curBytes c"
    "v = Some w \<Longrightarrow> \<exists>expiry. ref k = Some (w, expiry) \<and> now < expiry"
proof -
  obtain v1 c1 where l: "cache_lookup k now c = (v1, c1)" by force
  note lo = cache_lookup_ok [OF ok h l]
  have c': "shardArr c' = shardArr c1" "curBytes c' = curBytes c1" "budget c' = budget c1" and v: "v = v1"
    using run l by (auto simp: cache_Get_def Let_def split: if_splits)
  show "cache_ok c'" "cache_holds ref c'" "budget c' = budget c" "curBytes c' \<le> curBytes c"
    using lo(1-4) c' by (simp_all add: cache_ok_def cache_holds_def)
  show "v = Some w \<Longrightarrow> \<exists>expiry. ref k = Some (w, expiry) \<and> now < expiry"
    using lo(5) by (simp add: v)
qed

lemma cache_Clear_ok:
  assumes "cache_ok c"
  shows "cache_ok (cache_Clear c)" "cache_holds Map.empty (cache_Clear c)"
    "curBytes (cache_Clear c) = 0" "budget (cache_Clear c) = budget c"
proof -
  have s: "shardArr (cache_Clear c) = replicate cShardCount new_shard"
    using assms by (simp add: cache_Clear_def cache_ok_def shard_clear_def map_replicate_const o_def)
  have "sum_list (map (fst \<circ> shard_clear) (shardArr c)) = shards_bytes (shardArr c)"
    by (simp add: shards_bytes_def shard_clear_def o_def)
  then show z: "curBytes (cache_Clear c) = 0" "budget (cache_Clear c) = budget c"
    using assms by (simp_all add: cache_Clear_def cache_ok_def)
  show "cache_ok (cache_Clear c)"
    using assms z by (simp add: cache_ok_def s new_shard_ok shards_bytes_def sum_list_replicate)
  show "cache_holds Map.empty (cache_Clear c)"
    using shard_index_less by (simp add: cache_holds_def s) (simp add: new_shard_def)
qed

definition within_budget :: "cacheObj \<Rightarrow> bool" where
  "within_budget c \<longleftrightarrow> curBytes c \<le> budget c"

lemma cache_step_ok:
  assumes "cache_ok c" "cache_holds ref c" "within_budget c"
  shows "cache_ok (cache_step c opn) \<and> cache_holds (cache_ref ref opn) (cache_step c opn) \<and>
    within_budget (cache_step c opn) \<and> budget (cache_step c opn) = budget c"
proof (cases opn)
  case (CacheGet k now)
  obtain v c' where "cache_Get k now c = (v, c')" by force
  with cache_Get_ok [OF assms(1,2) this] assms(3) CacheGet show ?thesis by (simp add: within_budget_def)
next
  case (CacheSet k v ttl now)
  then show ?thesis
    using cache_Set_ok [OF assms(1,2), of ttl k v now] assms
    by (cases "ttl \<le> 0") (simp_all add: within_budget_def cache_Set_def)
next
  case CacheClear
  then show ?thesis
    using cache_Clear_ok [OF assms(1)] assms(1) by (simp add: within_budget_def cache_ok_def cShardCount_def)
qed

lemma cache_New_ok: "cache_ok (cache_New n)" "cache_holds Map.empty (cache_New n)" "within_budget (cache_New n)"
  using shard_index_less new_shard_ok
  by (auto simp: cache_ok_def cache_New_def cache_holds_def within_budget_def shards_bytes_def
      sum_list_replicate cShardCount_def) (simp add: new_shard_def cShardCount_def)

lemma cache_run_ok:
  "cache_ok c \<Longrightarrow> cache_holds ref c \<Longrightarrow> within_budget c \<Longrightarrow>
   cache_ok (foldl cache_step c ops) \<and> cache_holds (foldl cache_ref ref ops) (foldl cache_step c ops) \<and>
   within_budget (foldl cache_step c ops) \<and> budget (foldl cache_step c ops) = budget c"
proof (induction ops arbitrary: c ref)
  case (Cons opn ops)
  from cache_step_ok [OF Cons.prems, of opn] Cons.IH [of "cache_step c opn" "cache_ref ref opn"]
  show ?case by simp
qed simp

datatype 'v obj_op = ObjLookup string int | ObjStore string 'v int int

fun obj_step :: "'v objEntryObj GenMapObj \<Rightarrow> 'v obj_op \<Rightarrow> 'v objEntryObj GenMapObj" where
  "obj_step m (ObjLookup k now) = snd (obj_lookup k now m)"
| "obj_step m (ObjStore k v ttl now) = obj_store k v ttl now m"

fun obj_ref :: "(string \<rightharpoonup> 'v objEntryObj) \<Rightarrow> 'v obj_op \<Rightarrow> (string \<rightharpoonup> 'v objEntryObj)" where
  "obj_ref r (ObjLookup k now) = r"
| "obj_ref r (ObjStore k v ttl now) = (if ttl \<le> 0 then r else r(k \<mapsto> \<lparr>oe_value = v, oe_expiry = now + ttl\<rparr>))"

lemma obj_lookup_sound:
  assumes ok: "genmap_ok m" and le: "genmap_view m \<subseteq>\<^sub>m r" and run: "obj_lookup k now m = (v, m')"
  shows "genmap_ok m'" "genmap_view m' \<subseteq>\<^sub>m r"
    "v = Some w \<Longrightarrow> \<exists>e. r k = Some e \<and> oe_value e = w \<and> now < oe_expiry e"
proof -
  obtain g m1 where g: "GenMap_Get k m = (g, m1)" by force
  have m1: "genmap_ok m1" "genmap_view m1 = genmap_view m" "g = genmap_view m k"
    using gm.ok_get [OF ok, of k] gm.view_get [of k m] gm.get_view [of k m] g by simp_all
  have del: "genmap_view (GenMap_Delete k m1) = (genmap_view m)(k := None)" "genmap_ok (GenMap_Delete k m1)"
    using gm.view_del [OF m1(1), of k] gm.ok_del [OF m1(1), of k] m1(2) by simp_all
  show "genmap_ok m'" "genmap_view m' \<subseteq>\<^sub>m r"
    using run g m1 del le by (auto simp: obj_lookup_def map_le_def split: option.splits if_splits)
  show "v = Some w \<Longrightarrow> \<exists>e. r k = Some e \<and> oe_value e = w \<and> now < oe_expiry e"
    using run g m1(3) le by (auto simp: obj_lookup_def map_le_def dom_def not_le split: option.splits if_splits)
qed

lemma obj_step_sound:
  assumes "genmap_ok m" "genmap_view m \<subseteq>\<^sub>m r"
  shows "genmap_ok (obj_step m opn) \<and> genmap_view (obj_step m opn) \<subseteq>\<^sub>m obj_ref r opn"
proof (cases opn)
  case (ObjLookup k now)
  obtain v m' where "obj_lookup k now m = (v, m')" by force
  with obj_lookup_sound(1,2) [OF assms this] ObjLookup show ?thesis by simp
next
  case (ObjStore k v ttl now)
  let ?e = "\<lparr>oe_value = v, oe_expiry = now + ttl\<rparr>"
  have "map_step GenMap_Get GenMap_Put GenMap_Delete m (OpPut k ?e) = GenMap_Put k ?e m" by simp
  with gm.step_sound [OF assms, of "OpPut k ?e"] assms ObjStore show ?thesis by (simp add: obj_store_def)
qed

lemma obj_run_sound:
  "genmap_ok m \<Longrightarrow> genmap_view m \<subseteq>\<^sub>m r \<Longrightarrow>
   genmap_ok (foldl obj_step m ops) \<and> genmap_view (foldl obj_step m ops) \<subseteq>\<^sub>m foldl obj_ref r ops"
proof (induction ops arbitrary: m r)
  case (Cons opn ops)
  from obj_step_sound [OF Cons.prems, of opn] Cons.IH [of "obj_step m opn" "obj_ref r opn"] show ?case by simp
qed simp

lemma newObjCache_ok: "genmap_ok newObjCache" "genmap_view newObjCache = Map.empty"
  by (simp_all add: newObjCache_def NewGenMap_def genmap_ok_def genmap_view_def cObjCacheCap_def fun_eq_iff)

section \<open>Properties\<close>

text \<open>
  Whatever sequence of operations runs, the byte counter of the cache is the true size of what
  it holds and never stays above the budget, not even for a single oversized entry.
\<close>

lemma cache_stays_within_budget:
  "curBytes (foldl cache_step (cache_New n) ops) \<le> max n (int cShardCount) \<and>
   curBytes (foldl cache_step (cache_New n) ops) =
     sum_list (map (\<lambda>s. sum_list (map ci_size (lru s))) (shardArr (foldl cache_step (cache_New n) ops)))"
proof -
  let ?c = "foldl cache_step (cache_New n) ops"
  have ok: "cache_ok ?c" "within_budget ?c" "budget ?c = budget (cache_New n)"
    using cache_run_ok [OF cache_New_ok] by blast+
  have "map sh_bytes (shardArr ?c) = map (\<lambda>s. sum_list (map ci_size (lru s))) (shardArr ?c)"
    using ok(1) by (intro map_cong) (auto simp: cache_ok_def shard_ok_def sizes_def)
  moreover have "curBytes ?c = sum_list (map sh_bytes (shardArr ?c))"
    using ok(1) by (simp add: cache_ok_def shards_bytes_def)
  moreover have "budget (cache_New n) = max n (int cShardCount)" by (simp add: cache_New_def)
  ultimately show ?thesis using ok(2,3) by (simp only: within_budget_def)
qed

text \<open>
  C37: a cache hit is never stale and never another key's: it is the value of the last effective
  \<open>Set\<close> of that key, and its lifetime has not run out.
\<close>

theorem cache_hit_is_latest_and_fresh:
  assumes "fst (cache_Get k now (foldl cache_step (cache_New n) ops)) = Some v"
  shows "\<exists>expiry. foldl cache_ref Map.empty ops k = Some (v, expiry) \<and> now < expiry"
proof -
  let ?c = "foldl cache_step (cache_New n) ops"
  have "cache_ok ?c" "cache_holds (foldl cache_ref Map.empty ops) ?c"
    using cache_run_ok [OF cache_New_ok] by blast+
  from cache_Get_ok(5) [OF this] assms show ?thesis by (metis prod.collapse)
qed

theorem cache_hit_is_latest_and_fresh_witness:
  "\<exists>expiry. foldl cache_ref Map.empty [CacheSet ''k'' \<lparr>en_Payload = ''a'', en_ETag = []\<rparr> 100 0,
      CacheSet ''k'' \<lparr>en_Payload = ''b'', en_ETag = []\<rparr> 100 50] ''k''
     = Some (\<lparr>en_Payload = ''b'', en_ETag = []\<rparr>, expiry) \<and> 120 < expiry"
proof (rule cache_hit_is_latest_and_fresh)
  show "fst (cache_Get ''k'' 120 (foldl cache_step (cache_New 1000)
      [CacheSet ''k'' \<lparr>en_Payload = ''a'', en_ETag = []\<rparr> 100 0,
       CacheSet ''k'' \<lparr>en_Payload = ''b'', en_ETag = []\<rparr> 100 50]))
    = Some \<lparr>en_Payload = ''b'', en_ETag = []\<rparr>"
    by code_simp
qed

text \<open>
  The object cache never returns an expired or outdated value, although the two-generation map
  below it forgets and promotes entries.
\<close>

lemma objcache_hit_is_latest_and_fresh:
  assumes "fst (obj_lookup k now (foldl obj_step newObjCache ops)) = Some v"
  shows "\<exists>e. foldl obj_ref Map.empty ops k = Some e \<and> oe_value e = v \<and> now < oe_expiry e"
proof -
  let ?m = "foldl obj_step newObjCache ops"
  have "genmap_ok ?m" "genmap_view ?m \<subseteq>\<^sub>m foldl obj_ref Map.empty ops"
    using obj_run_sound [OF newObjCache_ok(1), of Map.empty ops] by (simp_all add: newObjCache_ok(2))
  from obj_lookup_sound(3) [OF this] assms show ?thesis by (metis prod.collapse)
qed

end
