(* ===== verification/State_Defs.thy ===== *)
theory State_Defs
  imports Core Util_Path "HOL-Library.AList" "HOL-Library.Product_Lexorder"
begin

text \<open>
  The node's state registry, \<open>mod/state\<close>: data and operations. One \<open>state_Obj\<close> holds the
  state of every mirror key, the diagnostics and the published snapshot.

  Every exported method runs under \<open>lockObj\<close>, so it is one function on \<open>state_Obj\<close>; the
  clock (\<open>time.Now().UTC()\<close>) is the argument \<open>now\<close>. Go maps are association lists with
  distinct keys; where the order of \<open>range\<close> over a map reaches the state, it is an
  argument \<open>ord\<close>. A pointer to a key record or to a diagnostic record is the key it is stored
  under: each record is reachable from its map entry and, for inactive diagnostics, from the
  intrusive list. \<open>ensureObj\<close> (a nil or copied object) is not modelled. Enumerations
  (\<open>yml/stcode/enums.yml\<close>) have their undefined zero value, and \<open>Bad\<close> constructors for bytes
  outside the enumeration.
\<close>

section \<open>Enumerations and limits\<close>

datatype SourceClassType = UndefSourceClass | SourceClassGit | SourceClassBrother | BadSourceClass u8

datatype AvailabilityStatusType =
  UndefAvailability | AvUnknown | AvAvailable | AvTemporaryDown | AvPermanentDown

datatype OperationalStatusType =
  UndefOperationalStatus | StatusOk | StatusDegraded | StatusError | BadStatus u8

datatype LogScopeType = UndefLogScope | ScopeGlobal | ScopeKey | ScopeVersion | BadScope u8

datatype LogReasonType =
  UndefLogReason | BadRequest | UpstreamUnavailable | UpstreamConflict | CacheQuotaExceeded
  | MaterializationFailed | GoOverlayDegraded | ContentRejected | BadReason u8

definition status_valid :: "OperationalStatusType \<Rightarrow> bool" where
  "status_valid v \<longleftrightarrow> v \<in> {StatusOk, StatusDegraded, StatusError}"

definition reason_int :: "LogReasonType \<Rightarrow> nat" where
  "reason_int v = (case v of UndefLogReason \<Rightarrow> 0 | BadRequest \<Rightarrow> 1 | UpstreamUnavailable \<Rightarrow> 2
     | UpstreamConflict \<Rightarrow> 3 | CacheQuotaExceeded \<Rightarrow> 4 | MaterializationFailed \<Rightarrow> 5
     | GoOverlayDegraded \<Rightarrow> 6 | ContentRejected \<Rightarrow> 7 | BadReason b \<Rightarrow> unat b)"

definition reason_valid :: "LogReasonType \<Rightarrow> bool" where
  "reason_valid v \<longleftrightarrow> (case v of UndefLogReason \<Rightarrow> False | BadReason _ \<Rightarrow> False | _ \<Rightarrow> True)"

definition cMaxKeys :: nat where "cMaxKeys = 4096"
definition cDefaultMaxDiagnostics :: nat where "cDefaultMaxDiagnostics = 4096"
definition cMaxDiagnosticCodeBytes :: nat where "cMaxDiagnosticCodeBytes = 128"
definition cMaxKeyBytes :: nat where "cMaxKeyBytes = 256"
definition cMaxURLBytes :: nat where "cMaxURLBytes = 4096"
definition cMaxVersionBytes :: nat where "cMaxVersionBytes = 256"
definition cMaxMessageBytes :: nat where "cMaxMessageBytes = 4096"
definition cMaxHealthReasons :: nat where "cMaxHealthReasons = 32"
definition cMaxScanFutureSkew :: int where "cMaxScanFutureSkew = 5 * 60 * 1000000000"

datatype state_error =
  TextEmpty | TextTooLong | StateKeyNotFound | ClassInvalid | ReclassNotAllowed
  | BatchTooLarge | BatchDuplicateKey | ScanEmpty | ScanInFuture | GlobalScopeWithKey
  | KeyScopeWithVersion | ScopeInvalid | ImpactInvalid | ImpactBelowThreshold | ReasonInvalid
  | RegistryFull | NoMirrors | TooManyMirrors | PermanentTooSmall | PermanentTooLarge

section \<open>Data (obj.go)\<close>

record keyMutObj =
  km_key :: string
  km_classification :: SourceClassType
  km_classified :: bool
  km_sourceURL :: string
  km_brotherURL :: string
  km_remoteKey :: string
  km_availability :: AvailabilityStatusType
  km_unavailableCycles :: u32
  km_lastScan :: gotime
  km_upstreamPresent :: bool
  km_latestVersion :: string
  km_versionCount :: u64
  km_lastPublishTS :: gotime
  km_reclassAllowed :: bool

record KeyStateObj =
  ks_Key :: string
  ks_Status :: OperationalStatusType
  ks_Classification :: SourceClassType
  ks_Classified :: bool
  ks_SourceURL :: string
  ks_BrotherURL :: string
  ks_RemoteKey :: string
  ks_Availability :: AvailabilityStatusType
  ks_UnavailableCycles :: u32
  ks_LastScan :: gotime
  ks_UpstreamPresent :: bool
  ks_LatestVersion :: string
  ks_VersionCount :: u64
  ks_LastPublishTS :: gotime

record diagnosticKeyObj =
  dk_code :: string
  dk_scope :: LogScopeType
  dk_key :: string
  dk_version :: string

record DiagnosticObj =
  di_Code :: string
  di_Scope :: LogScopeType
  di_Impact :: OperationalStatusType
  di_Reason :: LogReasonType
  di_Key :: string
  di_Version :: string
  di_Message :: string

record diagnosticRecordObj =
  dr_code :: string
  dr_scope :: LogScopeType
  dr_impact :: OperationalStatusType
  dr_reason :: LogReasonType
  dr_key :: string
  dr_version :: string
  dr_message :: string
  dr_firstSeen :: gotime
  dr_lastSeen :: gotime
  dr_count :: u64
  dr_active :: bool
  dr_inactivePrev :: "diagnosticKeyObj option"
  dr_inactiveNext :: "diagnosticKeyObj option"

record DiagnosticViewObj =
  dv_Code :: string
  dv_Scope :: LogScopeType
  dv_Impact :: OperationalStatusType
  dv_Reason :: LogReasonType
  dv_Key :: string
  dv_Version :: string
  dv_Message :: string
  dv_FirstSeen :: gotime
  dv_LastSeen :: gotime
  dv_Count :: u64

record HealthViewObj =
  hv_Status :: OperationalStatusType
  hv_Reasons :: "LogReasonType list"
  hv_DiagnosticsCount :: u64
  hv_DroppedDiagnostics :: u64

record SnapshotObj =
  sn_Content :: HashObj
  sn_LastRescan :: gotime
  sn_Generation :: u64
  sn_health :: HealthViewObj
  sn_keyArr :: "KeyStateObj list"
  sn_keyIndex :: "string \<Rightarrow> nat option"
  sn_diagnosticArr :: "DiagnosticViewObj list"

record MirrorStatsObj =
  ms_Key :: string
  ms_LatestVersion :: string
  ms_VersionCount :: u64
  ms_LastPublishTS :: gotime

record AvailabilityUpdateObj =
  au_Key :: string
  au_Available :: bool
  au_Present :: bool
  au_ScanAt :: gotime

record state_Obj =
  so_snap :: "SnapshotObj option"
  so_keyMap :: "(string \<times> keyMutObj) list"
  so_keyOrder :: "string list"
  so_keyIndex :: "string \<Rightarrow> nat option"
  so_diagnosticMap :: "(diagnosticKeyObj \<times> diagnosticRecordObj) list"
  so_diagnosticByKey :: "string \<Rightarrow> diagnosticKeyObj list option"
  so_inactiveHead :: "diagnosticKeyObj option"
  so_inactiveTail :: "diagnosticKeyObj option"
  so_inactiveLen :: int
  so_content :: HashObj
  so_lastRescan :: gotime
  so_generation :: u64
  so_droppedDiagnostics :: u64
  so_permanentAt :: u32
  so_maxDiagnostics :: nat

section \<open>Validation helpers (helper.go)\<close>

definition validateText :: "string \<Rightarrow> nat \<Rightarrow> state_error + unit" where
  "validateText v maxBytes =
     (if is_blank v then Inl TextEmpty else if length v > maxBytes then Inl TextTooLong else Inr ())"

definition validateOptionalText :: "string \<Rightarrow> nat \<Rightarrow> state_error + unit" where
  "validateOptionalText v maxBytes =
     (if v = [] then Inr ()
      else if is_blank v then Inl TextEmpty
      else if length v > maxBytes then Inl TextTooLong else Inr ())"

fun trim_limit :: "string \<Rightarrow> nat \<Rightarrow> nat" where
  "trim_limit text limit =
     (if limit > 0 \<and> \<not> utf8_valid (take limit text) then trim_limit text (limit - 1) else limit)"

declare trim_limit.simps [simp del]

definition trimMessage :: "string \<Rightarrow> string" where
  "trimMessage text =
     (if length text \<le> cMaxMessageBytes then text else take (trim_limit text cMaxMessageBytes) text)"

definition statusRank :: "OperationalStatusType \<Rightarrow> int" where
  "statusRank s = (case s of StatusError \<Rightarrow> 2 | StatusDegraded \<Rightarrow> 1 | _ \<Rightarrow> 0)"

definition maxStatus :: "OperationalStatusType \<Rightarrow> OperationalStatusType \<Rightarrow> OperationalStatusType" where
  "maxStatus leftObj rightObj = (if statusRank rightObj > statusRank leftObj then rightObj else leftObj)"

definition checkedClass :: "SourceClassType \<Rightarrow> state_error + unit" where
  "checkedClass c = (case c of SourceClassGit \<Rightarrow> Inr () | SourceClassBrother \<Rightarrow> Inr () | _ \<Rightarrow> Inl ClassInvalid)"

section \<open>Snapshots (snapshot.go)\<close>

definition diagnosticViewFromRecord :: "diagnosticRecordObj \<Rightarrow> DiagnosticViewObj" where
  "diagnosticViewFromRecord r =
     \<lparr>dv_Code = dr_code r, dv_Scope = dr_scope r, dv_Impact = dr_impact r, dv_Reason = dr_reason r,
      dv_Key = dr_key r, dv_Version = dr_version r, dv_Message = dr_message r,
      dv_FirstSeen = dr_firstSeen r, dv_LastSeen = dr_lastSeen r, dv_Count = dr_count r\<rparr>"

definition keyViewFromMut :: "keyMutObj \<Rightarrow> OperationalStatusType \<Rightarrow> KeyStateObj" where
  "keyViewFromMut m statusObj =
     \<lparr>ks_Key = km_key m, ks_Status = statusObj, ks_Classification = km_classification m,
      ks_Classified = km_classified m, ks_SourceURL = km_sourceURL m, ks_BrotherURL = km_brotherURL m,
      ks_RemoteKey = km_remoteKey m, ks_Availability = km_availability m,
      ks_UnavailableCycles = km_unavailableCycles m, ks_LastScan = km_lastScan m,
      ks_UpstreamPresent = km_upstreamPresent m, ks_LatestVersion = km_latestVersion m,
      ks_VersionCount = km_versionCount m, ks_LastPublishTS = km_lastPublishTS m\<rparr>"

definition diag_sort_key :: "DiagnosticViewObj \<Rightarrow> int \<times> string \<times> string \<times> string" where
  "diag_sort_key d = (- dv_LastSeen d, dv_Code d, dv_Key d, dv_Version d)"

definition sortDiagnosticViews :: "DiagnosticViewObj list \<Rightarrow> DiagnosticViewObj list" where
  "sortDiagnosticViews arr = sort_key diag_sort_key arr"

definition sortedReasons :: "LogReasonType list \<Rightarrow> LogReasonType list" where
  "sortedReasons reasons = take cMaxHealthReasons (sort_key reason_int reasons)"

definition statusForKey ::
  "string \<Rightarrow> OperationalStatusType \<Rightarrow> (string \<Rightarrow> OperationalStatusType option) \<Rightarrow> OperationalStatusType" where
  "statusForKey key globalObj statusMap =
     (case statusMap key of None \<Rightarrow> globalObj | Some s \<Rightarrow> maxStatus globalObj s)"

text \<open>The variables of the loop of \<open>buildSnapshotLocked\<close> over the diagnostics.\<close>

record health_scan =
  hs_arr :: "DiagnosticViewObj list"
  hs_reasons :: "LogReasonType list"
  hs_keyStatus :: "string \<Rightarrow> OperationalStatusType option"
  hs_health :: OperationalStatusType
  hs_global :: OperationalStatusType

definition health_step :: "diagnosticRecordObj \<Rightarrow> health_scan \<Rightarrow> health_scan" where
  "health_step r h =
     (if \<not> dr_active r then h
      else
        let h1 = h\<lparr>hs_arr := hs_arr h @ [diagnosticViewFromRecord r],
                   hs_reasons := List.insert (dr_reason r) (hs_reasons h),
                   hs_health := maxStatus (hs_health h) (dr_impact r)\<rparr>
        in if dr_scope r = ScopeGlobal \<or> dr_key r = []
           then h1\<lparr>hs_global := maxStatus (hs_global h) (dr_impact r)\<rparr>
           else h1\<lparr>hs_keyStatus := (hs_keyStatus h)(dr_key r \<mapsto>
                  maxStatus (case hs_keyStatus h (dr_key r) of None \<Rightarrow> UndefOperationalStatus | Some s \<Rightarrow> s)
                    (dr_impact r))\<rparr>)"

definition health_start :: health_scan where
  "health_start = \<lparr>hs_arr = [], hs_reasons = [], hs_keyStatus = (\<lambda>_. None),
     hs_health = StatusOk, hs_global = StatusOk\<rparr>"

definition build_from :: "diagnosticRecordObj list \<Rightarrow> state_Obj \<Rightarrow> SnapshotObj" where
  "build_from records obj =
     (let h = fold health_step records health_start;
          diagnosticArr = sortDiagnosticViews (hs_arr h)
      in \<lparr>sn_Content = so_content obj, sn_LastRescan = so_lastRescan obj, sn_Generation = 0,
          sn_health = \<lparr>hv_Status = hs_health h, hv_Reasons = sortedReasons (hs_reasons h),
            hv_DiagnosticsCount = word_of_nat (length diagnosticArr),
            hv_DroppedDiagnostics = so_droppedDiagnostics obj\<rparr>,
          sn_keyArr = map (\<lambda>key. keyViewFromMut (the (map_of (so_keyMap obj) key))
             (statusForKey key (hs_global h) (hs_keyStatus h))) (so_keyOrder obj),
          sn_keyIndex = so_keyIndex obj,
          sn_diagnosticArr = diagnosticArr\<rparr>)"

definition buildSnapshot :: "state_Obj \<Rightarrow> SnapshotObj" where
  "buildSnapshot obj = build_from (map snd (so_diagnosticMap obj)) obj"

definition sn_KeyState :: "SnapshotObj \<Rightarrow> string \<Rightarrow> KeyStateObj option" where
  "sn_KeyState sn key = (case sn_keyIndex sn key of None \<Rightarrow> None | Some i \<Rightarrow> Some (sn_keyArr sn ! i))"

definition RecentDiagnostics :: "SnapshotObj \<Rightarrow> int \<Rightarrow> DiagnosticViewObj list" where
  "RecentDiagnostics sn limit =
     (let limit1 = (if limit < 0 then 0 else limit);
          limit2 = (if limit1 > int (length (sn_diagnosticArr sn)) then int (length (sn_diagnosticArr sn)) else limit1)
      in take (nat limit2) (sn_diagnosticArr sn))"

section \<open>Publishing (helper.go)\<close>

definition bumpGeneration :: "state_Obj \<Rightarrow> state_Obj" where
  "bumpGeneration obj =
     (if so_generation obj < NOT 0 then obj\<lparr>so_generation := so_generation obj + 1\<rparr> else obj)"

definition publishSnapshot :: "SnapshotObj \<Rightarrow> state_Obj \<Rightarrow> state_Obj" where
  "publishSnapshot snapshotObj obj =
     (let obj1 = bumpGeneration obj
      in obj1\<lparr>so_snap := Some (snapshotObj\<lparr>sn_Generation := so_generation obj1\<rparr>)\<rparr>)"

definition publishChanged :: "bool \<Rightarrow> state_Obj \<Rightarrow> state_Obj" where
  "publishChanged changedFlag obj =
     (if \<not> changedFlag then obj else publishSnapshot (buildSnapshot obj) obj)"

definition publishMetaChanged :: "bool \<Rightarrow> state_Obj \<Rightarrow> state_Obj" where
  "publishMetaChanged changedFlag obj =
     (if \<not> changedFlag then obj
      else case so_snap obj of
        None \<Rightarrow> publishChanged True obj
      | Some currentObj \<Rightarrow>
          publishSnapshot (currentObj\<lparr>sn_Content := so_content obj, sn_LastRescan := so_lastRescan obj\<rparr>) obj)"

definition rebuilt_key_views :: "SnapshotObj \<Rightarrow> state_Obj \<Rightarrow> KeyStateObj list" where
  "rebuilt_key_views currentObj obj =
     map (\<lambda>(index, key).
        keyViewFromMut (the (map_of (so_keyMap obj) key))
          (if index < length (sn_keyArr currentObj) then ks_Status (sn_keyArr currentObj ! index) else StatusOk))
       (enumerate 0 (so_keyOrder obj))"

definition publishKeyViewsChanged :: "bool \<Rightarrow> state_Obj \<Rightarrow> state_Obj" where
  "publishKeyViewsChanged changedFlag obj =
     (if \<not> changedFlag then obj
      else case so_snap obj of
        None \<Rightarrow> publishChanged True obj
      | Some currentObj \<Rightarrow>
          publishSnapshot (currentObj\<lparr>sn_Content := so_content obj, sn_LastRescan := so_lastRescan obj,
            sn_keyArr := rebuilt_key_views currentObj obj\<rparr>) obj)"

definition publishHealthChanged :: "bool \<Rightarrow> state_Obj \<Rightarrow> state_Obj" where
  "publishHealthChanged changedFlag obj =
     (if \<not> changedFlag then obj
      else case so_snap obj of
        None \<Rightarrow> publishChanged True obj
      | Some currentObj \<Rightarrow>
          publishSnapshot (currentObj\<lparr>sn_health :=
            (sn_health currentObj)\<lparr>hv_DroppedDiagnostics := so_droppedDiagnostics obj\<rparr>\<rparr>) obj)"

end
