(* ===== verification/State_Ops.thy ===== *)
theory State_Ops
  imports State_Defs Triples
begin

text \<open>
  The operations of the state registry: construction (\<open>init.go\<close>), availability and its state
  machine (\<open>availability.go\<close>), classification, remote key and statistics (\<open>method.go\<close>), the
  content checksum (\<open>checksum.go\<close>) and the diagnostics with their intrusive list of inactive
  records (\<open>registry.go\<close>).
\<close>

section \<open>Keys\<close>

definition keyMut :: "state_Obj \<Rightarrow> string \<Rightarrow> state_error + keyMutObj" where
  "keyMut obj key =
     andthen (validateText key cMaxKeyBytes) (\<lambda>_.
       case map_of (so_keyMap obj) key of None \<Rightarrow> Inl StateKeyNotFound | Some m \<Rightarrow> Inr m)"

definition put_key :: "string \<Rightarrow> keyMutObj \<Rightarrow> state_Obj \<Rightarrow> state_Obj" where
  "put_key key m obj = obj\<lparr>so_keyMap := AList.update key m (so_keyMap obj)\<rparr>"

definition newKeyMutObj :: "string \<Rightarrow> string \<Rightarrow> keyMutObj" where
  "newKeyMutObj key sourceURL =
     \<lparr>km_key = key, km_classification = UndefSourceClass, km_classified = False, km_sourceURL = sourceURL,
      km_brotherURL = [], km_remoteKey = [], km_availability = AvUnknown, km_unavailableCycles = 0,
      km_lastScan = 0, km_upstreamPresent = False, km_latestVersion = [], km_versionCount = 0,
      km_lastPublishTS = 0, km_reclassAllowed = False\<rparr>"

fun index_from :: "nat \<Rightarrow> string list \<Rightarrow> string \<Rightarrow> nat option" where
  "index_from i [] = (\<lambda>_. None)"
| "index_from i (key # keys) = (index_from (Suc i) keys)(key \<mapsto> i)"

definition buildKeyIndex :: "state_Obj \<Rightarrow> state_Obj" where
  "buildKeyIndex obj =
     (let order = sort (map fst (so_keyMap obj))
      in obj\<lparr>so_keyOrder := order, so_keyIndex := index_from 0 order\<rparr>)"

fun seed_keys :: "(string \<times> string) list \<Rightarrow> state_Obj \<Rightarrow> state_error + state_Obj" where
  "seed_keys [] obj = Inr obj"
| "seed_keys ((key, sourceURL) # mirrors) obj =
     andthen (validateText key cMaxKeyBytes) (\<lambda>_.
     andthen (validateText sourceURL cMaxURLBytes) (\<lambda>_.
       seed_keys mirrors (put_key key (newKeyMutObj key sourceURL) obj)))"

definition state_New :: "(string \<times> string) list \<Rightarrow> u64 \<Rightarrow> state_error + state_Obj" where
  "state_New mirrors permanentValue =
     guard (mirrors = []) NoMirrors
    (guard (length mirrors > cMaxKeys) TooManyMirrors
    (guard (permanentValue < 1) PermanentTooSmall
    (guard (permanentValue > 4294967295) PermanentTooLarge
    (andthen (seed_keys mirrors
       \<lparr>so_snap = None, so_keyMap = [], so_keyOrder = [], so_keyIndex = (\<lambda>_. None),
        so_diagnosticMap = [], so_diagnosticByKey = (\<lambda>_. None), so_inactiveHead = None,
        so_inactiveTail = None, so_inactiveLen = 0, so_content = zero_hash, so_lastRescan = 0,
        so_generation = 0, so_droppedDiagnostics = 0, so_permanentAt = ucast permanentValue,
        so_maxDiagnostics = cDefaultMaxDiagnostics\<rparr>) (\<lambda>obj.
     let obj1 = buildKeyIndex obj in Inr (obj1\<lparr>so_snap := Some (buildSnapshot obj1)\<rparr>))))))"

section \<open>Availability (availability.go)\<close>

definition validateScanAt :: "gotime \<Rightarrow> gotime \<Rightarrow> state_error + unit" where
  "validateScanAt scanAt now =
     (if scanAt = 0 then Inl ScanEmpty
      else if scanAt > now + cMaxScanFutureSkew then Inl ScanInFuture else Inr ())"

definition validateAvailabilityUpdate :: "gotime \<Rightarrow> AvailabilityUpdateObj \<Rightarrow> state_error + unit" where
  "validateAvailabilityUpdate now u =
     andthen (validateText (au_Key u) cMaxKeyBytes) (\<lambda>_. validateScanAt (au_ScanAt u) now)"

definition staleScan :: "keyMutObj \<Rightarrow> gotime \<Rightarrow> bool" where
  "staleScan m scanAt =
     (if km_lastScan m = 0 then scanAt = 0 \<and> km_availability m \<noteq> AvUnknown else scanAt < km_lastScan m)"

definition sameCycleReplay :: "keyMutObj \<Rightarrow> gotime \<Rightarrow> bool" where
  "sameCycleReplay m scanAt \<longleftrightarrow>
     km_lastScan m \<noteq> 0 \<and> scanAt = km_lastScan m \<and> km_availability m \<noteq> AvAvailable"

definition applyAvailable :: "keyMutObj \<Rightarrow> AvailabilityUpdateObj \<Rightarrow> keyMutObj \<times> bool" where
  "applyAvailable m u =
     (if staleScan m (au_ScanAt u) \<or> sameCycleReplay m (au_ScanAt u) then (m, False)
      else
        let previousObj = km_availability m;
            changedFlag = (previousObj \<noteq> AvAvailable \<or> km_unavailableCycles m \<noteq> 0 \<or>
              km_upstreamPresent m \<noteq> au_Present u \<or> km_lastScan m \<noteq> au_ScanAt u);
            m1 = m\<lparr>km_availability := AvAvailable, km_unavailableCycles := 0,
                   km_upstreamPresent := au_Present u, km_lastScan := au_ScanAt u\<rparr>;
            m2 = (if previousObj = AvPermanentDown then m1\<lparr>km_reclassAllowed := True\<rparr> else m1)
        in (m2, changedFlag))"

definition applyUnavailable :: "u32 \<Rightarrow> keyMutObj \<Rightarrow> AvailabilityUpdateObj \<Rightarrow> keyMutObj \<times> bool" where
  "applyUnavailable permanentAt m u =
     (if staleScan m (au_ScanAt u) \<or> sameCycleReplay m (au_ScanAt u) then (m, False)
      else
        let m1 = (if km_unavailableCycles m < permanentAt
                  then m\<lparr>km_unavailableCycles := km_unavailableCycles m + 1\<rparr> else m);
            m2 = (if km_unavailableCycles m1 \<ge> permanentAt
                  then m1\<lparr>km_availability := AvPermanentDown\<rparr>
                  else m1\<lparr>km_availability := AvTemporaryDown\<rparr>);
            m3 = m2\<lparr>km_upstreamPresent := False, km_reclassAllowed := False,
                    km_lastScan := au_ScanAt u\<rparr>
        in (m3, km_availability m \<noteq> km_availability m3 \<or>
                km_unavailableCycles m \<noteq> km_unavailableCycles m3 \<or>
                km_upstreamPresent m \<noteq> km_upstreamPresent m3 \<or>
                km_reclassAllowed m \<noteq> km_reclassAllowed m3 \<or>
                km_lastScan m \<noteq> km_lastScan m3))"

definition applyAvailability :: "u32 \<Rightarrow> keyMutObj \<Rightarrow> AvailabilityUpdateObj \<Rightarrow> keyMutObj \<times> bool" where
  "applyAvailability permanentAt m u =
     (if au_Available u then applyAvailable m u else applyUnavailable permanentAt m u)"

fun check_each :: "('a \<Rightarrow> 'e + unit) \<Rightarrow> 'a list \<Rightarrow> 'e + unit" where
  "check_each f [] = Inr ()"
| "check_each f (x # xs) = andthen (f x) (\<lambda>_. check_each f xs)"

text \<open>The loop over a batch that rejects duplicate and unknown keys (\<open>seenMap\<close>).\<close>

fun batch_keys :: "state_Obj \<Rightarrow> string list \<Rightarrow> string list \<Rightarrow> state_error + unit" where
  "batch_keys obj seen [] = Inr ()"
| "batch_keys obj seen (key # keys) =
     (if key \<in> set seen then Inl BatchDuplicateKey
      else andthen (keyMut obj key) (\<lambda>_. batch_keys obj (key # seen) keys))"

fun apply_updates :: "AvailabilityUpdateObj list \<Rightarrow> bool \<times> state_Obj \<Rightarrow> bool \<times> state_Obj" where
  "apply_updates [] r = r"
| "apply_updates (u # us) (changedFlag, obj) =
     (let (m, c) = applyAvailability (so_permanentAt obj) (the (map_of (so_keyMap obj) (au_Key u))) u
      in apply_updates us (c \<or> changedFlag, put_key (au_Key u) m obj))"

definition ApplyAvailabilityBatch ::
  "gotime \<Rightarrow> AvailabilityUpdateObj list \<Rightarrow> (state_Obj, state_error, unit) op" where
  "ApplyAvailabilityBatch now us obj =
     (if us = [] then (Inr (), obj)
      else if length us > length (so_keyMap obj) then (Inl BatchTooLarge, obj)
      else case check_each (validateAvailabilityUpdate now) us of
        Inl e \<Rightarrow> (Inl e, obj)
      | Inr _ \<Rightarrow>
          if length us = 1 then
            (case keyMut obj (au_Key (hd us)) of
               Inl e \<Rightarrow> (Inl e, obj)
             | Inr m \<Rightarrow>
                 let (m', changedFlag) = applyAvailability (so_permanentAt obj) m (hd us)
                 in (Inr (), publishKeyViewsChanged changedFlag (put_key (au_Key (hd us)) m' obj)))
          else
            (case batch_keys obj [] (map au_Key us) of
               Inl e \<Rightarrow> (Inl e, obj)
             | Inr _ \<Rightarrow>
                 let (changedFlag, obj') = apply_updates us (False, obj)
                 in (Inr (), publishKeyViewsChanged changedFlag obj')))"

definition MarkAvailable :: "gotime \<Rightarrow> string \<Rightarrow> bool \<Rightarrow> gotime \<Rightarrow> (state_Obj, state_error, unit) op" where
  "MarkAvailable now key present scanAt =
     ApplyAvailabilityBatch now [\<lparr>au_Key = key, au_Available = True, au_Present = present, au_ScanAt = scanAt\<rparr>]"

definition MarkUnavailable :: "gotime \<Rightarrow> string \<Rightarrow> gotime \<Rightarrow> (state_Obj, state_error, unit) op" where
  "MarkUnavailable now key scanAt =
     ApplyAvailabilityBatch now [\<lparr>au_Key = key, au_Available = False, au_Present = False, au_ScanAt = scanAt\<rparr>]"

section \<open>Classification, remote key, statistics, checksum (method.go, checksum.go)\<close>

text \<open>
  \<open>SetClassification\<close> after its checks: the new record, whether it changed, and the error of
  the second check of the brother URL, which returns after the class is already written.
\<close>

definition classify_key ::
  "SourceClassType \<Rightarrow> string \<Rightarrow> string \<Rightarrow> bool \<Rightarrow> keyMutObj \<Rightarrow> (state_error + bool) \<times> keyMutObj" where
  "classify_key classObj sourceURL brotherURL classChangedFlag m =
     (let m1 = m\<lparr>km_classification := classObj, km_classified := True\<rparr>;
          m2 = (if classChangedFlag then m1\<lparr>km_reclassAllowed := False\<rparr> else m1);
          srcFlag = (sourceURL \<noteq> [] \<and> sourceURL \<noteq> km_sourceURL m2);
          m3 = (if srcFlag then m2\<lparr>km_sourceURL := sourceURL\<rparr> else m2);
          nextBrotherURL = (if classObj = SourceClassBrother then brotherURL else [])
      in if nextBrotherURL \<noteq> km_brotherURL m3
         then (case validateOptionalText nextBrotherURL cMaxURLBytes of
                 Inl e \<Rightarrow> (Inl e, m3)
               | Inr _ \<Rightarrow> (Inr True, m3\<lparr>km_brotherURL := nextBrotherURL\<rparr>))
         else (Inr (classChangedFlag \<or> srcFlag), m3))"

definition SetClassification ::
  "string \<Rightarrow> SourceClassType \<Rightarrow> string \<Rightarrow> string \<Rightarrow> (state_Obj, state_error, unit) op" where
  "SetClassification key classObj sourceURL brotherURL obj =
     (case andthen (checkedClass classObj) (\<lambda>_.
           andthen (validateOptionalText sourceURL cMaxURLBytes) (\<lambda>_.
           andthen (validateOptionalText brotherURL cMaxURLBytes) (\<lambda>_. keyMut obj key))) of
        Inl e \<Rightarrow> (Inl e, obj)
      | Inr m \<Rightarrow>
          let classChangedFlag = (\<not> km_classified m \<or> km_classification m \<noteq> classObj)
          in if classChangedFlag \<and> km_classified m \<and> \<not> km_reclassAllowed m
             then (Inl ReclassNotAllowed, obj)
             else case classify_key classObj sourceURL brotherURL classChangedFlag m of
               (Inl e, m') \<Rightarrow> (Inl e, put_key key m' obj)
             | (Inr changedFlag, m') \<Rightarrow> (Inr (), publishKeyViewsChanged changedFlag (put_key key m' obj)))"

definition SetRemoteKey :: "string \<Rightarrow> string \<Rightarrow> (state_Obj, state_error, unit) op" where
  "SetRemoteKey key remoteKey obj =
     (case andthen (validateOptionalText remoteKey cMaxKeyBytes) (\<lambda>_. keyMut obj key) of
        Inl e \<Rightarrow> (Inl e, obj)
      | Inr m \<Rightarrow>
          let nextRemoteKey = (if remoteKey = [] then key else remoteKey)
          in if nextRemoteKey = km_remoteKey m then (Inr (), obj)
             else (Inr (), publishKeyViewsChanged True (put_key key (m\<lparr>km_remoteKey := nextRemoteKey\<rparr>) obj)))"

definition mirrorStatsChanged :: "keyMutObj \<Rightarrow> MirrorStatsObj \<Rightarrow> bool" where
  "mirrorStatsChanged m st \<longleftrightarrow>
     km_latestVersion m \<noteq> ms_LatestVersion st \<or> km_versionCount m \<noteq> ms_VersionCount st \<or>
     km_lastPublishTS m \<noteq> ms_LastPublishTS st"

definition applyMirrorStats :: "keyMutObj \<Rightarrow> MirrorStatsObj \<Rightarrow> keyMutObj" where
  "applyMirrorStats m st =
     (if km_latestVersion m = ms_LatestVersion st \<and> km_versionCount m = ms_VersionCount st \<and>
         km_lastPublishTS m = ms_LastPublishTS st then m
      else
        let m1 = (if km_latestVersion m \<noteq> ms_LatestVersion st then m\<lparr>km_latestVersion := ms_LatestVersion st\<rparr> else m);
            m2 = (if km_versionCount m1 \<noteq> ms_VersionCount st then m1\<lparr>km_versionCount := ms_VersionCount st\<rparr> else m1)
        in if km_lastPublishTS m2 \<noteq> ms_LastPublishTS st then m2\<lparr>km_lastPublishTS := ms_LastPublishTS st\<rparr> else m2)"

fun apply_stats :: "MirrorStatsObj list \<Rightarrow> bool \<times> state_Obj \<Rightarrow> bool \<times> state_Obj" where
  "apply_stats [] r = r"
| "apply_stats (st # sts) (changedFlag, obj) =
     (let m = the (map_of (so_keyMap obj) (ms_Key st))
      in apply_stats sts (mirrorStatsChanged m st \<or> changedFlag, put_key (ms_Key st) (applyMirrorStats m st) obj))"

definition validate_stats :: "MirrorStatsObj \<Rightarrow> state_error + unit" where
  "validate_stats st =
     andthen (validateText (ms_Key st) cMaxKeyBytes) (\<lambda>_.
       validateOptionalText (ms_LatestVersion st) cMaxVersionBytes)"

definition SetMirrorStatsBatch :: "MirrorStatsObj list \<Rightarrow> (state_Obj, state_error, unit) op" where
  "SetMirrorStatsBatch sts obj =
     (if sts = [] then (Inr (), obj)
      else if length sts > length (so_keyMap obj) then (Inl BatchTooLarge, obj)
      else case check_each validate_stats sts of
        Inl e \<Rightarrow> (Inl e, obj)
      | Inr _ \<Rightarrow>
          if length sts = 1 then
            (case keyMut obj (ms_Key (hd sts)) of
               Inl e \<Rightarrow> (Inl e, obj)
             | Inr m \<Rightarrow> (Inr (), publishKeyViewsChanged (mirrorStatsChanged m (hd sts))
                           (put_key (ms_Key (hd sts)) (applyMirrorStats m (hd sts)) obj)))
          else
            (case batch_keys obj [] (map ms_Key sts) of
               Inl e \<Rightarrow> (Inl e, obj)
             | Inr _ \<Rightarrow>
                 let (changedFlag, obj') = apply_stats sts (False, obj)
                 in (Inr (), publishKeyViewsChanged changedFlag obj')))"

definition SetLastRescan :: "gotime \<Rightarrow> state_Obj \<Rightarrow> state_Obj" where
  "SetLastRescan ts obj =
     (if so_lastRescan obj = ts then obj else publishMetaChanged True (obj\<lparr>so_lastRescan := ts\<rparr>))"

definition setContentChecksum :: "HashObj \<Rightarrow> state_Obj \<Rightarrow> bool \<times> state_Obj" where
  "setContentChecksum contentObj obj =
     (if so_content obj = contentObj then (False, obj) else (True, obj\<lparr>so_content := contentObj\<rparr>))"

definition SetContentChecksum :: "HashObj \<Rightarrow> state_Obj \<Rightarrow> state_Obj" where
  "SetContentChecksum contentObj obj =
     (let (changedFlag, obj') = setContentChecksum contentObj obj in publishMetaChanged changedFlag obj')"

end
