(* ===== verification/State_Registry.thy ===== *)
theory State_Registry
  imports State_Ops
begin

text \<open>
  The diagnostics of the state registry (\<open>registry.go\<close>) and the intrusive doubly linked list of
  inactive records. The pointers \<open>inactivePrev\<close>, \<open>inactiveNext\<close>, \<open>inactiveHead\<close> and
  \<open>inactiveTail\<close> are the keys of the records they point to; \<open>upd_rec\<close> is an assignment through
  such a pointer. \<open>inactive_ok\<close> says which list the pointers form, and \<open>fifo\<close> is the queue
  the rest of the registry sees.
\<close>

section \<open>The intrusive list\<close>

definition get_rec :: "state_Obj \<Rightarrow> diagnosticKeyObj \<Rightarrow> diagnosticRecordObj option" where
  "get_rec obj k = map_of (so_diagnosticMap obj) k"

definition put_rec :: "diagnosticKeyObj \<Rightarrow> diagnosticRecordObj \<Rightarrow> state_Obj \<Rightarrow> state_Obj" where
  "put_rec k r obj = obj\<lparr>so_diagnosticMap := AList.update k r (so_diagnosticMap obj)\<rparr>"

definition upd_rec ::
  "diagnosticKeyObj \<Rightarrow> (diagnosticRecordObj \<Rightarrow> diagnosticRecordObj) \<Rightarrow> state_Obj \<Rightarrow> state_Obj" where
  "upd_rec k f obj = (case get_rec obj k of None \<Rightarrow> obj | Some r \<Rightarrow> put_rec k (f r) obj)"

definition pushInactiveTail :: "diagnosticKeyObj \<Rightarrow> state_Obj \<Rightarrow> state_Obj" where
  "pushInactiveTail k obj =
     (case so_inactiveTail obj of
        None \<Rightarrow> obj\<lparr>so_inactiveHead := Some k, so_inactiveTail := Some k,
                  so_inactiveLen := so_inactiveLen obj + 1\<rparr>
      | Some t \<Rightarrow>
          let obj1 = upd_rec k (\<lambda>r. r\<lparr>dr_inactivePrev := Some t\<rparr>) obj;
              obj2 = upd_rec t (\<lambda>r. r\<lparr>dr_inactiveNext := Some k\<rparr>) obj1
          in obj2\<lparr>so_inactiveTail := Some k, so_inactiveLen := so_inactiveLen obj2 + 1\<rparr>)"

definition unlinkInactive :: "diagnosticKeyObj \<Rightarrow> state_Obj \<Rightarrow> bool \<times> state_Obj" where
  "unlinkInactive k obj =
     (case get_rec obj k of
        None \<Rightarrow> (False, obj)
      | Some r \<Rightarrow>
          if dr_inactivePrev r = None \<and> dr_inactiveNext r = None \<and> so_inactiveHead obj \<noteq> Some k
          then (False, obj)
          else
            let obj1 = (case dr_inactivePrev r of
                    Some p \<Rightarrow> upd_rec p (\<lambda>q. q\<lparr>dr_inactiveNext := dr_inactiveNext r\<rparr>) obj
                  | None \<Rightarrow> obj\<lparr>so_inactiveHead := dr_inactiveNext r\<rparr>);
                obj2 = (case dr_inactiveNext r of
                    Some n \<Rightarrow> upd_rec n (\<lambda>q. q\<lparr>dr_inactivePrev := dr_inactivePrev r\<rparr>) obj1
                  | None \<Rightarrow> obj1\<lparr>so_inactiveTail := dr_inactivePrev r\<rparr>);
                obj3 = upd_rec k (\<lambda>q. q\<lparr>dr_inactivePrev := None, dr_inactiveNext := None\<rparr>) obj2
            in (True, if so_inactiveLen obj3 > 0 then obj3\<lparr>so_inactiveLen := so_inactiveLen obj3 - 1\<rparr> else obj3))"

section \<open>The registry\<close>

definition indexDiagnostic :: "diagnosticKeyObj \<Rightarrow> state_Obj \<Rightarrow> state_Obj" where
  "indexDiagnostic k obj =
     (if dk_key k = [] then obj
      else let setObj = (case so_diagnosticByKey obj (dk_key k) of None \<Rightarrow> [] | Some s \<Rightarrow> s)
           in obj\<lparr>so_diagnosticByKey := (so_diagnosticByKey obj)(dk_key k \<mapsto> List.insert k setObj)\<rparr>)"

definition unindexDiagnostic :: "diagnosticKeyObj \<Rightarrow> state_Obj \<Rightarrow> state_Obj" where
  "unindexDiagnostic k obj =
     (if dk_key k = [] then obj
      else case so_diagnosticByKey obj (dk_key k) of
        None \<Rightarrow> obj
      | Some setObj \<Rightarrow>
          let setObj1 = removeAll k setObj
          in obj\<lparr>so_diagnosticByKey := (so_diagnosticByKey obj)
               (dk_key k := (if setObj1 = [] then None else Some setObj1))\<rparr>)"

definition keyFromDiagnosticRecordObj :: "diagnosticRecordObj \<Rightarrow> diagnosticKeyObj" where
  "keyFromDiagnosticRecordObj r =
     \<lparr>dk_code = dr_code r, dk_scope = dr_scope r, dk_key = dr_key r, dk_version = dr_version r\<rparr>"

definition keyFromDiagnosticObj :: "DiagnosticObj \<Rightarrow> diagnosticKeyObj" where
  "keyFromDiagnosticObj d =
     \<lparr>dk_code = di_Code d, dk_scope = di_Scope d, dk_key = di_Key d, dk_version = di_Version d\<rparr>"

definition evictOldestInactive :: "state_Obj \<Rightarrow> bool \<times> state_Obj" where
  "evictOldestInactive obj =
     (case so_inactiveHead obj of
        None \<Rightarrow> (False, obj)
      | Some h \<Rightarrow>
          let k = keyFromDiagnosticRecordObj (the (get_rec obj h));
              obj1 = snd (unlinkInactive h obj);
              obj2 = obj1\<lparr>so_diagnosticMap := AList.delete k (so_diagnosticMap obj1)\<rparr>
          in (True, unindexDiagnostic k obj2))"

definition validateDiagnosticScope ::
  "state_Obj \<Rightarrow> LogScopeType \<Rightarrow> string \<Rightarrow> string \<Rightarrow> state_error + string" where
  "validateDiagnosticScope obj scopeObj key version =
     (case scopeObj of
        ScopeGlobal \<Rightarrow> if key \<noteq> [] \<or> version \<noteq> [] then Inl GlobalScopeWithKey else Inr []
      | ScopeKey \<Rightarrow>
          if version \<noteq> [] then Inl KeyScopeWithVersion
          else andthen (keyMut obj key) (\<lambda>m. Inr (km_key m))
      | ScopeVersion \<Rightarrow>
          andthen (keyMut obj key) (\<lambda>m.
          andthen (validateText version cMaxVersionBytes) (\<lambda>_. Inr (km_key m)))
      | _ \<Rightarrow> Inl ScopeInvalid)"

definition validateDiagnosticKeyObj :: "diagnosticKeyObj \<Rightarrow> state_error + unit" where
  "validateDiagnosticKeyObj d =
     andthen (validateText (dk_code d) cMaxDiagnosticCodeBytes) (\<lambda>_.
     andthen (validateOptionalText (dk_key d) cMaxKeyBytes) (\<lambda>_.
       validateOptionalText (dk_version d) cMaxVersionBytes))"

definition validateDiagnosticObj :: "DiagnosticObj \<Rightarrow> state_error + unit" where
  "validateDiagnosticObj d =
     andthen (validateText (di_Code d) cMaxDiagnosticCodeBytes) (\<lambda>_.
     andthen (validateOptionalText (di_Key d) cMaxKeyBytes) (\<lambda>_.
     andthen (validateOptionalText (di_Version d) cMaxVersionBytes) (\<lambda>_.
     guard (di_Impact d = UndefOperationalStatus \<or> \<not> status_valid (di_Impact d)) ImpactInvalid
    (guard (di_Impact d \<noteq> StatusDegraded \<and> di_Impact d \<noteq> StatusError) ImpactBelowThreshold
    (guard (di_Reason d = UndefLogReason \<or> \<not> reason_valid (di_Reason d)) ReasonInvalid (Inr ()))))))"

definition new_record :: "DiagnosticObj \<Rightarrow> gotime \<Rightarrow> diagnosticRecordObj" where
  "new_record d now =
     \<lparr>dr_code = di_Code d, dr_scope = di_Scope d, dr_impact = di_Impact d, dr_reason = di_Reason d,
      dr_key = di_Key d, dr_version = di_Version d, dr_message = trimMessage (di_Message d),
      dr_firstSeen = now, dr_lastSeen = now, dr_count = 1, dr_active = True,
      dr_inactivePrev = None, dr_inactiveNext = None\<rparr>"

definition repeat_record :: "DiagnosticObj \<Rightarrow> gotime \<Rightarrow> diagnosticRecordObj \<Rightarrow> diagnosticRecordObj" where
  "repeat_record d now r =
     r\<lparr>dr_scope := di_Scope d, dr_impact := di_Impact d, dr_reason := di_Reason d,
       dr_message := trimMessage (di_Message d), dr_lastSeen := now, dr_active := True,
       dr_count := (if dr_count r < NOT 0 then dr_count r + 1 else dr_count r)\<rparr>"

definition upsertDiagnostic ::
  "diagnosticKeyObj \<Rightarrow> DiagnosticObj \<Rightarrow> gotime \<Rightarrow> state_Obj \<Rightarrow> (state_error + bool) \<times> state_Obj" where
  "upsertDiagnostic k d now obj =
     (case get_rec obj k of
        Some r \<Rightarrow>
          let structuralChange = (\<not> dr_active r \<or> dr_impact r \<noteq> di_Impact d \<or>
                dr_reason r \<noteq> di_Reason d \<or> dr_scope r \<noteq> di_Scope d);
              obj1 = (if \<not> dr_active r then snd (unlinkInactive k obj) else obj)
          in (Inr structuralChange, upd_rec k (repeat_record d now) obj1)
      | None \<Rightarrow>
          let (evicted, obj1) = (if length (so_diagnosticMap obj) \<ge> so_maxDiagnostics obj
                then evictOldestInactive obj else (True, obj))
          in if \<not> evicted then
               (Inl RegistryFull,
                if so_droppedDiagnostics obj1 < NOT 0
                then obj1\<lparr>so_droppedDiagnostics := so_droppedDiagnostics obj1 + 1\<rparr> else obj1)
             else let stored = keyFromDiagnosticObj d
                  in (Inr True, indexDiagnostic stored (put_rec stored (new_record d now) obj1)))"

definition RaiseDiagnostic :: "gotime \<Rightarrow> DiagnosticObj \<Rightarrow> (state_Obj, state_error, unit) op" where
  "RaiseDiagnostic now d obj =
     (case andthen (validateDiagnosticObj d) (\<lambda>_.
             validateDiagnosticScope obj (di_Scope d) (di_Key d) (di_Version d)) of
        Inl e \<Rightarrow> (Inl e, obj)
      | Inr canonicalKey \<Rightarrow>
          let d1 = d\<lparr>di_Key := canonicalKey\<rparr>
          in case upsertDiagnostic (keyFromDiagnosticObj d1) d1 now obj of
               (Inl e, obj1) \<Rightarrow> (Inl e, publishHealthChanged True obj1)
             | (Inr _, obj1) \<Rightarrow> (Inr (), publishChanged True obj1))"

definition deactivate :: "diagnosticKeyObj \<Rightarrow> state_Obj \<Rightarrow> state_Obj" where
  "deactivate k obj = pushInactiveTail k (upd_rec k (\<lambda>r. r\<lparr>dr_active := False\<rparr>) obj)"

definition ClearDiagnostic :: "diagnosticKeyObj \<Rightarrow> (state_Obj, state_error, unit) op" where
  "ClearDiagnostic d obj =
     (case andthen (validateDiagnosticKeyObj d) (\<lambda>_.
             validateDiagnosticScope obj (dk_scope d) (dk_key d) (dk_version d)) of
        Inl e \<Rightarrow> (Inl e, obj)
      | Inr canonicalKey \<Rightarrow>
          let k = d\<lparr>dk_key := canonicalKey\<rparr>
          in case get_rec obj k of
               None \<Rightarrow> (Inr (), publishChanged False obj)
             | Some r \<Rightarrow>
                 if dr_active r then (Inr (), publishChanged True (deactivate k obj))
                 else (Inr (), publishChanged False obj))"

text \<open>
  The bodies of the loops of \<open>clearDiagnosticsLocked\<close> and \<open>ClearAllDiagnostics\<close>: \<open>sel\<close> is
  their test beyond being active, \<open>ord\<close> the order in which \<open>range\<close> visits the keys.
\<close>

fun clear_loop ::
  "(diagnosticRecordObj \<Rightarrow> bool) \<Rightarrow> diagnosticKeyObj list \<Rightarrow> bool \<times> state_Obj \<Rightarrow> bool \<times> state_Obj" where
  "clear_loop sel [] r = r"
| "clear_loop sel (k # ord) (changedFlag, obj) =
     (case get_rec obj k of
        None \<Rightarrow> clear_loop sel ord (changedFlag, obj)
      | Some r \<Rightarrow>
          if \<not> dr_active r then clear_loop sel ord (changedFlag, obj)
          else if \<not> sel r then clear_loop sel ord (changedFlag, obj)
          else clear_loop sel ord (True, deactivate k obj))"

definition key_selected :: "string \<Rightarrow> bool \<Rightarrow> diagnosticRecordObj \<Rightarrow> bool" where
  "key_selected version versionOnly r \<longleftrightarrow> \<not> (versionOnly \<and> dr_version r \<noteq> version)"

definition clearDiagnostics ::
  "(diagnosticKeyObj list \<Rightarrow> diagnosticKeyObj list) \<Rightarrow> string \<Rightarrow> string \<Rightarrow> bool \<Rightarrow> state_Obj \<Rightarrow> bool \<times> state_Obj" where
  "clearDiagnostics ord key version versionOnly obj =
     (case so_diagnosticByKey obj key of
        None \<Rightarrow> (False, obj)
      | Some setObj \<Rightarrow>
          if setObj = [] then (False, obj)
          else clear_loop (key_selected version versionOnly) (ord setObj) (False, obj))"

definition ClearKeyDiagnostics ::
  "(diagnosticKeyObj list \<Rightarrow> diagnosticKeyObj list) \<Rightarrow> string \<Rightarrow> (state_Obj, state_error, unit) op" where
  "ClearKeyDiagnostics ord key obj =
     (case keyMut obj key of
        Inl e \<Rightarrow> (Inl e, obj)
      | Inr _ \<Rightarrow> let (changedFlag, obj') = clearDiagnostics ord key [] False obj
                 in (Inr (), publishChanged changedFlag obj'))"

definition ClearVersionDiagnostics ::
  "(diagnosticKeyObj list \<Rightarrow> diagnosticKeyObj list) \<Rightarrow> string \<Rightarrow> string \<Rightarrow> (state_Obj, state_error, unit) op" where
  "ClearVersionDiagnostics ord key version obj =
     (case andthen (validateText version cMaxVersionBytes) (\<lambda>_. keyMut obj key) of
        Inl e \<Rightarrow> (Inl e, obj)
      | Inr _ \<Rightarrow> let (changedFlag, obj') = clearDiagnostics ord key version True obj
                 in (Inr (), publishChanged changedFlag obj'))"

definition ClearAllDiagnostics ::
  "(diagnosticKeyObj list \<Rightarrow> diagnosticKeyObj list) \<Rightarrow> state_Obj \<Rightarrow> state_Obj" where
  "ClearAllDiagnostics ord obj =
     (let (changedFlag, obj') = clear_loop (\<lambda>_. True) (ord (map fst (so_diagnosticMap obj))) (False, obj)
      in publishChanged changedFlag obj')"

end
