(* ===== verification/State_Diag.thy ===== *)
theory State_Diag
  imports State_Registry
begin

text \<open>
  The inactive list of the registry: the pointers form the doubly linked list \<open>xs\<close>
  (\<open>list_ok obj xs\<close>), pushing appends to it, unlinking removes from it, evicting takes its
  head. The locale \<open>fifo_queue\<close> is that contract, interpreted on the pointer code.
\<close>

section \<open>Doubly linked chains\<close>

definition first_of :: "'a list \<Rightarrow> 'a option \<Rightarrow> 'a option" where
  "first_of xs n = (case xs of [] \<Rightarrow> n | x # _ \<Rightarrow> Some x)"

definition last_of :: "'a list \<Rightarrow> 'a option \<Rightarrow> 'a option" where
  "last_of xs p = (if xs = [] then p else Some (last xs))"

lemma first_of_simps [simp]: "first_of [] n = n" "first_of (x # xs) n = Some x"
  by (simp_all add: first_of_def)

lemma last_of_simps [simp]: "last_of [] p = p" "last_of (xs @ [x]) p = Some x"
  "last_of (x # xs) p = last_of xs (Some x)"
  by (auto simp: last_of_def)

lemma first_of_append: "first_of (xs @ ys) n = first_of xs (first_of ys n)"
  by (cases xs) auto

lemma last_of_append: "last_of (xs @ ys) p = last_of ys (last_of xs p)"
  by (induction xs arbitrary: p) auto

lemma first_of_None [simp]: "first_of xs None = None \<longleftrightarrow> xs = []"
  by (cases xs) auto

lemma last_of_None [simp]: "last_of xs None = None \<longleftrightarrow> xs = []"
  by (simp add: last_of_def)

lemma last_of_Some [simp]: "last_of xs (Some a) \<noteq> None"
  by (simp add: last_of_def)

text \<open>\<open>chain m p xs n\<close>: the records \<open>xs\<close> are linked in this order between \<open>p\<close> and \<open>n\<close>.\<close>

fun chain ::
  "(diagnosticKeyObj \<Rightarrow> diagnosticRecordObj option) \<Rightarrow> diagnosticKeyObj option \<Rightarrow>
   diagnosticKeyObj list \<Rightarrow> diagnosticKeyObj option \<Rightarrow> bool" where
  "chain m p [] n \<longleftrightarrow> True"
| "chain m p (x # xs) n \<longleftrightarrow>
     (case m x of None \<Rightarrow> False
      | Some r \<Rightarrow> dr_inactivePrev r = p \<and> dr_inactiveNext r = first_of xs n) \<and> chain m (Some x) xs n"

lemma chain_append:
  "chain m p (xs @ ys) n \<longleftrightarrow> chain m p xs (first_of ys n) \<and> chain m (last_of xs p) ys n"
  by (induction xs arbitrary: p) (auto simp: first_of_append split: option.splits)

lemma chain_cong:
  "(\<And>x. x \<in> set xs \<Longrightarrow> m x = m' x) \<Longrightarrow> chain m p xs n \<longleftrightarrow> chain m' p xs n"
  by (induction xs arbitrary: p) (auto split: option.splits)

lemma chain_links_cong:
  "(\<And>x. x \<in> set xs \<Longrightarrow> map_option (\<lambda>r. (dr_inactivePrev r, dr_inactiveNext r)) (m x) =
     map_option (\<lambda>r. (dr_inactivePrev r, dr_inactiveNext r)) (m' x)) \<Longrightarrow>
   chain m p xs n \<longleftrightarrow> chain m' p xs n"
proof (induction xs arbitrary: p)
  case (Cons x xs)
  have "chain m (Some x) xs n \<longleftrightarrow> chain m' (Some x) xs n" by (rule Cons.IH) (simp add: Cons.prems)
  then show ?case using Cons.prems [of x] by (auto split: option.splits)
qed simp

lemma chain_present: "chain m p xs n \<Longrightarrow> x \<in> set xs \<Longrightarrow> m x \<noteq> None"
  by (induction xs arbitrary: p) (auto split: option.splits)

definition set_next :: "diagnosticKeyObj option \<Rightarrow> diagnosticRecordObj \<Rightarrow> diagnosticRecordObj" where
  "set_next n r = r\<lparr>dr_inactiveNext := n\<rparr>"

definition set_prev :: "diagnosticKeyObj option \<Rightarrow> diagnosticRecordObj \<Rightarrow> diagnosticRecordObj" where
  "set_prev p r = r\<lparr>dr_inactivePrev := p\<rparr>"

lemma chain_new_end:
  "chain m p xs n \<Longrightarrow> distinct xs \<Longrightarrow>
   (\<And>x. x \<in> set xs \<Longrightarrow> m' x = (if x = last xs then map_option (set_next n') (m x) else m x)) \<Longrightarrow>
   chain m' p xs n'"
proof (induction xs arbitrary: p)
  case (Cons x xs)
  show ?case
  proof (cases "xs = []")
    case True
    then show ?thesis using Cons.prems by (auto simp: set_next_def split: option.splits)
  next
    case False
    have "chain m' (Some x) xs n'"
      by (rule Cons.IH) (use Cons.prems False in auto)
    moreover have "m' x = m x"
      using Cons.prems(2) Cons.prems(3) [of x] False by auto
    ultimately show ?thesis using Cons.prems(1) False
      by (cases xs) (auto split: option.splits)
  qed
qed simp

lemma chain_new_start:
  "chain m p xs n \<Longrightarrow> distinct xs \<Longrightarrow>
   (\<And>x. x \<in> set xs \<Longrightarrow> m' x = (if x = hd xs then map_option (set_prev p') (m x) else m x)) \<Longrightarrow>
   chain m' p' xs n"
proof (cases xs)
  case (Cons x ys)
  assume a: "chain m p xs n" "distinct xs"
    "\<And>x. x \<in> set xs \<Longrightarrow> m' x = (if x = hd xs then map_option (set_prev p') (m x) else m x)"
  have "chain m' (Some x) ys n \<longleftrightarrow> chain m (Some x) ys n"
    by (rule chain_cong) (use a Cons in auto)
  then show ?thesis using a Cons by (auto simp: set_prev_def split: option.splits)
qed simp

section \<open>Reading and writing records\<close>

lemma get_put_rec [simp]: "get_rec (put_rec k r obj) j = (if j = k then Some r else get_rec obj j)"
  by (simp add: get_rec_def put_rec_def update_conv')

lemma get_upd_rec [simp]:
  "get_rec (upd_rec k f obj) j = (if j = k then map_option f (get_rec obj j) else get_rec obj j)"
  by (auto simp: upd_rec_def split: option.splits)

lemma get_rec_other_fields [simp]:
  "get_rec (obj\<lparr>so_inactiveHead := h\<rparr>) j = get_rec obj j"
  "get_rec (obj\<lparr>so_inactiveTail := h\<rparr>) j = get_rec obj j"
  "get_rec (obj\<lparr>so_inactiveLen := l\<rparr>) j = get_rec obj j"
  "get_rec (obj\<lparr>so_diagnosticByKey := b\<rparr>) j = get_rec obj j"
  "get_rec (obj\<lparr>so_droppedDiagnostics := d\<rparr>) j = get_rec obj j"
  by (simp_all add: get_rec_def)

lemma upd_rec_fields [simp]:
  "so_inactiveHead (upd_rec k f obj) = so_inactiveHead obj"
  "so_inactiveTail (upd_rec k f obj) = so_inactiveTail obj"
  "so_inactiveLen (upd_rec k f obj) = so_inactiveLen obj"
  "so_diagnosticByKey (upd_rec k f obj) = so_diagnosticByKey obj"
  by (simp_all add: upd_rec_def put_rec_def split: option.splits)

text \<open>\<open>rest obj\<close> is the object without its records and list pointers; the list code never touches it.\<close>

definition rest :: "state_Obj \<Rightarrow> state_Obj" where
  "rest obj = obj\<lparr>so_diagnosticMap := [], so_inactiveHead := None, so_inactiveTail := None, so_inactiveLen := 0\<rparr>"

definition diag_keys :: "state_Obj \<Rightarrow> diagnosticKeyObj list" where
  "diag_keys obj = map fst (so_diagnosticMap obj)"

lemma rest_upd_rec [simp]: "rest (upd_rec k f obj) = rest obj"
  by (simp add: upd_rec_def put_rec_def rest_def split: option.splits)

lemma rest_ptrs [simp]:
  "rest (obj\<lparr>so_inactiveHead := h\<rparr>) = rest obj"
  "rest (obj\<lparr>so_inactiveTail := h\<rparr>) = rest obj"
  "rest (obj\<lparr>so_inactiveLen := l\<rparr>) = rest obj"
  by (simp_all add: rest_def)

lemma get_rec_in_keys: "get_rec obj k \<noteq> None \<longleftrightarrow> k \<in> set (diag_keys obj)"
  by (simp add: get_rec_def diag_keys_def map_of_eq_None_iff)

lemma diag_keys_upd_rec [simp]: "diag_keys (upd_rec k f obj) = diag_keys obj"
proof (cases "get_rec obj k")
  case (Some r)
  then have "k \<in> set (map fst (so_diagnosticMap obj))" using get_rec_in_keys [of obj k] by (simp add: diag_keys_def)
  then show ?thesis using Some by (simp add: upd_rec_def put_rec_def diag_keys_def update_keys)
qed (simp add: upd_rec_def)

lemma diag_keys_ptrs [simp]:
  "diag_keys (obj\<lparr>so_inactiveHead := h\<rparr>) = diag_keys obj"
  "diag_keys (obj\<lparr>so_inactiveTail := h\<rparr>) = diag_keys obj"
  "diag_keys (obj\<lparr>so_inactiveLen := l\<rparr>) = diag_keys obj"
  by (simp_all add: diag_keys_def)

text \<open>\<open>data_of\<close> is a record without its links.\<close>

definition data_of :: "diagnosticRecordObj \<Rightarrow> diagnosticRecordObj" where
  "data_of r = r\<lparr>dr_inactivePrev := None, dr_inactiveNext := None\<rparr>"

definition data_rec :: "state_Obj \<Rightarrow> diagnosticKeyObj \<Rightarrow> diagnosticRecordObj option" where
  "data_rec obj k = map_option data_of (get_rec obj k)"

lemma data_of_links [simp]:
  "data_of (r\<lparr>dr_inactivePrev := p\<rparr>) = data_of r"
  "data_of (r\<lparr>dr_inactiveNext := n\<rparr>) = data_of r"
  "data_of (data_of r) = data_of r"
  by (simp_all add: data_of_def)

lemma data_of_links2 [simp]:
  "data_of (r\<lparr>dr_inactivePrev := p, dr_inactiveNext := n\<rparr>) = data_of r"
  by (simp add: data_of_def)

section \<open>The list operations\<close>

definition list_ok :: "state_Obj \<Rightarrow> diagnosticKeyObj list \<Rightarrow> bool" where
  "list_ok obj xs \<longleftrightarrow>
     chain (get_rec obj) None xs None \<and> distinct xs \<and>
     so_inactiveHead obj = first_of xs None \<and> so_inactiveTail obj = last_of xs None \<and>
     so_inactiveLen obj = int (length xs) \<and>
     (\<forall>k r. get_rec obj k = Some r \<longrightarrow> k \<notin> set xs \<longrightarrow> dr_inactivePrev r = None \<and> dr_inactiveNext r = None)"

lemma list_okD:
  assumes "list_ok obj xs"
  shows "chain (get_rec obj) None xs None" "distinct xs" "so_inactiveHead obj = first_of xs None"
    "so_inactiveTail obj = last_of xs None" "so_inactiveLen obj = int (length xs)"
    "get_rec obj k = Some r \<Longrightarrow> k \<notin> set xs \<Longrightarrow> dr_inactivePrev r = None \<and> dr_inactiveNext r = None"
  using assms by (auto simp: list_ok_def)

lemma list_ok_present: "list_ok obj xs \<Longrightarrow> x \<in> set xs \<Longrightarrow> get_rec obj x \<noteq> None"
  by (auto simp: list_ok_def dest: chain_present)

lemma push_frame:
  "rest (pushInactiveTail k obj) = rest obj"
  "diag_keys (pushInactiveTail k obj) = diag_keys obj"
  "data_rec (pushInactiveTail k obj) j = data_rec obj j"
  by (auto simp: pushInactiveTail_def Let_def data_rec_def option.map_comp comp_def split: option.splits)

lemma push_list_ok:
  assumes ok: "list_ok obj xs" and k: "get_rec obj k = Some r" "k \<notin> set xs"
  shows "list_ok (pushInactiveTail k obj) (xs @ [k])"
proof (cases xs rule: rev_cases)
  case Nil
  then show ?thesis using list_okD(6) [OF ok k] ok k
    by (auto simp: list_ok_def pushInactiveTail_def)
next
  case (snoc ys t)
  let ?o = "pushInactiveTail k obj"
  have tail: "so_inactiveTail obj = Some t" using list_okD(4) [OF ok] snoc by simp
  have neq: "k \<noteq> t" "t \<notin> set ys" "k \<notin> set ys" using k list_okD(2) [OF ok] snoc by auto
  have rec: "get_rec ?o j = (if j = t then map_option (set_next (Some k)) (get_rec obj t)
      else if j = k then Some (set_prev (Some t) r) else get_rec obj j)" for j
    using k neq by (auto simp: pushInactiveTail_def tail Let_def set_next_def [abs_def] set_prev_def)
  have ch: "chain (get_rec obj) None xs None" by (rule list_okD(1) [OF ok])
  have "chain (get_rec ?o) None xs (Some k)"
    by (rule chain_new_end [OF ch list_okD(2) [OF ok]]) (use snoc neq rec in auto)
  moreover have "dr_inactiveNext r = None" using list_okD(6) [OF ok k] by simp
  moreover have "last_of xs None = Some t" using snoc by simp
  ultimately have "chain (get_rec ?o) None (xs @ [k]) None"
    using neq(1) by (simp add: chain_append rec set_prev_def)
  moreover have "so_inactiveHead ?o = first_of (xs @ [k]) None"
    using list_okD(3) [OF ok] snoc by (simp add: pushInactiveTail_def tail Let_def first_of_append)
  moreover have "so_inactiveLen ?o = int (length (xs @ [k]))"
    using list_okD(5) [OF ok] by (simp add: pushInactiveTail_def tail Let_def)
  moreover have "so_inactiveTail ?o = Some k" by (simp add: pushInactiveTail_def tail Let_def)
  moreover have "dr_inactivePrev q = None \<and> dr_inactiveNext q = None"
    if "get_rec ?o j = Some q" "j \<notin> set (xs @ [k])" for j q
    using that list_okD(6) [OF ok, of j q] snoc by (auto simp: rec)
  ultimately show ?thesis using list_okD(2) [OF ok] k by (auto simp: list_ok_def)
qed

text \<open>Where an element of a list stands: its neighbours.\<close>

lemma unlink_neighbours:
  assumes ok: "list_ok obj (as @ k # bs)" and k: "get_rec obj k = Some r"
  shows "dr_inactivePrev r = last_of as None" "dr_inactiveNext r = first_of bs None"
    "k \<notin> set as" "k \<notin> set bs" "distinct as" "distinct bs" "set as \<inter> set bs = {}"
    "so_inactiveHead obj = Some k \<longleftrightarrow> as = []"
  using list_okD(1-3) [OF ok] k by (auto simp: chain_append first_of_append) (cases as; auto)+

lemma unlink_frame:
  "rest (snd (unlinkInactive k obj)) = rest obj"
  "diag_keys (snd (unlinkInactive k obj)) = diag_keys obj"
  "data_rec (snd (unlinkInactive k obj)) j = data_rec obj j"
  by (auto simp: unlinkInactive_def Let_def data_rec_def option.map_comp comp_def split: option.splits)

lemma unlink_rec:
  assumes "get_rec obj k = Some r"
    and "\<not> (dr_inactivePrev r = None \<and> dr_inactiveNext r = None \<and> so_inactiveHead obj \<noteq> Some k)"
    and "dr_inactivePrev r = last_of as None" "dr_inactiveNext r = first_of bs None"
    and "k \<notin> set as" "k \<notin> set bs" "set as \<inter> set bs = {}"
  shows "get_rec (snd (unlinkInactive k obj)) j =
    (if j = k then Some (data_of r)
     else if as \<noteq> [] \<and> j = last as then map_option (set_next (first_of bs None)) (get_rec obj j)
     else if bs \<noteq> [] \<and> j = hd bs then map_option (set_prev (last_of as None)) (get_rec obj j)
     else get_rec obj j)"
proof -
  have "\<not> (as \<noteq> [] \<and> bs \<noteq> [] \<and> last as = hd bs)"
    using assms(7) by (metis disjoint_iff hd_in_set last_in_set)
  moreover have "as \<noteq> [] \<Longrightarrow> last as \<noteq> k" "bs \<noteq> [] \<Longrightarrow> hd bs \<noteq> k" using assms by auto
  ultimately show ?thesis using assms
    by (cases bs) (auto simp: unlinkInactive_def Let_def data_of_def last_of_def set_next_def [abs_def]
        set_prev_def [abs_def])
qed

lemma unlink_list_ok:
  assumes ok: "list_ok obj (as @ k # bs)"
  shows "fst (unlinkInactive k obj) \<and> list_ok (snd (unlinkInactive k obj)) (as @ bs)"
proof -
  obtain r where k: "get_rec obj k = Some r" using list_ok_present [OF ok, of k] by auto
  note n = unlink_neighbours [OF ok k]
  have linked: "\<not> (dr_inactivePrev r = None \<and> dr_inactiveNext r = None \<and> so_inactiveHead obj \<noteq> Some k)"
    using n by (cases as) auto
  let ?o = "snd (unlinkInactive k obj)"
  note rec = unlink_rec [OF k linked n(1-4) n(7)]
  have ch: "chain (get_rec obj) None as (Some k)" "chain (get_rec obj) (Some k) bs None"
    using list_okD(1) [OF ok] by (auto simp: chain_append)
  have "chain (get_rec ?o) None as (first_of bs None)"
    by (rule chain_new_end [OF ch(1) n(5)]) (use n in \<open>auto simp: rec\<close>)
  moreover have "chain (get_rec ?o) (last_of as None) bs None"
  proof (rule chain_new_start [OF ch(2) n(6)])
    fix x assume x: "x \<in> set bs"
    then have "x \<noteq> k" "bs \<noteq> []" using n(4) by auto
    moreover have "\<not> (as \<noteq> [] \<and> x = last as)" using x n(7) by (metis disjoint_iff last_in_set)
    ultimately show "get_rec ?o x = (if x = hd bs then map_option (set_prev (last_of as None)) (get_rec obj x)
        else get_rec obj x)"
      by (auto simp: rec)
  qed
  ultimately have "chain (get_rec ?o) None (as @ bs) None" by (simp add: chain_append)
  moreover have "so_inactiveHead ?o = first_of (as @ bs) None"
    using k linked n list_okD(3) [OF ok]
    by (cases as; cases bs) (auto simp: unlinkInactive_def Let_def last_of_def)
  moreover have "so_inactiveTail ?o = last_of (as @ bs) None"
    using k linked n list_okD(4) [OF ok]
    by (cases bs) (auto simp: unlinkInactive_def Let_def last_of_append split: option.splits)
  moreover have "so_inactiveLen ?o = int (length (as @ bs))"
    using k linked list_okD(5) [OF ok]
    by (auto simp: unlinkInactive_def Let_def split: option.splits)
  moreover have "dr_inactivePrev q = None \<and> dr_inactiveNext q = None"
    if "get_rec ?o j = Some q" "j \<notin> set (as @ bs)" for j q
  proof (cases "j = k")
    case False
    moreover have "\<not> (as \<noteq> [] \<and> j = last as)" "\<not> (bs \<noteq> [] \<and> j = hd bs)" using that(2) by auto
    ultimately have "get_rec obj j = Some q" using that(1) by (auto simp: rec split: if_splits)
    then show ?thesis using list_okD(6) [OF ok, of j q] that(2) False by simp
  qed (use that in \<open>auto simp: rec data_of_def\<close>)
  moreover have "fst (unlinkInactive k obj)" using k linked by (simp add: unlinkInactive_def Let_def)
  ultimately show ?thesis using list_okD(2) [OF ok] by (auto simp: list_ok_def)
qed

section \<open>The queue contract\<close>

text \<open>
  What the registry relies on: \<open>ok s xs\<close> says that the queue in \<open>s\<close> holds \<open>xs\<close>, oldest
  first; \<open>has s\<close> are the records that may be queued.
\<close>

locale fifo_queue =
  fixes ok :: "'s \<Rightarrow> 'k list \<Rightarrow> bool"
    and has :: "'s \<Rightarrow> 'k set"
    and push :: "'k \<Rightarrow> 's \<Rightarrow> 's"
    and pop :: "'s \<Rightarrow> bool \<times> 's"
  assumes ok_push: "ok s xs \<Longrightarrow> k \<in> has s \<Longrightarrow> k \<notin> set xs \<Longrightarrow> ok (push k s) (xs @ [k]) \<and> has (push k s) = has s"
    and ok_pop_empty: "ok s [] \<Longrightarrow> pop s = (False, s)"
    and ok_pop: "ok s (k # xs) \<Longrightarrow> fst (pop s) \<and> ok (snd (pop s)) xs \<and> has (snd (pop s)) = has s - {k}"
begin

lemma push_all:
  "ok s xs \<Longrightarrow> set ks \<subseteq> has s \<Longrightarrow> distinct ks \<Longrightarrow> set ks \<inter> set xs = {} \<Longrightarrow>
   ok (fold push ks s) (xs @ ks) \<and> has (fold push ks s) = has s"
proof (induction ks arbitrary: s xs)
  case (Cons k ks)
  have "ok (push k s) (xs @ [k]) \<and> has (push k s) = has s" using Cons.prems by (intro ok_push) auto
  then show ?case using Cons.IH [of "push k s" "xs @ [k]"] Cons.prems by auto
qed simp

lemma pop_many:
  "ok s xs \<Longrightarrow> ok (((snd \<circ> pop) ^^ n) s) (drop n xs) \<and> has (((snd \<circ> pop) ^^ n) s) = has s - set (take n xs)"
proof (induction n arbitrary: s xs)
  case (Suc n)
  show ?case
  proof (cases xs)
    case Nil
    then have same: "((snd \<circ> pop) ^^ n) s = s" for n using Suc.prems by (induction n) (auto simp: ok_pop_empty)
    show ?thesis unfolding same using Nil Suc.prems by simp
  next
    case (Cons k ys)
    then have "ok (snd (pop s)) ys \<and> has (snd (pop s)) = has s - {k}" using ok_pop Suc.prems by blast
    then show ?thesis using Suc.IH [of "snd (pop s)" ys] Cons
      by (simp add: funpow_Suc_right del: funpow.simps) auto
  qed
qed simp

text \<open>The queue is first in, first out: what was queued before \<open>ks\<close> leaves before any of \<open>ks\<close>.\<close>

lemma oldest_first:
  assumes "ok s xs" "set ks \<subseteq> has s" "distinct ks" "set ks \<inter> set xs = {}" "n \<le> length xs"
  shows "set ks \<subseteq> has (((snd \<circ> pop) ^^ n) (fold push ks s))"
proof -
  have "ok (fold push ks s) (xs @ ks) \<and> has (fold push ks s) = has s" by (rule push_all) (use assms in auto)
  then have "has (((snd \<circ> pop) ^^ n) (fold push ks s)) = has s - set (take n (xs @ ks))" using pop_many by blast
  moreover have "set (take n (xs @ ks)) \<subseteq> set xs" using assms(5) set_take_subset [of n xs] by simp
  ultimately show ?thesis using assms(2,4) by blast
qed

end

section \<open>Eviction\<close>

definition keys_match :: "state_Obj \<Rightarrow> bool" where
  "keys_match obj \<longleftrightarrow> (\<forall>k r. get_rec obj k = Some r \<longrightarrow> keyFromDiagnosticRecordObj r = k)"

definition queue_ok :: "state_Obj \<Rightarrow> diagnosticKeyObj list \<Rightarrow> bool" where
  "queue_ok obj xs \<longleftrightarrow> list_ok obj xs \<and> keys_match obj \<and> distinct (diag_keys obj)"

lemma keyFrom_data_of [simp]: "keyFromDiagnosticRecordObj (data_of r) = keyFromDiagnosticRecordObj r"
  by (simp add: keyFromDiagnosticRecordObj_def data_of_def)

lemma keys_match_iff: "keys_match obj \<longleftrightarrow> (\<forall>k r. data_rec obj k = Some r \<longrightarrow> keyFromDiagnosticRecordObj r = k)"
  unfolding keys_match_def data_rec_def by (metis keyFrom_data_of map_option_eq_Some)

lemma keys_match_cong: "(\<And>j. data_rec obj' j = data_rec obj j) \<Longrightarrow> keys_match obj' = keys_match obj"
  by (simp add: keys_match_iff)

definition drop_rec :: "diagnosticKeyObj \<Rightarrow> state_Obj \<Rightarrow> state_Obj" where
  "drop_rec k obj = obj\<lparr>so_diagnosticMap := AList.delete k (so_diagnosticMap obj)\<rparr>"

lemma drop_rec_simps [simp]:
  "get_rec (drop_rec k obj) j = (if j = k then None else get_rec obj j)"
  "diag_keys (drop_rec k obj) = removeAll k (diag_keys obj)"
  "rest (drop_rec k obj) = rest obj"
  "so_inactiveHead (drop_rec k obj) = so_inactiveHead obj"
  "so_inactiveTail (drop_rec k obj) = so_inactiveTail obj"
  "so_inactiveLen (drop_rec k obj) = so_inactiveLen obj"
  "so_diagnosticByKey (drop_rec k obj) = so_diagnosticByKey obj"
  by (simp_all add: drop_rec_def get_rec_def diag_keys_def rest_def delete_conv' delete_keys)

lemma list_ok_drop_rec:
  assumes "list_ok obj xs" "k \<notin> set xs"
  shows "list_ok (drop_rec k obj) xs"
proof -
  have "chain (get_rec (drop_rec k obj)) None xs None"
    using list_okD(1) [OF assms(1)] by (subst chain_cong [where m' = "get_rec obj"]) (use assms in auto)
  then show ?thesis using assms by (auto simp: list_ok_def)
qed

lemma evict_unfold:
  "so_inactiveHead obj = Some h \<Longrightarrow> queue_ok obj xs \<Longrightarrow> h \<in> set xs \<Longrightarrow>
   evictOldestInactive obj = (True, unindexDiagnostic h (drop_rec h (snd (unlinkInactive h obj))))"
  using list_ok_present [of obj xs h]
  by (auto simp: evictOldestInactive_def Let_def queue_ok_def keys_match_def drop_rec_def)

lemma unindex_frame [simp]:
  "get_rec (unindexDiagnostic k obj) j = get_rec obj j"
  "diag_keys (unindexDiagnostic k obj) = diag_keys obj"
  "so_inactiveHead (unindexDiagnostic k obj) = so_inactiveHead obj"
  "so_inactiveTail (unindexDiagnostic k obj) = so_inactiveTail obj"
  "so_inactiveLen (unindexDiagnostic k obj) = so_inactiveLen obj"
  "data_rec (unindexDiagnostic k obj) j = data_rec obj j"
  by (auto simp: unindexDiagnostic_def Let_def get_rec_def diag_keys_def data_rec_def split: option.splits)

lemma list_ok_unindex [simp]: "list_ok (unindexDiagnostic k obj) xs \<longleftrightarrow> list_ok obj xs"
proof -
  have "get_rec (unindexDiagnostic k obj) = get_rec obj" by (rule ext) simp
  then show ?thesis by (simp add: list_ok_def)
qed

lemma evict_data:
  assumes "queue_ok obj (k # xs)"
  shows "data_rec (snd (evictOldestInactive obj)) j = (if j = k then None else data_rec obj j)"
    "diag_keys (snd (evictOldestInactive obj)) = removeAll k (diag_keys obj)"
    "fst (evictOldestInactive obj)"
proof -
  have h: "so_inactiveHead obj = Some k" using assms by (simp add: queue_ok_def list_ok_def)
  note ev = evict_unfold [OF h assms list.set_intros(1)]
  have d: "data_rec (drop_rec k o1) j = (if j = k then None else data_rec o1 j)" for o1
    by (simp add: data_rec_def)
  show "data_rec (snd (evictOldestInactive obj)) j = (if j = k then None else data_rec obj j)"
    by (simp add: ev d unlink_frame)
  show "diag_keys (snd (evictOldestInactive obj)) = removeAll k (diag_keys obj)"
    by (simp add: ev unlink_frame)
  show "fst (evictOldestInactive obj)" by (simp add: ev)
qed

lemma evict_queue_ok:
  assumes "queue_ok obj (k # xs)"
  shows "queue_ok (snd (evictOldestInactive obj)) xs"
proof -
  have h: "so_inactiveHead obj = Some k" using assms by (simp add: queue_ok_def list_ok_def)
  note ev = evict_unfold [OF h assms list.set_intros(1)]
  have "list_ok (snd (unlinkInactive k obj)) ([] @ xs)"
    using unlink_list_ok [of obj "[]" k xs] assms by (simp add: queue_ok_def)
  moreover have "k \<notin> set xs" using assms by (simp add: queue_ok_def list_ok_def)
  ultimately have "list_ok (snd (evictOldestInactive obj)) xs" by (simp add: ev list_ok_drop_rec)
  moreover have "keys_match (snd (evictOldestInactive obj))"
    using assms by (auto simp: keys_match_iff evict_data [OF assms] queue_ok_def)
  moreover have "distinct (diag_keys (snd (evictOldestInactive obj)))"
    using assms by (simp add: evict_data [OF assms] queue_ok_def distinct_removeAll)
  ultimately show ?thesis by (simp add: queue_ok_def)
qed

lemma push_queue_ok:
  assumes "queue_ok obj xs" "k \<in> set (diag_keys obj)" "k \<notin> set xs"
  shows "queue_ok (pushInactiveTail k obj) (xs @ [k])"
proof -
  obtain r where "get_rec obj k = Some r" using assms(2) by (auto simp flip: get_rec_in_keys)
  then have "list_ok (pushInactiveTail k obj) (xs @ [k])"
    using push_list_ok assms by (auto simp: queue_ok_def)
  then show ?thesis using assms keys_match_cong [of "pushInactiveTail k obj" obj]
    by (simp add: queue_ok_def push_frame)
qed

interpretation inactive_list: fifo_queue queue_ok "\<lambda>obj. set (diag_keys obj)" pushInactiveTail evictOldestInactive
proof unfold_locales
  show "evictOldestInactive s = (False, s)" if "queue_ok s []" for s
    using that by (simp add: queue_ok_def list_ok_def evictOldestInactive_def)
qed (auto simp: push_queue_ok push_frame evict_queue_ok evict_data)

end
