(* ===== verification/State_Inv.thy ===== *)
theory State_Inv
  imports State_Diag
begin

text \<open>
  The invariant of the diagnostics registry and what each operation does to it. On the level of
  \<open>data_rec\<close> (the records without their links) and of the queue \<open>xs\<close> of inactive keys, the
  operations are those of a finite map with a first-in first-out queue.
\<close>

section \<open>Invariant\<close>

definition active_ok :: "state_Obj \<Rightarrow> diagnosticKeyObj list \<Rightarrow> bool" where
  "active_ok obj xs \<longleftrightarrow> (\<forall>k r. data_rec obj k = Some r \<longrightarrow> (dr_active r \<longleftrightarrow> k \<notin> set xs))"

definition index_fits :: "diagnosticKeyObj set \<Rightarrow> (string \<Rightarrow> diagnosticKeyObj list option) \<Rightarrow> bool" where
  "index_fits K b \<longleftrightarrow>
     (\<forall>key. case b key of
        None \<Rightarrow> key = [] \<or> (\<forall>k \<in> K. dk_key k \<noteq> key)
      | Some s \<Rightarrow> key \<noteq> [] \<and> s \<noteq> [] \<and> distinct s \<and> set s = {k \<in> K. dk_key k = key})"

definition index_ok :: "state_Obj \<Rightarrow> bool" where
  "index_ok obj \<longleftrightarrow> index_fits (set (diag_keys obj)) (so_diagnosticByKey obj)"

definition registry_ok :: "state_Obj \<Rightarrow> diagnosticKeyObj list \<Rightarrow> bool" where
  "registry_ok obj xs \<longleftrightarrow>
     queue_ok obj xs \<and> active_ok obj xs \<and> index_ok obj \<and> length (diag_keys obj) \<le> so_maxDiagnostics obj"

lemma registry_okD:
  assumes "registry_ok obj xs"
  shows "queue_ok obj xs" "active_ok obj xs" "index_ok obj" "length (diag_keys obj) \<le> so_maxDiagnostics obj"
    "list_ok obj xs" "keys_match obj" "distinct (diag_keys obj)" "distinct xs"
  using assms by (auto simp: registry_ok_def queue_ok_def list_ok_def)

lemma active_okD: "active_ok obj xs \<Longrightarrow> data_rec obj k = Some r \<Longrightarrow> dr_active r \<longleftrightarrow> k \<notin> set xs"
  by (simp add: active_ok_def)

lemma dr_active_data_of [simp]: "dr_active (data_of r) = dr_active r"
  by (simp add: data_of_def)

lemma active_rec: "active_ok obj xs \<Longrightarrow> get_rec obj k = Some r \<Longrightarrow> dr_active r \<longleftrightarrow> k \<notin> set xs"
  using active_okD [of obj xs k "data_of r"] by (simp add: data_rec_def)

lemma data_rec_in_keys: "data_rec obj k \<noteq> None \<longleftrightarrow> k \<in> set (diag_keys obj)"
  by (simp add: data_rec_def flip: get_rec_in_keys)

lemma index_ok_cong:
  "diag_keys obj' = diag_keys obj \<Longrightarrow> so_diagnosticByKey obj' = so_diagnosticByKey obj \<Longrightarrow>
   index_ok obj' = index_ok obj"
  by (simp add: index_ok_def)

lemma rest_fields:
  assumes "rest obj' = rest obj"
  shows "so_diagnosticByKey obj' = so_diagnosticByKey obj" "so_maxDiagnostics obj' = so_maxDiagnostics obj"
    "so_snap obj' = so_snap obj" "so_keyMap obj' = so_keyMap obj" "so_keyOrder obj' = so_keyOrder obj"
    "so_keyIndex obj' = so_keyIndex obj" "so_content obj' = so_content obj"
    "so_lastRescan obj' = so_lastRescan obj" "so_generation obj' = so_generation obj"
    "so_droppedDiagnostics obj' = so_droppedDiagnostics obj" "so_permanentAt obj' = so_permanentAt obj"
proof -
  show "so_diagnosticByKey obj' = so_diagnosticByKey obj" "so_maxDiagnostics obj' = so_maxDiagnostics obj"
    "so_snap obj' = so_snap obj" "so_keyMap obj' = so_keyMap obj" "so_keyOrder obj' = so_keyOrder obj"
    "so_keyIndex obj' = so_keyIndex obj" "so_content obj' = so_content obj"
    "so_lastRescan obj' = so_lastRescan obj" "so_generation obj' = so_generation obj"
    "so_droppedDiagnostics obj' = so_droppedDiagnostics obj" "so_permanentAt obj' = so_permanentAt obj"
    using arg_cong [OF assms, of so_diagnosticByKey] arg_cong [OF assms, of so_maxDiagnostics]
      arg_cong [OF assms, of so_snap] arg_cong [OF assms, of so_keyMap] arg_cong [OF assms, of so_keyOrder]
      arg_cong [OF assms, of so_keyIndex] arg_cong [OF assms, of so_content]
      arg_cong [OF assms, of so_lastRescan] arg_cong [OF assms, of so_generation]
      arg_cong [OF assms, of so_droppedDiagnostics] arg_cong [OF assms, of so_permanentAt]
    by (simp_all add: rest_def)
qed

section \<open>Updates that keep the links\<close>

definition keeps_links :: "(diagnosticRecordObj \<Rightarrow> diagnosticRecordObj) \<Rightarrow> bool" where
  "keeps_links f \<longleftrightarrow>
     (\<forall>r. dr_inactivePrev (f r) = dr_inactivePrev r \<and> dr_inactiveNext (f r) = dr_inactiveNext r \<and>
        data_of (f r) = f (data_of r))"

lemma keeps_links_repeat [simp]: "keeps_links (repeat_record d now)"
  by (simp add: keeps_links_def repeat_record_def data_of_def)

lemma keeps_links_active [simp]: "keeps_links (\<lambda>r. r\<lparr>dr_active := b\<rparr>)"
  by (simp add: keeps_links_def data_of_def)

lemma upd_data:
  "keeps_links f \<Longrightarrow> data_rec (upd_rec k f obj) j = (if j = k then map_option f (data_rec obj k) else data_rec obj j)"
  by (auto simp: data_rec_def keeps_links_def option.map_comp comp_def)

lemma upd_list_ok:
  assumes "keeps_links f" "list_ok obj xs"
  shows "list_ok (upd_rec k f obj) xs"
proof -
  have "chain (get_rec (upd_rec k f obj)) None xs None \<longleftrightarrow> chain (get_rec obj) None xs None"
    by (rule chain_links_cong) (use assms(1) in \<open>auto simp: keeps_links_def option.map_comp comp_def\<close>)
  moreover have "dr_inactivePrev q = None \<and> dr_inactiveNext q = None"
    if "get_rec (upd_rec k f obj) j = Some q" "j \<notin> set xs" for j q
    using that assms list_okD(6) [OF assms(2), of j]
    by (auto simp: keeps_links_def split: if_splits)
  ultimately show ?thesis using assms(2) by (auto simp: list_ok_def)
qed

lemma upd_queue_ok:
  assumes "keeps_links f" "queue_ok obj xs" "\<And>r. keyFromDiagnosticRecordObj (f r) = keyFromDiagnosticRecordObj r"
  shows "queue_ok (upd_rec k f obj) xs"
  using assms upd_list_ok [OF assms(1)] by (auto simp: queue_ok_def keys_match_def)

section \<open>Deactivation\<close>

lemma deactivate_data:
  "data_rec (deactivate k obj) j =
     (if j = k then map_option (\<lambda>r. r\<lparr>dr_active := False\<rparr>) (data_rec obj k) else data_rec obj j)"
  "diag_keys (deactivate k obj) = diag_keys obj"
  "rest (deactivate k obj) = rest obj"
  by (simp_all add: deactivate_def push_frame upd_data)

lemma deactivate_ok:
  assumes ok: "registry_ok obj xs" and k: "data_rec obj k = Some r" "dr_active r"
  shows "registry_ok (deactivate k obj) (xs @ [k])"
proof -
  have new: "k \<notin> set xs" using active_okD [OF registry_okD(2) [OF ok] k(1)] k(2) by simp
  have inkeys: "k \<in> set (diag_keys obj)" using data_rec_in_keys [of obj k] k by simp
  have "queue_ok (upd_rec k (\<lambda>r. r\<lparr>dr_active := False\<rparr>) obj) xs"
    by (rule upd_queue_ok) (use registry_okD(1) [OF ok] in \<open>simp_all add: keyFromDiagnosticRecordObj_def\<close>)
  then have "queue_ok (deactivate k obj) (xs @ [k])"
    unfolding deactivate_def by (rule push_queue_ok) (use new inkeys in simp_all)
  moreover have "active_ok (deactivate k obj) (xs @ [k])"
    using registry_okD(2) [OF ok] by (auto simp: active_ok_def deactivate_data)
  moreover have "index_ok (deactivate k obj)"
    using registry_okD(3) [OF ok] index_ok_cong [OF deactivate_data(2) rest_fields(1) [OF deactivate_data(3)]]
    by simp
  ultimately show ?thesis using registry_okD(4) [OF ok] rest_fields(2) [OF deactivate_data(3)]
    by (simp add: registry_ok_def deactivate_data)
qed

definition selects :: "state_Obj \<Rightarrow> (diagnosticRecordObj \<Rightarrow> bool) \<Rightarrow> diagnosticKeyObj \<Rightarrow> bool" where
  "selects obj sel k \<longleftrightarrow> (case data_rec obj k of None \<Rightarrow> False | Some r \<Rightarrow> dr_active r \<and> sel r)"

definition switch_off :: "diagnosticRecordObj \<Rightarrow> diagnosticRecordObj" where
  "switch_off r = r\<lparr>dr_active := False\<rparr>"

text \<open>The loop switches off exactly the selected records it visits and queues them in its order.\<close>

lemma clear_loop_spec:
  assumes "registry_ok obj xs" "distinct ord" "\<And>r. sel (data_of r) = sel r"
  shows "\<exists>c obj'. clear_loop sel ord (c0, obj) = (c, obj') \<and>
    registry_ok obj' (xs @ filter (selects obj sel) ord) \<and>
    rest obj' = rest obj \<and> diag_keys obj' = diag_keys obj \<and>
    (\<forall>j. data_rec obj' j = (if j \<in> set ord \<and> selects obj sel j then map_option switch_off (data_rec obj j) else data_rec obj j)) \<and>
    (c \<longleftrightarrow> c0 \<or> (\<exists>k \<in> set ord. selects obj sel k)) \<and> (\<not> c \<longrightarrow> obj' = obj)"
  using assms(1,2)
proof (induction ord arbitrary: obj xs c0)
  case Nil
  then show ?case by simp
next
  case (Cons k ord)
  show ?case
  proof (cases "selects obj sel k")
    case False
    have step: "clear_loop sel (k # ord) (c0, obj) = clear_loop sel ord (c0, obj)"
      using False assms(3) by (auto simp: selects_def data_rec_def split: option.splits)
    obtain c obj' where "clear_loop sel ord (c0, obj) = (c, obj')" and r:
        "registry_ok obj' (xs @ filter (selects obj sel) ord)" "rest obj' = rest obj" "diag_keys obj' = diag_keys obj"
        "\<forall>j. data_rec obj' j = (if j \<in> set ord \<and> selects obj sel j then map_option switch_off (data_rec obj j) else data_rec obj j)"
        "c \<longleftrightarrow> c0 \<or> (\<exists>k \<in> set ord. selects obj sel k)" "\<not> c \<longrightarrow> obj' = obj"
      using Cons.IH [of obj xs c0] Cons.prems by auto
    then show ?thesis using False step by auto
  next
    case True
    then obtain r0 where r0: "get_rec obj k = Some r0" "dr_active r0" "sel r0"
      using assms(3) by (auto simp: selects_def data_rec_def split: option.splits)
    let ?o = "deactivate k obj"
    have step: "clear_loop sel (k # ord) (c0, obj) = clear_loop sel ord (True, ?o)" using r0 by simp
    have d: "data_rec obj k = Some (data_of r0)" by (simp add: data_rec_def r0)
    have reg: "registry_ok ?o (xs @ [k])" by (rule deactivate_ok [OF Cons.prems(1) d]) (simp add: r0)
    have same: "selects ?o sel j \<longleftrightarrow> selects obj sel j" if "j \<in> set ord" for j
      using that Cons.prems(2) by (auto simp: selects_def deactivate_data)
    then have filt: "filter (selects ?o sel) ord = filter (selects obj sel) ord" by (simp cong: filter_cong)
    obtain c obj' where run: "clear_loop sel ord (True, ?o) = (c, obj')" and r:
        "registry_ok obj' ((xs @ [k]) @ filter (selects ?o sel) ord)" "rest obj' = rest ?o" "diag_keys obj' = diag_keys ?o"
        "\<forall>j. data_rec obj' j = (if j \<in> set ord \<and> selects ?o sel j then map_option switch_off (data_rec ?o j) else data_rec ?o j)"
        "c \<longleftrightarrow> True \<or> (\<exists>k \<in> set ord. selects ?o sel k)"
      using Cons.IH [OF reg, of True] Cons.prems by auto
    have "data_rec obj' j = (if j \<in> set (k # ord) \<and> selects obj sel j then map_option switch_off (data_rec obj j) else data_rec obj j)" for j
    proof (cases "j = k")
      case True
      then show ?thesis using r(4) Cons.prems(2) \<open>selects obj sel k\<close>
        by (simp add: deactivate_data switch_off_def [abs_def])
    next
      case False
      then show ?thesis using r(4) same by (auto simp: deactivate_data)
    qed
    moreover have "registry_ok obj' (xs @ filter (selects obj sel) (k # ord))" using r(1) True filt by simp
    ultimately show ?thesis using step run r(2,3,5) True by (auto simp: deactivate_data)
  qed
qed

section \<open>Insertion and eviction\<close>

lemma index_fitsD:
  "index_fits K b \<Longrightarrow> b key = Some s \<Longrightarrow> key \<noteq> [] \<and> s \<noteq> [] \<and> distinct s \<and> set s = {k \<in> K. dk_key k = key}"
  "index_fits K b \<Longrightarrow> b key = None \<Longrightarrow> key = [] \<or> (\<forall>k \<in> K. dk_key k \<noteq> key)"
  unfolding index_fits_def by (drule spec [of _ key], simp)+

lemma index_fits_removeAll:
  assumes "index_fits K b" "b (dk_key k) = Some s"
  shows "set (removeAll k s) = {j \<in> K - {k}. dk_key j = dk_key k}"
  using index_fitsD(1) [OF assms] by auto

lemma unindex_fits:
  assumes f: "index_fits K (so_diagnosticByKey obj)"
  shows "index_fits (K - {k}) (so_diagnosticByKey (unindexDiagnostic k obj))"
proof -
  let ?b = "so_diagnosticByKey obj" and ?b' = "so_diagnosticByKey (unindexDiagnostic k obj)"
  have "case ?b' key of None \<Rightarrow> key = [] \<or> (\<forall>j \<in> K - {k}. dk_key j \<noteq> key)
      | Some s \<Rightarrow> key \<noteq> [] \<and> s \<noteq> [] \<and> distinct s \<and> set s = {j \<in> K - {k}. dk_key j = key}" for key
  proof (cases "?b key")
    case None
    then have "?b' key = None"
      by (auto simp: unindexDiagnostic_def Let_def split: option.splits)
    then show ?thesis using index_fitsD(2) [OF f None] by auto
  next
    case (Some s)
    note d = index_fitsD(1) [OF f Some]
    show ?thesis
    proof (cases "dk_key k = key")
      case True
      have st: "set (removeAll k s) = {j \<in> K - {k}. dk_key j = key}"
        using index_fits_removeAll [OF f, of k s] Some True by simp
      show ?thesis
      proof (cases "removeAll k s = []")
        case rem: True
        then have "?b' key = None" using Some True d by (auto simp: unindexDiagnostic_def)
        moreover have "\<forall>j \<in> K - {k}. dk_key j \<noteq> key" using st rem by auto
        ultimately show ?thesis by simp
      next
        case False
        then have "?b' key = Some (removeAll k s)" using Some True d by (auto simp: unindexDiagnostic_def)
        then show ?thesis using d st False by (simp add: distinct_removeAll)
      qed
    next
      case False
      then have "?b' key = Some s"
        using Some by (auto simp: unindexDiagnostic_def Let_def split: option.splits)
      then show ?thesis using d False by auto
    qed
  qed
  then show ?thesis by (simp add: index_fits_def)
qed

lemma index_fits_insert:
  assumes f: "index_fits K (so_diagnosticByKey obj)" "k \<notin> K"
  shows "index_fits (insert k K) (so_diagnosticByKey (indexDiagnostic k obj))"
proof -
  let ?b = "so_diagnosticByKey obj" and ?b' = "so_diagnosticByKey (indexDiagnostic k obj)"
  have "case ?b' key of None \<Rightarrow> key = [] \<or> (\<forall>j \<in> insert k K. dk_key j \<noteq> key)
      | Some s \<Rightarrow> key \<noteq> [] \<and> s \<noteq> [] \<and> distinct s \<and> set s = {j \<in> insert k K. dk_key j = key}" for key
  proof (cases "dk_key k = key \<and> key \<noteq> []")
    case True
    show ?thesis
    proof (cases "?b key")
      case None
      then have "?b' key = Some [k]" using True by (auto simp: indexDiagnostic_def Let_def)
      then show ?thesis using index_fitsD(2) [OF f(1) None] True by auto
    next
      case (Some s)
      note d = index_fitsD(1) [OF f(1) Some]
      have "?b' key = Some (List.insert k s)" using Some True by (auto simp: indexDiagnostic_def Let_def)
      then show ?thesis using d True f(2) by auto
    qed
  next
    case False
    then have "?b' key = ?b key" by (auto simp: indexDiagnostic_def Let_def)
    then show ?thesis using False index_fitsD [OF f(1), of key] by (cases "?b key") auto
  qed
  then show ?thesis by (simp add: index_fits_def)
qed

lemma index_frame [simp]:
  "get_rec (indexDiagnostic k obj) j = get_rec obj j"
  "diag_keys (indexDiagnostic k obj) = diag_keys obj"
  "so_inactiveHead (indexDiagnostic k obj) = so_inactiveHead obj"
  "so_inactiveTail (indexDiagnostic k obj) = so_inactiveTail obj"
  "so_inactiveLen (indexDiagnostic k obj) = so_inactiveLen obj"
  "data_rec (indexDiagnostic k obj) j = data_rec obj j"
  by (auto simp: indexDiagnostic_def Let_def get_rec_def diag_keys_def data_rec_def)

lemma queue_ok_index [simp]: "queue_ok (indexDiagnostic k obj) xs \<longleftrightarrow> queue_ok obj xs"
proof -
  have "get_rec (indexDiagnostic k obj) = get_rec obj" by (rule ext) simp
  then show ?thesis by (simp add: queue_ok_def list_ok_def keys_match_def)
qed

text \<open>The object without anything the diagnostics code writes.\<close>

definition rest2 :: "state_Obj \<Rightarrow> state_Obj" where
  "rest2 obj = (rest obj)\<lparr>so_diagnosticByKey := (\<lambda>_. None), so_droppedDiagnostics := 0\<rparr>"

lemma rest2_simps [simp]:
  "rest2 (indexDiagnostic k obj) = rest2 obj" "rest2 (unindexDiagnostic k obj) = rest2 obj"
  "rest2 (put_rec k r obj) = rest2 obj" "rest2 (drop_rec k obj) = rest2 obj"
  "rest2 (upd_rec k f obj) = rest2 obj" "rest2 (snd (unlinkInactive k obj)) = rest2 obj"
  "rest2 (obj\<lparr>so_droppedDiagnostics := n\<rparr>) = rest2 obj" "rest2 (deactivate k obj) = rest2 obj"
  by (simp_all add: rest2_def unlink_frame deactivate_data)
    (simp_all add: rest_def indexDiagnostic_def unindexDiagnostic_def put_rec_def Let_def split: option.splits)

lemma rest2_of_rest: "rest obj' = rest obj \<Longrightarrow> rest2 obj' = rest2 obj"
  by (simp add: rest2_def)

lemma rest2_fields:
  assumes "rest2 obj' = rest2 obj"
  shows "so_maxDiagnostics obj' = so_maxDiagnostics obj"
    "so_snap obj' = so_snap obj" "so_keyMap obj' = so_keyMap obj" "so_keyOrder obj' = so_keyOrder obj"
    "so_keyIndex obj' = so_keyIndex obj" "so_content obj' = so_content obj"
    "so_lastRescan obj' = so_lastRescan obj" "so_generation obj' = so_generation obj"
    "so_permanentAt obj' = so_permanentAt obj"
  using arg_cong [OF assms, of so_maxDiagnostics]
    arg_cong [OF assms, of so_snap] arg_cong [OF assms, of so_keyMap] arg_cong [OF assms, of so_keyOrder]
    arg_cong [OF assms, of so_keyIndex] arg_cong [OF assms, of so_content]
    arg_cong [OF assms, of so_lastRescan] arg_cong [OF assms, of so_generation]
    arg_cong [OF assms, of so_permanentAt]
  by (simp_all add: rest2_def rest_def)

lemma evict_registry:
  assumes ok: "registry_ok obj (k # xs)"
  shows "registry_ok (snd (evictOldestInactive obj)) xs" "rest2 (snd (evictOldestInactive obj)) = rest2 obj"
    "so_droppedDiagnostics (snd (evictOldestInactive obj)) = so_droppedDiagnostics obj"
proof -
  note q = registry_okD(1) [OF ok]
  have h: "so_inactiveHead obj = Some k" using q by (simp add: queue_ok_def list_ok_def)
  note ev = evict_unfold [OF h q list.set_intros(1)]
  let ?o = "snd (evictOldestInactive obj)" and ?u = "drop_rec k (snd (unlinkInactive k obj))"
  show r2: "rest2 ?o = rest2 obj" by (simp add: ev)
  have "index_fits (set (diag_keys obj) - {k}) (so_diagnosticByKey (unindexDiagnostic k ?u))"
    using registry_okD(3) [OF ok] by (intro unindex_fits) (simp add: index_ok_def rest_fields(1) [OF unlink_frame(1)])
  then have "index_ok ?o" by (simp add: index_ok_def evict_data [OF q]) (simp add: ev)
  moreover have "active_ok ?o xs"
    using registry_okD(2,8) [OF ok] by (auto simp: active_ok_def evict_data [OF q])
  moreover have "length (diag_keys ?o) \<le> so_maxDiagnostics ?o"
    using le_trans [OF length_removeAll_less_eq registry_okD(4) [OF ok]]
    by (simp add: evict_data [OF q] rest2_fields [OF r2])
  ultimately show "registry_ok ?o xs" using evict_queue_ok [OF q] by (simp add: registry_ok_def)
  have "so_droppedDiagnostics (unindexDiagnostic j o1) = so_droppedDiagnostics o1" for j o1
    by (simp add: unindexDiagnostic_def Let_def split: option.splits)
  then show "so_droppedDiagnostics ?o = so_droppedDiagnostics obj"
    by (simp add: ev drop_rec_def rest_fields(10) [OF unlink_frame(1)])
qed

lemma put_new_queue_ok:
  assumes q: "queue_ok obj xs" and new: "get_rec obj k = None"
    and r: "dr_inactivePrev r = None" "dr_inactiveNext r = None" "keyFromDiagnosticRecordObj r = k"
  shows "queue_ok (put_rec k r obj) xs" "diag_keys (put_rec k r obj) = diag_keys obj @ [k]"
proof -
  have k: "k \<notin> set (diag_keys obj)" using new get_rec_in_keys [of obj k] by simp
  show keys: "diag_keys (put_rec k r obj) = diag_keys obj @ [k]"
    using k by (simp add: diag_keys_def put_rec_def update_keys)
  have l: "list_ok obj xs" using q by (simp add: queue_ok_def)
  have "k \<notin> set xs" using list_ok_present [OF l, of k] new by auto
  then have "chain (get_rec (put_rec k r obj)) None xs None \<longleftrightarrow> chain (get_rec obj) None xs None"
    by (intro chain_cong) auto
  then have "list_ok (put_rec k r obj) xs"
    using l r by (auto simp: list_ok_def put_rec_def get_rec_def update_conv' split: if_splits)
  then show "queue_ok (put_rec k r obj) xs" using q k r(3) keys by (auto simp: queue_ok_def keys_match_def)
qed

section \<open>Raising\<close>

lemma put_new_data:
  "data_rec (put_rec k r obj) j = (if j = k then Some (data_of r) else data_rec obj j)"
  by (simp add: data_rec_def)

lemma data_of_new_record [simp]: "data_of (new_record d now) = new_record d now"
  by (simp add: data_of_def new_record_def)

lemma key_new_record [simp]: "keyFromDiagnosticRecordObj (new_record d now) = keyFromDiagnosticObj d"
  by (simp add: keyFromDiagnosticRecordObj_def keyFromDiagnosticObj_def new_record_def)

lemma put_rec_fields [simp]:
  "so_diagnosticByKey (put_rec k r obj) = so_diagnosticByKey obj"
  "so_maxDiagnostics (put_rec k r obj) = so_maxDiagnostics obj"
  "so_maxDiagnostics (indexDiagnostic k obj) = so_maxDiagnostics obj"
  "so_droppedDiagnostics (put_rec k r obj) = so_droppedDiagnostics obj"
  "so_droppedDiagnostics (indexDiagnostic k obj) = so_droppedDiagnostics obj"
  by (simp_all add: put_rec_def indexDiagnostic_def Let_def)

definition insert_new :: "DiagnosticObj \<Rightarrow> gotime \<Rightarrow> state_Obj \<Rightarrow> state_Obj" where
  "insert_new d now obj =
     indexDiagnostic (keyFromDiagnosticObj d) (put_rec (keyFromDiagnosticObj d) (new_record d now) obj)"

lemma insert_new_ok:
  assumes ok: "registry_ok obj xs" and new: "data_rec obj (keyFromDiagnosticObj d) = None"
    and room: "length (diag_keys obj) < so_maxDiagnostics obj"
  shows "registry_ok (insert_new d now obj) xs"
    "data_rec (insert_new d now obj) j =
       (if j = keyFromDiagnosticObj d then Some (new_record d now) else data_rec obj j)"
proof -
  let ?k = "keyFromDiagnosticObj d" and ?p = "put_rec (keyFromDiagnosticObj d) (new_record d now) obj"
  have none: "get_rec obj ?k = None" using new by (simp add: data_rec_def)
  have links: "dr_inactivePrev (new_record d now) = None" "dr_inactiveNext (new_record d now) = None"
    by (simp_all add: new_record_def)
  note q = put_new_queue_ok [OF registry_okD(1) [OF ok] none links key_new_record]
  have k: "?k \<notin> set (diag_keys obj)" using none get_rec_in_keys [of obj ?k] by simp
  have notin: "?k \<notin> set xs" using list_ok_present [OF registry_okD(5) [OF ok], of ?k] none by auto
  have "index_fits (insert ?k (set (diag_keys obj))) (so_diagnosticByKey (indexDiagnostic ?k ?p))"
    by (rule index_fits_insert) (use registry_okD(3) [OF ok] k in \<open>simp_all add: index_ok_def\<close>)
  then have "index_ok (insert_new d now obj)" by (simp add: index_ok_def insert_new_def q(2))
  moreover have "active_ok (insert_new d now obj) xs"
    using registry_okD(2) [OF ok] notin by (auto simp: active_ok_def insert_new_def put_new_data new_record_def)
  ultimately show "registry_ok (insert_new d now obj) xs"
    using room q by (simp add: registry_ok_def insert_new_def)
  show "data_rec (insert_new d now obj) j = (if j = ?k then Some (new_record d now) else data_rec obj j)"
    by (simp add: insert_new_def put_new_data)
qed

text \<open>A known diagnostic is updated in place and leaves the inactive queue.\<close>

lemma upsert_known:
  assumes ok: "registry_ok obj xs" and k: "data_rec obj k = Some r" "k = keyFromDiagnosticObj d"
  shows "\<exists>c obj'. upsertDiagnostic k d now obj = (Inr c, obj') \<and> registry_ok obj' (removeAll k xs) \<and>
    rest2 obj' = rest2 obj \<and> so_droppedDiagnostics obj' = so_droppedDiagnostics obj \<and>
    diag_keys obj' = diag_keys obj \<and>
    (\<forall>j. data_rec obj' j = (if j = k then Some (repeat_record d now r) else data_rec obj j))"
proof -
  obtain r0 where r0: "get_rec obj k = Some r0" "r = data_of r0" using k(1) by (auto simp: data_rec_def)
  let ?o1 = "if \<not> dr_active r0 then snd (unlinkInactive k obj) else obj"
  let ?o = "upd_rec k (repeat_record d now) ?o1"
  have act: "dr_active r0 \<longleftrightarrow> k \<notin> set xs" by (rule active_rec [OF registry_okD(2) [OF ok] r0(1)])
  have frame: "rest ?o1 = rest obj" "diag_keys ?o1 = diag_keys obj" "data_rec ?o1 j = data_rec obj j" for j
    by (simp_all add: unlink_frame)
  have l: "list_ok ?o1 (removeAll k xs)"
  proof (cases "dr_active r0")
    case True
    then show ?thesis using act registry_okD(5) [OF ok] by (simp add: removeAll_id)
  next
    case False
    then obtain as bs where xs: "xs = as @ k # bs" using act split_list by metis
    have "list_ok (snd (unlinkInactive k obj)) (as @ bs)"
      using unlink_list_ok registry_okD(5) [OF ok] xs by blast
    moreover have "removeAll k xs = as @ bs" using registry_okD(8) [OF ok] xs by (simp add: removeAll_id)
    ultimately show ?thesis using False by simp
  qed
  have q: "queue_ok ?o1 (removeAll k xs)"
    using l registry_okD(6,7) [OF ok] keys_match_cong [of ?o1 obj] by (simp add: queue_ok_def frame)
  have kr: "keyFromDiagnosticRecordObj r0 = k" using registry_okD(6) [OF ok] r0 by (simp add: keys_match_def)
  have sc: "di_Scope d = dr_scope r0"
    using kr k(2) by (simp add: keyFromDiagnosticRecordObj_def keyFromDiagnosticObj_def)
  have lo: "list_ok ?o (removeAll k xs)" by (rule upd_list_ok [OF _ l]) simp
  have data: "data_rec ?o j = (if j = k then Some (repeat_record d now r) else data_rec obj j)" for j
    using k by (simp add: upd_data frame)
  have "keys_match ?o"
    using registry_okD(6) [OF ok] kr sc
    by (auto simp: keys_match_iff data r0 keyFromDiagnosticRecordObj_def repeat_record_def data_of_def)
  then have "queue_ok ?o (removeAll k xs)" using lo registry_okD(7) [OF ok] by (simp add: queue_ok_def frame)
  moreover have "active_ok ?o (removeAll k xs)"
    using registry_okD(2) [OF ok] by (auto simp: active_ok_def data repeat_record_def)
  moreover have rst: "rest ?o = rest obj" by (simp add: frame)
  moreover have "index_ok ?o"
    using registry_okD(3) [OF ok] index_ok_cong [OF _ rest_fields(1) [OF rst]] by (simp add: frame)
  ultimately have "registry_ok ?o (removeAll k xs)"
    using registry_okD(4) [OF ok] rest_fields(2) [OF rst] by (simp add: registry_ok_def frame)
  moreover have "upsertDiagnostic k d now obj =
      (Inr (\<not> dr_active r0 \<or> dr_impact r0 \<noteq> di_Impact d \<or> dr_reason r0 \<noteq> di_Reason d \<or> dr_scope r0 \<noteq> di_Scope d), ?o)"
    by (simp add: upsertDiagnostic_def r0 Let_def)
  ultimately show ?thesis using rest2_of_rest [OF rst] rest_fields(10) [OF rst] data frame(2) by auto
qed

lemma length_diag_keys: "length (diag_keys obj) = length (so_diagnosticMap obj)"
  by (simp add: diag_keys_def)

text \<open>A new diagnostic takes a free place, else the place of the oldest inactive one, else is dropped.\<close>

lemma upsert_room:
  assumes ok: "registry_ok obj xs" and k: "data_rec obj k = None" "k = keyFromDiagnosticObj d"
    and room: "length (diag_keys obj) < so_maxDiagnostics obj"
  shows "upsertDiagnostic k d now obj = (Inr True, insert_new d now obj)"
  using k room by (auto simp: upsertDiagnostic_def data_rec_def length_diag_keys Let_def insert_new_def)

lemma upsert_evict:
  assumes ok: "registry_ok obj (x # xs)" and k: "data_rec obj k = None" "k = keyFromDiagnosticObj d"
    and full: "\<not> length (diag_keys obj) < so_maxDiagnostics obj"
  shows "upsertDiagnostic k d now obj = (Inr True, insert_new d now (snd (evictOldestInactive obj)))"
    "length (diag_keys (snd (evictOldestInactive obj))) < so_maxDiagnostics (snd (evictOldestInactive obj))"
proof -
  note q = registry_okD(1) [OF ok]
  have "x \<in> set (diag_keys obj)"
    using list_ok_present [OF registry_okD(5) [OF ok], of x] get_rec_in_keys [of obj x] by simp
  then have "length (removeAll x (diag_keys obj)) < length (diag_keys obj)"
    by (rule length_removeAll_less)
  then show "length (diag_keys (snd (evictOldestInactive obj))) < so_maxDiagnostics (snd (evictOldestInactive obj))"
    using registry_okD(4) [OF ok] by (simp add: evict_data [OF q] rest2_fields [OF evict_registry(2) [OF ok]])
  show "upsertDiagnostic k d now obj = (Inr True, insert_new d now (snd (evictOldestInactive obj)))"
    using k full evict_data(3) [OF q]
    by (cases "evictOldestInactive obj")
      (auto simp: upsertDiagnostic_def data_rec_def length_diag_keys Let_def insert_new_def)
qed

definition drop_count :: "state_Obj \<Rightarrow> state_Obj" where
  "drop_count obj =
     (if so_droppedDiagnostics obj < NOT 0
      then obj\<lparr>so_droppedDiagnostics := so_droppedDiagnostics obj + 1\<rparr> else obj)"

lemma upsert_full:
  assumes ok: "registry_ok obj []" and k: "data_rec obj k = None"
    and full: "\<not> length (diag_keys obj) < so_maxDiagnostics obj"
  shows "upsertDiagnostic k d now obj = (Inl RegistryFull, drop_count obj)"
  using inactive_list.ok_pop_empty [OF registry_okD(1) [OF ok]] k full
  by (auto simp: upsertDiagnostic_def data_rec_def length_diag_keys Let_def drop_count_def)

end
