(* ===== verification/State_Keys.thy ===== *)
theory State_Keys
  imports State_Ops
begin

text \<open>
  The key records of the state registry: the availability state machine and the effect of the
  batch operations on the map of keys. Publishing is left to \<open>State_Obj\<close>.
\<close>

section \<open>One key\<close>

text \<open>\<open>key_ok P m\<close>: the counter of unavailable cycles and the availability agree.\<close>

definition key_ok :: "u32 \<Rightarrow> keyMutObj \<Rightarrow> bool" where
  "key_ok P m \<longleftrightarrow>
     (case km_availability m of
        UndefAvailability \<Rightarrow> False
      | AvUnknown \<Rightarrow> km_unavailableCycles m = 0 \<and> km_lastScan m = 0 \<and> \<not> km_reclassAllowed m
      | AvAvailable \<Rightarrow> km_unavailableCycles m = 0 \<and> km_lastScan m \<noteq> 0
      | AvTemporaryDown \<Rightarrow> 0 < km_unavailableCycles m \<and> km_unavailableCycles m < P \<and>
          km_lastScan m \<noteq> 0 \<and> \<not> km_reclassAllowed m
      | AvPermanentDown \<Rightarrow> km_unavailableCycles m = P \<and> km_lastScan m \<noteq> 0 \<and> \<not> km_reclassAllowed m)"

lemma key_ok_new [simp]: "key_ok P (newKeyMutObj key url)"
  by (simp add: key_ok_def newKeyMutObj_def)

lemma key_ok_cycles_le: "key_ok P m \<Longrightarrow> km_unavailableCycles m \<le> P"
  by (auto simp: key_ok_def split: AvailabilityStatusType.splits)

lemma u32_inc: "(c :: u32) < P \<Longrightarrow> c + 1 \<le> P \<and> 0 < c + 1 \<and> unat (c + 1) = unat c + 1"
proof -
  assume c: "c < P"
  then have "unat c < unat P" by (simp add: word_less_nat_alt)
  moreover have "unat P < 4294967296" using unsigned_less [of P] by simp
  ultimately have "unat (c + 1) = unat c + 1" by (simp add: unat_word_ariths)
  then show ?thesis using c by (simp add: word_le_nat_alt word_less_nat_alt)
qed

lemma stale_or_replay_ignored:
  "staleScan m (au_ScanAt u) \<or> sameCycleReplay m (au_ScanAt u) \<Longrightarrow> applyAvailability P m u = (m, False)"
  by (auto simp: applyAvailability_def applyAvailable_def applyUnavailable_def)

lemma apply_key_ok:
  assumes "key_ok P m" "0 < P" "au_ScanAt u \<noteq> 0"
  shows "key_ok P (fst (applyAvailability P m u))"
proof (cases "staleScan m (au_ScanAt u) \<or> sameCycleReplay m (au_ScanAt u)")
  case True
  then show ?thesis using assms by (simp add: stale_or_replay_ignored)
next
  case app: False
  show ?thesis
  proof (cases "au_Available u")
    case True
    then show ?thesis using assms app
      by (simp add: applyAvailability_def applyAvailable_def Let_def key_ok_def)
  next
    case False
    have le: "km_unavailableCycles m \<le> P" using assms(1) by (rule key_ok_cycles_le)
    show ?thesis
    proof (cases "km_unavailableCycles m < P")
      case True
      then show ?thesis using app False assms u32_inc [OF True]
        by (auto simp: applyAvailability_def applyUnavailable_def Let_def key_ok_def)
    next
      case full: False
      then have "km_unavailableCycles m = P" using le by simp
      then show ?thesis using app False assms
        by (auto simp: applyAvailability_def applyUnavailable_def Let_def key_ok_def)
    qed
  qed
qed

lemma apply_key_name [simp]: "km_key (fst (applyAvailability P m u)) = km_key m"
  by (simp add: applyAvailability_def applyAvailable_def applyUnavailable_def Let_def)

text \<open>An unchanged flag means an unchanged public view.\<close>

lemma apply_unchanged_view:
  "\<not> snd (applyAvailability P m u) \<Longrightarrow> keyViewFromMut (fst (applyAvailability P m u)) = keyViewFromMut m"
  by (auto simp: applyAvailability_def applyAvailable_def applyUnavailable_def Let_def keyViewFromMut_def
      fun_eq_iff split: if_splits)

text \<open>A later scan is neither stale nor a replay.\<close>

lemma later_scan_applies:
  "km_lastScan m < t \<Longrightarrow> t \<noteq> 0 \<Longrightarrow> \<not> staleScan m t \<and> \<not> sameCycleReplay m t"
  by (auto simp: staleScan_def sameCycleReplay_def)

text \<open>Applying the same update a second time changes nothing.\<close>

lemma apply_twice:
  assumes "0 < P" "au_ScanAt u \<noteq> 0"
  shows "applyAvailability P (fst (applyAvailability P m u)) u = (fst (applyAvailability P m u), False)"
proof (cases "staleScan m (au_ScanAt u) \<or> sameCycleReplay m (au_ScanAt u)")
  case True
  then show ?thesis by (simp add: stale_or_replay_ignored)
next
  case False
  show ?thesis
  proof (cases "au_Available u")
    case True
    then show ?thesis using False assms
      by (auto simp: applyAvailability_def applyAvailable_def Let_def staleScan_def sameCycleReplay_def)
  next
    case down: False
    have "sameCycleReplay (fst (applyAvailability P m u)) (au_ScanAt u)"
      using False assms down
      by (simp add: applyAvailability_def applyUnavailable_def Let_def sameCycleReplay_def)
    then show ?thesis by (simp add: stale_or_replay_ignored)
  qed
qed

lemma unavailable_step:
  assumes m: "key_ok P m" "0 < P" and u: "\<not> au_Available u" "km_lastScan m < au_ScanAt u" "au_ScanAt u \<noteq> 0"
  defines "m' \<equiv> fst (applyAvailability P m u)"
  shows "unat (km_unavailableCycles m') = min (unat (km_unavailableCycles m) + 1) (unat P)"
    "km_availability m' = (if unat (km_unavailableCycles m) + 1 < unat P then AvTemporaryDown else AvPermanentDown)"
    "km_lastScan m' = au_ScanAt u" "\<not> km_upstreamPresent m'"
proof -
  have ap: "\<not> (staleScan m (au_ScanAt u) \<or> sameCycleReplay m (au_ScanAt u))" using later_scan_applies u by blast
  have le: "unat (km_unavailableCycles m) \<le> unat P" using key_ok_cycles_le [OF m(1)] by (simp add: word_le_nat_alt)
  show "km_lastScan m' = au_ScanAt u" "\<not> km_upstreamPresent m'"
    using ap u(1) by (simp_all add: m'_def applyAvailability_def applyUnavailable_def Let_def)
  show "unat (km_unavailableCycles m') = min (unat (km_unavailableCycles m) + 1) (unat P)"
    using ap u(1) le u32_inc [of "km_unavailableCycles m" P]
    by (auto simp: m'_def applyAvailability_def applyUnavailable_def Let_def word_less_nat_alt)
  show "km_availability m' = (if unat (km_unavailableCycles m) + 1 < unat P then AvTemporaryDown else AvPermanentDown)"
    using ap u(1) le u32_inc [of "km_unavailableCycles m" P]
    by (auto simp: m'_def applyAvailability_def applyUnavailable_def Let_def word_less_nat_alt word_le_nat_alt)
qed

section \<open>The map of keys\<close>

definition key_rec :: "state_Obj \<Rightarrow> string \<Rightarrow> keyMutObj option" where
  "key_rec obj key = map_of (so_keyMap obj) key"

definition key_names :: "state_Obj \<Rightarrow> string list" where
  "key_names obj = map fst (so_keyMap obj)"

lemma key_rec_put [simp]: "key_rec (put_key k m obj) j = (if j = k then Some m else key_rec obj j)"
  by (simp add: key_rec_def put_key_def update_conv')

lemma key_names_put: "k \<in> set (key_names obj) \<Longrightarrow> key_names (put_key k m obj) = key_names obj"
  by (simp add: key_names_def put_key_def update_keys)

lemma key_rec_in_names: "key_rec obj k = None \<longleftrightarrow> k \<notin> set (key_names obj)"
  by (simp add: key_rec_def key_names_def map_of_eq_None_iff image_iff)

lemma key_names_put_known: "key_rec obj k \<noteq> None \<Longrightarrow> key_names (put_key k m obj) = key_names obj"
  by (rule key_names_put) (simp add: key_rec_in_names)

text \<open>\<open>nokeys\<close> is the object without its key records.\<close>

definition nokeys :: "state_Obj \<Rightarrow> state_Obj" where
  "nokeys obj = obj\<lparr>so_keyMap := []\<rparr>"

lemma nokeys_put [simp]: "nokeys (put_key k m obj) = nokeys obj"
  by (simp add: nokeys_def put_key_def)

lemma nokeys_fields:
  assumes "nokeys obj' = nokeys obj"
  shows "so_snap obj' = so_snap obj" "so_keyOrder obj' = so_keyOrder obj" "so_keyIndex obj' = so_keyIndex obj"
    "so_diagnosticMap obj' = so_diagnosticMap obj" "so_diagnosticByKey obj' = so_diagnosticByKey obj"
    "so_inactiveHead obj' = so_inactiveHead obj" "so_inactiveTail obj' = so_inactiveTail obj"
    "so_inactiveLen obj' = so_inactiveLen obj" "so_content obj' = so_content obj"
    "so_lastRescan obj' = so_lastRescan obj" "so_generation obj' = so_generation obj"
    "so_droppedDiagnostics obj' = so_droppedDiagnostics obj" "so_permanentAt obj' = so_permanentAt obj"
    "so_maxDiagnostics obj' = so_maxDiagnostics obj"
  using arg_cong [OF assms, of so_snap] arg_cong [OF assms, of so_keyOrder]
    arg_cong [OF assms, of so_keyIndex] arg_cong [OF assms, of so_diagnosticMap]
    arg_cong [OF assms, of so_diagnosticByKey] arg_cong [OF assms, of so_inactiveHead]
    arg_cong [OF assms, of so_inactiveTail] arg_cong [OF assms, of so_inactiveLen]
    arg_cong [OF assms, of so_content] arg_cong [OF assms, of so_lastRescan]
    arg_cong [OF assms, of so_generation] arg_cong [OF assms, of so_droppedDiagnostics]
    arg_cong [OF assms, of so_permanentAt] arg_cong [OF assms, of so_maxDiagnostics]
  by (simp_all add: nokeys_def)

lemma keyMut_Inr: "keyMut obj key = Inr m \<Longrightarrow> key_rec obj key = Some m"
  by (auto simp: keyMut_def key_rec_def result_simps split: option.splits)

lemma keyMut_Inr_text: "keyMut obj key = Inr m \<Longrightarrow> \<not> is_blank key \<and> length key \<le> cMaxKeyBytes"
  by (auto simp: keyMut_def validateText_def result_simps split: if_splits)

lemma batch_keys_Inr:
  "batch_keys obj seen ks = Inr () \<Longrightarrow>
   distinct ks \<and> set ks \<inter> set seen = {} \<and> (\<forall>k \<in> set ks. key_rec obj k \<noteq> None)"
proof (induction ks arbitrary: seen)
  case (Cons k ks)
  then have "k \<notin> set seen" "batch_keys obj (k # seen) ks = Inr ()" "key_rec obj k \<noteq> None"
    by (auto simp: result_simps dest: keyMut_Inr split: if_splits)
  then show ?case using Cons.IH [of "k # seen"] by auto
qed simp

lemma check_each_Inr: "check_each f xs = Inr () \<longleftrightarrow> (\<forall>x \<in> set xs. f x = Inr ())"
  by (induction xs) (auto simp: result_simps)

text \<open>
  The loop of a batch over keys: each named key gets its own update, no other key changes, and
  the flag is the disjunction of the flags. \<open>app\<close> and \<open>keyof\<close> stand for the two batches.
\<close>

fun batch_apply ::
  "('u \<Rightarrow> string) \<Rightarrow> (keyMutObj \<Rightarrow> 'u \<Rightarrow> keyMutObj \<times> bool) \<Rightarrow> 'u list \<Rightarrow> bool \<times> state_Obj \<Rightarrow> bool \<times> state_Obj" where
  "batch_apply keyof app [] r = r"
| "batch_apply keyof app (u # us) (changedFlag, obj) =
     batch_apply keyof app us
       (snd (app (the (key_rec obj (keyof u))) u) \<or> changedFlag,
        put_key (keyof u) (fst (app (the (key_rec obj (keyof u))) u)) obj)"

lemma apply_updates_batch:
  "so_permanentAt obj = P \<Longrightarrow> apply_updates us (c, obj) = batch_apply au_Key (applyAvailability P) us (c, obj)"
proof (induction us arbitrary: c obj)
  case (Cons u us)
  have "so_permanentAt (put_key k m obj) = P" for k m using Cons.prems by (simp add: put_key_def)
  then show ?case using Cons by (simp add: key_rec_def split_beta Let_def)
qed simp

lemma apply_stats_batch:
  "apply_stats sts (c, obj) =
   batch_apply ms_Key (\<lambda>m st. (applyMirrorStats m st, mirrorStatsChanged m st)) sts (c, obj)"
  by (induction sts arbitrary: c obj) (simp_all add: key_rec_def Let_def)

lemma batch_apply_spec:
  assumes "distinct (map keyof us)" "\<forall>u \<in> set us. key_rec obj (keyof u) \<noteq> None"
  shows "\<exists>c' obj'. batch_apply keyof app us (c, obj) = (c', obj') \<and> nokeys obj' = nokeys obj \<and>
    key_names obj' = key_names obj \<and>
    (\<forall>j. j \<notin> set (map keyof us) \<longrightarrow> key_rec obj' j = key_rec obj j) \<and>
    (\<forall>u \<in> set us. key_rec obj' (keyof u) = Some (fst (app (the (key_rec obj (keyof u))) u))) \<and>
    (c' \<longleftrightarrow> c \<or> (\<exists>u \<in> set us. snd (app (the (key_rec obj (keyof u))) u)))"
  using assms
proof (induction us arbitrary: c obj)
  case (Cons u us)
  let ?k = "keyof u" and ?m = "the (key_rec obj (keyof u))"
  let ?o = "put_key ?k (fst (app ?m u)) obj"
  have same: "key_rec ?o (keyof v) = key_rec obj (keyof v)" if "v \<in> set us" for v
  proof -
    have "keyof v \<in> set (map keyof us)" using that by simp
    then show ?thesis using Cons.prems(1) by (auto simp del: set_map)
  qed
  have names: "key_names ?o = key_names obj" using Cons.prems(2) by (intro key_names_put_known) simp
  have d: "distinct (map keyof us)" using Cons.prems(1) by simp
  have p: "\<forall>v \<in> set us. key_rec ?o (keyof v) \<noteq> None" using Cons.prems(2) same by (metis list.set_intros(2))
  obtain c' obj' where run: "batch_apply keyof app us (snd (app ?m u) \<or> c, ?o) = (c', obj')"
    and r: "nokeys obj' = nokeys ?o" "key_names obj' = key_names ?o"
      "\<forall>j. j \<notin> set (map keyof us) \<longrightarrow> key_rec obj' j = key_rec ?o j"
      "\<forall>v \<in> set us. key_rec obj' (keyof v) = Some (fst (app (the (key_rec ?o (keyof v))) v))"
      "c' \<longleftrightarrow> (snd (app ?m u) \<or> c) \<or> (\<exists>v \<in> set us. snd (app (the (key_rec ?o (keyof v))) v))"
    using Cons.IH [OF d p, of "snd (app ?m u) \<or> c"] by blast
  have "key_rec obj' ?k = Some (fst (app ?m u))" using r(3) Cons.prems(1) by simp
  then show ?case using run r names same by auto
qed simp

end
