(* ===== verification/State_Obj.thy ===== *)
theory State_Obj
  imports State_Inv State_Keys
begin

text \<open>
  The state registry as a whole: its invariant, the step relation of its exported operations,
  and the properties of the published snapshot. \<open>published\<close> says that the snapshot readers see
  is the one a full rebuild would give, although most operations patch the previous one.
\<close>

section \<open>Publishing\<close>

definition strip :: "SnapshotObj \<Rightarrow> SnapshotObj" where
  "strip sn = sn\<lparr>sn_Generation := 0\<rparr>"

definition published :: "state_Obj \<Rightarrow> bool" where
  "published obj \<longleftrightarrow> so_snap obj = Some ((buildSnapshot obj)\<lparr>sn_Generation := so_generation obj\<rparr>)"

definition unpub :: "state_Obj \<Rightarrow> state_Obj" where
  "unpub obj = obj\<lparr>so_snap := None, so_generation := 0\<rparr>"

lemma unpub_publish [simp]:
  "unpub (publishSnapshot sn obj) = unpub obj"
  "unpub (publishChanged c obj) = unpub obj"
  "unpub (publishMetaChanged c obj) = unpub obj"
  "unpub (publishKeyViewsChanged c obj) = unpub obj"
  "unpub (publishHealthChanged c obj) = unpub obj"
  by (auto simp: publishSnapshot_def publishChanged_def publishMetaChanged_def publishKeyViewsChanged_def
      publishHealthChanged_def bumpGeneration_def unpub_def Let_def split: option.splits)

lemma buildSnapshot_unpub: "buildSnapshot (unpub obj) = buildSnapshot obj"
  by (simp add: buildSnapshot_def build_from_def unpub_def Let_def)

lemma buildSnapshot_gen: "sn_Generation (buildSnapshot obj) = 0"
  by (simp add: buildSnapshot_def build_from_def Let_def)

lemma buildSnapshot_cong: "unpub obj' = unpub obj \<Longrightarrow> buildSnapshot obj' = buildSnapshot obj"
  by (metis buildSnapshot_unpub)

text \<open>Publishing a snapshot that a rebuild would give keeps \<open>published\<close>.\<close>

lemma publishSnapshot_published:
  assumes "strip sn = buildSnapshot obj"
  shows "published (publishSnapshot sn obj)"
proof -
  have "buildSnapshot (publishSnapshot sn obj) = buildSnapshot obj" by (rule buildSnapshot_cong) simp
  moreover have "so_snap (publishSnapshot sn obj) =
      Some (sn\<lparr>sn_Generation := so_generation (publishSnapshot sn obj)\<rparr>)"
    by (simp add: publishSnapshot_def Let_def)
  ultimately show ?thesis using assms by (simp add: published_def strip_def flip: assms)
qed

lemma strip_buildSnapshot [simp]: "strip (buildSnapshot obj) = buildSnapshot obj"
  by (simp add: strip_def buildSnapshot_def build_from_def Let_def)

lemma publishChanged_published:
  "c \<or> (published obj) \<Longrightarrow> published (publishChanged c obj)"
  by (auto simp: publishChanged_def publishSnapshot_published)

lemma published_snap:
  assumes "published obj"
  obtains sn where "so_snap obj = Some sn" "strip sn = buildSnapshot obj"
  using assms buildSnapshot_gen [of obj] that
  by (auto simp: published_def strip_def simp flip: buildSnapshot_gen)

text \<open>\<open>same_but f\<close>: a new object with the old snapshot whose rebuild differs from the old one by \<open>f\<close>.\<close>

lemma publishMeta_published:
  assumes p: "published obj" and o: "obj' = obj\<lparr>so_lastRescan := ts, so_content := h\<rparr>"
    and c: "\<not> c \<Longrightarrow> obj' = obj"
  shows "published (publishMetaChanged c obj')"
proof (cases c)
  case True
  obtain sn where sn: "so_snap obj = Some sn" "strip sn = buildSnapshot obj" by (rule published_snap [OF p])
  have "strip (sn\<lparr>sn_Content := so_content obj', sn_LastRescan := so_lastRescan obj'\<rparr>) =
      (strip sn)\<lparr>sn_Content := so_content obj', sn_LastRescan := so_lastRescan obj'\<rparr>"
    by (simp add: strip_def)
  also have "\<dots> = buildSnapshot obj'" by (simp add: sn o buildSnapshot_def build_from_def Let_def)
  finally have "published (publishSnapshot (sn\<lparr>sn_Content := so_content obj', sn_LastRescan := so_lastRescan obj'\<rparr>) obj')"
    by (rule publishSnapshot_published)
  then show ?thesis using True sn o by (simp add: publishMetaChanged_def)
next
  case False
  then show ?thesis using p c by (simp add: publishMetaChanged_def)
qed

lemma publishHealth_published:
  assumes p: "published obj" and o: "obj' = obj\<lparr>so_droppedDiagnostics := n\<rparr>"
  shows "published (publishHealthChanged True obj')"
proof -
  obtain sn where sn: "so_snap obj = Some sn" "strip sn = buildSnapshot obj" by (rule published_snap [OF p])
  have "strip (sn\<lparr>sn_health := (sn_health sn)\<lparr>hv_DroppedDiagnostics := so_droppedDiagnostics obj'\<rparr>\<rparr>) =
      (strip sn)\<lparr>sn_health := (sn_health (strip sn))\<lparr>hv_DroppedDiagnostics := so_droppedDiagnostics obj'\<rparr>\<rparr>"
    by (simp add: strip_def)
  also have "\<dots> = buildSnapshot obj'" by (simp add: sn o buildSnapshot_def build_from_def Let_def)
  finally show ?thesis using sn o by (simp add: publishHealthChanged_def publishSnapshot_published)
qed

text \<open>The key views, with the statuses that the diagnostics give.\<close>

definition diag_scan :: "state_Obj \<Rightarrow> health_scan" where
  "diag_scan obj = fold health_step (map snd (so_diagnosticMap obj)) health_start"

definition key_status :: "state_Obj \<Rightarrow> string \<Rightarrow> OperationalStatusType" where
  "key_status obj key = statusForKey key (hs_global (diag_scan obj)) (hs_keyStatus (diag_scan obj))"

lemma keyArr_buildSnapshot:
  "sn_keyArr (buildSnapshot obj) =
   map (\<lambda>key. keyViewFromMut (the (key_rec obj key)) (key_status obj key)) (so_keyOrder obj)"
  by (simp add: buildSnapshot_def build_from_def Let_def key_rec_def key_status_def diag_scan_def)

lemma buildSnapshot_nokeys:
  assumes "nokeys obj' = nokeys obj"
  shows "buildSnapshot obj' = (buildSnapshot obj)\<lparr>sn_keyArr := sn_keyArr (buildSnapshot obj')\<rparr>"
  by (simp add: buildSnapshot_def build_from_def Let_def nokeys_fields [OF assms])

lemma key_status_nokeys:
  assumes "nokeys obj' = nokeys obj"
  shows "key_status obj' key = key_status obj key"
  by (simp add: key_status_def diag_scan_def nokeys_fields(4) [OF assms])

lemma buildSnapshot_meta: "sn_Content (buildSnapshot obj) = so_content obj" "sn_LastRescan (buildSnapshot obj) = so_lastRescan obj"
  by (simp_all add: buildSnapshot_def build_from_def Let_def)

lemma keyView_status [simp]: "ks_Status (keyViewFromMut m s) = s"
  by (simp add: keyViewFromMut_def)

lemma rebuilt_key_views_ok:
  assumes n: "nokeys obj' = nokeys obj" and sn: "sn_keyArr sn = sn_keyArr (buildSnapshot obj)"
  shows "rebuilt_key_views sn obj' = sn_keyArr (buildSnapshot obj')"
proof -
  have ord: "so_keyOrder obj' = so_keyOrder obj" by (rule nokeys_fields(2) [OF n])
  have len: "length (sn_keyArr sn) = length (so_keyOrder obj)" by (simp only: sn keyArr_buildSnapshot length_map)
  have st: "ks_Status (sn_keyArr sn ! i) = key_status obj' (so_keyOrder obj ! i)" if "i < length (so_keyOrder obj)" for i
    using that by (simp only: sn keyArr_buildSnapshot nth_map keyView_status key_status_nokeys [OF n])
  have "rebuilt_key_views sn obj' ! i = sn_keyArr (buildSnapshot obj') ! i" if "i < length (so_keyOrder obj)" for i
    using that by (simp only: rebuilt_key_views_def keyArr_buildSnapshot ord nth_map length_enumerate
        nth_enumerate_eq prod.case len st if_True key_rec_def add_0)
  moreover have "length (rebuilt_key_views sn obj') = length (so_keyOrder obj)"
    "length (sn_keyArr (buildSnapshot obj')) = length (so_keyOrder obj)"
    by (simp_all only: rebuilt_key_views_def keyArr_buildSnapshot length_map length_enumerate ord)
  ultimately show ?thesis by (metis nth_equalityI)
qed

lemma patch_key_views:
  assumes "strip sn = buildSnapshot obj" "nokeys obj' = nokeys obj"
  shows "strip (sn\<lparr>sn_Content := so_content obj', sn_LastRescan := so_lastRescan obj',
      sn_keyArr := rebuilt_key_views sn obj'\<rparr>) = buildSnapshot obj'"
proof -
  have "sn_keyArr sn = sn_keyArr (strip sn)" by (simp add: strip_def)
  then have views: "rebuilt_key_views sn obj' = sn_keyArr (buildSnapshot obj')"
    using rebuilt_key_views_ok [OF assms(2)] assms(1) by simp
  have meta: "so_content obj' = sn_Content (strip sn)" "so_lastRescan obj' = sn_LastRescan (strip sn)"
    by (simp_all only: assms(1) buildSnapshot_meta nokeys_fields [OF assms(2)])
  have "strip (sn\<lparr>sn_Content := so_content obj', sn_LastRescan := so_lastRescan obj',
      sn_keyArr := rebuilt_key_views sn obj'\<rparr>) = (strip sn)\<lparr>sn_keyArr := sn_keyArr (buildSnapshot obj')\<rparr>"
    by (simp only: meta views) (simp add: strip_def)
  then show ?thesis using buildSnapshot_nokeys [OF assms(2)] assms(1) by simp
qed

lemma publishKeyViews_published:
  assumes p: "published obj" and n: "nokeys obj' = nokeys obj"
    and c: "\<not> c \<Longrightarrow> \<forall>key. map_option keyViewFromMut (key_rec obj' key) = map_option keyViewFromMut (key_rec obj key)"
    and known: "\<forall>key \<in> set (so_keyOrder obj). key_rec obj key \<noteq> None"
  shows "published (publishKeyViewsChanged c obj')"
proof (cases c)
  case True
  obtain sn where sn: "so_snap obj = Some sn" "strip sn = buildSnapshot obj" by (rule published_snap [OF p])
  show ?thesis using True sn(1) publishSnapshot_published [OF patch_key_views [OF sn(2) n]]
    by (simp add: publishKeyViewsChanged_def nokeys_fields(1) [OF n])
next
  case False
  have "keyViewFromMut (the (key_rec obj' key)) = keyViewFromMut (the (key_rec obj key))"
    if k: "key \<in> set (so_keyOrder obj)" for key
  proof -
    obtain m where "key_rec obj key = Some m" using bspec [OF known k] by auto
    moreover then obtain m' where "key_rec obj' key = Some m'" using spec [OF c [OF False], of key] by auto
    ultimately show ?thesis using spec [OF c [OF False], of key] by simp
  qed
  then have "sn_keyArr (buildSnapshot obj') = sn_keyArr (buildSnapshot obj)"
    by (simp add: keyArr_buildSnapshot nokeys_fields(2) [OF n] key_status_nokeys [OF n])
  then have "buildSnapshot obj' = buildSnapshot obj" using buildSnapshot_nokeys [OF n] by simp
  then show ?thesis using False p
    by (simp add: publishKeyViewsChanged_def published_def nokeys_fields(1,11) [OF n])
qed

section \<open>The invariant\<close>

definition keys_ok :: "state_Obj \<Rightarrow> bool" where
  "keys_ok obj \<longleftrightarrow>
     distinct (key_names obj) \<and> so_keyOrder obj = sort (key_names obj) \<and>
     so_keyIndex obj = index_from 0 (so_keyOrder obj) \<and> 0 < so_permanentAt obj \<and>
     (\<forall>k m. key_rec obj k = Some m \<longrightarrow> km_key m = k \<and> k \<noteq> [] \<and> key_ok (so_permanentAt obj) m)"

definition diag_rec_ok :: "string set \<Rightarrow> diagnosticRecordObj \<Rightarrow> bool" where
  "diag_rec_ok names r \<longleftrightarrow>
     dr_impact r \<in> {StatusDegraded, StatusError} \<and> reason_valid (dr_reason r) \<and>
     (case dr_scope r of
        ScopeGlobal \<Rightarrow> dr_key r = [] \<and> dr_version r = []
      | ScopeKey \<Rightarrow> dr_key r \<in> names \<and> dr_version r = []
      | ScopeVersion \<Rightarrow> dr_key r \<in> names \<and> dr_version r \<noteq> []
      | _ \<Rightarrow> False)"

definition diags_ok :: "state_Obj \<Rightarrow> bool" where
  "diags_ok obj \<longleftrightarrow> (\<forall>k r. data_rec obj k = Some r \<longrightarrow> diag_rec_ok (set (key_names obj)) r)"

definition state_inv :: "state_Obj \<Rightarrow> bool" where
  "state_inv obj \<longleftrightarrow> keys_ok obj \<and> (\<exists>xs. registry_ok obj xs) \<and> diags_ok obj \<and> published obj"

lemma state_invD:
  assumes "state_inv obj"
  shows "keys_ok obj" "\<exists>xs. registry_ok obj xs" "diags_ok obj" "published obj"
  using assms by (simp_all add: state_inv_def)

text \<open>What does not depend on the published snapshot.\<close>

lemma get_rec_unpub: "get_rec (unpub obj) = get_rec obj"
  by (rule ext) (simp add: unpub_def get_rec_def)

lemma registry_unpub: "registry_ok (unpub obj) xs \<longleftrightarrow> registry_ok obj xs"
proof -
  have "data_rec (unpub obj) = data_rec obj" by (rule ext) (simp add: data_rec_def get_rec_unpub)
  then show ?thesis
    by (simp add: registry_ok_def queue_ok_def list_ok_def keys_match_def active_ok_def index_ok_def get_rec_unpub)
      (simp add: unpub_def diag_keys_def)
qed

lemma keys_ok_unpub: "keys_ok (unpub obj) \<longleftrightarrow> keys_ok obj"
  by (simp add: keys_ok_def unpub_def key_rec_def key_names_def)

lemma diags_ok_unpub: "diags_ok (unpub obj) \<longleftrightarrow> diags_ok obj"
  by (simp add: diags_ok_def data_rec_def get_rec_unpub) (simp add: unpub_def key_names_def)

lemma state_inv_publish:
  assumes "unpub obj' = unpub obj" "keys_ok obj" "registry_ok obj xs" "diags_ok obj" "published obj'"
  shows "state_inv obj'"
  using assms(2-5) keys_ok_unpub [of obj] keys_ok_unpub [of obj'] registry_unpub [of obj xs]
    registry_unpub [of obj' xs] diags_ok_unpub [of obj] diags_ok_unpub [of obj']
  unfolding state_inv_def assms(1) by blast

text \<open>What does not depend on the key records, but on their names.\<close>

lemma registry_nokeys:
  assumes n: "nokeys obj' = nokeys obj"
  shows "registry_ok obj' xs \<longleftrightarrow> registry_ok obj xs"
proof -
  note f = nokeys_fields [OF n]
  have "get_rec obj' = get_rec obj" by (rule ext) (simp add: get_rec_def f)
  moreover then have "data_rec obj' = data_rec obj" by (intro ext) (simp add: data_rec_def)
  ultimately show ?thesis
    by (simp add: registry_ok_def queue_ok_def list_ok_def keys_match_def active_ok_def index_ok_def
        diag_keys_def f)
qed

lemma diags_ok_nokeys:
  assumes n: "nokeys obj' = nokeys obj" and k: "key_names obj' = key_names obj"
  shows "diags_ok obj' \<longleftrightarrow> diags_ok obj"
  by (simp add: diags_ok_def data_rec_def get_rec_def k nokeys_fields(4) [OF n])

lemma keys_ok_known:
  assumes "keys_ok obj" "key \<in> set (so_keyOrder obj)"
  shows "key_rec obj key \<noteq> None"
  using assms key_rec_in_names [of obj key] by (simp add: keys_ok_def)

text \<open>An operation on key records keeps the invariant if it keeps the names and \<open>key_ok\<close>.\<close>

lemma key_op_inv:
  assumes inv: "state_inv obj" and n: "nokeys obj' = nokeys obj" and k: "key_names obj' = key_names obj"
    and recs: "\<And>key m'. key_rec obj' key = Some m' \<Longrightarrow>
      \<exists>m. key_rec obj key = Some m \<and> km_key m' = km_key m \<and>
        (key_ok (so_permanentAt obj) m \<longrightarrow> key_ok (so_permanentAt obj) m')"
    and c: "\<not> c \<Longrightarrow> \<forall>key. map_option keyViewFromMut (key_rec obj' key) = map_option keyViewFromMut (key_rec obj key)"
  shows "state_inv (publishKeyViewsChanged c obj')"
proof -
  note i = state_invD [OF inv]
  obtain xs where xs: "registry_ok obj xs" using i(2) by blast
  have "keys_ok obj'"
    using i(1) recs unfolding keys_ok_def k nokeys_fields(2,3,13) [OF n] by metis
  moreover have "registry_ok obj' xs" "diags_ok obj'"
    using xs i(3) registry_nokeys [OF n] diags_ok_nokeys [OF n k] by simp_all
  moreover have "published (publishKeyViewsChanged c obj')"
    by (rule publishKeyViews_published [OF i(4) n c]) (use keys_ok_known [OF i(1)] in blast)+
  ultimately show ?thesis by (intro state_inv_publish [of _ obj']) simp_all
qed

lemma key_op_inv_put:
  assumes inv: "state_inv obj" and m: "key_rec obj key = Some m" and m': "km_key m' = km_key m"
    "key_ok (so_permanentAt obj) m \<Longrightarrow> key_ok (so_permanentAt obj) m'"
    and c: "\<not> c \<Longrightarrow> keyViewFromMut m' = keyViewFromMut m"
  shows "state_inv (publishKeyViewsChanged c (put_key key m' obj))"
proof (rule key_op_inv [OF inv])
  show "key_names (put_key key m' obj) = key_names obj" using m by (intro key_names_put_known) simp
  show "\<exists>m0. key_rec obj k = Some m0 \<and> km_key m1 = km_key m0 \<and>
      (key_ok (so_permanentAt obj) m0 \<longrightarrow> key_ok (so_permanentAt obj) m1)"
    if "key_rec (put_key key m' obj) k = Some m1" for k m1
    using that m m' by (cases "k = key") auto
  show "\<forall>k. map_option keyViewFromMut (key_rec (put_key key m' obj) k) = map_option keyViewFromMut (key_rec obj k)"
    if "\<not> c" using c [OF that] m by simp
qed simp

text \<open>A batch: \<open>app\<close> is applied to every named key.\<close>

lemma batch_inv:
  assumes inv: "state_inv obj" and run: "batch_apply keyof app us (False, obj) = (c, obj')"
    and d: "distinct (map keyof us)" "\<forall>u \<in> set us. key_rec obj (keyof u) \<noteq> None"
    and app: "\<And>m u. u \<in> set us \<Longrightarrow> km_key (fst (app m u)) = km_key m \<and>
      (key_ok (so_permanentAt obj) m \<longrightarrow> key_ok (so_permanentAt obj) (fst (app m u))) \<and>
      (\<not> snd (app m u) \<longrightarrow> keyViewFromMut (fst (app m u)) = keyViewFromMut m)"
  shows "state_inv (publishKeyViewsChanged c obj')"
proof -
  have r: "nokeys obj' = nokeys obj" "key_names obj' = key_names obj"
    "\<And>j. j \<notin> set (map keyof us) \<Longrightarrow> key_rec obj' j = key_rec obj j"
    "\<And>u. u \<in> set us \<Longrightarrow> key_rec obj' (keyof u) = Some (fst (app (the (key_rec obj (keyof u))) u))"
    "c \<longleftrightarrow> (\<exists>u \<in> set us. snd (app (the (key_rec obj (keyof u))) u))"
    using batch_apply_spec [OF d, of app False] run by auto
  show ?thesis
  proof (rule key_op_inv [OF inv r(1,2)])
    fix key m' assume m': "key_rec obj' key = Some m'"
    show "\<exists>m. key_rec obj key = Some m \<and> km_key m' = km_key m \<and>
        (key_ok (so_permanentAt obj) m \<longrightarrow> key_ok (so_permanentAt obj) m')"
    proof (cases "key \<in> set (map keyof us)")
      case True
      then obtain u where u: "u \<in> set us" "key = keyof u" by auto
      then obtain m where "key_rec obj key = Some m" using d(2) by blast
      then show ?thesis using m' u r(4) [OF u(1)] app [OF u(1), of m] by auto
    qed (use m' r(3) in simp)
  next
    assume nc: "\<not> c"
    show "\<forall>key. map_option keyViewFromMut (key_rec obj' key) = map_option keyViewFromMut (key_rec obj key)"
    proof
      fix key
      show "map_option keyViewFromMut (key_rec obj' key) = map_option keyViewFromMut (key_rec obj key)"
      proof (cases "key \<in> set (map keyof us)")
        case True
        then obtain u where u: "u \<in> set us" "key = keyof u" by auto
        then obtain m where m: "key_rec obj key = Some m" using d(2) by blast
        have "\<not> snd (app m u)" using nc r(5) u m by auto
        then show ?thesis using m u r(4) [OF u(1)] app [OF u(1), of m] by auto
      qed (use r(3) in simp)
    qed
  qed
qed

section \<open>Key operations keep the invariant\<close>

lemma update_scan_ok: "validateAvailabilityUpdate now u = Inr () \<Longrightarrow> au_ScanAt u \<noteq> 0"
  by (auto simp: validateAvailabilityUpdate_def validateScanAt_def result_simps split: if_splits)

lemma apply_availability_facts:
  assumes "0 < P" "au_ScanAt u \<noteq> 0"
  shows "km_key (fst (applyAvailability P m u)) = km_key m \<and>
    (key_ok P m \<longrightarrow> key_ok P (fst (applyAvailability P m u))) \<and>
    (\<not> snd (applyAvailability P m u) \<longrightarrow> keyViewFromMut (fst (applyAvailability P m u)) = keyViewFromMut m)"
  using apply_key_ok [OF _ assms] apply_unchanged_view by simp

lemma ApplyAvailabilityBatch_inv:
  assumes inv: "state_inv obj"
  shows "state_inv (snd (ApplyAvailabilityBatch now us obj))"
proof (cases "us = [] \<or> length us > length (so_keyMap obj) \<or> check_each (validateAvailabilityUpdate now) us \<noteq> Inr ()")
  case True
  then show ?thesis using inv by (auto simp: ApplyAvailabilityBatch_def split: sum.splits)
next
  case False
  let ?P = "so_permanentAt obj"
  have P: "0 < ?P" using state_invD(1) [OF inv] by (simp add: keys_ok_def)
  have scan: "au_ScanAt u \<noteq> 0" if "u \<in> set us" for u
    using False that update_scan_ok by (auto simp: check_each_Inr)
  note facts = apply_availability_facts [OF P scan]
  show ?thesis
  proof (cases "length us = 1")
    case True
    then obtain u where us: "us = [u]" by (cases us) auto
    show ?thesis
    proof (cases "keyMut obj (au_Key u)")
      case (Inl e)
      then show ?thesis using False us inv by (simp add: ApplyAvailabilityBatch_def)
    next
      case (Inr m)
      have "state_inv (publishKeyViewsChanged (snd (applyAvailability ?P m u))
          (put_key (au_Key u) (fst (applyAvailability ?P m u)) obj))"
        by (rule key_op_inv_put [OF inv keyMut_Inr [OF Inr]]) (use facts [of u m] us in simp_all)
      then show ?thesis using False us Inr by (simp add: ApplyAvailabilityBatch_def split_beta Let_def)
    qed
  next
    case many: False
    show ?thesis
    proof (cases "batch_keys obj [] (map au_Key us)")
      case (Inl e)
      then show ?thesis using False many inv by (simp add: ApplyAvailabilityBatch_def)
    next
      case (Inr x)
      obtain c obj' where run: "batch_apply au_Key (applyAvailability ?P) us (False, obj) = (c, obj')" by force
      have d: "distinct (map au_Key us)" "\<forall>u \<in> set us. key_rec obj (au_Key u) \<noteq> None"
        using batch_keys_Inr [of obj "[]" "map au_Key us"] Inr by auto
      have "state_inv (publishKeyViewsChanged c obj')" by (rule batch_inv [OF inv run d facts])
      then show ?thesis using False many Inr run apply_updates_batch [of obj ?P us False]
        by (simp add: ApplyAvailabilityBatch_def Let_def)
    qed
  qed
qed

lemma applyMirrorStats_eq:
  "applyMirrorStats m st = m\<lparr>km_latestVersion := ms_LatestVersion st, km_versionCount := ms_VersionCount st,
     km_lastPublishTS := ms_LastPublishTS st\<rparr>"
  by (simp add: applyMirrorStats_def Let_def)

lemma stats_facts:
  "km_key (applyMirrorStats m st) = km_key m" "key_ok P (applyMirrorStats m st) \<longleftrightarrow> key_ok P m"
  "\<not> mirrorStatsChanged m st \<Longrightarrow> keyViewFromMut (applyMirrorStats m st) = keyViewFromMut m"
  by (auto simp: applyMirrorStats_eq key_ok_def mirrorStatsChanged_def keyViewFromMut_def fun_eq_iff
      split: AvailabilityStatusType.splits)

lemma SetMirrorStatsBatch_inv:
  assumes inv: "state_inv obj"
  shows "state_inv (snd (SetMirrorStatsBatch sts obj))"
proof (cases "sts = [] \<or> length sts > length (so_keyMap obj) \<or> check_each validate_stats sts \<noteq> Inr ()")
  case True
  then show ?thesis using inv by (auto simp: SetMirrorStatsBatch_def split: sum.splits)
next
  case False
  show ?thesis
  proof (cases "length sts = 1")
    case True
    then obtain st where sts: "sts = [st]" by (cases sts) auto
    show ?thesis
    proof (cases "keyMut obj (ms_Key st)")
      case (Inl e)
      then show ?thesis using False sts inv by (simp add: SetMirrorStatsBatch_def)
    next
      case (Inr m)
      have "state_inv (publishKeyViewsChanged (mirrorStatsChanged m st) (put_key (ms_Key st) (applyMirrorStats m st) obj))"
        by (rule key_op_inv_put [OF inv keyMut_Inr [OF Inr]]) (use stats_facts in simp_all)
      then show ?thesis using False sts Inr by (simp add: SetMirrorStatsBatch_def)
    qed
  next
    case many: False
    show ?thesis
    proof (cases "batch_keys obj [] (map ms_Key sts)")
      case (Inl e)
      then show ?thesis using False many inv by (simp add: SetMirrorStatsBatch_def)
    next
      case (Inr x)
      let ?app = "\<lambda>m st. (applyMirrorStats m st, mirrorStatsChanged m st)"
      obtain c obj' where run: "batch_apply ms_Key ?app sts (False, obj) = (c, obj')" by force
      have d: "distinct (map ms_Key sts)" "\<forall>st \<in> set sts. key_rec obj (ms_Key st) \<noteq> None"
        using batch_keys_Inr [of obj "[]" "map ms_Key sts"] Inr by auto
      have "state_inv (publishKeyViewsChanged c obj')"
        by (rule batch_inv [OF inv run d]) (use stats_facts in simp)
      then show ?thesis using False many Inr run apply_stats_batch [of sts False obj]
        by (simp add: SetMirrorStatsBatch_def Let_def)
    qed
  qed
qed

lemma classify_key_facts:
  assumes "classify_key cls src bro cf m = (Inr c, m')" and "cf \<longleftrightarrow> \<not> km_classified m \<or> km_classification m \<noteq> cls"
  shows "km_key m' = km_key m" "key_ok P m \<Longrightarrow> key_ok P m'"
    "\<not> c \<Longrightarrow> keyViewFromMut m' = keyViewFromMut m"
    "km_classification m' = cls" "km_classified m'" "cf \<Longrightarrow> \<not> km_reclassAllowed m'"
proof -
  show "km_key m' = km_key m" "km_classification m' = cls" "km_classified m'" "cf \<Longrightarrow> \<not> km_reclassAllowed m'"
    using assms(1) by (auto simp: classify_key_def Let_def split: if_splits sum.splits)
  have av: "km_availability m' = km_availability m \<and> km_unavailableCycles m' = km_unavailableCycles m \<and>
      km_lastScan m' = km_lastScan m \<and> (km_reclassAllowed m' \<longrightarrow> km_reclassAllowed m)"
    using assms(1) by (auto simp: classify_key_def Let_def split: if_splits sum.splits)
  show "key_ok P m'" if "key_ok P m"
    using that av by (cases "km_availability m") (auto simp: key_ok_def)
  show "keyViewFromMut m' = keyViewFromMut m" if "\<not> c"
    using assms that by (auto simp: classify_key_def Let_def keyViewFromMut_def fun_eq_iff split: if_splits sum.splits)
qed

text \<open>The second check of the brother URL cannot fail: the same text passed the first one.\<close>

lemma classify_key_no_error:
  "validateOptionalText bro cMaxURLBytes = Inr () \<Longrightarrow> \<exists>c m'. classify_key cls src bro cf m = (Inr c, m')"
  by (auto simp: classify_key_def Let_def validateOptionalText_def split: if_splits)

lemma SetClassification_cases:
  obtains (err) e where "SetClassification key cls src bro obj = (Inl e, obj)"
  | (ok) m c m' where "keyMut obj key = Inr m"
      "\<not> km_classified m \<or> km_classification m = cls \<or> km_reclassAllowed m"
      "classify_key cls src bro (\<not> km_classified m \<or> km_classification m \<noteq> cls) m = (Inr c, m')"
      "SetClassification key cls src bro obj = (Inr (), publishKeyViewsChanged c (put_key key m' obj))"
proof (cases "andthen (checkedClass cls) (\<lambda>_. andthen (validateOptionalText src cMaxURLBytes) (\<lambda>_.
    andthen (validateOptionalText bro cMaxURLBytes) (\<lambda>_. keyMut obj key)))")
  case (Inl e)
  then show ?thesis by (intro err [of e]) (simp add: SetClassification_def)
next
  case (Inr m)
  then have m: "keyMut obj key = Inr m" "validateOptionalText bro cMaxURLBytes = Inr ()" by (auto simp: result_simps)
  obtain c m' where cl: "classify_key cls src bro (\<not> km_classified m \<or> km_classification m \<noteq> cls) m = (Inr c, m')"
    using classify_key_no_error [OF m(2)] by blast
  show ?thesis
  proof (cases "\<not> km_classified m \<or> km_classification m = cls \<or> km_reclassAllowed m")
    case True
    then show ?thesis by (intro ok [OF m(1) _ cl]) (use Inr cl in \<open>auto simp: SetClassification_def Let_def\<close>)
  next
    case False
    then show ?thesis using Inr by (intro err [of ReclassNotAllowed]) (simp add: SetClassification_def Let_def)
  qed
qed

lemma SetClassification_inv:
  assumes inv: "state_inv obj"
  shows "state_inv (snd (SetClassification key cls src bro obj))"
proof (cases rule: SetClassification_cases [of key cls src bro obj])
  case (ok m c m')
  have "state_inv (publishKeyViewsChanged c (put_key key m' obj))"
    by (rule key_op_inv_put [OF inv keyMut_Inr [OF ok(1)]]) (use classify_key_facts [OF ok(3)] in simp_all)
  then show ?thesis using ok(4) by simp
qed (use inv in simp)

lemma SetRemoteKey_inv:
  assumes inv: "state_inv obj"
  shows "state_inv (snd (SetRemoteKey key rk obj))"
proof (cases "andthen (validateOptionalText rk cMaxKeyBytes) (\<lambda>_. keyMut obj key)")
  case (Inr m)
  then have m: "key_rec obj key = Some m" by (auto simp: result_simps dest: keyMut_Inr)
  have "state_inv (publishKeyViewsChanged True (put_key key (m\<lparr>km_remoteKey := k\<rparr>) obj))" for k
    by (rule key_op_inv_put [OF inv m]) (simp_all add: key_ok_def cong: AvailabilityStatusType.case_cong)
  then show ?thesis using Inr inv by (simp add: SetRemoteKey_def Let_def)
qed (use inv in \<open>simp add: SetRemoteKey_def\<close>)

lemma meta_inv:
  assumes inv: "state_inv obj" and c: "\<not> c \<Longrightarrow> obj\<lparr>so_lastRescan := ts, so_content := h\<rparr> = obj"
  shows "state_inv (publishMetaChanged c (obj\<lparr>so_lastRescan := ts, so_content := h\<rparr>))"
proof -
  let ?o = "obj\<lparr>so_lastRescan := ts, so_content := h\<rparr>"
  note i = state_invD [OF inv]
  obtain xs where xs: "registry_ok obj xs" using i(2) by blast
  have g: "get_rec ?o = get_rec obj" by (rule ext) (simp add: get_rec_def)
  then have "data_rec ?o = data_rec obj" by (intro ext) (simp add: data_rec_def)
  then have "registry_ok ?o xs \<and> diags_ok ?o"
    using xs i(3) g by (simp add: registry_ok_def queue_ok_def list_ok_def keys_match_def active_ok_def
        index_ok_def diag_keys_def diags_ok_def key_names_def)
  moreover have "keys_ok ?o" using i(1) by (simp add: keys_ok_def key_names_def key_rec_def)
  moreover have "published (publishMetaChanged c ?o)" by (rule publishMeta_published [OF i(4) refl c])
  ultimately show ?thesis by (intro state_inv_publish [of _ ?o xs]) simp_all
qed

lemma SetLastRescan_inv: "state_inv obj \<Longrightarrow> state_inv (SetLastRescan ts obj)"
  using meta_inv [where obj = obj and c = True and ts = ts and h = "so_content obj"] by (simp add: SetLastRescan_def)

lemma SetContentChecksum_inv: "state_inv obj \<Longrightarrow> state_inv (SetContentChecksum h obj)"
  using meta_inv [where obj = obj and c = "so_content obj \<noteq> h" and ts = "so_lastRescan obj" and h = h]
  by (auto simp: SetContentChecksum_def setContentChecksum_def publishMetaChanged_def split: if_splits)

section \<open>Diagnostic operations keep the invariant\<close>

lemma keys_rest2:
  assumes "rest2 obj' = rest2 obj"
  shows "key_rec obj' = key_rec obj" "key_names obj' = key_names obj" "keys_ok obj' \<longleftrightarrow> keys_ok obj"
proof -
  note f = rest2_fields [OF assms]
  show k: "key_rec obj' = key_rec obj" by (rule ext) (simp add: key_rec_def f)
  show n: "key_names obj' = key_names obj" by (simp add: key_names_def f)
  show "keys_ok obj' \<longleftrightarrow> keys_ok obj" by (simp add: keys_ok_def k n f)
qed

lemma diag_op_inv:
  assumes inv: "state_inv obj" and r: "rest2 obj' = rest2 obj" and ok: "registry_ok obj' xs"
    and recs: "\<And>k r. data_rec obj' k = Some r \<Longrightarrow> diag_rec_ok (set (key_names obj)) r"
  shows "state_inv (publishChanged True obj')"
proof -
  have "keys_ok obj'" using state_invD(1) [OF inv] keys_rest2(3) [OF r] by simp
  moreover have "diags_ok obj'" using recs by (simp add: diags_ok_def keys_rest2(2) [OF r])
  moreover have "published (publishChanged True obj')" by (rule publishChanged_published) simp
  ultimately show ?thesis using ok by (intro state_inv_publish [of _ obj' xs]) simp_all
qed

lemma validateDiagnosticObj_Inr:
  "validateDiagnosticObj d = Inr () \<Longrightarrow>
   di_Impact d \<in> {StatusDegraded, StatusError} \<and> reason_valid (di_Reason d) \<and> di_Code d \<noteq> []"
  by (auto simp: validateDiagnosticObj_def validateText_def result_simps split: if_splits)

lemma validateText_Inr_nonempty: "validateText v n = Inr () \<Longrightarrow> v \<noteq> []"
  by (auto simp: validateText_def)

text \<open>The canonical key is the key itself: records are stored under their own name.\<close>

lemma scope_Inr:
  assumes "keys_ok obj" "validateDiagnosticScope obj sc key v = Inr ck"
  shows "ck = key" "sc = ScopeGlobal \<and> key = [] \<and> v = [] \<or>
     sc = ScopeKey \<and> key \<in> set (key_names obj) \<and> v = [] \<or>
     sc = ScopeVersion \<and> key \<in> set (key_names obj) \<and> v \<noteq> []"
proof -
  have m: "km_key m = k \<and> k \<in> set (key_names obj)" if "keyMut obj k = Inr m" for k m
    using keyMut_Inr [OF that] assms(1) key_rec_in_names [of obj k] by (auto simp: keys_ok_def)
  show "ck = key" using assms(2) m
    by (auto simp: validateDiagnosticScope_def result_simps split: LogScopeType.splits if_splits)
  show "sc = ScopeGlobal \<and> key = [] \<and> v = [] \<or>
     sc = ScopeKey \<and> key \<in> set (key_names obj) \<and> v = [] \<or>
     sc = ScopeVersion \<and> key \<in> set (key_names obj) \<and> v \<noteq> []"
    using assms(2) m
    by (auto simp: validateDiagnosticScope_def result_simps dest: validateText_Inr_nonempty
        split: LogScopeType.splits if_splits)
qed

text \<open>What a raised diagnostic does to the records and to the queue of inactive ones.\<close>

definition raised_record :: "state_Obj \<Rightarrow> DiagnosticObj \<Rightarrow> gotime \<Rightarrow> diagnosticRecordObj" where
  "raised_record obj d now =
     (case data_rec obj (keyFromDiagnosticObj d) of
        None \<Rightarrow> new_record d now
      | Some r \<Rightarrow> repeat_record d now r)"

lemma upsert_cases:
  assumes ok: "registry_ok obj xs" and k: "k = keyFromDiagnosticObj d"
  obtains (full) "data_rec obj k = None" "xs = []" "length (diag_keys obj) = so_maxDiagnostics obj"
      "upsertDiagnostic k d now obj = (Inl RegistryFull, drop_count obj)"
  | (stored) c obj' xs' gone where "upsertDiagnostic k d now obj = (Inr c, obj')" "registry_ok obj' xs'"
      "rest2 obj' = rest2 obj" "so_droppedDiagnostics obj' = so_droppedDiagnostics obj"
      "\<And>j. data_rec obj' j = (if j = k then Some (raised_record obj d now)
           else if j \<in> gone then None else data_rec obj j)"
      "gone \<subseteq> set (take 1 xs)" "data_rec obj k \<noteq> None \<or> length (diag_keys obj) < so_maxDiagnostics obj \<Longrightarrow> gone = {}"
proof (cases "data_rec obj k")
  case (Some r)
  obtain c obj' where r: "upsertDiagnostic k d now obj = (Inr c, obj')" "registry_ok obj' (removeAll k xs)"
      "rest2 obj' = rest2 obj" "so_droppedDiagnostics obj' = so_droppedDiagnostics obj"
      "\<forall>j. data_rec obj' j = (if j = k then Some (repeat_record d now r) else data_rec obj j)"
    using upsert_known [OF ok Some k, of now] by blast
  show ?thesis by (rule stored [OF r(1-4), of "{}"]) (use r(5) Some k in \<open>simp_all add: raised_record_def\<close>)
next
  case None
  have rr: "raised_record obj d now = new_record d now" using None k by (simp add: raised_record_def)
  show ?thesis
  proof (cases "length (diag_keys obj) < so_maxDiagnostics obj")
    case True
    note i = insert_new_ok [OF ok _ True, of d] 
    have n: "data_rec obj (keyFromDiagnosticObj d) = None" using None k by simp
    show ?thesis
      by (rule stored [OF upsert_room [OF ok None k True] i(1) [OF n], of "{}"])
        (use i(2) [OF n] k rr in \<open>simp_all add: insert_new_def\<close>)
  next
    case full': False
    show ?thesis
    proof (cases xs)
      case Nil
      show ?thesis
        by (rule full) (use None Nil full' ok upsert_full [OF _ None full', of d now] registry_okD(4) [OF ok] in simp_all)
    next
      case (Cons x ys)
      note ev = evict_registry [OF ok [unfolded Cons]]
      note q = registry_okD(1) [OF ok [unfolded Cons]]
      let ?e = "snd (evictOldestInactive obj)"
      note u = upsert_evict [OF ok [unfolded Cons] None k full']
      have n: "data_rec ?e (keyFromDiagnosticObj d) = None" using None k by (simp add: evict_data [OF q])
      note i = insert_new_ok [OF ev(1) n u(2)]
      show ?thesis
        by (rule stored [OF u(1) i(1), of "{x}"])
          (use i(2) k rr ev full' None Cons in \<open>simp_all add: insert_new_def evict_data [OF q]\<close>)
    qed
  qed
qed

lemma raised_record_ok:
  assumes "di_Impact d \<in> {StatusDegraded, StatusError}" "reason_valid (di_Reason d)"
    "di_Scope d = ScopeGlobal \<and> di_Key d = [] \<and> di_Version d = [] \<or>
     di_Scope d = ScopeKey \<and> di_Key d \<in> names \<and> di_Version d = [] \<or>
     di_Scope d = ScopeVersion \<and> di_Key d \<in> names \<and> di_Version d \<noteq> []"
    "keys_match obj"
  shows "diag_rec_ok names (raised_record obj d now)"
proof (cases "data_rec obj (keyFromDiagnosticObj d)")
  case None
  then show ?thesis using assms(1-3) by (auto simp: raised_record_def diag_rec_ok_def new_record_def)
next
  case (Some r)
  then have "dr_key r = di_Key d" "dr_version r = di_Version d"
    using assms(4) by (auto simp: keys_match_iff keyFromDiagnosticRecordObj_def keyFromDiagnosticObj_def)
  then show ?thesis using Some assms(1-3) by (auto simp: raised_record_def diag_rec_ok_def repeat_record_def)
qed

lemma drop_count_eq: "\<exists>n. drop_count obj = obj\<lparr>so_droppedDiagnostics := n\<rparr>"
proof (cases "so_droppedDiagnostics obj < NOT 0")
  case False
  then have "drop_count obj = obj\<lparr>so_droppedDiagnostics := so_droppedDiagnostics obj\<rparr>" by (simp add: drop_count_def)
  then show ?thesis by blast
qed (auto simp: drop_count_def)

lemma drop_count_inv:
  assumes inv: "state_inv obj"
  shows "state_inv (publishHealthChanged True (drop_count obj))"
proof -
  obtain n where o: "drop_count obj = obj\<lparr>so_droppedDiagnostics := n\<rparr>" (is "_ = ?o") using drop_count_eq by blast
  note i = state_invD [OF inv]
  obtain xs where xs: "registry_ok obj xs" using i(2) by blast
  have g: "get_rec ?o = get_rec obj" by (rule ext) (simp add: get_rec_def)
  then have "data_rec ?o = data_rec obj" by (intro ext) (simp add: data_rec_def)
  then have "registry_ok ?o xs \<and> diags_ok ?o"
    using xs i(3) g by (simp add: registry_ok_def queue_ok_def list_ok_def keys_match_def active_ok_def
        index_ok_def diag_keys_def diags_ok_def key_names_def)
  moreover have "keys_ok ?o" using i(1) by (simp add: keys_ok_def key_names_def key_rec_def)
  moreover have "published (publishHealthChanged True ?o)" by (rule publishHealth_published [OF i(4) refl])
  ultimately show ?thesis by (unfold o, intro state_inv_publish [of _ ?o xs]) simp_all
qed

end
