(* ===== verification/State_Steps.thy ===== *)
theory State_Steps
  imports State_Obj "HOL-Library.Multiset"
begin

text \<open>
  The registry as a transition system: every exported operation is a step, every state reached
  from \<open>New\<close> satisfies \<open>state_inv\<close>, and the properties of the registry follow from it.
\<close>

section \<open>Raising and clearing keep the invariant\<close>

lemma RaiseDiagnostic_cases:
  assumes inv: "state_inv obj"
  obtains (rejected) e where "RaiseDiagnostic now d obj = (Inl e, obj)" "e \<noteq> RegistryFull"
  | (valid) "validateDiagnosticObj d = Inr ()"
      "di_Scope d = ScopeGlobal \<and> di_Key d = [] \<and> di_Version d = [] \<or>
       di_Scope d = ScopeKey \<and> di_Key d \<in> set (key_names obj) \<and> di_Version d = [] \<or>
       di_Scope d = ScopeVersion \<and> di_Key d \<in> set (key_names obj) \<and> di_Version d \<noteq> []"
      "RaiseDiagnostic now d obj =
        (case upsertDiagnostic (keyFromDiagnosticObj d) d now obj of
           (Inl e, obj1) \<Rightarrow> (Inl e, publishHealthChanged True obj1)
         | (Inr _, obj1) \<Rightarrow> (Inr (), publishChanged True obj1))"
proof (cases "andthen (validateDiagnosticObj d) (\<lambda>_. validateDiagnosticScope obj (di_Scope d) (di_Key d) (di_Version d))")
  case (Inl e)
  have "e \<noteq> RegistryFull" using Inl
    by (auto simp: result_simps validateDiagnosticObj_def validateText_def validateOptionalText_def
        validateDiagnosticScope_def keyMut_def split: if_splits LogScopeType.splits option.splits)
  then show ?thesis using Inl by (intro rejected [of e]) (simp_all add: RaiseDiagnostic_def)
next
  case (Inr ck)
  then have v: "validateDiagnosticObj d = Inr ()"
      "validateDiagnosticScope obj (di_Scope d) (di_Key d) (di_Version d) = Inr ck" by (auto simp: result_simps)
  note s = scope_Inr [OF state_invD(1) [OF inv] v(2)]
  show ?thesis by (rule valid [OF v(1) s(2)]) (use Inr s(1) in \<open>simp add: RaiseDiagnostic_def\<close>)
qed

lemma RaiseDiagnostic_inv:
  assumes inv: "state_inv obj"
  shows "state_inv (snd (RaiseDiagnostic now d obj))"
proof (cases rule: RaiseDiagnostic_cases [OF inv, of now d])
  case valid: 2
  obtain xs where xs: "registry_ok obj xs" using state_invD(2) [OF inv] by blast
  show ?thesis
  proof (cases rule: upsert_cases [OF xs refl, of d now])
    case 1
    then show ?thesis using valid(3) drop_count_inv [OF inv] by simp
  next
    case stored: (2 c obj' xs' gone)
    have imp: "di_Impact d \<in> {StatusDegraded, StatusError}" "reason_valid (di_Reason d)"
      using validateDiagnosticObj_Inr [OF valid(1)] by simp_all
    have rr: "diag_rec_ok (set (key_names obj)) (raised_record obj d now)"
      by (rule raised_record_ok [OF imp valid(2) registry_okD(6) [OF xs]])
    have "state_inv (publishChanged True obj')"
      by (rule diag_op_inv [OF inv stored(3,2)])
        (use rr state_invD(3) [OF inv] in \<open>auto simp: stored(5) diags_ok_def split: if_splits\<close>)
    then show ?thesis using valid(3) stored(1) by simp
  qed
qed (use inv in simp)

lemma diag_rec_ok_switch_off [simp]: "diag_rec_ok names (switch_off r) \<longleftrightarrow> diag_rec_ok names r"
  by (cases "dr_scope r") (simp_all add: diag_rec_ok_def switch_off_def)

lemma deactivate_rec:
  "data_rec (deactivate k obj) j = (if j = k then map_option switch_off (data_rec obj k) else data_rec obj j)"
  by (simp add: deactivate_data switch_off_def [abs_def])

text \<open>A clearing loop over any list of keys without repetitions.\<close>

lemma clear_loop_inv:
  assumes inv: "state_inv obj" and run: "clear_loop sel ord (False, obj) = (c, obj')" and d: "distinct ord"
    and sel: "\<And>r. sel (data_of r) = sel r"
  shows "state_inv (publishChanged c obj')"
proof -
  obtain xs where xs: "registry_ok obj xs" using state_invD(2) [OF inv] by blast
  obtain c1 o1 where r: "clear_loop sel ord (False, obj) = (c1, o1)"
      "registry_ok o1 (xs @ filter (selects obj sel) ord)" "rest o1 = rest obj"
      "\<forall>j. data_rec o1 j = (if j \<in> set ord \<and> selects obj sel j then map_option switch_off (data_rec obj j) else data_rec obj j)"
      "\<not> c1 \<longrightarrow> o1 = obj"
    using clear_loop_spec [of obj xs ord sel False] xs d sel by blast
  then have eq: "c1 = c" "o1 = obj'" using run by simp_all
  show ?thesis
  proof (cases c)
    case True
    have "state_inv (publishChanged True o1)"
      by (rule diag_op_inv [OF inv rest2_of_rest [OF r(3)] r(2)])
        (use state_invD(3) [OF inv] in \<open>auto simp: r(4) diags_ok_def split: if_splits\<close>)
    then show ?thesis using eq True by simp
  next
    case False
    then show ?thesis using r(5) eq inv by (simp add: publishChanged_def)
  qed
qed

definition ord_ok :: "('a list \<Rightarrow> 'a list) \<Rightarrow> bool" where
  "ord_ok ord \<longleftrightarrow> (\<forall>xs. mset (ord xs) = mset xs)"

lemma ord_ok_facts: "ord_ok ord \<Longrightarrow> set (ord xs) = set xs" "ord_ok ord \<Longrightarrow> distinct (ord xs) = distinct xs"
  by (metis mset_eq_setD ord_ok_def) (metis mset_eq_imp_distinct_iff ord_ok_def)

lemma key_selected_data [simp]: "key_selected v b (data_of r) = key_selected v b r"
  by (simp add: key_selected_def data_of_def)

lemma index_entry:
  assumes "registry_ok obj xs" "so_diagnosticByKey obj key = Some s"
  shows "distinct s" "set s = {k \<in> set (diag_keys obj). dk_key k = key}" "key \<noteq> []" "s \<noteq> []"
  using index_fitsD(1) [of _ _ key s] registry_okD(3) [OF assms(1)] assms(2) by (auto simp: index_ok_def)

lemma clearDiagnostics_inv:
  assumes inv: "state_inv obj" and o: "ord_ok ord"
  shows "state_inv (publishChanged (fst (clearDiagnostics ord key v b obj)) (snd (clearDiagnostics ord key v b obj)))"
proof (cases "so_diagnosticByKey obj key")
  case None
  then show ?thesis using inv by (simp add: clearDiagnostics_def publishChanged_def)
next
  case (Some s)
  obtain xs where xs: "registry_ok obj xs" using state_invD(2) [OF inv] by blast
  note e = index_entry [OF xs Some]
  obtain c obj' where run: "clear_loop (key_selected v b) (ord s) (False, obj) = (c, obj')" by force
  have "state_inv (publishChanged c obj')"
    by (rule clear_loop_inv [OF inv run]) (use e(1) ord_ok_facts(2) [OF o] in simp_all)
  then show ?thesis using Some e(4) run by (simp add: clearDiagnostics_def)
qed

lemma ClearKeyDiagnostics_inv:
  assumes "state_inv obj" "ord_ok ord"
  shows "state_inv (snd (ClearKeyDiagnostics ord key obj))"
  using clearDiagnostics_inv [OF assms, of key "[]" False] assms(1)
  by (auto simp: ClearKeyDiagnostics_def split_beta Let_def split: sum.splits)

lemma ClearVersionDiagnostics_inv:
  assumes "state_inv obj" "ord_ok ord"
  shows "state_inv (snd (ClearVersionDiagnostics ord key v obj))"
  using clearDiagnostics_inv [OF assms, of key v True] assms(1)
  by (auto simp: ClearVersionDiagnostics_def split_beta Let_def split: sum.splits)

lemma ClearAllDiagnostics_inv:
  assumes inv: "state_inv obj" and o: "ord_ok ord"
  shows "state_inv (ClearAllDiagnostics ord obj)"
proof -
  obtain xs where xs: "registry_ok obj xs" using state_invD(2) [OF inv] by blast
  obtain c obj' where run: "clear_loop (\<lambda>_. True) (ord (map fst (so_diagnosticMap obj))) (False, obj) = (c, obj')"
    by force
  have "state_inv (publishChanged c obj')"
    by (rule clear_loop_inv [OF inv run])
      (use registry_okD(7) [OF xs] ord_ok_facts(2) [OF o] in \<open>simp_all add: diag_keys_def\<close>)
  then show ?thesis using run by (simp add: ClearAllDiagnostics_def)
qed

lemma ClearDiagnostic_cases:
  assumes inv: "state_inv obj"
  obtains (noop) e where "ClearDiagnostic d obj = (e, obj)"
    "e = Inr () \<Longrightarrow> (\<forall>r. data_rec obj d = Some r \<longrightarrow> \<not> dr_active r)"
  | (off) r where "data_rec obj d = Some r" "dr_active r"
      "ClearDiagnostic d obj = (Inr (), publishChanged True (deactivate d obj))"
proof (cases "andthen (validateDiagnosticKeyObj d) (\<lambda>_. validateDiagnosticScope obj (dk_scope d) (dk_key d) (dk_version d))")
  case (Inl e)
  then show ?thesis by (intro noop [of "Inl e"]) (simp_all add: ClearDiagnostic_def)
next
  case (Inr ck)
  then have "validateDiagnosticScope obj (dk_scope d) (dk_key d) (dk_version d) = Inr ck" by (auto simp: result_simps)
  then have d: "d\<lparr>dk_key := ck\<rparr> = d" using scope_Inr(1) [OF state_invD(1) [OF inv]] by simp
  show ?thesis
  proof (cases "get_rec obj d")
    case None
    then show ?thesis using Inr d
      by (intro noop [of "Inr ()"]) (simp_all add: ClearDiagnostic_def publishChanged_def data_rec_def)
  next
    case (Some r)
    show ?thesis
    proof (cases "dr_active r")
      case True
      then show ?thesis using Inr d Some
        by (intro off [of "data_of r"]) (simp_all add: ClearDiagnostic_def data_rec_def)
    next
      case False
      then show ?thesis using Inr d Some
        by (intro noop [of "Inr ()"]) (simp_all add: ClearDiagnostic_def publishChanged_def data_rec_def)
    qed
  qed
qed

lemma ClearDiagnostic_inv:
  assumes inv: "state_inv obj"
  shows "state_inv (snd (ClearDiagnostic d obj))"
proof (cases rule: ClearDiagnostic_cases [OF inv, of d])
  case (2 r)
  obtain xs where xs: "registry_ok obj xs" using state_invD(2) [OF inv] by blast
  have "state_inv (publishChanged True (deactivate d obj))"
    by (rule diag_op_inv [OF inv _ deactivate_ok [OF xs 2(1,2)]])
      (use state_invD(3) [OF inv] in \<open>auto simp: deactivate_rec diags_ok_def split: if_splits\<close>)
  then show ?thesis using 2(3) by simp
qed (use inv in simp)

section \<open>The transition system\<close>

lemma seed_keys_Inr:
  "seed_keys mirrors obj = Inr obj' \<Longrightarrow>
   nokeys obj' = nokeys obj \<and> (distinct (key_names obj) \<longrightarrow> distinct (key_names obj')) \<and>
   (\<forall>k m. key_rec obj' k = Some m \<longrightarrow> key_rec obj k = Some m \<or> (\<exists>url. m = newKeyMutObj k url \<and> k \<noteq> []))"
proof (induction mirrors arbitrary: obj)
  case (Cons mirror mirrors)
  obtain key url where m: "mirror = (key, url)" by force
  let ?o = "put_key key (newKeyMutObj key url) obj"
  have run: "seed_keys mirrors ?o = Inr obj'" and key: "key \<noteq> []"
    using Cons.prems m by (auto simp: result_simps dest: validateText_Inr_nonempty)
  have "distinct (key_names ?o)" if "distinct (key_names obj)"
    using that by (simp add: key_names_def put_key_def distinct_update)
  then show ?case using Cons.IH [OF run] key by (auto split: if_splits)
qed simp

lemma state_New_inv:
  assumes "state_New mirrors p = Inr obj"
  shows "state_inv obj"
proof -
  obtain o0 o1 where run: "seed_keys mirrors o0 = Inr o1" and o0: "so_diagnosticMap o0 = []"
      "so_diagnosticByKey o0 = (\<lambda>_. None)" "so_inactiveHead o0 = None" "so_inactiveTail o0 = None"
      "so_inactiveLen o0 = 0" "so_keyMap o0 = []" "so_generation o0 = 0" "so_permanentAt o0 = ucast p"
    and p: "\<not> p < 1" "\<not> p > 4294967295"
    and obj: "obj = (buildKeyIndex o1)\<lparr>so_snap := Some (buildSnapshot (buildKeyIndex o1))\<rparr>"
    using assms by (auto simp: state_New_def result_simps Let_def)
  note s = seed_keys_Inr [OF run]
  have n: "nokeys o1 = nokeys o0" using s by blast
  note f = nokeys_fields [OF n]
  have "unat p < 2 ^ 32" "0 < unat p" using p by (simp_all add: word_less_nat_alt word_le_nat_alt unat_gt_0)
  then have "unat (ucast p :: u32) = unat p" by (simp add: unsigned_ucast_eq take_bit_nat_eq_self)
  then have pos: "0 < (ucast p :: u32)" using \<open>0 < unat p\<close> by (simp add: word_less_nat_alt)
  let ?o = "buildKeyIndex o1"
  have kr: "key_rec ?o = key_rec o1" "key_names ?o = key_names o1"
    by (auto simp: key_rec_def key_names_def buildKeyIndex_def Let_def)
  have none: "key_rec o0 k = None" for k by (simp add: key_rec_def o0)
  have fresh: "km_key m = k \<and> k \<noteq> [] \<and> key_ok P m" if "key_rec o1 k = Some m" for k m P
  proof -
    have "\<exists>url. m = newKeyMutObj k url \<and> k \<noteq> []" using s none that by fastforce
    then show ?thesis by (auto simp: newKeyMutObj_def key_ok_def)
  qed
  have "distinct (key_names o1)" using s by (simp add: key_names_def o0)
  then have "keys_ok ?o"
    using pos fresh unfolding keys_ok_def kr by (simp add: buildKeyIndex_def Let_def key_names_def f o0)
  moreover have gr: "get_rec ?o k = None" "data_rec ?o k = None" for k
    by (simp_all add: get_rec_def data_rec_def buildKeyIndex_def Let_def f o0)
  then have "registry_ok ?o []" "diags_ok ?o"
    by (simp_all add: registry_ok_def queue_ok_def list_ok_def keys_match_def active_ok_def index_ok_def
        index_fits_def diags_ok_def) (simp_all add: diag_keys_def buildKeyIndex_def Let_def f o0)
  moreover have u: "unpub obj = unpub ?o" by (simp add: obj unpub_def buildKeyIndex_def Let_def f o0)
  moreover have "published obj"
    using buildSnapshot_cong [OF u] buildSnapshot_gen [of ?o]
    by (simp add: published_def obj) (simp add: buildKeyIndex_def Let_def f o0)
  ultimately show ?thesis by (intro state_inv_publish [of obj ?o "[]"])
qed

text \<open>One step is one call of an exported method; its result does not matter here.\<close>

inductive state_step :: "state_Obj \<Rightarrow> state_Obj \<Rightarrow> bool" where
  availability: "ApplyAvailabilityBatch now us obj = (r, obj') \<Longrightarrow> state_step obj obj'"
| classification: "SetClassification key cls src bro obj = (r, obj') \<Longrightarrow> state_step obj obj'"
| remote_key: "SetRemoteKey key rk obj = (r, obj') \<Longrightarrow> state_step obj obj'"
| stats: "SetMirrorStatsBatch sts obj = (r, obj') \<Longrightarrow> state_step obj obj'"
| last_rescan: "state_step obj (SetLastRescan ts obj)"
| content: "state_step obj (SetContentChecksum h obj)"
| raise: "RaiseDiagnostic now d obj = (r, obj') \<Longrightarrow> state_step obj obj'"
| clear: "ClearDiagnostic dk obj = (r, obj') \<Longrightarrow> state_step obj obj'"
| clear_key: "ord_ok ord \<Longrightarrow> ClearKeyDiagnostics ord key obj = (r, obj') \<Longrightarrow> state_step obj obj'"
| clear_version: "ord_ok ord \<Longrightarrow> ClearVersionDiagnostics ord key v obj = (r, obj') \<Longrightarrow> state_step obj obj'"
| clear_all: "ord_ok ord \<Longrightarrow> state_step obj (ClearAllDiagnostics ord obj)"

inductive state_reachable :: "state_Obj \<Rightarrow> bool" where
  init: "state_New mirrors p = Inr obj \<Longrightarrow> state_reachable obj"
| step: "state_reachable obj \<Longrightarrow> state_step obj obj' \<Longrightarrow> state_reachable obj'"

lemmas op_invs = ApplyAvailabilityBatch_inv SetClassification_inv SetRemoteKey_inv SetMirrorStatsBatch_inv
  RaiseDiagnostic_inv ClearDiagnostic_inv ClearKeyDiagnostics_inv ClearVersionDiagnostics_inv

lemma state_step_inv: "state_step obj obj' \<Longrightarrow> state_inv obj \<Longrightarrow> state_inv obj'"
proof (induction rule: state_step.induct)
  case (last_rescan obj ts)
  then show ?case by (rule SetLastRescan_inv)
next
  case (content obj h)
  then show ?case by (rule SetContentChecksum_inv)
next
  case (clear_all ord obj)
  then show ?case by (simp add: ClearAllDiagnostics_inv)
qed (metis op_invs snd_conv)+

lemma reachable_inv: "state_reachable obj \<Longrightarrow> state_inv obj"
  by (induction rule: state_reachable.induct) (auto intro: state_New_inv state_step_inv)

end
