(* ===== verification/State_Health.thy ===== *)
theory State_Health
  imports State_Steps
begin

text \<open>
  What a snapshot says about the diagnostics: the loop of \<open>buildSnapshotLocked\<close> computes the
  worst impact over sets of active records, whatever the order of the map.
\<close>

section \<open>The worst impact\<close>

definition worst :: "diagnosticRecordObj set \<Rightarrow> OperationalStatusType" where
  "worst S =
     (if \<exists>r \<in> S. dr_impact r = StatusError then StatusError
      else if \<exists>r \<in> S. dr_impact r = StatusDegraded then StatusDegraded else StatusOk)"

definition is_global :: "diagnosticRecordObj \<Rightarrow> bool" where
  "is_global r \<longleftrightarrow> dr_scope r = ScopeGlobal \<or> dr_key r = []"

definition impacts_ok :: "diagnosticRecordObj set \<Rightarrow> bool" where
  "impacts_ok S \<longleftrightarrow> (\<forall>r \<in> S. dr_impact r = StatusDegraded \<or> dr_impact r = StatusError)"

lemma maxStatus_worst:
  "dr_impact r = StatusDegraded \<or> dr_impact r = StatusError \<Longrightarrow>
   maxStatus (worst S) (dr_impact r) = worst (insert r S)"
  by (auto simp: worst_def maxStatus_def statusRank_def)

lemma maxStatus_undef:
  "dr_impact r = StatusDegraded \<or> dr_impact r = StatusError \<Longrightarrow>
   maxStatus UndefOperationalStatus (dr_impact r) = worst {r}"
  by (auto simp: worst_def maxStatus_def statusRank_def)

lemma worst_union: "maxStatus (worst S) (worst T) = worst (S \<union> T)"
proof (cases "\<exists>r \<in> S. dr_impact r = StatusError")
  case True
  then show ?thesis by (auto simp: worst_def maxStatus_def statusRank_def)
next
  case False
  show ?thesis
  proof (cases "\<exists>r \<in> T. dr_impact r = StatusError")
    case True
    then show ?thesis using False by (auto simp: worst_def maxStatus_def statusRank_def)
  next
    case none: False
    then show ?thesis using False by (auto simp: worst_def maxStatus_def statusRank_def)
  qed
qed

definition actives :: "diagnosticRecordObj list \<Rightarrow> diagnosticRecordObj set" where
  "actives rs = {r \<in> set rs. dr_active r}"

definition keyed :: "string \<Rightarrow> diagnosticRecordObj set \<Rightarrow> diagnosticRecordObj set" where
  "keyed key S = {r \<in> S. \<not> is_global r \<and> dr_key r = key}"

lemma actives_snoc: "actives (rs @ [r]) = (if dr_active r then insert r (actives rs) else actives rs)"
  by (auto simp: actives_def)

lemma keyed_insert: "keyed key (insert r S) =
    (if \<not> is_global r \<and> dr_key r = key then insert r (keyed key S) else keyed key S)"
  by (auto simp: keyed_def)

text \<open>\<open>scanned rs h\<close>: the loop variables \<open>h\<close> after the records \<open>rs\<close>.\<close>

definition scanned :: "diagnosticRecordObj list \<Rightarrow> health_scan \<Rightarrow> bool" where
  "scanned rs h \<longleftrightarrow>
    hs_health h = worst (actives rs) \<and> hs_global h = worst {r \<in> actives rs. is_global r} \<and>
    (\<forall>key. hs_keyStatus h key =
       (if keyed key (actives rs) = {} then None else Some (worst (keyed key (actives rs))))) \<and>
    hs_arr h = map diagnosticViewFromRecord (filter dr_active rs) \<and>
    set (hs_reasons h) = dr_reason ` actives rs \<and> distinct (hs_reasons h)"

lemma scanned_step:
  assumes s: "scanned rs h" and imp: "dr_impact r = StatusDegraded \<or> dr_impact r = StatusError"
  shows "scanned (rs @ [r]) (health_step r h)"
proof (cases "dr_active r")
  case False
  then show ?thesis using s by (simp add: scanned_def health_step_def actives_snoc)
next
  case True
  show ?thesis
  proof (cases "is_global r")
    case gl: True
    have "{q \<in> insert r (actives rs). is_global q} = insert r {q \<in> actives rs. is_global q}" using gl by auto
    then show ?thesis using s True gl
      by (simp add: scanned_def health_step_def Let_def is_global_def [symmetric] actives_snoc keyed_insert
          maxStatus_worst [OF imp])
  next
    case False
    have "{q \<in> insert r (actives rs). is_global q} = {q \<in> actives rs. is_global q}" using False by auto
    moreover have "maxStatus (case hs_keyStatus h (dr_key r) of None \<Rightarrow> UndefOperationalStatus | Some s \<Rightarrow> s) (dr_impact r) =
        worst (insert r (keyed (dr_key r) (actives rs)))"
      using s by (simp add: scanned_def maxStatus_worst [OF imp] maxStatus_undef [OF imp])
    ultimately show ?thesis using s True False
      by (simp add: scanned_def health_step_def Let_def is_global_def [symmetric] actives_snoc keyed_insert
          maxStatus_worst [OF imp])
  qed
qed

lemma health_fold: "impacts_ok (set rs) \<Longrightarrow> scanned rs (fold health_step rs health_start)"
proof (induction rs rule: rev_induct)
  case Nil
  then show ?case by (simp add: scanned_def health_start_def worst_def actives_def keyed_def)
next
  case (snoc r rs)
  then show ?case by (auto intro: scanned_step simp: impacts_ok_def)
qed

section \<open>Snapshots and records\<close>

definition active_set :: "state_Obj \<Rightarrow> diagnosticRecordObj set" where
  "active_set obj = {r. \<exists>k. data_rec obj k = Some r \<and> dr_active r}"

lemma data_of_fields [simp]:
  "dr_impact (data_of r) = dr_impact r" "dr_scope (data_of r) = dr_scope r" "dr_key (data_of r) = dr_key r"
  "dr_reason (data_of r) = dr_reason r" "dr_version (data_of r) = dr_version r" "dr_code (data_of r) = dr_code r"
  "diagnosticViewFromRecord (data_of r) = diagnosticViewFromRecord r" "is_global (data_of r) = is_global r"
  by (simp_all add: data_of_def diagnosticViewFromRecord_def is_global_def)

lemma map_records:
  assumes "distinct (diag_keys obj)"
  shows "data_of ` set (map snd (so_diagnosticMap obj)) = {r. \<exists>k. data_rec obj k = Some r}"
proof -
  have "data_rec obj k = Some r \<longleftrightarrow> (\<exists>q. (k, q) \<in> set (so_diagnosticMap obj) \<and> r = data_of q)" for k r
    using assms by (auto simp: data_rec_def get_rec_def diag_keys_def)
  then show ?thesis by force
qed

lemma actives_records:
  assumes "distinct (diag_keys obj)" "set rs = set (map snd (so_diagnosticMap obj))"
  shows "data_of ` actives rs = active_set obj"
proof -
  have "data_of ` actives rs = {r \<in> data_of ` set rs. dr_active r}" by (auto simp: actives_def)
  then show ?thesis using map_records [OF assms(1)] by (simp only: assms(2)) (auto simp: active_set_def)
qed

lemma worst_image: "worst (data_of ` S) = worst S"
  by (simp add: worst_def)

lemma worst_filter: "worst {r \<in> data_of ` S. P r} = worst {r \<in> S. P (data_of r)}"
proof -
  have "{r \<in> data_of ` S. P r} = data_of ` {r \<in> S. P (data_of r)}" by auto
  then show ?thesis by (simp only: worst_image)
qed

lemma records_ok:
  assumes "state_inv obj" "set rs = set (map snd (so_diagnosticMap obj))"
  shows "impacts_ok (set rs)" "data_of ` actives rs = active_set obj" "distinct (diag_keys obj)"
proof -
  obtain xs where xs: "registry_ok obj xs" using state_invD(2) [OF assms(1)] by blast
  show d: "distinct (diag_keys obj)" by (rule registry_okD(7) [OF xs])
  show "data_of ` actives rs = active_set obj" by (rule actives_records [OF d assms(2)])
  show "impacts_ok (set rs)" unfolding impacts_ok_def
  proof
    fix r assume "r \<in> set rs"
    then have "data_of r \<in> {r. \<exists>k. data_rec obj k = Some r}" using map_records [OF d] assms(2) by blast
    then have "diag_rec_ok (set (key_names obj)) (data_of r)" using state_invD(3) [OF assms(1)] by (auto simp: diags_ok_def)
    then show "dr_impact r = StatusDegraded \<or> dr_impact r = StatusError" by (auto simp: diag_rec_ok_def)
  qed
qed

lemma scan_records:
  assumes "state_inv obj"
  shows "scanned (map snd (so_diagnosticMap obj)) (diag_scan obj)"
  unfolding diag_scan_def by (rule health_fold [OF records_ok(1) [OF assms refl]])

lemma health_status:
  assumes "state_inv obj"
  shows "hv_Status (sn_health (buildSnapshot obj)) = worst (active_set obj)"
proof -
  have "hv_Status (sn_health (buildSnapshot obj)) = hs_health (diag_scan obj)"
    by (simp add: buildSnapshot_def build_from_def Let_def diag_scan_def)
  also have "\<dots> = worst (actives (map snd (so_diagnosticMap obj)))"
    using scan_records [OF assms] by (simp add: scanned_def)
  also have "\<dots> = worst (active_set obj)"
    using worst_image [of "actives (map snd (so_diagnosticMap obj))"] by (simp only: records_ok(2) [OF assms refl])
  finally show ?thesis .
qed

lemma keyed_or_global:
  "{r \<in> S. is_global r} \<union> keyed key S = {r \<in> S. is_global r \<or> dr_key r = key}"
  by (auto simp: keyed_def)

lemma key_status_worst:
  assumes "state_inv obj"
  shows "key_status obj key = worst {r \<in> active_set obj. is_global r \<or> dr_key r = key}"
proof -
  let ?S = "actives (map snd (so_diagnosticMap obj))"
  note s = scan_records [OF assms]
  have "key_status obj key = worst ({r \<in> ?S. is_global r} \<union> keyed key ?S)"
  proof (cases "keyed key ?S = {}")
    case True
    then show ?thesis using s by (simp add: key_status_def statusForKey_def scanned_def)
  next
    case False
    then show ?thesis using s by (simp add: key_status_def statusForKey_def scanned_def worst_union)
  qed
  also have "\<dots> = worst {r \<in> ?S. is_global r \<or> dr_key r = key}" by (simp only: keyed_or_global)
  also have "\<dots> = worst {r \<in> active_set obj. is_global r \<or> dr_key r = key}"
    by (simp add: worst_filter flip: records_ok(2) [OF assms refl])
  finally show ?thesis .
qed

lemma diagnostics_shown:
  assumes "state_inv obj"
  shows "set (sn_diagnosticArr (buildSnapshot obj)) = diagnosticViewFromRecord ` active_set obj"
proof -
  have "set (sn_diagnosticArr (buildSnapshot obj)) = set (hs_arr (diag_scan obj))"
    by (simp add: buildSnapshot_def build_from_def Let_def diag_scan_def sortDiagnosticViews_def)
  also have "\<dots> = diagnosticViewFromRecord ` actives (map snd (so_diagnosticMap obj))"
    using scan_records [OF assms] by (auto simp: scanned_def actives_def)
  also have "\<dots> = diagnosticViewFromRecord ` active_set obj"
    by (simp add: image_image flip: records_ok(2) [OF assms refl])
  finally show ?thesis .
qed

section \<open>The order of the map does not matter\<close>

text \<open>Records of one registry differ in code, key or version: the scope follows from the last two.\<close>

lemma identity_without_scope:
  assumes "diag_rec_ok names r" "diag_rec_ok names q" "[] \<notin> names"
    "dr_code r = dr_code q" "dr_key r = dr_key q" "dr_version r = dr_version q"
  shows "keyFromDiagnosticRecordObj r = keyFromDiagnosticRecordObj q"
  using assms by (cases "dr_scope r"; cases "dr_scope q") (auto simp: diag_rec_ok_def keyFromDiagnosticRecordObj_def)

lemma view_sort_key_inj:
  assumes inv: "state_inv obj"
  shows "inj_on (diag_sort_key \<circ> diagnosticViewFromRecord) (active_set obj)"
proof (rule inj_onI)
  fix r q assume r: "r \<in> active_set obj" and q: "q \<in> active_set obj"
    and eq: "(diag_sort_key \<circ> diagnosticViewFromRecord) r = (diag_sort_key \<circ> diagnosticViewFromRecord) q"
  obtain xs where xs: "registry_ok obj xs" using state_invD(2) [OF inv] by blast
  obtain k j where k: "data_rec obj k = Some r" and j: "data_rec obj j = Some q"
    using r q by (auto simp: active_set_def)
  have ok: "diag_rec_ok (set (key_names obj)) r" "diag_rec_ok (set (key_names obj)) q"
    using state_invD(3) [OF inv] k j by (auto simp: diags_ok_def)
  have "key_rec obj [] = None" using state_invD(1) [OF inv] by (cases "key_rec obj []") (auto simp: keys_ok_def)
  then have "[] \<notin> set (key_names obj)" by (simp add: key_rec_in_names)
  then have "keyFromDiagnosticRecordObj r = keyFromDiagnosticRecordObj q"
    by (intro identity_without_scope [OF ok]) (use eq in \<open>simp_all add: diag_sort_key_def diagnosticViewFromRecord_def\<close>)
  then have "k = j" using registry_okD(6) [OF xs] k j by (simp add: keys_match_iff)
  then show "r = q" using k j by simp
qed

lemma reason_int_inj: "inj_on reason_int {r. reason_valid r}"
  by (rule inj_onI) (auto simp: reason_int_def reason_valid_def split: LogReasonType.splits)

lemma sort_key_perm: "mset xs = mset ys \<Longrightarrow> inj_on f (set xs) \<Longrightarrow> sort_key f xs = sort_key f ys"
  by (rule sort_key_inj_key_eq) simp_all

lemma view_inj_views:
  assumes inv: "state_inv obj" and rs: "set rs = set (map snd (so_diagnosticMap obj))"
  shows "inj_on diag_sort_key (set (map diagnosticViewFromRecord (filter dr_active rs)))"
proof -
  have "set (map diagnosticViewFromRecord (filter dr_active rs)) = diagnosticViewFromRecord ` active_set obj"
  proof -
    have "diagnosticViewFromRecord ` active_set obj = diagnosticViewFromRecord ` actives rs"
      by (simp add: image_image flip: records_ok(2) [OF inv rs])
    then show ?thesis by (simp add: actives_def)
  qed
  then show ?thesis using view_sort_key_inj [OF inv] by (simp add: inj_on_def image_iff) fastforce
qed

lemma build_from_perm:
  assumes inv: "state_inv obj" and perm: "mset rs = mset (map snd (so_diagnosticMap obj))"
  shows "build_from rs obj = buildSnapshot obj"
proof -
  let ?rs = "map snd (so_diagnosticMap obj)"
  let ?h = "fold health_step rs health_start" and ?g = "fold health_step ?rs health_start"
  have set: "set rs = set ?rs" by (rule mset_eq_setD [OF perm])
  have s: "scanned rs ?h" "scanned ?rs ?g"
    by (rule health_fold [OF records_ok(1) [OF inv set]], rule health_fold [OF records_ok(1) [OF inv refl]])
  have act: "actives rs = actives ?rs" using set by (simp add: actives_def)
  have st: "hs_health ?h = hs_health ?g" "hs_global ?h = hs_global ?g" "hs_keyStatus ?h = hs_keyStatus ?g"
    using s by (auto simp: scanned_def act)
  have "sortDiagnosticViews (hs_arr ?h) = sortDiagnosticViews (hs_arr ?g)"
  proof -
    have "mset (hs_arr ?h) = mset (hs_arr ?g)" using s perm by (simp add: scanned_def)
    moreover have "inj_on diag_sort_key (set (hs_arr ?h))" using s view_inj_views [OF inv set] by (simp add: scanned_def)
    ultimately show ?thesis unfolding sortDiagnosticViews_def by (rule sort_key_perm)
  qed
  moreover have "sortedReasons (hs_reasons ?h) = sortedReasons (hs_reasons ?g)"
  proof -
    have "mset (hs_reasons ?h) = mset (hs_reasons ?g)"
      using s by (intro iffD1 [OF set_eq_iff_mset_eq_distinct]) (simp_all add: scanned_def act)
    moreover have "inj_on reason_int (set (hs_reasons ?h))"
    proof (rule inj_on_subset [OF reason_int_inj])
      have "dr_reason ` actives rs = dr_reason ` active_set obj"
        by (simp add: image_image flip: records_ok(2) [OF inv set])
      moreover have "reason_valid (dr_reason r)" if "r \<in> active_set obj" for r
        using that state_invD(3) [OF inv] by (auto simp: active_set_def diags_ok_def diag_rec_ok_def)
      ultimately show "set (hs_reasons ?h) \<subseteq> {r. reason_valid r}" using s(1) by (auto simp: scanned_def)
    qed
    ultimately show ?thesis unfolding sortedReasons_def by (metis sort_key_perm)
  qed
  ultimately show ?thesis using st by (simp add: buildSnapshot_def build_from_def Let_def)
qed

end
