(* ===== verification/State_Props.thy ===== *)
theory State_Props
  imports State_Health
begin

text \<open>
  The properties of the state registry, for every state that a sequence of calls can reach.
\<close>

section \<open>Lookup of a key\<close>

lemma index_from_None: "key \<notin> set ks \<Longrightarrow> index_from n ks key = None"
  by (induction ks arbitrary: n) auto

lemma index_from_Some: "key \<in> set ks \<Longrightarrow> \<exists>i < length ks. index_from n ks key = Some (n + i) \<and> ks ! i = key"
proof (induction ks arbitrary: n)
  case (Cons k ks)
  show ?case
  proof (cases "key = k")
    case False
    then obtain i where "i < length ks" "index_from (Suc n) ks key = Some (Suc n + i)" "ks ! i = key"
      using Cons.IH [of "Suc n"] Cons.prems by auto
    then show ?thesis using False by (intro exI [of _ "Suc i"]) simp
  qed auto
qed simp

lemma key_state_lookup:
  assumes "state_inv obj"
  shows "sn_KeyState (the (so_snap obj)) key =
    map_option (\<lambda>m. keyViewFromMut m (worst {r \<in> active_set obj. is_global r \<or> dr_key r = key})) (key_rec obj key)"
proof -
  note k = state_invD(1) [OF assms]
  have snap: "so_snap obj = Some ((buildSnapshot obj)\<lparr>sn_Generation := so_generation obj\<rparr>)"
    using state_invD(4) [OF assms] by (simp add: published_def)
  have idx: "sn_keyIndex (buildSnapshot obj) = index_from 0 (so_keyOrder obj)"
    using k by (simp add: buildSnapshot_def build_from_def Let_def keys_ok_def)
  have names: "key \<in> set (so_keyOrder obj) \<longleftrightarrow> key_rec obj key \<noteq> None"
    using k key_rec_in_names [of obj key] by (auto simp: keys_ok_def)
  show ?thesis
  proof (cases "key_rec obj key")
    case None
    then show ?thesis using names by (simp add: sn_KeyState_def snap idx index_from_None)
  next
    case (Some m)
    then obtain i where "i < length (so_keyOrder obj)" "index_from 0 (so_keyOrder obj) key = Some i" "so_keyOrder obj ! i = key"
      using index_from_Some [of key "so_keyOrder obj" 0] names by auto
    then show ?thesis
      by (simp add: sn_KeyState_def snap idx keyArr_buildSnapshot Some key_status_worst [OF assms])
  qed
qed

section \<open>Batches\<close>

lemma unpub_key [simp]:
  "key_rec (publishKeyViewsChanged c obj) = key_rec obj"
  "key_rec (publishChanged c obj) = key_rec obj"
  "key_rec (publishMetaChanged c obj) = key_rec obj"
  "key_rec (publishHealthChanged c obj) = key_rec obj"
proof -
  have *: "key_rec o1 = key_rec o2" if "unpub o1 = unpub o2" for o1 o2
    using arg_cong [OF that, of so_keyMap] by (intro ext) (simp add: unpub_def key_rec_def)
  show "key_rec (publishKeyViewsChanged c obj) = key_rec obj"
    "key_rec (publishChanged c obj) = key_rec obj"
    "key_rec (publishMetaChanged c obj) = key_rec obj"
    "key_rec (publishHealthChanged c obj) = key_rec obj"
    by (rule *, simp)+
qed

lemma publish_fields:
  "so_permanentAt (publishKeyViewsChanged c obj) = so_permanentAt obj"
  "so_keyMap (publishKeyViewsChanged c obj) = so_keyMap obj"
  using arg_cong [OF unpub_publish(4) [of c obj], of so_permanentAt]
    arg_cong [OF unpub_publish(4) [of c obj], of so_keyMap]
  by (simp_all add: unpub_def)

text \<open>What a successful batch does, whichever of its two paths it takes.\<close>

lemma batch_Inr:
  assumes run: "ApplyAvailabilityBatch now us obj = (Inr (), obj')"
  shows "\<exists>c o1. obj' = publishKeyViewsChanged c o1 \<and> nokeys o1 = nokeys obj \<and> key_names o1 = key_names obj \<and>
    distinct (map au_Key us) \<and>
    (\<forall>key. key \<notin> set (map au_Key us) \<longrightarrow> key_rec o1 key = key_rec obj key) \<and>
    (\<forall>u \<in> set us. \<exists>m. keyMut obj (au_Key u) = Inr m \<and>
       key_rec o1 (au_Key u) = Some (fst (applyAvailability (so_permanentAt obj) m u))) \<and>
    (c \<longleftrightarrow> (\<exists>u \<in> set us. snd (applyAvailability (so_permanentAt obj) (the (key_rec obj (au_Key u))) u)))"
proof (cases "us = []")
  case True
  then show ?thesis using run
    by (intro exI [of _ False] exI [of _ obj]) (simp add: ApplyAvailabilityBatch_def publishKeyViewsChanged_def)
next
  case False
  let ?P = "so_permanentAt obj"
  show ?thesis
  proof (cases "length us = 1")
    case True
    then obtain u where us: "us = [u]" by (cases us) auto
    then obtain m where m: "keyMut obj (au_Key u) = Inr m" and obj':
        "obj' = publishKeyViewsChanged (snd (applyAvailability ?P m u)) (put_key (au_Key u) (fst (applyAvailability ?P m u)) obj)"
      using run by (auto simp: ApplyAvailabilityBatch_def split_beta Let_def split: sum.splits if_splits)
    then show ?thesis using us keyMut_Inr [OF m] key_names_put_known [of obj "au_Key u"]
      by (intro exI [of _ "snd (applyAvailability ?P m u)"]
          exI [of _ "put_key (au_Key u) (fst (applyAvailability ?P m u)) obj"]) simp
  next
    case many: False
    have b: "batch_keys obj [] (map au_Key us) = Inr ()"
      using run False many by (auto simp: ApplyAvailabilityBatch_def split_beta Let_def split: sum.splits if_splits)
    note bk = batch_keys_Inr [OF b]
    have known: "\<forall>u \<in> set us. key_rec obj (au_Key u) \<noteq> None" using bk by auto
    have mut: "\<exists>m. keyMut obj key = Inr m" if "key \<in> set ks" "batch_keys obj seen ks = Inr ()" for key ks seen
      using that by (induction ks arbitrary: seen) (auto simp: result_simps split: if_splits)
    obtain c o1 where r: "batch_apply au_Key (applyAvailability ?P) us (False, obj) = (c, o1)" by force
    have obj': "obj' = publishKeyViewsChanged c o1"
      using run False many r apply_updates_batch [of obj ?P us False]
      by (auto simp: ApplyAvailabilityBatch_def split: sum.splits if_splits)
    have sp: "nokeys o1 = nokeys obj" "key_names o1 = key_names obj"
      "\<forall>j. j \<notin> set (map au_Key us) \<longrightarrow> key_rec o1 j = key_rec obj j"
      "\<forall>u \<in> set us. key_rec o1 (au_Key u) = Some (fst (applyAvailability ?P (the (key_rec obj (au_Key u))) u))"
      "c \<longleftrightarrow> (\<exists>u \<in> set us. snd (applyAvailability ?P (the (key_rec obj (au_Key u))) u))"
      using batch_apply_spec [of au_Key us obj "applyAvailability ?P" False] bk known r by auto
    have "\<exists>m. keyMut obj (au_Key u) = Inr m \<and> key_rec o1 (au_Key u) = Some (fst (applyAvailability ?P m u))"
      if u: "u \<in> set us" for u
    proof -
      obtain m where m: "keyMut obj (au_Key u) = Inr m" using mut [OF _ b, of "au_Key u"] u by auto
      then show ?thesis using sp(4) u keyMut_Inr [OF m] by simp
    qed
    then show ?thesis using obj' sp bk by blast
  qed
qed

lemma batch_Inl: "ApplyAvailabilityBatch now us obj = (Inl e, obj') \<Longrightarrow> obj' = obj"
  by (auto simp: ApplyAvailabilityBatch_def split_beta Let_def split: if_splits sum.splits)

text \<open>Two objects with the same keys in the same order and the same records are equal.\<close>

lemma alist_eqI:
  "distinct (map fst xs) \<Longrightarrow> map fst xs = map fst ys \<Longrightarrow> map_of xs = map_of ys \<Longrightarrow> xs = ys"
proof (induction xs arbitrary: ys)
  case (Cons x xs)
  then obtain y ys' where ys: "ys = y # ys'" "fst x = fst y" "map fst xs = map fst ys'" by (cases ys) auto
  have "snd x = snd y" using fun_cong [OF Cons.prems(3), of "fst x"] ys by (cases x; cases y) simp
  moreover have "map_of xs k = map_of ys' k" for k
  proof (cases "k = fst x")
    case True
    have "fst x \<notin> set (map fst xs)" using Cons.prems(1) by simp
    moreover then have "fst x \<notin> set (map fst ys')" using ys(3) by simp
    ultimately show ?thesis using True by (metis list.set_map map_of_eq_None_iff)
  next
    case False
    then show ?thesis using fun_cong [OF Cons.prems(3), of k] ys by (cases x; cases y) simp
  qed
  ultimately show ?case using Cons.IH [of ys'] Cons.prems(1) ys by (cases x; cases y) auto
qed simp

lemma object_eqI:
  assumes "nokeys o1 = nokeys o2" "key_names o1 = key_names o2" "distinct (key_names o1)" "key_rec o1 = key_rec o2"
  shows "o1 = o2"
proof -
  have "map_of (so_keyMap o1) = map_of (so_keyMap o2)"
    using fun_cong [OF assms(4)] by (intro ext) (simp add: key_rec_def)
  then have k: "so_keyMap o1 = so_keyMap o2"
    using assms(2,3) by (intro alist_eqI) (simp_all add: key_names_def)
  have "o1 = (nokeys o1)\<lparr>so_keyMap := so_keyMap o1\<rparr>" by (simp add: nokeys_def)
  also have "\<dots> = o2" unfolding assms(1) k by (simp add: nokeys_def)
  finally show ?thesis .
qed

lemma keyMut_of_rec:
  "keyMut obj key = Inr m \<Longrightarrow> key_rec obj' key = Some m' \<Longrightarrow> keyMut obj' key = Inr m'"
  by (auto simp: keyMut_def key_rec_def result_simps split: option.splits)

text \<open>Repeating a batch does nothing: every scan in it is now a replay or an unchanged one.\<close>

lemma batch_again:
  assumes inv: "state_inv obj" and run: "ApplyAvailabilityBatch now us obj = (Inr (), obj')"
  shows "ApplyAvailabilityBatch now us obj' = (Inr (), obj')"
proof (cases "us = []")
  case True
  then show ?thesis by (simp add: ApplyAvailabilityBatch_def)
next
  case False
  let ?P = "so_permanentAt obj" and ?app = "applyAvailability (so_permanentAt obj)"
  have P: "0 < ?P" using state_invD(1) [OF inv] by (simp add: keys_ok_def)
  obtain c o1 where b: "obj' = publishKeyViewsChanged c o1" "nokeys o1 = nokeys obj" "key_names o1 = key_names obj"
      "distinct (map au_Key us)"
      "\<And>u. u \<in> set us \<Longrightarrow> \<exists>m. keyMut obj (au_Key u) = Inr m \<and> key_rec o1 (au_Key u) = Some (fst (?app m u))"
    using batch_Inr [OF run] by blast
  have P': "so_permanentAt obj' = ?P" by (simp add: b(1) publish_fields nokeys_fields(13) [OF b(2)])
  have names: "key_names obj' = key_names obj" using b(3) by (simp add: b(1) key_names_def publish_fields)
  have pre: "\<not> length us > length (so_keyMap obj')" "check_each (validateAvailabilityUpdate now) us = Inr ()"
    using run False arg_cong [OF names, of length]
    by (auto simp: ApplyAvailabilityBatch_def key_names_def split: sum.splits if_splits)
  have rec: "\<exists>m'. key_rec obj' (au_Key u) = Some m' \<and> keyMut obj' (au_Key u) = Inr m' \<and> ?app m' u = (m', False)"
    if u: "u \<in> set us" for u
  proof -
    obtain m where m: "keyMut obj (au_Key u) = Inr m" "key_rec o1 (au_Key u) = Some (fst (?app m u))" using b(5) u by blast
    then have "key_rec obj' (au_Key u) = Some (fst (?app m u))" by (simp add: b(1))
    moreover have "au_ScanAt u \<noteq> 0" using pre(2) u update_scan_ok by (auto simp: check_each_Inr)
    ultimately show ?thesis using keyMut_of_rec [OF m(1)] apply_twice [OF P] by blast
  qed
  have d: "distinct (key_names obj')" using state_invD(1) [OF inv] names by (simp add: keys_ok_def)
  show ?thesis
  proof (cases "length us = 1")
    case True
    then obtain u where us: "us = [u]" by (cases us) auto
    obtain m' where m': "key_rec obj' (au_Key u) = Some m'" "keyMut obj' (au_Key u) = Inr m'" "?app m' u = (m', False)"
      using rec us by auto
    have "put_key (au_Key u) m' obj' = obj'"
      by (rule object_eqI) (use m' d key_names_put_known [of obj' "au_Key u" m'] in \<open>auto simp: fun_eq_iff\<close>)
    then show ?thesis using us pre m' P'
      by (simp add: ApplyAvailabilityBatch_def publishKeyViewsChanged_def)
  next
    case many: False
    have keys: "batch_keys obj' seen ks = Inr ()"
      if "distinct ks" "set ks \<inter> set seen = {}" "\<forall>k \<in> set ks. \<exists>m. keyMut obj' k = Inr m" for ks seen
      using that by (induction ks arbitrary: seen) auto
    have bk: "batch_keys obj' [] (map au_Key us) = Inr ()" using keys [OF b(4), of "[]"] rec by fastforce
    obtain c2 o2 where r: "batch_apply au_Key ?app us (False, obj') = (c2, o2)" by force
    have known: "\<forall>u \<in> set us. key_rec obj' (au_Key u) \<noteq> None" using rec by fastforce
    have sp: "nokeys o2 = nokeys obj'" "key_names o2 = key_names obj'"
      "\<And>j. j \<notin> set (map au_Key us) \<Longrightarrow> key_rec o2 j = key_rec obj' j"
      "\<And>u. u \<in> set us \<Longrightarrow> key_rec o2 (au_Key u) = Some (fst (?app (the (key_rec obj' (au_Key u))) u))"
      "c2 \<longleftrightarrow> (\<exists>u \<in> set us. snd (?app (the (key_rec obj' (au_Key u))) u))"
      using batch_apply_spec [OF b(4) known, of ?app False] r by auto
    have "\<not> c2" using sp(5) rec by fastforce
    moreover have "o2 = obj'"
    proof (rule object_eqI [OF sp(1,2)])
      show "key_rec o2 = key_rec obj'"
      proof
        fix j show "key_rec o2 j = key_rec obj' j"
        proof (cases "j \<in> set (map au_Key us)")
          case True
          then obtain u where u: "u \<in> set us" "j = au_Key u" by auto
          obtain m' where "key_rec obj' (au_Key u) = Some m'" "?app m' u = (m', False)" using rec [OF u(1)] by blast
          then show ?thesis using sp(4) [OF u(1)] u(2) by simp
        qed (use sp(3) in simp)
      qed
    qed (use d sp(2) in simp)
    ultimately show ?thesis using False many pre bk r apply_updates_batch [OF P', of us False]
      by (simp add: ApplyAvailabilityBatch_def publishKeyViewsChanged_def)
  qed
qed

section \<open>Outages\<close>

lemma MarkUnavailable_run:
  assumes inv: "state_inv obj" and k: "keyMut obj key = Inr m" and t: "t \<noteq> 0"
  shows "\<exists>obj'. MarkUnavailable t key t obj = (Inr (), obj') \<and> state_inv obj' \<and>
    so_permanentAt obj' = so_permanentAt obj \<and>
    keyMut obj' key = Inr (fst (applyAvailability (so_permanentAt obj) m
      \<lparr>au_Key = key, au_Available = False, au_Present = False, au_ScanAt = t\<rparr>))"
proof -
  let ?u = "\<lparr>au_Key = key, au_Available = False, au_Present = False, au_ScanAt = t\<rparr>"
  let ?P = "so_permanentAt obj"
  let ?o = "publishKeyViewsChanged (snd (applyAvailability ?P m ?u)) (put_key key (fst (applyAvailability ?P m ?u)) obj)"
  have "so_keyMap obj \<noteq> []" using keyMut_Inr [OF k] by (auto simp: key_rec_def)
  then have len: "\<not> Suc 0 > length (so_keyMap obj)" by (cases "so_keyMap obj") auto
  have v: "validateAvailabilityUpdate t ?u = Inr ()"
    using k t by (auto simp: validateAvailabilityUpdate_def validateScanAt_def keyMut_def cMaxScanFutureSkew_def result_simps)
  have run: "MarkUnavailable t key t obj = (Inr (), ?o)"
    using len v k by (simp add: MarkUnavailable_def ApplyAvailabilityBatch_def split_beta Let_def)
  have "state_inv ?o" using ApplyAvailabilityBatch_inv [OF inv, of t "[?u]"] run by (simp add: MarkUnavailable_def)
  moreover have "keyMut ?o key = Inr (fst (applyAvailability ?P m ?u))"
    by (rule keyMut_of_rec [OF k]) simp
  moreover have "so_permanentAt ?o = ?P" by (simp add: publish_fields put_key_def)
  ultimately show ?thesis using run by blast
qed

fun mark_all_down :: "string \<Rightarrow> gotime list \<Rightarrow> state_Obj \<Rightarrow> state_Obj" where
  "mark_all_down key [] obj = obj"
| "mark_all_down key (t # ts) obj = mark_all_down key ts (snd (MarkUnavailable t key t obj))"

lemma mark_all_down_run:
  assumes "state_inv obj" "keyMut obj key = Inr m" "sorted_wrt (<) (km_lastScan m # ts)" "0 \<notin> set ts" "ts \<noteq> []"
  shows "\<exists>m'. state_inv (mark_all_down key ts obj) \<and> keyMut (mark_all_down key ts obj) key = Inr m' \<and>
    so_permanentAt (mark_all_down key ts obj) = so_permanentAt obj \<and>
    unat (km_unavailableCycles m') = min (unat (km_unavailableCycles m) + length ts) (unat (so_permanentAt obj)) \<and>
    km_availability m' = (if unat (km_unavailableCycles m) + length ts < unat (so_permanentAt obj)
      then AvTemporaryDown else AvPermanentDown)"
  using assms
proof (induction ts arbitrary: obj m)
  case (Cons t ts)
  let ?u = "\<lparr>au_Key = key, au_Available = False, au_Present = False, au_ScanAt = t\<rparr>"
  let ?P = "so_permanentAt obj"
  have P: "0 < ?P" "key_ok ?P m"
    using state_invD(1) [OF Cons.prems(1)] keyMut_Inr [OF Cons.prems(2)] by (auto simp: keys_ok_def)
  have t: "t \<noteq> 0" using Cons.prems(4) by simp
  obtain o1 where o1: "MarkUnavailable t key t obj = (Inr (), o1)" "state_inv o1" "so_permanentAt o1 = ?P"
      "keyMut o1 key = Inr (fst (applyAvailability ?P m ?u))"
    using MarkUnavailable_run [OF Cons.prems(1,2) t] by blast
  let ?m1 = "fst (applyAvailability ?P m ?u)"
  have u: "\<not> au_Available ?u" "km_lastScan m < au_ScanAt ?u" "au_ScanAt ?u \<noteq> 0" using Cons.prems(3) t by simp_all
  note st = unavailable_step [OF P(2,1) u]
  show ?case
  proof (cases "ts = []")
    case True
    then show ?thesis using o1 st by (simp add: o1(1))
  next
    case False
    have "sorted_wrt (<) (km_lastScan ?m1 # ts)" using Cons.prems(3) st(3) by simp
    from Cons.IH [OF o1(2,4) this _ False] Cons.prems(4) obtain m' where
      "state_inv (mark_all_down key ts o1)" "keyMut (mark_all_down key ts o1) key = Inr m'"
      "so_permanentAt (mark_all_down key ts o1) = ?P"
      "unat (km_unavailableCycles m') = min (unat (km_unavailableCycles ?m1) + length ts) (unat ?P)"
      "km_availability m' = (if unat (km_unavailableCycles ?m1) + length ts < unat ?P then AvTemporaryDown else AvPermanentDown)"
      using o1(3) by auto
    then show ?thesis using o1(1) st(1) False by (cases ts) (auto simp: min_def)
  qed
qed simp

section \<open>Classification\<close>

text \<open>How one step may change the record of a key.\<close>

definition class_lock :: "keyMutObj \<Rightarrow> keyMutObj \<Rightarrow> bool" where
  "class_lock m m' \<longleftrightarrow>
     (km_classified m \<longrightarrow> km_classified m') \<and>
     (km_classified m \<and> km_classification m' \<noteq> km_classification m \<longrightarrow>
        km_reclassAllowed m \<and> \<not> km_reclassAllowed m') \<and>
     (km_reclassAllowed m' \<and> \<not> km_reclassAllowed m \<longrightarrow>
        km_availability m = AvPermanentDown \<and> km_availability m' = AvAvailable)"

definition keys_locked :: "state_Obj \<Rightarrow> state_Obj \<Rightarrow> bool" where
  "keys_locked obj obj' \<longleftrightarrow>
     (\<forall>key m. key_rec obj key = Some m \<longrightarrow> (\<exists>m'. key_rec obj' key = Some m' \<and> class_lock m m'))"

lemma class_lock_refl [simp]: "class_lock m m"
  by (simp add: class_lock_def)

lemma keys_locked_same: "key_rec obj' = key_rec obj \<Longrightarrow> keys_locked obj obj'"
  by (simp add: keys_locked_def)

lemma keys_locked_put:
  "key_rec obj key = Some m \<Longrightarrow> class_lock m m' \<Longrightarrow> keys_locked obj (publishKeyViewsChanged c (put_key key m' obj))"
  by (simp add: keys_locked_def)

lemma apply_class_lock: "class_lock m (fst (applyAvailability P m u))"
  by (simp add: class_lock_def applyAvailability_def applyAvailable_def applyUnavailable_def Let_def)

lemma batch_locked:
  assumes "batch_apply keyof app us (c0, obj) = (c, obj')" "distinct (map keyof us)"
    "\<forall>u \<in> set us. key_rec obj (keyof u) \<noteq> None" "\<And>m u. class_lock m (fst (app m u))"
  shows "keys_locked obj obj'"
  unfolding keys_locked_def
proof (intro allI impI)
  fix key m assume m: "key_rec obj key = Some m"
  have sp: "\<And>j. j \<notin> set (map keyof us) \<Longrightarrow> key_rec obj' j = key_rec obj j"
    "\<And>u. u \<in> set us \<Longrightarrow> key_rec obj' (keyof u) = Some (fst (app (the (key_rec obj (keyof u))) u))"
    using batch_apply_spec [OF assms(2,3), of app c0] assms(1) by auto
  show "\<exists>m'. key_rec obj' key = Some m' \<and> class_lock m m'"
  proof (cases "key \<in> set (map keyof us)")
    case True
    then obtain u where "u \<in> set us" "key = keyof u" by auto
    then show ?thesis using sp(2) m assms(4) by simp
  qed (use sp(1) m in simp)
qed

lemma keys_locked_publish: "keys_locked obj (publishKeyViewsChanged c obj') \<longleftrightarrow> keys_locked obj obj'"
  by (simp add: keys_locked_def)

lemma clear_loop_keys:
  assumes "state_inv obj" "distinct ord" "\<And>r. sel (data_of r) = sel r"
  shows "rest2 (snd (clear_loop sel ord (False, obj))) = rest2 obj"
proof -
  obtain xs where xs: "registry_ok obj xs" using state_invD(2) [OF assms(1)] by blast
  obtain c o1 where "clear_loop sel ord (False, obj) = (c, o1)" "rest o1 = rest obj"
    using clear_loop_spec [of obj xs ord sel False] xs assms(2,3) by blast
  then show ?thesis using rest2_of_rest [of o1 obj] by simp
qed

lemma clearDiagnostics_rest2:
  assumes inv: "state_inv obj" and o: "ord_ok ord"
  shows "rest2 (snd (clearDiagnostics ord key v b obj)) = rest2 obj"
proof (cases "so_diagnosticByKey obj key")
  case (Some s)
  obtain xs where xs: "registry_ok obj xs" using state_invD(2) [OF inv] by blast
  note e = index_entry [OF xs Some]
  have "rest2 (snd (clear_loop (key_selected v b) (ord s) (False, obj))) = rest2 obj"
    by (rule clear_loop_keys [OF inv]) (use e(1) ord_ok_facts(2) [OF o] in simp_all)
  then show ?thesis using Some e(4) by (simp add: clearDiagnostics_def)
qed (simp add: clearDiagnostics_def)

text \<open>Every step is: unchanged, or published from an object with the old snapshot and generation.\<close>

definition publishes :: "state_Obj \<Rightarrow> state_Obj \<Rightarrow> bool" where
  "publishes obj obj' \<longleftrightarrow>
     (so_snap obj' = so_snap obj \<and> so_generation obj' = so_generation obj) \<or>
     so_generation obj' = so_generation (bumpGeneration obj)"

lemma publishes_frame:
  assumes "so_snap o1 = so_snap obj" "so_generation o1 = so_generation obj"
  shows "publishes obj o1" "publishes obj (publishChanged c o1)" "publishes obj (publishMetaChanged c o1)"
    "publishes obj (publishKeyViewsChanged c o1)" "publishes obj (publishHealthChanged c o1)"
proof -
  have "so_generation (publishSnapshot sn o1) = so_generation (bumpGeneration obj)" for sn
    using assms by (simp add: publishSnapshot_def bumpGeneration_def Let_def)
  then show "publishes obj o1" "publishes obj (publishChanged c o1)" "publishes obj (publishMetaChanged c o1)"
    "publishes obj (publishKeyViewsChanged c o1)" "publishes obj (publishHealthChanged c o1)"
    using assms by (auto simp: publishes_def publishChanged_def publishMetaChanged_def publishKeyViewsChanged_def
        publishHealthChanged_def split: option.splits)
qed

lemma u64_bump: "(g :: u64) < - 1 \<Longrightarrow> g < g + 1"
proof -
  assume "g < - 1"
  then have "unat g < 18446744073709551615" by (simp add: word_less_nat_alt)
  then have "unat (g + 1) = unat g + 1" by (simp add: unat_word_ariths)
  then show "g < g + 1" by (simp add: word_less_nat_alt)
qed

lemma generation_grows:
  assumes "publishes obj obj'"
  shows "so_generation obj \<le> so_generation obj'"
    "so_snap obj' \<noteq> so_snap obj \<Longrightarrow> so_generation obj < so_generation obj' \<or> so_generation obj = - 1"
proof (atomize (full), cases "so_generation obj < - 1")
  case True
  then have "so_generation (bumpGeneration obj) = so_generation obj + 1" by (simp add: bumpGeneration_def)
  then show "so_generation obj \<le> so_generation obj' \<and> (so_snap obj' \<noteq> so_snap obj \<longrightarrow>
      so_generation obj < so_generation obj' \<or> so_generation obj = - 1)"
    using assms u64_bump [OF True] by (auto simp: publishes_def)
next
  case False
  then have "so_generation obj = - 1" using word_order.not_eq_extremum [of "so_generation obj"] False by blast
  then show "so_generation obj \<le> so_generation obj' \<and> (so_snap obj' \<noteq> so_snap obj \<longrightarrow>
      so_generation obj < so_generation obj' \<or> so_generation obj = - 1)"
    using assms by (auto simp: publishes_def bumpGeneration_def)
qed

lemma key_rec_meta [simp]:
  "key_rec (obj\<lparr>so_lastRescan := ts\<rparr>) = key_rec obj" "key_rec (obj\<lparr>so_content := h\<rparr>) = key_rec obj"
  by (simp_all add: key_rec_def fun_eq_iff)

definition step_facts :: "state_Obj \<Rightarrow> state_Obj \<Rightarrow> bool" where
  "step_facts obj obj' \<longleftrightarrow> keys_locked obj obj' \<and> publishes obj obj'"

lemma step_facts_refl [simp]: "step_facts obj obj"
  by (simp add: step_facts_def keys_locked_def publishes_def)

lemma step_facts_diag:
  assumes "rest2 o1 = rest2 obj"
  shows "step_facts obj (publishChanged c o1)" "step_facts obj (publishHealthChanged c o1)"
  using publishes_frame(2,5) [OF rest2_fields(2,8) [OF assms]] keys_rest2(1) [OF assms]
  by (simp_all add: step_facts_def keys_locked_same)

lemma step_facts_key:
  assumes "nokeys o1 = nokeys obj" "keys_locked obj o1"
  shows "step_facts obj (publishKeyViewsChanged c o1)"
  using publishes_frame(4) [OF nokeys_fields(1,11) [OF assms(1)]] assms(2)
  by (simp add: step_facts_def keys_locked_publish)

lemma step_facts_put:
  "key_rec obj key = Some m \<Longrightarrow> class_lock m m' \<Longrightarrow> step_facts obj (publishKeyViewsChanged c (put_key key m' obj))"
  by (rule step_facts_key) (simp_all add: keys_locked_def)

lemma step_facts_batch:
  assumes run: "ApplyAvailabilityBatch now us obj = (r, obj')"
  shows "step_facts obj obj'"
proof (cases r)
  case (Inl e)
  then show ?thesis using run batch_Inl [of now us obj e obj'] by simp
next
  case (Inr x)
  then obtain c o1 where b: "obj' = publishKeyViewsChanged c o1" "nokeys o1 = nokeys obj"
      "\<forall>key. key \<notin> set (map au_Key us) \<longrightarrow> key_rec o1 key = key_rec obj key"
      "\<forall>u \<in> set us. \<exists>m. keyMut obj (au_Key u) = Inr m \<and>
         key_rec o1 (au_Key u) = Some (fst (applyAvailability (so_permanentAt obj) m u))"
    using batch_Inr [of now us obj obj'] run by auto
  have "keys_locked obj o1" unfolding keys_locked_def
  proof (intro allI impI)
    fix key m assume m: "key_rec obj key = Some m"
    show "\<exists>m'. key_rec o1 key = Some m' \<and> class_lock m m'"
    proof (cases "key \<in> set (map au_Key us)")
      case True
      then obtain u where u: "u \<in> set us" "key = au_Key u" by auto
      then obtain m0 where "keyMut obj key = Inr m0"
          "key_rec o1 key = Some (fst (applyAvailability (so_permanentAt obj) m0 u))" using b(4) by blast
      then show ?thesis using keyMut_Inr [of obj key m0] m apply_class_lock by simp
    qed (use b(3) m in simp)
  qed
  then show ?thesis unfolding b(1) by (rule step_facts_key [OF b(2)])
qed

lemma stats_class_lock: "class_lock m (applyMirrorStats m st)"
  by (simp add: class_lock_def applyMirrorStats_eq)

lemma step_facts_stats:
  assumes run: "SetMirrorStatsBatch sts obj = (r, obj')"
  shows "step_facts obj obj'"
proof (cases "sts = [] \<or> length sts > length (so_keyMap obj) \<or> check_each validate_stats sts \<noteq> Inr () \<or>
    (if length sts = 1 then \<exists>e. keyMut obj (ms_Key (hd sts)) = Inl e
     else \<exists>e. batch_keys obj [] (map ms_Key sts) = Inl e)")
  case True
  then have "obj' = obj" using run by (auto simp: SetMirrorStatsBatch_def split: sum.splits if_splits)
  then show ?thesis by simp
next
  case False
  show ?thesis
  proof (cases "length sts = 1")
    case True
    then obtain m where m: "keyMut obj (ms_Key (hd sts)) = Inr m" using False by (cases "keyMut obj (ms_Key (hd sts))") auto
    then have "obj' = publishKeyViewsChanged (mirrorStatsChanged m (hd sts)) (put_key (ms_Key (hd sts)) (applyMirrorStats m (hd sts)) obj)"
      using run False True by (auto simp: SetMirrorStatsBatch_def)
    then show ?thesis using step_facts_put [OF keyMut_Inr [OF m] stats_class_lock] by simp
  next
    case many: False
    then have b: "batch_keys obj [] (map ms_Key sts) = Inr ()" using False by (cases "batch_keys obj [] (map ms_Key sts)") auto
    let ?app = "\<lambda>m st. (applyMirrorStats m st, mirrorStatsChanged m st)"
    obtain c o1 where r: "batch_apply ms_Key ?app sts (False, obj) = (c, o1)" by force
    have obj': "obj' = publishKeyViewsChanged c o1"
      using run False many b r apply_stats_batch [of sts False obj] by (auto simp: SetMirrorStatsBatch_def)
    have d: "distinct (map ms_Key sts)" "\<forall>st \<in> set sts. key_rec obj (ms_Key st) \<noteq> None"
      using batch_keys_Inr [OF b] by auto
    have "nokeys o1 = nokeys obj" using batch_apply_spec [OF d, of ?app False] r by auto
    moreover have "keys_locked obj o1" by (rule batch_locked [OF r d]) (simp add: stats_class_lock)
    ultimately show ?thesis unfolding obj' by (rule step_facts_key)
  qed
qed

lemma classify_lock:
  assumes "classify_key cls src bro cf m = (Inr c, m')" "cf \<longleftrightarrow> \<not> km_classified m \<or> km_classification m \<noteq> cls"
    "\<not> km_classified m \<or> km_classification m = cls \<or> km_reclassAllowed m"
  shows "class_lock m m'"
proof -
  have "km_reclassAllowed m' \<longrightarrow> km_reclassAllowed m"
    using assms(1) by (auto simp: classify_key_def Let_def split: if_splits sum.splits)
  then show ?thesis using classify_key_facts(4-6) [OF assms(1,2)] assms(2,3) by (auto simp: class_lock_def)
qed

lemma state_step_facts: "state_step obj obj' \<Longrightarrow> state_inv obj \<Longrightarrow> step_facts obj obj'"
proof (induction rule: state_step.induct)
  case (availability now us obj r obj')
  then show ?case by (simp add: step_facts_batch)
next
  case (classification key cls src bro obj r obj')
  show ?case
  proof (cases rule: SetClassification_cases [of key cls src bro obj])
    case (ok m c m')
    then show ?thesis using classification step_facts_put [OF keyMut_Inr [OF ok(1)] classify_lock [OF ok(3) refl ok(2)]] by simp
  qed (use classification in simp)
next
  case (remote_key key rk obj r obj')
  show ?case
  proof (cases "andthen (validateOptionalText rk cMaxKeyBytes) (\<lambda>_. keyMut obj key)")
    case (Inr m)
    then have m: "key_rec obj key = Some m" by (auto simp: result_simps dest: keyMut_Inr)
    have "class_lock m (m\<lparr>km_remoteKey := k\<rparr>)" for k by (simp add: class_lock_def)
    then show ?thesis using remote_key Inr step_facts_put [OF m]
      by (auto simp: SetRemoteKey_def Let_def split: if_splits)
  qed (use remote_key in \<open>simp add: SetRemoteKey_def\<close>)
next
  case (stats sts obj r obj')
  then show ?case by (simp add: step_facts_stats)
next
  case (last_rescan obj ts)
  have "publishes obj (publishMetaChanged True (obj\<lparr>so_lastRescan := ts\<rparr>))" by (rule publishes_frame) simp_all
  then show ?case by (simp add: SetLastRescan_def step_facts_def keys_locked_same publishes_def [of obj obj])
next
  case (content obj h)
  have "publishes obj (publishMetaChanged True (obj\<lparr>so_content := h\<rparr>))" by (rule publishes_frame) simp_all
  then show ?case
    by (simp add: SetContentChecksum_def setContentChecksum_def step_facts_def keys_locked_same
        publishMetaChanged_def [of False] publishes_def [of obj obj])
next
  case (raise now d obj r obj')
  show ?case
  proof (cases rule: RaiseDiagnostic_cases [OF raise(2), of now d])
    case valid: 2
    obtain xs where xs: "registry_ok obj xs" using state_invD(2) [OF raise(2)] by blast
    show ?thesis
    proof (cases rule: upsert_cases [OF xs refl, of d now])
      case 1
      moreover have "rest2 (drop_count obj) = rest2 obj" by (simp add: drop_count_def)
      ultimately show ?thesis using valid raise step_facts_diag(2) [of "drop_count obj" obj True] by simp
    next
      case (2 c o1 xs' gone)
      then show ?thesis using valid raise step_facts_diag(1) [of o1 obj True] by simp
    qed
  qed (use raise in simp)
next
  case (clear dk obj r obj')
  show ?case
  proof (cases rule: ClearDiagnostic_cases [OF clear(2), of dk])
    case (2 q)
    then show ?thesis using clear step_facts_diag(1) [of "deactivate dk obj" obj True] by simp
  qed (use clear in simp)
next
  case (clear_key ord key obj r obj')
  then show ?case using step_facts_diag(1) [OF clearDiagnostics_rest2 [of obj ord key "[]" False]]
    by (auto simp: ClearKeyDiagnostics_def split_beta Let_def split: sum.splits)
next
  case (clear_version ord key v obj r obj')
  then show ?case using step_facts_diag(1) [OF clearDiagnostics_rest2 [of obj ord key v True]]
    by (auto simp: ClearVersionDiagnostics_def split_beta Let_def split: sum.splits)
next
  case (clear_all ord obj)
  obtain xs where xs: "registry_ok obj xs" using state_invD(2) [OF clear_all(2)] by blast
  have "rest2 (snd (clear_loop (\<lambda>_. True) (ord (map fst (so_diagnosticMap obj))) (False, obj))) = rest2 obj"
    by (rule clear_loop_keys [OF clear_all(2)])
      (use registry_okD(7) [OF xs] ord_ok_facts(2) [OF clear_all(1)] in \<open>simp_all add: diag_keys_def\<close>)
  then show ?case using step_facts_diag(1) by (simp add: ClearAllDiagnostics_def split_beta Let_def)
qed

end
