(* ===== verification/State_Age.thy ===== *)
theory State_Age
  imports State_Props
begin

text \<open>
  The order of the inactive queue is the order of age. A trace lists the states of a registry from the
  latest back to the first; \<open>inactive_for\<close> counts in how many of them, from the latest back without
  a gap, a record has been inactive. The queue is sorted by that count, longest first.
\<close>

section \<open>Traces\<close>

inductive state_trace :: "state_Obj list \<Rightarrow> bool" where
  start: "state_New mirrors p = Inr obj \<Longrightarrow> state_trace [obj]"
| next_state: "state_trace (obj # past) \<Longrightarrow> state_step obj obj' \<Longrightarrow> state_trace (obj' # obj # past)"

definition inactive_in :: "diagnosticKeyObj \<Rightarrow> state_Obj \<Rightarrow> bool" where
  "inactive_in k obj \<longleftrightarrow> (case data_rec obj k of None \<Rightarrow> False | Some q \<Rightarrow> \<not> dr_active q)"

definition inactive_for :: "diagnosticKeyObj \<Rightarrow> state_Obj list \<Rightarrow> nat" where
  "inactive_for k states = length (takeWhile (inactive_in k) states)"

lemma trace_reachable: "state_trace (obj # past) \<Longrightarrow> state_reachable obj"
proof (induction "obj # past" arbitrary: obj past rule: state_trace.induct)
  case (start mirrors p obj)
  then show ?case by (rule state_reachable.init)
next
  case (next_state obj past obj')
  then show ?case by (blast intro: state_reachable.step)
qed

lemma reachable_trace: "state_reachable obj \<Longrightarrow> \<exists>past. state_trace (obj # past)"
  by (induction rule: state_reachable.induct) (blast intro: state_trace.intros)+

section \<open>A step keeps the order of the queue\<close>

text \<open>What stays queued keeps its place before what is queued by the step.\<close>

definition queue_step :: "diagnosticKeyObj list \<Rightarrow> diagnosticKeyObj list \<Rightarrow> bool" where
  "queue_step xs xs' \<longleftrightarrow> (\<exists>keep new. xs' = filter keep xs @ new \<and> set new \<inter> set xs = {})"

lemma queue_step_refl [simp]: "queue_step xs xs"
  unfolding queue_step_def by (rule exI [of _ "\<lambda>_. True"], rule exI [of _ "[]"]) simp

lemma queue_step_filter: "queue_step xs (filter keep xs)"
  unfolding queue_step_def by (rule exI [of _ keep], rule exI [of _ "[]"]) simp

lemma queue_step_append: "set new \<inter> set xs = {} \<Longrightarrow> queue_step xs (xs @ new)"
  unfolding queue_step_def by (rule exI [of _ "\<lambda>_. True"], rule exI [of _ new]) simp

lemma registry_publish [simp]:
  "registry_ok (publishChanged c obj) xs \<longleftrightarrow> registry_ok obj xs"
  "registry_ok (publishKeyViewsChanged c obj) xs \<longleftrightarrow> registry_ok obj xs"
  "registry_ok (publishMetaChanged c obj) xs \<longleftrightarrow> registry_ok obj xs"
  "registry_ok (publishHealthChanged c obj) xs \<longleftrightarrow> registry_ok obj xs"
  by (metis registry_unpub unpub_publish)+

lemma registry_meta [simp]:
  "registry_ok (obj\<lparr>so_lastRescan := ts\<rparr>) xs \<longleftrightarrow> registry_ok obj xs"
  "registry_ok (obj\<lparr>so_content := h\<rparr>) xs \<longleftrightarrow> registry_ok obj xs"
  "registry_ok (obj\<lparr>so_droppedDiagnostics := n\<rparr>) xs \<longleftrightarrow> registry_ok obj xs"
proof -
  have g: "get_rec (obj\<lparr>so_lastRescan := ts\<rparr>) = get_rec obj" "get_rec (obj\<lparr>so_content := h\<rparr>) = get_rec obj"
    "get_rec (obj\<lparr>so_droppedDiagnostics := n\<rparr>) = get_rec obj"
    by (simp_all add: get_rec_def fun_eq_iff)
  then have "data_rec (obj\<lparr>so_lastRescan := ts\<rparr>) = data_rec obj" "data_rec (obj\<lparr>so_content := h\<rparr>) = data_rec obj"
    "data_rec (obj\<lparr>so_droppedDiagnostics := n\<rparr>) = data_rec obj"
    by (simp_all add: data_rec_def fun_eq_iff)
  then show "registry_ok (obj\<lparr>so_lastRescan := ts\<rparr>) xs \<longleftrightarrow> registry_ok obj xs"
    "registry_ok (obj\<lparr>so_content := h\<rparr>) xs \<longleftrightarrow> registry_ok obj xs"
    "registry_ok (obj\<lparr>so_droppedDiagnostics := n\<rparr>) xs \<longleftrightarrow> registry_ok obj xs"
    using g by (simp_all add: registry_ok_def queue_ok_def list_ok_def keys_match_def active_ok_def index_ok_def diag_keys_def)
qed

lemma registry_put_key [simp]: "registry_ok (put_key k m obj) xs \<longleftrightarrow> registry_ok obj xs"
  by (rule registry_nokeys) simp

lemma upsert_queue:
  assumes ok: "registry_ok obj xs" and u: "upsertDiagnostic (keyFromDiagnosticObj d) d now obj = (c, obj')"
  shows "\<exists>xs'. registry_ok obj' xs' \<and> queue_step xs xs'"
proof (cases "data_rec obj (keyFromDiagnosticObj d)")
  case (Some r)
  then obtain c' o1 where "upsertDiagnostic (keyFromDiagnosticObj d) d now obj = (Inr c', o1)"
    "registry_ok o1 (removeAll (keyFromDiagnosticObj d) xs)" using upsert_known [OF ok Some refl] by blast
  then show ?thesis using u queue_step_filter [of xs "\<lambda>x. keyFromDiagnosticObj d \<noteq> x"]
    by (auto simp: removeAll_filter_not_eq)
next
  case None
  show ?thesis
  proof (cases "length (diag_keys obj) < so_maxDiagnostics obj")
    case True
    then show ?thesis using u upsert_room [OF ok None refl True] insert_new_ok(1) [OF ok None True] queue_step_refl
      by (metis prod.inject)
  next
    case full: False
    show ?thesis
    proof (cases xs)
      case Nil
      then have "obj' = drop_count obj" using upsert_full [OF _ None full, of d now] ok u by simp
      moreover obtain n where "drop_count obj = obj\<lparr>so_droppedDiagnostics := n\<rparr>" using drop_count_eq by blast
      ultimately have "registry_ok obj' xs" using ok by simp
      then show ?thesis using queue_step_refl by blast
    next
      case (Cons x ys)
      note ok' = ok [unfolded Cons]
      let ?e = "snd (evictOldestInactive obj)"
      note up = upsert_evict [OF ok' None refl full]
      have "data_rec ?e (keyFromDiagnosticObj d) = None" using None by (simp add: evict_data [OF registry_okD(1) [OF ok']])
      from insert_new_ok(1) [OF evict_registry(1) [OF ok'] this up(2), of now] have "registry_ok obj' ys"
        using up(1) [of now] u by simp
      moreover have "filter (\<lambda>z. z \<noteq> x) xs = ys"
        using registry_okD(8) [OF ok] Cons by (simp add: filter_id_conv) blast
      ultimately show ?thesis using queue_step_filter [of xs "\<lambda>z. z \<noteq> x"] by auto
    qed
  qed
qed

lemma clear_queue:
  assumes ok: "registry_ok obj xs" and run: "clear_loop sel ord (False, obj) = (c, obj')" and "distinct ord"
    and "\<And>r. sel (data_of r) = sel r"
  shows "\<exists>xs'. registry_ok obj' xs' \<and> queue_step xs xs'"
proof -
  have "registry_ok obj' (xs @ filter (selects obj sel) ord)"
    using clear_loop_spec [of obj xs ord sel False] ok assms(3,4) run by auto
  moreover have "set (filter (selects obj sel) ord) \<inter> set xs = {}"
    using registry_okD(2) [OF ok] by (auto simp: selects_def active_ok_def split: option.splits)
  ultimately show ?thesis using queue_step_append by blast
qed

lemma clearDiagnostics_queue:
  assumes ok: "registry_ok obj xs" and o: "ord_ok ord" and run: "clearDiagnostics ord key v b obj = (c, obj')"
  shows "\<exists>xs'. registry_ok obj' xs' \<and> queue_step xs xs'"
proof (cases "so_diagnosticByKey obj key")
  case None
  then show ?thesis using run ok queue_step_refl by (auto simp: clearDiagnostics_def)
next
  case (Some s)
  note e = index_entry [OF ok Some]
  have "clear_loop (key_selected v b) (ord s) (False, obj) = (c, obj')"
    using run Some e(4) by (simp add: clearDiagnostics_def)
  then show ?thesis by (rule clear_queue [OF ok]) (use e(1) ord_ok_facts(2) [OF o] in simp_all)
qed

text \<open>The operations on keys and metadata do not touch the queue.\<close>

lemma key_batch_queue:
  "ApplyAvailabilityBatch now us obj = (r, obj') \<Longrightarrow> registry_ok obj xs \<Longrightarrow> registry_ok obj' xs"
proof (cases r)
  case (Inl e)
  assume "ApplyAvailabilityBatch now us obj = (r, obj')" "registry_ok obj xs"
  then show ?thesis using batch_Inl [of now us obj e obj'] Inl by simp
next
  case (Inr x)
  assume a: "ApplyAvailabilityBatch now us obj = (r, obj')" "registry_ok obj xs"
  then obtain c o1 where "obj' = publishKeyViewsChanged c o1" "nokeys o1 = nokeys obj"
    using batch_Inr [of now us obj obj'] Inr by auto
  then show ?thesis using a(2) registry_nokeys [of o1 obj xs] by simp
qed

lemma stats_queue:
  assumes "SetMirrorStatsBatch sts obj = (r, obj')" "registry_ok obj xs"
  shows "registry_ok obj' xs"
proof -
  have "nokeys o1 = nokeys obj" if "batch_keys obj [] (map ms_Key sts) = Inr ()" "apply_stats sts (False, obj) = (c, o1)" for c o1
    using batch_apply_spec [of ms_Key sts obj "\<lambda>m st. (applyMirrorStats m st, mirrorStatsChanged m st)" False]
      batch_keys_Inr [OF that(1)] that(2) apply_stats_batch [of sts False obj] by auto
  then have "registry_ok o1 xs" if "batch_keys obj [] (map ms_Key sts) = Inr ()" "apply_stats sts (False, obj) = (c, o1)" for c o1
    using that registry_nokeys assms(2) by blast
  then show ?thesis using assms
    by (auto simp: SetMirrorStatsBatch_def Let_def split: sum.splits if_splits prod.splits)
qed

lemma step_queue:
  assumes "state_step obj obj'" "state_inv obj" "registry_ok obj xs"
  shows "\<exists>xs'. registry_ok obj' xs' \<and> queue_step xs xs'"
  using assms
proof (induction rule: state_step.induct)
  case (availability now us obj r obj')
  then show ?case using key_batch_queue queue_step_refl by blast
next
  case (classification key cls src bro obj r obj')
  have "registry_ok obj' xs"
    by (cases rule: SetClassification_cases [of key cls src bro obj]) (use classification in simp_all)
  then show ?case using queue_step_refl by blast
next
  case (remote_key key rk obj r obj')
  then have "registry_ok obj' xs" by (auto simp: SetRemoteKey_def Let_def split: sum.splits if_splits)
  then show ?case using queue_step_refl by blast
next
  case (stats sts obj r obj')
  then show ?case using stats_queue queue_step_refl by blast
next
  case (last_rescan obj ts)
  then have "registry_ok (SetLastRescan ts obj) xs" by (simp add: SetLastRescan_def)
  then show ?case using queue_step_refl by blast
next
  case (content obj h)
  then have "registry_ok (SetContentChecksum h obj) xs"
    by (simp add: SetContentChecksum_def setContentChecksum_def)
  then show ?case using queue_step_refl by blast
next
  case (raise now d obj r obj')
  show ?case
  proof (cases rule: RaiseDiagnostic_cases [OF raise(2), of now d])
    case (1 e)
    then show ?thesis using raise queue_step_refl by auto
  next
    case valid: 2
    obtain c o1 where u: "upsertDiagnostic (keyFromDiagnosticObj d) d now obj = (c, o1)" by force
    from upsert_queue [OF raise(3) u] obtain xs' where "registry_ok o1 xs'" "queue_step xs xs'" by blast
    then show ?thesis using valid(3) u raise(1) by (intro exI [of _ xs']) (auto split: sum.splits)
  qed
next
  case (clear dk obj r obj')
  show ?case
  proof (cases rule: ClearDiagnostic_cases [OF clear(2), of dk])
    case (1 e)
    then show ?thesis using clear queue_step_refl by auto
  next
    case (2 q)
    have "dk \<notin> set xs" using active_okD [OF registry_okD(2) [OF clear(3)] 2(1)] 2(2) by simp
    then show ?thesis using deactivate_ok [OF clear(3) 2(1,2)] queue_step_append [of "[dk]" xs] 2(3) clear(1) by auto
  qed
next
  case (clear_key ord key obj r obj')
  obtain c o1 where "clearDiagnostics ord key [] False obj = (c, o1)" by force
  then show ?case using clear_key clearDiagnostics_queue [OF clear_key(4,1)] queue_step_refl
    by (fastforce simp: ClearKeyDiagnostics_def split: sum.splits)
next
  case (clear_version ord key v obj r obj')
  obtain c o1 where "clearDiagnostics ord key v True obj = (c, o1)" by force
  then show ?case using clear_version clearDiagnostics_queue [OF clear_version(4,1)] queue_step_refl
    by (fastforce simp: ClearVersionDiagnostics_def split: sum.splits)
next
  case (clear_all ord obj)
  obtain c o1 where run: "clear_loop (\<lambda>_. True) (ord (map fst (so_diagnosticMap obj))) (False, obj) = (c, o1)" by force
  have "\<exists>xs'. registry_ok o1 xs' \<and> queue_step xs xs'"
    by (rule clear_queue [OF clear_all(3) run])
      (use registry_okD(7) [OF clear_all(3)] ord_ok_facts(2) [OF clear_all(1)] in \<open>simp_all add: diag_keys_def\<close>)
  then show ?case using run by (auto simp: ClearAllDiagnostics_def)
qed

section \<open>The queue is sorted by age\<close>

lemma sorted_wrt_all: "(\<And>x y. x \<in> set xs \<Longrightarrow> y \<in> set xs \<Longrightarrow> P x y) \<Longrightarrow> sorted_wrt P xs"
  by (induction xs) auto

lemma queued_inactive: "registry_ok obj xs \<Longrightarrow> inactive_in k obj \<longleftrightarrow> k \<in> set xs"
  using list_ok_present [OF registry_okD(5), of obj xs k] active_okD [OF registry_okD(2), of obj xs k]
  by (auto simp: inactive_in_def data_rec_def split: option.splits)

lemma queue_by_age:
  "state_trace states \<Longrightarrow> \<exists>xs. registry_ok (hd states) xs \<and> sorted_wrt (\<lambda>a b. inactive_for b states \<le> inactive_for a states) xs"
proof (induction rule: state_trace.induct)
  case (start mirrors p obj)
  obtain xs where xs: "registry_ok obj xs" using state_invD(2) [OF state_New_inv [OF start]] by blast
  have "inactive_for k [obj] = (if k \<in> set xs then 1 else 0)" for k
    by (simp add: inactive_for_def queued_inactive [OF xs])
  then have "sorted_wrt (\<lambda>a b. inactive_for b [obj] \<le> inactive_for a [obj]) xs"
    by (auto intro: sorted_wrt_all)
  then show ?case using xs by auto
next
  case (next_state obj past obj')
  then obtain xs where xs: "registry_ok obj xs"
    and s: "sorted_wrt (\<lambda>a b. inactive_for b (obj # past) \<le> inactive_for a (obj # past)) xs" by auto
  have inv: "state_inv obj" by (rule reachable_inv [OF trace_reachable [OF next_state(1)]])
  from step_queue [OF next_state(2) inv xs] obtain keep new where xs': "registry_ok obj' (filter keep xs @ new)"
    and new: "set new \<inter> set xs = {}" unfolding queue_step_def by blast
  have age: "inactive_for k (obj' # obj # past) = Suc (inactive_for k (obj # past))" if "k \<in> set (filter keep xs @ new)" for k
    using that queued_inactive [OF xs', of k] by (simp add: inactive_for_def)
  have young: "inactive_for k (obj # past) = 0" if "k \<in> set new" for k
    using that new queued_inactive [OF xs, of k] by (auto simp: inactive_for_def)
  have "sorted_wrt (\<lambda>a b. inactive_for b (obj # past) \<le> inactive_for a (obj # past)) (filter keep xs @ new)"
    using sorted_wrt_filter [OF s, of keep] young by (auto simp: sorted_wrt_append intro: sorted_wrt_all)
  then have "sorted_wrt (\<lambda>a b. inactive_for b (obj' # obj # past) \<le> inactive_for a (obj' # obj # past)) (filter keep xs @ new)"
    by (rule sorted_wrt_mono_rel [rotated]) (simp only: age Suc_le_mono)
  then show ?case using xs' by auto
qed

text \<open>The head of the queue has been inactive for longest.\<close>

lemma head_is_oldest:
  assumes "state_trace (obj # past)" "so_inactiveHead obj = Some k"
  shows "0 < inactive_for k (obj # past)" "inactive_for j (obj # past) \<le> inactive_for k (obj # past)"
proof -
  obtain xs where xs: "registry_ok obj xs" "sorted_wrt (\<lambda>a b. inactive_for b (obj # past) \<le> inactive_for a (obj # past)) xs"
    using queue_by_age [OF assms(1)] by auto
  then obtain ys where k: "xs = k # ys"
    using registry_okD(5) [OF xs(1)] assms(2) by (cases xs) (auto simp: list_ok_def)
  show "0 < inactive_for k (obj # past)" using queued_inactive [OF xs(1), of k] k by (simp add: inactive_for_def)
  show "inactive_for j (obj # past) \<le> inactive_for k (obj # past)"
  proof (cases "j \<in> set xs")
    case True
    then show ?thesis using xs(2) k by auto
  next
    case False
    then show ?thesis using queued_inactive [OF xs(1), of j] by (simp add: inactive_for_def)
  qed
qed

end
