(* ===== verification/State_Theorems.thy ===== *)
theory State_Theorems
  imports State_Age
begin

text \<open>
  The theorems about the state registry, with a small registry (\<open>sample_state\<close>, two mirrors
  that go permanently down after two cycles) on which each of them is instantiated.
\<close>

section \<open>Raising and clearing\<close>

lemma data_rec_publish [simp]:
  "data_rec (publishChanged c obj) = data_rec obj" "data_rec (publishHealthChanged c obj) = data_rec obj"
  "active_set (publishChanged c obj) = active_set obj"
proof -
  have *: "data_rec o1 = data_rec o2" if "unpub o1 = unpub o2" for o1 o2
    using get_rec_unpub [of o1] get_rec_unpub [of o2] that by (intro ext) (simp add: data_rec_def)
  show "data_rec (publishChanged c obj) = data_rec obj" "data_rec (publishHealthChanged c obj) = data_rec obj"
    by (rule *, simp)+
  then show "active_set (publishChanged c obj) = active_set obj" by (simp add: active_set_def)
qed

lemma raised_active: "dr_active (raised_record obj d now)"
  by (simp add: raised_record_def new_record_def repeat_record_def split: option.splits)

lemma inactive_head_of:
  assumes "registry_ok obj xs"
  shows "so_inactiveHead obj = first_of xs None"
  using registry_okD(5) [OF assms] by (simp add: list_ok_def)

lemma drop_count_data: "data_rec (drop_count obj) = data_rec obj"
proof -
  obtain n where "drop_count obj = obj\<lparr>so_droppedDiagnostics := n\<rparr>" using drop_count_eq by blast
  then show ?thesis by (intro ext) (simp add: data_rec_def)
qed

lemma raise_effect:
  assumes inv: "state_inv obj" and run: "RaiseDiagnostic now d obj = (r, obj')"
  shows "r \<noteq> Inr () \<and> data_rec obj' = data_rec obj \<and>
      (r = Inl RegistryFull \<longrightarrow> so_inactiveHead obj = None \<and> length (diag_keys obj) = so_maxDiagnostics obj \<and>
        data_rec obj (keyFromDiagnosticObj d) = None) \<or>
    r = Inr () \<and> (\<exists>gone. (\<forall>j. data_rec obj' j =
        (if j = keyFromDiagnosticObj d then Some (raised_record obj d now)
         else if j \<in> gone then None else data_rec obj j)) \<and>
      (\<forall>j \<in> gone. so_inactiveHead obj = Some j \<and> (\<forall>q. data_rec obj j = Some q \<longrightarrow> \<not> dr_active q)) \<and>
      (gone = {} \<or> length (diag_keys obj) = so_maxDiagnostics obj))"
proof (cases rule: RaiseDiagnostic_cases [OF inv, of now d])
  case (1 e)
  then show ?thesis using run by auto
next
  case valid: 2
  obtain xs where xs: "registry_ok obj xs" using state_invD(2) [OF inv] by blast
  show ?thesis
  proof (cases rule: upsert_cases [OF xs refl, of d now])
    case 1
    then show ?thesis using valid run inactive_head_of [OF xs] by (auto simp: drop_count_data)
  next
    case (2 c o1 xs' gone)
    have ro: "r = Inr ()" "obj' = publishChanged True o1" using valid(3) run 2(1) by simp_all
    have head: "so_inactiveHead obj = Some j \<and> (\<forall>q. data_rec obj j = Some q \<longrightarrow> \<not> dr_active q)" if j: "j \<in> gone" for j
    proof -
      have "xs \<noteq> []" "j = hd xs" "j \<in> set xs" using 2(6) j by (cases xs; auto)+
      then show ?thesis using inactive_head_of [OF xs] registry_okD(2) [OF xs] by (cases xs) (auto simp: active_ok_def)
    qed
    have "gone = {} \<or> length (diag_keys obj) = so_maxDiagnostics obj"
      using 2(7) registry_okD(4) [OF xs] by fastforce
    moreover have "\<forall>j. data_rec obj' j = (if j = keyFromDiagnosticObj d then Some (raised_record obj d now)
        else if j \<in> gone then None else data_rec obj j)" using 2(5) ro(2) by simp
    ultimately show ?thesis using ro(1) head by blast
  qed
qed

lemma raise_then_clear:
  assumes inv: "state_inv obj" and run: "RaiseDiagnostic now d obj = (Inr (), obj')"
  shows "data_rec obj' (keyFromDiagnosticObj d) = Some (raised_record obj d now)"
    "\<exists>obj2. ClearDiagnostic (keyFromDiagnosticObj d) obj' = (Inr (), obj2) \<and>
       data_rec obj2 = (data_rec obj')(keyFromDiagnosticObj d \<mapsto> switch_off (raised_record obj d now))"
proof -
  let ?k = "keyFromDiagnosticObj d"
  have eff: "data_rec obj' ?k = Some (raised_record obj d now)" using raise_effect [OF inv run] by auto
  then show "data_rec obj' ?k = Some (raised_record obj d now)" .
  have inv': "state_inv obj'" using RaiseDiagnostic_inv [OF inv, of now d] run by simp
  have "step_facts obj obj'" by (rule state_step_facts [OF state_step.raise [OF run] inv])
  have v: "validateDiagnosticObj d = Inr ()" "\<exists>ck. validateDiagnosticScope obj (di_Scope d) (di_Key d) (di_Version d) = Inr ck"
    using run by (auto simp: RaiseDiagnostic_def result_simps split: sum.splits)
  have "validateDiagnosticKeyObj ?k = Inr ()"
    using v(1) by (simp add: validateDiagnosticObj_def validateDiagnosticKeyObj_def keyFromDiagnosticObj_def result_simps)
  moreover have "so_keyMap obj' = so_keyMap obj"
  proof (cases rule: RaiseDiagnostic_cases [OF inv, of now d])
    case valid: 2
    obtain xs where xs: "registry_ok obj xs" using state_invD(2) [OF inv] by blast
    have km: "so_keyMap (publishChanged c o1) = so_keyMap o1" for c o1
      using arg_cong [OF unpub_publish(2) [of c o1], of so_keyMap] by (simp add: unpub_def)
    show ?thesis
      by (cases rule: upsert_cases [OF xs refl, of d now])
        (use valid run in \<open>auto simp: km dest: rest2_fields(3)\<close>)
  qed (use run in simp)
  then have "keyMut obj' = keyMut obj" by (intro ext) (simp add: keyMut_def)
  then have "validateDiagnosticScope obj' = validateDiagnosticScope obj"
    by (intro ext) (simp only: validateDiagnosticScope_def)
  ultimately obtain ck where pre: "andthen (validateDiagnosticKeyObj ?k) (\<lambda>_.
      validateDiagnosticScope obj' (dk_scope ?k) (dk_key ?k) (dk_version ?k)) = Inr ck"
    using v(2) by (auto simp: keyFromDiagnosticObj_def)
  show "\<exists>obj2. ClearDiagnostic ?k obj' = (Inr (), obj2) \<and>
       data_rec obj2 = (data_rec obj')(?k \<mapsto> switch_off (raised_record obj d now))"
  proof (cases rule: ClearDiagnostic_cases [OF inv', of ?k])
    case (1 e)
    have "e = Inr ()" using 1(1) pre by (auto simp: ClearDiagnostic_def Let_def split: option.splits if_splits)
    then show ?thesis using 1(2) eff raised_active by blast
  next
    case (2 r)
    then show ?thesis using eff by (simp add: deactivate_rec fun_eq_iff)
  qed
qed

section \<open>A sample registry\<close>

definition sample_state :: state_Obj where
  "sample_state = (case state_New [(''web'', ''https://h/web''), (''api'', ''https://h/api'')] 2 of Inr obj \<Rightarrow> obj)"

definition sample_down :: state_Obj where
  "sample_down = mark_all_down ''web'' [5, 6] sample_state"

definition sample_diag :: DiagnosticObj where
  "sample_diag = \<lparr>di_Code = ''sync'', di_Scope = ScopeKey, di_Impact = StatusError, di_Reason = UpstreamUnavailable,
     di_Key = ''web'', di_Version = [], di_Message = ''down''\<rparr>"

definition sample_raised :: state_Obj where
  "sample_raised = snd (RaiseDiagnostic 9 sample_diag sample_state)"

lemma sample_New: "state_New [(''web'', ''https://h/web''), (''api'', ''https://h/api'')] 2 = Inr sample_state"
proof -
  have "is_ok (state_New [(''web'', ''https://h/web''), (''api'', ''https://h/api'')] 2)" by code_simp
  then show ?thesis by (auto simp: is_ok_iff sample_state_def)
qed

lemma sample_reachable: "state_reachable sample_state"
  by (rule state_reachable.init [OF sample_New])

lemma sample_raise: "RaiseDiagnostic 9 sample_diag sample_state = (Inr (), sample_raised)"
proof -
  have "is_ok (fst (RaiseDiagnostic 9 sample_diag sample_state))" by code_simp
  then show ?thesis by (cases "RaiseDiagnostic 9 sample_diag sample_state") (auto simp: is_ok_iff sample_raised_def)
qed

lemma sample_key: "\<exists>m. keyMut sample_state ''web'' = Inr m \<and> key_rec sample_state ''web'' = Some m \<and>
    km_availability m = AvUnknown \<and> km_lastScan m = 0 \<and> km_unavailableCycles m = 0"
proof -
  have "(case keyMut sample_state ''web'' of Inl _ \<Rightarrow> False
      | Inr m \<Rightarrow> km_availability m = AvUnknown \<and> km_lastScan m = 0 \<and> km_unavailableCycles m = 0)" by code_simp
  then show ?thesis by (auto split: sum.splits dest: keyMut_Inr)
qed

section \<open>Theorems\<close>

text \<open>
  C38: In every reachable state the published snapshot is the one a full rebuild from the current
  keys and diagnostics gives, with the current generation: the incremental publications of key
  views, metadata and health counters never leave a stale field behind.
\<close>

theorem snapshot_is_current:
  assumes "state_reachable obj"
  shows "so_snap obj = Some ((buildSnapshot obj)\<lparr>sn_Generation := so_generation obj\<rparr>)"
  using state_invD(4) [OF reachable_inv [OF assms]] by (simp add: published_def)

theorem snapshot_is_current_witness:
  "so_snap sample_raised = Some ((buildSnapshot sample_raised)\<lparr>sn_Generation := so_generation sample_raised\<rparr>)"
  by (rule snapshot_is_current [OF state_reachable.step [OF sample_reachable state_step.raise [OF sample_raise]]])

text \<open>
  A snapshot does not depend on the order in which the runtime ranges over the diagnostics
  map: building it from the records in any other order gives the same snapshot.
\<close>

lemma snapshot_order_independent:
  assumes "state_reachable obj" and "mset rs = mset (map snd (so_diagnosticMap obj))"
  shows "build_from rs obj = buildSnapshot obj"
  by (rule build_from_perm [OF reachable_inv [OF assms(1)] assms(2)])

lemma snapshot_order_independent_witness:
  "build_from (rev (map snd (so_diagnosticMap sample_raised))) sample_raised = buildSnapshot sample_raised"
  by (rule snapshot_order_independent [OF state_reachable.step [OF sample_reachable state_step.raise [OF sample_raise]]])
    simp

text \<open>
  Health refines the set of active diagnostics: the node's status is the worst impact of all
  of them, and the state shown for a configured key carries the worst impact of the diagnostics
  that are global or belong to the key; an unknown key is not shown.
\<close>

lemma health_is_worst_active:
  assumes "state_reachable obj"
  shows "hv_Status (sn_health (the (so_snap obj))) = worst (active_set obj) \<and>
    sn_KeyState (the (so_snap obj)) key =
      map_option (\<lambda>m. keyViewFromMut m (worst {r \<in> active_set obj. is_global r \<or> dr_key r = key}))
        (key_rec obj key)"
  using state_invD(4) [OF reachable_inv [OF assms]] health_status [OF reachable_inv [OF assms]]
    key_state_lookup [OF reachable_inv [OF assms]]
  by (simp add: published_def)

lemma health_is_worst_active_witness:
  "hv_Status (sn_health (the (so_snap sample_raised))) = worst (active_set sample_raised) \<and>
   hv_Status (sn_health (the (so_snap sample_raised))) = StatusError \<and>
   sn_KeyState (the (so_snap sample_raised)) ''nope'' = None"
proof -
  have "hv_Status (sn_health (the (so_snap sample_raised))) = StatusError" by code_simp
  moreover have "map_option km_key (key_rec sample_raised ''nope'') = None" by code_simp
  ultimately show ?thesis
    using health_is_worst_active [OF state_reachable.step [OF sample_reachable state_step.raise [OF sample_raise]], of "''nope''"]
    by simp
qed

text \<open>
  C39: Outages. A configured key that was never scanned or was available, and is then found
  unavailable at \<open>n\<close> increasing times, is shown with \<open>min n P\<close> unavailable cycles, where \<open>P\<close> is
  the configured limit: temporarily down while \<open>n < P\<close>, permanently down from \<open>P\<close> on.
\<close>

theorem outage_becomes_permanent:
  assumes "state_reachable obj" "keyMut obj key = Inr m"
    and "km_availability m = AvUnknown \<or> km_availability m = AvAvailable"
    and "ts \<noteq> []" "sorted_wrt (<) (km_lastScan m # ts)" "0 \<notin> set ts"
  shows "\<exists>v. sn_KeyState (the (so_snap (mark_all_down key ts obj))) key = Some v \<and>
    unat (ks_UnavailableCycles v) = min (length ts) (unat (so_permanentAt obj)) \<and>
    ks_Availability v = (if length ts < unat (so_permanentAt obj) then AvTemporaryDown else AvPermanentDown)"
proof -
  note inv = reachable_inv [OF assms(1)]
  have "key_ok (so_permanentAt obj) m"
    using state_invD(1) [OF inv] keyMut_Inr [OF assms(2)] by (simp add: keys_ok_def)
  then have "km_unavailableCycles m = 0" using assms(3) by (auto simp: key_ok_def)
  then obtain m' where m': "state_inv (mark_all_down key ts obj)" "keyMut (mark_all_down key ts obj) key = Inr m'"
      "unat (km_unavailableCycles m') = min (length ts) (unat (so_permanentAt obj))"
      "km_availability m' = (if length ts < unat (so_permanentAt obj) then AvTemporaryDown else AvPermanentDown)"
    using mark_all_down_run [OF inv assms(2,5,6,4)] by auto
  show ?thesis using key_state_lookup [OF m'(1), of key] keyMut_Inr [OF m'(2)] m'(3,4)
    by (simp add: keyViewFromMut_def)
qed

theorem outage_becomes_permanent_witness:
  "\<exists>v. sn_KeyState (the (so_snap (mark_all_down ''web'' [5, 6, 8] sample_state))) ''web'' = Some v \<and>
    ks_UnavailableCycles v = 2 \<and> ks_Availability v = AvPermanentDown"
proof -
  have P: "so_permanentAt sample_state = 2" by code_simp
  obtain m where "keyMut sample_state ''web'' = Inr m" "km_availability m = AvUnknown" "km_lastScan m = 0"
    using sample_key by blast
  then obtain v where v: "sn_KeyState (the (so_snap (mark_all_down ''web'' [5, 6, 8] sample_state))) ''web'' = Some v"
      "unat (ks_UnavailableCycles v) = min (length [5, 6, 8 :: gotime]) (unat (so_permanentAt sample_state))"
      "ks_Availability v = (if length [5, 6, 8 :: gotime] < unat (so_permanentAt sample_state)
         then AvTemporaryDown else AvPermanentDown)"
    using outage_becomes_permanent [OF sample_reachable, of "''web''" m "[5, 6, 8]"] by auto
  have "unat (ks_UnavailableCycles v) = unat (2 :: u32)" using v(2) by (simp add: P)
  moreover have "ks_Availability v = AvPermanentDown" using v(3) by (simp add: P)
  ultimately show ?thesis using v(1) by (simp add: word_unat_eq_iff)
qed

text \<open>
  The availability state machine. In every reachable state the counter and the state of every
  key agree: no cycles while unknown or available, fewer than the limit while temporarily down,
  exactly the limit when permanently down; and a reclassification is only ever allowed while the
  key is available.
\<close>

lemma availability_states_consistent:
  assumes "state_reachable obj" "key_rec obj key = Some m"
  shows "(km_availability m = AvUnknown \<and> km_unavailableCycles m = 0 \<or>
     km_availability m = AvAvailable \<and> km_unavailableCycles m = 0 \<or>
     km_availability m = AvTemporaryDown \<and> 0 < km_unavailableCycles m \<and> km_unavailableCycles m < so_permanentAt obj \<or>
     km_availability m = AvPermanentDown \<and> km_unavailableCycles m = so_permanentAt obj) \<and>
    (km_reclassAllowed m \<longrightarrow> km_availability m = AvAvailable)"
proof -
  have "key_ok (so_permanentAt obj) m" using state_invD(1) [OF reachable_inv [OF assms(1)]] assms(2) by (simp add: keys_ok_def)
  then show ?thesis by (auto simp: key_ok_def split: AvailabilityStatusType.splits)
qed

lemma availability_states_consistent_witness:
  "\<exists>m. key_rec sample_state ''web'' = Some m \<and> (km_reclassAllowed m \<longrightarrow> km_availability m = AvAvailable)"
  using sample_key availability_states_consistent [OF sample_reachable, of "''web''"] by blast

text \<open>
  Delivering an availability batch twice is delivering it once: no cycle is counted twice
  and no new snapshot is published.
\<close>

lemma availability_batch_idempotent:
  assumes "state_reachable obj" "ApplyAvailabilityBatch now us obj = (Inr (), obj')"
  shows "ApplyAvailabilityBatch now us obj' = (Inr (), obj')"
  by (rule batch_again [OF reachable_inv [OF assms(1)] assms(2)])

lemma availability_batch_idempotent_witness:
  "ApplyAvailabilityBatch 5 [\<lparr>au_Key = ''web'', au_Available = False, au_Present = False, au_ScanAt = 5\<rparr>]
     (snd (MarkUnavailable 5 ''web'' 5 sample_state)) = (Inr (), snd (MarkUnavailable 5 ''web'' 5 sample_state))"
proof -
  obtain m where m: "keyMut sample_state ''web'' = Inr m" using sample_key by blast
  obtain o1 where "MarkUnavailable 5 ''web'' 5 sample_state = (Inr (), o1)"
    using MarkUnavailable_run [OF reachable_inv [OF sample_reachable] m, of 5] by auto
  then show ?thesis
    using availability_batch_idempotent [OF sample_reachable, of 5
        "[\<lparr>au_Key = ''web'', au_Available = False, au_Present = False, au_ScanAt = 5\<rparr>]" o1]
    by (simp add: MarkUnavailable_def)
qed

text \<open>
  An availability batch is atomic. If it is rejected, nothing changes; if it is accepted, its
  keys are distinct and known, each of them has exactly its own update applied, and no other key
  changes.
\<close>

lemma availability_batch_atomic:
  assumes "ApplyAvailabilityBatch now us obj = (r, obj')"
  shows "(r \<noteq> Inr () \<longrightarrow> obj' = obj) \<and>
    (r = Inr () \<longrightarrow> distinct (map au_Key us) \<and>
      (\<forall>key. key \<notin> set (map au_Key us) \<longrightarrow> key_rec obj' key = key_rec obj key) \<and>
      (\<forall>u \<in> set us. \<exists>m. key_rec obj (au_Key u) = Some m \<and>
         key_rec obj' (au_Key u) = Some (fst (applyAvailability (so_permanentAt obj) m u))))"
proof (cases r)
  case (Inl e)
  then show ?thesis using batch_Inl [of now us obj e obj'] assms by simp
next
  case (Inr x)
  then show ?thesis using batch_Inr [of now us obj obj'] assms keyMut_Inr by fastforce
qed

lemma availability_batch_atomic_witness:
  "snd (ApplyAvailabilityBatch 9
     [\<lparr>au_Key = ''web'', au_Available = False, au_Present = False, au_ScanAt = 5\<rparr>,
      \<lparr>au_Key = ''web'', au_Available = True, au_Present = True, au_ScanAt = 6\<rparr>] sample_state) = sample_state"
proof -
  let ?r = "ApplyAvailabilityBatch 9
     [\<lparr>au_Key = ''web'', au_Available = False, au_Present = False, au_ScanAt = 5\<rparr>,
      \<lparr>au_Key = ''web'', au_Available = True, au_Present = True, au_ScanAt = 6\<rparr>] sample_state"
  have "\<not> is_ok (fst ?r)" by code_simp
  then have "fst ?r \<noteq> Inr ()" by (auto simp: is_ok_def)
  then show ?thesis using availability_batch_atomic [of 9 _ sample_state "fst ?r" "snd ?r"] by simp
qed

text \<open>
  The classification lock. Whatever is called, a key that is classified keeps its class, unless
  a reclassification was allowed, and then it is no longer allowed; and it becomes allowed only by
  the step that finds a permanently down key available again.
\<close>

lemma reclassification_needs_recovery:
  assumes "state_reachable obj" "state_step obj obj'" "key_rec obj key = Some m"
  shows "\<exists>m'. key_rec obj' key = Some m' \<and>
    (km_classified m \<and> km_classification m' \<noteq> km_classification m \<longrightarrow>
       km_reclassAllowed m \<and> \<not> km_reclassAllowed m') \<and>
    (km_reclassAllowed m' \<and> \<not> km_reclassAllowed m \<longrightarrow>
       km_availability m = AvPermanentDown \<and> km_availability m' = AvAvailable)"
  using state_step_facts [OF assms(2) reachable_inv [OF assms(1)]] assms(3)
  by (auto simp: step_facts_def keys_locked_def class_lock_def)

lemma reclassification_needs_recovery_witness:
  "\<exists>m m'. key_rec sample_state ''web'' = Some m \<and> key_rec sample_raised ''web'' = Some m' \<and>
    (km_classified m \<and> km_classification m' \<noteq> km_classification m \<longrightarrow>
       km_reclassAllowed m \<and> \<not> km_reclassAllowed m')"
  using sample_key reclassification_needs_recovery [OF sample_reachable state_step.raise [OF sample_raise], of "''web''"]
  by blast

text \<open>
  The generation number never decreases, and grows whenever the published snapshot changes,
  until it saturates.
\<close>

lemma generation_is_monotone:
  assumes "state_reachable obj" "state_step obj obj'"
  shows "so_generation obj \<le> so_generation obj' \<and>
    (so_snap obj' \<noteq> so_snap obj \<longrightarrow> so_generation obj < so_generation obj' \<or> so_generation obj = - 1)"
  using state_step_facts [OF assms(2) reachable_inv [OF assms(1)]] generation_grows [of obj obj']
  by (simp add: step_facts_def)



text \<open>
  Raising and clearing. A raised diagnostic is shown in the snapshot, with its count and first
  time carried over if it was known; clearing it by identity succeeds, and then no diagnostic with
  that identity is active, while all others are as before.
\<close>

lemma raised_is_shown_until_cleared:
  assumes "state_reachable obj" "RaiseDiagnostic now d obj = (Inr (), obj')"
  shows "diagnosticViewFromRecord (raised_record obj d now) \<in> set (sn_diagnosticArr (the (so_snap obj'))) \<and>
    (\<exists>obj2. ClearDiagnostic (keyFromDiagnosticObj d) obj' = (Inr (), obj2) \<and>
       active_set obj2 = active_set obj' - {raised_record obj d now} \<and>
       set (sn_diagnosticArr (the (so_snap obj2))) = diagnosticViewFromRecord ` active_set obj2)"
proof -
  note inv = reachable_inv [OF assms(1)]
  let ?k = "keyFromDiagnosticObj d" and ?r = "raised_record obj d now"
  have inv': "state_inv obj'" using RaiseDiagnostic_inv [OF inv, of now d] assms(2) by simp
  have shown: "set (sn_diagnosticArr (the (so_snap o1))) = diagnosticViewFromRecord ` active_set o1" if "state_inv o1" for o1
    using diagnostics_shown [OF that] state_invD(4) [OF that] by (simp add: published_def)
  note rc = raise_then_clear [OF inv assms(2)]
  then obtain obj2 where o2: "ClearDiagnostic ?k obj' = (Inr (), obj2)"
      "data_rec obj2 = (data_rec obj')(?k \<mapsto> switch_off ?r)" by blast
  have "state_inv obj2" using ClearDiagnostic_inv [OF inv', of ?k] o2(1) by simp
  obtain xs where xs: "registry_ok obj' xs" using state_invD(2) [OF inv'] by blast
  have uniq: "k = ?k" if "data_rec obj' k = Some ?r" for k
    using that rc(1) registry_okD(6) [OF xs] by (simp add: keys_match_iff) metis
  have "active_set obj2 = active_set obj' - {?r}"
  proof (rule set_eqI)
    fix q show "q \<in> active_set obj2 \<longleftrightarrow> q \<in> active_set obj' - {?r}"
    proof
      assume "q \<in> active_set obj2"
      then obtain k where k: "data_rec obj2 k = Some q" "dr_active q" by (auto simp: active_set_def)
      then have "k \<noteq> ?k" using o2(2) by (auto simp: switch_off_def)
      then show "q \<in> active_set obj' - {?r}" using k o2(2) uniq by (auto simp: active_set_def)
    next
      assume "q \<in> active_set obj' - {?r}"
      then obtain k where k: "data_rec obj' k = Some q" "dr_active q" "q \<noteq> ?r" by (auto simp: active_set_def)
      then have "k \<noteq> ?k" using rc(1) by auto
      then show "q \<in> active_set obj2" using k o2(2) by (auto simp: active_set_def)
    qed
  qed
  moreover have "?r \<in> active_set obj'" using rc(1) raised_active by (auto simp: active_set_def)
  ultimately show ?thesis using o2(1) shown [OF inv'] shown [OF \<open>state_inv obj2\<close>] by auto
qed

lemma raised_is_shown_until_cleared_witness:
  "diagnosticViewFromRecord (raised_record sample_state sample_diag 9) \<in>
     set (sn_diagnosticArr (the (so_snap sample_raised)))"
  using raised_is_shown_until_cleared [OF sample_reachable sample_raise] by blast

end
