(* ===== verification/Store_Defs.thy ===== *)
theory Store_Defs
  imports TreeCodec Triples Util_Version "HOL-Library.AList" "HOL-Library.Product_Lexorder"
begin

text \<open>
  Data of the durable store: the rows of the SQLite index (\<open>mod/storage/sqliteindex\<close> and its
  migrations), the objects of the Pebble store (\<open>mod/storage/pebblestore\<close>), the requests of
  \<open>mod/core/version.go\<close>, and the operations both are built from.

  The index is a record of tables. A table with a primary key is an association list from the key to
  the row; an upsert is \<open>AList.update\<close>. Pebble is an association list from raw keys to values.
  SQLite and Pebble themselves are not under \<open>src/\<close>: every call of them, every check of
  \<open>ctx.Done()\<close> and every file access asks \<open>sv_ok\<close> of the environment, with the number of
  calls made so far, whether it succeeds; the theorems hold for every environment, so for every
  pattern of failures. A transaction that fails is rolled back, a Pebble batch is atomic: this is
  what the two libraries document. \<open>sv_now\<close> is \<open>time.Now\<close>, \<open>sv_file\<close> the
  spool file (its identity and its content) that the n-th call finds under a path.
\<close>

section \<open>Rows and requests\<close>

record VersionObj =
  v_Key :: string
  v_Version :: string
  v_SourceHash :: HashObj
  v_SourceSizeBytes :: u64
  v_TreeHash :: HashObj
  v_IngestTS :: gotime
  v_UpstreamSeq :: int
  v_UpstreamDeleted :: bool
  v_ReplacedBy :: string
  v_ReleaseNotes :: string
  v_HealPending :: bool
  v_UpstreamRef :: string
  v_VerifiedTS :: gotime

record DetectionObj =
  d_IsGo :: bool
  d_IsComposer :: bool
  d_Conflict :: bool
  d_EvidenceJSON :: string
  d_GoZipBlocked :: bool
  d_GoZipBlockReason :: string

record ArtifactObj =
  a_MaterializerID :: string
  a_ArtifactKind :: string
  a_ListenerID :: string
  a_Key :: string
  a_Version :: string
  a_ETag :: string
  a_BodyHash :: HashObj
  a_BodySha256 :: bytes
  a_BodySha1 :: bytes
  a_SizeBytes :: u64
  a_FormatVersion :: u32
  a_FilePath :: string
  a_DegradedReason :: string

record PublishObj =
  p_Key :: string
  p_Version :: string
  p_SourceHash :: HashObj
  p_SourceSizeBytes :: u64
  p_UpstreamSeq :: int
  p_Entries :: "InputEntryObj list"
  p_Detection :: DetectionObj
  p_RewriteBlobs :: "HashObj list"
  p_Artifacts :: "ArtifactObj list"
  p_UpstreamDeleted :: bool
  p_EventType :: string
  p_EventMessage :: string
  p_ReleaseNotes :: string
  p_HealPending :: bool
  p_UpstreamRef :: string
  p_VerifiedTS :: gotime

record PublishResultObj =
  r_Key :: string
  r_Version :: string
  r_TreeHash :: HashObj
  r_Published :: bool
  r_Skipped :: bool
  r_Historical :: string

record BlobRefObj =
  br_Refcount :: nat
  br_SizeBytes :: u64

record eventObj =
  e_id :: nat
  e_ts :: gotime
  e_Key :: string
  e_Version :: string
  e_Type :: string
  e_Tree :: "HashObj option"
  e_Body :: "HashObj option"
  e_Message :: string

type_synonym vkey = "string \<times> string"
type_synonym akey = "string \<times> string \<times> string \<times> vkey"

record dbObj =
  db_globals :: "(string \<times> string) list"
  db_versions :: "(vkey \<times> VersionObj) list"
  db_detection :: "(vkey \<times> DetectionObj) list"
  db_rewrite :: "(vkey \<times> HashObj) list"
  db_artifacts :: "(akey \<times> ArtifactObj) list"
  db_blob_refs :: "(HashObj \<times> BlobRefObj) list"
  db_history :: "eventObj list"
  db_historySeq :: nat

text \<open>A row is stored under its primary key.\<close>

definition vkey_of :: "VersionObj \<Rightarrow> vkey" where
  "vkey_of v = (v_Key v, v_Version v)"

definition akey_of :: "vkey \<Rightarrow> ArtifactObj \<Rightarrow> akey" where
  "akey_of k a = (a_MaterializerID a, a_ArtifactKind a, a_ListenerID a, k)"

definition akey_vkey :: "akey \<Rightarrow> vkey" where
  "akey_vkey k = snd (snd (snd k))"

section \<open>Keys of the object store (key.go, types.go)\<close>

datatype objectKindObj = cObjectKindBlob | cObjectKindTree

definition cBlobTag :: char where "cBlobTag = CHR ''b''"
definition cTreeTag :: char where "cTreeTag = CHR ''t''"
definition cKeySize :: nat where "cKeySize = 1 + HashSize"
definition cDeleteBatchKeys :: nat where "cDeleteBatchKeys = 4096"
definition cWriteBatchMaxBytes :: u64 where "cWriteBatchMaxBytes = 16 * 1024 * 1024"
definition cWriteBatchMaxObjects :: nat where "cWriteBatchMaxObjects = 1024"

definition objectTag :: "objectKindObj \<Rightarrow> char" where
  "objectTag kindObj = (case kindObj of cObjectKindBlob \<Rightarrow> cBlobTag | cObjectKindTree \<Rightarrow> cTreeTag)"

definition objectKey :: "objectKindObj \<Rightarrow> HashObj \<Rightarrow> bytes" where
  "objectKey kindObj hashObj = objectTag kindObj # BytesCopy hashObj"

definition blobKey :: "HashObj \<Rightarrow> bytes" where "blobKey = objectKey cObjectKindBlob"
definition treeKey :: "HashObj \<Rightarrow> bytes" where "treeKey = objectKey cObjectKindTree"

definition objectHashFromKey :: "objectKindObj \<Rightarrow> bytes \<Rightarrow> HashObj option" where
  "objectHashFromKey kindObj keyArr =
     (if length keyArr \<noteq> cKeySize \<or> hd keyArr \<noteq> objectTag kindObj then None
      else (case HashFromBytes (tl keyArr) of Inl _ \<Rightarrow> None | Inr h \<Rightarrow> Some h))"

type_synonym PendingObjectObj = "objectKindObj \<times> HashObj"

record PendingObjectsObj =
  po_SizeBytes :: u64
  po_ObjectArr :: "PendingObjectObj list"

definition PendingBlob :: "HashObj \<Rightarrow> PendingObjectObj" where "PendingBlob h = (cObjectKindBlob, h)"
definition PendingTree :: "HashObj \<Rightarrow> PendingObjectObj" where "PendingTree h = (cObjectKindTree, h)"

definition object_key :: "PendingObjectObj \<Rightarrow> bytes" where
  "object_key x = objectKey (fst x) (snd x)"

section \<open>Configuration, environment and state\<close>

datatype mutation_mode = MutationHistory | MutationOverwrite
datatype deletion_mode = DeletionKeep | DeletionDelete

record store_cfg =
  cf_MaxTotalSize :: u64
  cf_EvictToSize :: u64
  cf_RetainLatestPerKey :: nat
  cf_MaxVersionsPerKey :: nat
  cf_Mutation :: mutation_mode
  cf_HistoryPrefix :: string
  cf_Deletion :: deletion_mode
  cf_Compressed :: u64
  cf_Unpacked :: u64
  cf_PerFile :: u64
  cf_Count :: nat
  cf_PathBytes :: u64
  cf_HotMaxSize :: u64
  cf_RamBytes :: u64

record store_env =
  sv_H :: "bytes \<Rightarrow> HashObj"
  sv_ok :: "nat \<Rightarrow> bool"
  sv_now :: "nat \<Rightarrow> gotime"
  sv_file :: "nat \<Rightarrow> string \<Rightarrow> (nat \<times> bytes) option"
  sv_disk :: "nat \<Rightarrow> u64"
  sv_semver :: semver_api
  sv_json :: "string \<Rightarrow> bool"

record storeObj =
  st_db :: dbObj
  st_pb :: "(bytes \<times> bytes) list"
  st_calls :: nat
  st_realBytes :: u64
  st_realBytesAt :: gotime
  st_lastCompact :: gotime

datatype quota_check = QuotaAdmission | QuotaAfterEvict | QuotaHardLimit

datatype store_error =
    ErrCall
  | ErrObjectNotFound
  | ErrHash core_error
  | ErrTree tree_error
  | ErrPath path_error
  | ErrArtifactSize
  | ErrConstraint
  | ErrIntegerRange
  | ErrUnderflow
  | ErrInconsistentSizes HashObj
  | ErrSizeMismatch HashObj
  | ErrMissingReference HashObj store_error
  | ErrHistoryCounter
  | ErrCacheQuotaExceeded quota_check u64 u64 u64 u64 u64
  | ErrArchiveLimit string u64 u64
  | ErrInvalid string
  | ErrStagedSymlinkRejected string
  | ErrCleanup store_error store_error
  | ErrFuel

type_synonym 'a sto = "(storeObj, store_error, 'a) op"

text \<open>One call of a library that may fail, or one check of the context.\<close>

definition io :: "store_env \<Rightarrow> unit sto" where
  "io E st = (let st' = st\<lparr>st_calls := Suc (st_calls st)\<rparr>
              in if sv_ok E (st_calls st) then (Inr (), st') else (Inl ErrCall, st'))"

definition map_serr :: "(store_error \<Rightarrow> store_error) \<Rightarrow> 'a sto \<Rightarrow> 'a sto" where
  "map_serr f m s = (case m s of (r, s') \<Rightarrow> (map_err f r, s'))"

definition query :: "store_env \<Rightarrow> (dbObj \<Rightarrow> 'a) \<Rightarrow> 'a sto" where
  "query E f = sbind (io E) (\<lambda>_. sget (f \<circ> st_db))"

definition put_db :: "dbObj \<Rightarrow> storeObj \<Rightarrow> storeObj" where
  "put_db db st = st\<lparr>st_db := db\<rparr>"

text \<open>A statement: fails with the call, or with a constraint or a type of the schema.\<close>

definition exec :: "store_env \<Rightarrow> (dbObj \<Rightarrow> store_error + dbObj) \<Rightarrow> unit sto" where
  "exec E f = sbind (io E) (\<lambda>_ st.
     (case f (st_db st) of Inl e \<Rightarrow> (Inl e, st) | Inr db \<Rightarrow> (Inr (), put_db db st)))"

text \<open>\<open>WithTx\<close> of \<open>sqliteindex/index.go\<close>: begin, the body, commit, and a roll back on every error.\<close>

definition WithTx :: "store_env \<Rightarrow> 'a sto \<Rightarrow> 'a sto" where
  "WithTx E useFunc =
     sbind (io E) (\<lambda>_.
     sbind (sget st_db) (\<lambda>db0.
     on_error (put_db db0)
       (sbind useFunc (\<lambda>x.
        sbind (io E) (\<lambda>_. sret x)))))"

definition sqlMaxBindArgs :: nat where "sqlMaxBindArgs = 900"

definition sqlChunkSize :: "nat \<Rightarrow> nat" where
  "sqlChunkSize columnCount = (if columnCount = 0 then 1 else max 1 (sqlMaxBindArgs div columnCount))"

end
