(* ===== verification/Store_Index.thy ===== *)
theory Store_Index
  imports Store_Defs
begin

text \<open>
  The statements of the SQLite index: \<open>mod/storage/sqliteindex/version.go\<close>,
  \<open>metadata.go\<close>, \<open>artifact.go\<close> and \<open>history.go\<close>. What a statement does to the tables is a
  function on \<open>dbObj\<close> (named \<open>db_\<close>), with the primary keys, foreign keys (delete cascades to
  detection, rewrite set and artifacts) and checks of the migrations; the operation runs it with
  \<open>exec\<close> or \<open>query\<close>. Multi-row statements are cut into slices of \<open>sqlChunkSize\<close>.
\<close>

section \<open>Integers as text\<close>

fun dec_digits :: "nat \<Rightarrow> string" where
  "dec_digits n = (if n < 10 then [ch (48 + n)] else dec_digits (n div 10) @ [ch (48 + n mod 10)])"

declare dec_digits.simps [simp del]

definition Itoa :: "int \<Rightarrow> string" where
  "Itoa n = (if n < 0 then CHR ''-'' # dec_digits (nat (- n)) else dec_digits (nat n))"

definition dec_value :: "string \<Rightarrow> nat" where
  "dec_value s = foldl (\<lambda>n c. n * 10 + (code_of c - 48)) 0 s"

definition Atoi :: "string \<Rightarrow> int option" where
  "Atoi s =
     (let (neg, ds) = (case s of [] \<Rightarrow> (False, [])
                       | c # cs \<Rightarrow> if c = CHR ''-'' then (True, cs) else if c = CHR ''+'' then (False, cs)
                                  else (False, s));
          n = int (dec_value ds)
      in if ds = [] \<or> \<not> list_all is_digit ds then None
         else if neg then (if n \<le> 2 ^ 63 then Some (- n) else None)
         else (if n < 2 ^ 63 then Some n else None))"

definition wrap64 :: "int \<Rightarrow> int" where
  "wrap64 n = (n + 2 ^ 63) mod 2 ^ 64 - 2 ^ 63"

section \<open>Stored values\<close>

text \<open>Times are stored as text with milliseconds.\<close>

definition stored_time :: "gotime \<Rightarrow> gotime" where
  "stored_time ts = (ts div 1000000) * 1000000"

definition sql_u64 :: "u64 \<Rightarrow> bool" where
  "sql_u64 x \<longleftrightarrow> unat x < 2 ^ 63"

definition strip_notes :: "VersionObj \<Rightarrow> VersionObj" where
  "strip_notes v = v\<lparr>v_ReleaseNotes := []\<rparr>"

section \<open>Reading versions (version.go)\<close>

definition db_rows :: "dbObj \<Rightarrow> VersionObj list" where
  "db_rows db = map snd (db_versions db)"

definition GetVersion :: "store_env \<Rightarrow> string \<Rightarrow> string \<Rightarrow> VersionObj option sto" where
  "GetVersion E key version = query E (\<lambda>db. map_of (db_versions db) (key, version))"

definition sortVersions :: "VersionObj list \<Rightarrow> VersionObj list" where
  "sortVersions versionArr = rev (sort_key (\<lambda>v. (v_UpstreamSeq v, v_Version v)) versionArr)"

definition key_rows :: "dbObj \<Rightarrow> string \<Rightarrow> bool \<Rightarrow> VersionObj list" where
  "key_rows db key includeDeleted =
     filter (\<lambda>v. v_Key v = key \<and> (includeDeleted \<or> \<not> v_UpstreamDeleted v)) (db_rows db)"

definition ListVersions :: "store_env \<Rightarrow> string \<Rightarrow> bool \<Rightarrow> VersionObj list sto" where
  "ListVersions E key includeDeleted =
     query E (\<lambda>db. sortVersions (map strip_notes (key_rows db key includeDeleted)))"

definition CountVersionsByKey :: "store_env \<Rightarrow> string \<Rightarrow> bool \<Rightarrow> nat sto" where
  "CountVersionsByKey E key includeDeleted = query E (\<lambda>db. length (key_rows db key includeDeleted))"

definition ListVersionsPage :: "store_env \<Rightarrow> string \<Rightarrow> bool \<Rightarrow> int \<Rightarrow> int \<Rightarrow> VersionObj list sto" where
  "ListVersionsPage E key includeDeleted limit offset =
     query E (\<lambda>db. take (nat (max 1 limit)) (drop (nat (max 0 offset))
       (sortVersions (key_rows db key includeDeleted))))"

definition ListVersionsKeyset ::
  "store_env \<Rightarrow> string \<Rightarrow> bool \<Rightarrow> int \<Rightarrow> string \<Rightarrow> int \<Rightarrow> VersionObj list sto" where
  "ListVersionsKeyset E key includeDeleted afterSeq afterVersion limit =
     query E (\<lambda>db. take (nat (max 1 limit))
       (sortVersions (filter (\<lambda>v. afterVersion = [] \<or> (v_UpstreamSeq v, v_Version v) < (afterSeq, afterVersion))
          (key_rows db key includeDeleted))))"

definition ListVersionsKeysetBefore ::
  "store_env \<Rightarrow> string \<Rightarrow> bool \<Rightarrow> int \<Rightarrow> string \<Rightarrow> int \<Rightarrow> VersionObj list sto" where
  "ListVersionsKeysetBefore E key includeDeleted beforeSeq beforeVersion limit =
     query E (\<lambda>db. take (nat (max 1 limit))
       (sort_key (\<lambda>v. (v_UpstreamSeq v, v_Version v))
         (filter (\<lambda>v. (beforeSeq, beforeVersion) < (v_UpstreamSeq v, v_Version v))
            (key_rows db key includeDeleted))))"

text \<open>A keyset page: the first \<open>limit\<close> values beyond the cursor.\<close>

definition key_page :: "'a :: linorder list \<Rightarrow> 'a option \<Rightarrow> nat \<Rightarrow> 'a list" where
  "key_page sorted_keys after limit =
     take (max 1 limit) (filter (\<lambda>k. case after of None \<Rightarrow> True | Some a \<Rightarrow> a < k) sorted_keys)"

definition DistinctVersionKeys :: "store_env \<Rightarrow> string \<Rightarrow> nat \<Rightarrow> string list sto" where
  "DistinctVersionKeys E afterKey limit =
     query E (\<lambda>db. key_page (sort (remdups (map v_Key (db_rows db))))
       (if afterKey = [] then None else Some afterKey) limit)"

definition ingest_key :: "VersionObj \<Rightarrow> gotime \<times> string \<times> string" where
  "ingest_key v = (v_IngestTS v, v_Key v, v_Version v)"

definition VersionsByIngest :: "store_env \<Rightarrow> VersionObj option \<Rightarrow> nat \<Rightarrow> VersionObj list sto" where
  "VersionsByIngest E afterObj limitValue =
     query E (\<lambda>db.
       (let rows = filter (\<lambda>v. case afterObj of None \<Rightarrow> True | Some a \<Rightarrow> ingest_key a < ingest_key v)
              (sort_key ingest_key (map strip_notes (db_rows db)))
        in if limitValue > 0 then take limitValue rows else rows))"

text \<open>
  \<open>LatestVersion\<close>: the maximum by \<open>CompareSemver\<close> among the strict semver names, the top of the
  source listing among the raw names, and the later listing position when a key has both.
\<close>

record latestObj =
  lt_semverMax :: "VersionObj option"
  lt_rawTop :: "VersionObj option"

definition latest_step :: "semver_api \<Rightarrow> latestObj \<Rightarrow> VersionObj \<Rightarrow> latestObj" where
  "latest_step sv acc v =
     (if IsStorableSemver sv (v_Version v)
      then (case lt_semverMax acc of
              None \<Rightarrow> acc\<lparr>lt_semverMax := Some v\<rparr>
            | Some m \<Rightarrow> (case CompareSemver sv (v_Version v) (v_Version m) of
                 Inr c \<Rightarrow> if c > 0 then acc\<lparr>lt_semverMax := Some v\<rparr> else acc
               | Inl _ \<Rightarrow> acc))
      else (case lt_rawTop acc of None \<Rightarrow> acc\<lparr>lt_rawTop := Some v\<rparr> | Some _ \<Rightarrow> acc))"

definition latest_pick :: "latestObj \<Rightarrow> VersionObj option" where
  "latest_pick acc =
     (case (lt_semverMax acc, lt_rawTop acc) of
        (Some m, Some r) \<Rightarrow> if v_UpstreamSeq r > v_UpstreamSeq m then Some r else Some m
      | (Some m, None) \<Rightarrow> Some m
      | (None, r) \<Rightarrow> r)"

definition LatestVersion :: "store_env \<Rightarrow> string \<Rightarrow> VersionObj option sto" where
  "LatestVersion E key =
     query E (\<lambda>db. latest_pick (foldl (latest_step (sv_semver E)) \<lparr>lt_semverMax = None, lt_rawTop = None\<rparr>
       (sortVersions (map strip_notes (key_rows db key False)))))"

definition maxUpstreamSeq :: "dbObj \<Rightarrow> string \<Rightarrow> int" where
  "maxUpstreamSeq db key =
     (case map v_UpstreamSeq (key_rows db key True) of [] \<Rightarrow> 0 | s # ss \<Rightarrow> fold max ss s)"

definition MaxUpstreamSeq :: "store_env \<Rightarrow> string \<Rightarrow> int sto" where
  "MaxUpstreamSeq E key = query E (\<lambda>db. maxUpstreamSeq db key)"

definition TreeHashesPage :: "store_env \<Rightarrow> HashObj option \<Rightarrow> nat \<Rightarrow> HashObj list sto" where
  "TreeHashesPage E afterHash limit =
     query E (\<lambda>db. key_page (sort (remdups (map v_TreeHash (db_rows db)))) afterHash limit)"

definition tree_count :: "dbObj \<Rightarrow> HashObj \<Rightarrow> nat" where
  "tree_count db h = length (filter (\<lambda>v. v_TreeHash v = h) (db_rows db))"

definition TreeHashCountsPage :: "store_env \<Rightarrow> HashObj option \<Rightarrow> nat \<Rightarrow> (HashObj \<times> nat) list sto" where
  "TreeHashCountsPage E afterHash limit =
     query E (\<lambda>db. map (\<lambda>h. (h, tree_count db h))
       (key_page (sort (remdups (map v_TreeHash (db_rows db)))) afterHash limit))"

definition checksum_line :: "VersionObj \<Rightarrow> string" where
  "checksum_line v = v_Key v @ [ch 9] @ v_Version v @ [ch 9] @ HashHex (v_TreeHash v) @ [ch 10]"

definition ContentChecksum :: "store_env \<Rightarrow> HashObj sto" where
  "ContentChecksum E =
     query E (\<lambda>db. sv_H E (concat (map checksum_line
       (sort_key vkey_of (filter (\<lambda>v. \<not> v_UpstreamDeleted v) (db_rows db))))))"

section \<open>Writing versions (version.go)\<close>

definition row_valid :: "VersionObj \<Rightarrow> bool" where
  "row_valid v \<longleftrightarrow> 0 \<le> v_UpstreamSeq v \<and> v_UpstreamSeq v < 2 ^ 63 \<and> sql_u64 (v_SourceSizeBytes v)"

definition stored_row :: "VersionObj \<Rightarrow> VersionObj" where
  "stored_row v = v\<lparr>v_IngestTS := stored_time (v_IngestTS v), v_VerifiedTS := stored_time (v_VerifiedTS v)\<rparr>"

definition db_put_version :: "VersionObj \<Rightarrow> dbObj \<Rightarrow> dbObj" where
  "db_put_version v db = db\<lparr>db_versions := AList.update (vkey_of v) (stored_row v) (db_versions db)\<rparr>"

definition InsertVersion :: "store_env \<Rightarrow> VersionObj \<Rightarrow> unit sto" where
  "InsertVersion E v =
     exec E (\<lambda>db. if row_valid v then Inr (db_put_version v db) else Inl ErrConstraint)"

definition db_update_version :: "vkey \<Rightarrow> (VersionObj \<Rightarrow> VersionObj) \<Rightarrow> dbObj \<Rightarrow> dbObj" where
  "db_update_version k f db =
     db\<lparr>db_versions := map (\<lambda>(k', v). if k' = k then (k', f v) else (k', v)) (db_versions db)\<rparr>"

definition TouchVersionVerified :: "store_env \<Rightarrow> string \<Rightarrow> string \<Rightarrow> gotime \<Rightarrow> string \<Rightarrow> unit sto" where
  "TouchVersionVerified E key version verifiedTS upstreamRef =
     (if verifiedTS = 0 \<and> upstreamRef = [] then sret ()
      else exec E (\<lambda>db. Inr (db_update_version (key, version)
        (\<lambda>v. v\<lparr>v_VerifiedTS := (if verifiedTS \<noteq> 0 then stored_time verifiedTS else v_VerifiedTS v),
              v_UpstreamRef := (if upstreamRef \<noteq> [] then upstreamRef else v_UpstreamRef v)\<rparr>) db)))"

definition db_delete_version :: "vkey \<Rightarrow> dbObj \<Rightarrow> dbObj" where
  "db_delete_version k db =
     db\<lparr>db_versions := AList.delete k (db_versions db),
        db_detection := AList.delete k (db_detection db),
        db_rewrite := filter (\<lambda>r. fst r \<noteq> k) (db_rewrite db),
        db_artifacts := filter (\<lambda>r. akey_vkey (fst r) \<noteq> k) (db_artifacts db)\<rparr>"

definition DeleteVersionRow :: "store_env \<Rightarrow> string \<Rightarrow> string \<Rightarrow> unit sto" where
  "DeleteVersionRow E key version = exec E (\<lambda>db. Inr (db_delete_version (key, version) db))"

definition tx_MarkUpstreamDeleted :: "store_env \<Rightarrow> string \<Rightarrow> string \<Rightarrow> unit sto" where
  "tx_MarkUpstreamDeleted E key version =
     exec E (\<lambda>db. Inr (db_update_version (key, version) (\<lambda>v. v\<lparr>v_UpstreamDeleted := True\<rparr>) db))"

definition ClearUpstreamDeleted :: "store_env \<Rightarrow> string \<Rightarrow> string \<Rightarrow> unit sto" where
  "ClearUpstreamDeleted E key version =
     exec E (\<lambda>db. Inr (db_update_version (key, version) (\<lambda>v. v\<lparr>v_UpstreamDeleted := False\<rparr>) db))"

definition tx_SetHealPending :: "store_env \<Rightarrow> string \<Rightarrow> string \<Rightarrow> bool \<Rightarrow> unit sto" where
  "tx_SetHealPending E key version pending =
     exec E (\<lambda>db. Inr (db_update_version (key, version) (\<lambda>v. v\<lparr>v_HealPending := pending\<rparr>) db))"

text \<open>\<open>NewVersion\<close> takes the time of the call.\<close>

definition NewVersion ::
  "gotime \<Rightarrow> string \<Rightarrow> string \<Rightarrow> HashObj \<Rightarrow> u64 \<Rightarrow> HashObj \<Rightarrow> bool \<Rightarrow> VersionObj" where
  "NewVersion now key version sourceHash sourceSize treeHash upstreamDeleted =
     \<lparr>v_Key = key, v_Version = version, v_SourceHash = sourceHash, v_SourceSizeBytes = sourceSize,
      v_TreeHash = treeHash, v_IngestTS = now, v_UpstreamSeq = 0, v_UpstreamDeleted = upstreamDeleted,
      v_ReplacedBy = [], v_ReleaseNotes = [], v_HealPending = False, v_UpstreamRef = [], v_VerifiedTS = 0\<rparr>"

end
