(* ===== verification/Store_Meta.thy ===== *)
theory Store_Meta
  imports Store_Index
begin

text \<open>
  The rest of the index statements: \<open>metadata.go\<close> (reference counts of blobs, detection, rewrite
  set, historical copies), the rows of \<open>artifact.go\<close> and \<open>history.go\<close>.
\<close>

section \<open>Reference counts\<close>

definition count_entry ::
  "(HashObj \<times> BlobRefObj) list \<Rightarrow> TreeEntryObj \<Rightarrow> store_error + (HashObj \<times> BlobRefObj) list" where
  "count_entry refs e =
     (case map_of refs (te_BlobHash e) of
        None \<Rightarrow> Inr (AList.update (te_BlobHash e) \<lparr>br_Refcount = 1, br_SizeBytes = te_SizeBytes e\<rparr> refs)
      | Some b \<Rightarrow>
          if br_SizeBytes b \<noteq> te_SizeBytes e then Inl (ErrInconsistentSizes (te_BlobHash e))
          else Inr (AList.update (te_BlobHash e) (b\<lparr>br_Refcount := br_Refcount b + 1\<rparr>) refs))"

fun count_from ::
  "(HashObj \<times> BlobRefObj) list \<Rightarrow> TreeEntryObj list \<Rightarrow> store_error + (HashObj \<times> BlobRefObj) list" where
  "count_from refs [] = Inr refs"
| "count_from refs (e # es) = andthen (count_entry refs e) (\<lambda>refs'. count_from refs' es)"

definition CountBlobRefs :: "TreeEntryObj list \<Rightarrow> store_error + (HashObj \<times> BlobRefObj) list" where
  "CountBlobRefs entriesArr = count_from [] entriesArr"

text \<open>One row of the upsert \<open>refcount = refcount + excluded.refcount, size_bytes = excluded.size_bytes\<close>.\<close>

definition add_ref :: "HashObj \<times> BlobRefObj \<Rightarrow> (HashObj \<times> BlobRefObj) list \<Rightarrow> (HashObj \<times> BlobRefObj) list" where
  "add_ref row tab =
     (case map_of tab (fst row) of
        None \<Rightarrow> AList.update (fst row) (snd row) tab
      | Some b \<Rightarrow> AList.update (fst row)
          \<lparr>br_Refcount = br_Refcount b + br_Refcount (snd row), br_SizeBytes = br_SizeBytes (snd row)\<rparr> tab)"

definition db_add_refs :: "(HashObj \<times> BlobRefObj) list \<Rightarrow> dbObj \<Rightarrow> store_error + dbObj" where
  "db_add_refs rows db =
     (if list_all (\<lambda>r. sql_u64 (br_SizeBytes (snd r))) rows
      then Inr (db\<lparr>db_blob_refs := fold add_ref rows (db_blob_refs db)\<rparr>) else Inl ErrIntegerRange)"

definition AddBlobRefs :: "store_env \<Rightarrow> TreeEntryObj list \<Rightarrow> unit sto" where
  "AddBlobRefs E entriesArr =
     sbind (slift (CountBlobRefs entriesArr)) (\<lambda>refs.
     siter (\<lambda>rows. exec E (db_add_refs rows)) (slices (sqlChunkSize 3) refs))"

definition covers :: "(HashObj \<times> BlobRefObj) list \<Rightarrow> HashObj \<times> BlobRefObj \<Rightarrow> bool" where
  "covers tab row \<longleftrightarrow>
     (case map_of tab (fst row) of None \<Rightarrow> False | Some b \<Rightarrow> br_Refcount (snd row) \<le> br_Refcount b)"

definition sub_ref :: "HashObj \<times> BlobRefObj \<Rightarrow> (HashObj \<times> BlobRefObj) list \<Rightarrow> (HashObj \<times> BlobRefObj) list" where
  "sub_ref row tab =
     (case map_of tab (fst row) of
        None \<Rightarrow> tab
      | Some b \<Rightarrow> if br_Refcount (snd row) \<le> br_Refcount b
                  then AList.update (fst row) (b\<lparr>br_Refcount := br_Refcount b - br_Refcount (snd row)\<rparr>) tab
                  else tab)"

text \<open>
  The update changes the rows that cover their delta; the slice is an underflow unless all of them
  did. The hashes of a slice are distinct, so the rows do not influence each other.
\<close>

definition db_sub_refs :: "(HashObj \<times> BlobRefObj) list \<Rightarrow> dbObj \<Rightarrow> store_error + dbObj" where
  "db_sub_refs rows db =
     (if length (filter (covers (db_blob_refs db)) rows) \<noteq> length rows then Inl ErrUnderflow
      else Inr (db\<lparr>db_blob_refs := fold sub_ref rows (db_blob_refs db)\<rparr>))"

definition SubtractBlobRefs :: "store_env \<Rightarrow> TreeEntryObj list \<Rightarrow> unit sto" where
  "SubtractBlobRefs E entriesArr =
     sbind (slift (CountBlobRefs entriesArr)) (\<lambda>refs.
     siter (\<lambda>rows. exec E (db_sub_refs rows)) (slices (sqlChunkSize 2) refs))"

definition ReplaceBlobRefs :: "store_env \<Rightarrow> (HashObj \<times> BlobRefObj) list \<Rightarrow> unit sto" where
  "ReplaceBlobRefs E refsObj =
     sbind (exec E (\<lambda>db. Inr (db\<lparr>db_blob_refs := []\<rparr>))) (\<lambda>_.
     siter (\<lambda>rows. exec E (\<lambda>db.
         if list_all (\<lambda>r. sql_u64 (br_SizeBytes (snd r)) \<and> map_of (db_blob_refs db) (fst r) = None) rows
         then Inr (db\<lparr>db_blob_refs := db_blob_refs db @ rows\<rparr>) else Inl ErrConstraint))
       (slices (sqlChunkSize 3) refsObj))"

definition live_refs :: "dbObj \<Rightarrow> (HashObj \<times> BlobRefObj) list" where
  "live_refs db = filter (\<lambda>r. br_Refcount (snd r) > 0) (db_blob_refs db)"

definition BlobRefHashesPage :: "store_env \<Rightarrow> HashObj option \<Rightarrow> nat \<Rightarrow> HashObj list sto" where
  "BlobRefHashesPage E afterHash limit =
     query E (\<lambda>db. key_page (sort (map fst (live_refs db))) afterHash limit)"

definition BlobRefsPage :: "store_env \<Rightarrow> HashObj option \<Rightarrow> nat \<Rightarrow> (HashObj \<times> BlobRefObj) list sto" where
  "BlobRefsPage E afterHash limit =
     query E (\<lambda>db. map (\<lambda>h. (h, the (map_of (db_blob_refs db) h)))
       (key_page (sort (map fst (db_blob_refs db))) afterHash limit))"

definition live_bytes :: "dbObj \<Rightarrow> nat" where
  "live_bytes db = sum_list (map (\<lambda>r. unat (br_SizeBytes (snd r))) (live_refs db))"

text \<open>\<open>SUM\<close> of SQLite fails on an overflow of 64 bits.\<close>

definition ReferencedBytes :: "store_env \<Rightarrow> u64 sto" where
  "ReferencedBytes E =
     sbind (query E live_bytes) (\<lambda>n. if n < 2 ^ 63 then sret (of_nat n) else sfail ErrIntegerRange)"

definition blob_referenced :: "dbObj \<Rightarrow> HashObj \<Rightarrow> bool" where
  "blob_referenced db h = (case map_of (db_blob_refs db) h of None \<Rightarrow> False | Some b \<Rightarrow> br_Refcount b > 0)"

definition BlobReferenced :: "store_env \<Rightarrow> HashObj \<Rightarrow> bool sto" where
  "BlobReferenced E h = query E (\<lambda>db. blob_referenced db h)"

definition zero_ref :: "dbObj \<Rightarrow> HashObj \<Rightarrow> bool" where
  "zero_ref db h = (case map_of (db_blob_refs db) h of None \<Rightarrow> False | Some b \<Rightarrow> br_Refcount b = 0)"

definition UnreferencedBlobs :: "store_env \<Rightarrow> HashObj list \<Rightarrow> HashObj list sto" where
  "UnreferencedBlobs E hashArr =
     sfoldl (\<lambda>acc hs. sbind (query E (\<lambda>db. filter (zero_ref db) hs)) (\<lambda>found. sret (acc @ found)))
       [] (slices (sqlChunkSize 1) hashArr)"

definition db_drop_zero_refs :: "HashObj list \<Rightarrow> dbObj \<Rightarrow> dbObj" where
  "db_drop_zero_refs hs db =
     db\<lparr>db_blob_refs := filter (\<lambda>r. \<not> (fst r \<in> set hs \<and> br_Refcount (snd r) = 0)) (db_blob_refs db)\<rparr>"

definition DeleteUnreferencedBlobRefs :: "store_env \<Rightarrow> HashObj list \<Rightarrow> unit sto" where
  "DeleteUnreferencedBlobRefs E hashArr =
     siter (\<lambda>hs. exec E (\<lambda>db. Inr (db_drop_zero_refs hs db))) (slices (sqlChunkSize 1) hashArr)"

definition tree_referenced :: "dbObj \<Rightarrow> HashObj \<Rightarrow> bool" where
  "tree_referenced db h = list_ex (\<lambda>v. v_TreeHash v = h) (db_rows db)"

definition TreeReferenced :: "store_env \<Rightarrow> HashObj \<Rightarrow> bool sto" where
  "TreeReferenced E h = query E (\<lambda>db. tree_referenced db h)"

section \<open>Detection, rewrite set and artifacts\<close>

definition has_version :: "dbObj \<Rightarrow> vkey \<Rightarrow> bool" where
  "has_version db k \<longleftrightarrow> map_of (db_versions db) k \<noteq> None"

definition InsertDetection :: "store_env \<Rightarrow> string \<Rightarrow> string \<Rightarrow> DetectionObj \<Rightarrow> unit sto" where
  "InsertDetection E key version detectionObj =
     exec E (\<lambda>db. if has_version db (key, version)
       then Inr (db\<lparr>db_detection := AList.update (key, version) detectionObj (db_detection db)\<rparr>)
       else Inl ErrConstraint)"

definition GetDetection :: "store_env \<Rightarrow> string \<Rightarrow> string \<Rightarrow> DetectionObj option sto" where
  "GetDetection E key version = query E (\<lambda>db. map_of (db_detection db) (key, version))"

definition db_add_rewrites :: "vkey \<Rightarrow> HashObj list \<Rightarrow> dbObj \<Rightarrow> store_error + dbObj" where
  "db_add_rewrites k hs db =
     (if has_version db k
      then Inr (db\<lparr>db_rewrite := fold (\<lambda>h tab. if (k, h) \<in> set tab then tab else tab @ [(k, h)]) hs (db_rewrite db)\<rparr>)
      else Inl ErrConstraint)"

definition InsertRewriteSet :: "store_env \<Rightarrow> string \<Rightarrow> string \<Rightarrow> HashObj list \<Rightarrow> unit sto" where
  "InsertRewriteSet E key version hashArr =
     sbind (exec E (\<lambda>db. Inr (db\<lparr>db_rewrite := filter (\<lambda>r. fst r \<noteq> (key, version)) (db_rewrite db)\<rparr>))) (\<lambda>_.
     siter (\<lambda>hs. exec E (db_add_rewrites (key, version) hs)) (slices (sqlChunkSize 3) hashArr))"

definition RewriteSet :: "store_env \<Rightarrow> string \<Rightarrow> string \<Rightarrow> HashObj list sto" where
  "RewriteSet E key version =
     query E (\<lambda>db. sort (map snd (filter (\<lambda>r. fst r = (key, version)) (db_rewrite db))))"

definition artifact_row_valid :: "ArtifactObj \<Rightarrow> bool" where
  "artifact_row_valid a \<longleftrightarrow> sql_u64 (a_SizeBytes a) \<and> a_FormatVersion a \<ge> 1 \<and>
     (a_BodySha256 a = [] \<or> length (a_BodySha256 a) = 32) \<and> (a_BodySha1 a = [] \<or> length (a_BodySha1 a) = 20)"

definition db_put_artifacts :: "vkey \<Rightarrow> ArtifactObj list \<Rightarrow> dbObj \<Rightarrow> store_error + dbObj" where
  "db_put_artifacts k arts db =
     (if has_version db k \<and> list_all artifact_row_valid arts
      then Inr (db\<lparr>db_artifacts := fold (\<lambda>a. AList.update (akey_of k a)
             (a\<lparr>a_Key := fst k, a_Version := snd k\<rparr>)) arts (db_artifacts db)\<rparr>)
      else Inl ErrConstraint)"

definition InsertArtifacts :: "store_env \<Rightarrow> string \<Rightarrow> string \<Rightarrow> ArtifactObj list \<Rightarrow> unit sto" where
  "InsertArtifacts E key version artifactArr =
     siter (\<lambda>arts. exec E (db_put_artifacts (key, version) arts)) (slices (sqlChunkSize 13) artifactArr)"

definition ArtifactPaths :: "store_env \<Rightarrow> string \<Rightarrow> string \<Rightarrow> string list sto" where
  "ArtifactPaths E key version =
     query E (\<lambda>db. filter (\<lambda>p. p \<noteq> []) (map (a_FilePath \<circ> snd)
       (filter (\<lambda>r. akey_vkey (fst r) = (key, version)) (db_artifacts db))))"

section \<open>History and historical copies\<close>

definition db_add_history ::
  "gotime \<Rightarrow> string \<Rightarrow> string \<Rightarrow> string \<Rightarrow> HashObj \<Rightarrow> HashObj \<Rightarrow> string \<Rightarrow> dbObj \<Rightarrow> dbObj" where
  "db_add_history now key version eventType treeHash bodyHash message db =
     db\<lparr>db_history := db_history db @ [\<lparr>e_id = Suc (db_historySeq db), e_ts = stored_time now, e_Key = key,
          e_Version = version, e_Type = eventType,
          e_Tree = (if IsZero treeHash then None else Some treeHash),
          e_Body = (if IsZero bodyHash then None else Some bodyHash), e_Message = message\<rparr>],
        db_historySeq := Suc (db_historySeq db)\<rparr>"

text \<open>All callers but the registration of an artifact pass no body hash; that one passes no tree.\<close>

definition AddHistory ::
  "store_env \<Rightarrow> string \<Rightarrow> string \<Rightarrow> string \<Rightarrow> HashObj \<Rightarrow> string \<Rightarrow> unit sto" where
  "AddHistory E key version eventType treeHash message =
     sbind (sget st_calls) (\<lambda>n.
     exec E (\<lambda>db. Inr (db_add_history (sv_now E n) key version eventType treeHash zero_hash message db)))"

definition AddBodyHistory :: "store_env \<Rightarrow> string \<Rightarrow> string \<Rightarrow> string \<Rightarrow> HashObj \<Rightarrow> unit sto" where
  "AddBodyHistory E key version eventType bodyHash =
     sbind (sget st_calls) (\<lambda>n.
     exec E (\<lambda>db. Inr (db_add_history (sv_now E n) key version eventType zero_hash bodyHash [] db)))"

definition db_prune_history :: "nat \<Rightarrow> dbObj \<Rightarrow> dbObj" where
  "db_prune_history maxEvents db =
     (let ids = rev (sort (map e_id (db_history db)))
      in if maxEvents < length ids
         then db\<lparr>db_history := filter (\<lambda>e. \<not> e_id e \<le> ids ! maxEvents) (db_history db)\<rparr> else db)"

definition PruneHistory :: "store_env \<Rightarrow> nat \<Rightarrow> unit sto" where
  "PruneHistory E maxEvents =
     (if maxEvents = 0 then sret () else exec E (\<lambda>db. Inr (db_prune_history (min maxEvents (2 ^ 63 - 1)) db)))"

definition historyCounterName :: "string \<Rightarrow> string" where
  "historyCounterName historyPrefix = ''history_next_version_'' @ historyPrefix"

text \<open>\<open>LIKE\<close> ignores the case of ASCII letters; the prefix has no wildcards.\<close>

definition sql_like_prefix :: "string \<Rightarrow> string \<Rightarrow> bool" where
  "sql_like_prefix pfx s = HasPrefix (map to_lower_byte s) (map to_lower_byte pfx)"

definition historical_number :: "string \<Rightarrow> VersionObj \<Rightarrow> int option" where
  "historical_number versionPrefix v =
     (if sql_like_prefix versionPrefix (v_Version v) then Atoi (TrimPrefix (v_Version v) versionPrefix) else None)"

definition max_step :: "string \<Rightarrow> VersionObj \<Rightarrow> int \<Rightarrow> int" where
  "max_step versionPrefix v m =
     (case historical_number versionPrefix v of None \<Rightarrow> m | Some n \<Rightarrow> if n > m then n else m)"

definition maxHistoricalVersion :: "store_env \<Rightarrow> string \<Rightarrow> int sto" where
  "maxHistoricalVersion E versionPrefix = query E (\<lambda>db. fold (max_step versionPrefix) (db_rows db) 0)"

definition NextHistoricalVersion :: "store_env \<Rightarrow> string \<Rightarrow> string sto" where
  "NextHistoricalVersion E historyPrefix =
     (let versionPrefix = ''v0.0.0-'' @ historyPrefix; counterName = historyCounterName historyPrefix in
      sbind (query E (\<lambda>db. map_of (db_globals db) counterName)) (\<lambda>valueText.
      sbind (case valueText of
               None \<Rightarrow> sbind (maxHistoricalVersion E versionPrefix) (\<lambda>m. sret (wrap64 (m + 1)))
             | Some t \<Rightarrow> (case Atoi t of
                  None \<Rightarrow> sfail ErrHistoryCounter
                | Some n \<Rightarrow> if n < 1 then sfail ErrHistoryCounter else sret n)) (\<lambda>nextValue.
      sbind (exec E (\<lambda>db. Inr (db\<lparr>db_globals := AList.update counterName (Itoa (wrap64 (nextValue + 1))) (db_globals db)\<rparr>))) (\<lambda>_.
      sret (versionPrefix @ Itoa nextValue)))))"

text \<open>
  \<open>INSERT ... SELECT\<close> of the rows that hang on a version, for its historical copy: without
  \<open>ON CONFLICT\<close>, so it fails when a row of the copy's key is there already.
\<close>

definition db_copy_detection :: "vkey \<Rightarrow> vkey \<Rightarrow> dbObj \<Rightarrow> store_error + dbObj" where
  "db_copy_detection k k' db =
     (case map_of (db_detection db) k of
        None \<Rightarrow> Inr db
      | Some d \<Rightarrow> if map_of (db_detection db) k' \<noteq> None then Inl ErrConstraint
                  else Inr (db\<lparr>db_detection := db_detection db @ [(k', d)]\<rparr>))"

definition db_copy_rewrites :: "vkey \<Rightarrow> vkey \<Rightarrow> dbObj \<Rightarrow> store_error + dbObj" where
  "db_copy_rewrites k k' db =
     (let rows = map (\<lambda>r. (k', snd r)) (filter (\<lambda>r. fst r = k) (db_rewrite db))
      in if list_ex (\<lambda>r. r \<in> set (db_rewrite db)) rows then Inl ErrConstraint
         else Inr (db\<lparr>db_rewrite := db_rewrite db @ rows\<rparr>))"

definition db_copy_artifacts :: "vkey \<Rightarrow> vkey \<Rightarrow> dbObj \<Rightarrow> store_error + dbObj" where
  "db_copy_artifacts k k' db =
     (let rows = map (\<lambda>(_, a). (akey_of k' a, a\<lparr>a_Version := snd k', a_FilePath := []\<rparr>))
            (filter (\<lambda>r. akey_vkey (fst r) = k) (db_artifacts db))
      in if list_ex (\<lambda>r. map_of (db_artifacts db) (fst r) \<noteq> None) rows then Inl ErrConstraint
         else Inr (db\<lparr>db_artifacts := db_artifacts db @ rows\<rparr>))"

definition historical_copy :: "VersionObj \<Rightarrow> string \<Rightarrow> VersionObj" where
  "historical_copy oldObj historicalVersion =
     oldObj\<lparr>v_ReplacedBy := v_Version oldObj, v_Version := historicalVersion, v_UpstreamSeq := 0\<rparr>"

definition CopyVersionMetadata :: "store_env \<Rightarrow> VersionObj \<Rightarrow> string \<Rightarrow> unit sto" where
  "CopyVersionMetadata E oldObj historicalVersion =
     (let k = vkey_of oldObj; k' = (v_Key oldObj, historicalVersion) in
      sbind (InsertVersion E (historical_copy oldObj historicalVersion)) (\<lambda>_.
      sbind (exec E (db_copy_detection k k')) (\<lambda>_.
      sbind (exec E (db_copy_rewrites k k')) (\<lambda>_.
      exec E (db_copy_artifacts k k')))))"

end
