(* ===== verification/Store_Pebble.thy ===== *)
theory Store_Pebble
  imports Store_Meta
begin

text \<open>
  The object store: \<open>mod/storage/pebblestore/read.go\<close>, \<open>write.go\<close> and \<open>gc.go\<close>. A batch is
  the list of its writes and is applied as a whole by a commit that succeeds. An iterator sees
  the store as it was when it was opened.
\<close>

section \<open>Reading (read.go)\<close>

definition getValue :: "store_env \<Rightarrow> bytes \<Rightarrow> bytes option sto" where
  "getValue E key = sbind (io E) (\<lambda>_. sget (\<lambda>st. map_of (st_pb st) key))"

definition verify_hash :: "store_env \<Rightarrow> HashObj \<Rightarrow> bytes \<Rightarrow> unit sto" where
  "verify_hash E h v = slift (map_err ErrHash (VerifyHash (sv_H E) h v))"

text \<open>\<open>getCopy\<close> also closes the value, which can fail.\<close>

definition readVerified :: "store_env \<Rightarrow> bytes \<Rightarrow> HashObj \<Rightarrow> bytes sto" where
  "readVerified E key h =
     sbind (getValue E key) (\<lambda>found.
     case found of None \<Rightarrow> sfail ErrObjectNotFound
     | Some v \<Rightarrow> sbind (io E) (\<lambda>_. sbind (verify_hash E h v) (\<lambda>_. sret v)))"

definition readUnverified :: "store_env \<Rightarrow> bytes \<Rightarrow> bytes sto" where
  "readUnverified E key =
     sbind (getValue E key) (\<lambda>found.
     case found of None \<Rightarrow> sfail ErrObjectNotFound | Some v \<Rightarrow> sbind (io E) (\<lambda>_. sret v))"

definition pb_ReadBlob :: "store_env \<Rightarrow> HashObj \<Rightarrow> bytes sto" where
  "pb_ReadBlob E h = readVerified E (blobKey h) h"

definition pb_ReadTree :: "store_env \<Rightarrow> HashObj \<Rightarrow> bytes sto" where
  "pb_ReadTree E h = readVerified E (treeKey h) h"

definition UseBlob :: "store_env \<Rightarrow> HashObj \<Rightarrow> (bytes \<Rightarrow> 'a sto) \<Rightarrow> 'a sto" where
  "UseBlob E h useFunc =
     sbind (getValue E (blobKey h)) (\<lambda>found.
     case found of None \<Rightarrow> sfail ErrObjectNotFound
     | Some v \<Rightarrow>
         sbind (verify_hash E h v) (\<lambda>_.
         sbind (useFunc v) (\<lambda>r.
         sbind (io E) (\<lambda>_. sret r))))"

definition storedValid :: "store_env \<Rightarrow> bytes \<Rightarrow> HashObj \<Rightarrow> bool sto" where
  "storedValid E key h =
     sbind (getValue E key) (\<lambda>found.
     case found of None \<Rightarrow> sret False
     | Some v \<Rightarrow> sbind (io E) (\<lambda>_. sret (sv_H E v = h)))"

definition MissingBlobs :: "store_env \<Rightarrow> HashObj list \<Rightarrow> HashObj list sto" where
  "MissingBlobs E hashArr =
     (if hashArr = [] then sret []
      else sbind (io E) (\<lambda>_.
           sbind (sget (\<lambda>st. filter (\<lambda>h. map_of (st_pb st) (blobKey h) = None) (sort hashArr))) (\<lambda>missing.
           sbind (io E) (\<lambda>_. sret missing))))"

section \<open>Writing (write.go)\<close>

type_synonym batchObj = "(bytes \<times> bytes option) list"

definition batch_apply :: "(bytes \<times> bytes option) \<Rightarrow> (bytes \<times> bytes) list \<Rightarrow> (bytes \<times> bytes) list" where
  "batch_apply w pb = (case snd w of Some v \<Rightarrow> AList.update (fst w) v pb | None \<Rightarrow> AList.delete (fst w) pb)"

definition batch_commit :: "store_env \<Rightarrow> batchObj \<Rightarrow> unit sto" where
  "batch_commit E ws = sbind (io E) (\<lambda>_. smod (\<lambda>st. st\<lparr>st_pb := fold batch_apply ws (st_pb st)\<rparr>))"

text \<open>The local \<open>commitBatch\<close> of \<open>writeMissingObjectsFromLoader\<close>; closing the batch can fail too.\<close>

definition commitBatch :: "store_env \<Rightarrow> batchObj \<Rightarrow> unit sto" where
  "commitBatch E ws = (if ws = [] then sret () else sbind (batch_commit E ws) (\<lambda>_. io E))"

text \<open>
  The loop over the pending objects: \<open>loadSize\<close> is the size the loader announces, \<open>fetch\<close> the
  verified value its writer adds to the batch. A full batch is committed before the next object.
\<close>

fun write_loop ::
  "store_env \<Rightarrow> (PendingObjectObj \<Rightarrow> store_error + u64) \<Rightarrow> (PendingObjectObj \<Rightarrow> bytes sto) \<Rightarrow>
   batchObj \<Rightarrow> u64 \<Rightarrow> PendingObjectObj list \<Rightarrow> unit sto" where
  "write_loop E loadSize fetch ws batchBytes [] = commitBatch E ws"
| "write_loop E loadSize fetch ws batchBytes (p # ps) =
     sbind (io E) (\<lambda>_.
     sbind (slift (loadSize p)) (\<lambda>sizeBytes.
     sbind (if length ws > 0 \<and> (length ws \<ge> cWriteBatchMaxObjects \<or> sizeBytes > NOT 0 - batchBytes \<or>
                batchBytes + sizeBytes > cWriteBatchMaxBytes)
            then sbind (commitBatch E ws) (\<lambda>_. sret ([], 0)) else sret (ws, batchBytes)) (\<lambda>(ws', bytes').
     sbind (fetch p) (\<lambda>v.
     sbind (io E) (\<lambda>_.
     if of_nat (length v) \<noteq> sizeBytes then sfail (ErrInvalid ''pending object size changed'')
     else write_loop E loadSize fetch (ws' @ [(object_key p, Some v)]) (bytes' + of_nat (length v)) ps)))))"

definition writeMissingObjects ::
  "store_env \<Rightarrow> PendingObjectsObj \<Rightarrow> (PendingObjectObj \<Rightarrow> store_error + u64) \<Rightarrow>
   (PendingObjectObj \<Rightarrow> bytes sto) \<Rightarrow> unit sto" where
  "writeMissingObjects E pendingObj loadSize fetch =
     (if po_ObjectArr pendingObj = [] then sret ()
      else write_loop E loadSize fetch [] 0 (po_ObjectArr pendingObj))"

definition pendingObjectValue ::
  "(HashObj \<times> bytes) list \<Rightarrow> bytes \<Rightarrow> HashObj \<Rightarrow> PendingObjectObj \<Rightarrow> store_error + bytes" where
  "pendingObjectValue contentByHash treeData treeHash p =
     (case fst p of
        cObjectKindBlob \<Rightarrow> (case map_of contentByHash (snd p) of
             None \<Rightarrow> Inl (ErrInvalid ''pending blob content is missing'') | Some v \<Rightarrow> Inr v)
      | cObjectKindTree \<Rightarrow>
          if snd p \<noteq> treeHash then Inl (ErrInvalid ''pending tree content is missing'') else Inr treeData)"

text \<open>\<open>setPendingObjectBytes\<close> with \<open>checkedObjectKey\<close>: the value is verified before it is added.\<close>

definition setPendingObjectBytes :: "store_env \<Rightarrow> PendingObjectObj \<Rightarrow> bytes \<Rightarrow> bytes sto" where
  "setPendingObjectBytes E p v = sbind (verify_hash E (snd p) v) (\<lambda>_. sret v)"

definition WriteMissingObjects ::
  "store_env \<Rightarrow> PendingObjectsObj \<Rightarrow> (HashObj \<times> bytes) list \<Rightarrow> bytes \<Rightarrow> HashObj \<Rightarrow> unit sto" where
  "WriteMissingObjects E pendingObj contentByHash treeData treeHash =
     writeMissingObjects E pendingObj
       (\<lambda>p. andthen (pendingObjectValue contentByHash treeData treeHash p) (\<lambda>v. Inr (of_nat (length v))))
       (\<lambda>p. sbind (slift (pendingObjectValue contentByHash treeData treeHash p)) (setPendingObjectBytes E p))"

definition pendingObjectFileSize ::
  "(HashObj \<times> u64) list \<Rightarrow> bytes \<Rightarrow> HashObj \<Rightarrow> PendingObjectObj \<Rightarrow> store_error + u64" where
  "pendingObjectFileSize fileSizes treeData treeHash p =
     (case fst p of
        cObjectKindBlob \<Rightarrow> (case map_of fileSizes (snd p) of
             None \<Rightarrow> Inl (ErrInvalid ''pending staged blob size is missing'') | Some n \<Rightarrow> Inr n)
      | cObjectKindTree \<Rightarrow>
          if snd p \<noteq> treeHash then Inl (ErrInvalid ''pending tree content is missing'')
          else Inr (of_nat (length treeData)))"

definition cMaxReadAllBytes :: u64 where "cMaxReadAllBytes = of_nat (2 ^ 63 - 2)"

text \<open>
  \<open>openFunc\<close> gives the content and the size of the opened file; \<open>io.ReadFull\<close> needs the
  announced number of bytes and reads no more.
\<close>

definition setPendingObjectOpenFile ::
  "store_env \<Rightarrow> (HashObj \<Rightarrow> (bytes \<times> u64) sto) \<Rightarrow> (HashObj \<times> u64) list \<Rightarrow> bytes \<Rightarrow> HashObj \<Rightarrow>
   PendingObjectObj \<Rightarrow> bytes sto" where
  "setPendingObjectOpenFile E openFunc fileSizes treeData treeHash p =
     (case fst p of
        cObjectKindBlob \<Rightarrow>
          (case map_of fileSizes (snd p) of
             None \<Rightarrow> sfail (ErrInvalid ''pending staged blob size is missing'')
           | Some sizeBytes \<Rightarrow>
               if sizeBytes > cMaxReadAllBytes then sfail (ErrInvalid ''pending staged blob is too large to read'')
               else sbind (openFunc (snd p)) (\<lambda>(content, openedSize).
                 if openedSize \<noteq> sizeBytes then sfail (ErrInvalid ''pending staged blob size changed'')
                 else sbind (io E) (\<lambda>_.
                   if length content < unat sizeBytes then sfail ErrCall
                   else (let v = take (unat sizeBytes) content
                         in sbind (verify_hash E (snd p) v) (\<lambda>_. sbind (io E) (\<lambda>_. sret v))))))
      | cObjectKindTree \<Rightarrow>
          if snd p \<noteq> treeHash then sfail (ErrInvalid ''pending tree content is missing'')
          else setPendingObjectBytes E p treeData)"

definition WriteMissingObjectsFromFileOpener ::
  "store_env \<Rightarrow> PendingObjectsObj \<Rightarrow> (HashObj \<Rightarrow> (bytes \<times> u64) sto) \<Rightarrow> (HashObj \<times> u64) list \<Rightarrow>
   bytes \<Rightarrow> HashObj \<Rightarrow> unit sto" where
  "WriteMissingObjectsFromFileOpener E pendingObj openFunc fileSizes treeData treeHash =
     writeMissingObjects E pendingObj (pendingObjectFileSize fileSizes treeData treeHash)
       (setPendingObjectOpenFile E openFunc fileSizes treeData treeHash)"

text \<open>
  The blobs are visited in the order of the list, which stands for the iteration order of the Go map;
  the tree comes last.
\<close>

definition pending_step ::
  "store_env \<Rightarrow> PendingObjectsObj \<Rightarrow> objectKindObj \<times> HashObj \<times> u64 \<Rightarrow> PendingObjectsObj sto" where
  "pending_step E acc x =
     (case x of (kindObj, h, sizeBytes) \<Rightarrow>
       sbind (storedValid E (objectKey kindObj h) h) (\<lambda>validFlag.
       sret (if validFlag then acc
             else \<lparr>po_SizeBytes = po_SizeBytes acc + sizeBytes, po_ObjectArr = po_ObjectArr acc @ [(kindObj, h)]\<rparr>)))"

definition PendingObjects ::
  "store_env \<Rightarrow> (HashObj \<times> u64) list \<Rightarrow> bytes \<Rightarrow> HashObj \<Rightarrow> PendingObjectsObj sto" where
  "PendingObjects E blobSizes treeData treeHash =
     sbind (sfoldl (\<lambda>acc (h, n). sbind (io E) (\<lambda>_. pending_step E acc (cObjectKindBlob, h, n)))
       \<lparr>po_SizeBytes = 0, po_ObjectArr = []\<rparr> blobSizes) (\<lambda>acc.
     pending_step E acc (cObjectKindTree, treeHash, of_nat (length treeData)))"

definition deleteKeys :: "store_env \<Rightarrow> bytes list \<Rightarrow> unit sto" where
  "deleteKeys E keyArr =
     siter (\<lambda>ks.
       sbind (siter (\<lambda>_. io E) ks) (\<lambda>_.
       sbind (batch_commit E (map (\<lambda>k. (k, None)) ks)) (\<lambda>_. io E))) (slices cDeleteBatchKeys keyArr)"

definition DeleteObjects :: "store_env \<Rightarrow> PendingObjectObj list \<Rightarrow> unit sto" where
  "DeleteObjects E objectArr = deleteKeys E (map object_key objectArr)"

definition verify_content ::
  "store_env \<Rightarrow> (HashObj \<times> bytes) list \<Rightarrow> unit sto" where
  "verify_content E contentByHash = siter (\<lambda>(h, c). sbind (io E) (\<lambda>_. verify_hash E h c)) contentByHash"

definition verify_reference ::
  "store_env \<Rightarrow> (HashObj \<times> u64) list \<Rightarrow> TreeEntryObj \<Rightarrow> (HashObj \<times> u64) list sto" where
  "verify_reference E verified e =
     sbind (io E) (\<lambda>_.
     case map_of verified (te_BlobHash e) of
       Some n \<Rightarrow> if n \<noteq> te_SizeBytes e then sfail (ErrSizeMismatch (te_BlobHash e)) else sret verified
     | None \<Rightarrow>
         sbind (map_serr (ErrMissingReference (te_BlobHash e))
            (UseBlob E (te_BlobHash e) (\<lambda>c.
               if of_nat (length c) \<noteq> te_SizeBytes e then sfail (ErrSizeMismatch (te_BlobHash e)) else sret ())))
         (\<lambda>_. sret (AList.update (te_BlobHash e) (te_SizeBytes e) verified)))"

definition VerifyReferences ::
  "store_env \<Rightarrow> TreeEntryObj list \<Rightarrow> (HashObj \<times> bytes) list \<Rightarrow> unit sto" where
  "VerifyReferences E treeArr contentByHash =
     sbind (verify_content E contentByHash) (\<lambda>_.
     sbind (sfoldl (verify_reference E) (map (\<lambda>(h, c). (h, of_nat (length c))) contentByHash) treeArr) (\<lambda>_.
     sret ()))"

section \<open>Garbage collection of the object store (gc.go)\<close>

text \<open>The keys of one prefix, in the order of the iterator.\<close>

definition prefix_keys :: "objectKindObj \<Rightarrow> (bytes \<times> bytes) list \<Rightarrow> bytes list" where
  "prefix_keys kindObj pb = sort (filter (\<lambda>k. k \<noteq> [] \<and> hd k = objectTag kindObj) (remdups (map fst pb)))"

definition garbage_key :: "objectKindObj \<Rightarrow> HashObj set \<Rightarrow> bytes \<Rightarrow> bool" where
  "garbage_key kindObj reachable k =
     (case objectHashFromKey kindObj k of None \<Rightarrow> True | Some h \<Rightarrow> h \<notin> reachable)"

fun collect_loop ::
  "store_env \<Rightarrow> objectKindObj \<Rightarrow> HashObj set \<Rightarrow> bytes list \<Rightarrow> bytes list \<Rightarrow> unit sto" where
  "collect_loop E kindObj reachable keyArr [] = sbind (io E) (\<lambda>_. deleteKeys E keyArr)"
| "collect_loop E kindObj reachable keyArr (k # ks) =
     sbind (io E) (\<lambda>_.
     (let keyArr' = (if garbage_key kindObj reachable k then keyArr @ [k] else keyArr)
      in if length keyArr' \<ge> cDeleteBatchKeys
         then sbind (deleteKeys E keyArr') (\<lambda>_. collect_loop E kindObj reachable [] ks)
         else collect_loop E kindObj reachable keyArr' ks))"

definition collectGarbagePrefix :: "store_env \<Rightarrow> objectKindObj \<Rightarrow> HashObj set \<Rightarrow> unit sto" where
  "collectGarbagePrefix E kindObj reachable =
     sbind (io E) (\<lambda>_.
     sbind (sget (\<lambda>st. prefix_keys kindObj (st_pb st))) (\<lambda>ks.
     collect_loop E kindObj reachable [] ks))"

definition pb_CollectGarbage :: "store_env \<Rightarrow> HashObj set \<Rightarrow> HashObj set \<Rightarrow> unit sto" where
  "pb_CollectGarbage E blobSet treeSet =
     sbind (collectGarbagePrefix E cObjectKindBlob blobSet) (\<lambda>_.
     collectGarbagePrefix E cObjectKindTree treeSet)"

text \<open>
  \<open>orphanCandidatesPrefix\<close> fills a batch that is shared by the two prefixes and hands it to
  \<open>yieldFunc\<close> when it is full.
\<close>

fun orphan_loop ::
  "store_env \<Rightarrow> objectKindObj \<Rightarrow> HashObj set \<Rightarrow> nat \<Rightarrow> (PendingObjectObj list \<Rightarrow> unit sto) \<Rightarrow>
   PendingObjectObj list \<Rightarrow> bytes list \<Rightarrow> PendingObjectObj list sto" where
  "orphan_loop E kindObj reachable batchSize yieldFunc batch [] = sbind (io E) (\<lambda>_. sret batch)"
| "orphan_loop E kindObj reachable batchSize yieldFunc batch (k # ks) =
     sbind (io E) (\<lambda>_.
     (case objectHashFromKey kindObj k of
        None \<Rightarrow> orphan_loop E kindObj reachable batchSize yieldFunc batch ks
      | Some h \<Rightarrow>
          if h \<in> reachable then orphan_loop E kindObj reachable batchSize yieldFunc batch ks
          else (let batch' = batch @ [(kindObj, h)]
                in if length batch' \<ge> batchSize
                   then sbind (yieldFunc batch') (\<lambda>_. orphan_loop E kindObj reachable batchSize yieldFunc [] ks)
                   else orphan_loop E kindObj reachable batchSize yieldFunc batch' ks)))"

definition OrphanCandidates ::
  "store_env \<Rightarrow> HashObj set \<Rightarrow> HashObj set \<Rightarrow> nat \<Rightarrow> (PendingObjectObj list \<Rightarrow> unit sto) \<Rightarrow> unit sto" where
  "OrphanCandidates E blobSet treeSet batchSize yieldFunc =
     sbind (sget st_pb) (\<lambda>snapshot.
     sbind (io E) (\<lambda>_.
     sbind (orphan_loop E cObjectKindBlob blobSet batchSize yieldFunc [] (prefix_keys cObjectKindBlob snapshot)) (\<lambda>batch.
     sbind (io E) (\<lambda>_.
     sbind (orphan_loop E cObjectKindTree treeSet batchSize yieldFunc batch (prefix_keys cObjectKindTree snapshot)) (\<lambda>batch'.
     if batch' = [] then sret () else yieldFunc batch')))))"

end
