(* ===== verification/Store_Ops.thy ===== *)
theory Store_Ops
  imports Store_Pebble
begin

text \<open>
  Deleting versions and keeping the durable store within its quota:
  \<open>mod/storage/pebble.go\<close>, \<open>version_mutation.go\<close> and \<open>quota.go\<close>. All operations run under
  \<open>writeMu\<close>, so they are atomic with respect to each other; what a failed call leaves behind is
  the state of the model after the error. The hot artifact cache (files beside the store, which
  are rebuilt on demand) is not part of the state: removing a hot path has no effect here.
\<close>

section \<open>Trees and pending objects (pebble.go)\<close>

definition readTreeInternal :: "store_env \<Rightarrow> HashObj \<Rightarrow> TreeEntryObj list sto" where
  "readTreeInternal E h = sbind (pb_ReadTree E h) (\<lambda>d. slift (map_err ErrTree (Decode d)))"

definition pendingObjectReferenced :: "store_env \<Rightarrow> PendingObjectObj \<Rightarrow> bool sto" where
  "pendingObjectReferenced E p =
     (case fst p of cObjectKindBlob \<Rightarrow> BlobReferenced E (snd p) | cObjectKindTree \<Rightarrow> TreeReferenced E (snd p))"

definition unreferenced_objects :: "store_env \<Rightarrow> PendingObjectObj list \<Rightarrow> PendingObjectObj list sto" where
  "unreferenced_objects E objs =
     sfoldl (\<lambda>acc p. sbind (pendingObjectReferenced E p) (\<lambda>r. sret (if r then acc else acc @ [p]))) [] objs"

definition cleanupUnreferencedPendingObjects :: "store_env \<Rightarrow> PendingObjectsObj \<Rightarrow> unit sto" where
  "cleanupUnreferencedPendingObjects E pendingObj =
     (if po_ObjectArr pendingObj = [] then sret ()
      else sbind (unreferenced_objects E (po_ObjectArr pendingObj)) (DeleteObjects E))"

text \<open>The clean-up runs on a context of its own; the cause is returned in any case.\<close>

definition cleanupPublishFailure :: "store_env \<Rightarrow> PendingObjectsObj \<Rightarrow> store_error \<Rightarrow> 'a sto" where
  "cleanupPublishFailure E pendingObj cause st =
     (case cleanupUnreferencedPendingObjects E pendingObj st of
        (Inl e, st') \<Rightarrow> (Inl (ErrCleanup cause e), st')
      | (Inr _, st') \<Rightarrow> (Inl cause, st'))"

section \<open>Deleting a version (version_mutation.go)\<close>

definition deleteVersionTx :: "store_env \<Rightarrow> VersionObj \<Rightarrow> TreeEntryObj list \<Rightarrow> unit sto" where
  "deleteVersionTx E versionObj treeArr =
     sbind (SubtractBlobRefs E treeArr) (\<lambda>_. DeleteVersionRow E (v_Key versionObj) (v_Version versionObj))"

definition treePayloadEstimate :: "TreeEntryObj list \<Rightarrow> store_error + u64" where
  "treePayloadEstimate treeArr =
     andthen (CountBlobRefs treeArr) (\<lambda>refs. Inr (sum_list (map (br_SizeBytes \<circ> snd) refs)))"

definition first_occurrences :: "'a list \<Rightarrow> 'a list" where
  "first_occurrences xs = rev (remdups (rev xs))"

definition cleanupDeletedObjectsLocked :: "store_env \<Rightarrow> HashObj \<Rightarrow> TreeEntryObj list \<Rightarrow> unit sto" where
  "cleanupDeletedObjectsLocked E treeHash treeArr =
     sbind (TreeReferenced E treeHash) (\<lambda>treeReferencedFlag.
     sbind (UnreferencedBlobs E (first_occurrences (map te_BlobHash treeArr))) (\<lambda>unreferencedArr.
     sbind (DeleteUnreferencedBlobRefs E unreferencedArr) (\<lambda>_.
     DeleteObjects E ((if treeReferencedFlag then [] else [PendingTree treeHash]) @ map PendingBlob unreferencedArr))))"

definition smallIDPattern :: "string \<Rightarrow> bool" where
  "smallIDPattern s \<longleftrightarrow> s \<noteq> [] \<and> length s \<le> 64 \<and>
     (let alnum = (\<lambda>c. is_digit c \<or> byte_in 97 122 c)
      in alnum (hd s) \<and> list_all (\<lambda>c. alnum c \<or> c = CHR ''.'' \<or> c = CHR ''_'' \<or> c = CHR ''-'') (tl s))"

definition cMaxEventTypeBytes :: nat where "cMaxEventTypeBytes = 64"

text \<open>\<open>validateEventType\<close> of \<open>validate.go\<close>.\<close>

definition validateEventType :: "string \<Rightarrow> store_error + string" where
  "validateEventType text' =
     (let trimmed = TrimSpace text'; v = (if trimmed = [] then ''publish'' else trimmed)
      in guard (length v > cMaxEventTypeBytes) (ErrInvalid ''event_type size'')
        (guard (\<not> smallIDPattern v) (ErrInvalid ''event_type'') (Inr v)))"

definition deleteVersionLocked :: "store_env \<Rightarrow> string \<Rightarrow> string \<Rightarrow> (bool \<times> u64) sto" where
  "deleteVersionLocked E key version =
     sbind (slift (validateEventType ''delete'')) (\<lambda>eventType.
     sbind (GetVersion E key version) (\<lambda>found.
     case found of None \<Rightarrow> sret (False, 0)
     | Some versionObj \<Rightarrow>
         sbind (readTreeInternal E (v_TreeHash versionObj)) (\<lambda>treeArr.
         sbind (slift (treePayloadEstimate treeArr)) (\<lambda>estimateBytes.
         sbind (WithTx E
           (sbind (ArtifactPaths E key version) (\<lambda>_.
            sbind (deleteVersionTx E versionObj treeArr) (\<lambda>_.
            AddHistory E key version eventType (v_TreeHash versionObj) [])))) (\<lambda>_.
         sbind (cleanupDeletedObjectsLocked E (v_TreeHash versionObj) treeArr) (\<lambda>_.
         sret (True, estimateBytes)))))))"

section \<open>Protected objects and the quota (quota.go)\<close>

definition cQuotaEvictPageSize :: nat where "cQuotaEvictPageSize = 1024"

record protectedObjectsObj =
  pr_blobs :: "HashObj list"
  pr_trees :: "HashObj list"

definition protectTreeObjects :: "HashObj \<Rightarrow> TreeEntryObj list \<Rightarrow> protectedObjectsObj" where
  "protectTreeObjects treeHash treeArr = \<lparr>pr_blobs = map te_BlobHash treeArr, pr_trees = [treeHash]\<rparr>"

definition versionProtected :: "store_env \<Rightarrow> VersionObj \<Rightarrow> protectedObjectsObj \<Rightarrow> bool sto" where
  "versionProtected E versionObj prot =
     (if pr_trees prot = [] \<and> pr_blobs prot = [] then sret False
      else if v_TreeHash versionObj \<in> set (pr_trees prot) then sret True
      else if pr_blobs prot = [] then sret False
      else sbind (readTreeInternal E (v_TreeHash versionObj)) (\<lambda>treeArr.
        sret (list_ex (\<lambda>e. te_BlobHash e \<in> set (pr_blobs prot)) treeArr)))"

text \<open>One key: the first \<open>retainValue\<close> versions are retained, what exceeds \<open>maxVersions\<close> goes.\<close>

fun prune_delete :: "store_env \<Rightarrow> protectedObjectsObj \<Rightarrow> VersionObj list \<Rightarrow> unit sto" where
  "prune_delete E prot [] = sret ()"
| "prune_delete E prot (v # vs) =
     sbind (versionProtected E v prot) (\<lambda>protectedFlag.
     sbind (if protectedFlag then sret () else sbind (deleteVersionLocked E (v_Key v) (v_Version v)) (\<lambda>_. sret ())) (\<lambda>_.
     prune_delete E prot vs))"

definition prunePerKeyLocked ::
  "store_env \<Rightarrow> VersionObj list \<Rightarrow> nat \<Rightarrow> nat \<Rightarrow> protectedObjectsObj \<Rightarrow> vkey list \<Rightarrow> vkey list sto" where
  "prunePerKeyLocked E versionArr retainValue maxVersions prot retainObj =
     (let retainLimit = (if retainValue < length versionArr then retainValue else length versionArr);
          retainObj' = retainObj @ map vkey_of (take retainLimit versionArr);
          activeArr = drop retainLimit versionArr;
          keptCount = retainLimit + length activeArr
      in if maxVersions = 0 \<or> keptCount \<le> maxVersions then sret retainObj'
         else sbind (prune_delete E prot (drop (length activeArr - (keptCount - maxVersions)) activeArr))
           (\<lambda>_. sret retainObj'))"

definition prune_key ::
  "store_env \<Rightarrow> nat \<Rightarrow> nat \<Rightarrow> protectedObjectsObj \<Rightarrow> vkey list \<Rightarrow> string \<Rightarrow> vkey list sto" where
  "prune_key E retainValue maxVersions prot retainObj keyText =
     sbind (ListVersions E keyText True) (\<lambda>versionArr.
     prunePerKeyLocked E versionArr retainValue maxVersions prot retainObj)"

text \<open>
  The loop over the pages of keys. The cursor grows with every page, so \<open>fuel\<close> bounds the number
  of pages; \<open>None\<close> stands for a loop that has not returned.
\<close>

fun prune_loop ::
  "nat \<Rightarrow> store_env \<Rightarrow> nat \<Rightarrow> nat \<Rightarrow> protectedObjectsObj \<Rightarrow> string \<Rightarrow> vkey list \<Rightarrow> vkey list option sto" where
  "prune_loop 0 E retainValue maxVersions prot afterKey retainObj = sret None"
| "prune_loop (Suc fuel) E retainValue maxVersions prot afterKey retainObj =
     sbind (io E) (\<lambda>_.
     sbind (DistinctVersionKeys E afterKey cQuotaEvictPageSize) (\<lambda>keyArr.
     if keyArr = [] then sret (Some retainObj)
     else sbind (sfoldl (prune_key E retainValue maxVersions prot) retainObj keyArr) (\<lambda>retainObj'.
       if length keyArr < cQuotaEvictPageSize then sret (Some retainObj')
       else prune_loop fuel E retainValue maxVersions prot (last keyArr) retainObj')))"

definition evictPrunableVersionsLocked ::
  "nat \<Rightarrow> store_env \<Rightarrow> nat \<Rightarrow> nat \<Rightarrow> protectedObjectsObj \<Rightarrow> vkey list option sto" where
  "evictPrunableVersionsLocked fuel E retainValue maxVersions prot =
     (let maxVersions' = (if maxVersions > 0 \<and> maxVersions < retainValue then retainValue else maxVersions)
      in prune_loop fuel E retainValue maxVersions' prot [] [])"

text \<open>One batch of candidates: (bytes now referenced, whether the target is reached).\<close>

fun evict_batch ::
  "store_env \<Rightarrow> u64 \<Rightarrow> protectedObjectsObj \<Rightarrow> u64 \<Rightarrow> u64 \<Rightarrow> VersionObj list \<Rightarrow> (u64 \<times> bool) sto" where
  "evict_batch E targetBytes prot currentBytes pendingEstimate [] =
     (if pendingEstimate = 0 then sret (currentBytes, currentBytes < targetBytes)
      else sbind (ReferencedBytes E) (\<lambda>measuredBytes. sret (measuredBytes, measuredBytes < targetBytes)))"
| "evict_batch E targetBytes prot currentBytes pendingEstimate (v # vs) =
     (if currentBytes < targetBytes then sret (currentBytes, True)
      else
        sbind (io E) (\<lambda>_.
        sbind (versionProtected E v prot) (\<lambda>protectedFlag.
        if protectedFlag then evict_batch E targetBytes prot currentBytes pendingEstimate vs
        else
          sbind (deleteVersionLocked E (v_Key v) (v_Version v)) (\<lambda>(deletedFlag, estimateBytes).
          if \<not> deletedFlag then evict_batch E targetBytes prot currentBytes pendingEstimate vs
          else if pendingEstimate + estimateBytes < currentBytes - targetBytes
          then evict_batch E targetBytes prot currentBytes (pendingEstimate + estimateBytes) vs
          else
            sbind (ReferencedBytes E) (\<lambda>currentBytes'.
            if currentBytes' < targetBytes then sret (currentBytes', True)
            else evict_batch E targetBytes prot currentBytes' 0 vs)))))"

definition evictUntilTargetBatchLocked ::
  "store_env \<Rightarrow> u64 \<Rightarrow> u64 \<Rightarrow> VersionObj list \<Rightarrow> protectedObjectsObj \<Rightarrow> (u64 \<times> bool) sto" where
  "evictUntilTargetBatchLocked E targetBytes currentBytes versionArr prot =
     evict_batch E targetBytes prot currentBytes 0 versionArr"

text \<open>The scan of one page for candidates: the last version looked at, and the candidates.\<close>

fun scan_page ::
  "store_env \<Rightarrow> vkey list \<Rightarrow> protectedObjectsObj \<Rightarrow> VersionObj option \<Rightarrow> VersionObj list \<Rightarrow>
   VersionObj list \<Rightarrow> (VersionObj option \<times> VersionObj list) sto" where
  "scan_page E retainObj prot afterObj candidateArr [] = sret (afterObj, candidateArr)"
| "scan_page E retainObj prot afterObj candidateArr (v # vs) =
     (if vkey_of v \<in> set retainObj then scan_page E retainObj prot (Some v) candidateArr vs
      else sbind (versionProtected E v prot) (\<lambda>protectedFlag.
        if protectedFlag then scan_page E retainObj prot (Some v) candidateArr vs
        else if length (candidateArr @ [v]) \<ge> cQuotaEvictPageSize then sret (Some v, candidateArr @ [v])
        else scan_page E retainObj prot (Some v) (candidateArr @ [v]) vs))"

text \<open>\<open>None\<close> as the result of \<open>collect_candidates\<close> is the return from the whole function.\<close>

datatype 'a loop_result = LoopReturn | LoopNext 'a | LoopFuel

fun collect_candidates ::
  "nat \<Rightarrow> store_env \<Rightarrow> vkey list \<Rightarrow> protectedObjectsObj \<Rightarrow> VersionObj option \<Rightarrow> VersionObj list \<Rightarrow>
   (VersionObj option \<times> VersionObj list) loop_result sto" where
  "collect_candidates 0 E retainObj prot afterObj candidateArr = sret LoopFuel"
| "collect_candidates (Suc fuel) E retainObj prot afterObj candidateArr =
     (if length candidateArr < cQuotaEvictPageSize
      then
        sbind (VersionsByIngest E afterObj cQuotaEvictPageSize) (\<lambda>pageArr.
        if pageArr = [] then sret LoopReturn
        else sbind (scan_page E retainObj prot afterObj candidateArr pageArr) (\<lambda>(afterObj', candidateArr').
          if length pageArr < cQuotaEvictPageSize then sret (LoopNext (afterObj', candidateArr'))
          else collect_candidates fuel E retainObj prot afterObj' candidateArr'))
      else sret (LoopNext (afterObj, candidateArr)))"

fun evict_loop_target ::
  "nat \<Rightarrow> store_env \<Rightarrow> u64 \<Rightarrow> vkey list \<Rightarrow> protectedObjectsObj \<Rightarrow> u64 \<Rightarrow> VersionObj option \<Rightarrow> unit option sto" where
  "evict_loop_target 0 E targetBytes retainObj prot currentBytes afterObj = sret None"
| "evict_loop_target (Suc fuel) E targetBytes retainObj prot currentBytes afterObj =
     (if currentBytes < targetBytes then sret (Some ())
      else
        sbind (collect_candidates (Suc fuel) E retainObj prot afterObj []) (\<lambda>collected.
        case collected of
          LoopFuel \<Rightarrow> sret None
        | LoopReturn \<Rightarrow> sret (Some ())
        | LoopNext (afterObj', candidateArr) \<Rightarrow>
            if candidateArr = [] then sret (Some ())
            else sbind (evictUntilTargetBatchLocked E targetBytes currentBytes candidateArr prot)
              (\<lambda>(currentBytes', doneFlag).
               if doneFlag then sret (Some ())
               else evict_loop_target fuel E targetBytes retainObj prot currentBytes' afterObj')))"

definition evictUntilTargetLocked ::
  "nat \<Rightarrow> store_env \<Rightarrow> u64 \<Rightarrow> vkey list \<Rightarrow> protectedObjectsObj \<Rightarrow> unit option sto" where
  "evictUntilTargetLocked fuel E targetBytes retainObj prot =
     sbind (ReferencedBytes E) (\<lambda>currentBytes.
     if targetBytes = 0 \<or> currentBytes < targetBytes then sret (Some ())
     else evict_loop_target fuel E targetBytes retainObj prot currentBytes None)"

definition evictVersionsProtectedLocked ::
  "nat \<Rightarrow> store_env \<Rightarrow> store_cfg \<Rightarrow> u64 \<Rightarrow> protectedObjectsObj \<Rightarrow> unit option sto" where
  "evictVersionsProtectedLocked fuel E cfg targetBytes prot =
     sbind (evictPrunableVersionsLocked fuel E (cf_RetainLatestPerKey cfg) (cf_MaxVersionsPerKey cfg) prot) (\<lambda>retained.
     case retained of None \<Rightarrow> sret None
     | Some retainObj \<Rightarrow> evictUntilTargetLocked fuel E targetBytes retainObj prot)"

text \<open>\<open>evict_fuel\<close> passes are enough for both loops: see \<open>Store_Quota\<close>.\<close>

definition evict_fuel :: "storeObj \<Rightarrow> nat" where
  "evict_fuel st = Suc (Suc (length (db_versions (st_db st))))"

definition ensureDurableBudgetProtectedLocked ::
  "store_env \<Rightarrow> store_cfg \<Rightarrow> u64 \<Rightarrow> protectedObjectsObj \<Rightarrow> unit option sto" where
  "ensureDurableBudgetProtectedLocked E cfg incomingBytes prot =
     (let maxBytes = cf_MaxTotalSize cfg in
      if maxBytes = 0 then sret (Some ())
      else
        sbind (ReferencedBytes E) (\<lambda>currentBytes.
        if incomingBytes \<ge> maxBytes
        then sfail (ErrCacheQuotaExceeded QuotaAdmission currentBytes incomingBytes 0 0 maxBytes)
        else
          (let admissionBytes = maxBytes - incomingBytes in
           if currentBytes < admissionBytes then sret (Some ())
           else
             (let targetBytes = (if cf_EvictToSize cfg = 0 \<or> cf_EvictToSize cfg \<ge> admissionBytes
                                 then admissionBytes - 1 else cf_EvictToSize cfg) in
              sbind (sget evict_fuel) (\<lambda>fuel.
              sbind (evictVersionsProtectedLocked fuel E cfg targetBytes prot) (\<lambda>done.
              if done = None then sret None
              else
                sbind (ReferencedBytes E) (\<lambda>currentBytes'.
                if currentBytes' \<ge> admissionBytes
                then sfail (ErrCacheQuotaExceeded QuotaAfterEvict currentBytes' incomingBytes admissionBytes targetBytes maxBytes)
                else sret (Some ()))))))))"

text \<open>
  The physical size of the store (\<open>RealDiskBytes\<close> and the SQLite files) is measured by the
  libraries: \<open>sv_disk\<close>. Compaction and check point do not change the contents.
\<close>

definition cRealBytesCacheTTL :: gotime where "cRealBytesCacheTTL = 2 * 1000000000"
definition cHardLimitCompactMinInterval :: gotime where "cHardLimitCompactMinInterval = 30 * 1000000000"

definition realDurableBytes :: "store_env \<Rightarrow> u64 sto" where
  "realDurableBytes E st =
     (let n = sv_disk E (st_calls st); now = sv_now E (st_calls st)
      in (Inr n, st\<lparr>st_realBytes := n, st_realBytesAt := now, st_calls := Suc (st_calls st)\<rparr>))"

definition realDurableBytesCached :: "store_env \<Rightarrow> u64 sto" where
  "realDurableBytesCached E st =
     (if st_realBytesAt st \<noteq> 0 \<and> sv_now E (st_calls st) - st_realBytesAt st < cRealBytesCacheTTL
      then (Inr (st_realBytes st), st) else realDurableBytes E st)"

definition compact_and_checkpoint :: "store_env \<Rightarrow> unit sto" where
  "compact_and_checkpoint E =
     sbind (io E) (\<lambda>_. sbind (io E) (\<lambda>_.
     smod (\<lambda>st. st\<lparr>st_lastCompact := sv_now E (st_calls st)\<rparr>)))"

definition enforceDurableHardLimitLocked :: "store_env \<Rightarrow> store_cfg \<Rightarrow> unit sto" where
  "enforceDurableHardLimitLocked E cfg =
     (let maxBytes = cf_MaxTotalSize cfg in
      if maxBytes = 0 then sret ()
      else
        sbind (realDurableBytesCached E) (\<lambda>cachedBytes.
        if cachedBytes \<le> maxBytes then sret ()
        else
          sbind (sget (\<lambda>st. sv_now E (st_calls st) - st_lastCompact st \<ge> cHardLimitCompactMinInterval)) (\<lambda>dueFlag.
          sbind (if dueFlag then compact_and_checkpoint E else sret ()) (\<lambda>_.
          sbind (realDurableBytes E) (\<lambda>currentBytes.
          if currentBytes \<le> maxBytes then sret ()
          else sfail (ErrCacheQuotaExceeded QuotaHardLimit currentBytes 0 0 0 maxBytes))))))"

end
