(* ===== verification/Store_Publish.thy ===== *)
theory Store_Publish
  imports Store_Ops
begin

text \<open>
  Publishing: \<open>mod/storage/validate.go\<close>, \<open>ingest.go\<close>, \<open>artifact.go\<close> (metadata),
  \<open>version_mutation.go\<close> and the publishing half of \<open>version.go\<close> (inline contents) and
  \<open>staged.go\<close> (contents in spool files).

  The publish slot (a semaphore) and \<open>beginOperation\<close> (the store is open) only admit or reject a
  call; each is one call that may fail. \<open>validateKey\<close> is a regular expression, written out. Of an
  artifact with a hot file only the metadata is kept: a hot path is checked by the file system, so
  artifacts come without one.
\<close>

section \<open>Validation (validate.go, artifact.go)\<close>

definition key_alnum :: "char \<Rightarrow> bool" where
  "key_alnum c \<longleftrightarrow> is_digit c \<or> byte_in 97 122 c"

definition key_char :: "char \<Rightarrow> bool" where
  "key_char c \<longleftrightarrow> key_alnum c \<or> c = CHR ''.'' \<or> c = CHR ''_'' \<or> c = CHR ''-''"

definition keyPattern :: "string \<Rightarrow> bool" where
  "keyPattern s \<longleftrightarrow> 3 \<le> length s \<and> length s \<le> 40 \<and> key_alnum (hd s) \<and> key_alnum (last s) \<and>
     list_all key_char (butlast (tl s))"

definition validateKey :: "string \<Rightarrow> store_error + unit" where
  "validateKey key =
     guard (\<not> keyPattern key) (ErrInvalid ''key'')
    (guard (hasWindowsReservedBase key) (ErrInvalid ''key uses a Windows reserved name'')
    (Inr ()))"

definition validateVersion :: "store_env \<Rightarrow> string \<Rightarrow> store_error + unit" where
  "validateVersion E version =
     guard (\<not> IsStorableSemver (sv_semver E) version \<and> \<not> IsStorableRawVersion (sv_semver E) version)
       (ErrInvalid ''version'') (Inr ())"

definition validateUpstreamRef :: "string \<Rightarrow> store_error + unit" where
  "validateUpstreamRef ref =
     (if ref = [] then Inr ()
      else guard (length ref \<noteq> 40 \<and> length ref \<noteq> 64) (ErrInvalid ''upstream ref length'')
          (guard (\<not> list_all (\<lambda>c. is_digit c \<or> byte_in 97 102 c) ref) (ErrInvalid ''upstream ref'')
          (Inr ())))"

definition validatePathID :: "string \<Rightarrow> store_error + unit" where
  "validatePathID v =
     guard (\<not> smallIDPattern v) (ErrInvalid ''id'')
    (guard (hasWindowsReservedBase v) (ErrInvalid ''id uses a Windows reserved name'') (Inr ()))"

definition cListenerGlobal :: string where "cListenerGlobal = ''global''"

definition validateListener :: "string \<Rightarrow> string" where
  "validateListener listenerID = (let v = TrimSpace listenerID in if v = [] then cListenerGlobal else v)"

definition validateArtifactKey :: "store_env \<Rightarrow> ArtifactObj \<Rightarrow> store_error + unit" where
  "validateArtifactKey E a =
     andthen (validatePathID (a_MaterializerID a)) (\<lambda>_.
     andthen (validatePathID (a_ArtifactKind a)) (\<lambda>_.
     andthen (validatePathID (validateListener (a_ListenerID a))) (\<lambda>_.
     andthen (validateKey (a_Key a)) (\<lambda>_.
     validateVersion E (a_Version a)))))"

definition validateEntryMode :: "string \<Rightarrow> store_error + string" where
  "validateEntryMode mode =
     (if mode = [] \<or> mode = ModeFile then Inr ModeFile
      else if mode = ModeSymlink then Inr ModeSymlink
      else Inl (ErrInvalid ''unsupported entry mode''))"

definition sto_validateEntryPath :: "string \<Rightarrow> u64 \<Rightarrow> store_error + string" where
  "sto_validateEntryPath path maxPathBytes =
     map_err ErrPath (andthen (ValidateArchiveEntryPath path maxPathBytes) (\<lambda>_. CleanArchiveEntryPath path))"

definition cMaxBlobBytesHardLimit :: u64 where "cMaxBlobBytesHardLimit = 256 * 1024 * 1024"

definition maxBlobBytes :: "store_cfg \<Rightarrow> u64" where
  "maxBlobBytes cfg =
     (let configMax = (if cf_PerFile cfg = 0 \<or> cf_PerFile cfg > cMaxBlobBytesHardLimit
                       then cMaxBlobBytesHardLimit else cf_PerFile cfg)
      in if cf_RamBytes cfg > 0 \<and> configMax > cf_RamBytes cfg then cf_RamBytes cfg else configMax)"

definition validateMaxBytes :: "string \<Rightarrow> nat \<Rightarrow> store_error + unit" where
  "validateMaxBytes v maxBytes = guard (length v > maxBytes) (ErrInvalid ''maximum size'') (Inr ())"

definition validateEvidenceJSON :: "store_env \<Rightarrow> string \<Rightarrow> store_error + string" where
  "validateEvidenceJSON E text' =
     (let trimmed = TrimSpace text'; v = (if trimmed = [] then ''{}'' else trimmed)
      in andthen (validateMaxBytes v (64 * 1024)) (\<lambda>_.
         guard (\<not> sv_json E v) (ErrInvalid ''evidence_json'') (Inr v)))"

definition validateEventMessage :: "string \<Rightarrow> store_error + unit" where
  "validateEventMessage text' = validateMaxBytes text' 4096"

definition validateReleaseNotes :: "string \<Rightarrow> store_error + unit" where
  "validateReleaseNotes text' = validateMaxBytes text' (128 * 1024)"

definition validateETag :: "string \<Rightarrow> store_error + unit" where
  "validateETag text' =
     andthen (validateMaxBytes text' 256) (\<lambda>_.
     guard (ch 13 \<in> set text' \<or> ch 10 \<in> set text') (ErrInvalid ''etag contains line break'') (Inr ()))"

definition validateDegradedReason :: "string \<Rightarrow> store_error + unit" where
  "validateDegradedReason text' = validateMaxBytes text' 1024"

definition cArtifactAbsoluteMaxBytes :: u64 where "cArtifactAbsoluteMaxBytes = 1024 * 1024 * 1024"

definition maxArtifactBytes :: "store_cfg \<Rightarrow> u64" where
  "maxArtifactBytes cfg =
     (let m1 = (if cf_Compressed cfg = 0 \<or> (cf_HotMaxSize cfg > 0 \<and> cf_HotMaxSize cfg < cf_Compressed cfg)
                then cf_HotMaxSize cfg else cf_Compressed cfg)
      in if m1 = 0 \<or> cArtifactAbsoluteMaxBytes < m1 then cArtifactAbsoluteMaxBytes else m1)"

definition etagFromHash :: "HashObj \<Rightarrow> string" where
  "etagFromHash h = CHR 0x22 # HashHex h @ [CHR 0x22]"

definition prepare_artifact :: "store_env \<Rightarrow> store_cfg \<Rightarrow> string \<Rightarrow> string \<Rightarrow> ArtifactObj \<Rightarrow> store_error + ArtifactObj" where
  "prepare_artifact E cfg key version a0 =
     (let a = a0\<lparr>a_Key := key, a_Version := version, a_ListenerID := validateListener (a_ListenerID a0),
                 a_FormatVersion := (if a_FormatVersion a0 = 0 then 1 else a_FormatVersion a0),
                 a_ETag := (if a_ETag a0 = [] then etagFromHash (a_BodyHash a0) else a_ETag a0)\<rparr>
      in andthen (validateETag (a_ETag a)) (\<lambda>_.
         andthen (validateDegradedReason (a_DegradedReason a)) (\<lambda>_.
         guard (IsZero (a_BodyHash a)) (ErrInvalid ''artifact body hash is empty'')
        (guard (maxArtifactBytes cfg > 0 \<and> a_SizeBytes a > maxArtifactBytes cfg) ErrArtifactSize
        (guard (a_FilePath a \<noteq> []) (ErrInvalid ''hot file'')
        (andthen (validateArtifactKey E a) (\<lambda>_. Inr a)))))))"

fun prepareArtifacts ::
  "store_env \<Rightarrow> store_cfg \<Rightarrow> string \<Rightarrow> string \<Rightarrow> ArtifactObj list \<Rightarrow> store_error + ArtifactObj list" where
  "prepareArtifacts E cfg key version [] = Inr []"
| "prepareArtifacts E cfg key version (a # as) =
     andthen (prepare_artifact E cfg key version a) (\<lambda>a'.
     andthen (prepareArtifacts E cfg key version as) (\<lambda>as'. Inr (a' # as')))"

section \<open>Normalisation of the entries (ingest.go)\<close>

record limitsArg =
  la_PathBytes :: u64
  la_FileBytes :: u64
  la_Files :: nat
  la_UnpackedBytes :: u64

definition entry_limits :: "store_cfg \<Rightarrow> limitsArg" where
  "entry_limits cfg = \<lparr>la_PathBytes = cf_PathBytes cfg, la_FileBytes = maxBlobBytes cfg,
     la_Files = cf_Count cfg, la_UnpackedBytes = cf_Unpacked cfg\<rparr>"

record normObj =
  no_tree :: "TreeEntryObj list"
  no_content :: "(HashObj \<times> bytes) list"
  no_sizes :: "(HashObj \<times> u64) list"
  no_total :: u64

definition normalize_entry ::
  "(bytes \<Rightarrow> HashObj) \<Rightarrow> limitsArg \<Rightarrow> normObj \<Rightarrow> InputEntryObj \<Rightarrow> store_error + normObj" where
  "normalize_entry H lim acc e =
     andthen (sto_validateEntryPath (ie_Path e) (la_PathBytes lim)) (\<lambda>pathText.
     andthen (validateEntryMode (ie_Mode e)) (\<lambda>mode.
     (let sizeBytes = (case ie_Content e of Some c \<Rightarrow> of_nat (length c) | None \<Rightarrow> ie_SizeBytes e);
          hashObj = (case ie_Content e of Some c \<Rightarrow> H c | None \<Rightarrow> ie_BlobHash e)
      in
      guard (ie_Content e = None \<and> IsZero hashObj) (ErrInvalid ''no content or blob hash'')
     (guard (la_FileBytes lim > 0 \<and> sizeBytes > la_FileBytes lim)
        (ErrArchiveLimit ''file_bytes'' (la_FileBytes lim) sizeBytes)
     (let content' = (case ie_Content e of
             Some c \<Rightarrow> if map_of (no_content acc) hashObj = None then no_content acc @ [(hashObj, c)] else no_content acc
           | None \<Rightarrow> no_content acc);
          (attempted, overflow) = saturatingAdd (no_total acc) sizeBytes
      in
      guard (\<exists>n \<in> set_option (map_of (no_sizes acc) hashObj). n \<noteq> sizeBytes) (ErrInconsistentSizes hashObj)
     (guard (la_UnpackedBytes lim > 0 \<and> (overflow \<or> attempted > la_UnpackedBytes lim))
        (ErrArchiveLimit ''unpacked_size'' (la_UnpackedBytes lim) attempted)
     (Inr \<lparr>no_tree = no_tree acc @ [\<lparr>te_Path = pathText, te_Mode = mode, te_SizeBytes = sizeBytes, te_BlobHash = hashObj\<rparr>],
           no_content = content',
           no_sizes = (if map_of (no_sizes acc) hashObj = None then no_sizes acc @ [(hashObj, sizeBytes)] else no_sizes acc),
           no_total = attempted\<rparr>)))))))"

fun normalize_from ::
  "(bytes \<Rightarrow> HashObj) \<Rightarrow> limitsArg \<Rightarrow> normObj \<Rightarrow> InputEntryObj list \<Rightarrow> store_error + normObj" where
  "normalize_from H lim acc [] = Inr acc"
| "normalize_from H lim acc (e # es) =
     andthen (normalize_entry H lim acc e) (\<lambda>acc'. normalize_from H lim acc' es)"

definition count_guard :: "limitsArg \<Rightarrow> nat \<Rightarrow> store_error + 'a \<Rightarrow> store_error + 'a" where
  "count_guard lim filesCount k =
     guard (filesCount = 0) (ErrInvalid ''entries must not be empty'')
    (guard (filesCount > MaxEntries) (ErrArchiveLimit ''entry_hard_cap'' (of_nat MaxEntries) (of_nat filesCount))
    (guard (la_Files lim > 0 \<and> filesCount > la_Files lim)
       (ErrArchiveLimit ''file_count'' (of_nat (la_Files lim)) (of_nat filesCount)) k))"

definition normalizeInputEntries ::
  "(bytes \<Rightarrow> HashObj) \<Rightarrow> limitsArg \<Rightarrow> InputEntryObj list \<Rightarrow>
   store_error + TreeEntryObj list \<times> (HashObj \<times> bytes) list" where
  "normalizeInputEntries H lim entriesArr =
     count_guard lim (length entriesArr)
       (andthen (normalize_from H lim \<lparr>no_tree = [], no_content = [], no_sizes = [], no_total = 0\<rparr> entriesArr)
          (\<lambda>acc. Inr (no_tree acc, no_content acc)))"

end
