(* ===== verification/Store_Version.thy ===== *)
theory Store_Version
  imports Store_Publish
begin

text \<open>
  Publishing and the other mutations of a version: \<open>version_mutation.go\<close> (\<open>publishTx\<close>),
  \<open>version.go\<close> and \<open>staged.go\<close>. The files of a spool are what \<open>sv_file\<close> answers, at every
  call anew, so a file may be exchanged or changed between two accesses.
\<close>

section \<open>Publishing in a transaction\<close>

definition resolveUpstreamSeq :: "store_env \<Rightarrow> PublishObj \<Rightarrow> VersionObj option \<Rightarrow> int sto" where
  "resolveUpstreamSeq E publishObj existing =
     (case existing of
        Some v \<Rightarrow> if v_UpstreamSeq v > 0 then sret (v_UpstreamSeq v)
                  else if p_UpstreamSeq publishObj > 0 then sret (p_UpstreamSeq publishObj)
                  else sbind (MaxUpstreamSeq E (p_Key publishObj)) (\<lambda>m. sret (wrap64 (m + 1)))
      | None \<Rightarrow> if p_UpstreamSeq publishObj > 0 then sret (p_UpstreamSeq publishObj)
                else sbind (MaxUpstreamSeq E (p_Key publishObj)) (\<lambda>m. sret (wrap64 (m + 1))))"

definition publish_result :: "PublishObj \<Rightarrow> HashObj \<Rightarrow> PublishResultObj" where
  "publish_result p treeHash = \<lparr>r_Key = p_Key p, r_Version = p_Version p, r_TreeHash = treeHash,
     r_Published = False, r_Skipped = False, r_Historical = []\<rparr>"

text \<open>What happens to the row that is replaced: a historical copy, or its removal.\<close>

definition replace_existing ::
  "store_env \<Rightarrow> store_cfg \<Rightarrow> PublishObj \<Rightarrow> VersionObj \<Rightarrow> TreeEntryObj list \<Rightarrow> string sto" where
  "replace_existing E cfg publishObj existingObj existingTreeArr =
     (if cf_Mutation cfg = MutationHistory
      then
        sbind (NextHistoricalVersion E (cf_HistoryPrefix cfg)) (\<lambda>historicalVersion.
        sbind (CopyVersionMetadata E existingObj historicalVersion) (\<lambda>_.
        sbind (DeleteVersionRow E (p_Key publishObj) (p_Version publishObj)) (\<lambda>_.
        sret historicalVersion)))
      else sbind (deleteVersionTx E existingObj existingTreeArr) (\<lambda>_. sret []))"

definition new_row :: "gotime \<Rightarrow> PublishObj \<Rightarrow> HashObj \<Rightarrow> int \<Rightarrow> VersionObj" where
  "new_row now p treeHash seq =
     (NewVersion now (p_Key p) (p_Version p) (p_SourceHash p) (p_SourceSizeBytes p) treeHash (p_UpstreamDeleted p))
       \<lparr>v_ReleaseNotes := p_ReleaseNotes p, v_HealPending := p_HealPending p, v_UpstreamRef := p_UpstreamRef p,
        v_VerifiedTS := p_VerifiedTS p, v_UpstreamSeq := seq\<rparr>"

definition insert_published ::
  "store_env \<Rightarrow> PublishObj \<Rightarrow> TreeEntryObj list \<Rightarrow> HashObj \<Rightarrow> VersionObj option \<Rightarrow> unit sto" where
  "insert_published E publishObj treeArr treeHash existing =
     sbind (sget (\<lambda>st. sv_now E (st_calls st))) (\<lambda>now.
     sbind (resolveUpstreamSeq E publishObj existing) (\<lambda>seqValue.
     sbind (InsertVersion E (new_row now publishObj treeHash seqValue)) (\<lambda>_.
     sbind (AddBlobRefs E treeArr) (\<lambda>_.
     sbind (InsertDetection E (p_Key publishObj) (p_Version publishObj) (p_Detection publishObj)) (\<lambda>_.
     sbind (InsertRewriteSet E (p_Key publishObj) (p_Version publishObj) (p_RewriteBlobs publishObj)) (\<lambda>_.
     sbind (InsertArtifacts E (p_Key publishObj) (p_Version publishObj) (p_Artifacts publishObj)) (\<lambda>_.
     AddHistory E (p_Key publishObj) (p_Version publishObj) (p_EventType publishObj) treeHash
       (p_EventMessage publishObj))))))))"

definition publishTx ::
  "store_env \<Rightarrow> store_cfg \<Rightarrow> PublishObj \<Rightarrow> TreeEntryObj list \<Rightarrow> HashObj \<Rightarrow> VersionObj option \<Rightarrow>
   TreeEntryObj list \<Rightarrow> PublishResultObj sto" where
  "publishTx E cfg publishObj treeArr treeHash existing existingTreeArr =
     (case existing of
        Some existingObj \<Rightarrow>
          if v_TreeHash existingObj = treeHash
          then sret ((publish_result publishObj treeHash)\<lparr>r_Skipped := True\<rparr>)
          else
            sbind (replace_existing E cfg publishObj existingObj existingTreeArr) (\<lambda>historical.
            sbind (insert_published E publishObj treeArr treeHash existing) (\<lambda>_.
            sret ((publish_result publishObj treeHash)\<lparr>r_Historical := historical, r_Published := True\<rparr>)))
      | None \<Rightarrow>
          sbind (insert_published E publishObj treeArr treeHash existing) (\<lambda>_.
          sret ((publish_result publishObj treeHash)\<lparr>r_Published := True\<rparr>)))"

section \<open>Publishing (version.go)\<close>

definition cMaxArtifactsPerPublish :: nat where "cMaxArtifactsPerPublish = 1024"

definition validatePublishSideArrays :: "PublishObj \<Rightarrow> nat \<Rightarrow> store_error + unit" where
  "validatePublishSideArrays p maxFiles =
     guard (length (p_RewriteBlobs p) > MaxEntries)
       (ErrArchiveLimit ''rewrite_set_count'' (of_nat MaxEntries) (of_nat (length (p_RewriteBlobs p))))
    (guard (maxFiles > 0 \<and> length (p_RewriteBlobs p) > maxFiles)
       (ErrArchiveLimit ''rewrite_set_count'' (of_nat maxFiles) (of_nat (length (p_RewriteBlobs p))))
    (guard (length (p_Artifacts p) > cMaxArtifactsPerPublish)
       (ErrArchiveLimit ''artifact_metadata_count'' (of_nat cMaxArtifactsPerPublish) (of_nat (length (p_Artifacts p))))
    (Inr ())))"

definition validatePublishCommon :: "store_env \<Rightarrow> store_cfg \<Rightarrow> PublishObj \<Rightarrow> store_error + unit" where
  "validatePublishCommon E cfg p =
     andthen (validateKey (p_Key p)) (\<lambda>_.
     andthen (validateVersion E (p_Version p)) (\<lambda>_.
     guard (IsZero (p_SourceHash p)) (ErrInvalid ''source hash is empty'')
    (andthen (validateUpstreamRef (p_UpstreamRef p)) (\<lambda>_.
     guard (cf_Compressed cfg > 0 \<and> p_SourceSizeBytes p > cf_Compressed cfg)
       (ErrArchiveLimit ''archive_size'' (cf_Compressed cfg) (p_SourceSizeBytes p)) (Inr ())))))"

definition validatePublishMetadata :: "store_env \<Rightarrow> store_cfg \<Rightarrow> PublishObj \<Rightarrow> store_error + PublishObj" where
  "validatePublishMetadata E cfg p =
     andthen (validateEvidenceJSON E (d_EvidenceJSON (p_Detection p))) (\<lambda>evidence.
     guard (list_ex IsZero (p_RewriteBlobs p)) (ErrInvalid ''rewrite_set contains empty blob hash'')
    (andthen (prepareArtifacts E cfg (p_Key p) (p_Version p) (p_Artifacts p)) (\<lambda>arts.
     andthen (validateEventType (p_EventType p)) (\<lambda>eventType.
     andthen (validateEventMessage (p_EventMessage p)) (\<lambda>_.
     andthen (validateReleaseNotes (p_ReleaseNotes p)) (\<lambda>_.
     Inr (p\<lparr>p_Detection := (p_Detection p)\<lparr>d_EvidenceJSON := evidence\<rparr>, p_Artifacts := arts,
            p_EventType := eventType\<rparr>)))))))"

text \<open>\<open>if err != nil { return cleanupPublishFailure(pending, err) }\<close>\<close>

definition or_cleanup :: "store_env \<Rightarrow> PendingObjectsObj \<Rightarrow> 'a sto \<Rightarrow> 'a sto" where
  "or_cleanup E pendingObj m st =
     (case m st of (Inr x, st') \<Rightarrow> (Inr x, st') | (Inl e, st') \<Rightarrow> cleanupPublishFailure E pendingObj e st')"

text \<open>An operation whose error is only logged.\<close>

definition logged :: "unit sto \<Rightarrow> unit sto" where
  "logged m st = (case m st of (_, st') \<Rightarrow> (Inr (), st'))"

definition commitPublish ::
  "store_env \<Rightarrow> store_cfg \<Rightarrow> PublishObj \<Rightarrow> TreeEntryObj list \<Rightarrow> HashObj \<Rightarrow> PendingObjectsObj \<Rightarrow> PublishResultObj sto" where
  "commitPublish E cfg publishObj treeArr treeHash pendingObj =
     sbind (or_cleanup E pendingObj (GetVersion E (p_Key publishObj) (p_Version publishObj))) (\<lambda>existing.
     case existing of
       Some existingObj \<Rightarrow>
         if v_TreeHash existingObj = treeHash
         then sret ((publish_result publishObj treeHash)\<lparr>r_Skipped := True\<rparr>)
         else
           sbind (or_cleanup E pendingObj (readTreeInternal E (v_TreeHash existingObj))) (\<lambda>existingTreeArr.
           sbind (or_cleanup E pendingObj
             (WithTx E (publishTx E cfg publishObj treeArr treeHash existing existingTreeArr))) (\<lambda>resultObj.
           sbind (if cf_Mutation cfg = MutationOverwrite
                  then logged (cleanupDeletedObjectsLocked E (v_TreeHash existingObj) existingTreeArr)
                  else sret ()) (\<lambda>_.
           sret resultObj)))
     | None \<Rightarrow>
         or_cleanup E pendingObj (WithTx E (publishTx E cfg publishObj treeArr treeHash None [])))"

text \<open>The part of a publication that both entry points share: the quota, the objects, the commit.\<close>

definition ensureBudget :: "store_env \<Rightarrow> store_cfg \<Rightarrow> u64 \<Rightarrow> protectedObjectsObj \<Rightarrow> unit sto" where
  "ensureBudget E cfg incomingBytes prot =
     sbind (ensureDurableBudgetProtectedLocked E cfg incomingBytes prot) (\<lambda>done.
     case done of Some _ \<Rightarrow> sret () | None \<Rightarrow> sfail ErrFuel)"

definition write_and_commit ::
  "store_env \<Rightarrow> store_cfg \<Rightarrow> PublishObj \<Rightarrow> TreeEntryObj list \<Rightarrow> bytes \<Rightarrow> HashObj \<Rightarrow> (HashObj \<times> u64) list \<Rightarrow>
   (PendingObjectsObj \<Rightarrow> unit sto) \<Rightarrow> PublishResultObj sto" where
  "write_and_commit E cfg publishObj treeArr treeData treeHash blobSizes writer =
     sbind (PendingObjects E blobSizes treeData treeHash) (\<lambda>pendingObj.
     sbind (ensureBudget E cfg (po_SizeBytes pendingObj) (protectTreeObjects treeHash treeArr)) (\<lambda>_.
     sbind (or_cleanup E pendingObj (writer pendingObj)) (\<lambda>_.
     sbind (or_cleanup E pendingObj (enforceDurableHardLimitLocked E cfg)) (\<lambda>_.
     commitPublish E cfg publishObj treeArr treeHash pendingObj))))"

definition symlinkTargetFromBytes :: "bytes \<Rightarrow> u64 \<Rightarrow> store_error + unit" where
  "symlinkTargetFromBytes d maxPathBytes =
     guard (maxPathBytes > 0 \<and> length d > unat maxPathBytes) (ErrStagedSymlinkRejected ''path limit'') (Inr ())"

definition loadSymlinkTarget :: "store_env \<Rightarrow> TreeEntryObj \<Rightarrow> (HashObj \<times> bytes) list \<Rightarrow> bytes sto" where
  "loadSymlinkTarget E e contentByHash =
     (case map_of contentByHash (te_BlobHash e) of
        Some c \<Rightarrow> if of_nat (length c) \<noteq> te_SizeBytes e then sfail (ErrSizeMismatch (te_BlobHash e)) else sret c
      | None \<Rightarrow> map_serr (ErrMissingReference (te_BlobHash e))
          (UseBlob E (te_BlobHash e) (\<lambda>c.
             if of_nat (length c) \<noteq> te_SizeBytes e then sfail (ErrSizeMismatch (te_BlobHash e)) else sret c)))"

definition verify_symlink ::
  "store_env \<Rightarrow> (HashObj \<times> bytes) list \<Rightarrow> u64 \<Rightarrow> (HashObj \<times> bytes) list \<Rightarrow> TreeEntryObj \<Rightarrow> (HashObj \<times> bytes) list sto" where
  "verify_symlink E contentByHash maxPathBytes targets e =
     sbind (io E) (\<lambda>_.
     if te_Mode e \<noteq> ModeSymlink then sret targets
     else
       sbind (case map_of targets (te_BlobHash e) of
                Some t \<Rightarrow> sret t | None \<Rightarrow> loadSymlinkTarget E e contentByHash) (\<lambda>target.
       sbind (slift (symlinkTargetFromBytes target maxPathBytes)) (\<lambda>_.
       sbind (slift (map_err (\<lambda>_. ErrStagedSymlinkRejected (te_Path e)) (SymlinkTargetWithinRoot (te_Path e) target)))
         (\<lambda>_. sret (AList.update (te_BlobHash e) target targets)))))"

definition verifySymlinkTargets ::
  "store_env \<Rightarrow> TreeEntryObj list \<Rightarrow> (HashObj \<times> bytes) list \<Rightarrow> u64 \<Rightarrow> unit sto" where
  "verifySymlinkTargets E treeArr contentByHash maxPathBytes =
     sbind (sfoldl (verify_symlink E contentByHash maxPathBytes) [] treeArr) (\<lambda>_. sret ())"

definition Publish :: "store_env \<Rightarrow> store_cfg \<Rightarrow> PublishObj \<Rightarrow> PublishResultObj sto" where
  "Publish E cfg publishObj0 =
     sbind (io E) (\<lambda>_.
     sbind (slift (validatePublishCommon E cfg publishObj0)) (\<lambda>_.
     sbind (io E) (\<lambda>_.
     sbind (slift (validatePublishSideArrays publishObj0 (cf_Count cfg))) (\<lambda>_.
     sbind (slift (normalizeInputEntries (sv_H E) (entry_limits cfg) (p_Entries publishObj0))) (\<lambda>(treeArr, contentByHash).
     sbind (slift (map_err ErrTree (Encode (sv_H E) treeArr))) (\<lambda>(treeData, treeHash).
     sbind (slift (validatePublishMetadata E cfg publishObj0)) (\<lambda>publishObj.
     sbind (verifySymlinkTargets E treeArr contentByHash (cf_PathBytes cfg)) (\<lambda>_.
     sbind (VerifyReferences E treeArr contentByHash) (\<lambda>_.
     write_and_commit E cfg publishObj treeArr treeData treeHash
       (map (\<lambda>(h, c). (h, of_nat (length c))) contentByHash)
       (\<lambda>pendingObj. WriteMissingObjects E pendingObj contentByHash treeData treeHash))))))))))"

end
