(* ===== verification/Store_Staged.thy ===== *)
theory Store_Staged
  imports Store_Version
begin

text \<open>
  \<open>mod/storage/staged.go\<close>: publishing from the files of a spool. \<open>sv_file E n path\<close> is what
  the n-th call finds under \<open>path\<close>: a regular file directly in the spool, with its identity
  (device and inode) and content, or nothing usable.
\<close>

record stagedBlobFileObj =
  sf_filePath :: string
  sf_id :: nat
  sf_sizeBytes :: u64

record StagedPublishObj =
  sp_Publish :: PublishObj
  sp_Entries :: "StagedEntryObj list"
  sp_Blobs :: "StagedBlobObj list"

definition seen_file :: "store_env \<Rightarrow> string \<Rightarrow> (nat \<times> bytes) option sto" where
  "seen_file E path = sbind (io E) (\<lambda>_. sget (\<lambda>st. sv_file E (st_calls st) path))"

text \<open>The file is looked up, then opened without following links: it has to be the same file.\<close>

definition validateStagedBlobPath :: "store_env \<Rightarrow> string \<Rightarrow> (nat \<times> nat \<times> bytes) sto" where
  "validateStagedBlobPath E path =
     sbind (sguard (path = []) (ErrInvalid ''staged blob path is empty'')) (\<lambda>_.
     sbind (seen_file E path) (\<lambda>info.
     case info of None \<Rightarrow> sfail (ErrInvalid ''staged blob path is not a regular file'')
     | Some (fid, c0) \<Rightarrow>
         sbind (seen_file E path) (\<lambda>fd.
         case fd of None \<Rightarrow> sfail ErrCall
         | Some (fid', c) \<Rightarrow>
             if fid \<noteq> fid' then sfail (ErrInvalid ''staged blob path changed during validation'')
             else sret (fid, length c0, c))))"

definition verifyStagedBlobFile :: "store_env \<Rightarrow> nat \<Rightarrow> bytes \<Rightarrow> HashObj \<Rightarrow> u64 \<Rightarrow> unit sto" where
  "verifyStagedBlobFile E infoSize content h sizeBytes =
     sbind (sguard (of_nat infoSize \<noteq> sizeBytes) (ErrSizeMismatch h)) (\<lambda>_.
     sbind (io E) (\<lambda>_.
     sbind (io E) (\<lambda>_.
     sbind (sguard (of_nat (length content) \<noteq> sizeBytes) (ErrSizeMismatch h)) (\<lambda>_.
     sbind (sguard (sv_H E content \<noteq> h) (ErrHash ContentHashMismatch)) (\<lambda>_.
     io E)))))"

definition readStagedFileBytes :: "store_env \<Rightarrow> bytes \<Rightarrow> u64 \<Rightarrow> bytes sto" where
  "readStagedFileBytes E content sizeBytes =
     sbind (sguard (sizeBytes > cMaxReadAllBytes) (ErrInvalid ''staged file is too large to read'')) (\<lambda>_.
     sbind (io E) (\<lambda>_.
     sbind (io E) (\<lambda>_.
     sbind (sguard (length content \<noteq> unat sizeBytes) (ErrInvalid ''staged file size changed'')) (\<lambda>_.
     sbind (io E) (\<lambda>_. sret content)))))"

definition validateStagedSymlinkFile :: "store_env \<Rightarrow> bytes \<Rightarrow> u64 \<Rightarrow> u64 \<Rightarrow> unit sto" where
  "validateStagedSymlinkFile E content sizeBytes maxPathBytes =
     sbind (sguard (maxPathBytes > 0 \<and> sizeBytes > maxPathBytes) (ErrStagedSymlinkRejected ''path limit'')) (\<lambda>_.
     sbind (readStagedFileBytes E content sizeBytes) (\<lambda>d.
     slift (symlinkTargetFromBytes d maxPathBytes)))"

section \<open>Normalisation of staged entries\<close>

record stagedNormObj =
  sn_tree :: "TreeEntryObj list"
  sn_used :: "HashObj list"
  sn_symlinks :: "HashObj list"
  sn_total :: u64

definition normalize_staged_entry :: "limitsArg \<Rightarrow> stagedNormObj \<Rightarrow> StagedEntryObj \<Rightarrow> store_error + stagedNormObj" where
  "normalize_staged_entry lim acc e =
     andthen (sto_validateEntryPath (se_Path e) (la_PathBytes lim)) (\<lambda>pathText.
     andthen (validateEntryMode (se_Mode e)) (\<lambda>mode.
     guard (IsZero (se_BlobHash e)) (ErrInvalid ''empty blob hash'')
    (guard (la_FileBytes lim > 0 \<and> se_SizeBytes e > la_FileBytes lim)
       (ErrArchiveLimit ''file_bytes'' (la_FileBytes lim) (se_SizeBytes e))
    (let (attempted, overflow) = saturatingAdd (sn_total acc) (se_SizeBytes e)
     in guard (la_UnpackedBytes lim > 0 \<and> (overflow \<or> attempted > la_UnpackedBytes lim))
          (ErrArchiveLimit ''unpacked_size'' (la_UnpackedBytes lim) attempted)
       (Inr \<lparr>sn_tree = sn_tree acc @ [\<lparr>te_Path = pathText, te_Mode = mode, te_SizeBytes = se_SizeBytes e,
                te_BlobHash = se_BlobHash e\<rparr>],
             sn_used = List.insert (se_BlobHash e) (sn_used acc),
             sn_symlinks = (if mode = ModeSymlink then List.insert (se_BlobHash e) (sn_symlinks acc)
                            else sn_symlinks acc),
             sn_total = attempted\<rparr>)))))"

fun normalize_staged_from :: "limitsArg \<Rightarrow> stagedNormObj \<Rightarrow> StagedEntryObj list \<Rightarrow> store_error + stagedNormObj" where
  "normalize_staged_from lim acc [] = Inr acc"
| "normalize_staged_from lim acc (e # es) =
     andthen (normalize_staged_entry lim acc e) (\<lambda>acc'. normalize_staged_from lim acc' es)"

definition normalizeStagedEntries ::
  "limitsArg \<Rightarrow> StagedEntryObj list \<Rightarrow> store_error + TreeEntryObj list \<times> HashObj list \<times> HashObj list" where
  "normalizeStagedEntries lim entriesArr =
     count_guard lim (length entriesArr)
       (andthen (normalize_staged_from lim \<lparr>sn_tree = [], sn_used = [], sn_symlinks = [], sn_total = 0\<rparr> entriesArr)
          (\<lambda>acc. Inr (sn_tree acc, sn_used acc, sn_symlinks acc)))"

definition CanonicalTree ::
  "store_env \<Rightarrow> store_cfg \<Rightarrow> StagedEntryObj list \<Rightarrow> store_error + TreeEntryObj list \<times> HashObj" where
  "CanonicalTree E cfg stagedEntries =
     andthen (normalizeStagedEntries (entry_limits cfg) stagedEntries) (\<lambda>(treeArr, _, _).
     andthen (map_err ErrTree (Encode (sv_H E) treeArr)) (\<lambda>(_, treeHash). Inr (treeArr, treeHash)))"

section \<open>Staged blobs\<close>

definition prepare_staged_blob ::
  "store_env \<Rightarrow> HashObj list \<Rightarrow> HashObj list \<Rightarrow> u64 \<Rightarrow> (HashObj \<times> stagedBlobFileObj) list \<Rightarrow> StagedBlobObj \<Rightarrow>
   (HashObj \<times> stagedBlobFileObj) list sto" where
  "prepare_staged_blob E used symlinks maxPathBytes acc b =
     (let h = sb_BlobHash b in
      sbind (io E) (\<lambda>_.
      sbind (sguard (IsZero h) (ErrInvalid ''staged blob has empty hash'')) (\<lambda>_.
      sbind (sguard (h \<notin> set used) (ErrInvalid ''staged blob is not referenced by tree'')) (\<lambda>_.
      case map_of acc h of
        Some existing \<Rightarrow>
          if sf_sizeBytes existing \<noteq> sb_SizeBytes b then sfail (ErrInconsistentSizes h) else sret acc
      | None \<Rightarrow>
          sbind (validateStagedBlobPath E (sb_FilePath b)) (\<lambda>(fid, infoSize, content).
          sbind (verifyStagedBlobFile E infoSize content h (sb_SizeBytes b)) (\<lambda>_.
          sbind (if h \<in> set symlinks then validateStagedSymlinkFile E content (sb_SizeBytes b) maxPathBytes
                 else sret ()) (\<lambda>_.
          sbind (io E) (\<lambda>_.
          sret (acc @ [(h, \<lparr>sf_filePath = sb_FilePath b, sf_id = fid, sf_sizeBytes = sb_SizeBytes b\<rparr>)])))))))))"

definition prepareStagedBlobs ::
  "store_env \<Rightarrow> StagedBlobObj list \<Rightarrow> HashObj list \<Rightarrow> HashObj list \<Rightarrow> u64 \<Rightarrow> (HashObj \<times> stagedBlobFileObj) list sto" where
  "prepareStagedBlobs E blobArr used symlinks maxPathBytes =
     sfoldl (prepare_staged_blob E used symlinks maxPathBytes) [] blobArr"

definition openPreparedStagedBlob :: "store_env \<Rightarrow> stagedBlobFileObj \<Rightarrow> (bytes \<times> u64) sto" where
  "openPreparedStagedBlob E f =
     sbind (sguard (sf_filePath f = []) (ErrInvalid ''staged blob file was not prepared'')) (\<lambda>_.
     sbind (validateStagedBlobPath E (sf_filePath f)) (\<lambda>(fid, infoSize, content).
     sbind (sguard (fid \<noteq> sf_id f) (ErrInvalid ''staged blob file changed'')) (\<lambda>_.
     sbind (sguard (of_nat infoSize \<noteq> sf_sizeBytes f) (ErrInvalid ''staged blob size changed'')) (\<lambda>_.
     sret (content, sf_sizeBytes f)))))"

definition stagedBlobOpenFunc ::
  "store_env \<Rightarrow> (HashObj \<times> stagedBlobFileObj) list \<Rightarrow> HashObj \<Rightarrow> (bytes \<times> u64) sto" where
  "stagedBlobOpenFunc E blobFiles h =
     (case map_of blobFiles h of
        None \<Rightarrow> sfail (ErrInvalid ''pending staged blob file is missing'')
      | Some f \<Rightarrow> openPreparedStagedBlob E f)"

definition staged_content ::
  "store_env \<Rightarrow> (HashObj \<times> stagedBlobFileObj) list \<Rightarrow> (HashObj \<times> bytes) list \<Rightarrow> HashObj \<Rightarrow> (HashObj \<times> bytes) list sto" where
  "staged_content E blobFiles acc h =
     sbind (io E) (\<lambda>_.
     case map_of blobFiles h of
       None \<Rightarrow> sret acc
     | Some f \<Rightarrow>
         sbind (openPreparedStagedBlob E f) (\<lambda>(content, sizeBytes).
         sbind (readStagedFileBytes E content sizeBytes) (\<lambda>d.
         sbind (io E) (\<lambda>_. sret (acc @ [(h, d)])))))"

definition stagedSymlinkContent ::
  "store_env \<Rightarrow> (HashObj \<times> stagedBlobFileObj) list \<Rightarrow> HashObj list \<Rightarrow> (HashObj \<times> bytes) list sto" where
  "stagedSymlinkContent E blobFiles symlinks = sfoldl (staged_content E blobFiles) [] symlinks"

definition verify_staged_reference ::
  "store_env \<Rightarrow> (HashObj \<times> stagedBlobFileObj) list \<Rightarrow> HashObj list \<Rightarrow> u64 \<Rightarrow> (HashObj \<times> u64) list \<Rightarrow> TreeEntryObj \<Rightarrow>
   (HashObj \<times> u64) list sto" where
  "verify_staged_reference E blobFiles symlinks maxPathBytes verified e =
     (let h = te_BlobHash e in
      sbind (io E) (\<lambda>_.
      case map_of verified h of
        Some n \<Rightarrow> if n \<noteq> te_SizeBytes e then sfail (ErrSizeMismatch h) else sret verified
      | None \<Rightarrow>
          (case map_of blobFiles h of
             Some f \<Rightarrow> if sf_sizeBytes f \<noteq> te_SizeBytes e then sfail (ErrSizeMismatch h)
                       else sret (AList.update h (te_SizeBytes e) verified)
           | None \<Rightarrow>
               sbind (map_serr (ErrMissingReference h)
                 (UseBlob E h (\<lambda>c.
                    if of_nat (length c) \<noteq> te_SizeBytes e then sfail (ErrSizeMismatch h)
                    else if h \<in> set symlinks then slift (symlinkTargetFromBytes c maxPathBytes)
                    else sret ()))) (\<lambda>_.
               sret (AList.update h (te_SizeBytes e) verified)))))"

definition verifyStagedReferences ::
  "store_env \<Rightarrow> TreeEntryObj list \<Rightarrow> (HashObj \<times> stagedBlobFileObj) list \<Rightarrow> HashObj list \<Rightarrow> u64 \<Rightarrow> unit sto" where
  "verifyStagedReferences E treeArr blobFiles symlinks maxPathBytes =
     sbind (sfoldl (verify_staged_reference E blobFiles symlinks maxPathBytes) [] treeArr) (\<lambda>_. sret ())"

definition stagedBlobSizes :: "(HashObj \<times> stagedBlobFileObj) list \<Rightarrow> (HashObj \<times> u64) list" where
  "stagedBlobSizes blobFiles = map (\<lambda>(h, f). (h, sf_sizeBytes f)) blobFiles"

definition PublishStaged :: "store_env \<Rightarrow> store_cfg \<Rightarrow> StagedPublishObj \<Rightarrow> PublishResultObj sto" where
  "PublishStaged E cfg stagedObj =
     (let publishObj0 = sp_Publish stagedObj in
      sbind (io E) (\<lambda>_.
      sbind (slift (validatePublishCommon E cfg publishObj0)) (\<lambda>_.
      sbind (io E) (\<lambda>_.
      sbind (slift (validatePublishSideArrays publishObj0 (cf_Count cfg))) (\<lambda>_.
      sbind (slift (normalizeStagedEntries (entry_limits cfg) (sp_Entries stagedObj))) (\<lambda>(treeArr, used, symlinks).
      sbind (slift (map_err ErrTree (Encode (sv_H E) treeArr))) (\<lambda>(treeData, treeHash).
      sbind (prepareStagedBlobs E (sp_Blobs stagedObj) used symlinks (cf_PathBytes cfg)) (\<lambda>blobFiles.
      sbind (slift (validatePublishMetadata E cfg publishObj0)) (\<lambda>publishObj.
      sbind (stagedSymlinkContent E blobFiles symlinks) (\<lambda>symlinkContent.
      sbind (verifySymlinkTargets E treeArr symlinkContent (cf_PathBytes cfg)) (\<lambda>_.
      sbind (verifyStagedReferences E treeArr blobFiles symlinks (cf_PathBytes cfg)) (\<lambda>_.
      write_and_commit E cfg publishObj treeArr treeData treeHash (stagedBlobSizes blobFiles)
        (\<lambda>pendingObj. WriteMissingObjectsFromFileOpener E pendingObj (stagedBlobOpenFunc E blobFiles)
           (stagedBlobSizes blobFiles) treeData treeHash)))))))))))))"

section \<open>The other mutations of a version (version.go, maintenance.go)\<close>

definition valid_ref :: "store_env \<Rightarrow> string \<Rightarrow> string \<Rightarrow> unit sto" where
  "valid_ref E key version =
     sbind (io E) (\<lambda>_.
     sbind (slift (validateKey key)) (\<lambda>_. slift (validateVersion E version)))"

definition PutDetection :: "store_env \<Rightarrow> string \<Rightarrow> string \<Rightarrow> DetectionObj \<Rightarrow> unit sto" where
  "PutDetection E key version detectionObj =
     sbind (valid_ref E key version) (\<lambda>_. WithTx E (InsertDetection E key version detectionObj))"

definition DeleteVersion :: "store_env \<Rightarrow> string \<Rightarrow> string \<Rightarrow> unit sto" where
  "DeleteVersion E key version =
     sbind (valid_ref E key version) (\<lambda>_.
     sbind (deleteVersionLocked E key version) (\<lambda>_. sret ()))"

definition MarkUpstreamDeleted :: "store_env \<Rightarrow> store_cfg \<Rightarrow> string \<Rightarrow> string \<Rightarrow> unit sto" where
  "MarkUpstreamDeleted E cfg key version =
     sbind (valid_ref E key version) (\<lambda>_.
     if cf_Deletion cfg = DeletionDelete then sbind (deleteVersionLocked E key version) (\<lambda>_. sret ())
     else
       sbind (slift (validateEventType ''upstream_deleted'')) (\<lambda>eventType.
       WithTx E
         (sbind (GetVersion E key version) (\<lambda>found.
          case found of None \<Rightarrow> sret ()
          | Some versionObj \<Rightarrow>
              sbind (tx_MarkUpstreamDeleted E key version) (\<lambda>_.
              AddHistory E key version eventType (v_TreeHash versionObj) [])))))"

definition ResurrectVersion :: "store_env \<Rightarrow> string \<Rightarrow> string \<Rightarrow> unit sto" where
  "ResurrectVersion E key version =
     sbind (valid_ref E key version) (\<lambda>_.
     sbind (slift (validateEventType ''publish'')) (\<lambda>eventType.
     WithTx E
       (sbind (GetVersion E key version) (\<lambda>found.
        case found of None \<Rightarrow> sret ()
        | Some versionObj \<Rightarrow>
            if \<not> v_UpstreamDeleted versionObj then sret ()
            else
              sbind (ClearUpstreamDeleted E key version) (\<lambda>_.
              AddHistory E key version eventType (v_TreeHash versionObj) [])))))"

definition sto_TouchVersionVerified :: "store_env \<Rightarrow> string \<Rightarrow> string \<Rightarrow> gotime \<Rightarrow> string \<Rightarrow> unit sto" where
  "sto_TouchVersionVerified E key version verifiedTS upstreamRef =
     sbind (valid_ref E key version) (\<lambda>_.
     sbind (slift (validateUpstreamRef upstreamRef)) (\<lambda>_.
     WithTx E (TouchVersionVerified E key version verifiedTS upstreamRef)))"

definition SetHealPending :: "store_env \<Rightarrow> string \<Rightarrow> string \<Rightarrow> bool \<Rightarrow> unit sto" where
  "SetHealPending E key version pending =
     sbind (valid_ref E key version) (\<lambda>_. WithTx E (tx_SetHealPending E key version pending))"

fun delete_versions :: "store_env \<Rightarrow> nat \<Rightarrow> u64 \<Rightarrow> VersionObj list \<Rightarrow> (nat \<times> u64) sto" where
  "delete_versions E deletedCount reclaimedBytes [] = sret (deletedCount, reclaimedBytes)"
| "delete_versions E deletedCount reclaimedBytes (v # vs) =
     sbind (io E) (\<lambda>_.
     sbind (deleteVersionLocked E (v_Key v) (v_Version v)) (\<lambda>(deletedFlag, estimateBytes).
     if deletedFlag then delete_versions E (deletedCount + 1) (reclaimedBytes + estimateBytes) vs
     else delete_versions E deletedCount reclaimedBytes vs))"

definition DeleteKey :: "store_env \<Rightarrow> string \<Rightarrow> (nat \<times> u64) sto" where
  "DeleteKey E key =
     sbind (io E) (\<lambda>_.
     sbind (slift (validateKey key)) (\<lambda>_.
     sbind (ListVersions E key True) (\<lambda>versionArr. delete_versions E 0 0 versionArr)))"

section \<open>Reading (version.go, pebble.go)\<close>

definition sto_GetVersion :: "store_env \<Rightarrow> string \<Rightarrow> string \<Rightarrow> VersionObj option sto" where
  "sto_GetVersion E key version = sbind (valid_ref E key version) (\<lambda>_. GetVersion E key version)"

text \<open>\<open>verifyFlag\<close> is the answer of \<open>shouldVerifyDurableRead\<close>.\<close>

definition ReadBlob :: "store_env \<Rightarrow> bool \<Rightarrow> HashObj \<Rightarrow> bytes sto" where
  "ReadBlob E verifyFlag h =
     sbind (io E) (\<lambda>_. if verifyFlag then pb_ReadBlob E h else readUnverified E (blobKey h))"

definition ReadTree :: "store_env \<Rightarrow> bool \<Rightarrow> HashObj \<Rightarrow> TreeEntryObj list sto" where
  "ReadTree E verifyFlag h =
     sbind (io E) (\<lambda>_.
     sbind (if verifyFlag then pb_ReadTree E h else readUnverified E (treeKey h)) (\<lambda>d.
     slift (map_err ErrTree (Decode d))))"

definition FilterMissingBlobs :: "store_env \<Rightarrow> HashObj list \<Rightarrow> HashObj list sto" where
  "FilterMissingBlobs E hashArr = sbind (io E) (\<lambda>_. MissingBlobs E hashArr)"

end
