(* ===== verification/Store_Gc.thy ===== *)
theory Store_Gc
  imports Store_Staged
begin

text \<open>
  Garbage collection, repair and the integrity check: \<open>mod/storage/maintenance.go\<close>.

  A walk over a keyset-paged table (\<open>for { page; if short return; cursor = last }\<close>) is
  \<open>paged_walk\<close>; its \<open>fuel\<close> bounds the number of pages and \<open>None\<close> stands for a walk that has
  not returned. \<open>Store_Paging\<close> shows that one page more than there are rows is always enough.
\<close>

section \<open>Walks over pages\<close>

definition cGCCandidateBatch :: nat where "cGCCandidateBatch = 512"
definition cReachablePageSize :: nat where "cReachablePageSize = 4096"

fun paged_walk ::
  "nat \<Rightarrow> store_env \<Rightarrow> ('k option \<Rightarrow> nat \<Rightarrow> 'r list sto) \<Rightarrow> ('r \<Rightarrow> 'k) \<Rightarrow> nat \<Rightarrow> ('acc \<Rightarrow> 'r \<Rightarrow> 'acc sto) \<Rightarrow>
   'k option \<Rightarrow> 'acc \<Rightarrow> 'acc option sto" where
  "paged_walk 0 E pageFunc cursor limit step after acc = sret None"
| "paged_walk (Suc fuel) E pageFunc cursor limit step after acc =
     sbind (io E) (\<lambda>_.
     sbind (pageFunc after limit) (\<lambda>pageArr.
     sbind (sfoldl step acc pageArr) (\<lambda>acc'.
     if length pageArr < limit then sret (Some acc')
     else paged_walk fuel E pageFunc cursor limit step (Some (cursor (last pageArr))) acc')))"

definition walk_fuel :: "storeObj \<Rightarrow> nat" where
  "walk_fuel st = Suc (length (db_blob_refs (st_db st)) + length (db_versions (st_db st)))"

definition returned :: "'a option sto \<Rightarrow> 'a sto" where
  "returned m = sbind m (\<lambda>r. case r of Some x \<Rightarrow> sret x | None \<Rightarrow> sfail ErrFuel)"

definition collectHashSetPaged ::
  "nat \<Rightarrow> store_env \<Rightarrow> (HashObj option \<Rightarrow> nat \<Rightarrow> HashObj list sto) \<Rightarrow> HashObj set option sto" where
  "collectHashSetPaged fuel E pageFunc =
     paged_walk fuel E pageFunc id cReachablePageSize (\<lambda>acc h. sret (insert h acc)) None {}"

section \<open>Garbage collection\<close>

definition reachableForGC :: "store_env \<Rightarrow> (HashObj set \<times> HashObj set) sto" where
  "reachableForGC E =
     sbind (sget walk_fuel) (\<lambda>fuel.
     sbind (returned (collectHashSetPaged fuel E (BlobRefHashesPage E))) (\<lambda>blobs.
     sbind (returned (collectHashSetPaged fuel E (TreeHashesPage E))) (\<lambda>trees.
     sret (blobs, trees))))"

text \<open>Under \<open>writeMu\<close>: every candidate is checked again before it is deleted.\<close>

definition deleteOrphanBatchChecked :: "store_env \<Rightarrow> PendingObjectObj list \<Rightarrow> unit sto" where
  "deleteOrphanBatchChecked E batchArr = sbind (unreferenced_objects E batchArr) (DeleteObjects E)"

definition collectGarbage :: "store_env \<Rightarrow> unit sto" where
  "collectGarbage E =
     sbind (reachableForGC E) (\<lambda>(blobs, trees).
     OrphanCandidates E blobs trees cGCCandidateBatch (deleteOrphanBatchChecked E))"

definition CollectGarbage :: "store_env \<Rightarrow> unit sto" where
  "CollectGarbage E = sbind (io E) (\<lambda>_. collectGarbage E)"

section \<open>Repair of the reference counts\<close>

record reachObj =
  ro_refs :: "(HashObj \<times> BlobRefObj) list"
  ro_trees :: "HashObj list"

definition reach_entry ::
  "nat \<Rightarrow> (HashObj \<times> BlobRefObj) list \<Rightarrow> TreeEntryObj \<Rightarrow> store_error + (HashObj \<times> BlobRefObj) list" where
  "reach_entry treeCount refs e =
     (let b0 = (case map_of refs (te_BlobHash e) of Some b \<Rightarrow> b | None \<Rightarrow> \<lparr>br_Refcount = 0, br_SizeBytes = 0\<rparr>);
          b1 = (if br_Refcount b0 = 0 then b0\<lparr>br_SizeBytes := te_SizeBytes e\<rparr> else b0)
      in guard (te_SizeBytes e \<noteq> br_SizeBytes b1) (ErrSizeMismatch (te_BlobHash e))
        (Inr (AList.update (te_BlobHash e) (b1\<lparr>br_Refcount := br_Refcount b1 + treeCount\<rparr>) refs)))"

fun reach_entries ::
  "nat \<Rightarrow> (HashObj \<times> BlobRefObj) list \<Rightarrow> TreeEntryObj list \<Rightarrow> store_error + (HashObj \<times> BlobRefObj) list" where
  "reach_entries treeCount refs [] = Inr refs"
| "reach_entries treeCount refs (e # es) =
     andthen (reach_entry treeCount refs e) (\<lambda>refs'. reach_entries treeCount refs' es)"

definition reach_tree :: "store_env \<Rightarrow> reachObj \<Rightarrow> HashObj \<times> nat \<Rightarrow> reachObj sto" where
  "reach_tree E acc row =
     sbind (readTreeInternal E (fst row)) (\<lambda>treeArr.
     sbind (slift (reach_entries (snd row) (ro_refs acc) treeArr)) (\<lambda>refs.
     sret \<lparr>ro_refs = refs, ro_trees = ro_trees acc @ [fst row]\<rparr>))"

definition reachableObjectSet :: "store_env \<Rightarrow> reachObj sto" where
  "reachableObjectSet E =
     sbind (sget walk_fuel) (\<lambda>fuel.
     returned (paged_walk fuel E (TreeHashCountsPage E) fst cReachablePageSize (reach_tree E) None
       \<lparr>ro_refs = [], ro_trees = []\<rparr>))"

definition repairBlobRefsLocked :: "store_env \<Rightarrow> unit sto" where
  "repairBlobRefsLocked E =
     sbind (reachableObjectSet E) (\<lambda>reach.
     sbind (WithTx E (ReplaceBlobRefs E (ro_refs reach))) (\<lambda>_.
     pb_CollectGarbage E (set (map fst (ro_refs reach))) (set (ro_trees reach))))"

definition RepairBlobRefs :: "store_env \<Rightarrow> unit sto" where
  "RepairBlobRefs E = sbind (io E) (\<lambda>_. repairBlobRefsLocked E)"

section \<open>The integrity check\<close>

datatype integrity_issue =
    IssueSqlite string
  | IssueTree HashObj nat
  | IssueTreeSize HashObj HashObj
  | IssueBlob HashObj HashObj
  | IssueUnexpectedRow HashObj
  | IssueRowMismatch HashObj
  | IssueMissingRow HashObj
  | IssueKeyPrefix
  | IssueStored HashObj

record integrityObj =
  ig_errors :: "integrity_issue list"
  ig_expected :: "(HashObj \<times> BlobRefObj) list"
  ig_checked :: "HashObj list"
  ig_failed :: "HashObj list"

text \<open>A call whose error becomes a line of the report.\<close>

definition attempt :: "'a sto \<Rightarrow> (store_error + 'a) sto" where
  "attempt m st = (case m st of (r, st') \<Rightarrow> (Inr r, st'))"

definition integrity_blob :: "store_env \<Rightarrow> HashObj \<Rightarrow> integrityObj \<Rightarrow> TreeEntryObj \<Rightarrow> integrityObj sto" where
  "integrity_blob E treeHash acc e =
     (let h = te_BlobHash e in
      if h \<in> set (ig_checked acc) \<or> h \<in> set (ig_failed acc) then sret acc
      else
        sbind (attempt (UseBlob E h (\<lambda>c.
          if of_nat (length c) \<noteq> te_SizeBytes e then sfail (ErrSizeMismatch h) else sret ()))) (\<lambda>r.
        sret (if is_ok r then acc\<lparr>ig_checked := ig_checked acc @ [h]\<rparr>
              else acc\<lparr>ig_errors := ig_errors acc @ [IssueBlob h treeHash], ig_failed := ig_failed acc @ [h]\<rparr>)))"

definition integrity_entry ::
  "store_env \<Rightarrow> HashObj \<times> nat \<Rightarrow> integrityObj \<Rightarrow> TreeEntryObj \<Rightarrow> integrityObj sto" where
  "integrity_entry E row acc e =
     sbind (io E) (\<lambda>_.
     (let h = te_BlobHash e;
          b0 = (case map_of (ig_expected acc) h of Some b \<Rightarrow> b | None \<Rightarrow> \<lparr>br_Refcount = 0, br_SizeBytes = 0\<rparr>);
          b1 = (if br_Refcount b0 = 0 then b0\<lparr>br_SizeBytes := te_SizeBytes e\<rparr> else b0)
      in if br_SizeBytes b1 \<noteq> te_SizeBytes e
         then sret (acc\<lparr>ig_errors := ig_errors acc @ [IssueTreeSize h (fst row)]\<rparr>)
         else integrity_blob E (fst row)
           (acc\<lparr>ig_expected := AList.update h (b1\<lparr>br_Refcount := br_Refcount b1 + snd row\<rparr>) (ig_expected acc)\<rparr>) e))"

definition integrity_tree :: "store_env \<Rightarrow> integrityObj \<Rightarrow> HashObj \<times> nat \<Rightarrow> integrityObj sto" where
  "integrity_tree E acc row =
     sbind (attempt (readTreeInternal E (fst row))) (\<lambda>r.
     case r of
       Inl _ \<Rightarrow> sret (acc\<lparr>ig_errors := ig_errors acc @ [IssueTree (fst row) (snd row)]\<rparr>)
     | Inr treeArr \<Rightarrow> sfoldl (integrity_entry E row) acc treeArr)"

definition integrity_row :: "integrityObj \<Rightarrow> HashObj \<times> BlobRefObj \<Rightarrow> integrityObj sto" where
  "integrity_row acc row =
     (let h = fst row; failed = h \<in> set (ig_failed acc)
      in case map_of (ig_expected acc) h of
           None \<Rightarrow> sret (if failed then acc else acc\<lparr>ig_errors := ig_errors acc @ [IssueUnexpectedRow h]\<rparr>)
         | Some b \<Rightarrow>
             (let acc' = acc\<lparr>ig_expected := AList.delete h (ig_expected acc)\<rparr>
              in sret (if \<not> failed \<and> (br_Refcount (snd row) \<noteq> br_Refcount b \<or> br_SizeBytes (snd row) \<noteq> br_SizeBytes b)
                       then acc'\<lparr>ig_errors := ig_errors acc @ [IssueRowMismatch h]\<rparr> else acc')))"

definition missing_rows :: "integrityObj \<Rightarrow> integrity_issue list" where
  "missing_rows acc = map IssueMissingRow (filter (\<lambda>h. h \<notin> set (ig_failed acc)) (map fst (ig_expected acc)))"

text \<open>\<open>ForEachBlobScan\<close>: every stored blob is hashed; a blob that was reported is not reported again.\<close>

definition scan_issue :: "store_env \<Rightarrow> HashObj list \<Rightarrow> bytes \<times> bytes \<Rightarrow> integrity_issue list" where
  "scan_issue E reported kv =
     (case objectHashFromKey cObjectKindBlob (fst kv) of
        None \<Rightarrow> [IssueKeyPrefix]
      | Some h \<Rightarrow> if sv_H E (snd kv) = h \<or> h \<in> set reported then [] else [IssueStored h])"

definition scan_step ::
  "store_env \<Rightarrow> HashObj list \<Rightarrow> storeObj \<Rightarrow> integrity_issue list \<Rightarrow> bytes \<Rightarrow> integrity_issue list sto" where
  "scan_step E failed snapshot acc k =
     sbind (io E) (\<lambda>_.
     sbind (io E) (\<lambda>_.
     sret (acc @ scan_issue E failed (k, the (map_of (st_pb snapshot) k)))))"

definition ForEachBlobScan :: "store_env \<Rightarrow> HashObj list \<Rightarrow> integrity_issue list sto" where
  "ForEachBlobScan E failed =
     sbind (io E) (\<lambda>_.
     sbind (sget id) (\<lambda>snapshot.
     sbind (sfoldl (scan_step E failed snapshot) [] (prefix_keys cObjectKindBlob (st_pb snapshot))) (\<lambda>issues.
     sbind (io E) (\<lambda>_. sret issues))))"

text \<open>\<open>sqliteIssues\<close> is what the integrity check of SQLite itself reports.\<close>

definition verifyIntegrityLocked :: "store_env \<Rightarrow> string list \<Rightarrow> integrity_issue list sto" where
  "verifyIntegrityLocked E sqliteIssues =
     sbind (io E) (\<lambda>_.
     sbind (sget walk_fuel) (\<lambda>fuel.
     sbind (returned (paged_walk fuel E (TreeHashCountsPage E) fst cReachablePageSize (integrity_tree E) None
        \<lparr>ig_errors = map IssueSqlite sqliteIssues, ig_expected = [], ig_checked = [], ig_failed = []\<rparr>)) (\<lambda>acc1.
     sbind (returned (paged_walk fuel E (BlobRefsPage E) fst cReachablePageSize integrity_row None acc1)) (\<lambda>acc2.
     sbind (ForEachBlobScan E (ig_failed acc2)) (\<lambda>scanned.
     sret (ig_errors acc2 @ missing_rows acc2 @ scanned))))))"

definition VerifyIntegrity :: "store_env \<Rightarrow> string list \<Rightarrow> integrity_issue list sto" where
  "VerifyIntegrity E sqliteIssues = sbind (io E) (\<lambda>_. verifyIntegrityLocked E sqliteIssues)"

fun deletion_estimate :: "store_env \<Rightarrow> u64 \<Rightarrow> VersionObj list \<Rightarrow> u64 sto" where
  "deletion_estimate E totalBytes [] = sret totalBytes"
| "deletion_estimate E totalBytes (v # vs) =
     sbind (io E) (\<lambda>_.
     sbind (readTreeInternal E (v_TreeHash v)) (\<lambda>treeArr.
     sbind (slift (treePayloadEstimate treeArr)) (\<lambda>n. deletion_estimate E (totalBytes + n) vs)))"

definition KeyDeletionEstimate :: "store_env \<Rightarrow> string \<Rightarrow> (nat \<times> u64) sto" where
  "KeyDeletionEstimate E key =
     sbind (io E) (\<lambda>_.
     sbind (slift (validateKey key)) (\<lambda>_.
     sbind (ListVersions E key True) (\<lambda>versionArr.
     sbind (deletion_estimate E 0 versionArr) (\<lambda>n. sret (length versionArr, n)))))"

end
