(* ===== verification/Store_Frame.thy ===== *)
theory Store_Frame
  imports Store_Gc
begin

text \<open>
  What the operations of the store leave alone. \<open>reads m\<close>: \<open>m\<close> changes neither the tables nor the
  objects, whether it succeeds or fails; \<open>keeps_pb m\<close>: it does not change the objects;
  \<open>keeps_db m\<close>: it does not change the tables. The rules go along the syntax of an
  operation (collection \<open>frame\<close>).
\<close>

definition same :: "storeObj \<Rightarrow> storeObj \<Rightarrow> bool" where
  "same st st' \<longleftrightarrow> st_db st' = st_db st \<and> st_pb st' = st_pb st"

lemma same_refl [simp]: "same st st" by (simp add: same_def)
lemma same_trans: "same a b \<Longrightarrow> same b c \<Longrightarrow> same a c" by (simp add: same_def)

definition reads :: "'a sto \<Rightarrow> bool" where
  "reads m \<longleftrightarrow> (\<forall>st. same st (snd (m st)))"

definition keeps_pb :: "'a sto \<Rightarrow> bool" where
  "keeps_pb m \<longleftrightarrow> (\<forall>st. st_pb (snd (m st)) = st_pb st)"

definition keeps_db :: "'a sto \<Rightarrow> bool" where
  "keeps_db m \<longleftrightarrow> (\<forall>st. st_db (snd (m st)) = st_db st)"

named_theorems frame \<open>rules for \<open>reads\<close>, \<open>keeps_pb\<close> and \<open>keeps_db\<close>\<close>

lemma readsD: "reads m \<Longrightarrow> m st = (r, st') \<Longrightarrow> same st st'"
  by (metis reads_def snd_conv)

lemma keeps_pbD: "keeps_pb m \<Longrightarrow> m st = (r, st') \<Longrightarrow> st_pb st' = st_pb st"
  by (metis keeps_pb_def snd_conv)

lemma keeps_dbD: "keeps_db m \<Longrightarrow> m st = (r, st') \<Longrightarrow> st_db st' = st_db st"
  by (metis keeps_db_def snd_conv)

lemma reads_pb: "reads m \<Longrightarrow> keeps_pb m" by (simp add: reads_def keeps_pb_def same_def)
lemma reads_db: "reads m \<Longrightarrow> keeps_db m" by (simp add: reads_def keeps_db_def same_def)

lemma reads_bind [frame]: "reads m \<Longrightarrow> (\<And>x. reads (f x)) \<Longrightarrow> reads (sbind m f)"
  unfolding reads_def sbind_def
  by (auto split: prod.splits sum.splits) (metis same_trans snd_conv)+

lemma keeps_pb_bind [frame]: "keeps_pb m \<Longrightarrow> (\<And>x. keeps_pb (f x)) \<Longrightarrow> keeps_pb (sbind m f)"
  unfolding keeps_pb_def sbind_def
  by (auto split: prod.splits sum.splits) (metis snd_conv)+

lemma keeps_db_bind [frame]: "keeps_db m \<Longrightarrow> (\<And>x. keeps_db (f x)) \<Longrightarrow> keeps_db (sbind m f)"
  unfolding keeps_db_def sbind_def
  by (auto split: prod.splits sum.splits) (metis snd_conv)+

lemma frame_basic [frame]:
  "reads (sret x)" "reads (sfail e)" "reads (sget f)" "reads (slift r)" "reads (sguard c e)"
  by (auto simp: reads_def op_defs)

lemma frame_pb [frame]:
  "keeps_pb (sret x)" "keeps_pb (sfail e)" "keeps_pb (sget f)" "keeps_pb (slift r)" "keeps_pb (sguard c e)"
  by (auto simp: keeps_pb_def op_defs)

lemma frame_db [frame]:
  "keeps_db (sret x)" "keeps_db (sfail e)" "keeps_db (sget f)" "keeps_db (slift r)" "keeps_db (sguard c e)"
  by (auto simp: keeps_db_def op_defs)

lemma reads_if [frame]: "(c \<Longrightarrow> reads m) \<Longrightarrow> (\<not> c \<Longrightarrow> reads m') \<Longrightarrow> reads (if c then m else m')" by simp
lemma keeps_pb_if [frame]: "(c \<Longrightarrow> keeps_pb m) \<Longrightarrow> (\<not> c \<Longrightarrow> keeps_pb m') \<Longrightarrow> keeps_pb (if c then m else m')" by simp
lemma keeps_db_if [frame]: "(c \<Longrightarrow> keeps_db m) \<Longrightarrow> (\<not> c \<Longrightarrow> keeps_db m') \<Longrightarrow> keeps_db (if c then m else m')" by simp

lemma reads_option [frame]:
  "reads m \<Longrightarrow> (\<And>x. reads (f x)) \<Longrightarrow> reads (case y of None \<Rightarrow> m | Some x \<Rightarrow> f x)" by (cases y) auto
lemma keeps_pb_option [frame]:
  "keeps_pb m \<Longrightarrow> (\<And>x. keeps_pb (f x)) \<Longrightarrow> keeps_pb (case y of None \<Rightarrow> m | Some x \<Rightarrow> f x)" by (cases y) auto
lemma keeps_db_option [frame]:
  "keeps_db m \<Longrightarrow> (\<And>x. keeps_db (f x)) \<Longrightarrow> keeps_db (case y of None \<Rightarrow> m | Some x \<Rightarrow> f x)" by (cases y) auto

lemma frame_pair [frame]:
  "(\<And>a b. reads (g a b)) \<Longrightarrow> reads (case p of (a, b) \<Rightarrow> g a b)"
  "(\<And>a b. keeps_pb (g' a b)) \<Longrightarrow> keeps_pb (case p of (a, b) \<Rightarrow> g' a b)"
  "(\<And>a b. keeps_db (g'' a b)) \<Longrightarrow> keeps_db (case p of (a, b) \<Rightarrow> g'' a b)"
  by (cases p; simp)+

lemma frame_kind [frame]:
  "reads a \<Longrightarrow> reads b \<Longrightarrow> reads (case k of cObjectKindBlob \<Rightarrow> a | cObjectKindTree \<Rightarrow> b)"
  by (cases k) auto

lemma frame_sum [frame]:
  "(\<And>e. reads (f e)) \<Longrightarrow> (\<And>x. reads (g x)) \<Longrightarrow> reads (case r of Inl e \<Rightarrow> f e | Inr x \<Rightarrow> g x)"
  by (cases r) auto

lemma reads_siter [frame]: "(\<And>x. reads (f x)) \<Longrightarrow> reads (siter f xs)"
  by (induction xs) (auto intro: frame)

lemma keeps_pb_siter [frame]: "(\<And>x. keeps_pb (f x)) \<Longrightarrow> keeps_pb (siter f xs)"
  by (induction xs) (auto intro: frame)

lemma keeps_db_siter [frame]: "(\<And>x. keeps_db (f x)) \<Longrightarrow> keeps_db (siter f xs)"
  by (induction xs) (auto intro: frame)

lemma reads_sfoldl [frame]: "(\<And>acc x. reads (f acc x)) \<Longrightarrow> reads (sfoldl f acc xs)"
  by (induction xs arbitrary: acc) (auto intro: frame)

lemma keeps_db_sfoldl [frame]: "(\<And>acc x. keeps_db (f acc x)) \<Longrightarrow> keeps_db (sfoldl f acc xs)"
  by (induction xs arbitrary: acc) (auto intro: frame)

lemma reads_map_serr [frame]: "reads m \<Longrightarrow> reads (map_serr g m)"
  by (auto simp: reads_def map_serr_def split: prod.splits) (metis snd_conv)

lemma reads_attempt [frame]: "reads m \<Longrightarrow> reads (attempt m)"
  by (auto simp: reads_def attempt_def split: prod.splits) (metis snd_conv)

lemma reads_io [frame]: "reads (io E)"
  by (simp add: reads_def io_def same_def Let_def)

lemma reads_query [frame]: "reads (query E f)"
  by (auto simp: query_def intro: frame)

lemmas frame_io [frame] = reads_io [THEN reads_pb] reads_io [THEN reads_db]
  reads_query [THEN reads_pb] reads_query [THEN reads_db]

lemma exec_pb [frame]: "keeps_pb (exec E f)"
proof -
  have "keeps_pb (\<lambda>st. case f (st_db st) of Inl e \<Rightarrow> (Inl e, st) | Inr db \<Rightarrow> (Inr (), put_db db st))"
    by (auto simp: keeps_pb_def put_db_def split: sum.splits)
  then show ?thesis unfolding exec_def by (intro frame) auto
qed

lemma WithTx_pb [frame]:
  assumes "keeps_pb m" shows "keeps_pb (WithTx E m)"
proof -
  have "keeps_pb (sbind m (\<lambda>x. sbind (io E) (\<lambda>_. sret x)))" by (intro frame assms)
  then have "keeps_pb (on_error (put_db db0) (sbind m (\<lambda>x. sbind (io E) (\<lambda>_. sret x))))" for db0
    by (auto simp: keeps_pb_def on_error_def put_db_def split: prod.splits sum.splits) (metis snd_conv)+
  then show ?thesis unfolding WithTx_def by (intro frame)
qed

section \<open>Results of the readers\<close>

lemma sbindE:
  assumes "sbind m f s = (r, s')"
  obtains (err) e where "m s = (Inl e, s')" "r = Inl e"
    | (ok) x s1 where "m s = (Inr x, s1)" "f x s1 = (r, s')"
  using assms unfolding sbind_def by (auto split: prod.splits sum.splits)

lemma io_Inr: "io E st = (Inr x, st') \<longleftrightarrow> sv_ok E (st_calls st) \<and> st' = st\<lparr>st_calls := Suc (st_calls st)\<rparr>"
  by (auto simp: io_def Let_def)

lemma io_same: "io E st = (r, st') \<Longrightarrow> same st st'"
  using reads_io by (rule readsD)

lemma query_Inr: "query E f st = (Inr x, st') \<Longrightarrow> x = f (st_db st) \<and> same st st'"
  by (auto simp: query_def op_Inr io_Inr same_def)

lemma query_ok: "query E f st = (Inr x, st') \<longleftrightarrow>
    sv_ok E (st_calls st) \<and> x = f (st_db st) \<and> st' = st\<lparr>st_calls := Suc (st_calls st)\<rparr>"
  by (auto simp: query_def op_Inr io_Inr)

lemma exec_Inr: "exec E f st = (Inr x, st') \<Longrightarrow> \<exists>db. f (st_db st) = Inr db \<and> st_db st' = db \<and> st_pb st' = st_pb st"
  by (auto simp: exec_def op_Inr io_Inr put_db_def split: sum.splits)

lemma exec_Inl: "exec E f st = (Inl e, st') \<Longrightarrow> same st st'"
  by (auto simp: exec_def sbind_def io_def same_def Let_def put_db_def split: sum.splits if_splits)

lemma getValue_Inr: "getValue E k st = (Inr x, st') \<Longrightarrow> map_of (st_pb st) k = x \<and> same st st'"
  by (auto simp: getValue_def op_Inr io_Inr same_def)

lemma reads_getValue [frame]: "reads (getValue E k)"
  unfolding getValue_def by (intro frame)

lemma verify_hash_Inr: "verify_hash E h v st = (Inr x, st') \<longleftrightarrow> sv_H E v = h \<and> st' = st"
  by (auto simp: verify_hash_def slift_def VerifyHash_def)

lemma reads_verify_hash [frame]: "reads (verify_hash E h v)"
  unfolding verify_hash_def by (intro frame)

lemma reads_readVerified [frame]: "reads (readVerified E k h)"
  unfolding readVerified_def by (intro frame)

lemma readVerified_Inr:
  assumes "readVerified E k h st = (Inr d, st')"
  shows "map_of (st_pb st) k = Some d \<and> sv_H E d = h"
proof -
  obtain found s1 where g: "getValue E k st = (Inr found, s1)"
    and r: "(case found of None \<Rightarrow> sfail ErrObjectNotFound
       | Some v \<Rightarrow> sbind (io E) (\<lambda>_. sbind (verify_hash E h v) (\<lambda>_. sret v))) s1 = (Inr d, st')"
    using assms unfolding readVerified_def sbind_Inr by blast
  from r show ?thesis
    using getValue_Inr [OF g] by (cases found) (auto simp: op_Inr verify_hash_Inr)
qed

lemma reads_UseBlob [frame]: "(\<And>c. reads (f c)) \<Longrightarrow> reads (UseBlob E h f)"
  unfolding UseBlob_def by (intro frame) auto

lemma UseBlob_Inr:
  assumes "UseBlob E h f st = (Inr r, st')"
  obtains c st1 st2 where "map_of (st_pb st) (blobKey h) = Some c" "sv_H E c = h" "same st st1"
    "f c st1 = (Inr r, st2)"
proof -
  obtain found s1 where g: "getValue E (blobKey h) st = (Inr found, s1)"
    and r: "(case found of None \<Rightarrow> sfail ErrObjectNotFound
       | Some v \<Rightarrow> sbind (verify_hash E h v) (\<lambda>_. sbind (f v) (\<lambda>r. sbind (io E) (\<lambda>_. sret r)))) s1 = (Inr r, st')"
    using assms unfolding UseBlob_def sbind_Inr by blast
  from r show thesis
    using getValue_Inr [OF g] that by (cases found) (auto simp: op_Inr verify_hash_Inr)
qed

lemma reads_readTreeInternal [frame]: "reads (readTreeInternal E h)"
  unfolding readTreeInternal_def pb_ReadTree_def by (intro frame)

lemma readTreeInternal_Inr:
  assumes "readTreeInternal E h st = (Inr es, st')"
  obtains d where "map_of (st_pb st) (treeKey h) = Some d" "sv_H E d = h" "Decode d = Inr es"
proof -
  obtain d s1 where d: "readVerified E (treeKey h) h st = (Inr d, s1)" and es: "Decode d = Inr es"
    using assms unfolding readTreeInternal_def pb_ReadTree_def op_Inr by (auto simp: map_err_Inr)
  show thesis using readVerified_Inr [OF d] es that by blast
qed

lemma reads_storedValid [frame]: "reads (storedValid E k h)"
  unfolding storedValid_def by (intro frame)

lemma storedValid_Inr:
  assumes "storedValid E k h st = (Inr b, st')"
  shows "b \<longleftrightarrow> (\<exists>v. map_of (st_pb st) k = Some v \<and> sv_H E v = h)"
proof -
  obtain found s1 where g: "getValue E k st = (Inr found, s1)"
    and r: "(case found of None \<Rightarrow> sret False
       | Some v \<Rightarrow> sbind (io E) (\<lambda>_. sret (sv_H E v = h))) s1 = (Inr b, st')"
    using assms unfolding storedValid_def sbind_Inr by blast
  from r show ?thesis
    using getValue_Inr [OF g] by (cases found) (auto simp: op_Inr)
qed

lemma reads_statements [frame]:
  "reads (GetVersion E key version)" "reads (ListVersions E key incl)" "reads (DistinctVersionKeys E after lim)"
  "reads (VersionsByIngest E afterObj limit)" "reads (MaxUpstreamSeq E key)" "reads (ReferencedBytes E)"
  "reads (BlobReferenced E h)" "reads (TreeReferenced E h)" "reads (ArtifactPaths E key version)"
  "reads (BlobRefHashesPage E ah lim)" "reads (TreeHashesPage E ah lim)" "reads (TreeHashCountsPage E ah lim)"
  "reads (BlobRefsPage E ah lim)" "reads (UnreferencedBlobs E hs)" "reads (maxHistoricalVersion E pfx)"
  unfolding GetVersion_def ListVersions_def DistinctVersionKeys_def VersionsByIngest_def MaxUpstreamSeq_def
    ReferencedBytes_def BlobReferenced_def TreeReferenced_def ArtifactPaths_def BlobRefHashesPage_def
    TreeHashesPage_def TreeHashCountsPage_def BlobRefsPage_def UnreferencedBlobs_def maxHistoricalVersion_def
  by (intro frame)+

lemma reads_pendingObjectReferenced [frame]: "reads (pendingObjectReferenced E p)"
  unfolding pendingObjectReferenced_def by (intro frame)

lemma reads_unreferenced_objects [frame]: "reads (unreferenced_objects E objs)"
  unfolding unreferenced_objects_def by (intro frame)

lemma reads_versionProtected [frame]: "reads (versionProtected E v prot)"
  unfolding versionProtected_def by (intro frame)

lemma reads_PendingObjects [frame]: "reads (PendingObjects E sizes treeData treeHash)"
  unfolding PendingObjects_def pending_step_def by (intro frame)

lemma reads_VerifyReferences [frame]: "reads (VerifyReferences E treeArr content)"
  unfolding VerifyReferences_def verify_content_def verify_reference_def by (intro frame)

lemma reads_verifySymlinkTargets [frame]: "reads (verifySymlinkTargets E treeArr content maxPath)"
  unfolding verifySymlinkTargets_def verify_symlink_def loadSymlinkTarget_def by (intro frame)

lemma commands_pb [frame]:
  "keeps_pb (InsertVersion E v)" "keeps_pb (DeleteVersionRow E key version)"
  "keeps_pb (AddBlobRefs E es)" "keeps_pb (SubtractBlobRefs E es)" "keeps_pb (ReplaceBlobRefs E refs)"
  "keeps_pb (DeleteUnreferencedBlobRefs E hs)" "keeps_pb (InsertDetection E key version d)"
  "keeps_pb (InsertRewriteSet E key version hs)" "keeps_pb (InsertArtifacts E key version arts)"
  "keeps_pb (AddHistory E key version eventType h message)" "keeps_pb (CopyVersionMetadata E v hist)"
  "keeps_pb (PruneHistory E n)"
  unfolding InsertVersion_def DeleteVersionRow_def AddBlobRefs_def SubtractBlobRefs_def ReplaceBlobRefs_def
    DeleteUnreferencedBlobRefs_def InsertDetection_def InsertRewriteSet_def InsertArtifacts_def AddHistory_def
    CopyVersionMetadata_def Let_def PruneHistory_def
  by (intro frame)+

lemma batch_commit_db [frame]: "keeps_db (batch_commit E ws)"
proof -
  have "keeps_db (smod (\<lambda>st. st\<lparr>st_pb := fold batch_apply ws (st_pb st)\<rparr>))"
    by (simp add: keeps_db_def smod_def)
  then show ?thesis unfolding batch_commit_def by (intro frame)
qed

lemma DeleteObjects_db [frame]: "keeps_db (DeleteObjects E objs)"
  unfolding DeleteObjects_def deleteKeys_def by (intro frame)

lemma deleteKeys_db [frame]: "keeps_db (deleteKeys E ks)"
  unfolding deleteKeys_def by (intro frame)

end
