(* ===== verification/Store_Tables.thy ===== *)
theory Store_Tables
  imports Store_Frame
begin

text \<open>
  Lemmas on the tables and keys of the store: keys of objects are distinct for distinct objects;
  \<open>CountBlobRefs\<close> counts; adding and subtracting the counted references changes the reference
  counts by the number of occurrences, in any slicing of the rows.
\<close>

section \<open>Keys of objects\<close>

lemma objectTag_inject [simp]: "objectTag a = objectTag b \<longleftrightarrow> a = b"
  by (cases a; cases b) (auto simp: objectTag_def cBlobTag_def cTreeTag_def)

lemma objectKey_inject [simp]: "objectKey a g = objectKey b h \<longleftrightarrow> a = b \<and> g = h"
  by (auto simp: objectKey_def)

lemma blobKey_inject [simp]: "blobKey g = blobKey h \<longleftrightarrow> g = h"
  by (simp add: blobKey_def)

lemma treeKey_inject [simp]: "treeKey g = treeKey h \<longleftrightarrow> g = h"
  by (simp add: treeKey_def)

lemma blob_tree_key [simp]: "blobKey g \<noteq> treeKey h" "treeKey h \<noteq> blobKey g"
  by (simp_all add: blobKey_def treeKey_def)

lemma objectHashFromKey_objectKey [simp]: "objectHashFromKey k (objectKey k h) = Some h"
  by (simp add: objectHashFromKey_def objectKey_def cKeySize_def HashSize_def)

lemma objectHashFromKey_Some: "objectHashFromKey k x = Some h \<longleftrightarrow> x = objectKey k h"
proof
  assume a: "objectHashFromKey k x = Some h"
  then have len: "length x = cKeySize" and tag: "hd x = objectTag k"
    and tl: "HashFromBytes (tl x) = Inr h"
    by (auto simp: objectHashFromKey_def split: if_splits sum.splits)
  from len have "x \<noteq> []" by (auto simp: cKeySize_def)
  then show "x = objectKey k h"
    using tag tl by (cases x) (auto simp: objectKey_def HashFromBytes_Inr)
qed simp

lemma object_key_simps [simp]:
  "object_key (PendingBlob h) = blobKey h" "object_key (PendingTree h) = treeKey h"
  "object_key (cObjectKindBlob, h) = blobKey h" "object_key (cObjectKindTree, h) = treeKey h"
  by (simp_all add: object_key_def PendingBlob_def PendingTree_def blobKey_def treeKey_def)

section \<open>Association lists\<close>

lemma update_fresh: "map_of al k = None \<Longrightarrow> AList.update k v al = al @ [(k, v)]"
  by (induction al) (auto split: if_splits)

lemma sum_delete:
  fixes f :: "'a \<times> 'b \<Rightarrow> nat"
  assumes "distinct (map fst al)" "map_of al k = Some v"
  shows "sum_list (map f al) = f (k, v) + sum_list (map f (AList.delete k al))"
  using assms
proof (induction al)
  case (Cons x al)
  show ?case
  proof (cases "fst x = k")
    case True
    then have "k \<notin> fst ` set al" "v = snd x" using Cons.prems by auto
    then have "AList.delete k al = al" by simp
    then show ?thesis using True \<open>v = snd x\<close> by (cases x) simp
  next
    case False
    then show ?thesis using Cons by (cases x) auto
  qed
qed simp

lemma map_of_delete: "map_of (AList.delete k al) k' = (if k' = k then None else map_of al k')"
  by (simp add: AList.delete_conv')

lemma delete_subset: "set (AList.delete k al) \<subseteq> set al"
  by (auto simp: AList.delete_eq)

lemma map_of_filter_fst: "map_of (filter (\<lambda>r. P (fst r)) al) k = (if P k then map_of al k else None)"
  by (induction al) auto

lemma distinct_filter_fst: "distinct (map fst al) \<Longrightarrow> distinct (map fst (filter P al))"
  by (induction al) auto

section \<open>Counting references\<close>

definition occ :: "TreeEntryObj list \<Rightarrow> HashObj \<Rightarrow> nat" where
  "occ es h = count_list (map te_BlobHash es) h"

lemma occ_simps [simp]:
  "occ [] h = 0"
  "occ (e # es) h = (if te_BlobHash e = h then Suc (occ es h) else occ es h)"
  by (simp_all add: occ_def)

lemma occ_append [simp]: "occ (xs @ ys) h = occ xs h + occ ys h"
  by (simp add: occ_def)

lemma occ_pos: "0 < occ es h \<longleftrightarrow> (\<exists>e \<in> set es. te_BlobHash e = h)"
  by (induction es) auto

lemma occ_zero: "occ es h = 0 \<longleftrightarrow> (\<forall>e \<in> set es. te_BlobHash e \<noteq> h)"
  by (induction es) auto

lemma occ_sort_key [simp]: "occ (sort_key f es) h = occ es h"
proof -
  have c: "occ es h = size (filter_mset (\<lambda>e. te_BlobHash e = h) (mset es))" for es
    by (induction es) auto
  show ?thesis by (simp only: c mset_sort)
qed

definition rc :: "(HashObj \<times> BlobRefObj) list \<Rightarrow> HashObj \<Rightarrow> nat" where
  "rc tab h = (case map_of tab h of None \<Rightarrow> 0 | Some b \<Rightarrow> br_Refcount b)"

text \<open>\<open>refs\<close> is the table of counts of \<open>es\<close>.\<close>

definition counts :: "TreeEntryObj list \<Rightarrow> (HashObj \<times> BlobRefObj) list \<Rightarrow> bool" where
  "counts es refs \<longleftrightarrow> distinct (map fst refs) \<and> (\<forall>h. rc refs h = occ es h) \<and>
     (\<forall>h b. map_of refs h = Some b \<longrightarrow> 0 < br_Refcount b) \<and>
     (\<forall>e \<in> set es. \<exists>b. map_of refs (te_BlobHash e) = Some b \<and> br_SizeBytes b = te_SizeBytes e)"

lemma countsD:
  assumes "counts es refs"
  shows "distinct (map fst refs)" "rc refs h = occ es h" "map_of refs h = Some b \<Longrightarrow> 0 < br_Refcount b"
    "e \<in> set es \<Longrightarrow> \<exists>b. map_of refs (te_BlobHash e) = Some b \<and> br_SizeBytes b = te_SizeBytes e"
  using assms unfolding counts_def by blast+

lemma counts_None: "counts es refs \<Longrightarrow> map_of refs h = None \<Longrightarrow> occ es h = 0"
  using countsD(2) [of es refs h] by (simp add: rc_def)

lemma counts_Some: "counts es refs \<Longrightarrow> map_of refs h = Some b \<Longrightarrow> occ es h = br_Refcount b"
  using countsD(2) [of es refs h] by (simp add: rc_def)

lemma counts_update:
  assumes c: "counts es refs" and n: "n = Suc (occ es (te_BlobHash e))"
    and sz: "\<forall>e' \<in> set es. te_BlobHash e' = te_BlobHash e \<longrightarrow> te_SizeBytes e' = te_SizeBytes e"
  shows "counts (es @ [e]) (AList.update (te_BlobHash e) \<lparr>br_Refcount = n, br_SizeBytes = te_SizeBytes e\<rparr> refs)"
    (is "counts _ ?refs")
proof -
  have m: "map_of ?refs h = (if h = te_BlobHash e
      then Some \<lparr>br_Refcount = n, br_SizeBytes = te_SizeBytes e\<rparr> else map_of refs h)" for h
    by (simp add: update_conv')
  have "distinct (map fst ?refs)" using countsD(1) [OF c] by (rule distinct_update)
  moreover have "rc ?refs h = occ (es @ [e]) h" for h
  proof -
    have "rc ?refs h = (if h = te_BlobHash e then n else rc refs h)" by (simp add: rc_def m)
    then show ?thesis using countsD(2) [OF c, of h] n by simp
  qed
  moreover have "map_of ?refs h = Some b \<Longrightarrow> 0 < br_Refcount b" for h b
    using countsD(3) [OF c, of h b] n unfolding m by (auto split: if_splits)
  moreover have "\<exists>b. map_of ?refs (te_BlobHash e') = Some b \<and> br_SizeBytes b = te_SizeBytes e'"
    if "e' \<in> set (es @ [e])" for e'
    using that countsD(4) [OF c, of e'] sz by (cases "te_BlobHash e' = te_BlobHash e") (auto simp: m)
  ultimately show ?thesis unfolding counts_def by blast
qed

lemma counts_entry:
  assumes "counts es refs" "count_entry refs e = Inr refs'"
  shows "counts (es @ [e]) refs'"
proof (cases "map_of refs (te_BlobHash e)")
  case None
  then have r: "refs' = AList.update (te_BlobHash e) \<lparr>br_Refcount = 1, br_SizeBytes = te_SizeBytes e\<rparr> refs"
    using assms(2) by (simp add: count_entry_def)
  have "\<forall>e' \<in> set es. te_BlobHash e' \<noteq> te_BlobHash e"
    using countsD(4) [OF assms(1)] None by fastforce
  then show ?thesis unfolding r
    using counts_None [OF assms(1) None] by (intro counts_update [OF assms(1)]) auto
next
  case (Some b)
  then have sz: "br_SizeBytes b = te_SizeBytes e"
    and r: "refs' = AList.update (te_BlobHash e) (b\<lparr>br_Refcount := br_Refcount b + 1\<rparr>) refs"
    using assms(2) by (auto simp: count_entry_def split: if_splits)
  have b: "b\<lparr>br_Refcount := br_Refcount b + 1\<rparr> = \<lparr>br_Refcount = Suc (br_Refcount b), br_SizeBytes = te_SizeBytes e\<rparr>"
    using sz by (cases b) simp
  have "te_SizeBytes e' = te_SizeBytes e" if "e' \<in> set es" "te_BlobHash e' = te_BlobHash e" for e'
    using countsD(4) [OF assms(1) that(1)] that(2) Some sz by auto
  then show ?thesis unfolding r b
    using counts_Some [OF assms(1) Some] by (intro counts_update [OF assms(1)]) auto
qed

lemma counts_from:
  "counts es0 refs \<Longrightarrow> count_from refs es = Inr refs' \<Longrightarrow> counts (es0 @ es) refs'"
proof (induction es arbitrary: es0 refs)
  case (Cons e es)
  then obtain refs1 where "count_entry refs e = Inr refs1" "count_from refs1 es = Inr refs'"
    by (auto simp: andthen_Inr)
  then show ?case using Cons.IH [of "es0 @ [e]" refs1] counts_entry Cons.prems(1) by simp
qed simp

lemma CountBlobRefs_counts: "CountBlobRefs es = Inr refs \<Longrightarrow> counts es refs"
proof -
  assume a: "CountBlobRefs es = Inr refs"
  have "counts [] []" by (simp add: counts_def rc_def)
  from counts_from [OF this a [unfolded CountBlobRefs_def]] show ?thesis by simp
qed

text \<open>Counting succeeds when equal hashes have equal sizes.\<close>

definition sizes_agree :: "TreeEntryObj list \<Rightarrow> bool" where
  "sizes_agree es \<longleftrightarrow> (\<forall>a \<in> set es. \<forall>b \<in> set es. te_BlobHash a = te_BlobHash b \<longrightarrow> te_SizeBytes a = te_SizeBytes b)"

lemma sizes_agreeD:
  "sizes_agree es \<Longrightarrow> a \<in> set es \<Longrightarrow> b \<in> set es \<Longrightarrow> te_BlobHash a = te_BlobHash b \<Longrightarrow>
   te_SizeBytes a = te_SizeBytes b"
  unfolding sizes_agree_def by blast

lemma count_from_ok:
  "counts es0 refs \<Longrightarrow> sizes_agree (es0 @ es) \<Longrightarrow> \<exists>refs'. count_from refs es = Inr refs'"
proof (induction es arbitrary: es0 refs)
  case (Cons e es)
  have "\<exists>refs1. count_entry refs e = Inr refs1"
  proof (cases "map_of refs (te_BlobHash e)")
    case (Some b)
    then have "0 < occ es0 (te_BlobHash e)"
      using counts_Some [OF Cons.prems(1) Some] countsD(3) [OF Cons.prems(1) Some] by simp
    then obtain e' where e': "e' \<in> set es0" "te_BlobHash e' = te_BlobHash e" by (auto simp: occ_pos)
    then have "te_SizeBytes e' = te_SizeBytes e"
      using sizes_agreeD [OF Cons.prems(2), of e' e] by simp
    moreover have "br_SizeBytes b = te_SizeBytes e'"
      using countsD(4) [OF Cons.prems(1) e'(1)] e'(2) Some by auto
    ultimately show ?thesis using Some by (simp add: count_entry_def)
  qed (simp add: count_entry_def)
  then obtain refs1 where r1: "count_entry refs e = Inr refs1" by blast
  have "sizes_agree ((es0 @ [e]) @ es)" using Cons.prems(2) by simp
  from Cons.IH [OF counts_entry [OF Cons.prems(1) r1] this]
  obtain refs' where "count_from refs1 es = Inr refs'" by blast
  then show ?case using r1 by simp
qed simp

lemma CountBlobRefs_ok: "sizes_agree es \<Longrightarrow> \<exists>refs. CountBlobRefs es = Inr refs"
proof -
  assume a: "sizes_agree es"
  have "counts [] []" by (simp add: counts_def rc_def)
  from count_from_ok [OF this, of es] a show ?thesis by (simp add: CountBlobRefs_def)
qed

section \<open>Adding and subtracting counted references\<close>

lemma map_of_add_ref:
  "map_of (add_ref r tab) h =
     (if h = fst r then Some \<lparr>br_Refcount = rc tab h + br_Refcount (snd r), br_SizeBytes = br_SizeBytes (snd r)\<rparr>
      else map_of tab h)"
  by (cases r; cases "map_of tab (fst r)") (auto simp: add_ref_def rc_def update_conv')

lemma distinct_add_ref: "distinct (map fst tab) \<Longrightarrow> distinct (map fst (add_ref r tab))"
  by (auto simp: add_ref_def distinct_update split: option.splits)

lemma fold_add_ref:
  "distinct (map fst rows) \<Longrightarrow>
   map_of (fold add_ref rows tab) h =
     (case map_of rows h of None \<Rightarrow> map_of tab h
      | Some b \<Rightarrow> Some \<lparr>br_Refcount = rc tab h + br_Refcount b, br_SizeBytes = br_SizeBytes b\<rparr>)"
proof (induction rows arbitrary: tab)
  case (Cons r rows)
  have "map_of rows (fst r) = None"
    using Cons.prems by (cases r) (auto simp: map_of_eq_None_iff)
  then show ?case
    using Cons by (cases r) (auto simp: map_of_add_ref rc_def split: option.splits)
qed simp

lemma fold_add_ref_distinct: "distinct (map fst tab) \<Longrightarrow> distinct (map fst (fold add_ref rows tab))"
  by (induction rows arbitrary: tab) (auto simp: distinct_add_ref)

lemma map_of_sub_ref:
  "covers tab r \<Longrightarrow> map_of (sub_ref r tab) h =
     (if h = fst r then map_option (\<lambda>b. b\<lparr>br_Refcount := br_Refcount b - br_Refcount (snd r)\<rparr>) (map_of tab h)
      else map_of tab h)"
  by (cases r; cases "map_of tab (fst r)") (auto simp: covers_def sub_ref_def update_conv')

lemma distinct_sub_ref: "distinct (map fst tab) \<Longrightarrow> distinct (map fst (sub_ref r tab))"
  by (auto simp: sub_ref_def distinct_update split: option.splits)

lemma covers_other: "covers tab r \<Longrightarrow> fst q \<noteq> fst r \<Longrightarrow> covers (sub_ref r tab) q = covers tab q"
  by (simp add: covers_def [of _ q] map_of_sub_ref)

lemma fold_sub_ref:
  "distinct (map fst rows) \<Longrightarrow> \<forall>r \<in> set rows. covers tab r \<Longrightarrow>
   map_of (fold sub_ref rows tab) h =
     (case map_of rows h of None \<Rightarrow> map_of tab h
      | Some d \<Rightarrow> map_option (\<lambda>b. b\<lparr>br_Refcount := br_Refcount b - br_Refcount d\<rparr>) (map_of tab h))"
proof (induction rows arbitrary: tab)
  case (Cons r rows)
  have "map_of rows (fst r) = None"
    using Cons.prems by (cases r) (auto simp: map_of_eq_None_iff)
  moreover have "\<forall>q \<in> set rows. covers (sub_ref r tab) q"
    using Cons.prems by (auto simp: covers_other image_iff)
  ultimately show ?case
    using Cons by (cases r) (auto simp: map_of_sub_ref split: option.splits)
qed simp

lemma fold_sub_ref_distinct: "distinct (map fst tab) \<Longrightarrow> distinct (map fst (fold sub_ref rows tab))"
  by (induction rows arbitrary: tab) (auto simp: distinct_sub_ref)

lemma fold_sub_covers:
  "distinct (map fst (rows @ later)) \<Longrightarrow> \<forall>r \<in> set rows. covers tab r \<Longrightarrow> q \<in> set later \<Longrightarrow>
   covers (fold sub_ref rows tab) q = covers tab q"
proof (induction rows arbitrary: tab)
  case (Cons r rows)
  have "fst q \<noteq> fst r" using Cons.prems(1,3) by (cases q; cases r) force
  moreover have "\<forall>q \<in> set rows. covers (sub_ref r tab) q"
    using Cons.prems by (auto simp: covers_other image_iff)
  ultimately show ?case using Cons by (simp add: covers_other)
qed simp

section \<open>The statements\<close>

lemma exec_add:
  assumes "exec E (db_add_refs rs) st = (Inr y, s1)"
  shows "st_db s1 = (st_db st)\<lparr>db_blob_refs := fold add_ref rs (db_blob_refs (st_db st))\<rparr>"
  using exec_Inr [OF assms] by (auto simp: db_add_refs_def split: if_splits)

lemma siter_add:
  "siter (\<lambda>rows. exec E (db_add_refs rows)) rss st = (Inr x, st') \<Longrightarrow>
   st_db st' = (st_db st)\<lparr>db_blob_refs := fold add_ref (concat rss) (db_blob_refs (st_db st))\<rparr>"
proof (induction rss arbitrary: st)
  case (Cons rs rss)
  then obtain s1 y where e: "exec E (db_add_refs rs) st = (Inr y, s1)"
    and s: "siter (\<lambda>rows. exec E (db_add_refs rows)) rss s1 = (Inr x, st')"
    by (auto simp: op_Inr)
  show ?case using Cons.IH [OF s] exec_add [OF e] by simp
qed (simp add: op_Inr)

lemma AddBlobRefs_Inr:
  assumes "AddBlobRefs E es st = (Inr x, st')"
  obtains refs where "CountBlobRefs es = Inr refs" "counts es refs"
    "st_db st' = (st_db st)\<lparr>db_blob_refs := fold add_ref refs (db_blob_refs (st_db st))\<rparr>"
    "st_pb st' = st_pb st"
proof -
  obtain refs where r: "CountBlobRefs es = Inr refs"
    and s: "siter (\<lambda>rows. exec E (db_add_refs rows)) (slices (sqlChunkSize 3) refs) st = (Inr x, st')"
    using assms unfolding AddBlobRefs_def by (auto simp: op_Inr)
  have "st_pb st' = st_pb st" using assms by (rule keeps_pbD [rotated]) (rule frame)
  then show thesis using that [OF r CountBlobRefs_counts [OF r]] siter_add [OF s] by simp
qed

lemma siter_sub:
  "siter (\<lambda>rows. exec E (db_sub_refs rows)) rss st = (Inr x, st') \<Longrightarrow> distinct (map fst (concat rss)) \<Longrightarrow>
   st_db st' = (st_db st)\<lparr>db_blob_refs := fold sub_ref (concat rss) (db_blob_refs (st_db st))\<rparr> \<and>
   (\<forall>r \<in> set (concat rss). covers (db_blob_refs (st_db st)) r)"
proof (induction rss arbitrary: st)
  case (Cons rs rss)
  then obtain s1 y where e: "exec E (db_sub_refs rs) st = (Inr y, s1)"
    and s: "siter (\<lambda>rows. exec E (db_sub_refs rows)) rss s1 = (Inr x, st')"
    by (auto simp: op_Inr)
  from exec_Inr [OF e] have len: "length (filter (covers (db_blob_refs (st_db st))) rs) = length rs"
    and db: "st_db s1 = (st_db st)\<lparr>db_blob_refs := fold sub_ref rs (db_blob_refs (st_db st))\<rparr>"
    by (auto simp: db_sub_refs_def split: if_splits)
  from len have cov: "\<forall>r \<in> set rs. covers (db_blob_refs (st_db st)) r"
    by (metis filter_id_conv length_filter_less nat_neq_iff)
  have "distinct (map fst (rs @ concat rss))" using Cons.prems(2) by simp
  then have "\<forall>r \<in> set (concat rss). covers (fold sub_ref rs (db_blob_refs (st_db st))) r
      \<longleftrightarrow> covers (db_blob_refs (st_db st)) r"
    using fold_sub_covers [OF _ cov, of "concat rss"] by blast
  then show ?case using Cons.IH [OF s] Cons.prems(2) db cov by auto
qed (simp add: op_Inr)

lemma SubtractBlobRefs_Inr:
  assumes "SubtractBlobRefs E es st = (Inr x, st')"
  obtains refs where "CountBlobRefs es = Inr refs" "counts es refs"
    "st_db st' = (st_db st)\<lparr>db_blob_refs := fold sub_ref refs (db_blob_refs (st_db st))\<rparr>"
    "\<forall>r \<in> set refs. covers (db_blob_refs (st_db st)) r" "st_pb st' = st_pb st"
proof -
  obtain refs where r: "CountBlobRefs es = Inr refs"
    and s: "siter (\<lambda>rows. exec E (db_sub_refs rows)) (slices (sqlChunkSize 2) refs) st = (Inr x, st')"
    using assms unfolding SubtractBlobRefs_def by (auto simp: op_Inr)
  have c: "counts es refs" by (rule CountBlobRefs_counts [OF r])
  then have "distinct (map fst (concat (slices (sqlChunkSize 2) refs)))" by (simp add: counts_def)
  from siter_sub [OF s this]
  have u: "st_db st' = (st_db st)\<lparr>db_blob_refs := fold sub_ref refs (db_blob_refs (st_db st))\<rparr>"
    "\<forall>r \<in> set refs. covers (db_blob_refs (st_db st)) r" by simp_all
  have "st_pb st' = st_pb st" using assms by (rule keeps_pbD [rotated]) (rule frame)
  then show thesis by (rule that [OF r c u])
qed

lemma rc_add:
  assumes "counts es refs"
  shows "rc (fold add_ref refs tab) h = rc tab h + occ es h"
proof (cases "map_of refs h")
  case None
  then show ?thesis
    using counts_None [OF assms None] fold_add_ref [OF countsD(1) [OF assms], of tab h] by (simp add: rc_def)
next
  case (Some b)
  then show ?thesis
    using counts_Some [OF assms Some] fold_add_ref [OF countsD(1) [OF assms], of tab h] by (simp add: rc_def)
qed

lemma rc_sub:
  assumes "counts es refs" "\<forall>r \<in> set refs. covers tab r"
  shows "rc (fold sub_ref refs tab) h + occ es h = rc tab h"
proof (cases "map_of refs h")
  case None
  then show ?thesis
    using counts_None [OF assms(1) None] fold_sub_ref [OF countsD(1) [OF assms(1)] assms(2), of h]
    by (simp add: rc_def)
next
  case (Some d)
  have "covers tab (h, d)" using assms(2) map_of_SomeD [OF Some] by blast
  then obtain b where "map_of tab h = Some b" "br_Refcount d \<le> br_Refcount b"
    by (auto simp: covers_def split: option.splits)
  then show ?thesis
    using fold_sub_ref [OF countsD(1) [OF assms(1)] assms(2), of h] counts_Some [OF assms(1) Some] Some
    by (simp add: rc_def)
qed

end
