(* ===== verification/Store_Inv.thy ===== *)
theory Store_Inv
  imports Store_Tables
begin

text \<open>
  The invariant of the store. \<open>consistent E U db pb\<close>: tables have primary keys; every version has
  exactly one detection row; the tree of every version is stored under its digest, decodes, and every
  blob it names is stored under its digest with the recorded size; the reference count of a
  blob is the number of entries of versions that name it; live rows record the size of the blob.

  Inside a transaction the counts and the detection rows lag behind: \<open>mid E U pb M f db\<close> allows the
  versions \<open>M\<close> to have no detection row and the counts to be off by \<open>f\<close>.

  A digest has 24 bytes, so no digest function is injective; \<open>U\<close> is the set of byte strings that
  occur, and the theorems assume that \<open>H\<close> has no collision on it.
\<close>

section \<open>Trees and blobs in the object store\<close>

definition tree_of :: "store_env \<Rightarrow> (bytes \<times> bytes) list \<Rightarrow> HashObj \<Rightarrow> TreeEntryObj list option" where
  "tree_of E pb h =
     (case map_of pb (treeKey h) of None \<Rightarrow> None
      | Some d \<Rightarrow> if sv_H E d \<noteq> h then None
                  else (case Decode d of Inl _ \<Rightarrow> None | Inr es \<Rightarrow> Some es))"

definition blob_ok :: "store_env \<Rightarrow> (bytes \<times> bytes) list \<Rightarrow> TreeEntryObj \<Rightarrow> bool" where
  "blob_ok E pb e \<longleftrightarrow> (\<exists>c. map_of pb (blobKey (te_BlobHash e)) = Some c \<and> sv_H E c = te_BlobHash e \<and>
     of_nat (length c) = te_SizeBytes e)"

definition tree_ready :: "store_env \<Rightarrow> (bytes \<times> bytes) list \<Rightarrow> HashObj \<Rightarrow> TreeEntryObj list \<Rightarrow> bool" where
  "tree_ready E pb h es \<longleftrightarrow> tree_of E pb h = Some es \<and> (\<forall>e \<in> set es. blob_ok E pb e)"

definition trefs :: "store_env \<Rightarrow> (bytes \<times> bytes) list \<Rightarrow> HashObj \<Rightarrow> HashObj \<Rightarrow> nat" where
  "trefs E pb th h = (case tree_of E pb th of None \<Rightarrow> 0 | Some es \<Rightarrow> occ es h)"

definition ref_total :: "store_env \<Rightarrow> (bytes \<times> bytes) list \<Rightarrow> (vkey \<times> VersionObj) list \<Rightarrow> HashObj \<Rightarrow> nat" where
  "ref_total E pb vs h = sum_list (map (\<lambda>r. trefs E pb (v_TreeHash (snd r)) h) vs)"

definition sizes_ok :: "(bytes \<times> bytes) list \<Rightarrow> (HashObj \<times> BlobRefObj) list \<Rightarrow> bool" where
  "sizes_ok pb tab \<longleftrightarrow> (\<forall>h b. map_of tab h = Some b \<longrightarrow> 0 < br_Refcount b \<longrightarrow>
     (\<exists>c. map_of pb (blobKey h) = Some c \<and> br_SizeBytes b = of_nat (length c)))"

definition keys_ok :: "dbObj \<Rightarrow> bool" where
  "keys_ok db \<longleftrightarrow> distinct (map fst (db_versions db)) \<and> (\<forall>r \<in> set (db_versions db). vkey_of (snd r) = fst r) \<and>
     distinct (map fst (db_detection db)) \<and> distinct (map fst (db_blob_refs db))"

definition rows_ok :: "store_env \<Rightarrow> (bytes \<times> bytes) list \<Rightarrow> (vkey \<times> VersionObj) list \<Rightarrow> bool" where
  "rows_ok E pb vs \<longleftrightarrow> (\<forall>r \<in> set vs. \<exists>es. tree_ready E pb (v_TreeHash (snd r)) es)"

definition mid :: "store_env \<Rightarrow> bytes set \<Rightarrow> (bytes \<times> bytes) list \<Rightarrow> vkey set \<Rightarrow> (HashObj \<Rightarrow> int) \<Rightarrow> dbObj \<Rightarrow> bool" where
  "mid E U pb M f db \<longleftrightarrow> keys_ok db \<and> rows_ok E pb (db_versions db) \<and>
     M \<subseteq> fst ` set (db_versions db) \<and> fst ` set (db_detection db) = fst ` set (db_versions db) - M \<and>
     (\<forall>h. int (rc (db_blob_refs db) h) = int (ref_total E pb (db_versions db) h) + f h) \<and>
     sizes_ok pb (db_blob_refs db) \<and> ran (map_of pb) \<subseteq> U"

definition consistent :: "store_env \<Rightarrow> bytes set \<Rightarrow> dbObj \<Rightarrow> (bytes \<times> bytes) list \<Rightarrow> bool" where
  "consistent E U db pb \<longleftrightarrow> mid E U pb {} (\<lambda>_. 0) db"

lemma midI:
  assumes "keys_ok db" "rows_ok E pb (db_versions db)" "M \<subseteq> fst ` set (db_versions db)"
    "fst ` set (db_detection db) = fst ` set (db_versions db) - M"
    "\<And>h. int (rc (db_blob_refs db) h) = int (ref_total E pb (db_versions db) h) + f h"
    "sizes_ok pb (db_blob_refs db)" "ran (map_of pb) \<subseteq> U"
  shows "mid E U pb M f db"
  using assms unfolding mid_def by blast

lemma midD:
  assumes "mid E U pb M f db"
  shows "keys_ok db" "rows_ok E pb (db_versions db)" "M \<subseteq> fst ` set (db_versions db)"
    "fst ` set (db_detection db) = fst ` set (db_versions db) - M"
    "int (rc (db_blob_refs db) h) = int (ref_total E pb (db_versions db) h) + f h"
    "sizes_ok pb (db_blob_refs db)" "ran (map_of pb) \<subseteq> U"
  using assms unfolding mid_def by blast+

lemma keysD:
  assumes "keys_ok db"
  shows "distinct (map fst (db_versions db))" "r \<in> set (db_versions db) \<Longrightarrow> vkey_of (snd r) = fst r"
    "distinct (map fst (db_detection db))" "distinct (map fst (db_blob_refs db))"
  using assms unfolding keys_ok_def by blast+

lemma tree_of_readable:
  "map_of pb (treeKey h) = Some d \<Longrightarrow> sv_H E d = h \<Longrightarrow> Decode d = Inr es \<Longrightarrow> tree_of E pb h = Some es"
  by (simp add: tree_of_def)

lemma tree_of_Some:
  "tree_of E pb h = Some es \<longleftrightarrow> (\<exists>d. map_of pb (treeKey h) = Some d \<and> sv_H E d = h \<and> Decode d = Inr es)"
  by (auto simp: tree_of_def split: option.splits if_splits sum.splits)

lemma tree_of_cong: "map_of pb' (treeKey h) = map_of pb (treeKey h) \<Longrightarrow> tree_of E pb' h = tree_of E pb h"
  by (simp add: tree_of_def)

lemma blob_ok_cong:
  "map_of pb' (blobKey (te_BlobHash e)) = map_of pb (blobKey (te_BlobHash e)) \<Longrightarrow> blob_ok E pb' e = blob_ok E pb e"
  by (simp add: blob_ok_def)

lemma tree_ready_sizes: "tree_ready E pb h es \<Longrightarrow> sizes_agree es"
  unfolding tree_ready_def blob_ok_def sizes_agree_def by (metis option.inject)

lemma ref_total_ge: "r \<in> set vs \<Longrightarrow> trefs E pb (v_TreeHash (snd r)) h \<le> ref_total E pb vs h"
  unfolding ref_total_def by (rule member_le_sum_list) simp_all

lemma ref_total_append [simp]: "ref_total E pb (xs @ ys) h = ref_total E pb xs h + ref_total E pb ys h"
  by (simp add: ref_total_def)

lemma ref_total_single [simp]: "ref_total E pb [(k, v)] h = trefs E pb (v_TreeHash v) h"
  by (simp add: ref_total_def)

lemma trefs_ready: "tree_of E pb th = Some es \<Longrightarrow> trefs E pb th h = occ es h"
  by (simp add: trefs_def)

lemma tree_referenced_row: "tree_referenced db h \<longleftrightarrow> (\<exists>r \<in> set (db_versions db). v_TreeHash (snd r) = h)"
  by (auto simp: tree_referenced_def db_rows_def list_ex_iff)

lemma blob_referenced_rc: "blob_referenced db h \<longleftrightarrow> 0 < rc (db_blob_refs db) h"
  by (simp add: blob_referenced_def rc_def split: option.splits)

lemma zero_ref_rc: "zero_ref db h \<Longrightarrow> rc (db_blob_refs db) h = 0"
  by (simp add: zero_ref_def rc_def split: option.splits)

section \<open>The objects change\<close>

lemma consistent_pb:
  assumes c: "consistent E U db pb"
    and t: "\<And>h. tree_referenced db h \<Longrightarrow> map_of pb' (treeKey h) = map_of pb (treeKey h)"
    and b: "\<And>h. blob_referenced db h \<Longrightarrow> map_of pb' (blobKey h) = map_of pb (blobKey h)"
    and u: "ran (map_of pb') \<subseteq> U"
  shows "consistent E U db pb'"
proof -
  note m = c [unfolded consistent_def]
  have tree: "tree_of E pb' (v_TreeHash (snd r)) = tree_of E pb (v_TreeHash (snd r))"
    if "r \<in> set (db_versions db)" for r
    by (rule tree_of_cong) (use that in \<open>auto intro!: t simp: tree_referenced_row\<close>)
  have total: "ref_total E pb' (db_versions db) h = ref_total E pb (db_versions db) h" for h
  proof -
    have "map (\<lambda>r. trefs E pb' (v_TreeHash (snd r)) h) (db_versions db) =
        map (\<lambda>r. trefs E pb (v_TreeHash (snd r)) h) (db_versions db)"
      by (rule map_cong [OF refl]) (simp add: trefs_def tree)
    from arg_cong [OF this, of sum_list] show ?thesis unfolding ref_total_def .
  qed
  have rows: "rows_ok E pb' (db_versions db)"
    unfolding rows_ok_def
  proof
    fix r assume r: "r \<in> set (db_versions db)"
    then obtain es where es: "tree_ready E pb (v_TreeHash (snd r)) es"
      using midD(2) [OF m] unfolding rows_ok_def by blast
    have "blob_ok E pb' e" if "e \<in> set es" for e
    proof -
      have "0 < occ es (te_BlobHash e)" using that by (auto simp: occ_pos)
      also have "\<dots> = trefs E pb (v_TreeHash (snd r)) (te_BlobHash e)"
        using es by (simp add: tree_ready_def trefs_ready)
      also have "\<dots> \<le> ref_total E pb (db_versions db) (te_BlobHash e)" by (rule ref_total_ge [OF r])
      also have "\<dots> = rc (db_blob_refs db) (te_BlobHash e)" using midD(5) [OF m] by simp
      finally have "blob_referenced db (te_BlobHash e)" by (simp add: blob_referenced_rc)
      then show ?thesis using es that blob_ok_cong [OF b] unfolding tree_ready_def by blast
    qed
    then show "\<exists>es. tree_ready E pb' (v_TreeHash (snd r)) es"
      using es tree [OF r] unfolding tree_ready_def by auto
  qed
  have sizes: "sizes_ok pb' (db_blob_refs db)"
    unfolding sizes_ok_def
  proof (intro allI impI)
    fix h row assume h: "map_of (db_blob_refs db) h = Some row" "0 < br_Refcount row"
    then have "blob_referenced db h" by (simp add: blob_referenced_rc rc_def)
    from b [OF this] show "\<exists>c. map_of pb' (blobKey h) = Some c \<and> br_SizeBytes row = of_nat (length c)"
      using midD(6) [OF m] h unfolding sizes_ok_def by simp
  qed
  show ?thesis unfolding consistent_def
    by (rule midI) (use midD [OF m] rows sizes u total in simp_all)
qed

section \<open>The tables change\<close>

lemma mid_cong:
  assumes "mid E U pb M f db" "db_versions db' = db_versions db" "db_detection db' = db_detection db"
    "db_blob_refs db' = db_blob_refs db"
  shows "mid E U pb M f db'"
  using assms unfolding mid_def keys_ok_def by simp

lemma mid_f: "mid E U pb M f db \<Longrightarrow> (\<And>h. f h = g h) \<Longrightarrow> mid E U pb M g db"
  by (simp add: mid_def)

lemma mid_refs:
  assumes m: "mid E U pb M f db" and d: "distinct (map fst tab)"
    and r: "\<And>h. int (rc tab h) = int (rc (db_blob_refs db) h) + g h" and s: "sizes_ok pb tab"
  shows "mid E U pb M (\<lambda>h. f h + g h) (db\<lparr>db_blob_refs := tab\<rparr>)"
proof -
  have "int (rc tab h) = int (ref_total E pb (db_versions db) h) + (f h + g h)" for h
    using r midD(5) [OF m] by simp
  then show ?thesis using midD [OF m] d s by (intro midI) (auto simp: keys_ok_def)
qed

lemma mid_sub:
  assumes m: "mid E U pb M f db" and c: "counts es refs" and cov: "\<forall>r \<in> set refs. covers (db_blob_refs db) r"
  shows "mid E U pb M (\<lambda>h. f h - int (occ es h)) (db\<lparr>db_blob_refs := fold sub_ref refs (db_blob_refs db)\<rparr>)"
proof -
  let ?tab = "fold sub_ref refs (db_blob_refs db)"
  have "sizes_ok pb ?tab"
    unfolding sizes_ok_def
  proof (intro allI impI)
    fix h b assume h: "map_of ?tab h = Some b" "0 < br_Refcount b"
    obtain b0 where b0: "map_of (db_blob_refs db) h = Some b0" "br_SizeBytes b = br_SizeBytes b0" "0 < br_Refcount b0"
    proof (cases "map_of refs h")
      case None
      then show thesis using that h fold_sub_ref [OF countsD(1) [OF c] cov, of h] by simp
    next
      case (Some d)
      then show thesis using that h fold_sub_ref [OF countsD(1) [OF c] cov, of h] by auto
    qed
    then show "\<exists>c. map_of pb (blobKey h) = Some c \<and> br_SizeBytes b = of_nat (length c)"
      using midD(6) [OF m] unfolding sizes_ok_def by simp
  qed
  moreover have "int (rc ?tab h) = int (rc (db_blob_refs db) h) + - int (occ es h)" for h
    using rc_sub [OF c cov, of h] by simp
  ultimately show ?thesis
    using mid_refs [OF m fold_sub_ref_distinct [OF keysD(4) [OF midD(1) [OF m]]], of refs "\<lambda>h. - int (occ es h)"]
    by simp
qed

lemma mid_add:
  assumes m: "mid E U pb M f db" and c: "counts es refs" and ok: "\<forall>e \<in> set es. blob_ok E pb e"
  shows "mid E U pb M (\<lambda>h. f h + int (occ es h)) (db\<lparr>db_blob_refs := fold add_ref refs (db_blob_refs db)\<rparr>)"
proof -
  let ?tab = "fold add_ref refs (db_blob_refs db)"
  have "sizes_ok pb ?tab"
    unfolding sizes_ok_def
  proof (intro allI impI)
    fix h b assume h: "map_of ?tab h = Some b" "0 < br_Refcount b"
    show "\<exists>c. map_of pb (blobKey h) = Some c \<and> br_SizeBytes b = of_nat (length c)"
    proof (cases "map_of refs h")
      case None
      then show ?thesis
        using h fold_add_ref [OF countsD(1) [OF c], of "db_blob_refs db" h] midD(6) [OF m]
        unfolding sizes_ok_def by simp
    next
      case (Some d)
      then have "0 < occ es h" using counts_Some [OF c Some] countsD(3) [OF c Some] by simp
      then obtain e where e: "e \<in> set es" "te_BlobHash e = h" by (auto simp: occ_pos)
      have "br_SizeBytes d = te_SizeBytes e" using countsD(4) [OF c e(1)] e(2) Some by auto
      moreover have "br_SizeBytes b = br_SizeBytes d"
        using h Some fold_add_ref [OF countsD(1) [OF c], of "db_blob_refs db" h] by auto
      ultimately show ?thesis using bspec [OF ok e(1)] e(2) unfolding blob_ok_def by auto
    qed
  qed
  then show ?thesis
    using mid_refs [OF m fold_add_ref_distinct [OF keysD(4) [OF midD(1) [OF m]]], of refs "\<lambda>h. int (occ es h)"]
      rc_add [OF c] by simp
qed

lemma mid_delete_row:
  assumes m: "mid E U pb M f db" and k: "map_of (db_versions db) k = Some v"
    and es: "tree_of E pb (v_TreeHash v) = Some es"
  shows "mid E U pb (M - {k}) (\<lambda>h. f h + int (occ es h)) (db_delete_version k db)"
proof -
  let ?db = "db_delete_version k db"
  have vs: "db_versions ?db = AList.delete k (db_versions db)" "db_detection ?db = AList.delete k (db_detection db)"
    "db_blob_refs ?db = db_blob_refs db" by (simp_all add: db_delete_version_def)
  have keys: "fst ` set (AList.delete k al) = fst ` set al - {k}" for al :: "(vkey \<times> 'b) list"
    by (auto simp: AList.delete_eq image_iff)
  have "keys_ok ?db"
    using keysD [OF midD(1) [OF m]] delete_subset [of k "db_versions db"]
    unfolding keys_ok_def vs by (auto intro: distinct_delete)
  moreover have "rows_ok E pb (db_versions ?db)"
    using midD(2) [OF m] delete_subset [of k "db_versions db"] unfolding rows_ok_def vs by blast
  moreover have "M - {k} \<subseteq> fst ` set (db_versions ?db)"
    using midD(3) [OF m] unfolding vs keys by blast
  moreover have "fst ` set (db_detection ?db) = fst ` set (db_versions ?db) - (M - {k})"
    unfolding vs keys midD(4) [OF m] by blast
  moreover have "int (rc (db_blob_refs ?db) h) = int (ref_total E pb (db_versions ?db) h) + (f h + int (occ es h))" for h
  proof -
    have "ref_total E pb (db_versions db) h = occ es h + ref_total E pb (db_versions ?db) h"
      using sum_delete [OF keysD(1) [OF midD(1) [OF m]] k, of "\<lambda>r. trefs E pb (v_TreeHash (snd r)) h"]
      unfolding ref_total_def vs by (simp add: trefs_ready [OF es])
    then show ?thesis using midD(5) [OF m, of h] unfolding vs by simp
  qed
  ultimately show ?thesis using midD(6,7) [OF m] unfolding vs by (intro midI) (simp_all add: vs)
qed

lemma mid_put_fresh:
  assumes m: "mid E U pb M f db" and k: "map_of (db_versions db) (vkey_of v) = None"
    and r: "tree_ready E pb (v_TreeHash v) es"
  shows "mid E U pb (insert (vkey_of v) M) (\<lambda>h. f h - int (occ es h)) (db_put_version v db)"
proof -
  let ?db = "db_put_version v db" and ?v = "stored_row v"
  have vs: "db_versions ?db = db_versions db @ [(vkey_of v, ?v)]" "db_detection ?db = db_detection db"
    "db_blob_refs ?db = db_blob_refs db" by (simp_all add: db_put_version_def update_fresh [OF k])
  have new: "vkey_of v \<notin> fst ` set (db_versions db)" using k by (simp add: map_of_eq_None_iff)
  have sv: "vkey_of ?v = vkey_of v" "v_TreeHash ?v = v_TreeHash v"
    by (simp_all add: vkey_of_def stored_row_def)
  have "keys_ok ?db"
    using keysD [OF midD(1) [OF m]] new sv unfolding keys_ok_def vs by auto
  moreover have "rows_ok E pb (db_versions ?db)"
    using midD(2) [OF m] r sv unfolding rows_ok_def vs by auto
  moreover have "insert (vkey_of v) M \<subseteq> fst ` set (db_versions ?db)"
    using midD(3) [OF m] unfolding vs by auto
  moreover have "fst ` set (db_detection ?db) = fst ` set (db_versions ?db) - insert (vkey_of v) M"
    using new unfolding vs midD(4) [OF m] by auto
  moreover have "int (rc (db_blob_refs ?db) h) = int (ref_total E pb (db_versions ?db) h) + (f h - int (occ es h))" for h
    using midD(5) [OF m, of h] r unfolding vs by (simp add: sv tree_ready_def trefs_ready)
  ultimately show ?thesis using midD(6,7) [OF m] by (intro midI) (simp_all add: vs)
qed

lemma mid_detection:
  assumes m: "mid E U pb M f db" and k: "has_version db k"
    and d: "fst ` set det = insert k (fst ` set (db_detection db))" "distinct (map fst det)"
  shows "mid E U pb (M - {k}) f (db\<lparr>db_detection := det\<rparr>)"
proof -
  have "k \<in> fst ` set (db_versions db)"
    using k unfolding has_version_def by (metis map_of_eq_None_iff)
  then have "fst ` set det = fst ` set (db_versions db) - (M - {k})"
    using d(1) midD(4) [OF m] by blast
  then show ?thesis using midD [OF m] d(2) by (intro midI) (auto simp: keys_ok_def)
qed

lemma mid_update_version:
  assumes m: "mid E U pb M f db" and g: "\<And>v. vkey_of (g v) = vkey_of v" "\<And>v. v_TreeHash (g v) = v_TreeHash v"
  shows "mid E U pb M f (db_update_version k g db)"
proof -
  let ?u = "\<lambda>(k', v). if k' = k then (k', g v) else (k', v)"
  have vs: "db_versions (db_update_version k g db) = map ?u (db_versions db)"
    "db_detection (db_update_version k g db) = db_detection db"
    "db_blob_refs (db_update_version k g db) = db_blob_refs db" by (simp_all add: db_update_version_def)
  have u: "fst (?u r) = fst r" "v_TreeHash (snd (?u r)) = v_TreeHash (snd r)" "vkey_of (snd (?u r)) = vkey_of (snd r)" for r
    using g by (cases r; simp)+
  have f: "map fst (map ?u al) = map fst al" for al by (simp add: u(1) comp_def)
  have fs: "fst ` set (map ?u al) = fst ` set al" for al
    using arg_cong [OF f [of al], of set] by (simp only: set_map)
  have "ref_total E pb (map ?u al) h = ref_total E pb al h" for al h
    by (simp add: ref_total_def comp_def u(2))
  moreover have "keys_ok (db_update_version k g db)"
    using keysD [OF midD(1) [OF m]] unfolding keys_ok_def vs f by (auto simp: g(1))
  moreover have "rows_ok E pb (map ?u al) = rows_ok E pb al" for al
    by (simp add: rows_ok_def u(2))
  ultimately show ?thesis
    using midD [OF m] fs [of "db_versions db"] by (intro midI) (simp_all only: vs)
qed

lemma mid_drop_zero:
  assumes m: "mid E U pb M f db"
  shows "mid E U pb M f (db_drop_zero_refs hs db)"
proof -
  let ?tab = "filter (\<lambda>r. \<not> (fst r \<in> set hs \<and> br_Refcount (snd r) = 0)) (db_blob_refs db)"
  have d: "distinct (map fst (db_blob_refs db))" by (rule keysD(4) [OF midD(1) [OF m]])
  have keep: "map_of ?tab h = (case map_of (db_blob_refs db) h of None \<Rightarrow> None
      | Some b \<Rightarrow> if h \<in> set hs \<and> br_Refcount b = 0 then None else Some b)" for h
    using d
  proof (induction "db_blob_refs db" arbitrary: db)
    case (Cons r rs)
    show ?case
    proof -
      have "map_of (filter P rs) h = None" if "h \<notin> fst ` set rs" for P
        using that by (auto simp: map_of_eq_None_iff)
      moreover have rs: "db_blob_refs (db\<lparr>db_blob_refs := rs\<rparr>) = rs" by simp
      ultimately show ?thesis
        using Cons.hyps(1) [of "db\<lparr>db_blob_refs := rs\<rparr>"] Cons.prems
        by (cases r) (auto simp: Cons.hyps(2) [symmetric] split: option.splits simp del: map_of_eq_Some_iff)
    qed
  qed simp
  have "rc ?tab h = rc (db_blob_refs db) h" for h
    unfolding rc_def keep by (auto split: option.splits)
  moreover have "sizes_ok pb ?tab"
    using midD(6) [OF m] unfolding sizes_ok_def keep by (auto split: option.splits if_splits)
  ultimately have "mid E U pb M (\<lambda>h. f h + 0) (db\<lparr>db_blob_refs := ?tab\<rparr>)"
    by (intro mid_refs [OF m] distinct_filter_fst d) simp_all
  then show ?thesis by (simp add: db_drop_zero_refs_def)
qed

end
