(* ===== verification/Store_Delete.thy ===== *)
theory Store_Delete
  imports Store_Inv
begin

text \<open>
  Deleting objects and versions keeps the store consistent, on the error paths as well: a
  transaction is all or nothing, and objects are only deleted when nothing refers to them.
\<close>

section \<open>Transactions\<close>

lemma WithTx_Inr:
  assumes "WithTx E m st = (Inr x, st')"
  obtains st1 st2 where "same st st1" "m st1 = (Inr x, st2)" "same st2 st'"
proof -
  from assms obtain s1 s2 s3 where i: "io E st = (Inr (), s1)"
    and m: "m s1 = (Inr x, s2)" and c: "io E s2 = (Inr (), s3)" and e: "st' = s3"
    unfolding WithTx_def by (auto simp: op_Inr)
  show thesis by (rule that [of s1 s2]) (use io_same [OF i] io_same [OF c] m e in simp_all)
qed

lemma WithTx_Inl:
  assumes "WithTx E m st = (Inl e, st')" "keeps_pb m"
  shows "same st st'"
proof -
  have pb: "st_pb st' = st_pb st" using keeps_pbD [OF WithTx_pb [OF assms(2)] assms(1)] .
  consider "io E st = (Inl e, st')" |
    s1 s2 where "io E st = (Inr (), s1)" "st' = put_db (st_db s1) s2"
    using assms(1) unfolding WithTx_def by (auto simp: op_Inl op_Inr)
  then show ?thesis
  proof cases
    case 1 then show ?thesis by (rule io_same)
  next
    case 2
    have "st_db s1 = st_db st" using io_same [OF 2(1)] by (simp add: same_def)
    then show ?thesis using pb 2(2) by (simp add: same_def put_db_def)
  qed
qed

section \<open>Deleting objects\<close>

definition drop_keys :: "bytes set \<Rightarrow> (bytes \<times> bytes) list \<Rightarrow> (bytes \<times> bytes) list \<Rightarrow> bool" where
  "drop_keys D pb pb' \<longleftrightarrow> (\<forall>k. map_of pb' k = (if k \<in> D then None else map_of pb k))"

lemma drop_keys_empty [simp]: "drop_keys {} pb pb"
  by (simp add: drop_keys_def)

lemma drop_keys_trans: "drop_keys D pb pb1 \<Longrightarrow> drop_keys D' pb1 pb2 \<Longrightarrow> drop_keys (D \<union> D') pb pb2"
  by (auto simp: drop_keys_def)

lemma drop_keys_ran: "drop_keys D pb pb' \<Longrightarrow> ran (map_of pb') \<subseteq> ran (map_of pb)"
  unfolding drop_keys_def ran_def by (auto split: if_splits)

lemma fold_delete: "map_of (fold batch_apply (map (\<lambda>k. (k, None)) ks) pb) k = (if k \<in> set ks then None else map_of pb k)"
  by (induction ks arbitrary: pb) (auto simp: batch_apply_def map_of_delete)

lemma batch_delete:
  assumes "batch_commit E (map (\<lambda>k. (k, None)) ks) st = (r, st')"
  obtains "r = Inr ()" "drop_keys (set ks) (st_pb st) (st_pb st')" "st_db st' = st_db st"
    | e where "r = Inl e" "same st st'"
proof (cases r)
  case (Inl e)
  then have "io E st = (Inl e, st')" using assms by (auto simp: batch_commit_def op_Inl)
  from io_same [OF this] show thesis using that(2) Inl by blast
next
  case (Inr x)
  then obtain s1 where "io E st = (Inr (), s1)"
    "st' = s1\<lparr>st_pb := fold batch_apply (map (\<lambda>k. (k, None)) ks) (st_pb s1)\<rparr>"
    using assms by (auto simp: batch_commit_def op_Inr)
  then show thesis using that(1) Inr io_same [of E st] by (simp add: same_def drop_keys_def fold_delete)
qed

lemma delete_slices:
  "siter (\<lambda>ks. sbind (siter (\<lambda>_. io E) ks) (\<lambda>_.
      sbind (batch_commit E (map (\<lambda>k. (k, None)) ks)) (\<lambda>_. io E))) kss st = (r, st') \<Longrightarrow>
   \<exists>D. D \<subseteq> set (concat kss) \<and> drop_keys D (st_pb st) (st_pb st') \<and> st_db st' = st_db st \<and>
     (\<forall>x. r = Inr x \<longrightarrow> D = set (concat kss))"
proof (induction kss arbitrary: st)
  case Nil
  then show ?case by (intro exI [of _ "{}"]) (auto simp: sret_def)
next
  case (Cons ks kss)
  let ?one = "sbind (siter (\<lambda>_. io E) ks) (\<lambda>_. sbind (batch_commit E (map (\<lambda>k. (k, None)) ks)) (\<lambda>_. io E))"
  have one: "\<exists>D. D \<subseteq> set ks \<and> drop_keys D (st_pb st) (st_pb s1) \<and> st_db s1 = st_db st \<and>
      (\<forall>x. q = Inr x \<longrightarrow> D = set ks)" if q: "?one st = (q, s1)" for q s1
    using q
  proof (cases rule: sbindE)
    case (err e)
    have "reads (siter (\<lambda>_. io E) ks)" by (intro frame)
    from readsD [OF this err(1)] show ?thesis using err by (intro exI [of _ "{}"]) (simp add: same_def)
  next
    case (ok u s0)
    have "reads (siter (\<lambda>_. io E) ks)" by (intro frame)
    from readsD [OF this ok(1)] have sm: "same st s0" .
    from ok(2) show ?thesis
    proof (cases rule: sbindE)
      case (err e)
      from err(1) show ?thesis using err(2) sm
        by (cases rule: batch_delete) (intro exI [of _ "{}"], simp add: same_def)+
    next
      case (ok x s2)
      from io_same [OF ok(2)] have "same s2 s1" .
      with ok(1) show ?thesis using sm
        by (cases rule: batch_delete) (intro exI [of _ "set ks"], simp_all add: same_def)
    qed
  qed
  from Cons.prems show ?case unfolding siter.simps
  proof (cases rule: sbindE)
    case (err e)
    from one [OF err(1)] show ?thesis using err(2) by auto
  next
    case (ok u s1)
    from one [OF ok(1)] obtain D where D: "D = set ks" "drop_keys D (st_pb st) (st_pb s1)" "st_db s1 = st_db st"
      by blast
    from Cons.IH [OF ok(2)] obtain D' where D': "D' \<subseteq> set (concat kss)" "drop_keys D' (st_pb s1) (st_pb st')"
      "st_db st' = st_db s1" "\<And>x. r = Inr x \<Longrightarrow> D' = set (concat kss)" by blast
    then show ?thesis
      using D drop_keys_trans [OF D(2) D'(2)] by (intro exI [of _ "D \<union> D'"]) auto
  qed
qed

lemma deleteKeys_drops:
  assumes "deleteKeys E ks st = (r, st')"
  obtains D where "D \<subseteq> set ks" "drop_keys D (st_pb st) (st_pb st')" "st_db st' = st_db st"
    "\<And>x. r = Inr x \<Longrightarrow> D = set ks"
  using delete_slices [OF assms [unfolded deleteKeys_def]] by auto

definition deletable :: "dbObj \<Rightarrow> bytes \<Rightarrow> bool" where
  "deletable db k \<longleftrightarrow> (\<forall>h. k = treeKey h \<longrightarrow> \<not> tree_referenced db h) \<and> (\<forall>h. k = blobKey h \<longrightarrow> \<not> blob_referenced db h)"

lemma consistent_drop:
  assumes "consistent E U db pb" "drop_keys D pb pb'" "\<And>k. k \<in> D \<Longrightarrow> deletable db k"
  shows "consistent E U db pb'"
proof (rule consistent_pb [OF assms(1)])
  show "map_of pb' (treeKey h) = map_of pb (treeKey h)" if "tree_referenced db h" for h
    using that assms(2,3) unfolding drop_keys_def deletable_def by (cases "treeKey h \<in> D") auto
  show "map_of pb' (blobKey h) = map_of pb (blobKey h)" if "blob_referenced db h" for h
    using that assms(2,3) unfolding drop_keys_def deletable_def by (cases "blobKey h \<in> D") auto
  show "ran (map_of pb') \<subseteq> U"
    using drop_keys_ran [OF assms(2)] midD(7) [OF assms(1) [unfolded consistent_def]] by blast
qed

lemma DeleteObjects_consistent:
  assumes "DeleteObjects E objs st = (r, st')" "consistent E U (st_db st) (st_pb st)"
    "\<And>p. p \<in> set objs \<Longrightarrow> deletable (st_db st) (object_key p)"
  obtains D where "D \<subseteq> object_key ` set objs" "drop_keys D (st_pb st) (st_pb st')" "st_db st' = st_db st"
    "consistent E U (st_db st') (st_pb st')" "\<And>x. r = Inr x \<Longrightarrow> D = object_key ` set objs"
proof -
  from assms(1) obtain D where D: "D \<subseteq> set (map object_key objs)" "drop_keys D (st_pb st) (st_pb st')"
    "st_db st' = st_db st" "\<And>x. r = Inr x \<Longrightarrow> D = set (map object_key objs)"
    unfolding DeleteObjects_def by (rule deleteKeys_drops) blast
  have "consistent E U (st_db st') (st_pb st')"
    unfolding D(3) by (rule consistent_drop [OF assms(2) D(2)]) (use D(1) assms(3) in auto)
  then show thesis using that [of D] D by simp
qed

lemma deletable_kind:
  "deletable db (object_key p) \<longleftrightarrow>
     (case fst p of cObjectKindBlob \<Rightarrow> \<not> blob_referenced db (snd p) | cObjectKindTree \<Rightarrow> \<not> tree_referenced db (snd p))"
  by (cases p; cases "fst p") (auto simp: deletable_def)

section \<open>Objects that are checked before they are deleted\<close>

lemma pendingObjectReferenced_Inr:
  assumes "pendingObjectReferenced E p st = (Inr b, st')"
  shows "\<not> b \<longleftrightarrow> deletable (st_db st) (object_key p)"
  using assms unfolding deletable_kind pendingObjectReferenced_def
  by (auto simp: BlobReferenced_def TreeReferenced_def split: objectKindObj.splits dest!: query_Inr)

lemma unreferenced_loop:
  "sfoldl (\<lambda>acc p. sbind (pendingObjectReferenced E p) (\<lambda>r. sret (if r then acc else acc @ [p]))) acc objs st = (Inr xs, st') \<Longrightarrow>
   set xs = set acc \<union> {p \<in> set objs. deletable (st_db st) (object_key p)}"
proof (induction objs arbitrary: acc st)
  case Nil
  then show ?case by (simp add: sret_def)
next
  case (Cons p objs)
  then obtain b s1 where b: "pendingObjectReferenced E p st = (Inr b, s1)"
    and s: "sfoldl (\<lambda>acc p. sbind (pendingObjectReferenced E p) (\<lambda>r. sret (if r then acc else acc @ [p])))
        (if b then acc else acc @ [p]) objs s1 = (Inr xs, st')"
    by (auto simp: op_Inr)
  have "st_db s1 = st_db st" using readsD [OF reads_pendingObjectReferenced b] by (simp add: same_def)
  then show ?case using Cons.IH [OF s] pendingObjectReferenced_Inr [OF b] by auto
qed

lemma unreferenced_objects_Inr:
  assumes "unreferenced_objects E objs st = (Inr xs, st')"
  shows "set xs = {p \<in> set objs. deletable (st_db st) (object_key p)}" "same st st'"
  using unreferenced_loop [OF assms [unfolded unreferenced_objects_def]]
    readsD [OF reads_unreferenced_objects assms] by simp_all

text \<open>A checked deletion of any list of objects: what the garbage collector and the clean-up do.\<close>

lemma checked_delete:
  assumes "sbind (unreferenced_objects E objs) (DeleteObjects E) st = (r, st')"
    and c: "consistent E U (st_db st) (st_pb st)"
  obtains D where "D \<subseteq> object_key ` set objs" "\<And>k. k \<in> D \<Longrightarrow> deletable (st_db st) k"
    "drop_keys D (st_pb st) (st_pb st')"
    "st_db st' = st_db st" "consistent E U (st_db st') (st_pb st')"
    "\<And>x. r = Inr x \<Longrightarrow> D = {k \<in> object_key ` set objs. deletable (st_db st) k}"
proof -
  obtain q s1 where q: "unreferenced_objects E objs st = (q, s1)" by fastforce
  have sm: "same st s1" by (rule readsD [OF reads_unreferenced_objects q])
  show thesis
  proof (cases q)
    case (Inl e)
    then have "st' = s1" "r = Inl e" using assms(1) q by (simp_all add: sbind_def)
    then show thesis using that [of "{}"] sm c by (simp add: same_def)
  next
    case (Inr xs)
    then have d: "DeleteObjects E xs s1 = (r, st')" using assms(1) q by (simp add: sbind_def)
    have xs: "set xs = {p \<in> set objs. deletable (st_db st) (object_key p)}"
      using unreferenced_objects_Inr(1) q Inr by blast
    have c1: "consistent E U (st_db s1) (st_pb s1)" using c sm by (simp add: same_def)
    have "deletable (st_db s1) (object_key p)" if "p \<in> set xs" for p
      using that xs sm by (simp add: same_def)
    from DeleteObjects_consistent [OF d c1 this] obtain D where D: "D \<subseteq> object_key ` set xs"
      "drop_keys D (st_pb s1) (st_pb st')" "st_db st' = st_db s1" "consistent E U (st_db st') (st_pb st')"
      "\<And>x. r = Inr x \<Longrightarrow> D = object_key ` set xs" by blast
    show thesis
    proof (rule that [of D])
      show "D = {k \<in> object_key ` set objs. deletable (st_db st) k}" if "r = Inr x" for x
        using D(5) [OF that] xs by auto
    qed (use D sm xs in \<open>auto simp: same_def\<close>)
  qed
qed

lemma deleteOrphanBatchChecked_consistent:
  assumes "deleteOrphanBatchChecked E objs st = (r, st')" "consistent E U (st_db st) (st_pb st)"
  shows "consistent E U (st_db st') (st_pb st') \<and> st_db st' = st_db st"
  using checked_delete [OF assms(1) [unfolded deleteOrphanBatchChecked_def] assms(2)] by metis

section \<open>Deleting a version\<close>

lemma deleteVersionTx_Inr:
  assumes t: "deleteVersionTx E v es st = (Inr x, st')" and k: "vkey_of v = k"
    and m: "mid E U (st_pb st) M f (st_db st)" and v: "map_of (db_versions (st_db st)) k = Some v"
    and es: "tree_of E (st_pb st) (v_TreeHash v) = Some es"
  shows "mid E U (st_pb st) (M - {k}) f (st_db st')" "st_pb st' = st_pb st"
    "db_versions (st_db st') = AList.delete k (db_versions (st_db st))"
    "db_detection (st_db st') = AList.delete k (db_detection (st_db st))"
proof -
  from t obtain s1 y where s: "SubtractBlobRefs E es st = (Inr y, s1)"
    and d: "DeleteVersionRow E (v_Key v) (v_Version v) s1 = (Inr x, st')"
    unfolding deleteVersionTx_def op_Inr by blast
  obtain refs where refs: "counts es refs"
    "st_db s1 = (st_db st)\<lparr>db_blob_refs := fold sub_ref refs (db_blob_refs (st_db st))\<rparr>"
    "\<forall>r \<in> set refs. covers (db_blob_refs (st_db st)) r" "st_pb s1 = st_pb st"
    using s by (rule SubtractBlobRefs_Inr)
  have kk: "(v_Key v, v_Version v) = k" using k by (simp add: vkey_of_def)
  have db: "st_db st' = db_delete_version k (st_db s1)" "st_pb st' = st_pb s1"
    using exec_Inr [OF d [unfolded DeleteVersionRow_def]] kk by auto
  have m1: "mid E U (st_pb st) M (\<lambda>h. f h - int (occ es h)) (st_db s1)"
    unfolding refs(2) by (rule mid_sub [OF m refs(1,3)])
  have v1: "map_of (db_versions (st_db s1)) k = Some v" using v refs(2) by simp
  have "mid E U (st_pb st) (M - {k}) (\<lambda>h. f h - int (occ es h) + int (occ es h)) (db_delete_version k (st_db s1))"
    by (rule mid_delete_row [OF m1 v1 es])
  then show "mid E U (st_pb st) (M - {k}) f (st_db st')" unfolding db(1) by (rule mid_f) simp
  show "st_pb st' = st_pb st" using db refs by simp
  show "db_versions (st_db st') = AList.delete k (db_versions (st_db st))"
    "db_detection (st_db st') = AList.delete k (db_detection (st_db st))"
    unfolding db(1) refs(2) by (simp_all add: db_delete_version_def)
qed

lemma AddHistory_Inr:
  assumes "AddHistory E key version eventType h message st = (Inr x, st')"
  shows "db_versions (st_db st') = db_versions (st_db st)" "db_detection (st_db st') = db_detection (st_db st)"
    "db_blob_refs (st_db st') = db_blob_refs (st_db st)" "st_pb st' = st_pb st"
  using assms unfolding AddHistory_def
  by (auto simp: op_Inr db_add_history_def dest!: exec_Inr)

text \<open>What is left of a store when the versions and objects shrink.\<close>

definition frees :: "HashObj \<Rightarrow> TreeEntryObj list \<Rightarrow> bytes set" where
  "frees th es = insert (treeKey th) (blobKey ` te_BlobHash ` set es)"

lemma UnreferencedBlobs_loop:
  "sfoldl (\<lambda>acc hs. sbind (query E (\<lambda>db. filter (zero_ref db) hs)) (\<lambda>found. sret (acc @ found))) acc hss st = (Inr xs, st') \<Longrightarrow>
   set xs = set acc \<union> {h \<in> set (concat hss). zero_ref (st_db st) h}"
proof (induction hss arbitrary: acc st)
  case Nil
  then show ?case by (simp add: sret_def)
next
  case (Cons hs hss)
  then obtain found s1 where f: "query E (\<lambda>db. filter (zero_ref db) hs) st = (Inr found, s1)"
    and s: "sfoldl (\<lambda>acc hs. sbind (query E (\<lambda>db. filter (zero_ref db) hs)) (\<lambda>found. sret (acc @ found)))
        (acc @ found) hss s1 = (Inr xs, st')"
    by (auto simp: op_Inr)
  show ?case using Cons.IH [OF s] query_Inr [OF f] by (auto simp: same_def)
qed

lemma UnreferencedBlobs_Inr:
  assumes "UnreferencedBlobs E hs st = (Inr xs, st')"
  shows "set xs = {h \<in> set hs. zero_ref (st_db st) h}"
  using UnreferencedBlobs_loop [OF assms [unfolded UnreferencedBlobs_def]] by simp

lemma DeleteUnreferenced_effect:
  "siter (\<lambda>hs. exec E (\<lambda>db. Inr (db_drop_zero_refs hs db))) hss st = (r, st') \<Longrightarrow>
   mid E U pb M f (st_db st) \<Longrightarrow>
   mid E U pb M f (st_db st') \<and> st_pb st' = st_pb st \<and> db_versions (st_db st') = db_versions (st_db st) \<and>
   db_detection (st_db st') = db_detection (st_db st) \<and>
   (\<forall>h. rc (db_blob_refs (st_db st')) h = rc (db_blob_refs (st_db st)) h)"
proof (induction hss arbitrary: st)
  case Nil
  then show ?case by (simp add: sret_def)
next
  case (Cons hs hss)
  obtain q s1 where q: "exec E (\<lambda>db. Inr (db_drop_zero_refs hs db)) st = (q, s1)" by fastforce
  show ?case
  proof (cases q)
    case (Inl e)
    then have "same st st'" using Cons.prems(1) q exec_Inl by (auto simp: sbind_def)
    then show ?thesis using Cons.prems(2) by (simp add: same_def)
  next
    case (Inr u)
    then have s: "siter (\<lambda>hs. exec E (\<lambda>db. Inr (db_drop_zero_refs hs db))) hss s1 = (r, st')"
      using Cons.prems(1) q by (simp add: sbind_def)
    have db: "st_db s1 = db_drop_zero_refs hs (st_db st)" "st_pb s1 = st_pb st"
      using exec_Inr q Inr by fastforce+
    have m1: "mid E U pb M f (st_db s1)" unfolding db by (rule mid_drop_zero [OF Cons.prems(2)])
    have vs: "db_versions (st_db s1) = db_versions (st_db st)" "db_detection (st_db s1) = db_detection (st_db st)"
      unfolding db by (simp_all add: db_drop_zero_refs_def)
    have "rc (db_blob_refs (st_db s1)) h = rc (db_blob_refs (st_db st)) h" for h
      using midD(5) [OF m1, of h] midD(5) [OF Cons.prems(2), of h] vs by simp
    then show ?thesis using Cons.IH [OF s m1] db vs by simp
  qed
qed

lemma cleanupDeleted_consistent:
  assumes t: "cleanupDeletedObjectsLocked E th es st = (r, st')" and c: "consistent E U (st_db st) (st_pb st)"
  obtains D where "D \<subseteq> frees th es" "drop_keys D (st_pb st) (st_pb st')" "consistent E U (st_db st') (st_pb st')"
    "db_versions (st_db st') = db_versions (st_db st)"
proof -
  note res = that
  have dflt: thesis if sm: "same st st'" by (rule res [of "{}"]) (use sm c in \<open>simp_all add: same_def\<close>)
  from t show thesis unfolding cleanupDeletedObjectsLocked_def
  proof (cases rule: sbindE)
    case (err e)
    then show thesis using dflt readsD [OF reads_statements(8)] by blast
  next
    case (ok tb s0)
    have sm0: "same st s0" using reads_statements(8) ok(1) by (rule readsD)
    have tb: "tb = tree_referenced (st_db st) th" using query_Inr [OF ok(1) [unfolded TreeReferenced_def]] by simp
    let ?hs = "first_occurrences (map te_BlobHash es)"
    from ok(2) show thesis
    proof (cases rule: sbindE)
      case (err e)
      then show thesis using dflt same_trans [OF sm0 readsD [OF reads_statements(14) err(1)]] by simp
    next
      case (ok xs s1)
      have sm1: "same st s1" using same_trans [OF sm0 readsD [OF reads_statements(14) ok(1)]] .
      have xs: "set xs = {h \<in> te_BlobHash ` set es. zero_ref (st_db st) h}"
        using UnreferencedBlobs_Inr [OF ok(1)] sm0 by (auto simp: same_def first_occurrences_def)
      have m1: "mid E U (st_pb st) {} (\<lambda>_. 0) (st_db s1)" using c sm1 by (simp add: consistent_def same_def)
      have drop: "consistent E U (st_db s2) (st_pb s2)" "st_pb s2 = st_pb st" "db_versions (st_db s2) = db_versions (st_db st)"
        "rc (db_blob_refs (st_db s2)) h = rc (db_blob_refs (st_db st)) h"
        if "DeleteUnreferencedBlobRefs E xs s1 = (q, s2)" for q s2 h
        using DeleteUnreferenced_effect [OF that [unfolded DeleteUnreferencedBlobRefs_def] m1] sm1
        by (simp_all add: consistent_def same_def)
      from ok(2) show thesis
      proof (cases rule: sbindE)
        case (err e)
        note d = drop [OF err(1)]
        show thesis by (rule res [of "{}"]) (use d in simp_all)
      next
        case (ok u s2)
        note d2 = drop [OF ok(1)]
        let ?objs = "(if tb then [] else [PendingTree th]) @ map PendingBlob xs"
        have dl: "deletable (st_db s2) (object_key p)" if "p \<in> set ?objs" for p
        proof -
          have "rc (db_blob_refs (st_db s2)) h = 0" if "h \<in> set xs" for h
            using that xs zero_ref_rc d2(4) by simp
          moreover have "\<not> tb \<Longrightarrow> \<not> tree_referenced (st_db s2) th"
            using tb d2(3) by (simp add: tree_referenced_row)
          ultimately show ?thesis using that
            by (auto simp: deletable_def blob_referenced_rc split: if_splits)
        qed
        have fr: "object_key ` set ?objs \<subseteq> frees th es" using xs by (auto simp: frees_def)
        show thesis
        proof (rule DeleteObjects_consistent [OF ok(2) d2(1) dl])
          fix D assume D: "D \<subseteq> object_key ` set ?objs" "drop_keys D (st_pb s2) (st_pb st')"
            "st_db st' = st_db s2" "consistent E U (st_db st') (st_pb st')"
          show thesis
            by (rule res [OF subset_trans [OF D(1) fr] D(2) [unfolded d2(2)] D(4)]) (simp only: D(3) d2(3))
        qed
      qed
    qed
  qed
qed

end
