(* ===== verification/Store_Evict.thy ===== *)
theory Store_Evict
  imports Store_Delete
begin

text \<open>
  Deleting versions and eviction: every deletion, complete or interrupted, keeps the store
  consistent; eviction only removes versions that are not retained and not protected, and leaves
  the protected objects in place.
\<close>

lemma validateEventType_simps [simp]:
  "validateEventType ''delete'' = Inr ''delete''"
  "validateEventType ''upstream_deleted'' = Inr ''upstream_deleted''"
  "validateEventType ''publish'' = Inr ''publish''"
  by code_simp+

lemma GetVersion_Inr:
  "GetVersion E key version st = (Inr found, st') \<Longrightarrow>
   found = map_of (db_versions (st_db st)) (key, version) \<and> same st st'"
  unfolding GetVersion_def by (rule query_Inr)

lemma row_vkey: "keys_ok db \<Longrightarrow> map_of (db_versions db) k = Some v \<Longrightarrow> vkey_of v = k"
  using keysD(2) [of db "(k, v)"] map_of_SomeD [of "db_versions db" k v] by simp

lemma row_tree:
  assumes "consistent E U db pb" "map_of (db_versions db) k = Some v"
  obtains es where "tree_ready E pb (v_TreeHash v) es"
  using midD(2) [OF assms(1) [unfolded consistent_def]] map_of_SomeD [OF assms(2)]
  unfolding rows_ok_def by fastforce

lemma readTree_tree_of: "readTreeInternal E h st = (Inr es, st') \<Longrightarrow> tree_of E (st_pb st) h = Some es"
  by (erule readTreeInternal_Inr) (rule tree_of_readable)

lemma deleteVersionLocked_cases:
  assumes t: "deleteVersionLocked E key version st = (r, st')" and c: "consistent E U (st_db st) (st_pb st)"
  obtains (kept) "same st st'" "\<And>x. r = Inr x \<Longrightarrow> x = (False, 0) \<and> map_of (db_versions (st_db st)) (key, version) = None"
    | (gone) v es D where "map_of (db_versions (st_db st)) (key, version) = Some v"
      "tree_of E (st_pb st) (v_TreeHash v) = Some es" "D \<subseteq> frees (v_TreeHash v) es"
      "drop_keys D (st_pb st) (st_pb st')" "consistent E U (st_db st') (st_pb st')"
      "db_versions (st_db st') = AList.delete (key, version) (db_versions (st_db st))"
      "\<And>x. r = Inr x \<Longrightarrow> fst x"
proof -
  note m = c [unfolded consistent_def]
  have t1: "sbind (GetVersion E key version) (\<lambda>found.
     case found of None \<Rightarrow> sret (False, 0)
     | Some versionObj \<Rightarrow>
         sbind (readTreeInternal E (v_TreeHash versionObj)) (\<lambda>treeArr.
         sbind (slift (treePayloadEstimate treeArr)) (\<lambda>estimateBytes.
         sbind (WithTx E
           (sbind (ArtifactPaths E key version) (\<lambda>_.
            sbind (deleteVersionTx E versionObj treeArr) (\<lambda>_.
            AddHistory E key version ''delete'' (v_TreeHash versionObj) [])))) (\<lambda>_.
         sbind (cleanupDeletedObjectsLocked E (v_TreeHash versionObj) treeArr) (\<lambda>_.
         sret (True, estimateBytes)))))) st = (r, st')"
    using t unfolding deleteVersionLocked_def by (simp add: sbind_def [of "slift _"] slift_def)
  from t1 show thesis
  proof (cases rule: sbindE)
    case (err e)
    show thesis by (rule kept) (use err readsD [OF reads_statements(1) err(1)] in simp_all)
  next
    case (ok found s1)
    note g = GetVersion_Inr [OF ok(1)]
    show thesis
    proof (cases found)
      case None
      then show thesis using kept g ok(2) by (auto simp: sret_def)
    next
      case (Some v)
      have v: "map_of (db_versions (st_db st)) (key, version) = Some v" using g Some by simp
      have vk: "vkey_of v = (key, version)" by (rule row_vkey [OF midD(1) [OF m] v])
      from ok(2) [unfolded Some option.case] show thesis
      proof (cases rule: sbindE)
        case (err e)
        show thesis by (rule kept)
          (use err same_trans [OF conjunct2 [OF g] readsD [OF reads_readTreeInternal err(1)]] in simp_all)
      next
        case (ok es s2)
        have sm2: "same st s2" by (rule same_trans [OF conjunct2 [OF g] readsD [OF reads_readTreeInternal ok(1)]])
        have es: "tree_of E (st_pb st) (v_TreeHash v) = Some es"
          using readTree_tree_of [OF ok(1)] g by (simp add: same_def)
        from ok(2) show thesis
        proof (cases rule: sbindE)
          case (err e)
          show thesis by (rule kept) (use err sm2 in \<open>simp_all add: slift_def\<close>)
        next
          case (ok est s3)
          then have s3: "s3 = s2" by (simp add: slift_def)
          from ok(2) show thesis
          proof (cases rule: sbindE)
            case (err e)
            have d: "keeps_pb (deleteVersionTx E v es)" unfolding deleteVersionTx_def by (intro frame)
            have "keeps_pb (sbind (ArtifactPaths E key version) (\<lambda>_. sbind (deleteVersionTx E v es) (\<lambda>_.
                AddHistory E key version ''delete'' (v_TreeHash v) [])))"
              by (intro keeps_pb_bind d commands_pb reads_pb [OF reads_statements(9)])
            from same_trans [OF sm2 [folded s3] WithTx_Inl [OF err(1) this]] show thesis
              by (rule kept) (use err in simp)
          next
            case (ok u s4)
            from ok(1) obtain a b where ab: "same s3 a" "sbind (ArtifactPaths E key version) (\<lambda>_.
                sbind (deleteVersionTx E v es) (\<lambda>_. AddHistory E key version ''delete'' (v_TreeHash v) [])) a = (Inr u, b)"
              "same b s4" by (rule WithTx_Inr)
            from ab(2) obtain p a1 y a2 where p: "ArtifactPaths E key version a = (Inr p, a1)"
              and d: "deleteVersionTx E v es a1 = (Inr y, a2)"
              and h: "AddHistory E key version ''delete'' (v_TreeHash v) [] a2 = (Inr u, b)"
              unfolding op_Inr by blast
            have sm: "same st a1"
              using sm2 s3 ab(1) readsD [OF reads_statements(9) p] same_trans by blast
            have m1: "mid E U (st_pb a1) {} (\<lambda>_. 0) (st_db a1)"
              and v1: "map_of (db_versions (st_db a1)) (key, version) = Some v"
              and es1: "tree_of E (st_pb a1) (v_TreeHash v) = Some es"
              using sm m v es by (simp_all add: same_def)
            note dv = deleteVersionTx_Inr [OF d vk m1 v1 es1]
            note hi = AddHistory_Inr [OF h]
            have c4: "consistent E U (st_db s4) (st_pb s4)"
              using mid_cong [OF dv(1) hi(1,2,3)] dv(2) hi(4) ab(3) by (simp add: consistent_def same_def)
            have pb4: "st_pb s4 = st_pb st" using dv(2) hi(4) ab(3) sm by (simp add: same_def)
            have vs4: "db_versions (st_db s4) = AList.delete (key, version) (db_versions (st_db st))"
              using dv(3) hi(1) ab(3) sm by (simp add: same_def)
            from ok(2) obtain q s5 where q: "cleanupDeletedObjectsLocked E (v_TreeHash v) es s4 = (q, s5)"
              and r: "st' = s5" "\<And>x. r = Inr x \<Longrightarrow> fst x"
              by (cases rule: sbindE) (auto simp: sret_def)
            show thesis
            proof (rule cleanupDeleted_consistent [OF q c4])
              fix D assume D: "D \<subseteq> frees (v_TreeHash v) es" "drop_keys D (st_pb s4) (st_pb s5)"
                "consistent E U (st_db s5) (st_pb s5)" "db_versions (st_db s5) = db_versions (st_db s4)"
              show thesis
                by (rule gone [OF v es D(1)]) (use D pb4 vs4 r in simp_all)
            qed
          qed
        qed
      qed
    qed
  qed
qed

section \<open>Eviction\<close>

definition protected_keys :: "protectedObjectsObj \<Rightarrow> bytes set" where
  "protected_keys prot = treeKey ` set (pr_trees prot) \<union> blobKey ` set (pr_blobs prot)"

text \<open>
  \<open>evicting\<close>: the store is consistent, its versions are a part of the rows \<open>VS\<close> that still has the
  versions \<open>R\<close>, and the protected objects are what they were (\<open>Q\<close>).
\<close>

definition evicting ::
  "store_env \<Rightarrow> bytes set \<Rightarrow> (vkey \<times> VersionObj) list \<Rightarrow> vkey set \<Rightarrow> protectedObjectsObj \<Rightarrow>
   (bytes \<rightharpoonup> bytes) \<Rightarrow> storeObj \<Rightarrow> bool" where
  "evicting E U VS R prot Q st \<longleftrightarrow> consistent E U (st_db st) (st_pb st) \<and>
     (\<exists>S. R \<subseteq> S \<and> db_versions (st_db st) = filter (\<lambda>r. fst r \<in> S) VS) \<and>
     (\<forall>k \<in> protected_keys prot. map_of (st_pb st) k = Q k)"

lemma evicting_same: "evicting E U VS R prot Q st \<Longrightarrow> same st st' \<Longrightarrow> evicting E U VS R prot Q st'"
  by (simp add: evicting_def same_def)

lemma evictingD:
  assumes "evicting E U VS R prot Q st"
  obtains S where "R \<subseteq> S" "db_versions (st_db st) = filter (\<lambda>r. fst r \<in> S) VS"
  using assms unfolding evicting_def by blast

lemma evicting_reads:
  "reads m \<Longrightarrow> (\<And>st x st'. evicting E U VS R prot Q st \<Longrightarrow> m st = (Inr x, st') \<Longrightarrow> P x) \<Longrightarrow>
   triple (evicting E U VS R prot Q) m (\<lambda>x st. evicting E U VS R prot Q st \<and> P x) (\<lambda>_. evicting E U VS R prot Q)"
  by (rule tripleI) (auto dest: readsD intro: evicting_same)

lemma evicting_reads':
  "reads m \<Longrightarrow> triple (evicting E U VS R prot Q) m (\<lambda>_. evicting E U VS R prot Q) (\<lambda>_. evicting E U VS R prot Q)"
  by (rule tripleI) (auto dest: readsD intro: evicting_same)

text \<open>A listed version: a row of \<open>VS\<close>, possibly without its notes.\<close>

definition listed :: "(vkey \<times> VersionObj) list \<Rightarrow> VersionObj \<Rightarrow> bool" where
  "listed VS v \<longleftrightarrow> (\<exists>v0. (vkey_of v, v0) \<in> set VS \<and> v_TreeHash v0 = v_TreeHash v)"

definition keyed :: "(vkey \<times> VersionObj) list \<Rightarrow> bool" where
  "keyed VS \<longleftrightarrow> distinct (map fst VS) \<and> (\<forall>r \<in> set VS. vkey_of (snd r) = fst r)"

definition unprotected :: "store_env \<Rightarrow> protectedObjectsObj \<Rightarrow> VersionObj \<Rightarrow> (bytes \<times> bytes) list \<Rightarrow> bool" where
  "unprotected E prot v pb \<longleftrightarrow>
     (\<forall>es. tree_of E pb (v_TreeHash v) = Some es \<longrightarrow> frees (v_TreeHash v) es \<inter> protected_keys prot = {})"

lemma versionProtected_False:
  assumes "versionProtected E v prot st = (Inr False, st')"
  shows "unprotected E prot v (st_pb st)"
  unfolding unprotected_def
proof (intro allI impI)
  fix es assume es: "tree_of E (st_pb st) (v_TreeHash v) = Some es"
  show "frees (v_TreeHash v) es \<inter> protected_keys prot = {}"
  proof (cases "pr_trees prot = [] \<and> pr_blobs prot = []")
    case True
    then show ?thesis by (simp add: protected_keys_def)
  next
    case False
    then have nt: "v_TreeHash v \<notin> set (pr_trees prot)"
      using assms by (auto simp: versionProtected_def sret_def split: if_splits)
    show ?thesis
    proof (cases "pr_blobs prot = []")
      case True
      then show ?thesis using nt by (auto simp: frees_def protected_keys_def)
    next
      case nb: False
      then obtain es' s1 where t: "readTreeInternal E (v_TreeHash v) st = (Inr es', s1)"
        and e: "\<not> list_ex (\<lambda>e. te_BlobHash e \<in> set (pr_blobs prot)) es'"
        using assms nt by (auto simp: versionProtected_def op_Inr)
      have "es' = es" using readTree_tree_of [OF t] es by simp
      then show ?thesis using e nt by (auto simp: frees_def protected_keys_def list_ex_iff)
    qed
  qed
qed

lemma delete_evicting:
  assumes ev: "evicting E U VS R prot Q st" and un: "unprotected E prot v (st_pb st)" and ls: "listed VS v"
    and ky: "keyed VS" and nr: "vkey_of v \<notin> R"
    and t: "deleteVersionLocked E (v_Key v) (v_Version v) st = (r, st')"
  shows "evicting E U VS R prot Q st'"
proof -
  have c: "consistent E U (st_db st) (st_pb st)" using ev by (simp add: evicting_def)
  obtain S where S: "R \<subseteq> S" "db_versions (st_db st) = filter (\<lambda>r. fst r \<in> S) VS" by (rule evictingD [OF ev])
  from t c show ?thesis
  proof (cases rule: deleteVersionLocked_cases)
    case kept
    then show ?thesis using ev evicting_same by blast
  next
    case (gone v' es D)
    have vk: "(v_Key v, v_Version v) = vkey_of v" by (simp add: vkey_of_def)
    have "(vkey_of v, v') \<in> set VS" using map_of_SomeD [OF gone(1)] unfolding S(2) vk by simp
    moreover obtain v0 where v0: "(vkey_of v, v0) \<in> set VS" "v_TreeHash v0 = v_TreeHash v"
      using ls unfolding listed_def by blast
    ultimately have "v' = v0" using ky unfolding keyed_def by (metis eq_key_imp_eq_value)
    then have th: "v_TreeHash v' = v_TreeHash v" using v0 by simp
    have dis: "D \<inter> protected_keys prot = {}"
      using un gone(2,3) unfolding unprotected_def th by blast
    have "map_of (st_pb st') k = Q k" if "k \<in> protected_keys prot" for k
      using ev gone(4) dis that unfolding evicting_def drop_keys_def by auto
    moreover have "db_versions (st_db st') = filter (\<lambda>r. fst r \<in> S - {vkey_of v}) VS"
      unfolding gone(6) S(2) vk AList.delete_eq filter_filter by (rule filter_cong) auto
    moreover have "R \<subseteq> S - {vkey_of v}" using S(1) nr by blast
    ultimately show ?thesis using gone(5) unfolding evicting_def by blast
  qed
qed

text \<open>Check, then delete: the step all eviction loops share.\<close>

definition evictable :: "(vkey \<times> VersionObj) list \<Rightarrow> vkey set \<Rightarrow> VersionObj \<Rightarrow> bool" where
  "evictable VS R v \<longleftrightarrow> keyed VS \<and> listed VS v \<and> vkey_of v \<notin> R"

lemma checked_evict:
  assumes "evictable VS R v"
  shows "triple (\<lambda>st. evicting E U VS R prot Q st \<and> unprotected E prot v (st_pb st))
    (deleteVersionLocked E (v_Key v) (v_Version v)) (\<lambda>_. evicting E U VS R prot Q) (\<lambda>_. evicting E U VS R prot Q)"
  by (rule tripleI) (use delete_evicting assms in \<open>blast dest: evictable_def [THEN iffD1]\<close>)+

lemma versionProtected_triple:
  "triple (evicting E U VS R prot Q) (versionProtected E v prot)
     (\<lambda>b st. evicting E U VS R prot Q st \<and> (\<not> b \<longrightarrow> unprotected E prot v (st_pb st))) (\<lambda>_. evicting E U VS R prot Q)"
proof (rule tripleI)
  fix st b st' assume ev: "evicting E U VS R prot Q st" and t: "versionProtected E v prot st = (Inr b, st')"
  have sm: "same st st'" by (rule readsD [OF reads_versionProtected t])
  show "evicting E U VS R prot Q st' \<and> (\<not> b \<longrightarrow> unprotected E prot v (st_pb st'))"
    using evicting_same [OF ev sm] versionProtected_False [of E v prot st st'] t sm by (cases b) (auto simp: same_def)
qed (use readsD [OF reads_versionProtected] evicting_same in blast)

lemma triple_pre: "triple P' m Q E \<Longrightarrow> (\<And>s. P s \<Longrightarrow> P' s) \<Longrightarrow> triple P m Q E"
  by (simp add: triple_def)

lemma triple_fact: "(R \<Longrightarrow> triple P m Q E) \<Longrightarrow> triple (\<lambda>s. P s \<and> R) m Q E"
  by (simp add: triple_def)

lemma evict_unless:
  assumes "evictable VS R v" "triple (evicting E U VS R prot Q) m1 P (\<lambda>_. evicting E U VS R prot Q)"
    "\<And>x. triple (evicting E U VS R prot Q) (m2 x) P (\<lambda>_. evicting E U VS R prot Q)"
  shows "triple (evicting E U VS R prot Q)
    (sbind (versionProtected E v prot) (\<lambda>b. if b then m1 else sbind (deleteVersionLocked E (v_Key v) (v_Version v)) m2))
    P (\<lambda>_. evicting E U VS R prot Q)"
proof (rule triple_bind [OF _ versionProtected_triple])
  fix b
  show "triple (\<lambda>st. evicting E U VS R prot Q st \<and> (\<not> b \<longrightarrow> unprotected E prot v (st_pb st)))
    (if b then m1 else sbind (deleteVersionLocked E (v_Key v) (v_Version v)) m2) P (\<lambda>_. evicting E U VS R prot Q)"
  proof (cases b)
    case True
    then show ?thesis using triple_pre [OF assms(2)] by simp
  next
    case False
    then show ?thesis
      using triple_pre [OF triple_bind [OF assms(3) checked_evict [OF assms(1)]]] by simp
  qed
qed

lemma sbind_if: "sbind (if b then m1 else m2) f = (if b then sbind m1 f else sbind m2 f)" by simp

lemma sbind_assoc: "sbind (sbind m f) g = sbind m (\<lambda>x. sbind (f x) g)"
  by (rule ext) (simp add: sbind_def split: prod.splits sum.splits)

lemma sret_bind [simp]: "sbind (sret x) f = f x"
  by (rule ext) (simp add: sbind_def sret_def)

lemma prune_delete_evicting:
  "\<forall>v \<in> set vs. evictable VS R v \<Longrightarrow>
   triple (evicting E U VS R prot Q) (prune_delete E prot vs) (\<lambda>_. evicting E U VS R prot Q) (\<lambda>_. evicting E U VS R prot Q)"
proof (induction vs)
  case Nil
  then show ?case by (simp add: triple_ret)
next
  case (Cons v vs)
  then show ?case unfolding prune_delete.simps sbind_if sbind_assoc sret_bind
    by (intro evict_unless) simp_all
qed

end
