(* ===== verification/Store_Paging.thy ===== *)
theory Store_Paging
  imports Store_Evict
begin

text \<open>
  Walks over pages. \<open>is_page f T after n rs\<close>: \<open>rs\<close> is the page of the table \<open>T\<close> beyond the
  cursor \<open>after\<close>, in the order of \<open>f\<close>; rows that are left out come after it, and only when it
  has \<open>n\<close> rows. The locale \<open>keyset_table\<close> is the contract between a paging statement of the index
  and the loops that walk over it; it gives that a walk ends within the fuel it has and visits every
  row exactly once. Every paging statement is an interpretation.
\<close>

section \<open>Pages\<close>

definition beyond :: "('r \<Rightarrow> 'k :: linorder) \<Rightarrow> 'r set \<Rightarrow> 'k option \<Rightarrow> 'r set" where
  "beyond f T after = {r \<in> T. case after of None \<Rightarrow> True | Some a \<Rightarrow> a < f r}"

definition is_page :: "('r \<Rightarrow> 'k :: linorder) \<Rightarrow> 'r set \<Rightarrow> 'k option \<Rightarrow> nat \<Rightarrow> 'r list \<Rightarrow> bool" where
  "is_page f T after n rs \<longleftrightarrow> sorted_wrt (<) (map f rs) \<and> set rs \<subseteq> beyond f T after \<and>
     (\<forall>r \<in> beyond f T after - set rs. n \<le> length rs \<and> (\<forall>q \<in> set rs. f q < f r))"

lemma beyond_None [simp]: "beyond f T None = T"
  by (simp add: beyond_def)

lemma beyond_subset: "beyond f T after \<subseteq> T"
  by (auto simp: beyond_def)

lemma is_pageD:
  assumes "is_page f T after n rs"
  shows "sorted_wrt (<) (map f rs)" "set rs \<subseteq> beyond f T after"
    "r \<in> beyond f T after \<Longrightarrow> r \<notin> set rs \<Longrightarrow> n \<le> length rs"
    "r \<in> beyond f T after \<Longrightarrow> r \<notin> set rs \<Longrightarrow> q \<in> set rs \<Longrightarrow> f q < f r"
  using assms unfolding is_page_def by auto

lemma is_page_distinct: "is_page f T after n rs \<Longrightarrow> distinct rs"
  using strict_sorted_iff [of "map f rs"] by (simp add: is_page_def distinct_map)

lemma page_last:
  assumes p: "is_page f T after n rs" and ne: "rs \<noteq> []"
  shows "beyond f T (Some (f (last rs))) = beyond f T after - set rs"
proof -
  have le: "f q \<le> f (last rs)" if q: "q \<in> set rs" for q
  proof -
    have "rs = butlast rs @ [last rs]" using ne by simp
    then have "sorted_wrt (<) (map f (butlast rs) @ [f (last rs)])"
      using is_pageD(1) [OF p] by (metis list.simps(8) list.simps(9) map_append)
    then have "\<forall>x \<in> set (butlast rs). f x < f (last rs)" by (simp add: sorted_wrt_append)
    moreover have "q \<in> set (butlast rs) \<or> q = last rs" using q ne by (metis in_set_conv_decomp
          \<open>rs = butlast rs @ [last rs]\<close> Un_iff empty_iff insert_iff list.set(1) list.simps(15) set_append)
    ultimately show ?thesis by auto
  qed
  have in_b: "last rs \<in> beyond f T after" using is_pageD(2) [OF p] last_in_set [OF ne] by blast
  show ?thesis
  proof (intro set_eqI iffI)
    fix r assume r: "r \<in> beyond f T (Some (f (last rs)))"
    then have "r \<in> T" "f (last rs) < f r" by (auto simp: beyond_def)
    then show "r \<in> beyond f T after - set rs"
      using in_b le [of r] by (cases after) (auto simp: beyond_def)
  next
    fix r assume r: "r \<in> beyond f T after - set rs"
    then show "r \<in> beyond f T (Some (f (last rs)))"
      using is_pageD(4) [OF p, of r "last rs"] last_in_set [OF ne] by (auto simp: beyond_def)
  qed
qed

lemma page_short: "is_page f T after n rs \<Longrightarrow> length rs < n \<Longrightarrow> set rs = beyond f T after"
  using is_pageD(2,3) [of f T after n rs] by fastforce

lemma is_page_take:
  assumes s: "sorted_wrt (<) (map f rows)" and m: "n \<le> m"
  shows "is_page f (set rows) after n (take m (filter (\<lambda>r. case after of None \<Rightarrow> True | Some a \<Rightarrow> a < f r) rows))"
proof -
  let ?xs = "filter (\<lambda>r. case after of None \<Rightarrow> True | Some a \<Rightarrow> a < f r) rows"
  have sx: "sorted_wrt (<) (map f ?xs)"
    using s sorted_wrt_filter [of "\<lambda>a b. f a < f b" rows] by (simp add: sorted_wrt_map)
  have b: "beyond f (set rows) after = set ?xs" by (auto simp: beyond_def)
  have td: "sorted_wrt (\<lambda>a b. f a < f b) (take m ?xs @ drop m ?xs)" using sx by (simp add: sorted_wrt_map)
  have "sorted_wrt (<) (map f (take m ?xs))"
    using td by (simp only: sorted_wrt_append sorted_wrt_map)
  moreover have "set (take m ?xs) \<subseteq> set ?xs" by (rule set_take_subset)
  moreover have "n \<le> length (take m ?xs) \<and> (\<forall>q \<in> set (take m ?xs). f q < f r)"
    if "r \<in> set ?xs - set (take m ?xs)" for r
  proof -
    have d: "r \<in> set (drop m ?xs)"
      using that append_take_drop_id [of m ?xs] by (metis DiffE Un_iff set_append)
    then have "m < length ?xs" by (metis drop_all length_pos_if_in_set less_numeral_extra(3) list.size(3) not_le)
    moreover have "\<forall>q \<in> set (take m ?xs). f q < f r" using td d unfolding sorted_wrt_append by blast
    ultimately show ?thesis using m by simp
  qed
  ultimately show ?thesis unfolding is_page_def b by blast
qed

lemma is_page_key_page: "sorted_wrt (<) ks \<Longrightarrow> is_page id (set ks) after n (key_page ks after n)"
  using is_page_take [of id ks n "max 1 n" after] by (cases after) (simp_all add: key_page_def)

lemma is_page_map:
  assumes p: "is_page id K after n ks" and g: "\<And>k. f (g k) = k"
  shows "is_page f (g ` K) after n (map g ks)"
proof -
  have i: "g k = g k' \<longleftrightarrow> k = k'" for k k' using g by metis
  have b: "beyond f (g ` K) after = g ` beyond id K after" 
    by (intro set_eqI iffI; cases after) (auto simp: beyond_def g)
  have "n \<le> length (map g ks) \<and> (\<forall>q \<in> set (map g ks). f q < f r)"
    if r: "r \<in> g ` beyond id K after - set (map g ks)" for r
  proof -
    obtain k where "r = g k" "k \<in> beyond id K after" "k \<notin> set ks" using r by auto
    then show ?thesis using is_pageD(3,4) [OF p, of k] g by auto
  qed
  then show ?thesis using is_pageD(1,2) [OF p] g unfolding is_page_def b by (auto simp: comp_def)
qed

section \<open>The contract of a paging statement\<close>

definition at :: "dbObj \<Rightarrow> (bytes \<times> bytes) list \<Rightarrow> storeObj \<Rightarrow> bool" where
  "at db pb st \<longleftrightarrow> st_db st = db \<and> st_pb st = pb"

lemma at_same: "at db pb st \<Longrightarrow> same st st' \<Longrightarrow> at db pb st'"
  by (simp add: at_def same_def)

lemma sfoldl_visits:
  assumes "sfoldl step acc rs st = (Inr acc', st')" and rd: "\<And>acc r. reads (step acc r)"
    and "at db pb st" "distinct rs" "set rs \<inter> seen = {}" "set rs \<union> seen \<subseteq> T" "I acc seen"
    and step: "\<And>acc r seen st acc' st'. step acc r st = (Inr acc', st') \<Longrightarrow> at db pb st \<Longrightarrow> I acc seen \<Longrightarrow>
      r \<in> T - seen \<Longrightarrow> seen \<subseteq> T \<Longrightarrow> I acc' (insert r seen)"
  shows "I acc' (seen \<union> set rs) \<and> at db pb st'"
  using assms(1,3-7)
proof (induction rs arbitrary: acc seen st)
  case Nil
  then show ?case by (simp add: sret_def)
next
  case (Cons r rs)
  from Cons.prems(1) obtain acc1 s1 where s: "step acc r st = (Inr acc1, s1)" "sfoldl step acc1 rs s1 = (Inr acc', st')"
    by (auto simp: op_Inr)
  have at1: "at db pb s1" using at_same [OF Cons.prems(2) readsD [OF rd s(1)]] .
  have i1: "I acc1 (insert r seen)"
    by (rule step [OF s(1) Cons.prems(2,6)]) (use Cons.prems in auto)
  have "I acc' (insert r seen \<union> set rs) \<and> at db pb st'"
    by (rule Cons.IH [OF s(2) at1]) (use Cons.prems i1 in auto)
  then show ?case by simp
qed

locale keyset_table =
  fixes pageFunc :: "store_env \<Rightarrow> 'c option \<Rightarrow> nat \<Rightarrow> 'r list sto"
    and rows :: "dbObj \<Rightarrow> 'r set"
    and cursor :: "'r \<Rightarrow> 'c"
    and ord :: "'c \<Rightarrow> 'k :: linorder"
    and bound :: "dbObj \<Rightarrow> nat"
  assumes reads_page: "reads (pageFunc E after n)"
    and page: "pageFunc E after n st = (Inr rs, st') \<Longrightarrow> keys_ok (st_db st) \<Longrightarrow> 0 < n \<Longrightarrow>
      is_page (ord \<circ> cursor) (rows (st_db st)) (map_option ord after) n rs"
    and finite_rows: "finite (rows db)"
    and bound: "card (rows db) \<le> bound db"
begin

abbreviation "rest db after \<equiv> beyond (ord \<circ> cursor) (rows db) (map_option ord after)"

lemma rest_finite: "finite (rest db after)"
  by (rule finite_subset [OF beyond_subset finite_rows])

lemma walk_visits:
  assumes "paged_walk fuel E (pageFunc E) cursor n step after acc st = (Inr res, st')"
    and rd: "\<And>acc r. reads (step acc r)" and k: "keys_ok db" and n: "0 < n" and "at db pb st"
    and "card (rest db after) < fuel" and "I acc (rows db - rest db after)"
    and step: "\<And>acc r seen st acc' st'. step acc r st = (Inr acc', st') \<Longrightarrow> at db pb st \<Longrightarrow> I acc seen \<Longrightarrow>
      r \<in> rows db - seen \<Longrightarrow> seen \<subseteq> rows db \<Longrightarrow> I acc' (insert r seen)"
  shows "\<exists>acc'. res = Some acc' \<and> I acc' (rows db) \<and> at db pb st'"
  using assms(1,5-7)
proof (induction fuel arbitrary: after acc st)
  case 0
  then show ?case by simp
next
  case (Suc fuel)
  from Suc.prems(1) obtain s1 s2 s3 rs acc1 where i: "io E st = (Inr (), s1)" and p: "pageFunc E after n s1 = (Inr rs, s2)"
    and f: "sfoldl step acc rs s2 = (Inr acc1, s3)"
    and r: "(if length rs < n then sret (Some acc1)
       else paged_walk fuel E (pageFunc E) cursor n step (Some (cursor (last rs))) acc1) s3 = (Inr res, st')"
    by (auto simp: op_Inr)
  have a1: "at db pb s1" using at_same [OF Suc.prems(2) io_same [OF i]] .
  have a2: "at db pb s2" using at_same [OF a1 readsD [OF reads_page p]] .
  have pg: "is_page (ord \<circ> cursor) (rows db) (map_option ord after) n rs"
    using page [OF p _ n] a1 k by (simp add: at_def)
  have sub: "rest db after \<subseteq> rows db" by (rule beyond_subset)
  have "I acc1 ((rows db - rest db after) \<union> set rs) \<and> at db pb s3"
  proof (rule sfoldl_visits [where step = step and T = "rows db" and I = I, OF f rd a2 is_page_distinct [OF pg]])
    show "set rs \<inter> (rows db - rest db after) = {}" using is_pageD(2) [OF pg] by blast
    show "set rs \<union> (rows db - rest db after) \<subseteq> rows db" using is_pageD(2) [OF pg] sub by blast
  qed (rule Suc.prems(4), rule step)
  then have i1: "I acc1 ((rows db - rest db after) \<union> set rs)" and a3: "at db pb s3" by blast+
  show ?case
  proof (cases "length rs < n")
    case True
    have "(rows db - rest db after) \<union> set rs = rows db"
      using page_short [OF pg True] sub by blast
    then have "I acc1 (rows db)" using i1 by simp
    moreover have "res = Some acc1" "st' = s3" using r True by (simp_all add: sret_def)
    ultimately show ?thesis using a3 by simp
  next
    case False
    then have ne: "rs \<noteq> []" using n by auto
    have rest: "rest db (Some (cursor (last rs))) = rest db after - set rs"
      using page_last [OF pg ne] by simp
    have "card (rest db (Some (cursor (last rs)))) < card (rest db after)"
      unfolding rest
      by (rule psubset_card_mono [OF rest_finite])
        (use is_pageD(2) [OF pg] last_in_set [OF ne] in blast)
    then have c: "card (rest db (Some (cursor (last rs)))) < fuel" using Suc.prems(3) by linarith
    have "rows db - rest db (Some (cursor (last rs))) = (rows db - rest db after) \<union> set rs"
      unfolding rest using is_pageD(2) [OF pg] sub by blast
    then have i2: "I acc1 (rows db - rest db (Some (cursor (last rs))))" using i1 by simp
    from r False have "paged_walk fuel E (pageFunc E) cursor n step (Some (cursor (last rs))) acc1 s3 = (Inr res, st')" by simp
    from Suc.IH [OF this a3 c i2] show ?thesis .
  qed
qed

lemma full_walk:
  assumes "paged_walk fuel E (pageFunc E) cursor n step None acc st = (Inr res, st')"
    and "\<And>acc r. reads (step acc r)" and "keys_ok (st_db st)" and "0 < n" and "bound (st_db st) < fuel"
    and "I acc {}"
    and "\<And>acc r seen s acc' s'. step acc r s = (Inr acc', s') \<Longrightarrow> at (st_db st) (st_pb st) s \<Longrightarrow> I acc seen \<Longrightarrow>
      r \<in> rows (st_db st) - seen \<Longrightarrow> seen \<subseteq> rows (st_db st) \<Longrightarrow> I acc' (insert r seen)"
  obtains acc' where "res = Some acc'" "I acc' (rows (st_db st))" "same st st'"
proof -
  have a: "at (st_db st) (st_pb st) st" by (simp add: at_def)
  have c: "card (rest (st_db st) None) < fuel" using bound [of "st_db st"] assms(5) by simp
  have i: "I acc (rows (st_db st) - rest (st_db st) None)" using assms(6) by simp
  have "\<exists>acc'. res = Some acc' \<and> I acc' (rows (st_db st)) \<and> at (st_db st) (st_pb st) st'"
    by (rule walk_visits [where I = I and step = step, OF assms(1,2,3,4) a c i]) (rule assms(7))
  with that show thesis by (auto simp: at_def same_def)
qed

end

section \<open>The paging statements\<close>

text \<open>Every tree hash that occurs, with the number of its versions.\<close>

lemma sorted_remdups: "sorted_wrt (<) (sort (remdups (xs :: 'a :: linorder list)))"
  using strict_sorted_iff [of "sort (remdups xs)"] by simp

lemma trees_bound: "card (v_TreeHash ` set (db_rows db)) \<le> length (db_versions db) + length (db_blob_refs db)"
  using card_image_le [of "set (db_rows db)" v_TreeHash] card_length [of "db_rows db"] by (simp add: db_rows_def)

definition table_bound :: "dbObj \<Rightarrow> nat" where
  "table_bound db = length (db_versions db) + length (db_blob_refs db)"

lemma refs_sorted:
  assumes "keys_ok db"
  shows "sorted_wrt (<) (sort (map fst (db_blob_refs db)))" "sorted_wrt (<) (sort (map fst (live_refs db)))"
  using keysD(4) [OF assms] distinct_filter_fst [of "db_blob_refs db" "\<lambda>r. br_Refcount (snd r) > 0"]
  by (simp_all add: strict_sorted_iff live_refs_def)

interpretation tree_hashes: keyset_table TreeHashesPage "\<lambda>db. v_TreeHash ` set (db_rows db)" id id table_bound
proof
  fix E after n st rs st' and db :: dbObj
  show "reads (TreeHashesPage E after n)" by (rule reads_statements)
  show "finite (v_TreeHash ` set (db_rows db))" by simp
  show "card (v_TreeHash ` set (db_rows db)) \<le> table_bound db" using trees_bound by (simp add: table_bound_def)
  assume t: "TreeHashesPage E after n st = (Inr rs, st')"
  show "is_page (id \<circ> id) (v_TreeHash ` set (db_rows (st_db st))) (map_option id after) n rs"
    using query_Inr [OF t [unfolded TreeHashesPage_def]]
      is_page_key_page [OF sorted_remdups [of "map v_TreeHash (db_rows (st_db st))"]]
    by (simp add: option.map_id)
qed

interpretation tree_counts: keyset_table TreeHashCountsPage
  "\<lambda>db. (\<lambda>h. (h, tree_count db h)) ` v_TreeHash ` set (db_rows db)" fst id table_bound
proof
  fix E after n st rs st' and db :: dbObj
  show "reads (TreeHashCountsPage E after n)" by (rule reads_statements)
  show "finite ((\<lambda>h. (h, tree_count db h)) ` v_TreeHash ` set (db_rows db))" by simp
  show "card ((\<lambda>h. (h, tree_count db h)) ` v_TreeHash ` set (db_rows db)) \<le> table_bound db"
    using trees_bound [of db] card_image_le [of "v_TreeHash ` set (db_rows db)" "\<lambda>h. (h, tree_count db h)"]
    by (simp add: table_bound_def)
  assume t: "TreeHashCountsPage E after n st = (Inr rs, st')"
  show "is_page (id \<circ> fst) ((\<lambda>h. (h, tree_count (st_db st) h)) ` v_TreeHash ` set (db_rows (st_db st)))
      (map_option id after) n rs"
    using query_Inr [OF t [unfolded TreeHashCountsPage_def]]
      is_page_map [of _ after n _ fst "\<lambda>h. (h, tree_count (st_db st) h)",
        OF is_page_key_page [OF sorted_remdups [of "map v_TreeHash (db_rows (st_db st))"]]]
    by (simp add: option.map_id0 comp_def id_def [symmetric])
qed

interpretation blob_hashes: keyset_table BlobRefHashesPage "\<lambda>db. fst ` set (live_refs db)" id id table_bound
proof
  fix E after n st rs st' and db :: dbObj
  show "reads (BlobRefHashesPage E after n)" by (rule reads_statements)
  show "finite (fst ` set (live_refs (db :: dbObj)))" by simp
  show "card (fst ` set (live_refs db)) \<le> table_bound db"
    using card_image_le [OF finite_set [of "live_refs db"], of fst] card_length [of "live_refs db"]
      length_filter_le [of "\<lambda>r. br_Refcount (snd r) > 0" "db_blob_refs db"]
    unfolding table_bound_def live_refs_def by linarith
  assume t: "BlobRefHashesPage E after n st = (Inr rs, st')" and k: "keys_ok (st_db st)"
  show "is_page (id \<circ> id) (fst ` set (live_refs (st_db st))) (map_option id after) n rs"
    using query_Inr [OF t [unfolded BlobRefHashesPage_def]] is_page_key_page [OF refs_sorted(2) [OF k]]
    by (simp add: option.map_id)
qed

interpretation blob_rows: keyset_table BlobRefsPage
  "\<lambda>db. (\<lambda>h. (h, the (map_of (db_blob_refs db) h))) ` fst ` set (db_blob_refs db)" fst id table_bound
proof
  fix E after n st rs st' and db :: dbObj
  show "reads (BlobRefsPage E after n)" by (rule reads_statements)
  show "finite ((\<lambda>h. (h, the (map_of (db_blob_refs (db :: dbObj)) h))) ` fst ` set (db_blob_refs db))" by simp
  show "card ((\<lambda>h. (h, the (map_of (db_blob_refs db) h))) ` fst ` set (db_blob_refs db)) \<le> table_bound db"
    using card_image_le [of "fst ` set (db_blob_refs db)" "\<lambda>h. (h, the (map_of (db_blob_refs db) h))"]
      card_image_le [of "set (db_blob_refs db)" fst] card_length [of "db_blob_refs db"]
    by (simp add: table_bound_def)
  assume t: "BlobRefsPage E after n st = (Inr rs, st')" and k: "keys_ok (st_db st)"
  show "is_page (id \<circ> fst) ((\<lambda>h. (h, the (map_of (db_blob_refs (st_db st)) h))) ` fst ` set (db_blob_refs (st_db st)))
      (map_option id after) n rs"
    using query_Inr [OF t [unfolded BlobRefsPage_def]]
      is_page_map [of _ after n _ fst "\<lambda>h. (h, the (map_of (db_blob_refs (st_db st)) h))",
        OF is_page_key_page [OF refs_sorted(1) [OF k]]]
    by (simp add: option.map_id0 comp_def id_def [symmetric])
qed

end
