(* ===== verification/Store_Quota.thy ===== *)
theory Store_Quota
  imports Store_Paging
begin

text \<open>
  The quota: which versions survive an eviction, that its loops end within the fuel they are
  given, and what the budget check guarantees. \<open>retained n VS\<close> are the first \<open>n\<close> versions of
  every key in the order of the listing.
\<close>

section \<open>The listing of a key\<close>

definition key_listing :: "(vkey \<times> VersionObj) list \<Rightarrow> string \<Rightarrow> VersionObj list" where
  "key_listing VS K = sortVersions (map strip_notes (filter (\<lambda>v. v_Key v = K) (map snd VS)))"

definition retained :: "nat \<Rightarrow> (vkey \<times> VersionObj) list \<Rightarrow> vkey set" where
  "retained n VS = (\<Union>K. vkey_of ` set (take n (key_listing VS K)))"

lemma strip_simps [simp]:
  "vkey_of (strip_notes v) = vkey_of v" "v_TreeHash (strip_notes v) = v_TreeHash v"
  "v_Key (strip_notes v) = v_Key v" "ingest_key (strip_notes v) = ingest_key v"
  by (simp_all add: strip_notes_def vkey_of_def ingest_key_def)

lemma set_key_listing:
  "v \<in> set (key_listing VS K) \<longleftrightarrow> (\<exists>r \<in> set VS. v = strip_notes (snd r) \<and> v_Key (snd r) = K)"
  by (auto simp: key_listing_def sortVersions_def)

lemma key_listing_distinct:
  assumes "keyed VS" shows "distinct (map vkey_of (key_listing VS K))"
proof -
  have "map vkey_of (map snd VS) = map fst VS" using assms by (auto simp: keyed_def)
  then have d: "distinct (map vkey_of (map snd VS))" using assms unfolding keyed_def by (simp only:)
  then have "inj_on vkey_of (set (map snd VS))" "distinct (map snd VS)" by (simp_all only: distinct_map)
  then have "distinct (map vkey_of (map strip_notes (filter (\<lambda>v. v_Key v = K) (map snd VS))))"
    by (auto simp: comp_def distinct_map intro: inj_on_subset)
  then have "distinct (sort_key f (map strip_notes (filter (\<lambda>v. v_Key v = K) (map snd VS))))"
    and "inj_on vkey_of (set (map strip_notes (filter (\<lambda>v. v_Key v = K) (map snd VS))))" for f :: "VersionObj \<Rightarrow> int \<times> string"
    by (simp_all only: distinct_map distinct_sort)
  then show ?thesis by (simp add: key_listing_def sortVersions_def distinct_map rev_map [symmetric])
qed

lemma listing_evictable:
  assumes ky: "keyed VS" and v: "v \<in> set (drop n (key_listing VS K))"
  shows "evictable VS (retained n VS) v"
proof -
  have d: "distinct (map vkey_of (key_listing VS K))" by (rule key_listing_distinct [OF ky])
  have in_l: "v \<in> set (key_listing VS K)" using v by (rule in_set_dropD)
  have K: "v_Key v = K" using in_l unfolding set_key_listing by auto
  have "vkey_of v \<notin> vkey_of ` set (take n (key_listing VS K'))" for K'
  proof (cases "K' = K")
    case True
    have "distinct (map vkey_of (take n (key_listing VS K)) @ map vkey_of (drop n (key_listing VS K)))"
      using d by (simp flip: map_append)
    then show ?thesis using v True by auto
  next
    case False
    have "v_Key w = K'" if "w \<in> set (take n (key_listing VS K'))" for w
      using in_set_takeD [OF that] unfolding set_key_listing by auto
    then show ?thesis using K False by (auto simp: vkey_of_def)
  qed
  moreover have "listed VS v"
    using in_l ky unfolding set_key_listing listed_def keyed_def by fastforce
  ultimately show ?thesis using ky by (simp add: evictable_def retained_def)
qed

lemma take_filter_same: "\<forall>x \<in> set (take n xs). P x \<Longrightarrow> take n (filter P xs) = take n xs"
proof (induction xs arbitrary: n)
  case (Cons x xs)
  then show ?case by (cases n) auto
qed simp

lemma drop_filter_same: "\<forall>x \<in> set (take n xs). P x \<Longrightarrow> drop n (filter P xs) = filter P (drop n xs)"
proof (induction xs arbitrary: n)
  case (Cons x xs)
  then show ?case by (cases n) auto
qed simp

lemma rows_listing:
  assumes ky: "keyed VS" and vs: "db_versions db = filter (\<lambda>r. fst r \<in> S) VS"
  shows "sortVersions (map strip_notes (key_rows db K True)) = filter (\<lambda>v. vkey_of v \<in> S) (key_listing VS K)"
proof -
  have "map snd (filter (\<lambda>r. fst r \<in> S) VS) = filter (\<lambda>v. vkey_of v \<in> S) (map snd VS)"
    using ky unfolding keyed_def filter_map comp_def by (auto intro!: arg_cong [where f = "map snd"] filter_cong)
  then show ?thesis
    by (simp add: key_rows_def db_rows_def vs key_listing_def sortVersions_def rev_filter [symmetric]
        filter_sort filter_map comp_def conj_commute)
qed

lemma ListVersions_evicting:
  assumes ky: "keyed VS"
  shows "triple (evicting E U VS (retained n VS) prot Q) (ListVersions E K True)
    (\<lambda>vs st. evicting E U VS (retained n VS) prot Q st \<and>
       take n vs = take n (key_listing VS K) \<and> (\<forall>v \<in> set (drop n vs). evictable VS (retained n VS) v))
    (\<lambda>_. evicting E U VS (retained n VS) prot Q)"
proof (rule evicting_reads [OF reads_statements(2)])
  fix st vs st' assume ev: "evicting E U VS (retained n VS) prot Q st" and t: "ListVersions E K True st = (Inr vs, st')"
  obtain S where S: "retained n VS \<subseteq> S" "db_versions (st_db st) = filter (\<lambda>r. fst r \<in> S) VS"
    by (rule evictingD [OF ev])
  have "vs = sortVersions (map strip_notes (key_rows (st_db st) K True))"
    using query_Inr [OF t [unfolded ListVersions_def]] by simp
  then have vs: "vs = filter (\<lambda>v. vkey_of v \<in> S) (key_listing VS K)" using rows_listing [OF ky S(2)] by simp
  have all: "\<forall>v \<in> set (take n (key_listing VS K)). vkey_of v \<in> S" using S(1) unfolding retained_def by blast
  show "take n vs = take n (key_listing VS K) \<and> (\<forall>v \<in> set (drop n vs). evictable VS (retained n VS) v)"
    unfolding vs take_filter_same [OF all] drop_filter_same [OF all] by (auto intro: listing_evictable [OF ky])
qed

lemma prunePerKey_evicting:
  assumes "\<forall>v \<in> set (drop n vs). evictable VS R v"
  shows "triple (evicting E U VS R prot Q) (prunePerKeyLocked E vs n maxv prot acc)
    (\<lambda>acc' st. evicting E U VS R prot Q st \<and> acc' = acc @ map vkey_of (take n vs)) (\<lambda>_. evicting E U VS R prot Q)"
proof -
  have t: "take (if n < length vs then n else length vs) vs = take n vs"
    "drop (if n < length vs then n else length vs) vs = drop n vs" by auto
  have pd: "triple (evicting E U VS R prot Q) (prune_delete E prot (drop k (drop n vs)))
      (\<lambda>_. evicting E U VS R prot Q) (\<lambda>_. evicting E U VS R prot Q)" for k
    by (rule prune_delete_evicting) (use assms in \<open>blast dest: in_set_dropD\<close>)
  show ?thesis unfolding prunePerKeyLocked_def Let_def t
    by (intro triple_if triple_bind [OF _ pd] triple_ret) simp_all
qed

lemma prune_key_evicting:
  assumes ky: "keyed VS"
  shows "triple (evicting E U VS (retained n VS) prot Q) (prune_key E n maxv prot acc K)
    (\<lambda>acc' st. evicting E U VS (retained n VS) prot Q st \<and> acc' = acc @ map vkey_of (take n (key_listing VS K)))
    (\<lambda>_. evicting E U VS (retained n VS) prot Q)"
  unfolding prune_key_def
proof (rule triple_bind [OF _ ListVersions_evicting [OF ky]])
  fix vs
  show "triple (\<lambda>st. evicting E U VS (retained n VS) prot Q st \<and> take n vs = take n (key_listing VS K) \<and>
       (\<forall>v \<in> set (drop n vs). evictable VS (retained n VS) v)) (prunePerKeyLocked E vs n maxv prot acc)
    (\<lambda>acc' st. evicting E U VS (retained n VS) prot Q st \<and> acc' = acc @ map vkey_of (take n (key_listing VS K)))
    (\<lambda>_. evicting E U VS (retained n VS) prot Q)"
  proof (rule triple_fact)
    assume h: "take n vs = take n (key_listing VS K) \<and> (\<forall>v \<in> set (drop n vs). evictable VS (retained n VS) v)"
    show "triple (evicting E U VS (retained n VS) prot Q) (prunePerKeyLocked E vs n maxv prot acc)
      (\<lambda>acc' st. evicting E U VS (retained n VS) prot Q st \<and> acc' = acc @ map vkey_of (take n (key_listing VS K)))
      (\<lambda>_. evicting E U VS (retained n VS) prot Q)"
      using prunePerKey_evicting [OF conjunct2 [OF h]] unfolding conjunct1 [OF h] .
  qed
qed

lemma prune_keys_evicting:
  assumes ky: "keyed VS"
  shows "triple (evicting E U VS (retained n VS) prot Q) (sfoldl (prune_key E n maxv prot) acc Ks)
    (\<lambda>acc' st. evicting E U VS (retained n VS) prot Q st \<and> acc' = acc @ concat (map (\<lambda>K. map vkey_of (take n (key_listing VS K))) Ks))
    (\<lambda>_. evicting E U VS (retained n VS) prot Q)"
proof (induction Ks arbitrary: acc)
  case Nil
  then show ?case by (simp add: triple_ret)
next
  case (Cons K Ks)
  show ?case unfolding sfoldl.simps
  proof (rule triple_bind [OF _ prune_key_evicting [OF ky]])
    fix acc1
    show "triple (\<lambda>st. evicting E U VS (retained n VS) prot Q st \<and> acc1 = acc @ map vkey_of (take n (key_listing VS K)))
       (sfoldl (prune_key E n maxv prot) acc1 Ks)
       (\<lambda>acc' st. evicting E U VS (retained n VS) prot Q st \<and>
          acc' = acc @ concat (map (\<lambda>K. map vkey_of (take n (key_listing VS K))) (K # Ks)))
       (\<lambda>_. evicting E U VS (retained n VS) prot Q)"
      by (rule triple_fact) (use Cons.IH [of acc1] in simp)
  qed
qed

section \<open>The walk over the keys\<close>

definition key_cursor :: "string \<Rightarrow> string option" where
  "key_cursor a = (if a = [] then None else Some a)"

definition all_keys :: "(vkey \<times> VersionObj) list \<Rightarrow> string set" where
  "all_keys VS = (\<lambda>r. v_Key (snd r)) ` set VS"

definition kept_upto :: "nat \<Rightarrow> (vkey \<times> VersionObj) list \<Rightarrow> string option \<Rightarrow> vkey list \<Rightarrow> bool" where
  "kept_upto n VS after acc \<longleftrightarrow>
     (\<forall>K. K \<notin> beyond id (all_keys VS) after \<longrightarrow> vkey_of ` set (take n (key_listing VS K)) \<subseteq> set acc)"

lemma card_beyond:
  assumes fin: "finite T" and r: "r \<in> beyond f T after"
  shows "card (beyond f T (Some (f r))) < card (beyond f T after)"
proof (rule psubset_card_mono)
  show "finite (beyond f T after)" by (rule finite_subset [OF beyond_subset fin])
  show "beyond f T (Some (f r)) \<subset> beyond f T after"
    using r by (cases after) (auto simp: beyond_def)
qed

lemma all_keys_finite [simp]: "finite (all_keys VS)"
  by (simp add: all_keys_def)

lemma listing_key: "K \<notin> all_keys VS \<Longrightarrow> key_listing VS K = []"
  using set_key_listing [of "hd (key_listing VS K)" VS K] list.set_sel(1) [of "key_listing VS K"]
  by (auto simp: all_keys_def)

lemma kept_all: "kept_upto n VS after acc \<Longrightarrow> beyond id (all_keys VS) after = {} \<Longrightarrow> retained n VS \<subseteq> set acc"
  unfolding kept_upto_def retained_def by blast

lemma DistinctVersionKeys_page:
  assumes "DistinctVersionKeys E a n st = (Inr ks, st')"
  shows "is_page id (v_Key ` set (db_rows (st_db st))) (key_cursor a) n ks"
  using query_Inr [OF assms [unfolded DistinctVersionKeys_def]]
    is_page_key_page [OF sorted_remdups [of "map v_Key (db_rows (st_db st))"], of "key_cursor a" n]
  by (simp add: key_cursor_def)

lemma evicting_keys:
  assumes ev: "evicting E U VS (retained n VS) prot Q st" and ky: "keyed VS"
  shows "v_Key ` set (db_rows (st_db st)) \<subseteq> all_keys VS"
    "K \<notin> v_Key ` set (db_rows (st_db st)) \<Longrightarrow> take n (key_listing VS K) = []"
proof -
  obtain S where S: "retained n VS \<subseteq> S" "db_versions (st_db st) = filter (\<lambda>r. fst r \<in> S) VS"
    by (rule evictingD [OF ev])
  show "v_Key ` set (db_rows (st_db st)) \<subseteq> all_keys VS" by (auto simp: db_rows_def S(2) all_keys_def)
  assume K: "K \<notin> v_Key ` set (db_rows (st_db st))"
  show "take n (key_listing VS K) = []"
  proof (rule ccontr)
    assume "take n (key_listing VS K) \<noteq> []"
    then obtain v where v: "v \<in> set (take n (key_listing VS K))" by (meson last_in_set)
    then have "vkey_of v \<in> S" using S(1) unfolding retained_def by blast
    moreover obtain r where r: "r \<in> set VS" "v = strip_notes (snd r)" "v_Key (snd r) = K"
      using in_set_takeD [OF v] unfolding set_key_listing by blast
    ultimately have "r \<in> set (db_versions (st_db st))" using ky unfolding S(2) keyed_def by auto
    then show False using K r(3) by (force simp: db_rows_def)
  qed
qed

lemma kept_step:
  assumes ev: "evicting E U VS (retained n VS) prot Q st" and ky: "keyed VS"
    and p: "is_page id (v_Key ` set (db_rows (st_db st))) after m ks" and k: "kept_upto n VS after acc"
    and acc': "acc' = acc @ concat (map (\<lambda>K. map vkey_of (take n (key_listing VS K))) ks)"
  shows "length ks < m \<Longrightarrow> retained n VS \<subseteq> set acc'"
    "ks \<noteq> [] \<Longrightarrow> kept_upto n VS (Some (last ks)) acc'"
proof -
  have here: "vkey_of ` set (take n (key_listing VS K)) \<subseteq> set acc'"
    if "K \<notin> beyond id (v_Key ` set (db_rows (st_db st))) after \<or> K \<in> set ks" for K
  proof (cases "K \<in> set ks")
    case True
    then show ?thesis unfolding acc' by auto
  next
    case False
    then have "K \<notin> v_Key ` set (db_rows (st_db st)) \<or> K \<notin> beyond id (all_keys VS) after"
      using that by (auto simp: beyond_def)
    then show ?thesis
      using evicting_keys(2) [OF ev ky, of K] k unfolding kept_upto_def acc' by auto
  qed
  show "retained n VS \<subseteq> set acc'" if "length ks < m"
    using here page_short [OF p that] unfolding retained_def by blast
  assume ne: "ks \<noteq> []"
  show "kept_upto n VS (Some (last ks)) acc'"
    unfolding kept_upto_def
  proof (intro allI impI)
    fix K assume K: "K \<notin> beyond id (all_keys VS) (Some (last ks))"
    have "K \<notin> beyond id (v_Key ` set (db_rows (st_db st))) after \<or> K \<in> set ks"
      using page_last [OF p ne] K evicting_keys(1) [OF ev ky] by (auto simp: beyond_def)
    then show "vkey_of ` set (take n (key_listing VS K)) \<subseteq> set acc'" by (rule here)
  qed
qed

lemma full_page_last:
  assumes "is_page id T after n (ks :: string list)" "2 \<le> length ks"
  shows "key_cursor (last ks) = Some (last ks)"
proof -
  obtain k l where ks: "ks = k # l" "l \<noteq> []" using assms(2) by (cases ks) (auto simp: Suc_le_eq)
  then have "k < last ks" using is_pageD(1) [OF assms(1)] last_in_set [OF ks(2)] by simp
  then show ?thesis by (auto simp: key_cursor_def)
qed

lemma prune_loop_evicting:
  assumes ky: "keyed VS"
  shows "card (beyond id (all_keys VS) (key_cursor a)) < fuel \<Longrightarrow> kept_upto n VS (key_cursor a) acc \<Longrightarrow>
    triple (evicting E U VS (retained n VS) prot Q) (prune_loop fuel E n maxv prot a acc)
      (\<lambda>res st. evicting E U VS (retained n VS) prot Q st \<and> (\<exists>acc'. res = Some acc' \<and> retained n VS \<subseteq> set acc'))
      (\<lambda>_. evicting E U VS (retained n VS) prot Q)"
proof (induction fuel arbitrary: a acc)
  case 0
  then show ?case by simp
next
  case (Suc fuel)
  let ?I = "evicting E U VS (retained n VS) prot Q"
  let ?Q = "\<lambda>res st. ?I st \<and> (\<exists>acc'. res = Some acc' \<and> retained n VS \<subseteq> set acc')"
  let ?page = "\<lambda>ks. \<exists>st. ?I st \<and> is_page id (v_Key ` set (db_rows (st_db st))) (key_cursor a) cQuotaEvictPageSize ks"
  show ?case unfolding prune_loop.simps
  proof (rule triple_bind [OF triple_bind [OF _ evicting_reads [OF reads_statements(3), where P = ?page]] evicting_reads' [OF reads_io]])
    fix st ks st' assume "?I st" "DistinctVersionKeys E a cQuotaEvictPageSize st = (Inr ks, st')"
    then show "?page ks" using DistinctVersionKeys_page by blast
  next
    fix ks
    show "triple (\<lambda>st. ?I st \<and> ?page ks) (if ks = [] then sret (Some acc)
        else sbind (sfoldl (prune_key E n maxv prot) acc ks) (\<lambda>retainObj'.
          if length ks < cQuotaEvictPageSize then sret (Some retainObj')
          else prune_loop fuel E n maxv prot (last ks) retainObj')) ?Q (\<lambda>_. ?I)"
    proof (rule triple_fact)
      assume "?page ks"
      then obtain st where ev: "?I st"
        and pg: "is_page id (v_Key ` set (db_rows (st_db st))) (key_cursor a) cQuotaEvictPageSize ks" by blast
      show "triple ?I (if ks = [] then sret (Some acc)
        else sbind (sfoldl (prune_key E n maxv prot) acc ks) (\<lambda>retainObj'.
          if length ks < cQuotaEvictPageSize then sret (Some retainObj')
          else prune_loop fuel E n maxv prot (last ks) retainObj')) ?Q (\<lambda>_. ?I)"
      proof (intro triple_if)
        assume "ks = []"
        then have "retained n VS \<subseteq> set acc"
          using kept_step(1) [OF ev ky pg Suc.prems(2) refl] by (simp add: cQuotaEvictPageSize_def)
        then show "triple ?I (sret (Some acc)) ?Q (\<lambda>_. ?I)" by (simp add: triple_ret)
      next
        assume ne: "ks \<noteq> []"
        show "triple ?I (sbind (sfoldl (prune_key E n maxv prot) acc ks) (\<lambda>retainObj'.
          if length ks < cQuotaEvictPageSize then sret (Some retainObj')
          else prune_loop fuel E n maxv prot (last ks) retainObj')) ?Q (\<lambda>_. ?I)"
        proof (rule triple_bind [OF triple_fact prune_keys_evicting [OF ky]])
          fix acc1 assume acc1: "acc1 = acc @ concat (map (\<lambda>K. map vkey_of (take n (key_listing VS K))) ks)"
          note kept = kept_step [OF ev ky pg Suc.prems(2) acc1]
          show "triple ?I (if length ks < cQuotaEvictPageSize then sret (Some acc1)
             else prune_loop fuel E n maxv prot (last ks) acc1) ?Q (\<lambda>_. ?I)"
          proof (intro triple_if)
            assume "length ks < cQuotaEvictPageSize"
            then show "triple ?I (sret (Some acc1)) ?Q (\<lambda>_. ?I)" using kept(1) by (simp add: triple_ret)
          next
            assume "\<not> length ks < cQuotaEvictPageSize"
            then have c: "key_cursor (last ks) = Some (last ks)"
              by (intro full_page_last [OF pg]) (simp add: cQuotaEvictPageSize_def)
            have l: "last ks \<in> beyond id (all_keys VS) (key_cursor a)"
              using is_pageD(2) [OF pg] last_in_set [OF ne] evicting_keys(1) [OF ev ky] by (auto simp: beyond_def)
            then have "card (beyond id (all_keys VS) (key_cursor (last ks))) < card (beyond id (all_keys VS) (key_cursor a))"
              using card_beyond [OF all_keys_finite, of "last ks" id] unfolding c by simp
            then have "card (beyond id (all_keys VS) (key_cursor (last ks))) < fuel" using Suc.prems(1) by linarith
            then show "triple ?I (prune_loop fuel E n maxv prot (last ks) acc1) ?Q (\<lambda>_. ?I)"
              by (rule Suc.IH) (simp add: c kept(2) [OF ne])
          qed
        qed
      qed
    qed
  qed
qed

section \<open>The walk over the versions\<close>

definition version_rows :: "(vkey \<times> VersionObj) list \<Rightarrow> VersionObj set" where
  "version_rows VS = strip_notes ` snd ` set VS"

abbreviation "left VS after \<equiv> card (beyond ingest_key (version_rows VS) (map_option ingest_key after))"

lemma version_rows_finite [simp]: "finite (version_rows VS)"
  by (simp add: version_rows_def)

lemma row_evictable:
  assumes "keyed VS" "v \<in> version_rows VS" "vkey_of v \<notin> R" shows "evictable VS R v"
proof -
  obtain r where "r \<in> set VS" "v = strip_notes (snd r)" using assms(2) by (auto simp: version_rows_def)
  then have "(vkey_of v, snd r) \<in> set VS" using assms(1) by (simp add: keyed_def)
  then show ?thesis using \<open>v = strip_notes (snd r)\<close> assms(1,3) unfolding evictable_def listed_def by auto
qed

lemma ingest_sorted:
  assumes "keyed VS"
  shows "sorted_wrt (<) (map ingest_key (sort_key ingest_key (map strip_notes (map snd VS))))"
proof -
  let ?xs = "map strip_notes (map snd VS)"
  have "map vkey_of ?xs = map fst VS" using assms by (auto simp: keyed_def)
  then have d: "distinct (map vkey_of ?xs)" using assms unfolding keyed_def by (simp only:)
  have v: "map vkey_of ?xs = map snd (map ingest_key ?xs)" by (simp add: ingest_key_def vkey_of_def)
  have "distinct (map ingest_key ?xs)"
    using d unfolding v by (metis distinct_map)
  then have "distinct (map ingest_key (sort_key ingest_key ?xs))"
    unfolding distinct_map set_sort distinct_sort .
  then show ?thesis by (simp add: strict_sorted_iff)
qed

lemma VersionsByIngest_page:
  assumes t: "VersionsByIngest E after n st = (Inr rs, st')" and n: "0 < n"
    and ev: "evicting E U VS R prot Q st" and ky: "keyed VS"
  shows "set rs \<subseteq> beyond ingest_key (version_rows VS) (map_option ingest_key after)"
proof -
  obtain S where S: "db_versions (st_db st) = filter (\<lambda>r. fst r \<in> S) VS" by (rule evictingD [OF ev])
  have "set rs \<subseteq> {v \<in> strip_notes ` set (db_rows (st_db st)).
      case after of None \<Rightarrow> True | Some a \<Rightarrow> ingest_key a < ingest_key v}"
    using query_Inr [OF t [unfolded VersionsByIngest_def]] n
    by (auto simp: Let_def dest: in_set_takeD)
  also have "\<dots> \<subseteq> beyond ingest_key (version_rows VS) (map_option ingest_key after)"
    by (cases after) (auto simp: beyond_def version_rows_def db_rows_def S)
  finally show ?thesis .
qed

definition evictables :: "(vkey \<times> VersionObj) list \<Rightarrow> vkey set \<Rightarrow> VersionObj list \<Rightarrow> bool" where
  "evictables VS R vs \<longleftrightarrow> (\<forall>v \<in> set vs. evictable VS R v)"

lemma scan_page_evicting:
  assumes ky: "keyed VS" and R: "R \<subseteq> set keep"
  shows "set vs \<subseteq> version_rows VS \<Longrightarrow> evictables VS R cs \<Longrightarrow>
    triple (evicting E U VS R prot Q) (scan_page E keep prot after cs vs)
      (\<lambda>(after', cs') st. evicting E U VS R prot Q st \<and> evictables VS R cs' \<and>
         (if vs = [] then after' = after \<and> cs' = cs else \<exists>v \<in> set vs. after' = Some v))
      (\<lambda>_. evicting E U VS R prot Q)"
proof (induction vs arbitrary: after cs)
  case Nil
  then show ?case by (simp add: triple_ret)
next
  case (Cons v vs)
  let ?I = "evicting E U VS R prot Q"
  let ?Q = "\<lambda>(after', cs') st. ?I st \<and> evictables VS R cs' \<and> (\<exists>w \<in> set (v # vs). after' = Some w)"
  have rest: "triple ?I (scan_page E keep prot (Some v) cs1 vs) ?Q (\<lambda>_. ?I)" if "evictables VS R cs1" for cs1
    by (rule triple_weaken [OF Cons.IH [of cs1 "Some v"]]) (use Cons.prems that in \<open>auto split: if_splits\<close>)
  have add: "evictables VS R (cs @ [v])" if "vkey_of v \<notin> set keep"
    using Cons.prems row_evictable [OF ky, of v R] that R by (auto simp: evictables_def)
  have "triple ?I (scan_page E keep prot after cs (v # vs)) ?Q (\<lambda>_. ?I)"
    unfolding scan_page.simps
  proof (rule triple_if)
    show "triple ?I (scan_page E keep prot (Some v) cs vs) ?Q (\<lambda>_. ?I)" by (rule rest [OF Cons.prems(2)])
  next
    assume nk: "vkey_of v \<notin> set keep"
    have "triple ?I (if b then scan_page E keep prot (Some v) cs vs
        else if cQuotaEvictPageSize \<le> length (cs @ [v]) then sret (Some v, cs @ [v])
        else scan_page E keep prot (Some v) (cs @ [v]) vs) ?Q (\<lambda>_. ?I)" for b
      by (intro triple_if rest Cons.prems(2) add nk triple_ret) (simp add: add [OF nk])
    then show "triple ?I (sbind (versionProtected E v prot) (\<lambda>b. if b then scan_page E keep prot (Some v) cs vs
        else if cQuotaEvictPageSize \<le> length (cs @ [v]) then sret (Some v, cs @ [v])
        else scan_page E keep prot (Some v) (cs @ [v]) vs)) ?Q (\<lambda>_. ?I)"
      by (rule triple_bind [OF _ evicting_reads' [OF reads_versionProtected]])
  qed
  then show ?case by simp
qed

definition collected_ok ::
  "(vkey \<times> VersionObj) list \<Rightarrow> vkey set \<Rightarrow> VersionObj option \<Rightarrow> VersionObj list \<Rightarrow>
   (VersionObj option \<times> VersionObj list) loop_result \<Rightarrow> bool" where
  "collected_ok VS R after cs res \<longleftrightarrow>
     (case res of LoopFuel \<Rightarrow> False | LoopReturn \<Rightarrow> True
      | LoopNext (after', cs') \<Rightarrow> evictables VS R cs' \<and>
          (left VS after' < left VS after \<or> after' = after \<and> cs' = cs))"

lemma collect_candidates_evicting:
  assumes ky: "keyed VS" and R: "R \<subseteq> set keep"
  shows "left VS after < fuel \<Longrightarrow> evictables VS R cs \<Longrightarrow>
    triple (evicting E U VS R prot Q) (collect_candidates fuel E keep prot after cs)
      (\<lambda>res st. evicting E U VS R prot Q st \<and> collected_ok VS R after cs res) (\<lambda>_. evicting E U VS R prot Q)"
proof (induction fuel arbitrary: after cs)
  case 0
  then show ?case by simp
next
  case (Suc fuel)
  let ?I = "evicting E U VS R prot Q"
  let ?Q = "\<lambda>res st. ?I st \<and> collected_ok VS R after cs res"
  let ?page = "\<lambda>rs. set rs \<subseteq> beyond ingest_key (version_rows VS) (map_option ingest_key after)"
  show ?case unfolding collect_candidates.simps
  proof (intro triple_if)
    show "triple ?I (sret (LoopNext (after, cs))) ?Q (\<lambda>_. ?I)"
      using Suc.prems(2) by (intro triple_ret) (simp add: collected_ok_def)
    show "triple ?I (sbind (VersionsByIngest E after cQuotaEvictPageSize) (\<lambda>rs.
        if rs = [] then sret LoopReturn
        else sbind (scan_page E keep prot after cs rs) (\<lambda>(after', cs').
          if length rs < cQuotaEvictPageSize then sret (LoopNext (after', cs'))
          else collect_candidates fuel E keep prot after' cs'))) ?Q (\<lambda>_. ?I)"
    proof (rule triple_bind [OF triple_fact evicting_reads [OF reads_statements(4), where P = ?page]])
      fix st rs st' assume "?I st" "VersionsByIngest E after cQuotaEvictPageSize st = (Inr rs, st')"
      then show "?page rs" using VersionsByIngest_page [OF _ _ _ ky] by (simp add: cQuotaEvictPageSize_def)
    next
      fix rs assume pg: "?page rs"
      then have sub: "set rs \<subseteq> version_rows VS" using beyond_subset [of ingest_key "version_rows VS"] by (rule subset_trans)
      show "triple ?I (if rs = [] then sret LoopReturn
        else sbind (scan_page E keep prot after cs rs) (\<lambda>(after', cs').
          if length rs < cQuotaEvictPageSize then sret (LoopNext (after', cs'))
          else collect_candidates fuel E keep prot after' cs')) ?Q (\<lambda>_. ?I)"
      proof (intro triple_if triple_bind [OF _ scan_page_evicting [OF ky R sub Suc.prems(2)]])
        show "triple ?I (sret LoopReturn) ?Q (\<lambda>_. ?I)" by (rule triple_ret) (simp add: collected_ok_def)
      next
        assume ne: "rs \<noteq> []"
        fix x :: "VersionObj option \<times> VersionObj list"
        obtain a' cs' where x: "x = (a', cs')" by (cases x)
        have "triple (\<lambda>st. ?I st \<and> (evictables VS R cs' \<and> (\<exists>v \<in> set rs. a' = Some v)))
          (if length rs < cQuotaEvictPageSize then sret (LoopNext (a', cs'))
           else collect_candidates fuel E keep prot a' cs') ?Q (\<lambda>_. ?I)"
        proof (rule triple_fact)
          assume h: "evictables VS R cs' \<and> (\<exists>v \<in> set rs. a' = Some v)"
          then obtain v where v: "v \<in> set rs" "a' = Some v" by blast
          have lt: "left VS a' < left VS after"
            using card_beyond [OF version_rows_finite, of v ingest_key] v pg by auto
          then have fu: "left VS a' < fuel" using Suc.prems(1) by linarith
          have ok: "collected_ok VS R after cs res" if "collected_ok VS R a' cs' res" for res
            using that lt by (auto simp: collected_ok_def split: loop_result.splits)
          show "triple ?I (if length rs < cQuotaEvictPageSize then sret (LoopNext (a', cs'))
            else collect_candidates fuel E keep prot a' cs') ?Q (\<lambda>_. ?I)"
          proof (rule triple_if)
            show "triple ?I (collect_candidates fuel E keep prot a' cs') ?Q (\<lambda>_. ?I)"
              by (rule triple_weaken [OF Suc.IH [OF fu conjunct1 [OF h]]]) (use ok in auto)
          qed (rule triple_ret, use h lt in \<open>simp add: collected_ok_def\<close>)
        qed
        then show "triple (case x of (after', cs') \<Rightarrow> \<lambda>st. ?I st \<and> evictables VS R cs' \<and>
             (if rs = [] then after' = after \<and> cs' = cs else \<exists>v \<in> set rs. after' = Some v))
          (case x of (after', cs') \<Rightarrow> if length rs < cQuotaEvictPageSize then sret (LoopNext (after', cs'))
             else collect_candidates fuel E keep prot after' cs') ?Q (\<lambda>_. ?I)"
          unfolding x using ne by simp
      qed
    qed
  qed
qed

lemma evict_batch_evicting:
  "evictables VS R vs \<Longrightarrow>
   triple (evicting E U VS R prot Q) (evict_batch E target prot cur est vs)
     (\<lambda>_. evicting E U VS R prot Q) (\<lambda>_. evicting E U VS R prot Q)"
proof (induction vs arbitrary: cur est)
  case Nil
  then show ?case unfolding evict_batch.simps
    by (intro triple_if triple_ret triple_bind [OF _ evicting_reads' [OF reads_statements(6)]])
next
  case (Cons v vs)
  then have v: "evictable VS R v" and vs: "evictables VS R vs" by (simp_all add: evictables_def)
  show ?case unfolding evict_batch.simps
  proof (intro triple_if triple_ret triple_bind [OF _ evicting_reads' [OF reads_io]] evict_unless [OF v] Cons.IH [OF vs])
    fix x :: "bool \<times> u64"
    obtain d e where x: "x = (d, e)" by (cases x)
    show "triple (evicting E U VS R prot Q) (case x of (deletedFlag, estimateBytes) \<Rightarrow>
          if \<not> deletedFlag then evict_batch E target prot cur est vs
          else if est + estimateBytes < cur - target then evict_batch E target prot cur (est + estimateBytes) vs
          else sbind (ReferencedBytes E) (\<lambda>cur'. if cur' < target then sret (cur', True)
            else evict_batch E target prot cur' 0 vs)) (\<lambda>_. evicting E U VS R prot Q) (\<lambda>_. evicting E U VS R prot Q)"
      unfolding x prod.case
      by (intro triple_if triple_ret triple_bind [OF _ evicting_reads' [OF reads_statements(6)]] Cons.IH [OF vs])
  qed simp_all
qed

lemma evict_loop_evicting:
  assumes ky: "keyed VS" and R: "R \<subseteq> set keep"
  shows "left VS after < fuel \<Longrightarrow>
    triple (evicting E U VS R prot Q) (evict_loop_target fuel E target keep prot cur after)
      (\<lambda>res st. evicting E U VS R prot Q st \<and> res = Some ()) (\<lambda>_. evicting E U VS R prot Q)"
proof (induction fuel arbitrary: cur after)
  case 0
  then show ?case by simp
next
  case (Suc fuel)
  let ?I = "evicting E U VS R prot Q"
  let ?Q = "\<lambda>res st. ?I st \<and> res = Some ()"
  have none: "evictables VS R []" by (simp add: evictables_def)
  show ?case unfolding evict_loop_target.simps
  proof (rule triple_if)
    show "triple ?I (sret (Some ())) ?Q (\<lambda>_. ?I)" by (simp add: triple_ret)
    show "triple ?I (sbind (collect_candidates (Suc fuel) E keep prot after []) (\<lambda>collected.
        case collected of LoopFuel \<Rightarrow> sret None | LoopReturn \<Rightarrow> sret (Some ())
        | LoopNext (afterObj', candidateArr) \<Rightarrow>
            if candidateArr = [] then sret (Some ())
            else sbind (evictUntilTargetBatchLocked E target cur candidateArr prot) (\<lambda>(currentBytes', doneFlag).
               if doneFlag then sret (Some ())
               else evict_loop_target fuel E target keep prot currentBytes' afterObj'))) ?Q (\<lambda>_. ?I)"
    proof (rule triple_bind [OF triple_fact collect_candidates_evicting [OF ky R Suc.prems none]])
      fix res assume ok: "collected_ok VS R after [] res"
      show "triple ?I (case res of LoopFuel \<Rightarrow> sret None | LoopReturn \<Rightarrow> sret (Some ())
        | LoopNext (afterObj', candidateArr) \<Rightarrow>
            if candidateArr = [] then sret (Some ())
            else sbind (evictUntilTargetBatchLocked E target cur candidateArr prot) (\<lambda>(currentBytes', doneFlag).
               if doneFlag then sret (Some ())
               else evict_loop_target fuel E target keep prot currentBytes' afterObj')) ?Q (\<lambda>_. ?I)"
      proof (cases res)
        case (LoopNext x)
        obtain a' cs where x: "x = (a', cs)" by (cases x)
        have cs: "evictables VS R cs" and lt: "cs \<noteq> [] \<Longrightarrow> left VS a' < fuel"
          using ok Suc.prems unfolding collected_ok_def LoopNext x by auto
        have batch: "triple ?I (evictUntilTargetBatchLocked E target cur cs prot) (\<lambda>_. ?I) (\<lambda>_. ?I)"
          unfolding evictUntilTargetBatchLocked_def by (rule evict_batch_evicting [OF cs])
        show ?thesis unfolding LoopNext x loop_result.case prod.case
          by (intro triple_if triple_bind [OF _ batch] triple_ret)
            (auto intro!: triple_if triple_ret Suc.IH lt split: prod.splits)
      qed (use ok in \<open>simp_all add: collected_ok_def triple_ret\<close>)
    qed
  qed
qed

section \<open>The budget check\<close>

lemma ReferencedBytes_Inr:
  "ReferencedBytes E st = (Inr n, st') \<Longrightarrow> unat n = live_bytes (st_db st) \<and> live_bytes (st_db st) < 2 ^ 63 \<and> same st st'"
  unfolding ReferencedBytes_def
  by (auto simp: op_Inr sfail_def sret_def unat_of_nat split: if_splits dest!: query_Inr)

text \<open>The first retained versions, the protected objects and consistency survive; the loops end.\<close>

lemma evict_versions:
  assumes ev: "evicting E U VS (retained (cf_RetainLatestPerKey cfg) VS) prot Q st" and ky: "keyed VS"
    and fu: "Suc (length VS) < fuel"
    and t: "evictVersionsProtectedLocked fuel E cfg target prot st = (r, st')"
  shows "evicting E U VS (retained (cf_RetainLatestPerKey cfg) VS) prot Q st' \<and> r \<noteq> Inr None"
proof -
  let ?n = "cf_RetainLatestPerKey cfg"
  let ?I = "evicting E U VS (retained ?n VS) prot Q"
  have c1: "card (beyond id (all_keys VS) (key_cursor [])) < fuel"
    using fu card_image_le [of "set VS" "\<lambda>r. v_Key (snd r)"] card_length [of VS]
    by (simp add: key_cursor_def all_keys_def)
  have c2: "left VS None < fuel"
    using fu card_image_le [of "snd ` set VS" strip_notes] card_image_le [of "set VS" snd] card_length [of VS]
    by (simp add: version_rows_def)
  have k0: "kept_upto ?n VS (key_cursor []) []"
    by (auto simp: kept_upto_def key_cursor_def listing_key)
  have prune: "triple ?I (evictPrunableVersionsLocked fuel E ?n (cf_MaxVersionsPerKey cfg) prot)
      (\<lambda>res st. ?I st \<and> (\<exists>acc'. res = Some acc' \<and> retained ?n VS \<subseteq> set acc')) (\<lambda>_. ?I)"
    unfolding evictPrunableVersionsLocked_def Let_def by (rule prune_loop_evicting [OF ky c1 k0])
  have loop: "triple ?I (evictUntilTargetLocked fuel E target keep prot) (\<lambda>res st. ?I st \<and> res = Some ()) (\<lambda>_. ?I)"
    if "retained ?n VS \<subseteq> set keep" for keep
    unfolding evictUntilTargetLocked_def
    by (intro triple_bind [OF _ evicting_reads' [OF reads_statements(6)]] triple_if triple_ret
        evict_loop_evicting [OF ky that c2]) simp
  have "triple ?I (evictVersionsProtectedLocked fuel E cfg target prot) (\<lambda>res st. ?I st \<and> res = Some ()) (\<lambda>_. ?I)"
    unfolding evictVersionsProtectedLocked_def
  proof (rule triple_bind [OF triple_fact prune])
    fix retained' assume "\<exists>acc'. retained' = Some acc' \<and> retained ?n VS \<subseteq> set acc'"
    then show "triple ?I (case retained' of None \<Rightarrow> sret None
      | Some retainObj \<Rightarrow> evictUntilTargetLocked fuel E target retainObj prot) (\<lambda>res st. ?I st \<and> res = Some ()) (\<lambda>_. ?I)"
      using loop by auto
  qed
  from triple_Inr [OF this] triple_Inl [OF this] show ?thesis using ev t by (cases r) auto
qed

lemma consistent_keyed: "consistent E U db pb \<Longrightarrow> keyed (db_versions db)"
  unfolding consistent_def keyed_def using keysD(1,2) [OF midD(1)] by blast

lemma evicting_start:
  "consistent E U (st_db st) (st_pb st) \<Longrightarrow>
   evicting E U (db_versions (st_db st)) R prot (map_of (st_pb st)) st"
  unfolding evicting_def by (auto intro!: exI [of _ UNIV])

lemma admission_word: "\<not> inc \<ge> maxv \<Longrightarrow> n < maxv - inc \<Longrightarrow> unat n + unat inc < unat (maxv :: u64)"
  by (simp add: word_less_nat_alt word_le_nat_alt unat_sub)

lemma ensureDurableBudget_result:
  fixes st :: storeObj
  defines "VS \<equiv> db_versions (st_db st)"
  assumes t: "ensureDurableBudgetProtectedLocked E cfg inc prot st = (r, st')"
    and c: "consistent E U (st_db st) (st_pb st)"
  shows "evicting E U VS (retained (cf_RetainLatestPerKey cfg) VS) prot (map_of (st_pb st)) st' \<and> r \<noteq> Inr None \<and>
    (\<forall>x. r = Inr x \<longrightarrow> cf_MaxTotalSize cfg \<noteq> 0 \<longrightarrow>
       live_bytes (st_db st') + unat inc < unat (cf_MaxTotalSize cfg))"
proof -
  let ?I = "evicting E U VS (retained (cf_RetainLatestPerKey cfg) VS) prot (map_of (st_pb st))"
  let ?max = "cf_MaxTotalSize cfg"
  note start = evicting_start [OF c, folded VS_def]
  have stop: ?thesis if "same st st'" "r = Inl e \<or> (r = Inr (Some ()) \<and> (?max \<noteq> 0 \<longrightarrow>
      live_bytes (st_db st') + unat inc < unat ?max))" for e
    using evicting_same [OF start that(1)] that(2) by auto
  show ?thesis
  proof (cases "?max = 0")
    case True
    then have "same st st' \<and> r = Inr (Some ())"
      using t by (simp add: ensureDurableBudgetProtectedLocked_def sret_def)
    then show ?thesis using True by (intro stop) auto
  next
    case False
    let ?adm = "?max - inc"
    let ?target = "if cf_EvictToSize cfg = 0 \<or> cf_EvictToSize cfg \<ge> ?adm then ?adm - 1 else cf_EvictToSize cfg"
    from t have "sbind (ReferencedBytes E) (\<lambda>currentBytes.
        if inc \<ge> ?max then sfail (ErrCacheQuotaExceeded QuotaAdmission currentBytes inc 0 0 ?max)
        else if currentBytes < ?adm then sret (Some ())
        else sbind (sget evict_fuel) (\<lambda>fuel. sbind (evictVersionsProtectedLocked fuel E cfg ?target prot) (\<lambda>done.
          if done = None then sret None
          else sbind (ReferencedBytes E) (\<lambda>currentBytes'.
            if currentBytes' \<ge> ?adm
            then sfail (ErrCacheQuotaExceeded QuotaAfterEvict currentBytes' inc ?adm ?target ?max)
            else sret (Some ()))))) st = (r, st')"
      unfolding ensureDurableBudgetProtectedLocked_def Let_def if_not_P [OF False] .
    then show ?thesis
    proof (cases rule: sbindE)
      case (err e)
      then show ?thesis using readsD [OF reads_statements(6) err(1)] by (intro stop) auto
    next
      case (ok n s1)
      note n = ReferencedBytes_Inr [OF ok(1)]
      consider "inc \<ge> ?max" | "\<not> inc \<ge> ?max" "n < ?adm" | "\<not> inc \<ge> ?max" "\<not> n < ?adm" by blast
      then show ?thesis
      proof cases
        case 1
        then show ?thesis using ok(2) n by (intro stop) (auto simp: sfail_def)
      next
        case 2
        then have s: "r = Inr (Some ())" "st' = s1" using ok(2) by (simp_all add: sret_def)
        then show ?thesis using n admission_word [OF 2] by (intro stop) (auto simp: same_def)
      next
        case 3
        then have "sbind (evictVersionsProtectedLocked (evict_fuel s1) E cfg ?target prot) (\<lambda>done.
            if done = None then sret None
            else sbind (ReferencedBytes E) (\<lambda>currentBytes'.
              if currentBytes' \<ge> ?adm
              then sfail (ErrCacheQuotaExceeded QuotaAfterEvict currentBytes' inc ?adm ?target ?max)
              else sret (Some ()))) s1 = (r, st')"
          using ok(2) by (simp add: sbind_def [of "sget _"] sget_def)
        moreover have ev1: "?I s1" using evicting_same [OF start] n by blast
        moreover have fu: "Suc (length VS) < evict_fuel s1"
          using n by (simp add: evict_fuel_def VS_def same_def)
        moreover have ky: "keyed VS" unfolding VS_def by (rule consistent_keyed [OF c])
        ultimately show ?thesis
        proof (cases rule: sbindE)
          case (err e)
          then show ?thesis using evict_versions [OF ev1 ky fu err(1)] by auto
        next
          case (ok fin s2)
          have ev2: "?I s2" and nd: "fin \<noteq> None" using evict_versions [OF ev1 ky fu ok(1)] by auto
          from ok(2) nd have "sbind (ReferencedBytes E) (\<lambda>currentBytes'.
              if currentBytes' \<ge> ?adm
              then sfail (ErrCacheQuotaExceeded QuotaAfterEvict currentBytes' inc ?adm ?target ?max)
              else sret (Some ())) s2 = (r, st')" by simp
          then show ?thesis
          proof (cases rule: sbindE)
            case (err e)
            then show ?thesis using evicting_same [OF ev2 readsD [OF reads_statements(6) err(1)]] by auto
          next
            case (ok m s3)
            note m = ReferencedBytes_Inr [OF ok(1)]
            have ev3: "?I s3" using evicting_same [OF ev2] m by blast
            show ?thesis
            proof (cases "m \<ge> ?adm")
              case True
              then show ?thesis using ok(2) ev3 by (auto simp: sfail_def)
            next
              case lt: False
              then have "m < ?adm" by simp
              then have "unat m + unat inc < unat ?max" by (rule admission_word [OF 3(1)])
              then show ?thesis using ok(2) ev3 m lt by (auto simp: sret_def same_def)
            qed
          qed
        qed
      qed
    qed
  qed
qed

end
