(* ===== verification/Store_Commit.thy ===== *)
theory Store_Commit
  imports Store_Quota
begin

text \<open>
  The transaction of a publication: the new row with its reference counts and detection, the
  historical copy of the row that it replaces, and the clean-up of a publication that fails. The copy
  is fresh because the detection row of a taken name makes the copy of the detection fail.
\<close>

section \<open>Statements that leave versions, detection and counts alone\<close>

definition same_refs :: "dbObj \<Rightarrow> dbObj \<Rightarrow> bool" where
  "same_refs db db' \<longleftrightarrow> db_versions db' = db_versions db \<and> db_detection db' = db_detection db \<and>
     db_blob_refs db' = db_blob_refs db"

lemma same_refs_refl [simp]: "same_refs db db" by (simp add: same_refs_def)
lemma same_refs_trans: "same_refs a b \<Longrightarrow> same_refs b c \<Longrightarrow> same_refs a c" by (simp add: same_refs_def)

lemma mid_same_refs: "mid E U pb M f db \<Longrightarrow> same_refs db db' \<Longrightarrow> mid E U pb M f db'"
  by (rule mid_cong) (simp_all add: same_refs_def)

definition minor :: "unit sto \<Rightarrow> bool" where
  "minor m \<longleftrightarrow> (\<forall>st st'. m st = (Inr (), st') \<longrightarrow> same_refs (st_db st) (st_db st') \<and> st_pb st' = st_pb st)"

lemma minorD: "minor m \<Longrightarrow> m st = (Inr x, st') \<Longrightarrow> same_refs (st_db st) (st_db st') \<and> st_pb st' = st_pb st"
  by (simp add: minor_def)

lemma minor_exec: "(\<And>db db'. f db = Inr db' \<Longrightarrow> same_refs db db') \<Longrightarrow> minor (exec E f)"
  unfolding minor_def by (metis exec_Inr)

lemma minor_bind: "minor m \<Longrightarrow> minor (n ()) \<Longrightarrow> minor (sbind m n)"
  unfolding minor_def by (auto simp: op_Inr) (metis same_refs_trans)+

lemma minor_siter: "(\<And>x. minor (f x)) \<Longrightarrow> minor (siter f xs)"
proof (induction xs)
  case (Cons x xs)
  then have a: "minor (f x)" "minor (siter f xs)" by blast+
  show ?case unfolding siter.simps by (rule minor_bind [OF a])
qed (simp add: minor_def sret_def)

lemma same_refs_steps:
  "db_add_rewrites k hs db = Inr db' \<Longrightarrow> same_refs db db'" "db_put_artifacts k arts db = Inr db' \<Longrightarrow> same_refs db db'"
  "db_copy_rewrites k k' db = Inr db' \<Longrightarrow> same_refs db db'" "db_copy_artifacts k k' db = Inr db' \<Longrightarrow> same_refs db db'"
  "Inr (db\<lparr>db_rewrite := rw\<rparr>) = Inr db' \<Longrightarrow> same_refs db db'"
  by (auto simp: same_refs_def db_add_rewrites_def db_put_artifacts_def db_copy_rewrites_def db_copy_artifacts_def
      Let_def split: if_splits)

lemma minor_statements:
  "minor (InsertRewriteSet E key version hs)" "minor (InsertArtifacts E key version arts)"
  "minor (exec E (db_copy_rewrites k k'))" "minor (exec E (db_copy_artifacts k k'))"
  unfolding InsertRewriteSet_def InsertArtifacts_def
  by (rule minor_bind minor_siter minor_exec | erule same_refs_steps)+

lemma minor_AddHistory: "minor (AddHistory E key version eventType h message)"
  by (simp add: minor_def same_refs_def AddHistory_Inr)

section \<open>The new row\<close>

lemma resolveUpstreamSeq_reads: "reads (resolveUpstreamSeq E p existing)"
  unfolding resolveUpstreamSeq_def by (intro frame)

lemma stored_row_simps [simp]: "v_TreeHash (stored_row v) = v_TreeHash v" "vkey_of (stored_row v) = vkey_of v"
  by (simp_all add: stored_row_def vkey_of_def)

lemma InsertVersion_Inr:
  "InsertVersion E v st = (Inr x, st') \<Longrightarrow> st_db st' = db_put_version v (st_db st) \<and> st_pb st' = st_pb st"
  unfolding InsertVersion_def by (auto dest!: exec_Inr split: if_splits)

lemma InsertDetection_Inr:
  assumes "InsertDetection E key version d st = (Inr x, st')" "mid E U (st_pb st) M f (st_db st)"
  shows "mid E U (st_pb st) (M - {(key, version)}) f (st_db st')" "db_versions (st_db st') = db_versions (st_db st)"
    "st_pb st' = st_pb st"
proof -
  have h: "has_version (st_db st) (key, version)"
    and s: "st_db st' = (st_db st)\<lparr>db_detection := AList.update (key, version) d (db_detection (st_db st))\<rparr>"
    and p: "st_pb st' = st_pb st"
    using exec_Inr [OF assms(1) [unfolded InsertDetection_def]] by (auto split: if_splits)
  have "fst ` set (AList.update (key, version) d (db_detection (st_db st))) =
      insert (key, version) (fst ` set (db_detection (st_db st)))"
    by (metis Un_commute dom_map_of_conv_image_fst dom_update insert_is_Un)
  then show "mid E U (st_pb st) (M - {(key, version)}) f (st_db st')"
    unfolding s by (intro mid_detection [OF assms(2) h] distinct_update keysD(3) [OF midD(1) [OF assms(2)]])
  show "db_versions (st_db st') = db_versions (st_db st)" "st_pb st' = st_pb st" using s p by simp_all
qed

definition ready_row :: "store_env \<Rightarrow> (bytes \<times> bytes) list \<Rightarrow> TreeEntryObj list \<Rightarrow> HashObj \<Rightarrow> bool" where
  "ready_row E pb es h \<longleftrightarrow> (\<exists>es'. tree_ready E pb h es' \<and> mset es' = mset es)"

lemma occ_mset: "mset xs = mset ys \<Longrightarrow> occ xs h = occ ys h"
proof -
  have c: "occ es h = size (filter_mset (\<lambda>e. te_BlobHash e = h) (mset es))" for es by (induction es) auto
  assume "mset xs = mset ys"
  then show ?thesis by (simp only: c)
qed

lemma insert_published_Inr:
  assumes t: "insert_published E p es h existing st = (Inr x, st')"
    and c: "consistent E U (st_db st) (st_pb st)"
    and fresh: "map_of (db_versions (st_db st)) (p_Key p, p_Version p) = None"
    and r: "ready_row E (st_pb st) es h"
  obtains now seq where "consistent E U (st_db st') (st_pb st')" "st_pb st' = st_pb st"
    "db_versions (st_db st') = db_versions (st_db st) @ [((p_Key p, p_Version p), stored_row (new_row now p h seq))]"
proof -
  let ?k = "(p_Key p, p_Version p)"
  from t obtain now s0 seq s1 s2 u2 s3 u3 s4 u4 s5 u5 s6 u6 where
    now: "now = sv_now E (st_calls st)" "s0 = st"
    and seq: "resolveUpstreamSeq E p existing s0 = (Inr seq, s1)"
    and iv: "InsertVersion E (new_row now p h seq) s1 = (Inr u2, s2)"
    and ab: "AddBlobRefs E es s2 = (Inr u3, s3)"
    and det: "InsertDetection E (p_Key p) (p_Version p) (p_Detection p) s3 = (Inr u4, s4)"
    and rw: "InsertRewriteSet E (p_Key p) (p_Version p) (p_RewriteBlobs p) s4 = (Inr u5, s5)"
    and ar: "InsertArtifacts E (p_Key p) (p_Version p) (p_Artifacts p) s5 = (Inr u6, s6)"
    and hi: "AddHistory E (p_Key p) (p_Version p) (p_EventType p) h (p_EventMessage p) s6 = (Inr x, st')"
    unfolding insert_published_def op_Inr by blast
  let ?v = "new_row now p h seq"
  have vk: "vkey_of ?v = ?k" "v_TreeHash ?v = h" by (simp_all add: new_row_def NewVersion_def vkey_of_def)
  have sm: "same st s1" using readsD [OF resolveUpstreamSeq_reads seq] now by simp
  obtain es' where es': "tree_ready E (st_pb st) h es'" "mset es' = mset es" using r unfolding ready_row_def by blast
  have m1: "mid E U (st_pb st) {} (\<lambda>_. 0) (st_db s1)" and f1: "map_of (db_versions (st_db s1)) (vkey_of ?v) = None"
    using c fresh sm vk by (simp_all add: consistent_def same_def)
  have m2: "mid E U (st_pb st) (insert ?k {}) (\<lambda>h'. 0 - int (occ es' h')) (st_db s2)"
    and pb2: "st_pb s2 = st_pb st" and vs2: "db_versions (st_db s2) = db_versions (st_db st) @ [(?k, stored_row ?v)]"
    using mid_put_fresh [OF m1 f1, of es'] InsertVersion_Inr [OF iv] sm es'(1) vk update_fresh [OF f1]
    by (simp_all add: same_def db_put_version_def)
  obtain refs where refs: "counts es refs"
    "st_db s3 = (st_db s2)\<lparr>db_blob_refs := fold add_ref refs (db_blob_refs (st_db s2))\<rparr>" "st_pb s3 = st_pb s2"
    using ab by (rule AddBlobRefs_Inr)
  have ok: "\<forall>e \<in> set es. blob_ok E (st_pb st) e"
    using es' unfolding tree_ready_def by (metis set_mset_mset)
  have m3: "mid E U (st_pb st) {?k} (\<lambda>_. 0) (st_db s3)"
    unfolding refs(2) by (rule mid_f [OF mid_add [OF m2 refs(1) ok]]) (simp add: occ_mset [OF es'(2)])
  have m3': "mid E U (st_pb s3) {?k} (\<lambda>_. 0) (st_db s3)" using m3 refs(3) pb2 by simp
  note d = InsertDetection_Inr [OF det m3']
  have m4: "mid E U (st_pb st) {} (\<lambda>_. 0) (st_db s4)" and vs4: "db_versions (st_db s4) = db_versions (st_db s2)"
    and pb4: "st_pb s4 = st_pb st"
    using d refs(2,3) pb2 by simp_all
  note n = minorD [OF minor_statements(1) rw] minorD [OF minor_statements(2) ar] minorD [OF minor_AddHistory hi]
  have sr: "same_refs (st_db s4) (st_db st')" using n same_refs_trans by blast
  show thesis
  proof (rule that)
    show pb: "st_pb st' = st_pb st" using n pb4 by simp
    show "consistent E U (st_db st') (st_pb st')"
      unfolding consistent_def pb by (rule mid_same_refs [OF m4 sr])
    show "db_versions (st_db st') = db_versions (st_db st) @ [(?k, stored_row (new_row now p h seq))]"
      using sr vs4 vs2 by (simp add: same_refs_def)
  qed
qed

section \<open>The row that is replaced\<close>

lemma NextHistoricalVersion_minor:
  assumes "NextHistoricalVersion E pfx st = (Inr hv, st')"
  shows "same_refs (st_db st) (st_db st')" "st_pb st' = st_pb st"
proof -
  obtain t s1 n s2 y where q: "query E (\<lambda>db. map_of (db_globals db) (historyCounterName pfx)) st = (Inr t, s1)"
    and r: "(case t of None \<Rightarrow> sbind (maxHistoricalVersion E (''v0.0.0-'' @ pfx)) (\<lambda>m. sret (wrap64 (m + 1)))
        | Some t \<Rightarrow> (case Atoi t of None \<Rightarrow> sfail ErrHistoryCounter
           | Some n \<Rightarrow> if n < 1 then sfail ErrHistoryCounter else sret n)) s1 = (Inr n, s2)"
    and e: "exec E (\<lambda>db. Inr (db\<lparr>db_globals := AList.update (historyCounterName pfx) (Itoa (wrap64 (n + 1))) (db_globals db)\<rparr>)) s2
        = (Inr y, st')"
    using assms unfolding NextHistoricalVersion_def Let_def op_Inr by blast
  have rd: "reads (case t of None \<Rightarrow> sbind (maxHistoricalVersion E (''v0.0.0-'' @ pfx)) (\<lambda>m. sret (wrap64 (m + 1)))
        | Some t \<Rightarrow> (case Atoi t of None \<Rightarrow> sfail ErrHistoryCounter
           | Some n \<Rightarrow> if n < 1 then sfail ErrHistoryCounter else sret n))"
    by (intro frame)
  have "same st s2" by (rule same_trans [OF conjunct2 [OF query_Inr [OF q]] readsD [OF rd r]])
  then show "same_refs (st_db st) (st_db st')" "st_pb st' = st_pb st"
    using exec_Inr [OF e] by (auto simp: same_def same_refs_def)
qed

lemma map_of_in_keys: "map_of al k = Some v \<Longrightarrow> k \<in> fst ` set al"
  by (metis map_of_eq_None_iff option.distinct(1))

lemma CopyVersionMetadata_Inr:
  assumes t: "CopyVersionMetadata E v hv st = (Inr x, st')"
    and m: "mid E U (st_pb st) {} (\<lambda>_. 0) (st_db st)"
    and v: "map_of (db_versions (st_db st)) (vkey_of v) = Some v"
    and es: "tree_of E (st_pb st) (v_TreeHash v) = Some es"
  shows "map_of (db_versions (st_db st)) (v_Key v, hv) = None"
    "mid E U (st_pb st) {} (\<lambda>h. - int (occ es h)) (st_db st')" "st_pb st' = st_pb st"
    "db_versions (st_db st') = db_versions (st_db st) @ [((v_Key v, hv), stored_row (historical_copy v hv))]"
proof -
  let ?k = "vkey_of v" and ?k' = "(v_Key v, hv)" and ?c = "historical_copy v hv"
  from t obtain s1 y1 s2 y2 s3 y3 where iv: "InsertVersion E ?c st = (Inr y1, s1)"
    and cd: "exec E (db_copy_detection ?k ?k') s1 = (Inr y2, s2)"
    and cr: "exec E (db_copy_rewrites ?k ?k') s2 = (Inr y3, s3)"
    and ca: "exec E (db_copy_artifacts ?k ?k') s3 = (Inr x, st')"
    unfolding CopyVersionMetadata_def Let_def op_Inr by blast
  have c: "vkey_of ?c = ?k'" "v_TreeHash ?c = v_TreeHash v" by (simp_all add: historical_copy_def vkey_of_def)
  have s1: "st_db s1 = db_put_version ?c (st_db st)" "st_pb s1 = st_pb st" using InsertVersion_Inr [OF iv] by simp_all
  have det1: "db_detection (st_db s1) = db_detection (st_db st)" by (simp add: s1 db_put_version_def)
  have keys: "fst ` set (db_detection (st_db st)) = fst ` set (db_versions (st_db st))" using midD(4) [OF m] by simp
  have "?k \<in> fst ` set (db_detection (st_db st))" unfolding keys by (rule map_of_in_keys [OF v])
  then obtain d where d: "map_of (db_detection (st_db st)) ?k = Some d"
    by (metis map_of_eq_None_iff not_None_eq)
  from exec_Inr [OF cd] have nd: "map_of (db_detection (st_db st)) ?k' = None"
    and s2: "st_db s2 = (st_db s1)\<lparr>db_detection := db_detection (st_db s1) @ [(?k', d)]\<rparr>" "st_pb s2 = st_pb s1"
    by (auto simp: db_copy_detection_def det1 d split: if_splits)
  then have "?k' \<notin> fst ` set (db_versions (st_db st))" unfolding keys [symmetric] by (simp add: map_of_eq_None_iff)
  then show fresh: "map_of (db_versions (st_db st)) ?k' = None" by (simp add: map_of_eq_None_iff)
  have fc: "map_of (db_versions (st_db st)) (vkey_of ?c) = None" using fresh c by simp
  have tr: "tree_ready E (st_pb st) (v_TreeHash ?c) es"
    using midD(2) [OF m] map_of_SomeD [OF v] es c(2) unfolding rows_ok_def tree_ready_def by fastforce
  have m1: "mid E U (st_pb st) {?k'} (\<lambda>h. 0 - int (occ es h)) (st_db s1)"
    using mid_put_fresh [OF m fc tr] s1 c by simp
  have vs1: "db_versions (st_db s1) = db_versions (st_db st) @ [(?k', stored_row ?c)]"
    using update_fresh [OF fc] c by (simp add: s1 db_put_version_def)
  have "fst ` set (db_detection (st_db s1) @ [(?k', d)]) = insert ?k' (fst ` set (db_detection (st_db s1)))" by auto
  moreover have "distinct (map fst (db_detection (st_db s1) @ [(?k', d)]))"
    using keysD(3) [OF midD(1) [OF m]] nd by (simp add: det1 map_of_eq_None_iff)
  moreover have "has_version (st_db s1) ?k'" by (simp add: has_version_def vs1 fresh)
  ultimately have m2: "mid E U (st_pb st) ({?k'} - {?k'}) (\<lambda>h. 0 - int (occ es h)) (st_db s2)"
    unfolding s2(1) by (intro mid_detection [OF m1])
  note n = minorD [OF minor_statements(3) cr] minorD [OF minor_statements(4) ca]
  have sr: "same_refs (st_db s2) (st_db st')" using n same_refs_trans by blast
  show "mid E U (st_pb st) {} (\<lambda>h. - int (occ es h)) (st_db st')"
    using mid_same_refs [OF m2 sr] by simp
  show "st_pb st' = st_pb st" using n s2 s1 by simp
  show "db_versions (st_db st') = db_versions (st_db st) @ [(?k', stored_row ?c)]"
    using sr vs1 s2 by (simp add: same_refs_def)
qed

text \<open>The versions after a publication: the historical copy, if one is kept, and the new row.\<close>

definition archived ::
  "store_cfg \<Rightarrow> VersionObj option \<Rightarrow> string \<Rightarrow> (vkey \<rightharpoonup> VersionObj) \<Rightarrow> (vkey \<rightharpoonup> VersionObj)" where
  "archived cfg existing hist m =
     (case existing of None \<Rightarrow> m
      | Some v \<Rightarrow> if cf_Mutation cfg = MutationHistory
                  then m((v_Key v, hist) \<mapsto> stored_row (historical_copy v hist)) else m)"

lemma replace_existing_Inr:
  assumes t: "replace_existing E cfg p v es st = (Inr hist, st')"
    and c: "consistent E U (st_db st) (st_pb st)" and k: "vkey_of v = (p_Key p, p_Version p)"
    and v: "map_of (db_versions (st_db st)) (p_Key p, p_Version p) = Some v"
    and es: "tree_of E (st_pb st) (v_TreeHash v) = Some es"
  shows "consistent E U (st_db st') (st_pb st')" "st_pb st' = st_pb st"
    "map_of (db_versions (st_db st')) = (archived cfg (Some v) hist (map_of (db_versions (st_db st))))((p_Key p, p_Version p) := None)"
    "cf_Mutation cfg = MutationHistory \<Longrightarrow> map_of (db_versions (st_db st)) (v_Key v, hist) = None"
proof -
  note m = c [unfolded consistent_def]
  have "consistent E U (st_db st') (st_pb st') \<and> st_pb st' = st_pb st \<and>
    map_of (db_versions (st_db st')) = (archived cfg (Some v) hist (map_of (db_versions (st_db st))))((p_Key p, p_Version p) := None) \<and>
    (cf_Mutation cfg = MutationHistory \<longrightarrow> map_of (db_versions (st_db st)) (v_Key v, hist) = None)"
  proof (cases "cf_Mutation cfg = MutationHistory")
    case True
    with t obtain s1 s2 x2 x3 where n: "NextHistoricalVersion E (cf_HistoryPrefix cfg) st = (Inr hist, s1)"
      and cp: "CopyVersionMetadata E v hist s1 = (Inr x2, s2)"
      and d: "DeleteVersionRow E (p_Key p) (p_Version p) s2 = (Inr x3, st')"
      unfolding replace_existing_def by (auto simp: op_Inr)
    note n = NextHistoricalVersion_minor [OF n]
    have m1: "mid E U (st_pb s1) {} (\<lambda>_. 0) (st_db s1)" using mid_same_refs [OF m n(1)] n(2) by simp
    have v1: "map_of (db_versions (st_db s1)) (vkey_of v) = Some v" using v k n(1) by (simp add: same_refs_def)
    have es1: "tree_of E (st_pb s1) (v_TreeHash v) = Some es" using es n(2) by simp
    note cc = CopyVersionMetadata_Inr [OF cp m1 v1 es1]
    have db: "st_db st' = db_delete_version (p_Key p, p_Version p) (st_db s2)" "st_pb st' = st_pb s2"
      using exec_Inr [OF d [unfolded DeleteVersionRow_def]] by auto
    have ne: "(v_Key v, hist) \<noteq> (p_Key p, p_Version p)" using cc(1) v1 k by auto
    have v2: "map_of (db_versions (st_db s2)) (p_Key p, p_Version p) = Some v"
      using v1 k unfolding cc(4) by simp
    have pb: "st_pb s2 = st_pb st" using cc(3) n(2) by simp
    have "mid E U (st_pb s1) ({} - {(p_Key p, p_Version p)}) (\<lambda>h. - int (occ es h) + int (occ es h)) (st_db st')"
      unfolding db(1) by (rule mid_delete_row [OF cc(2) v2 es1])
    then have "consistent E U (st_db st') (st_pb st')"
      by (simp add: consistent_def db(2) cc(3))
    moreover have "map_of (db_versions (st_db st)) (v_Key v, hist) = None"
      using cc(1) n(1) by (simp add: same_refs_def)
    moreover have "map_of (db_versions (st_db st')) =
        (archived cfg (Some v) hist (map_of (db_versions (st_db st))))((p_Key p, p_Version p) := None)"
    proof
      fix k'
      have "map_of (db_versions (st_db s2)) k' =
          (if map_of (db_versions (st_db st)) k' = None \<and> k' = (v_Key v, hist) then Some (stored_row (historical_copy v hist))
           else map_of (db_versions (st_db st)) k')"
        using n(1) cc(1) unfolding cc(4) by (auto simp: same_refs_def map_add_def split: option.splits)
      then show "map_of (db_versions (st_db st')) k' =
          ((archived cfg (Some v) hist (map_of (db_versions (st_db st))))((p_Key p, p_Version p) := None)) k'"
        using cc(1) n(1) True ne
        by (auto simp: db(1) db_delete_version_def map_of_delete archived_def same_refs_def)
    qed
    ultimately show ?thesis using db(2) pb by simp
  next
    case False
    with t obtain x where d: "deleteVersionTx E v es st = (Inr x, st')"
      unfolding replace_existing_def by (auto simp: op_Inr)
    note dv = deleteVersionTx_Inr [OF d k m v es]
    have "consistent E U (st_db st') (st_pb st')" using dv(1,2) by (simp add: consistent_def)
    then show ?thesis using dv False by (auto simp: archived_def map_of_delete)
  qed
  then show "consistent E U (st_db st') (st_pb st')" "st_pb st' = st_pb st"
    "map_of (db_versions (st_db st')) = (archived cfg (Some v) hist (map_of (db_versions (st_db st))))((p_Key p, p_Version p) := None)"
    "cf_Mutation cfg = MutationHistory \<Longrightarrow> map_of (db_versions (st_db st)) (v_Key v, hist) = None" by blast+
qed

definition outcome ::
  "store_cfg \<Rightarrow> PublishObj \<Rightarrow> HashObj \<Rightarrow> storeObj \<Rightarrow> PublishResultObj \<Rightarrow> storeObj \<Rightarrow> bool" where
  "outcome cfg p h st r st' \<longleftrightarrow>
     (let k = (p_Key p, p_Version p); old = map_of (db_versions (st_db st)) in
      if r_Skipped r
      then r = (publish_result p h)\<lparr>r_Skipped := True\<rparr> \<and> db_versions (st_db st') = db_versions (st_db st) \<and>
           (\<exists>v. old k = Some v \<and> v_TreeHash v = h)
      else \<exists>now seq hist. r = (publish_result p h)\<lparr>r_Historical := hist, r_Published := True\<rparr> \<and>
           map_of (db_versions (st_db st')) =
             (archived cfg (old k) hist old)(k \<mapsto> stored_row (new_row now p h seq)) \<and>
           (\<forall>v. old k = Some v \<longrightarrow> v_TreeHash v \<noteq> h \<and>
              (cf_Mutation cfg = MutationHistory \<longrightarrow> old (v_Key v, hist) = None)))"

lemma outcome_cong:
  "outcome cfg p h st1 r st' \<Longrightarrow> st_db st1 = st_db st \<Longrightarrow> db_versions (st_db st2) = db_versions (st_db st') \<Longrightarrow>
   outcome cfg p h st r st2"
  unfolding outcome_def by (simp only:)

lemma outcomeI:
  assumes "r = (publish_result p h)\<lparr>r_Historical := hist, r_Published := True\<rparr>"
    "map_of (db_versions (st_db st')) = (archived cfg (map_of (db_versions (st_db st)) (p_Key p, p_Version p)) hist
       (map_of (db_versions (st_db st))))((p_Key p, p_Version p) \<mapsto> stored_row (new_row now p h seq))"
    "\<And>v. map_of (db_versions (st_db st)) (p_Key p, p_Version p) = Some v \<Longrightarrow> v_TreeHash v \<noteq> h \<and>
       (cf_Mutation cfg = MutationHistory \<longrightarrow> map_of (db_versions (st_db st)) (v_Key v, hist) = None)"
  shows "outcome cfg p h st r st'"
proof -
  have ns: "\<not> r_Skipped r" by (simp add: assms(1) publish_result_def)
  show ?thesis unfolding outcome_def Let_def if_not_P [OF ns]
    by (intro exI conjI, rule assms(1), rule assms(2)) (use assms(3) in blast)
qed

lemma publishTx_Inr:
  assumes t: "publishTx E cfg p es h existing oldEs st = (Inr r, st')"
    and c: "consistent E U (st_db st) (st_pb st)"
    and ex: "existing = map_of (db_versions (st_db st)) (p_Key p, p_Version p)"
    and old: "\<And>v. existing = Some v \<Longrightarrow> tree_of E (st_pb st) (v_TreeHash v) = Some oldEs"
    and rd: "ready_row E (st_pb st) es h"
  shows "consistent E U (st_db st') (st_pb st') \<and> st_pb st' = st_pb st \<and> outcome cfg p h st r st'"
proof -
  let ?k = "(p_Key p, p_Version p)"
  show ?thesis
  proof (cases existing)
    case None
    with t obtain x where i: "insert_published E p es h None st = (Inr x, st')"
      and r: "r = (publish_result p h)\<lparr>r_Published := True\<rparr>"
      unfolding publishTx_def by (auto simp: op_Inr)
    have fresh: "map_of (db_versions (st_db st)) ?k = None" using None ex by simp
    from i c fresh rd show ?thesis
    proof (rule insert_published_Inr)
      fix now seq assume a: "consistent E U (st_db st') (st_pb st')" "st_pb st' = st_pb st"
        "db_versions (st_db st') = db_versions (st_db st) @ [(?k, stored_row (new_row now p h seq))]"
      have "map_of (db_versions (st_db st')) =
          (archived cfg None [] (map_of (db_versions (st_db st))))(?k \<mapsto> stored_row (new_row now p h seq))"
        unfolding a(3) using fresh by (auto simp: archived_def fun_eq_iff map_add_def split: option.splits)
      then have "outcome cfg p h st r st'"
        by (intro outcomeI) (use r fresh in \<open>simp_all add: publish_result_def\<close>)
      then show ?thesis using a(1,2) by blast
    qed
  next
    case (Some v)
    have v: "map_of (db_versions (st_db st)) ?k = Some v" using ex Some by simp
    have vk: "vkey_of v = ?k" by (rule row_vkey [OF midD(1) [OF c [unfolded consistent_def]] v])
    show ?thesis
    proof (cases "v_TreeHash v = h")
      case True
      then show ?thesis using t Some c v
        by (auto simp: publishTx_def sret_def outcome_def Let_def publish_result_def)
    next
      case False
      with t Some obtain hist s1 x where rp: "replace_existing E cfg p v oldEs st = (Inr hist, s1)"
        and i: "insert_published E p es h (Some v) s1 = (Inr x, st')"
        and r: "r = (publish_result p h)\<lparr>r_Historical := hist, r_Published := True\<rparr>"
        unfolding publishTx_def by (auto simp: op_Inr)
      note re = replace_existing_Inr [OF rp c vk v old [OF Some]]
      have fresh: "map_of (db_versions (st_db s1)) ?k = None" unfolding re(3) by simp
      have rd1: "ready_row E (st_pb s1) es h" using rd re(2) by simp
      from i re(1) fresh rd1 show ?thesis
      proof (rule insert_published_Inr)
        fix now seq assume a: "consistent E U (st_db st') (st_pb st')" "st_pb st' = st_pb s1"
          "db_versions (st_db st') = db_versions (st_db s1) @ [(?k, stored_row (new_row now p h seq))]"
        have "map_of (db_versions (st_db st')) = (map_of (db_versions (st_db s1)))(?k \<mapsto> stored_row (new_row now p h seq))"
          unfolding a(3) using fresh by (auto simp: fun_eq_iff map_add_def split: option.splits)
        then have "map_of (db_versions (st_db st')) =
            (archived cfg (Some v) hist (map_of (db_versions (st_db st))))(?k \<mapsto> stored_row (new_row now p h seq))"
          unfolding re(3) by simp
        then have "outcome cfg p h st r st'"
          by (intro outcomeI [OF r]) (use v False re(4) in simp_all)
        then show ?thesis using a(1,2) re(2) by simp
      qed
    qed
  qed
qed

section \<open>A failed publication\<close>

text \<open>What a failure may leave behind: the tables as they were, and a consistent store.\<close>

definition rolled_back :: "store_env \<Rightarrow> bytes set \<Rightarrow> storeObj \<Rightarrow> storeObj \<Rightarrow> bool" where
  "rolled_back E U st st' \<longleftrightarrow> st_db st' = st_db st \<and> consistent E U (st_db st') (st_pb st')"

lemma cleanupUnreferenced_rolled_back:
  assumes t: "cleanupUnreferencedPendingObjects E pend st = (r, st')" and c: "consistent E U (st_db st) (st_pb st)"
  shows "rolled_back E U st st'"
proof (cases "po_ObjectArr pend = []")
  case True
  then show ?thesis using t c by (simp add: cleanupUnreferencedPendingObjects_def sret_def rolled_back_def)
next
  case False
  then have "sbind (unreferenced_objects E (po_ObjectArr pend)) (DeleteObjects E) st = (r, st')"
    using t by (simp add: cleanupUnreferencedPendingObjects_def)
  from checked_delete [OF this c] show ?thesis unfolding rolled_back_def by metis
qed

lemma or_cleanup_cases:
  assumes t: "or_cleanup E pend m st = (r, st')"
    and err: "\<forall>e s1. m st = (Inl e, s1) \<longrightarrow> consistent E U (st_db s1) (st_pb s1) \<and> st_db s1 = st_db st"
  obtains (ok) x where "m st = (Inr x, st')" "r = Inr x" | (fail) e where "r = Inl e" "rolled_back E U st st'"
proof (cases "m st")
  case (Pair r1 s1)
  show thesis
  proof (cases r1)
    case (Inr x)
    then show thesis using t Pair by (intro ok) (auto simp: or_cleanup_def)
  next
    case (Inl e)
    have e: "consistent E U (st_db s1) (st_pb s1) \<and> st_db s1 = st_db st" using err Pair Inl by blast
    obtain r2 s2 where cl: "cleanupUnreferencedPendingObjects E pend s1 = (r2, s2)" by fastforce
    have "rolled_back E U s1 s2" by (rule cleanupUnreferenced_rolled_back [OF cl]) (use e in blast)
    moreover have "\<exists>e'. r = Inl e' \<and> st' = s2"
      using t Pair Inl cl by (auto simp: or_cleanup_def cleanupPublishFailure_def split: sum.splits)
    ultimately show thesis using e fail unfolding rolled_back_def by auto
  qed
qed

lemma or_cleanup_reads:
  assumes "or_cleanup E pend m st = (r, st')" "reads m" "consistent E U (st_db st) (st_pb st)"
  obtains (ok) x where "m st = (Inr x, st')" "r = Inr x" "same st st'" | (fail) e where "r = Inl e" "rolled_back E U st st'"
proof -
  have err: "\<forall>e s1. m st = (Inl e, s1) \<longrightarrow> consistent E U (st_db s1) (st_pb s1) \<and> st_db s1 = st_db st"
    using readsD [OF assms(2)] assms(3) by (metis same_def)
  from assms(1) err show thesis
    by (cases rule: or_cleanup_cases) (use ok fail readsD [OF assms(2)] in blast)+
qed

lemma keeps_pb_publishTx [frame]: "keeps_pb (publishTx E cfg p es h existing oldEs)"
proof -
  have n: "keeps_pb (NextHistoricalVersion E pfx)" for pfx
    unfolding NextHistoricalVersion_def maxHistoricalVersion_def Let_def by (intro frame)
  have d: "keeps_pb (deleteVersionTx E v oldEs)" for v unfolding deleteVersionTx_def by (intro frame)
  have r: "keeps_pb (replace_existing E cfg p v oldEs)" for v
    unfolding replace_existing_def by (intro frame n d)
  have s: "keeps_pb (resolveUpstreamSeq E p existing)" by (rule reads_pb [OF resolveUpstreamSeq_reads])
  have i: "keeps_pb (insert_published E p es h existing)"
    unfolding insert_published_def by (intro frame s)
  have "keeps_pb (insert_published E p es h None)" if "existing = None" using i that by simp
  moreover have "keeps_pb (insert_published E p es h (Some v))" if "existing = Some v" for v using i that by simp
  ultimately show ?thesis unfolding publishTx_def
    by (cases existing) (auto intro!: frame r i)
qed

lemma WithTx_publish:
  assumes t: "WithTx E (publishTx E cfg p es h existing oldEs) st = (r, st')"
    and c: "consistent E U (st_db st) (st_pb st)"
    and ex: "existing = map_of (db_versions (st_db st)) (p_Key p, p_Version p)"
    and old: "\<And>v. existing = Some v \<Longrightarrow> tree_of E (st_pb st) (v_TreeHash v) = Some oldEs"
    and rd: "ready_row E (st_pb st) es h"
  shows "case r of Inl e \<Rightarrow> same st st'
    | Inr x \<Rightarrow> consistent E U (st_db st') (st_pb st') \<and> st_pb st' = st_pb st \<and> outcome cfg p h st x st'"
proof (cases r)
  case (Inl e)
  then show ?thesis using WithTx_Inl [OF t [unfolded Inl] keeps_pb_publishTx] by simp
next
  case (Inr x)
  from t [unfolded Inr] obtain s1 s2 where s: "same st s1" "publishTx E cfg p es h existing oldEs s1 = (Inr x, s2)" "same s2 st'"
    by (rule WithTx_Inr)
  have "consistent E U (st_db s2) (st_pb s2) \<and> st_pb s2 = st_pb s1 \<and> outcome cfg p h s1 x s2"
    by (rule publishTx_Inr [OF s(2)]) (use c ex old rd s(1) in \<open>auto simp: same_def\<close>)
  then have a: "consistent E U (st_db s2) (st_pb s2)" "st_pb s2 = st_pb s1" "outcome cfg p h s1 x s2" by blast+
  have "outcome cfg p h st x st'"
    by (rule outcome_cong [OF a(3)]) (use s(1,3) in \<open>simp_all add: same_def\<close>)
  with a show ?thesis using s(1,3) Inr by (simp add: same_def)
qed

text \<open>The commit: consistent in any case; on an error the tables are as before.\<close>

lemma commitPublish_result:
  assumes t: "commitPublish E cfg p es h pend st = (r, st')"
    and c: "consistent E U (st_db st) (st_pb st)" and rd: "ready_row E (st_pb st) es h"
  shows "case r of Inl e \<Rightarrow> rolled_back E U st st'
    | Inr x \<Rightarrow> consistent E U (st_db st') (st_pb st') \<and> outcome cfg p h st x st'"
  using t unfolding commitPublish_def
proof (cases rule: sbindE)
  case (err e)
  from err(1) reads_statements(1) c show ?thesis by (cases rule: or_cleanup_reads) (use err(2) in auto)
next
  case (ok existing s1)
  from ok(1) have g: "GetVersion E (p_Key p) (p_Version p) st = (Inr existing, s1)"
    by (simp add: or_cleanup_def cleanupPublishFailure_def split: prod.splits sum.splits)
  note g = GetVersion_Inr [OF g]
  have c1: "consistent E U (st_db s1) (st_pb s1)" and rd1: "ready_row E (st_pb s1) es h"
    and ex1: "existing = map_of (db_versions (st_db s1)) (p_Key p, p_Version p)"
    using c rd g by (simp_all add: same_def)
  have move: "case r of Inl e \<Rightarrow> rolled_back E U st st'
      | Inr x \<Rightarrow> consistent E U (st_db st') (st_pb st') \<and> outcome cfg p h st x st'"
    if "case r of Inl e \<Rightarrow> rolled_back E U s1 st'
      | Inr x \<Rightarrow> consistent E U (st_db st') (st_pb st') \<and> outcome cfg p h s1 x st'"
    using that g outcome_cong [of cfg p h s1 _ st' st st'] by (cases r) (auto simp: same_def rolled_back_def)
  show ?thesis
  proof (rule move, cases existing)
    case None
    with ok(2) have w: "or_cleanup E pend (WithTx E (publishTx E cfg p es h None [])) s1 = (r, st')" by simp
    have n: "None = map_of (db_versions (st_db s1)) (p_Key p, p_Version p)" using ex1 None by simp
    note wp = WithTx_publish [OF _ c1 n _ rd1]
    have er: "\<forall>e s2. WithTx E (publishTx E cfg p es h None []) s1 = (Inl e, s2) \<longrightarrow>
        consistent E U (st_db s2) (st_pb s2) \<and> st_db s2 = st_db s1"
      using wp c1 by (fastforce simp: same_def)
    from w er show "case r of Inl e \<Rightarrow> rolled_back E U s1 st'
      | Inr x \<Rightarrow> consistent E U (st_db st') (st_pb st') \<and> outcome cfg p h s1 x st'"
    proof (cases rule: or_cleanup_cases)
      case (ok x)
      then show ?thesis using wp [OF ok(1)] by auto
    qed auto
  next
    case (Some v)
    show "case r of Inl e \<Rightarrow> rolled_back E U s1 st'
      | Inr x \<Rightarrow> consistent E U (st_db st') (st_pb st') \<and> outcome cfg p h s1 x st'"
    proof (cases "v_TreeHash v = h")
      case True
      then show ?thesis using ok(2) Some ex1 c1
        by (auto simp: sret_def outcome_def Let_def publish_result_def)
    next
      case False
      with ok(2) Some have w: "sbind (or_cleanup E pend (readTreeInternal E (v_TreeHash v))) (\<lambda>oldEs.
           sbind (or_cleanup E pend (WithTx E (publishTx E cfg p es h existing oldEs))) (\<lambda>resultObj.
           sbind (if cf_Mutation cfg = MutationOverwrite
                  then logged (cleanupDeletedObjectsLocked E (v_TreeHash v) oldEs) else sret ()) (\<lambda>_.
           sret resultObj))) s1 = (r, st')" by simp
      then show ?thesis
      proof (cases rule: sbindE)
        case (err e)
        from err(1) reads_readTreeInternal c1 show ?thesis by (cases rule: or_cleanup_reads) (use err(2) in auto)
      next
        case (ok oldEs s2)
        from ok(1) have rt: "readTreeInternal E (v_TreeHash v) s1 = (Inr oldEs, s2)"
          by (simp add: or_cleanup_def cleanupPublishFailure_def split: prod.splits sum.splits)
        have sm: "same s1 s2" by (rule readsD [OF reads_readTreeInternal rt])
        have old: "\<And>v'. existing = Some v' \<Longrightarrow> tree_of E (st_pb s2) (v_TreeHash v') = Some oldEs"
          using readTree_tree_of [OF rt] sm Some by (simp add: same_def)
        have c2: "consistent E U (st_db s2) (st_pb s2)" and rd2: "ready_row E (st_pb s2) es h"
          and ex2: "existing = map_of (db_versions (st_db s2)) (p_Key p, p_Version p)"
          using c1 rd1 ex1 sm by (simp_all add: same_def)
        note wp = WithTx_publish [OF _ c2 ex2 old rd2]
        have er: "\<forall>e s3. WithTx E (publishTx E cfg p es h existing oldEs) s2 = (Inl e, s3) \<longrightarrow>
            consistent E U (st_db s3) (st_pb s3) \<and> st_db s3 = st_db s2"
          using wp c2 by (fastforce simp: same_def)
        from ok(2) show ?thesis
        proof (cases rule: sbindE)
          case (err e)
          from err(1) er show ?thesis
            by (cases rule: or_cleanup_cases) (use err(2) sm in \<open>auto simp: rolled_back_def same_def\<close>)
        next
          case (ok x s3)
          from ok(1) have "WithTx E (publishTx E cfg p es h existing oldEs) s2 = (Inr x, s3)"
            by (simp add: or_cleanup_def cleanupPublishFailure_def split: prod.splits sum.splits)
          from wp [OF this] have c3: "consistent E U (st_db s3) (st_pb s3)" and o2: "outcome cfg p h s2 x s3"
            by auto
          have o3: "outcome cfg p h s1 x s3" by (rule outcome_cong [OF o2]) (use sm in \<open>simp_all add: same_def\<close>)
          obtain q s4 where cl: "cleanupDeletedObjectsLocked E (v_TreeHash v) oldEs s3 = (q, s4)" by fastforce
          have c4: "consistent E U (st_db s4) (st_pb s4) \<and> db_versions (st_db s4) = db_versions (st_db s3)"
            using cleanupDeleted_consistent [OF cl c3] by metis
          have "r = Inr x \<and> (st' = s3 \<or> st' = s4)"
            using ok(2) cl by (auto simp: sbind_def sret_def logged_def split: if_splits)
          then show ?thesis using c3 o3 c4 outcome_cong [OF o3 refl] by auto
        qed
      qed
    qed
  qed
qed

end
