(* ===== verification/Store_Write.thy ===== *)
theory Store_Write
  imports Store_Commit
begin

text \<open>
  Writing the objects of a publication. A write is verified: what is stored under the key of an
  object has its digest. Without collisions on \<open>U\<close> a verified write does not change an object
  that was valid, so it keeps the store consistent; after the writes every object of the new
  tree is there.
\<close>

section \<open>Verified writes\<close>

definition valid :: "store_env \<Rightarrow> (bytes \<times> bytes) list \<Rightarrow> PendingObjectObj \<Rightarrow> bool" where
  "valid E pb p \<longleftrightarrow> (\<exists>v. map_of pb (object_key p) = Some v \<and> sv_H E v = snd p)"

definition authentic :: "store_env \<Rightarrow> bytes set \<Rightarrow> bytes \<Rightarrow> bytes \<Rightarrow> bool" where
  "authentic E U k v \<longleftrightarrow> (\<exists>p. k = object_key p \<and> sv_H E v = snd p) \<and> v \<in> U"

definition wrote :: "store_env \<Rightarrow> bytes set \<Rightarrow> (bytes \<times> bytes) list \<Rightarrow> (bytes \<times> bytes) list \<Rightarrow> bool" where
  "wrote E U pb pb' \<longleftrightarrow> (\<forall>k. map_of pb' k = map_of pb k \<or> (\<exists>v. map_of pb' k = Some v \<and> authentic E U k v))"

lemma object_key_inject [simp]: "object_key p = object_key q \<longleftrightarrow> p = q"
  by (cases p; cases q) (simp add: object_key_def)

lemma authentic_object [simp]: "authentic E U (object_key p) v \<longleftrightarrow> sv_H E v = snd p \<and> v \<in> U"
  by (auto simp: authentic_def)

lemma wrote_refl [simp]: "wrote E U pb pb" by (simp add: wrote_def)

lemma wrote_trans: "wrote E U a b \<Longrightarrow> wrote E U b c \<Longrightarrow> wrote E U a c"
  unfolding wrote_def by metis

lemma wrote_valid: "wrote E U pb pb' \<Longrightarrow> valid E pb p \<Longrightarrow> valid E pb' p"
  unfolding wrote_def valid_def by (metis authentic_object)

lemma wrote_ran: "wrote E U pb pb' \<Longrightarrow> ran (map_of pb) \<subseteq> U \<Longrightarrow> ran (map_of pb') \<subseteq> U"
proof
  fix v assume w: "wrote E U pb pb'" and r: "ran (map_of pb) \<subseteq> U" and v: "v \<in> ran (map_of pb')"
  then obtain k where "map_of pb' k = Some v" by (auto simp: ran_def)
  then show "v \<in> U" using w r ranI [of "map_of pb" k v] unfolding wrote_def authentic_def by (metis option.inject subsetD)
qed

lemma wrote_same:
  assumes w: "wrote E U pb pb'" and i: "inj_on (sv_H E) U" and r: "ran (map_of pb) \<subseteq> U" and v: "valid E pb p"
  shows "map_of pb' (object_key p) = map_of pb (object_key p)"
proof -
  obtain x where x: "map_of pb (object_key p) = Some x" "sv_H E x = snd p" using v unfolding valid_def by blast
  then have "x \<in> U" using r ranI [of "map_of pb" "object_key p" x] by blast
  then show ?thesis using w x i unfolding wrote_def by (metis inj_onD authentic_object)
qed

lemma tree_of_valid: "tree_of E pb h = Some es \<Longrightarrow> valid E pb (PendingTree h)"
  by (auto simp: tree_of_Some valid_def PendingTree_def)

lemma blob_ok_valid: "blob_ok E pb e \<Longrightarrow> valid E pb (PendingBlob (te_BlobHash e))"
  by (auto simp: blob_ok_def valid_def PendingBlob_def)

lemma referenced_valid:
  assumes c: "consistent E U db pb"
  shows "tree_referenced db h \<Longrightarrow> valid E pb (PendingTree h)"
    "blob_referenced db h \<Longrightarrow> \<exists>r es e. r \<in> set (db_versions db) \<and> tree_ready E pb (v_TreeHash (snd r)) es \<and>
       e \<in> set es \<and> te_BlobHash e = h"
proof -
  note m = c [unfolded consistent_def]
  have rows: "\<exists>es. tree_ready E pb (v_TreeHash (snd r)) es" if "r \<in> set (db_versions db)" for r
    using midD(2) [OF m] that unfolding rows_ok_def by blast
  show "valid E pb (PendingTree h)" if "tree_referenced db h"
    using that rows tree_of_valid unfolding tree_referenced_row tree_ready_def by blast
  assume "blob_referenced db h"
  then have "0 < ref_total E pb (db_versions db) h"
    using midD(5) [OF m, of h] by (simp add: blob_referenced_rc)
  then obtain r where r: "r \<in> set (db_versions db)" "0 < trefs E pb (v_TreeHash (snd r)) h"
    unfolding ref_total_def by (metis (no_types, lifting) in_set_conv_nth length_map not_gr_zero nth_map sum_list_eq_0_iff)
  obtain es where es: "tree_ready E pb (v_TreeHash (snd r)) es" using rows [OF r(1)] by blast
  then have "0 < occ es h" using r(2) by (simp add: tree_ready_def trefs_ready)
  then show "\<exists>r es e. r \<in> set (db_versions db) \<and> tree_ready E pb (v_TreeHash (snd r)) es \<and> e \<in> set es \<and> te_BlobHash e = h"
    using r(1) es unfolding occ_pos by blast
qed

lemma wrote_consistent:
  assumes c: "consistent E U db pb" and i: "inj_on (sv_H E) U" and w: "wrote E U pb pb'"
  shows "consistent E U db pb'"
proof -
  have ran: "ran (map_of pb) \<subseteq> U" by (rule midD(7) [OF c [unfolded consistent_def]])
  note keep = wrote_same [OF w i ran]
  show ?thesis
  proof (rule consistent_pb [OF c])
    show "map_of pb' (treeKey h) = map_of pb (treeKey h)" if "tree_referenced db h" for h
      using keep [OF referenced_valid(1) [OF c that]] by simp
    show "map_of pb' (blobKey h) = map_of pb (blobKey h)" if ref: "blob_referenced db h" for h
    proof -
      obtain es e where "e \<in> set es" "te_BlobHash e = h" "\<forall>e \<in> set es. blob_ok E pb e"
        using referenced_valid(2) [OF c ref] unfolding tree_ready_def by blast
      then have "valid E pb (PendingBlob h)" using blob_ok_valid by blast
      then show ?thesis using keep [of "PendingBlob h"] by simp
    qed
    show "ran (map_of pb') \<subseteq> U" by (rule wrote_ran [OF w ran])
  qed
qed

section \<open>Batches\<close>

definition authentic_batch :: "store_env \<Rightarrow> bytes set \<Rightarrow> batchObj \<Rightarrow> bool" where
  "authentic_batch E U ws \<longleftrightarrow> (\<forall>w \<in> set ws. \<exists>v. snd w = Some v \<and> authentic E U (fst w) v)"

definition holds_all :: "store_env \<Rightarrow> (bytes \<times> bytes) list \<Rightarrow> batchObj \<Rightarrow> bool" where
  "holds_all E pb ws \<longleftrightarrow> (\<forall>p. object_key p \<in> fst ` set ws \<longrightarrow> valid E pb p)"

lemma wrote_holds: "wrote E U pb pb' \<Longrightarrow> holds_all E pb ws \<Longrightarrow> holds_all E pb' ws"
  unfolding holds_all_def using wrote_valid by blast

lemma fold_writes:
  "authentic_batch E U ws \<Longrightarrow>
   wrote E U pb (fold batch_apply ws pb) \<and> holds_all E (fold batch_apply ws pb) ws"
proof (induction ws arbitrary: pb)
  case Nil
  then show ?case by (simp add: holds_all_def)
next
  case (Cons w ws)
  obtain p v where w: "w = (object_key p, Some v)" "sv_H E v = snd p" "v \<in> U"
    using Cons.prems unfolding authentic_batch_def authentic_def by (metis list.set_intros(1) prod.collapse)
  let ?pb = "batch_apply w pb"
  have w1: "wrote E U pb ?pb" using w by (auto simp: wrote_def batch_apply_def update_conv')
  have v1: "valid E ?pb p" using w by (auto simp: valid_def batch_apply_def update_conv')
  have ih: "wrote E U ?pb (fold batch_apply ws ?pb)" "holds_all E (fold batch_apply ws ?pb) ws"
    using Cons by (simp_all add: authentic_batch_def)
  then show ?case using wrote_trans [OF w1 ih(1)] wrote_valid [OF ih(1) v1] w(1)
    by (auto simp: holds_all_def)
qed

lemma commitBatch_effect:
  assumes t: "commitBatch E ws st = (r, st')" and v: "authentic_batch E U ws"
  shows "st_db st' = st_db st" "wrote E U (st_pb st) (st_pb st')" "r = Inr x \<Longrightarrow> holds_all E (st_pb st') ws"
proof -
  have "st_db st' = st_db st \<and> wrote E U (st_pb st) (st_pb st') \<and> (\<forall>x. r = Inr x \<longrightarrow> holds_all E (st_pb st') ws)"
  proof (cases "ws = []")
    case True
    then show ?thesis using t by (simp add: commitBatch_def sret_def holds_all_def)
  next
    case False
    then have "sbind (batch_commit E ws) (\<lambda>_. io E) st = (r, st')" using t by (simp add: commitBatch_def)
    then show ?thesis
    proof (cases rule: sbindE)
      case (err e)
      have "same st st'" using err(1) unfolding batch_commit_def
        by (cases rule: sbindE) (auto simp: smod_def dest: io_same)
      then show ?thesis using err(2) by (simp add: same_def)
    next
      case (ok u s1)
      have "st_db s1 = st_db st" "st_pb s1 = fold batch_apply ws (st_pb st)"
        using ok(1) unfolding batch_commit_def by (auto simp: op_Inr io_Inr)
      then show ?thesis using io_same [OF ok(2)] fold_writes [OF v, of "st_pb st"] by (simp add: same_def)
    qed
  qed
  then show "st_db st' = st_db st" "wrote E U (st_pb st) (st_pb st')" "r = Inr x \<Longrightarrow> holds_all E (st_pb st') ws" by blast+
qed

section \<open>The loop over the pending objects\<close>

definition fetches :: "store_env \<Rightarrow> bytes set \<Rightarrow> (PendingObjectObj \<Rightarrow> bytes sto) \<Rightarrow> bool" where
  "fetches E U fetch \<longleftrightarrow> (\<forall>p st r st'. fetch p st = (r, st') \<longrightarrow>
     same st st' \<and> (\<forall>v. r = Inr v \<longrightarrow> sv_H E v = snd p \<and> v \<in> U))"

definition write_effect ::
  "store_env \<Rightarrow> bytes set \<Rightarrow> batchObj \<Rightarrow> PendingObjectObj list \<Rightarrow> storeObj \<Rightarrow> store_error + unit \<Rightarrow> storeObj \<Rightarrow> bool" where
  "write_effect E U ws ps st r st' \<longleftrightarrow> st_db st' = st_db st \<and> wrote E U (st_pb st) (st_pb st') \<and>
     (\<forall>x. r = Inr x \<longrightarrow> holds_all E (st_pb st') ws \<and> (\<forall>p \<in> set ps. valid E (st_pb st') p))"

lemma write_loop_effect:
  "write_loop E loadSize fetch ws b ps st = (r, st') \<Longrightarrow> fetches E U fetch \<Longrightarrow> authentic_batch E U ws \<Longrightarrow>
   write_effect E U ws ps st r st'"
proof (induction ps arbitrary: ws b st)
  case Nil
  then show ?case using commitBatch_effect [of E ws st r st' U] by (auto simp: write_effect_def)
next
  case (Cons p ps)
  have quiet: "write_effect E U ws (p # ps) st (Inl e) s" if "same st s" for e s
    using that by (simp add: write_effect_def same_def)
  from Cons.prems(1) show ?case unfolding write_loop.simps
  proof (cases rule: sbindE)
    case (err e)
    then show ?thesis using quiet io_same [OF err(1)] by simp
  next
    case (ok u s1)
    note sm1 = io_same [OF ok(1)]
    from ok(2) show ?thesis
    proof (cases rule: sbindE)
      case (err e)
      then show ?thesis using quiet sm1 by (simp add: slift_def)
    next
      case (ok size s2)
      then have sm2: "same st s2" using sm1 by (simp add: slift_def)
      from ok(2) show ?thesis
      proof (cases rule: sbindE)
        case (err e)
        then have "commitBatch E ws s2 = (Inl e, st')" by (auto simp: op_Inl split: if_splits)
        from commitBatch_effect(1,2) [OF this Cons.prems(3)] show ?thesis
          using err(2) sm2 by (simp add: write_effect_def same_def)
      next
        case (ok x s3)
        obtain ws' b' where x: "x = (ws', b')" by (cases x)
        have c: "st_db s3 = st_db st \<and> wrote E U (st_pb st) (st_pb s3) \<and> authentic_batch E U ws' \<and>
            (ws' = ws \<or> holds_all E (st_pb s3) ws)"
        proof -
          consider y where "commitBatch E ws s2 = (Inr y, s3)" "ws' = []" | "s3 = s2" "ws' = ws"
            using ok(1) x by (auto simp: op_Inr split: if_splits)
          then show ?thesis
          proof cases
            case 1
            from commitBatch_effect [OF 1(1) Cons.prems(3)] show ?thesis
              using sm2 1(2) by (simp add: same_def authentic_batch_def)
          next
            case 2
            then show ?thesis using sm2 Cons.prems(3) by (simp add: same_def)
          qed
        qed
        from ok(2) [unfolded x prod.case] show ?thesis
        proof (cases rule: sbindE)
          case (err e)
          then have "same s3 st'" using Cons.prems(2) unfolding fetches_def by blast
          then show ?thesis using c err(2) by (simp add: write_effect_def same_def)
        next
          case (ok v s4)
          then have f: "same s3 s4" "sv_H E v = snd p" "v \<in> U" using Cons.prems(2) unfolding fetches_def by blast+
          from ok(2) show ?thesis
          proof (cases rule: sbindE)
            case (err e)
            then show ?thesis using c f(1) io_same [OF err(1)] by (simp add: write_effect_def same_def)
          next
            case (ok u2 s5)
            have sm5: "st_db s5 = st_db st" "st_pb s5 = st_pb s3" using io_same [OF ok(1)] f(1) c by (simp_all add: same_def)
            show ?thesis
            proof (cases "of_nat (length v) \<noteq> size")
              case True
              then show ?thesis using ok(2) c sm5 by (auto simp: sfail_def write_effect_def)
            next
              case False
              with ok(2) have w: "write_loop E loadSize fetch (ws' @ [(object_key p, Some v)])
                  (b' + of_nat (length v)) ps s5 = (r, st')" by simp
              have vb: "authentic_batch E U (ws' @ [(object_key p, Some v)])"
                using c f(2,3) by (auto simp: authentic_batch_def)
              from Cons.IH [OF w Cons.prems(2) vb]
              have ih: "st_db st' = st_db s5" "wrote E U (st_pb s5) (st_pb st')"
                "\<forall>x. r = Inr x \<longrightarrow> holds_all E (st_pb st') (ws' @ [(object_key p, Some v)]) \<and> (\<forall>q \<in> set ps. valid E (st_pb st') q)"
                unfolding write_effect_def by blast+
              have "wrote E U (st_pb st) (st_pb st')" using c ih(2) sm5 wrote_trans by metis
              moreover have "holds_all E (st_pb st') ws" if "r = Inr x" for x
                using c ih(2,3) sm5 that wrote_holds [of E U "st_pb s5" "st_pb st'" ws] by (auto simp: holds_all_def)
              moreover have "valid E (st_pb st') p" if "r = Inr x" for x
                using ih(3) that by (cases p) (auto simp: holds_all_def)
              ultimately show ?thesis using ih(1,3) sm5(1) by (auto simp: write_effect_def)
            qed
          qed
        qed
      qed
    qed
  qed
qed

definition writer_ok :: "store_env \<Rightarrow> bytes set \<Rightarrow> (PendingObjectsObj \<Rightarrow> unit sto) \<Rightarrow> bool" where
  "writer_ok E U writer \<longleftrightarrow>
     (\<forall>pend st r st'. writer pend st = (r, st') \<longrightarrow> write_effect E U [] (po_ObjectArr pend) st r st')"

lemma writeMissingObjects_effect:
  assumes "fetches E U fetch"
  shows "writer_ok E U (\<lambda>pend. writeMissingObjects E pend loadSize fetch)"
  unfolding writer_ok_def writeMissingObjects_def
proof (intro allI impI)
  fix pend st r st'
  assume t: "(if po_ObjectArr pend = [] then sret () else write_loop E loadSize fetch [] 0 (po_ObjectArr pend)) st = (r, st')"
  show "write_effect E U [] (po_ObjectArr pend) st r st'"
  proof (cases "po_ObjectArr pend = []")
    case True
    then show ?thesis using t by (simp add: sret_def write_effect_def holds_all_def)
  next
    case False
    then show ?thesis using t assms by (auto intro!: write_loop_effect simp: authentic_batch_def)
  qed
qed

end
