(* ===== verification/Store_Entry.thy ===== *)
theory Store_Entry
  imports Store_Write
begin

text \<open>
  From the request to the commit: what the checks of \<open>Publish\<close> and \<open>PublishStaged\<close> establish
  about contents and references, that the eviction before the write does not take an object the
  new tree needs, and the result of both operations.
\<close>

section \<open>Pending objects\<close>

definition listed_or_valid :: "store_env \<Rightarrow> (bytes \<times> bytes) list \<Rightarrow> PendingObjectsObj \<Rightarrow> PendingObjectObj \<Rightarrow> bool" where
  "listed_or_valid E pb pend p \<longleftrightarrow> p \<in> set (po_ObjectArr pend) \<or> valid E pb p"

lemma pending_step_Inr:
  assumes "pending_step E acc (k, h, n) st = (Inr acc', st')"
  shows "listed_or_valid E (st_pb st) acc' (k, h)" "set (po_ObjectArr acc) \<subseteq> set (po_ObjectArr acc')" "same st st'"
proof -
  obtain b s1 where b: "storedValid E (objectKey k h) h st = (Inr b, s1)"
    and a: "acc' = (if b then acc else \<lparr>po_SizeBytes = po_SizeBytes acc + n, po_ObjectArr = po_ObjectArr acc @ [(k, h)]\<rparr>)"
    and s: "st' = s1"
    using assms unfolding pending_step_def by (auto simp: op_Inr)
  show "same st st'" unfolding s by (rule readsD [OF reads_storedValid b])
  show "set (po_ObjectArr acc) \<subseteq> set (po_ObjectArr acc')" unfolding a by auto
  show "listed_or_valid E (st_pb st) acc' (k, h)"
    using storedValid_Inr [OF b] unfolding a listed_or_valid_def valid_def object_key_def by auto
qed

lemma pending_loop:
  "sfoldl (\<lambda>acc (h, n). sbind (io E) (\<lambda>_. pending_step E acc (cObjectKindBlob, h, n))) acc sizes st = (Inr acc', st') \<Longrightarrow>
   same st st' \<and> set (po_ObjectArr acc) \<subseteq> set (po_ObjectArr acc') \<and>
   (\<forall>h \<in> fst ` set sizes. listed_or_valid E (st_pb st) acc' (cObjectKindBlob, h))"
proof (induction sizes arbitrary: acc st)
  case Nil
  then show ?case by (simp add: sret_def)
next
  case (Cons x sizes)
  obtain h n where x: "x = (h, n)" by (cases x)
  from Cons.prems obtain u s1 acc1 s2 where i: "io E st = (Inr u, s1)"
    and p: "pending_step E acc (cObjectKindBlob, h, n) s1 = (Inr acc1, s2)"
    and r: "sfoldl (\<lambda>acc (h, n). sbind (io E) (\<lambda>_. pending_step E acc (cObjectKindBlob, h, n))) acc1 sizes s2 = (Inr acc', st')"
    unfolding x sfoldl.simps prod.case op_Inr by blast
  note ps = pending_step_Inr [OF p]
  have sm: "same st s2" by (rule same_trans [OF io_same [OF i] ps(3)])
  have pb: "st_pb s1 = st_pb st" using io_same [OF i] by (simp add: same_def)
  from Cons.IH [OF r] have ih: "same s2 st'" "set (po_ObjectArr acc1) \<subseteq> set (po_ObjectArr acc')"
    "\<forall>h \<in> fst ` set sizes. listed_or_valid E (st_pb s2) acc' (cObjectKindBlob, h)" by blast+
  have "listed_or_valid E (st_pb st) acc' (cObjectKindBlob, h)"
    using ps(1) ih(2) unfolding listed_or_valid_def pb by blast
  then show ?case using ih sm ps(2) same_trans [OF sm ih(1)] unfolding x by (auto simp: same_def)
qed

lemma PendingObjects_Inr:
  assumes "PendingObjects E sizes d h st = (Inr pend, st')"
  shows "listed_or_valid E (st_pb st) pend (PendingTree h)"
    "g \<in> fst ` set sizes \<Longrightarrow> listed_or_valid E (st_pb st) pend (PendingBlob g)"
proof -
  obtain acc s1 where l: "sfoldl (\<lambda>acc (h, n). sbind (io E) (\<lambda>_. pending_step E acc (cObjectKindBlob, h, n)))
      \<lparr>po_SizeBytes = 0, po_ObjectArr = []\<rparr> sizes st = (Inr acc, s1)"
    and p: "pending_step E acc (cObjectKindTree, h, of_nat (length d)) s1 = (Inr pend, st')"
    using assms unfolding PendingObjects_def op_Inr by blast
  note pl = pending_loop [OF l] and ps = pending_step_Inr [OF p]
  show "listed_or_valid E (st_pb st) pend (PendingTree h)"
    using ps(1) pl by (simp add: same_def PendingTree_def)
  show "listed_or_valid E (st_pb st) pend (PendingBlob g)" if "g \<in> fst ` set sizes"
    using pl that ps(2) unfolding listed_or_valid_def PendingBlob_def by blast
qed

section \<open>The common part of both publications\<close>

text \<open>Where the content of an entry comes from: the request (\<open>src\<close>), or the store.\<close>

definition supplied :: "store_env \<Rightarrow> bytes set \<Rightarrow> (HashObj \<Rightarrow> bytes \<Rightarrow> bool) \<Rightarrow> bool" where
  "supplied E U src \<longleftrightarrow> (\<forall>h c. src h c \<longrightarrow> sv_H E c = h \<and> c \<in> U)"

definition entry_sourced ::
  "store_env \<Rightarrow> (bytes \<times> bytes) list \<Rightarrow> (HashObj \<Rightarrow> bytes \<Rightarrow> bool) \<Rightarrow> HashObj set \<Rightarrow> TreeEntryObj \<Rightarrow> bool" where
  "entry_sourced E pb src given e \<longleftrightarrow>
     (te_BlobHash e \<in> given \<and> (\<exists>c. src (te_BlobHash e) c \<and> of_nat (length c) = te_SizeBytes e)) \<or> blob_ok E pb e"

lemma Encode_Decode:
  "Encode H es = Inr (d, h) \<Longrightarrow> H d = h \<and> Decode d = Inr (sort_key te_Path es)"
  by (simp add: Encode_iff Decode_iff)

text \<open>After the writes the tree is ready, whatever was evicted before.\<close>

lemma tree_becomes_ready:
  assumes i: "inj_on (sv_H E) U" and enc: "Encode (sv_H E) es = Inr (d, h)" and dU: "d \<in> U"
    and sup: "supplied E U src" and r0: "ran (map_of pb0) \<subseteq> U" and r1: "ran (map_of pb1) \<subseteq> U"
    and so: "\<forall>e \<in> set es. entry_sourced E pb0 src given e"
    and pt: "listed_or_valid E pb0 pend (PendingTree h)"
    and pbl: "\<forall>g \<in> given. listed_or_valid E pb0 pend (PendingBlob g)"
    and keep: "\<forall>k \<in> protected_keys (protectTreeObjects h es). map_of pb1 k = map_of pb0 k"
    and w: "wrote E U pb1 pb2" and done': "\<forall>p \<in> set (po_ObjectArr pend). valid E pb2 p"
  shows "ready_row E pb2 es h"
proof -
  have r2: "ran (map_of pb2) \<subseteq> U" by (rule wrote_ran [OF w r1])
  have carry: "valid E pb2 p" if v: "valid E pb0 p" and k: "object_key p \<in> protected_keys (protectTreeObjects h es)" for p
    by (rule wrote_valid [OF w]) (use v k keep in \<open>simp add: valid_def\<close>)
  have arrive: "valid E pb2 p" if v: "listed_or_valid E pb0 pend p"
    and k: "object_key p \<in> protected_keys (protectTreeObjects h es)" for p
    using v carry [OF _ k] done' unfolding listed_or_valid_def by blast
  have unique: "map_of pb2 (object_key p) = Some c" if v: "valid E pb2 p" and c: "sv_H E c = snd p" "c \<in> U" for p c
  proof -
    obtain x where x: "map_of pb2 (object_key p) = Some x" "sv_H E x = snd p" using v unfolding valid_def by blast
    then have "x \<in> U" using r2 ranI [of "map_of pb2" "object_key p" x] by blast
    then show ?thesis using x c inj_onD [OF i] by metis
  qed
  note Hd = Encode_Decode [OF enc]
  have "valid E pb2 (PendingTree h)" by (rule arrive [OF pt]) (simp add: protected_keys_def protectTreeObjects_def)
  from unique [OF this, of d] have td: "map_of pb2 (treeKey h) = Some d" using Hd dU by (simp add: PendingTree_def)
  have tree: "tree_of E pb2 h = Some (sort_key te_Path es)" using td Hd by (simp add: tree_of_Some)
  have blobs: "blob_ok E pb2 e" if e: "e \<in> set es" for e
  proof -
    have k: "object_key (PendingBlob (te_BlobHash e)) \<in> protected_keys (protectTreeObjects h es)"
      using e by (simp add: protected_keys_def protectTreeObjects_def)
    from so e have "entry_sourced E pb0 src given e" by blast
    then consider c where "te_BlobHash e \<in> given" "src (te_BlobHash e) c" "of_nat (length c) = te_SizeBytes e"
      | "blob_ok E pb0 e" unfolding entry_sourced_def by blast
    then show ?thesis
    proof cases
      case 1
      have c: "sv_H E c = te_BlobHash e" "c \<in> U" using 1(2) sup unfolding supplied_def by blast+
      have "valid E pb2 (PendingBlob (te_BlobHash e))" by (rule arrive [OF _ k]) (use 1(1) pbl in blast)
      from unique [OF this, of c] show ?thesis using c 1(3) by (simp add: blob_ok_def PendingBlob_def)
    next
      case 2
      obtain c where c: "map_of pb0 (blobKey (te_BlobHash e)) = Some c" "sv_H E c = te_BlobHash e"
        "of_nat (length c) = te_SizeBytes e" using 2 unfolding blob_ok_def by blast
      have "c \<in> U" using c(1) r0 ranI [of "map_of pb0"] by blast
      from unique [OF carry [OF blob_ok_valid [OF 2] k], of c] show ?thesis
        using c \<open>c \<in> U\<close> by (simp add: blob_ok_def PendingBlob_def)
    qed
  qed
  show ?thesis unfolding ready_row_def tree_ready_def
    by (intro exI [of _ "sort_key te_Path es"]) (simp add: tree blobs)
qed

text \<open>
  What an eviction may have done to the versions: the retained ones of every key are there, and when a version is
  gone, the versions are those a run of the budget check \<open>ensureDurableBudgetProtectedLocked\<close> leaves.
\<close>

definition quota_left :: "store_env \<Rightarrow> store_cfg \<Rightarrow> storeObj \<Rightarrow> storeObj \<Rightarrow> bool" where
  "quota_left E cfg st st' \<longleftrightarrow> (\<exists>s0 incoming prot q s1. same st s0 \<and>
     ensureDurableBudgetProtectedLocked E cfg incoming prot s0 = (q, s1) \<and>
     db_versions (st_db st') = db_versions (st_db s1))"

definition evicted :: "store_env \<Rightarrow> store_cfg \<Rightarrow> storeObj \<Rightarrow> storeObj \<Rightarrow> bool" where
  "evicted E cfg st st' \<longleftrightarrow> (\<exists>S. retained (cf_RetainLatestPerKey cfg) (db_versions (st_db st)) \<subseteq> S \<and>
     db_versions (st_db st') = filter (\<lambda>r. fst r \<in> S) (db_versions (st_db st))) \<and>
     (db_versions (st_db st') = db_versions (st_db st) \<or> quota_left E cfg st st')"

lemma evicted_db: "evicted E cfg st st1 \<Longrightarrow> st_db st2 = st_db st1 \<Longrightarrow> evicted E cfg st st2"
  by (simp add: evicted_def quota_left_def)

lemma evicted_start: "same st0 st1 \<Longrightarrow> evicted E cfg st1 st2 \<Longrightarrow> evicted E cfg st0 st2"
proof -
  assume s: "same st0 st1" and e: "evicted E cfg st1 st2"
  have "quota_left E cfg st0 st2" if "quota_left E cfg st1 st2"
    using that s unfolding quota_left_def by (metis same_trans)
  then show ?thesis using e s by (auto simp: evicted_def same_def)
qed

lemma evicted_same: "st_db st' = st_db st \<Longrightarrow> evicted E cfg st st'"
  unfolding evicted_def by (intro conjI exI [of _ UNIV]) simp_all

text \<open>
  The result of a publication. On an error the store is consistent and has lost nothing but what the
  quota evicts; on success the commit happened in such a store.
\<close>

definition publish_post ::
  "store_env \<Rightarrow> bytes set \<Rightarrow> store_cfg \<Rightarrow> PublishObj \<Rightarrow> HashObj \<Rightarrow> storeObj \<Rightarrow> store_error + PublishResultObj \<Rightarrow> storeObj \<Rightarrow> bool" where
  "publish_post E U cfg p h st r st' \<longleftrightarrow> consistent E U (st_db st') (st_pb st') \<and>
     (case r of Inl e \<Rightarrow> evicted E cfg st st'
      | Inr x \<Rightarrow> \<exists>st1. evicted E cfg st st1 \<and> outcome cfg p h st1 x st')"

lemma publish_post_start: "publish_post E U cfg p h st1 r st' \<Longrightarrow> same st st1 \<Longrightarrow> publish_post E U cfg p h st r st'"
  unfolding publish_post_def by (auto split: sum.splits intro: evicted_start)

lemma publish_post_quiet:
  "consistent E U (st_db st) (st_pb st) \<Longrightarrow> same st st' \<Longrightarrow> publish_post E U cfg p h st (Inl e) st'"
  unfolding publish_post_def by (simp add: same_def evicted_same)

lemma reads_enforce [frame]: "reads (enforceDurableHardLimitLocked E cfg)"
proof -
  have r: "reads (realDurableBytes E)" "reads (realDurableBytesCached E)"
    by (simp_all add: reads_def realDurableBytes_def realDurableBytesCached_def same_def Let_def)
  have c: "reads (compact_and_checkpoint E)"
    unfolding compact_and_checkpoint_def by (intro frame) (simp add: reads_def smod_def same_def)
  show ?thesis unfolding enforceDurableHardLimitLocked_def Let_def by (intro frame r c)
qed

lemma ensureBudget_result:
  assumes t: "ensureBudget E cfg inc prot st = (r, st')" and c: "consistent E U (st_db st) (st_pb st)"
  shows "consistent E U (st_db st') (st_pb st')" "evicted E cfg st st'"
    "k \<in> protected_keys prot \<Longrightarrow> map_of (st_pb st') k = map_of (st_pb st) k"
proof -
  obtain q where q: "ensureDurableBudgetProtectedLocked E cfg inc prot st = (q, st')"
    using t unfolding ensureBudget_def by (cases rule: sbindE) (auto simp: sret_def sfail_def split: option.splits)
  from ensureDurableBudget_result [OF q c] have ev: "evicting E U (db_versions (st_db st))
      (retained (cf_RetainLatestPerKey cfg) (db_versions (st_db st))) prot (map_of (st_pb st)) st'" by blast
  then show "consistent E U (st_db st') (st_pb st')" "k \<in> protected_keys prot \<Longrightarrow> map_of (st_pb st') k = map_of (st_pb st) k"
    unfolding evicting_def by blast+
  have "quota_left E cfg st st'" using q same_refl unfolding quota_left_def by blast
  with ev show "evicted E cfg st st'" unfolding evicting_def evicted_def by blast
qed

lemma write_and_commit_result:
  assumes t: "write_and_commit E cfg p es d h sizes writer st = (r, st')"
    and c: "consistent E U (st_db st) (st_pb st)" and i: "inj_on (sv_H E) U"
    and enc: "Encode (sv_H E) es = Inr (d, h)" and dU: "d \<in> U" and sup: "supplied E U src"
    and so: "\<forall>e \<in> set es. entry_sourced E (st_pb st) src (fst ` set sizes) e" and wok: "writer_ok E U writer"
  shows "publish_post E U cfg p h st r st'"
  using t unfolding write_and_commit_def
proof (cases rule: sbindE)
  case (err e)
  show ?thesis unfolding err(2) by (rule publish_post_quiet [OF c readsD [OF reads_PendingObjects err(1)]])
next
  case (ok pend s1)
  note po = PendingObjects_Inr [OF ok(1)]
  have sm1: "same st s1" by (rule readsD [OF reads_PendingObjects ok(1)])
  have c1: "consistent E U (st_db s1) (st_pb s1)" using c sm1 by (simp add: same_def)
  let ?prot = "protectTreeObjects h es"
  from ok(2) have "publish_post E U cfg p h s1 r st'"
  proof (cases rule: sbindE)
    case (err e)
    note eb = ensureBudget_result [OF err(1) c1]
    show ?thesis unfolding err(2) publish_post_def using eb(1,2) by simp
  next
    case (ok u s2)
    note eb = ensureBudget_result [OF ok(1) c1]
    have undo: "publish_post E U cfg p h s1 (Inl e) s" if "rolled_back E U s2 s" for e s
      using that eb(2) evicted_db unfolding publish_post_def rolled_back_def by auto
    have we: "write_effect E U [] (po_ObjectArr pend) s2 r' s'" if "writer pend s2 = (r', s')" for r' s'
      using that wok unfolding writer_ok_def by blast
    have er: "\<forall>e s3. writer pend s2 = (Inl e, s3) \<longrightarrow> consistent E U (st_db s3) (st_pb s3) \<and> st_db s3 = st_db s2"
    proof (intro allI impI)
      fix e s3 assume "writer pend s2 = (Inl e, s3)"
      from we [OF this] have "st_db s3 = st_db s2" "wrote E U (st_pb s2) (st_pb s3)" by (simp_all add: write_effect_def)
      then show "consistent E U (st_db s3) (st_pb s3) \<and> st_db s3 = st_db s2"
        using wrote_consistent [OF eb(1) i] by simp
    qed
    from ok(2) show ?thesis
    proof (cases rule: sbindE)
      case (err e)
      from err(1) er show ?thesis by (cases rule: or_cleanup_cases) (use err(2) undo in auto)
    next
      case (ok u2 s3)
      from ok(1) have "writer pend s2 = (Inr u2, s3)"
        by (simp add: or_cleanup_def cleanupPublishFailure_def split: prod.splits sum.splits)
      from we [OF this] have w: "st_db s3 = st_db s2" "wrote E U (st_pb s2) (st_pb s3)"
        "\<forall>q \<in> set (po_ObjectArr pend). valid E (st_pb s3) q" unfolding write_effect_def by blast+
      have c3: "consistent E U (st_db s3) (st_pb s3)" using wrote_consistent [OF eb(1) i w(2)] w(1) by simp
      have ready: "ready_row E (st_pb s3) es h"
      proof (rule tree_becomes_ready [OF i enc dU sup])
        show "ran (map_of (st_pb st)) \<subseteq> U" by (rule midD(7) [OF c [unfolded consistent_def]])
        show "ran (map_of (st_pb s2)) \<subseteq> U" by (rule midD(7) [OF eb(1) [unfolded consistent_def]])
        show "\<forall>e \<in> set es. entry_sourced E (st_pb st) src (fst ` set sizes) e" by (rule so)
        show "listed_or_valid E (st_pb st) pend (PendingTree h)"
          "\<forall>g \<in> fst ` set sizes. listed_or_valid E (st_pb st) pend (PendingBlob g)" using po by blast+
        show "\<forall>k \<in> protected_keys ?prot. map_of (st_pb s2) k = map_of (st_pb st) k"
          using eb(3) sm1 by (simp add: same_def)
      qed (rule w(2), rule w(3))
      have undo3: "rolled_back E U s2 s" if "rolled_back E U s3 s" for s
        using that w(1) unfolding rolled_back_def by metis
      from ok(2) show ?thesis
      proof (cases rule: sbindE)
        case (err e)
        from err(1) reads_enforce c3 show ?thesis
          by (cases rule: or_cleanup_reads) (use err(2) undo undo3 in auto)
      next
        case (ok u3 s4)
        from ok(1) have "enforceDurableHardLimitLocked E cfg s3 = (Inr u3, s4)"
          by (simp add: or_cleanup_def cleanupPublishFailure_def split: prod.splits sum.splits)
        then have sm4: "same s3 s4" by (rule readsD [OF reads_enforce])
        have c4: "consistent E U (st_db s4) (st_pb s4)" and rd4: "ready_row E (st_pb s4) es h"
          using c3 ready sm4 by (simp_all add: same_def)
        note cm = commitPublish_result [OF ok(2) c4 rd4]
        show ?thesis
        proof (cases r)
          case (Inl e)
          then have "rolled_back E U s4 st'" using cm by simp
          then have "rolled_back E U s2 st'" using sm4 w(1) unfolding rolled_back_def same_def by metis
          then show ?thesis using undo Inl by simp
        next
          case (Inr x)
          have "evicted E cfg s1 s4" by (rule evicted_db [OF eb(2)]) (use w(1) sm4 in \<open>simp add: same_def\<close>)
          then show ?thesis using cm Inr unfolding publish_post_def by auto
        qed
      qed
    qed
  qed
  then show ?thesis using sm1 by (rule publish_post_start)
qed

section \<open>Publish: contents in the request\<close>

definition known_src :: "store_env \<Rightarrow> bytes set \<Rightarrow> HashObj \<Rightarrow> bytes \<Rightarrow> bool" where
  "known_src E U h c \<longleftrightarrow> sv_H E c = h \<and> c \<in> U"

lemma supplied_known: "supplied E U (known_src E U)"
  by (simp add: supplied_def known_src_def)

lemma normalize_entry_content:
  assumes "normalize_entry H lim acc e = Inr acc1"
  shows "set (no_content acc1) \<subseteq> set (no_content acc) \<union> {(H c, c) | c. ie_Content e = Some c}"
proof (cases "ie_Content e")
  case None
  obtain n ov where "saturatingAdd (no_total acc) (ie_SizeBytes e) = (n, ov)" by fastforce
  then have "no_content acc1 = no_content acc"
    using assms None unfolding normalize_entry_def by (auto simp: andthen_Inr guard_Inr Let_def)
  then show ?thesis by simp
next
  case (Some c)
  obtain n ov where "saturatingAdd (no_total acc) (of_nat (length c)) = (n, ov)" by fastforce
  then have "no_content acc1 = (if map_of (no_content acc) (H c) = None then no_content acc @ [(H c, c)] else no_content acc)"
    using assms Some unfolding normalize_entry_def by (auto simp: andthen_Inr guard_Inr Let_def)
  then show ?thesis using Some by auto
qed

lemma normalize_content:
  "normalize_from H lim acc es = Inr acc' \<Longrightarrow>
   set (no_content acc') \<subseteq> set (no_content acc) \<union> {(H c, c) | c. \<exists>e \<in> set es. ie_Content e = Some c}"
proof (induction es arbitrary: acc)
  case Nil
  then show ?case by simp
next
  case (Cons e es)
  then obtain acc1 where n: "normalize_entry H lim acc e = Inr acc1" "normalize_from H lim acc1 es = Inr acc'"
    by (auto simp: andthen_Inr)
  from normalize_entry_content [OF n(1)] show ?case using Cons.IH [OF n(2)] unfolding list.set by blast
qed

lemma normalizeInputEntries_content:
  assumes "normalizeInputEntries H lim es = Inr (tree, content)" "(h, c) \<in> set content"
  shows "h = H c \<and> (\<exists>e \<in> set es. ie_Content e = Some c)"
proof -
  obtain acc where "normalize_from H lim \<lparr>no_tree = [], no_content = [], no_sizes = [], no_total = 0\<rparr> es = Inr acc"
    "content = no_content acc"
    using assms(1) unfolding normalizeInputEntries_def count_guard_def by (auto simp: andthen_Inr guard_Inr)
  then show ?thesis using normalize_content [of H lim _ es acc] assms(2) by fastforce
qed

lemma fetch_inline:
  assumes "\<forall>(h, c) \<in> set content. c \<in> U" "d \<in> U"
  shows "fetches E U (\<lambda>p. sbind (slift (pendingObjectValue content d h p)) (setPendingObjectBytes E p))"
  unfolding fetches_def
proof (intro allI impI)
  fix p st r st'
  assume t: "sbind (slift (pendingObjectValue content d h p)) (setPendingObjectBytes E p) st = (r, st')"
  have v: "v \<in> U" if "pendingObjectValue content d h p = Inr v" for v
    using that assms by (auto simp: pendingObjectValue_def dest!: map_of_SomeD
        split: objectKindObj.splits option.splits if_splits)
  have "reads (sbind (slift (pendingObjectValue content d h p)) (setPendingObjectBytes E p))"
    unfolding setPendingObjectBytes_def by (intro frame)
  moreover have "sv_H E v = snd p \<and> v \<in> U" if "r = Inr v" for v
    using t that v unfolding setPendingObjectBytes_def by (auto simp: op_Inr verify_hash_Inr)
  ultimately show "same st st' \<and> (\<forall>v. r = Inr v \<longrightarrow> sv_H E v = snd p \<and> v \<in> U)" using t readsD by blast
qed

text \<open>The reference check: each entry has its content in the request or in the store.\<close>

definition reference_known ::
  "store_env \<Rightarrow> (bytes \<times> bytes) list \<Rightarrow> (HashObj \<Rightarrow> u64 \<Rightarrow> bool) \<Rightarrow> HashObj \<Rightarrow> u64 \<Rightarrow> bool" where
  "reference_known E pb given h n \<longleftrightarrow> given h n \<or>
     (\<exists>c. map_of pb (blobKey h) = Some c \<and> sv_H E c = h \<and> of_nat (length c) = n)"

lemma map_serr_Inr: "map_serr f m st = (Inr x, st') \<longleftrightarrow> m st = (Inr x, st')"
  by (auto simp: map_serr_def map_err_Inr split: prod.splits)

lemma verify_reference_Inr:
  assumes t: "verify_reference E verified e st = (Inr verified', st')"
    and k: "\<forall>h n. map_of verified h = Some n \<longrightarrow> reference_known E (st_pb st) given h n"
  shows "\<forall>h n. map_of verified' h = Some n \<longrightarrow> reference_known E (st_pb st) given h n"
    "reference_known E (st_pb st) given (te_BlobHash e) (te_SizeBytes e)" "same st st'"
proof -
  have rd: "reads (verify_reference E verified e)" unfolding verify_reference_def by (intro frame)
  show sm: "same st st'" by (rule readsD [OF rd t])
  obtain u s1 where i: "io E st = (Inr u, s1)"
    and r: "(case map_of verified (te_BlobHash e) of
       Some n \<Rightarrow> if n \<noteq> te_SizeBytes e then sfail (ErrSizeMismatch (te_BlobHash e)) else sret verified
     | None \<Rightarrow> sbind (map_serr (ErrMissingReference (te_BlobHash e))
            (UseBlob E (te_BlobHash e) (\<lambda>c.
               if of_nat (length c) \<noteq> te_SizeBytes e then sfail (ErrSizeMismatch (te_BlobHash e)) else sret ())))
         (\<lambda>_. sret (AList.update (te_BlobHash e) (te_SizeBytes e) verified))) s1 = (Inr verified', st')"
    using t unfolding verify_reference_def op_Inr by blast
  have pb: "st_pb s1 = st_pb st" using io_same [OF i] by (simp add: same_def)
  have "(\<forall>h n. map_of verified' h = Some n \<longrightarrow> reference_known E (st_pb st) given h n) \<and>
    reference_known E (st_pb st) given (te_BlobHash e) (te_SizeBytes e)"
  proof (cases "map_of verified (te_BlobHash e)")
    case (Some n)
    then have "n = te_SizeBytes e" "verified' = verified"
      using r by (auto simp: sfail_def sret_def split: if_splits)
    then show ?thesis using k Some by blast
  next
    case None
    with r obtain y s2 where ub: "UseBlob E (te_BlobHash e) (\<lambda>c.
               if of_nat (length c) \<noteq> te_SizeBytes e then sfail (ErrSizeMismatch (te_BlobHash e)) else sret ()) s1 = (Inr y, s2)"
      and v: "verified' = AList.update (te_BlobHash e) (te_SizeBytes e) verified"
      by (auto simp: op_Inr map_serr_Inr)
    from ub obtain c st1 st2 where "map_of (st_pb s1) (blobKey (te_BlobHash e)) = Some c" "sv_H E c = te_BlobHash e"
      "same s1 st1" "(if of_nat (length c) \<noteq> te_SizeBytes e then sfail (ErrSizeMismatch (te_BlobHash e)) else sret ()) st1 = (Inr y, st2)"
      by (rule UseBlob_Inr)
    then have "reference_known E (st_pb st) given (te_BlobHash e) (te_SizeBytes e)"
      unfolding reference_known_def pb by (auto simp: sfail_def split: if_splits)
    then show ?thesis using k unfolding v by (auto simp: update_conv')
  qed
  then show "\<forall>h n. map_of verified' h = Some n \<longrightarrow> reference_known E (st_pb st) given h n"
    "reference_known E (st_pb st) given (te_BlobHash e) (te_SizeBytes e)" by blast+
qed

lemma fold_references:
  assumes step: "\<And>verified e st verified' st'. f verified e st = (Inr verified', st') \<Longrightarrow>
      \<forall>h n. map_of verified h = Some n \<longrightarrow> reference_known E (st_pb st) given h n \<Longrightarrow>
      (\<forall>h n. map_of verified' h = Some n \<longrightarrow> reference_known E (st_pb st) given h n) \<and>
      reference_known E (st_pb st) given (te_BlobHash e) (te_SizeBytes e) \<and> same st st'"
  shows "sfoldl f verified es st = (Inr verified', st') \<Longrightarrow>
    \<forall>h n. map_of verified h = Some n \<longrightarrow> reference_known E (st_pb st) given h n \<Longrightarrow>
    \<forall>e \<in> set es. reference_known E (st_pb st) given (te_BlobHash e) (te_SizeBytes e)"
proof (induction es arbitrary: verified st)
  case (Cons e es)
  then obtain v1 s1 where f: "f verified e st = (Inr v1, s1)" "sfoldl f v1 es s1 = (Inr verified', st')"
    by (auto simp: op_Inr)
  note s = step [OF f(1) Cons.prems(2)]
  have pb: "st_pb s1 = st_pb st" using s by (simp add: same_def)
  show ?case using Cons.IH [OF f(2)] s unfolding pb by simp
qed simp

lemma VerifyReferences_Inr:
  assumes "VerifyReferences E es content st = (Inr u, st')"
  shows "\<forall>e \<in> set es. reference_known E (st_pb st) (\<lambda>h n. \<exists>c. (h, c) \<in> set content \<and> n = of_nat (length c))
    (te_BlobHash e) (te_SizeBytes e)"
proof -
  let ?given = "\<lambda>h n. \<exists>c. (h, c) \<in> set content \<and> n = of_nat (length c)"
  obtain s1 y v where vc: "verify_content E content st = (Inr y, s1)"
    and f: "sfoldl (verify_reference E) (map (\<lambda>(h, c). (h, of_nat (length c))) content) es s1 = (Inr v, st')"
    using assms unfolding VerifyReferences_def by (auto simp: op_Inr)
  have rd: "reads (verify_content E content)" unfolding verify_content_def by (intro frame)
  have pb: "st_pb s1 = st_pb st" using readsD [OF rd vc] by (simp add: same_def)
  have start: "\<forall>h n. map_of (map (\<lambda>(h, c). (h, of_nat (length c))) content) h = Some n \<longrightarrow>
      reference_known E (st_pb s1) ?given h n"
    by (auto simp: reference_known_def dest!: map_of_SomeD)
  show ?thesis unfolding pb [symmetric]
  proof (rule fold_references [OF _ f start])
    fix verified e st verified' st' assume "verify_reference E verified e st = (Inr verified', st')"
      "\<forall>h n. map_of verified h = Some n \<longrightarrow> reference_known E (st_pb st) ?given h n"
    from verify_reference_Inr [OF this]
    show "(\<forall>h n. map_of verified' h = Some n \<longrightarrow> reference_known E (st_pb st) ?given h n) \<and>
      reference_known E (st_pb st) ?given (te_BlobHash e) (te_SizeBytes e) \<and> same st st'" by blast
  qed
qed

lemma known_entry:
  assumes "reference_known E pb given (te_BlobHash e) (te_SizeBytes e)"
    and "\<And>h n. given h n \<Longrightarrow> h \<in> G \<and> (\<exists>c. src h c \<and> of_nat (length c) = n)"
  shows "entry_sourced E pb src G e"
  using assms unfolding reference_known_def entry_sourced_def blob_ok_def by blast

text \<open>
  \<open>request_in\<close>: the contents of a request and the encoding of its tree are among the byte strings
  without collisions.
\<close>

definition request_in :: "store_env \<Rightarrow> bytes set \<Rightarrow> store_cfg \<Rightarrow> PublishObj \<Rightarrow> bool" where
  "request_in E U cfg p \<longleftrightarrow>
     (\<forall>e \<in> set (p_Entries p). \<forall>c. ie_Content e = Some c \<longrightarrow> c \<in> U) \<and>
     (case normalizeInputEntries (sv_H E) (entry_limits cfg) (p_Entries p) of Inl _ \<Rightarrow> True
      | Inr (es, _) \<Rightarrow> (case Encode (sv_H E) es of Inl _ \<Rightarrow> True | Inr (d, _) \<Rightarrow> d \<in> U))"

definition request_tree :: "store_env \<Rightarrow> store_cfg \<Rightarrow> PublishObj \<Rightarrow> HashObj option" where
  "request_tree E cfg p =
     (case normalizeInputEntries (sv_H E) (entry_limits cfg) (p_Entries p) of Inl _ \<Rightarrow> None
      | Inr (es, _) \<Rightarrow> (case Encode (sv_H E) es of Inl _ \<Rightarrow> None | Inr (_, h) \<Rightarrow> Some h))"

text \<open>The result of a publication of the request \<open>p\<close> with the tree \<open>tree\<close>.\<close>

definition publish_result_ok ::
  "store_env \<Rightarrow> bytes set \<Rightarrow> store_cfg \<Rightarrow> PublishObj \<Rightarrow> HashObj option \<Rightarrow> storeObj \<Rightarrow> store_error + PublishResultObj \<Rightarrow> storeObj \<Rightarrow> bool" where
  "publish_result_ok E U cfg p tree st r st' \<longleftrightarrow> consistent E U (st_db st') (st_pb st') \<and>
     (case r of Inl e \<Rightarrow> evicted E cfg st st'
      | Inr x \<Rightarrow> \<exists>h p' st1. tree = Some h \<and> validatePublishMetadata E cfg p = Inr p' \<and>
          evicted E cfg st st1 \<and> outcome cfg p' h st1 x st')"

lemma publish_ok_quiet:
  "consistent E U (st_db st) (st_pb st) \<Longrightarrow> same st st' \<Longrightarrow> publish_result_ok E U cfg p tree st (Inl e) st'"
  unfolding publish_result_ok_def by (simp add: same_def evicted_same)

lemma publish_ok_post:
  "publish_post E U cfg p' h st1 r st' \<Longrightarrow> same st st1 \<Longrightarrow> validatePublishMetadata E cfg p = Inr p' \<Longrightarrow>
   publish_result_ok E U cfg p (Some h) st r st'"
  using publish_post_start [of E U cfg p' h st1 r st' st]
  unfolding publish_result_ok_def publish_post_def by (cases r) auto

text \<open>
  A publication from the state \<open>st\<close> on: its checks only read, so an error of a check leaves the store
  as it is. The rules peel off the checks and keep what each of them established.
\<close>

definition publishes ::
  "store_env \<Rightarrow> bytes set \<Rightarrow> store_cfg \<Rightarrow> PublishObj \<Rightarrow> HashObj option \<Rightarrow> storeObj \<Rightarrow> PublishResultObj sto \<Rightarrow> bool" where
  "publishes E U cfg p tree st m \<longleftrightarrow> consistent E U (st_db st) (st_pb st) \<longrightarrow>
     (\<forall>s r st'. same st s \<longrightarrow> m s = (r, st') \<longrightarrow> publish_result_ok E U cfg p tree st r st')"

lemma publishes_bind:
  assumes rd: "reads m"
    and ok: "\<And>x s1 s2. m s1 = (Inr x, s2) \<Longrightarrow> same st s1 \<Longrightarrow> publishes E U cfg p tree st (f x)"
  shows "publishes E U cfg p tree st (sbind m f)"
  unfolding publishes_def
proof (intro impI allI)
  fix s r st' assume c: "consistent E U (st_db st) (st_pb st)" and sm: "same st s" and t: "sbind m f s = (r, st')"
  from t show "publish_result_ok E U cfg p tree st r st'"
  proof (cases rule: sbindE)
    case (err e)
    show ?thesis unfolding err(2) by (rule publish_ok_quiet [OF c same_trans [OF sm readsD [OF rd err(1)]]])
  next
    case (ok x s2)
    have "publishes E U cfg p tree st (f x)" by (rule assms(2) [OF ok(1) sm])
    then show ?thesis using c ok(2) same_trans [OF sm readsD [OF rd ok(1)]] unfolding publishes_def by blast
  qed
qed

lemma publishes_io: "publishes E U cfg p tree st (f ()) \<Longrightarrow> publishes E U cfg p tree st (sbind (io E') f)"
  by (rule publishes_bind [OF reads_io]) simp

lemma publishes_slift:
  "(\<And>x. v = Inr x \<Longrightarrow> publishes E U cfg p tree st (f x)) \<Longrightarrow> publishes E U cfg p tree st (sbind (slift v) f)"
  by (rule publishes_bind [OF frame_basic(4)]) (simp add: slift_Inr)

lemma publishes_slift2:
  "(\<And>a b. v = Inr (a, b) \<Longrightarrow> publishes E U cfg p tree st (g a b)) \<Longrightarrow>
   publishes E U cfg p tree st (sbind (slift v) (\<lambda>(a, b). g a b))"
  by (rule publishes_slift) auto

lemma publishes_slift3:
  "(\<And>a b c. v = Inr (a, b, c) \<Longrightarrow> publishes E U cfg p tree st (g a b c)) \<Longrightarrow>
   publishes E U cfg p tree st (sbind (slift v) (\<lambda>(a, b, c). g a b c))"
  by (rule publishes_slift) auto

lemmas publishes_checks = publishes_slift2 publishes_slift publishes_io

lemma publishes_commit:
  assumes "inj_on (sv_H E) U" "Encode (sv_H E) es = Inr (d, h)" "d \<in> U" "validatePublishMetadata E cfg p = Inr p'"
    and "\<forall>e \<in> set es. entry_sourced E (st_pb st) (known_src E U) (fst ` set sizes) e" "writer_ok E U writer"
  shows "publishes E U cfg p (Some h) st (write_and_commit E cfg p' es d h sizes writer)"
  unfolding publishes_def
proof (intro impI allI)
  fix s r st' assume c: "consistent E U (st_db st) (st_pb st)" and sm: "same st s"
    and t: "write_and_commit E cfg p' es d h sizes writer s = (r, st')"
  have "publish_post E U cfg p' h s r st'"
    by (rule write_and_commit_result [OF t _ assms(1,2,3) supplied_known _ assms(6)])
      (use c sm assms(5) in \<open>simp_all add: same_def\<close>)
  then show "publish_result_ok E U cfg p (Some h) st r st'" using sm assms(4) by (rule publish_ok_post)
qed

lemma map_err_Inr': "map_err f v = Inr x \<Longrightarrow> v = Inr x"
  by (simp add: map_err_Inr)

lemma Publish_ok:
  assumes i: "inj_on (sv_H E) U" and req: "request_in E U cfg p"
  shows "publishes E U cfg p (request_tree E cfg p) st (Publish E cfg p)"
proof -
  have "publishes E U cfg p (request_tree E cfg p) st (write_and_commit E cfg p' es d h
       (map (\<lambda>(h, c). (h, of_nat (length c))) content) (\<lambda>pend. WriteMissingObjects E pend content d h))"
    if n: "normalizeInputEntries (sv_H E) (entry_limits cfg) (p_Entries p) = Inr (es, content)"
      and e: "map_err ErrTree (Encode (sv_H E) es) = Inr (d, h)" and p': "validatePublishMetadata E cfg p = Inr p'"
      and v: "VerifyReferences E es content s1 = (Inr u, s2)" and sm: "same st s1"
    for p' es d h content s1 s2 and u :: unit
  proof -
    note enc = map_err_Inr' [OF e]
    have dU: "d \<in> U" and cU: "\<forall>e \<in> set (p_Entries p). \<forall>c. ie_Content e = Some c \<longrightarrow> c \<in> U"
      using req n enc by (simp_all add: request_in_def)
    have tree: "request_tree E cfg p = Some h" using n enc by (simp add: request_tree_def)
    have src: "known_src E U g c" if "(g, c) \<in> set content" for g c
      using normalizeInputEntries_content [OF n that] cU by (auto simp: known_src_def)
    have "writer_ok E U (\<lambda>pend. WriteMissingObjects E pend content d h)"
      unfolding WriteMissingObjects_def
      by (rule writeMissingObjects_effect [OF fetch_inline [OF _ dU]]) (use src in \<open>auto simp: known_src_def\<close>)
    moreover have "\<forall>e \<in> set es. entry_sourced E (st_pb st) (known_src E U)
        (fst ` set (map (\<lambda>(h, c). (h, of_nat (length c) :: u64)) content)) e"
    proof
      fix e assume "e \<in> set es"
      then have k: "reference_known E (st_pb st) (\<lambda>h n. \<exists>c. (h, c) \<in> set content \<and> n = of_nat (length c))
          (te_BlobHash e) (te_SizeBytes e)"
        using VerifyReferences_Inr [OF v] sm by (simp add: same_def)
      show "entry_sourced E (st_pb st) (known_src E U)
          (fst ` set (map (\<lambda>(h, c). (h, of_nat (length c) :: u64)) content)) e"
        by (rule known_entry [OF k]) (use src in force)
    qed
    ultimately show ?thesis unfolding tree by (intro publishes_commit [OF i enc dU p'])
  qed
  note commit = this
  show ?thesis unfolding Publish_def
    by (intro publishes_checks publishes_bind [OF reads_verifySymlinkTargets] publishes_bind [OF reads_VerifyReferences])
      (rule commit)
qed

end
