(* ===== verification/Store_Spool.thy ===== *)
theory Store_Spool
  imports Store_Entry
begin

text \<open>
  Publishing from a spool. A spool file may change between any two accesses; a file that is read for
  the store is hashed again, so only its verified content gets in. \<open>files_in\<close>: whatever is read from
  a spool file is among the byte strings without collisions.
\<close>

definition files_in :: "store_env \<Rightarrow> bytes set \<Rightarrow> bool" where
  "files_in E U \<longleftrightarrow> (\<forall>n path fid c m. sv_file E n path = Some (fid, c) \<longrightarrow> take m c \<in> U)"

definition in_files :: "store_env \<Rightarrow> bytes \<Rightarrow> bool" where
  "in_files E c \<longleftrightarrow> (\<exists>n path fid. sv_file E n path = Some (fid, c))"

lemma files_in_take: "files_in E U \<Longrightarrow> in_files E c \<Longrightarrow> take m c \<in> U"
  unfolding files_in_def in_files_def by blast

lemma files_inD: "files_in E U \<Longrightarrow> in_files E c \<Longrightarrow> c \<in> U"
  using files_in_take [of E U c "length c"] by simp

section \<open>Spool files are only read\<close>

lemma reads_seen_file [frame]: "reads (seen_file E path)"
  unfolding seen_file_def by (intro frame)

lemma reads_validateStagedBlobPath [frame]: "reads (validateStagedBlobPath E path)"
  unfolding validateStagedBlobPath_def by (intro frame)

lemma reads_verifyStagedBlobFile [frame]: "reads (verifyStagedBlobFile E n content h sz)"
  unfolding verifyStagedBlobFile_def by (intro frame)

lemma reads_readStagedFileBytes [frame]: "reads (readStagedFileBytes E content sz)"
  unfolding readStagedFileBytes_def by (intro frame)

lemma reads_validateStagedSymlinkFile [frame]: "reads (validateStagedSymlinkFile E content sz maxPath)"
  unfolding validateStagedSymlinkFile_def by (intro frame)

lemma reads_prepare_staged_blob [frame]: "reads (prepare_staged_blob E used symlinks maxPath acc b)"
  unfolding prepare_staged_blob_def Let_def by (intro frame)

lemma reads_prepareStagedBlobs [frame]: "reads (prepareStagedBlobs E blobs used symlinks maxPath)"
  unfolding prepareStagedBlobs_def by (intro frame)

lemma reads_openPreparedStagedBlob [frame]: "reads (openPreparedStagedBlob E f)"
  unfolding openPreparedStagedBlob_def by (intro frame)

lemma reads_stagedBlobOpenFunc [frame]: "reads (stagedBlobOpenFunc E files' h)"
  unfolding stagedBlobOpenFunc_def by (intro frame)

lemma reads_stagedSymlinkContent [frame]: "reads (stagedSymlinkContent E files' symlinks)"
  unfolding stagedSymlinkContent_def staged_content_def by (intro frame)

lemma reads_verify_staged_reference [frame]: "reads (verify_staged_reference E files' symlinks maxPath acc e)"
  unfolding verify_staged_reference_def Let_def by (intro frame)

lemma reads_verifyStagedReferences [frame]: "reads (verifyStagedReferences E es files' symlinks maxPath)"
  unfolding verifyStagedReferences_def by (intro frame)

section \<open>What the checks establish\<close>

lemma seen_file_Inr: "seen_file E path st = (Inr (Some (fid, c)), st') \<Longrightarrow> in_files E c"
  unfolding seen_file_def in_files_def by (auto simp: op_Inr) metis

lemma validateStagedBlobPath_Inr:
  assumes "validateStagedBlobPath E path st = (Inr (fid, n, c), st')"
  shows "in_files E c"
  using assms seen_file_Inr unfolding validateStagedBlobPath_def
  by (auto simp: op_Inr split: option.splits if_splits) metis

text \<open>A prepared blob: some content read from a spool file had its digest and its size.\<close>

definition prepared :: "store_env \<Rightarrow> (HashObj \<times> stagedBlobFileObj) list \<Rightarrow> bool" where
  "prepared E files' \<longleftrightarrow> (\<forall>(h, f) \<in> set files'. \<exists>c. in_files E c \<and> sv_H E c = h \<and> of_nat (length c) = sf_sizeBytes f)"

lemma prepare_staged_blob_Inr:
  assumes t: "prepare_staged_blob E used symlinks maxPath acc b st = (Inr acc', st')" and p: "prepared E acc"
  shows "prepared E acc'"
proof (cases "map_of acc (sb_BlobHash b)")
  case (Some f)
  then have "acc' = acc" using t unfolding prepare_staged_blob_def Let_def by (auto simp: op_Inr split: if_splits)
  then show ?thesis using p by simp
next
  case None
  with t obtain s1 fid n c s2 s3 where v: "validateStagedBlobPath E (sb_FilePath b) s1 = (Inr (fid, n, c), s2)"
    and f: "verifyStagedBlobFile E n c (sb_BlobHash b) (sb_SizeBytes b) s2 = (Inr (), s3)"
    and a: "acc' = acc @ [(sb_BlobHash b, \<lparr>sf_filePath = sb_FilePath b, sf_id = fid, sf_sizeBytes = sb_SizeBytes b\<rparr>)]"
    unfolding prepare_staged_blob_def Let_def by (auto simp: op_Inr)
  have "sv_H E c = sb_BlobHash b \<and> of_nat (length c) = sb_SizeBytes b"
    using f unfolding verifyStagedBlobFile_def by (auto simp: op_Inr)
  then show ?thesis using p validateStagedBlobPath_Inr [OF v] unfolding prepared_def a by auto
qed

lemma prepareStagedBlobs_Inr:
  assumes "prepareStagedBlobs E blobs used symlinks maxPath st = (Inr files', st')"
  shows "prepared E files'"
proof -
  have "triple (\<lambda>_. prepared E []) (sfoldl (prepare_staged_blob E used symlinks maxPath) [] blobs)
      (\<lambda>acc _. prepared E acc) (\<lambda>_ _. True)"
    by (rule triple_sfoldl) (auto intro!: tripleI dest: prepare_staged_blob_Inr)
  from triple_Inr [OF this] assms show ?thesis unfolding prepareStagedBlobs_def by (simp add: prepared_def)
qed

lemma fetch_staged:
  assumes U: "files_in E U" and dU: "d \<in> U"
  shows "fetches E U (setPendingObjectOpenFile E (stagedBlobOpenFunc E files') sizes d h)"
  unfolding fetches_def
proof (intro allI impI)
  fix p st r st' assume t: "setPendingObjectOpenFile E (stagedBlobOpenFunc E files') sizes d h p st = (r, st')"
  have "reads (setPendingObjectOpenFile E (stagedBlobOpenFunc E files') sizes d h p)"
    unfolding setPendingObjectOpenFile_def setPendingObjectBytes_def Let_def
    by (cases "fst p"; simp only: objectKindObj.case; intro frame)
  moreover have "sv_H E v = snd p \<and> v \<in> U" if r: "r = Inr v" for v
  proof (cases "fst p")
    case cObjectKindTree
    then show ?thesis using t r dU
      by (auto simp: setPendingObjectOpenFile_def setPendingObjectBytes_def op_Inr verify_hash_Inr split: if_splits)
  next
    case cObjectKindBlob
    with t r obtain n where n: "map_of sizes (snd p) = Some n"
      by (auto simp: setPendingObjectOpenFile_def op_Inr split: option.splits)
    with cObjectKindBlob t r obtain s1 c z s2 where o: "stagedBlobOpenFunc E files' (snd p) s1 = (Inr (c, z), s2)"
      and v: "v = take (unat n) c" "sv_H E v = snd p"
      by (auto simp: setPendingObjectOpenFile_def op_Inr verify_hash_Inr Let_def split: if_splits)
    from o obtain f where "openPreparedStagedBlob E f s1 = (Inr (c, z), s2)"
      by (auto simp: stagedBlobOpenFunc_def op_Inr split: option.splits)
    then obtain s3 s4 fid m where "validateStagedBlobPath E (sf_filePath f) s3 = (Inr (fid, m, c), s4)"
      unfolding openPreparedStagedBlob_def by (auto simp: op_Inr)
    then show ?thesis using validateStagedBlobPath_Inr files_in_take [OF U] v by auto
  qed
  ultimately show "same st st' \<and> (\<forall>v. r = Inr v \<longrightarrow> sv_H E v = snd p \<and> v \<in> U)" using t readsD by blast
qed

lemma verify_staged_reference_Inr:
  assumes t: "verify_staged_reference E files' symlinks maxPath verified e st = (Inr verified', st')"
    and k: "\<forall>h n. map_of verified h = Some n \<longrightarrow>
      reference_known E (st_pb st) (\<lambda>h n. \<exists>f. (h, f) \<in> set files' \<and> sf_sizeBytes f = n) h n"
      (is "\<forall>h n. _ \<longrightarrow> reference_known E (st_pb st) ?given h n")
  shows "(\<forall>h n. map_of verified' h = Some n \<longrightarrow> reference_known E (st_pb st) ?given h n) \<and>
    reference_known E (st_pb st) ?given (te_BlobHash e) (te_SizeBytes e) \<and> same st st'"
proof -
  let ?h = "te_BlobHash e" and ?n = "te_SizeBytes e"
  have sm: "same st st'" by (rule readsD [OF reads_verify_staged_reference t])
  have new: ?thesis if r: "reference_known E (st_pb st) ?given ?h ?n" and v: "verified' = AList.update ?h ?n verified"
    using k r sm unfolding v by (auto simp: update_conv')
  show ?thesis
  proof (cases "map_of verified ?h")
    case (Some n)
    then have "n = ?n" "verified' = verified"
      using t unfolding verify_staged_reference_def Let_def by (auto simp: op_Inr split: if_splits)
    then show ?thesis using k Some sm by blast
  next
    case None
    show ?thesis
    proof (cases "map_of files' ?h")
      case (Some f)
      then have "sf_sizeBytes f = ?n" "verified' = AList.update ?h ?n verified"
        using t None unfolding verify_staged_reference_def Let_def by (auto simp: op_Inr split: if_splits)
      then show ?thesis using new map_of_SomeD [OF Some] by (auto simp: reference_known_def)
    next
      case nf: None
      with t None obtain s1 y s2 where pb: "st_pb s1 = st_pb st" and ub: "UseBlob E ?h (\<lambda>c.
            if of_nat (length c) \<noteq> ?n then sfail (ErrSizeMismatch ?h)
            else if ?h \<in> set symlinks then slift (symlinkTargetFromBytes c maxPath) else sret ()) s1 = (Inr y, s2)"
        and v: "verified' = AList.update ?h ?n verified"
        unfolding verify_staged_reference_def Let_def
        by (auto simp: op_Inr map_serr_Inr dest!: io_same simp: same_def)
      from ub obtain c st1 st2 where "map_of (st_pb s1) (blobKey ?h) = Some c" "sv_H E c = ?h" "same s1 st1"
        "(if of_nat (length c) \<noteq> ?n then sfail (ErrSizeMismatch ?h)
          else if ?h \<in> set symlinks then slift (symlinkTargetFromBytes c maxPath) else sret ()) st1 = (Inr y, st2)"
        by (rule UseBlob_Inr)
      then have "reference_known E (st_pb st) ?given ?h ?n"
        unfolding reference_known_def pb by (auto simp: sfail_def split: if_splits)
      then show ?thesis using new v by blast
    qed
  qed
qed

section \<open>The result of PublishStaged\<close>

definition staged_in :: "store_env \<Rightarrow> bytes set \<Rightarrow> store_cfg \<Rightarrow> StagedPublishObj \<Rightarrow> bool" where
  "staged_in E U cfg s \<longleftrightarrow> files_in E U \<and>
     (case normalizeStagedEntries (entry_limits cfg) (sp_Entries s) of Inl _ \<Rightarrow> True
      | Inr (es, _, _) \<Rightarrow> (case Encode (sv_H E) es of Inl _ \<Rightarrow> True | Inr (d, _) \<Rightarrow> d \<in> U))"

definition staged_tree :: "store_env \<Rightarrow> store_cfg \<Rightarrow> StagedPublishObj \<Rightarrow> HashObj option" where
  "staged_tree E cfg s =
     (case CanonicalTree E cfg (sp_Entries s) of Inl _ \<Rightarrow> None | Inr (_, h) \<Rightarrow> Some h)"

lemma PublishStaged_ok:
  assumes i: "inj_on (sv_H E) U" and req: "staged_in E U cfg s"
  shows "publishes E U cfg (sp_Publish s) (staged_tree E cfg s) st (PublishStaged E cfg s)"
proof -
  have fU: "files_in E U" using req by (simp add: staged_in_def)
  have commit: "publishes E U cfg (sp_Publish s) (staged_tree E cfg s) st (write_and_commit E cfg p' es d h
       (stagedBlobSizes files') (\<lambda>pend. WriteMissingObjectsFromFileOpener E pend (stagedBlobOpenFunc E files')
          (stagedBlobSizes files') d h))"
    if n: "normalizeStagedEntries (entry_limits cfg) (sp_Entries s) = Inr (es, used, symlinks)"
      and e: "map_err ErrTree (Encode (sv_H E) es) = Inr (d, h)"
      and pb: "prepareStagedBlobs E (sp_Blobs s) used symlinks (cf_PathBytes cfg) s1 = (Inr files', s2)"
      and p': "validatePublishMetadata E cfg (sp_Publish s) = Inr p'"
      and v: "verifyStagedReferences E es files' symlinks (cf_PathBytes cfg) s3 = (Inr u, s4)" and sm: "same st s3"
    for p' es d h used symlinks files' s1 s2 s3 s4 and u :: unit
  proof -
    note enc = map_err_Inr' [OF e]
    have dU: "d \<in> U" using req n enc by (simp add: staged_in_def)
    have tree: "staged_tree E cfg s = Some h"
      using n e by (simp add: staged_tree_def CanonicalTree_def andthen_Inr)
    have prep: "prepared E files'" by (rule prepareStagedBlobs_Inr [OF pb])
    let ?given = "\<lambda>h n. \<exists>f. (h, f) \<in> set files' \<and> sf_sizeBytes f = n"
    obtain vs where f: "sfoldl (verify_staged_reference E files' symlinks (cf_PathBytes cfg)) [] es s3 = (Inr vs, s4)"
      using v unfolding verifyStagedReferences_def by (auto simp: op_Inr)
    have known: "\<forall>e \<in> set es. reference_known E (st_pb s3) ?given (te_BlobHash e) (te_SizeBytes e)"
      by (rule fold_references [OF verify_staged_reference_Inr f]) simp_all
    have given: "h \<in> fst ` set (stagedBlobSizes files') \<and> (\<exists>c. known_src E U h c \<and> of_nat (length c) = n)"
      if "?given h n" for h n
      using that prep files_inD [OF fU] unfolding prepared_def known_src_def stagedBlobSizes_def by force
    have "\<forall>e \<in> set es. entry_sourced E (st_pb st) (known_src E U) (fst ` set (stagedBlobSizes files')) e"
    proof
      fix e assume "e \<in> set es"
      then have "reference_known E (st_pb st) ?given (te_BlobHash e) (te_SizeBytes e)"
        using known sm by (simp add: same_def)
      then show "entry_sourced E (st_pb st) (known_src E U) (fst ` set (stagedBlobSizes files')) e"
        by (rule known_entry) (rule given)
    qed
    moreover have "writer_ok E U (\<lambda>pend. WriteMissingObjectsFromFileOpener E pend (stagedBlobOpenFunc E files')
        (stagedBlobSizes files') d h)"
      unfolding WriteMissingObjectsFromFileOpener_def
      by (rule writeMissingObjects_effect [OF fetch_staged [OF fU dU]])
    ultimately show ?thesis unfolding tree by (intro publishes_commit [OF i enc dU p'])
  qed
  show ?thesis unfolding PublishStaged_def Let_def
    by (intro publishes_slift3 publishes_checks publishes_bind [OF reads_verifySymlinkTargets]
        publishes_bind [OF reads_prepareStagedBlobs] publishes_bind [OF reads_stagedSymlinkContent]
        publishes_bind [OF reads_verifyStagedReferences])
      (rule commit)
qed

end
