(* ===== verification/Store_Repair.thy ===== *)
theory Store_Repair
  imports Store_Spool
begin

text \<open>
  Garbage collection and the repair of the reference counts. The repair recomputes the counts from the
  trees: it needs sound versions, trees and blobs (\<open>sound_rows\<close>) but nothing about the counts, and
  makes the store consistent. Both rest on the walks of \<open>Store_Paging\<close>.
\<close>

definition sound_rows :: "store_env \<Rightarrow> bytes set \<Rightarrow> dbObj \<Rightarrow> (bytes \<times> bytes) list \<Rightarrow> bool" where
  "sound_rows E U db pb \<longleftrightarrow> keys_ok db \<and> rows_ok E pb (db_versions db) \<and>
     fst ` set (db_detection db) = fst ` set (db_versions db) \<and> ran (map_of pb) \<subseteq> U"

lemma consistent_sound: "consistent E U db pb \<Longrightarrow> sound_rows E U db pb"
  unfolding consistent_def sound_rows_def mid_def by auto

lemma sound_rowsD:
  assumes "sound_rows E U db pb"
  shows "keys_ok db" "rows_ok E pb (db_versions db)" "fst ` set (db_detection db) = fst ` set (db_versions db)"
    "ran (map_of pb) \<subseteq> U"
  using assms unfolding sound_rows_def by blast+

section \<open>Recounting\<close>

lemma reach_entry_Inr:
  assumes t: "reach_entry n refs e = Inr refs'" and n: "0 < n" and d: "distinct (map fst refs)"
    and s: "sizes_ok pb refs" and ok: "blob_ok E pb e"
  shows "distinct (map fst refs')" "rc refs' g = rc refs g + n * (if te_BlobHash e = g then 1 else 0)" "sizes_ok pb refs'"
proof -
  let ?h = "te_BlobHash e"
  obtain b where b: "refs' = AList.update ?h b refs" "br_Refcount b = rc refs ?h + n" "br_SizeBytes b = te_SizeBytes e"
    using t unfolding reach_entry_def by (auto simp: guard_Inr Let_def rc_def split: option.splits if_splits)
  show "distinct (map fst refs')" unfolding b(1) by (rule distinct_update [OF d])
  show "rc refs' g = rc refs g + n * (if ?h = g then 1 else 0)"
    unfolding b(1) by (auto simp: rc_def update_conv' b(2) split: option.splits)
  obtain c where "map_of pb (blobKey ?h) = Some c" "of_nat (length c) = te_SizeBytes e"
    using ok unfolding blob_ok_def by blast
  then show "sizes_ok pb refs'"
    using s b(3) unfolding sizes_ok_def b(1) by (auto simp: update_conv')
qed

lemma reach_entries_Inr:
  "reach_entries n refs es = Inr refs' \<Longrightarrow> 0 < n \<Longrightarrow> distinct (map fst refs) \<Longrightarrow> sizes_ok pb refs \<Longrightarrow>
   \<forall>e \<in> set es. blob_ok E pb e \<Longrightarrow>
   distinct (map fst refs') \<and> (\<forall>g. rc refs' g = rc refs g + n * occ es g) \<and> sizes_ok pb refs'"
proof (induction es arbitrary: refs)
  case Nil
  then show ?case by simp
next
  case (Cons e es)
  from Cons.prems(1) obtain refs1 where r: "reach_entry n refs e = Inr refs1" "reach_entries n refs1 es = Inr refs'"
    by (auto simp: andthen_Inr)
  have ok: "blob_ok E pb e" using Cons.prems by simp
  note s = reach_entry_Inr [OF r(1) Cons.prems(2,3,4) ok]
  have "distinct (map fst refs') \<and> (\<forall>g. rc refs' g = rc refs1 g + n * occ es g) \<and> sizes_ok pb refs'"
    by (rule Cons.IH [OF r(2) Cons.prems(2) s(1,3)]) (use Cons.prems in simp)
  then show ?case using s(2) by (auto simp: algebra_simps)
qed

text \<open>The counts collected from a set of rows (tree, number of versions).\<close>

definition recount ::
  "store_env \<Rightarrow> (bytes \<times> bytes) list \<Rightarrow> reachObj \<Rightarrow> (HashObj \<times> nat) set \<Rightarrow> bool" where
  "recount E pb acc seen \<longleftrightarrow> finite seen \<and> distinct (map fst (ro_refs acc)) \<and> sizes_ok pb (ro_refs acc) \<and>
     (\<forall>g. rc (ro_refs acc) g = (\<Sum>(h, n) \<in> seen. n * trefs E pb h g)) \<and> set (ro_trees acc) = fst ` seen"

lemma reads_reach_tree [frame]: "reads (reach_tree E acc row)"
  unfolding reach_tree_def by (intro frame)

lemma tree_count_pos: "h \<in> v_TreeHash ` set (db_rows db) \<Longrightarrow> 0 < tree_count db h"
  by (auto simp: tree_count_def filter_empty_conv)

lemma reach_tree_step:
  assumes t: "reach_tree E acc row st = (Inr acc', st')" and pb: "st_pb st = pb" and i: "recount E pb acc seen"
    and new: "row \<notin> seen" and pos: "0 < snd row" and ready: "\<exists>es. tree_ready E pb (fst row) es"
  shows "recount E pb acc' (insert row seen)"
proof -
  obtain h n where row: "row = (h, n)" by (cases row)
  from t obtain es s1 refs where rt: "readTreeInternal E h st = (Inr es, s1)"
    and re: "reach_entries n (ro_refs acc) es = Inr refs"
    and a: "acc' = \<lparr>ro_refs = refs, ro_trees = ro_trees acc @ [h]\<rparr>"
    unfolding reach_tree_def row by (auto simp: op_Inr)
  have es: "tree_of E pb h = Some es" using readTree_tree_of [OF rt] pb by simp
  then have ok: "\<forall>e \<in> set es. blob_ok E pb e" using ready unfolding row tree_ready_def by auto
  have "distinct (map fst refs) \<and> (\<forall>g. rc refs g = rc (ro_refs acc) g + n * occ es g) \<and> sizes_ok pb refs"
    by (rule reach_entries_Inr [OF re]) (use i pos ok in \<open>auto simp: recount_def row\<close>)
  then show ?thesis
    using i new unfolding recount_def a row by (auto simp: trefs_ready [OF es])
qed

lemma reachableObjectSet_Inr:
  assumes t: "reachableObjectSet E st = (Inr acc, st')" and sr: "sound_rows E U (st_db st) (st_pb st)"
  shows "same st st'" "distinct (map fst (ro_refs acc))" "sizes_ok (st_pb st) (ro_refs acc)"
    "rc (ro_refs acc) g = ref_total E (st_pb st) (db_versions (st_db st)) g"
    "set (ro_trees acc) = v_TreeHash ` set (db_rows (st_db st))"
proof -
  let ?db = "st_db st" and ?pb = "st_pb st"
  let ?rows = "(\<lambda>h. (h, tree_count ?db h)) ` v_TreeHash ` set (db_rows ?db)"
  from t obtain res s1 where w: "paged_walk (walk_fuel st) E (TreeHashCountsPage E) fst cReachablePageSize (reach_tree E) None
      \<lparr>ro_refs = [], ro_trees = []\<rparr> st = (Inr res, s1)" and r: "res = Some acc" "st' = s1"
    unfolding reachableObjectSet_def returned_def by (auto simp: op_Inr split: option.splits)
  have "\<exists>acc'. res = Some acc' \<and> recount E ?pb acc' ?rows \<and> same st s1"
  proof (rule tree_counts.full_walk [where I = "recount E ?pb", OF w])
    show "reads (reach_tree E acc r)" for acc r by (rule reads_reach_tree)
    show "keys_ok ?db" by (rule sound_rowsD(1) [OF sr])
    show "0 < cReachablePageSize" by (simp add: cReachablePageSize_def)
    show "table_bound ?db < walk_fuel st" by (simp add: table_bound_def walk_fuel_def)
    show "recount E ?pb \<lparr>ro_refs = [], ro_trees = []\<rparr> {}" by (simp add: recount_def rc_def sizes_ok_def)
  next
    fix acc r seen s acc' s' assume s: "reach_tree E acc r s = (Inr acc', s')" "at ?db ?pb s" "recount E ?pb acc seen"
      and new: "r \<in> ?rows - seen"
    obtain v where v: "v \<in> set (db_rows ?db)" "r = (v_TreeHash v, tree_count ?db (v_TreeHash v))" using new by auto
    obtain q where q: "q \<in> set (db_versions ?db)" "snd q = v" using v(1) by (auto simp: db_rows_def)
    have "\<exists>es. tree_ready E ?pb (v_TreeHash v) es" using sound_rowsD(2) [OF sr] q unfolding rows_ok_def by blast
    moreover have "0 < tree_count ?db (v_TreeHash v)" by (rule tree_count_pos) (use v(1) in blast)
    ultimately show "recount E ?pb acc' (insert r seen)"
      by (intro reach_tree_step [OF s(1) _ s(3)]) (use s(2) new v(2) in \<open>simp_all add: at_def\<close>)
  next
    fix acc' assume "res = Some acc'" "recount E ?pb acc' ?rows" "same st s1"
    then show "\<exists>acc'. res = Some acc' \<and> recount E ?pb acc' ?rows \<and> same st s1" by blast
  qed
  then have rec: "recount E ?pb acc ?rows" and sm: "same st s1" using r by auto
  show "same st st'" using sm r by simp
  show "distinct (map fst (ro_refs acc))" "sizes_ok ?pb (ro_refs acc)"
    "set (ro_trees acc) = v_TreeHash ` set (db_rows ?db)"
    using rec unfolding recount_def by (auto simp: image_image)
  have inj: "inj_on (\<lambda>h. (h, tree_count ?db h)) A" for A by (simp add: inj_on_def)
  have "rc (ro_refs acc) g = (\<Sum>h \<in> v_TreeHash ` set (db_rows ?db). tree_count ?db h * trefs E ?pb h g)"
    using rec unfolding recount_def by (simp add: sum.reindex [OF inj])
  also have "\<dots> = (\<Sum>h \<in> set (map v_TreeHash (db_rows ?db)). count_list (map v_TreeHash (db_rows ?db)) h * trefs E ?pb h g)"
    by (rule sum.cong) (simp_all add: tree_count_def count_list_eq_length_filter filter_map comp_def eq_commute)
  also have "\<dots> = sum_list (map (\<lambda>h. trefs E ?pb h g) (map v_TreeHash (db_rows ?db)))"
    by (rule sum_list_map_eq_sum_count [symmetric])
  also have "\<dots> = ref_total E ?pb (db_versions ?db) g"
    by (simp add: ref_total_def db_rows_def comp_def)
  finally show "rc (ro_refs acc) g = ref_total E ?pb (db_versions ?db) g" .
qed

section \<open>Replacing the counts\<close>

lemma replace_loop:
  "siter (\<lambda>rows. exec E (\<lambda>db.
      if list_all (\<lambda>r. sql_u64 (br_SizeBytes (snd r)) \<and> map_of (db_blob_refs db) (fst r) = None) rows
      then Inr (db\<lparr>db_blob_refs := db_blob_refs db @ rows\<rparr>) else Inl ErrConstraint)) rss st = (Inr x, st') \<Longrightarrow>
   st_db st' = (st_db st)\<lparr>db_blob_refs := db_blob_refs (st_db st) @ concat rss\<rparr> \<and> st_pb st' = st_pb st"
proof (induction rss arbitrary: st)
  case Nil
  then show ?case by (simp add: sret_def)
next
  case (Cons rs rss)
  from Cons.prems obtain y s1 where e: "exec E (\<lambda>db.
      if list_all (\<lambda>r. sql_u64 (br_SizeBytes (snd r)) \<and> map_of (db_blob_refs db) (fst r) = None) rs
      then Inr (db\<lparr>db_blob_refs := db_blob_refs db @ rs\<rparr>) else Inl ErrConstraint) st = (Inr y, s1)"
    and r: "siter (\<lambda>rows. exec E (\<lambda>db.
      if list_all (\<lambda>r. sql_u64 (br_SizeBytes (snd r)) \<and> map_of (db_blob_refs db) (fst r) = None) rows
      then Inr (db\<lparr>db_blob_refs := db_blob_refs db @ rows\<rparr>) else Inl ErrConstraint)) rss s1 = (Inr x, st')"
    unfolding siter.simps op_Inr by blast
  have "st_db s1 = (st_db st)\<lparr>db_blob_refs := db_blob_refs (st_db st) @ rs\<rparr> \<and> st_pb s1 = st_pb st"
    using exec_Inr [OF e] by (auto split: if_splits)
  then show ?case using Cons.IH [OF r] by simp
qed

lemma ReplaceBlobRefs_Inr:
  assumes "ReplaceBlobRefs E refs st = (Inr x, st')"
  shows "st_db st' = (st_db st)\<lparr>db_blob_refs := refs\<rparr>" "st_pb st' = st_pb st"
proof -
  obtain y s1 where e: "exec E (\<lambda>db. Inr (db\<lparr>db_blob_refs := []\<rparr>)) st = (Inr y, s1)"
    and l: "siter (\<lambda>rows. exec E (\<lambda>db.
      if list_all (\<lambda>r. sql_u64 (br_SizeBytes (snd r)) \<and> map_of (db_blob_refs db) (fst r) = None) rows
      then Inr (db\<lparr>db_blob_refs := db_blob_refs db @ rows\<rparr>) else Inl ErrConstraint)) (slices (sqlChunkSize 3) refs) s1 = (Inr x, st')"
    using assms unfolding ReplaceBlobRefs_def op_Inr by blast
  have "st_db s1 = (st_db st)\<lparr>db_blob_refs := []\<rparr> \<and> st_pb s1 = st_pb st" using exec_Inr [OF e] by auto
  then show "st_db st' = (st_db st)\<lparr>db_blob_refs := refs\<rparr>" "st_pb st' = st_pb st"
    using replace_loop [OF l] by simp_all
qed

lemma recounted_consistent:
  assumes sr: "sound_rows E U db pb" and d: "distinct (map fst refs)" and s: "sizes_ok pb refs"
    and c: "\<And>g. rc refs g = ref_total E pb (db_versions db) g"
  shows "consistent E U (db\<lparr>db_blob_refs := refs\<rparr>) pb"
  unfolding consistent_def
  by (rule midI) (use sound_rowsD [OF sr] d s c in \<open>simp_all add: keys_ok_def\<close>)

section \<open>Deleting what is not reachable\<close>

text \<open>
  A collection keeps the tables, keeps the store consistent, and takes only keys that no version needs
  (\<open>collected D\<close>).
\<close>

definition collected :: "store_env \<Rightarrow> bytes set \<Rightarrow> storeObj \<Rightarrow> storeObj \<Rightarrow> bool" where
  "collected E U st st' \<longleftrightarrow> st_db st' = st_db st \<and> consistent E U (st_db st') (st_pb st') \<and>
     (\<exists>D. drop_keys D (st_pb st) (st_pb st') \<and> (\<forall>k \<in> D. deletable (st_db st) k))"

lemma collected_same: "consistent E U (st_db st) (st_pb st) \<Longrightarrow> same st st' \<Longrightarrow> collected E U st st'"
  unfolding collected_def same_def by (intro conjI exI [of _ "{}"]) simp_all

lemma collected_trans:
  assumes "collected E U a b" "collected E U b c" shows "collected E U a c"
proof -
  obtain D D' where "drop_keys D (st_pb a) (st_pb b)" "\<forall>k \<in> D. deletable (st_db a) k"
    "drop_keys D' (st_pb b) (st_pb c)" "\<forall>k \<in> D'. deletable (st_db b) k"
    using assms unfolding collected_def by blast
  then show ?thesis using assms unfolding collected_def
    by (intro conjI exI [of _ "D \<union> D'"]) (auto intro: drop_keys_trans)
qed

lemma deleteKeys_collected:
  assumes t: "deleteKeys E ks st = (r, st')" and c: "consistent E U (st_db st) (st_pb st)"
    and d: "\<And>k. k \<in> set ks \<Longrightarrow> deletable (st_db st) k"
  shows "collected E U st st'"
proof -
  obtain D where D: "D \<subseteq> set ks" "drop_keys D (st_pb st) (st_pb st')" "st_db st' = st_db st"
    using deleteKeys_drops [OF t] by metis
  have "consistent E U (st_db st) (st_pb st')"
    by (rule consistent_drop [OF c D(2)]) (use D(1) d in blast)
  then show ?thesis using D d unfolding collected_def by auto
qed

lemma collected_cases: "collected E U st st' \<Longrightarrow> st_db st' = st_db st \<and> consistent E U (st_db st) (st_pb st')"
  by (auto simp: collected_def)

lemma collect_loop_collected:
  "collect_loop E kind reach acc ks st = (r, st') \<Longrightarrow> consistent E U (st_db st) (st_pb st) \<Longrightarrow>
   (\<And>k. k \<in> set acc \<Longrightarrow> deletable (st_db st) k) \<Longrightarrow>
   (\<And>k. k \<in> set ks \<Longrightarrow> garbage_key kind reach k \<Longrightarrow> deletable (st_db st) k) \<Longrightarrow> collected E U st st'"
proof (induction ks arbitrary: acc st)
  case Nil
  from Nil.prems(1) show ?case unfolding collect_loop.simps
  proof (cases rule: sbindE)
    case (err e)
    then show ?thesis using collected_same [OF Nil.prems(2) io_same] by blast
  next
    case (ok x s1)
    note sm = io_same [OF ok(1)]
    have "collected E U s1 st'"
      by (rule deleteKeys_collected [OF ok(2)]) (use Nil.prems(2,3) sm in \<open>simp_all add: same_def\<close>)
    then show ?thesis using collected_trans [OF collected_same [OF Nil.prems(2) sm]] by blast
  qed
next
  case (Cons k ks)
  from Cons.prems(1) show ?case unfolding collect_loop.simps Let_def
  proof (cases rule: sbindE)
    case (err e)
    then show ?thesis using collected_same [OF Cons.prems(2) io_same] by blast
  next
    case (ok x s1)
    note sm = io_same [OF ok(1)]
    have c1: "consistent E U (st_db s1) (st_pb s1)" and db1: "st_db s1 = st_db st"
      using Cons.prems(2) sm by (simp_all add: same_def)
    note start = collected_trans [OF collected_same [OF Cons.prems(2) sm]]
    let ?acc = "if garbage_key kind reach k then acc @ [k] else acc"
    have acc: "deletable (st_db s1) q" if "q \<in> set ?acc" for q
      using that Cons.prems(3,4) db1 by (auto split: if_splits)
    have rest: "deletable (st_db s1) q" if "q \<in> set ks" "garbage_key kind reach q" for q
      using that Cons.prems(4) db1 by simp
    show ?thesis
    proof (cases "cDeleteBatchKeys \<le> length ?acc")
      case False
      then have "collect_loop E kind reach ?acc ks s1 = (r, st')" using ok(2) by (simp split: if_splits)
      from Cons.IH [OF this c1 acc rest] show ?thesis by (rule start)
    next
      case True
      then have "sbind (deleteKeys E ?acc) (\<lambda>_. collect_loop E kind reach [] ks) s1 = (r, st')"
        using ok(2) by (simp split: if_splits)
      then show ?thesis
      proof (cases rule: sbindE)
        case (err e)
        from deleteKeys_collected [OF err(1) c1 acc] show ?thesis by (rule start)
      next
        case (ok y s2)
        have d: "collected E U s1 s2" by (rule deleteKeys_collected [OF ok(1) c1 acc])
        note d' = collected_cases [OF d]
        have "collected E U s2 st'"
          by (rule Cons.IH [OF ok(2)]) (use d' rest in simp_all)
        from collected_trans [OF d this] show ?thesis by (rule start)
      qed
    qed
  qed
qed

lemma prefix_key_kind: "k \<in> set (prefix_keys kind pb) \<Longrightarrow> hd k = objectTag kind"
  by (simp add: prefix_keys_def)

lemma objectKey_hd: "hd (objectKey kind h) = objectTag kind"
  by (simp add: objectKey_def)

lemma garbage_deletable:
  assumes k: "hd k = objectTag kind" and g: "garbage_key kind reach k"
    and all: "\<And>h. (case kind of cObjectKindBlob \<Rightarrow> blob_referenced db h | cObjectKindTree \<Rightarrow> tree_referenced db h) \<Longrightarrow> h \<in> reach"
  shows "deletable db k"
proof -
  have other: "kind' = kind" if "k = objectKey kind' h" for kind' h
    using k objectKey_hd [of kind' h] that by simp
  have "h \<notin> reach" if "k = objectKey kind h" for h
    using g that by (simp add: garbage_key_def)
  then show ?thesis using all other unfolding deletable_def blobKey_def treeKey_def
    by (cases kind) fastforce+
qed

lemma collectGarbagePrefix_collected:
  assumes t: "collectGarbagePrefix E kind reach st = (r, st')" and c: "consistent E U (st_db st) (st_pb st)"
    and all: "\<And>h. (case kind of cObjectKindBlob \<Rightarrow> blob_referenced (st_db st) h
      | cObjectKindTree \<Rightarrow> tree_referenced (st_db st) h) \<Longrightarrow> h \<in> reach"
  shows "collected E U st st'"
  using t unfolding collectGarbagePrefix_def
proof (cases rule: sbindE)
  case (err e)
  then show ?thesis using collected_same [OF c io_same] by blast
next
  case (ok x s1)
  note sm = io_same [OF ok(1)]
  have l: "collect_loop E kind reach [] (prefix_keys kind (st_pb s1)) s1 = (r, st')"
    using ok(2) by (simp add: sbind_def sget_def)
  have "collected E U s1 st'"
    by (rule collect_loop_collected [OF l])
      (use c sm all garbage_deletable prefix_key_kind in \<open>auto simp: same_def\<close>)
  then show ?thesis using collected_trans [OF collected_same [OF c sm]] by blast
qed

lemma pb_CollectGarbage_collected:
  assumes t: "pb_CollectGarbage E blobs trees st = (r, st')" and c: "consistent E U (st_db st) (st_pb st)"
    and b: "\<And>h. blob_referenced (st_db st) h \<Longrightarrow> h \<in> blobs" and tr: "\<And>h. tree_referenced (st_db st) h \<Longrightarrow> h \<in> trees"
  shows "collected E U st st'"
  using t unfolding pb_CollectGarbage_def
proof (cases rule: sbindE)
  case (err e)
  show ?thesis by (rule collectGarbagePrefix_collected [OF err(1) c]) (simp add: b)
next
  case (ok x s1)
  have s: "collected E U st s1" by (rule collectGarbagePrefix_collected [OF ok(1) c]) (simp add: b)
  note s' = collected_cases [OF s]
  have "collected E U s1 st'"
    by (rule collectGarbagePrefix_collected [OF ok(2)]) (use s' tr in simp_all)
  then show ?thesis by (rule collected_trans [OF s])
qed

lemma reads_paged_walk [frame]:
  assumes "\<And>a n. reads (pageFunc a n)" "\<And>a r. reads (step a r)"
  shows "reads (paged_walk fuel E pageFunc cursor n step after acc)"
  by (induction fuel arbitrary: after acc) (simp_all add: frame assms)

lemma reads_returned [frame]: "reads m \<Longrightarrow> reads (returned m)"
  unfolding returned_def by (intro frame)

lemma reads_reachableObjectSet [frame]: "reads (reachableObjectSet E)"
  unfolding reachableObjectSet_def by (intro frame)

text \<open>The repair: from sound rows, on success a consistent store; on an error nothing is lost.\<close>

lemma RepairBlobRefs_result:
  assumes t: "RepairBlobRefs E st = (r, st')" and sr: "sound_rows E U (st_db st) (st_pb st)"
  shows "same st st' \<or> (consistent E U (st_db st') (st_pb st') \<and> db_versions (st_db st') = db_versions (st_db st))"
    "r = Inr x \<Longrightarrow> consistent E U (st_db st') (st_pb st')"
proof -
  have "(same st st' \<and> (\<forall>x. r \<noteq> Inr x)) \<or>
    (consistent E U (st_db st') (st_pb st') \<and> db_versions (st_db st') = db_versions (st_db st))"
    using t unfolding RepairBlobRefs_def
  proof (cases rule: sbindE)
    case (err e)
    then show ?thesis using io_same by blast
  next
    case (ok y s1)
    note sm1 = io_same [OF ok(1)]
    have sr1: "sound_rows E U (st_db s1) (st_pb s1)" using sr sm1 by (simp add: same_def)
    from ok(2) show ?thesis unfolding repairBlobRefsLocked_def
    proof (cases rule: sbindE)
      case (err e)
      then show ?thesis using readsD [OF reads_reachableObjectSet err(1)] same_trans [OF sm1] err(2) by blast
    next
      case (ok acc s2)
      note rs = reachableObjectSet_Inr [OF ok(1) sr1]
      have sm2: "same st s2" by (rule same_trans [OF sm1 rs(1)])
      from ok(2) show ?thesis
      proof (cases rule: sbindE)
        case (err e)
        have "same s2 st'" by (rule WithTx_Inl [OF err(1) commands_pb(5)])
        then show ?thesis using same_trans [OF sm2] err(2) by blast
      next
        case (ok z s3)
        from ok(1) obtain a b where ab: "same s2 a" "ReplaceBlobRefs E (ro_refs acc) a = (Inr z, b)" "same b s3"
          by (rule WithTx_Inr)
        have db3: "st_db s3 = (st_db s1)\<lparr>db_blob_refs := ro_refs acc\<rparr>" "st_pb s3 = st_pb s1"
          using ReplaceBlobRefs_Inr [OF ab(2)] ab(1,3) rs(1) by (simp_all add: same_def)
        have c3: "consistent E U (st_db s3) (st_pb s3)"
          unfolding db3 by (rule recounted_consistent [OF sr1 rs(2,3,4)])
        have "collected E U s3 st'"
        proof (rule pb_CollectGarbage_collected [OF ok(2) c3])
          show "h \<in> set (map fst (ro_refs acc))" if "blob_referenced (st_db s3) h" for h
            using that map_of_in_keys unfolding blob_referenced_def db3 by (auto split: option.splits)
          show "h \<in> set (ro_trees acc)" if "tree_referenced (st_db s3) h" for h
            using that unfolding rs(5) tree_referenced_def db3 by (auto simp: list_ex_iff db_rows_def)
        qed
        then show ?thesis using collected_cases db3(1) sm1 by (force simp: same_def)
      qed
    qed
  qed
  then show "same st st' \<or> (consistent E U (st_db st') (st_pb st') \<and> db_versions (st_db st') = db_versions (st_db st))"
    "r = Inr x \<Longrightarrow> consistent E U (st_db st') (st_pb st')" by auto
qed

section \<open>The garbage collector\<close>

lemma orphan_batch_collected:
  assumes "deleteOrphanBatchChecked E objs st = (r, st')" "consistent E U (st_db st) (st_pb st)"
  shows "collected E U st st'"
  using checked_delete [OF assms(1) [unfolded deleteOrphanBatchChecked_def] assms(2)] unfolding collected_def by metis

lemma orphan_loop_collected:
  "orphan_loop E kind reach n (deleteOrphanBatchChecked E) batch ks st = (r, st') \<Longrightarrow>
   consistent E U (st_db st) (st_pb st) \<Longrightarrow> collected E U st st'"
proof (induction ks arbitrary: batch st)
  case Nil
  have "reads (sbind (io E) (\<lambda>_. sret batch))" by (intro frame)
  then show ?case using readsD Nil collected_same by (metis orphan_loop.simps(1))
next
  case (Cons k ks)
  from Cons.prems(1) show ?case unfolding orphan_loop.simps
  proof (cases rule: sbindE)
    case (err e)
    then show ?thesis using collected_same [OF Cons.prems(2) io_same] by blast
  next
    case (ok x s1)
    note sm = io_same [OF ok(1)]
    have c1: "consistent E U (st_db s1) (st_pb s1)" using Cons.prems(2) sm by (simp add: same_def)
    note start = collected_trans [OF collected_same [OF Cons.prems(2) sm]]
    show ?thesis
    proof (cases "objectHashFromKey kind k")
      case None
      then have "orphan_loop E kind reach n (deleteOrphanBatchChecked E) batch ks s1 = (r, st')" using ok(2) by simp
      from Cons.IH [OF this c1] show ?thesis by (rule start)
    next
      case (Some h)
      let ?batch = "batch @ [(kind, h)]"
      consider "orphan_loop E kind reach n (deleteOrphanBatchChecked E) batch ks s1 = (r, st')"
        | "orphan_loop E kind reach n (deleteOrphanBatchChecked E) ?batch ks s1 = (r, st')"
        | "sbind (deleteOrphanBatchChecked E ?batch) (\<lambda>_. orphan_loop E kind reach n (deleteOrphanBatchChecked E) [] ks) s1 = (r, st')"
        using ok(2) Some by (auto simp: Let_def split: if_splits)
      then show ?thesis
      proof cases
        case 3
        then show ?thesis
        proof (cases rule: sbindE)
          case (err e)
          from orphan_batch_collected [OF err(1) c1] show ?thesis by (rule start)
        next
          case (ok y s2)
          have d: "collected E U s1 s2" by (rule orphan_batch_collected [OF ok(1) c1])
          have "consistent E U (st_db s2) (st_pb s2)" using collected_cases [OF d] by simp
          from collected_trans [OF d Cons.IH [OF ok(2) this]] show ?thesis by (rule start)
        qed
      qed (use Cons.IH [OF _ c1] start in blast)+
    qed
  qed
qed

lemma collected_step:
  assumes "sbind m f st = (r, st')" "consistent E U (st_db st) (st_pb st)"
    and m: "\<And>r1 s1. m st = (r1, s1) \<Longrightarrow> collected E U st s1"
    and f: "\<And>x s1. m st = (Inr x, s1) \<Longrightarrow> consistent E U (st_db s1) (st_pb s1) \<Longrightarrow> f x s1 = (r, st') \<Longrightarrow> collected E U s1 st'"
  shows "collected E U st st'"
  using assms(1)
proof (cases rule: sbindE)
  case (err e)
  show ?thesis by (rule m [OF err(1)])
next
  case (ok x s1)
  note c = m [OF ok(1)]
  have "consistent E U (st_db s1) (st_pb s1)" using collected_cases [OF c] by simp
  from collected_trans [OF c f [OF ok(1) this ok(2)]] show ?thesis .
qed

lemma collected_reads:
  "reads m \<Longrightarrow> consistent E U (st_db st) (st_pb st) \<Longrightarrow> m st = (r, st') \<Longrightarrow> collected E U st st'"
  using collected_same readsD by blast

lemma OrphanCandidates_collected:
  assumes t: "OrphanCandidates E blobs trees n (deleteOrphanBatchChecked E) st = (r, st')"
    and c: "consistent E U (st_db st) (st_pb st)"
  shows "collected E U st st'"
  using t c unfolding OrphanCandidates_def
proof (rule collected_step)
  show "collected E U st s1" if "sget st_pb st = (r1, s1)" for r1 :: "store_error + (bytes \<times> bytes) list" and s1
    by (rule collected_reads [OF frame_basic(3) c that])
  fix snapshot s1 assume s1: "consistent E U (st_db s1) (st_pb s1)"
    and "sbind (io E) (\<lambda>_.
     sbind (orphan_loop E cObjectKindBlob blobs n (deleteOrphanBatchChecked E) [] (prefix_keys cObjectKindBlob snapshot)) (\<lambda>batch.
     sbind (io E) (\<lambda>_.
     sbind (orphan_loop E cObjectKindTree trees n (deleteOrphanBatchChecked E) batch (prefix_keys cObjectKindTree snapshot)) (\<lambda>batch'.
     if batch' = [] then sret () else deleteOrphanBatchChecked E batch')))) s1 = (r, st')"
  from this(2,1) show "collected E U s1 st'"
  proof (rule collected_step)
    show "collected E U s1 s2" if "io E s1 = (r1, s2)" for r1 s2 by (rule collected_reads [OF reads_io s1 that])
    fix x s2 assume s2: "consistent E U (st_db s2) (st_pb s2)"
      and "sbind (orphan_loop E cObjectKindBlob blobs n (deleteOrphanBatchChecked E) [] (prefix_keys cObjectKindBlob snapshot)) (\<lambda>batch.
       sbind (io E) (\<lambda>_.
       sbind (orphan_loop E cObjectKindTree trees n (deleteOrphanBatchChecked E) batch (prefix_keys cObjectKindTree snapshot)) (\<lambda>batch'.
       if batch' = [] then sret () else deleteOrphanBatchChecked E batch'))) s2 = (r, st')"
    from this(2,1) show "collected E U s2 st'"
    proof (rule collected_step [OF _ _ orphan_loop_collected [OF _ s2]])
      fix batch s3 assume s3: "consistent E U (st_db s3) (st_pb s3)"
        and "sbind (io E) (\<lambda>_.
         sbind (orphan_loop E cObjectKindTree trees n (deleteOrphanBatchChecked E) batch (prefix_keys cObjectKindTree snapshot)) (\<lambda>batch'.
         if batch' = [] then sret () else deleteOrphanBatchChecked E batch')) s3 = (r, st')"
      from this(2,1) show "collected E U s3 st'"
      proof (rule collected_step)
        show "collected E U s3 s4" if "io E s3 = (r1, s4)" for r1 s4 by (rule collected_reads [OF reads_io s3 that])
        fix y s4 assume s4: "consistent E U (st_db s4) (st_pb s4)"
          and "sbind (orphan_loop E cObjectKindTree trees n (deleteOrphanBatchChecked E) batch (prefix_keys cObjectKindTree snapshot)) (\<lambda>batch'.
           if batch' = [] then sret () else deleteOrphanBatchChecked E batch') s4 = (r, st')"
        from this(2,1) show "collected E U s4 st'"
        proof (rule collected_step [OF _ _ orphan_loop_collected [OF _ s4]])
          fix batch' s5 assume s5: "consistent E U (st_db s5) (st_pb s5)"
            and l: "(if batch' = [] then sret () else deleteOrphanBatchChecked E batch') s5 = (r, st')"
          show "collected E U s5 st'"
          proof (cases "batch' = []")
            case True
            then show ?thesis using l collected_same [OF s5] by (simp add: sret_def)
          next
            case False
            then show ?thesis using l orphan_batch_collected [OF _ s5] by simp
          qed
        qed
      qed
    qed
  qed
qed

lemma reads_reachableForGC [frame]: "reads (reachableForGC E)"
  unfolding reachableForGC_def collectHashSetPaged_def by (intro frame)

text \<open>A collection, complete or interrupted, with any reachable sets: only unneeded keys go.\<close>

lemma CollectGarbage_collected:
  assumes t: "CollectGarbage E st = (r, st')" and c: "consistent E U (st_db st) (st_pb st)"
  shows "collected E U st st'"
  using t c unfolding CollectGarbage_def
proof (rule collected_step)
  show "collected E U st s1" if "io E st = (r1, s1)" for r1 s1 by (rule collected_reads [OF reads_io c that])
  fix x s1 assume c1: "consistent E U (st_db s1) (st_pb s1)" and "collectGarbage E s1 = (r, st')"
  from this(2,1) show "collected E U s1 st'" unfolding collectGarbage_def
  proof (rule collected_step)
    show "collected E U s1 s2" if "reachableForGC E s1 = (r1, s2)" for r1 s2
      by (rule collected_reads [OF reads_reachableForGC c1 that])
    fix y s2 assume c2: "consistent E U (st_db s2) (st_pb s2)"
      and g: "(case y of (blobs, trees) \<Rightarrow> OrphanCandidates E blobs trees cGCCandidateBatch (deleteOrphanBatchChecked E)) s2 = (r, st')"
    show "collected E U s2 st'" using g OrphanCandidates_collected [OF _ c2] by (cases y) simp
  qed
qed

end
