(* ===== verification/Store_Artifact.thy ===== *)
theory Store_Artifact
  imports Store_Repair
begin

text \<open>
  The metadata of built artifacts (\<open>storage/artifact.go\<close>, \<open>sqliteindex/artifact.go\<close>) and the feed
  of publications (\<open>history.go\<close>). The files of the artifacts (the hot cache) are not modelled: they
  are rebuilt from the tree on demand.
\<close>

section \<open>Statements\<close>

definition GetArtifact :: "store_env \<Rightarrow> akey \<Rightarrow> ArtifactObj option sto" where
  "GetArtifact E k = query E (\<lambda>db. map_of (db_artifacts db) k)"

definition ListArtifacts :: "store_env \<Rightarrow> string \<Rightarrow> string \<Rightarrow> ArtifactObj list sto" where
  "ListArtifacts E key version =
     query E (\<lambda>db. map snd (filter (\<lambda>r. akey_vkey (fst r) = (key, version)) (db_artifacts db)))"

definition db_update_artifact ::
  "akey \<Rightarrow> (ArtifactObj \<Rightarrow> bool) \<Rightarrow> (ArtifactObj \<Rightarrow> ArtifactObj) \<Rightarrow> dbObj \<Rightarrow> store_error + dbObj" where
  "db_update_artifact k matches upd db =
     (case map_of (db_artifacts db) k of
        None \<Rightarrow> Inl (ErrInvalid ''artifact metadata not found'')
      | Some row \<Rightarrow>
          if \<not> matches row then Inl (ErrInvalid ''artifact metadata not found'')
          else if artifact_row_valid (upd row) then Inr (db\<lparr>db_artifacts := AList.update k (upd row) (db_artifacts db)\<rparr>)
          else Inl ErrConstraint)"

definition UpdateArtifactDigest :: "store_env \<Rightarrow> ArtifactObj \<Rightarrow> unit sto" where
  "UpdateArtifactDigest E a =
     exec E (db_update_artifact (akey_of (a_Key a, a_Version a) a) (\<lambda>_. True)
       (\<lambda>row. row\<lparr>a_ETag := a_ETag a, a_BodyHash := a_BodyHash a, a_BodySha256 := a_BodySha256 a,
          a_BodySha1 := a_BodySha1 a, a_SizeBytes := a_SizeBytes a, a_FormatVersion := a_FormatVersion a,
          a_FilePath := [], a_DegradedReason := []\<rparr>))"

definition UpdateArtifactPath :: "store_env \<Rightarrow> ArtifactObj \<Rightarrow> string \<Rightarrow> unit sto" where
  "UpdateArtifactPath E a filePath =
     exec E (db_update_artifact (akey_of (a_Key a, a_Version a) a)
       (\<lambda>row. a_BodyHash row = a_BodyHash a \<and> a_SizeBytes row = a_SizeBytes a \<and> a_FormatVersion row = a_FormatVersion a)
       (\<lambda>row. row\<lparr>a_FilePath := filePath, a_BodySha256 := a_BodySha256 a, a_BodySha1 := a_BodySha1 a\<rparr>))"

definition DeleteArtifactRow :: "store_env \<Rightarrow> akey \<Rightarrow> string sto" where
  "DeleteArtifactRow E k =
     sbind (GetArtifact E k) (\<lambda>found.
     case found of None \<Rightarrow> sret []
     | Some row \<Rightarrow>
         sbind (exec E (\<lambda>db. Inr (db\<lparr>db_artifacts := AList.delete k (db_artifacts db)\<rparr>))) (\<lambda>_.
         sret (a_FilePath row)))"

text \<open>The feed: newest first, with the notes of the version as it is now.\<close>

record FeedEventObj =
  fe_Key :: string
  fe_Version :: string
  fe_EventTS :: gotime
  fe_TreeHash :: HashObj
  fe_BodyHash :: HashObj
  fe_ReleaseNotes :: string
  fe_FirstPublish :: bool

definition published_before :: "dbObj \<Rightarrow> eventObj \<Rightarrow> bool" where
  "published_before db h \<longleftrightarrow> list_ex (\<lambda>p. e_Key p = e_Key h \<and> e_Version p = e_Version h \<and> e_Type p = ''publish'' \<and>
     e_id p < e_id h) (db_history db)"

definition feed_event :: "dbObj \<Rightarrow> eventObj \<Rightarrow> FeedEventObj" where
  "feed_event db h = \<lparr>fe_Key = e_Key h, fe_Version = e_Version h, fe_EventTS = e_ts h,
     fe_TreeHash = (case e_Tree h of Some t \<Rightarrow> t | None \<Rightarrow> zero_hash),
     fe_BodyHash = (case e_Body h of Some b \<Rightarrow> b | None \<Rightarrow> zero_hash),
     fe_ReleaseNotes = (case map_of (db_versions db) (e_Key h, e_Version h) of Some v \<Rightarrow> v_ReleaseNotes v | None \<Rightarrow> []),
     fe_FirstPublish = (\<not> published_before db h)\<rparr>"

definition ListPublishFeed :: "store_env \<Rightarrow> string \<Rightarrow> int \<Rightarrow> FeedEventObj list sto" where
  "ListPublishFeed E key limit0 =
     (let limit = (if limit0 \<le> 0 then 1 else nat limit0)
      in query E (\<lambda>db. map (feed_event db) (take limit (rev (sort_key (\<lambda>h. (e_ts h, e_id h))
           (filter (\<lambda>h. e_Type h = ''publish'' \<and> (key = [] \<or> e_Key h = key)) (db_history db)))))))"

section \<open>Operations\<close>

definition sto_GetArtifact :: "store_env \<Rightarrow> ArtifactObj \<Rightarrow> ArtifactObj option sto" where
  "sto_GetArtifact E a =
     sbind (io E) (\<lambda>_.
     sbind (slift (validateArtifactKey E a)) (\<lambda>_.
     GetArtifact E (akey_of (a_Key a, a_Version a) (a\<lparr>a_ListenerID := validateListener (a_ListenerID a)\<rparr>))))"

definition sto_ListArtifacts :: "store_env \<Rightarrow> string \<Rightarrow> string \<Rightarrow> ArtifactObj list sto" where
  "sto_ListArtifacts E key version = sbind (io E) (\<lambda>_. ListArtifacts E key version)"

definition RegisterArtifact :: "store_env \<Rightarrow> store_cfg \<Rightarrow> ArtifactObj \<Rightarrow> unit sto" where
  "RegisterArtifact E cfg a =
     sbind (io E) (\<lambda>_.
     sbind (slift (prepareArtifacts E cfg (a_Key a) (a_Version a) [a])) (\<lambda>artifactArr.
     sbind (slift (validateEventType ''artifact'')) (\<lambda>eventType.
     WithTx E
       (sbind (InsertArtifacts E (a_Key a) (a_Version a) artifactArr) (\<lambda>_.
        AddBodyHistory E (a_Key a) (a_Version a) eventType (a_BodyHash a))))))"

definition sto_UpdateArtifactDigest :: "store_env \<Rightarrow> ArtifactObj \<Rightarrow> unit sto" where
  "sto_UpdateArtifactDigest E a = sbind (io E) (\<lambda>_. UpdateArtifactDigest E a)"

definition DeleteArtifact :: "store_env \<Rightarrow> ArtifactObj \<Rightarrow> unit sto" where
  "DeleteArtifact E a =
     sbind (slift (validateArtifactKey E a)) (\<lambda>_.
     sbind (io E) (\<lambda>_.
     sbind (WithTx E (DeleteArtifactRow E
       (akey_of (a_Key a, a_Version a) (a\<lparr>a_ListenerID := validateListener (a_ListenerID a)\<rparr>)))) (\<lambda>_. sret ())))"

definition sto_ListPublishFeed :: "store_env \<Rightarrow> string \<Rightarrow> int \<Rightarrow> FeedEventObj list sto" where
  "sto_ListPublishFeed E key limit =
     sbind (io E) (\<lambda>_.
     sbind (if key = [] then sret () else slift (validateKey key)) (\<lambda>_.
     ListPublishFeed E key limit))"

section \<open>Frames\<close>

lemma reads_artifact [frame]:
  "reads (GetArtifact E k)" "reads (ListArtifacts E key version)" "reads (ListPublishFeed E key limit)"
  "reads (sto_GetArtifact E a)" "reads (sto_ListArtifacts E key version)" "reads (sto_ListPublishFeed E key limit)"
  unfolding GetArtifact_def ListArtifacts_def ListPublishFeed_def sto_GetArtifact_def sto_ListArtifacts_def
    sto_ListPublishFeed_def Let_def
  by (intro frame)+

lemma artifact_pb [frame]:
  "keeps_pb (AddBodyHistory E key version eventType h)" "keeps_pb (DeleteArtifactRow E k)"
  unfolding AddBodyHistory_def DeleteArtifactRow_def by (intro frame reads_pb [OF reads_artifact(1)])+

lemma artifact_same_refs:
  "db_update_artifact k matches upd db = Inr db' \<Longrightarrow> same_refs db db'"
  "same_refs db (db\<lparr>db_artifacts := al\<rparr>)"
  "same_refs db (db_add_history now key version eventType th bh message db)"
  by (auto simp: db_update_artifact_def same_refs_def db_add_history_def split: option.splits if_splits)

lemma minor_artifact:
  "minor (AddBodyHistory E key version eventType h)"
  "minor (exec E (\<lambda>db. Inr (db\<lparr>db_artifacts := al db\<rparr>)))"
proof -
  show "minor (AddBodyHistory E key version eventType h)"
    by (auto simp: minor_def AddBodyHistory_def op_Inr artifact_same_refs dest!: exec_Inr)
  show "minor (exec E (\<lambda>db. Inr (db\<lparr>db_artifacts := al db\<rparr>)))"
    by (rule minor_exec) (auto simp: artifact_same_refs)
qed

section \<open>What is registered is found\<close>

lemma InsertArtifacts_single:
  "InsertArtifacts E key version [a] st = (Inr u, st') \<Longrightarrow>
   st_db st' = (st_db st)\<lparr>db_artifacts := AList.update (akey_of (key, version) a)
      (a\<lparr>a_Key := key, a_Version := version\<rparr>) (db_artifacts (st_db st))\<rparr> \<and> st_pb st' = st_pb st"
proof -
  have "slices n [a] = [[a]]" for n by (simp add: slices.simps)
  then show "InsertArtifacts E key version [a] st = (Inr u, st') \<Longrightarrow> ?thesis"
    unfolding InsertArtifacts_def by (auto simp: op_Inr db_put_artifacts_def dest!: exec_Inr split: if_splits)
qed


lemma RegisterArtifact_Inr:
  assumes t: "RegisterArtifact E cfg a st = (Inr u, st')"
  obtains a' where "prepare_artifact E cfg (a_Key a) (a_Version a) a = Inr a'"
    "map_of (db_artifacts (st_db st')) = (map_of (db_artifacts (st_db st)))(akey_of (a_Key a, a_Version a) a' \<mapsto> a')"
    "db_versions (st_db st') = db_versions (st_db st)" "st_pb st' = st_pb st"
proof -
  obtain s1 arts s2 ev s3 where io: "io E st = (Inr (), s1)"
    and pr: "prepareArtifacts E cfg (a_Key a) (a_Version a) [a] = Inr arts" "s2 = s1" "s3 = s2"
    and tx: "WithTx E (sbind (InsertArtifacts E (a_Key a) (a_Version a) arts)
        (\<lambda>_. AddBodyHistory E (a_Key a) (a_Version a) ev (a_BodyHash a))) s3 = (Inr u, st')"
    using t unfolding RegisterArtifact_def op_Inr slift_Inr by auto
  obtain a' where a': "prepare_artifact E cfg (a_Key a) (a_Version a) a = Inr a'" "arts = [a']"
    using pr(1) by (auto simp: andthen_Inr)
  have k: "a_Key a' = a_Key a" "a_Version a' = a_Version a"
    using a'(1) by (auto simp: prepare_artifact_def Let_def andthen_Inr guard_Inr)
  have same_a: "a'\<lparr>a_Key := a_Key a, a_Version := a_Version a\<rparr> = a'" using k by simp
  from tx obtain b c where bc: "same s3 b" "sbind (InsertArtifacts E (a_Key a) (a_Version a) arts)
        (\<lambda>_. AddBodyHistory E (a_Key a) (a_Version a) ev (a_BodyHash a)) b = (Inr u, c)" "same c st'"
    by (rule WithTx_Inr)
  from bc(2) obtain x d where ins: "InsertArtifacts E (a_Key a) (a_Version a) arts b = (Inr x, d)"
    and h: "AddBodyHistory E (a_Key a) (a_Version a) ev (a_BodyHash a) d = (Inr u, c)" by (auto simp: op_Inr)
  note ins = InsertArtifacts_single [OF ins [unfolded a'(2)], unfolded same_a]
  have h: "db_artifacts (st_db c) = db_artifacts (st_db d) \<and> db_versions (st_db c) = db_versions (st_db d) \<and> st_pb c = st_pb d"
    using h by (auto simp: AddBodyHistory_def op_Inr db_add_history_def dest!: exec_Inr)
  have b: "same st b" using io_same [OF io] pr(2,3) bc(1) same_trans by blast
  show ?thesis
  proof (rule that [OF a'(1)])
    show "map_of (db_artifacts (st_db st')) =
        (map_of (db_artifacts (st_db st)))(akey_of (a_Key a, a_Version a) a' \<mapsto> a')"
      using ins h bc(3) b k by (simp add: same_def update_conv')
    show "db_versions (st_db st') = db_versions (st_db st)" "st_pb st' = st_pb st"
      using ins h bc(3) b by (simp_all add: same_def)
  qed
qed

end
