(* ===== verification/Store_Steps.thy ===== *)
theory Store_Steps
  imports Store_Artifact
begin

text \<open>
  The life of a store: every operation that changes it, in any order, with any pattern of failed
  calls, from the empty store. All of them run under \<open>writeMu\<close>, so they interleave as wholes; the
  garbage collector gives the lock up between its batches, so its batches are steps of their own,
  with arbitrary candidates.
\<close>

section \<open>Operations that keep the store consistent\<close>

definition safe :: "store_env \<Rightarrow> bytes set \<Rightarrow> 'a sto \<Rightarrow> bool" where
  "safe E U m \<longleftrightarrow> (\<forall>st r st'. m st = (r, st') \<longrightarrow> consistent E U (st_db st) (st_pb st) \<longrightarrow>
     consistent E U (st_db st') (st_pb st'))"

definition tx_safe :: "store_env \<Rightarrow> bytes set \<Rightarrow> 'a sto \<Rightarrow> bool" where
  "tx_safe E U m \<longleftrightarrow> keeps_pb m \<and> (\<forall>st x st'. m st = (Inr x, st') \<longrightarrow> consistent E U (st_db st) (st_pb st) \<longrightarrow>
     consistent E U (st_db st') (st_pb st'))"

named_theorems safe_rules \<open>operations that keep the store consistent\<close>

lemma safeD: "safe E U m \<Longrightarrow> m st = (r, st') \<Longrightarrow> consistent E U (st_db st) (st_pb st) \<Longrightarrow>
    consistent E U (st_db st') (st_pb st')"
  unfolding safe_def by blast

lemma safe_reads: "reads m \<Longrightarrow> safe E U m"
  unfolding safe_def by (metis readsD same_def)

lemma safe_bind [safe_rules]:
  assumes "safe E U m" "\<And>x. safe E U (f x)" shows "safe E U (sbind m f)"
  unfolding safe_def
proof (intro allI impI)
  fix st r st' assume "sbind m f st = (r, st')" and c: "consistent E U (st_db st) (st_pb st)"
  then show "consistent E U (st_db st') (st_pb st')"
  proof (cases rule: sbindE)
    case (err e)
    show ?thesis by (rule safeD [OF assms(1) err(1) c])
  next
    case (ok x s1)
    show ?thesis by (rule safeD [OF assms(2) ok(2) safeD [OF assms(1) ok(1) c]])
  qed
qed

lemma safe_if [safe_rules]: "safe E U m \<Longrightarrow> safe E U m' \<Longrightarrow> safe E U (if c then m else m')" by simp

lemma safe_basic [safe_rules]:
  "safe E U (sret x)" "safe E U (sfail e)" "safe E U (slift r)" "safe E U (io E')"
  by (intro safe_reads frame)+

lemma safe_pair [safe_rules]: "(\<And>a b. safe E U (g a b)) \<Longrightarrow> safe E U (case p of (a, b) \<Rightarrow> g a b)"
  by (cases p) simp

lemma safe_WithTx [safe_rules]:
  assumes "tx_safe E U m" shows "safe E U (WithTx E m)"
  unfolding safe_def
proof (intro allI impI)
  fix st r st' assume t: "WithTx E m st = (r, st')" and c: "consistent E U (st_db st) (st_pb st)"
  show "consistent E U (st_db st') (st_pb st')"
  proof (cases r)
    case (Inl e)
    have "keeps_pb m" using assms by (simp add: tx_safe_def)
    from WithTx_Inl [OF t [unfolded Inl] this] show ?thesis using c by (simp add: same_def)
  next
    case (Inr x)
    from t [unfolded Inr] obtain s1 s2 where s: "same st s1" "m s1 = (Inr x, s2)" "same s2 st'" by (rule WithTx_Inr)
    have "consistent E U (st_db s1) (st_pb s1)" using s(1) c by (simp add: same_def)
    then have "consistent E U (st_db s2) (st_pb s2)" using assms s(2) unfolding tx_safe_def by blast
    then show ?thesis using s(3) by (simp add: same_def)
  qed
qed

lemma tx_reads: "reads m \<Longrightarrow> tx_safe E U m"
  using safe_reads [of m E U] unfolding tx_safe_def safe_def by (auto intro: reads_pb)

lemma tx_bind [safe_rules]: "tx_safe E U m \<Longrightarrow> (\<And>x. tx_safe E U (f x)) \<Longrightarrow> tx_safe E U (sbind m f)"
  unfolding tx_safe_def by (auto intro: keeps_pb_bind simp: sbind_Inr)

lemma tx_option [safe_rules]:
  "tx_safe E U m \<Longrightarrow> (\<And>x. tx_safe E U (f x)) \<Longrightarrow> tx_safe E U (case y of None \<Rightarrow> m | Some x \<Rightarrow> f x)"
  by (cases y) auto

lemma tx_if [safe_rules]: "tx_safe E U m \<Longrightarrow> tx_safe E U m' \<Longrightarrow> tx_safe E U (if c then m else m')" by simp

lemma tx_basic [safe_rules]: "tx_safe E U (sret x)" "tx_safe E U (GetVersion E' key version)"
  by (intro tx_reads frame)+

lemma tx_minor: "keeps_pb m \<Longrightarrow> minor m \<Longrightarrow> tx_safe E U m"
  unfolding tx_safe_def consistent_def by (auto dest!: minorD intro: mid_same_refs)

lemma tx_AddHistory [safe_rules]: "tx_safe E U (AddHistory E' key version eventType h message)"
  by (rule tx_minor [OF commands_pb(10) minor_AddHistory])

lemma tx_artifact [safe_rules]:
  "tx_safe E U (AddBodyHistory E' key version eventType h)" "tx_safe E U (InsertArtifacts E' key version arts)"
  "tx_safe E U (DeleteArtifactRow E' k)"
proof -
  show "tx_safe E U (AddBodyHistory E' key version eventType h)" "tx_safe E U (InsertArtifacts E' key version arts)"
    by (intro tx_minor artifact_pb minor_artifact commands_pb minor_statements)+
  have "tx_safe E U (exec E' (\<lambda>db. Inr (db\<lparr>db_artifacts := al db\<rparr>)))" for al
    by (intro tx_minor exec_pb minor_artifact)
  then have "tx_safe E U (exec E' (\<lambda>db. Inr (db\<lparr>db_artifacts := AList.delete k (db_artifacts db)\<rparr>)))" .
  then show "tx_safe E U (DeleteArtifactRow E' k)"
    unfolding DeleteArtifactRow_def by (intro safe_rules tx_reads [OF reads_artifact(1)])
qed

lemma tx_update [safe_rules]:
  assumes "\<And>v. vkey_of (g v) = vkey_of v" "\<And>v. v_TreeHash (g v) = v_TreeHash v"
  shows "tx_safe E U (exec E' (\<lambda>db. Inr (db_update_version k g db)))"
  unfolding tx_safe_def consistent_def
proof (intro conjI allI impI exec_pb)
  fix st x st' assume t: "exec E' (\<lambda>db. Inr (db_update_version k g db)) st = (Inr x, st')"
    and m: "mid E U (st_pb st) {} (\<lambda>_. 0) (st_db st)"
  have "st_db st' = db_update_version k g (st_db st)" "st_pb st' = st_pb st" using exec_Inr [OF t] by auto
  then show "mid E U (st_pb st') {} (\<lambda>_. 0) (st_db st')" using mid_update_version [OF m assms] by simp
qed

lemma tx_InsertDetection [safe_rules]: "tx_safe E U (InsertDetection E key version d)"
  unfolding tx_safe_def consistent_def
proof (intro conjI allI impI commands_pb)
  fix st x st' assume t: "InsertDetection E key version d st = (Inr x, st')"
    and m: "mid E U (st_pb st) {} (\<lambda>_. 0) (st_db st)"
  from InsertDetection_Inr [OF t m] show "mid E U (st_pb st') {} (\<lambda>_. 0) (st_db st')" by simp
qed

lemma safe_deleteVersionLocked [safe_rules]: "safe E U (deleteVersionLocked E key version)"
  unfolding safe_def
proof (intro allI impI)
  fix st r st' assume "deleteVersionLocked E key version st = (r, st')" and c: "consistent E U (st_db st) (st_pb st)"
  then show "consistent E U (st_db st') (st_pb st')"
    by (cases rule: deleteVersionLocked_cases) (use c in \<open>auto simp: same_def\<close>)
qed

lemma safe_delete_versions [safe_rules]: "safe E U (delete_versions E n b vs)"
proof (induction vs arbitrary: n b)
  case (Cons v vs)
  then show ?case unfolding delete_versions.simps by (intro safe_rules)
qed (simp add: safe_rules)

lemma safe_valid_ref [safe_rules]: "safe E U (valid_ref E' key version)"
  unfolding valid_ref_def by (intro safe_rules)

lemma safe_ListVersions [safe_rules]: "safe E U (ListVersions E' key incl)"
  by (intro safe_reads frame)

lemma safe_mutations:
  "safe E U (DeleteVersion E key version)" "safe E U (DeleteKey E key)"
  "safe E U (MarkUpstreamDeleted E cfg key version)" "safe E U (ResurrectVersion E key version)"
  "safe E U (sto_TouchVersionVerified E key version ts upref)" "safe E U (SetHealPending E key version pending)"
  "safe E U (PutDetection E key version d)"
  unfolding DeleteVersion_def DeleteKey_def MarkUpstreamDeleted_def ResurrectVersion_def sto_TouchVersionVerified_def
    SetHealPending_def PutDetection_def tx_MarkUpstreamDeleted_def ClearUpstreamDeleted_def TouchVersionVerified_def
    tx_SetHealPending_def
  by (intro safe_rules; simp add: vkey_of_def)+

lemma safe_collections:
  "safe E U (CollectGarbage E)" "safe E U (deleteOrphanBatchChecked E objs)" "safe E U (RepairBlobRefs E)"
proof -
  show "safe E U (CollectGarbage E)" unfolding safe_def using CollectGarbage_collected collected_def by blast
  show "safe E U (deleteOrphanBatchChecked E objs)" unfolding safe_def using orphan_batch_collected collected_def by blast
  show "safe E U (RepairBlobRefs E)" unfolding safe_def
  proof (intro allI impI)
    fix st r st' assume t: "RepairBlobRefs E st = (r, st')" and c: "consistent E U (st_db st) (st_pb st)"
    from RepairBlobRefs_result(1) [OF t consistent_sound [OF c]] show "consistent E U (st_db st') (st_pb st')"
      using c by (auto simp: same_def)
  qed
qed

lemma safe_exec:
  assumes "\<And>db db'. f db = Inr db' \<Longrightarrow> same_refs db db'" shows "safe E U (exec E' f)"
  unfolding safe_def
proof (intro allI impI)
  fix st r st' assume t: "exec E' f st = (r, st')" and c: "consistent E U (st_db st) (st_pb st)"
  from t show "consistent E U (st_db st') (st_pb st')" unfolding exec_def
  proof (cases rule: sbindE)
    case (err e)
    then show ?thesis using c io_same [OF err(1)] by (simp add: same_def)
  next
    case (ok x s1)
    have c1: "consistent E U (st_db s1) (st_pb s1)" using c io_same [OF ok(1)] by (simp add: same_def)
    show ?thesis
    proof (cases "f (st_db s1)")
      case (Inl e)
      then show ?thesis using ok(2) c1 by simp
    next
      case (Inr db)
      then have "st_db st' = db" "st_pb st' = st_pb s1" using ok(2) by (auto simp: put_db_def)
      then show ?thesis using c1 mid_same_refs [OF _ assms [OF Inr]] by (simp add: consistent_def)
    qed
  qed
qed

lemma safe_PruneHistory: "safe E U (PruneHistory E' n)"
proof -
  have "same_refs db (db_prune_history k db)" for db k
    by (simp add: db_prune_history_def same_refs_def Let_def)
  then have "safe E U (exec E' (\<lambda>db. Inr (db_prune_history k db)))" for k by (intro safe_exec) auto
  then show ?thesis unfolding PruneHistory_def by (intro safe_rules)
qed

lemma safe_artifacts:
  "safe E U (RegisterArtifact E cfg a)" "safe E U (sto_UpdateArtifactDigest E a)" "safe E U (DeleteArtifact E a)"
  "safe E U (UpdateArtifactPath E a path)"
proof -
  have u: "safe E U (exec E (db_update_artifact k matches upd))" for k matches upd
    by (rule safe_exec) (rule artifact_same_refs)
  show "safe E U (sto_UpdateArtifactDigest E a)" "safe E U (UpdateArtifactPath E a path)"
    unfolding sto_UpdateArtifactDigest_def UpdateArtifactDigest_def UpdateArtifactPath_def by (intro safe_rules u)+
  show "safe E U (RegisterArtifact E cfg a)" "safe E U (DeleteArtifact E a)"
    unfolding RegisterArtifact_def DeleteArtifact_def by (intro safe_rules)+
qed

lemmas safe_ops = safe_mutations safe_collections safe_PruneHistory safe_artifacts

section \<open>The step relation\<close>

inductive store_step :: "store_env \<Rightarrow> store_cfg \<Rightarrow> bytes set \<Rightarrow> storeObj \<Rightarrow> storeObj \<Rightarrow> bool"
  for E :: store_env and cfg :: store_cfg and U :: "bytes set" where
  publish: "request_in E U cfg p \<Longrightarrow> Publish E cfg p st = (r, st') \<Longrightarrow> store_step E cfg U st st'"
| staged: "staged_in E U cfg s \<Longrightarrow> PublishStaged E cfg s st = (r, st') \<Longrightarrow> store_step E cfg U st st'"
| delete: "DeleteVersion E key version st = (r1, st') \<Longrightarrow> store_step E cfg U st st'"
| delete_key: "DeleteKey E key st = (r2, st') \<Longrightarrow> store_step E cfg U st st'"
| mark_deleted: "MarkUpstreamDeleted E cfg key version st = (r1, st') \<Longrightarrow> store_step E cfg U st st'"
| resurrect: "ResurrectVersion E key version st = (r1, st') \<Longrightarrow> store_step E cfg U st st'"
| touch: "sto_TouchVersionVerified E key version ts upref st = (r1, st') \<Longrightarrow> store_step E cfg U st st'"
| heal_pending: "SetHealPending E key version pending st = (r1, st') \<Longrightarrow> store_step E cfg U st st'"
| detection: "PutDetection E key version d st = (r1, st') \<Longrightarrow> store_step E cfg U st st'"
| prune_history: "PruneHistory E n st = (r1, st') \<Longrightarrow> store_step E cfg U st st'"
| register: "RegisterArtifact E cfg a st = (r1, st') \<Longrightarrow> store_step E cfg U st st'"
| redigest: "sto_UpdateArtifactDigest E a st = (r1, st') \<Longrightarrow> store_step E cfg U st st'"
| attach: "UpdateArtifactPath E a path st = (r1, st') \<Longrightarrow> store_step E cfg U st st'"
| drop_artifact: "DeleteArtifact E a st = (r1, st') \<Longrightarrow> store_step E cfg U st st'"
| gc: "CollectGarbage E st = (r1, st') \<Longrightarrow> store_step E cfg U st st'"
| gc_batch: "deleteOrphanBatchChecked E objs st = (r1, st') \<Longrightarrow> store_step E cfg U st st'"
| repair: "RepairBlobRefs E st = (r1, st') \<Longrightarrow> store_step E cfg U st st'"
| check_integrity: "VerifyIntegrity E sqliteIssues st = (r3, st') \<Longrightarrow> store_step E cfg U st st'"
| read: "same st st' \<Longrightarrow> store_step E cfg U st st'"

definition empty_db :: dbObj where
  "empty_db = \<lparr>db_globals = [], db_versions = [], db_detection = [], db_rewrite = [], db_artifacts = [],
     db_blob_refs = [], db_history = [], db_historySeq = 0\<rparr>"

definition empty_store :: storeObj where
  "empty_store = \<lparr>st_db = empty_db, st_pb = [], st_calls = 0, st_realBytes = 0, st_realBytesAt = 0, st_lastCompact = 0\<rparr>"

inductive store_reachable :: "store_env \<Rightarrow> store_cfg \<Rightarrow> bytes set \<Rightarrow> storeObj \<Rightarrow> bool"
  for E :: store_env and cfg :: store_cfg and U :: "bytes set" where
  start: "store_reachable E cfg U empty_store"
| step: "store_reachable E cfg U st \<Longrightarrow> store_step E cfg U st st' \<Longrightarrow> store_reachable E cfg U st'"

lemma empty_consistent: "consistent E U (st_db empty_store) (st_pb empty_store)"
  unfolding consistent_def
  by (rule midI) (simp_all add: empty_store_def empty_db_def keys_ok_def rows_ok_def rc_def ref_total_def sizes_ok_def)

lemma publishes_consistent:
  "publishes E U cfg p tree st m \<Longrightarrow> m st = (r, st') \<Longrightarrow> consistent E U (st_db st) (st_pb st) \<Longrightarrow>
   publish_result_ok E U cfg p tree st r st'"
  unfolding publishes_def using same_refl by blast

lemma reads_VerifyIntegrity: "reads (VerifyIntegrity E sqliteIssues)"
proof -
  have b: "reads (integrity_blob E h acc e)" for h acc e
    unfolding integrity_blob_def Let_def by (intro frame)
  have t: "reads (integrity_tree E acc row)" for acc row
    unfolding integrity_tree_def integrity_entry_def Let_def by (intro frame b)
  have r: "reads (integrity_row acc row)" for acc row
    unfolding integrity_row_def Let_def by (intro frame)
  have s: "reads (ForEachBlobScan E failed)" for failed
    unfolding ForEachBlobScan_def scan_step_def by (intro frame)
  show ?thesis unfolding VerifyIntegrity_def verifyIntegrityLocked_def by (intro frame t r s)
qed

lemma step_consistent:
  assumes i: "inj_on (sv_H E) U" and s: "store_step E cfg U st st'" and c: "consistent E U (st_db st) (st_pb st)"
  shows "consistent E U (st_db st') (st_pb st')"
  using s
proof (cases rule: store_step.cases)
  case (publish p r)
  then show ?thesis using publishes_consistent [OF Publish_ok [OF i] _ c] unfolding publish_result_ok_def by blast
next
  case (staged s r)
  then show ?thesis using publishes_consistent [OF PublishStaged_ok [OF i] _ c] unfolding publish_result_ok_def by blast
next
  case read
  then show ?thesis using c by (simp add: same_def)
next
  case check_integrity
  then show ?thesis using c readsD [OF reads_VerifyIntegrity] by (simp add: same_def)
qed (erule safeD [rotated], rule c, rule safe_ops)+

lemma reachable_consistent:
  assumes "store_reachable E cfg U st" "inj_on (sv_H E) U"
  shows "consistent E U (st_db st) (st_pb st)"
  using assms by (induction rule: store_reachable.induct) (auto intro: empty_consistent step_consistent)

end
