(* ===== verification/Store_Sample.thy ===== *)
theory Store_Sample
  imports Store_Steps
begin

text \<open>
  A small store on which the theorems about the storage are instantiated: every call succeeds, the
  digest of a byte string is its first 24 bytes (which tells the byte strings \<open>toy_U\<close>
  that occur apart), and the version \<open>v1\<close> of the key \<open>app\<close> is published with the content \<open>x\<close>
  (\<open>toy_store1\<close>) and then with the content \<open>y\<close>, which keeps the first as a historical copy
  (\<open>toy_store2\<close>). Both publications are evaluated by the kernel.
\<close>

definition toy_env :: store_env where
  "toy_env = \<lparr>sv_H = hash_copy, sv_ok = (\<lambda>_. True), sv_now = (\<lambda>_. 1),
     sv_file = (\<lambda>_ path. if path = ''/spool/x'' then Some (7, ''x'') else None), sv_disk = (\<lambda>_. 0),
     sv_semver = toy_semver\<lparr>sv_valid := \<lambda>v. v \<noteq> [] \<and> hd v = CHR ''v''\<rparr>, sv_json = (\<lambda>_. True)\<rparr>"

definition toy_cfg :: store_cfg where
  "toy_cfg = \<lparr>cf_MaxTotalSize = 1000, cf_EvictToSize = 500, cf_RetainLatestPerKey = 1, cf_MaxVersionsPerKey = 3,
     cf_Mutation = MutationHistory, cf_HistoryPrefix = ''old'', cf_Deletion = DeletionKeep, cf_Compressed = 1000,
     cf_Unpacked = 1000, cf_PerFile = 1000, cf_Count = 10, cf_PathBytes = 100, cf_HotMaxSize = 0, cf_RamBytes = 0\<rparr>"

definition toy_detection :: "string \<Rightarrow> DetectionObj" where
  "toy_detection evidence = \<lparr>d_IsGo = True, d_IsComposer = False, d_Conflict = False, d_EvidenceJSON = evidence,
     d_GoZipBlocked = False, d_GoZipBlockReason = []\<rparr>"

definition toy_request :: "bytes \<Rightarrow> PublishObj" where
  "toy_request c = \<lparr>p_Key = ''app'', p_Version = ''v1'', p_SourceHash = hash_copy ''s'', p_SourceSizeBytes = 10,
     p_UpstreamSeq = 0, p_Entries = [\<lparr>ie_Path = ''a'', ie_Mode = [], ie_Content = Some c, ie_BlobHash = zero_hash,
       ie_SizeBytes = 0\<rparr>],
     p_Detection = toy_detection [], p_RewriteBlobs = [], p_Artifacts = [], p_UpstreamDeleted = False,
     p_EventType = ''publish'', p_EventMessage = [], p_ReleaseNotes = [], p_HealPending = False,
     p_UpstreamRef = [], p_VerifiedTS = 0\<rparr>"

definition toy_bytes :: "bytes \<Rightarrow> bytes" where
  "toy_bytes c = ''YRV_TREE'' @ [ch 0, ch 1, ch 1, CHR ''a'', ch 1, ch 1] @ BytesCopy (hash_copy c)"

definition toy_tree :: "bytes \<Rightarrow> HashObj" where
  "toy_tree c = hash_copy (toy_bytes c)"

definition toy_U :: "bytes set" where
  "toy_U = set [[], ''x'', ''y'', toy_bytes ''x'', toy_bytes ''y'']"

definition toy_row :: "string \<Rightarrow> bytes \<Rightarrow> int \<Rightarrow> string \<Rightarrow> VersionObj" where
  "toy_row version c seq replacedBy = \<lparr>v_Key = ''app'', v_Version = version, v_SourceHash = hash_copy ''s'',
     v_SourceSizeBytes = 10, v_TreeHash = toy_tree c, v_IngestTS = 0, v_UpstreamSeq = seq, v_UpstreamDeleted = False,
     v_ReplacedBy = replacedBy, v_ReleaseNotes = [], v_HealPending = False, v_UpstreamRef = [], v_VerifiedTS = 0\<rparr>"

definition toy_event :: "nat \<Rightarrow> bytes \<Rightarrow> eventObj" where
  "toy_event n c = \<lparr>e_id = n, e_ts = 0, e_Key = ''app'', e_Version = ''v1'', e_Type = ''publish'',
     e_Tree = Some (toy_tree c), e_Body = None, e_Message = []\<rparr>"

definition toy_objects :: "bytes \<Rightarrow> (bytes \<times> bytes) list" where
  "toy_objects c = [(blobKey (hash_copy c), c), (treeKey (toy_tree c), toy_bytes c)]"

definition toy_store1 :: storeObj where
  "toy_store1 = \<lparr>st_db = \<lparr>db_globals = [],
       db_versions = [((''app'', ''v1''), toy_row ''v1'' ''x'' 1 [])],
       db_detection = [((''app'', ''v1''), toy_detection ''{}'')],
       db_rewrite = [], db_artifacts = [], db_blob_refs = [(hash_copy ''x'', \<lparr>br_Refcount = 1, br_SizeBytes = 1\<rparr>)],
       db_history = [toy_event 1 ''x''], db_historySeq = 1\<rparr>,
     st_pb = toy_objects ''x'', st_calls = 25, st_realBytes = 0, st_realBytesAt = 1, st_lastCompact = 0\<rparr>"

definition toy_store2 :: storeObj where
  "toy_store2 = \<lparr>st_db = \<lparr>db_globals = [(''history_next_version_old'', ''2'')],
       db_versions = [((''app'', ''v0.0.0-old1''), toy_row ''v0.0.0-old1'' ''x'' 0 ''v1''),
         ((''app'', ''v1''), toy_row ''v1'' ''y'' 1 [])],
       db_detection = [((''app'', ''v0.0.0-old1''), toy_detection ''{}''), ((''app'', ''v1''), toy_detection ''{}'')],
       db_rewrite = [], db_artifacts = [],
       db_blob_refs = [(hash_copy ''x'', \<lparr>br_Refcount = 1, br_SizeBytes = 1\<rparr>),
         (hash_copy ''y'', \<lparr>br_Refcount = 1, br_SizeBytes = 1\<rparr>)],
       db_history = [toy_event 1 ''x'', toy_event 2 ''y''], db_historySeq = 2\<rparr>,
     st_pb = toy_objects ''x'' @ toy_objects ''y'', st_calls = 58, st_realBytes = 0, st_realBytesAt = 1,
     st_lastCompact = 0\<rparr>"

definition toy_result :: "bytes \<Rightarrow> string \<Rightarrow> PublishResultObj" where
  "toy_result c historical = \<lparr>r_Key = ''app'', r_Version = ''v1'', r_TreeHash = toy_tree c, r_Published = True,
     r_Skipped = False, r_Historical = historical\<rparr>"

section \<open>The publications, evaluated\<close>

lemma toy_publish1: "Publish toy_env toy_cfg (toy_request ''x'') empty_store = (Inr (toy_result ''x'' []), toy_store1)"
  by code_simp

lemma toy_publish2:
  "Publish toy_env toy_cfg (toy_request ''y'') toy_store1 = (Inr (toy_result ''y'' ''v0.0.0-old1''), toy_store2)"
  by code_simp

section \<open>The sample is covered by the assumptions\<close>

lemma toy_inj: "inj_on (sv_H toy_env) toy_U"
  unfolding toy_U_def inj_on_def by code_simp

lemma toy_requests: "request_in toy_env toy_U toy_cfg (toy_request ''x'')"
    "request_in toy_env toy_U toy_cfg (toy_request ''y'')"
proof -
  have "case normalizeInputEntries (sv_H toy_env) (entry_limits toy_cfg) (p_Entries (toy_request ''x'')) of Inl _ \<Rightarrow> True
      | Inr (es, _) \<Rightarrow> (case Encode (sv_H toy_env) es of Inl _ \<Rightarrow> True | Inr (d, _) \<Rightarrow> d \<in> toy_U)"
    by code_simp
  then show "request_in toy_env toy_U toy_cfg (toy_request ''x'')"
    unfolding request_in_def by (simp add: toy_request_def toy_U_def)
  have "case normalizeInputEntries (sv_H toy_env) (entry_limits toy_cfg) (p_Entries (toy_request ''y'')) of Inl _ \<Rightarrow> True
      | Inr (es, _) \<Rightarrow> (case Encode (sv_H toy_env) es of Inl _ \<Rightarrow> True | Inr (d, _) \<Rightarrow> d \<in> toy_U)"
    by code_simp
  then show "request_in toy_env toy_U toy_cfg (toy_request ''y'')"
    unfolding request_in_def by (simp add: toy_request_def toy_U_def)
qed

lemma toy_trees: "request_tree toy_env toy_cfg (toy_request ''x'') = Some (toy_tree ''x'')"
    "request_tree toy_env toy_cfg (toy_request ''y'') = Some (toy_tree ''y'')"
  by code_simp+

lemma toy_reachable:
  "store_reachable toy_env toy_cfg toy_U toy_store1" "store_reachable toy_env toy_cfg toy_U toy_store2"
proof -
  show r: "store_reachable toy_env toy_cfg toy_U toy_store1"
    by (rule store_reachable.step [OF store_reachable.start store_step.publish [OF toy_requests(1) toy_publish1]])
  show "store_reachable toy_env toy_cfg toy_U toy_store2"
    by (rule store_reachable.step [OF r store_step.publish [OF toy_requests(2) toy_publish2]])
qed

lemma toy_consistent:
  "consistent toy_env toy_U (st_db toy_store1) (st_pb toy_store1)"
  "consistent toy_env toy_U (st_db toy_store2) (st_pb toy_store2)"
  by (rule reachable_consistent [OF _ toy_inj], rule toy_reachable)+

section \<open>Variants\<close>

text \<open>The environment whose \<open>n\<close>-th call fails, and a quota that the second publication reaches.\<close>

definition toy_failing :: "nat \<Rightarrow> store_env" where
  "toy_failing n = toy_env\<lparr>sv_ok := \<lambda>k. k \<noteq> n\<rparr>"

definition tight_cfg :: store_cfg where
  "tight_cfg = toy_cfg\<lparr>cf_MaxTotalSize := 4\<rparr>"

text \<open>The first store with two objects of no version, and with its reference counts lost.\<close>

definition toy_garbage :: storeObj where
  "toy_garbage = toy_store1\<lparr>st_pb := toy_objects ''x'' @ toy_objects ''y''\<rparr>"

definition toy_uncounted :: storeObj where
  "toy_uncounted = toy_store1\<lparr>st_db := (st_db toy_store1)\<lparr>db_blob_refs := []\<rparr>\<rparr>"

lemma toy_failing_covered: "inj_on (sv_H (toy_failing n)) toy_U" "request_in (toy_failing n) toy_U toy_cfg (toy_request ''x'')"
proof -
  have h: "sv_H (toy_failing n) = sv_H toy_env" by (simp add: toy_failing_def)
  show "inj_on (sv_H (toy_failing n)) toy_U" unfolding h by (rule toy_inj)
  show "request_in (toy_failing n) toy_U toy_cfg (toy_request ''x'')"
    using toy_requests(1) unfolding request_in_def h .
qed

lemma toy_garbage_consistent: "consistent toy_env toy_U (st_db toy_garbage) (st_pb toy_garbage)"
proof -
  have db: "st_db toy_garbage = st_db toy_store1" and pb: "st_pb toy_garbage = toy_objects ''x'' @ toy_objects ''y''"
    "st_pb toy_store1 = toy_objects ''x''"
    by (simp_all add: toy_garbage_def toy_store1_def)
  have more_objects: "map_of (xs @ ys) k = map_of xs k" if "map_of xs k \<noteq> None" for xs ys :: "(bytes \<times> bytes) list" and k
    using that by (auto simp: map_add_def split: option.splits)
  show ?thesis unfolding db pb(1)
  proof (rule consistent_pb [OF toy_consistent(1) [unfolded pb(2)]])
    fix h assume "tree_referenced (st_db toy_store1) h"
    then have h: "h = toy_tree ''x''" by (simp add: tree_referenced_row toy_store1_def toy_row_def)
    have "map_of (toy_objects ''x'') (treeKey (toy_tree ''x'')) \<noteq> None" by code_simp
    then show "map_of (toy_objects ''x'' @ toy_objects ''y'') (treeKey h) = map_of (toy_objects ''x'') (treeKey h)"
      unfolding h by (rule more_objects)
  next
    fix h assume "blob_referenced (st_db toy_store1) h"
    then have h: "h = hash_copy ''x''" by (simp add: blob_referenced_def toy_store1_def split: if_splits)
    have "map_of (toy_objects ''x'') (blobKey (hash_copy ''x'')) \<noteq> None" by code_simp
    then show "map_of (toy_objects ''x'' @ toy_objects ''y'') (blobKey h) = map_of (toy_objects ''x'') (blobKey h)"
      unfolding h by (rule more_objects)
  next
    have "snd ` set (toy_objects ''x'' @ toy_objects ''y'') \<subseteq> toy_U" by (simp add: toy_objects_def toy_U_def)
    then show "ran (map_of (toy_objects ''x'' @ toy_objects ''y'')) \<subseteq> toy_U"
      by (rule subset_trans [rotated]) (force simp: ran_def dest: map_of_SomeD)
  qed
qed

lemma toy_uncounted_sound: "sound_rows toy_env toy_U (st_db toy_uncounted) (st_pb toy_uncounted)"
  using consistent_sound [OF toy_consistent(1)] unfolding sound_rows_def keys_ok_def toy_uncounted_def by simp

text \<open>The content \<open>x\<close>, published from a spool file.\<close>

definition toy_staged :: StagedPublishObj where
  "toy_staged = \<lparr>sp_Publish = (toy_request ''x'')\<lparr>p_Entries := []\<rparr>,
     sp_Entries = [\<lparr>se_Path = ''a'', se_Mode = ModeFile, se_BlobHash = hash_copy ''x'', se_SizeBytes = 1\<rparr>],
     sp_Blobs = [\<lparr>sb_BlobHash = hash_copy ''x'', sb_SizeBytes = 1, sb_FilePath = ''/spool/x''\<rparr>]\<rparr>"

lemma toy_staged_in: "staged_in toy_env toy_U toy_cfg toy_staged"
proof -
  have "take m ''x'' \<in> toy_U" for m by (cases m) (simp_all add: toy_U_def)
  then have "files_in toy_env toy_U" unfolding files_in_def by (auto simp: toy_env_def split: if_splits)
  moreover have "case normalizeStagedEntries (entry_limits toy_cfg) (sp_Entries toy_staged) of Inl _ \<Rightarrow> True
      | Inr (es, _, _) \<Rightarrow> (case Encode (sv_H toy_env) es of Inl _ \<Rightarrow> True | Inr (d, _) \<Rightarrow> d \<in> toy_U)"
    by code_simp
  ultimately show ?thesis by (simp add: staged_in_def)
qed

lemma toy_publish_staged:
  "PublishStaged toy_env toy_cfg toy_staged empty_store =
     (Inr (toy_result ''x'' []), snd (PublishStaged toy_env toy_cfg toy_staged empty_store))"
proof -
  have "fst (PublishStaged toy_env toy_cfg toy_staged empty_store) = Inr (toy_result ''x'' [])" by code_simp
  then show ?thesis by (metis prod.collapse)
qed

text \<open>After the second publication upstream publishes a tag that is the next historical name.\<close>

definition toy_tag :: PublishObj where
  "toy_tag = (toy_request ''x'')\<lparr>p_Version := ''v0.0.0-old2''\<rparr>"

definition toy_store3 :: storeObj where
  "toy_store3 = toy_store2\<lparr>st_db := (st_db toy_store2)\<lparr>
       db_versions := db_versions (st_db toy_store2) @ [((''app'', ''v0.0.0-old2''), toy_row ''v0.0.0-old2'' ''x'' 2 [])],
       db_detection := db_detection (st_db toy_store2) @ [((''app'', ''v0.0.0-old2''), toy_detection ''{}'')],
       db_blob_refs := [(hash_copy ''x'', \<lparr>br_Refcount = 2, br_SizeBytes = 1\<rparr>),
         (hash_copy ''y'', \<lparr>br_Refcount = 1, br_SizeBytes = 1\<rparr>)],
       db_history := db_history (st_db toy_store2) @ [(toy_event 3 ''x'')\<lparr>e_Version := ''v0.0.0-old2''\<rparr>],
       db_historySeq := 3\<rparr>, st_calls := 78\<rparr>"

lemma toy_publish_tag:
  "Publish toy_env toy_cfg toy_tag toy_store2 =
     (Inr ((toy_result ''x'' [])\<lparr>r_Version := ''v0.0.0-old2''\<rparr>), toy_store3)"
  by code_simp

lemma toy_store3_consistent: "consistent toy_env toy_U (st_db toy_store3) (st_pb toy_store3)"
proof -
  have "request_in toy_env toy_U toy_cfg toy_tag"
    using toy_requests(1) unfolding request_in_def toy_tag_def by simp
  from store_step.publish [OF this toy_publish_tag]
  show ?thesis using reachable_consistent [OF store_reachable.step [OF toy_reachable(2)] toy_inj] by blast
qed

end
