(* ===== verification/Store_Theorems.thy ===== *)
theory Store_Theorems
  imports Store_Sample
begin

text \<open>
  What the storage promises, for every environment (so for every pattern of failing calls): what is
  stored stays readable, the reference counts are exact, a publication is all or nothing, the quota
  spares what it has to spare and is respected, the loops end, garbage collection and repair are safe.
  The hypotheses on the digest say only that no collision occurs among the byte strings that occur.
\<close>

section \<open>The invariant\<close>

lemma consistent_row:
  assumes "consistent E U db pb" "map_of (db_versions db) k = Some v"
  obtains es where "tree_ready E pb (v_TreeHash v) es"
  using assms midD(2) unfolding consistent_def rows_ok_def
  by (metis map_of_SomeD snd_conv)

text \<open>
  C1: every version that the index lists stays readable, whatever happened: its tree object is stored
  under the recorded digest, hashes to it and decodes, and every file of the tree is stored under its
  digest with the recorded size. The state may be any one that publications (inline or
  staged), deletions, marks, history pruning, garbage collection and repairs reach in any order, with
  any calls failing in between.
\<close>

theorem stored_versions_intact:
  assumes "store_reachable E cfg U st" and "inj_on (sv_H E) U"
    and "map_of (db_versions (st_db st)) (key, version) = Some v"
  shows "v_Key v = key \<and> v_Version v = version \<and>
    (\<exists>d es. map_of (st_pb st) (treeKey (v_TreeHash v)) = Some d \<and> sv_H E d = v_TreeHash v \<and> Decode d = Inr es \<and>
       list_all (\<lambda>e. \<exists>c. map_of (st_pb st) (blobKey (te_BlobHash e)) = Some c \<and> sv_H E c = te_BlobHash e \<and>
          of_nat (length c) = te_SizeBytes e) es)"
proof -
  note c = reachable_consistent [OF assms(1,2)]
  have "vkey_of v = (key, version)" by (rule row_vkey [OF midD(1) [OF c [unfolded consistent_def]] assms(3)])
  moreover obtain es where "tree_ready E (st_pb st) (v_TreeHash v) es" by (rule consistent_row [OF c assms(3)])
  ultimately show ?thesis
    unfolding tree_ready_def tree_of_Some blob_ok_def list_all_iff vkey_of_def by blast
qed

theorem stored_versions_intact_witness:
  "\<exists>d es. map_of (st_pb toy_store2) (treeKey (toy_tree ''x'')) = Some d \<and> Decode d = Inr es"
proof -
  have "map_of (db_versions (st_db toy_store2)) (''app'', ''v0.0.0-old1'') = Some (toy_row ''v0.0.0-old1'' ''x'' 0 ''v1'')"
    by (simp add: toy_store2_def)
  from stored_versions_intact [OF toy_reachable(2) toy_inj this] show ?thesis by (auto simp: toy_row_def)
qed

text \<open>
  C2: the reference counts of the index are exact in every reachable state: the count of a blob is
  the number of entries, over the trees of all versions (historical copies included), that name it,
  and a counted blob is stored with the size its row records. So a blob with count zero is garbage,
  and nothing else is.
\<close>

theorem reference_counts_exact:
  assumes "store_reachable E cfg U st" and "inj_on (sv_H E) U"
  shows "rc (db_blob_refs (st_db st)) h = ref_total E (st_pb st) (db_versions (st_db st)) h \<and>
    (case map_of (db_blob_refs (st_db st)) h of None \<Rightarrow> True
     | Some b \<Rightarrow> br_Refcount b = 0 \<or>
         (\<exists>c. map_of (st_pb st) (blobKey h) = Some c \<and> br_SizeBytes b = of_nat (length c)))"
proof -
  note m = reachable_consistent [OF assms, unfolded consistent_def]
  have "rc (db_blob_refs (st_db st)) h = ref_total E (st_pb st) (db_versions (st_db st)) h"
    using midD(5) [OF m, of h] by simp
  then show ?thesis using midD(6) [OF m] by (auto simp: sizes_ok_def split: option.split)
qed

theorem reference_counts_exact_witness:
  "ref_total toy_env (st_pb toy_store2) (db_versions (st_db toy_store2)) (hash_copy ''y'') = 1"
proof -
  have "rc (db_blob_refs (st_db toy_store2)) (hash_copy ''y'') = 1" by code_simp
  then show ?thesis
    using reference_counts_exact [OF toy_reachable(2) toy_inj, of "hash_copy ''y''"] by simp
qed

section \<open>Publication\<close>

lemma validatePublishMetadata_Inr:
  assumes "validatePublishMetadata E cfg p = Inr p'"
  shows "p_Key p' = p_Key p" "p_Version p' = p_Version p" "new_row now p' h seq = new_row now p h seq"
  using assms unfolding validatePublishMetadata_def
  by (auto simp: andthen_Inr guard_Inr new_row_def NewVersion_def)

text \<open>What a publication that is not skipped means for the versions.\<close>

definition installs :: "store_cfg \<Rightarrow> PublishObj \<Rightarrow> PublishResultObj \<Rightarrow> storeObj \<Rightarrow> storeObj \<Rightarrow> bool" where
  "installs cfg p res st1 st' \<longleftrightarrow>
     (let k = (p_Key p, p_Version p); kh = (p_Key p, r_Historical res);
          old = map_of (db_versions (st_db st1)); new = map_of (db_versions (st_db st'))
      in (\<exists>now seq. new k = Some (stored_row (new_row now p (r_TreeHash res) seq))) \<and>
         (case old k of
            None \<Rightarrow> (\<forall>k'. k' \<noteq> k \<longrightarrow> new k' = old k')
          | Some v \<Rightarrow> v_TreeHash v \<noteq> r_TreeHash res \<and>
              (if cf_Mutation cfg = MutationHistory
               then old kh = None \<and> new kh = Some (stored_row (historical_copy v (r_Historical res))) \<and>
                 (\<forall>k'. k' \<noteq> k \<and> k' \<noteq> kh \<longrightarrow> new k' = old k')
               else (\<forall>k'. k' \<noteq> k \<longrightarrow> new k' = old k'))))"

lemma outcome_installs:
  assumes out: "outcome cfg p' h st1 res st'" and ns: "\<not> r_Skipped res" and c: "keyed (db_versions (st_db st1))"
    and p: "p_Key p' = p_Key p" "p_Version p' = p_Version p" "\<And>now seq. new_row now p' h seq = new_row now p h seq"
  shows "installs cfg p res st1 st' \<and> r_TreeHash res = h"
proof -
  let ?k = "(p_Key p, p_Version p)" and ?old = "map_of (db_versions (st_db st1))"
  obtain now seq hist where r: "res = (publish_result p' h)\<lparr>r_Historical := hist, r_Published := True\<rparr>"
    and new: "map_of (db_versions (st_db st')) = (archived cfg (?old ?k) hist ?old)(?k \<mapsto> stored_row (new_row now p h seq))"
    and o: "\<And>v. ?old ?k = Some v \<Longrightarrow> v_TreeHash v \<noteq> h \<and> (cf_Mutation cfg = MutationHistory \<longrightarrow> ?old (v_Key v, hist) = None)"
    using out ns unfolding outcome_def Let_def p by (simp only: if_False) blast
  have res: "r_TreeHash res = h" "r_Historical res = hist" by (simp_all add: r publish_result_def)
  have key: "v_Key v = p_Key p" if "?old ?k = Some v" for v
    using c map_of_SomeD [OF that] by (auto simp: keyed_def vkey_of_def)
  show ?thesis
  proof (cases "?old ?k")
    case None
    then show ?thesis unfolding installs_def Let_def new by (auto simp: res archived_def)
  next
    case (Some v)
    then show ?thesis using o [OF Some] key [OF Some] unfolding installs_def Let_def new
      by (auto simp: res archived_def)
  qed
qed

lemma evicted_keyed: "evicted E cfg st st1 \<Longrightarrow> keyed (db_versions (st_db st)) \<Longrightarrow> keyed (db_versions (st_db st1))"
  unfolding evicted_def keyed_def by (auto intro: distinct_filter_fst)

text \<open>
  C3: a publication that succeeds is complete. Its tree is the canonical tree of the request; the
  row of the version carries the tree and the metadata of the request; if the version existed with
  another tree and the policy keeps history, the old tree stays published under the reported historical
  name, which was free; and every other version is as the quota left it.
\<close>

theorem publish_installs_new_version:
  assumes "inj_on (sv_H E) U" and "consistent E U (st_db st) (st_pb st)" and "request_in E U cfg p"
    and "Publish E cfg p st = (Inr res, st')" and "\<not> r_Skipped res"
  shows "request_tree E cfg p = Some (r_TreeHash res) \<and> consistent E U (st_db st') (st_pb st') \<and>
    (\<exists>st1. evicted E cfg st st1 \<and> installs cfg p res st1 st')"
proof -
  from publishes_consistent [OF Publish_ok [OF assms(1,3)] assms(4,2)]
  obtain h p' st1 where c: "consistent E U (st_db st') (st_pb st')" "request_tree E cfg p = Some h"
      "validatePublishMetadata E cfg p = Inr p'" and ev: "evicted E cfg st st1" and out: "outcome cfg p' h st1 res st'"
    by (auto simp: publish_result_ok_def)
  note v = validatePublishMetadata_Inr [OF c(3)]
  have "installs cfg p res st1 st' \<and> r_TreeHash res = h"
    by (rule outcome_installs [OF out assms(5) evicted_keyed [OF ev consistent_keyed [OF assms(2)]] v])
  then show ?thesis using c ev by blast
qed

theorem publish_installs_new_version_witness:
  "\<exists>st1. evicted toy_env toy_cfg toy_store1 st1 \<and> installs toy_cfg (toy_request ''y'') (toy_result ''y'' ''v0.0.0-old1'') st1 toy_store2"
  using publish_installs_new_version [OF toy_inj toy_consistent(1) toy_requests(2) toy_publish2]
  by (simp add: toy_result_def)

text \<open>
  C4: a publication that fails, at whatever call, changes no version and leaves no half-written
  state: the versions are those before the call less what the quota evicted, the first retained
  versions of each key are still there, and the store is consistent, so no count and no object of
  the failed attempt stays behind in the index.
\<close>

theorem failed_publish_keeps_versions:
  assumes "inj_on (sv_H E) U" and "consistent E U (st_db st) (st_pb st)" and "request_in E U cfg p"
    and "Publish E cfg p st = (Inl e, st')"
  shows "consistent E U (st_db st') (st_pb st') \<and>
    (\<exists>S. retained (cf_RetainLatestPerKey cfg) (db_versions (st_db st)) \<subseteq> S \<and>
       db_versions (st_db st') = filter (\<lambda>r. fst r \<in> S) (db_versions (st_db st)))"
  using publishes_consistent [OF Publish_ok [OF assms(1,3)] assms(4,2)]
  by (simp add: publish_result_ok_def evicted_def)

theorem failed_publish_keeps_versions_witness:
  "consistent (toy_failing 18) toy_U (st_db (snd (Publish (toy_failing 18) toy_cfg (toy_request ''x'') empty_store)))
     (st_pb (snd (Publish (toy_failing 18) toy_cfg (toy_request ''x'') empty_store)))"
proof -
  have "fst (Publish (toy_failing 18) toy_cfg (toy_request ''x'') empty_store) = Inl ErrCall" by code_simp
  then have "Publish (toy_failing 18) toy_cfg (toy_request ''x'') empty_store =
      (Inl ErrCall, snd (Publish (toy_failing 18) toy_cfg (toy_request ''x'') empty_store))"
    by (metis prod.collapse)
  from failed_publish_keeps_versions [OF toy_failing_covered(1) empty_consistent toy_failing_covered(2) this]
  show ?thesis by blast
qed

section \<open>The quota\<close>

text \<open>
  C5: eviction takes only what it may: whatever the check of the durable budget evicts, and wherever it
  fails, the first \<open>retain_latest_per_key\<close> versions of every key (in the order of the listing) stay,
  no version is changed, no object of the protected set (the tree that is about to be published and
  its blobs) is deleted, and the store is consistent.
\<close>

theorem eviction_spares_retained_and_protected:
  assumes "consistent E U (st_db st) (st_pb st)"
    and "ensureDurableBudgetProtectedLocked E cfg incoming prot st = (r, st')"
  shows "consistent E U (st_db st') (st_pb st') \<and>
    (\<exists>S. retained (cf_RetainLatestPerKey cfg) (db_versions (st_db st)) \<subseteq> S \<and>
       db_versions (st_db st') = filter (\<lambda>r. fst r \<in> S) (db_versions (st_db st))) \<and>
    (\<forall>k. k \<notin> treeKey ` set (pr_trees prot) \<union> blobKey ` set (pr_blobs prot) \<or>
       map_of (st_pb st') k = map_of (st_pb st) k)"
  using ensureDurableBudget_result [OF assms(2,1)] unfolding evicting_def protected_keys_def by blast

definition toy_evicted :: storeObj where
  "toy_evicted = snd (ensureDurableBudgetProtectedLocked toy_env tight_cfg 2 (protectTreeObjects (toy_tree ''y'') []) toy_store2)"

lemma toy_eviction:
  "ensureDurableBudgetProtectedLocked toy_env tight_cfg 2 (protectTreeObjects (toy_tree ''y'') []) toy_store2
     = (Inr (Some ()), toy_evicted)"
proof -
  have "fst (ensureDurableBudgetProtectedLocked toy_env tight_cfg 2 (protectTreeObjects (toy_tree ''y'') []) toy_store2)
      = Inr (Some ())" by code_simp
  then show ?thesis unfolding toy_evicted_def by (metis prod.collapse)
qed

theorem eviction_spares_retained_and_protected_witness:
  "map_of (st_pb toy_evicted) (treeKey (toy_tree ''y'')) = map_of (st_pb toy_store2) (treeKey (toy_tree ''y''))"
  using eviction_spares_retained_and_protected [OF toy_consistent(2) toy_eviction]
  by (auto simp: protectTreeObjects_def)

text \<open>
  C10: admission respects the budget: when the check lets a publication of \<open>incoming\<close> bytes pass, the
  live bytes that remain after the eviction and the incoming bytes together are below
  \<open>max_total_size\<close>, as exact sums, without wrap-around.
\<close>

theorem budget_holds_after_admission:
  assumes "consistent E U (st_db st) (st_pb st)"
    and "ensureDurableBudgetProtectedLocked E cfg incoming prot st = (Inr x, st')"
    and "cf_MaxTotalSize cfg \<noteq> 0"
  shows "live_bytes (st_db st') + unat incoming < unat (cf_MaxTotalSize cfg)"
  using ensureDurableBudget_result [OF assms(2,1)] assms(3) by blast

theorem budget_holds_after_admission_witness: "live_bytes (st_db toy_evicted) + 2 < 4"
  using budget_holds_after_admission [OF toy_consistent(2) toy_eviction] by (simp add: tight_cfg_def)

text \<open>
  C11: the eviction ends. Both its loops, over the keys and over the versions, page through tables
  that they delete from; within \<open>evict_fuel\<close> pages they return, with success or with an error: the
  outcome that stands for a loop still running does not occur.
\<close>

theorem eviction_terminates:
  assumes "consistent E U (st_db st) (st_pb st)"
  shows "fst (ensureDurableBudgetProtectedLocked E cfg incoming prot st) \<noteq> Inr None"
  using ensureDurableBudget_result [OF prod.collapse [symmetric] assms] by blast

theorem eviction_terminates_witness:
  "fst (ensureDurableBudgetProtectedLocked toy_env tight_cfg 2 (protectTreeObjects (toy_tree ''y'') []) toy_store2) \<noteq> Inr None"
  by (rule eviction_terminates [OF toy_consistent(2)])

section \<open>Garbage collection and repair\<close>

lemma walk_fuel_bound: "table_bound (st_db st) < walk_fuel st"
  by (simp add: table_bound_def walk_fuel_def)

text \<open>
  The walk that collects what is reachable is complete and ends: paging through the tree
  digests with the cursor of the last row, it returns within \<open>walk_fuel\<close> pages, and then it has
  seen the digest of the tree of every version and nothing else; in the same way the walk over the
  counted blobs.
\<close>

lemma reachable_walk_complete:
  assumes "keys_ok (st_db st)"
  shows "(case collectHashSetPaged (walk_fuel st) E (TreeHashesPage E) st of
      (Inl e, st') \<Rightarrow> same st st'
    | (Inr seen, st') \<Rightarrow> same st st' \<and> seen = Some (v_TreeHash ` snd ` set (db_versions (st_db st)))) \<and>
    (case collectHashSetPaged (walk_fuel st) E (BlobRefHashesPage E) st of
      (Inl e, st') \<Rightarrow> same st st'
    | (Inr seen, st') \<Rightarrow> same st st' \<and> seen = Some {h. blob_referenced (st_db st) h})"
proof -
  have rows: "v_TreeHash ` set (db_rows (st_db st)) = v_TreeHash ` snd ` set (db_versions (st_db st))"
    by (simp add: db_rows_def)
  have live: "fst ` set (live_refs (st_db st)) = {h. blob_referenced (st_db st) h}"
  proof (intro set_eqI iffI)
    fix h assume "h \<in> fst ` set (live_refs (st_db st))"
    then obtain b where b: "(h, b) \<in> set (db_blob_refs (st_db st))" "br_Refcount b > 0" by (auto simp: live_refs_def)
    have "map_of (db_blob_refs (st_db st)) h = Some b" by (rule map_of_is_SomeI [OF keysD(4) [OF assms] b(1)])
    then show "h \<in> {h. blob_referenced (st_db st) h}" using b(2) by (simp add: blob_referenced_def)
  next
    fix h assume "h \<in> {h. blob_referenced (st_db st) h}"
    then obtain b where "map_of (db_blob_refs (st_db st)) h = Some b" "br_Refcount b > 0"
      by (auto simp: blob_referenced_def split: option.splits)
    then show "h \<in> fst ` set (live_refs (st_db st))" by (force simp: live_refs_def dest: map_of_SomeD)
  qed
  have walk: "case collectHashSetPaged (walk_fuel st) E (pageFunc E) st of
      (Inl e, st') \<Rightarrow> same st st' | (Inr seen, st') \<Rightarrow> same st st' \<and> seen = Some (rows (st_db st))"
    if k: "keyset_table pageFunc rows id id table_bound" for pageFunc rows
  proof -
    obtain r st' where t: "collectHashSetPaged (walk_fuel st) E (pageFunc E) st = (r, st')" by fastforce
    have rd: "reads (collectHashSetPaged (walk_fuel st) E (pageFunc E))"
      unfolding collectHashSetPaged_def by (intro frame keyset_table.reads_page [OF k])
    show ?thesis
    proof (cases r)
      case (Inl e)
      then show ?thesis using t readsD [OF rd t] by simp
    next
      case (Inr seen)
      from t [unfolded Inr collectHashSetPaged_def] obtain acc where "seen = Some acc" "acc = rows (st_db st)" "same st st'"
      proof (rule keyset_table.full_walk [OF k, where I = "(=)"])
        show "keys_ok (st_db st)" by (rule assms)
        show "table_bound (st_db st) < walk_fuel st" by (rule walk_fuel_bound)
      qed (auto simp: sret_def cReachablePageSize_def frame)
      then show ?thesis using t Inr by simp
    qed
  qed
  from walk [OF tree_hashes.keyset_table_axioms] walk [OF blob_hashes.keyset_table_axioms]
  show ?thesis unfolding rows live by blast
qed

lemma reachable_walk_complete_witness:
  "keys_ok (st_db toy_store2) \<and>
   (case collectHashSetPaged (walk_fuel toy_store2) toy_env (TreeHashesPage toy_env) toy_store2 of
      (Inl e, st') \<Rightarrow> same toy_store2 st'
    | (Inr seen, st') \<Rightarrow> same toy_store2 st' \<and> seen = Some {toy_tree ''x'', toy_tree ''y''})"
proof -
  have k: "keys_ok (st_db toy_store2)" by (rule midD(1) [OF toy_consistent(2) [unfolded consistent_def]])
  have t: "v_TreeHash ` snd ` set (db_versions (st_db toy_store2)) = {toy_tree ''x'', toy_tree ''y''}"
    by (simp add: toy_store2_def toy_row_def)
  show ?thesis using conjI [OF k conjunct1 [OF reachable_walk_complete [OF k, of toy_env]]] unfolding t .
qed

text \<open>
  C8: garbage collection is safe, even when it stops in the middle: it does not touch a table, and
  every object that it deletes is the tree of no version and a blob with count zero; so every
  version stays readable (the store stays consistent).
\<close>

theorem garbage_collection_safe:
  assumes "consistent E U (st_db st) (st_pb st)" and "CollectGarbage E st = (r, st')"
  shows "st_db st' = st_db st \<and> consistent E U (st_db st') (st_pb st') \<and>
    (\<exists>D. (\<forall>k. map_of (st_pb st') k = (if k \<in> D then None else map_of (st_pb st) k)) \<and>
       (\<forall>h. (treeKey h \<in> D \<longrightarrow> \<not> tree_referenced (st_db st) h) \<and> (blobKey h \<in> D \<longrightarrow> \<not> blob_referenced (st_db st) h)))"
proof -
  obtain D where a: "st_db st' = st_db st" "consistent E U (st_db st') (st_pb st')"
    and D: "\<forall>k. map_of (st_pb st') k = (if k \<in> D then None else map_of (st_pb st) k)" "\<forall>k \<in> D. deletable (st_db st) k"
    using CollectGarbage_collected [OF assms(2,1)] unfolding collected_def drop_keys_def by blast
  have "\<forall>h. (treeKey h \<in> D \<longrightarrow> \<not> tree_referenced (st_db st) h) \<and> (blobKey h \<in> D \<longrightarrow> \<not> blob_referenced (st_db st) h)"
    using D(2) by (simp add: deletable_def)
  with a D(1) show ?thesis by blast
qed

theorem garbage_collection_safe_witness:
  "consistent toy_env toy_U (st_db toy_store1) (toy_objects ''x'')"
proof -
  have "st_pb (snd (CollectGarbage toy_env toy_garbage)) = toy_objects ''x''" by code_simp
  moreover have "st_db toy_garbage = st_db toy_store1" by (simp add: toy_garbage_def)
  ultimately show ?thesis
    using garbage_collection_safe [OF toy_garbage_consistent prod.collapse [symmetric]] by metis
qed

text \<open>
  C9: the repair restores the counts whatever they are: from a store whose versions, trees and blobs
  are sound, with any reference counts at all (wrong, missing, superfluous), a repair that succeeds
  ends in a consistent store with the same versions; one that fails has either changed nothing or has
  already made the store consistent.
\<close>

theorem repair_restores_counts:
  assumes "sound_rows E U (st_db st) (st_pb st)" and "RepairBlobRefs E st = (r, st')"
  shows "(case r of Inr _ \<Rightarrow> consistent E U (st_db st') (st_pb st')
     | Inl _ \<Rightarrow> same st st' \<or> consistent E U (st_db st') (st_pb st')) \<and>
     db_versions (st_db st') = db_versions (st_db st)"
  using RepairBlobRefs_result [OF assms(2,1)] by (auto simp: same_def split: sum.splits)

theorem repair_restores_counts_witness:
  "consistent toy_env toy_U (st_db (snd (RepairBlobRefs toy_env toy_uncounted))) (st_pb (snd (RepairBlobRefs toy_env toy_uncounted)))"
proof -
  have "is_ok (fst (RepairBlobRefs toy_env toy_uncounted))" by code_simp
  moreover obtain r st' where t: "RepairBlobRefs toy_env toy_uncounted = (r, st')" by fastforce
  ultimately show ?thesis
    using repair_restores_counts [OF toy_uncounted_sound t] by (auto simp: is_ok_def split: sum.splits)
qed

section \<open>Reading back\<close>

lemma normalize_entry_entry:
  assumes "normalize_entry H lim acc e = Inr acc1"
  shows "\<exists>te. no_tree acc1 = no_tree acc @ [te] \<and> CleanArchiveEntryPath (ie_Path e) = Inr (te_Path te) \<and>
    (\<forall>c. ie_Content e = Some c \<longrightarrow> te_BlobHash te = H c \<and> te_SizeBytes te = of_nat (length c))"
proof -
  obtain path mode where p: "sto_validateEntryPath (ie_Path e) (la_PathBytes lim) = Inr path"
    using assms unfolding normalize_entry_def by (auto simp: andthen_Inr)
  let ?n = "case ie_Content e of Some c \<Rightarrow> of_nat (length c) | None \<Rightarrow> ie_SizeBytes e"
  obtain t ov where "saturatingAdd (no_total acc) ?n = (t, ov)" by fastforce
  then obtain mode where "no_tree acc1 = no_tree acc @ [\<lparr>te_Path = path, te_Mode = mode, te_SizeBytes = ?n,
      te_BlobHash = (case ie_Content e of Some c \<Rightarrow> H c | None \<Rightarrow> ie_BlobHash e)\<rparr>]"
    using assms p unfolding normalize_entry_def by (auto simp: andthen_Inr guard_Inr Let_def)
  moreover have "CleanArchiveEntryPath (ie_Path e) = Inr path"
    using p unfolding sto_validateEntryPath_def by (auto simp: andthen_Inr map_err_Inr)
  ultimately show ?thesis by auto
qed

lemma normalize_from_entry:
  "normalize_from H lim acc es = Inr acc' \<Longrightarrow> set (no_tree acc) \<subseteq> set (no_tree acc') \<and>
   (\<forall>e \<in> set es. \<exists>te \<in> set (no_tree acc'). CleanArchiveEntryPath (ie_Path e) = Inr (te_Path te) \<and>
     (\<forall>c. ie_Content e = Some c \<longrightarrow> te_BlobHash te = H c \<and> te_SizeBytes te = of_nat (length c)))"
proof (induction es arbitrary: acc)
  case (Cons e es)
  then obtain acc1 where n: "normalize_entry H lim acc e = Inr acc1" "normalize_from H lim acc1 es = Inr acc'"
    by (auto simp: andthen_Inr)
  obtain te where te: "no_tree acc1 = no_tree acc @ [te]" "CleanArchiveEntryPath (ie_Path e) = Inr (te_Path te)"
    "\<forall>c. ie_Content e = Some c \<longrightarrow> te_BlobHash te = H c \<and> te_SizeBytes te = of_nat (length c)"
    using normalize_entry_entry [OF n(1)] by blast
  have sub: "set (no_tree acc) \<subseteq> set (no_tree acc')" "te \<in> set (no_tree acc')"
    using Cons.IH [OF n(2)] unfolding te(1) by auto
  then show ?case using Cons.IH [OF n(2)] te(2,3) by (auto intro: bexI [OF _ sub(2)])
qed simp

text \<open>The tree of a request, as it is found in a consistent store under its digest.\<close>

lemma stored_request_tree:
  assumes i: "inj_on (sv_H E) U" and c: "consistent E U db pb" and req: "request_in E U cfg p"
    and h: "request_tree E cfg p = Some h" and k: "map_of (db_versions db) k = Some v" "v_TreeHash v = h"
    and e: "e \<in> set (p_Entries p)" "ie_Content e = Some content"
  shows "\<exists>d es te. map_of pb (treeKey h) = Some d \<and> Decode d = Inr es \<and> te \<in> set es \<and>
    CleanArchiveEntryPath (ie_Path e) = Inr (te_Path te) \<and> map_of pb (blobKey (te_BlobHash te)) = Some content"
proof -
  obtain es0 cont d where n: "normalizeInputEntries (sv_H E) (entry_limits cfg) (p_Entries p) = Inr (es0, cont)"
    and enc: "Encode (sv_H E) es0 = Inr (d, h)"
    using h unfolding request_tree_def by (auto split: sum.splits prod.splits)
  have dU: "d \<in> U" and cU: "content \<in> U"
    using req n enc e by (auto simp: request_in_def)
  obtain es where tr: "tree_ready E pb h es" using consistent_row [OF c k(1)] k(2) by metis
  then obtain d' where d': "map_of pb (treeKey h) = Some d'" "sv_H E d' = h" "Decode d' = Inr es"
    unfolding tree_ready_def tree_of_Some by blast
  have ran: "ran (map_of pb) \<subseteq> U" by (rule midD(7) [OF c [unfolded consistent_def]])
  have "sv_H E d = h" using enc by (simp add: Encode_iff)
  then have "d' = d" using inj_onD [OF i, of d' d] d' dU ran by (auto simp: ran_def)
  then have es: "es = sort_key te_Path es0" using d'(3) enc by (simp add: Encode_iff Decode_iff [symmetric])
  obtain acc where "normalize_from (sv_H E) (entry_limits cfg) \<lparr>no_tree = [], no_content = [], no_sizes = [], no_total = 0\<rparr>
      (p_Entries p) = Inr acc" "es0 = no_tree acc"
    using n unfolding normalizeInputEntries_def count_guard_def by (auto simp: andthen_Inr guard_Inr)
  with normalize_from_entry e obtain te where te: "te \<in> set es0" "CleanArchiveEntryPath (ie_Path e) = Inr (te_Path te)"
    "te_BlobHash te = sv_H E content" by blast
  have "te \<in> set es" using te(1) es by simp
  then obtain c' where c': "map_of pb (blobKey (te_BlobHash te)) = Some c'" "sv_H E c' = te_BlobHash te"
    using tr unfolding tree_ready_def blob_ok_def by blast
  have "c' = content" using inj_onD [OF i, of c' content] c' te(3) cU ran by (auto simp: ran_def)
  then show ?thesis using d' \<open>te \<in> set es\<close> te(2) c'(1) by blast
qed

text \<open>
  C6: what is published can be read back: after a publication that reports success, also one that was
  skipped because the version already had this tree, the row of the version names the tree of the
  result, that tree is stored and decodes, it has an entry with the cleaned path of every entry
  of the request, and under the digest of that entry lies, byte for byte, the content of the request.
\<close>

theorem publish_then_read:
  assumes "inj_on (sv_H E) U" and "consistent E U (st_db st) (st_pb st)" and "request_in E U cfg p"
    and "Publish E cfg p st = (Inr res, st')" and "e \<in> set (p_Entries p)" and "ie_Content e = Some content"
  shows "\<exists>v d es te. map_of (db_versions (st_db st')) (p_Key p, p_Version p) = Some v \<and>
    v_TreeHash v = r_TreeHash res \<and> map_of (st_pb st') (treeKey (r_TreeHash res)) = Some d \<and> Decode d = Inr es \<and>
    te \<in> set es \<and> CleanArchiveEntryPath (ie_Path e) = Inr (te_Path te) \<and>
    map_of (st_pb st') (blobKey (te_BlobHash te)) = Some content"
proof -
  from publishes_consistent [OF Publish_ok [OF assms(1,3)] assms(4,2)]
  obtain h p' st1 where c: "consistent E U (st_db st') (st_pb st')" "request_tree E cfg p = Some h"
      "validatePublishMetadata E cfg p = Inr p'" and out: "outcome cfg p' h st1 res st'"
    by (auto simp: publish_result_ok_def)
  note v = validatePublishMetadata_Inr [OF c(3)]
  obtain row where a: "map_of (db_versions (st_db st')) (p_Key p, p_Version p) = Some row" "v_TreeHash row = h"
    and r: "r_TreeHash res = h"
    using out unfolding outcome_def Let_def v
    by (cases "r_Skipped res") (auto simp: publish_result_def new_row_def NewVersion_def)
  show ?thesis unfolding r
    using stored_request_tree [OF assms(1) c(1) assms(3) c(2) a assms(5,6)] a by blast
qed

theorem publish_then_read_witness:
  "\<exists>d es te. map_of (st_pb toy_store1) (treeKey (toy_tree ''x'')) = Some d \<and> Decode d = Inr es \<and> te \<in> set es \<and>
     map_of (st_pb toy_store1) (blobKey (te_BlobHash te)) = Some ''x''"
proof -
  let ?e = "\<lparr>ie_Path = ''a'', ie_Mode = [], ie_Content = Some ''x'', ie_BlobHash = zero_hash, ie_SizeBytes = 0\<rparr>"
  have "?e \<in> set (p_Entries (toy_request ''x''))" "ie_Content ?e = Some ''x''" by (simp_all add: toy_request_def)
  from publish_then_read [OF toy_inj empty_consistent toy_requests(1) toy_publish1 this]
  show ?thesis by (auto simp: toy_result_def)
qed

text \<open>
  C7: a publication from spool files is as safe as an inline one, whatever happens to the files:
  a path may name another file or other bytes at every access. In every case the store is
  consistent; an error leaves the versions as the quota left them; a success has stored the
  canonical tree of the request, with contents that hash to the digests of the request.
\<close>

theorem staged_publish_safe:
  assumes "inj_on (sv_H E) U" and "consistent E U (st_db st) (st_pb st)" and "staged_in E U cfg s"
    and "PublishStaged E cfg s st = (r, st')"
  shows "consistent E U (st_db st') (st_pb st') \<and>
    (case r of Inl _ \<Rightarrow> evicted E cfg st st'
     | Inr res \<Rightarrow> staged_tree E cfg s = Some (r_TreeHash res) \<and>
         (r_Skipped res \<or> (\<exists>st1. evicted E cfg st st1 \<and> installs cfg (sp_Publish s) res st1 st')))"
proof (cases r)
  case (Inl e)
  then show ?thesis using publishes_consistent [OF PublishStaged_ok [OF assms(1,3)] assms(4,2)]
    by (simp add: publish_result_ok_def)
next
  case (Inr res)
  from publishes_consistent [OF PublishStaged_ok [OF assms(1,3)] assms(4,2)]
  obtain h p' st1 where c: "consistent E U (st_db st') (st_pb st')" "staged_tree E cfg s = Some h"
      "validatePublishMetadata E cfg (sp_Publish s) = Inr p'" and ev: "evicted E cfg st st1" and out: "outcome cfg p' h st1 res st'"
    unfolding Inr publish_result_ok_def by auto
  note v = validatePublishMetadata_Inr [OF c(3)]
  have "r_TreeHash res = h" using out unfolding outcome_def Let_def by (cases "r_Skipped res") (auto simp: publish_result_def)
  moreover have "installs cfg (sp_Publish s) res st1 st'" if "\<not> r_Skipped res"
    using outcome_installs [OF out that evicted_keyed [OF ev consistent_keyed [OF assms(2)]] v] by blast
  ultimately show ?thesis using c ev Inr by auto
qed

theorem staged_publish_safe_witness:
  "staged_tree toy_env toy_cfg toy_staged = Some (toy_tree ''x'')"
  using staged_publish_safe [OF toy_inj empty_consistent toy_staged_in toy_publish_staged]
  by (simp add: toy_result_def)

section \<open>The historical name\<close>

lemma NextHistoricalVersion_name:
  assumes "NextHistoricalVersion E pfx st = (Inr hv, st')"
    and "map_of (db_globals (st_db st)) (historyCounterName pfx) = Some t" "Atoi t = Some n"
  shows "hv = ''v0.0.0-'' @ pfx @ Itoa n"
proof -
  obtain u s1 m s2 where q: "query E (\<lambda>db. map_of (db_globals db) (historyCounterName pfx)) st = (Inr u, s1)"
    and m: "(case u of None \<Rightarrow> sbind (maxHistoricalVersion E (''v0.0.0-'' @ pfx)) (\<lambda>m. sret (wrap64 (m + 1)))
        | Some t \<Rightarrow> (case Atoi t of None \<Rightarrow> sfail ErrHistoryCounter
           | Some n \<Rightarrow> if n < 1 then sfail ErrHistoryCounter else sret n)) s1 = (Inr m, s2)"
    and r: "hv = (''v0.0.0-'' @ pfx) @ Itoa m"
    using assms(1) unfolding NextHistoricalVersion_def Let_def op_Inr by blast
  have "u = Some t" using query_Inr [OF q] assms(2) by simp
  then have "m = n" using m assms(3) by (auto simp: sfail_def sret_def split: if_splits)
  then show ?thesis using r by simp
qed

lemma commitPublish_historical:
  assumes t: "commitPublish E cfg p es h pend st = (Inr res, st')"
    and c: "consistent E U (st_db st) (st_pb st)"
    and m: "cf_Mutation cfg = MutationHistory"
    and v: "map_of (db_versions (st_db st)) (p_Key p, p_Version p) = Some v" "v_TreeHash v \<noteq> h"
    and n: "map_of (db_globals (st_db st)) (historyCounterName (cf_HistoryPrefix cfg)) = Some t'" "Atoi t' = Some n"
  shows "map_of (db_versions (st_db st)) (p_Key p, ''v0.0.0-'' @ cf_HistoryPrefix cfg @ Itoa n) = None"
proof -
  have orc: "or_cleanup E pend m s = (Inr x, s') \<Longrightarrow> m s = (Inr x, s')" for m :: "'b sto" and s x s'
    by (auto simp: or_cleanup_def cleanupPublishFailure_def split: prod.splits sum.splits)
  from t obtain ex s1 where g0: "or_cleanup E pend (GetVersion E (p_Key p) (p_Version p)) st = (Inr ex, s1)"
    and r: "(case ex of
       Some existingObj \<Rightarrow>
         if v_TreeHash existingObj = h then sret ((publish_result p h)\<lparr>r_Skipped := True\<rparr>)
         else
           sbind (or_cleanup E pend (readTreeInternal E (v_TreeHash existingObj))) (\<lambda>oldEs.
           sbind (or_cleanup E pend (WithTx E (publishTx E cfg p es h ex oldEs))) (\<lambda>resultObj.
           sbind (if cf_Mutation cfg = MutationOverwrite
                  then logged (cleanupDeletedObjectsLocked E (v_TreeHash existingObj) oldEs)
                  else sret ()) (\<lambda>_.
           sret resultObj)))
     | None \<Rightarrow> or_cleanup E pend (WithTx E (publishTx E cfg p es h None []))) s1 = (Inr res, st')"
    unfolding commitPublish_def by (cases rule: sbindE) auto
  note g = orc [OF g0]
  note g' = GetVersion_Inr [OF g]
  have ex: "ex = Some v" using g' v(1) by simp
  from r v(2) obtain oldEs s2 x s3 where rt: "readTreeInternal E (v_TreeHash v) s1 = (Inr oldEs, s2)"
    and w: "WithTx E (publishTx E cfg p es h (Some v) oldEs) s2 = (Inr x, s3)"
    unfolding ex by (auto simp: op_Inr dest!: orc)
  have sm2: "same st s2" using g' readsD [OF reads_readTreeInternal rt] same_trans by blast
  obtain s4 s5 where s: "same s2 s4" "publishTx E cfg p es h (Some v) oldEs s4 = (Inr x, s5)"
    using w by (rule WithTx_Inr)
  have sm: "same st s4" by (rule same_trans [OF sm2 s(1)])
  obtain hist s6 where rp: "replace_existing E cfg p v oldEs s4 = (Inr hist, s6)"
    using s(2) v(2) unfolding publishTx_def by (auto simp: op_Inr)
  obtain s7 where nh: "NextHistoricalVersion E (cf_HistoryPrefix cfg) s4 = (Inr hist, s7)"
    using rp m unfolding replace_existing_def by (auto simp: op_Inr)
  have db: "st_db s4 = st_db st" "st_pb s4 = st_pb st" using sm by (simp_all add: same_def)
  have hist: "hist = ''v0.0.0-'' @ cf_HistoryPrefix cfg @ Itoa n"
    by (rule NextHistoricalVersion_name [OF nh]) (use n db in simp_all)
  have c4: "consistent E U (st_db s4) (st_pb s4)" and v4: "map_of (db_versions (st_db s4)) (p_Key p, p_Version p) = Some v"
    using c v(1) db by simp_all
  have vk: "vkey_of v = (p_Key p, p_Version p)" by (rule row_vkey [OF midD(1) [OF c [unfolded consistent_def]] v(1)])
  have tr: "tree_of E (st_pb s4) (v_TreeHash v) = Some oldEs"
    using readTree_tree_of [OF rt] g' db by (simp add: same_def)
  have "map_of (db_versions (st_db s4)) (v_Key v, hist) = None" by (rule replace_existing_Inr(4) [OF rp c4 vk v4 tr m])
  then show ?thesis using vk db hist by (simp add: vkey_of_def)
qed

text \<open>
  C12: the name of the historical copy comes from a counter of the index and is not checked
  against the versions of the key. If upstream has published a version with exactly that name (a tag
  \<open>v0.0.0-<prefix><n>\<close>, which the validation accepts), the commit of a changed version fails, and the
  roll back leaves the tables with the counter as they were, so every later attempt fails in the same
  way.
\<close>

theorem historical_name_taken_blocks_publication:
  assumes "consistent E U (st_db st) (st_pb st)" and "ready_row E (st_pb st) es h"
    and "cf_Mutation cfg = MutationHistory"
    and "map_of (db_versions (st_db st)) (p_Key p, p_Version p) = Some v" and "v_TreeHash v \<noteq> h"
    and "map_of (db_globals (st_db st)) (historyCounterName (cf_HistoryPrefix cfg)) = Some t" and "Atoi t = Some n"
    and "map_of (db_versions (st_db st)) (p_Key p, ''v0.0.0-'' @ cf_HistoryPrefix cfg @ Itoa n) = Some v'"
    and "commitPublish E cfg p es h pend st = (r, st')"
  shows "\<not> is_ok r \<and> st_db st' = st_db st"
proof (cases r)
  case (Inl e)
  then show ?thesis using commitPublish_result [OF assms(9,1,2)] by (simp add: rolled_back_def)
next
  case (Inr res)
  then show ?thesis using commitPublish_historical [OF assms(9) [unfolded Inr] assms(1,3-7)] assms(8) by simp
qed

theorem historical_name_taken_blocks_publication_witness:
  "\<exists>es. ready_row toy_env (st_pb toy_store3) es (toy_tree ''x'') \<and>
     \<not> is_ok (fst (commitPublish toy_env toy_cfg (toy_request ''x'') es (toy_tree ''x'') \<lparr>po_SizeBytes = 0, po_ObjectArr = []\<rparr> toy_store3))"
proof -
  let ?db = "st_db toy_store3"
  have rows: "map_of (db_versions ?db) (p_Key (toy_request ''x''), p_Version (toy_request ''x'')) = Some (toy_row ''v1'' ''y'' 1 [])"
    "map_of (db_versions ?db) (''app'', ''v0.0.0-old1'') = Some (toy_row ''v0.0.0-old1'' ''x'' 0 ''v1'')"
    "map_of (db_globals ?db) (historyCounterName (cf_HistoryPrefix toy_cfg)) = Some ''2''"
    "map_of (db_versions ?db) (p_Key (toy_request ''x''), ''v0.0.0-'' @ cf_HistoryPrefix toy_cfg @ Itoa 2) =
       Some (toy_row ''v0.0.0-old2'' ''x'' 2 [])"
    by code_simp+
  have ne: "v_TreeHash (toy_row ''v1'' ''y'' 1 []) \<noteq> toy_tree ''x''" "Atoi ''2'' = Some 2" "cf_Mutation toy_cfg = MutationHistory"
    by code_simp+
  obtain es where "tree_ready toy_env (st_pb toy_store3) (v_TreeHash (toy_row ''v0.0.0-old1'' ''x'' 0 ''v1'')) es"
    by (rule consistent_row [OF toy_store3_consistent rows(2)])
  then have r: "ready_row toy_env (st_pb toy_store3) es (toy_tree ''x'')"
    unfolding ready_row_def by (auto simp: toy_row_def)
  from historical_name_taken_blocks_publication [OF toy_store3_consistent r ne(3) rows(1) ne(1) rows(3) ne(2) rows(4) prod.collapse [symmetric]] r
  show ?thesis by blast
qed

end
