(* ===== verification/Store_Read.thy ===== *)
theory Store_Read
  imports Store_Steps
begin

text \<open>
  The reading operations of the storage (\<open>storage/version.go\<close>): the open check, the validation of
  the key and the version, and one statement of the index. None of them changes the store.
\<close>

definition valid_key :: "store_env \<Rightarrow> string \<Rightarrow> unit sto" where
  "valid_key E key = sbind (io E) (\<lambda>_. slift (validateKey key))"

definition sto_GetDetection :: "store_env \<Rightarrow> string \<Rightarrow> string \<Rightarrow> DetectionObj option sto" where
  "sto_GetDetection E key version = sbind (valid_ref E key version) (\<lambda>_. GetDetection E key version)"

definition sto_RewriteSet :: "store_env \<Rightarrow> string \<Rightarrow> string \<Rightarrow> HashObj list sto" where
  "sto_RewriteSet E key version = sbind (valid_ref E key version) (\<lambda>_. RewriteSet E key version)"

definition sto_ListVersions :: "store_env \<Rightarrow> string \<Rightarrow> bool \<Rightarrow> VersionObj list sto" where
  "sto_ListVersions E key includeDeleted = sbind (valid_key E key) (\<lambda>_. ListVersions E key includeDeleted)"

definition sto_ListVersionsPage :: "store_env \<Rightarrow> string \<Rightarrow> bool \<Rightarrow> int \<Rightarrow> int \<Rightarrow> VersionObj list sto" where
  "sto_ListVersionsPage E key includeDeleted limit offset =
     sbind (valid_key E key) (\<lambda>_. ListVersionsPage E key includeDeleted limit offset)"

definition sto_ListVersionsKeyset ::
  "store_env \<Rightarrow> string \<Rightarrow> bool \<Rightarrow> int \<Rightarrow> string \<Rightarrow> int \<Rightarrow> VersionObj list sto" where
  "sto_ListVersionsKeyset E key includeDeleted afterSeq afterVersion limit =
     sbind (valid_key E key) (\<lambda>_. ListVersionsKeyset E key includeDeleted afterSeq afterVersion limit)"

definition sto_ListVersionsKeysetBefore ::
  "store_env \<Rightarrow> string \<Rightarrow> bool \<Rightarrow> int \<Rightarrow> string \<Rightarrow> int \<Rightarrow> VersionObj list sto" where
  "sto_ListVersionsKeysetBefore E key includeDeleted beforeSeq beforeVersion limit =
     sbind (valid_key E key) (\<lambda>_. ListVersionsKeysetBefore E key includeDeleted beforeSeq beforeVersion limit)"

definition sto_MaxUpstreamSeq :: "store_env \<Rightarrow> string \<Rightarrow> int sto" where
  "sto_MaxUpstreamSeq E key = sbind (valid_key E key) (\<lambda>_. MaxUpstreamSeq E key)"

definition sto_CountVersions :: "store_env \<Rightarrow> string \<Rightarrow> nat sto" where
  "sto_CountVersions E key = sbind (valid_key E key) (\<lambda>_. CountVersionsByKey E key False)"

definition sto_LatestVersion :: "store_env \<Rightarrow> string \<Rightarrow> VersionObj option sto" where
  "sto_LatestVersion E key = sbind (valid_key E key) (\<lambda>_. LatestVersion E key)"

lemma reads_valid [frame]: "reads (valid_key E key)" "reads (valid_ref E key version)"
  unfolding valid_key_def valid_ref_def by (intro frame)+

lemma reads_sto [frame]:
  "reads (sto_GetDetection E key version)" "reads (sto_ListVersions E key incl)" "reads (sto_MaxUpstreamSeq E key)"
  "reads (sto_GetVersion E key version)"
  unfolding sto_GetDetection_def sto_ListVersions_def sto_MaxUpstreamSeq_def sto_GetVersion_def GetDetection_def
    ListVersions_def MaxUpstreamSeq_def GetVersion_def
  by (intro frame)+

lemma sto_ListVersions_Inr:
  "sto_ListVersions E key incl st = (Inr vs, st') \<Longrightarrow>
   vs = sortVersions (map strip_notes (key_rows (st_db st) key incl)) \<and> same st st'"
proof -
  assume "sto_ListVersions E key incl st = (Inr vs, st')"
  then obtain u s1 where v: "valid_key E key st = (Inr u, s1)" and l: "ListVersions E key incl s1 = (Inr vs, st')"
    unfolding sto_ListVersions_def op_Inr by blast
  have "same st s1" by (rule readsD [OF reads_valid(1) v])
  then show ?thesis using query_Inr [OF l [unfolded ListVersions_def]] same_trans by (auto simp: same_def)
qed

lemma sto_MaxUpstreamSeq_Inr:
  "sto_MaxUpstreamSeq E key st = (Inr n, st') \<Longrightarrow> n = maxUpstreamSeq (st_db st) key \<and> same st st'"
proof -
  assume "sto_MaxUpstreamSeq E key st = (Inr n, st')"
  then obtain u s1 where v: "valid_key E key st = (Inr u, s1)" and l: "MaxUpstreamSeq E key s1 = (Inr n, st')"
    unfolding sto_MaxUpstreamSeq_def op_Inr by blast
  have "same st s1" by (rule readsD [OF reads_valid(1) v])
  then show ?thesis using query_Inr [OF l [unfolded MaxUpstreamSeq_def]] same_trans by (auto simp: same_def)
qed

lemma sto_GetVersion_Inr:
  "sto_GetVersion E key version st = (Inr x, st') \<Longrightarrow> x = map_of (db_versions (st_db st)) (key, version) \<and> same st st'"
proof -
  assume "sto_GetVersion E key version st = (Inr x, st')"
  then obtain u s1 where v: "valid_ref E key version st = (Inr u, s1)" and l: "GetVersion E key version s1 = (Inr x, st')"
    unfolding sto_GetVersion_def op_Inr by blast
  have "same st s1" by (rule readsD [OF reads_valid(2) v])
  then show ?thesis using GetVersion_Inr [OF l] same_trans by (auto simp: same_def)
qed

end
