(* ===== verification/Rescan_Defs.thy ===== *)
theory Rescan_Defs
  imports Store_Read State_Registry
begin

text \<open>
  The parts of \<open>mod/rescan\<close> that decide what happens to versions: which listed releases are
  considered, the positions new versions get, when a known version is fetched again
  (\<open>ingest.go\<close>), when a version that upstream no longer lists is deleted (\<open>deletion.go\<close>), the
  quarantine of permanent failures (\<open>helper.go\<close>), and the paging and batching of a sibling instance
  (\<open>brother.go\<close>).

  The state of the supervisor is the store, the state registry, the two tables of the index that only the
  rescan uses, and its own maps. An error of the storage that the code only logs leaves the state of the
  failed call. Logging and metrics are not modelled.
\<close>

text \<open>A deterministic failure to ingest, and where a key comes from (\<open>core/version.go\<close>).\<close>

record IngestFailureObj =
  if_Key :: string
  if_Version :: string
  if_RefSHA :: string
  if_Code :: string
  if_Message :: string
  if_Policy :: nat
  if_FirstTS :: gotime
  if_LastTS :: gotime
  if_Count :: nat

record KeySourceObj =
  kso_Key :: string
  kso_URL :: string
  kso_Class :: string
  kso_WebAddr :: string
  kso_YggAddr :: string
  kso_OriginURL :: string
  kso_ListingMode :: string
  kso_BoundTS :: gotime

record rescan_cfg =
  rc_Store :: store_cfg
  rc_GraceCycles :: u64
  rc_RecentInterval :: int
  rc_ArchiveInterval :: int
  rc_InitialDepth :: nat
  rc_Mirrors :: "(string \<times> string) list"
  rc_PreferFirstSource :: bool
  rc_YggFirst :: bool
  rc_Suppressed :: "string list"

text \<open>\<open>rs_clock\<close> counts the questions put to the rest of the world: its answers depend on it.\<close>

record rescanObj =
  rs_store :: storeObj
  rs_state :: state_Obj
  rs_failures :: "(vkey \<times> IngestFailureObj) list"
  rs_keySources :: "(string \<times> KeySourceObj) list"
  rs_miss :: "(vkey \<times> u64) list"
  rs_permFail :: "(vkey \<times> string) list"
  rs_loadMiss :: "string list"
  rs_dirty :: "string list"
  rs_clock :: nat

section \<open>Listings (ingest.go)\<close>

record GitReleaseObj =
  g_Version :: string
  g_BodyMD :: string
  g_ArchiveURL :: string
  g_Format :: string

definition storable :: "semver_api \<Rightarrow> string \<Rightarrow> bool" where
  "storable sv version \<longleftrightarrow> IsStorableSemver sv version \<or> IsStorableRawVersion sv version"

text \<open>The code keeps the array when every version is storable and copies it from the first one that is not.\<close>

definition dropUnstorableVersions :: "semver_api \<Rightarrow> ('a \<Rightarrow> string) \<Rightarrow> 'a list \<Rightarrow> 'a list" where
  "dropUnstorableVersions sv versionOf entryArr =
     (case dropWhile (\<lambda>e. storable sv (versionOf e)) entryArr of
        [] \<Rightarrow> entryArr
      | _ # tail' \<Rightarrow> takeWhile (\<lambda>e. storable sv (versionOf e)) entryArr @ filter (\<lambda>e. storable sv (versionOf e)) tail')"

definition dropUnstorableReleases :: "semver_api \<Rightarrow> GitReleaseObj list \<Rightarrow> GitReleaseObj list" where
  "dropUnstorableReleases sv releaseArr = dropUnstorableVersions sv g_Version releaseArr"

definition rune_start :: "char \<Rightarrow> bool" where
  "rune_start c \<longleftrightarrow> \<not> byte_in 128 191 c"

fun back_to_rune :: "string \<Rightarrow> nat \<Rightarrow> nat" where
  "back_to_rune text' 0 = 0"
| "back_to_rune text' (Suc n) = (if rune_start (text' ! Suc n) then Suc n else back_to_rune text' n)"

definition truncateUTF8 :: "string \<Rightarrow> nat \<Rightarrow> string \<Rightarrow> string" where
  "truncateUTF8 text' maxBytes suffix =
     (if length text' \<le> maxBytes then text'
      else take (back_to_rune text' (maxBytes - length suffix)) text' @ suffix)"

definition cMaxReleaseNotesBytes :: nat where "cMaxReleaseNotesBytes = 128 * 1024"
definition cMaxFailureMessageBytes :: nat where "cMaxFailureMessageBytes = 4096"

definition truncateReleaseNotes :: "string \<Rightarrow> string" where
  "truncateReleaseNotes notesText =
     truncateUTF8 notesText cMaxReleaseNotesBytes ([ch 10, ch 10] @ ''_[notes truncated]_'')"

definition boundedFailureMessage :: "string \<Rightarrow> string" where
  "boundedFailureMessage messageText = truncateUTF8 messageText cMaxFailureMessageBytes ''...''"

text \<open>The rows by version, and the rank among those that upstream still has (newest first).\<close>

fun rank_from :: "nat \<Rightarrow> VersionObj list \<Rightarrow> (string \<times> nat) list" where
  "rank_from rank [] = []"
| "rank_from rank (v # vs) =
     (if v_UpstreamDeleted v then rank_from rank vs else (v_Version v, rank) # rank_from (rank + 1) vs)"

definition localGitState ::
  "store_env \<Rightarrow> string \<Rightarrow> ((string \<times> VersionObj) list \<times> (string \<times> nat) list) option sto" where
  "localGitState E key st =
     (case sto_ListVersions E key True st of
        (Inl _, st') \<Rightarrow> (Inr None, st')
      | (Inr versionArr, st') \<Rightarrow> (Inr (Some (map (\<lambda>v. (v_Version v, v)) versionArr, rank_from 0 versionArr)), st'))"

fun minListedSeq_from ::
  "int \<Rightarrow> string list \<Rightarrow> (string \<times> VersionObj) list \<Rightarrow> (string \<times> int) list \<Rightarrow> int" where
  "minListedSeq_from minSeq [] localObj seqByVersion = minSeq"
| "minListedSeq_from minSeq (version # vs) localObj seqByVersion =
     (let seq = (case map_of localObj version of
            Some row \<Rightarrow> v_UpstreamSeq row
          | None \<Rightarrow> (case map_of seqByVersion version of Some s \<Rightarrow> s | None \<Rightarrow> 0))
      in minListedSeq_from
           (if seq \<le> 0 then minSeq else if minSeq = 0 \<or> seq < minSeq then seq else minSeq) vs localObj seqByVersion)"

definition minListedSeq :: "GitReleaseObj list \<Rightarrow> (string \<times> VersionObj) list \<Rightarrow> (string \<times> int) list \<Rightarrow> int" where
  "minListedSeq releaseArr = minListedSeq_from 0 (map g_Version releaseArr)"

fun minRelease_from :: "semver_api \<Rightarrow> string \<Rightarrow> string list \<Rightarrow> string" where
  "minRelease_from sv floor [] = floor"
| "minRelease_from sv floor (version # vs) =
     (if \<not> IsStorableSemver sv version then minRelease_from sv floor vs
      else if floor = [] then minRelease_from sv version vs
      else (case CompareSemver sv version floor of
              Inr cmp \<Rightarrow> minRelease_from sv (if cmp < 0 then version else floor) vs
            | Inl _ \<Rightarrow> minRelease_from sv floor vs))"

definition minReleaseVersion :: "semver_api \<Rightarrow> GitReleaseObj list \<Rightarrow> string" where
  "minReleaseVersion sv releaseArr = minRelease_from sv [] (map g_Version releaseArr)"

section \<open>Positions of new versions\<close>

text \<open>\<open>localObj\<close> is \<open>None\<close> when the rows are not at hand; then each version is looked up.\<close>

definition not_stored :: "store_env \<Rightarrow> string \<Rightarrow> (string \<times> VersionObj) list option \<Rightarrow> string \<Rightarrow> bool sto" where
  "not_stored E key localObj version st =
     (case localObj of
        Some rows \<Rightarrow> (Inr (map_of rows version = None), st)
      | None \<Rightarrow> (case sto_GetVersion E key version st of
            (Inr found, st') \<Rightarrow> (Inr (found = None), st') | (Inl _, st') \<Rightarrow> (Inr False, st')))"

fun new_versions ::
  "store_env \<Rightarrow> string \<Rightarrow> (string \<times> VersionObj) list option \<Rightarrow> string list \<Rightarrow> string list \<Rightarrow> string list sto" where
  "new_versions E key localObj seen [] = sret []"
| "new_versions E key localObj seen (version # vs) =
     (if version \<in> set seen then new_versions E key localObj seen vs
      else
        sbind (not_stored E key localObj version) (\<lambda>newFlag.
        sbind (new_versions E key localObj (version # seen) vs) (\<lambda>rest.
        sret (if newFlag then version # rest else rest))))"

definition max_int64 :: int where "max_int64 = 2 ^ 63 - 1"

fun number_down :: "int \<Rightarrow> string list \<Rightarrow> (string \<times> int) list" where
  "number_down n [] = []"
| "number_down n (v # vs) = (v, n) # number_down (n - 1) vs"

definition assignUpstreamSeqs ::
  "store_env \<Rightarrow> string \<Rightarrow> string list \<Rightarrow> (string \<times> VersionObj) list option \<Rightarrow> (string \<times> int) list sto" where
  "assignUpstreamSeqs E key versionArr localObj st =
     (case sto_MaxUpstreamSeq E key st of
        (Inl _, st1) \<Rightarrow> (Inr [], st1)
      | (Inr baseSeq, st1) \<Rightarrow>
          sbind (new_versions E key localObj [] versionArr) (\<lambda>newArr.
          let count = int (length newArr) in
          if count = 0 \<or> baseSeq > max_int64 - count then sret []
          else sret (number_down (baseSeq + count) newArr)) st1)"

section \<open>What to do with a listed version\<close>

definition cVerifyRecentRanks :: nat where "cVerifyRecentRanks = 10"
definition cMaxDeepVerifiesPerKey :: nat where "cMaxDeepVerifiesPerKey = 5"

definition verifyDue :: "VersionObj \<Rightarrow> nat \<Rightarrow> bool \<Rightarrow> gotime \<Rightarrow> int \<Rightarrow> int \<Rightarrow> bool" where
  "verifyDue versionObj rank shaConfirmed now recentInterval archiveInterval =
     (if rank = 0 \<and> \<not> shaConfirmed then True
      else if v_VerifiedTS versionObj = 0 then True
      else now - v_VerifiedTS versionObj \<ge> (if rank \<le> cVerifyRecentRanks then recentInterval else archiveInterval))"

definition permanentFailureSkip :: "rescanObj \<Rightarrow> string \<Rightarrow> string \<Rightarrow> string \<Rightarrow> bool" where
  "permanentFailureSkip r key version refSHA \<longleftrightarrow> map_of (rs_permFail r) (key, version) = Some refSHA"

text \<open>
  The switch of \<open>processGitRelease\<close>: fetch the version again, ask whether its pending repair
  is settled, verify it by a fetch (the newest one always, others while the budget of the key lasts),
  or leave it.
\<close>

datatype release_plan = PlanRefetch | PlanHeal | PlanVerify nat | PlanSkip

definition plan_release ::
  "rescan_cfg \<Rightarrow> bool \<Rightarrow> VersionObj \<Rightarrow> string \<Rightarrow> nat \<Rightarrow> gotime \<Rightarrow> nat \<Rightarrow> release_plan" where
  "plan_release cfg forceRefresh existingObj refSHA rank cycleStart verifyBudget =
     (let refKnown = (refSHA \<noteq> [] \<and> v_UpstreamRef existingObj \<noteq> [])
      in if forceRefresh then PlanRefetch
         else if v_UpstreamDeleted existingObj then PlanRefetch
         else if refKnown \<and> v_UpstreamRef existingObj \<noteq> refSHA then PlanRefetch
         else if v_HealPending existingObj then PlanHeal
         else if verifyDue existingObj rank refKnown cycleStart (rc_RecentInterval cfg) (rc_ArchiveInterval cfg)
         then (if rank = 0 then PlanVerify verifyBudget
               else if verifyBudget > 0 then PlanVerify (verifyBudget - 1)
               else PlanSkip)
         else PlanSkip)"

section \<open>Deletion after a grace period (deletion.go)\<close>

definition belowFloor :: "semver_api \<Rightarrow> string \<Rightarrow> string \<Rightarrow> bool" where
  "belowFloor sv version floor = (case CompareSemver sv version floor of Inr cmp \<Rightarrow> cmp < 0 | Inl _ \<Rightarrow> False)"

definition miss_of :: "rescanObj \<Rightarrow> vkey \<Rightarrow> u64" where
  "miss_of r k = (case map_of (rs_miss r) k of Some n \<Rightarrow> n | None \<Rightarrow> 0)"

definition incMiss :: "vkey \<Rightarrow> rescanObj \<Rightarrow> u64 \<times> rescanObj" where
  "incMiss k r = (miss_of r k + 1, r\<lparr>rs_miss := AList.update k (miss_of r k + 1) (rs_miss r)\<rparr>)"

definition resetMiss :: "vkey \<Rightarrow> rescanObj \<Rightarrow> rescanObj" where
  "resetMiss k r = r\<lparr>rs_miss := AList.delete k (rs_miss r)\<rparr>"

definition apply_deletion :: "store_env \<Rightarrow> rescan_cfg \<Rightarrow> string \<Rightarrow> string \<Rightarrow> unit sto" where
  "apply_deletion E cfg key version =
     (if cf_Deletion (rc_Store cfg) = DeletionDelete then DeleteVersion E key version
      else MarkUpstreamDeleted E (rc_Store cfg) key version)"

definition grace_step ::
  "store_env \<Rightarrow> rescan_cfg \<Rightarrow> string \<Rightarrow> string set \<Rightarrow> string \<Rightarrow> int \<Rightarrow> VersionObj \<Rightarrow> rescanObj \<Rightarrow> rescanObj" where
  "grace_step E cfg key upstreamSet windowFloor minSeq v r =
     (let version = v_Version v; k = (key, version) in
      if version \<in> upstreamSet then resetMiss k r
      else if windowFloor \<noteq> [] \<and> belowFloor (sv_semver E) version windowFloor then r
      else if minSeq > 0 \<and> IsRawVersionName (sv_semver E) version \<and> v_UpstreamSeq v > 0 \<and> v_UpstreamSeq v < minSeq then r
      else if IsHistoricalVersion version (cf_HistoryPrefix (rc_Store cfg)) \<or> v_UpstreamDeleted v then r
      else (let (n, r1) = incMiss k r in
        if n < rc_GraceCycles cfg then r1
        else (case apply_deletion E cfg key version (rs_store r1) of
                (Inl _, s) \<Rightarrow> r1\<lparr>rs_store := s\<rparr>
              | (Inr _, s) \<Rightarrow> resetMiss k (r1\<lparr>rs_store := s\<rparr>))))"

definition applyDeletionGrace ::
  "store_env \<Rightarrow> rescan_cfg \<Rightarrow> string \<Rightarrow> string set \<Rightarrow> string \<Rightarrow> int \<Rightarrow> rescanObj \<Rightarrow> rescanObj" where
  "applyDeletionGrace E cfg key upstreamSet windowFloor minSeq r =
     (case sto_ListVersions E key False (rs_store r) of
        (Inl _, s) \<Rightarrow> r\<lparr>rs_store := s\<rparr>
      | (Inr localArr, s) \<Rightarrow> fold (grace_step E cfg key upstreamSet windowFloor minSeq) localArr (r\<lparr>rs_store := s\<rparr>))"

end
