(* ===== verification/Rescan_Base.thy ===== *)
theory Rescan_Base
  imports Rescan_Defs
begin

text \<open>
  The world of the rescan: \<open>rescan_env\<close> gathers what it asks of the other layers (\<open>source\<close>,
  \<open>overlay\<close>, \<open>archive\<close>, the context and the clock). Every answer may depend on the number of
  questions asked before, so a server may change its mind at any time. The store and the registry are
  not asked but called: their operations run on the state.
\<close>

section \<open>Answers of the other layers\<close>

text \<open>\<open>fetchExtractArchive\<close>: the phase that failed, and whether a download hit an archive limit.\<close>

datatype fetchPhase = FetchFailed bool | SourceHashFailed | ArchiveInvalid

record fetchedArchiveObj =
  fa_sourceHash :: HashObj
  fa_sourceSize :: u64
  fa_entries :: "StagedEntryObj list"
  fa_blobs :: "StagedBlobObj list"
  fa_droppedSymlinks :: "string list"

record DetectionResultObj =
  det_Detection :: DetectionObj
  det_RewriteBlobs :: "HashObj list"

record ArtifactPlanObj =
  pl_MaterializerID :: string
  pl_ArtifactKind :: string
  pl_ListenerID :: string
  pl_FormatVersion :: u32

record ArtifactDigestObj =
  ad_BodyHash :: HashObj
  ad_BodySha256 :: bytes
  ad_BodySha1 :: bytes
  ad_SizeBytes :: u64
  ad_ETag :: string

record BrotherIndexEntryObj =
  bi_Version :: string
  bi_ReleaseNotes :: string
  bi_TreeHash :: HashObj
  bi_SourceHash :: HashObj
  bi_UpstreamSeq :: int

record BlobReqObj =
  rq_Hash :: HashObj
  rq_SizeBytes :: u64

record PublicMirrorVersionObj =
  pm_Version :: string
  pm_ReleaseNotes :: string
  pm_TreeHash :: HashObj
  pm_ArchiveURL :: string
  pm_Format :: string

record PublicMirrorListingObj =
  ml_Versions :: "PublicMirrorVersionObj list"
  ml_Names :: "string list"
  ml_Unresolved :: nat
  ml_Truncated :: bool

record DiscoveryResultObj =
  dc_Class :: SourceClassType
  dc_RemoteKey :: string
  dc_SourceURL :: string
  dc_BrotherURL :: string
  dc_WebAddr :: string
  dc_YggAddr :: string

text \<open>
  An error of a listing says whether it is "not found". A failed build of an artifact has the code of
  its degradation. A session with a sibling is a number; its answers come from \<open>re_index\<close> and
  the fields after it. \<open>re_urlParts\<close> and \<open>re_urlOf\<close> are \<open>net/url\<close>: host name and path of a URL,
  and the URL of a scheme, a host and a path.
\<close>

record rescan_env =
  re_store :: store_env
  re_now :: "nat \<Rightarrow> gotime"
  re_stopped :: "nat \<Rightarrow> bool"
  re_order :: "nat \<Rightarrow> diagnosticKeyObj list \<Rightarrow> diagnosticKeyObj list"
  re_discover :: "nat \<Rightarrow> string \<Rightarrow> DiscoveryResultObj option"
  re_releases :: "nat \<Rightarrow> string \<Rightarrow> nat \<Rightarrow> bool + GitReleaseObj list \<times> bool"
  re_tags :: "nat \<Rightarrow> string \<Rightarrow> nat \<Rightarrow> bool + GitReleaseObj list \<times> bool"
  re_refs :: "nat \<Rightarrow> string \<Rightarrow> (string \<times> string) list option"
  re_fetch :: "nat \<Rightarrow> string \<Rightarrow> string \<Rightarrow> string \<Rightarrow> string \<Rightarrow> fetchPhase + fetchedArchiveObj"
  re_detect :: "nat \<Rightarrow> TreeEntryObj list \<Rightarrow> DetectionResultObj option"
  re_plan :: "nat \<Rightarrow> string \<Rightarrow> string \<Rightarrow> HashObj \<Rightarrow> DetectionObj \<Rightarrow> ArtifactPlanObj list"
  re_digest :: "nat \<Rightarrow> ArtifactPlanObj \<Rightarrow> string + ArtifactDigestObj"
  re_mirrorPage :: "nat \<Rightarrow> string \<Rightarrow> string \<Rightarrow> string \<Rightarrow> (string list \<times> string) option"
  re_mirrorDetail :: "nat \<Rightarrow> string \<Rightarrow> PublicMirrorVersionObj option"
  re_className :: "SourceClassType \<Rightarrow> string"
  re_urlParts :: "string \<Rightarrow> (string \<times> string) option"
  re_urlOf :: "string \<Rightarrow> string \<Rightarrow> string \<Rightarrow> string"
  re_dial :: "nat \<Rightarrow> string \<Rightarrow> string \<Rightarrow> bool"
  re_hello :: "nat \<Rightarrow> string option"
  re_index :: "nat \<Rightarrow> nat \<Rightarrow> (BrotherIndexEntryObj list \<times> nat \<times> string) option"
  re_version :: "nat \<Rightarrow> string \<Rightarrow> bytes option"
  re_blobs :: "nat \<Rightarrow> string \<Rightarrow> BlobReqObj list \<Rightarrow> StagedBlobObj list option"
  re_healthy :: "nat \<Rightarrow> bool"
  re_fetchBytes :: "nat \<Rightarrow> u64"
  re_fetchCount :: "nat \<Rightarrow> nat"

section \<open>Steps of the rescan\<close>

text \<open>An error of the monad is the end of the context: the handler returns at once.\<close>

type_synonym 'a rs = "(rescanObj, store_error, 'a) op"

definition ask :: "(nat \<Rightarrow> 'a) \<Rightarrow> 'a rs" where
  "ask f r = (Inr (f (rs_clock r)), r\<lparr>rs_clock := Suc (rs_clock r)\<rparr>)"

definition check_stopped :: "rescan_env \<Rightarrow> unit rs" where
  "check_stopped RE = sbind (ask (re_stopped RE)) (\<lambda>stopped. sguard stopped ErrCall)"

definition stor :: "'a sto \<Rightarrow> 'a rs" where
  "stor m r = (case m (rs_store r) of (x, s) \<Rightarrow> (x, r\<lparr>rs_store := s\<rparr>))"

text \<open>A call whose error the code handles itself.\<close>

definition attempt :: "'a rs \<Rightarrow> (store_error + 'a) rs" where
  "attempt m r = (case m r of (x, r') \<Rightarrow> (Inr x, r'))"

definition registry :: "rescan_env \<Rightarrow> (nat \<Rightarrow> gotime \<Rightarrow> (state_Obj, state_error, unit) op) \<Rightarrow> bool rs" where
  "registry RE m r =
     (case m (rs_clock r) (re_now RE (rs_clock r)) (rs_state r) of
        (x, s) \<Rightarrow> (Inr (case x of Inl _ \<Rightarrow> False | Inr _ \<Rightarrow> True), r\<lparr>rs_state := s, rs_clock := Suc (rs_clock r)\<rparr>))"

text \<open>Statements on the two tables of the rescan.\<close>

definition rquery :: "rescan_env \<Rightarrow> (rescanObj \<Rightarrow> 'a) \<Rightarrow> 'a rs" where
  "rquery RE f = sbind (stor (io (re_store RE))) (\<lambda>_. sget f)"

definition rexec :: "rescan_env \<Rightarrow> (rescanObj \<Rightarrow> store_error + rescanObj) \<Rightarrow> unit rs" where
  "rexec RE f = sbind (stor (io (re_store RE))) (\<lambda>_ r. (case f r of Inl e \<Rightarrow> (Inl e, r) | Inr r' \<Rightarrow> (Inr (), r')))"

definition rollback :: "rescanObj \<Rightarrow> rescanObj \<Rightarrow> rescanObj" where
  "rollback r0 r = r\<lparr>rs_failures := rs_failures r0, rs_keySources := rs_keySources r0\<rparr>"

definition rWithTx :: "rescan_env \<Rightarrow> 'a rs \<Rightarrow> 'a rs" where
  "rWithTx RE useFunc =
     sbind (stor (io (re_store RE))) (\<lambda>_.
     sbind (sget id) (\<lambda>r0.
     on_error (rollback r0)
       (sbind useFunc (\<lambda>x.
        sbind (stor (io (re_store RE))) (\<lambda>_. sret x)))))"

section \<open>Diagnostics (helper.go)\<close>

definition classifyDegraded :: "string \<Rightarrow> OperationalStatusType \<times> LogReasonType" where
  "classifyDegraded code =
     (if code \<in> {''spool_failed'', ''publish_failed'', ''resurrect_failed'', ''detect_failed'',
                 ''artifact_register_failed'', ''materialization_error''}
      then (StatusError, MaterializationFailed)
      else if code \<in> {''fetch_failed'', ''source_hash_failed'', ''brother_version_failed'',
                 ''brother_blobs_failed'', ''brother_blob_filter_failed''}
      then (StatusDegraded, UpstreamUnavailable)
      else (StatusDegraded, ContentRejected))"

text \<open>The texts of errors are not modelled: messages are empty.\<close>

definition raise_diag ::
  "rescan_env \<Rightarrow> string \<Rightarrow> LogScopeType \<Rightarrow> OperationalStatusType \<Rightarrow> LogReasonType \<Rightarrow> string \<Rightarrow> string \<Rightarrow> unit rs" where
  "raise_diag RE code scope impact reason key version =
     sbind (registry RE (\<lambda>_ now. RaiseDiagnostic now
       \<lparr>di_Code = code, di_Scope = scope, di_Impact = impact, di_Reason = reason, di_Key = key,
        di_Version = version, di_Message = []\<rparr>)) (\<lambda>_. sret ())"

definition raiseVersionDegraded :: "rescan_env \<Rightarrow> string \<Rightarrow> string \<Rightarrow> string \<Rightarrow> unit rs" where
  "raiseVersionDegraded RE key version code =
     (let (impact, reason) = classifyDegraded code
      in raise_diag RE code ScopeVersion impact reason key version)"

definition raiseReleasesTruncated :: "rescan_env \<Rightarrow> string \<Rightarrow> unit rs" where
  "raiseReleasesTruncated RE key =
     raise_diag RE ''releases_truncated'' ScopeKey StatusDegraded UpstreamUnavailable key []"

definition raiseListingModeConflict :: "rescan_env \<Rightarrow> string \<Rightarrow> unit rs" where
  "raiseListingModeConflict RE key =
     raise_diag RE ''listing_mode_conflict'' ScopeKey StatusError UpstreamConflict key []"

definition raiseKeyUnavailable :: "rescan_env \<Rightarrow> string \<Rightarrow> unit rs" where
  "raiseKeyUnavailable RE key =
     raise_diag RE ''upstream_unavailable'' ScopeKey StatusDegraded UpstreamUnavailable key []"

definition clear_key_diag :: "rescan_env \<Rightarrow> string \<Rightarrow> string \<Rightarrow> unit rs" where
  "clear_key_diag RE code key =
     sbind (registry RE (\<lambda>_ _. ClearDiagnostic \<lparr>dk_code = code, dk_scope = ScopeKey, dk_key = key, dk_version = []\<rparr>))
       (\<lambda>_. sret ())"

definition clearKeyUnavailable :: "rescan_env \<Rightarrow> string \<Rightarrow> unit rs" where
  "clearKeyUnavailable RE key = clear_key_diag RE ''upstream_unavailable'' key"

text \<open>The two reports of a listing.\<close>

definition mark_down :: "rescan_env \<Rightarrow> string \<Rightarrow> gotime \<Rightarrow> unit rs" where
  "mark_down RE key cycleStart =
     sbind (registry RE (\<lambda>_ now. MarkUnavailable now key cycleStart)) (\<lambda>_. raiseKeyUnavailable RE key)"

definition mark_up :: "rescan_env \<Rightarrow> string \<Rightarrow> bool \<Rightarrow> gotime \<Rightarrow> unit rs" where
  "mark_up RE key present cycleStart =
     sbind (registry RE (\<lambda>_ now. MarkAvailable now key present cycleStart)) (\<lambda>okFlag.
     if okFlag then clearKeyUnavailable RE key else sret ())"

end
