(* ===== verification/Rescan_Quarantine.thy ===== *)
theory Rescan_Quarantine
  imports Rescan_Base
begin

text \<open>
  Deterministic failures: the table \<open>ingest_failures\<close> (\<open>sqliteindex/quarantine.go\<close>), its operations
  (\<open>storage/quarantine.go\<close>), the table \<open>key_source\<close> with its operations (\<open>key_source.go\<close>),
  and the map of the supervisor that makes a cycle skip what failed before (\<open>rescan/helper.go\<close>,
  \<open>cycle.go\<close>).
\<close>

section \<open>The table of failures\<close>

definition cMaxIngestFailuresPerKey :: nat where "cMaxIngestFailuresPerKey = 4096"
definition IngestFailurePolicy :: nat where "IngestFailurePolicy = 1"

definition validateIngestFailureRef :: "string \<Rightarrow> store_error + unit" where
  "validateIngestFailureRef refText =
     (if refText = [] then Inr ()
      else guard (length refText \<notin> {40, 48, 64}) (ErrInvalid ''ingest failure ref'')
          (guard (\<not> list_all (\<lambda>c. is_digit c \<or> byte_in 97 102 c) refText) (ErrInvalid ''ingest failure ref'')
          (Inr ())))"

definition normalizeIngestFailure :: "store_env \<Rightarrow> gotime \<Rightarrow> IngestFailureObj \<Rightarrow> store_error + IngestFailureObj" where
  "normalizeIngestFailure E now f =
     andthen (validateKey (if_Key f)) (\<lambda>_.
     andthen (validateVersion E (if_Version f)) (\<lambda>_.
     andthen (validateIngestFailureRef (if_RefSHA f)) (\<lambda>_.
     (let code = TrimSpace (if_Code f) in
      guard (code = []) (ErrInvalid ''ingest failure code is empty'')
     (guard (\<not> smallIDPattern code) (ErrInvalid ''ingest failure code'')
     (andthen (validateMaxBytes (if_Message f) 4096) (\<lambda>_.
      Inr (f\<lparr>if_Code := code,
             if_Policy := (if if_Policy f = 0 then IngestFailurePolicy else if_Policy f),
             if_FirstTS := (if if_FirstTS f = 0 then now else if_FirstTS f),
             if_LastTS := (if if_LastTS f = 0 then now else if_LastTS f),
             if_Count := (if if_Count f = 0 then 1 else if_Count f)\<rparr>))))))))"

definition GetIngestFailure :: "rescan_env \<Rightarrow> string \<Rightarrow> string \<Rightarrow> IngestFailureObj option rs" where
  "GetIngestFailure RE key version = rquery RE (\<lambda>r. map_of (rs_failures r) (key, version))"

definition failures_of :: "string \<Rightarrow> rescanObj \<Rightarrow> IngestFailureObj list" where
  "failures_of key r = map snd (filter (\<lambda>e. fst (fst e) = key) (rs_failures r))"

definition ListIngestFailures :: "rescan_env \<Rightarrow> string \<Rightarrow> IngestFailureObj list rs" where
  "ListIngestFailures RE key = rquery RE (\<lambda>r. sort_key if_Version (failures_of key r))"

definition CountIngestFailures :: "rescan_env \<Rightarrow> string \<Rightarrow> nat rs" where
  "CountIngestFailures RE key = rquery RE (\<lambda>r. length (failures_of key r))"

definition ListIngestFailureKeys :: "rescan_env \<Rightarrow> string list rs" where
  "ListIngestFailureKeys RE = rquery RE (\<lambda>r. sort (remdups (map (fst \<circ> fst) (rs_failures r))))"

definition upsert_failure ::
  "IngestFailureObj \<Rightarrow> (vkey \<times> IngestFailureObj) list \<Rightarrow> store_error + (vkey \<times> IngestFailureObj) list" where
  "upsert_failure f fs =
     (let k = (if_Key f, if_Version f);
          f' = f\<lparr>if_FirstTS := stored_time (if_FirstTS f), if_LastTS := stored_time (if_LastTS f)\<rparr> in
      case map_of fs k of
        None \<Rightarrow> Inr (AList.update k f' fs)
      | Some old \<Rightarrow>
          if if_Count old + 1 \<ge> 2 ^ 63 then Inl ErrConstraint
          else Inr (AList.update k (f'\<lparr>if_FirstTS := if_FirstTS old, if_Count := if_Count old + 1\<rparr>) fs))"

definition UpsertIngestFailure :: "rescan_env \<Rightarrow> IngestFailureObj \<Rightarrow> unit rs" where
  "UpsertIngestFailure RE f =
     rexec RE (\<lambda>r. case upsert_failure f (rs_failures r) of Inl e \<Rightarrow> Inl e | Inr fs \<Rightarrow> Inr (r\<lparr>rs_failures := fs\<rparr>))"

definition tx_DeleteIngestFailure :: "rescan_env \<Rightarrow> string \<Rightarrow> string \<Rightarrow> unit rs" where
  "tx_DeleteIngestFailure RE key version =
     rexec RE (\<lambda>r. Inr (r\<lparr>rs_failures := AList.delete (key, version) (rs_failures r)\<rparr>))"

definition tx_DeleteKeyIngestFailures :: "rescan_env \<Rightarrow> string \<Rightarrow> unit rs" where
  "tx_DeleteKeyIngestFailures RE key =
     rexec RE (\<lambda>r. Inr (r\<lparr>rs_failures := filter (\<lambda>e. fst (fst e) \<noteq> key) (rs_failures r)\<rparr>))"

definition sto_ListIngestFailures :: "rescan_env \<Rightarrow> string \<Rightarrow> IngestFailureObj list rs" where
  "sto_ListIngestFailures RE key = sbind (stor (valid_key (re_store RE) key)) (\<lambda>_. ListIngestFailures RE key)"

definition check_room :: "rescan_env \<Rightarrow> IngestFailureObj \<Rightarrow> IngestFailureObj option \<Rightarrow> unit rs" where
  "check_room RE f found =
     (if found \<noteq> None then sret ()
      else sbind (CountIngestFailures RE (if_Key f)) (\<lambda>n.
           sguard (n \<ge> cMaxIngestFailuresPerKey) (ErrInvalid ''ingest failure quarantine is full'')))"

definition PutIngestFailure :: "rescan_env \<Rightarrow> IngestFailureObj \<Rightarrow> unit rs" where
  "PutIngestFailure RE f0 =
     sbind (sbind (stor (io (re_store RE))) (\<lambda>_.
            sbind (ask (re_now RE)) (\<lambda>now.
            slift (normalizeIngestFailure (re_store RE) now f0)))) (\<lambda>f.
     sbind (GetIngestFailure RE (if_Key f) (if_Version f)) (\<lambda>found.
     sbind (check_room RE f found) (\<lambda>_.
     rWithTx RE (UpsertIngestFailure RE f))))"

definition DeleteIngestFailure :: "rescan_env \<Rightarrow> string \<Rightarrow> string \<Rightarrow> unit rs" where
  "DeleteIngestFailure RE key version =
     sbind (stor (valid_ref (re_store RE) key version)) (\<lambda>_. rWithTx RE (tx_DeleteIngestFailure RE key version))"

definition DeleteKeyIngestFailures :: "rescan_env \<Rightarrow> string \<Rightarrow> unit rs" where
  "DeleteKeyIngestFailures RE key =
     sbind (stor (valid_key (re_store RE) key)) (\<lambda>_. rWithTx RE (tx_DeleteKeyIngestFailures RE key))"

section \<open>The table of key sources\<close>

definition keySourceUnchanged :: "KeySourceObj \<Rightarrow> KeySourceObj \<Rightarrow> bool" where
  "keySourceUnchanged a b \<longleftrightarrow> kso_URL a = kso_URL b \<and> kso_Class a = kso_Class b \<and> kso_WebAddr a = kso_WebAddr b \<and>
     kso_YggAddr a = kso_YggAddr b \<and> kso_OriginURL a = kso_OriginURL b"

definition ListingModeReleases :: string where "ListingModeReleases = ''releases''"
definition ListingModeTags :: string where "ListingModeTags = ''tags''"

definition GetKeySource :: "rescan_env \<Rightarrow> string \<Rightarrow> KeySourceObj option rs" where
  "GetKeySource RE key = rquery RE (\<lambda>r. map_of (rs_keySources r) key)"

text \<open>On conflict everything but the listing mode is replaced.\<close>

definition insert_source :: "KeySourceObj \<Rightarrow> (string \<times> KeySourceObj) list \<Rightarrow> store_error + (string \<times> KeySourceObj) list" where
  "insert_source ks al =
     (let ks' = ks\<lparr>kso_BoundTS := stored_time (kso_BoundTS ks)\<rparr>;
          row = (case map_of al (kso_Key ks) of
                   None \<Rightarrow> ks' | Some old \<Rightarrow> ks'\<lparr>kso_ListingMode := kso_ListingMode old\<rparr>) in
      if kso_ListingMode ks \<notin> {[], ListingModeReleases, ListingModeTags} then Inl ErrConstraint
      else Inr (AList.update (kso_Key ks) row al))"

definition InsertKeySource :: "rescan_env \<Rightarrow> KeySourceObj \<Rightarrow> unit rs" where
  "InsertKeySource RE ks =
     rexec RE (\<lambda>r. case insert_source ks (rs_keySources r) of Inl e \<Rightarrow> Inl e | Inr al \<Rightarrow> Inr (r\<lparr>rs_keySources := al\<rparr>))"

definition set_mode :: "string \<Rightarrow> string \<Rightarrow> (string \<times> KeySourceObj) list \<Rightarrow> (string \<times> KeySourceObj) list" where
  "set_mode key mode al =
     (case map_of al key of None \<Rightarrow> al | Some old \<Rightarrow> AList.update key (old\<lparr>kso_ListingMode := mode\<rparr>) al)"

definition UpdateKeySourceListingMode :: "rescan_env \<Rightarrow> string \<Rightarrow> string \<Rightarrow> unit rs" where
  "UpdateKeySourceListingMode RE key mode =
     rexec RE (\<lambda>r. Inr (r\<lparr>rs_keySources := set_mode key mode (rs_keySources r)\<rparr>))"

definition sto_GetKeySource :: "rescan_env \<Rightarrow> string \<Rightarrow> KeySourceObj option rs" where
  "sto_GetKeySource RE key = sbind (stor (valid_key (re_store RE) key)) (\<lambda>_. GetKeySource RE key)"

definition PutKeySource :: "rescan_env \<Rightarrow> KeySourceObj \<Rightarrow> unit rs" where
  "PutKeySource RE ks =
     sbind (stor (valid_key (re_store RE) (kso_Key ks))) (\<lambda>_.
     sbind (GetKeySource RE (kso_Key ks)) (\<lambda>existing.
     if (case existing of Some old \<Rightarrow> keySourceUnchanged old ks | None \<Rightarrow> False) then sret ()
     else sbind (ask (re_now RE)) (\<lambda>now.
       rWithTx RE (InsertKeySource RE (if kso_BoundTS ks = 0 then ks\<lparr>kso_BoundTS := now\<rparr> else ks)))))"

definition SetKeyListingMode :: "rescan_env \<Rightarrow> string \<Rightarrow> string \<Rightarrow> unit rs" where
  "SetKeyListingMode RE key mode =
     sbind (stor (valid_key (re_store RE) key)) (\<lambda>_.
     sbind (sguard (mode \<notin> {[], ListingModeReleases, ListingModeTags}) (ErrInvalid ''listing mode'')) (\<lambda>_.
     sbind (GetKeySource RE key) (\<lambda>existing.
     if (case existing of Some old \<Rightarrow> kso_ListingMode old = mode | None \<Rightarrow> False) then sret ()
     else rWithTx RE (UpdateKeySourceListingMode RE key mode))))"

section \<open>The quarantine of the supervisor\<close>

definition markQuarantineDirty :: "string \<Rightarrow> rescanObj \<Rightarrow> rescanObj" where
  "markQuarantineDirty key r = r\<lparr>rs_dirty := List.insert key (rs_dirty r)\<rparr>"

definition markPermanentFailureLoadMiss :: "string \<Rightarrow> rescanObj \<Rightarrow> rescanObj" where
  "markPermanentFailureLoadMiss key r = markQuarantineDirty key (r\<lparr>rs_loadMiss := List.insert key (rs_loadMiss r)\<rparr>)"

definition load_failure :: "IngestFailureObj \<Rightarrow> rescanObj \<Rightarrow> rescanObj" where
  "load_failure f r =
     (if if_Policy f \<noteq> IngestFailurePolicy then r
      else r\<lparr>rs_permFail := AList.update (if_Key f, if_Version f) (if_RefSHA f) (rs_permFail r)\<rparr>)"

fun loadPermanentFailures :: "rescan_env \<Rightarrow> string list \<Rightarrow> unit rs" where
  "loadPermanentFailures RE [] = sret ()"
| "loadPermanentFailures RE (key # keyArr) =
     sbind (attempt (sto_ListIngestFailures RE key)) (\<lambda>res.
     sbind (case res of
              Inl _ \<Rightarrow> smod (markPermanentFailureLoadMiss key)
            | Inr failureArr \<Rightarrow> smod (\<lambda>r. let r' = fold load_failure failureArr r
                in if failureArr = [] then r' else markQuarantineDirty key r')) (\<lambda>_.
     loadPermanentFailures RE keyArr))"

definition recordPermanentFailure :: "rescan_env \<Rightarrow> string \<Rightarrow> string \<Rightarrow> string \<Rightarrow> string \<Rightarrow> string \<Rightarrow> unit rs" where
  "recordPermanentFailure RE key version refSHA code message =
     sbind (smod (\<lambda>r. markQuarantineDirty key (r\<lparr>rs_permFail := AList.update (key, version) refSHA (rs_permFail r)\<rparr>))) (\<lambda>_.
     sbind (attempt (PutIngestFailure RE \<lparr>if_Key = key, if_Version = version, if_RefSHA = refSHA, if_Code = code,
       if_Message = boundedFailureMessage message, if_Policy = IngestFailurePolicy, if_FirstTS = 0, if_LastTS = 0,
       if_Count = 0\<rparr>)) (\<lambda>_. sret ()))"

definition clearPermanentFailure :: "rescan_env \<Rightarrow> string \<Rightarrow> string \<Rightarrow> unit rs" where
  "clearPermanentFailure RE key version =
     sbind (sget (\<lambda>r. map_of (rs_permFail r) (key, version) = None \<and> key \<notin> set (rs_loadMiss r))) (\<lambda>absent.
     sbind (smod (\<lambda>r. r\<lparr>rs_permFail := AList.delete (key, version) (rs_permFail r)\<rparr>)) (\<lambda>_.
     if absent then sret ()
     else sbind (attempt (DeleteIngestFailure RE key version)) (\<lambda>_. sret ())))"

definition forceClearPermanentFailure :: "rescan_env \<Rightarrow> string \<Rightarrow> string \<Rightarrow> unit rs" where
  "forceClearPermanentFailure RE key version =
     sbind (smod (\<lambda>r. r\<lparr>rs_permFail := AList.delete (key, version) (rs_permFail r)\<rparr>)) (\<lambda>_.
     sbind (attempt (DeleteIngestFailure RE key version)) (\<lambda>_. sret ()))"

definition markVersionTerminalSuccess :: "rescan_env \<Rightarrow> string \<Rightarrow> string \<Rightarrow> unit rs" where
  "markVersionTerminalSuccess RE key version =
     sbind (clearPermanentFailure RE key version) (\<lambda>_.
     sbind (registry RE (\<lambda>n _. ClearVersionDiagnostics (re_order RE n) key version)) (\<lambda>_. sret ()))"

definition keep_failure :: "IngestFailureObj \<Rightarrow> rescanObj \<Rightarrow> rescanObj" where
  "keep_failure f r =
     (case map_of (rs_permFail r) (if_Key f, if_Version f) of
        Some _ \<Rightarrow> r
      | None \<Rightarrow> r\<lparr>rs_permFail := AList.update (if_Key f, if_Version f) (if_RefSHA f) (rs_permFail r)\<rparr>)"

definition raiseQuarantineSummary :: "rescan_env \<Rightarrow> string \<Rightarrow> unit rs" where
  "raiseQuarantineSummary RE key =
     sbind (check_stopped RE) (\<lambda>_.
     sbind (sget (\<lambda>r. key \<notin> set (rs_dirty r) \<and> key \<notin> set (rs_loadMiss r))) (\<lambda>skipFlag.
     if skipFlag then sret ()
     else sbind (attempt (sto_ListIngestFailures RE key)) (\<lambda>res.
     case res of
       Inl _ \<Rightarrow> sret ()
     | Inr failureArr \<Rightarrow>
         let activeArr = filter (\<lambda>f. if_Policy f = IngestFailurePolicy) failureArr in
         sbind (siter (\<lambda>f. if if_Policy f = IngestFailurePolicy then sret ()
             else sbind (attempt (DeleteIngestFailure RE (if_Key f) (if_Version f))) (\<lambda>_. sret ())) failureArr) (\<lambda>_.
         sbind (smod (\<lambda>r. let r' = fold keep_failure activeArr r
             in r'\<lparr>rs_loadMiss := removeAll key (rs_loadMiss r'),
                   rs_dirty := (if activeArr = [] then removeAll key (rs_dirty r') else rs_dirty r')\<rparr>)) (\<lambda>_.
         if activeArr = [] then clear_key_diag RE ''ingest_quarantine'' key
         else raise_diag RE ''ingest_quarantine'' ScopeKey StatusDegraded ContentRejected key [])))))"

definition pruneMissMap :: "rescan_env \<Rightarrow> string list \<Rightarrow> unit rs" where
  "pruneMissMap RE keyArr =
     sbind (smod (\<lambda>r. r\<lparr>rs_miss := filter (\<lambda>e. fst (fst e) \<in> set keyArr) (rs_miss r),
        rs_permFail := filter (\<lambda>e. fst (fst e) \<in> set keyArr) (rs_permFail r),
        rs_loadMiss := filter (\<lambda>k. k \<in> set keyArr) (rs_loadMiss r)\<rparr>)) (\<lambda>_.
     sbind (check_stopped RE) (\<lambda>_.
     sbind (attempt (sbind (stor (io (re_store RE))) (\<lambda>_. ListIngestFailureKeys RE))) (\<lambda>res.
     case res of
       Inl _ \<Rightarrow> sret ()
     | Inr quarantineKeyArr \<Rightarrow>
         siter (\<lambda>key. if key \<in> set keyArr then sret ()
           else sbind (attempt (DeleteKeyIngestFailures RE key)) (\<lambda>_. sret ())) quarantineKeyArr)))"

end
