(* ===== verification/Rescan_Ingest.thy ===== *)
theory Rescan_Ingest
  imports Rescan_Quarantine
begin

text \<open>
  Ingesting versions (\<open>rescan/ingest.go\<close>): from the files of an archive to a published version,
  and a whole pass over a git source. The spool directory is the world's (\<open>sv_file\<close>); its creation
  is a sequence of calls that may fail, its removal has no effect on the model.
\<close>

section \<open>Publishing one version\<close>

record publishInputObj =
  pi_key :: string
  pi_version :: string
  pi_releaseNotes :: string
  pi_sourceHash :: HashObj
  pi_sourceSize :: u64
  pi_upstreamSeq :: int
  pi_upstreamRef :: string
  pi_verifiedTS :: gotime
  pi_expectedTreeHash :: HashObj
  pi_treeHashMismatchCode :: string
  pi_permanentFailureRef :: string
  pi_entries :: "StagedEntryObj list"
  pi_blobs :: "StagedBlobObj list"
  pi_droppedSymlinks :: "string list"

definition cOverlayFallbackCode :: string where "cOverlayFallbackCode = ''materialization_error''"
definition cRawVersionEvidence :: string where "cRawVersionEvidence = ''{\"raw_version\":true}''"

definition healQuarantineCode :: "string \<Rightarrow> string \<times> bool" where
  "healQuarantineCode code = (if code = cOverlayFallbackCode then (code, False) else (''heal_failed'', True))"

definition failureRef :: "publishInputObj \<Rightarrow> HashObj \<Rightarrow> string" where
  "failureRef i treeHash =
     (if pi_permanentFailureRef i \<noteq> [] then pi_permanentFailureRef i
      else if pi_upstreamRef i \<noteq> [] then pi_upstreamRef i
      else if \<not> IsZero (pi_expectedTreeHash i) then HashHex (pi_expectedTreeHash i)
      else if \<not> IsZero treeHash then HashHex treeHash
      else HashHex (pi_sourceHash i))"

fun dropped_from :: "string \<Rightarrow> bool \<Rightarrow> string list \<Rightarrow> string" where
  "dropped_from acc firstFlag [] = acc"
| "dropped_from acc firstFlag (p # ps) =
     (let part = (if firstFlag then p else '', '' @ p)
      in if length acc + length part > cMaxFailureMessageBytes - length '' ...'' then acc @ '' ...''
         else dropped_from (acc @ part) False ps)"

definition droppedSymlinkEventMessage :: "string list \<Rightarrow> string" where
  "droppedSymlinkEventMessage pathArr =
     (if pathArr = [] then []
      else dropped_from (''dropped '' @ dec_digits (length pathArr) @ '' escaping symlinks: '') True pathArr)"

definition NewBlobSpool :: "store_env \<Rightarrow> unit sto" where
  "NewBlobSpool E = sbind (io E) (\<lambda>_. sbind (io E) (\<lambda>_. sbind (io E) (\<lambda>_. io E)))"

definition detectTree :: "rescan_env \<Rightarrow> string \<Rightarrow> TreeEntryObj list \<Rightarrow> DetectionResultObj option rs" where
  "detectTree RE version treeArr =
     (if IsRawVersionName (sv_semver (re_store RE)) version
      then sret (Some \<lparr>det_Detection = \<lparr>d_IsGo = False, d_IsComposer = False, d_Conflict = False,
             d_EvidenceJSON = cRawVersionEvidence, d_GoZipBlocked = False, d_GoZipBlockReason = []\<rparr>,
             det_RewriteBlobs = []\<rparr>)
      else ask (\<lambda>n. re_detect RE n treeArr))"

definition artifactFromPlan :: "ArtifactPlanObj \<Rightarrow> string \<Rightarrow> string \<Rightarrow> ArtifactDigestObj \<Rightarrow> ArtifactObj" where
  "artifactFromPlan pl key version ad =
     \<lparr>a_MaterializerID = pl_MaterializerID pl, a_ArtifactKind = pl_ArtifactKind pl, a_ListenerID = pl_ListenerID pl,
      a_Key = key, a_Version = version, a_ETag = ad_ETag ad, a_BodyHash = ad_BodyHash ad,
      a_BodySha256 = ad_BodySha256 ad, a_BodySha1 = ad_BodySha1 ad, a_SizeBytes = ad_SizeBytes ad,
      a_FormatVersion = pl_FormatVersion pl, a_FilePath = [], a_DegradedReason = []\<rparr>"

definition planArtifactKey :: "ArtifactPlanObj \<Rightarrow> string" where
  "planArtifactKey pl = pl_MaterializerID pl @ [ch 0] @ pl_ArtifactKind pl @ [ch 0] @ pl_ListenerID pl"

definition storedArtifactKey :: "ArtifactObj \<Rightarrow> string" where
  "storedArtifactKey a = a_MaterializerID a @ [ch 0] @ a_ArtifactKind a @ [ch 0] @ a_ListenerID a"

fun materialize_from ::
  "rescan_env \<Rightarrow> string \<Rightarrow> string \<Rightarrow> ArtifactObj list \<Rightarrow> bool \<Rightarrow> ArtifactPlanObj list \<Rightarrow> (ArtifactObj list \<times> bool) rs" where
  "materialize_from RE key version artifactArr completeFlag [] = sret (artifactArr, completeFlag)"
| "materialize_from RE key version artifactArr completeFlag (pl # pls) =
     sbind (ask (re_stopped RE)) (\<lambda>stopped.
     if stopped then sret (artifactArr, False)
     else sbind (ask (\<lambda>n. re_digest RE n pl)) (\<lambda>res.
     case res of
       Inl code \<Rightarrow>
         sbind (ask (re_stopped RE)) (\<lambda>stopped'.
         if stopped' then sret (artifactArr, False)
         else sbind (raiseVersionDegraded RE key version code) (\<lambda>_.
              materialize_from RE key version artifactArr False pls))
     | Inr ad \<Rightarrow>
         materialize_from RE key version (artifactArr @ [artifactFromPlan pl key version ad]) completeFlag pls))"

definition materialize ::
  "rescan_env \<Rightarrow> string \<Rightarrow> string \<Rightarrow> HashObj \<Rightarrow> DetectionResultObj \<Rightarrow> (ArtifactObj list \<times> bool) rs" where
  "materialize RE key version treeHash det =
     sbind (ask (\<lambda>n. re_plan RE n key version treeHash (det_Detection det))) (\<lambda>planArr.
     materialize_from RE key version [] True planArr)"

section \<open>Repair of incomplete artifacts\<close>

text \<open>The flags: a registration failed, a build failed. \<open>None\<close> is the end of the context.\<close>

fun heal_plans ::
  "rescan_env \<Rightarrow> rescan_cfg \<Rightarrow> publishInputObj \<Rightarrow> HashObj \<Rightarrow> string list \<Rightarrow> bool \<times> bool \<Rightarrow> ArtifactPlanObj list \<Rightarrow>
   (bool \<times> bool) option rs" where
  "heal_plans RE cfg i treeHash haveSet flags [] = sret (Some flags)"
| "heal_plans RE cfg i treeHash haveSet (registerFailed, materializeFailed) (pl # pls) =
     sbind (ask (re_stopped RE)) (\<lambda>stopped.
     if stopped then sret None
     else if planArtifactKey pl \<in> set haveSet
     then heal_plans RE cfg i treeHash haveSet (registerFailed, materializeFailed) pls
     else sbind (ask (\<lambda>n. re_digest RE n pl)) (\<lambda>res.
     case res of
       Inl code \<Rightarrow>
         sbind (ask (re_stopped RE)) (\<lambda>stopped'.
         if stopped' then sret None
         else
           (let (codeText, permanentFlag) = healQuarantineCode code in
            sbind (raiseVersionDegraded RE (pi_key i) (pi_version i) codeText) (\<lambda>_.
            sbind (if permanentFlag
                   then recordPermanentFailure RE (pi_key i) (pi_version i) (failureRef i treeHash) codeText []
                   else sret ()) (\<lambda>_.
            heal_plans RE cfg i treeHash haveSet (registerFailed, True) pls))))
     | Inr ad \<Rightarrow>
         sbind (attempt (stor (RegisterArtifact (re_store RE) (rc_Store cfg)
                  (artifactFromPlan pl (pi_key i) (pi_version i) ad)))) (\<lambda>reg.
         case reg of
           Inl _ \<Rightarrow>
             sbind (raiseVersionDegraded RE (pi_key i) (pi_version i) ''artifact_register_failed'') (\<lambda>_.
             heal_plans RE cfg i treeHash haveSet (True, materializeFailed) pls)
         | Inr _ \<Rightarrow> heal_plans RE cfg i treeHash haveSet (registerFailed, materializeFailed) pls)))"

definition refresh_detection :: "rescan_env \<Rightarrow> publishInputObj \<Rightarrow> DetectionObj \<Rightarrow> bool rs" where
  "refresh_detection RE i det =
     sbind (attempt (stor (sto_GetDetection (re_store RE) (pi_key i) (pi_version i)))) (\<lambda>res.
     case res of
       Inr (Some stored) \<Rightarrow>
         if d_GoZipBlocked stored \<noteq> d_GoZipBlocked det \<or> d_GoZipBlockReason stored \<noteq> d_GoZipBlockReason det
         then sbind (attempt (stor (PutDetection (re_store RE) (pi_key i) (pi_version i) det))) (\<lambda>put.
              sret (case put of Inl _ \<Rightarrow> False | Inr _ \<Rightarrow> True))
         else sret True
     | _ \<Rightarrow> sret True)"

definition healIncompleteArtifacts ::
  "rescan_env \<Rightarrow> rescan_cfg \<Rightarrow> publishInputObj \<Rightarrow> TreeEntryObj list \<Rightarrow> HashObj \<Rightarrow> bool rs" where
  "healIncompleteArtifacts RE cfg i treeArr treeHash =
     sbind (detectTree RE (pi_version i) treeArr) (\<lambda>det.
     case det of None \<Rightarrow> sret False
     | Some detObj \<Rightarrow>
         sbind (refresh_detection RE i (det_Detection detObj)) (\<lambda>okFlag.
         if \<not> okFlag then sret False
         else
           sbind (ask (\<lambda>n. re_plan RE n (pi_key i) (pi_version i) treeHash (det_Detection detObj))) (\<lambda>planArr.
           sbind (attempt (stor (sto_ListArtifacts (re_store RE) (pi_key i) (pi_version i)))) (\<lambda>existing.
           case existing of Inl _ \<Rightarrow> sret False
           | Inr existingArr \<Rightarrow>
               sbind (heal_plans RE cfg i treeHash (map storedArtifactKey existingArr) (False, False) planArr) (\<lambda>flags.
               case flags of None \<Rightarrow> sret False
               | Some (registerFailed, materializeFailed) \<Rightarrow>
                   if \<not> registerFailed \<and> \<not> materializeFailed
                   then sbind (attempt (stor (SetHealPending (re_store RE) (pi_key i) (pi_version i) False)))
                          (\<lambda>_. sret True)
                   else sret False)))))"

definition clearBlockedGoHeal :: "rescan_env \<Rightarrow> string \<Rightarrow> string \<Rightarrow> VersionObj \<Rightarrow> bool rs" where
  "clearBlockedGoHeal RE key version versionObj =
     sbind (attempt (stor (sto_GetDetection (re_store RE) key version))) (\<lambda>det.
     case det of
       Inr (Some detectionObj) \<Rightarrow>
         if \<not> d_GoZipBlocked detectionObj then sret False
         else
           sbind (attempt (stor (sto_RewriteSet (re_store RE) key version))) (\<lambda>rewrite.
           case rewrite of Inl _ \<Rightarrow> sret False
           | Inr _ \<Rightarrow>
               sbind (ask (\<lambda>n. re_plan RE n key version (v_TreeHash versionObj) detectionObj)) (\<lambda>planArr.
               sbind (attempt (stor (sto_ListArtifacts (re_store RE) key version))) (\<lambda>existing.
               case existing of Inl _ \<Rightarrow> sret False
               | Inr existingArr \<Rightarrow>
                   if list_ex (\<lambda>pl. planArtifactKey pl \<notin> set (map storedArtifactKey existingArr)) planArr then sret False
                   else sbind (attempt (stor (SetHealPending (re_store RE) key version False))) (\<lambda>res.
                        sret (case res of Inl _ \<Rightarrow> False | Inr _ \<Rightarrow> True)))))
     | _ \<Rightarrow> sret False)"


section \<open>publishVersion\<close>

definition reject_version :: "rescan_env \<Rightarrow> publishInputObj \<Rightarrow> HashObj \<Rightarrow> string \<Rightarrow> bool rs" where
  "reject_version RE i treeHash code =
     sbind (recordPermanentFailure RE (pi_key i) (pi_version i) (failureRef i treeHash) code []) (\<lambda>_.
     sbind (raiseVersionDegraded RE (pi_key i) (pi_version i) code) (\<lambda>_. sret False))"

definition fail_version :: "rescan_env \<Rightarrow> publishInputObj \<Rightarrow> string \<Rightarrow> bool rs" where
  "fail_version RE i code = sbind (raiseVersionDegraded RE (pi_key i) (pi_version i) code) (\<lambda>_. sret False)"

definition succeed_version :: "rescan_env \<Rightarrow> publishInputObj \<Rightarrow> bool rs" where
  "succeed_version RE i = sbind (markVersionTerminalSuccess RE (pi_key i) (pi_version i)) (\<lambda>_. sret True)"

definition staged_publish ::
  "publishInputObj \<Rightarrow> DetectionResultObj \<Rightarrow> ArtifactObj list \<Rightarrow> bool \<Rightarrow> StagedPublishObj" where
  "staged_publish i det artifactArr completeFlag =
     \<lparr>sp_Publish = \<lparr>p_Key = pi_key i, p_Version = pi_version i, p_SourceHash = pi_sourceHash i,
        p_SourceSizeBytes = pi_sourceSize i, p_UpstreamSeq = pi_upstreamSeq i, p_Entries = [],
        p_Detection = det_Detection det, p_RewriteBlobs = det_RewriteBlobs det, p_Artifacts = artifactArr,
        p_UpstreamDeleted = False, p_EventType = [],
        p_EventMessage = droppedSymlinkEventMessage (pi_droppedSymlinks i),
        p_ReleaseNotes = pi_releaseNotes i, p_HealPending = (\<not> completeFlag), p_UpstreamRef = pi_upstreamRef i,
        p_VerifiedTS = pi_verifiedTS i\<rparr>,
      sp_Entries = pi_entries i, sp_Blobs = pi_blobs i\<rparr>"

text \<open>The stored version already has the tree.\<close>

definition known_tree ::
  "rescan_env \<Rightarrow> rescan_cfg \<Rightarrow> publishInputObj \<Rightarrow> TreeEntryObj list \<Rightarrow> HashObj \<Rightarrow> VersionObj \<Rightarrow> bool rs" where
  "known_tree RE cfg i treeArr treeHash existingObj =
     (if v_UpstreamDeleted existingObj
      then sbind (attempt (stor (ResurrectVersion (re_store RE) (pi_key i) (pi_version i)))) (\<lambda>res.
           case res of Inl _ \<Rightarrow> fail_version RE i ''resurrect_failed'' | Inr _ \<Rightarrow> succeed_version RE i)
      else if v_HealPending existingObj
      then sbind (healIncompleteArtifacts RE cfg i treeArr treeHash) (\<lambda>okFlag.
           if okFlag then succeed_version RE i else sret False)
      else succeed_version RE i)"

definition new_tree ::
  "rescan_env \<Rightarrow> rescan_cfg \<Rightarrow> publishInputObj \<Rightarrow> TreeEntryObj list \<Rightarrow> HashObj \<Rightarrow> bool rs" where
  "new_tree RE cfg i treeArr treeHash =
     sbind (detectTree RE (pi_version i) treeArr) (\<lambda>det.
     case det of None \<Rightarrow> fail_version RE i ''detect_failed''
     | Some detObj \<Rightarrow>
         sbind (materialize RE (pi_key i) (pi_version i) treeHash detObj) (\<lambda>(artifactArr, completeFlag).
         sbind (attempt (stor (PublishStaged (re_store RE) (rc_Store cfg)
                  (staged_publish i detObj artifactArr completeFlag)))) (\<lambda>res.
         case res of
           Inl (ErrStagedSymlinkRejected _) \<Rightarrow> reject_version RE i treeHash ''tree_invalid''
         | Inl _ \<Rightarrow> fail_version RE i ''publish_failed''
         | Inr _ \<Rightarrow> succeed_version RE i)))"

definition publishVersion :: "rescan_env \<Rightarrow> rescan_cfg \<Rightarrow> publishInputObj \<Rightarrow> bool rs" where
  "publishVersion RE cfg i =
     (case CanonicalTree (re_store RE) (rc_Store cfg) (pi_entries i) of
        Inl _ \<Rightarrow> reject_version RE i zero_hash ''tree_invalid''
      | Inr (treeArr, treeHash) \<Rightarrow>
          if \<not> IsZero (pi_expectedTreeHash i) \<and> treeHash \<noteq> pi_expectedTreeHash i
          then reject_version RE i treeHash
                 (if pi_treeHashMismatchCode i = [] then ''tree_hash_mismatch'' else pi_treeHashMismatchCode i)
          else
            sbind (attempt (stor (sto_GetVersion (re_store RE) (pi_key i) (pi_version i)))) (\<lambda>found.
            case found of
              Inr (Some existingObj) \<Rightarrow>
                if v_TreeHash existingObj = treeHash then known_tree RE cfg i treeArr treeHash existingObj
                else new_tree RE cfg i treeArr treeHash
            | _ \<Rightarrow> new_tree RE cfg i treeArr treeHash))"

section \<open>Git sources\<close>

definition ingestGitVersion ::
  "rescan_env \<Rightarrow> rescan_cfg \<Rightarrow> string \<Rightarrow> GitReleaseObj \<Rightarrow> int \<Rightarrow> string \<Rightarrow> bool rs" where
  "ingestGitVersion RE cfg key g upstreamSeq upstreamRef =
     (let version = g_Version g in
      sbind (attempt (stor (NewBlobSpool (re_store RE)))) (\<lambda>spool.
      case spool of Inl _ \<Rightarrow> sbind (raiseVersionDegraded RE key version ''spool_failed'') (\<lambda>_. sret False)
      | Inr _ \<Rightarrow>
          sbind (ask (\<lambda>n. re_fetch RE n key version (g_ArchiveURL g) (g_Format g))) (\<lambda>res.
          case res of
            Inl phase \<Rightarrow>
              sbind (case phase of
                       FetchFailed True \<Rightarrow> recordPermanentFailure RE key version upstreamRef ''fetch_failed'' []
                     | ArchiveInvalid \<Rightarrow> recordPermanentFailure RE key version upstreamRef ''archive_invalid'' []
                     | _ \<Rightarrow> sret ()) (\<lambda>_.
              sbind (raiseVersionDegraded RE key version
                       (case phase of FetchFailed _ \<Rightarrow> ''fetch_failed'' | SourceHashFailed \<Rightarrow> ''source_hash_failed''
                        | ArchiveInvalid \<Rightarrow> ''archive_invalid'')) (\<lambda>_. sret False))
          | Inr a \<Rightarrow>
              sbind (ask (re_now RE)) (\<lambda>now.
              publishVersion RE cfg
                \<lparr>pi_key = key, pi_version = version, pi_releaseNotes = truncateReleaseNotes (g_BodyMD g),
                 pi_sourceHash = fa_sourceHash a, pi_sourceSize = fa_sourceSize a, pi_upstreamSeq = upstreamSeq,
                 pi_upstreamRef = upstreamRef, pi_verifiedTS = now, pi_expectedTreeHash = zero_hash,
                 pi_treeHashMismatchCode = [], pi_permanentFailureRef = [], pi_entries = fa_entries a,
                 pi_blobs = fa_blobs a, pi_droppedSymlinks = fa_droppedSymlinks a\<rparr>))))"

definition refetch_git ::
  "rescan_env \<Rightarrow> rescan_cfg \<Rightarrow> string \<Rightarrow> GitReleaseObj \<Rightarrow> int \<Rightarrow> string \<Rightarrow> bool \<Rightarrow> unit rs" where
  "refetch_git RE cfg key g upstreamSeq refSHA forceRefresh =
     sbind (if forceRefresh then sbind (forceClearPermanentFailure RE key (g_Version g)) (\<lambda>_. sret False)
            else sget (\<lambda>r. permanentFailureSkip r key (g_Version g) refSHA)) (\<lambda>skipFlag.
     if skipFlag then sret ()
     else sbind (ingestGitVersion RE cfg key g upstreamSeq refSHA) (\<lambda>okFlag.
       if \<not> okFlag then sret ()
       else sbind (ask (re_now RE)) (\<lambda>now.
            sbind (attempt (stor (sto_TouchVersionVerified (re_store RE) key (g_Version g) now refSHA))) (\<lambda>_. sret ()))))"

definition skip_git :: "rescan_env \<Rightarrow> string \<Rightarrow> string \<Rightarrow> string \<Rightarrow> VersionObj \<Rightarrow> unit rs" where
  "skip_git RE key version refSHA existingObj =
     sbind (markVersionTerminalSuccess RE key version) (\<lambda>_.
     if refSHA \<noteq> [] \<and> v_UpstreamRef existingObj = []
     then sbind (attempt (stor (sto_TouchVersionVerified (re_store RE) key version 0 refSHA))) (\<lambda>_. sret ())
     else sret ())"

text \<open>The result is the budget of verifications that is left.\<close>

definition processGitRelease ::
  "rescan_env \<Rightarrow> rescan_cfg \<Rightarrow> string \<Rightarrow> GitReleaseObj \<Rightarrow> int \<Rightarrow> string \<Rightarrow> VersionObj option \<Rightarrow> nat \<Rightarrow> gotime \<Rightarrow> bool \<Rightarrow>
   nat \<Rightarrow> nat rs" where
  "processGitRelease RE cfg key g upstreamSeq refSHA existing rank cycleStart forceRefresh verifyBudget =
     (case existing of
        None \<Rightarrow>
          sbind (if forceRefresh then sbind (forceClearPermanentFailure RE key (g_Version g)) (\<lambda>_. sret False)
                 else sget (\<lambda>r. permanentFailureSkip r key (g_Version g) refSHA)) (\<lambda>skipFlag.
          if skipFlag then sret verifyBudget
          else sbind (ingestGitVersion RE cfg key g upstreamSeq refSHA) (\<lambda>_. sret verifyBudget))
      | Some existingObj \<Rightarrow>
          (case plan_release cfg forceRefresh existingObj refSHA rank cycleStart verifyBudget of
             PlanRefetch \<Rightarrow>
               sbind (refetch_git RE cfg key g upstreamSeq refSHA forceRefresh) (\<lambda>_. sret verifyBudget)
           | PlanHeal \<Rightarrow>
               sbind (clearBlockedGoHeal RE key (g_Version g) existingObj) (\<lambda>healed.
               if healed then sbind (skip_git RE key (g_Version g) refSHA existingObj) (\<lambda>_. sret verifyBudget)
               else sbind (refetch_git RE cfg key g upstreamSeq refSHA forceRefresh) (\<lambda>_. sret verifyBudget))
           | PlanVerify budget' \<Rightarrow>
               sbind (refetch_git RE cfg key g upstreamSeq refSHA forceRefresh) (\<lambda>_. sret budget')
           | PlanSkip \<Rightarrow>
               sbind (skip_git RE key (g_Version g) refSHA existingObj) (\<lambda>_. sret verifyBudget)))"

end
