(* ===== verification/Rescan_Git.thy ===== *)
theory Rescan_Git
  imports Rescan_Ingest
begin

text \<open>
  A pass over a git source (\<open>rescan/ingest.go\<close>): which listing is used (releases or tags; the
  choice is kept for the key), every listed version in turn, and the deletion of what is not listed.
\<close>

section \<open>Listings\<close>

text \<open>\<open>None\<close>: the listing failed or is frozen; otherwise the storable entries and whether it was cut.\<close>

definition list_failed :: "rescan_env \<Rightarrow> string \<Rightarrow> gotime \<Rightarrow> (GitReleaseObj list \<times> bool) option rs" where
  "list_failed RE key cycleStart = sbind (mark_down RE key cycleStart) (\<lambda>_. sret None)"

definition listed ::
  "rescan_env \<Rightarrow> string \<Rightarrow> GitReleaseObj list \<Rightarrow> bool \<Rightarrow> gotime \<Rightarrow> (GitReleaseObj list \<times> bool) option rs" where
  "listed RE key releaseArr truncated cycleStart =
     sbind (mark_up RE key (releaseArr \<noteq> []) cycleStart) (\<lambda>_. sret (Some (releaseArr, truncated)))"

definition persistListingMode :: "rescan_env \<Rightarrow> string \<Rightarrow> string \<Rightarrow> unit rs" where
  "persistListingMode RE key mode = sbind (attempt (SetKeyListingMode RE key mode)) (\<lambda>_. sret ())"

definition storable_releases :: "rescan_env \<Rightarrow> GitReleaseObj list \<Rightarrow> GitReleaseObj list" where
  "storable_releases RE = dropUnstorableReleases (sv_semver (re_store RE))"

definition list_tags ::
  "rescan_env \<Rightarrow> rescan_cfg \<Rightarrow> string \<Rightarrow> string \<Rightarrow> bool \<Rightarrow> gotime \<Rightarrow> (GitReleaseObj list \<times> bool) option rs" where
  "list_tags RE cfg key sourceURL persistMode cycleStart =
     sbind (ask (\<lambda>n. re_tags RE n sourceURL (rc_InitialDepth cfg))) (\<lambda>res.
     case res of Inl _ \<Rightarrow> list_failed RE key cycleStart
     | Inr (tagArr0, truncated) \<Rightarrow>
         let tagArr = storable_releases RE tagArr0 in
         if tagArr = [] then listed RE key [] False cycleStart
         else sbind (if persistMode then persistListingMode RE key ListingModeTags else sret ()) (\<lambda>_.
              listed RE key tagArr truncated cycleStart))"

definition listGitUndecided ::
  "rescan_env \<Rightarrow> rescan_cfg \<Rightarrow> string \<Rightarrow> string \<Rightarrow> bool \<Rightarrow> gotime \<Rightarrow> (GitReleaseObj list \<times> bool) option rs" where
  "listGitUndecided RE cfg key sourceURL persistMode cycleStart =
     sbind (ask (\<lambda>n. re_releases RE n sourceURL (rc_InitialDepth cfg))) (\<lambda>res.
     case res of
       Inl notFound \<Rightarrow>
         if \<not> notFound then list_failed RE key cycleStart
         else list_tags RE cfg key sourceURL persistMode cycleStart
     | Inr (releaseArr0, truncated) \<Rightarrow>
         let releaseArr = storable_releases RE releaseArr0 in
         if releaseArr = [] then list_tags RE cfg key sourceURL persistMode cycleStart
         else sbind (if persistMode then persistListingMode RE key ListingModeReleases else sret ()) (\<lambda>_.
              listed RE key releaseArr truncated cycleStart))"

definition list_pinned ::
  "rescan_env \<Rightarrow> string \<Rightarrow> (bool + GitReleaseObj list \<times> bool) \<Rightarrow> gotime \<Rightarrow> (GitReleaseObj list \<times> bool) option rs" where
  "list_pinned RE key res cycleStart =
     (case res of Inl _ \<Rightarrow> list_failed RE key cycleStart
      | Inr (arr, truncated) \<Rightarrow> listed RE key (storable_releases RE arr) truncated cycleStart)"

definition listGitVersions ::
  "rescan_env \<Rightarrow> rescan_cfg \<Rightarrow> string \<Rightarrow> string \<Rightarrow> string \<Rightarrow> bool \<Rightarrow> gotime \<Rightarrow> (GitReleaseObj list \<times> bool) option rs" where
  "listGitVersions RE cfg key sourceURL listingMode persistMode cycleStart =
     (let depth = rc_InitialDepth cfg in
      if \<not> persistMode then listGitUndecided RE cfg key sourceURL False cycleStart
      else if listingMode = ListingModeReleases then
        sbind (ask (\<lambda>n. re_releases RE n sourceURL depth)) (\<lambda>res. list_pinned RE key res cycleStart)
      else if listingMode = ListingModeTags then
        sbind (ask (\<lambda>n. re_releases RE n sourceURL 1)) (\<lambda>probe.
        if (case probe of Inr (probeArr, _) \<Rightarrow> storable_releases RE probeArr \<noteq> [] | Inl _ \<Rightarrow> False)
        then sbind (raiseListingModeConflict RE key) (\<lambda>_. sret None)
        else sbind (ask (\<lambda>n. re_tags RE n sourceURL depth)) (\<lambda>res. list_pinned RE key res cycleStart))
      else listGitUndecided RE cfg key sourceURL True cycleStart)"

section \<open>The pass\<close>

definition row_of :: "((string \<times> VersionObj) list \<times> (string \<times> nat) list) option \<Rightarrow> string \<Rightarrow> VersionObj option" where
  "row_of localState version = (case localState of None \<Rightarrow> None | Some (rows, _) \<Rightarrow> map_of rows version)"

definition rank_of :: "((string \<times> VersionObj) list \<times> (string \<times> nat) list) option \<Rightarrow> string \<Rightarrow> nat" where
  "rank_of localState version =
     (case localState of None \<Rightarrow> 0
      | Some (_, ranks) \<Rightarrow> (case map_of ranks version of Some n \<Rightarrow> n | None \<Rightarrow> 0))"

fun process_releases ::
  "rescan_env \<Rightarrow> rescan_cfg \<Rightarrow> string \<Rightarrow> (string \<times> string) list \<Rightarrow>
   ((string \<times> VersionObj) list \<times> (string \<times> nat) list) option \<Rightarrow> (string \<times> int) list \<Rightarrow> gotime \<Rightarrow> bool \<Rightarrow> nat \<Rightarrow>
   GitReleaseObj list \<Rightarrow> unit rs" where
  "process_releases RE cfg key refs localState seqs cycleStart forceRefresh verifyBudget [] = sret ()"
| "process_releases RE cfg key refs localState seqs cycleStart forceRefresh verifyBudget (g # gs) =
     sbind (check_stopped RE) (\<lambda>_.
     sbind (processGitRelease RE cfg key g
              (case map_of seqs (g_Version g) of Some n \<Rightarrow> n | None \<Rightarrow> 0)
              (case map_of refs (g_Version g) of Some sha \<Rightarrow> sha | None \<Rightarrow> [])
              (row_of localState (g_Version g)) (rank_of localState (g_Version g))
              cycleStart forceRefresh verifyBudget) (\<lambda>budget'.
     process_releases RE cfg key refs localState seqs cycleStart forceRefresh budget' gs))"

definition deletion_grace ::
  "rescan_env \<Rightarrow> rescan_cfg \<Rightarrow> string \<Rightarrow> string set \<Rightarrow> string \<Rightarrow> int \<Rightarrow> unit rs" where
  "deletion_grace RE cfg key upstreamSet windowFloor minSeq =
     smod (applyDeletionGrace (re_store RE) cfg key upstreamSet windowFloor minSeq)"

definition ingestGit ::
  "rescan_env \<Rightarrow> rescan_cfg \<Rightarrow> string \<Rightarrow> string \<Rightarrow> gotime \<Rightarrow> bool \<Rightarrow> bool \<Rightarrow> string \<Rightarrow> bool \<Rightarrow> unit rs" where
  "ingestGit RE cfg key sourceURL cycleStart allowDeletion forceRefresh listingMode persistMode =
     sbind (listGitVersions RE cfg key sourceURL listingMode persistMode cycleStart) (\<lambda>listing.
     case listing of None \<Rightarrow> sret ()
     | Some (releaseArr, truncated) \<Rightarrow>
         sbind (if truncated \<and> allowDeletion then raiseReleasesTruncated RE key else sret ()) (\<lambda>_.
         sbind (ask (\<lambda>n. case re_refs RE n sourceURL of None \<Rightarrow> [] | Some refs \<Rightarrow> refs)) (\<lambda>refs.
         sbind (stor (localGitState (re_store RE) key)) (\<lambda>localState.
         sbind (stor (assignUpstreamSeqs (re_store RE) key (map g_Version releaseArr) (map_option fst localState))) (\<lambda>seqs.
         sbind (process_releases RE cfg key refs localState seqs cycleStart forceRefresh cMaxDeepVerifiesPerKey
                  releaseArr) (\<lambda>_.
         sbind (check_stopped RE) (\<lambda>_.
         if allowDeletion \<and> \<not> truncated \<and> releaseArr \<noteq> []
         then deletion_grace RE cfg key (set (map g_Version releaseArr))
                (minReleaseVersion (sv_semver (re_store RE)) releaseArr)
                (minListedSeq releaseArr (case localState of None \<Rightarrow> [] | Some (rows, _) \<Rightarrow> rows) seqs)
         else sret ())))))))"

end
