(* ===== verification/Rescan_Brother.thy ===== *)
theory Rescan_Brother
  imports Rescan_Git
begin

text \<open>
  Sibling instances (\<open>rescan/brother.go\<close>): the session protocol with its paged index and batched blobs,
  the public listing of a sibling (\<open>source/public_mirror.go\<close>) as fall-back, the origin as last
  resort, and the pass over one key (\<open>runKey\<close>).
\<close>

section \<open>Candidates\<close>

definition brotherDialCandidates :: "rescan_env \<Rightarrow> string \<Rightarrow> KeySourceObj \<Rightarrow> bool \<Rightarrow> string list" where
  "brotherDialCandidates RE brotherURL ks yggFirst =
     (case re_urlParts RE brotherURL of
        None \<Rightarrow> [brotherURL]
      | Some (host, pathPart) \<Rightarrow>
          let sameHost = (\<lambda>a. map to_lower_byte host = map to_lower_byte a);
              webURL = (if kso_WebAddr ks = [] then []
                        else if sameHost (kso_WebAddr ks) then brotherURL else re_urlOf RE ''https'' (kso_WebAddr ks) pathPart);
              yggURL = (if kso_YggAddr ks = [] then []
                        else if sameHost (kso_YggAddr ks) then brotherURL else re_urlOf RE ''http'' (kso_YggAddr ks) pathPart);
              addFunc = (\<lambda>candURL outArr. if candURL = [] \<or> candURL \<in> set outArr then outArr else outArr @ [candURL])
          in fold addFunc ((if yggFirst then [yggURL, webURL] else [webURL, yggURL]) @ [brotherURL]) [])"

definition confirmBrotherSession :: "rescan_env \<Rightarrow> bool rs" where
  "confirmBrotherSession RE = ask (\<lambda>n. re_hello RE n = Some ''mesh1'')"

definition dial_confirmed :: "rescan_env \<Rightarrow> string \<Rightarrow> string \<Rightarrow> bool rs" where
  "dial_confirmed RE remoteKey url =
     sbind (ask (\<lambda>n. re_dial RE n remoteKey url)) (\<lambda>okFlag.
     if okFlag then confirmBrotherSession RE else sret False)"

fun dialBrotherFallback :: "rescan_env \<Rightarrow> string \<Rightarrow> string list \<Rightarrow> bool rs" where
  "dialBrotherFallback RE remoteKey [] = sret False"
| "dialBrotherFallback RE remoteKey (url # urls) =
     sbind (ask (re_stopped RE)) (\<lambda>stopped.
     if stopped then sret False
     else sbind (dial_confirmed RE remoteKey url) (\<lambda>okFlag.
          if okFlag then sret True else dialBrotherFallback RE remoteKey urls))"

section \<open>The index of a sibling\<close>

definition cMaxBrotherVersions :: nat where "cMaxBrotherVersions = 200000"
definition cMaxBrotherIndexBytes :: u64 where "cMaxBrotherIndexBytes = 128 * 2 ^ 20"
definition cMaxBrotherRedials :: nat where "cMaxBrotherRedials = 3"

definition brotherEntryBytes :: "BrotherIndexEntryObj \<Rightarrow> u64" where
  "brotherEntryBytes e = of_nat (length (bi_Version e)) + of_nat (length (bi_ReleaseNotes e)) + 96"

text \<open>
  The outer option is the fuel, the inner one an error. Every page but the last has an entry and at
  most \<open>cMaxBrotherVersions\<close> entries are accepted, so \<open>cMaxBrotherVersions + 2\<close> pages suffice.
\<close>

fun brother_pages ::
  "nat \<Rightarrow> rescan_env \<Rightarrow> nat \<Rightarrow> BrotherIndexEntryObj list \<Rightarrow> u64 \<Rightarrow> string \<Rightarrow>
   (BrotherIndexEntryObj list \<times> string) option option rs" where
  "brother_pages 0 RE page indexArr indexBytes srcURL = sret None"
| "brother_pages (Suc fuel) RE page indexArr indexBytes srcURL =
     sbind (ask (\<lambda>n. re_index RE n page)) (\<lambda>res.
     case res of None \<Rightarrow> sret (Some None)
     | Some (entryArr, nextPage, url) \<Rightarrow>
         let srcURL' = (if url \<noteq> [] then url else srcURL);
             indexBytes' = fold (\<lambda>e b. b + brotherEntryBytes e) entryArr indexBytes;
             indexArr' = indexArr @ entryArr
         in if indexBytes' > cMaxBrotherIndexBytes then sret (Some None)
            else if length indexArr' > cMaxBrotherVersions then sret (Some None)
            else if nextPage = 0 then sret (Some (Some (indexArr', srcURL')))
            else if entryArr = [] then sret (Some None)
            else brother_pages fuel RE nextPage indexArr' indexBytes' srcURL')"

definition brotherIndex :: "rescan_env \<Rightarrow> (BrotherIndexEntryObj list \<times> string) option option rs" where
  "brotherIndex RE = brother_pages (cMaxBrotherVersions + 2) RE 1 [] 0 []"

section \<open>Blobs\<close>

definition toStagedEntries :: "TreeEntryObj list \<Rightarrow> StagedEntryObj list" where
  "toStagedEntries treeArr = map (\<lambda>e. \<lparr>se_Path = te_Path e, se_Mode = te_Mode e, se_BlobHash = te_BlobHash e,
     se_SizeBytes = te_SizeBytes e\<rparr>) treeArr"

fun blob_reqs_from :: "HashObj list \<Rightarrow> TreeEntryObj list \<Rightarrow> BlobReqObj list" where
  "blob_reqs_from seen [] = []"
| "blob_reqs_from seen (e # es) =
     (if te_BlobHash e \<in> set seen then blob_reqs_from seen es
      else \<lparr>rq_Hash = te_BlobHash e, rq_SizeBytes = te_SizeBytes e\<rparr> # blob_reqs_from (te_BlobHash e # seen) es)"

definition blobReqsFromEntries :: "TreeEntryObj list \<Rightarrow> BlobReqObj list" where
  "blobReqsFromEntries = blob_reqs_from []"

definition filterMissingBlobReqs :: "store_env \<Rightarrow> BlobReqObj list \<Rightarrow> BlobReqObj list sto" where
  "filterMissingBlobReqs E reqArr =
     (if reqArr = [] then sret []
      else sbind (FilterMissingBlobs E (map rq_Hash reqArr)) (\<lambda>missingArr.
           sret (if length missingArr = length reqArr then reqArr
                 else filter (\<lambda>q. rq_Hash q \<in> set missingArr) reqArr)))"

definition DefaultMaxFetchResponseBytes :: u64 where "DefaultMaxFetchResponseBytes = 256 * 2 ^ 20"
definition DefaultMaxFetchBatchCount :: nat where "DefaultMaxFetchBatchCount = 256"

text \<open>One request of a batch; an empty batch is not sent.\<close>

definition flush_batch ::
  "rescan_env \<Rightarrow> string \<Rightarrow> StagedBlobObj list \<Rightarrow> BlobReqObj list \<Rightarrow> StagedBlobObj list option rs" where
  "flush_batch RE version allBlobArr batchArr =
     (if batchArr = [] then sret (Some allBlobArr)
      else sbind (ask (\<lambda>n. re_blobs RE n version batchArr)) (\<lambda>res.
           sret (case res of None \<Rightarrow> None | Some blobArr \<Rightarrow> Some (allBlobArr @ blobArr))))"

definition batch_full :: "u64 \<Rightarrow> nat \<Rightarrow> BlobReqObj list \<Rightarrow> u64 \<Rightarrow> BlobReqObj \<Rightarrow> bool" where
  "batch_full maxBytes maxCount batchArr batchSize q \<longleftrightarrow>
     batchArr \<noteq> [] \<and> (batchSize + rq_SizeBytes q > maxBytes \<or> length batchArr \<ge> maxCount)"

fun fetch_blobs_from ::
  "rescan_env \<Rightarrow> string \<Rightarrow> u64 \<Rightarrow> nat \<Rightarrow> StagedBlobObj list \<Rightarrow> BlobReqObj list \<Rightarrow> u64 \<Rightarrow> BlobReqObj list \<Rightarrow>
   StagedBlobObj list option rs" where
  "fetch_blobs_from RE version maxBytes maxCount allBlobArr batchArr batchSize [] =
     flush_batch RE version allBlobArr batchArr"
| "fetch_blobs_from RE version maxBytes maxCount allBlobArr batchArr batchSize (q # qs) =
     (if batch_full maxBytes maxCount batchArr batchSize q
      then sbind (flush_batch RE version allBlobArr batchArr) (\<lambda>res.
           case res of None \<Rightarrow> sret None
           | Some allBlobArr' \<Rightarrow>
               fetch_blobs_from RE version maxBytes maxCount allBlobArr' [q] (rq_SizeBytes q) qs)
      else fetch_blobs_from RE version maxBytes maxCount allBlobArr (batchArr @ [q]) (batchSize + rq_SizeBytes q) qs)"

definition brotherFetchBlobs :: "rescan_env \<Rightarrow> string \<Rightarrow> BlobReqObj list \<Rightarrow> StagedBlobObj list option rs" where
  "brotherFetchBlobs RE version reqArr =
     sbind (ask (\<lambda>n. (re_fetchBytes RE n, re_fetchCount RE n))) (\<lambda>(maxBytes, maxCount).
     fetch_blobs_from RE version (if maxBytes = 0 then DefaultMaxFetchResponseBytes else maxBytes)
       (if maxCount = 0 then DefaultMaxFetchBatchCount else maxCount) [] [] 0 reqArr)"

section \<open>One version of a sibling\<close>

definition recordBrotherPermanentFailure :: "rescan_env \<Rightarrow> string \<Rightarrow> BrotherIndexEntryObj \<Rightarrow> string \<Rightarrow> unit rs" where
  "recordBrotherPermanentFailure RE key b code =
     (if IsZero (bi_TreeHash b) then sret ()
      else recordPermanentFailure RE key (bi_Version b) (HashHex (bi_TreeHash b)) code [])"

definition reject_brother :: "rescan_env \<Rightarrow> string \<Rightarrow> BrotherIndexEntryObj \<Rightarrow> string \<Rightarrow> unit rs" where
  "reject_brother RE key b code =
     sbind (recordBrotherPermanentFailure RE key b code) (\<lambda>_. raiseVersionDegraded RE key (bi_Version b) code)"

definition pull_brother ::
  "rescan_env \<Rightarrow> rescan_cfg \<Rightarrow> string \<Rightarrow> BrotherIndexEntryObj \<Rightarrow> int \<Rightarrow> bytes \<Rightarrow> TreeEntryObj list \<Rightarrow> unit rs" where
  "pull_brother RE cfg key b upstreamSeq treeBytes treeArr =
     (let version = bi_Version b; stagedArr = toStagedEntries treeArr in
      case CanonicalTree (re_store RE) (rc_Store cfg) stagedArr of
        Inl _ \<Rightarrow> reject_brother RE key b ''tree_invalid''
      | Inr _ \<Rightarrow>
          sbind (attempt (stor (filterMissingBlobReqs (re_store RE) (blobReqsFromEntries treeArr)))) (\<lambda>missing.
          case missing of Inl _ \<Rightarrow> raiseVersionDegraded RE key version ''brother_blob_filter_failed''
          | Inr missingReqArr \<Rightarrow>
              sbind (brotherFetchBlobs RE version missingReqArr) (\<lambda>blobs.
              case blobs of None \<Rightarrow> raiseVersionDegraded RE key version ''brother_blobs_failed''
              | Some blobArr \<Rightarrow>
                  sbind (publishVersion RE cfg
                    \<lparr>pi_key = key, pi_version = version, pi_releaseNotes = truncateReleaseNotes (bi_ReleaseNotes b),
                     pi_sourceHash = (if IsZero (bi_SourceHash b) then sv_H (re_store RE) treeBytes else bi_SourceHash b),
                     pi_sourceSize = of_nat (length treeBytes), pi_upstreamSeq = upstreamSeq, pi_upstreamRef = [],
                     pi_verifiedTS = 0, pi_expectedTreeHash = zero_hash, pi_treeHashMismatchCode = [],
                     pi_permanentFailureRef = HashHex (bi_TreeHash b), pi_entries = stagedArr, pi_blobs = blobArr,
                     pi_droppedSymlinks = []\<rparr>) (\<lambda>_. sret ()))))"

definition ingestBrotherVersion ::
  "rescan_env \<Rightarrow> rescan_cfg \<Rightarrow> string \<Rightarrow> BrotherIndexEntryObj \<Rightarrow> int \<Rightarrow> unit rs" where
  "ingestBrotherVersion RE cfg key b upstreamSeq =
     (let version = bi_Version b in
      if \<not> storable (sv_semver (re_store RE)) version then sret ()
      else
        sbind (attempt (stor (NewBlobSpool (re_store RE)))) (\<lambda>spool.
        case spool of Inl _ \<Rightarrow> raiseVersionDegraded RE key version ''spool_failed''
        | Inr _ \<Rightarrow>
            sbind (ask (\<lambda>n. re_version RE n version)) (\<lambda>res.
            case res of None \<Rightarrow> raiseVersionDegraded RE key version ''brother_version_failed''
            | Some treeBytes \<Rightarrow>
                if \<not> IsZero (bi_TreeHash b) \<and> sv_H (re_store RE) treeBytes \<noteq> bi_TreeHash b
                then reject_brother RE key b ''brother_index_hash_mismatch''
                else (case Decode treeBytes of
                        Inl _ \<Rightarrow> reject_brother RE key b ''tree_decode_failed''
                      | Inr treeArr \<Rightarrow> pull_brother RE cfg key b upstreamSeq treeBytes treeArr))))"

definition canSkipKnownTree :: "rescan_env \<Rightarrow> string \<Rightarrow> string \<Rightarrow> HashObj \<Rightarrow> bool rs" where
  "canSkipKnownTree RE key version treeHash =
     (if IsZero treeHash then sret False
      else sbind (attempt (stor (sto_GetVersion (re_store RE) key version))) (\<lambda>found.
        case found of
          Inr (Some existingObj) \<Rightarrow>
            if v_UpstreamDeleted existingObj then sret False
            else if v_TreeHash existingObj \<noteq> treeHash then sret False
            else if v_HealPending existingObj then clearBlockedGoHeal RE key version existingObj
            else sbind (markVersionTerminalSuccess RE key version) (\<lambda>_. sret True)
        | _ \<Rightarrow> sret False))"

end
