(* ===== verification/Rescan_Cycle.thy ===== *)
theory Rescan_Cycle
  imports Rescan_Brother
begin

text \<open>
  The pass over one key: from a git source, from a session with a sibling, or from its public
  listing; discovery and reclassification before it, the quarantine summary and the statistics of the
  key after it (\<open>ingest.go\<close>, \<open>brother.go\<close>, \<open>cycle.go\<close>, \<open>source/public_mirror.go\<close>).
\<close>

section \<open>The public listing of a sibling\<close>

definition cMaxReleases :: nat where "cMaxReleases = 100000"

definition publicMirrorDetailSkip :: "rescan_env \<Rightarrow> string \<Rightarrow> bool \<Rightarrow> string \<Rightarrow> bool rs" where
  "publicMirrorDetailSkip RE key forceRefresh version =
     (if \<not> storable (sv_semver (re_store RE)) version then sret True
      else if forceRefresh then sret False
      else sbind (attempt (stor (sto_GetVersion (re_store RE) key version))) (\<lambda>found.
        case found of
          Inr (Some existingObj) \<Rightarrow>
            if v_UpstreamDeleted existingObj \<or> v_HealPending existingObj then sret False
            else sbind (markVersionTerminalSuccess RE key version) (\<lambda>_. sret True)
        | _ \<Rightarrow> sret False))"

datatype mirror_page = MirrorError | MirrorDone PublicMirrorListingObj | MirrorMore PublicMirrorListingObj

fun mirror_entries ::
  "rescan_env \<Rightarrow> string \<Rightarrow> bool \<Rightarrow> PublicMirrorListingObj \<Rightarrow> string list \<Rightarrow> mirror_page rs" where
  "mirror_entries RE key forceRefresh l [] = sret (MirrorMore l)"
| "mirror_entries RE key forceRefresh l (version # vs) =
     (if length (ml_Names l) \<ge> cMaxReleases then sret (MirrorDone (l\<lparr>ml_Truncated := True\<rparr>))
      else if version = [] then mirror_entries RE key forceRefresh l vs
      else
        let l1 = l\<lparr>ml_Names := ml_Names l @ [version]\<rparr> in
        sbind (publicMirrorDetailSkip RE key forceRefresh version) (\<lambda>skipFlag.
        if skipFlag then mirror_entries RE key forceRefresh l1 vs
        else sbind (ask (\<lambda>n. re_mirrorDetail RE n version)) (\<lambda>res.
          case res of
            None \<Rightarrow>
              sbind (ask (re_stopped RE)) (\<lambda>stopped.
              if stopped then sret MirrorError
              else mirror_entries RE key forceRefresh (l1\<lparr>ml_Unresolved := Suc (ml_Unresolved l1)\<rparr>) vs)
          | Some versionObj \<Rightarrow>
              mirror_entries RE key forceRefresh (l1\<lparr>ml_Versions := ml_Versions l1 @ [versionObj]\<rparr>) vs)))"

text \<open>
  The outer option is the fuel: every page but the last adds a name and at most \<open>cMaxReleases\<close> are
  taken, so \<open>cMaxReleases + 2\<close> pages suffice.
\<close>

fun mirror_pages ::
  "nat \<Rightarrow> rescan_env \<Rightarrow> string \<Rightarrow> string \<Rightarrow> string \<Rightarrow> bool \<Rightarrow> string \<Rightarrow> string list \<Rightarrow> PublicMirrorListingObj \<Rightarrow>
   PublicMirrorListingObj option option rs" where
  "mirror_pages 0 RE rootURL remoteKey key forceRefresh nextText seen l = sret None"
| "mirror_pages (Suc fuel) RE rootURL remoteKey key forceRefresh nextText seen l =
     sbind (ask (\<lambda>n. re_mirrorPage RE n rootURL remoteKey nextText)) (\<lambda>res.
     case res of None \<Rightarrow> sret (Some None)
     | Some (versions, next') \<Rightarrow>
         sbind (mirror_entries RE key forceRefresh l versions) (\<lambda>page.
         case page of
           MirrorError \<Rightarrow> sret (Some None)
         | MirrorDone l' \<Rightarrow> sret (Some (Some l'))
         | MirrorMore l' \<Rightarrow>
             if next' = [] then sret (Some (Some l'))
             else if versions = [] then sret (Some None)
             else if length (ml_Names l') = length (ml_Names l) then sret (Some None)
             else if next' \<in> set seen then sret (Some None)
             else mirror_pages fuel RE rootURL remoteKey key forceRefresh next' (next' # seen) l'))"

definition PublicMirrorVersions ::
  "rescan_env \<Rightarrow> string \<Rightarrow> string \<Rightarrow> string \<Rightarrow> bool \<Rightarrow> PublicMirrorListingObj option option rs" where
  "PublicMirrorVersions RE rootURL remoteKey key forceRefresh =
     mirror_pages (cMaxReleases + 2) RE rootURL remoteKey key forceRefresh [] []
       \<lparr>ml_Versions = [], ml_Names = [], ml_Unresolved = 0, ml_Truncated = False\<rparr>"

definition publicMirrorFailureRef :: "PublicMirrorVersionObj \<Rightarrow> string" where
  "publicMirrorFailureRef e = (if IsZero (pm_TreeHash e) then [] else HashHex (pm_TreeHash e))"

definition ingestPublicMirrorVersion ::
  "rescan_env \<Rightarrow> rescan_cfg \<Rightarrow> string \<Rightarrow> PublicMirrorVersionObj \<Rightarrow> int \<Rightarrow> bool rs" where
  "ingestPublicMirrorVersion RE cfg key e upstreamSeq =
     (let version = pm_Version e; ref = publicMirrorFailureRef e in
      if \<not> storable (sv_semver (re_store RE)) version then sret False
      else
        sbind (attempt (stor (NewBlobSpool (re_store RE)))) (\<lambda>spool.
        case spool of Inl _ \<Rightarrow> sbind (raiseVersionDegraded RE key version ''spool_failed'') (\<lambda>_. sret False)
        | Inr _ \<Rightarrow>
            sbind (ask (\<lambda>n. re_fetch RE n key version (pm_ArchiveURL e) (pm_Format e))) (\<lambda>res.
            case res of
              Inl phase \<Rightarrow>
                sbind (if ref = [] then sret ()
                       else case phase of
                         FetchFailed True \<Rightarrow> recordPermanentFailure RE key version ref ''fetch_failed'' []
                       | ArchiveInvalid \<Rightarrow> recordPermanentFailure RE key version ref ''archive_invalid'' []
                       | _ \<Rightarrow> sret ()) (\<lambda>_.
                sbind (raiseVersionDegraded RE key version
                         (case phase of FetchFailed _ \<Rightarrow> ''fetch_failed'' | SourceHashFailed \<Rightarrow> ''source_hash_failed''
                          | ArchiveInvalid \<Rightarrow> ''archive_invalid'')) (\<lambda>_. sret False))
            | Inr a \<Rightarrow>
                sbind (ask (re_now RE)) (\<lambda>now.
                publishVersion RE cfg
                  \<lparr>pi_key = key, pi_version = version, pi_releaseNotes = truncateReleaseNotes (pm_ReleaseNotes e),
                   pi_sourceHash = fa_sourceHash a, pi_sourceSize = fa_sourceSize a, pi_upstreamSeq = upstreamSeq,
                   pi_upstreamRef = [], pi_verifiedTS = now, pi_expectedTreeHash = pm_TreeHash e,
                   pi_treeHashMismatchCode = ''public_mirror_hash_mismatch'',
                   pi_permanentFailureRef = ref, pi_entries = fa_entries a, pi_blobs = fa_blobs a,
                   pi_droppedSymlinks = fa_droppedSymlinks a\<rparr>))))"

text \<open>The loop over the versions; the result is whether the context ended.\<close>

fun mirror_versions ::
  "rescan_env \<Rightarrow> rescan_cfg \<Rightarrow> string \<Rightarrow> bool \<Rightarrow> (string \<times> int) list \<Rightarrow> string list \<Rightarrow> PublicMirrorVersionObj list \<Rightarrow>
   bool rs" where
  "mirror_versions RE cfg key forceRefresh seqs ingested [] = ask (re_stopped RE)"
| "mirror_versions RE cfg key forceRefresh seqs ingested (e # es) =
     sbind (ask (re_stopped RE)) (\<lambda>stopped.
     if stopped then sret True
     else if pm_Version e \<in> set ingested then mirror_versions RE cfg key forceRefresh seqs ingested es
     else
       sbind (if forceRefresh then sret False else canSkipKnownTree RE key (pm_Version e) (pm_TreeHash e)) (\<lambda>known.
       if known then mirror_versions RE cfg key forceRefresh seqs (pm_Version e # ingested) es
       else
         sbind (if forceRefresh then sbind (forceClearPermanentFailure RE key (pm_Version e)) (\<lambda>_. sret False)
                else sget (\<lambda>r. publicMirrorFailureRef e \<noteq> [] \<and>
                       permanentFailureSkip r key (pm_Version e) (publicMirrorFailureRef e))) (\<lambda>skipFlag.
         sbind (if skipFlag then sret False
                else ingestPublicMirrorVersion RE cfg key e
                       (case map_of seqs (pm_Version e) of Some n \<Rightarrow> n | None \<Rightarrow> 0)) (\<lambda>_.
         mirror_versions RE cfg key forceRefresh seqs (pm_Version e # ingested) es))))"

definition ingestBrotherPublic ::
  "rescan_env \<Rightarrow> rescan_cfg \<Rightarrow> string \<Rightarrow> string \<Rightarrow> bool \<Rightarrow> gotime \<Rightarrow> string \<Rightarrow> bool rs" where
  "ingestBrotherPublic RE cfg key remoteKey forceRefresh cycleStart brotherURL =
     sbind (PublicMirrorVersions RE brotherURL remoteKey key forceRefresh) (\<lambda>res.
     case res of None \<Rightarrow> sret False | Some None \<Rightarrow> sret False
     | Some (Some l) \<Rightarrow>
         sbind (mark_up RE key (ml_Names l \<noteq> []) cycleStart) (\<lambda>_.
         sbind (if ml_Truncated l then raiseReleasesTruncated RE key else sret ()) (\<lambda>_.
         let entryArr = dropUnstorableVersions (sv_semver (re_store RE)) pm_Version (ml_Versions l) in
         sbind (stor (assignUpstreamSeqs (re_store RE) key (map pm_Version entryArr) None)) (\<lambda>seqs.
         sbind (mirror_versions RE cfg key forceRefresh seqs [] entryArr) (\<lambda>stopped.
         if stopped then sret True
         else sbind (if \<not> ml_Truncated l \<and> ml_Names l \<noteq> []
                     then deletion_grace RE cfg key (set (ml_Names l)) [] 0 else sret ()) (\<lambda>_. sret True))))))"

fun ingestBrotherPublicFallback ::
  "rescan_env \<Rightarrow> rescan_cfg \<Rightarrow> string \<Rightarrow> string \<Rightarrow> bool \<Rightarrow> gotime \<Rightarrow> string list \<Rightarrow> bool rs" where
  "ingestBrotherPublicFallback RE cfg key remoteKey forceRefresh cycleStart [] = sret False"
| "ingestBrotherPublicFallback RE cfg key remoteKey forceRefresh cycleStart (url # urls) =
     sbind (ask (re_stopped RE)) (\<lambda>stopped.
     if stopped then sret False
     else sbind (ingestBrotherPublic RE cfg key remoteKey forceRefresh cycleStart url) (\<lambda>okFlag.
          if okFlag then sret True
          else ingestBrotherPublicFallback RE cfg key remoteKey forceRefresh cycleStart urls))"

section \<open>A session with a sibling\<close>

definition firstSourceReachable :: "rescan_env \<Rightarrow> string \<Rightarrow> bool rs" where
  "firstSourceReachable RE sourceURL =
     ask (\<lambda>n. case re_releases RE n sourceURL 1 of Inr _ \<Rightarrow> True | Inl notFound \<Rightarrow> notFound)"

definition persistBrotherOrigin ::
  "rescan_env \<Rightarrow> string \<Rightarrow> string \<Rightarrow> KeySourceObj \<Rightarrow> string \<Rightarrow> unit rs" where
  "persistBrotherOrigin RE key brotherURL ks announcedOrigin =
     (if announcedOrigin = [] \<or> announcedOrigin = kso_OriginURL ks then sret ()
      else sbind (attempt (PutKeySource RE (ks\<lparr>kso_Key := key, kso_OriginURL := announcedOrigin,
             kso_URL := (if kso_URL ks = [] then brotherURL else kso_URL ks),
             kso_Class := (if kso_Class ks = [] then ''brother'' else kso_Class ks)\<rparr>))) (\<lambda>_. sret ()))"

definition tryOriginFallback ::
  "rescan_env \<Rightarrow> rescan_cfg \<Rightarrow> string \<Rightarrow> string \<Rightarrow> KeySourceObj \<Rightarrow> string \<Rightarrow> gotime \<Rightarrow> bool rs" where
  "tryOriginFallback RE cfg key brotherURL ks sourceURL cycleStart =
     (let originURL = kso_OriginURL ks in
      if originURL = [] \<or> originURL = brotherURL \<or> originURL = sourceURL then sret False
      else sbind (firstSourceReachable RE originURL) (\<lambda>okFlag.
        if \<not> okFlag then sret False
        else sbind (ingestGit RE cfg key originURL cycleStart False False (kso_ListingMode ks) False) (\<lambda>_. sret True)))"

definition brotherFallbackSeqs :: "rescan_env \<Rightarrow> string \<Rightarrow> BrotherIndexEntryObj list \<Rightarrow> (string \<times> int) list rs" where
  "brotherFallbackSeqs RE key indexArr =
     (let versionArr = map bi_Version (filter (\<lambda>b. bi_UpstreamSeq b \<le> 0) indexArr) in
      if versionArr = [] then sret []
      else stor (assignUpstreamSeqs (re_store RE) key versionArr None))"

text \<open>After a broken session: wait (the context may end meanwhile), dial again and check the protocol.\<close>

definition redialBrother :: "rescan_env \<Rightarrow> string \<Rightarrow> string \<Rightarrow> bool rs" where
  "redialBrother RE remoteKey brotherURL =
     sbind (ask (re_stopped RE)) (\<lambda>stopped.
     if stopped then sret False else dial_confirmed RE remoteKey brotherURL)"

fun brother_versions ::
  "rescan_env \<Rightarrow> rescan_cfg \<Rightarrow> string \<Rightarrow> string \<Rightarrow> string \<Rightarrow> bool \<Rightarrow> (string \<times> int) list \<Rightarrow> nat \<Rightarrow> string list \<Rightarrow>
   BrotherIndexEntryObj list \<Rightarrow> unit rs" where
  "brother_versions RE cfg key remoteKey brotherURL forceRefresh seqs redialsLeft ingested [] = sret ()"
| "brother_versions RE cfg key remoteKey brotherURL forceRefresh seqs redialsLeft ingested (b # bs) =
     sbind (check_stopped RE) (\<lambda>_.
     if bi_Version b \<in> set ingested
     then brother_versions RE cfg key remoteKey brotherURL forceRefresh seqs redialsLeft ingested bs
     else
       sbind (if forceRefresh then sret False else canSkipKnownTree RE key (bi_Version b) (bi_TreeHash b)) (\<lambda>known.
       if known
       then brother_versions RE cfg key remoteKey brotherURL forceRefresh seqs redialsLeft (bi_Version b # ingested) bs
       else
         sbind (if forceRefresh then sbind (forceClearPermanentFailure RE key (bi_Version b)) (\<lambda>_. sret False)
                else sget (\<lambda>r. \<not> IsZero (bi_TreeHash b) \<and>
                       permanentFailureSkip r key (bi_Version b) (HashHex (bi_TreeHash b)))) (\<lambda>skipFlag.
         if skipFlag
         then brother_versions RE cfg key remoteKey brotherURL forceRefresh seqs redialsLeft (bi_Version b # ingested) bs
         else
           sbind (ingestBrotherVersion RE cfg key b
                    (if bi_UpstreamSeq b \<le> 0 then (case map_of seqs (bi_Version b) of Some n \<Rightarrow> n | None \<Rightarrow> 0)
                     else bi_UpstreamSeq b)) (\<lambda>_.
           sbind (ask (\<lambda>n. \<not> re_healthy RE n \<and> \<not> re_stopped RE n \<and> redialsLeft > 0)) (\<lambda>broken.
           if \<not> broken
           then brother_versions RE cfg key remoteKey brotherURL forceRefresh seqs redialsLeft (bi_Version b # ingested) bs
           else sbind (redialBrother RE remoteKey brotherURL) (\<lambda>okFlag.
             if okFlag
             then brother_versions RE cfg key remoteKey brotherURL forceRefresh seqs (redialsLeft - 1)
                    (bi_Version b # ingested) bs
             else sret ()))))))"

definition sync_brother ::
  "rescan_env \<Rightarrow> rescan_cfg \<Rightarrow> string \<Rightarrow> string \<Rightarrow> string \<Rightarrow> bool \<Rightarrow> gotime \<Rightarrow> BrotherIndexEntryObj list \<Rightarrow> unit rs" where
  "sync_brother RE cfg key remoteKey brotherURL forceRefresh cycleStart indexArr =
     sbind (mark_up RE key (indexArr \<noteq> []) cycleStart) (\<lambda>_.
     sbind (brotherFallbackSeqs RE key indexArr) (\<lambda>seqs.
     sbind (brother_versions RE cfg key remoteKey brotherURL forceRefresh seqs cMaxBrotherRedials [] indexArr) (\<lambda>_.
     sbind (check_stopped RE) (\<lambda>_.
     deletion_grace RE cfg key (set (map bi_Version indexArr)) [] 0))))"

definition ingestBrother ::
  "rescan_env \<Rightarrow> rescan_cfg \<Rightarrow> string \<Rightarrow> string \<Rightarrow> string \<Rightarrow> string \<Rightarrow> KeySourceObj \<Rightarrow> bool \<Rightarrow> gotime \<Rightarrow> unit rs" where
  "ingestBrother RE cfg key sourceURL remoteKey0 brotherURL ks forceRefresh cycleStart =
     (let remoteKey = (if remoteKey0 = [] then key else remoteKey0);
          candidates = brotherDialCandidates RE brotherURL ks (rc_YggFirst cfg)
      in sbind (dialBrotherFallback RE remoteKey candidates) (\<lambda>dialed.
         if \<not> dialed then
           sbind (ingestBrotherPublicFallback RE cfg key remoteKey forceRefresh cycleStart candidates) (\<lambda>okFlag.
           if okFlag then sret ()
           else sbind (tryOriginFallback RE cfg key brotherURL ks sourceURL cycleStart) (\<lambda>okFlag'.
             if okFlag' then sret () else mark_down RE key cycleStart))
         else
           sbind (brotherIndex RE) (\<lambda>res.
           case res of None \<Rightarrow> mark_down RE key cycleStart | Some None \<Rightarrow> mark_down RE key cycleStart
           | Some (Some (indexArr, announced)) \<Rightarrow>
               sbind (persistBrotherOrigin RE key brotherURL ks announced) (\<lambda>_.
               let firstSourceURL = (if announced = [] then kso_OriginURL ks else announced) in
               sbind (if rc_PreferFirstSource cfg \<and> firstSourceURL \<noteq> [] \<and> firstSourceURL \<noteq> brotherURL
                      then firstSourceReachable RE firstSourceURL else sret False) (\<lambda>first.
               if first then ingestGit RE cfg key firstSourceURL cycleStart False forceRefresh (kso_ListingMode ks) False
               else sync_brother RE cfg key remoteKey brotherURL forceRefresh cycleStart indexArr)))))"


section \<open>The pass over a key\<close>

definition no_key_source :: KeySourceObj where
  "no_key_source = \<lparr>kso_Key = [], kso_URL = [], kso_Class = [], kso_WebAddr = [], kso_YggAddr = [], kso_OriginURL = [],
     kso_ListingMode = [], kso_BoundTS = 0\<rparr>"

definition persistDiscovery ::
  "rescan_env \<Rightarrow> string \<Rightarrow> string \<Rightarrow> DiscoveryResultObj \<Rightarrow> KeySourceObj \<Rightarrow> KeySourceObj rs" where
  "persistDiscovery RE key rootURL d prior =
     (let ks = \<lparr>kso_Key = key, kso_URL = rootURL, kso_Class = re_className RE (dc_Class d), kso_WebAddr = dc_WebAddr d,
        kso_YggAddr = dc_YggAddr d, kso_OriginURL = kso_OriginURL prior, kso_ListingMode = kso_ListingMode prior,
        kso_BoundTS = 0\<rparr>
      in sbind (attempt (PutKeySource RE ks)) (\<lambda>_. sret ks))"

definition KeyState :: "string \<Rightarrow> rescanObj \<Rightarrow> KeyStateObj option" where
  "KeyState key r = (case so_snap (rs_state r) of None \<Rightarrow> None | Some sn \<Rightarrow> sn_KeyState sn key)"

definition ingest_class ::
  "rescan_env \<Rightarrow> rescan_cfg \<Rightarrow> string \<Rightarrow> bool \<Rightarrow> gotime \<Rightarrow> SourceClassType \<Rightarrow> string \<Rightarrow> string \<Rightarrow> string \<Rightarrow> KeySourceObj \<Rightarrow>
   unit rs" where
  "ingest_class RE cfg key forceRefresh cycleStart classObj sourceURL brotherURL remoteKey ks =
     (case classObj of
        SourceClassGit \<Rightarrow> ingestGit RE cfg key sourceURL cycleStart True forceRefresh (kso_ListingMode ks) True
      | SourceClassBrother \<Rightarrow> ingestBrother RE cfg key sourceURL remoteKey brotherURL ks forceRefresh cycleStart
      | _ \<Rightarrow> sret ())"

definition rediscover ::
  "rescan_env \<Rightarrow> rescan_cfg \<Rightarrow> string \<Rightarrow> bool \<Rightarrow> gotime \<Rightarrow> bool \<Rightarrow> KeySourceObj \<Rightarrow> unit rs" where
  "rediscover RE cfg key forceRefresh cycleStart recovering ks =
     (let rootURL = (case map_of (rc_Mirrors cfg) key of Some u \<Rightarrow> u | None \<Rightarrow> []) in
      sbind (ask (\<lambda>n. re_discover RE n key)) (\<lambda>res.
      case res of None \<Rightarrow> mark_down RE key cycleStart
      | Some d \<Rightarrow>
          sbind (if recovering then registry RE (\<lambda>_ now. MarkAvailable now key True cycleStart) else sret True) (\<lambda>okFlag.
          if \<not> okFlag then raiseKeyUnavailable RE key
          else
            sbind (registry RE (\<lambda>_ _. SetClassification key (dc_Class d) (dc_SourceURL d) (dc_BrotherURL d))) (\<lambda>okFlag'.
            if \<not> okFlag' then raiseKeyUnavailable RE key
            else
              sbind (registry RE (\<lambda>_ _. SetRemoteKey key (dc_RemoteKey d))) (\<lambda>_.
              sbind (persistDiscovery RE key rootURL d ks) (\<lambda>ks'.
              ingest_class RE cfg key forceRefresh cycleStart (dc_Class d) (dc_SourceURL d) (dc_BrotherURL d)
                (dc_RemoteKey d) ks'))))))"

definition scan_key :: "rescan_env \<Rightarrow> rescan_cfg \<Rightarrow> string \<Rightarrow> bool \<Rightarrow> gotime \<Rightarrow> unit rs" where
  "scan_key RE cfg key forceRefresh cycleStart =
     sbind (sget (KeyState key)) (\<lambda>ksObj.
     sbind (attempt (sto_GetKeySource RE key)) (\<lambda>res.
     let ks = (case res of Inr (Some ks) \<Rightarrow> ks | _ \<Rightarrow> no_key_source) in
     case ksObj of
       None \<Rightarrow> rediscover RE cfg key forceRefresh cycleStart False ks
     | Some k \<Rightarrow>
         if \<not> ks_Classified k \<or> ks_Availability k = AvPermanentDown
         then rediscover RE cfg key forceRefresh cycleStart (ks_Availability k = AvPermanentDown) ks
         else ingest_class RE cfg key forceRefresh cycleStart (ks_Classification k) (ks_SourceURL k)
                (ks_BrotherURL k) (ks_RemoteKey k) ks))"

definition reconcileKeyStats :: "rescan_env \<Rightarrow> string \<Rightarrow> unit rs" where
  "reconcileKeyStats RE key =
     sbind (check_stopped RE) (\<lambda>_.
     sbind (attempt (stor (sto_LatestVersion (re_store RE) key))) (\<lambda>latest.
     case latest of
       Inr (Some latestObj) \<Rightarrow>
         sbind (attempt (stor (sto_CountVersions (re_store RE) key))) (\<lambda>count.
         sbind (registry RE (\<lambda>_ _. SetMirrorStatsBatch [\<lparr>ms_Key = key, ms_LatestVersion = v_Version latestObj,
             ms_VersionCount = (case count of Inr n \<Rightarrow> of_nat n | Inl _ \<Rightarrow> 0),
             ms_LastPublishTS = v_IngestTS latestObj\<rparr>])) (\<lambda>_. sret ()))
     | _ \<Rightarrow> sret ()))"

text \<open>The deferred calls run whatever ended the pass.\<close>

definition runKey :: "rescan_env \<Rightarrow> rescan_cfg \<Rightarrow> string \<Rightarrow> bool \<Rightarrow> gotime \<Rightarrow> unit rs" where
  "runKey RE cfg key forceRefresh cycleStart =
     sbind (if key \<in> set (rc_Suppressed cfg) then sret ()
            else sbind (attempt (scan_key RE cfg key forceRefresh cycleStart)) (\<lambda>_.
                 sbind (attempt (raiseQuarantineSummary RE key)) (\<lambda>_. sret ()))) (\<lambda>_.
     sbind (attempt (reconcileKeyStats RE key)) (\<lambda>_. sret ()))"

end
