(* ===== verification/Rescan_Theorems.thy ===== *)
theory Rescan_Theorems
  imports Rescan_Defs "HOL-Library.Sublist"
begin

text \<open>
  What the rescan may do to the versions of a key: the deletion of versions that upstream no longer
  lists takes only what the grace period allows and leaves the store consistent; new versions get
  fresh positions.
\<close>

section \<open>Single deletions\<close>

definition touches :: "vkey \<Rightarrow> storeObj \<Rightarrow> storeObj \<Rightarrow> (VersionObj \<Rightarrow> VersionObj option) \<Rightarrow> bool" where
  "touches k st st' f \<longleftrightarrow> (\<forall>k'. k' \<noteq> k \<longrightarrow> map_of (db_versions (st_db st')) k' = map_of (db_versions (st_db st)) k') \<and>
     (map_of (db_versions (st_db st')) k = map_of (db_versions (st_db st)) k \<or>
      (\<exists>v. map_of (db_versions (st_db st)) k = Some v \<and> map_of (db_versions (st_db st')) k = f v))"

lemma touches_same: "st_db st' = st_db st \<Longrightarrow> touches k st st' f"
  by (simp add: touches_def)

lemma touches_db: "st_db b = st_db a \<Longrightarrow> touches k b st' f \<Longrightarrow> touches k a st' f"
  by (simp add: touches_def)

lemma DeleteVersion_touches:
  assumes t: "DeleteVersion E key version st = (r, st')" and c: "consistent E U (st_db st) (st_pb st)"
  shows "touches (key, version) st st' (\<lambda>_. None)"
proof -
  from t show ?thesis unfolding DeleteVersion_def
  proof (cases rule: sbindE)
    case (err e)
    then show ?thesis using readsD [OF reads_valid(2) err(1)] by (intro touches_same) (simp add: same_def)
  next
    case (ok u s1)
    note sm = readsD [OF reads_valid(2) ok(1)]
    have c1: "consistent E U (st_db s1) (st_pb s1)" using c sm by (simp add: same_def)
    obtain x where d: "deleteVersionLocked E key version s1 = (x, st')"
      using ok(2) by (cases rule: sbindE) (auto simp: sret_def)
    from d c1 have "touches (key, version) s1 st' (\<lambda>_. None)"
      by (cases rule: deleteVersionLocked_cases) (auto simp: touches_def same_def map_of_delete)
    then show ?thesis using sm by (intro touches_db [of s1 st]) (simp_all add: same_def)
  qed
qed

lemma map_of_update: "map_of (map (\<lambda>(k', v). if k' = k then (k', f v) else (k', v)) al) k'' =
    (if k'' = k then map_option f (map_of al k'') else map_of al k'')"
  by (induction al) auto

lemma MarkUpstreamDeleted_touches:
  assumes t: "MarkUpstreamDeleted E cfg key version st = (r, st')" and m: "cf_Deletion cfg \<noteq> DeletionDelete"
  shows "touches (key, version) st st' (\<lambda>v. Some (v\<lparr>v_UpstreamDeleted := True\<rparr>))"
proof -
  let ?tx = "\<lambda>eventType. sbind (GetVersion E key version) (\<lambda>found.
          case found of None \<Rightarrow> sret ()
          | Some versionObj \<Rightarrow>
              sbind (tx_MarkUpstreamDeleted E key version) (\<lambda>_.
              AddHistory E key version eventType (v_TreeHash versionObj) []))"
  have pb: "keeps_pb (?tx eventType)" for eventType
    unfolding tx_MarkUpstreamDeleted_def by (intro frame reads_pb [OF reads_statements(1)])
  have tx: "touches (key, version) a b (\<lambda>v. Some (v\<lparr>v_UpstreamDeleted := True\<rparr>))"
    if x: "?tx eventType a = (Inr u, b)" for eventType a b u
  proof -
    obtain found s1 where g: "GetVersion E key version a = (Inr found, s1)"
      and w: "(case found of None \<Rightarrow> sret ()
          | Some versionObj \<Rightarrow>
              sbind (tx_MarkUpstreamDeleted E key version) (\<lambda>_.
              AddHistory E key version eventType (v_TreeHash versionObj) [])) s1 = (Inr u, b)"
      using x by (cases rule: sbindE) auto
    note g = GetVersion_Inr [OF g]
    show ?thesis
    proof (cases found)
      case None
      then show ?thesis using w g by (intro touches_same) (simp add: sret_def same_def)
    next
      case (Some v)
      then obtain y s2 where mk: "tx_MarkUpstreamDeleted E key version s1 = (Inr y, s2)"
        and h: "AddHistory E key version eventType (v_TreeHash v) [] s2 = (Inr u, b)"
        using w by (auto simp: op_Inr)
      have "db_versions (st_db b) = db_versions (st_db s2)"
        using minorD [OF minor_AddHistory h] by (simp add: same_refs_def)
      moreover have "db_versions (st_db s2) = map (\<lambda>(k', v). if k' = (key, version) then (k', v\<lparr>v_UpstreamDeleted := True\<rparr>) else (k', v))
          (db_versions (st_db a))"
        using exec_Inr [OF mk [unfolded tx_MarkUpstreamDeleted_def]] g by (auto simp: db_update_version_def same_def)
      moreover have "map_of (db_versions (st_db a)) (key, version) = Some v" using g Some by simp
      ultimately show ?thesis by (simp add: touches_def map_of_update)
    qed
  qed
  from t show ?thesis unfolding MarkUpstreamDeleted_def
  proof (cases rule: sbindE)
    case (err e)
    then show ?thesis using readsD [OF reads_valid(2) err(1)] by (intro touches_same) (simp add: same_def)
  next
    case (ok u s1)
    note sm = readsD [OF reads_valid(2) ok(1)]
    from ok(2) m have "sbind (slift (validateEventType ''upstream_deleted'')) (\<lambda>eventType. WithTx E (?tx eventType)) s1 = (r, st')"
      by simp
    then have "touches (key, version) s1 st' (\<lambda>v. Some (v\<lparr>v_UpstreamDeleted := True\<rparr>))"
    proof (cases rule: sbindE)
      case (err e)
      then show ?thesis by (intro touches_same) (auto simp: slift_def)
    next
      case (ok eventType s2)
      have s2: "s2 = s1" using ok(1) by (simp add: slift_Inr)
      show ?thesis
      proof (cases r)
        case (Inl e)
        then have "WithTx E (?tx eventType) s1 = (Inl e, st')" using ok(2) s2 by simp
        from WithTx_Inl [OF this pb] show ?thesis by (intro touches_same) (simp add: same_def)
      next
        case (Inr x)
        then have "WithTx E (?tx eventType) s1 = (Inr x, st')" using ok(2) s2 by simp
        then obtain a b where ab: "same s1 a" "?tx eventType a = (Inr x, b)" "same b st'" by (rule WithTx_Inr)
        then show ?thesis using tx [OF ab(2)] unfolding touches_def same_def by simp
      qed
    qed
    then show ?thesis using sm by (intro touches_db [of s1 st]) (simp_all add: same_def)
  qed
qed

section \<open>The grace period\<close>

text \<open>A listed row that the deletion may take.\<close>

definition may_go :: "store_env \<Rightarrow> rescan_cfg \<Rightarrow> string set \<Rightarrow> string \<Rightarrow> int \<Rightarrow> VersionObj \<Rightarrow> bool" where
  "may_go E cfg upstreamSet windowFloor minSeq v \<longleftrightarrow>
     v_Version v \<notin> upstreamSet \<and> \<not> v_UpstreamDeleted v \<and>
     \<not> IsHistoricalVersion (v_Version v) (cf_HistoryPrefix (rc_Store cfg)) \<and>
     \<not> (windowFloor \<noteq> [] \<and> belowFloor (sv_semver E) (v_Version v) windowFloor) \<and>
     \<not> (minSeq > 0 \<and> IsRawVersionName (sv_semver E) (v_Version v) \<and> v_UpstreamSeq v > 0 \<and> v_UpstreamSeq v < minSeq)"

definition removal :: "rescan_cfg \<Rightarrow> VersionObj \<Rightarrow> VersionObj option" where
  "removal cfg v = (if cf_Deletion (rc_Store cfg) = DeletionDelete then None else Some (v\<lparr>v_UpstreamDeleted := True\<rparr>))"

lemma apply_deletion_result:
  assumes "apply_deletion E cfg key version st = (r, st')" "consistent E U (st_db st) (st_pb st)"
  shows "touches (key, version) st st' (removal cfg)" "consistent E U (st_db st') (st_pb st')"
proof -
  show "touches (key, version) st st' (removal cfg)"
  proof (cases "cf_Deletion (rc_Store cfg) = DeletionDelete")
    case True
    then show ?thesis using DeleteVersion_touches [OF _ assms(2)] assms(1)
      by (simp add: apply_deletion_def touches_def removal_def)
  next
    case False
    then show ?thesis using MarkUpstreamDeleted_touches assms(1)
      by (simp add: apply_deletion_def touches_def removal_def)
  qed
  show "consistent E U (st_db st') (st_pb st')"
    using assms safeD [OF safe_mutations(1)] safeD [OF safe_mutations(3)] unfolding apply_deletion_def
    by (cases "cf_Deletion (rc_Store cfg) = DeletionDelete") simp_all
qed

text \<open>
  The state during the loop: the store is consistent, the rows still to be visited are as at the
  start, and of the others only those are gone that the deletion may take and that were missed often
  enough.
\<close>

definition graced ::
  "store_env \<Rightarrow> bytes set \<Rightarrow> rescan_cfg \<Rightarrow> string \<Rightarrow> (VersionObj \<Rightarrow> bool) \<Rightarrow> rescanObj \<Rightarrow> vkey set \<Rightarrow> rescanObj \<Rightarrow> bool" where
  "graced E U cfg key P r todo r' \<longleftrightarrow> consistent E U (st_db (rs_store r')) (st_pb (rs_store r')) \<and>
     (\<forall>k \<in> todo. miss_of r' k = miss_of r k) \<and>
     (\<forall>k. map_of (db_versions (st_db (rs_store r'))) k = map_of (db_versions (st_db (rs_store r))) k \<or>
       (\<exists>v. k \<notin> todo \<and> fst k = key \<and> map_of (db_versions (st_db (rs_store r))) k = Some v \<and> P v \<and>
          rc_GraceCycles cfg \<le> miss_of r k + 1 \<and>
          map_of (db_versions (st_db (rs_store r'))) k = removal cfg v))"

lemma miss_simps [simp]:
  "miss_of (r\<lparr>rs_store := s\<rparr>) k = miss_of r k"
  "k' \<noteq> k \<Longrightarrow> miss_of (resetMiss k r) k' = miss_of r k'"
  "rs_store (resetMiss k r) = rs_store r"
  "k' \<noteq> k \<Longrightarrow> miss_of (r\<lparr>rs_miss := AList.update k n (rs_miss r)\<rparr>) k' = miss_of r k'"
  by (simp_all add: miss_of_def resetMiss_def map_of_delete update_conv')

lemma graced_quiet:
  "graced E U cfg key P r (insert k todo) r' \<Longrightarrow> rs_store r'' = rs_store r' \<Longrightarrow>
   (\<And>k'. k' \<noteq> k \<Longrightarrow> miss_of r'' k' = miss_of r' k') \<Longrightarrow> k \<notin> todo \<Longrightarrow> graced E U cfg key P r todo r''"
  unfolding graced_def by (metis insertCI)

lemma graced_removed:
  assumes g: "graced E U cfg key P r (insert (key, version) todo) r'" and n: "(key, version) \<notin> todo"
    and a: "apply_deletion E cfg key version (rs_store r') = (x, s)"
    and v: "map_of (db_versions (st_db (rs_store r))) (key, version) = Some v" "P v"
    and m: "rc_GraceCycles cfg \<le> miss_of r' (key, version) + 1"
    and r'': "rs_store r'' = s" "\<And>k'. k' \<noteq> (key, version) \<Longrightarrow> miss_of r'' k' = miss_of r' k'"
  shows "graced E U cfg key P r todo r''"
proof -
  let ?k = "(key, version)"
  let ?old = "map_of (db_versions (st_db (rs_store r)))" and ?mid = "map_of (db_versions (st_db (rs_store r')))"
    and ?new = "map_of (db_versions (st_db (rs_store r'')))"
  have c: "consistent E U (st_db (rs_store r')) (st_pb (rs_store r'))" using g by (simp add: graced_def)
  note ad = apply_deletion_result [OF a c]
  have other: "?new k = ?mid k" if "k \<noteq> ?k" for k using ad(1) that unfolding touches_def r''(1) by blast
  have same: "?mid ?k = Some v" using g v(1) unfolding graced_def by (metis insertI1)
  have here: "?new ?k = Some v \<or> ?new ?k = removal cfg v"
    using ad(1) same r''(1) unfolding touches_def by auto
  have mo: "miss_of r' k = miss_of r k" if "k \<in> insert ?k todo" for k using g that unfolding graced_def by blast
  show ?thesis unfolding graced_def
  proof (intro conjI ballI allI)
    show "consistent E U (st_db (rs_store r'')) (st_pb (rs_store r''))" using ad(2) r''(1) by simp
    show "miss_of r'' k = miss_of r k" if "k \<in> todo" for k
      using r''(2) [of k] mo [of k] that n by auto
    show "?new k = ?old k \<or> (\<exists>v. k \<notin> todo \<and> fst k = key \<and> ?old k = Some v \<and> P v \<and>
          rc_GraceCycles cfg \<le> miss_of r k + 1 \<and> ?new k = removal cfg v)" for k
    proof (cases "k = ?k")
      case True
      then show ?thesis using here v m n mo [of ?k] by auto
    next
      case False
      then show ?thesis using g other [OF False] unfolding graced_def by (metis insertCI)
    qed
  qed
qed

lemma grace_step_graced:
  assumes g: "graced E U cfg key P r (insert (key, v_Version v) todo) r'" and n: "(key, v_Version v) \<notin> todo"
    and v: "map_of (db_versions (st_db (rs_store r))) (key, v_Version v) = Some v0"
    and P: "may_go E cfg ups floor minSeq v \<Longrightarrow> P v0"
  shows "graced E U cfg key P r todo (grace_step E cfg key ups floor minSeq v r')"
proof -
  let ?k = "(key, v_Version v)"
  have quiet: "graced E U cfg key P r todo r'" by (rule graced_quiet [OF g refl refl n])
  show ?thesis
  proof (cases "v_Version v \<in> ups")
    case True
    then show ?thesis by (simp add: grace_step_def Let_def) (rule graced_quiet [OF g _ _ n], simp_all)
  next
    case nu: False
    show ?thesis
    proof (cases "may_go E cfg ups floor minSeq v")
      case False
      then have "grace_step E cfg key ups floor minSeq v r' = r'"
        using nu by (auto simp: grace_step_def Let_def may_go_def)
      then show ?thesis using quiet by simp
    next
      case True
      let ?r1 = "r'\<lparr>rs_miss := AList.update ?k (miss_of r' ?k + 1) (rs_miss r')\<rparr>"
      obtain x s where a: "apply_deletion E cfg key (v_Version v) (rs_store r') = (x, s)" by fastforce
      have st: "grace_step E cfg key ups floor minSeq v r' =
          (if miss_of r' ?k + 1 < rc_GraceCycles cfg then ?r1
           else case x of Inl _ \<Rightarrow> ?r1\<lparr>rs_store := s\<rparr> | Inr _ \<Rightarrow> resetMiss ?k (?r1\<lparr>rs_store := s\<rparr>))"
        using True a by (auto simp: grace_step_def Let_def may_go_def incMiss_def split: sum.splits)
      show ?thesis
      proof (cases "miss_of r' ?k + 1 < rc_GraceCycles cfg")
        case True
        then show ?thesis unfolding st by simp (rule graced_quiet [OF g _ _ n], simp_all)
      next
        case False
        then have m: "rc_GraceCycles cfg \<le> miss_of r' ?k + 1" by simp
        note rem = graced_removed [OF g n a v P [OF True] m]
        show ?thesis
        proof (cases x)
          case (Inl e)
          then show ?thesis unfolding st using False by simp (rule rem, simp_all)
        next
          case (Inr y)
          then show ?thesis unfolding st using False by simp (rule rem, simp_all)
        qed
      qed
    qed
  qed
qed

lemma grace_loop:
  assumes "graced E U cfg key P r ((\<lambda>v. (key, v_Version v)) ` set vs) r'" "distinct (map v_Version vs)"
    and "\<And>v. v \<in> set vs \<Longrightarrow> \<exists>v0. map_of (db_versions (st_db (rs_store r))) (key, v_Version v) = Some v0 \<and>
      (may_go E cfg ups floor minSeq v \<longrightarrow> P v0)"
  shows "graced E U cfg key P r {} (fold (grace_step E cfg key ups floor minSeq) vs r')"
  using assms
proof (induction vs arbitrary: r')
  case (Cons v vs)
  obtain v0 where v0: "map_of (db_versions (st_db (rs_store r))) (key, v_Version v) = Some v0"
    "may_go E cfg ups floor minSeq v \<Longrightarrow> P v0" using Cons.prems(3) [of v] by auto
  have n: "(key, v_Version v) \<notin> (\<lambda>v. (key, v_Version v)) ` set vs" using Cons.prems(2) by auto
  have g: "graced E U cfg key P r (insert (key, v_Version v) ((\<lambda>v. (key, v_Version v)) ` set vs)) r'"
    using Cons.prems(1) by simp
  from Cons.IH [OF grace_step_graced [OF g n v0]] Cons.prems(2,3) show ?case by simp
qed simp

lemma listed_rows:
  fixes key :: string and incl :: bool
  assumes c: "consistent E U db pb"
  defines "vs \<equiv> sortVersions (map strip_notes (key_rows db key incl))"
  shows "distinct (map v_Version vs)"
    "v \<in> set vs \<Longrightarrow> \<exists>v0. map_of (db_versions db) (key, v_Version v) = Some v0 \<and> v = strip_notes v0"
proof -
  note k = keysD [OF midD(1) [OF c [unfolded consistent_def]]]
  have row: "map_of (db_versions db) (key, v_Version v0) = Some v0" if v: "v0 \<in> set (key_rows db key incl)" for v0
  proof -
    obtain q where q: "(q, v0) \<in> set (db_versions db)" and ky: "v_Key v0 = key"
      using v by (auto simp: key_rows_def db_rows_def)
    have "q = (key, v_Version v0)" using k(2) [OF q] ky by (simp add: vkey_of_def)
    then show ?thesis using map_of_is_SomeI [OF k(1) q] by simp
  qed
  have f: "map fst (db_versions db) = map vkey_of (map snd (db_versions db))" using k(2) by auto
  have d: "distinct (map vkey_of (map snd (db_versions db)))" using k(1) unfolding f .
  have "inj_on v_Version (set (key_rows db key incl))"
    by (rule inj_onI) (metis row option.inject)
  moreover have "distinct (key_rows db key incl)"
    using d unfolding key_rows_def db_rows_def by (intro distinct_filter) (simp only: distinct_map)
  ultimately have "distinct (map v_Version (key_rows db key incl))" by (simp add: distinct_map)
  moreover have "map v_Version (map strip_notes xs) = map v_Version xs" for xs by (simp add: strip_notes_def comp_def)
  ultimately have "distinct (map v_Version (map strip_notes (key_rows db key incl)))" by (simp only:)
  moreover have "mset (map v_Version vs) = mset (map v_Version (map strip_notes (key_rows db key incl)))"
    unfolding vs_def sortVersions_def mset_map by simp
  ultimately show "distinct (map v_Version vs)" using mset_eq_imp_distinct_iff by blast
  show "\<exists>v0. map_of (db_versions db) (key, v_Version v) = Some v0 \<and> v = strip_notes v0" if "v \<in> set vs"
    using that row unfolding vs_def sortVersions_def by (auto simp: strip_notes_def)
qed


lemma applyDeletionGrace_graced:
  assumes c: "consistent E U (st_db (rs_store r)) (st_pb (rs_store r))"
  shows "graced E U cfg key (may_go E cfg ups floor minSeq) r {} (applyDeletionGrace E cfg key ups floor minSeq r)"
proof -
  let ?P = "may_go E cfg ups floor minSeq"
  obtain x s where l: "sto_ListVersions E key False (rs_store r) = (x, s)" by fastforce
  have sm: "same (rs_store r) s" by (rule readsD [OF reads_sto(2) l])
  let ?r0 = "r\<lparr>rs_store := s\<rparr>"
  have g0: "graced E U cfg key ?P r T ?r0" for T
    using c sm by (auto simp: graced_def same_def)
  show ?thesis
  proof (cases x)
    case (Inl e)
    then show ?thesis using g0 l by (simp add: applyDeletionGrace_def)
  next
    case (Inr vs)
    have vs: "vs = sortVersions (map strip_notes (key_rows (st_db (rs_store r)) key False))"
      using sto_ListVersions_Inr [OF l [unfolded Inr]] by blast
    note rows = listed_rows [OF c, where key = key and incl = False, folded vs]
    have "graced E U cfg key ?P r {} (fold (grace_step E cfg key ups floor minSeq) vs ?r0)"
    proof (rule grace_loop [OF g0 rows(1)])
      show "\<exists>v0. map_of (db_versions (st_db (rs_store r))) (key, v_Version v) = Some v0 \<and>
          (may_go E cfg ups floor minSeq v \<longrightarrow> ?P v0)" if "v \<in> set vs" for v
      proof -
        from rows(2) [OF that] obtain v0 where v0: "map_of (db_versions (st_db (rs_store r))) (key, v_Version v) = Some v0"
          "v = strip_notes v0" by blast
        then have "may_go E cfg ups floor minSeq v = ?P v0" by (simp add: may_go_def strip_notes_def)
        then show ?thesis using v0(1) by blast
      qed
    qed
    then show ?thesis using l Inr by (simp add: applyDeletionGrace_def)
  qed
qed

section \<open>Positions\<close>

definition is_new :: "storeObj \<Rightarrow> string \<Rightarrow> (string \<times> VersionObj) list option \<Rightarrow> string \<Rightarrow> bool" where
  "is_new st key localObj v \<longleftrightarrow>
     (case localObj of Some rows \<Rightarrow> map_of rows v = None | None \<Rightarrow> map_of (db_versions (st_db st)) (key, v) = None)"

lemma is_new_same: "same st st' \<Longrightarrow> is_new st' key localObj v = is_new st key localObj v"
  by (simp add: is_new_def same_def split: option.splits)

definition news_ok ::
  "storeObj \<Rightarrow> string \<Rightarrow> (string \<times> VersionObj) list option \<Rightarrow> string list \<Rightarrow> string list \<Rightarrow> string list \<Rightarrow> bool" where
  "news_ok st key localObj seen versionArr ns \<longleftrightarrow> subseq ns versionArr \<and> distinct ns \<and> set ns \<inter> set seen = {} \<and>
     (\<forall>v \<in> set ns. is_new st key localObj v) \<and>
     (localObj \<noteq> None \<longrightarrow> set ns = {v \<in> set versionArr. is_new st key localObj v} - set seen)"

lemma new_versions_result:
  "new_versions E key localObj seen versionArr st = (r, st') \<Longrightarrow>
   same st st' \<and> (\<exists>ns. r = Inr ns \<and> news_ok st key localObj seen versionArr ns)"
proof (induction versionArr arbitrary: seen st r st')
  case Nil
  have "news_ok st key localObj seen [] []" by (simp add: news_ok_def)
  then show ?case using Nil by (auto simp: sret_def)
next
  case (Cons v vs)
  show ?case
  proof (cases "v \<in> set seen")
    case True
    then show ?thesis using Cons.IH [of seen st r st'] Cons.prems by (auto simp: news_ok_def)
  next
    case False
    obtain x s1 where l: "not_stored E key localObj v st = (x, s1)" by fastforce
    have lk: "same st s1 \<and> (\<exists>b. x = Inr b \<and> (b \<longrightarrow> is_new st key localObj v) \<and> (localObj \<noteq> None \<longrightarrow> b = is_new st key localObj v))"
    proof (cases localObj)
      case None
      obtain y s2 where g: "sto_GetVersion E key v st = (y, s2)" by fastforce
      then show ?thesis using l None readsD [OF reads_sto(4) g] sto_GetVersion_Inr [of E key v st _ s2]
        by (auto simp: not_stored_def is_new_def split: sum.splits)
    next
      case (Some rows)
      then show ?thesis using l by (auto simp: not_stored_def is_new_def)
    qed
    then obtain b where b: "x = Inr b" "b \<longrightarrow> is_new st key localObj v" "localObj \<noteq> None \<longrightarrow> b = is_new st key localObj v"
      and sm: "same st s1" by blast
    obtain y s2 where n: "new_versions E key localObj (v # seen) vs s1 = (y, s2)" by fastforce
    from Cons.IH [OF n] obtain ns where y: "same s1 s2" "y = Inr ns" "news_ok s1 key localObj (v # seen) vs ns" by blast
    have r: "r = Inr (if b then v # ns else ns)" "st' = s2"
      using Cons.prems False l b(1) n y(2) by (auto simp: sbind_def sret_def)
    have ok: "subseq ns vs" "distinct ns" "set ns \<inter> set (v # seen) = {}" "\<forall>u \<in> set ns. is_new st key localObj u"
      "localObj \<noteq> None \<Longrightarrow> set ns = {u \<in> set vs. is_new st key localObj u} - set (v # seen)"
      using y(3) unfolding news_ok_def is_new_same [OF sm] by blast+
    have "news_ok st key localObj seen (v # vs) (if b then v # ns else ns)" unfolding news_ok_def
    proof (intro conjI impI)
      show "subseq (if b then v # ns else ns) (v # vs)" using ok(1) by (simp add: list_emb_Cons)
      show "distinct (if b then v # ns else ns)" using ok(2,3) by simp
      show "set (if b then v # ns else ns) \<inter> set seen = {}" using ok(3) False by auto
      show "\<forall>u \<in> set (if b then v # ns else ns). is_new st key localObj u" using ok(4) b(2) by simp
      assume l: "localObj \<noteq> None"
      have "b = is_new st key localObj v" using b(3) l by blast
      then show "set (if b then v # ns else ns) = {u \<in> set (v # vs). is_new st key localObj u} - set seen"
        using ok(5) [OF l] False by (cases b) auto
    qed
    then show ?thesis using r same_trans [OF sm y(1)] by blast
  qed
qed

lemma number_down_props:
  "map fst (number_down n vs) = vs"
  "sorted_wrt (>) (map snd (number_down n vs))"
  "p \<in> set (number_down n vs) \<Longrightarrow> n - int (length vs) < snd p \<and> snd p \<le> n"
proof -
  show "map fst (number_down n vs) = vs" by (induction vs arbitrary: n) auto
  have b: "p \<in> set (number_down n vs) \<Longrightarrow> n - int (length vs) < snd p \<and> snd p \<le> n" for p n
    by (induction vs arbitrary: n) (fastforce simp: )+
  then show "p \<in> set (number_down n vs) \<Longrightarrow> n - int (length vs) < snd p \<and> snd p \<le> n" .
  have b': "p \<in> set (number_down n ws) \<Longrightarrow> snd p \<le> n" for p n ws
    by (induction ws arbitrary: n) fastforce+
  show "sorted_wrt (>) (map snd (number_down n vs))"
    by (induction vs arbitrary: n) (auto dest!: b')
qed


lemma assignUpstreamSeqs_result:
  assumes t: "assignUpstreamSeqs E key versionArr localObj st = (r, st')"
  shows "same st st' \<and> (\<exists>seqs. r = Inr seqs \<and>
     (seqs = [] \<or> (\<exists>ns. news_ok st key localObj [] versionArr ns \<and>
        maxUpstreamSeq (st_db st) key + int (length ns) \<le> max_int64 \<and>
        seqs = number_down (maxUpstreamSeq (st_db st) key + int (length ns)) ns)))"
proof -
  obtain x s1 where m: "sto_MaxUpstreamSeq E key st = (x, s1)" by fastforce
  have sm: "same st s1" by (rule readsD [OF reads_sto(3) m])
  show ?thesis
  proof (cases x)
    case (Inl e)
    then show ?thesis using t m sm by (auto simp: assignUpstreamSeqs_def)
  next
    case (Inr baseSeq)
    have base: "baseSeq = maxUpstreamSeq (st_db st) key" using sto_MaxUpstreamSeq_Inr m Inr by blast
    obtain y s2 where n: "new_versions E key localObj [] versionArr s1 = (y, s2)" by fastforce
    from new_versions_result [OF n] obtain ns where ns: "same s1 s2" "y = Inr ns" "news_ok s1 key localObj [] versionArr ns"
      by blast
    have ok: "news_ok st key localObj [] versionArr ns" using ns(3) unfolding news_ok_def is_new_same [OF sm] .
    have "(r, st') = (Inr (if length ns = 0 \<or> baseSeq > max_int64 - int (length ns) then []
        else number_down (baseSeq + int (length ns)) ns), s2)"
      using t m Inr n ns(2) unfolding assignUpstreamSeqs_def by (auto simp: Let_def sret_def sbind_def)
    then show ?thesis using ok same_trans [OF sm ns(1)] unfolding base by (auto simp: not_less)
  qed
qed

end
