(* ===== verification/Rescan_Safe.thy ===== *)
theory Rescan_Safe
  imports Rescan_Cycle Rescan_Theorems State_Steps
begin

text \<open>
  What a pass over a key can do at all: the locale \<open>rescan_invariant\<close> lists the atomic changes a
  pass is made of (one operation of the store, of the registry, of the two tables, a change of the maps of the
  supervisor); whatever they preserve, \<open>runKey\<close> preserves, from every source, with every answer of the
  world and every failed call. Passes over different keys run in parallel; since the law speaks of
  single operations, which the store and the registry serialise, it also covers their interleavings.
\<close>

named_theorems stays_rules \<open>operations of the rescan that keep the invariant\<close>

definition stays :: "(rescanObj \<Rightarrow> bool) \<Rightarrow> 'a rs \<Rightarrow> bool" where
  "stays P m \<longleftrightarrow> (\<forall>r x r'. m r = (x, r') \<longrightarrow> P r \<longrightarrow> P r')"

lemma staysI: "(\<And>r x r'. m r = (x, r') \<Longrightarrow> P r \<Longrightarrow> P r') \<Longrightarrow> stays P m"
  unfolding stays_def by blast

lemma staysD: "stays P m \<Longrightarrow> m r = (x, r') \<Longrightarrow> P r \<Longrightarrow> P r'"
  unfolding stays_def by blast

lemma stays_bind [stays_rules]:
  assumes "stays P m" "\<And>x. stays P (f x)" shows "stays P (sbind m f)"
proof (rule staysI)
  fix r x r' assume "sbind m f r = (x, r')" "P r"
  then show "P r'" by (cases rule: sbindE) (blast dest: staysD [OF assms(1)] staysD [OF assms(2)])+
qed

lemma stays_pure [stays_rules]:
  "stays P (sret x)" "stays P (sfail e)" "stays P (slift y)" "stays P (sguard c e)" "stays P (sget g)"
  by (auto intro!: staysI simp: sret_def sfail_def slift_def sguard_def sget_def split: if_splits)

lemma stays_attempt [stays_rules]: "stays P m \<Longrightarrow> stays P (attempt m)"
  by (auto intro!: staysI simp: attempt_def dest: staysD split: prod.splits)

lemma stays_cases [stays_rules]:
  "stays P m1 \<Longrightarrow> stays P m2 \<Longrightarrow> stays P (if c then m1 else m2)"
  "stays P m1 \<Longrightarrow> (\<And>y. ox = Some y \<Longrightarrow> stays P (g y)) \<Longrightarrow> stays P (case ox of None \<Rightarrow> m1 | Some y \<Rightarrow> g y)"
  "(\<And>e. s = Inl e \<Longrightarrow> stays P (h1 e)) \<Longrightarrow> (\<And>y. s = Inr y \<Longrightarrow> stays P (h2 y)) \<Longrightarrow>
     stays P (case s of Inl e \<Rightarrow> h1 e | Inr y \<Rightarrow> h2 y)"
  "(\<And>a b. stays P (h3 a b)) \<Longrightarrow> stays P (case p of (a, b) \<Rightarrow> h3 a b)"
  by (auto split: option.splits sum.splits prod.splits)

lemma stays_siter: "(\<And>x. stays P (f x)) \<Longrightarrow> stays P (siter f xs)"
  by (induction xs) (auto intro: stays_rules)

section \<open>The laws\<close>

definition entries_in :: "store_env \<Rightarrow> bytes set \<Rightarrow> store_cfg \<Rightarrow> StagedEntryObj list \<Rightarrow> bool" where
  "entries_in E U cfg es \<longleftrightarrow>
     (case normalizeStagedEntries (entry_limits cfg) es of Inl _ \<Rightarrow> True
      | Inr (es, _, _) \<Rightarrow> (case Encode (sv_H E) es of Inl _ \<Rightarrow> True | Inr (d, _) \<Rightarrow> d \<in> U))"

text \<open>\<open>U\<close> has the contents of the spool and the encodings of the fetched trees.\<close>

definition rescan_covered :: "rescan_env \<Rightarrow> store_cfg \<Rightarrow> bytes set \<Rightarrow> bool" where
  "rescan_covered RE cfg U \<longleftrightarrow> files_in (re_store RE) U \<and>
     (\<forall>n key version url fmt a. re_fetch RE n key version url fmt = Inr a \<longrightarrow>
        entries_in (re_store RE) U cfg (fa_entries a)) \<and>
     (\<forall>n version b treeArr. re_version RE n version = Some b \<longrightarrow> Decode b = Inr treeArr \<longrightarrow>
        entries_in (re_store RE) U cfg (toStagedEntries treeArr)) \<and>
     (\<forall>n. ord_ok (re_order RE n))"

locale rescan_invariant =
  fixes RE :: rescan_env and cfg :: rescan_cfg and U :: "bytes set" and P :: "rescanObj \<Rightarrow> bool"
  assumes answers: "P r \<Longrightarrow> rescan_covered RE (rc_Store cfg) U"
    and maps: "P r \<Longrightarrow> P (r\<lparr>rs_miss := m, rs_permFail := f, rs_loadMiss := l, rs_dirty := d, rs_clock := n\<rparr>)"
    and store: "P r \<Longrightarrow> store_step (re_store RE) (rc_Store cfg) U (rs_store r) s \<Longrightarrow> P (r\<lparr>rs_store := s\<rparr>)"
    and state: "P r \<Longrightarrow> state_step (rs_state r) t \<Longrightarrow> P (r\<lparr>rs_state := t\<rparr>)"
    and tables: "stays P (PutIngestFailure RE fo)" "stays P (DeleteIngestFailure RE key version)"
      "stays P (PutKeySource RE ks)" "stays P (SetKeyListingMode RE key mode)"
begin

lemma keep_maps: "P r \<Longrightarrow> rs_store r' = rs_store r \<Longrightarrow> rs_state r' = rs_state r \<Longrightarrow> rs_failures r' = rs_failures r \<Longrightarrow>
    rs_keySources r' = rs_keySources r \<Longrightarrow> P r'"
proof -
  assume p: "P r" and e: "rs_store r' = rs_store r" "rs_state r' = rs_state r" "rs_failures r' = rs_failures r"
    "rs_keySources r' = rs_keySources r"
  have "r' = r\<lparr>rs_miss := rs_miss r', rs_permFail := rs_permFail r', rs_loadMiss := rs_loadMiss r',
      rs_dirty := rs_dirty r', rs_clock := rs_clock r'\<rparr>" using e by simp
  then show "P r'" using maps [OF p, where m = "rs_miss r'" and f = "rs_permFail r'" and
      l = "rs_loadMiss r'" and d = "rs_dirty r'" and n = "rs_clock r'"] by simp
qed

lemma stays_ask [stays_rules]: "stays P (ask g)"
  by (rule staysI) (auto simp: ask_def intro: keep_maps)

lemma stays_smod: "(\<And>r. rs_store (g r) = rs_store r \<and> rs_state (g r) = rs_state r \<and> rs_failures (g r) = rs_failures r \<and>
    rs_keySources (g r) = rs_keySources r) \<Longrightarrow> stays P (smod g)"
  by (rule staysI) (auto simp: smod_def intro: keep_maps)

lemma stays_covered: "(rescan_covered RE (rc_Store cfg) U \<Longrightarrow> stays P m) \<Longrightarrow> stays P m"
  using answers unfolding stays_def by blast

lemma stays_stop [stays_rules]: "stays P (check_stopped RE)"
  unfolding check_stopped_def by (intro stays_rules)

lemma stays_stor: "(\<And>st x s. m st = (x, s) \<Longrightarrow> store_step (re_store RE) (rc_Store cfg) U st s) \<Longrightarrow> stays P (stor m)"
  by (rule staysI) (auto simp: stor_def intro: store split: prod.splits)

lemma stays_reads: "reads m \<Longrightarrow> stays P (stor m)"
  by (rule stays_stor) (blast intro: store_step.read readsD)

lemma stays_registry:
  "(\<And>n now s x t. m n now s = (x, t) \<Longrightarrow> state_step s t) \<Longrightarrow> stays P (registry RE m)"
proof (rule staysI)
  fix r x r' assume step: "\<And>n now s x t. m n now s = (x, t) \<Longrightarrow> state_step s t" and t: "registry RE m r = (x, r')"
    and p: "P r"
  obtain y t' where m: "m (rs_clock r) (re_now RE (rs_clock r)) (rs_state r) = (y, t')" by fastforce
  have "P (r\<lparr>rs_state := t'\<rparr>)" by (rule state [OF p step [OF m]])
  then show "P r'" using t m by (auto simp: registry_def intro: keep_maps)
qed


section \<open>Diagnostics and the quarantine\<close>

lemma stays_diags [stays_rules]:
  "stays P (raise_diag RE code scope impact reason key version)" "stays P (raiseVersionDegraded RE key version code)"
  "stays P (raiseReleasesTruncated RE key)" "stays P (raiseListingModeConflict RE key)"
  "stays P (raiseKeyUnavailable RE key)" "stays P (clear_key_diag RE code key)" "stays P (clearKeyUnavailable RE key)"
proof -
  show r: "stays P (raise_diag RE code scope impact reason key version)" for code scope impact reason key version
    unfolding raise_diag_def by (intro stays_rules stays_registry) (rule state_step.raise)
  show c: "stays P (clear_key_diag RE code key)" for code key
    unfolding clear_key_diag_def by (intro stays_rules stays_registry) (rule state_step.clear)
  show "stays P (raiseVersionDegraded RE key version code)"
    unfolding raiseVersionDegraded_def Let_def by (intro stays_rules r)
  show "stays P (raiseReleasesTruncated RE key)" "stays P (raiseListingModeConflict RE key)"
    "stays P (raiseKeyUnavailable RE key)" "stays P (clearKeyUnavailable RE key)"
    unfolding raiseReleasesTruncated_def raiseListingModeConflict_def raiseKeyUnavailable_def clearKeyUnavailable_def
    by (intro r c)+
qed

lemma stays_marks [stays_rules]:
  "stays P (mark_down RE key cycleStart)" "stays P (mark_up RE key present cycleStart)"
  unfolding mark_down_def mark_up_def MarkUnavailable_def MarkAvailable_def
  by (intro stays_rules stays_registry; erule state_step.availability)+

lemma stays_quarantine [stays_rules]:
  "stays P (recordPermanentFailure RE key version ref code message)" "stays P (clearPermanentFailure RE key version)"
  "stays P (forceClearPermanentFailure RE key version)" "stays P (markVersionTerminalSuccess RE key version)"
  "stays P (raiseQuarantineSummary RE key)"
proof -
  show "stays P (recordPermanentFailure RE key version ref code message)"
    unfolding recordPermanentFailure_def
    by (intro stays_rules tables stays_smod) (simp add: markQuarantineDirty_def)
  show c: "stays P (clearPermanentFailure RE key version)"
    unfolding clearPermanentFailure_def by (intro stays_rules tables stays_smod) simp
  show "stays P (forceClearPermanentFailure RE key version)"
    unfolding forceClearPermanentFailure_def by (intro stays_rules tables stays_smod) simp
  show "stays P (markVersionTerminalSuccess RE key version)"
  proof (rule stays_covered)
    assume "rescan_covered RE (rc_Store cfg) U"
    then have "ord_ok (re_order RE n)" for n by (simp add: rescan_covered_def)
    then show ?thesis unfolding markVersionTerminalSuccess_def
      by (intro stays_rules c stays_registry) (erule state_step.clear_version [rotated])
  qed
  have k: "rs_store (fold keep_failure fs r) = rs_store r \<and> rs_state (fold keep_failure fs r) = rs_state r \<and>
      rs_failures (fold keep_failure fs r) = rs_failures r \<and> rs_keySources (fold keep_failure fs r) = rs_keySources r" for fs r
    by (induction fs arbitrary: r) (simp_all add: keep_failure_def split: option.splits)
  have l: "stays P (sto_ListIngestFailures RE key)"
    unfolding sto_ListIngestFailures_def ListIngestFailures_def rquery_def
    by (intro stays_rules stays_reads reads_valid reads_io)
  show "stays P (raiseQuarantineSummary RE key)"
    unfolding raiseQuarantineSummary_def Let_def
    by (intro stays_rules l stays_siter tables stays_smod) (simp add: k)
qed

section \<open>Publishing\<close>

lemma stays_store_ops [stays_rules]:
  "stays P (stor (RegisterArtifact (re_store RE) (rc_Store cfg) a))"
  "stays P (stor (PutDetection (re_store RE) key version d))"
  "stays P (stor (SetHealPending (re_store RE) key version pending))"
  "stays P (stor (ResurrectVersion (re_store RE) key version))"
  "stays P (stor (sto_TouchVersionVerified (re_store RE) key version ts ref))"
  by (rule stays_stor, erule store_step.register store_step.detection store_step.heal_pending store_step.resurrect
      store_step.touch)+

lemma stays_publish:
  assumes "entries_in (re_store RE) U (rc_Store cfg) (sp_Entries s)"
  shows "stays P (stor (PublishStaged (re_store RE) (rc_Store cfg) s))"
proof (rule stays_covered)
  assume "rescan_covered RE (rc_Store cfg) U"
  then have "staged_in (re_store RE) U (rc_Store cfg) s"
    using assms by (simp add: staged_in_def entries_in_def rescan_covered_def)
  then show ?thesis by (intro stays_stor) (rule store_step.staged)
qed

lemma stays_spool [stays_rules]: "stays P (stor (NewBlobSpool (re_store RE)))"
  unfolding NewBlobSpool_def by (intro stays_reads frame)

lemma stays_lookups [stays_rules]:
  "stays P (stor (sto_GetVersion (re_store RE) key version))" "stays P (stor (sto_GetDetection (re_store RE) key version))"
  "stays P (stor (sto_RewriteSet (re_store RE) key version))" "stays P (stor (sto_ListArtifacts (re_store RE) key version))"
  unfolding sto_RewriteSet_def RewriteSet_def by (intro stays_reads frame)+

lemma stays_detect [stays_rules]: "stays P (detectTree RE version treeArr)"
  unfolding detectTree_def by (intro stays_rules)

lemma stays_materialize_from: "stays P (materialize_from RE key version arts completeFlag pls)"
  by (induction pls arbitrary: arts completeFlag) (auto intro!: stays_rules)

lemma stays_materialize [stays_rules]: "stays P (materialize RE key version h det)"
  unfolding materialize_def by (intro stays_rules stays_materialize_from)

lemma stays_heal_plans: "stays P (heal_plans RE cfg i h have flags pls)"
proof (induction pls arbitrary: flags)
  case (Cons pl pls)
  then show ?case by (cases flags) (auto intro!: stays_rules simp: Let_def split: prod.splits)
qed (simp add: stays_rules)

lemma stays_heal [stays_rules]:
  "stays P (refresh_detection RE i d)" "stays P (healIncompleteArtifacts RE cfg i treeArr h)"
  "stays P (clearBlockedGoHeal RE key version v)"
proof -
  show r: "stays P (refresh_detection RE i d)" for d
    unfolding refresh_detection_def by (intro stays_rules)
  show "stays P (healIncompleteArtifacts RE cfg i treeArr h)"
    unfolding healIncompleteArtifacts_def by (intro stays_rules r stays_heal_plans)
  show "stays P (clearBlockedGoHeal RE key version v)"
    unfolding clearBlockedGoHeal_def by (intro stays_rules)
qed

lemma stays_outcomes [stays_rules]:
  "stays P (reject_version RE i h code)" "stays P (fail_version RE i code)" "stays P (succeed_version RE i)"
  unfolding reject_version_def fail_version_def succeed_version_def by (intro stays_rules)+

lemma stays_publishVersion:
  assumes e: "entries_in (re_store RE) U (rc_Store cfg) (pi_entries i)"
  shows "stays P (publishVersion RE cfg i)"
proof -
  have p: "stays P (stor (PublishStaged (re_store RE) (rc_Store cfg) (staged_publish i det arts c)))" for det arts c
    by (rule stays_publish) (use e in \<open>simp add: staged_publish_def\<close>)
  have er: "stays P (case x of ErrStagedSymlinkRejected t \<Rightarrow> f t | _ \<Rightarrow> g)"
    if "\<And>t. stays P (f t)" "stays P g" for x f and g :: "bool rs"
    using that by (cases x) simp_all
  have n: "stays P (new_tree RE cfg i treeArr h)" for treeArr h
    unfolding new_tree_def by (intro stays_rules p er)
  have k: "stays P (known_tree RE cfg i treeArr h v)" for treeArr h v
    unfolding known_tree_def by (intro stays_rules)
  show ?thesis unfolding publishVersion_def by (intro stays_rules n k)
qed

section \<open>Git sources\<close>

lemma stays_ask_bind: "(\<And>n. stays P (f (g n))) \<Longrightarrow> stays P (sbind (ask g) f)"
proof (rule staysI)
  fix r x r' assume f: "\<And>n. stays P (f (g n))" and t: "sbind (ask g) f r = (x, r')" and p: "P r"
  have "P (r\<lparr>rs_clock := Suc (rs_clock r)\<rparr>)" by (rule keep_maps [OF p]) simp_all
  moreover have "f (g (rs_clock r)) (r\<lparr>rs_clock := Suc (rs_clock r)\<rparr>) = (x, r')" using t by (simp add: sbind_def ask_def)
  ultimately show "P r'" using staysD [OF f] by blast
qed

lemma stays_phase [stays_rules]:
  "(\<And>b. stays P (g b)) \<Longrightarrow> stays P m3 \<Longrightarrow> stays P m4 \<Longrightarrow>
   stays P (case ph of FetchFailed b \<Rightarrow> g b | SourceHashFailed \<Rightarrow> m3 | ArchiveInvalid \<Rightarrow> m4)"
  "stays P m1 \<Longrightarrow> stays P m2 \<Longrightarrow> stays P (case c of True \<Rightarrow> m1 | False \<Rightarrow> m2)"
  by (auto split: fetchPhase.splits bool.splits)

lemma stays_fetch:
  assumes "\<And>e. stays P (f (Inl e))"
    and "\<And>a. entries_in (re_store RE) U (rc_Store cfg) (fa_entries a) \<Longrightarrow> stays P (f (Inr a))"
  shows "stays P (sbind (ask (\<lambda>n. re_fetch RE n key version url fmt)) f)"
proof (rule stays_covered, rule stays_ask_bind)
  fix n assume c: "rescan_covered RE (rc_Store cfg) U"
  show "stays P (f (re_fetch RE n key version url fmt))"
    using c assms by (cases "re_fetch RE n key version url fmt") (auto simp: rescan_covered_def)
qed

lemma stays_ingestGitVersion [stays_rules]: "stays P (ingestGitVersion RE cfg key g seq ref)"
  unfolding ingestGitVersion_def Let_def
  by (rule stays_rules stays_fetch stays_publishVersion | simp)+

lemma stays_git_steps [stays_rules]:
  "stays P (refetch_git RE cfg key g seq ref force)" "stays P (skip_git RE key version ref v)"
  "stays P (processGitRelease RE cfg key g seq ref existing rank cycleStart force budget)"
proof -
  show r: "stays P (refetch_git RE cfg key g seq ref force)" unfolding refetch_git_def by (intro stays_rules)
  show s: "stays P (skip_git RE key version ref v)" for version v unfolding skip_git_def by (intro stays_rules)
  have c: "stays P (case pl of PlanRefetch \<Rightarrow> m1 | PlanHeal \<Rightarrow> m2 | PlanVerify b \<Rightarrow> g b | PlanSkip \<Rightarrow> m4)"
    if "stays P m1" "stays P m2" "\<And>b. stays P (g b)" "stays P m4" for pl m1 m2 g and m4 :: "nat rs"
    using that by (cases pl) simp_all
  show "stays P (processGitRelease RE cfg key g seq ref existing rank cycleStart force budget)"
    unfolding processGitRelease_def by (intro stays_rules c r s)
qed

lemma stays_process_releases [stays_rules]:
  "stays P (process_releases RE cfg key refs ls seqs cycleStart force budget gs)"
  by (induction gs arbitrary: budget) (auto intro!: stays_rules)

lemma stays_listing_mode [stays_rules]: "stays P (persistListingMode RE key mode)"
  unfolding persistListingMode_def by (intro stays_rules tables)

lemma stays_listings [stays_rules]:
  "stays P (list_failed RE key cycleStart)" "stays P (listed RE key gs tr cycleStart)"
  "stays P (list_tags RE cfg key url persist cycleStart)" "stays P (listGitUndecided RE cfg key url persist cycleStart)"
  "stays P (list_pinned RE key res cycleStart)" "stays P (listGitVersions RE cfg key url mode persist cycleStart)"
proof -
  show f: "stays P (list_failed RE key cycleStart)" unfolding list_failed_def by (intro stays_rules)
  show l: "stays P (listed RE key gs tr cycleStart)" for gs tr unfolding listed_def by (intro stays_rules)
  show t: "stays P (list_tags RE cfg key url persist cycleStart)" for persist
    unfolding list_tags_def Let_def by (intro stays_rules f l)
  show u: "stays P (listGitUndecided RE cfg key url persist cycleStart)" for persist
    unfolding listGitUndecided_def Let_def by (intro stays_rules f l t)
  show p: "stays P (list_pinned RE key res cycleStart)" for res
    unfolding list_pinned_def by (intro stays_rules f l)
  show "stays P (listGitVersions RE cfg key url mode persist cycleStart)"
    unfolding listGitVersions_def Let_def by (intro stays_rules p u)
qed

section \<open>Deletion\<close>

lemma grace_step_P: "P r \<Longrightarrow> P (grace_step (re_store RE) cfg key ups floor minSeq v r)"
proof -
  assume p: "P r"
  have inc: "P (r\<lparr>rs_miss := m\<rparr>)" for m by (rule keep_maps [OF p]) simp_all
  have del: "P ((r\<lparr>rs_miss := m\<rparr>)\<lparr>rs_store := s\<rparr>)"
    if a: "apply_deletion (re_store RE) cfg key (v_Version v) (rs_store r) = (x, s)" for m x s
  proof (rule store [OF inc])
    show "store_step (re_store RE) (rc_Store cfg) U (rs_store (r\<lparr>rs_miss := m\<rparr>)) s"
      using a by (auto simp: apply_deletion_def intro: store_step.delete store_step.mark_deleted split: if_splits)
  qed
  have res: "P r' \<Longrightarrow> P (resetMiss k r')" for r' k by (erule keep_maps) (simp_all add: resetMiss_def)
  show "P (grace_step (re_store RE) cfg key ups floor minSeq v r)"
    unfolding grace_step_def Let_def incMiss_def
    using p inc res [OF p] by (auto simp: split: prod.splits sum.splits intro: del res)
qed

lemma stays_grace [stays_rules]: "stays P (deletion_grace RE cfg key ups floor minSeq)"
proof (rule staysI)
  fix r x r' assume t: "deletion_grace RE cfg key ups floor minSeq r = (x, r')" and p: "P r"
  obtain y s where l: "sto_ListVersions (re_store RE) key False (rs_store r) = (y, s)" by fastforce
  have q: "P (r\<lparr>rs_store := s\<rparr>)"
    by (rule store [OF p store_step.read [OF readsD [OF reads_sto(2) l]]])
  have f: "P r0 \<Longrightarrow> P (fold (grace_step (re_store RE) cfg key ups floor minSeq) vs r0)" for vs r0
    by (induction vs arbitrary: r0) (auto intro: grace_step_P)
  show "P r'" using t q f [OF q] l
    by (auto simp: deletion_grace_def smod_def applyDeletionGrace_def split: sum.splits)
qed

lemma stays_local [stays_rules]:
  "stays P (stor (localGitState E key))" "stays P (stor (assignUpstreamSeqs E key vs ls))"
proof -
  show "stays P (stor (assignUpstreamSeqs E key vs ls))"
    by (rule stays_stor) (use assignUpstreamSeqs_result in \<open>blast intro: store_step.read\<close>)
  show "stays P (stor (localGitState E key))"
    by (rule stays_stor) (auto simp: localGitState_def intro!: store_step.read dest: readsD [OF reads_sto(2)]
        split: prod.splits sum.splits)
qed

lemma stays_ingestGit [stays_rules]:
  "stays P (ingestGit RE cfg key url cycleStart allow force mode persist)"
  unfolding ingestGit_def by (intro stays_rules)

section \<open>Sibling instances\<close>

lemma stays_dial [stays_rules]:
  "stays P (confirmBrotherSession RE)" "stays P (dial_confirmed RE remoteKey url)"
  "stays P (dialBrotherFallback RE remoteKey urls)" "stays P (redialBrother RE remoteKey url)"
proof -
  show c: "stays P (confirmBrotherSession RE)" unfolding confirmBrotherSession_def by (intro stays_rules)
  show d: "stays P (dial_confirmed RE remoteKey url)" for url unfolding dial_confirmed_def by (intro stays_rules c)
  show "stays P (dialBrotherFallback RE remoteKey urls)" by (induction urls) (auto intro!: stays_rules d)
  show "stays P (redialBrother RE remoteKey url)" unfolding redialBrother_def by (intro stays_rules d)
qed

lemma stays_brother_pages: "stays P (brother_pages fuel RE page acc b src)"
  by (induction fuel arbitrary: page acc b src) (auto intro!: stays_rules simp: Let_def)

lemma stays_brotherIndex [stays_rules]: "stays P (brotherIndex RE)"
  unfolding brotherIndex_def by (rule stays_brother_pages)

lemma stays_fetch_blobs: "stays P (fetch_blobs_from RE version maxB maxC acc batch size' reqs)"
  by (induction reqs arbitrary: acc batch size') (auto intro!: stays_rules simp: flush_batch_def)

lemma stays_brotherFetchBlobs [stays_rules]: "stays P (brotherFetchBlobs RE version reqs)"
  unfolding brotherFetchBlobs_def by (intro stays_rules stays_fetch_blobs)

lemma stays_filterMissing [stays_rules]: "stays P (stor (filterMissingBlobReqs E reqs))"
  unfolding filterMissingBlobReqs_def FilterMissingBlobs_def MissingBlobs_def Let_def by (intro stays_reads frame)

lemma stays_ingestBrotherVersion [stays_rules]: "stays P (ingestBrotherVersion RE cfg key b seq)"
proof (rule stays_covered)
  assume c: "rescan_covered RE (rc_Store cfg) U"
  have j: "stays P (reject_brother RE key b code)" for code
    unfolding reject_brother_def recordBrotherPermanentFailure_def by (intro stays_rules)
  have p: "stays P (pull_brother RE cfg key b seq tb treeArr)"
    if "entries_in (re_store RE) U (rc_Store cfg) (toStagedEntries treeArr)" for tb treeArr
    unfolding pull_brother_def Let_def by (intro stays_rules stays_publishVersion j) (simp add: that)
  show ?thesis unfolding ingestBrotherVersion_def Let_def
    by (intro stays_ask_bind stays_rules j p) (use c in \<open>auto simp: rescan_covered_def\<close>)
qed

lemma stays_canSkip [stays_rules]: "stays P (canSkipKnownTree RE key version h)"
  unfolding canSkipKnownTree_def by (intro stays_rules)

lemma stays_brother_versions [stays_rules]:
  "stays P (brother_versions RE cfg key remoteKey url force seqs redials done' bs)"
  by (induction bs arbitrary: redials done') (auto intro!: stays_rules)

lemma stays_sync_brother [stays_rules]: "stays P (sync_brother RE cfg key remoteKey url force cycleStart bs)"
  unfolding sync_brother_def brotherFallbackSeqs_def Let_def by (intro stays_rules)

lemma stays_detailSkip [stays_rules]: "stays P (publicMirrorDetailSkip RE key force version)"
  unfolding publicMirrorDetailSkip_def by (intro stays_rules)

lemma stays_mirror_entries [stays_rules]: "stays P (mirror_entries RE key force l vs)"
  by (induction vs arbitrary: l) (auto intro!: stays_rules simp: Let_def)

lemma stays_mirror_pages: "stays P (mirror_pages fuel RE root remoteKey key force next' seen l)"
proof (induction fuel arbitrary: next' seen l)
  case (Suc fuel)
  have c: "stays P (case pg of MirrorError \<Rightarrow> m1 | MirrorDone l \<Rightarrow> g l | MirrorMore l \<Rightarrow> h l)"
    if "stays P m1" "\<And>l. stays P (g l)" "\<And>l. stays P (h l)"
    for pg g h and m1 :: "PublicMirrorListingObj option option rs"
    using that by (cases pg) simp_all
  show ?case unfolding mirror_pages.simps by (intro stays_rules c Suc.IH)
qed (simp add: stays_rules)

lemma stays_mirror_version [stays_rules]: "stays P (ingestPublicMirrorVersion RE cfg key e seq)"
  unfolding ingestPublicMirrorVersion_def Let_def
  by (rule stays_rules stays_fetch stays_publishVersion | simp)+

lemma stays_mirror_versions [stays_rules]: "stays P (mirror_versions RE cfg key force seqs done' es)"
  by (induction es arbitrary: done') (auto intro!: stays_rules)

lemma stays_public [stays_rules]:
  "stays P (ingestBrotherPublic RE cfg key remoteKey force cycleStart url)"
  "stays P (ingestBrotherPublicFallback RE cfg key remoteKey force cycleStart urls)"
proof -
  show p: "stays P (ingestBrotherPublic RE cfg key remoteKey force cycleStart url)" for url
    unfolding ingestBrotherPublic_def PublicMirrorVersions_def Let_def by (intro stays_rules stays_mirror_pages)
  show "stays P (ingestBrotherPublicFallback RE cfg key remoteKey force cycleStart urls)"
    by (induction urls) (auto intro!: stays_rules p)
qed

lemma stays_ingestBrother [stays_rules]:
  "stays P (ingestBrother RE cfg key sourceURL remoteKey brotherURL ks force cycleStart)"
proof -
  have r: "stays P (firstSourceReachable RE url)" for url unfolding firstSourceReachable_def by (intro stays_rules)
  have po: "stays P (persistBrotherOrigin RE key brotherURL ks announced)" for announced
    unfolding persistBrotherOrigin_def by (intro stays_rules tables)
  have o: "stays P (tryOriginFallback RE cfg key brotherURL ks sourceURL cycleStart)"
    unfolding tryOriginFallback_def Let_def by (intro stays_rules r)
  show ?thesis unfolding ingestBrother_def Let_def by (intro stays_rules r po o)
qed

section \<open>The pass\<close>

lemma stays_ingest_class [stays_rules]: "stays P (ingest_class RE cfg key force cycleStart cls src bro rk ks)"
  unfolding ingest_class_def by (cases cls) (simp_all add: stays_rules)

lemma stays_rediscover [stays_rules]: "stays P (rediscover RE cfg key force cycleStart recovering ks)"
proof -
  have a: "stays P (registry RE (\<lambda>_ now. MarkAvailable now key True cycleStart))"
    unfolding MarkAvailable_def by (rule stays_registry, erule state_step.availability)
  have c: "stays P (registry RE (\<lambda>_ _. SetClassification key cls src bro))" for cls src bro
    by (rule stays_registry, erule state_step.classification)
  have k: "stays P (registry RE (\<lambda>_ _. SetRemoteKey key rk))" for rk
    by (rule stays_registry, erule state_step.remote_key)
  have d: "stays P (persistDiscovery RE key root d ks)" for root d
    unfolding persistDiscovery_def Let_def by (intro stays_rules tables)
  show ?thesis unfolding rediscover_def Let_def by (intro stays_rules a c k d)
qed

lemma stays_scan [stays_rules]: "stays P (scan_key RE cfg key force cycleStart)"
  unfolding scan_key_def sto_GetKeySource_def GetKeySource_def rquery_def Let_def
  by (intro stays_rules stays_reads frame)

lemma stays_reconcile [stays_rules]: "stays P (reconcileKeyStats RE key)"
proof -
  have s: "stays P (registry RE (\<lambda>_ _. SetMirrorStatsBatch sts))" for sts
    by (rule stays_registry, erule state_step.stats)
  show ?thesis
    unfolding reconcileKeyStats_def sto_LatestVersion_def sto_CountVersions_def LatestVersion_def CountVersionsByKey_def
    by (intro stays_rules stays_reads frame s)
qed

lemma stays_runKey: "stays P (runKey RE cfg key force cycleStart)"
  unfolding runKey_def by (intro stays_rules)

end

end
