(* ===== verification/Rescan_Tables.thy ===== *)
theory Rescan_Tables
  imports Rescan_Safe
begin

text \<open>
  The two tables of the rescan: their operations keep the primary keys, the bound of the quarantine
  and the listing modes. With the reachability of the store and of the registry this is the invariant
  that every pass keeps.
\<close>

section \<open>Operations on the tables\<close>

definition tabs :: "rescanObj \<Rightarrow> (vkey \<times> IngestFailureObj) list \<times> (string \<times> KeySourceObj) list" where
  "tabs r = (rs_failures r, rs_keySources r)"

text \<open>\<open>aside r r'\<close>: between \<open>r\<close> and \<open>r'\<close> the store was only read and the registry not used.\<close>

definition aside :: "rescanObj \<Rightarrow> rescanObj \<Rightarrow> bool" where
  "aside r r' \<longleftrightarrow> same (rs_store r) (rs_store r') \<and> rs_state r' = rs_state r"

lemma aside_refl: "aside r r" by (simp add: aside_def same_refl)
lemma aside_trans: "aside a b \<Longrightarrow> aside b c \<Longrightarrow> aside a c"
  unfolding aside_def by (metis same_trans)

definition quiet :: "'a rs \<Rightarrow> bool" where
  "quiet m \<longleftrightarrow> (\<forall>r x r'. m r = (x, r') \<longrightarrow> aside r r' \<and> tabs r' = tabs r)"

lemma quietD: "quiet m \<Longrightarrow> m r = (x, r') \<Longrightarrow> aside r r' \<and> tabs r' = tabs r"
  unfolding quiet_def by blast

lemma quiet_stor: "reads m \<Longrightarrow> quiet (stor m)"
  by (auto simp: quiet_def stor_def aside_def tabs_def dest: readsD split: prod.splits)

lemma quiet_basic: "quiet (sret x)" "quiet (sget f)" "quiet (slift y)" "quiet (sguard c e)" "quiet (ask g)"
  by (auto simp: quiet_def sret_def sget_def slift_def sguard_def sfail_def ask_def aside_def tabs_def same_refl)

lemma quiet_bind: "quiet m \<Longrightarrow> (\<And>x. quiet (f x)) \<Longrightarrow> quiet (sbind m f)"
  unfolding quiet_def sbind_def by (fastforce split: prod.splits sum.splits intro: aside_trans)

lemma quiet_rquery: "quiet (rquery RE f)"
  unfolding rquery_def by (intro quiet_bind quiet_stor reads_io quiet_basic)

text \<open>A table statement in a transaction either leaves the tables or applies its change to them.\<close>

lemma table_tx:
  assumes g: "\<And>a b. g a = Inr b \<Longrightarrow> aside a b" and t: "rWithTx RE (rexec RE g) r = (x, r')"
  shows "aside r r' \<and> (tabs r' = tabs r \<or> (\<exists>a b. tabs a = tabs r \<and> g a = Inr b \<and> tabs r' = tabs b))"
proof -
  obtain x1 s1 where io1: "io (re_store RE) (rs_store r) = (x1, s1)" by fastforce
  let ?r1 = "r\<lparr>rs_store := s1\<rparr>"
  obtain x2 s2 where io2: "io (re_store RE) s1 = (x2, s2)" by fastforce
  let ?r2 = "r\<lparr>rs_store := s2\<rparr>"
  have s: "same (rs_store r) s1" "same s1 s2" using io_same [OF io1] io_same [OF io2] by blast+
  have e: "rWithTx RE (rexec RE g) r = (case x1 of Inl e \<Rightarrow> (Inl e, ?r1)
      | Inr _ \<Rightarrow> on_error (rollback ?r1) (sbind (rexec RE g) (\<lambda>x. sbind (stor (io (re_store RE))) (\<lambda>_. sret x))) ?r1)"
    by (simp add: rWithTx_def sbind_def stor_def io1 sget_def split: sum.splits)
  show ?thesis
  proof (cases x1)
    case (Inl e1)
    then show ?thesis using t e s by (auto simp: aside_def tabs_def)
  next
    case ok1: (Inr u1)
    have ex: "rexec RE g ?r1 = (case x2 of Inl e \<Rightarrow> (Inl e, ?r2)
        | Inr _ \<Rightarrow> (case g ?r2 of Inl e \<Rightarrow> (Inl e, ?r2) | Inr b \<Rightarrow> (Inr (), b)))"
      by (simp add: rexec_def sbind_def stor_def io2 split: sum.splits)
    show ?thesis
    proof (cases "\<exists>b. x2 = Inr () \<and> g ?r2 = Inr b")
      case False
      then have "\<exists>e. rexec RE g ?r1 = (Inl e, ?r2)" using ex by (cases x2; cases "g ?r2") auto
      then have "r' = rollback ?r1 ?r2" using t e ok1 by (auto simp: on_error_def sbind_def)
      then show ?thesis using s same_trans by (auto simp: rollback_def aside_def tabs_def)
    next
      case True
      then obtain b where b: "rexec RE g ?r1 = (Inr (), b)" "g ?r2 = Inr b" using ex by auto
      obtain x3 s3 where io3: "io (re_store RE) (rs_store b) = (x3, s3)" by fastforce
      have "r' = (case x3 of Inl _ \<Rightarrow> rollback ?r1 (b\<lparr>rs_store := s3\<rparr>) | Inr _ \<Rightarrow> b\<lparr>rs_store := s3\<rparr>)"
        using t e ok1 b(1) io3 by (auto simp: on_error_def sbind_def stor_def sret_def split: sum.splits)
      then have r': "r' = rollback ?r1 (b\<lparr>rs_store := s3\<rparr>) \<or> r' = b\<lparr>rs_store := s3\<rparr>" by (auto split: sum.splits)
      have ab: "same s2 (rs_store b)" "rs_state b = rs_state r" using g [OF b(2)] by (simp_all add: aside_def)
      have "same (rs_store r) s3"
        by (rule same_trans [OF same_trans [OF same_trans [OF s] ab(1)] io_same [OF io3]])
      moreover have "rs_store r' = s3" "rs_state r' = rs_state b" using r' by (auto simp: rollback_def)
      ultimately have "aside r r'" using ab(2) by (simp add: aside_def)
      moreover have "tabs r' = tabs r \<or> tabs r' = tabs b" using r' by (auto simp: rollback_def tabs_def)
      moreover have "tabs ?r2 = tabs r" by (simp add: tabs_def)
      ultimately show ?thesis using b(2) by blast
    qed
  qed
qed


type_synonym tables = "(vkey \<times> IngestFailureObj) list \<times> (string \<times> KeySourceObj) list"

definition change :: "(tables \<Rightarrow> tables \<Rightarrow> bool) \<Rightarrow> rescanObj \<Rightarrow> rescanObj \<Rightarrow> bool" where
  "change Q r r' \<longleftrightarrow> aside r r' \<and> (tabs r' = tabs r \<or> Q (tabs r) (tabs r'))"

lemma change_refl: "aside r r' \<Longrightarrow> tabs r' = tabs r \<Longrightarrow> change Q r r'"
  by (simp add: change_def)

lemma change_bind:
  assumes t: "sbind m f r = (x, r')" and q: "quiet m"
    and n: "\<And>y r1. m r = (Inr y, r1) \<Longrightarrow> aside r r1 \<Longrightarrow> tabs r1 = tabs r \<Longrightarrow> f y r1 = (x, r') \<Longrightarrow> change Q r1 r'"
  shows "change Q r r'"
  using t
proof (cases rule: sbindE)
  case (err e)
  then show ?thesis using quietD [OF q err(1)] by (simp add: change_def)
next
  case (ok y r1)
  note s = quietD [OF q ok(1)]
  have "change Q r1 r'" by (rule n [OF ok(1)]) (use s ok(2) in simp_all)
  then show ?thesis using s aside_trans unfolding change_def by metis
qed

section \<open>What they keep\<close>

definition in_quarantine :: "string \<Rightarrow> (vkey \<times> IngestFailureObj) list \<Rightarrow> nat" where
  "in_quarantine key fs = length (filter (\<lambda>e. fst (fst e) = key) fs)"

definition tables_ok :: "tables \<Rightarrow> bool" where
  "tables_ok t \<longleftrightarrow> distinct (map fst (fst t)) \<and> (\<forall>e \<in> set (fst t). fst e = (if_Key (snd e), if_Version (snd e))) \<and>
     (\<forall>key. in_quarantine key (fst t) \<le> cMaxIngestFailuresPerKey) \<and> distinct (map fst (snd t)) \<and>
     (\<forall>e \<in> set (snd t). kso_Key (snd e) = fst e \<and> kso_ListingMode (snd e) \<in> {[], ListingModeReleases, ListingModeTags})"

definition has_room :: "IngestFailureObj \<Rightarrow> (vkey \<times> IngestFailureObj) list \<Rightarrow> bool" where
  "has_room f fs \<longleftrightarrow> map_of fs (if_Key f, if_Version f) \<noteq> None \<or> in_quarantine (if_Key f) fs < cMaxIngestFailuresPerKey"

lemma set_update: "set (AList.update k v al) \<subseteq> insert (k, v) (set al)"
  by (induction al) auto

lemma in_quarantine_update:
  "in_quarantine key (AList.update k v fs) =
     (if map_of fs k = None \<and> fst k = key then Suc (in_quarantine key fs) else in_quarantine key fs)"
  by (induction fs) (auto simp: in_quarantine_def)

lemma upsert_ok:
  assumes ok: "tables_ok (fs, al)" and r: "has_room f fs" and u: "upsert_failure f fs = Inr fs'"
  shows "tables_ok (fs', al)"
proof -
  let ?k = "(if_Key f, if_Version f)"
  obtain v where fs': "fs' = AList.update ?k v fs" and v: "if_Key v = if_Key f" "if_Version v = if_Version f"
    using u by (auto simp: upsert_failure_def Let_def split: option.splits if_splits)
  have q: "in_quarantine key fs' \<le> cMaxIngestFailuresPerKey" for key
  proof -
    have o: "in_quarantine key fs \<le> cMaxIngestFailuresPerKey" using ok unfolding tables_ok_def by simp
    show ?thesis unfolding fs' in_quarantine_update using r o by (auto simp: has_room_def)
  qed
  show ?thesis using ok q v set_update [of ?k v fs] unfolding tables_ok_def fs'
    by (auto simp: distinct_update)
qed

lemma delete_ok:
  assumes "tables_ok (fs, al)" shows "tables_ok (AList.delete k fs, al)" "tables_ok (filter p fs, al)"
proof -
  have l: "in_quarantine key (filter p fs) \<le> in_quarantine key fs" for key p
    by (induction fs) (auto simp: in_quarantine_def)
  have f: "tables_ok (filter p fs, al)" for p
    using assms le_trans [OF l] unfolding tables_ok_def by (auto intro: distinct_map_filter)
  then show "tables_ok (filter p fs, al)" .
  show "tables_ok (AList.delete k fs, al)" unfolding AList.delete_eq by (rule f)
qed

lemma source_ok:
  assumes "tables_ok (fs, al)" "insert_source ks al = Inr al'" shows "tables_ok (fs, al')"
proof -
  obtain v where al': "al' = AList.update (kso_Key ks) v al" and v: "kso_Key v = kso_Key ks"
    "kso_ListingMode v \<in> {[], ListingModeReleases, ListingModeTags}"
  proof (cases "map_of al (kso_Key ks)")
    case None
    then show ?thesis using assms(2) that by (auto simp: insert_source_def Let_def split: if_splits)
  next
    case (Some old)
    then have "kso_ListingMode old \<in> {[], ListingModeReleases, ListingModeTags}"
      using assms(1) map_of_SomeD [OF Some] unfolding tables_ok_def by fastforce
    then show ?thesis using assms(2) that Some by (auto simp: insert_source_def Let_def split: if_splits)
  qed
  show ?thesis using assms(1) v set_update [of "kso_Key ks" v al] unfolding tables_ok_def al'
    by (auto simp: distinct_update)
qed

lemma mode_ok:
  assumes "tables_ok (fs, al)" "mode \<in> {[], ListingModeReleases, ListingModeTags}"
  shows "tables_ok (fs, set_mode key mode al)"
proof (cases "map_of al key")
  case None
  then show ?thesis using assms by (simp add: set_mode_def)
next
  case (Some old)
  then have "kso_Key old = key" using assms(1) map_of_SomeD [OF Some] unfolding tables_ok_def by fastforce
  then show ?thesis using assms Some set_update [of key "old\<lparr>kso_ListingMode := mode\<rparr>" al]
    unfolding tables_ok_def by (auto simp: set_mode_def distinct_update)
qed


section \<open>The operations\<close>

text \<open>A transaction of one statement that changes only the tables, as \<open>g\<close> says.\<close>

lemma tx_failures:
  assumes t: "rWithTx RE (rexec RE (\<lambda>r. case g (rs_failures r) of Inl e \<Rightarrow> Inl e | Inr fs \<Rightarrow> Inr (r\<lparr>rs_failures := fs\<rparr>))) r = (x, r')"
  shows "change (\<lambda>(fs, al) (fs', al'). g fs = Inr fs' \<and> al' = al) r r'"
proof -
  let ?g = "\<lambda>r. case g (rs_failures r) of Inl e \<Rightarrow> Inl e | Inr fs \<Rightarrow> Inr (r\<lparr>rs_failures := fs\<rparr>)"
  have a: "aside a b" if "?g a = Inr b" for a b
    using that by (auto simp: aside_def same_refl split: sum.splits)
  from table_tx [of ?g, OF a t] have s: "aside r r'"
    and or: "tabs r' = tabs r \<or> (\<exists>a b. tabs a = tabs r \<and> ?g a = Inr b \<and> tabs r' = tabs b)" by blast+
  from or show ?thesis
  proof
    assume "tabs r' = tabs r"
    then show ?thesis using s by (simp add: change_def)
  next
    assume "\<exists>a b. tabs a = tabs r \<and> ?g a = Inr b \<and> tabs r' = tabs b"
    then obtain a b where ab: "tabs a = tabs r" "?g a = Inr b" "tabs r' = tabs b" by blast
    then obtain y where "g (rs_failures a) = Inr y" "b = a\<lparr>rs_failures := y\<rparr>" by (auto split: sum.splits)
    then show ?thesis using s ab(1,3) by (simp add: change_def tabs_def)
  qed
qed

lemma tx_sources:
  assumes t: "rWithTx RE (rexec RE (\<lambda>r. case g (rs_keySources r) of Inl e \<Rightarrow> Inl e | Inr al \<Rightarrow> Inr (r\<lparr>rs_keySources := al\<rparr>))) r = (x, r')"
  shows "change (\<lambda>(fs, al) (fs', al'). g al = Inr al' \<and> fs' = fs) r r'"
proof -
  let ?g = "\<lambda>r. case g (rs_keySources r) of Inl e \<Rightarrow> Inl e | Inr al \<Rightarrow> Inr (r\<lparr>rs_keySources := al\<rparr>)"
  have a: "aside a b" if "?g a = Inr b" for a b
    using that by (auto simp: aside_def same_refl split: sum.splits)
  from table_tx [of ?g, OF a t] have s: "aside r r'"
    and or: "tabs r' = tabs r \<or> (\<exists>a b. tabs a = tabs r \<and> ?g a = Inr b \<and> tabs r' = tabs b)" by blast+
  from or show ?thesis
  proof
    assume "tabs r' = tabs r"
    then show ?thesis using s by (simp add: change_def)
  next
    assume "\<exists>a b. tabs a = tabs r \<and> ?g a = Inr b \<and> tabs r' = tabs b"
    then obtain a b where ab: "tabs a = tabs r" "?g a = Inr b" "tabs r' = tabs b" by blast
    then obtain y where "g (rs_keySources a) = Inr y" "b = a\<lparr>rs_keySources := y\<rparr>" by (auto split: sum.splits)
    then show ?thesis using s ab(1,3) by (simp add: change_def tabs_def)
  qed
qed

lemma tx_failures_pure:
  assumes "rWithTx RE (rexec RE (\<lambda>r. Inr (r\<lparr>rs_failures := g (rs_failures r)\<rparr>))) r = (x, r')"
  shows "change (\<lambda>(fs, al) (fs', al'). fs' = g fs \<and> al' = al) r r'"
  using tx_failures [of RE "\<lambda>fs. Inr (g fs)" r x r'] assms by (simp add: change_def split_def eq_commute)

lemma tx_sources_pure:
  assumes "rWithTx RE (rexec RE (\<lambda>r. Inr (r\<lparr>rs_keySources := g (rs_keySources r)\<rparr>))) r = (x, r')"
  shows "change (\<lambda>(fs, al) (fs', al'). al' = g al \<and> fs' = fs) r r'"
  using tx_sources [of RE "\<lambda>al. Inr (g al)" r x r'] assms by (simp add: change_def split_def eq_commute)

definition kept :: "rescanObj \<Rightarrow> rescanObj \<Rightarrow> bool" where
  "kept = change (\<lambda>t t'. tables_ok t \<longrightarrow> tables_ok t')"

lemma kept_tx:
  "change Q r r' \<Longrightarrow> (\<And>t'. tables_ok (tabs r) \<Longrightarrow> Q (tabs r) t' \<Longrightarrow> tables_ok t') \<Longrightarrow> kept r r'"
  unfolding kept_def change_def by blast

lemmas kept_bind = change_bind [where Q = "\<lambda>t t'. tables_ok t \<longrightarrow> tables_ok t'", folded kept_def]

lemma kept_refl: "quiet m \<Longrightarrow> m r = (x, r') \<Longrightarrow> kept r r'"
  using quietD [of m r x r'] by (simp add: kept_def change_def)

lemma GetIngestFailure_Inr: "GetIngestFailure RE key version r = (Inr found, r') \<Longrightarrow> found = map_of (rs_failures r) (key, version)"
  by (auto simp: GetIngestFailure_def rquery_def op_Inr stor_def split: prod.splits)

lemma CountIngestFailures_Inr: "CountIngestFailures RE key r = (Inr n, r') \<Longrightarrow> n = in_quarantine key (rs_failures r)"
  by (auto simp: CountIngestFailures_def rquery_def op_Inr stor_def failures_of_def in_quarantine_def split: prod.splits)

lemmas quiet_rules = quiet_bind quiet_basic quiet_rquery quiet_stor [OF reads_io] quiet_stor [OF reads_valid(1)]
  quiet_stor [OF reads_valid(2)]

lemma quiet_room: "quiet (check_room RE f found)" "quiet (GetIngestFailure RE key version)"
  unfolding check_room_def CountIngestFailures_def GetIngestFailure_def by (auto intro!: quiet_rules)

lemma check_room_Inr:
  "check_room RE f (map_of (rs_failures r) (if_Key f, if_Version f)) r = (Inr u, r') \<Longrightarrow> has_room f (rs_failures r)"
  using CountIngestFailures_Inr [of RE "if_Key f" r]
  by (auto simp: check_room_def has_room_def op_Inr not_le split: if_splits)

lemma PutIngestFailure_kept: "PutIngestFailure RE f0 r = (x, r') \<Longrightarrow> kept r r'"
  unfolding PutIngestFailure_def
proof (erule kept_bind)
  show "quiet (sbind (stor (io (re_store RE))) (\<lambda>_. sbind (ask (re_now RE)) (\<lambda>now.
      slift (normalizeIngestFailure (re_store RE) now f0))))" by (intro quiet_rules)
  fix f :: IngestFailureObj and r1
  assume "sbind (GetIngestFailure RE (if_Key f) (if_Version f)) (\<lambda>found.
      sbind (check_room RE f found) (\<lambda>_. rWithTx RE (UpsertIngestFailure RE f))) r1 = (x, r')"
  then show "kept r1 r'"
  proof (rule kept_bind [OF _ quiet_room(2)])
    fix found r2 assume g: "GetIngestFailure RE (if_Key f) (if_Version f) r1 = (Inr found, r2)" "tabs r2 = tabs r1"
      and "sbind (check_room RE f found) (\<lambda>_. rWithTx RE (UpsertIngestFailure RE f)) r2 = (x, r')"
    from this(3) show "kept r2 r'"
    proof (rule kept_bind [OF _ quiet_room(1)])
      fix u r3 assume ok: "check_room RE f found r2 = (Inr u, r3)" "tabs r3 = tabs r2"
        and u: "rWithTx RE (UpsertIngestFailure RE f) r3 = (x, r')"
      have "found = map_of (rs_failures r2) (if_Key f, if_Version f)"
        using GetIngestFailure_Inr [OF g(1)] g(2) by (simp add: tabs_def)
      then have room: "has_room f (rs_failures r3)" using check_room_Inr ok by (auto simp: tabs_def)
      show "kept r3 r'"
        by (rule kept_tx [OF tx_failures [OF u [unfolded UpsertIngestFailure_def]]])
           (use upsert_ok [OF _ room] in \<open>auto simp: tabs_def\<close>)
    qed
  qed
qed

lemma DeleteIngestFailure_kept:
  "DeleteIngestFailure RE key version r = (x, r') \<Longrightarrow> kept r r'"
  "DeleteKeyIngestFailures RE key r = (x, r') \<Longrightarrow> kept r r'"
  unfolding DeleteIngestFailure_def DeleteKeyIngestFailures_def tx_DeleteIngestFailure_def tx_DeleteKeyIngestFailures_def
  by ((erule kept_bind, intro quiet_rules, erule tx_failures_pure [THEN kept_tx], auto simp: tabs_def intro: delete_ok)[1])+

lemma quiet_source: "quiet (GetKeySource RE key)"
  unfolding GetKeySource_def by (intro quiet_rules)

lemma InsertKeySource_kept: "rWithTx RE (InsertKeySource RE ks) r = (x, r') \<Longrightarrow> kept r r'"
  unfolding InsertKeySource_def
  by (erule tx_sources [THEN kept_tx]) (auto simp: tabs_def intro: source_ok)

lemma UpdateMode_kept:
  "rWithTx RE (UpdateKeySourceListingMode RE key mode) r = (x, r') \<Longrightarrow>
   mode \<in> {[], ListingModeReleases, ListingModeTags} \<Longrightarrow> kept r r'"
  unfolding UpdateKeySourceListingMode_def
  by (erule tx_sources_pure [THEN kept_tx]) (auto simp: tabs_def intro: mode_ok)

lemma kept_if: "(if c then m1 else m2) r = (x, r') \<Longrightarrow> (c \<Longrightarrow> m1 r = (x, r') \<Longrightarrow> kept r r') \<Longrightarrow>
    (\<not> c \<Longrightarrow> m2 r = (x, r') \<Longrightarrow> kept r r') \<Longrightarrow> kept r r'"
  by (cases c) simp_all

lemma PutKeySource_kept: "PutKeySource RE ks r = (x, r') \<Longrightarrow> kept r r'"
  unfolding PutKeySource_def
proof (erule kept_bind)
  show "quiet (stor (valid_key (re_store RE) (kso_Key ks)))" by (intro quiet_rules)
  fix r1 assume "sbind (GetKeySource RE (kso_Key ks)) (\<lambda>existing.
     if (case existing of Some old \<Rightarrow> keySourceUnchanged old ks | None \<Rightarrow> False) then sret ()
     else sbind (ask (re_now RE)) (\<lambda>now.
       rWithTx RE (InsertKeySource RE (if kso_BoundTS ks = 0 then ks\<lparr>kso_BoundTS := now\<rparr> else ks)))) r1 = (x, r')"
  then show "kept r1 r'"
    by (rule kept_bind [OF _ quiet_source])
       (erule kept_if, erule kept_refl [OF quiet_basic(1)], erule kept_bind [OF _ quiet_basic(5)], rule InsertKeySource_kept)
qed

lemma SetKeyListingMode_kept: "SetKeyListingMode RE key mode r = (x, r') \<Longrightarrow> kept r r'"
  unfolding SetKeyListingMode_def
proof (erule kept_bind)
  show "quiet (stor (valid_key (re_store RE) key))" by (intro quiet_rules)
  fix r1 assume "sbind (sguard (mode \<notin> {[], ListingModeReleases, ListingModeTags}) (ErrInvalid ''listing mode'')) (\<lambda>_.
     sbind (GetKeySource RE key) (\<lambda>existing.
     if (case existing of Some old \<Rightarrow> kso_ListingMode old = mode | None \<Rightarrow> False) then sret ()
     else rWithTx RE (UpdateKeySourceListingMode RE key mode))) r1 = (x, r')"
  then show "kept r1 r'"
  proof (rule kept_bind [OF _ quiet_basic(4)])
    fix u r2 assume m: "sguard (mode \<notin> {[], ListingModeReleases, ListingModeTags}) (ErrInvalid ''listing mode'') r1 = (Inr u, r2)"
      and "sbind (GetKeySource RE key) (\<lambda>existing.
        if (case existing of Some old \<Rightarrow> kso_ListingMode old = mode | None \<Rightarrow> False) then sret ()
        else rWithTx RE (UpdateKeySourceListingMode RE key mode)) r2 = (x, r')"
    have mode: "mode \<in> {[], ListingModeReleases, ListingModeTags}"
      using m by (auto simp: sguard_def sfail_def split: if_splits)
    from \<open>sbind (GetKeySource RE key) _ r2 = (x, r')\<close> show "kept r2 r'"
      by (rule kept_bind [OF _ quiet_source])
         (erule kept_if, erule kept_refl [OF quiet_basic(1)], erule UpdateMode_kept [OF _ mode])
  qed
qed

section \<open>The invariant\<close>

definition rescan_inv :: "rescan_env \<Rightarrow> rescan_cfg \<Rightarrow> bytes set \<Rightarrow> rescanObj \<Rightarrow> bool" where
  "rescan_inv RE cfg U r \<longleftrightarrow> store_reachable (re_store RE) (rc_Store cfg) U (rs_store r) \<and>
     state_reachable (rs_state r) \<and> tables_ok (tabs r)"

lemma kept_inv: "kept r r' \<Longrightarrow> rescan_inv RE cfg U r \<Longrightarrow> rescan_inv RE cfg U r'"
proof -
  assume k: "kept r r'" and i: "rescan_inv RE cfg U r"
  have "store_reachable (re_store RE) (rc_Store cfg) U (rs_store r')"
    using store_reachable.step [OF _ store_step.read] k i unfolding kept_def change_def aside_def rescan_inv_def by blast
  moreover have "tables_ok (tabs r')" using k i unfolding kept_def change_def rescan_inv_def by metis
  ultimately show "rescan_inv RE cfg U r'" using k i unfolding kept_def change_def aside_def rescan_inv_def by simp
qed

interpretation rescan: rescan_invariant RE cfg U "\<lambda>r. rescan_covered RE (rc_Store cfg) U \<and> rescan_inv RE cfg U r"
  for RE cfg U
proof (unfold_locales, goal_cases)
  case (2 r m f l d n)
  then show ?case by (simp add: rescan_inv_def tabs_def)
next
  case (3 r s)
  then show ?case by (auto simp: rescan_inv_def tabs_def intro: store_reachable.step)
next
  case (4 r t)
  then show ?case by (auto simp: rescan_inv_def tabs_def intro: state_reachable.step)
qed (auto intro!: staysI intro: kept_inv PutIngestFailure_kept DeleteIngestFailure_kept PutKeySource_kept SetKeyListingMode_kept)

end
