(* ===== verification/Rescan_Trees.thy ===== *)
theory Rescan_Trees
  imports Rescan_Tables
begin

text \<open>
  Which tree a pass may install for a version: the one its listing announced. A sibling's index and
  its public listing name the digest of the tree; whatever else the sibling sends, the trees of all versions
  afterwards are those the quota left, or those with the announced tree in place.
\<close>

section \<open>Operations that keep the trees of all versions\<close>

definition trees :: "storeObj \<Rightarrow> vkey \<Rightarrow> HashObj option" where
  "trees st k = map_option v_TreeHash (map_of (db_versions (st_db st)) k)"

lemma trees_same: "same st st' \<Longrightarrow> trees st' = trees st"
  by (simp add: trees_def same_def fun_eq_iff)

definition keeps_trees :: "'a sto \<Rightarrow> bool" where
  "keeps_trees m \<longleftrightarrow> keeps_pb m \<and> (\<forall>st x st'. m st = (x, st') \<longrightarrow> trees st' = trees st)"

named_theorems tree_rules \<open>operations that keep the trees of all versions\<close>

lemma keeps_treesD: "keeps_trees m \<Longrightarrow> m st = (x, st') \<Longrightarrow> trees st' = trees st"
  unfolding keeps_trees_def by blast

lemma kt_reads: "reads m \<Longrightarrow> keeps_trees m"
  unfolding keeps_trees_def using reads_pb by (metis readsD trees_same)

lemma kt_bind [tree_rules]:
  assumes "keeps_trees m" "\<And>x. keeps_trees (f x)" shows "keeps_trees (sbind m f)"
  unfolding keeps_trees_def
proof (intro conjI allI impI)
  show "keeps_pb (sbind m f)" using assms unfolding keeps_trees_def by (intro keeps_pb_bind) blast+
  fix st x st' assume "sbind m f st = (x, st')"
  then show "trees st' = trees st"
    by (cases rule: sbindE) (simp_all add: keeps_treesD [OF assms(1)] keeps_treesD [OF assms(2)])
qed

lemma kt_basic [tree_rules]: "keeps_trees (sret x)" "keeps_trees (slift y)" "keeps_trees (io E)" "keeps_trees (sget f)"
  by (intro kt_reads frame)+

lemma kt_cases [tree_rules]:
  "keeps_trees m1 \<Longrightarrow> keeps_trees m2 \<Longrightarrow> keeps_trees (if c then m1 else m2)"
  "keeps_trees m1 \<Longrightarrow> (\<And>y. keeps_trees (g y)) \<Longrightarrow> keeps_trees (case ox of None \<Rightarrow> m1 | Some y \<Rightarrow> g y)"
  by (auto split: option.splits)

lemma kt_exec:
  assumes "\<And>db db' k. f db = Inr db' \<Longrightarrow>
    map_option v_TreeHash (map_of (db_versions db') k) = map_option v_TreeHash (map_of (db_versions db) k)"
  shows "keeps_trees (exec E f)"
  unfolding keeps_trees_def
proof (intro conjI exec_pb allI impI)
  fix st x st' assume t: "exec E f st = (x, st')"
  from t show "trees st' = trees st" unfolding exec_def
  proof (cases rule: sbindE)
    case (err e)
    then show ?thesis using trees_same [OF io_same [OF err(1)]] by simp
  next
    case (ok u s1)
    note s = trees_same [OF io_same [OF ok(1)]]
    show ?thesis
    proof (cases "f (st_db s1)")
      case (Inl e)
      then show ?thesis using ok(2) s by simp
    next
      case (Inr db)
      then have "st_db st' = db" using ok(2) by (auto simp: put_db_def)
      then show ?thesis using assms [OF Inr] s by (simp add: trees_def fun_eq_iff)
    qed
  qed
qed

lemma kt_same_refs: "(\<And>db db'. f db = Inr db' \<Longrightarrow> same_refs db db') \<Longrightarrow> keeps_trees (exec E f)"
  by (rule kt_exec) (simp add: same_refs_def)

lemma kt_siter: "(\<And>x. keeps_trees (f x)) \<Longrightarrow> keeps_trees (siter f xs)"
  by (induction xs) (auto intro: tree_rules)

lemma kt_WithTx [tree_rules]:
  assumes "keeps_trees m" shows "keeps_trees (WithTx E m)"
  unfolding keeps_trees_def
proof (intro conjI allI impI)
  have pb: "keeps_pb m" using assms by (simp add: keeps_trees_def)
  then show "keeps_pb (WithTx E m)" by (rule WithTx_pb)
  fix st x st' assume t: "WithTx E m st = (x, st')"
  show "trees st' = trees st"
  proof (cases x)
    case (Inl e)
    show ?thesis by (rule trees_same [OF WithTx_Inl [OF t [unfolded Inl] pb]])
  next
    case (Inr y)
    from t [unfolded Inr] obtain a b where "same st a" "m a = (Inr y, b)" "same b st'" by (rule WithTx_Inr)
    then show ?thesis using trees_same keeps_treesD [OF assms] by metis
  qed
qed

lemma kt_update [tree_rules]:
  "(\<And>v. v_TreeHash (g v) = v_TreeHash v) \<Longrightarrow> keeps_trees (exec E (\<lambda>db. Inr (db_update_version k g db)))"
  by (rule kt_exec) (auto simp: db_update_version_def map_of_update option.map_comp comp_def)

lemma kt_AddHistory [tree_rules]:
  "keeps_trees (AddHistory E key version eventType h message)" "keeps_trees (AddBodyHistory E key version eventType h)"
proof -
  have e: "keeps_trees (exec E (\<lambda>db. Inr (db_add_history now key version eventType th bh message db)))"
    for now th bh message by (rule kt_same_refs) (auto simp: artifact_same_refs)
  show "keeps_trees (AddHistory E key version eventType h message)" "keeps_trees (AddBodyHistory E key version eventType h)"
    unfolding AddHistory_def AddBodyHistory_def by (intro tree_rules e)+
qed

lemma keeps_trees_ops:
  "keeps_trees (RegisterArtifact E cfg a)" "keeps_trees (PutDetection E key version d)"
  "keeps_trees (SetHealPending E key version pending)" "keeps_trees (ResurrectVersion E key version)"
proof -
  have v: "keeps_trees (valid_ref E key version)" "keeps_trees (GetVersion E key version)" for key version
    by (intro kt_reads frame)+
  have a: "keeps_trees (InsertArtifacts E key version arts)" for key version arts
    unfolding InsertArtifacts_def by (intro kt_siter kt_same_refs) (erule same_refs_steps)
  have d: "keeps_trees (InsertDetection E key version d)"
    unfolding InsertDetection_def by (rule kt_exec) (auto split: if_splits)
  show "keeps_trees (RegisterArtifact E cfg a)" unfolding RegisterArtifact_def by (intro tree_rules a)
  show "keeps_trees (PutDetection E key version d)" unfolding PutDetection_def by (intro tree_rules v d)
  show "keeps_trees (SetHealPending E key version pending)"
    unfolding SetHealPending_def tx_SetHealPending_def by (intro tree_rules v) simp
  show "keeps_trees (ResurrectVersion E key version)"
    unfolding ResurrectVersion_def ClearUpstreamDeleted_def by (intro tree_rules v) simp
qed


section \<open>Steps of the rescan that keep the trees\<close>

abbreviation at_trees :: "(vkey \<Rightarrow> HashObj option) \<Rightarrow> rescanObj \<Rightarrow> bool" where
  "at_trees t r \<equiv> trees (rs_store r) = t"

lemma at_stor: "keeps_trees m \<Longrightarrow> stays (at_trees t) (stor m)"
  by (rule staysI) (auto simp: stor_def dest: keeps_treesD split: prod.splits)

lemma at_ask: "stays (at_trees t) (ask g)"
  by (rule staysI) (auto simp: ask_def)

lemma at_registry: "stays (at_trees t) (registry RE m)"
  by (rule staysI) (auto simp: registry_def split: prod.splits)

lemma at_smod: "(\<And>r. rs_store (g r) = rs_store r) \<Longrightarrow> stays (at_trees t) (smod g)"
  by (rule staysI) (auto simp: smod_def)

lemma at_kept: "(\<And>r x r'. m r = (x, r') \<Longrightarrow> kept r r') \<Longrightarrow> stays (at_trees t) m"
  unfolding stays_def kept_def change_def aside_def using trees_same by metis

lemmas at_rules = stays_rules at_ask at_registry

lemma at_diags: "stays (at_trees t) (raiseVersionDegraded RE key version code)"
  unfolding raiseVersionDegraded_def raise_diag_def Let_def by (intro at_rules)

lemma at_quarantine:
  "stays (at_trees t) (recordPermanentFailure RE key version ref code message)"
  "stays (at_trees t) (markVersionTerminalSuccess RE key version)"
proof -
  have p: "stays (at_trees t) (PutIngestFailure RE f)" "stays (at_trees t) (DeleteIngestFailure RE key version)" for f
    by (rule at_kept, erule PutIngestFailure_kept DeleteIngestFailure_kept)+
  show "stays (at_trees t) (recordPermanentFailure RE key version ref code message)"
    unfolding recordPermanentFailure_def by (intro at_rules p at_smod) (simp add: markQuarantineDirty_def)
  show "stays (at_trees t) (markVersionTerminalSuccess RE key version)"
    unfolding markVersionTerminalSuccess_def clearPermanentFailure_def by (intro at_rules p at_smod) simp
qed

lemma at_detect: "stays (at_trees t) (detectTree RE version treeArr)"
  unfolding detectTree_def by (intro at_rules)

lemma at_materialize: "stays (at_trees t) (materialize RE key version h det)"
proof -
  have "stays (at_trees t) (materialize_from RE key version arts c pls)" for arts c pls
    by (induction pls arbitrary: arts c) (auto intro!: at_rules at_diags)
  then show ?thesis unfolding materialize_def by (intro at_rules)
qed

lemma at_reads: "reads m \<Longrightarrow> stays (at_trees t) (stor m)"
  by (intro at_stor kt_reads)

lemma at_heal: "stays (at_trees t) (healIncompleteArtifacts RE cfg i treeArr h)"
proof -
  have p: "stays (at_trees t) (heal_plans RE cfg i h have' flags pls)" for have' flags pls
  proof (induction pls arbitrary: flags)
    case (Cons pl pls)
    then show ?case
      by (cases flags) (auto intro!: at_rules at_diags at_quarantine at_stor keeps_trees_ops simp: Let_def split: prod.splits)
  qed (simp add: at_rules)
  have d: "stays (at_trees t) (refresh_detection RE i d)" for d
    unfolding refresh_detection_def by (intro at_rules at_stor [OF keeps_trees_ops(2)] at_reads reads_sto)
  show ?thesis unfolding healIncompleteArtifacts_def
    by (intro at_rules at_detect d p at_stor [OF keeps_trees_ops(3)] at_reads reads_artifact)
qed

section \<open>Steps of the rescan that keep the store\<close>

abbreviation at_store :: "storeObj \<Rightarrow> rescanObj \<Rightarrow> bool" where
  "at_store st r \<equiv> same st (rs_store r)"

lemma as_basic:
  "stays (at_store st) (ask g)" "stays (at_store st) (registry RE m')" "reads m \<Longrightarrow> stays (at_store st) (stor m)"
  by (auto simp: stays_def ask_def registry_def stor_def split: prod.splits dest: readsD intro: same_trans)

lemmas as_rules = stays_rules as_basic(1,2)

lemma as_detect: "stays (at_store st) (detectTree RE version treeArr)"
  unfolding detectTree_def by (intro as_rules)

lemma as_diags: "stays (at_store st) (raiseVersionDegraded RE key version code)"
  unfolding raiseVersionDegraded_def raise_diag_def Let_def by (intro as_rules)

lemma as_materialize: "stays (at_store st) (materialize RE key version h det)"
proof -
  have "stays (at_store st) (materialize_from RE key version arts c pls)" for arts c pls
    by (induction pls arbitrary: arts c) (auto intro!: as_rules as_diags)
  then show ?thesis unfolding materialize_def by (intro as_rules)
qed

section \<open>What a publication installs\<close>

text \<open>
  The trees \<open>t\<close> after \<open>h\<close> was published for \<open>k\<close>: when the policy keeps history and \<open>k\<close> had another tree, that
  tree stays under one new name of the same key; nothing else changes.
\<close>

definition replaced :: "store_cfg \<Rightarrow> vkey \<Rightarrow> HashObj \<Rightarrow> (vkey \<Rightarrow> HashObj option) \<Rightarrow> (vkey \<Rightarrow> HashObj option) \<Rightarrow> bool" where
  "replaced cfg k h t t' \<longleftrightarrow>
     (if cf_Mutation cfg = MutationHistory \<and> t k \<noteq> None \<and> t k \<noteq> Some h
      then \<exists>hist. t (fst k, hist) = None \<and> t' = t((fst k, hist) := t k, k \<mapsto> h)
      else t' = t(k \<mapsto> h))"

lemma replaced_still: "t k = Some h \<Longrightarrow> replaced cfg k h t t"
  by (auto simp: replaced_def)

text \<open>
  \<open>a\<close> is the answer of the operation: \<open>Some True\<close> says that the version is in place, \<open>Some False\<close> that it was
  not published, \<open>None\<close> nothing. The quota may have run before, and only the quota.
\<close>

definition installs ::
  "rescan_env \<Rightarrow> rescan_cfg \<Rightarrow> vkey \<Rightarrow> HashObj \<Rightarrow> rescanObj \<Rightarrow> bool option \<Rightarrow> rescanObj \<Rightarrow> bool" where
  "installs RE cfg k h r a r' \<longleftrightarrow> (\<exists>q. evicted (re_store RE) (rc_Store cfg) (rs_store r) q \<and>
     (a \<noteq> Some True \<and> trees (rs_store r') = trees q \<or>
      a \<noteq> Some False \<and> replaced (rc_Store cfg) k h (trees q) (trees (rs_store r'))))"

abbreviation said :: "store_error + bool \<Rightarrow> bool option" where
  "said x \<equiv> Some (x = Inr True)"

lemma installs_same:
  "trees (rs_store r') = trees (rs_store r) \<Longrightarrow> a \<noteq> Some True \<or> trees (rs_store r) k = Some h \<Longrightarrow>
   installs RE cfg k h r a r'"
  unfolding installs_def using evicted_same [OF refl] replaced_still [of "trees (rs_store r)" k h]
  by (intro exI [of _ "rs_store r"]) auto

lemma installs_still:
  "stays (at_trees (trees (rs_store r))) m \<Longrightarrow> m r = (x, r') \<Longrightarrow> a \<noteq> Some True \<or> trees (rs_store r) k = Some h \<Longrightarrow>
   installs RE cfg k h r a r'"
  by (rule installs_same) (use staysD [of "at_trees (trees (rs_store r))" m r x r'] in auto)

lemma installs_before:
  "same (rs_store r) (rs_store r1) \<Longrightarrow> installs RE cfg k h r1 a r' \<Longrightarrow> installs RE cfg k h r a r'"
  unfolding installs_def using evicted_start by blast

lemma installs_after:
  "installs RE cfg k h r a r1 \<Longrightarrow> trees (rs_store r') = trees (rs_store r1) \<Longrightarrow> installs RE cfg k h r a r'"
  unfolding installs_def by simp

lemma installs_unsaid: "installs RE cfg k h r a r' \<Longrightarrow> installs RE cfg k h r None r'"
  unfolding installs_def by auto

lemma outcome_trees:
  assumes o: "outcome cfg p h st y st'" and ky: "keyed (db_versions (st_db st))" and k: "k = (p_Key p, p_Version p)"
  shows "replaced cfg k h (trees st) (trees st')"
proof -
  let ?old = "map_of (db_versions (st_db st))"
  show ?thesis
  proof (cases "r_Skipped y")
    case True
    then have "trees st' = trees st" "trees st k = Some h"
      using o by (auto simp: outcome_def Let_def trees_def k fun_eq_iff)
    then show ?thesis by (simp add: replaced_still)
  next
    case False
    then obtain now seq hist where n: "map_of (db_versions (st_db st')) =
          (archived cfg (?old k) hist ?old)(k \<mapsto> stored_row (new_row now p h seq))"
      and old: "\<And>v. ?old k = Some v \<Longrightarrow> v_TreeHash v \<noteq> h \<and> (cf_Mutation cfg = MutationHistory \<longrightarrow> ?old (v_Key v, hist) = None)"
      using o unfolding outcome_def Let_def k by (simp only: if_False) blast
    have row: "v_TreeHash (stored_row (new_row now p h seq)) = h"
      by (simp add: stored_row_def new_row_def NewVersion_def)
    show ?thesis
    proof (cases "?old k")
      case None
      then show ?thesis using n row by (auto simp: replaced_def trees_def fun_eq_iff archived_def)
    next
      case (Some v)
      have "vkey_of v = k" using ky map_of_SomeD [OF Some] unfolding keyed_def by force
      then have "v_Key v = fst k" by (auto simp: vkey_of_def)
      then show ?thesis using n row old [OF Some] Some
        by (auto simp: replaced_def trees_def fun_eq_iff archived_def stored_row_def historical_copy_def)
    qed
  qed
qed

lemma PublishStaged_trees:
  assumes i: "inj_on (sv_H E) U" and s: "staged_in E U cfg s" and c: "consistent E U (st_db st) (st_pb st)"
    and h: "staged_tree E cfg s = Some h" and t: "PublishStaged E cfg s st = (x, st')"
    and k: "k = (p_Key (sp_Publish s), p_Version (sp_Publish s))"
  shows "\<exists>q. evicted E cfg st q \<and> (case x of Inl _ \<Rightarrow> trees st' = trees q | Inr _ \<Rightarrow> replaced cfg k h (trees q) (trees st'))"
proof -
  have ok: "publish_result_ok E U cfg (sp_Publish s) (staged_tree E cfg s) st x st'"
    by (rule publishes_consistent [OF PublishStaged_ok [OF i s] t c])
  show ?thesis
  proof (cases x)
    case (Inl e)
    then show ?thesis using ok by (auto simp: publish_result_ok_def)
  next
    case (Inr y)
    from ok Inr h obtain p' st1 where p': "validatePublishMetadata E cfg (sp_Publish s) = Inr p'"
      and o: "outcome cfg p' h st1 y st'" and ev: "evicted E cfg st st1" unfolding publish_result_ok_def by auto
    have k': "k = (p_Key p', p_Version p')"
      using p' by (auto simp: k validatePublishMetadata_def result_simps Let_def)
    have "keyed (db_versions (st_db st1))"
      using ev consistent_keyed [OF c] unfolding evicted_def keyed_def by (auto intro: distinct_filter_fst)
    then show ?thesis using outcome_trees [OF o _ k'] ev Inr by auto
  qed
qed

lemma at_fail: "stays (at_trees t) (fail_version RE i code)" "stays (at_trees t) (reject_version RE i h code)"
  "stays (at_trees t) (succeed_version RE i)"
  unfolding fail_version_def reject_version_def succeed_version_def by (intro at_rules at_diags at_quarantine)+

lemma fails: "fail_version RE i code r = (x, r') \<Longrightarrow> x \<noteq> Inr True" "reject_version RE i h code r = (x, r') \<Longrightarrow> x \<noteq> Inr True"
  by (auto simp: fail_version_def reject_version_def sbind_def sret_def split: prod.splits sum.splits)

lemma known_tree_installs:
  assumes "trees (rs_store r) k = Some h" "known_tree RE cfg i treeArr h' v r = (x, r')"
  shows "installs RE cfg k h r a r'"
proof -
  have "stays (at_trees t) (known_tree RE cfg i treeArr h' v)" for t
    unfolding known_tree_def by (intro at_rules at_fail at_heal at_stor keeps_trees_ops)
  then show ?thesis using assms by (blast intro: installs_still)
qed

text \<open>A step that keeps the store, and the invariant of the pass, before the rest.\<close>

abbreviation pass_ok :: "rescan_env \<Rightarrow> rescan_cfg \<Rightarrow> bytes set \<Rightarrow> rescanObj \<Rightarrow> bool" where
  "pass_ok RE cfg U r \<equiv> rescan_covered RE (rc_Store cfg) U \<and> rescan_inv RE cfg U r"

lemma still_before:
  assumes t: "sbind m f r = (x, r')" and y: "\<And>e. x = Inl e \<Longrightarrow> a \<noteq> Some True"
    and m: "stays (at_store (rs_store r)) m" and p: "stays (pass_ok RE cfg U) m" "pass_ok RE cfg U r"
    and n: "\<And>z r1. m r = (Inr z, r1) \<Longrightarrow> pass_ok RE cfg U r1 \<Longrightarrow> f z r1 = (x, r') \<Longrightarrow> installs RE cfg k h r1 a r'"
  shows "installs RE cfg k h r a r'"
  using t
proof (cases rule: sbindE)
  case (err e)
  then show ?thesis using staysD [OF m err(1) same_refl] y by (intro installs_same trees_same) auto
next
  case (ok z r1)
  have s: "same (rs_store r) (rs_store r1)" using staysD [OF m ok(1) same_refl] .
  from n [OF ok(1) staysD [OF p(1) ok(1) p(2)] ok(2)] show ?thesis by (rule installs_before [OF s])
qed

lemma still_then:
  assumes "sbind m f r = (x, r')" "stays (at_store (rs_store r)) m" "stays (pass_ok RE cfg U) m" "pass_ok RE cfg U r"
    and "\<And>z r1. m r = (Inr z, r1) \<Longrightarrow> pass_ok RE cfg U r1 \<Longrightarrow> f z r1 = (x, r') \<Longrightarrow> installs RE cfg k h r1 (said x) r'"
  shows "installs RE cfg k h r (said x) r'"
  by (rule still_before [OF assms(1) _ assms(2-5)]) auto

lemmas still_unit = still_before [where a = None, simplified]

end
