(* ===== verification/Rescan_Installs.thy ===== *)
theory Rescan_Installs
  imports Rescan_Trees
begin

text \<open>
  A publication of the rescan installs the tree that was announced, or none: \<open>publishVersion\<close>, and on
  top of it the import of one version from the public listing of a sibling and from a session with it.
\<close>

section \<open>publishVersion\<close>

lemma attempt_stor: "attempt (stor m) r = (y, r1) \<Longrightarrow>
    \<exists>z s. y = Inr z \<and> m (rs_store r) = (z, s) \<and> r1 = r\<lparr>rs_store := s\<rparr>"
  by (auto simp: attempt_def stor_def split: prod.splits)

lemma pass_consistent: "pass_ok RE cfg U r \<Longrightarrow> inj_on (sv_H (re_store RE)) U \<Longrightarrow>
    consistent (re_store RE) U (st_db (rs_store r)) (st_pb (rs_store r))"
  by (blast intro: reachable_consistent dest: rescan_inv_def [THEN iffD1])

lemma sbind_attempt:
  assumes "sbind (attempt m) f r = (x, r')"
  obtains z r1 where "m r = (z, r1)" "f z r1 = (x, r')"
  using assms by (auto simp: sbind_def attempt_def split: prod.splits)

definition answered :: "rescan_env \<Rightarrow> publishInputObj \<Rightarrow> HashObj \<Rightarrow> (store_error + 'a) \<Rightarrow> bool rs" where
  "answered RE i treeHash res =
     (case res of
        Inl (ErrStagedSymlinkRejected _) \<Rightarrow> reject_version RE i treeHash ''tree_invalid''
      | Inl _ \<Rightarrow> fail_version RE i ''publish_failed''
      | Inr _ \<Rightarrow> succeed_version RE i)"

lemma succeeds: "succeed_version RE i r = (x, r') \<Longrightarrow> x = Inr True"
  by (auto simp: succeed_version_def markVersionTerminalSuccess_def clearPermanentFailure_def sbind_def sget_def smod_def
      sret_def attempt_def registry_def split: if_splits prod.splits)

lemma answered_trees: "answered RE i h res r = (x, r') \<Longrightarrow>
    trees (rs_store r') = trees (rs_store r) \<and> (x = Inr True \<longleftrightarrow> (\<exists>y. res = Inr y))"
proof -
  assume t: "answered RE i h res r = (x, r')"
  have "stays (at_trees t) (answered RE i h res)" for t
    unfolding answered_def by (auto intro!: at_fail split: sum.splits store_error.splits)
  then have "trees (rs_store r') = trees (rs_store r)" using t unfolding stays_def by blast
  moreover have "x = Inr True \<longleftrightarrow> (\<exists>y. res = Inr y)"
    using t unfolding answered_def by (auto dest!: fails dest: succeeds split: sum.splits store_error.splits)
  ultimately show ?thesis by blast
qed

lemma publish_installs:
  assumes u: "inj_on (sv_H (re_store RE)) U" and p: "pass_ok RE cfg U r"
    and e: "entries_in (re_store RE) U (rc_Store cfg) (pi_entries i)"
    and c: "CanonicalTree (re_store RE) (rc_Store cfg) (pi_entries i) = Inr (treeArr, h)"
    and t: "sbind (attempt (stor (PublishStaged (re_store RE) (rc_Store cfg) (staged_publish i det arts complete))))
       (answered RE i h) r = (x, r')"
  shows "installs RE cfg (pi_key i, pi_version i) h r (said x) r'"
  using t
proof (rule sbind_attempt)
  fix z r1 assume s: "stor (PublishStaged (re_store RE) (rc_Store cfg) (staged_publish i det arts complete)) r = (z, r1)"
    and a: "answered RE i h z r1 = (x, r')"
  obtain s1 where s1: "PublishStaged (re_store RE) (rc_Store cfg) (staged_publish i det arts complete) (rs_store r) = (z, s1)"
    "rs_store r1 = s1" using s by (auto simp: stor_def split: prod.splits)
  have req: "staged_in (re_store RE) U (rc_Store cfg) (staged_publish i det arts complete)"
    using e p by (simp add: staged_in_def entries_in_def staged_publish_def rescan_covered_def)
  have tree: "staged_tree (re_store RE) (rc_Store cfg) (staged_publish i det arts complete) = Some h"
    using c by (simp add: staged_tree_def staged_publish_def)
  have key: "(pi_key i, pi_version i) = (p_Key (sp_Publish (staged_publish i det arts complete)),
      p_Version (sp_Publish (staged_publish i det arts complete)))" by (simp add: staged_publish_def)
  note out = PublishStaged_trees [OF u req pass_consistent [OF p u] tree s1(1) key]
  note ans = answered_trees [OF a]
  show ?thesis
    using out ans s1(2) unfolding installs_def by (cases z) auto
qed

lemma new_tree_installs:
  assumes u: "inj_on (sv_H (re_store RE)) U" and p: "pass_ok RE cfg U r"
    and e: "entries_in (re_store RE) U (rc_Store cfg) (pi_entries i)"
    and c: "CanonicalTree (re_store RE) (rc_Store cfg) (pi_entries i) = Inr (treeArr, h)"
    and t: "new_tree RE cfg i treeArr h r = (x, r')"
  shows "installs RE cfg (pi_key i, pi_version i) h r (said x) r'"
  using t unfolding new_tree_def answered_def [symmetric]
proof (rule still_then [OF _ as_detect rescan.stays_detect p])
  fix y r1 assume p1: "pass_ok RE cfg U r1"
    and t1: "(case y of None \<Rightarrow> fail_version RE i ''detect_failed''
     | Some detObj \<Rightarrow> sbind (materialize RE (pi_key i) (pi_version i) h detObj) (\<lambda>(artifactArr, completeFlag).
         sbind (attempt (stor (PublishStaged (re_store RE) (rc_Store cfg)
           (staged_publish i detObj artifactArr completeFlag)))) (answered RE i h))) r1 = (x, r')"
  show "installs RE cfg (pi_key i, pi_version i) h r1 (said x) r'"
  proof (cases y)
    case None
    then show ?thesis using t1 fails by (intro installs_still [OF at_fail(1)]) auto
  next
    case (Some detObj)
    show ?thesis
      using t1 unfolding Some option.case
    proof (rule still_then [OF _ as_materialize rescan.stays_materialize p1])
      fix y r2 assume p2: "pass_ok RE cfg U r2"
        and "(case y of (artifactArr, completeFlag) \<Rightarrow>
           sbind (attempt (stor (PublishStaged (re_store RE) (rc_Store cfg)
             (staged_publish i detObj artifactArr completeFlag)))) (answered RE i h)) r2 = (x, r')"
      then show "installs RE cfg (pi_key i, pi_version i) h r2 (said x) r'"
        by (cases y) (auto intro: publish_installs [OF u p2 e c])
    qed
  qed
qed

lemma publishVersion_installs:
  assumes u: "inj_on (sv_H (re_store RE)) U" and p: "pass_ok RE cfg U r"
    and e: "entries_in (re_store RE) U (rc_Store cfg) (pi_entries i)"
    and h: "\<And>treeArr h'. CanonicalTree (re_store RE) (rc_Store cfg) (pi_entries i) = Inr (treeArr, h') \<Longrightarrow>
      h' = h \<or> \<not> IsZero (pi_expectedTreeHash i) \<and> h' \<noteq> pi_expectedTreeHash i"
    and t: "publishVersion RE cfg i r = (x, r')"
  shows "installs RE cfg (pi_key i, pi_version i) h r (said x) r'"
proof (cases "CanonicalTree (re_store RE) (rc_Store cfg) (pi_entries i)")
  case (Inl err)
  then have "reject_version RE i zero_hash ''tree_invalid'' r = (x, r')" using t by (simp add: publishVersion_def)
  then show ?thesis using fails(2) by (intro installs_still [OF at_fail(2)]) auto
next
  case (Inr c)
  obtain treeArr h' where c: "c = (treeArr, h')" by (cases c)
  show ?thesis
  proof (cases "\<not> IsZero (pi_expectedTreeHash i) \<and> h' \<noteq> pi_expectedTreeHash i")
    case True
    then obtain code where "reject_version RE i h' code r = (x, r')" using t Inr c by (auto simp: publishVersion_def)
    then show ?thesis using fails(2) by (intro installs_still [OF at_fail(2)]) auto
  next
    case False
    then have h': "h' = h" using h Inr c by blast
    note tree = Inr [unfolded c h']
    have "sbind (attempt (stor (sto_GetVersion (re_store RE) (pi_key i) (pi_version i)))) (\<lambda>found.
            case found of
              Inr (Some existingObj) \<Rightarrow>
                if v_TreeHash existingObj = h then known_tree RE cfg i treeArr h existingObj
                else new_tree RE cfg i treeArr h
            | _ \<Rightarrow> new_tree RE cfg i treeArr h) r = (x, r')"
      using t False unfolding publishVersion_def Inr c h' by simp
    then show ?thesis
    proof (rule sbind_attempt)
      fix found r1 assume g: "stor (sto_GetVersion (re_store RE) (pi_key i) (pi_version i)) r = (found, r1)"
        and n: "(case found of
              Inr (Some existingObj) \<Rightarrow>
                if v_TreeHash existingObj = h then known_tree RE cfg i treeArr h existingObj
                else new_tree RE cfg i treeArr h
            | _ \<Rightarrow> new_tree RE cfg i treeArr h) r1 = (x, r')"
      have r1: "pass_ok RE cfg U r1" by (rule staysD [OF rescan.stays_lookups(1) g p])
      obtain s1 where s1: "sto_GetVersion (re_store RE) (pi_key i) (pi_version i) (rs_store r) = (found, s1)"
        "rs_store r1 = s1" using g by (auto simp: stor_def split: prod.splits)
      have s: "same (rs_store r) (rs_store r1)" using readsD [OF reads_sto(4) s1(1)] s1(2) by simp
      have same: "trees (rs_store r1) = trees (rs_store r)" by (rule trees_same [OF s])
      consider v where "found = Inr (Some v)" "v_TreeHash v = h" "known_tree RE cfg i treeArr h v r1 = (x, r')"
        | "new_tree RE cfg i treeArr h r1 = (x, r')"
        using n by (auto split: sum.splits option.splits if_splits)
      then have "installs RE cfg (pi_key i, pi_version i) h r1 (said x) r'"
      proof cases
        case (1 v)
        have "map_of (db_versions (st_db (rs_store r))) (pi_key i, pi_version i) = Some v"
          using sto_GetVersion_Inr [OF s1(1) [unfolded 1(1)]] by simp
        then have "trees (rs_store r1) (pi_key i, pi_version i) = Some h" using 1(2) by (simp add: same trees_def)
        then show ?thesis by (rule known_tree_installs [OF _ 1(3)])
      qed (rule new_tree_installs [OF u r1 e tree])
      then show ?thesis by (rule installs_before [OF s])
    qed
  qed
qed

section \<open>A version of the public listing\<close>

lemma at_clears: "stays (at_trees t) (recordPermanentFailure RE key version ref code message)"
  "stays (at_trees t) (raiseVersionDegraded RE key version code)"
  by (intro at_quarantine at_diags)+

lemma as_spool: "stays (at_store st) (stor (NewBlobSpool (re_store RE)))"
  unfolding NewBlobSpool_def by (intro as_basic(3) frame)

definition gives_up :: "bool rs \<Rightarrow> bool" where
  "gives_up m \<longleftrightarrow> (\<forall>r x r'. m r = (x, r') \<longrightarrow> x \<noteq> Inr True \<and> trees (rs_store r') = trees (rs_store r))"

lemma gives_upD: "gives_up m \<Longrightarrow> m r = (x, r') \<Longrightarrow> x \<noteq> Inr True \<and> trees (rs_store r') = trees (rs_store r)"
  unfolding gives_up_def by blast

lemma gives_up: "gives_up (sret False)"
  "(\<And>t. stays (at_trees t) m) \<Longrightarrow> (\<And>y. gives_up (f y)) \<Longrightarrow> gives_up (sbind m f)"
proof -
  show "gives_up (sret False)" by (simp add: gives_up_def sret_def)
  assume m: "\<And>t. stays (at_trees t) m" and f: "\<And>y. gives_up (f y)"
  show "gives_up (sbind m f)" unfolding gives_up_def
  proof (intro allI impI)
    fix r x r' assume "sbind m f r = (x, r')"
    then show "x \<noteq> Inr True \<and> trees (rs_store r') = trees (rs_store r)"
    proof (cases rule: sbindE)
      case (ok y r1)
      have "trees (rs_store r1) = trees (rs_store r)" using staysD [OF m ok(1)] by simp
      then show ?thesis using f [of y] ok(2) unfolding gives_up_def by metis
    qed (use staysD [OF m] in auto)
  qed
qed

lemma gives_up_installs: "gives_up m \<Longrightarrow> m r = (x, r') \<Longrightarrow> installs RE cfg k h r (said x) r'"
  by (rule installs_same) (auto simp: gives_up_def)

lemma still_ask:
  assumes t: "sbind (ask g) f r = (x, r')" and p: "pass_ok RE cfg U r"
    and n: "\<And>n r1. pass_ok RE cfg U r1 \<Longrightarrow> f (g n) r1 = (x, r') \<Longrightarrow> installs RE cfg k h r1 (said x) r'"
  shows "installs RE cfg k h r (said x) r'"
  using t by (rule still_then [OF _ as_basic(1) rescan.stays_ask p]) (auto simp: ask_def intro: n)

lemma mirror_version_installs:
  assumes u: "inj_on (sv_H (re_store RE)) U" and p: "pass_ok RE cfg U r" and h: "\<not> IsZero (pm_TreeHash e)"
    and t: "ingestPublicMirrorVersion RE cfg key e seq r = (x, r')"
  shows "installs RE cfg (key, pm_Version e) (pm_TreeHash e) r (said x) r'"
proof (cases "storable (sv_semver (re_store RE)) (pm_Version e)")
  case False
  then show ?thesis using t by (auto simp: ingestPublicMirrorVersion_def sret_def Let_def intro: installs_same)
next
  case True
  then have st': "\<not> \<not> storable (sv_semver (re_store RE)) (pm_Version e)" by simp
  show ?thesis
    using t unfolding ingestPublicMirrorVersion_def Let_def if_not_P [OF st']
  proof (rule still_then [OF _ stays_attempt [OF as_spool] stays_attempt [OF rescan.stays_spool] p], goal_cases)
    case (1 spool r1)
    show ?case
    proof (cases spool)
      case (Inl err)
      show ?thesis using 1(3) unfolding Inl sum.case
        by (rule gives_up_installs [rotated]) (intro gives_up at_clears)
    next
      case (Inr b)
      show ?thesis using 1(3) unfolding Inr sum.case
      proof (rule still_ask [OF _ 1(2)], goal_cases)
        case (1 n r2)
        show ?case
        proof (cases "re_fetch RE n key (pm_Version e) (pm_ArchiveURL e) (pm_Format e)")
          case (Inl phase)
          show ?thesis using 1(2) unfolding Inl sum.case
            by (rule gives_up_installs [rotated]) (auto intro!: gives_up at_rules at_clears split: fetchPhase.splits bool.splits)
        next
          case (Inr a)
          have ent: "entries_in (re_store RE) U (rc_Store cfg) (fa_entries a)"
            using 1(1) Inr unfolding rescan_covered_def by blast
          show ?thesis using 1(2) unfolding Inr sum.case
            by (rule still_ask [OF _ 1(1)]) (frule (1) publishVersion_installs [OF u, rotated 3], use ent h in auto)
        qed
      qed
    qed
  qed
qed

section \<open>A version from a session\<close>

text \<open>The entries of a decoded tree are normal already, so its canonical tree is the tree that was sent.\<close>

lemma normalize_staged_tree:
  "normalize_staged_from lim acc (toStagedEntries es) = Inr acc' \<Longrightarrow> \<forall>e \<in> set es. validateEntry e = Inr () \<Longrightarrow>
   sn_tree acc' = sn_tree acc @ es"
proof (induction es arbitrary: acc)
  case (Cons e es)
  then obtain acc1 where n: "normalize_staged_entry lim acc (hd (toStagedEntries [e])) = Inr acc1"
    and r: "normalize_staged_from lim acc1 (toStagedEntries es) = Inr acc'"
    by (auto simp: toStagedEntries_def result_simps)
  have v: "CleanArchiveEntryPath (te_Path e) = Inr (te_Path e)" "te_Mode e = ModeFile \<or> te_Mode e = ModeSymlink"
    using Cons.prems(2) by (auto simp: validateEntry_iff validatePath_iff)
  obtain total over where t: "saturatingAdd (sn_total acc) (te_SizeBytes e) = (total, over)" by fastforce
  have m: "validateEntryMode (te_Mode e) = Inr (te_Mode e)"
    using v(2) by (auto simp: validateEntryMode_def ModeSymlink_def)
  have "sn_tree acc1 = sn_tree acc @ [e]"
    using n v(1) by (auto simp: normalize_staged_entry_def toStagedEntries_def sto_validateEntryPath_def m t
        result_simps)
  then show ?case using Cons.IH [OF r] Cons.prems(2) by simp
qed (simp add: toStagedEntries_def)

lemma CanonicalTree_decoded:
  assumes d: "Decode d = Inr es" and c: "CanonicalTree E cfg (toStagedEntries es) = Inr (treeArr, h)"
  shows "h = sv_H E d"
proof -
  have b: "tree_bytes es d" by (rule Decode_bytes [OF d])
  obtain acc d' where n: "normalize_staged_from (entry_limits cfg)
      \<lparr>sn_tree = [], sn_used = [], sn_symlinks = [], sn_total = 0\<rparr> (toStagedEntries es) = Inr acc"
    and e: "Encode (sv_H E) (sn_tree acc) = Inr (d', h)"
    using c by (auto simp: CanonicalTree_def normalizeStagedEntries_def count_guard_def result_simps split: if_splits)
  have "sn_tree acc = es"
    using normalize_staged_tree [OF n] b by (auto simp: tree_bytes_def tree_ok_def)
  then have "tree_bytes es d'" "h = sv_H E d'" using e tree_bytes_sorted [OF b] by (auto simp: Encode_iff)
  then show ?thesis using b by (auto simp: tree_bytes_def)
qed

text \<open>\<open>ingestBrotherVersion\<close> has no answer: \<open>None\<close>.\<close>

lemma at_brother: "stays (at_trees t) (reject_brother RE key b code)"
  unfolding reject_brother_def recordBrotherPermanentFailure_def by (intro at_rules at_clears)

lemma as_brother:
  "stays (at_store st) (brotherFetchBlobs RE version rs)" "stays (at_store st) (stor (filterMissingBlobReqs E rs))"
proof -
  have "stays (at_store st) (fetch_blobs_from RE version maxB maxC acc batch n reqs)" for maxB maxC acc batch n reqs
    by (induction reqs arbitrary: acc batch n) (auto intro!: as_rules simp: flush_batch_def)
  then show "stays (at_store st) (brotherFetchBlobs RE version rs)" unfolding brotherFetchBlobs_def by (intro as_rules)
  show "stays (at_store st) (stor (filterMissingBlobReqs E rs))"
    unfolding filterMissingBlobReqs_def FilterMissingBlobs_def MissingBlobs_def Let_def by (intro as_basic(3) frame)
qed

lemma quits: "(\<And>t. stays (at_trees t) m) \<Longrightarrow> m r = (x, r') \<Longrightarrow> installs RE cfg k h r None r'"
  by (rule installs_same) (auto dest: staysD)

lemma pull_brother_installs:
  assumes u: "inj_on (sv_H (re_store RE)) U" and p: "pass_ok RE cfg U r"
    and e: "entries_in (re_store RE) U (rc_Store cfg) (toStagedEntries treeArr)" and d: "Decode treeBytes = Inr treeArr"
    and t: "pull_brother RE cfg key b seq treeBytes treeArr r = (x, r')"
  shows "installs RE cfg (key, bi_Version b) (sv_H (re_store RE) treeBytes) r None r'"
proof (cases "CanonicalTree (re_store RE) (rc_Store cfg) (toStagedEntries treeArr)")
  case (Inl err)
  show ?thesis using t unfolding pull_brother_def Let_def Inl sum.case by (rule quits [OF at_brother])
next
  case (Inr c)
  note h = CanonicalTree_decoded [OF d]
  show ?thesis using t unfolding pull_brother_def Let_def Inr sum.case
  proof (rule still_unit [OF _ stays_attempt [OF as_brother(2)] stays_attempt [OF rescan.stays_filterMissing] p], goal_cases)
    case (1 missing r1)
    show ?case
    proof (cases missing)
      case (Inl err)
      show ?thesis using 1(3) unfolding Inl sum.case by (rule quits [OF at_clears(2)])
    next
      case (Inr reqs)
      show ?thesis using 1(3) unfolding Inr sum.case
      proof (rule still_unit [OF _ as_brother(1) rescan.stays_brotherFetchBlobs 1(2)], goal_cases)
        case (1 blobs r2)
        show ?case
        proof (cases blobs)
          case None
          show ?thesis using 1(3) unfolding None option.case by (rule quits [OF at_clears(2)])
        next
          case (Some blobArr)
          from 1(3) obtain i y where v: "publishVersion RE cfg i r2 = (y, r')" and i: "pi_key i = key"
            "pi_version i = bi_Version b" "pi_entries i = toStagedEntries treeArr"
            unfolding Some option.case by (elim sbindE) (auto simp: sret_def)
          have "installs RE cfg (key, bi_Version b) (sv_H (re_store RE) treeBytes) r2 (said y) r'"
            by (rule publishVersion_installs [OF u 1(2) _ _ v, unfolded i]) (use e h in auto)
          then show ?thesis by (rule installs_unsaid)
        qed
      qed
    qed
  qed
qed

lemma brother_version_installs:
  assumes u: "inj_on (sv_H (re_store RE)) U" and p: "pass_ok RE cfg U r" and h: "\<not> IsZero (bi_TreeHash b)"
    and t: "ingestBrotherVersion RE cfg key b seq r = (x, r')"
  shows "installs RE cfg (key, bi_Version b) (bi_TreeHash b) r None r'"
proof (cases "storable (sv_semver (re_store RE)) (bi_Version b)")
  case False
  then show ?thesis using t by (auto simp: ingestBrotherVersion_def sret_def Let_def intro: installs_same)
next
  case True
  then have st': "\<not> \<not> storable (sv_semver (re_store RE)) (bi_Version b)" by simp
  show ?thesis
    using t unfolding ingestBrotherVersion_def Let_def if_not_P [OF st']
  proof (rule still_unit [OF _ stays_attempt [OF as_spool] stays_attempt [OF rescan.stays_spool] p], goal_cases)
    case (1 spool r1)
    show ?case
    proof (cases spool)
      case (Inl err)
      show ?thesis using 1(3) unfolding Inl sum.case by (rule quits [OF at_clears(2)])
    next
      case (Inr y)
      show ?thesis using 1(3) unfolding Inr sum.case
      proof (rule still_unit [OF _ as_basic(1) rescan.stays_ask 1(2)], goal_cases)
        case (1 res r2)
        show ?case
        proof (cases res)
          case None
          show ?thesis using 1(3) unfolding None option.case by (rule quits [OF at_clears(2)])
        next
          case (Some treeBytes)
          have res: "\<exists>n. re_version RE n (bi_Version b) = Some treeBytes"
            using 1(1) Some by (auto simp: ask_def)
          show ?thesis
          proof (cases "sv_H (re_store RE) treeBytes = bi_TreeHash b")
            case False
            then show ?thesis using 1(3) h Some by (auto intro: quits [OF at_brother])
          next
            case True
            show ?thesis
            proof (cases "Decode treeBytes")
              case (Inl err)
              then show ?thesis using 1(3) True Some by (auto intro: quits [OF at_brother])
            next
              case (Inr treeArr)
              have "entries_in (re_store RE) U (rc_Store cfg) (toStagedEntries treeArr)"
                using res 1(2) Inr unfolding rescan_covered_def by blast
              then show ?thesis
                using pull_brother_installs [OF u 1(2) _ Inr] 1(3) True Some Inr by auto
            qed
          qed
        qed
      qed
    qed
  qed
qed

section \<open>Trees that are refused\<close>

text \<open>
  What the sibling answered, at the moment it was asked: a tree with the announced digest. \<open>mirror_sent\<close> is about the archive
  of the public listing, whose entries are normalised and encoded to get its digest, \<open>brother_sent\<close> about the
  encoded tree from the session.
\<close>

definition mirror_sent :: "rescan_env \<Rightarrow> rescan_cfg \<Rightarrow> string \<Rightarrow> PublicMirrorVersionObj \<Rightarrow> rescanObj \<Rightarrow> bool" where
  "mirror_sent RE cfg key e r \<longleftrightarrow>
     (\<exists>a treeArr. re_fetch RE (rs_clock r) key (pm_Version e) (pm_ArchiveURL e) (pm_Format e) = Inr a \<and>
        CanonicalTree (re_store RE) (rc_Store cfg) (fa_entries a) = Inr (treeArr, pm_TreeHash e))"

definition brother_sent :: "rescan_env \<Rightarrow> BrotherIndexEntryObj \<Rightarrow> rescanObj \<Rightarrow> bool" where
  "brother_sent RE b r \<longleftrightarrow>
     (\<exists>treeBytes. re_version RE (rs_clock r) (bi_Version b) = Some treeBytes \<and>
        sv_H (re_store RE) treeBytes = bi_TreeHash b)"

lemma after_spool:
  assumes "sbind (attempt (stor (NewBlobSpool (re_store RE)))) f r = (x, r')"
  obtains spool r1 where "f spool r1 = (x, r')" "rs_clock r1 = rs_clock r" "trees (rs_store r1) = trees (rs_store r)"
  using assms
proof (cases rule: sbindE)
  case (err e)
  then show ?thesis by (auto simp: attempt_def split: prod.splits)
next
  case (ok spool r1)
  from attempt_stor [OF ok(1)] have "rs_clock r1 = rs_clock r" by auto
  moreover have "same (rs_store r) (rs_store r1)"
    by (rule staysD [OF stays_attempt [OF as_spool] ok(1)]) simp
  ultimately show ?thesis using that ok(2) trees_same by blast
qed

lemma after_ask: "sbind (ask g) f r = (x, r') \<Longrightarrow> f (g (rs_clock r)) (r\<lparr>rs_clock := Suc (rs_clock r)\<rparr>) = (x, r')"
  by (simp add: sbind_def ask_def)

lemma publishVersion_refuses:
  assumes "\<not> IsZero (pi_expectedTreeHash i)"
    and "\<nexists>treeArr. CanonicalTree (re_store RE) (rc_Store cfg) (pi_entries i) = Inr (treeArr, pi_expectedTreeHash i)"
  shows "gives_up (publishVersion RE cfg i)"
proof -
  have "gives_up (reject_version RE i h code)" for h code
    unfolding gives_up_def using fails(2) staysD [OF at_fail(2)] by blast
  then show ?thesis using assms by (auto simp: publishVersion_def split: sum.split)
qed

lemma mirror_refuses:
  assumes h: "\<not> IsZero (pm_TreeHash e)" and n: "\<not> mirror_sent RE cfg key e r"
    and t: "ingestPublicMirrorVersion RE cfg key e seq r = (x, r')"
  shows "x \<noteq> Inr True \<and> trees (rs_store r') = trees (rs_store r)"
proof (cases "storable (sv_semver (re_store RE)) (pm_Version e)")
  case False
  then show ?thesis using t by (auto simp: ingestPublicMirrorVersion_def sret_def Let_def)
next
  case True
  then have st': "\<not> \<not> storable (sv_semver (re_store RE)) (pm_Version e)" by simp
  show ?thesis
    using t unfolding ingestPublicMirrorVersion_def Let_def if_not_P [OF st']
  proof (rule after_spool, goal_cases)
    case (1 spool r1)
    show ?case
    proof (cases spool)
      case (Inl err)
      have "gives_up (sbind (raiseVersionDegraded RE key (pm_Version e) ''spool_failed'') (\<lambda>_. sret False))"
        by (intro gives_up at_clears)
      then show ?thesis using 1 unfolding Inl sum.case gives_up_def by metis
    next
      case (Inr b)
      note go = after_ask [OF 1(1) [unfolded Inr sum.case]]
      show ?thesis
      proof (cases "re_fetch RE (rs_clock r1) key (pm_Version e) (pm_ArchiveURL e) (pm_Format e)")
        case (Inl phase)
        have "x \<noteq> Inr True \<and> trees (rs_store r') = trees (rs_store (r1\<lparr>rs_clock := Suc (rs_clock r1)\<rparr>))"
          using go unfolding Inl sum.case
          by (rule gives_upD [rotated]) (auto intro!: gives_up at_rules at_clears split: fetchPhase.splits bool.splits)
        then show ?thesis using 1(3) by simp
      next
        case (Inr a)
        then have "\<nexists>treeArr. CanonicalTree (re_store RE) (rc_Store cfg) (fa_entries a) = Inr (treeArr, pm_TreeHash e)"
          using n 1(2) by (simp add: mirror_sent_def)
        then have g: "gives_up (publishVersion RE cfg
                  \<lparr>pi_key = key, pi_version = pm_Version e, pi_releaseNotes = truncateReleaseNotes (pm_ReleaseNotes e),
                   pi_sourceHash = fa_sourceHash a, pi_sourceSize = fa_sourceSize a, pi_upstreamSeq = seq,
                   pi_upstreamRef = [], pi_verifiedTS = now, pi_expectedTreeHash = pm_TreeHash e,
                   pi_treeHashMismatchCode = ''public_mirror_hash_mismatch'',
                   pi_permanentFailureRef = publicMirrorFailureRef e, pi_entries = fa_entries a, pi_blobs = fa_blobs a,
                   pi_droppedSymlinks = fa_droppedSymlinks a\<rparr>)" for now
          using h by (intro publishVersion_refuses) simp_all
        from after_ask [OF go [unfolded Inr sum.case]] g 1(3) show ?thesis unfolding gives_up_def by fastforce
      qed
    qed
  qed
qed

lemma brother_refuses:
  assumes h: "\<not> IsZero (bi_TreeHash b)" and n: "\<not> brother_sent RE b r"
    and t: "ingestBrotherVersion RE cfg key b seq r = (x, r')"
  shows "trees (rs_store r') = trees (rs_store r)"
proof (cases "storable (sv_semver (re_store RE)) (bi_Version b)")
  case False
  then show ?thesis using t by (auto simp: ingestBrotherVersion_def sret_def Let_def)
next
  case True
  then have st': "\<not> \<not> storable (sv_semver (re_store RE)) (bi_Version b)" by simp
  show ?thesis
    using t unfolding ingestBrotherVersion_def Let_def if_not_P [OF st']
  proof (rule after_spool, goal_cases)
    case (1 spool r1)
    show ?case
    proof (cases spool)
      case (Inl err)
      show ?thesis using staysD [OF at_clears(2) 1(1) [unfolded Inl sum.case]] 1(3) by simp
    next
      case (Inr y)
      note go = after_ask [OF 1(1) [unfolded Inr sum.case]]
      show ?thesis
      proof (cases "re_version RE (rs_clock r1) (bi_Version b)")
        case None
        show ?thesis using staysD [OF at_clears(2) go [unfolded None option.case]] 1(3) by simp
      next
        case (Some treeBytes)
        then have "sv_H (re_store RE) treeBytes \<noteq> bi_TreeHash b" using n 1(2) by (simp add: brother_sent_def)
        then have "reject_brother RE key b ''brother_index_hash_mismatch'' (r1\<lparr>rs_clock := Suc (rs_clock r1)\<rparr>) = (x, r')"
          using go h by (simp add: Some)
        from staysD [OF at_brother this] 1(3) show ?thesis by simp
      qed
    qed
  qed
qed

end
