(* ===== verification/Rescan_Sample.thy ===== *)
theory Rescan_Sample
  imports Rescan_Installs Store_Sample
begin

text \<open>
  A small world on which the theorems about the rescan are instantiated: the store of \<open>Store_Sample\<close>
  with its key \<open>app\<close>, upstreams that do not answer, and a sibling whose archive and tree are
  those of the version \<open>v1\<close> with the content \<open>x\<close>.
\<close>

definition toy_state :: state_Obj where
  "toy_state = (case state_New [(''app'', ''https://h/app'')] 2 of Inr obj \<Rightarrow> obj)"

lemma toy_New: "state_New [(''app'', ''https://h/app'')] 2 = Inr toy_state"
proof -
  have "is_ok (state_New [(''app'', ''https://h/app'')] 2)" by code_simp
  then show ?thesis by (auto simp: is_ok_iff toy_state_def)
qed

definition toy_archive :: fetchedArchiveObj where
  "toy_archive = \<lparr>fa_sourceHash = hash_copy ''s'', fa_sourceSize = 10, fa_entries = sp_Entries toy_staged,
     fa_blobs = sp_Blobs toy_staged, fa_droppedSymlinks = []\<rparr>"

definition toy_rescan :: rescan_env where
  "toy_rescan = \<lparr>re_store = toy_env, re_now = (\<lambda>_. 1), re_stopped = (\<lambda>_. False), re_order = (\<lambda>_ ks. ks),
     re_discover = (\<lambda>_ _. None), re_releases = (\<lambda>_ _ _. Inl False), re_tags = (\<lambda>_ _ _. Inl False),
     re_refs = (\<lambda>_ _. None), re_fetch = (\<lambda>_ _ _ url _. if url = ''x'' then Inr toy_archive else Inl (FetchFailed False)),
     re_detect = (\<lambda>_ _. Some \<lparr>det_Detection = toy_detection [], det_RewriteBlobs = []\<rparr>), re_plan = (\<lambda>_ _ _ _ _. []),
     re_digest = (\<lambda>_ _. Inl []), re_mirrorPage = (\<lambda>_ _ _ _. None), re_mirrorDetail = (\<lambda>_ _. None),
     re_className = (\<lambda>_. ''git''), re_urlParts = (\<lambda>_. None), re_urlOf = (\<lambda>_ _ _. []), re_dial = (\<lambda>_ _ _. False),
     re_hello = (\<lambda>_. None), re_index = (\<lambda>_ _. None), re_version = (\<lambda>_ _. Some (toy_bytes ''x'')),
     re_blobs = (\<lambda>_ _ _. Some (sp_Blobs toy_staged)), re_healthy = (\<lambda>_. True), re_fetchBytes = (\<lambda>_. 0),
     re_fetchCount = (\<lambda>_. 0)\<rparr>"

definition toy_rcfg :: rescan_cfg where
  "toy_rcfg = \<lparr>rc_Store = toy_cfg, rc_GraceCycles = 1, rc_RecentInterval = 10, rc_ArchiveInterval = 100,
     rc_InitialDepth = 5, rc_Mirrors = [(''app'', ''https://h/app'')], rc_PreferFirstSource = False, rc_YggFirst = False,
     rc_Suppressed = []\<rparr>"

definition toy_pass :: "storeObj \<Rightarrow> rescanObj" where
  "toy_pass st = \<lparr>rs_store = st, rs_state = toy_state, rs_failures = [], rs_keySources = [], rs_miss = [],
     rs_permFail = [], rs_loadMiss = [], rs_dirty = [], rs_clock = 0\<rparr>"

lemma toy_tree_entries: "Decode (toy_bytes ''x'') =
    Inr [\<lparr>te_Path = ''a'', te_Mode = ModeFile, te_SizeBytes = 1, te_BlobHash = hash_copy ''x''\<rparr>]"
  by code_simp

lemma toy_covered: "rescan_covered toy_rescan (rc_Store toy_rcfg) toy_U"
proof -
  have f: "files_in toy_env toy_U" and e: "entries_in toy_env toy_U toy_cfg (sp_Entries toy_staged)"
    using toy_staged_in unfolding staged_in_def entries_in_def by simp_all
  have s: "toStagedEntries [\<lparr>te_Path = ''a'', te_Mode = ModeFile, te_SizeBytes = 1, te_BlobHash = hash_copy ''x''\<rparr>] =
      sp_Entries toy_staged" by (simp add: toStagedEntries_def toy_staged_def)
  show ?thesis unfolding rescan_covered_def
    by (intro conjI) (use f e s toy_tree_entries in \<open>auto simp: toy_rescan_def toy_rcfg_def toy_archive_def ord_ok_def
      split: if_splits\<close>)
qed

lemma toy_pass_ok: "store_reachable toy_env toy_cfg toy_U st \<Longrightarrow> rescan_inv toy_rescan toy_rcfg toy_U (toy_pass st)"
  unfolding rescan_inv_def
  by (auto simp: toy_pass_def toy_rescan_def toy_rcfg_def tabs_def tables_ok_def in_quarantine_def intro: state_reachable.init [OF toy_New])

lemma toy_rescan_simps [simp]: "re_store toy_rescan = toy_env" "rc_Store toy_rcfg = toy_cfg" "rs_store (toy_pass st) = st"
  by (simp_all add: toy_rescan_def toy_rcfg_def toy_pass_def)

text \<open>What the sibling announces, in its public listing and in its index.\<close>

definition toy_listed :: PublicMirrorVersionObj where
  "toy_listed = \<lparr>pm_Version = ''v1'', pm_ReleaseNotes = [], pm_TreeHash = toy_tree ''x'', pm_ArchiveURL = ''x'',
     pm_Format = ''zip''\<rparr>"

definition toy_indexed :: BrotherIndexEntryObj where
  "toy_indexed = \<lparr>bi_Version = ''v1'', bi_ReleaseNotes = [], bi_TreeHash = toy_tree ''x'', bi_SourceHash = zero_hash,
     bi_UpstreamSeq = 1\<rparr>"

lemma toy_announced [simp]: "pm_Version toy_listed = ''v1''" "pm_TreeHash toy_listed = toy_tree ''x''"
  "bi_Version toy_indexed = ''v1''" "bi_TreeHash toy_indexed = toy_tree ''x''"
  by (simp_all add: toy_listed_def toy_indexed_def)

lemma toy_not_zero: "\<not> IsZero (toy_tree ''x'')"
  by code_simp

text \<open>An empty index, and all that is stored is marked as deleted upstream.\<close>

lemma empty_index_marks_deleted:
  "map_option v_UpstreamDeleted (map_of (db_versions (st_db (rs_store (snd (sync_brother toy_rescan toy_rcfg ''app''
     ''app'' ''u'' False 7 [] (toy_pass toy_store2)))))) (''app'', ''v1'')) = Some True"
  by code_simp

end
