(* ===== verification/Rescan_Properties.thy ===== *)
theory Rescan_Properties
  imports Rescan_Sample
begin

text \<open>
  The properties of the rescan: what a pass over a key can do to the store, the registry and the two
  tables; whose tree an import installs; what the deletion grace may take; the positions of new
  versions.
\<close>

text \<open>C13: A pass over a key, from whatever source and whatever the upstreams answer and whichever calls
  fail, ends without an error, leaves the store reachable (so every listed version readable and all reference counts
  exact), the registry reachable (so its invariant holds and its snapshot is current) and the tables
  of the rescan in order: one row for each version, at most the configured number of quarantined versions for a
  key, and only known listing modes.\<close>

theorem rescan_pass_safe:
  assumes "inj_on (sv_H (re_store RE)) U" and "rescan_covered RE (rc_Store cfg) U"
    and "store_reachable (re_store RE) (rc_Store cfg) U (rs_store r)" and "state_reachable (rs_state r)"
    and "tables_ok (tabs r)" and run: "runKey RE cfg key forceRefresh cycleStart r = (x, r')"
  shows "x = Inr () \<and> store_reachable (re_store RE) (rc_Store cfg) U (rs_store r') \<and>
    consistent (re_store RE) U (st_db (rs_store r')) (st_pb (rs_store r')) \<and>
    state_reachable (rs_state r') \<and> state_inv (rs_state r') \<and> tables_ok (tabs r')"
proof -
  have "rescan_inv RE cfg U r'"
    using staysD [OF rescan.stays_runKey run] assms(2-5) by (simp add: rescan_inv_def)
  moreover have "x = Inr ()"
    using run by (auto simp: runKey_def sbind_def sret_def attempt_def split: if_splits prod.splits)
  ultimately show ?thesis
    using reachable_consistent [OF _ assms(1)] reachable_inv by (auto simp: rescan_inv_def)
qed

theorem rescan_pass_safe_witness:
  "consistent toy_env toy_U (st_db (rs_store (snd (runKey toy_rescan toy_rcfg ''app'' False 7 (toy_pass toy_store2)))))
     (st_pb (rs_store (snd (runKey toy_rescan toy_rcfg ''app'' False 7 (toy_pass toy_store2)))))"
proof -
  obtain x r' where run: "runKey toy_rescan toy_rcfg ''app'' False 7 (toy_pass toy_store2) = (x, r')" by fastforce
  have "consistent (re_store toy_rescan) toy_U (st_db (rs_store r')) (st_pb (rs_store r'))"
    using rescan_pass_safe [OF _ toy_covered _ _ _ run] toy_pass_ok [OF toy_reachable(2)] toy_inj
    by (simp add: rescan_inv_def)
  then show ?thesis by (simp add: run)
qed

text \<open>C16: The deletion that follows a listing leaves a consistent store consistent, whatever calls fail,
  and changes only versions of its key that the listing lacks, that are not historical, not marked
  yet, not below the listed window, and that were missed in at least the configured number of
  cycles, this one included. Those are removed, or only marked when the policy keeps them.\<close>

theorem deletion_grace_safe:
  assumes "consistent E U (st_db (rs_store r)) (st_pb (rs_store r))"
  shows "consistent E U (st_db (rs_store (applyDeletionGrace E cfg key ups floor minSeq r)))
      (st_pb (rs_store (applyDeletionGrace E cfg key ups floor minSeq r))) \<and>
    (\<forall>k. map_of (db_versions (st_db (rs_store (applyDeletionGrace E cfg key ups floor minSeq r)))) k =
        map_of (db_versions (st_db (rs_store r))) k \<or>
      (\<exists>v. map_of (db_versions (st_db (rs_store r))) k = Some v \<and> fst k = key \<and>
         may_go E cfg ups floor minSeq v \<and> rc_GraceCycles cfg \<le> miss_of r k + 1 \<and>
         map_of (db_versions (st_db (rs_store (applyDeletionGrace E cfg key ups floor minSeq r)))) k = removal cfg v))"
  using applyDeletionGrace_graced [OF assms, of cfg key ups floor minSeq] unfolding graced_def by blast

theorem deletion_grace_safe_witness:
  "map_of (db_versions (st_db (rs_store (applyDeletionGrace toy_env toy_rcfg ''app'' {} [] 0 (toy_pass toy_store2)))))
     (''app'', ''v0.0.0-old1'') = Some (toy_row ''v0.0.0-old1'' ''x'' 0 ''v1'')"
proof -
  have row: "map_of (db_versions (st_db toy_store2)) (''app'', ''v0.0.0-old1'') = Some (toy_row ''v0.0.0-old1'' ''x'' 0 ''v1'')"
    by (simp add: toy_store2_def)
  have "\<not> may_go toy_env toy_rcfg {} [] 0 (toy_row ''v0.0.0-old1'' ''x'' 0 ''v1'')" by code_simp
  then show ?thesis
    using deletion_grace_safe [of toy_env toy_U "toy_pass toy_store2" toy_rcfg "''app''" "{}" "[]" 0, THEN conjunct2,
      THEN spec, of "(''app'', ''v0.0.0-old1'')"] toy_consistent(2) row by simp
qed

text \<open>C17: The positions given to new versions are above every stored position of the key and fit in
  a signed 64-bit integer, are strictly falling in the order of the listing, go to each version at most
  once and only to versions the store does not have; when the rows are at hand, either every new version gets one or (no room or a
  failed read) none.\<close>

theorem new_positions_fresh:
  "\<exists>seqs st'. assignUpstreamSeqs E key versionArr localObj st = (Inr seqs, st') \<and> same st st' \<and>
     distinct (map fst seqs) \<and> subseq (map fst seqs) versionArr \<and> sorted_wrt (>) (map snd seqs) \<and>
     list_all (\<lambda>(v, n). is_new st key localObj v \<and> maxUpstreamSeq (st_db st) key < n \<and> n \<le> max_int64) seqs \<and>
     (localObj = None \<or> seqs = [] \<or> set (map fst seqs) = {v. v \<in> set versionArr \<and> is_new st key localObj v})"
proof -
  obtain r st' where t: "assignUpstreamSeqs E key versionArr localObj st = (r, st')" by fastforce
  from assignUpstreamSeqs_result [OF t] obtain seqs where r: "r = Inr seqs" "same st st'"
    and s: "seqs = [] \<or> (\<exists>ns. news_ok st key localObj [] versionArr ns \<and>
        maxUpstreamSeq (st_db st) key + int (length ns) \<le> max_int64 \<and>
        seqs = number_down (maxUpstreamSeq (st_db st) key + int (length ns)) ns)" by blast
  show ?thesis
  proof (cases "seqs = []")
    case True
    then show ?thesis using t r by (intro exI [of _ seqs] exI [of _ st']) simp
  next
    case False
    let ?n = "maxUpstreamSeq (st_db st) key"
    from s False obtain ns where ns: "news_ok st key localObj [] versionArr ns" "?n + int (length ns) \<le> max_int64"
      and sq: "seqs = number_down (?n + int (length ns)) ns" by blast
    note nd = number_down_props [where n = "?n + int (length ns)" and vs = ns, folded sq]
    have "is_new st key localObj v \<and> ?n < n \<and> n \<le> max_int64" if p: "(v, n) \<in> set seqs" for v n
    proof -
      have "v \<in> set ns" using p nd(1) by (metis fst_conv image_eqI set_map)
      then show ?thesis using nd(3) [OF p] ns unfolding news_ok_def by auto
    qed
    then have "list_all (\<lambda>(v, n). is_new st key localObj v \<and> ?n < n \<and> n \<le> max_int64) seqs"
      unfolding list_all_iff by blast
    then show ?thesis using t r ns(1) nd(1,2) unfolding news_ok_def
      by (intro exI [of _ seqs] exI [of _ st']) auto
  qed
qed

text \<open>C15: An import from the public listing of a sibling is authentic: the listing names the digest of
  the tree, and whatever the sibling then sends as the archive, first at most the quota has run, on the versions that were there
  (\<open>evicted\<close>: if a version is gone, the versions are those a run of the budget check leaves). If the
  import reports success, the version has the announced tree, its former tree (if it had another one and the policy keeps
  history) is under one new historical name, and every other version is as the quota left it. If it reports anything
  else, every version has the tree the quota left. If the sibling did not send an archive with the announced
  tree, the import reports no success and nothing changed at all, not even by the quota.\<close>

theorem mirror_import_authentic:
  assumes "inj_on (sv_H (re_store RE)) U" and "rescan_covered RE (rc_Store cfg) U" and "rescan_inv RE cfg U r"
    and "\<not> IsZero (pm_TreeHash e)" and "ingestPublicMirrorVersion RE cfg key e seq r = (x, r')"
  shows "(\<exists>q. evicted (re_store RE) (rc_Store cfg) (rs_store r) q \<and>
      (if x = Inr True
       then replaced (rc_Store cfg) (key, pm_Version e) (pm_TreeHash e) (trees q) (trees (rs_store r'))
       else trees (rs_store r') = trees q)) \<and>
    (mirror_sent RE cfg key e r \<or> x \<noteq> Inr True \<and> trees (rs_store r') = trees (rs_store r))"
proof
  have "installs RE cfg (key, pm_Version e) (pm_TreeHash e) r (said x) r'"
    by (rule mirror_version_installs [OF assms(1) _ assms(4,5)]) (use assms(2,3) in simp)
  then show "\<exists>q. evicted (re_store RE) (rc_Store cfg) (rs_store r) q \<and>
      (if x = Inr True
       then replaced (rc_Store cfg) (key, pm_Version e) (pm_TreeHash e) (trees q) (trees (rs_store r'))
       else trees (rs_store r') = trees q)"
    unfolding installs_def by (cases "x = Inr True") auto
qed (use mirror_refuses [OF assms(4) _ assms(5)] in blast)

theorem mirror_import_authentic_witness:
  "\<exists>q x r'. ingestPublicMirrorVersion toy_rescan toy_rcfg ''app'' toy_listed 1 (toy_pass empty_store) = (x, r') \<and>
     evicted toy_env toy_cfg empty_store q \<and>
     (x = Inr True \<and> replaced toy_cfg (''app'', ''v1'') (toy_tree ''x'') (trees q) (trees (rs_store r')) \<or>
      trees (rs_store r') = trees q)"
proof -
  obtain x r' where run: "ingestPublicMirrorVersion toy_rescan toy_rcfg ''app'' toy_listed 1 (toy_pass empty_store) = (x, r')"
    by fastforce
  then show ?thesis
    using mirror_import_authentic [OF _ toy_covered toy_pass_ok [OF store_reachable.start] _ run] toy_inj toy_not_zero
    by (auto split: if_splits)
qed

text \<open>C14: The same for a version from a session: the tree is announced in the index, sent as an encoding
  and checked; then its entries are normalised, their blobs are fetched, and the version is published
  under the digest that comes out of all this. It is the announced one: the trees of all versions are afterwards those
  the quota left, or those with the announced tree in place and, if the version had another tree and the policy keeps
  history, that former tree under one new historical name of the key. If the sibling did not send an encoding with the
  announced digest, nothing changed at all.\<close>

theorem session_import_authentic:
  assumes "inj_on (sv_H (re_store RE)) U" and "rescan_covered RE (rc_Store cfg) U" and "rescan_inv RE cfg U r"
    and "\<not> IsZero (bi_TreeHash b)" and "ingestBrotherVersion RE cfg key b seq r = (x, r')"
  shows "(\<exists>q. evicted (re_store RE) (rc_Store cfg) (rs_store r) q \<and>
      (trees (rs_store r') = trees q \<or>
       replaced (rc_Store cfg) (key, bi_Version b) (bi_TreeHash b) (trees q) (trees (rs_store r')))) \<and>
    (brother_sent RE b r \<or> trees (rs_store r') = trees (rs_store r))"
proof
  have "installs RE cfg (key, bi_Version b) (bi_TreeHash b) r None r'"
    by (rule brother_version_installs [OF assms(1) _ assms(4,5)]) (use assms(2,3) in simp)
  then show "\<exists>q. evicted (re_store RE) (rc_Store cfg) (rs_store r) q \<and>
      (trees (rs_store r') = trees q \<or>
       replaced (rc_Store cfg) (key, bi_Version b) (bi_TreeHash b) (trees q) (trees (rs_store r')))"
    unfolding installs_def by simp
qed (use brother_refuses [OF assms(4) _ assms(5)] in blast)

theorem session_import_authentic_witness:
  "\<exists>q x r'. ingestBrotherVersion toy_rescan toy_rcfg ''app'' toy_indexed 1 (toy_pass empty_store) = (x, r') \<and>
     evicted toy_env toy_cfg empty_store q \<and>
     (trees (rs_store r') = trees q \<or>
      replaced toy_cfg (''app'', ''v1'') (toy_tree ''x'') (trees q) (trees (rs_store r')))"
proof -
  obtain x r' where run: "ingestBrotherVersion toy_rescan toy_rcfg ''app'' toy_indexed 1 (toy_pass empty_store) = (x, r')"
    by fastforce
  then show ?thesis
    using session_import_authentic [OF _ toy_covered toy_pass_ok [OF store_reachable.start] _ run] toy_inj toy_not_zero
    by auto
qed

end
