(* ===== verification/Session_Server.thy ===== *)
theory Session_Server
  imports Rescan_Brother
begin

text \<open>
  The serving side of a session between siblings (\<open>server/brother/\<close>): the handlers of the four
  calls over the storage, and the slots of the peers. Messages are those of \<open>brotherwire/wire.go\<close>; how gob
  and net/rpc carry them is not modelled. A handler is an operation of the store: any of its calls may
  fail, and it changes nothing.
\<close>

section \<open>Messages (brotherwire/wire.go)\<close>

definition Protocol :: string where "Protocol = ''mesh1''"

record HelloReplyObj =
  hr_Protocol :: string
  hr_MaxFetchResponseBytes :: u64
  hr_MaxFetchBatchCount :: u32
  hr_IndexKeyset :: bool

record IndexArgObj =
  ia_Key :: string
  ia_Page :: u32
  ia_AfterSeq :: int
  ia_AfterVersion :: string

record IndexEntryObj =
  wi_Version :: string
  wi_BodyMD :: string
  wi_TreeHash :: HashObj
  wi_SourceHash :: HashObj
  wi_UpstreamSeq :: int

record IndexReplyObj =
  ir_Entries :: "IndexEntryObj list"
  ir_NextPage :: u32
  ir_SourceURL :: string

record VersionReplyObj =
  vr_TreeHash :: HashObj
  vr_TreeBytes :: bytes

record WireBlobObj =
  wb_Hash :: HashObj
  wb_Value :: bytes

section \<open>Handlers (rpc.go)\<close>

definition cIndexPageSize :: nat where "cIndexPageSize = 4096"
definition cMaxIndexPage :: u32 where "cMaxIndexPage = 64"

record handlerObj =
  hd_releaseMirrors :: "(string \<times> string) list"
  hd_maxFetchResponseBytes :: u64
  hd_maxFetchBatchCount :: int
  hd_verify :: bool

text \<open>\<open>hd_verify\<close> is the storage's policy to verify what it reads.\<close>

definition effectiveFetchResponseBytes :: "u64 \<Rightarrow> u64" where
  "effectiveFetchResponseBytes v = (if v = 0 then DefaultMaxFetchResponseBytes else v)"

definition effectiveFetchBatchCount :: "u64 \<Rightarrow> int" where
  "effectiveFetchBatchCount v = (if v = 0 then int DefaultMaxFetchBatchCount else sint v)"

definition sourceInfo :: "handlerObj \<Rightarrow> string \<Rightarrow> string" where
  "sourceInfo h key = (case map_of (hd_releaseMirrors h) key of Some url \<Rightarrow> url | None \<Rightarrow> [])"

definition fetchResponseBytes :: "handlerObj \<Rightarrow> u64" where
  "fetchResponseBytes h = (if hd_maxFetchResponseBytes h = 0 then DefaultMaxFetchResponseBytes else hd_maxFetchResponseBytes h)"

definition fetchBatchCount :: "handlerObj \<Rightarrow> nat" where
  "fetchBatchCount h = (if hd_maxFetchBatchCount h \<le> 0 then DefaultMaxFetchBatchCount else nat (hd_maxFetchBatchCount h))"

definition srv_Hello :: "handlerObj \<Rightarrow> HelloReplyObj" where
  "srv_Hello h = \<lparr>hr_Protocol = Protocol, hr_MaxFetchResponseBytes = fetchResponseBytes h,
     hr_MaxFetchBatchCount = of_nat (fetchBatchCount h), hr_IndexKeyset = True\<rparr>"

definition index_entry :: "VersionObj \<Rightarrow> IndexEntryObj" where
  "index_entry v = \<lparr>wi_Version = v_Version v, wi_BodyMD = v_ReleaseNotes v, wi_TreeHash = v_TreeHash v,
     wi_SourceHash = v_SourceHash v, wi_UpstreamSeq = v_UpstreamSeq v\<rparr>"

definition srv_Index :: "store_env \<Rightarrow> handlerObj \<Rightarrow> IndexArgObj \<Rightarrow> IndexReplyObj sto" where
  "srv_Index E h arg =
     (let pageNum = (if ia_Page arg < 1 then 1 else ia_Page arg);
          useKeyset = (ia_AfterVersion arg \<noteq> [] \<or> pageNum = 1)
      in if \<not> useKeyset \<and> pageNum > cMaxIndexPage
         then sret \<lparr>ir_Entries = [], ir_NextPage = 0, ir_SourceURL = sourceInfo h (ia_Key arg)\<rparr>
         else
           sbind (if useKeyset
                  then sto_ListVersionsKeyset E (ia_Key arg) False (ia_AfterSeq arg) (ia_AfterVersion arg) (int cIndexPageSize + 1)
                  else sto_ListVersionsPage E (ia_Key arg) False (int cIndexPageSize + 1) (uint (pageNum - 1) * int cIndexPageSize))
             (\<lambda>versionArr.
           let hasNext = length versionArr > cIndexPageSize
           in sret \<lparr>ir_Entries = map index_entry (if hasNext then take cIndexPageSize versionArr else versionArr),
                ir_NextPage = (if hasNext then pageNum + 1 else 0), ir_SourceURL = sourceInfo h (ia_Key arg)\<rparr>))"

definition srv_Version :: "store_env \<Rightarrow> handlerObj \<Rightarrow> string \<Rightarrow> string \<Rightarrow> VersionReplyObj sto" where
  "srv_Version E h key version =
     sbind (sto_GetVersion E key version) (\<lambda>found.
     case found of None \<Rightarrow> sfail (ErrInvalid ''version not found'')
     | Some versionObj \<Rightarrow>
         sbind (ReadTree E (hd_verify h) (v_TreeHash versionObj)) (\<lambda>entryArr.
         sbind (slift (map_err ErrTree (Encode (sv_H E) entryArr))) (\<lambda>(treeBytes, treeHash).
         sret \<lparr>vr_TreeHash = treeHash, vr_TreeBytes = treeBytes\<rparr>)))"

fun srv_blobs_from ::
  "store_env \<Rightarrow> bool \<Rightarrow> u64 \<Rightarrow> HashObj list \<Rightarrow> u64 \<Rightarrow> WireBlobObj list \<Rightarrow> HashObj list \<Rightarrow> WireBlobObj list sto" where
  "srv_blobs_from E verifyFlag maxResponseBytes seen totalBytes blobs [] st = (Inr blobs, st)"
| "srv_blobs_from E verifyFlag maxResponseBytes seen totalBytes blobs (w # ws) st =
     (if w \<in> set seen then srv_blobs_from E verifyFlag maxResponseBytes seen totalBytes blobs ws st
      else
        (case ReadBlob E verifyFlag w st of
           (Inl e, st1) \<Rightarrow>
             if e = ErrObjectNotFound
             then srv_blobs_from E verifyFlag maxResponseBytes (w # seen) totalBytes blobs ws st1
             else (Inl e, st1)
         | (Inr d, st1) \<Rightarrow>
             let totalBytes' = totalBytes + of_nat (length d)
             in if totalBytes' > maxResponseBytes then (Inl (ErrInvalid ''blob batch response''), st1)
                else srv_blobs_from E verifyFlag maxResponseBytes (w # seen) totalBytes'
                       (blobs @ [\<lparr>wb_Hash = w, wb_Value = d\<rparr>]) ws st1))"

definition srv_BlobsFetch :: "store_env \<Rightarrow> handlerObj \<Rightarrow> HashObj list \<Rightarrow> WireBlobObj list sto" where
  "srv_BlobsFetch E h hashes =
     (if length hashes > fetchBatchCount h then sfail (ErrInvalid ''blob batch too large'')
      else srv_blobs_from E (hd_verify h) (fetchResponseBytes h) [] 0 [] hashes)"

section \<open>Slots of the peers (obj.go)\<close>

type_synonym peerSlots = "(string \<times> nat) list"

definition peer_sessions :: "peerSlots \<Rightarrow> string \<Rightarrow> nat" where
  "peer_sessions m host = (case map_of m host of Some n \<Rightarrow> n | None \<Rightarrow> 0)"

definition peer_limit :: "int \<Rightarrow> int \<Rightarrow> int" where
  "peer_limit perPeer maxParallel =
     (if perPeer \<le> 0 \<and> maxParallel > 1 then (maxParallel + 1) div 2 else perPeer)"

definition acquirePeerSlot :: "int \<Rightarrow> string \<Rightarrow> peerSlots \<Rightarrow> bool \<times> peerSlots" where
  "acquirePeerSlot peerMax host m =
     (if peerMax \<le> 0 then (True, m)
      else if int (peer_sessions m host) \<ge> peerMax then (False, m)
      else (True, AList.update host (Suc (peer_sessions m host)) m))"

definition releasePeerSlot :: "int \<Rightarrow> string \<Rightarrow> peerSlots \<Rightarrow> peerSlots" where
  "releasePeerSlot peerMax host m =
     (if peerMax \<le> 0 then m
      else if peer_sessions m host \<le> 1 then AList.delete host m
      else AList.update host (peer_sessions m host - 1) m)"

section \<open>Frames\<close>

lemma reads_ReadBlob [frame]: "reads (ReadBlob E verifyFlag h)" "reads (ReadTree E verifyFlag h)"
  unfolding ReadBlob_def ReadTree_def pb_ReadBlob_def pb_ReadTree_def readUnverified_def by (intro frame)+

lemma reads_srv [frame]: "reads (srv_Index E h arg)" "reads (srv_Version E h key version)"
  unfolding srv_Index_def srv_Version_def sto_ListVersionsKeyset_def sto_ListVersionsPage_def
    ListVersionsKeyset_def ListVersionsPage_def Let_def by (intro frame)+

end
