(* ===== verification/Session_Client.thy ===== *)
theory Session_Client
  imports Session_Server
begin

text \<open>
  The asking side of a session (\<open>source/brother.go\<close>). The peer is a record of four functions on a state
  of its own, so it may answer anything and differently each time; \<open>honest\<close> is the peer that runs the
  handlers of \<open>Session_Server\<close> on a store. Dialling, TLS and the codec are not modelled: a
  session starts with \<open>open_session\<close>.
\<close>

section \<open>The session\<close>

datatype session_error =
  SessionFailed | SessionClosed | RpcFailed | RpcInvalid string | FetchCap | BlobHashMismatch | BlobWrite

record sourceCfg =
  sc_H :: "bytes \<Rightarrow> HashObj"
  sc_maxFetchBytes :: u64
  sc_maxFetchCount :: u64
  sc_maxBlobBytes :: u64
  sc_disk :: "nat \<Rightarrow> bool"

text \<open>\<open>sc_disk n\<close>: the \<open>n\<close>-th file is written. \<open>bs_files\<close> are the files of the spool.\<close>

record BrotherSessionObj =
  bs_failed :: bool
  bs_closed :: bool
  bs_remoteKey :: string
  bs_fetchBytes :: u64
  bs_fetchCount :: u64
  bs_indexKeyset :: bool
  bs_indexAfterSeq :: int
  bs_indexAfterVersion :: string
  bs_files :: "(string \<times> bytes) list"
  bs_writes :: nat

datatype 'r rpc_outcome = Answered 'r | ServerError | NotSent | Broken

record 'w peerObj =
  pr_hello :: "'w \<Rightarrow> HelloReplyObj rpc_outcome \<times> 'w"
  pr_index :: "IndexArgObj \<Rightarrow> 'w \<Rightarrow> IndexReplyObj rpc_outcome \<times> 'w"
  pr_version :: "string \<Rightarrow> string \<Rightarrow> 'w \<Rightarrow> VersionReplyObj rpc_outcome \<times> 'w"
  pr_blobs :: "HashObj list \<Rightarrow> 'w \<Rightarrow> WireBlobObj list rpc_outcome \<times> 'w"

type_synonym ('w, 'a) ses = "(BrotherSessionObj \<times> 'w, session_error, 'a) op"

definition open_session :: "sourceCfg \<Rightarrow> string \<Rightarrow> BrotherSessionObj" where
  "open_session cfg remoteKey = \<lparr>bs_failed = False, bs_closed = False, bs_remoteKey = remoteKey,
     bs_fetchBytes = sc_maxFetchBytes cfg, bs_fetchCount = sc_maxFetchCount cfg, bs_indexKeyset = False,
     bs_indexAfterSeq = 0, bs_indexAfterVersion = [], bs_files = [], bs_writes = 0\<rparr>"

definition Close_session :: "BrotherSessionObj \<Rightarrow> BrotherSessionObj" where
  "Close_session s = s\<lparr>bs_closed := True\<rparr>"

definition Healthy :: "BrotherSessionObj \<Rightarrow> bool" where
  "Healthy s \<longleftrightarrow> \<not> bs_failed s \<and> \<not> bs_closed s"

definition FetchLimits :: "BrotherSessionObj \<Rightarrow> u64 \<times> u64" where
  "FetchLimits s = (bs_fetchBytes s, bs_fetchCount s)"

definition updateFetchLimits :: "sourceCfg \<Rightarrow> u64 \<Rightarrow> u32 \<Rightarrow> BrotherSessionObj \<Rightarrow> BrotherSessionObj" where
  "updateFetchLimits cfg remoteBytes remoteCount s =
     s\<lparr>bs_fetchBytes := (if remoteBytes > 0 \<and> remoteBytes < sc_maxFetchBytes cfg then remoteBytes else sc_maxFetchBytes cfg),
       bs_fetchCount := (if remoteCount > 0 \<and> ucast remoteCount < sc_maxFetchCount cfg then ucast remoteCount
                         else sc_maxFetchCount cfg)\<rparr>"

definition on_session :: "(BrotherSessionObj \<Rightarrow> BrotherSessionObj) \<Rightarrow> ('w, unit) ses" where
  "on_session f = smod (\<lambda>(s, w). (f s, w))"

definition rpcCall :: "('w \<Rightarrow> 'r rpc_outcome \<times> 'w) \<Rightarrow> ('w, 'r) ses" where
  "rpcCall call sw =
     (case sw of (s, w) \<Rightarrow>
        if bs_failed s then (Inl SessionFailed, sw)
        else if bs_closed s then (Inl SessionClosed, sw)
        else (case call w of
                (Answered r, w') \<Rightarrow> (Inr r, (s, w'))
              | (ServerError, w') \<Rightarrow> (Inl RpcFailed, (s, w'))
              | (NotSent, w') \<Rightarrow> (Inl RpcFailed, (s, w'))
              | (Broken, w') \<Rightarrow> (Inl RpcFailed, (s\<lparr>bs_failed := True\<rparr>, w'))))"

section \<open>Hello and Index\<close>

definition ses_Hello :: "sourceCfg \<Rightarrow> 'w peerObj \<Rightarrow> ('w, string) ses" where
  "ses_Hello cfg peer =
     sbind (rpcCall (pr_hello peer)) (\<lambda>reply.
     sbind (on_session (\<lambda>s. (updateFetchLimits cfg (hr_MaxFetchResponseBytes reply) (hr_MaxFetchBatchCount reply) s)
              \<lparr>bs_indexKeyset := hr_IndexKeyset reply\<rparr>)) (\<lambda>_.
     sret (hr_Protocol reply)))"

definition cIndexPageMax :: nat where "cIndexPageMax = 4096"
definition cMaxVersionBytes_rpc :: nat where "cMaxVersionBytes_rpc = 256"
definition cMaxBodyMDBytes :: nat where "cMaxBodyMDBytes = 128 * 2 ^ 10"
definition cMaxSourceURLBytes :: nat where "cMaxSourceURLBytes = 2048"
definition cTreeObjectMax :: nat where "cTreeObjectMax = 256 * 2 ^ 20"

definition check_index_entry :: "IndexEntryObj \<Rightarrow> session_error + BrotherIndexEntryObj" where
  "check_index_entry e =
     guard (length (wi_Version e) = 0 \<or> length (wi_Version e) > cMaxVersionBytes_rpc) (RpcInvalid ''version string length'')
    (guard (length (wi_BodyMD e) > cMaxBodyMDBytes) (RpcInvalid ''release notes too large'')
    (guard (wi_UpstreamSeq e < 0) (RpcInvalid ''negative upstream seq'')
    (Inr \<lparr>bi_Version = wi_Version e, bi_ReleaseNotes = wi_BodyMD e, bi_TreeHash = wi_TreeHash e,
          bi_SourceHash = wi_SourceHash e, bi_UpstreamSeq = wi_UpstreamSeq e\<rparr>)))"

fun check_index_entries :: "IndexEntryObj list \<Rightarrow> session_error + BrotherIndexEntryObj list" where
  "check_index_entries [] = Inr []"
| "check_index_entries (e # es) =
     andthen (check_index_entry e) (\<lambda>b. andthen (check_index_entries es) (\<lambda>bs. Inr (b # bs)))"

definition advance_cursor :: "u32 \<Rightarrow> BrotherIndexEntryObj list \<Rightarrow> BrotherSessionObj \<Rightarrow> BrotherSessionObj" where
  "advance_cursor nextPage out s =
     (if \<not> bs_indexKeyset s then s
      else if nextPage = 0 then s\<lparr>bs_indexAfterSeq := 0, bs_indexAfterVersion := []\<rparr>
      else if out = [] then s
      else s\<lparr>bs_indexAfterSeq := bi_UpstreamSeq (last out), bs_indexAfterVersion := bi_Version (last out)\<rparr>)"

definition index_arg :: "BrotherSessionObj \<Rightarrow> u32 \<Rightarrow> IndexArgObj" where
  "index_arg s page =
     (if bs_indexKeyset s
      then \<lparr>ia_Key = bs_remoteKey s, ia_Page = page, ia_AfterSeq = bs_indexAfterSeq s, ia_AfterVersion = bs_indexAfterVersion s\<rparr>
      else \<lparr>ia_Key = bs_remoteKey s, ia_Page = page, ia_AfterSeq = 0, ia_AfterVersion = []\<rparr>)"

definition ses_Index :: "'w peerObj \<Rightarrow> u32 \<Rightarrow> ('w, BrotherIndexEntryObj list \<times> u32 \<times> string) ses" where
  "ses_Index peer page =
     sbind (on_session (\<lambda>s. if bs_indexKeyset s \<and> page \<le> 1
              then s\<lparr>bs_indexAfterSeq := 0, bs_indexAfterVersion := []\<rparr> else s)) (\<lambda>_.
     sbind (sget (\<lambda>(s, w). index_arg s page)) (\<lambda>arg.
     sbind (rpcCall (pr_index peer arg)) (\<lambda>reply.
     sbind (sguard (length (ir_Entries reply) > cIndexPageMax) (RpcInvalid ''index page too large'')) (\<lambda>_.
     sbind (sguard (ir_NextPage reply \<noteq> 0 \<and> ir_NextPage reply \<le> page) (RpcInvalid ''non-monotonic next page'')) (\<lambda>_.
     sbind (sguard (length (ir_SourceURL reply) > cMaxSourceURLBytes) (RpcInvalid ''source url too large'')) (\<lambda>_.
     sbind (slift (check_index_entries (ir_Entries reply))) (\<lambda>out.
     sbind (on_session (advance_cursor (ir_NextPage reply) out)) (\<lambda>_.
     sret (out, ir_NextPage reply, ir_SourceURL reply)))))))))"

section \<open>Version and BlobsFetch\<close>

definition ses_Version :: "sourceCfg \<Rightarrow> 'w peerObj \<Rightarrow> string \<Rightarrow> ('w, bytes) ses" where
  "ses_Version cfg peer version =
     sbind (sget (\<lambda>(s, w). bs_remoteKey s)) (\<lambda>remoteKey.
     sbind (rpcCall (pr_version peer remoteKey version)) (\<lambda>reply.
     sbind (sguard (vr_TreeBytes reply = [] \<or> length (vr_TreeBytes reply) > cTreeObjectMax) (RpcInvalid ''tree object size'')) (\<lambda>_.
     sbind (sguard (VerifyHash (sc_H cfg) (vr_TreeHash reply) (vr_TreeBytes reply) \<noteq> Inr ()) (RpcInvalid ''tree hash mismatch'')) (\<lambda>_.
     sret (vr_TreeBytes reply)))))"

text \<open>\<open>destDir\<close> is the clean path of the spool.\<close>

definition spoolPath :: "string \<Rightarrow> string \<Rightarrow> string" where
  "spoolPath destDir name = destDir @ slash # name"

definition writeBlobFile :: "sourceCfg \<Rightarrow> string \<Rightarrow> bytes \<Rightarrow> ('w, unit) ses" where
  "writeBlobFile cfg path dataArr =
     sbind (sget (\<lambda>(s, w). sc_disk cfg (bs_writes s))) (\<lambda>okFlag.
     sbind (on_session (\<lambda>s. s\<lparr>bs_writes := Suc (bs_writes s),
         bs_files := (if okFlag then AList.update path dataArr (bs_files s) else bs_files s)\<rparr>)) (\<lambda>_.
     sguard (\<not> okFlag) BlobWrite))"

fun stage_blobs ::
  "sourceCfg \<Rightarrow> string \<Rightarrow> HashObj set \<Rightarrow> HashObj set \<Rightarrow> WireBlobObj list \<Rightarrow> ('w, StagedBlobObj list) ses" where
  "stage_blobs cfg destDir want seen [] = sret []"
| "stage_blobs cfg destDir want seen (b # bs) =
     (let h = wb_Hash b; path = spoolPath destDir (HashHex h @ ''.blob'') in
      if h \<notin> want \<or> h \<in> seen then stage_blobs cfg destDir want seen bs
      else
        sbind (sguard (of_nat (length (wb_Value b)) > sc_maxBlobBytes cfg) (RpcInvalid ''blob too large'')) (\<lambda>_.
        sbind (sguard (VerifyHash (sc_H cfg) h (wb_Value b) \<noteq> Inr ()) BlobHashMismatch) (\<lambda>_.
        sbind (writeBlobFile cfg path (wb_Value b)) (\<lambda>_.
        sbind (stage_blobs cfg destDir want (insert h seen) bs) (\<lambda>staged.
        sret (\<lparr>sb_BlobHash = h, sb_SizeBytes = of_nat (length (wb_Value b)), sb_FilePath = path\<rparr> # staged))))))"

definition ses_BlobsFetch ::
  "sourceCfg \<Rightarrow> 'w peerObj \<Rightarrow> BlobReqObj list \<Rightarrow> string \<Rightarrow> ('w, StagedBlobObj list) ses" where
  "ses_BlobsFetch cfg peer reqs destDir =
     (if reqs = [] then sret []
      else
        sbind (sget (\<lambda>(s, w). FetchLimits s)) (\<lambda>(maxFetchBytes, maxFetchCount).
        sbind (sguard (int (length reqs) > sint maxFetchCount \<or> sum_list (map rq_SizeBytes reqs) > maxFetchBytes) FetchCap) (\<lambda>_.
        sbind (rpcCall (pr_blobs peer (map rq_Hash reqs))) (\<lambda>reply.
        stage_blobs cfg destDir (set (map rq_Hash reqs)) {} reply))))"

section \<open>The honest peer\<close>

text \<open>The handlers on the store of the sibling; \<open>net/rpc\<close> carries an error as an error of the server.\<close>

definition served :: "'a sto \<Rightarrow> storeObj \<Rightarrow> 'a rpc_outcome \<times> storeObj" where
  "served m st = (case m st of (Inl _, st') \<Rightarrow> (ServerError, st') | (Inr x, st') \<Rightarrow> (Answered x, st'))"

definition honest :: "store_env \<Rightarrow> handlerObj \<Rightarrow> storeObj peerObj" where
  "honest E h = \<lparr>pr_hello = (\<lambda>st. (Answered (srv_Hello h), st)), pr_index = (\<lambda>arg. served (srv_Index E h arg)),
     pr_version = (\<lambda>key version. served (srv_Version E h key version)),
     pr_blobs = (\<lambda>hashes. served (srv_BlobsFetch E h hashes))\<rparr>"

end
