(* ===== verification/Rescan_Loops.thy ===== *)
theory Rescan_Loops
  imports Rescan_Cycle
begin

text \<open>
  The loops of the rescan that a sibling drives: the paged index of a session, the paged public
  listing, and the batches in which missing blobs are requested. A sibling cannot keep a node in them, and
  what it can make the node hold is bounded.
\<close>

section \<open>The index\<close>

definition index_bytes :: "BrotherIndexEntryObj list \<Rightarrow> u64" where
  "index_bytes es = fold (\<lambda>e b. b + brotherEntryBytes e) es 0"

lemma ask_Inr: "ask g r = (x, r') \<longleftrightarrow> x = Inr (g (rs_clock r)) \<and> r' = r\<lparr>rs_clock := Suc (rs_clock r)\<rparr>"
  by (auto simp: ask_def)

lemma sbind_ask: "sbind (ask g) f r = f (g (rs_clock r)) (r\<lparr>rs_clock := Suc (rs_clock r)\<rparr>)"
  by (simp add: sbind_def ask_def)

definition index_bounded :: "(BrotherIndexEntryObj list \<times> string) option \<Rightarrow> bool" where
  "index_bounded res \<longleftrightarrow>
     (case res of None \<Rightarrow> True | Some (es, _) \<Rightarrow> length es \<le> cMaxBrotherVersions \<and> index_bytes es \<le> cMaxBrotherIndexBytes)"

lemma brother_pages_ends:
  assumes "brother_pages fuel RE page es b src r = (x, r')" "b = index_bytes es"
    and "length es \<le> cMaxBrotherVersions" "length es + fuel \<ge> cMaxBrotherVersions + 2"
  shows "(\<exists>res. x = Inr (Some res) \<and> index_bounded res) \<and> rs_clock r' \<le> rs_clock r + fuel \<and>
    r' = r\<lparr>rs_clock := rs_clock r'\<rparr>"
  using assms
proof (induction fuel arbitrary: page es b src r)
  case 0
  then show ?case by simp
next
  case (Suc fuel)
  let ?r1 = "r\<lparr>rs_clock := Suc (rs_clock r)\<rparr>"
  show ?case
  proof (cases "re_index RE (rs_clock r) page")
    case None
    then show ?thesis using Suc.prems(1) by (auto simp: sbind_ask sret_def index_bounded_def)
  next
    case (Some a)
    obtain new next' url where a: "a = (new, next', url)" by (cases a)
    have b: "fold (\<lambda>e b. b + brotherEntryBytes e) new b = index_bytes (es @ new)"
      using Suc.prems(2) by (simp add: index_bytes_def)
    show ?thesis
    proof (cases "index_bytes (es @ new) > cMaxBrotherIndexBytes \<or> length (es @ new) > cMaxBrotherVersions \<or> next' = 0 \<or> new = []")
      case True
      then show ?thesis using Suc.prems(1) unfolding brother_pages.simps sbind_ask Some a option.case prod.case Let_def b
        by (auto simp: sret_def index_bounded_def split: if_splits)
    next
      case False
      then have run: "brother_pages fuel RE next' (es @ new) (index_bytes (es @ new)) (if url \<noteq> [] then url else src) ?r1 = (x, r')"
        using Suc.prems(1) unfolding brother_pages.simps sbind_ask Some a option.case prod.case Let_def b
        by (simp split: if_splits)
      have fuel: "length (es @ new) + fuel \<ge> cMaxBrotherVersions + 2"
        using False Suc.prems(4) by (cases new) auto
      show ?thesis using Suc.IH [OF run refl _ fuel] False by auto
    qed
  qed
qed

section \<open>The public listing\<close>

lemma mirror_entries_names:
  assumes "mirror_entries RE key force l vs r = (Inr page, r')" "length (ml_Names l) \<le> cMaxReleases"
  shows "case page of MirrorError \<Rightarrow> True
    | MirrorDone l' \<Rightarrow> length (ml_Names l') \<le> cMaxReleases
    | MirrorMore l' \<Rightarrow> length (ml_Names l') \<le> cMaxReleases \<and> length (ml_Names l) \<le> length (ml_Names l')"
  using assms
proof (induction vs arbitrary: l r)
  case Nil
  then show ?case by (auto simp: sret_def)
next
  case (Cons version vs)
  let ?l = "l\<lparr>ml_Names := ml_Names l @ [version]\<rparr>"
  show ?case
  proof (cases "length (ml_Names l) \<ge> cMaxReleases \<or> version = []")
    case True
    then show ?thesis using Cons by (auto simp: sret_def split: if_splits)
  next
    case False
    then have "length (ml_Names ?l) \<le> cMaxReleases" by simp
    have run: "sbind (publicMirrorDetailSkip RE key force version) (\<lambda>skipFlag.
        if skipFlag then mirror_entries RE key force ?l vs
        else sbind (ask (\<lambda>n. re_mirrorDetail RE n version)) (\<lambda>res.
          case res of
            None \<Rightarrow>
              sbind (ask (re_stopped RE)) (\<lambda>stopped.
              if stopped then sret MirrorError
              else mirror_entries RE key force (?l\<lparr>ml_Unresolved := Suc (ml_Unresolved ?l)\<rparr>) vs)
          | Some versionObj \<Rightarrow>
              mirror_entries RE key force (?l\<lparr>ml_Versions := ml_Versions ?l @ [versionObj]\<rparr>) vs)) r = (Inr page, r')"
      using Cons.prems(1) False by (simp add: Let_def)
    then consider (err) "page = MirrorError"
      | (more) l2 r2 where "mirror_entries RE key force l2 vs r2 = (Inr page, r')" "ml_Names l2 = ml_Names ?l"
    proof (cases rule: sbindE)
      case (err e)
      then show ?thesis by simp
    next
      case (ok skipFlag r1)
      then show ?thesis using that by (auto simp: sbind_ask sret_def split: if_splits option.splits)
    qed
    then show ?thesis
    proof cases
      case more
      then show ?thesis using Cons.IH [OF more(1)] False by (auto split: mirror_page.splits)
    qed simp
  qed
qed

definition listing_bounded :: "PublicMirrorListingObj option \<Rightarrow> bool" where
  "listing_bounded res \<longleftrightarrow> (case res of None \<Rightarrow> True | Some l \<Rightarrow> length (ml_Names l) \<le> cMaxReleases)"

lemma mirror_pages_ends:
  assumes "mirror_pages fuel RE root remoteKey key force next' seen l r = (Inr x, r')"
    and "length (ml_Names l) \<le> cMaxReleases" "length (ml_Names l) + fuel \<ge> cMaxReleases + 2"
  shows "\<exists>res. x = Some res \<and> listing_bounded res"
  using assms
proof (induction fuel arbitrary: next' seen l r)
  case 0
  then show ?case by simp
next
  case (Suc fuel)
  let ?r1 = "r\<lparr>rs_clock := Suc (rs_clock r)\<rparr>"
  show ?case
  proof (cases "re_mirrorPage RE (rs_clock r) root remoteKey next'")
    case None
    then show ?thesis using Suc.prems(1) by (auto simp: sbind_ask sret_def listing_bounded_def)
  next
    case (Some a)
    obtain versions cursor where a: "a = (versions, cursor)" by (cases a)
    from Suc.prems(1) show ?thesis unfolding mirror_pages.simps sbind_ask Some a option.case prod.case
    proof (cases rule: sbindE)
      case (err e)
      then show ?thesis by simp
    next
      case (ok page r2)
      note names = mirror_entries_names [OF ok(1) Suc.prems(2)]
      show ?thesis
      proof (cases page)
        case MirrorError
        then show ?thesis using ok(2) by (auto simp: sret_def listing_bounded_def)
      next
        case (MirrorDone l')
        then show ?thesis using ok(2) names by (auto simp: sret_def listing_bounded_def)
      next
        case (MirrorMore l')
        show ?thesis
        proof (cases "cursor = [] \<or> versions = [] \<or> length (ml_Names l') = length (ml_Names l) \<or> cursor \<in> set seen")
          case True
          then show ?thesis using ok(2) names MirrorMore by (auto simp: sret_def listing_bounded_def split: if_splits)
        next
          case False
          then have run: "mirror_pages fuel RE root remoteKey key force cursor (cursor # seen) l' r2 = (Inr x, r')"
            using ok(2) MirrorMore by simp
          have len: "length (ml_Names l') \<le> cMaxReleases" "length (ml_Names l) \<le> length (ml_Names l')"
            using names MirrorMore by simp_all
          then have "length (ml_Names l') + fuel \<ge> cMaxReleases + 2" using Suc.prems(3) False by simp
          then show ?thesis by (rule Suc.IH [OF run len(1)])
        qed
      qed
    qed
  qed
qed

section \<open>Batches of blobs\<close>

fun batches :: "u64 \<Rightarrow> nat \<Rightarrow> BlobReqObj list \<Rightarrow> u64 \<Rightarrow> BlobReqObj list \<Rightarrow> BlobReqObj list list" where
  "batches maxBytes maxCount b n [] = (if b = [] then [] else [b])"
| "batches maxBytes maxCount b n (q # qs) =
     (if batch_full maxBytes maxCount b n q then b # batches maxBytes maxCount [q] (rq_SizeBytes q) qs
      else batches maxBytes maxCount (b @ [q]) (n + rq_SizeBytes q) qs)"

fun send_batches :: "rescan_env \<Rightarrow> string \<Rightarrow> StagedBlobObj list \<Rightarrow> BlobReqObj list list \<Rightarrow> StagedBlobObj list option rs" where
  "send_batches RE version acc [] = sret (Some acc)"
| "send_batches RE version acc (b # bs) =
     sbind (flush_batch RE version acc b) (\<lambda>res.
     case res of None \<Rightarrow> sret None | Some acc' \<Rightarrow> send_batches RE version acc' bs)"

definition req_bytes :: "BlobReqObj list \<Rightarrow> u64" where
  "req_bytes b = sum_list (map rq_SizeBytes b)"

lemma fetch_blobs_batches:
  "fetch_blobs_from RE version maxBytes maxCount acc b n qs = send_batches RE version acc (batches maxBytes maxCount b n qs)"
proof (induction qs arbitrary: acc b n)
  case Nil
  show ?case
  proof (cases "b = []")
    case False
    then show ?thesis by (auto simp: fun_eq_iff sbind_def sret_def flush_batch_def split: prod.splits sum.splits option.splits)
  qed (simp add: flush_batch_def)
next
  case (Cons q qs)
  then show ?case by (simp cong: option.case_cong)
qed

lemma batches_concat: "concat (batches maxBytes maxCount b n qs) = b @ qs"
  by (induction qs arbitrary: b n) simp_all

lemma batches_sizes:
  assumes "n = req_bytes b" "b = [] \<or> length b = 1 \<or> n \<le> maxBytes" "length b \<le> max 1 maxCount"
    and "c \<in> set (batches maxBytes maxCount b n qs)"
  shows "c \<noteq> [] \<and> length c \<le> max 1 maxCount \<and> (length c = 1 \<or> req_bytes c \<le> maxBytes)"
  using assms
proof (induction qs arbitrary: b n)
  case Nil
  then show ?case by (auto split: if_splits)
next
  case (Cons q qs)
  show ?case
  proof (cases "batch_full maxBytes maxCount b n q")
    case True
    then consider "c = b" | "c \<in> set (batches maxBytes maxCount [q] (rq_SizeBytes q) qs)" using Cons.prems(4) by auto
    then show ?thesis
    proof cases
      case 1
      then show ?thesis using Cons.prems True by (auto simp: batch_full_def)
    next
      case 2
      then show ?thesis by (intro Cons.IH [OF _ _ _ 2]) (simp_all add: req_bytes_def)
    qed
  next
    case False
    have "c \<in> set (batches maxBytes maxCount (b @ [q]) (n + rq_SizeBytes q) qs)" using Cons.prems(4) False by simp
    then show ?thesis
      by (rule Cons.IH [rotated 3]) (use Cons.prems False in \<open>auto simp: req_bytes_def batch_full_def\<close>)
  qed
qed

end
