(* ===== verification/Store_Content.thy ===== *)
theory Store_Content
  imports Store_Read Store_Evict
begin

text \<open>
  What reading a blob says about the store, verified or not: nothing changes, a result is what is stored,
  and "not found" means that nothing is.
\<close>

lemma reads_readUnverified [frame]: "reads (readUnverified E k)"
  unfolding readUnverified_def by (intro frame)

lemma io_error: "io E st = (Inl e, st') \<Longrightarrow> e = ErrCall"
  by (auto simp: io_def Let_def split: if_splits)

lemma getValue_cases:
  assumes "getValue E k st = (x, st')"
  shows "same st st' \<and> (x = Inr (map_of (st_pb st) k) \<or> x = Inl ErrCall)"
  using assms unfolding getValue_def
  by (auto simp: sbind_def io_def sget_def same_def Let_def split: if_splits)

lemma read_facts:
  assumes "(if verifyFlag then readVerified E k h else readUnverified E k) st = (x, st')"
  shows "same st st'" "x = Inr d \<Longrightarrow> map_of (st_pb st) k = Some d"
    "x = Inl ErrObjectNotFound \<Longrightarrow> map_of (st_pb st) k = None"
proof -
  show "same st st'" by (rule readsD [of "if verifyFlag then readVerified E k h else readUnverified E k", OF _ assms]) (simp add: frame)
  obtain y s1 where g: "getValue E k st = (y, s1)" by fastforce
  note v = getValue_cases [OF g]
  show "map_of (st_pb st) k = Some d" if "x = Inr d"
    using assms g v that unfolding readVerified_def readUnverified_def verify_hash_def
    by (auto simp: sbind_def io_def sret_def sfail_def slift_def Let_def split: if_splits option.splits sum.splits prod.splits)
  show "map_of (st_pb st) k = None" if "x = Inl ErrObjectNotFound"
    using assms g v that unfolding readVerified_def readUnverified_def verify_hash_def
    by (auto simp: sbind_def io_def sret_def sfail_def slift_def VerifyHash_def Let_def split: if_splits option.splits sum.splits prod.splits)
qed

lemma ReadBlob_facts:
  assumes "ReadBlob E verifyFlag h st = (x, st')"
  shows "same st st' \<and> (\<forall>d. x = Inr d \<longrightarrow> map_of (st_pb st) (blobKey h) = Some d) \<and>
    (x = Inl ErrObjectNotFound \<longrightarrow> map_of (st_pb st) (blobKey h) = None)"
proof -
  obtain u s1 where fields: "io E st = (u, s1)" by fastforce
  have s1: "same st s1" using fields by (auto simp: io_def same_def Let_def split: if_splits)
  show ?thesis
  proof (cases u)
    case (Inl e)
    then show ?thesis using assms fields s1 io_error [of E st e s1] by (auto simp: ReadBlob_def sbind_def)
  next
    case (Inr a)
    have "(if verifyFlag then readVerified E (blobKey h) h else readUnverified E (blobKey h)) s1 = (x, st')"
      using assms fields Inr by (cases verifyFlag) (simp_all add: ReadBlob_def sbind_def pb_ReadBlob_def)
    from read_facts [OF this] s1 show ?thesis using same_trans by (auto simp: same_def)
  qed
qed

end
