(* ===== verification/Session_Theorems.thy ===== *)
theory Session_Theorems
  imports Session_Client Rescan_Loops Store_Content
begin

text \<open>
  Both sides of a session together. Against any peer: what is staged was asked for, is what its digest
  says, and is in the file. Against a sibling that runs \<open>Session_Server\<close> on its store: the index that arrives is
  the whole list of versions in order, trees and blobs arrive as they are stored.
\<close>

section \<open>The pages of the index\<close>

definition pos :: "VersionObj \<Rightarrow> int \<times> string" where
  "pos v = (v_UpstreamSeq v, v_Version v)"

lemma sortVersions_pos: "sortVersions vs = rev (sort_key pos vs)"
  by (simp add: sortVersions_def pos_def [abs_def])

definition listed_rows :: "dbObj \<Rightarrow> string \<Rightarrow> VersionObj list" where
  "listed_rows db key = sortVersions (key_rows db key False)"

definition falling :: "VersionObj list \<Rightarrow> bool" where
  "falling rows \<longleftrightarrow> sorted_wrt (\<lambda>v w. pos w < pos v) rows"

lemma falling_rows: "keys_ok db \<Longrightarrow> falling (listed_rows db key)"
proof -
  assume k: "keys_ok db"
  have "distinct (map vkey_of (map snd (db_versions db)))"
    using keysD(1) [OF k] keysD(2) [OF k] by (simp cong: map_cong)
  then have "distinct (map vkey_of (key_rows db key False))"
    unfolding key_rows_def db_rows_def by (rule distinct_map_filter)
  moreover have "v_Key v = key" if "v \<in> set (key_rows db key False)" for v using that by (simp add: key_rows_def)
  ultimately have "distinct (map pos (key_rows db key False))"
    by (auto simp: distinct_map inj_on_def vkey_of_def pos_def)
  then have "sorted_wrt (<) (map pos (sort_key pos (key_rows db key False)))"
    by (simp add: strict_sorted_iff distinct_map)
  then show ?thesis unfolding falling_def listed_rows_def sortVersions_pos
    by (simp add: sorted_wrt_rev sorted_wrt_map)
qed

lemma falling_after:
  assumes f: "falling rows" and m: "0 < m" "m \<le> length rows"
  shows "filter (\<lambda>v. pos v < pos (rows ! (m - 1))) rows = drop m rows"
proof -
  have before: "\<not> pos v < pos (rows ! (m - 1))" if v: "v \<in> set (take m rows)" for v
  proof -
    obtain i where i: "i < m" "v = rows ! i" using v m by (auto simp: in_set_conv_nth)
    show ?thesis
    proof (cases "i = m - 1")
      case False
      then have "i < m - 1" "m - 1 < length rows" using i m by auto
      then have "pos (rows ! (m - 1)) < pos v"
        using sorted_wrt_nth_less [OF f [unfolded falling_def], of i "m - 1"] i(2) by simp
      then show ?thesis by (rule order_less_not_sym)
    qed (simp add: i)
  qed
  have rest: "pos v < pos (rows ! (m - 1))" if v: "v \<in> set (drop m rows)" for v
  proof -
    obtain i where "i < length (drop m rows)" "v = drop m rows ! i" using v by (metis in_set_conv_nth)
    then have i: "m + i < length rows" "v = rows ! (m + i)" by auto
    have "m - 1 < m + i" using m by simp
    then show ?thesis
      using sorted_wrt_nth_less [OF f [unfolded falling_def], of "m - 1" "m + i"] i by simp
  qed
  have "filter (\<lambda>v. pos v < pos (rows ! (m - 1))) (take m rows @ drop m rows) = drop m rows"
    unfolding filter_append using before rest by (simp add: filter_empty_conv filter_id_conv)
  then show ?thesis by simp
qed

lemma keyset_rows:
  "sortVersions (filter P (key_rows db key False)) = filter P (listed_rows db key)"
  by (simp only: sortVersions_pos listed_rows_def filter_sort rev_filter [symmetric])

text \<open>\<open>cursor rows m\<close>: where a reader stands that has seen the first \<open>m\<close> rows.\<close>

definition cursor :: "VersionObj list \<Rightarrow> nat \<Rightarrow> int \<times> string" where
  "cursor rows m = (if m = 0 then (0, []) else pos (rows ! (m - 1)))"

lemma keyset_page_Inr:
  assumes t: "sto_ListVersionsKeyset E key False (fst c) (snd c) (int cIndexPageSize + 1) st = (Inr vs, st')"
    and k: "keys_ok (st_db st)" and c: "c = cursor (listed_rows (st_db st) key) m"
    and m: "m \<le> length (listed_rows (st_db st) key)" "m \<noteq> 0 \<Longrightarrow> snd c \<noteq> []"
  shows "vs = take (Suc cIndexPageSize) (drop m (listed_rows (st_db st) key)) \<and> same st st'"
proof -
  let ?rows = "listed_rows (st_db st) key"
  obtain u s1 where v: "valid_key E key st = (Inr u, s1)"
    and q: "ListVersionsKeyset E key False (fst c) (snd c) (int cIndexPageSize + 1) s1 = (Inr vs, st')"
    using t unfolding sto_ListVersionsKeyset_def by (auto simp: sbind_Inr)
  have s1: "same st s1" by (rule readsD [OF reads_valid(1) v])
  then have db: "st_db s1 = st_db st" by (simp add: same_def)
  note q' = query_Inr [OF q [unfolded ListVersionsKeyset_def]]
  have "filter (\<lambda>v. snd c = [] \<or> pos v < c) ?rows = drop m ?rows"
  proof (cases "m = 0")
    case True
    then show ?thesis by (simp add: c cursor_def)
  next
    case False
    then have "(\<lambda>v. snd c = [] \<or> pos v < c) = (\<lambda>v. pos v < pos (?rows ! (m - 1)))"
      using m(2) by (simp add: c cursor_def)
    then show ?thesis using falling_after [OF falling_rows [OF k] _ m(1)] False by simp
  qed
  then have "vs = take (Suc cIndexPageSize) (drop m ?rows)"
    using q' by (simp add: db keyset_rows [of "\<lambda>v. snd c = [] \<or> pos v < c", unfolded pos_def prod.collapse] nat_add_distrib pos_def)
  then show ?thesis using q' same_trans [OF s1] by blast
qed

section \<open>The index of an honest sibling\<close>

definition brief :: "VersionObj \<Rightarrow> BrotherIndexEntryObj" where
  "brief v = \<lparr>bi_Version = v_Version v, bi_ReleaseNotes = v_ReleaseNotes v, bi_TreeHash = v_TreeHash v,
     bi_SourceHash = v_SourceHash v, bi_UpstreamSeq = v_UpstreamSeq v\<rparr>"

lemma check_index_brief:
  "check_index_entries (map index_entry vs) = Inr out \<Longrightarrow> out = map brief vs \<and> (\<forall>v \<in> set vs. v_Version v \<noteq> [])"
proof (induction vs arbitrary: out)
  case (Cons v vs)
  then show ?case by (auto simp: result_simps check_index_entry_def index_entry_def brief_def)
qed simp

lemma sbind_smod: "sbind (smod f) g s = g () (f s)" and sbind_sget: "sbind (sget f') g' s = g' (f' s) s"
  by (simp_all add: sbind_def smod_def sget_def)

lemma rpcCall_honest:
  "rpcCall (served m) (s, st) = (Inr x, (s', st')) \<Longrightarrow> m st = (Inr x, st') \<and> s' = s"
  by (auto simp: rpcCall_def served_def split: if_splits prod.splits sum.splits)

definition reader :: "string \<Rightarrow> VersionObj list \<Rightarrow> nat \<Rightarrow> BrotherSessionObj \<Rightarrow> bool" where
  "reader key rows m s \<longleftrightarrow> bs_remoteKey s = key \<and> bs_indexKeyset s \<and>
     (m \<noteq> 0 \<longrightarrow> (bs_indexAfterSeq s, bs_indexAfterVersion s) = cursor rows m \<and> bs_indexAfterVersion s \<noteq> [])"

lemma unat_page: "n < 2 ^ 32 \<Longrightarrow> unat (of_nat n :: u32) = n"
  by (simp add: unat_of_nat take_bit_nat_eq_self)

lemma page_facts:
  assumes "Suc (Suc n) < 2 ^ 32"
  shows "\<not> (of_nat (Suc n) :: u32) < 1" "(of_nat (Suc n) :: u32) \<le> 1 \<longleftrightarrow> n = 0" "of_nat (Suc n) + (1 :: u32) \<noteq> 0"
    "unat (of_nat (Suc n) + (1 :: u32)) = Suc (Suc n)" "of_nat (Suc n) + (1 :: u32) = of_nat (Suc (Suc n))"
proof -
  have u: "unat (of_nat (Suc n) :: u32) = Suc n" "unat (of_nat (Suc (Suc n)) :: u32) = Suc (Suc n)"
    using assms by (simp_all only: unat_page)
  show e: "of_nat (Suc n) + (1 :: u32) = of_nat (Suc (Suc n))" by simp
  show "\<not> (of_nat (Suc n) :: u32) < 1" "(of_nat (Suc n) :: u32) \<le> 1 \<longleftrightarrow> n = 0"
    unfolding word_less_nat_alt word_le_nat_alt u by simp_all
  show "unat (of_nat (Suc n) + (1 :: u32)) = Suc (Suc n)" unfolding e u(2) ..
  then show "of_nat (Suc n) + (1 :: u32) \<noteq> 0" by (metis nat.distinct(1) unat_0)
qed

lemma srv_Index_page:
  assumes t: "srv_Index E h arg st = (Inr reply, st')" and k: "keys_ok (st_db st)"
    and a: "ia_Page arg = of_nat (Suc n)" "Suc (Suc n) < 2 ^ 32" "n \<noteq> 0 \<Longrightarrow> ia_AfterVersion arg \<noteq> []"
    and c: "(ia_AfterSeq arg, ia_AfterVersion arg) = cursor rows m" and m: "m = n * cIndexPageSize" "m \<le> length rows"
    and r: "rows = listed_rows (st_db st) (ia_Key arg)"
  shows "ir_Entries reply = map index_entry (take cIndexPageSize (drop m rows)) \<and>
    ir_NextPage reply = (if length rows > m + cIndexPageSize then of_nat (Suc n) + 1 else 0) \<and>
    ir_SourceURL reply = sourceInfo h (ia_Key arg) \<and> same st st'"
proof -
  have p1: "\<not> ia_Page arg < 1" unfolding a(1) by (rule page_facts(1) [OF a(2)])
  have ks: "ia_AfterVersion arg \<noteq> [] \<or> ia_Page arg = 1" using a by (cases n) auto
  from t obtain vs where l: "sto_ListVersionsKeyset E (ia_Key arg) False (ia_AfterSeq arg) (ia_AfterVersion arg)
      (int cIndexPageSize + 1) st = (Inr vs, st')"
    and rep: "reply = \<lparr>ir_Entries = map index_entry (if length vs > cIndexPageSize then take cIndexPageSize vs else vs),
      ir_NextPage = (if length vs > cIndexPageSize then ia_Page arg + 1 else 0), ir_SourceURL = sourceInfo h (ia_Key arg)\<rparr>"
    using ks p1 unfolding srv_Index_def Let_def if_not_P [OF p1]
    by (auto simp: sbind_Inr sret_def split: if_splits)
  have ne: "m \<noteq> 0 \<Longrightarrow> ia_AfterVersion arg \<noteq> []" using a(3) m(1) by (cases n) auto
  have vs: "vs = take (Suc cIndexPageSize) (drop m rows) \<and> same st st'"
    unfolding r
    by (rule keyset_page_Inr [OF _ k, where c = "(ia_AfterSeq arg, ia_AfterVersion arg)" and m = m, unfolded fst_conv snd_conv, OF l])
      (use c [unfolded r] m(2) [unfolded r] ne in blast)+
  have len: "length vs > cIndexPageSize \<longleftrightarrow> length rows > m + cIndexPageSize" using vs by auto
  have "(if length vs > cIndexPageSize then take cIndexPageSize vs else vs) = take cIndexPageSize (drop m rows)"
    using vs by auto
  then show ?thesis using vs len a(1) unfolding rep by auto
qed

lemma honest_Index:
  assumes t: "ses_Index (honest E h) (of_nat (Suc n)) (s, st) = (Inr (out, next', url), (s', st'))"
    and k: "keys_ok (st_db st)" and n: "Suc (Suc n) < 2 ^ 32" and m: "m = n * cIndexPageSize" "m \<le> length rows"
    and r: "rows = listed_rows (st_db st) key" and rd: "reader key rows m s"
  shows "out = map brief (take cIndexPageSize (drop m rows)) \<and>
    next' = (if length rows > m + cIndexPageSize then of_nat (Suc n) + 1 else 0) \<and> url = sourceInfo h key \<and> same st st' \<and>
    (length rows > m + cIndexPageSize \<longrightarrow> reader key rows (m + cIndexPageSize) s')"
proof -
  let ?page = "of_nat (Suc n) :: u32"
  define s1 where "s1 = (if bs_indexKeyset s \<and> ?page \<le> 1 then s\<lparr>bs_indexAfterSeq := 0, bs_indexAfterVersion := []\<rparr> else s)"
  note page1 = page_facts(2) [OF n]
  have "sbind (rpcCall (pr_index (honest E h) (index_arg s1 ?page))) (\<lambda>reply.
     sbind (sguard (length (ir_Entries reply) > cIndexPageMax) (RpcInvalid ''index page too large'')) (\<lambda>_.
     sbind (sguard (ir_NextPage reply \<noteq> 0 \<and> ir_NextPage reply \<le> ?page) (RpcInvalid ''non-monotonic next page'')) (\<lambda>_.
     sbind (sguard (length (ir_SourceURL reply) > cMaxSourceURLBytes) (RpcInvalid ''source url too large'')) (\<lambda>_.
     sbind (slift (check_index_entries (ir_Entries reply))) (\<lambda>out.
     sbind (on_session (advance_cursor (ir_NextPage reply) out)) (\<lambda>_.
     sret (out, ir_NextPage reply, ir_SourceURL reply))))))) (s1, st) = (Inr (out, next', url), (s', st'))"
    using t unfolding ses_Index_def on_session_def sbind_smod sbind_sget prod.case s1_def .
  then obtain reply s2 st2 where rpc0: "rpcCall (served (srv_Index E h (index_arg s1 ?page))) (s1, st) = (Inr reply, (s2, st2))"
    and rest0: "check_index_entries (ir_Entries reply) = Inr out \<and> next' = ir_NextPage reply \<and> url = ir_SourceURL reply \<and>
      s' = advance_cursor (ir_NextPage reply) out s2 \<and> st' = st2"
    by (cases rule: sbindE) (auto simp: op_Inr on_session_def honest_def)
  have s2: "s2 = s1" using rpcCall_honest [OF rpc0] by simp
  note rpc = rpc0 [unfolded s2]
  have out: "check_index_entries (ir_Entries reply) = Inr out"
    and rest: "next' = ir_NextPage reply" "url = ir_SourceURL reply" "s' = advance_cursor (ir_NextPage reply) out s1" "st' = st2"
    using rest0 s2 by auto
  have call: "srv_Index E h (index_arg s1 ?page) st = (Inr reply, st2)" using rpcCall_honest [OF rpc] by blast
  have s1: "bs_indexKeyset s1" "bs_remoteKey s1 = key" "(bs_indexAfterSeq s1, bs_indexAfterVersion s1) = cursor rows m"
    "n \<noteq> 0 \<Longrightarrow> bs_indexAfterVersion s1 \<noteq> []"
    using rd page1 m(1) unfolding reader_def s1_def by (auto simp: cursor_def cIndexPageSize_def)
  have arg: "index_arg s1 ?page = \<lparr>ia_Key = key, ia_Page = ?page, ia_AfterSeq = bs_indexAfterSeq s1,
      ia_AfterVersion = bs_indexAfterVersion s1\<rparr>" using s1 by (simp add: index_arg_def)
  have srv: "ir_Entries reply = map index_entry (take cIndexPageSize (drop m rows)) \<and>
    ir_NextPage reply = (if length rows > m + cIndexPageSize then of_nat (Suc n) + 1 else 0) \<and>
    ir_SourceURL reply = sourceInfo h key \<and> same st st2"
    using srv_Index_page [OF call k, of n rows m] s1 n m r unfolding arg by simp
  have b: "out = map brief (take cIndexPageSize (drop m rows))" "\<forall>v \<in> set (take cIndexPageSize (drop m rows)). v_Version v \<noteq> []"
    using check_index_brief out srv by metis+
  have "reader key rows (m + cIndexPageSize) s'" if more: "length rows > m + cIndexPageSize"
  proof -
    have c0: "0 < cIndexPageSize" by (simp add: cIndexPageSize_def)
    have ne: "take cIndexPageSize (drop m rows) \<noteq> []" using more c0 by auto
    have l: "last (take cIndexPageSize (drop m rows)) = rows ! (m + cIndexPageSize - 1)"
      using more ne c0 by (simp add: last_conv_nth add.commute)
    have v: "v_Version (rows ! (m + cIndexPageSize - 1)) \<noteq> []" using b(2) last_in_set [OF ne] unfolding l by blast
    have nx: "ir_NextPage reply \<noteq> 0" using srv more page_facts(3) [OF n] by simp
    have "s' = s1\<lparr>bs_indexAfterSeq := v_UpstreamSeq (rows ! (m + cIndexPageSize - 1)),
        bs_indexAfterVersion := v_Version (rows ! (m + cIndexPageSize - 1))\<rparr>"
      unfolding rest(3) b(1) advance_cursor_def using s1(1) nx ne by (simp add: last_map l brief_def)
    then show ?thesis using s1(1,2) v c0 by (simp add: reader_def cursor_def pos_def)
  qed
  then show ?thesis using b(1) srv rest by blast
qed

section \<open>The whole index\<close>

text \<open>\<open>sess_at peer sw k\<close>: the session and the peer after the first \<open>k\<close> pages.\<close>

primrec sess_at :: "'w peerObj \<Rightarrow> BrotherSessionObj \<times> 'w \<Rightarrow> nat \<Rightarrow> BrotherSessionObj \<times> 'w" where
  "sess_at peer sw 0 = sw"
| "sess_at peer sw (Suc k) = snd (ses_Index peer (of_nat (Suc k)) (sess_at peer sw k))"

definition index_answer ::
  "'w peerObj \<Rightarrow> BrotherSessionObj \<times> 'w \<Rightarrow> nat \<Rightarrow> (BrotherIndexEntryObj list \<times> nat \<times> string) option" where
  "index_answer peer sw k =
     (case fst (ses_Index peer (of_nat (Suc k)) (sess_at peer sw k)) of
        Inl _ \<Rightarrow> None | Inr (new, next', url) \<Rightarrow> Some (new, unat next', url))"

lemma honest_pages:
  assumes "brother_pages fuel RE (Suc k) es b src r = (Inr (Some (Some (entries, url))), r')"
    and served: "\<forall>k. re_index RE (c + k) (Suc k) = index_answer (honest E h) sw k"
    and keys: "keys_ok (st_db st)" and rows: "rows = listed_rows (st_db st) key"
    and "rs_clock r = c + k" "sess_at (honest E h) sw k = (sk, stk)" "same st stk" "reader key rows (k * cIndexPageSize) sk"
    and "k * cIndexPageSize \<le> length rows" "es = map brief (take (k * cIndexPageSize) rows)"
    and "length es \<le> cMaxBrotherVersions" "src \<noteq> [] \<Longrightarrow> src = sourceInfo h key"
  shows "entries = map brief rows \<and> url = sourceInfo h key"
  using assms(1,5-)
proof (induction fuel arbitrary: k es b src r sk stk)
  case (Suc fuel)
  let ?m = "k * cIndexPageSize"
  have db: "st_db stk = st_db st" using Suc.prems(4) by (simp add: same_def)
  have k32: "Suc (Suc k) < 2 ^ 32"
    using Suc.prems(6-8) by (simp add: cMaxBrotherVersions_def cIndexPageSize_def)
  have ask: "re_index RE (rs_clock r) (Suc k) = index_answer (honest E h) sw k" using served Suc.prems(2) by simp
  show ?case
  proof (cases "ses_Index (honest E h) (of_nat (Suc k)) (sk, stk)")
    case call: (fields x sk' stk')
    have next_sess: "sess_at (honest E h) sw (Suc k) = (sk', stk')" using Suc.prems(3) call by simp
    show ?thesis
    proof (cases x)
      case (Inl e)
      then show ?thesis using Suc.prems(1) call by (simp add: sbind_ask ask index_answer_def Suc.prems(3) sret_def)
    next
      case (Inr a)
      obtain new next' url1 where a: "a = (new, next', url1)" by (cases a)
      have facts: "new = map brief (take cIndexPageSize (drop ?m rows)) \<and>
        next' = (if length rows > ?m + cIndexPageSize then of_nat (Suc k) + 1 else 0) \<and> url1 = sourceInfo h key \<and> same stk stk' \<and>
        (length rows > ?m + cIndexPageSize \<longrightarrow> reader key rows (?m + cIndexPageSize) sk')"
        by (rule honest_Index [OF call [unfolded Inr a] _ k32 refl Suc.prems(6) _ Suc.prems(5)]) (simp_all add: db keys rows)
      have es': "es @ new = map brief (take (Suc k * cIndexPageSize) rows)"
        using facts Suc.prems(7) by (simp add: take_add [symmetric] add.commute flip: map_append)
      have src': "(if url1 \<noteq> [] then url1 else src) = sourceInfo h key \<or> (if url1 \<noteq> [] then url1 else src) = []"
        and src2: "(if url1 \<noteq> [] then url1 else src) = sourceInfo h key"
        using facts Suc.prems(9) by auto
      have answer: "re_index RE (rs_clock r) (Suc k) = Some (new, unat next', url1)"
        using ask call Inr a Suc.prems(3) by (simp add: index_answer_def)
      show ?thesis
      proof (cases "length rows > ?m + cIndexPageSize")
        case False
        then have "take (Suc k * cIndexPageSize) rows = rows" by simp
        then show ?thesis using Suc.prems(1) facts False es' src2
          unfolding brother_pages.simps sbind_ask answer option.case prod.case Let_def
          by (auto simp: sret_def split: if_splits)
      next
        case True
        note facts' = conjunct1 [OF facts [THEN conjunct2]]
        have nx: "unat next' = Suc (Suc k)" using facts' True page_facts(4) [OF k32] by simp
        let ?r1 = "r\<lparr>rs_clock := Suc (rs_clock r)\<rparr>"
        let ?b = "fold (\<lambda>e b. b + brotherEntryBytes e) new b"
        have run: "length (es @ new) \<le> cMaxBrotherVersions \<and>
          (brother_pages fuel RE (unat next') (es @ new) ?b (if url1 \<noteq> [] then url1 else src) ?r1 = (Inr (Some (Some (entries, url))), r') \<or>
           unat next' = 0 \<or> new = [])"
          using Suc.prems(1) unfolding brother_pages.simps sbind_ask answer option.case prod.case Let_def
          by (auto simp: sret_def split: if_splits)
        have "new \<noteq> []" using facts True by (auto simp: cIndexPageSize_def)
        then have run': "brother_pages fuel RE (Suc (Suc k)) (es @ new) ?b (if url1 \<noteq> [] then url1 else src) ?r1
          = (Inr (Some (Some (entries, url))), r')" using run nx by simp
        show ?thesis
          by (rule Suc.IH [OF run' _ next_sess])
            (use Suc.prems(2,4) facts True es' src2 run same_trans in \<open>auto simp: add.commute\<close>)
      qed
    qed
  qed
qed (simp add: sret_def)

section \<open>What a fetch leaves in the spool\<close>

definition hex_byte :: "char \<Rightarrow> string" where
  "hex_byte c = [hex_digit (code_of c div 16), hex_digit (code_of c mod 16)]"

lemma hex_digit_inject: "hex_digit a = hex_digit b \<Longrightarrow> a < 16 \<Longrightarrow> b < 16 \<Longrightarrow> a = b"
proof -
  assume e: "hex_digit a = hex_digit b" and a: "a < 16" "b < 16"
  have "code_of (hex_digit a) = code_of (hex_digit b)" using e by simp
  then show ?thesis using a by (simp add: hex_digit_def split: if_splits)
qed

lemma hex_byte_inject: "hex_byte c = hex_byte d \<longleftrightarrow> c = d"
proof
  assume "hex_byte c = hex_byte d"
  then have "hex_digit (code_of c div 16) = hex_digit (code_of d div 16)" "hex_digit (code_of c mod 16) = hex_digit (code_of d mod 16)"
    by (simp_all add: hex_byte_def)
  moreover have "code_of e div 16 < 16" "code_of e mod 16 < 16" for e
    using code_of_less [of e] by (simp_all add: div_less_iff_less_mult del: code_of_less)
  ultimately have "code_of c div 16 = code_of d div 16" "code_of c mod 16 = code_of d mod 16"
    using hex_digit_inject by metis+
  then have "code_of c = code_of d" by (metis div_mult_mod_eq)
  then show "c = d" by (metis ch_code_of)
qed simp

lemma concat_hex: "concat (map hex_byte s) = concat (map hex_byte t) \<longleftrightarrow> s = t"
proof
  show "concat (map hex_byte s) = concat (map hex_byte t) \<Longrightarrow> s = t"
  proof (induction s arbitrary: t)
    case Nil
    then show ?case by (cases t) (auto simp: hex_byte_def)
  next
    case (Cons c s)
    then obtain d t' where t: "t = d # t'" by (cases t) (auto simp: hex_byte_def)
    have "hex_byte c = hex_byte d \<and> concat (map hex_byte s) = concat (map hex_byte t')"
      using Cons.prems unfolding t list.map concat.simps by (subst (asm) append_eq_append_conv) (auto simp: hex_byte_def)
    then show ?case using Cons.IH by (simp add: t hex_byte_inject)
  qed
qed simp

lemma HashHex_inject: "HashHex a = HashHex b \<longleftrightarrow> a = b"
  using concat_hex by (simp add: HashHex_def hex_byte_def [abs_def])

definition blobPath :: "string \<Rightarrow> HashObj \<Rightarrow> string" where
  "blobPath destDir h = spoolPath destDir (HashHex h @ ''.blob'')"

lemma blobPath_inject: "blobPath destDir a = blobPath destDir b \<longleftrightarrow> a = b"
  by (simp add: blobPath_def spoolPath_def HashHex_inject)

definition staged_ok :: "sourceCfg \<Rightarrow> WireBlobObj list \<Rightarrow> (string \<times> bytes) list \<Rightarrow> StagedBlobObj \<Rightarrow> bool" where
  "staged_ok cfg bs fileArr b \<longleftrightarrow>
     (\<exists>w \<in> set bs. wb_Hash w = sb_BlobHash b \<and> map_of fileArr (sb_FilePath b) = Some (wb_Value w) \<and>
       sc_H cfg (wb_Value w) = sb_BlobHash b \<and> sb_SizeBytes b = of_nat (length (wb_Value w)) \<and>
       sb_SizeBytes b \<le> sc_maxBlobBytes cfg)"

lemma writeBlobFile_Inr:
  "writeBlobFile cfg path d (s, w) = (Inr u, sw') \<Longrightarrow>
   sw' = (s\<lparr>bs_writes := Suc (bs_writes s), bs_files := AList.update path d (bs_files s)\<rparr>, w)"
  by (auto simp: writeBlobFile_def op_Inr on_session_def split: if_splits)

lemma stage_blobs_Inr:
  assumes "stage_blobs cfg destDir want seen bs (s, w) = (Inr staged, (s', w'))"
  shows "w' = w \<and> distinct (map sb_BlobHash staged) \<and> set (map sb_BlobHash staged) = wb_Hash ` set bs \<inter> want - seen \<and>
    (\<forall>b \<in> set staged. sb_FilePath b = blobPath destDir (sb_BlobHash b) \<and> staged_ok cfg bs (bs_files s') b) \<and>
    (\<forall>p. p \<notin> blobPath destDir ` (wb_Hash ` set bs \<inter> want - seen) \<longrightarrow> map_of (bs_files s') p = map_of (bs_files s) p)"
  using assms
proof (induction bs arbitrary: seen staged s)
  case Nil
  then show ?case by (simp add: sret_def)
next
  case (Cons b bs)
  let ?h = "wb_Hash b"
  show ?case
  proof (cases "?h \<notin> want \<or> ?h \<in> seen")
    case True
    then have run: "stage_blobs cfg destDir want seen bs (s, w) = (Inr staged, (s', w'))" using Cons.prems by simp
    have same_set: "wb_Hash ` set (b # bs) \<inter> want - seen = wb_Hash ` set bs \<inter> want - seen" using True by auto
    show ?thesis using Cons.IH [OF run] unfolding same_set by (auto simp: staged_ok_def)
  next
    case False
    let ?s1 = "s\<lparr>bs_writes := Suc (bs_writes s), bs_files := AList.update (blobPath destDir ?h) (wb_Value b) (bs_files s)\<rparr>"
    from Cons.prems False obtain rest where
      run: "stage_blobs cfg destDir want (insert ?h seen) bs (?s1, w) = (Inr rest, (s', w'))"
      and ok: "of_nat (length (wb_Value b)) \<le> sc_maxBlobBytes cfg" "sc_H cfg (wb_Value b) = ?h"
      and staged: "staged = \<lparr>sb_BlobHash = ?h, sb_SizeBytes = of_nat (length (wb_Value b)), sb_FilePath = blobPath destDir ?h\<rparr> # rest"
      by (auto simp: op_Inr Let_def blobPath_def dest!: writeBlobFile_Inr)
    note ih = Cons.IH [OF run]
    have split: "wb_Hash ` set (b # bs) \<inter> want - seen = insert ?h (wb_Hash ` set bs \<inter> want - insert ?h seen)"
      using False by auto
    have "map_of (bs_files s') (blobPath destDir ?h) = Some (wb_Value b)"
    proof -
      have "blobPath destDir ?h \<notin> blobPath destDir ` (wb_Hash ` set bs \<inter> want - insert ?h seen)"
        by (auto simp: blobPath_inject)
      then show ?thesis using ih by (simp add: update_conv')
    qed
    then show ?thesis using ih ok unfolding split staged
      by (auto simp: staged_ok_def update_conv' fun_upd_def)
  qed
qed

section \<open>Trees and blobs of an honest sibling\<close>

definition stored_blobs :: "storeObj \<Rightarrow> HashObj set" where
  "stored_blobs st = {h. map_of (st_pb st) (blobKey h) \<noteq> None}"

lemma srv_blobs_from_Inr:
  assumes "srv_blobs_from E verifyFlag cap seen tot blobs ws st = (Inr blobs', st')"
    and "\<forall>b \<in> set blobs. map_of (st_pb st) (blobKey (wb_Hash b)) = Some (wb_Value b)"
  shows "wb_Hash ` set blobs' = wb_Hash ` set blobs \<union> (set ws - set seen) \<inter> stored_blobs st \<and>
    (\<forall>b \<in> set blobs'. map_of (st_pb st) (blobKey (wb_Hash b)) = Some (wb_Value b)) \<and> same st st'"
  using assms
proof (induction ws arbitrary: seen tot blobs st)
  case Nil
  then show ?case by simp
next
  case (Cons w ws)
  show ?case
  proof (cases "w \<in> set seen")
    case True
    then show ?thesis using Cons.IH [OF _ Cons.prems(2)] Cons.prems(1) by (auto simp: insert_absorb)
  next
    case False
    obtain x st1 where r: "ReadBlob E verifyFlag w st = (x, st1)" by fastforce
    note facts = ReadBlob_facts [OF r]
    have pb: "st_pb st1 = st_pb st" using facts by (simp add: same_def)
    show ?thesis
    proof (cases x)
      case (Inl e)
      then have run: "srv_blobs_from E verifyFlag cap (w # seen) tot blobs ws st1 = (Inr blobs', st')" and e: "e = ErrObjectNotFound"
        using Cons.prems(1) False r by (auto split: if_splits)
      have "w \<notin> stored_blobs st" using facts Inl e by (simp add: stored_blobs_def)
      then have "(set (w # ws) - set seen) \<inter> stored_blobs st = (set ws - set (w # seen)) \<inter> stored_blobs st" by auto
      then show ?thesis using Cons.IH [OF run] Cons.prems(2) facts same_trans by (auto simp: pb stored_blobs_def)
    next
      case (Inr d)
      then have run: "srv_blobs_from E verifyFlag cap (w # seen) (tot + of_nat (length d))
          (blobs @ [\<lparr>wb_Hash = w, wb_Value = d\<rparr>]) ws st1 = (Inr blobs', st')"
        using Cons.prems(1) False r by (auto simp: Let_def split: if_splits)
      have "(set (w # ws) - set seen) \<inter> stored_blobs st = insert w ((set ws - set (w # seen)) \<inter> stored_blobs st)"
        using facts Inr False by (auto simp: stored_blobs_def)
      then show ?thesis using Cons.IH [OF run] Cons.prems(2) facts Inr same_trans by (auto simp: pb stored_blobs_def)
    qed
  qed
qed

lemma srv_Version_Inr:
  assumes "srv_Version E h key version st = (Inr reply, st')"
  shows "same st st' \<and> (\<exists>v es. map_of (db_versions (st_db st)) (key, version) = Some v \<and>
    map_of (st_pb st) (treeKey (v_TreeHash v)) = Some (vr_TreeBytes reply) \<and> Decode (vr_TreeBytes reply) = Inr es \<and>
    vr_TreeHash reply = sv_H E (vr_TreeBytes reply))"
proof -
  have st': "same st st'" by (rule readsD [OF reads_srv(2) assms])
  from assms obtain v s1 es s2 where g: "sto_GetVersion E key version st = (Inr (Some v), s1)"
    and rt: "ReadTree E (hd_verify h) (v_TreeHash v) s1 = (Inr es, s2)"
    and enc: "Encode (sv_H E) es = Inr (vr_TreeBytes reply, vr_TreeHash reply)"
    unfolding srv_Version_def by (auto simp: op_Inr map_err_Inr split: option.splits)
  note v = sto_GetVersion_Inr [OF g]
  from rt obtain u s3 d s4 where i: "io E s1 = (Inr u, s3)"
    and rd: "(if hd_verify h then readVerified E (treeKey (v_TreeHash v)) (v_TreeHash v) else readUnverified E (treeKey (v_TreeHash v))) s3 = (Inr d, s4)"
    and dec: "Decode d = Inr es"
    unfolding ReadTree_def pb_ReadTree_def by (auto simp: op_Inr map_err_Inr split: if_splits)
  have "same s1 s3" using i by (auto simp: io_def same_def Let_def split: if_splits)
  then have d: "map_of (st_pb st) (treeKey (v_TreeHash v)) = Some d" using read_facts(2) [OF rd] v by (simp add: same_def)
  have tb: "tree_bytes es d" by (rule Decode_bytes [OF dec])
  then have "tree_bytes es (vr_TreeBytes reply)" and hash: "vr_TreeHash reply = sv_H E (vr_TreeBytes reply)"
    using enc by (auto simp: Encode_iff tree_bytes_sorted)
  then have "vr_TreeBytes reply = d" using tb by (auto simp: tree_bytes_def)
  moreover have "map_of (db_versions (st_db st)) (key, version) = Some v" using v by simp
  ultimately show ?thesis using st' d dec hash by blast
qed

end
