(* ===== verification/Session_Properties.thy ===== *)
theory Session_Properties
  imports Session_Theorems Rescan_Sample
begin

text \<open>
  The properties of a session between siblings, with the loops of the rescan that a session or a public
  listing drives.
\<close>

section \<open>A sample session\<close>

text \<open>The sibling is the store of \<open>Store_Sample\<close> with its three versions; the session has just said hello.\<close>

definition toy_handler :: handlerObj where
  "toy_handler = \<lparr>hd_releaseMirrors = [(''app'', ''https://h/app'')], hd_maxFetchResponseBytes = 0,
     hd_maxFetchBatchCount = 0, hd_verify = True\<rparr>"

definition toy_source :: sourceCfg where
  "toy_source = \<lparr>sc_H = hash_copy, sc_maxFetchBytes = 1000, sc_maxFetchCount = 10, sc_maxBlobBytes = 100, sc_disk = (\<lambda>_. True)\<rparr>"

definition toy_session :: BrotherSessionObj where
  "toy_session = (open_session toy_source ''app'')\<lparr>bs_indexKeyset := True\<rparr>"

definition toy_linked :: rescan_env where
  "toy_linked = toy_rescan\<lparr>re_index := (\<lambda>n page. if page = Suc n
     then index_answer (honest toy_env toy_handler) (toy_session, toy_store2) n else None)\<rparr>"

lemma toy_answers:
  "fst (brotherIndex toy_linked (toy_pass empty_store)) =
     Inr (Some (Some (map brief (listed_rows (st_db toy_store2) ''app''), ''https://h/app'')))"
  by code_simp

definition toy_reqs :: "BlobReqObj list" where
  "toy_reqs = [\<lparr>rq_Hash = hash_copy ''x'', rq_SizeBytes = 1\<rparr>, \<lparr>rq_Hash = hash_copy ''z'', rq_SizeBytes = 1\<rparr>]"

lemma toy_fetch:
  "fst (ses_BlobsFetch toy_source (honest toy_env toy_handler) toy_reqs ''spool'' (toy_session, toy_store2)) =
     Inr [\<lparr>sb_BlobHash = hash_copy ''x'', sb_SizeBytes = 1, sb_FilePath = blobPath ''spool'' (hash_copy ''x'')\<rparr>]"
  by code_simp

section \<open>Properties\<close>

text \<open>C20: Whatever a sibling sends in answer to a request for blobs, once or again, truncated or forged: what the
  session reports as staged was asked for, each blob once, and the file of each in the spool holds bytes that
  hash to its digest, of the reported size and within the limit for one blob. No other file of the spool changes.\<close>

theorem fetched_blobs_authentic:
  assumes "ses_BlobsFetch cfg peer reqs destDir (s, w) = (Inr staged, (s', w'))"
  shows "distinct (map sb_BlobHash staged) \<and> set (map sb_BlobHash staged) \<subseteq> set (map rq_Hash reqs) \<and>
    list_all (\<lambda>b. sb_FilePath b = blobPath destDir (sb_BlobHash b) \<and> sb_SizeBytes b \<le> sc_maxBlobBytes cfg \<and>
      (\<exists>d. map_of (bs_files s') (sb_FilePath b) = Some d \<and> sc_H cfg d = sb_BlobHash b \<and>
        sb_SizeBytes b = of_nat (length d))) staged \<and>
    (\<forall>p. map_of (bs_files s') p = map_of (bs_files s) p \<or> p \<in> sb_FilePath ` set staged)"
proof (cases "reqs = []")
  case True
  then show ?thesis using assms by (simp add: ses_BlobsFetch_def sret_def)
next
  case False
  then obtain reply s1 w1 where st: "stage_blobs cfg destDir (set (map rq_Hash reqs)) {} reply (s1, w1) = (Inr staged, (s', w'))"
    and s1: "s1 = s"
    using assms by (auto simp: ses_BlobsFetch_def op_Inr rpcCall_def split: if_splits prod.splits rpc_outcome.splits)
  note facts = stage_blobs_Inr [OF st]
  have paths: "sb_FilePath ` set staged = blobPath destDir ` (wb_Hash ` set reply \<inter> set (map rq_Hash reqs) - {})"
  proof -
    have "\<forall>b \<in> set staged. sb_FilePath b = blobPath destDir (sb_BlobHash b)" using facts by blast
    then have "sb_FilePath ` set staged = blobPath destDir ` set (map sb_BlobHash staged)"
      by (simp add: image_image cong: image_cong)
    also have "set (map sb_BlobHash staged) = wb_Hash ` set reply \<inter> set (map rq_Hash reqs) - {}" using facts by blast
    finally show ?thesis .
  qed
  show ?thesis using facts unfolding paths by (auto simp: list_all_iff staged_ok_def s1)
qed

theorem fetched_blobs_authentic_witness:
  "case ses_BlobsFetch toy_source (honest toy_env toy_handler) toy_reqs ''spool'' (toy_session, toy_store2) of (x, s', w') \<Rightarrow>
     \<exists>d. map_of (bs_files s') (blobPath ''spool'' (hash_copy ''x'')) = Some d \<and> hash_copy d = hash_copy ''x''"
proof -
  obtain x s' w' where run: "ses_BlobsFetch toy_source (honest toy_env toy_handler) toy_reqs ''spool'' (toy_session, toy_store2) = (x, (s', w'))"
    by (metis prod.collapse)
  have x: "x = Inr [\<lparr>sb_BlobHash = hash_copy ''x'', sb_SizeBytes = 1, sb_FilePath = blobPath ''spool'' (hash_copy ''x'')\<rparr>]"
    using toy_fetch unfolding run by simp
  show ?thesis using fetched_blobs_authentic [OF run [unfolded x]] unfolding run by (auto simp: toy_source_def)
qed

text \<open>C19: A sibling that runs this program transfers what it stores: the tree that arrives for a version is,
  byte for byte, the stored tree of the version of that name, and decodes; of the requested blobs exactly those
  arrive that it has, each with its stored bytes. Serving changes nothing in its store.\<close>

theorem honest_sibling_faithful:
  "(case ses_Version cfg (honest E h) version (s, st) of
      (Inl e, _) \<Rightarrow> True
    | (Inr d, (s', st')) \<Rightarrow> same st st' \<and> is_ok (Decode d) \<and>
        (\<exists>v. map_of (db_versions (st_db st)) (bs_remoteKey s, version) = Some v \<and>
          map_of (st_pb st) (treeKey (v_TreeHash v)) = Some d)) \<and>
   (case ses_BlobsFetch cfg (honest E h) reqs destDir (s, st) of
      (Inl e, _) \<Rightarrow> True
    | (Inr staged, (s', st')) \<Rightarrow> same st st' \<and>
        set (map sb_BlobHash staged) = set (map rq_Hash reqs) \<inter> stored_blobs st \<and>
        list_all (\<lambda>b. map_of (bs_files s') (sb_FilePath b) = map_of (st_pb st) (blobKey (sb_BlobHash b))) staged)"
proof (rule conjI, goal_cases)
  case 1
  show ?case
  proof (cases "ses_Version cfg (honest E h) version (s, st)" rule: prod.exhaust)
    case (Pair x sw')
    obtain s' st' where sw': "sw' = (s', st')" by (cases sw')
    show ?thesis
    proof (cases x)
      case (Inr d)
      then obtain reply where "rpcCall (served (srv_Version E h (bs_remoteKey s) version)) (s, st) = (Inr reply, (s', st'))"
        and d: "d = vr_TreeBytes reply"
        using Pair unfolding sw' ses_Version_def honest_def by (auto simp: op_Inr)
      from srv_Version_Inr [OF rpcCall_honest [OF this(1), THEN conjunct1]]
      show ?thesis unfolding Pair sw' Inr d by (auto simp: is_ok_iff)
    qed (simp add: Pair)
  qed
next
  case 2
  show ?case
  proof (cases "ses_BlobsFetch cfg (honest E h) reqs destDir (s, st)" rule: prod.exhaust)
    case (Pair x sw')
    obtain s' st' where sw': "sw' = (s', st')" by (cases sw')
    show ?thesis
    proof (cases x)
      case (Inr staged)
      show ?thesis
      proof (cases "reqs = []")
        case True
        then show ?thesis using Pair unfolding sw' Inr by (auto simp: ses_BlobsFetch_def sret_def same_def)
      next
        case False
        then obtain reply s1 st1 where rpc: "rpcCall (served (srv_BlobsFetch E h (map rq_Hash reqs))) (s, st) = (Inr reply, (s1, st1))"
          and stg: "stage_blobs cfg destDir (set (map rq_Hash reqs)) {} reply (s1, st1) = (Inr staged, (s', st'))"
          using Pair unfolding sw' Inr ses_BlobsFetch_def honest_def FetchLimits_def by (auto simp: op_Inr split: if_splits)
        have "srv_blobs_from E (hd_verify h) (fetchResponseBytes h) [] 0 [] (map rq_Hash reqs) st = (Inr reply, st1)"
          using rpcCall_honest [OF rpc] unfolding srv_BlobsFetch_def by (auto simp: sfail_def split: if_splits)
        note srv = srv_blobs_from_Inr [OF this]
        show ?thesis using srv stage_blobs_Inr [OF stg] unfolding Pair sw' Inr
          by (fastforce simp: list_all_iff staged_ok_def)
      qed
    qed (simp add: Pair)
  qed
qed

text \<open>C18: When the sibling runs this program, the index of a key that a pass collects over the pages of a
  session is complete and in order: all versions of the key that are not deleted, newest first, none
  twice and none lost at the border of two pages; and the source is the one the sibling mirrors.\<close>

theorem sibling_index_complete:
  assumes "consistent E U (st_db st) (st_pb st)" and "bs_remoteKey s = key" and "bs_indexKeyset s"
    and "\<forall>k. re_index RE (rs_clock r + k) (Suc k) = index_answer (honest E h) (s, st) k"
    and "brotherIndex RE r = (Inr (Some (Some (entries, url))), r')"
  shows "entries = map brief (listed_rows (st_db st) key) \<and> url = sourceInfo h key"
proof -
  have "Store_Inv.keys_ok (st_db st)" using consistent_sound [OF assms(1)] by (simp add: sound_rows_def)
  from honest_pages [OF assms(5) [unfolded brotherIndex_def One_nat_def] assms(4) this refl]
  show ?thesis using assms(2,3) by (simp add: same_def reader_def)
qed

theorem sibling_index_complete_witness:
  "case fst (brotherIndex toy_linked (toy_pass empty_store)) of
     Inr (Some (Some (entries, url))) \<Rightarrow> entries = map brief (listed_rows (st_db toy_store2) ''app'') \<and> url = ''https://h/app''
   | _ \<Rightarrow> False"
proof -
  obtain r' where run: "brotherIndex toy_linked (toy_pass empty_store) =
      (Inr (Some (Some (map brief (listed_rows (st_db toy_store2) ''app''), ''https://h/app''))), r')"
    using toy_answers by (metis prod.collapse)
  from sibling_index_complete [OF toy_consistent(2) _ _ _ run, of toy_session "''app''" toy_handler]
  show ?thesis unfolding run by (simp add: toy_linked_def toy_pass_def toy_session_def open_session_def)
qed

text \<open>C21: A sibling cannot hold a pass: the index of a session ends after a bounded number of requests whatever
  it answers, with at most the number of entries and of bytes the node accepts, and the walk over a public
  listing ends with at most the number of names it accepts. Both always give a result.\<close>

theorem sibling_cannot_hold_a_pass:
  "(\<exists>res r'. brotherIndex RE r = (Inr (Some res), r') \<and> index_bounded res \<and> rs_clock r' \<le> rs_clock r + 200002) \<and>
   (case fst (PublicMirrorVersions RE root remoteKey key force r) of
      Inl e \<Rightarrow> True | Inr None \<Rightarrow> False | Inr (Some res) \<Rightarrow> listing_bounded res)"
proof (rule conjI, goal_cases)
  case 1
  obtain x r' where run: "brotherIndex RE r = (x, r')" by fastforce
  show ?case
    using brother_pages_ends [OF run [unfolded brotherIndex_def]] unfolding run
    by (simp add: index_bytes_def cMaxBrotherVersions_def)
next
  case 2
  obtain x r' where run: "PublicMirrorVersions RE root remoteKey key force r = (x, r')" by fastforce
  show ?case
  proof (cases x)
    case (Inr y)
    have "\<exists>res. y = Some res \<and> listing_bounded res"
      by (rule mirror_pages_ends [OF run [unfolded Inr PublicMirrorVersions_def]]) simp_all
    then show ?thesis by (auto simp: run Inr)
  qed (simp add: run)
qed

end
