(* ===== verification/Overlay_Rewrite.thy ===== *)
theory Overlay_Rewrite
  imports Util_Version
begin

text \<open>
  Rewriting of the module path in Go sources (\<open>mod/overlay/rewrite.go\<close>): the scan that replaces,
  the scan that only measures, and the scan that decides which blobs need it. The reference is
  \<open>rewrite_ref\<close>, which goes over the text byte by byte. Go's \<open>int\<close> of these lengths does not overflow, so
  lengths are numbers.
\<close>

section \<open>The scans\<close>

text \<open>\<open>bytes.Index\<close>\<close>

fun bytes_index :: "bytes \<Rightarrow> bytes \<Rightarrow> nat option" where
  "bytes_index [] pat = (if pat = [] then Some 0 else None)"
| "bytes_index (c # s) pat = (if HasPrefix (c # s) pat then Some 0 else map_option Suc (bytes_index s pat))"

definition isModulePathByte :: "char \<Rightarrow> bool" where
  "isModulePathByte c \<longleftrightarrow> byte_in 97 122 c \<or> byte_in 65 90 c \<or> byte_in 48 57 c \<or> c \<in> set ''.-_~/''"

definition moduleBoundary :: "bytes \<Rightarrow> nat \<Rightarrow> nat \<Rightarrow> bool" where
  "moduleBoundary dataArr start end' =
     (if start > 0 \<and> isModulePathByte (dataArr ! (start - 1)) then False
      else if end' < length dataArr \<and> dataArr ! end' \<noteq> slash \<and> isModulePathByte (dataArr ! end') then False
      else True)"

definition occurs_at :: "bytes \<Rightarrow> bytes \<Rightarrow> nat \<Rightarrow> bool" where
  "occurs_at d old i \<longleftrightarrow> i \<le> length d \<and> HasPrefix (drop i d) old"

lemma bytes_index_Some:
  "bytes_index s pat = Some i \<longleftrightarrow> occurs_at s pat i \<and> (\<forall>j < i. \<not> occurs_at s pat j)"
proof (induction s arbitrary: i)
  case Nil
  then show ?case by (auto simp: occurs_at_def HasPrefix_def)
next
  case (Cons c s)
  show ?case
  proof (cases "HasPrefix (c # s) pat")
    case True
    then show ?thesis by (cases i) (auto simp: occurs_at_def)
  next
    case False
    have shift: "occurs_at (c # s) pat (Suc j) = occurs_at s pat j" for j by (simp add: occurs_at_def)
    have zero: "\<not> occurs_at (c # s) pat 0" using False by (simp add: occurs_at_def)
    show ?thesis
    proof (cases i)
      case 0
      then show ?thesis using False zero by simp
    next
      case (Suc i')
      then show ?thesis using False zero Cons.IH [of i']
        by (auto simp: shift less_Suc_eq_0_disj)
    qed
  qed
qed

lemma bytes_index_None: "bytes_index s pat = None \<longleftrightarrow> (\<forall>i. \<not> occurs_at s pat i)"
proof
  show "bytes_index s pat = None \<Longrightarrow> \<forall>i. \<not> occurs_at s pat i"
  proof (rule ccontr)
    assume n: "bytes_index s pat = None" and "\<not> (\<forall>i. \<not> occurs_at s pat i)"
    then have "occurs_at s pat (LEAST i. occurs_at s pat i)" by (auto intro: LeastI)
    then have "bytes_index s pat = Some (LEAST i. occurs_at s pat i)"
      by (auto simp: bytes_index_Some dest: not_less_Least)
    then show False using n by simp
  qed
  show "\<forall>i. \<not> occurs_at s pat i \<Longrightarrow> bytes_index s pat = None"
    by (metis bytes_index_Some not_None_eq)
qed

lemma occurs_at_drop: "pos \<le> length d \<Longrightarrow> occurs_at (drop pos d) pat i \<longleftrightarrow> occurs_at d pat (pos + i)"
  by (auto simp: occurs_at_def add.commute)

lemma occurs_at_length: "occurs_at d pat i \<Longrightarrow> i + length pat \<le> length d"
  by (auto simp: occurs_at_def HasPrefix_def min_def dest!: arg_cong [where f = length] split: if_splits)

lemma index_from_bound: "bytes_index (drop pos d) pat = Some idx \<Longrightarrow> pat \<noteq> [] \<Longrightarrow> pos + idx + length pat \<le> length d"
  by (cases "pos \<le> length d") (auto simp: bytes_index_Some occurs_at_drop dest: occurs_at_length)

text \<open>The loop of \<open>rewriteScan\<close>. \<open>resultArr\<close> stays \<open>nil\<close> when only the size is wanted.\<close>

function rewrite_loop :: "bytes \<Rightarrow> bytes \<Rightarrow> bytes \<Rightarrow> bool \<Rightarrow> nat \<Rightarrow> bytes \<Rightarrow> int \<Rightarrow> bytes \<times> int" where
  "rewrite_loop dataArr oldArr newArr contentFlag pos resultArr n =
     (if oldArr = [] then (resultArr, n)
      else
        (case bytes_index (drop pos dataArr) oldArr of
           None \<Rightarrow> (if contentFlag then resultArr @ drop pos dataArr else resultArr, n)
         | Some idx \<Rightarrow>
             let start = pos + idx; end' = start + length oldArr;
                 resultArr1 = (if contentFlag then resultArr @ take idx (drop pos dataArr) else resultArr)
             in if moduleBoundary dataArr start end'
                then rewrite_loop dataArr oldArr newArr contentFlag end'
                       (if contentFlag then resultArr1 @ newArr else resultArr1) (n + (int (length newArr) - int (length oldArr)))
                else rewrite_loop dataArr oldArr newArr contentFlag end'
                       (if contentFlag then resultArr1 @ oldArr else resultArr1) n))"
  by pat_completeness auto
termination
  by (relation "measure (\<lambda>(d, old, new, c, pos, r, n). length d - pos)")
    (auto simp: neq_Nil_conv dest!: index_from_bound)

declare rewrite_loop.simps [simp del]

definition rewriteScan :: "bytes \<Rightarrow> bytes \<Rightarrow> bytes \<Rightarrow> bool \<Rightarrow> bytes \<times> int" where
  "rewriteScan dataArr oldArr newArr contentFlag =
     (if oldArr = [] \<or> oldArr = newArr then (if contentFlag then dataArr else [], int (length dataArr))
      else rewrite_loop dataArr oldArr newArr contentFlag 0 [] (int (length dataArr)))"

definition rewriteContent :: "bytes \<Rightarrow> bytes \<Rightarrow> bytes \<Rightarrow> bytes" where
  "rewriteContent dataArr oldArr newArr = fst (rewriteScan dataArr oldArr newArr True)"

definition rewrittenSize :: "bytes \<Rightarrow> bytes \<Rightarrow> bytes \<Rightarrow> int" where
  "rewrittenSize dataArr oldArr newArr = snd (rewriteScan dataArr oldArr newArr False)"

function contains_loop :: "bytes \<Rightarrow> bytes \<Rightarrow> nat \<Rightarrow> bool" where
  "contains_loop dataArr needleArr pos =
     (if needleArr = [] then False
      else
        (case bytes_index (drop pos dataArr) needleArr of
           None \<Rightarrow> False
         | Some idx \<Rightarrow>
             let start = pos + idx
             in if moduleBoundary dataArr start (start + length needleArr) then True
                else contains_loop dataArr needleArr (start + 1)))"
  by pat_completeness auto
termination
  by (relation "measure (\<lambda>(d, needle, pos). length d - pos)")
    (auto simp: neq_Nil_conv dest!: index_from_bound)

declare contains_loop.simps [simp del]

definition containsModulePath :: "bytes \<Rightarrow> bytes \<Rightarrow> bool" where
  "containsModulePath dataArr needleArr = (if needleArr = [] then False else contains_loop dataArr needleArr 0)"

section \<open>The reference\<close>

text \<open>The path stands at \<open>i\<close> as a whole path: not inside a longer word, though it may have subdirectories.\<close>

definition module_at :: "bytes \<Rightarrow> bytes \<Rightarrow> nat \<Rightarrow> bool" where
  "module_at d old i \<longleftrightarrow> occurs_at d old i \<and> moduleBoundary d i (i + length old)"

function rewrite_ref :: "bytes \<Rightarrow> bytes \<Rightarrow> bytes \<Rightarrow> nat \<Rightarrow> bytes" where
  "rewrite_ref d old new i =
     (if i \<ge> length d \<or> old = [] then drop i d
      else if module_at d old i then new @ rewrite_ref d old new (i + length old)
      else d ! i # rewrite_ref d old new (Suc i))"
  by pat_completeness auto
termination
  by (relation "measure (\<lambda>(d, old, new, i). length d - i)") (auto simp: neq_Nil_conv)

declare rewrite_ref.simps [simp del]

lemma ref_copy:
  assumes "old \<noteq> []" "i \<le> j" "j \<le> length d" "\<forall>k. i \<le> k \<and> k < j \<longrightarrow> \<not> module_at d old k"
  shows "rewrite_ref d old new i = take (j - i) (drop i d) @ rewrite_ref d old new j"
  using assms(2-4)
proof (induction "j - i" arbitrary: i)
  case 0
  then show ?case by simp
next
  case (Suc n)
  then have i: "i < j" "i < length d" by auto
  have "rewrite_ref d old new i = d ! i # rewrite_ref d old new (Suc i)"
    using Suc.prems i assms(1) by (subst rewrite_ref.simps) simp
  also have "rewrite_ref d old new (Suc i) = take (j - Suc i) (drop (Suc i) d) @ rewrite_ref d old new j"
    using Suc.hyps(2) Suc.prems i by (intro Suc.hyps(1)) auto
  moreover have "d ! i # take (j - Suc i) (drop (Suc i) d) = take (j - i) (drop i d)"
    using i by (simp add: Cons_nth_drop_Suc [symmetric] take_Cons' Suc_diff_Suc [symmetric])
  ultimately show ?case by (metis append_Cons)
qed

lemma ref_end:
  assumes "\<forall>k \<ge> i. \<not> module_at d old k"
  shows "rewrite_ref d old new i = drop i d"
proof (cases "i < length d \<and> old \<noteq> []")
  case True
  then have "rewrite_ref d old new i = take (length d - i) (drop i d) @ rewrite_ref d old new (length d)"
    using assms by (intro ref_copy) auto
  also have "rewrite_ref d old new (length d) = []" by (subst rewrite_ref.simps) simp
  finally show ?thesis by simp
qed (subst rewrite_ref.simps, auto)

section \<open>The scan is the reference\<close>

definition path_bytes :: "bytes \<Rightarrow> bool" where
  "path_bytes s \<longleftrightarrow> s \<noteq> [] \<and> (\<forall>c \<in> set s. isModulePathByte c)"

text \<open>Two whole paths never overlap, so skipping a match that is not one loses none.\<close>

lemma no_overlap:
  assumes "path_bytes old" "occurs_at d old i" "i < k" "k < i + length old"
  shows "\<not> module_at d old k"
proof -
  obtain t where t: "drop i d = old @ t" using assms(2) by (auto simp: occurs_at_def HasPrefix_iff)
  have "d ! (k - 1) = drop i d ! (k - 1 - i)" using assms occurs_at_length [OF assms(2)] by (subst nth_drop) auto
  also have "\<dots> = old ! (k - 1 - i)"
  proof -
    have "k - 1 - i < length old" using assms(3,4) by auto
    then show ?thesis by (simp add: t nth_append)
  qed
  finally have "isModulePathByte (d ! (k - 1))"
    using assms(1,3,4) by (auto simp: path_bytes_def)
  then show ?thesis using assms(3) by (simp add: module_at_def moduleBoundary_def)
qed

lemma scan_result:
  assumes "path_bytes old" "pos \<le> length d"
  shows "rewrite_loop d old new True pos r n =
    (r @ rewrite_ref d old new pos, n + int (length (rewrite_ref d old new pos)) - int (length d - pos))"
  using assms(2)
proof (induction "length d - pos" arbitrary: pos r n rule: less_induct)
  case less
  have old: "old \<noteq> []" using assms(1) by (simp add: path_bytes_def)
  show ?case
  proof (cases "bytes_index (drop pos d) old")
    case None
    have "\<not> module_at d old k" if "k \<ge> pos" for k
      using None that less.prems occurs_at_drop [OF less.prems, of old "k - pos"]
      by (simp add: bytes_index_None module_at_def)
    then have "rewrite_ref d old new pos = drop pos d" by (intro ref_end) blast
    then show ?thesis using None old by (subst rewrite_loop.simps) simp
  next
    case (Some idx)
    let ?s = "pos + idx" and ?e = "pos + idx + length old"
    have at: "occurs_at d old ?s" and first: "\<forall>j < idx. \<not> occurs_at d old (pos + j)"
      using Some less.prems by (simp_all add: bytes_index_Some occurs_at_drop)
    have e: "?e \<le> length d" using occurs_at_length [OF at] by simp
    have before: "\<not> module_at d old k" if "pos \<le> k" "k < ?s" for k
      using first [rule_format, of "k - pos"] that by (simp add: module_at_def)
    have ref: "rewrite_ref d old new pos = take idx (drop pos d) @ rewrite_ref d old new ?s"
      using ref_copy [OF old _ _ , of pos ?s d new] before e by simp
    have smaller: "length d - ?e < length d - pos" using e old by (cases old) auto
    note ih = less.hyps [OF smaller e]
    show ?thesis
    proof (cases "moduleBoundary d ?s ?e")
      case True
      then have "rewrite_ref d old new ?s = new @ rewrite_ref d old new ?e"
        using at old e by (subst rewrite_ref.simps) (cases old, auto simp: module_at_def add.assoc)
      then show ?thesis using Some True old ih e less.prems unfolding ref
        by (subst rewrite_loop.simps) (simp add: Let_def)
    next
      case False
      have "\<not> module_at d old k" if "?s \<le> k" "k < ?e" for k
        using no_overlap [OF assms(1) at, of k] that False by (cases "k = ?s") (auto simp: module_at_def add.assoc)
      then have "rewrite_ref d old new ?s = take (?e - ?s) (drop ?s d) @ rewrite_ref d old new ?e"
        using e old by (intro ref_copy) auto
      also have "take (?e - ?s) (drop ?s d) = old" using at by (auto simp: occurs_at_def HasPrefix_def)
      finally show ?thesis using Some False old ih e less.prems unfolding ref
        by (subst rewrite_loop.simps) (simp add: Let_def)
    qed
  qed
qed

lemma scan_size:
  "snd (rewrite_loop d old new c pos r n) = snd (rewrite_loop d old new True pos r' n) \<and>
   (\<not> c \<longrightarrow> fst (rewrite_loop d old new c pos r n) = r)"
proof (induction d old new c pos r n arbitrary: r' rule: rewrite_loop.induct)
  case (1 d old new c pos r n)
  show ?case
  proof (cases "old = [] \<or> bytes_index (drop pos d) old = None")
    case True
    then show ?thesis by (subst (1 2 3) rewrite_loop.simps) auto
  next
    case False
    then obtain idx where idx: "bytes_index (drop pos d) old = Some idx" "old \<noteq> []" by auto
    show ?thesis
    proof (cases "moduleBoundary d (pos + idx) (pos + idx + length old)")
      case True
      from "1.IH"(1) [OF idx(2,1) refl refl refl True] show ?thesis
        using idx True by (subst (1 2 3) rewrite_loop.simps) (auto simp: Let_def)
    next
      case False
      from "1.IH"(2) [OF idx(2,1) refl refl refl False] show ?thesis
        using idx False by (subst (1 2 3) rewrite_loop.simps) (auto simp: Let_def)
    qed
  qed
qed

lemma loop_total:
  assumes "old \<noteq> []" "pos \<le> length d" "n = int (length r) + int (length d - pos)"
  shows "snd (rewrite_loop d old new True pos r n) = int (length (fst (rewrite_loop d old new True pos r n)))"
  using assms(2,3)
proof (induction "length d - pos" arbitrary: pos r n rule: less_induct)
  case less
  show ?case
  proof (cases "bytes_index (drop pos d) old")
    case None
    then show ?thesis using less.prems assms(1) by (subst (1 2) rewrite_loop.simps) simp
  next
    case (Some idx)
    let ?e = "pos + idx + length old"
    have e: "?e \<le> length d" by (rule index_from_bound [OF Some assms(1)])
    have smaller: "length d - ?e < length d - pos" using e assms(1) by (cases old) auto
    note ih = less.hyps [OF smaller e]
    have len: "length (take idx (drop pos d)) = idx" using e by simp
    show ?thesis
      by (subst (1 2) rewrite_loop.simps) (use Some assms(1) less.prems e len in \<open>auto simp: Let_def intro!: ih\<close>)
  qed
qed

lemma rewrittenSize_length: "rewrittenSize d old new = int (length (rewriteContent d old new))"
proof (cases "old = [] \<or> old = new")
  case True
  then show ?thesis by (auto simp: rewrittenSize_def rewriteContent_def rewriteScan_def)
next
  case False
  then show ?thesis
    using scan_size [of d old new False 0 "[]" "int (length d)" "[]"] loop_total [of old 0 d "int (length d)" "[]" new]
    by (simp add: rewrittenSize_def rewriteContent_def rewriteScan_def)
qed

lemma rewriteContent_ref:
  assumes "path_bytes old"
  shows "rewriteContent d old new = (if old = new then d else rewrite_ref d old new 0)"
  using scan_result [OF assms, of 0 d new "[]"] assms
  by (simp add: rewriteContent_def rewriteScan_def path_bytes_def)

lemma contains_from:
  "needle \<noteq> [] \<Longrightarrow> contains_loop d needle pos \<longleftrightarrow> (\<exists>i \<ge> pos. module_at d needle i)"
proof (induction d needle pos rule: contains_loop.induct)
  case (1 d needle pos)
  show ?case
  proof (cases "pos \<le> length d")
    case False
    then have "bytes_index (drop pos d) needle = None" "\<forall>i \<ge> pos. \<not> occurs_at d needle i"
      using "1.prems" by (auto simp: occurs_at_def)
    then show ?thesis using "1.prems" by (subst contains_loop.simps) (auto simp: module_at_def)
  next
    case True
    show ?thesis
    proof (cases "bytes_index (drop pos d) needle")
      case None
      then have "\<not> module_at d needle i" if "i \<ge> pos" for i
        using that occurs_at_drop [OF True, of needle "i - pos"] by (simp add: bytes_index_None module_at_def)
      then show ?thesis using None "1.prems" by (subst contains_loop.simps) auto
    next
      case (Some idx)
      have at: "occurs_at d needle (pos + idx)" and first: "\<forall>j < idx. \<not> occurs_at d needle (pos + j)"
        using Some True by (simp_all add: bytes_index_Some occurs_at_drop)
      have before: "\<not> module_at d needle i" if "pos \<le> i" "i < pos + idx" for i
        using first [rule_format, of "i - pos"] that by (simp add: module_at_def)
      show ?thesis
      proof (cases "moduleBoundary d (pos + idx) (pos + idx + length needle)")
        case bd: True
        then have "module_at d needle (pos + idx)" using at by (simp add: module_at_def)
        then show ?thesis using Some bd "1.prems" by (subst contains_loop.simps) (auto simp: Let_def intro: exI [of _ "pos + idx"])
      next
        case bd: False
        have "contains_loop d needle pos = contains_loop d needle (pos + idx + 1)"
          using Some bd "1.prems" by (subst contains_loop.simps) (simp add: Let_def)
        also have "\<dots> \<longleftrightarrow> (\<exists>i \<ge> pos + idx + 1. module_at d needle i)"
          by (rule "1.IH" [OF "1.prems" Some refl bd "1.prems"])
        also have "\<dots> \<longleftrightarrow> (\<exists>i \<ge> pos. module_at d needle i)"
        proof
          assume "\<exists>i \<ge> pos. module_at d needle i"
          then obtain i where i: "i \<ge> pos" "module_at d needle i" by blast
          then have "i \<noteq> pos + idx" using bd by (auto simp: module_at_def)
          then show "\<exists>i \<ge> pos + idx + 1. module_at d needle i" using i before [of i] by (intro exI [of _ i]) force
        qed (meson add_leD1)
        finally show ?thesis .
      qed
    qed
  qed
qed

lemma containsModulePath_iff: "containsModulePath d needle \<longleftrightarrow> needle \<noteq> [] \<and> (\<exists>i. module_at d needle i)"
  using contains_from [of needle d 0] by (auto simp: containsModulePath_def)

end
