(* ===== verification/Overlay_Detect.thy ===== *)
theory Overlay_Detect
  imports Overlay_Rewrite Rescan_Base
begin

text \<open>
  Detection of ecosystems in the tree of a version (\<open>mod/overlay/detect.go\<close>) and the reasons why a tree
  cannot become a Go module archive (\<open>goviability.go\<close>). Reading a blob is any operation of a state. The
  functions of \<open>golang.org/x/mod\<close> and the decoding of JSON and quoting of the standard library are the
  fields of \<open>overlay_lib\<close>.
\<close>

section \<open>Data\<close>

type_synonym ('s, 'e) blob_reader = "HashObj \<Rightarrow> ('s, 'e, bytes) op"

datatype EcosystemType = EcosystemGo | EcosystemComposer

record CandidateObj =
  cd_Ecosystem :: EcosystemType
  cd_GoModulePath :: string
  cd_ComposerName :: string
  cd_RewriteBlobs :: "HashObj list"
  cd_GoZipBlockReason :: string

text \<open>The rescan uses the first two fields only.\<close>

record OverlayResultObj = DetectionResultObj +
  det_Go :: "CandidateObj option"
  det_Composer :: "CandidateObj option"

text \<open>A rejected file of \<open>modzip.CheckFiles\<close>: its path, the text of the inner error (empty when there is none),
  whether that is an invalid path error, and the text of the whole.\<close>

record fileErrorObj =
  fe_Path :: string
  fe_Err :: string
  fe_InvalidPath :: bool
  fe_Text :: string

record overlay_lib =
  ol_ModulePath :: "bytes \<Rightarrow> string"
  ol_jsonName :: "bytes \<Rightarrow> string option"
  ol_Marshal :: "string \<Rightarrow> string \<Rightarrow> string option"
  ol_Unmarshal :: "string \<Rightarrow> string \<times> string"
  ol_CheckFiles :: "(string \<times> u64) list \<Rightarrow> bytes \<Rightarrow> fileErrorObj list \<times> string option"
  ol_Quote :: "string \<Rightarrow> string"
  ol_Check :: "string \<Rightarrow> string \<Rightarrow> bool"
  ol_Major :: "string \<Rightarrow> string"

definition cMaxManifestBytes :: nat where "cMaxManifestBytes = 2 ^ 20"
definition cMaxComposerNameBytes :: nat where "cMaxComposerNameBytes = 150"

section \<open>Paths\<close>

text \<open>\<open>path.Base\<close>\<close>

definition path_Base :: "string \<Rightarrow> string" where
  "path_Base p =
     (if p = [] then ''.''
      else let q = rev (dropWhile (\<lambda>c. c = slash) (rev p));
               b = rev (takeWhile (\<lambda>c. c \<noteq> slash) (rev q))
           in if b = [] then ''/'' else b)"

definition pathDepth :: "string \<Rightarrow> nat" where
  "pathDepth pathText = length (filter (\<lambda>c. c = slash) pathText)"

definition isShallower :: "string \<Rightarrow> string \<Rightarrow> bool" where
  "isShallower aText bText =
     (let da = pathDepth aText; db = pathDepth bText in if da \<noteq> db then da < db else aText < bText)"

fun shallowest_from :: "string \<Rightarrow> TreeEntryObj option \<Rightarrow> TreeEntryObj list \<Rightarrow> TreeEntryObj option" where
  "shallowest_from baseName best [] = best"
| "shallowest_from baseName best (e # es) =
     (if te_Mode e \<noteq> ModeFile \<or> path_Base (te_Path e) \<noteq> baseName then shallowest_from baseName best es
      else case best of
             None \<Rightarrow> shallowest_from baseName (Some e) es
           | Some b \<Rightarrow> shallowest_from baseName (if isShallower (te_Path e) (te_Path b) then Some e else Some b) es)"

definition shallowestEntry :: "TreeEntryObj list \<Rightarrow> string \<Rightarrow> TreeEntryObj option" where
  "shallowestEntry treeArr baseName = shallowest_from baseName None treeArr"

definition isGoSource :: "string \<Rightarrow> bool" where
  "isGoSource pathText \<longleftrightarrow> HasSuffix pathText ''.go'' \<or> path_Base pathText = ''go.mod''"

section \<open>Manifests and names\<close>

definition readManifest :: "('s, 'e) blob_reader \<Rightarrow> HashObj \<Rightarrow> ('s, 'e, bytes option) op" where
  "readManifest src h = sbind (src h) (\<lambda>dataArr. sret (if length dataArr > cMaxManifestBytes then None else Some dataArr))"

definition composer_alnum :: "char \<Rightarrow> bool" where
  "composer_alnum c \<longleftrightarrow> byte_in 97 122 c \<or> byte_in 48 57 c"

text \<open>\<open>([_.-]?[a-z0-9]+)*\<close>\<close>

fun composer_rest :: "string \<Rightarrow> bool" where
  "composer_rest [] = True"
| "composer_rest (c # s) =
     (if composer_alnum c then composer_rest s
      else if c \<in> set ''_.-'' then (case s of [] \<Rightarrow> False | d # t \<Rightarrow> composer_alnum d \<and> composer_rest t)
      else False)"

definition composer_part :: "string \<Rightarrow> bool" where
  "composer_part s = (case s of [] \<Rightarrow> False | c # t \<Rightarrow> composer_alnum c \<and> composer_rest t)"

definition composerNamePattern :: "string \<Rightarrow> bool" where
  "composerNamePattern s = (case SplitByte slash s of [v, p] \<Rightarrow> composer_part v \<and> composer_part p | _ \<Rightarrow> False)"

definition validComposerName :: "string \<Rightarrow> bool" where
  "validComposerName nameText =
     (if nameText = [] \<or> length nameText > cMaxComposerNameBytes then False else composerNamePattern nameText)"

section \<open>The blobs to rewrite\<close>

fun scan_from ::
  "('s, 'e) blob_reader \<Rightarrow> string \<Rightarrow> HashObj list \<Rightarrow> HashObj list \<Rightarrow> TreeEntryObj list \<Rightarrow> ('s, 'e, HashObj list) op" where
  "scan_from src modulePath scanned matched [] = sret matched"
| "scan_from src modulePath scanned matched (e # es) =
     (if te_Mode e \<noteq> ModeFile \<or> \<not> isGoSource (te_Path e) then scan_from src modulePath scanned matched es
      else if te_BlobHash e \<in> set scanned then scan_from src modulePath scanned matched es
      else
        sbind (src (te_BlobHash e)) (\<lambda>dataArr.
        scan_from src modulePath (te_BlobHash e # scanned)
          (if containsModulePath dataArr modulePath then te_BlobHash e # matched else matched) es))"

definition scanRewriteBlobs :: "('s, 'e) blob_reader \<Rightarrow> TreeEntryObj list \<Rightarrow> string \<Rightarrow> ('s, 'e, HashObj list) op" where
  "scanRewriteBlobs src treeArr modulePath =
     sbind (scan_from src modulePath [] [] treeArr) (\<lambda>matched. sret (sort matched))"

section \<open>Viability of a Go module archive (goviability.go)\<close>

definition GoZipUnclassifiedLabel :: string where "GoZipUnclassifiedLabel = ''unclassified module zip errors''"
definition cMaxBlockSamples :: nat where "cMaxBlockSamples = 3"
definition cMaxBlockSampleBytes :: nat where "cMaxBlockSampleBytes = 96"
definition cMaxBlockReasonBytes :: nat where "cMaxBlockReasonBytes = 1024"
definition cGoZipPathBudgetBytes :: u64 where "cGoZipPathBudgetBytes = 4 * 2 ^ 20"
definition cGoZipDirSegmentBudget :: u64 where "cGoZipDirSegmentBudget = 2 ^ 18"

record blockSamplesObj =
  bs_count :: nat
  bs_sampleArr :: "string list"

definition no_samples :: blockSamplesObj where
  "no_samples = \<lparr>bs_count = 0, bs_sampleArr = []\<rparr>"

definition add_sample :: "string \<Rightarrow> blockSamplesObj \<Rightarrow> blockSamplesObj" where
  "add_sample sampleText s = \<lparr>bs_count = Suc (bs_count s),
     bs_sampleArr = (if length (bs_sampleArr s) < cMaxBlockSamples then bs_sampleArr s @ [sampleText] else bs_sampleArr s)\<rparr>"

fun Join :: "string \<Rightarrow> string list \<Rightarrow> string" where
  "Join sep [] = []"
| "Join sep [s] = s"
| "Join sep (s # ss) = s @ sep @ Join sep ss"

definition Contains :: "string \<Rightarrow> string \<Rightarrow> bool" where
  "Contains s sub \<longleftrightarrow> bytes_index s sub \<noteq> None"

text \<open>\<open>cut > 0 && !utf8.RuneStart(text[cut])\<close>\<close>

fun cut_back :: "string \<Rightarrow> nat \<Rightarrow> nat" where
  "cut_back text' 0 = 0"
| "cut_back text' (Suc n) = (if rune_start (text' ! Suc n) then Suc n else cut_back text' n)"

definition clipSample :: "string \<Rightarrow> string" where
  "clipSample pathText =
     (if length pathText \<le> cMaxBlockSampleBytes then pathText
      else take (cut_back pathText cMaxBlockSampleBytes) pathText @ ''...'')"

definition clipReason :: "string \<Rightarrow> string" where
  "clipReason reasonText =
     (if length reasonText \<le> cMaxBlockReasonBytes then reasonText
      else take (cut_back reasonText (cMaxBlockReasonBytes - length ''...'')) reasonText @ ''...'')"

definition treeComplexityReason :: "TreeEntryObj list \<Rightarrow> string" where
  "treeComplexityReason treeArr =
     (let pathBytes = sum_list (map (\<lambda>e. of_nat (length (te_Path e)) :: u64) treeArr);
          dirSegments = sum_list (map (\<lambda>e. of_nat (pathDepth (te_Path e)) :: u64) treeArr)
      in if pathBytes > cGoZipPathBudgetBytes \<or> dirSegments > cGoZipDirSegmentBudget
         then ''tree exceeds go module zip complexity budget ('' @ Itoa (uint pathBytes) @ '' path bytes, ''
                @ Itoa (uint dirSegments) @ '' directory segments)''
         else [])"

datatype invalidClass = BlockedPath | BlockedCollision | BlockedSize | BlockedOther

definition class_of :: "fileErrorObj \<Rightarrow> invalidClass" where
  "class_of fe =
     (let msgText = fe_Err fe in
      if Contains msgText ''collision'' \<or> Contains msgText ''both a file and a directory'' \<or> Contains msgText ''multiple entries''
      then BlockedCollision
      else if Contains msgText ''too large'' then BlockedSize
      else if fe_InvalidPath fe \<or> msgText = ''file path is not clean'' \<or> msgText = ''file path is not relative''
        \<or> msgText = ''go.mod files must have lowercase names'' then BlockedPath
      else BlockedOther)"

definition sample_of :: "overlay_lib \<Rightarrow> fileErrorObj \<Rightarrow> string" where
  "sample_of L fe =
     (case class_of fe of
        BlockedCollision \<Rightarrow> clipSample (fe_Err fe)
      | BlockedSize \<Rightarrow> ol_Quote L (clipSample (fe_Path fe))
      | BlockedPath \<Rightarrow> ol_Quote L (clipSample (fe_Path fe))
      | BlockedOther \<Rightarrow> clipSample (fe_Text fe))"

text \<open>The four collections, as a function of the class.\<close>

definition classifyInvalid ::
  "overlay_lib \<Rightarrow> fileErrorObj \<Rightarrow> (invalidClass \<Rightarrow> blockSamplesObj) \<Rightarrow> (invalidClass \<Rightarrow> blockSamplesObj)" where
  "classifyInvalid L fe acc = acc(class_of fe := add_sample (sample_of L fe) (acc (class_of fe)))"

definition block_part :: "string \<Rightarrow> blockSamplesObj \<Rightarrow> string list" where
  "block_part labelText s =
     (if bs_count s = 0 then []
      else [labelText @ '' ('' @ Itoa (int (bs_count s)) @ ''): '' @ Join '', '' (bs_sampleArr s)])"

definition goZipBlockReason :: "overlay_lib \<Rightarrow> TreeEntryObj list \<Rightarrow> bytes \<Rightarrow> string" where
  "goZipBlockReason L treeArr goModArr =
     (let reasonText = treeComplexityReason treeArr in
      if reasonText \<noteq> [] then reasonText
      else
        let symlinkObj = fold (\<lambda>e. add_sample (ol_Quote L (clipSample (te_Path e))))
                           (filter (\<lambda>e. te_Mode e \<noteq> ModeFile) treeArr) no_samples;
            filesArr = map (\<lambda>e. (te_Path e, te_SizeBytes e)) (filter (\<lambda>e. te_Mode e = ModeFile) treeArr);
            (invalidArr, sizeError) = ol_CheckFiles L filesArr goModArr;
            acc = fold (classifyInvalid L) invalidArr (\<lambda>_. no_samples)
        in clipReason (Join ''; ''
             (block_part ''invalid file paths'' (acc BlockedPath) @
              block_part ''case-insensitive path collisions'' (acc BlockedCollision) @
              block_part ''oversized files'' (acc BlockedSize) @
              block_part GoZipUnclassifiedLabel (acc BlockedOther) @
              (case sizeError of None \<Rightarrow> [] | Some t \<Rightarrow> [t]) @
              block_part ''symlinks'' symlinkObj)))"

section \<open>Detectors\<close>

definition goDetect ::
  "overlay_lib \<Rightarrow> ('s, 'e) blob_reader \<Rightarrow> TreeEntryObj list \<Rightarrow> ('s, 'e, CandidateObj option) op" where
  "goDetect L src treeArr =
     (case shallowestEntry treeArr ''go.mod'' of
        None \<Rightarrow> sret None
      | Some entryObj \<Rightarrow>
          if te_Path entryObj \<noteq> ''go.mod'' then sret None
          else
            sbind (readManifest src (te_BlobHash entryObj)) (\<lambda>found.
            case found of None \<Rightarrow> sret None
            | Some dataArr \<Rightarrow>
                let modulePath = ol_ModulePath L dataArr in
                if modulePath = [] then sret None
                else
                  sbind (scanRewriteBlobs src treeArr modulePath) (\<lambda>rewriteArr.
                  sret (Some \<lparr>cd_Ecosystem = EcosystemGo, cd_GoModulePath = modulePath, cd_ComposerName = [],
                    cd_RewriteBlobs = rewriteArr, cd_GoZipBlockReason = goZipBlockReason L treeArr dataArr\<rparr>))))"

definition composerDetect ::
  "overlay_lib \<Rightarrow> ('s, 'e) blob_reader \<Rightarrow> TreeEntryObj list \<Rightarrow> ('s, 'e, CandidateObj option) op" where
  "composerDetect L src treeArr =
     (case shallowestEntry treeArr ''composer.json'' of
        None \<Rightarrow> sret None
      | Some entryObj \<Rightarrow>
          sbind (readManifest src (te_BlobHash entryObj)) (\<lambda>found.
          case found of None \<Rightarrow> sret None
          | Some dataArr \<Rightarrow>
              (case ol_jsonName L dataArr of None \<Rightarrow> sret None
               | Some name \<Rightarrow>
                   let nameText = TrimSpace name in
                   if \<not> validComposerName nameText then sret None
                   else sret (Some \<lparr>cd_Ecosystem = EcosystemComposer, cd_GoModulePath = [], cd_ComposerName = nameText,
                          cd_RewriteBlobs = [], cd_GoZipBlockReason = []\<rparr>))))"

definition buildEvidence :: "overlay_lib \<Rightarrow> CandidateObj option \<Rightarrow> CandidateObj option \<Rightarrow> string" where
  "buildEvidence L goObj composerObj =
     (case ol_Marshal L (case goObj of Some c \<Rightarrow> cd_GoModulePath c | None \<Rightarrow> [])
             (case composerObj of Some c \<Rightarrow> cd_ComposerName c | None \<Rightarrow> []) of
        None \<Rightarrow> ''{}'' | Some t \<Rightarrow> t)"

text \<open>The result of the two detectors that \<open>New\<close> installs.\<close>

definition detection_result :: "overlay_lib \<Rightarrow> CandidateObj option \<Rightarrow> CandidateObj option \<Rightarrow> OverlayResultObj" where
  "detection_result L goObj composerObj =
     (let conflict = (goObj \<noteq> None \<and> composerObj \<noteq> None);
          reason = (case goObj of Some c \<Rightarrow> cd_GoZipBlockReason c | None \<Rightarrow> [])
      in \<lparr>det_Detection = \<lparr>d_IsGo = (goObj \<noteq> None), d_IsComposer = (composerObj \<noteq> None), d_Conflict = conflict,
            d_EvidenceJSON = buildEvidence L goObj composerObj, d_GoZipBlocked = (reason \<noteq> []),
            d_GoZipBlockReason = reason\<rparr>,
          det_RewriteBlobs = (case goObj of Some c \<Rightarrow> if conflict then [] else cd_RewriteBlobs c | None \<Rightarrow> []),
          det_Go = goObj, det_Composer = composerObj\<rparr>)"

definition overlay_Detect ::
  "overlay_lib \<Rightarrow> ('s, 'e) blob_reader \<Rightarrow> TreeEntryObj list \<Rightarrow> ('s, 'e, OverlayResultObj) op" where
  "overlay_Detect L src treeArr =
     sbind (goDetect L src treeArr) (\<lambda>goObj.
     sbind (composerDetect L src treeArr) (\<lambda>composerObj.
     sret (detection_result L goObj composerObj)))"

definition CandidateFromDetection :: "overlay_lib \<Rightarrow> DetectionObj \<Rightarrow> CandidateObj option \<times> CandidateObj option" where
  "CandidateFromDetection L d =
     (let (goModulePath, composerName) = ol_Unmarshal L (d_EvidenceJSON d) in
      (if d_IsGo d \<and> goModulePath \<noteq> []
       then Some \<lparr>cd_Ecosystem = EcosystemGo, cd_GoModulePath = goModulePath, cd_ComposerName = [], cd_RewriteBlobs = [],
              cd_GoZipBlockReason = []\<rparr> else None,
       if d_IsComposer d \<and> composerName \<noteq> []
       then Some \<lparr>cd_Ecosystem = EcosystemComposer, cd_GoModulePath = [], cd_ComposerName = composerName, cd_RewriteBlobs = [],
              cd_GoZipBlockReason = []\<rparr> else None))"

end
