(* ===== verification/Overlay_Build.thy ===== *)
theory Overlay_Build
  imports Overlay_Detect Archive_Write
begin

text \<open>
  What is served of a version: the module path of this host, the gate for Go routes, the plan of artifacts and their
  builders, the file of a \<open>.mod\<close> route, the lists of versions and the names of Composer packages
  (\<open>mod/overlay/materialize.go\<close>, \<open>rewrite.go\<close>, \<open>plan.go\<close>, \<open>gozip.go\<close>, \<open>gorender.go\<close>,
  \<open>universal.go\<close>, \<open>composer.go\<close>, \<open>helper.go\<close>, \<open>degrade.go\<close>). \<open>modzip.Create\<close> is a parameter that
  gets the files.
\<close>

section \<open>Paths of modules and the gate\<close>

record ListenerCtxObj =
  lc_ListenerID :: string
  lc_EntryHost :: string
  lc_RoutePrefix :: string

record overlayObj =
  ov_rewriteEnabled :: bool
  ov_domain :: string
  ov_routingPrefix :: string
  ov_nested :: bool
  ov_maxFileBytes :: u64
  ov_limits :: LimitsObj

definition ListenerContexts :: "string \<Rightarrow> string \<Rightarrow> string \<Rightarrow> ListenerCtxObj list" where
  "ListenerContexts domain routePrefix yggHost =
     \<lparr>lc_ListenerID = ''web'', lc_EntryHost = domain, lc_RoutePrefix = routePrefix\<rparr> #
     (if yggHost \<noteq> [] then [\<lparr>lc_ListenerID = ''ygg'', lc_EntryHost = yggHost, lc_RoutePrefix = routePrefix\<rparr>] else [])"

text \<open>\<open>range\<close> over a string decodes runes; a control character is a single byte in any text.\<close>

definition validRefSegment :: "string \<Rightarrow> bool" where
  "validRefSegment text' =
     (if text' = [] \<or> length text' > 256 then False
      else if text' = ''.'' \<or> text' = ''..'' \<or> slash \<in> set text' \<or> CHR 0x5C \<in> set text' then False
      else (\<forall>c \<in> set text'. \<not> (code_of c < 32 \<or> code_of c = 127)))"

definition targetModulePath :: "overlay_lib \<Rightarrow> overlayObj \<Rightarrow> string \<Rightarrow> string \<Rightarrow> ListenerCtxObj \<Rightarrow> string" where
  "targetModulePath L obj key version lc =
     (let host = (if lc_EntryHost lc \<noteq> [] then lc_EntryHost lc else ov_domain obj);
          base = (if ov_nested obj \<and> ov_routingPrefix obj \<noteq> [] then host @ ''/'' @ ov_routingPrefix obj @ ''/'' @ key
                  else host @ ''/'' @ key);
          major = ol_Major L version
      in if major \<noteq> [] \<and> major \<noteq> ''v0'' \<and> major \<noteq> ''v1'' then base @ ''/'' @ major else base)"

record rewritePlanObj =
  rp_OldArr :: bytes
  rp_NewArr :: bytes
  rp_Rewrite :: bool

definition rewritePlan ::
  "overlay_lib \<Rightarrow> overlayObj \<Rightarrow> string \<Rightarrow> string \<Rightarrow> DetectionObj \<Rightarrow> CandidateObj option \<Rightarrow> ListenerCtxObj \<Rightarrow> rewritePlanObj" where
  "rewritePlan L obj key version d candidate lc =
     (let none = \<lparr>rp_OldArr = [], rp_NewArr = [], rp_Rewrite = False\<rparr> in
      case candidate of None \<Rightarrow> none
      | Some c \<Rightarrow>
          if \<not> ov_rewriteEnabled obj \<or> \<not> d_IsGo d \<or> d_Conflict d then none
          else let targetPath = targetModulePath L obj key version lc in
            if targetPath = [] \<or> targetPath = cd_GoModulePath c then none
            else \<lparr>rp_OldArr = cd_GoModulePath c, rp_NewArr = targetPath, rp_Rewrite = True\<rparr>)"

definition GoPublishable ::
  "semver_api \<Rightarrow> overlay_lib \<Rightarrow> overlayObj \<Rightarrow> string \<Rightarrow> string \<Rightarrow> DetectionObj \<Rightarrow> CandidateObj option \<Rightarrow> ListenerCtxObj \<Rightarrow> bool" where
  "GoPublishable sv L obj key version d candidate lc =
     (case candidate of None \<Rightarrow> False
      | Some c \<Rightarrow>
          if \<not> d_IsGo d \<or> d_Conflict d then False
          else if d_GoZipBlocked d then False
          else if \<not> IsCanonicalSemver sv version then False
          else let targetPath = targetModulePath L obj key version lc in
            if \<not> ol_Check L targetPath version then False
            else if targetPath = cd_GoModulePath c then True
            else ov_rewriteEnabled obj)"

section \<open>Files of a Go module archive (gozip.go)\<close>

definition cRewriteCacheBudgetFallback :: u64 where "cRewriteCacheBudgetFallback = 64 * 2 ^ 20"
definition cMaxCachedRewriteBytes :: nat where "cMaxCachedRewriteBytes = 4 * 2 ^ 20"

record rewriteCacheObj =
  rw_entryMap :: "(HashObj \<times> bytes) list"
  rw_usedBytes :: u64
  rw_budget :: u64

definition newRewriteCache :: "u64 \<Rightarrow> rewriteCacheObj" where
  "newRewriteCache budget =
     \<lparr>rw_entryMap = [], rw_usedBytes = 0, rw_budget = (if budget = 0 then cRewriteCacheBudgetFallback else budget)\<rparr>"

definition rw_get :: "rewriteCacheObj \<Rightarrow> HashObj \<Rightarrow> bytes option" where
  "rw_get c h = map_of (rw_entryMap c) h"

definition rw_fits :: "rewriteCacheObj \<Rightarrow> nat \<Rightarrow> bool" where
  "rw_fits c n \<longleftrightarrow> rw_usedBytes c + of_nat n \<le> rw_budget c"

definition rw_put :: "HashObj \<Rightarrow> bytes \<Rightarrow> rewriteCacheObj \<Rightarrow> rewriteCacheObj" where
  "rw_put h dataArr c =
     (if rw_get c h \<noteq> None then c
      else if \<not> rw_fits c (length dataArr) then c
      else c\<lparr>rw_entryMap := (h, dataArr) # rw_entryMap c, rw_usedBytes := rw_usedBytes c + of_nat (length dataArr)\<rparr>)"

text \<open>The files of one archive share the set and the two paths; \<open>Build\<close> always gives them a cache, which is part of
  the state here.\<close>

record goFilesObj =
  gf_rewriteSet :: "HashObj set"
  gf_oldArr :: bytes
  gf_newArr :: bytes

definition goFile_content ::
  "('s, 'e) blob_reader \<Rightarrow> goFilesObj \<Rightarrow> TreeEntryObj \<Rightarrow> (rewriteCacheObj \<times> 's, 'e, bytes) op" where
  "goFile_content src g entry cs =
     (case cs of (c, s) \<Rightarrow>
        if te_BlobHash entry \<in> gf_rewriteSet g then
          (case rw_get c (te_BlobHash entry) of
             Some cachedArr \<Rightarrow> (Inr cachedArr, (c, s))
           | None \<Rightarrow>
               (case src (te_BlobHash entry) s of
                  (Inl e, s') \<Rightarrow> (Inl e, (c, s'))
                | (Inr dataArr, s') \<Rightarrow> (Inr (rewriteContent dataArr (gf_oldArr g) (gf_newArr g)), (c, s'))))
        else (case src (te_BlobHash entry) s of (r, s') \<Rightarrow> (r, (c, s'))))"

text \<open>The size that \<open>Lstat\<close> reports, a signed number.\<close>

definition goFile_Lstat ::
  "('s, 'e) blob_reader \<Rightarrow> goFilesObj \<Rightarrow> TreeEntryObj \<Rightarrow> (rewriteCacheObj \<times> 's, 'e, int) op" where
  "goFile_Lstat src g entry cs =
     (case cs of (c, s) \<Rightarrow>
        if te_BlobHash entry \<in> gf_rewriteSet g then
          (case rw_get c (te_BlobHash entry) of
             Some cachedArr \<Rightarrow> (Inr (int (length cachedArr)), (c, s))
           | None \<Rightarrow>
               (case src (te_BlobHash entry) s of
                  (Inl e, s') \<Rightarrow> (Inl e, (c, s'))
                | (Inr dataArr, s') \<Rightarrow>
                    let postSize = rewrittenSize dataArr (gf_oldArr g) (gf_newArr g);
                        c' = (if postSize \<le> int cMaxCachedRewriteBytes \<and> rw_fits c (nat postSize)
                              then rw_put (te_BlobHash entry) (rewriteContent dataArr (gf_oldArr g) (gf_newArr g)) c else c)
                    in (Inr postSize, (c', s'))))
        else (Inr (sint (te_SizeBytes entry)), (c, s)))"

text \<open>A sequence of accesses to the files of one archive, \<open>True\<close> for \<open>Open\<close> and \<open>False\<close> for \<open>Lstat\<close>.\<close>

fun zip_run ::
  "('s, 'e) blob_reader \<Rightarrow> goFilesObj \<Rightarrow> (bool \<times> TreeEntryObj) list \<Rightarrow> (rewriteCacheObj \<times> 's, 'e, (bytes + int) list) op" where
  "zip_run src g [] = sret []"
| "zip_run src g ((openFlag, e) # as) =
     sbind (if openFlag then sbind (goFile_content src g e) (\<lambda>d. sret (Inl d))
            else sbind (goFile_Lstat src g e) (\<lambda>n. sret (Inr n))) (\<lambda>res.
     sbind (zip_run src g as) (\<lambda>out. sret (res # out)))"

datatype 'e overlay_error =
  SymlinkInGoModule | ManifestMissing | ManifestTooLarge | RewrittenFileTooLarge | InvalidArtifactRef | InvalidGoVersion
| OtherError 'e

definition DegradedReason :: "'e overlay_error option \<Rightarrow> string \<times> bool" where
  "DegradedReason err =
     (case err of
        None \<Rightarrow> ([], False)
      | Some SymlinkInGoModule \<Rightarrow> (''go_symlink_in_module'', True)
      | Some ManifestMissing \<Rightarrow> (''go_manifest_missing'', True)
      | Some ManifestTooLarge \<Rightarrow> (''go_manifest_too_large'', True)
      | Some RewrittenFileTooLarge \<Rightarrow> (''rewritten_file_too_large'', True)
      | Some InvalidArtifactRef \<Rightarrow> (''invalid_artifact_ref'', True)
      | Some InvalidGoVersion \<Rightarrow> (''invalid_go_version'', True)
      | Some (OtherError e) \<Rightarrow> (''materialization_error'', True))"

definition other :: "('s, 'e, 'a) op \<Rightarrow> ('s, 'e overlay_error, 'a) op" where
  "other m s = (case m s of (r, s') \<Rightarrow> (map_err OtherError r, s'))"

type_synonym ('s, 'e) tree_reader = "HashObj \<Rightarrow> ('s, 'e, TreeEntryObj list) op"

record goZipBuilderObj =
  gz_modulePath :: string
  gz_version :: string
  gz_treeHash :: HashObj
  gz_files :: goFilesObj
  gz_maxFileBytes :: u64

text \<open>\<open>create\<close> is \<open>modzip.Create\<close> on the module, the entries behind the files, and what they share; it starts with
  the fresh cache.\<close>

definition goZip_Build ::
  "(string \<Rightarrow> string \<Rightarrow> goFilesObj \<Rightarrow> TreeEntryObj list \<Rightarrow> (rewriteCacheObj \<times> 's, 'e, 'z) op) \<Rightarrow>
   ('s, 'e) tree_reader \<Rightarrow> goZipBuilderObj \<Rightarrow> ('s, 'e overlay_error, 'z) op" where
  "goZip_Build create tree b =
     (if \<not> validRefSegment (gz_version b) then sfail InvalidGoVersion
      else
        sbind (other (tree (gz_treeHash b))) (\<lambda>entriesArr.
        if \<exists>e \<in> set entriesArr. te_Mode e \<noteq> ModeFile then sfail SymlinkInGoModule
        else other (\<lambda>s. case create (gz_modulePath b) (gz_version b) (gz_files b) entriesArr (newRewriteCache (gz_maxFileBytes b), s) of
               (r, (_, s')) \<Rightarrow> (r, s'))))"

definition GoModuleZipBuilder ::
  "overlay_lib \<Rightarrow> overlayObj \<Rightarrow> string \<Rightarrow> string \<Rightarrow> HashObj \<Rightarrow> DetectionObj \<Rightarrow> CandidateObj option \<Rightarrow> HashObj list \<Rightarrow>
   ListenerCtxObj \<Rightarrow> goZipBuilderObj" where
  "GoModuleZipBuilder L obj key version treeHash d candidate rewriteArr lc =
     (let plan = rewritePlan L obj key version d candidate lc in
      \<lparr>gz_modulePath = targetModulePath L obj key version lc, gz_version = version, gz_treeHash = treeHash,
        gz_files = (if rp_Rewrite plan
                    then \<lparr>gf_rewriteSet = set rewriteArr, gf_oldArr = rp_OldArr plan, gf_newArr = rp_NewArr plan\<rparr>
                    else \<lparr>gf_rewriteSet = {}, gf_oldArr = [], gf_newArr = []\<rparr>),
        gz_maxFileBytes = ov_maxFileBytes obj\<rparr>)"

definition RenderGoMod ::
  "overlay_lib \<Rightarrow> overlayObj \<Rightarrow> ('s, 'e) tree_reader \<Rightarrow> ('s, 'e) blob_reader \<Rightarrow> string \<Rightarrow> string \<Rightarrow> HashObj \<Rightarrow> DetectionObj \<Rightarrow>
   CandidateObj option \<Rightarrow> ListenerCtxObj \<Rightarrow> ('s, 'e overlay_error, bytes) op" where
  "RenderGoMod L obj tree src key version treeHash d candidate lc =
     sbind (other (tree treeHash)) (\<lambda>entriesArr.
     case shallowestEntry entriesArr ''go.mod'' of
       None \<Rightarrow> sfail ManifestMissing
     | Some entryObj \<Rightarrow>
         sbind (other (readManifest src (te_BlobHash entryObj))) (\<lambda>found.
         case found of None \<Rightarrow> sfail ManifestTooLarge
         | Some dataArr \<Rightarrow>
             let plan = rewritePlan L obj key version d candidate lc in
             sret (if rp_Rewrite plan then rewriteContent dataArr (rp_OldArr plan) (rp_NewArr plan) else dataArr)))"

section \<open>Universal archives and the plan\<close>

definition universalTopDir :: "string \<Rightarrow> string \<Rightarrow> string" where
  "universalTopDir key version = key @ ''-'' @ version"

record universalRawBuilderObj =
  un_format :: string
  un_treeHash :: HashObj
  un_key :: string
  un_version :: string

text \<open>\<open>write\<close> is the writer of \<open>Archive_Write\<close> on the storage as the source of blobs.\<close>

definition universal_Build ::
  "(string \<Rightarrow> TreeEntryObj list \<Rightarrow> ('s, 'e, 'z) op) \<Rightarrow> ('s, 'e) tree_reader \<Rightarrow> universalRawBuilderObj \<Rightarrow>
   ('s, 'e overlay_error, 'z) op" where
  "universal_Build write tree b =
     (if \<not> validRefSegment (un_key b) \<or> \<not> validRefSegment (un_version b) then sfail InvalidArtifactRef
      else
        sbind (other (tree (un_treeHash b))) (\<lambda>entriesArr.
        other (write (un_format b)
          (map (\<lambda>e. e\<lparr>te_Path := universalTopDir (un_key b) (un_version b) @ ''/'' @ te_Path e\<rparr>) entriesArr))))"

datatype artifactBuilder = UniversalBuilder universalRawBuilderObj | GoZipBuilder goZipBuilderObj

text \<open>The rescan uses the identity of a planned artifact and the digest of what its builder writes.\<close>

record OverlayPlanObj = ArtifactPlanObj +
  pl_Builder :: artifactBuilder

definition GoZipFormatVersion :: u32 where "GoZipFormatVersion = 2"
definition UniversalZipFormatVersion :: u32 where "UniversalZipFormatVersion = 2"
definition UniversalTarGzFormatVersion :: u32 where "UniversalTarGzFormatVersion = 2"

definition universalFormatArr :: "(string \<times> u32) list" where
  "universalFormatArr = [(''zip'', UniversalZipFormatVersion), (''tar.gz'', UniversalTarGzFormatVersion)]"

definition universalPlan :: "string \<Rightarrow> string \<Rightarrow> HashObj \<Rightarrow> string \<Rightarrow> u32 \<Rightarrow> OverlayPlanObj" where
  "universalPlan key version treeHash fmt formatVersion =
     \<lparr>pl_MaterializerID = ''universal'', pl_ArtifactKind = fmt, pl_ListenerID = ''global'', pl_FormatVersion = formatVersion,
      pl_Builder = UniversalBuilder \<lparr>un_format = fmt, un_treeHash = treeHash, un_key = key, un_version = version\<rparr>\<rparr>"

definition ArtifactPlan ::
  "semver_api \<Rightarrow> overlay_lib \<Rightarrow> overlayObj \<Rightarrow> string \<Rightarrow> string \<Rightarrow> HashObj \<Rightarrow> DetectionObj \<Rightarrow> CandidateObj option \<Rightarrow>
   HashObj list \<Rightarrow> ListenerCtxObj list \<Rightarrow> OverlayPlanObj list" where
  "ArtifactPlan sv L obj key version treeHash d candidate rewriteArr listenerArr =
     map (\<lambda>(fmt, formatVersion). universalPlan key version treeHash fmt formatVersion) universalFormatArr @
     map (\<lambda>lc. \<lparr>pl_MaterializerID = ''go'', pl_ArtifactKind = ''zip'', pl_ListenerID = lc_ListenerID lc,
            pl_FormatVersion = GoZipFormatVersion,
            pl_Builder = GoZipBuilder (GoModuleZipBuilder L obj key version treeHash d candidate rewriteArr lc)\<rparr>)
       (filter (\<lambda>lc. GoPublishable sv L obj key version d candidate lc) listenerArr)"

section \<open>Lists of versions and of packages\<close>

text \<open>\<open>sort.SliceStable\<close>: a stable insertion, for an order in which elements are never before themselves.\<close>

fun insert_stable :: "('a \<Rightarrow> 'a \<Rightarrow> bool) \<Rightarrow> 'a \<Rightarrow> 'a list \<Rightarrow> 'a list" where
  "insert_stable lt x [] = [x]"
| "insert_stable lt x (y # ys) = (if lt y x then y # insert_stable lt x ys else x # y # ys)"

definition SliceStable :: "('a \<Rightarrow> 'a \<Rightarrow> bool) \<Rightarrow> 'a list \<Rightarrow> 'a list" where
  "SliceStable lt xs = foldr (insert_stable lt) xs []"

definition semver_desc :: "semver_api \<Rightarrow> string \<Rightarrow> string \<Rightarrow> bool" where
  "semver_desc sv a b = (case CompareSemver sv a b of Inl _ \<Rightarrow> b < a | Inr compareValue \<Rightarrow> compareValue > 0)"

definition sortSemverDesc :: "semver_api \<Rightarrow> string list \<Rightarrow> string list" where
  "sortSemverDesc sv versionArr = SliceStable (semver_desc sv) versionArr"

definition RenderGoVersionList :: "semver_api \<Rightarrow> string list \<Rightarrow> bytes" where
  "RenderGoVersionList sv versionArr = concat (map (\<lambda>v. v @ [ch 10]) (sortSemverDesc sv versionArr))"

definition composerNormalize :: "string \<Rightarrow> string" where
  "composerNormalize version =
     (let t = TrimPrefix version ''v'';
          mainText = takeWhile (\<lambda>c. c \<noteq> CHR ''-'' \<and> c \<noteq> CHR ''+'') t;
          suffixText = dropWhile (\<lambda>c. c \<noteq> CHR ''-'' \<and> c \<noteq> CHR ''+'') t;
          partsArr = SplitByte (CHR ''.'') mainText;
          padded = partsArr @ replicate (4 - length partsArr) ''0''
      in JoinByte (CHR ''.'') (take 4 padded) @ suffixText)"

record ComposerCollisionObj =
  cc_Name :: string
  cc_Key :: string
  cc_ConflictingKey :: string

fun resolve_from ::
  "(string \<times> string) list \<Rightarrow> (string \<times> string) list \<Rightarrow> ComposerCollisionObj list \<Rightarrow> string list \<Rightarrow>
   (string \<times> string) list \<times> ComposerCollisionObj list" where
  "resolve_from nameByKey owners collisions [] = (owners, collisions)"
| "resolve_from nameByKey owners collisions (k # ks) =
     (let nameText = (case map_of nameByKey k of Some n \<Rightarrow> n | None \<Rightarrow> []) in
      case map_of owners nameText of
        Some existingKey \<Rightarrow>
          resolve_from nameByKey owners
            (collisions @ [\<lparr>cc_Name = nameText, cc_Key = k, cc_ConflictingKey = existingKey\<rparr>]) ks
      | None \<Rightarrow> resolve_from nameByKey ((nameText, k) # owners) collisions ks)"

text \<open>A map from keys to names, with every key once.\<close>

definition ResolveComposerNames ::
  "(string \<times> string) list \<Rightarrow> string list \<times> (string \<times> string) list \<times> ComposerCollisionObj list" where
  "ResolveComposerNames nameByKey =
     (let (owners, collisions) = resolve_from nameByKey [] [] (sort (map fst nameByKey))
      in (sort (map fst owners), owners, collisions))"

end
