(* ===== verification/Overlay_Theorems.thy ===== *)
theory Overlay_Theorems
  imports Overlay_Build Store_Content
begin

text \<open>
  What the overlay promises. A locale states what it needs of a source of blobs: what is read is the
  content of the state, and reading changes no content; the storage provides it. Then: which blobs are
  rewritten, what the files of an archive deliver, which versions have Go routes, why a tree is blocked,
  which key owns the name of a package.
\<close>

section \<open>The source of blobs\<close>

locale blob_source =
  fixes src :: "HashObj \<Rightarrow> ('s, 'e, bytes) op" and content :: "'s \<Rightarrow> HashObj \<Rightarrow> bytes option"
  assumes src_Inr: "src h s = (Inr d, s') \<Longrightarrow> content s h = Some d"
    and src_keeps: "src h s = (r, s') \<Longrightarrow> content s' = content s"
begin

lemma scan_from_Inr:
  assumes "scan_from src modulePath scanned matched es s = (Inr m, s')" "distinct matched" "set matched \<subseteq> set scanned"
  shows "content s' = content s \<and> distinct m \<and>
    set m = set matched \<union> {te_BlobHash e | e d. e \<in> set es \<and> te_Mode e = ModeFile \<and> isGoSource (te_Path e) \<and>
      te_BlobHash e \<notin> set scanned \<and> content s (te_BlobHash e) = Some d \<and> containsModulePath d modulePath} \<and>
    (\<forall>e \<in> set es. te_Mode e = ModeFile \<and> isGoSource (te_Path e) \<and> te_BlobHash e \<notin> set scanned \<longrightarrow>
      content s (te_BlobHash e) \<noteq> None)"
  using assms
proof (induction es arbitrary: scanned matched s)
  case Nil
  then show ?case by (simp add: sret_def)
next
  case (Cons e es)
  let ?h = "te_BlobHash e"
  show ?case
  proof (cases "te_Mode e \<noteq> ModeFile \<or> \<not> isGoSource (te_Path e) \<or> ?h \<in> set scanned")
    case True
    then have run: "scan_from src modulePath scanned matched es s = (Inr m, s')" using Cons.prems(1) by (auto split: if_splits)
    show ?thesis using Cons.IH [OF run Cons.prems(2,3)] True by auto
  next
    case False
    let ?m1 = "\<lambda>d. if containsModulePath d modulePath then ?h # matched else matched"
    from Cons.prems(1) False obtain d s1 where r: "src ?h s = (Inr d, s1)"
      and run: "scan_from src modulePath (?h # scanned) (?m1 d) es s1 = (Inr m, s')"
      by (auto simp: op_Inr)
    have c: "content s ?h = Some d" "content s1 = content s" using src_Inr [OF r] src_keeps [OF r] by auto
    have "distinct (?m1 d)" "set (?m1 d) \<subseteq> set (?h # scanned)" using Cons.prems(2,3) False by auto
    from Cons.IH [OF run this] show ?thesis unfolding c(2) using False c(1)
      by (auto split: if_splits)
  qed
qed

lemma scanRewriteBlobs_Inr:
  assumes "scanRewriteBlobs src tree modulePath s = (Inr rw, s')"
  shows "content s' = content s \<and> sorted rw \<and> distinct rw \<and>
    set rw = {te_BlobHash e | e d. e \<in> set tree \<and> te_Mode e = ModeFile \<and> isGoSource (te_Path e) \<and>
      content s (te_BlobHash e) = Some d \<and> containsModulePath d modulePath} \<and>
    (\<forall>e \<in> set tree. te_Mode e = ModeFile \<and> isGoSource (te_Path e) \<longrightarrow> content s (te_BlobHash e) \<noteq> None)"
proof -
  obtain m where m: "scan_from src modulePath [] [] tree s = (Inr m, s')" and rw: "rw = sort m"
    using assms unfolding scanRewriteBlobs_def by (auto simp: op_Inr)
  show ?thesis using scan_from_Inr [OF m] unfolding rw by simp
qed

text \<open>What the file of an archive has to deliver.\<close>

definition delivered :: "goFilesObj \<Rightarrow> 's \<Rightarrow> HashObj \<Rightarrow> bytes option" where
  "delivered g s h =
     map_option (\<lambda>b. if h \<in> gf_rewriteSet g then rewriteContent b (gf_oldArr g) (gf_newArr g) else b) (content s h)"

definition rw_cache_ok :: "goFilesObj \<Rightarrow> 's \<Rightarrow> rewriteCacheObj \<Rightarrow> bool" where
  "rw_cache_ok g s c \<longleftrightarrow> distinct (map fst (rw_entryMap c)) \<and>
     (\<forall>(h, d) \<in> set (rw_entryMap c). h \<in> gf_rewriteSet g \<and> delivered g s h = Some d) \<and>
     rw_usedBytes c \<le> rw_budget c \<and>
     (rw_budget c < 2 ^ 63 \<longrightarrow> unat (rw_usedBytes c) = sum_list (map (length \<circ> snd) (rw_entryMap c)))"

lemma rw_cache_ok_new: "rw_cache_ok g s (newRewriteCache budget)"
  by (simp add: rw_cache_ok_def newRewriteCache_def)

lemma content_Inr:
  assumes "goFile_content src g e (c, s) = (Inr d, cs')" "rw_cache_ok g s c"
  shows "delivered g s (te_BlobHash e) = Some d \<and> fst cs' = c \<and> content (snd cs') = content s"
proof (cases "te_BlobHash e \<in> gf_rewriteSet g")
  case False
  then show ?thesis using assms(1)
    by (auto simp: goFile_content_def delivered_def split: prod.splits dest: src_Inr src_keeps)
next
  case True
  then show ?thesis
  proof (cases "rw_get c (te_BlobHash e)")
    case None
    then show ?thesis using assms(1) True
      by (auto simp: goFile_content_def delivered_def split: prod.splits sum.splits dest: src_Inr src_keeps)
  next
    case (Some d')
    then show ?thesis using assms True
      by (auto simp: goFile_content_def rw_cache_ok_def rw_get_def dest: map_of_SomeD)
  qed
qed

lemma Lstat_Inr:
  assumes "goFile_Lstat src g e (c, s) = (Inr n, (c', s'))" "rw_cache_ok g s c"
  shows "(if te_BlobHash e \<in> gf_rewriteSet g then \<exists>d. delivered g s (te_BlobHash e) = Some d \<and> n = int (length d)
          else n = sint (te_SizeBytes e)) \<and> rw_cache_ok g s c' \<and> content s' = content s"
proof (cases "te_BlobHash e \<in> gf_rewriteSet g")
  case False
  then show ?thesis using assms by (simp add: goFile_Lstat_def)
next
  case in_set: True
  let ?h = "te_BlobHash e"
  show ?thesis
  proof (cases "rw_get c ?h")
    case (Some d)
    then have "delivered g s ?h = Some d" using assms(2) by (auto simp: rw_cache_ok_def rw_get_def dest: map_of_SomeD)
    then show ?thesis using Some assms in_set by (auto simp: goFile_Lstat_def)
  next
    case None
    then obtain b where r: "src ?h s = (Inr b, s')" and n: "n = rewrittenSize b (gf_oldArr g) (gf_newArr g)"
      and c': "c' = (if n \<le> int cMaxCachedRewriteBytes \<and> rw_fits c (nat n)
                     then rw_put ?h (rewriteContent b (gf_oldArr g) (gf_newArr g)) c else c)"
      using assms(1) in_set by (auto simp: goFile_Lstat_def Let_def split: prod.splits sum.splits)
    let ?d = "rewriteContent b (gf_oldArr g) (gf_newArr g)"
    have d: "delivered g s ?h = Some ?d" using src_Inr [OF r] in_set by (simp add: delivered_def)
    have len: "n = int (length ?d)" unfolding n by (rule rewrittenSize_length)
    have "rw_cache_ok g s c'"
    proof (cases "n \<le> int cMaxCachedRewriteBytes \<and> rw_fits c (nat n)")
      case True
      then have small: "length ?d \<le> 2 ^ 22" by (simp add: len cMaxCachedRewriteBytes_def)
      have fits: "rw_usedBytes c + of_nat (length ?d) \<le> rw_budget c" using True by (simp add: len rw_fits_def)
      have put: "c' = c\<lparr>rw_entryMap := (?h, ?d) # rw_entryMap c, rw_usedBytes := rw_usedBytes c + of_nat (length ?d)\<rparr>"
        using True None by (simp add: c' rw_put_def len)
      have "unat (rw_usedBytes c + of_nat (length ?d)) = unat (rw_usedBytes c) + length ?d" if b: "rw_budget c < 2 ^ 63"
      proof -
        have "unat (rw_usedBytes c) < 2 ^ 63"
          using assms(2) b unfolding rw_cache_ok_def word_le_nat_alt word_less_nat_alt by simp
        moreover have "unat (of_nat (length ?d) :: u64) = length ?d" using small by (simp add: unat_of_nat take_bit_nat_eq_self)
        ultimately show ?thesis using small by (simp add: unat_word_ariths)
      qed
      moreover have "?h \<notin> fst ` set (rw_entryMap c)" using None by (simp add: rw_get_def map_of_eq_None_iff)
      ultimately show ?thesis using assms(2) fits d in_set unfolding put by (simp add: rw_cache_ok_def)
    next
      case False
      then have "c' = c" by (simp only: c' if_False)
      then show ?thesis using assms(2) by simp
    qed
    then show ?thesis using d len in_set src_keeps [OF r] by auto
  qed
qed

text \<open>What an access to a file of an archive may answer: the content, or the size of it.\<close>

definition answer_ok :: "goFilesObj \<Rightarrow> 's \<Rightarrow> bool \<times> TreeEntryObj \<Rightarrow> bytes + int \<Rightarrow> bool" where
  "answer_ok g s a res =
     (case (a, res) of
        ((True, e), Inl d) \<Rightarrow> delivered g s (te_BlobHash e) = Some d
      | ((False, e), Inr n) \<Rightarrow>
          (if te_BlobHash e \<in> gf_rewriteSet g then map_option (int \<circ> length) (delivered g s (te_BlobHash e)) = Some n
           else n = sint (te_SizeBytes e))
      | _ \<Rightarrow> False)"

lemma delivered_cong: "content s' = content s \<Longrightarrow> delivered g s' = delivered g s"
  by (simp add: delivered_def fun_eq_iff)

lemma rw_cache_ok_cong: "content s' = content s \<Longrightarrow> rw_cache_ok g s' c = rw_cache_ok g s c"
proof -
  assume "content s' = content s"
  then have e: "delivered g s' = delivered g s" by (rule delivered_cong)
  show ?thesis unfolding rw_cache_ok_def e ..
qed

lemma same_answers: "content s' = content s \<Longrightarrow> answer_ok g s' = answer_ok g s"
proof -
  assume "content s' = content s"
  then have e: "delivered g s' = delivered g s" by (rule delivered_cong)
  show ?thesis unfolding answer_ok_def [abs_def] e ..
qed

lemma accesses_answered:
  assumes "zip_run src g as (c, s) = (Inr out, (c', s'))" "rw_cache_ok g s c"
  shows "list_all2 (answer_ok g s) as out \<and> rw_cache_ok g s c'"
  using assms
proof (induction as arbitrary: c s out)
  case Nil
  then show ?case by (simp add: sret_def)
next
  case (Cons a as)
  obtain openFlag e where a: "a = (openFlag, e)" by (cases a)
  show ?case
  proof (cases openFlag)
    case True
    from Cons.prems(1) obtain d c1 s1 out1 where f: "goFile_content src g e (c, s) = (Inr d, (c1, s1))"
      and run: "zip_run src g as (c1, s1) = (Inr out1, (c', s'))" and out: "out = Inl d # out1"
      unfolding a using True by (auto simp: op_Inr)
    note fact = content_Inr [OF f Cons.prems(2), simplified]
    have "rw_cache_ok g s1 c1" using fact Cons.prems(2) rw_cache_ok_cong [of s1 s g c1] by simp
    from Cons.IH [OF run this] have "list_all2 (answer_ok g s1) as out1 \<and> rw_cache_ok g s1 c'" .
    moreover have "answer_ok g s (openFlag, e) (Inl d)" using fact True by (simp add: answer_ok_def)
    ultimately show ?thesis
      using fact rw_cache_ok_cong [of s1 s g c'] same_answers [of s1 s g] unfolding out a by simp
  next
    case False
    from Cons.prems(1) obtain n c1 s1 out1 where f: "goFile_Lstat src g e (c, s) = (Inr n, (c1, s1))"
      and run: "zip_run src g as (c1, s1) = (Inr out1, (c', s'))" and out: "out = Inr n # out1"
      unfolding a using False by (auto simp: op_Inr)
    note fact = Lstat_Inr [OF f Cons.prems(2)]
    have "rw_cache_ok g s1 c1" using fact rw_cache_ok_cong [of s1 s g c1] by simp
    from Cons.IH [OF run this] have "list_all2 (answer_ok g s1) as out1 \<and> rw_cache_ok g s1 c'" .
    moreover have "answer_ok g s (openFlag, e) (Inr n)" using fact False by (auto simp: answer_ok_def split: if_splits)
    ultimately show ?thesis
      using fact rw_cache_ok_cong [of s1 s g c'] same_answers [of s1 s g] unfolding out a by simp
  qed
qed

end

text \<open>The storage is such a source, verifying or not.\<close>

interpretation stored: blob_source "ReadBlob E verifyFlag" "\<lambda>st h. map_of (st_pb st) (blobKey h)"
  for E verifyFlag
proof
  show "ReadBlob E verifyFlag h s = (Inr d, s') \<Longrightarrow> map_of (st_pb s) (blobKey h) = Some d" for h s d s'
    using ReadBlob_facts by blast
  show "ReadBlob E verifyFlag h s = (r, s') \<Longrightarrow> (\<lambda>h. map_of (st_pb s') (blobKey h)) = (\<lambda>h. map_of (st_pb s) (blobKey h))" for h s r s'
    using ReadBlob_facts [of E verifyFlag h s r s'] by (simp add: same_def)
qed

section \<open>Blocked trees\<close>

lemma Join_empty: "[] \<notin> set ss \<Longrightarrow> Join sep ss = [] \<longleftrightarrow> ss = []"
  by (induction sep ss rule: Join.induct) auto

lemma block_part_facts: "block_part t s = [] \<longleftrightarrow> bs_count s = 0" "[] \<notin> set (block_part t s)"
  by (simp_all add: block_part_def)

lemma cut_back_le: "cut_back s n \<le> n"
  by (induction n) auto

lemma clipReason_facts: "length (clipReason s) \<le> cMaxBlockReasonBytes" "clipReason s = [] \<longleftrightarrow> s = []"
  using cut_back_le [of s "cMaxBlockReasonBytes - length ''...''"]
  by (auto simp: clipReason_def cMaxBlockReasonBytes_def)

lemma samples_count: "bs_count (fold (\<lambda>e. add_sample (f e)) es s) = bs_count s + length es"
  by (induction es arbitrary: s) (simp_all add: add_sample_def)

lemma classes_count:
  "bs_count (fold (classifyInvalid L) fs acc k) = bs_count (acc k) + length (filter (\<lambda>fe. class_of fe = k) fs)"
  by (induction fs arbitrary: acc) (simp_all add: classifyInvalid_def add_sample_def)

text \<open>The list of parts, and when it is empty.\<close>

lemma block_reason_empty:
  assumes "ol_CheckFiles L (map (\<lambda>e. (te_Path e, te_SizeBytes e)) (filter (\<lambda>e. te_Mode e = ModeFile) treeArr)) goModArr =
      (invalidArr, sizeError)" and "sizeError \<noteq> Some []"
  shows "goZipBlockReason L treeArr goModArr = [] \<longleftrightarrow>
    treeComplexityReason treeArr = [] \<and> (\<forall>e \<in> set treeArr. te_Mode e = ModeFile) \<and> invalidArr = [] \<and> sizeError = None"
proof (cases "treeComplexityReason treeArr = []")
  case False
  then show ?thesis by (simp add: goZipBlockReason_def)
next
  case True
  let ?acc = "fold (classifyInvalid L) invalidArr (\<lambda>_. no_samples)"
  let ?sym = "fold (\<lambda>e. add_sample (ol_Quote L (clipSample (te_Path e)))) (filter (\<lambda>e. te_Mode e \<noteq> ModeFile) treeArr) no_samples"
  let ?parts = "block_part ''invalid file paths'' (?acc BlockedPath) @
    block_part ''case-insensitive path collisions'' (?acc BlockedCollision) @
    block_part ''oversized files'' (?acc BlockedSize) @
    block_part GoZipUnclassifiedLabel (?acc BlockedOther) @
    (case sizeError of None \<Rightarrow> [] | Some t \<Rightarrow> [t]) @ block_part ''symlinks'' ?sym"
  have ne: "[] \<notin> set ?parts" using assms(2) block_part_facts(2) by (auto split: option.splits)
  have "goZipBlockReason L treeArr goModArr = clipReason (Join ''; '' ?parts)"
    using True assms(1) by (simp add: goZipBlockReason_def Let_def)
  then have "goZipBlockReason L treeArr goModArr = [] \<longleftrightarrow> ?parts = []"
    by (simp only: clipReason_facts(2) Join_empty [OF ne])
  also have "\<dots> \<longleftrightarrow> (\<forall>k. bs_count (?acc k) = 0) \<and> sizeError = None \<and> bs_count ?sym = 0"
    by (auto simp: block_part_facts(1) split: option.splits) (metis invalidClass.exhaust)
  also have "(\<forall>k. bs_count (?acc k) = 0) \<longleftrightarrow> invalidArr = []"
    unfolding classes_count no_samples_def by (cases invalidArr) (auto simp: filter_empty_conv)
  also have "bs_count ?sym = 0 \<longleftrightarrow> (\<forall>e \<in> set treeArr. te_Mode e = ModeFile)"
    unfolding samples_count by (auto simp: no_samples_def filter_empty_conv)
  finally show ?thesis using True by blast
qed

lemma block_reason_bounded:
  "treeComplexityReason treeArr = [] \<Longrightarrow> length (goZipBlockReason L treeArr goModArr) \<le> cMaxBlockReasonBytes"
  by (auto simp: goZipBlockReason_def clipReason_facts Let_def split: prod.splits)

section \<open>Owners of names\<close>


definition owned ::
  "(string \<times> string) list \<Rightarrow> string set \<Rightarrow> (string \<times> string) list \<Rightarrow> ComposerCollisionObj set \<Rightarrow> bool" where
  "owned nameByKey P owners cs \<longleftrightarrow> distinct (map fst owners) \<and>
     (\<forall>n k. map_of owners n = Some k \<longleftrightarrow>
        k \<in> P \<and> map_of nameByKey k = Some n \<and> (\<forall>k' \<in> P. map_of nameByKey k' = Some n \<longrightarrow> k \<le> k')) \<and>
     cs = {\<lparr>cc_Name = n, cc_Key = k, cc_ConflictingKey = k'\<rparr> | n k k'. k \<in> P \<and> map_of nameByKey k = Some n \<and>
       map_of owners n = Some k' \<and> k' \<noteq> k}"

lemma ownedD:
  assumes "owned nb P owners cs"
  shows "distinct (map fst owners)"
    "map_of owners n = Some k \<longleftrightarrow> k \<in> P \<and> map_of nb k = Some n \<and> (\<forall>k' \<in> P. map_of nb k' = Some n \<longrightarrow> k \<le> k')"
    "cs = {\<lparr>cc_Name = n, cc_Key = k, cc_ConflictingKey = k'\<rparr> | n k k'. k \<in> P \<and> map_of nb k = Some n \<and>
       map_of owners n = Some k' \<and> k' \<noteq> k}"
  using assms unfolding owned_def by (rule conjunct1, blast+)

lemma owned_none:
  assumes "owned nb P owners cs" "map_of owners n = None" "p \<in> P"
  shows "map_of nb p \<noteq> Some n"
proof
  assume p: "map_of nb p = Some n"
  let ?A = "{p \<in> P. map_of nb p = Some n}"
  have fin: "finite ?A" by (rule finite_subset [of _ "dom (map_of nb)"]) (auto simp: finite_dom_map_of)
  have "?A \<noteq> {}" using assms(3) p by blast
  then have "Min ?A \<in> ?A" by (rule Min_in [OF fin])
  moreover have "Min ?A \<le> q" if "q \<in> P" "map_of nb q = Some n" for q using Min_le [OF fin] that by blast
  ultimately have "map_of owners n = Some (Min ?A)" unfolding ownedD(2) [OF assms(1)] by blast
  then show False using assms(2) by simp
qed

lemma owned_collision:
  assumes "owned nb P owners cs" "map_of nb k = Some n" "map_of owners n = Some k'" "\<forall>p \<in> P. p < k"
  shows "owned nb (insert k P) owners (insert \<lparr>cc_Name = n, cc_Key = k, cc_ConflictingKey = k'\<rparr> cs)"
proof -
  have k': "k' \<in> P" "map_of nb k' = Some n" using assms(3) unfolding ownedD(2) [OF assms(1)] by auto
  then have ne: "k' \<noteq> k" "k' < k" using assms(4) by auto
  have own: "map_of owners n2 = Some k2 \<longleftrightarrow> k2 \<in> insert k P \<and> map_of nb k2 = Some n2 \<and>
      (\<forall>p \<in> insert k P. map_of nb p = Some n2 \<longrightarrow> k2 \<le> p)" (is "_ \<longleftrightarrow> ?R") for n2 k2
  proof
    assume "map_of owners n2 = Some k2"
    then show ?R using assms(4) unfolding ownedD(2) [OF assms(1)] by (simp add: order_less_imp_le)
  next
    assume r: ?R
    then have "k2 \<noteq> k" using k' ne assms(2) leD by fastforce
    then show "map_of owners n2 = Some k2" using r unfolding ownedD(2) [OF assms(1)] by simp
  qed
  have "{\<lparr>cc_Name = a, cc_Key = b, cc_ConflictingKey = c\<rparr> | a b c. b \<in> insert k P \<and> map_of nb b = Some a \<and>
       map_of owners a = Some c \<and> c \<noteq> b} = insert \<lparr>cc_Name = n, cc_Key = k, cc_ConflictingKey = k'\<rparr> cs"
    unfolding ownedD(3) [OF assms(1)] using assms(2,3) ne(1) by auto
  then show ?thesis unfolding owned_def using own ownedD(1) [OF assms(1)] by simp
qed

lemma owned_new:
  assumes "owned nb P owners cs" "map_of nb k = Some n" "map_of owners n = None" "\<forall>p \<in> P. p < k"
  shows "owned nb (insert k P) ((n, k) # owners) cs"
proof -
  note none = owned_none [OF assms(1,3)]
  have own: "map_of ((n, k) # owners) n2 = Some k2 \<longleftrightarrow> k2 \<in> insert k P \<and> map_of nb k2 = Some n2 \<and>
      (\<forall>p \<in> insert k P. map_of nb p = Some n2 \<longrightarrow> k2 \<le> p)" (is "_ \<longleftrightarrow> ?R") for n2 k2
  proof (cases "n2 = n")
    case True
    then show ?thesis using none assms(2) by auto
  next
    case False
    then have "map_of ((n, k) # owners) n2 = map_of owners n2" by simp
    moreover have "map_of nb k \<noteq> Some n2" using False assms(2) by simp
    ultimately show ?thesis using ownedD(2) [OF assms(1), of n2 k2] by (simp only: ball_simps insert_iff) blast
  qed
  have "b \<in> insert k P \<and> map_of nb b = Some a \<and> map_of ((n, k) # owners) a = Some c \<and> c \<noteq> b \<longleftrightarrow>
      b \<in> P \<and> map_of nb b = Some a \<and> map_of owners a = Some c \<and> c \<noteq> b" for a b c
    using assms(2,3) none by (cases "a = n") auto
  then have "{\<lparr>cc_Name = a, cc_Key = b, cc_ConflictingKey = c\<rparr> | a b c. b \<in> insert k P \<and> map_of nb b = Some a \<and>
       map_of ((n, k) # owners) a = Some c \<and> c \<noteq> b} = cs"
    unfolding ownedD(3) [OF assms(1)] by (simp only:)
  moreover have "n \<notin> fst ` set owners" using assms(3) by (simp add: map_of_eq_None_iff)
  ultimately show ?thesis unfolding owned_def using own ownedD(1) [OF assms(1)] by simp
qed

lemma resolve_from_owned:
  assumes "resolve_from nb owners cs ks = (owners', cs')" "sorted_wrt (<) ks" "\<forall>p \<in> P. \<forall>k \<in> set ks. p < k"
    and "set ks \<subseteq> dom (map_of nb)" "owned nb P owners (set cs)"
  shows "owned nb (P \<union> set ks) owners' (set cs')"
  using assms
proof (induction ks arbitrary: P owners cs)
  case Nil
  then show ?case by simp
next
  case (Cons k ks)
  obtain n where n: "map_of nb k = Some n" using Cons.prems(4) by auto
  have below: "\<forall>p \<in> insert k P. \<forall>k' \<in> set ks. p < k'" and less: "\<forall>p \<in> P. p < k" using Cons.prems(2,3) by auto
  have sub: "set ks \<subseteq> dom (map_of nb)" "sorted_wrt (<) ks" using Cons.prems(2,4) by auto
  show ?case
  proof (cases "map_of owners n")
    case None
    have run: "resolve_from nb ((n, k) # owners) cs ks = (owners', cs')" using Cons.prems(1) n None by simp
    show ?thesis using Cons.IH [OF run sub(2) below sub(1) owned_new [OF Cons.prems(5) n None less]] by simp
  next
    case (Some k')
    have run: "resolve_from nb owners (cs @ [\<lparr>cc_Name = n, cc_Key = k, cc_ConflictingKey = k'\<rparr>]) ks = (owners', cs')"
      using Cons.prems(1) n Some by simp
    show ?thesis
      using Cons.IH [OF run sub(2) below sub(1)] owned_collision [OF Cons.prems(5) n Some less] by simp
  qed
qed

section \<open>Lists of versions\<close>

lemma insert_stable_mset: "mset (insert_stable lt x xs) = add_mset x (mset xs)"
  by (induction xs) auto

lemma insert_stable_sorted:
  assumes "sorted_wrt (\<lambda>x y. \<not> lt y x) xs" "\<And>y. y \<in> set xs \<Longrightarrow> lt y x \<Longrightarrow> \<not> lt x y"
    and "\<And>y z. y \<in> set xs \<Longrightarrow> z \<in> set xs \<Longrightarrow> \<not> lt y x \<Longrightarrow> \<not> lt z y \<Longrightarrow> \<not> lt z x"
  shows "sorted_wrt (\<lambda>x y. \<not> lt y x) (insert_stable lt x xs)"
  using assms
proof (induction xs)
  case (Cons y ys)
  have set_ins: "set (insert_stable lt x ys) = insert x (set ys)"
    using insert_stable_mset [of lt x ys] by (metis set_mset_add_mset_insert set_mset_mset)
  show ?case
  proof (cases "lt y x")
    case True
    have a: "\<not> lt x z" if "z \<in> set ys" "lt z x" for z by (rule Cons.prems(2)) (use that in simp_all)
    have t: "\<not> lt z x" if "u \<in> set ys" "z \<in> set ys" "\<not> lt u x" "\<not> lt z u" for u z
      by (rule Cons.prems(3) [of u z]) (use that in simp_all)
    have "sorted_wrt (\<lambda>x y. \<not> lt y x) ys" using Cons.prems(1) by simp
    from Cons.IH [OF this a t] have "sorted_wrt (\<lambda>x y. \<not> lt y x) (insert_stable lt x ys)" .
    then show ?thesis using True Cons.prems(1) Cons.prems(2) [of y] by (simp add: set_ins)
  next
    case False
    then show ?thesis using Cons.prems(1) Cons.prems(3) [of y] by simp
  qed
qed simp

lemma SliceStable_mset: "mset (SliceStable lt xs) = mset xs"
  by (induction xs) (simp_all add: SliceStable_def insert_stable_mset)

lemma SliceStable_sorted:
  assumes "\<And>x y. x \<in> set xs \<Longrightarrow> y \<in> set xs \<Longrightarrow> lt y x \<Longrightarrow> \<not> lt x y"
    and "\<And>x y z. x \<in> set xs \<Longrightarrow> y \<in> set xs \<Longrightarrow> z \<in> set xs \<Longrightarrow> \<not> lt y x \<Longrightarrow> \<not> lt z y \<Longrightarrow> \<not> lt z x"
  shows "sorted_wrt (\<lambda>x y. \<not> lt y x) (SliceStable lt xs)"
  using assms
proof (induction xs)
  case Nil
  show ?case by (simp add: SliceStable_def)
next
  case (Cons x xs)
  have s: "set (SliceStable lt xs) = set xs" by (metis SliceStable_mset set_mset_mset)
  have a: "\<not> lt u z" if "u \<in> set (x # xs)" "z \<in> set (x # xs)" "lt z u" for u z by (rule Cons.prems(1) [OF that])
  have t: "\<not> lt z w" if "w \<in> set (x # xs)" "u \<in> set (x # xs)" "z \<in> set (x # xs)" "\<not> lt u w" "\<not> lt z u" for w u z
    by (rule Cons.prems(2) [OF that])
  have srt: "sorted_wrt (\<lambda>x y. \<not> lt y x) (SliceStable lt xs)"
    by (rule Cons.IH; rule a t; simp?)
  have a': "\<not> lt x z" if "z \<in> set (SliceStable lt xs)" "lt z x" for z using a [of x z] that s by simp
  have t': "\<not> lt z x" if "u \<in> set (SliceStable lt xs)" "z \<in> set (SliceStable lt xs)" "\<not> lt u x" "\<not> lt z u" for u z
    using t [of x u z] that s by simp
  from insert_stable_sorted [OF srt a' t'] have "sorted_wrt (\<lambda>x y. \<not> lt y x) (insert_stable lt x (SliceStable lt xs))" .
  then show ?case by (simp add: SliceStable_def)
qed

lemma semver_desc_orders:
  assumes "semver_order sv" "\<forall>v \<in> {a, b, c}. sv_valid sv (canonicalForCompare v)"
  shows "semver_desc sv b a \<Longrightarrow> \<not> semver_desc sv a b"
    "\<not> semver_desc sv b a \<Longrightarrow> \<not> semver_desc sv c b \<Longrightarrow> \<not> semver_desc sv c a"
proof -
  note o = semver_orderD [OF assms(1)]
  have d: "semver_desc sv x y \<longleftrightarrow> sv_compare sv (canonicalForCompare x) (canonicalForCompare y) > 0" if "x \<in> {a, b, c}" "y \<in> {a, b, c}" for x y
    using assms(2) that by (auto simp: semver_desc_def CompareSemver_def Let_def)
  show "semver_desc sv b a \<Longrightarrow> \<not> semver_desc sv a b"
    using o(1) [of "canonicalForCompare b" "canonicalForCompare a"] by (simp add: d)
  show "\<not> semver_desc sv b a \<Longrightarrow> \<not> semver_desc sv c b \<Longrightarrow> \<not> semver_desc sv c a"
    using o(2) [of "canonicalForCompare c" "canonicalForCompare b" "canonicalForCompare a"] by (simp add: d not_less)
qed

end
