(* ===== verification/Overlay_Properties.thy ===== *)
theory Overlay_Properties
  imports Overlay_Theorems Store_Sample
begin

text \<open>
  The properties of the overlay: rewriting is exact, a Go module archive delivers the stored sources with every
  module path rewritten, the names of Composer packages have one owner. Then what the gate for Go routes, the
  reason for a blocked tree and the list of versions promise.
\<close>

text \<open>C23: Rewriting is exact. For a module path of ordinary characters the scan, which skips from match to match,
  replaces the path at exactly the places where it stands as a whole, as the reference does that looks at every
  place; the scan that only measures gives the size of that result; and the scan that selects files finds one exactly
  when there is such a place, so a file it does not select needs no rewriting.\<close>

theorem rewriting_is_exact:
  assumes "path_bytes oldArr"
  shows "rewriteContent d oldArr newArr = (if oldArr = newArr then d else rewrite_ref d oldArr newArr 0) \<and>
    rewrittenSize d oldArr newArr = int (length (rewriteContent d oldArr newArr)) \<and>
    (containsModulePath d oldArr \<or> rewriteContent d oldArr newArr = d) \<and>
    containsModulePath d oldArr = (\<exists>i. module_at d oldArr i)"
proof -
  have ne: "oldArr \<noteq> []" using assms by (simp add: path_bytes_def)
  have c: "containsModulePath d oldArr = (\<exists>i. module_at d oldArr i)" using ne by (simp add: containsModulePath_iff)
  have "rewriteContent d oldArr newArr = d" if "\<not> containsModulePath d oldArr"
    using that ref_end [of 0 d oldArr newArr] by (simp add: c rewriteContent_ref [OF assms])
  then show ?thesis using c rewriteContent_ref [OF assms] rewrittenSize_length by blast
qed

theorem rewriting_is_exact_witness:
  "rewriteContent ''import h/m/x, h/mm'' ''h/m'' ''v/k'' = rewrite_ref ''import h/m/x, h/mm'' ''h/m'' ''v/k'' 0 \<and>
   rewriteContent ''import h/m/x, h/mm'' ''h/m'' ''v/k'' = ''import v/k/x, h/mm''"
proof -
  have "path_bytes ''h/m''" by code_simp
  from rewriting_is_exact [OF this]
  have "rewriteContent ''import h/m/x, h/mm'' ''h/m'' ''v/k'' = rewrite_ref ''import h/m/x, h/mm'' ''h/m'' ''v/k'' 0" by simp
  moreover have "rewriteContent ''import h/m/x, h/mm'' ''h/m'' ''v/k'' = ''import v/k/x, h/mm''" by code_simp
  ultimately show ?thesis by simp
qed

text \<open>What an access to a file of an archive has to give: the stored bytes of the file, with every whole module
  path replaced if it is a Go source or shares its blob with one that was selected; or their number.\<close>

definition faithful_answer ::
  "storeObj \<Rightarrow> HashObj list \<Rightarrow> string \<Rightarrow> string \<Rightarrow> bool \<times> TreeEntryObj \<Rightarrow> bytes + int \<Rightarrow> bool" where
  "faithful_answer st rw oldPath newPath a res =
     (case (a, map_of (st_pb st) (blobKey (te_BlobHash (snd a)))) of
        (_, None) \<Rightarrow> False
      | ((openFlag, e), Some b) \<Rightarrow>
          (let t = (if isGoSource (te_Path e) \<or> te_BlobHash e \<in> set rw then rewrite_ref b oldPath newPath 0 else b)
           in res = (if openFlag then Inl t else Inr (int (length t)))))"

text \<open>The files of the tree are stored, with the sizes the tree says; the invariant of the storage gives that.\<close>

definition sized_tree :: "storeObj \<Rightarrow> TreeEntryObj list \<Rightarrow> bool" where
  "sized_tree st treeArr = list_all (\<lambda>e. te_Mode e \<noteq> ModeFile \<or>
     (case map_of (st_pb st) (blobKey (te_BlobHash e)) of None \<Rightarrow> False | Some b \<Rightarrow> sint (te_SizeBytes e) = int (length b))) treeArr"

text \<open>C22: A Go module archive is faithful. Take the blobs that detection selected in the tree, and the files the
  builder makes of them for a host whose path differs. In whatever order the archive writer asks for sizes and
  contents, with or without hits of the cache: for a Go source it gets the stored content with every whole module
  path replaced, and its exact size, although only the selected blobs are rewritten; for any other file whose blob was not
  selected the stored content.\<close>

theorem go_archive_is_faithful:
  assumes "path_bytes (cd_GoModulePath c)" and "scanRewriteBlobs (ReadBlob E v) treeArr (cd_GoModulePath c) st = (Inr rw, st1)"
    and "rp_Rewrite (rewritePlan L obj key version det (Some c) lc)" and "sized_tree st1 treeArr"
    and "set (map snd accesses) \<subseteq> {e \<in> set treeArr. te_Mode e = ModeFile}"
    and "zip_run (ReadBlob E v') (gz_files (GoModuleZipBuilder L obj key version treeHash det (Some c) rw lc)) accesses
      (newRewriteCache n, st1) = (Inr out, cs')"
  shows "list_all2 (faithful_answer st1 rw (cd_GoModulePath c) (targetModulePath L obj key version lc)) accesses out"
proof -
  let ?old = "cd_GoModulePath c" and ?new = "targetModulePath L obj key version lc"
  let ?content = "\<lambda>h. map_of (st_pb st1) (blobKey h)"
  let ?g = "\<lparr>gf_rewriteSet = set rw, gf_oldArr = ?old, gf_newArr = ?new\<rparr>"
  note scan0 = stored.scanRewriteBlobs_Inr [OF assms(2)]
  have "map_of (st_pb st) (blobKey h) = ?content h" for h using scan0 by (metis (mono_tags, lifting))
  note scan = scan0 [unfolded this]
  have plan: "rewritePlan L obj key version det (Some c) lc = \<lparr>rp_OldArr = ?old, rp_NewArr = ?new, rp_Rewrite = True\<rparr>" "?new \<noteq> ?old"
    using assms(3) by (auto simp: rewritePlan_def Let_def split: if_splits)
  have g: "gz_files (GoModuleZipBuilder L obj key version treeHash det (Some c) rw lc) = ?g"
    unfolding GoModuleZipBuilder_def plan by (simp add: Let_def)
  have ref: "rewriteContent b ?old ?new = rewrite_ref b ?old ?new 0" for b
    using rewriteContent_ref [OF assms(1)] plan(2) by simp
  have unselected: "rewrite_ref b ?old ?new 0 = b"
    if e: "e \<in> set treeArr" "te_Mode e = ModeFile" "isGoSource (te_Path e)" "te_BlobHash e \<notin> set rw" "?content (te_BlobHash e) = Some b" for e b
  proof -
    have "\<not> containsModulePath b ?old" using scan e by blast
    then have "\<not> module_at b ?old i" for i using assms(1) by (auto simp: containsModulePath_iff path_bytes_def)
    then show ?thesis using ref_end [of 0 b ?old ?new] by simp
  qed
  have each: "faithful_answer st1 rw ?old ?new (openFlag, e) res"
    if r: "stored.answer_ok ?g st1 (openFlag, e) res" and e: "e \<in> set treeArr" "te_Mode e = ModeFile" for openFlag e res
  proof -
    obtain b where b: "?content (te_BlobHash e) = Some b" "sint (te_SizeBytes e) = int (length b)"
      using assms(4) e by (auto simp: sized_tree_def list_all_iff split: option.splits)
    have "stored.delivered ?g st1 (te_BlobHash e) =
        Some (if te_BlobHash e \<in> set rw then rewrite_ref b ?old ?new 0 else b)"
      using b(1) by (simp add: stored.delivered_def ref)
    then show ?thesis using r b unselected [OF e _ _ b(1)]
      by (cases openFlag; cases res) (auto simp: stored.answer_ok_def faithful_answer_def Let_def split: if_splits)
  qed
  have "zip_run (ReadBlob E v') ?g accesses (newRewriteCache n, st1) = (Inr out, (fst cs', snd cs'))"
    using assms(6) unfolding g by simp
  then have "list_all2 (stored.answer_ok ?g st1) accesses out"
    using stored.accesses_answered [OF _ stored.rw_cache_ok_new] by blast
  then show ?thesis
  proof (rule list.rel_mono_strong)
    fix a res assume a: "a \<in> set accesses" and r: "stored.answer_ok ?g st1 a res"
    have "snd a \<in> set treeArr" "te_Mode (snd a) = ModeFile" using assms(5) a by auto
    then show "faithful_answer st1 rw ?old ?new a res" using each [of "fst a" "snd a" res] r by simp
  qed
qed

text \<open>A tree with two Go files and a text, of which one file names the module.\<close>

definition toy_lib :: overlay_lib where
  "toy_lib = \<lparr>ol_ModulePath = (\<lambda>_. ''h/m''), ol_jsonName = (\<lambda>_. None), ol_Marshal = (\<lambda>_ _. None), ol_Unmarshal = (\<lambda>_. ([], [])),
     ol_CheckFiles = (\<lambda>_ _. ([], None)), ol_Quote = id, ol_Check = (\<lambda>_ _. True), ol_Major = (\<lambda>_. ''v1'')\<rparr>"

definition toy_overlay :: overlayObj where
  "toy_overlay = \<lparr>ov_rewriteEnabled = True, ov_domain = ''v'', ov_routingPrefix = [], ov_nested = False, ov_maxFileBytes = 0,
     ov_limits = sample_limits\<rparr>"

definition toy_candidate :: CandidateObj where
  "toy_candidate = \<lparr>cd_Ecosystem = EcosystemGo, cd_GoModulePath = ''h/m'', cd_ComposerName = [], cd_RewriteBlobs = [],
     cd_GoZipBlockReason = []\<rparr>"

definition toy_go_entry :: "string \<Rightarrow> string \<Rightarrow> u64 \<Rightarrow> TreeEntryObj" where
  "toy_go_entry p h n = \<lparr>te_Path = p, te_Mode = ModeFile, te_SizeBytes = n, te_BlobHash = hash_copy h\<rparr>"

definition toy_go_tree :: "TreeEntryObj list" where
  "toy_go_tree = [toy_go_entry ''a.go'' ''1'' 12, toy_go_entry ''b.go'' ''2'' 4, toy_go_entry ''c.txt'' ''3'' 3]"

definition toy_go_store :: storeObj where
  "toy_go_store = empty_store\<lparr>st_pb := [(blobKey (hash_copy ''1''), ''import h/m/x''), (blobKey (hash_copy ''2''), ''h/mm''),
     (blobKey (hash_copy ''3''), ''h/m'')]\<rparr>"

definition toy_detected :: DetectionObj where
  "toy_detected = \<lparr>d_IsGo = True, d_IsComposer = False, d_Conflict = False, d_EvidenceJSON = [], d_GoZipBlocked = False,
     d_GoZipBlockReason = []\<rparr>"

definition toy_listener :: ListenerCtxObj where
  "toy_listener = \<lparr>lc_ListenerID = ''web'', lc_EntryHost = [], lc_RoutePrefix = []\<rparr>"

definition toy_accesses :: "(bool \<times> TreeEntryObj) list" where
  "toy_accesses = map (Pair False) toy_go_tree @ map (Pair True) toy_go_tree"

definition toy_zip_run where
  "toy_zip_run = zip_run (ReadBlob toy_env False) (gz_files (GoModuleZipBuilder toy_lib toy_overlay ''app'' ''v1'' zero_hash toy_detected
     (Some toy_candidate) [hash_copy ''1''] toy_listener)) toy_accesses
     (newRewriteCache 0, snd (scanRewriteBlobs (ReadBlob toy_env False) toy_go_tree ''h/m'' toy_go_store))"

lemma toy_zip:
  "fst toy_zip_run = Inr [Inr 14, Inr 4, Inr 3, Inl ''import v/app/x'', Inl ''h/mm'', Inl ''h/m'']"
  "fst (scanRewriteBlobs (ReadBlob toy_env False) toy_go_tree ''h/m'' toy_go_store) = Inr [hash_copy ''1'']"
  "sized_tree (snd (scanRewriteBlobs (ReadBlob toy_env False) toy_go_tree ''h/m'' toy_go_store)) toy_go_tree"
  "rp_Rewrite (rewritePlan toy_lib toy_overlay ''app'' ''v1'' toy_detected (Some toy_candidate) toy_listener)"
  "path_bytes (cd_GoModulePath toy_candidate)"
  by code_simp+

theorem go_archive_is_faithful_witness:
  "list_all2 (faithful_answer (snd (scanRewriteBlobs (ReadBlob toy_env False) toy_go_tree ''h/m'' toy_go_store)) [hash_copy ''1''] ''h/m''
     (targetModulePath toy_lib toy_overlay ''app'' ''v1'' toy_listener)) toy_accesses
     [Inr 14, Inr 4, Inr 3, Inl ''import v/app/x'', Inl ''h/mm'', Inl ''h/m'']"
proof -
  have path: "cd_GoModulePath toy_candidate = ''h/m''" by (simp add: toy_candidate_def)
  have scan: "scanRewriteBlobs (ReadBlob toy_env False) toy_go_tree (cd_GoModulePath toy_candidate) toy_go_store =
      (Inr [hash_copy ''1''], snd (scanRewriteBlobs (ReadBlob toy_env False) toy_go_tree ''h/m'' toy_go_store))"
    using toy_zip(2) unfolding path by (metis prod.collapse)
  have run: "toy_zip_run = (Inr [Inr 14, Inr 4, Inr 3, Inl ''import v/app/x'', Inl ''h/mm'', Inl ''h/m''], snd toy_zip_run)"
    using toy_zip(1) by (metis prod.collapse)
  have "set (map snd toy_accesses) \<subseteq> {e \<in> set toy_go_tree. te_Mode e = ModeFile}"
    by (auto simp: toy_accesses_def toy_go_tree_def toy_go_entry_def)
  from go_archive_is_faithful [OF toy_zip(5) scan toy_zip(4,3) this run [unfolded toy_zip_run_def]]
  show ?thesis unfolding path .
qed

text \<open>C24: Names of Composer packages have one owner. With every key once: the list of names is sorted, without repeats and
  complete, a name belongs to the smallest key that declares it, and the collisions are exactly the other keys that
  declare it, each with the owner.\<close>

theorem composer_names_have_one_owner:
  assumes "distinct (map fst nameByKey)" and "ResolveComposerNames nameByKey = (names, owners, collisions)"
  shows "sorted names \<and> distinct names \<and> set names = snd ` set nameByKey \<and>
    (map_of owners n = Some k) = (map_of nameByKey k = Some n \<and> k = Min {k'. map_of nameByKey k' = Some n}) \<and>
    set collisions = {\<lparr>cc_Name = n, cc_Key = k, cc_ConflictingKey = Min {k'. map_of nameByKey k' = Some n}\<rparr> | n k.
      map_of nameByKey k = Some n \<and> k \<noteq> Min {k'. map_of nameByKey k' = Some n}}"
proof -
  let ?A = "\<lambda>n. {k'. map_of nameByKey k' = Some n}" and ?keys = "sort (map fst nameByKey)"
  have run: "resolve_from nameByKey [] [] ?keys = (owners, collisions)" and names: "names = sort (map fst owners)"
    using assms(2) by (auto simp: ResolveComposerNames_def split: prod.splits)
  have keys: "set ?keys = dom (map_of nameByKey)" by (simp add: dom_map_of_conv_image_fst)
  have falls: "sorted_wrt (<) ?keys" using assms(1) by (simp add: strict_sorted_iff)
  have start: "owned nameByKey {} [] (set [])" by (simp add: owned_def)
  have "owned nameByKey ({} \<union> set ?keys) owners (set collisions)"
    by (rule resolve_from_owned [OF run falls _ _ start]) (simp, simp only: keys subset_refl)
  then have o: "owned nameByKey (dom (map_of nameByKey)) owners (set collisions)" by (simp only: keys Un_empty_left)
  have fin: "finite (?A n)" for n by (rule finite_subset [of _ "dom (map_of nameByKey)"]) (auto simp: finite_dom_map_of)
  have own: "map_of owners n = Some k \<longleftrightarrow> map_of nameByKey k = Some n \<and> k = Min (?A n)" for n k
  proof
    assume "map_of owners n = Some k"
    then have "map_of nameByKey k = Some n" "\<forall>k' \<in> ?A n. k \<le> k'" unfolding ownedD(2) [OF o] by auto
    then show "map_of nameByKey k = Some n \<and> k = Min (?A n)" using Min_eqI [OF fin, of n k] by auto
  next
    assume "map_of nameByKey k = Some n \<and> k = Min (?A n)"
    then show "map_of owners n = Some k" unfolding ownedD(2) [OF o] using Min_le [OF fin] by auto
  qed
  have declared: "Min (?A n) \<in> ?A n" if "map_of nameByKey k = Some n" for n k using Min_in [OF fin, of n] that by blast
  have "set names = dom (map_of owners)" unfolding names by (simp add: dom_map_of_conv_image_fst)
  also have "\<dots> = ran (map_of nameByKey)" unfolding dom_def ran_def using own declared by blast
  also have "\<dots> = snd ` set nameByKey" by (rule ran_distinct [OF assms(1)])
  finally have "set names = snd ` set nameByKey" .
  moreover have "set collisions = {\<lparr>cc_Name = n, cc_Key = k, cc_ConflictingKey = Min (?A n)\<rparr> | n k.
      map_of nameByKey k = Some n \<and> k \<noteq> Min (?A n)}"
    unfolding ownedD(3) [OF o] own using declared by (intro set_eqI iffI) (blast, fastforce)
  moreover have "sorted names \<and> distinct names" unfolding names using ownedD(1) [OF o] by simp
  ultimately show ?thesis using own by blast
qed

theorem composer_names_have_one_owner_witness:
  "ResolveComposerNames [(''b'', ''v/x''), (''a'', ''v/x''), (''c'', ''v/y'')] =
     ([''v/x'', ''v/y''], [(''v/y'', ''c''), (''v/x'', ''a'')], [\<lparr>cc_Name = ''v/x'', cc_Key = ''b'', cc_ConflictingKey = ''a''\<rparr>]) \<and>
   Min {k'. map_of [(''b'', ''v/x''), (''a'', ''v/x''), (''c'', ''v/y'')] k' = Some ''v/x''} = ''a''"
proof -
  let ?m = "[(''b'', ''v/x''), (''a'', ''v/x''), (''c'', ''v/y'')]"
  have r: "ResolveComposerNames ?m =
     ([''v/x'', ''v/y''], [(''v/y'', ''c''), (''v/x'', ''a'')], [\<lparr>cc_Name = ''v/x'', cc_Key = ''b'', cc_ConflictingKey = ''a''\<rparr>])"
    by code_simp
  have "distinct (map fst ?m)" by simp
  from composer_names_have_one_owner [OF this r, of "''v/x''" "''a''"] show ?thesis using r by simp
qed

section \<open>The gate for Go routes\<close>

text \<open>A version with Go routes is an unambiguous Go version whose tree is not blocked, with a canonical name and a valid
  path; and what its archive declares is the served path: either the sources already do, or they are rewritten.\<close>

lemma publishable_is_consistent:
  assumes "GoPublishable sv L obj key version det candidate lc"
  shows "\<exists>c. candidate = Some c \<and> d_IsGo det \<and> \<not> d_Conflict det \<and> \<not> d_GoZipBlocked det \<and> IsCanonicalSemver sv version \<and>
    ol_Check L (targetModulePath L obj key version lc) version \<and>
    (cd_GoModulePath c = targetModulePath L obj key version lc \<or>
     rewritePlan L obj key version det candidate lc =
       \<lparr>rp_OldArr = cd_GoModulePath c, rp_NewArr = targetModulePath L obj key version lc, rp_Rewrite = True\<rparr>)"
proof -
  have "targetModulePath L obj key version lc \<noteq> []" by (simp add: targetModulePath_def Let_def)
  then show ?thesis using assms
    by (auto simp: GoPublishable_def rewritePlan_def Let_def split: option.splits if_splits)
qed

lemma plan_identities:
  "set (map (\<lambda>pl. (pl_MaterializerID pl, pl_ArtifactKind pl, pl_ListenerID pl)) (ArtifactPlan sv L obj key version h det candidate rw lcs)) =
     {(''universal'', ''zip'', ''global''), (''universal'', ''tar.gz'', ''global'')} \<union>
     {(''go'', ''zip'', lc_ListenerID lc) | lc. lc \<in> set lcs \<and> GoPublishable sv L obj key version det candidate lc}"
  by (auto simp: ArtifactPlan_def universalFormatArr_def universalPlan_def)

section \<open>The list of versions\<close>

lemma version_list_falls:
  assumes "semver_order sv" "\<forall>v \<in> set versionArr. sv_valid sv (canonicalForCompare v)"
  shows "mset (sortSemverDesc sv versionArr) = mset versionArr \<and>
    sorted_wrt (\<lambda>v w. sv_compare sv (canonicalForCompare w) (canonicalForCompare v) \<le> 0) (sortSemverDesc sv versionArr)"
proof -
  have m: "mset (sortSemverDesc sv versionArr) = mset versionArr" by (simp add: sortSemverDesc_def SliceStable_mset)
  then have s: "set (sortSemverDesc sv versionArr) = set versionArr" by (metis set_mset_mset)
  have "sorted_wrt (\<lambda>v w. \<not> semver_desc sv w v) (sortSemverDesc sv versionArr)"
    unfolding sortSemverDesc_def by (rule SliceStable_sorted) (use semver_desc_orders [OF assms(1)] assms(2) in blast)+
  then have "sorted_wrt (\<lambda>v w. sv_compare sv (canonicalForCompare w) (canonicalForCompare v) \<le> 0) (sortSemverDesc sv versionArr)"
    by (rule sorted_wrt_mono_rel [rotated]) (use assms(2) s in \<open>auto simp: semver_desc_def CompareSemver_def Let_def\<close>)
  then show ?thesis using m by blast
qed

end
