(* ===== verification/Spec2Isabelle.thy ===== *)
theory Spec2Isabelle
  imports Util_Version Archive_Limits Archive_Write Cache State_Theorems Store_Theorems Rescan_Properties Session_Properties Overlay_Properties
begin

text \<open>
  A verification development for yggvault, a mirror that keeps released versions of source
  repositories and serves them as Go modules, Composer packages and archives. All paths below are
  under \<open>src/mod\<close>.

  \<^bold>\<open>The program.\<close> A scan asks an upstream for its versions, downloads an archive, extracts it
  (\<open>archive\<close>) into blobs of a spool and hands entries and blobs to the storage (\<open>storage\<close>).
  The storage keeps contents and trees under their digests in Pebble (\<open>storage/pebblestore\<close>,
  trees encoded by \<open>storage/treecodec\<close>) and everything that can be listed in SQLite
  (\<open>storage/sqliteindex\<close>): versions, detection, artifacts, history and the reference counts of
  the blobs. A quota evicts versions, a collector removes what no version needs. The state registry
  (\<open>state\<close>) keeps the availability of the mirrors and their diagnostics and publishes snapshots to
  the server, which answers from two caches (\<open>cache\<close>, \<open>server/objcache.go\<close>).

  \<^bold>\<open>The theories.\<close>
  \<^item> \<open>Prelude\<close> (results as sums, words, lists, paths) and \<open>Triples\<close> (operations
    \<open>'s \<Rightarrow> ('e + 'a) \<times> 's\<close>, their sequencing, and Hoare triples with an error postcondition).
  \<^item> \<open>Core\<close>: \<open>core/hash.go\<close>, \<open>core/tree.go\<close>, \<open>core/staged.go\<close>. A digest is a
    type of 24-byte strings; BLAKE3 is a parameter \<open>H\<close>.
  \<^item> \<open>Util_Path\<close>, \<open>Util_Map\<close>, \<open>Util_Version\<close>: \<open>internal/util\<close>. Path hygiene, the
    two-generation map, version names. A locale states what a generational map promises to its
    clients; \<open>golang.org/x/mod/semver\<close> is the parameter \<open>semver_api\<close>.
  \<^item> \<open>TreeCodec\<close>: \<open>storage/treecodec/codec.go\<close>, with the varints of the standard library.
    Round trip, canonicity, and that only safe trees decode.
  \<^item> \<open>Archive_Extract\<close>, \<open>Archive_Inv\<close>, \<open>Archive_Formats\<close>: \<open>archive/\<close> (zip,
    tar, tar.gz). The standard library's parsers are the sequence of headers and read results they
    deliver, the file system is a map of the spool that may fail at every call. \<open>Archive_Limits\<close> says what
    an archive within all limits is and that only such archives are accepted.
    \<open>Archive_Write\<close>: \<open>archive/write.go\<close>.
  \<^item> \<open>Cache\<close>: \<open>cache/\<close>, \<open>server/objcache.go\<close>, \<open>server/peerlimit.go\<close>.
  \<^item> \<open>State_Defs\<close>, \<open>State_Ops\<close>, \<open>State_Diag\<close>, \<open>State_Obj\<close> model \<open>state/\<close>;
    \<open>State_Inv\<close>, \<open>State_Keys\<close>, \<open>State_Registry\<close>, \<open>State_Health\<close>, \<open>State_Steps\<close>,
    \<open>State_Props\<close> hold its invariant (the intrusive list of inactive records, the cached
    snapshot, the key index) and the step relation. \<open>State_Age\<close> measures on a history of states how long a record
    has been inactive and shows that the list of inactive records is in that order; \<open>State_Theorems\<close> has the properties.
  \<^item> \<open>Store_Defs\<close> (rows, keys, environment, state), \<open>Store_Index\<close> and \<open>Store_Meta\<close>
    (\<open>sqliteindex/version.go\<close>, \<open>metadata.go\<close>, \<open>artifact.go\<close>, \<open>history.go\<close>),
    \<open>Store_Pebble\<close> (\<open>pebblestore/\<close>), \<open>Store_Ops\<close> (\<open>pebble.go\<close>, deletion,
    \<open>quota.go\<close>), \<open>Store_Publish\<close> (\<open>validate.go\<close>, \<open>ingest.go\<close>), \<open>Store_Version\<close>
    (\<open>version.go\<close>, \<open>version_mutation.go\<close>), \<open>Store_Staged\<close> (\<open>staged.go\<close> and the other
    mutations), \<open>Store_Gc\<close> (\<open>maintenance.go\<close>) model the storage.
    \<open>Store_Frame\<close> says which operations only read, \<open>Store_Tables\<close> what the statements do to
    counts, \<open>Store_Inv\<close> states the invariant \<open>consistent\<close>, \<open>Store_Delete\<close>,
    \<open>Store_Evict\<close>, \<open>Store_Quota\<close>, \<open>Store_Commit\<close>, \<open>Store_Write\<close>,
    \<open>Store_Entry\<close>, \<open>Store_Spool\<close>, \<open>Store_Repair\<close> prove that every operation keeps
    it, \<open>Store_Paging\<close> holds the contract of a keyset-paged table as a locale and its four
    interpretations. \<open>Store_Steps\<close> puts all operations into one step relation,
    \<open>Store_Sample\<close> evaluates three publications in the kernel, \<open>Store_Theorems\<close> has the
    properties. \<open>Store_Artifact\<close> (\<open>artifact.go\<close>, \<open>history.go\<close>) and \<open>Store_Read\<close> (the
    reading half of \<open>version.go\<close>) complete the operations.
  \<^item> \<open>Rescan_Defs\<close> (rows, lists of versions, positions, deletion grace: \<open>rescan/deletion.go\<close> and
    parts of \<open>rescan/ingest.go\<close>), \<open>Rescan_Base\<close> (the world of the rescan, diagnostics),
    \<open>Rescan_Quarantine\<close> (\<open>storage/quarantine.go\<close>, \<open>storage/key_source.go\<close>, \<open>rescan/helper.go\<close>),
    \<open>Rescan_Ingest\<close> and \<open>Rescan_Git\<close> (\<open>rescan/ingest.go\<close>), \<open>Rescan_Brother\<close>
    (\<open>rescan/brother.go\<close>) and \<open>Rescan_Cycle\<close> (\<open>runKey\<close>, \<open>source/public_mirror.go\<close>,
    \<open>rescan/cycle.go\<close>) model a pass over a key; it composes the storage, the registry and the
    quarantine. \<open>Rescan_Theorems\<close> reasons about grace and positions, \<open>Rescan_Safe\<close> states as a
    locale what every step of a pass may do, \<open>Rescan_Tables\<close> interprets it with the invariant of
    all three states, \<open>Rescan_Trees\<close> and \<open>Rescan_Installs\<close> follow the trees of the versions,
    \<open>Rescan_Sample\<close> is a small world, \<open>Rescan_Properties\<close> has the properties.
  \<^item> \<open>Session_Server\<close> (\<open>server/brother/\<close>, \<open>brotherwire/\<close>) and \<open>Session_Client\<close>
    (\<open>source/brother.go\<close>) model the two sides of a session between siblings, the first as operations of
    the storage, the second against a peer that is any four functions of a state. \<open>Session_Theorems\<close> puts
    them together, \<open>Rescan_Loops\<close> bounds the loops of the rescan that a sibling drives,
    \<open>Session_Properties\<close> has the properties.
  \<^item> \<open>Overlay_Rewrite\<close> (\<open>overlay/rewrite.go\<close>), \<open>Overlay_Detect\<close> (\<open>detect.go\<close>,
    \<open>goviability.go\<close>) and \<open>Overlay_Build\<close> (the builders, the plan, the gate of Go routes, lists and
    names) model the overlay, over any source of blobs; the locale \<open>blob_source\<close> of
    \<open>Overlay_Theorems\<close> states what it needs of one, and the storage is one by \<open>Store_Content\<close>.
    \<open>Overlay_Properties\<close> has the properties.

  \<^bold>\<open>How state and effects are modelled.\<close> A Go struct is a record, an operation a function that returns
  a result (\<open>Inl\<close> an error, \<open>Inr\<close> a value) and the new state. Operations that run under one
  mutex (\<open>lockObj\<close> of the registry, \<open>writeMu\<close> of the storage) are single steps, and the step
  relations interleave them in any order; the collector, which gives the lock up between its batches, has
  its batches as steps. Unsigned integers have their width where they can wrap; times are
  integers. In the storage every call of SQLite, of Pebble, of a file or of the context asks the
  environment whether it succeeds, so the theorems speak about every pattern of failing calls; what the
  theorems use of the two libraries is that a failed transaction is rolled back and that a
  batch is atomic. Digests have 24 bytes, so no digest function is injective; the theorems
  assume that no collision occurs among the byte strings \<open>U\<close> that occur.

  \<^bold>\<open>Loops and fuel.\<close> A loop over a list is structural. The keyset walks and the eviction loops
  page through tables while they delete; they take fuel, \<open>None\<close> stands for a loop
  still running, and it is proved that \<open>walk_fuel\<close> and \<open>evict_fuel\<close> (the number of rows
  and two more) are always enough: C11 and the lemma \<open>reachable_walk_complete\<close>. The read loops of the extractor are bounded by the
  script that the reader delivers.

  \<^bold>\<open>The world of a rescan.\<close> What the upstreams, the overlays, the extractor, the context and the clock
  answer is the record \<open>rescan_env\<close> of functions of a counter that every question advances: a sibling may
  change its mind between two questions. The theorems hold for all such functions; what they
  assume of them (\<open>rescan_covered\<close>) is only that the encoded trees that arrive are among the byte
  strings \<open>U\<close> without collisions. A pass runs as one operation here; the locale
  \<open>rescan_invariant\<close> speaks of its single steps, which the store and the registry serialise,
  so its law also covers passes over different keys that interleave. Error texts are empty strings.

  \<^bold>\<open>What the properties show.\<close> C1 to C12: the storage. Stored versions stay readable and counts
  exact in every reachable state; publications, inline and from a spool, are all or nothing; the quota is
  respected, spares what it has to, and ends; collection and repair are safe; what is published can
  be read; and the one way in which a historical name can block a key. C13 to C17: the rescan. A
  pass keeps all three states in order; an import installs the announced tree or none, and beside it only the quota
  (a run of \<open>ensureDurableBudgetProtectedLocked\<close>) takes versions away; the deletion
  grace takes only what it may; positions are fresh. C18 to C21: sessions between siblings. Between two
  nodes that run this program the index is complete, trees and blobs arrive as they are stored; whatever a
  peer does, what is staged hashes to its digest and a pass is not held up. C22 to C24: the overlay. A Go module archive
  delivers the stored sources with the module path rewritten, rewriting is exact, package names have one owner. C25 to C28: path
  hygiene and the generational map. C29 to C31: the tree codec. C32 to C36: extraction
  (with every configured limit, on what is read and on what comes out) and writing of archives. C37: the byte
  cache. C38 to C40: the state registry: its snapshot, its count of an outage, and that it is bounded and gives up only the
  record that has been inactive longest.

  \<^bold>\<open>Not modelled.\<close> Files of materialised artifacts (the hot cache): they are
  checked with inode numbers and can be rebuilt. SQL text, migrations and schema checks, SQLite and
  Pebble themselves. The loop that starts the passes in parallel and the report of
  composer names at its end, the HTTP clients of the scans, how a session is dialled and encoded, the documents of Composer packages,
  the HTTP handlers, views, mesh, configuration, logging and metrics: they are mostly calls of
  libraries over the components above. Build gates (singleflight, semaphores) order work and hold no data.
\<close>

end
